(* ===== verification/Prelude.thy ===== *)
theory Prelude
  imports Main "HOL-Library.Word"
begin

unbundle bit_operations_syntax

text \<open>
  Shared vocabulary of the development: the machine integer types of the C code, the
  outcome type that makes every assertion, panic, undefined access and \<open>longjmp\<close> of the
  emulator a value, the state combinators the operations are written with, a predicate
  transformer for reasoning about them, and the byte-level facts about 32-bit words
  (little-endian reads and writes) that the memory components share.
\<close>

section \<open>Machine integers\<close>

type_synonym u8 = "8 word"
type_synonym u16 = "16 word"
type_synonym u32 = "32 word"
type_synonym u64 = "64 word"

section \<open>Outcomes and state combinators\<close>

text \<open>
  \<open>AssertFail\<close> is a failed \<open>assert\<close>, \<open>Panic\<close> a \<open>panic\<close> or \<open>Assert(0, ...)\<close> with a
  message, \<open>OutOfBounds\<close> an array access outside its bounds (undefined in C),
  \<open>DivideError\<close> a C division by zero or an overflowing C division (the host process gets
  a signal), \<open>OutOfFuel\<close> marks that a bounded rendering of an unbounded recursion ran
  out of its bound, \<open>NullDeref\<close> and \<open>Dangling\<close> are uses of bad pointers,
  \<open>Exited\<close> is a call of \<open>exit\<close>, \<open>Uninitialised\<close> the use of a variable that was never assigned,
  \<open>Undefined\<close> another operation that C leaves undefined.
\<close>

datatype error = AssertFail | Panic | OutOfBounds | DivideError | OutOfFuel | NullDeref | Dangling | Exited | Uninitialised | Undefined

text \<open>
  \<open>Ret x s\<close>: the C function returned \<open>x\<close> in state \<open>s\<close>. \<open>Jmp s\<close>: control left through
  \<open>longjmp(jbuf, 1)\<close>. \<open>Err e\<close>: the host process stopped.
\<close>

datatype ('s, 'a) outcome = Ret 'a 's | Jmp 's | Err error

type_synonym ('s, 'a) M = "'s \<Rightarrow> ('s, 'a) outcome"

abbreviation ret :: "'a \<Rightarrow> ('s, 'a) M" where
  "ret \<equiv> Ret"

definition fail :: "error \<Rightarrow> ('s, 'a) M" where
  "fail e s = Err e"

definition bindM :: "('s, 'a) M \<Rightarrow> ('a \<Rightarrow> ('s, 'b) M) \<Rightarrow> ('s, 'b) M" where
  "bindM m f s = (case m s of Ret x t \<Rightarrow> f x t | Jmp t \<Rightarrow> Jmp t | Err e \<Rightarrow> Err e)"

definition seqM :: "('s, 'a) M \<Rightarrow> ('s, 'b) M \<Rightarrow> ('s, 'b) M" where
  "seqM m n = bindM m (\<lambda>_. n)"

definition assertM :: "bool \<Rightarrow> ('s, unit) M" where
  "assertM b = (if b then ret () else fail AssertFail)"

definition getM :: "('s \<Rightarrow> 'a) \<Rightarrow> ('s, 'a) M" where
  "getM f s = Ret (f s) s"

definition modM :: "('s \<Rightarrow> 's) \<Rightarrow> ('s, unit) M" where
  "modM f s = Ret () (f s)"

definition whenM :: "bool \<Rightarrow> ('s, unit) M \<Rightarrow> ('s, unit) M" where
  "whenM b m = (if b then m else ret ())"

text \<open>A \<open>for\<close> loop over the given indices.\<close>

fun forM :: "'i list \<Rightarrow> ('i \<Rightarrow> ('s, unit) M) \<Rightarrow> ('s, unit) M" where
  "forM [] body = ret ()"
| "forM (i # is) body = seqM (body i) (forM is body)"

text \<open>Run an operation of a component on its part of a larger state.\<close>

definition zoom :: "('s \<Rightarrow> 't) \<Rightarrow> ('t \<Rightarrow> 's \<Rightarrow> 's) \<Rightarrow> ('t, 'a) M \<Rightarrow> ('s, 'a) M" where
  "zoom g p m s =
     (case m (g s) of Ret x t \<Rightarrow> Ret x (p t s) | Jmp t \<Rightarrow> Jmp (p t s) | Err e \<Rightarrow> Err e)"

lemmas monad_defs = fail_def bindM_def seqM_def assertM_def getM_def modM_def
  whenM_def zoom_def

subsection \<open>Running the combinators\<close>

named_theorems run_simps \<open>evaluation rules for the state combinators\<close>

lemma run_fail [run_simps, simp]: "fail e s = Err e"
  by (simp add: fail_def)

lemma run_getM [run_simps, simp]: "getM f s = Ret (f s) s"
  by (simp add: getM_def)

lemma run_modM [run_simps, simp]: "modM f s = Ret () (f s)"
  by (simp add: modM_def)

lemma run_assertM [run_simps]: "assertM b s = (if b then Ret () s else Err AssertFail)"
  by (simp add: assertM_def)

lemma run_assertM_True [simp]: "b \<Longrightarrow> assertM b s = Ret () s"
  by (simp add: run_simps)

lemma run_assertM_False [simp]: "\<not> b \<Longrightarrow> assertM b s = Err AssertFail"
  by (simp add: run_simps)

lemma run_whenM [run_simps]: "whenM b m s = (if b then m s else Ret () s)"
  by (simp add: whenM_def)

lemma bindM_Ret [simp]: "m s = Ret x t \<Longrightarrow> bindM m f s = f x t"
  by (simp add: bindM_def)

lemma bindM_Err [simp]: "m s = Err e \<Longrightarrow> bindM m f s = Err e"
  by (simp add: bindM_def)

lemma bindM_Jmp [simp]: "m s = Jmp t \<Longrightarrow> bindM m f s = Jmp t"
  by (simp add: bindM_def)

lemma seqM_Ret [simp]: "m s = Ret x t \<Longrightarrow> seqM m n s = n t"
  by (simp add: seqM_def)

lemma seqM_Err [simp]: "m s = Err e \<Longrightarrow> seqM m n s = Err e"
  by (simp add: seqM_def)

lemma seqM_Jmp [simp]: "m s = Jmp t \<Longrightarrow> seqM m n s = Jmp t"
  by (simp add: seqM_def)

lemma zoom_Ret [simp]: "m (g s) = Ret x t \<Longrightarrow> zoom g p m s = Ret x (p t s)"
  by (simp add: zoom_def)

lemma zoom_Err [simp]: "m (g s) = Err e \<Longrightarrow> zoom g p m s = Err e"
  by (simp add: zoom_def)

subsection \<open>Total correctness: a predicate transformer\<close>

text \<open>
  \<open>wp m Q s\<close>: started in \<open>s\<close>, \<open>m\<close> returns normally and its result and final state satisfy
  \<open>Q\<close>. Because only \<open>Ret\<close> satisfies it, a proved \<open>wp\<close> includes the absence of failed
  assertions, undefined accesses and non-local exits.
\<close>

definition wp :: "('s, 'a) M \<Rightarrow> ('a \<Rightarrow> 's \<Rightarrow> bool) \<Rightarrow> 's \<Rightarrow> bool" where
  "wp m Q s = (case m s of Ret x t \<Rightarrow> Q x t | Jmp t \<Rightarrow> False | Err e \<Rightarrow> False)"

named_theorems wp_simps \<open>the predicate transformer on the combinators\<close>

lemma wp_ret [wp_simps]: "wp (ret x) Q = Q x"
  by (rule ext) (simp add: wp_def)

lemma wp_bindM [wp_simps]: "wp (bindM m f) Q = wp m (\<lambda>x. wp (f x) Q)"
  by (rule ext) (simp add: wp_def bindM_def split: outcome.splits)

lemma wp_seqM [wp_simps]: "wp (seqM m n) Q = wp m (\<lambda>_. wp n Q)"
  by (simp add: seqM_def wp_bindM)

lemma wp_getM [wp_simps]: "wp (getM f) Q = (\<lambda>s. Q (f s) s)"
  by (rule ext) (simp add: wp_def)

lemma wp_modM [wp_simps]: "wp (modM f) Q = (\<lambda>s. Q () (f s))"
  by (rule ext) (simp add: wp_def)

lemma wp_assertM [wp_simps]: "wp (assertM b) Q = (\<lambda>s. b \<and> Q () s)"
  by (rule ext) (simp add: wp_def run_simps)

lemma wp_whenM [wp_simps]: "wp (whenM b m) Q = (if b then wp m Q else Q ())"
  by (rule ext) (simp add: wp_def run_simps)

lemma wp_fail [wp_simps]: "wp (fail e) Q = (\<lambda>s. False)"
  by (rule ext) (simp add: wp_def)

lemma wp_zoom [wp_simps]: "wp (zoom g p m) Q = (\<lambda>s. wp m (\<lambda>x t. Q x (p t s)) (g s))"
  by (rule ext) (simp add: wp_def zoom_def split: outcome.splits)

lemma wp_if [wp_simps]: "wp (if b then m else n) Q = (if b then wp m Q else wp n Q)"
  by simp

lemma wp_mono: "wp m Q s \<Longrightarrow> (\<And>x t. Q x t \<Longrightarrow> R x t) \<Longrightarrow> wp m R s"
  by (auto simp: wp_def split: outcome.splits)

lemma wp_conj: "wp m Q s \<Longrightarrow> wp m R s \<Longrightarrow> wp m (\<lambda>x t. Q x t \<and> R x t) s"
  by (auto simp: wp_def split: outcome.splits)

lemma wp_RetD: "wp m Q s \<Longrightarrow> \<exists>x t. m s = Ret x t \<and> Q x t"
  by (auto simp: wp_def split: outcome.splits)

lemma wp_RetI: "m s = Ret x t \<Longrightarrow> Q x t \<Longrightarrow> wp m Q s"
  by (simp add: wp_def)

lemma wp_Ret_iff: "wp m Q s \<longleftrightarrow> (\<exists>x t. m s = Ret x t \<and> Q x t)"
  by (auto simp: wp_def split: outcome.splits)

text \<open>Loop rule: an invariant indexed by the prefix of indices already done.\<close>

lemma wp_forM:
  assumes "I [] s"
    and "\<And>done i rest t. is = done @ i # rest \<Longrightarrow> I done t \<Longrightarrow> wp (body i) (\<lambda>_. I (done @ [i])) t"
    and "\<And>t. I is t \<Longrightarrow> Q () t"
  shows "wp (forM is body) Q s"
proof -
  have "wp (forM rest body) (\<lambda>_. I is) t" if "is = done @ rest" "I done t" for "done" rest t
    using that
  proof (induction rest arbitrary: "done" t)
    case Nil
    then show ?case by (simp add: wp_simps)
  next
    case (Cons i rest)
    then have "wp (body i) (\<lambda>_. I (done @ [i])) t" by (simp add: assms(2))
    then have "wp (body i) (\<lambda>_. wp (forM rest body) (\<lambda>_. I is)) t"
      by (rule wp_mono) (rule Cons.IH, use Cons.prems in auto)
    then show ?case by (simp add: wp_simps)
  qed
  from this [of "[]" "is"] assms(1) have "wp (forM is body) (\<lambda>_. I is) s" by simp
  then show ?thesis by (rule wp_mono) (simp add: assms(3))
qed

text \<open>The loop over \<open>0, ..., n - 1\<close> that the C code writes \<open>for (i = 0; i < n; i++)\<close>.\<close>

lemma wp_for_upt:
  assumes "I 0 s"
    and "\<And>i t. i < n \<Longrightarrow> I i t \<Longrightarrow> wp (body i) (\<lambda>_. I (Suc i)) t"
    and "\<And>t. I n t \<Longrightarrow> Q () t"
  shows "wp (forM [0..<n] body) Q s"
proof (rule wp_forM [where I = "\<lambda>done. I (length done)"])
  show "I (length []) s" using assms(1) by simp
next
  fix "done" i rest t
  assume split: "[0..<n] = done @ i # rest" and I: "I (length done) t"
  from split have "length [0..<n] = length (done @ i # rest)" by (rule arg_cong)
  then have len: "length done < n" by simp
  from split have "i = [0..<n] ! length done" by simp
  with len have "i = length done" by simp
  with assms(2) [OF len I] show "wp (body i) (\<lambda>_. I (length (done @ [i]))) t" by simp
next
  fix t
  assume "I (length [0..<n]) t"
  then show "Q () t" using assms(3) by simp
qed

text \<open>
  A \<open>while\<close> loop cut off after \<open>n\<close> rounds; the test may have effects. The rule asks for a measure
  that every round decreases, so it also proves that \<open>n\<close> rounds are enough.
\<close>

primrec whileM :: "nat \<Rightarrow> ('s, bool) M \<Rightarrow> ('s, unit) M \<Rightarrow> ('s, unit) M" where
  "whileM 0 c b = bindM c (\<lambda>x. if x then fail OutOfFuel else ret ())"
| "whileM (Suc n) c b = bindM c (\<lambda>x. if x then seqM b (whileM n c b) else ret ())"

lemma wp_whileM:
  assumes "I s" "f s \<le> n"
    and step: "\<And>t. I t \<Longrightarrow> wp c (\<lambda>x u. if x then wp b (\<lambda>_ v. I v \<and> f v < (f t :: nat)) u else Q () u) t"
  shows "wp (whileM n c b) Q s"
  using assms(1,2)
proof (induction n arbitrary: s)
  case 0
  from step [OF 0(1)] show ?case unfolding whileM.simps wp_bindM
    by (rule wp_mono) (use 0(2) in \<open>auto simp: wp_simps wp_Ret_iff split: if_splits\<close>)
next
  case (Suc n)
  from step [OF Suc.prems(1)] show ?case unfolding whileM.simps wp_bindM
  proof (rule wp_mono)
    fix x u assume h: "if x then wp b (\<lambda>_ v. I v \<and> f v < f s) u else Q () u"
    show "wp (if x then seqM b (whileM n c b) else ret ()) Q u"
    proof (cases x)
      case True
      with h have "wp b (\<lambda>_ v. I v \<and> f v < f s) u" by simp
      then have "wp b (\<lambda>_. wp (whileM n c b) Q) u"
        by (rule wp_mono) (use Suc.IH Suc.prems(2) in auto)
      with True show ?thesis by (simp add: wp_simps)
    qed (use h in \<open>simp add: wp_simps\<close>)
  qed
qed

section \<open>Finding the first index\<close>

text \<open>
  The search loops of the caches and the TLB: \<open>for (i = 0; i < n; i++) if (p(i)) break;\<close>
  leaves \<open>i\<close> at the first hit, or at \<open>n\<close>.
\<close>

definition find_way :: "nat \<Rightarrow> (nat \<Rightarrow> bool) \<Rightarrow> nat option" where
  "find_way n p = List.find p [0..<n]"

lemma find_way_None: "find_way n p = None \<longleftrightarrow> (\<forall>i<n. \<not> p i)"
  by (auto simp: find_way_def find_None_iff)

lemma find_way_Some: "find_way n p = Some i \<longleftrightarrow> i < n \<and> p i \<and> (\<forall>j<i. \<not> p j)"
proof
  assume "find_way n p = Some i"
  then obtain k where "k < n" "p ([0..<n] ! k)" "i = [0..<n] ! k" "\<forall>j<k. \<not> p ([0..<n] ! j)"
    by (auto simp: find_way_def find_Some_iff)
  then show "i < n \<and> p i \<and> (\<forall>j<i. \<not> p j)" by auto
next
  assume "i < n \<and> p i \<and> (\<forall>j<i. \<not> p j)"
  then show "find_way n p = Some i"
    by (auto simp: find_way_def find_Some_iff intro!: exI [of _ i])
qed

lemma find_way_SomeD: "find_way n p = Some i \<Longrightarrow> i < n \<and> p i"
  by (simp add: find_way_Some)

lemma find_way_unique:
  assumes i: "i < n" "p i" and unique: "\<And>j. j < n \<Longrightarrow> p j \<Longrightarrow> j = i"
  shows "find_way n p = Some i"
proof -
  have "\<forall>j<i. \<not> p j"
  proof (intro allI impI notI)
    fix j assume "j < i" "p j"
    with i(1) unique [of j] show False by simp
  qed
  with i show ?thesis by (simp add: find_way_Some)
qed

lemma find_way_cong:
  assumes "\<And>i. i < n \<Longrightarrow> p i = q i"
  shows "find_way n p = find_way n q"
proof (cases "find_way n q")
  case None
  moreover from None assms have "find_way n p = None" by (simp add: find_way_None)
  ultimately show ?thesis by simp
next
  case (Some i)
  then have "i < n \<and> p i \<and> (\<forall>j<i. \<not> p j)" using assms by (auto simp: find_way_Some)
  then have "find_way n p = Some i" by (simp add: find_way_Some)
  with Some show ?thesis by simp
qed

section \<open>Bytes of a word\<close>

text \<open>
  The emulator reads and writes guest memory through \<open>unalign_rw(p, 4)\<close>, four bytes in
  little-endian order; \<open>byte_at i x\<close> is byte \<open>i\<close> of \<open>x\<close> and \<open>le32 f\<close> the word whose bytes
  are \<open>f 0, ..., f 3\<close>. \<open>len_mask len\<close> is the C expression \<open>~0u >> ((4 - len) << 3)\<close>.
\<close>

definition byte_at :: "nat \<Rightarrow> u32 \<Rightarrow> u8" where
  "byte_at i x = ucast (drop_bit (8 * i) x)"

definition le32 :: "(nat \<Rightarrow> u8) \<Rightarrow> u32" where
  "le32 f = ucast (f 0) OR push_bit 8 (ucast (f 1)) OR push_bit 16 (ucast (f 2))
     OR push_bit 24 (ucast (f 3))"

definition len_mask :: "nat \<Rightarrow> u32" where
  "len_mask len = drop_bit ((4 - len) * 8) (NOT 0)"

lemma nat_lt_4: "(i::nat) < 4 \<Longrightarrow> i = 0 \<or> i = 1 \<or> i = 2 \<or> i = 3"
  by auto

lemma bit_byte_at: "bit (byte_at i x) k \<longleftrightarrow> k < 8 \<and> bit x (8 * i + k)"
  by (auto simp: byte_at_def bit_simps)

lemma div_mod_block: "b * k \<le> (n::nat) \<Longrightarrow> n < b * k + b \<Longrightarrow> n div b = k \<and> n mod b = n - b * k"
proof -
  assume "b * k \<le> n" "n < b * k + b"
  then have "n div b = k" by (intro div_nat_eqI) (simp_all add: mult.commute)
  then show ?thesis by (simp add: modulo_nat_def mult.commute)
qed

lemma next_block_div:
  fixes a b n :: nat
  assumes "0 < b" "a mod b + n > b" "n \<le> b"
  shows "(a + n - 1) div b = a div b + 1"
proof (rule div_nat_eqI)
  obtain d m where dm: "a = b * d + m" "m < b" "a div b = d" "a mod b = m"
    using that [of "a div b" "a mod b"] assms(1) by simp
  show "b * (a div b + 1) \<le> a + n - 1" "a + n - 1 < b * Suc (a div b + 1)"
    using assms dm by (simp_all add: algebra_simps)
qed

lemma bit_le32: "n < 32 \<Longrightarrow> bit (le32 f) n \<longleftrightarrow> bit (f (n div 8)) (n mod 8)"
proof -
  assume "n < 32"
  then consider "n < 8" | "8 \<le> n" "n < 16" | "16 \<le> n" "n < 24" | "24 \<le> n" "n < 32"
    by linarith
  then show ?thesis
  proof cases
    case 1
    then show ?thesis by (simp add: le32_def bit_simps)
  next
    case 2
    then have "n div 8 = 1" "n mod 8 = n - 8" using div_mod_block [of 8 1 n] by simp_all
    with 2 show ?thesis by (auto simp: le32_def bit_simps dest: bit_imp_le_length)
  next
    case 3
    then have "n div 8 = 2" "n mod 8 = n - 16" using div_mod_block [of 8 2 n] by simp_all
    with 3 show ?thesis by (auto simp: le32_def bit_simps dest: bit_imp_le_length)
  next
    case 4
    then have "n div 8 = 3" "n mod 8 = n - 24" using div_mod_block [of 8 3 n] by simp_all
    with 4 show ?thesis by (auto simp: le32_def bit_simps dest: bit_imp_le_length)
  qed
qed

lemma byte_at_le32 [simp]: "i < 4 \<Longrightarrow> byte_at i (le32 f) = f i"
  by (rule bit_eqI) (auto simp: bit_byte_at bit_le32 dest: bit_imp_le_length)

lemma le32_cong: "(\<And>i. i < 4 \<Longrightarrow> f i = g i) \<Longrightarrow> le32 f = le32 g"
  by (simp add: le32_def)

lemma u32_eq_bytesI:
  fixes x y :: u32
  assumes "\<And>i. i < 4 \<Longrightarrow> byte_at i x = byte_at i y"
  shows "x = y"
proof (rule bit_word_eqI)
  fix n assume n: "n < LENGTH(32)"
  then have "byte_at (n div 8) x = byte_at (n div 8) y" by (intro assms) simp
  then have "bit (byte_at (n div 8) x) (n mod 8) = bit (byte_at (n div 8) y) (n mod 8)" by simp
  then show "bit x n = bit y n" by (simp add: bit_byte_at)
qed

lemma le32_byte_at [simp]: "le32 (\<lambda>i. byte_at i x) = x"
  by (rule u32_eq_bytesI) simp

lemma bit_len_mask: "bit (len_mask len) n \<longleftrightarrow> n < 32 - (4 - len) * 8"
  by (auto simp: len_mask_def bit_simps)

lemma byte_at_len_mask [simp]:
  "i < 4 \<Longrightarrow> len \<le> 4 \<Longrightarrow> byte_at i (x AND len_mask len) = (if i < len then byte_at i x else 0)"
  by (rule bit_eqI) (auto simp: bit_byte_at bit_and_iff bit_len_mask)

lemma byte_at_0 [simp]: "byte_at i 0 = 0"
  by (simp add: byte_at_def)

lemma byte_at_ucast [simp]: "byte_at 0 (ucast (b::u8)) = b"
  by (rule bit_eqI) (auto simp: bit_byte_at bit_simps dest: bit_imp_le_length)

lemma ucast_le32_0: "(ucast (le32 f) :: u8) = f 0"
  using byte_at_le32 [of 0 f] by (simp add: byte_at_def)

lemma and_byte_mask: "(x :: u32) AND len_mask 1 = ucast (byte_at 0 x)"
  by (rule u32_eq_bytesI)
    (auto dest!: nat_lt_4 intro!: bit_eqI simp: bit_byte_at bit_simps bit_len_mask)

lemma ucast_byte_mask [simp]: "(ucast (v AND len_mask (Suc 0)) :: u8) = byte_at 0 v"
  by (rule bit_eqI) (auto simp: bit_byte_at bit_simps bit_len_mask)

section \<open>Bit-fields\<close>

text \<open>
  A C bit-field of width \<open>w\<close> at bit offset \<open>lo\<close> of its storage unit: \<open>bits lo w x\<close> reads
  it and \<open>put_bits lo w v x\<close> assigns \<open>v\<close> (truncated to \<open>w\<close> bits) to it.
\<close>

definition bits :: "nat \<Rightarrow> nat \<Rightarrow> 'a::len word \<Rightarrow> 'a word" where
  "bits lo w x = take_bit w (drop_bit lo x)"

definition put_bits :: "nat \<Rightarrow> nat \<Rightarrow> 'a::len word \<Rightarrow> 'a word \<Rightarrow> 'a word" where
  "put_bits lo w v x = (x AND NOT (push_bit lo (mask w))) OR push_bit lo (take_bit w v)"

lemma bit_bits: "bit (bits lo w x) n \<longleftrightarrow> n < w \<and> bit x (lo + n)"
  by (simp add: bits_def bit_simps)

lemma bit_put_bits:
  "bit (put_bits lo w v (x :: 'a::len word)) n \<longleftrightarrow>
     n < LENGTH('a) \<and> (if lo \<le> n \<and> n < lo + w then bit v (n - lo) else bit x n)"
  by (auto simp: put_bits_def bit_simps dest: bit_imp_le_length)

lemma bits_put_bits_same:
  "lo + w \<le> LENGTH('a) \<Longrightarrow> bits lo w (put_bits lo w v (x :: 'a::len word)) = take_bit w v"
  by (rule bit_word_eqI) (auto simp: bit_bits bit_put_bits bit_simps)

lemma bits_put_bits_other:
  "lo + w \<le> lo' \<or> lo' + w' \<le> lo \<Longrightarrow> lo + w \<le> LENGTH('a) \<Longrightarrow>
     bits lo w (put_bits lo' w' v (x :: 'a::len word)) = bits lo w x"
  by (rule bit_word_eqI) (auto simp: bit_bits bit_put_bits)

lemma unat_take_bit: "unat (take_bit n (x :: 'a::len word)) = unat x mod 2 ^ n"
  by (subst unsigned_take_bit_eq) (rule take_bit_eq_mod)

lemma unat_drop_bit: "unat (drop_bit n (x :: 'a::len word)) = unat x div 2 ^ n"
  by (metis drop_bit_eq_div unat_drop_bit_eq)

lemma unat_bits: "unat (bits lo w (x :: 'a::len word)) = (unat x div 2 ^ lo) mod 2 ^ w"
  by (simp only: bits_def unat_take_bit unat_drop_bit)

lemma sint_small: "unat (x :: u32) < 2 ^ 31 \<Longrightarrow> sint x = int (unat x)"
proof -
  assume "unat x < 2 ^ 31"
  then have "unat x < 2147483648" by simp
  then have "int (unat x) < 2147483648" by linarith
  moreover have "int (unat x) = uint x" by simp
  ultimately have "uint x < 2 ^ 31" by simp
  moreover have "- (2 ^ 31) \<le> uint x" by (rule order_trans [OF _ uint_ge_0 [of x]]) simp
  ultimately have "signed_take_bit 31 (uint x) = uint x" by (intro signed_take_bit_int_eq_self) simp_all
  then show ?thesis by (simp add: sint_uint)
qed

lemma take_bit_bits [simp]: "take_bit w (bits lo w x) = bits lo w x"
  by (simp add: bits_def)

lemma unat_and_low:
  "n \<le> LENGTH('a) \<Longrightarrow> unat ((x :: 'a::len word) AND mask n) = unat x mod 2 ^ n"
  by (simp only: take_bit_eq_mask [symmetric] unat_take_bit)

lemma unat_and_not_low:
  "unat ((x :: 'a::len word) AND NOT (mask n)) = unat x - unat x mod 2 ^ n"
proof -
  have x: "x = (x AND NOT (mask n)) + take_bit n x"
    by (subst disjunctive_add) (auto simp: bit_simps intro: bit_word_eqI)
  have le: "unat (x AND NOT (mask n)) \<le> unat x"
    by (metis word_and_le2 word_le_nat_alt)
  have "take_bit n x = x - (x AND NOT (mask n))" using x by (metis add_diff_cancel_left')
  then have "unat (take_bit n x) = unat x - unat (x AND NOT (mask n))"
    by (metis le unat_sub word_le_nat_alt)
  then show ?thesis using le by (simp only: unat_take_bit)
qed

section \<open>Byte arrays\<close>

text \<open>
  A C byte array is a function from indices. \<open>memcpy\<close> copies \<open>n\<close> bytes between arrays and
  \<open>memcpy_with_mask\<close> (nemu/include/misc.h) only those whose mask byte is not zero.
\<close>

type_synonym bytes = "nat \<Rightarrow> u8"

definition memcpy :: "bytes \<Rightarrow> nat \<Rightarrow> bytes \<Rightarrow> nat \<Rightarrow> nat \<Rightarrow> bytes" where
  "memcpy dst d src s n = (\<lambda>k. if d \<le> k \<and> k < d + n then src (s + (k - d)) else dst k)"

definition memset :: "bytes \<Rightarrow> nat \<Rightarrow> u8 \<Rightarrow> nat \<Rightarrow> bytes" where
  "memset dst d v n = (\<lambda>k. if d \<le> k \<and> k < d + n then v else dst k)"

definition memcpy_with_mask :: "bytes \<Rightarrow> nat \<Rightarrow> bytes \<Rightarrow> nat \<Rightarrow> nat \<Rightarrow> bytes \<Rightarrow> bytes" where
  "memcpy_with_mask dst d src s n msk =
     (\<lambda>k. if d \<le> k \<and> k < d + n \<and> msk (k - d) \<noteq> 0 then src (s + (k - d)) else dst k)"

text \<open>Storing the low \<open>n\<close> bytes of a word at index \<open>a\<close>: the specification of every write.\<close>

definition store :: "nat \<Rightarrow> nat \<Rightarrow> u32 \<Rightarrow> bytes \<Rightarrow> bytes" where
  "store a n v m = (\<lambda>k. if a \<le> k \<and> k < a + n then byte_at (k - a) v else m k)"

lemma store_0 [simp]: "store a 0 v m = m"
  by (rule ext) (auto simp: store_def)

lemma store_same [simp]: "a \<le> k \<Longrightarrow> k < a + n \<Longrightarrow> store a n v m k = byte_at (k - a) v"
  by (simp add: store_def)

lemma store_other [simp]: "k < a \<or> a + n \<le> k \<Longrightarrow> store a n v m k = m k"
  by (auto simp: store_def)

text \<open>
  The memory code splits a write that crosses a boundary after \<open>f\<close> bytes into the low part
  \<open>data & ((1 << (f * 8)) - 1)\<close> and the high part \<open>data >> (8 * f)\<close>.
\<close>

lemma byte_at_high: "byte_at i (drop_bit (8 * f) v) = byte_at (f + i) v"
  by (rule bit_eqI) (auto simp: bit_byte_at bit_simps algebra_simps)

lemma low_part_mask: "(push_bit n 1 - 1 :: 'a::len word) = mask n"
  by (simp add: mask_eq_exp_minus_1 push_bit_eq_mult)

lemma byte_at_low: "i < f \<Longrightarrow> byte_at i (v AND mask (f * 8)) = byte_at i v"
  by (rule bit_eqI) (auto simp: bit_byte_at bit_simps dest: bit_imp_le_length)

lemma store_split:
  assumes "f \<le> n"
  shows "store (a + f) (n - f) (drop_bit (8 * f) v) (store a f (v AND (push_bit (f * 8) 1 - 1)) m)
    = store a n v m"
  unfolding low_part_mask
proof
  fix k
  have "f + (k - (a + f)) = k - a" if "a + f \<le> k" using that by simp
  then show "store (a + f) (n - f) (drop_bit (8 * f) v) (store a f (v AND mask (f * 8)) m) k
    = store a n v m k"
    using assms by (auto simp: store_def byte_at_high byte_at_low)
qed

text \<open>Loading \<open>n\<close> bytes as a word, the upper bytes zero: the specification of every masked read.\<close>

definition load :: "nat \<Rightarrow> nat \<Rightarrow> bytes \<Rightarrow> u32" where
  "load a n m = le32 (\<lambda>i. if i < n then m (a + i) else 0)"

lemma byte_at_load: "i < 4 \<Longrightarrow> byte_at i (load a n m) = (if i < n then m (a + i) else 0)"
  by (simp add: load_def)

lemma masked_read:
  assumes "n \<le> 4" "\<forall>i<n. byte_at i v = m (a + i)"
  shows "v AND len_mask n = load a n m"
  by (rule u32_eq_bytesI) (use assms in \<open>simp add: byte_at_load\<close>)

lemma load_store_same [simp]: "n \<le> 4 \<Longrightarrow> load a n (store a n v m) = v AND len_mask n"
  by (rule u32_eq_bytesI) (simp add: byte_at_load)

lemma load_store_other:
  "a + n \<le> b \<or> b + k \<le> a \<Longrightarrow> load a n (store b k v m) = load a n m"
  by (rule u32_eq_bytesI) (auto simp: byte_at_load)

lemma len_mask_4 [simp]: "(v :: u32) AND len_mask 4 = v"
  by (rule u32_eq_bytesI) simp

lemma load_cong: "(\<And>i. i < n \<Longrightarrow> f (a + i) = g (b + i)) \<Longrightarrow> load a n f = load b n g"
  by (rule u32_eq_bytesI) (simp add: byte_at_load)

lemma byte_at_shift: "i < 4 \<Longrightarrow> byte_at i (push_bit (f * 8) v) = (if i < f then 0 else byte_at (i - f) v)"
proof (rule bit_eqI)
  fix k assume i: "i < 4"
  have "8 * i + k < f * 8 \<longleftrightarrow> i < f" if "k < 8" using that by linarith
  moreover have "8 * i + k - f * 8 = 8 * (i - f) + k" if "f \<le> i" using that by (simp add: algebra_simps)
  moreover have "k < 8 \<Longrightarrow> 8 * i + k < 32" using i by linarith
  ultimately show "bit (byte_at i (push_bit (f * 8) v)) k = bit (if i < f then 0 else byte_at (i - f) v) k"
    by (auto simp: bit_byte_at bit_simps)
qed

lemma byte_at_or: "byte_at i (x OR y) = byte_at i x OR byte_at i y"
  by (rule bit_eqI) (auto simp: bit_byte_at bit_simps)

text \<open>Two adjacent loads recombined by \<open>(high << (f * 8)) | low\<close>.\<close>

lemma load_append:
  assumes "f \<le> n" "n \<le> 4"
  shows "push_bit (f * 8) (load b (n - f) m) OR load a f m'
    = le32 (\<lambda>i. if i < f then m' (a + i) else if i < n then m (b + (i - f)) else 0)"
proof (rule u32_eq_bytesI)
  fix i :: nat assume i: "i < 4"
  then have "byte_at (i - f) (load b (n - f) m) = (if i - f < n - f then m (b + (i - f)) else 0)"
    by (simp add: byte_at_load)
  with i show "byte_at i (push_bit (f * 8) (load b (n - f) m) OR load a f m')
    = byte_at i (le32 (\<lambda>i. if i < f then m' (a + i) else if i < n then m (b + (i - f)) else 0))"
    using assms by (auto simp: byte_at_or byte_at_shift byte_at_load)
qed

end
