(* ===== verification/Byte_Store.thy ===== *)
theory Byte_Store
  imports Prelude
begin

unbundle bit_operations_syntax

text \<open>
  The interface every level of the memory hierarchy offers to the one above it: reading and
  writing one to four bytes at a physical address. A level has an invariant, a view of
  memory as a function from addresses to bytes, and a predicate saying which accesses it
  accepts. The laws say that an accepted access never fails, that a read returns the viewed
  bytes and changes nothing visible, and that a write changes exactly the written bytes.
  Only the low \<open>n\<close> bytes of a returned word are specified, as in the C code, where the
  upper bytes come from uninitialised buffer space.
\<close>

locale byte_store =
  fixes rd :: "u32 \<Rightarrow> nat \<Rightarrow> ('s, u32) M"
    and wr :: "u32 \<Rightarrow> nat \<Rightarrow> u32 \<Rightarrow> ('s, unit) M"
    and view :: "'s \<Rightarrow> bytes"
    and inv :: "'s \<Rightarrow> bool"
    and ok :: "'s \<Rightarrow> u32 \<Rightarrow> nat \<Rightarrow> bool"
  assumes rd_spec: "inv s \<Longrightarrow> ok s a n \<Longrightarrow>
      wp (rd a n) (\<lambda>v t. inv t \<and> view t = view s \<and> (\<forall>b m. ok s b m \<longrightarrow> ok t b m) \<and>
        (\<forall>i<n. byte_at i v = view s (unat a + i))) s"
    and wr_spec: "inv s \<Longrightarrow> ok s a n \<Longrightarrow>
      wp (wr a n v) (\<lambda>_ t. inv t \<and> view t = store (unat a) n v (view s) \<and>
        (\<forall>b m. ok s b m \<longrightarrow> ok t b m)) s"
begin

lemma rd_mono:
  assumes "inv s" "ok s a n"
    and "\<And>v t. inv t \<Longrightarrow> view t = view s \<Longrightarrow> \<forall>b m. ok s b m \<longrightarrow> ok t b m \<Longrightarrow>
      \<forall>i<n. byte_at i v = view s (unat a + i) \<Longrightarrow> Q v t"
  shows "wp (rd a n) Q s"
  using rd_spec [OF assms(1,2)] by (rule wp_mono) (simp add: assms(3))

lemma wr_mono:
  assumes "inv s" "ok s a n"
    and "\<And>t. inv t \<Longrightarrow> view t = store (unat a) n v (view s) \<Longrightarrow> \<forall>b m. ok s b m \<longrightarrow> ok t b m \<Longrightarrow> Q () t"
  shows "wp (wr a n v) Q s"
  using wr_spec [OF assms(1,2), of v] by (rule wp_mono) (simp add: assms(3))

text \<open>A read after a write to the same place returns what was written.\<close>

lemma read_after_write:
  assumes "inv s" "ok s a n" "n \<le> 4"
  shows "wp (seqM (wr a n v) (rd a n)) (\<lambda>x t. inv t \<and> x AND len_mask n = v AND len_mask n) s"
  unfolding wp_seqM
proof (rule wr_mono [OF assms(1,2)])
  fix t assume t: "inv t" "view t = store (unat a) n v (view s)" "\<forall>b m. ok s b m \<longrightarrow> ok t b m"
  show "wp (rd a n) (\<lambda>x t. inv t \<and> x AND len_mask n = v AND len_mask n) t"
  proof (rule rd_mono)
    fix x u assume "inv u" and x: "\<forall>i<n. byte_at i x = view t (unat a + i)"
    have "x AND len_mask n = v AND len_mask n"
      by (rule u32_eq_bytesI) (use x t(2) assms(3) in simp)
    with \<open>inv u\<close> show "inv u \<and> x AND len_mask n = v AND len_mask n" by simp
  qed (use t assms in auto)
qed

text \<open>A write does not disturb a read of disjoint bytes.\<close>

lemma read_after_write_other:
  assumes "inv s" "ok s a n" "ok s b m" "m \<le> 4" "unat b + m \<le> unat a \<or> unat a + n \<le> unat b"
  shows "wp (seqM (wr a n v) (rd b m))
    (\<lambda>x t. inv t \<and> (\<forall>i<m. byte_at i x = view s (unat b + i))) s"
  unfolding wp_seqM
proof (rule wr_mono [OF assms(1,2)])
  fix t assume t: "inv t" "view t = store (unat a) n v (view s)" "\<forall>b m. ok s b m \<longrightarrow> ok t b m"
  show "wp (rd b m) (\<lambda>x t. inv t \<and> (\<forall>i<m. byte_at i x = view s (unat b + i))) t"
    by (rule rd_mono) (use t assms in auto)
qed

text \<open>
  The block-fill loop of the caches: read \<open>n\<close> consecutive bytes one at a time and hand each
  to an action that records it. \<open>dat\<close> observes the recorded bytes.
\<close>

lemma fill_loop:
  fixes dat :: "'s \<Rightarrow> bytes"
  assumes "inv s" "F s" and nowrap: "unat base + n < 2 ^ 32" and ok: "\<And>i. i < n \<Longrightarrow> ok s (base + of_nat i) 1"
    and rd_F: "\<And>i t. i < n \<Longrightarrow> inv t \<Longrightarrow> F t \<Longrightarrow> ok t (base + of_nat i) 1 \<Longrightarrow>
      wp (rd (base + of_nat i) 1) (\<lambda>_ u. F u \<and> dat u = dat t) t"
    and act: "\<And>i v t. i < n \<Longrightarrow> inv t \<Longrightarrow> F t \<Longrightarrow>
      wp (act i v) (\<lambda>_ u. inv u \<and> F u \<and> view u = view t \<and> (\<forall>b m. ok t b m \<longrightarrow> ok u b m) \<and>
        dat u = (dat t)(i := byte_at 0 v)) t"
  shows "wp (forM [0..<n] (\<lambda>i. bindM (rd (base + of_nat i) 1) (act i)))
    (\<lambda>_ t. inv t \<and> F t \<and> view t = view s \<and> (\<forall>b m. ok s b m \<longrightarrow> ok t b m) \<and>
      (\<forall>i. dat t i = (if i < n then view s (unat base + i) else dat s i))) s"
proof (rule wp_for_upt [where I = "\<lambda>k t. inv t \<and> F t \<and> view t = view s \<and>
      (\<forall>b m. ok s b m \<longrightarrow> ok t b m) \<and>
      (\<forall>i. dat t i = (if i < k then view s (unat base + i) else dat s i))"])
  fix k t
  assume k: "k < n" and I: "inv t \<and> F t \<and> view t = view s \<and> (\<forall>b m. ok s b m \<longrightarrow> ok t b m) \<and>
      (\<forall>i. dat t i = (if i < k then view s (unat base + i) else dat s i))"
  have addr: "unat (base + of_nat k) = unat base + k"
    using k nowrap by (simp add: unat_word_ariths unat_of_nat)
  from I ok [OF k] have okt: "ok t (base + of_nat k) 1" by blast
  have "wp (rd (base + of_nat k) 1) (\<lambda>v u. (inv u \<and> view u = view t \<and> (\<forall>b m. ok t b m \<longrightarrow> ok u b m) \<and>
      (\<forall>i<1. byte_at i v = view t (unat (base + of_nat k) + i))) \<and> (F u \<and> dat u = dat t)) t"
    using I okt by (intro wp_conj [OF rd_spec] rd_F [OF k]) simp_all
  then show "wp (bindM (rd (base + of_nat k) 1) (act k)) (\<lambda>_ u. inv u \<and> F u \<and> view u = view s \<and>
      (\<forall>b m. ok s b m \<longrightarrow> ok u b m) \<and>
      (\<forall>i. dat u i = (if i < Suc k then view s (unat base + i) else dat s i))) t"
    unfolding wp_bindM
  proof (rule wp_mono)
    fix v u
    assume u: "(inv u \<and> view u = view t \<and> (\<forall>b m. ok t b m \<longrightarrow> ok u b m) \<and>
      (\<forall>i<1. byte_at i v = view t (unat (base + of_nat k) + i))) \<and> (F u \<and> dat u = dat t)"
    then have "wp (act k v) (\<lambda>_ w. inv w \<and> F w \<and> view w = view u \<and> (\<forall>b m. ok u b m \<longrightarrow> ok w b m) \<and>
        dat w = (dat u)(k := byte_at 0 v)) u" using k by (intro act) auto
    then show "wp (act k v) (\<lambda>_ u. inv u \<and> F u \<and> view u = view s \<and>
      (\<forall>b m. ok s b m \<longrightarrow> ok u b m) \<and>
      (\<forall>i. dat u i = (if i < Suc k then view s (unat base + i) else dat s i))) u"
      by (rule wp_mono) (use u I addr in \<open>auto simp: less_Suc_eq\<close>)
  qed
qed (use assms in auto)

text \<open>A store inside a larger state is a store of the larger state.\<close>

lemma zoom_store:
  assumes lens: "\<And>t s. g (p t s) = t"
  shows "byte_store (\<lambda>a n. zoom g p (rd a n)) (\<lambda>a n v. zoom g p (wr a n v))
    (\<lambda>s. view (g s)) (\<lambda>s. inv (g s)) (\<lambda>s. ok (g s))"
proof
  fix s a n assume "inv (g s)" "ok (g s) a n"
  then show "wp (zoom g p (rd a n)) (\<lambda>v t. inv (g t) \<and> view (g t) = view (g s) \<and>
      (\<forall>b m. ok (g s) b m \<longrightarrow> ok (g t) b m) \<and> (\<forall>i<n. byte_at i v = view (g s) (unat a + i))) s"
    unfolding wp_zoom lens by (rule rd_spec)
next
  fix s a n v assume "inv (g s)" "ok (g s) a n"
  then show "wp (zoom g p (wr a n v)) (\<lambda>_ t. inv (g t) \<and> view (g t) = store (unat a) n v (view (g s)) \<and>
      (\<forall>b m. ok (g s) b m \<longrightarrow> ok (g t) b m)) s"
    unfolding wp_zoom lens by (rule wr_spec)
qed

end

end
