(* ===== verification/Dram.thy ===== *)
theory Dram
  imports Byte_Store
begin

unbundle bit_operations_syntax

text \<open>
  The DDR3 model of nemu/src/memory/dram.c: physical memory behind per-bank row buffers,
  accessed in eight-byte bursts. The C array \<open>dram[NR_RANK][NR_BANK][NR_ROW][NR_COL]\<close> is
  also addressed flat through \<open>hw_mem\<close>, so the model keeps the flat view and computes
  the index of an element from its four subscripts. Bytes of a stack buffer that were never
  written are taken from \<open>junk\<close>, about which nothing is assumed.
\<close>

section \<open>State\<close>

abbreviation (input) BURST_LEN :: nat where "BURST_LEN \<equiv> 8"
abbreviation (input) BURST_MASK :: u32 where "BURST_MASK \<equiv> 7"
abbreviation (input) NR_COL :: nat where "NR_COL \<equiv> 1024"
abbreviation (input) NR_ROW :: nat where "NR_ROW \<equiv> 1024"
abbreviation (input) NR_BANK :: nat where "NR_BANK \<equiv> 8"
abbreviation (input) NR_RANK :: nat where "NR_RANK \<equiv> 16"
abbreviation (input) HW_MEM_SIZE :: nat where "HW_MEM_SIZE \<equiv> 134217728"

record RB =
  rb_buf :: bytes
  row_idx :: u32
  rb_valid :: bool

record dram_state =
  hw_mem :: bytes
  rowbufs :: "nat \<Rightarrow> nat \<Rightarrow> RB"
  junk :: bytes

text \<open>The union \<open>dram_addr\<close>: its bit-fields.\<close>

definition dram_col :: "u32 \<Rightarrow> nat" where "dram_col a = unat (bits 0 10 a)"
definition dram_row :: "u32 \<Rightarrow> u32" where "dram_row a = bits 10 10 a"
definition dram_bank :: "u32 \<Rightarrow> nat" where "dram_bank a = unat (bits 20 3 a)"
definition dram_rank :: "u32 \<Rightarrow> nat" where "dram_rank a = unat (bits 23 4 a)"

text \<open>Flat index of \<open>dram[rank][bank][row][0]\<close>.\<close>

definition row_base :: "nat \<Rightarrow> nat \<Rightarrow> nat \<Rightarrow> nat" where
  "row_base rank bank row = ((rank * NR_BANK + bank) * NR_ROW + row) * NR_COL"

section \<open>Operations\<close>

definition init_ddr3 :: "(dram_state, unit) M" where
  "init_ddr3 =
     forM [0..<NR_RANK] (\<lambda>i. forM [0..<NR_BANK] (\<lambda>j.
       modM (\<lambda>d. d\<lparr>rowbufs := (rowbufs d)(i := (rowbufs d i)(j := (rowbufs d i j)\<lparr>rb_valid := False\<rparr>))\<rparr>)))"

text \<open>The common prefix of \<open>ddr3_read\<close> and \<open>ddr3_write\<close>: read a row into its row buffer.\<close>

definition set_rowbuf :: "nat \<Rightarrow> nat \<Rightarrow> RB \<Rightarrow> dram_state \<Rightarrow> dram_state" where
  "set_rowbuf rank bank rb d = d\<lparr>rowbufs := (rowbufs d)(rank := (rowbufs d rank)(bank := rb))\<rparr>"

definition open_row :: "nat \<Rightarrow> nat \<Rightarrow> u32 \<Rightarrow> (dram_state, unit) M" where
  "open_row rank bank row =
     modM (\<lambda>d. let rb = rowbufs d rank bank in
       if \<not> (rb_valid rb \<and> row_idx rb = row)
       then set_rowbuf rank bank
              (rb\<lparr>rb_buf := memcpy (rb_buf rb) 0 (hw_mem d) (row_base rank bank (unat row)) NR_COL,
                  row_idx := row, rb_valid := True\<rparr>) d
       else d)"

definition ddr3_read :: "u32 \<Rightarrow> (dram_state, bytes) M" where
  "ddr3_read addr =
     seqM (assertM (unat addr < HW_MEM_SIZE))
     (let temp = addr AND NOT BURST_MASK;
          rank = dram_rank temp; bank = dram_bank temp; row = dram_row temp; col = dram_col temp
      in seqM (open_row rank bank row)
           (getM (\<lambda>d i. rb_buf (rowbufs d rank bank) (col + i))))"

definition ddr3_write :: "u32 \<Rightarrow> bytes \<Rightarrow> bytes \<Rightarrow> (dram_state, unit) M" where
  "ddr3_write addr data msk =
     seqM (assertM (unat addr < HW_MEM_SIZE))
     (let temp = addr AND NOT BURST_MASK;
          rank = dram_rank temp; bank = dram_bank temp; row = dram_row temp; col = dram_col temp
      in seqM (open_row rank bank row)
         (seqM (modM (\<lambda>d. let rb = rowbufs d rank bank in
             set_rowbuf rank bank (rb\<lparr>rb_buf := memcpy_with_mask (rb_buf rb) col data 0 BURST_LEN msk\<rparr>) d))
           (modM (\<lambda>d. d\<lparr>hw_mem := memcpy (hw_mem d) (row_base rank bank (unat row))
               (rb_buf (rowbufs d rank bank)) 0 NR_COL\<rparr>))))"

definition dram_read :: "u32 \<Rightarrow> nat \<Rightarrow> (dram_state, u32) M" where
  "dram_read addr len =
     (let offset = unat (addr AND BURST_MASK) in
      bindM (getM junk) (\<lambda>temp.
      bindM (ddr3_read addr) (\<lambda>lo.
      let temp = memcpy temp 0 lo 0 BURST_LEN in
      bindM (if offset + len > BURST_LEN
             then bindM (ddr3_read (addr + of_nat BURST_LEN)) (\<lambda>hi.
                    ret (memcpy temp BURST_LEN hi 0 BURST_LEN))
             else ret temp) (\<lambda>temp.
      ret (le32 (\<lambda>i. temp (offset + i)))))))"

definition dram_write :: "u32 \<Rightarrow> nat \<Rightarrow> u32 \<Rightarrow> (dram_state, unit) M" where
  "dram_write addr len data =
     (let offset = unat (addr AND BURST_MASK);
          msk = memset (memset (\<lambda>_. 0) 0 0 (2 * BURST_LEN)) offset 1 len in
      bindM (getM junk) (\<lambda>temp.
      let temp = memcpy temp offset (\<lambda>i. byte_at i data) 0 4 in
      seqM (ddr3_write addr temp msk)
        (whenM (offset + len > BURST_LEN)
          (ddr3_write (addr + of_nat BURST_LEN) (\<lambda>i. temp (BURST_LEN + i)) (\<lambda>i. msk (BURST_LEN + i))))))"

section \<open>Address geometry\<close>

lemma burst_mask: "BURST_MASK = mask 3"
  by (simp add: mask_eq_exp_minus_1)

lemma unat_burst_align: "unat (addr AND NOT BURST_MASK) = unat addr - unat addr mod 8"
  unfolding burst_mask by (simp only: unat_and_not_low) simp

lemma unat_burst_align_numeral [simp]: "unat (addr AND - 8 :: u32) = unat addr - unat addr mod 8"
  using unat_burst_align [of addr] by simp

lemma unat_burst_offset [simp]: "unat (addr AND BURST_MASK) = unat addr mod 8"
  unfolding burst_mask by (subst unat_and_low) simp_all

lemma four_digits:
  fixes n :: nat
  assumes "n < HW_MEM_SIZE"
  shows "((n div 8388608 mod 16 * 8 + n div 1048576 mod 8) * 1024 + n div 1024 mod 1024) * 1024
           + n mod 1024 = n"
proof -
  have r: "n div 8388608 mod 16 = n div 8388608" using assms by (simp add: less_mult_imp_div_less)
  have b: "n div 8388608 * 8 + n div 1048576 mod 8 = n div 1048576"
    using div_mult2_eq [of n 1048576 8] div_mult_mod_eq [of "n div 1048576" 8] by simp
  have q: "n div 1048576 * 1024 + n div 1024 mod 1024 = n div 1024"
    using div_mult2_eq [of n 1024 1024] div_mult_mod_eq [of "n div 1024" 1024] by simp
  show ?thesis by (simp only: r b q div_mult_mod_eq)
qed

lemma dram_fields:
  "dram_rank a = unat a div 8388608 mod 16" "dram_bank a = unat a div 1048576 mod 8"
  "unat (dram_row a) = unat a div 1024 mod 1024" "dram_col a = unat a mod 1024"
proof -
  have pow: "(2::nat) ^ 23 = 8388608" "(2::nat) ^ 4 = 16" "(2::nat) ^ 20 = 1048576" "(2::nat) ^ 3 = 8"
    "(2::nat) ^ 10 = 1024" by simp_all
  show "dram_rank a = unat a div 8388608 mod 16" "dram_bank a = unat a div 1048576 mod 8"
    "unat (dram_row a) = unat a div 1024 mod 1024"
    unfolding dram_rank_def dram_bank_def dram_row_def unat_bits pow by (rule refl)+
  show "dram_col a = unat a mod 1024"
    unfolding dram_col_def unat_bits pow by simp
qed

lemma geometry:
  assumes "unat a < HW_MEM_SIZE"
  shows "row_base (dram_rank a) (dram_bank a) (unat (dram_row a)) + dram_col a = unat a"
  unfolding row_base_def dram_fields using assms by (rule four_digits)

lemma subscripts_bound:
  "dram_rank a < NR_RANK" "dram_bank a < NR_BANK" "unat (dram_row a) < NR_ROW" "dram_col a < NR_COL"
  by (simp_all add: dram_rank_def dram_bank_def dram_row_def dram_col_def unat_bits)

lemma aligned_col: "dram_col (addr AND NOT BURST_MASK) + 8 \<le> NR_COL"
proof -
  have "dram_col (addr AND NOT BURST_MASK) = (unat addr - unat addr mod 8) mod 1024"
    by (simp add: dram_col_def unat_bits unat_burst_align)
  also have "\<dots> = 8 * (unat addr div 8 mod 128)"
    using mult_mod_right [of 8 "unat addr div 8" 128] by (simp add: minus_mod_eq_mult_div)
  finally show ?thesis using mod_less_divisor [of 128 "unat addr div 8"] by linarith
qed

lemma digit_unique:
  "a * n + b = a' * n + b' \<Longrightarrow> b < n \<Longrightarrow> b' < n \<Longrightarrow> a = a' \<and> b = (b' :: nat)"
  by (metis div_mult_self3 mod_mult_self3 div_less mod_less add_0_right not_less0 add.commute)

lemma row_base_inj:
  assumes "b < NR_BANK" "w < NR_ROW" "c < NR_COL" "b' < NR_BANK" "w' < NR_ROW" "c' < NR_COL"
    and eq: "row_base r b w + c = row_base r' b' w' + c'"
  shows "r = r' \<and> b = b' \<and> w = w' \<and> c = c'"
proof -
  from eq assms have "(r * NR_BANK + b) * NR_ROW + w = (r' * NR_BANK + b') * NR_ROW + w' \<and> c = c'"
    unfolding row_base_def by (intro digit_unique)
  moreover from this assms have "r * NR_BANK + b = r' * NR_BANK + b' \<and> w = w'"
    by (intro digit_unique) simp_all
  moreover from this assms have "r = r' \<and> b = b'"
    by (intro digit_unique) simp_all
  ultimately show ?thesis by simp
qed

section \<open>Row buffers agree with memory\<close>

text \<open>Invariant: every valid row buffer holds the bytes of the row it names.\<close>

definition rb_coherent :: "dram_state \<Rightarrow> bool" where
  "rb_coherent d \<longleftrightarrow> (\<forall>r<NR_RANK. \<forall>b<NR_BANK. rb_valid (rowbufs d r b) \<longrightarrow>
     unat (row_idx (rowbufs d r b)) < NR_ROW \<and>
     (\<forall>c<NR_COL. rb_buf (rowbufs d r b) c =
        hw_mem d (row_base r b (unat (row_idx (rowbufs d r b))) + c)))"

lemma init_ddr3_coherent: "wp init_ddr3 (\<lambda>_ t. rb_coherent t \<and> hw_mem t = hw_mem d) d"
proof -
  have "wp init_ddr3 (\<lambda>_ t. (\<forall>r<16. \<forall>b<8. \<not> rb_valid (rowbufs t r b)) \<and> hw_mem t = hw_mem d) d"
    unfolding init_ddr3_def
  proof (rule wp_for_upt [where I = "\<lambda>i t. (\<forall>r<i. \<forall>b<8. \<not> rb_valid (rowbufs t r b)) \<and> hw_mem t = hw_mem d"])
    fix i t assume I: "(\<forall>r<i. \<forall>b<8. \<not> rb_valid (rowbufs t r b)) \<and> hw_mem t = hw_mem d"
    show "wp (forM [0..<8] (\<lambda>j. modM (\<lambda>d. d\<lparr>rowbufs := (rowbufs d)(i := (rowbufs d i)
        (j := (rowbufs d i j)\<lparr>rb_valid := False\<rparr>))\<rparr>)))
        (\<lambda>_ t. (\<forall>r<Suc i. \<forall>b<8. \<not> rb_valid (rowbufs t r b)) \<and> hw_mem t = hw_mem d) t"
      by (rule wp_for_upt [where I = "\<lambda>j t. (\<forall>r<i. \<forall>b<8. \<not> rb_valid (rowbufs t r b)) \<and>
          (\<forall>b<j. \<not> rb_valid (rowbufs t i b)) \<and> hw_mem t = hw_mem d"])
        (use I in \<open>auto simp: wp_simps less_Suc_eq\<close>)
  qed auto
  then show ?thesis by (rule wp_mono) (simp add: rb_coherent_def)
qed

lemma open_row_spec:
  assumes "rb_coherent d" "r < NR_RANK" "b < NR_BANK" "unat row < NR_ROW"
  shows "wp (open_row r b row) (\<lambda>_ t. rb_coherent t \<and> hw_mem t = hw_mem d \<and> junk t = junk d \<and>
     rb_valid (rowbufs t r b) \<and> row_idx (rowbufs t r b) = row \<and>
     (\<forall>c<NR_COL. rb_buf (rowbufs t r b) c = hw_mem d (row_base r b (unat row) + c))) d"
  using assms
  by (auto simp: open_row_def wp_simps rb_coherent_def set_rowbuf_def Let_def memcpy_def)

text \<open>The burst containing an address starts at \<open>burst addr\<close>.\<close>

definition burst :: "u32 \<Rightarrow> nat" where
  "burst addr = unat addr - unat addr mod 8"

lemma burst_geometry:
  assumes "unat addr < HW_MEM_SIZE"
  shows "row_base (dram_rank (addr AND - 8)) (dram_bank (addr AND - 8)) (unat (dram_row (addr AND - 8)))
           + dram_col (addr AND - 8) = burst addr"
proof -
  have "unat (addr AND - 8) < HW_MEM_SIZE" using assms by simp
  from geometry [OF this] show ?thesis by (simp add: burst_def)
qed

lemma burst_col: "dram_col (addr AND - 8) + 8 \<le> NR_COL"
  using aligned_col [of addr] by simp

lemma ddr3_read_spec:
  assumes "rb_coherent d" "unat addr < HW_MEM_SIZE"
  shows "wp (ddr3_read addr) (\<lambda>data t. rb_coherent t \<and> hw_mem t = hw_mem d \<and> junk t = junk d \<and>
    (\<forall>i<8. data i = hw_mem d (burst addr + i))) d"
proof -
  let ?a = "addr AND - 8"
  have "wp (open_row (dram_rank ?a) (dram_bank ?a) (dram_row ?a))
     (\<lambda>_ t. rb_coherent t \<and> hw_mem t = hw_mem d \<and> junk t = junk d \<and>
       (\<forall>i<8. rb_buf (rowbufs t (dram_rank ?a) (dram_bank ?a)) (dram_col ?a + i) = hw_mem d (burst addr + i))) d"
  proof (rule wp_mono [OF open_row_spec], goal_cases)
    case (5 x t)
    then show ?case using burst_geometry [OF assms(2)] burst_col [of addr]
      by (auto simp flip: add.assoc)
  qed (use assms subscripts_bound in auto)
  then show ?thesis using assms(2) by (simp add: ddr3_read_def wp_simps Let_def)
qed

text \<open>What a masked burst write does to memory.\<close>

definition burst_store :: "nat \<Rightarrow> bytes \<Rightarrow> bytes \<Rightarrow> bytes \<Rightarrow> bytes" where
  "burst_store a data msk m = memcpy_with_mask m a data 0 8 msk"

text \<open>Writing a row buffer back keeps every other row as it was.\<close>

lemma writeback_other_row:
  assumes "b < NR_BANK" "w < NR_ROW" "b' < NR_BANK" "w' < NR_ROW" "c < NR_COL"
    and "(r, b, w) \<noteq> (r', b', w')"
  shows "memcpy m (row_base r' b' w') buf 0 NR_COL (row_base r b w + c) = m (row_base r b w + c)"
proof -
  have "\<not> (row_base r' b' w' \<le> row_base r b w + c \<and> row_base r b w + c < row_base r' b' w' + NR_COL)"
  proof
    assume in_row: "row_base r' b' w' \<le> row_base r b w + c \<and> row_base r b w + c < row_base r' b' w' + NR_COL"
    define c' where "c' = row_base r b w + c - row_base r' b' w'"
    from in_row have "c' < NR_COL" "row_base r b w + c = row_base r' b' w' + c'" by (auto simp: c'_def)
    with assms row_base_inj [of b w c b' w' c' r r'] show False by simp
  qed
  then show ?thesis by (auto simp: memcpy_def)
qed

lemma ddr3_write_mem:
  assumes "col + 8 \<le> NR_COL" "\<forall>c<NR_COL. buf c = m (base + c)"
  shows "memcpy m base (memcpy_with_mask buf col data 0 8 msk) 0 NR_COL = burst_store (base + col) data msk m"
proof
  fix k
  show "memcpy m base (memcpy_with_mask buf col data 0 8 msk) 0 NR_COL k = burst_store (base + col) data msk m k"
  proof (cases "base \<le> k \<and> k < base + NR_COL")
    case True
    then have k: "k = base + (k - base)" and lt: "k - base < NR_COL" by auto
    have "buf (k - base) = m k" using assms(2) lt k by (metis)
    then show ?thesis using True
      by (auto simp: memcpy_def memcpy_with_mask_def burst_store_def diff_diff_add)
  next
    case False
    then show ?thesis using assms(1) by (auto simp: memcpy_def memcpy_with_mask_def burst_store_def)
  qed
qed

lemma writeback_coherent:
  assumes coh: "rb_coherent d" and r: "r < NR_RANK" and b: "b < NR_BANK"
    and v: "rb_valid (rowbufs d r b)" and row: "row_idx (rowbufs d r b) = row"
    and col: "col + 8 \<le> NR_COL"
    and d1: "d1 = set_rowbuf r b ((rowbufs d r b)\<lparr>rb_buf := memcpy_with_mask (rb_buf (rowbufs d r b)) col data 0 8 msk\<rparr>) d"
    and d2: "d2 = d1\<lparr>hw_mem := memcpy (hw_mem d1) (row_base r b (unat row))
               (rb_buf (rowbufs d1 r b)) 0 NR_COL\<rparr>"
  shows "rb_coherent d2 \<and> junk d2 = junk d \<and>
    hw_mem d2 = burst_store (row_base r b (unat row) + col) data msk (hw_mem d)"
proof (intro conjI)
  let ?w = "unat row"
  have w: "?w < NR_ROW" and buf: "\<forall>c<NR_COL. rb_buf (rowbufs d r b) c = hw_mem d (row_base r b ?w + c)"
    using coh r b v row by (auto simp: rb_coherent_def)
  have mem: "hw_mem d2 = memcpy (hw_mem d) (row_base r b ?w) (rb_buf (rowbufs d1 r b)) 0 NR_COL"
    by (simp add: d2 d1 set_rowbuf_def)
  show "hw_mem d2 = burst_store (row_base r b ?w + col) data msk (hw_mem d)"
    using ddr3_write_mem [OF col buf] by (simp add: mem d1 set_rowbuf_def)
  show "junk d2 = junk d" by (simp add: d2 d1 set_rowbuf_def)
  show "rb_coherent d2" unfolding rb_coherent_def
  proof (intro allI impI)
    fix r' b' assume r': "r' < NR_RANK" and b': "b' < NR_BANK" and v': "rb_valid (rowbufs d2 r' b')"
    let ?w' = "unat (row_idx (rowbufs d2 r' b'))"
    have row': "row_idx (rowbufs d2 r' b') = row_idx (rowbufs d r' b')"
      and valid': "rb_valid (rowbufs d r' b')"
      using v' v by (auto simp: d2 d1 set_rowbuf_def split: if_splits)
    have w': "?w' < NR_ROW" using coh r' b' valid' row' by (simp add: rb_coherent_def)
    have "rb_buf (rowbufs d2 r' b') c = hw_mem d2 (row_base r' b' ?w' + c)" if c: "c < NR_COL" for c
    proof (cases "r' = r \<and> b' = b")
      case True
      then have "?w' = ?w" using row' row by simp
      then show ?thesis unfolding mem using c True by (simp add: d2 memcpy_def)
    next
      case False
      then have "rowbufs d2 r' b' = rowbufs d r' b'" by (auto simp: d2 d1 set_rowbuf_def)
      moreover have "hw_mem d2 (row_base r' b' ?w' + c) = hw_mem d (row_base r' b' ?w' + c)"
        unfolding mem using b' w' b w c False by (intro writeback_other_row) auto
      ultimately show ?thesis using coh r' b' valid' row' c by (simp add: rb_coherent_def)
    qed
    with w' show "?w' < NR_ROW \<and>
      (\<forall>c<NR_COL. rb_buf (rowbufs d2 r' b') c = hw_mem d2 (row_base r' b' ?w' + c))" by simp
  qed
qed

lemma ddr3_write_spec:
  assumes "rb_coherent d" "unat addr < HW_MEM_SIZE"
  shows "wp (ddr3_write addr data msk) (\<lambda>_ t. rb_coherent t \<and> junk t = junk d \<and>
    hw_mem t = burst_store (burst addr) data msk (hw_mem d)) d"
proof -
  let ?a = "addr AND - 8"
  let ?r = "dram_rank ?a" and ?b = "dram_bank ?a" and ?w = "dram_row ?a" and ?c = "dram_col ?a"
  let ?d1 = "\<lambda>t. set_rowbuf ?r ?b ((rowbufs t ?r ?b)\<lparr>rb_buf := memcpy_with_mask (rb_buf (rowbufs t ?r ?b)) ?c data 0 8 msk\<rparr>) t"
  have "wp (open_row ?r ?b ?w) (\<lambda>_ t. let u = (?d1 t)\<lparr>hw_mem := memcpy (hw_mem (?d1 t)) (row_base ?r ?b (unat ?w))
           (rb_buf (rowbufs (?d1 t) ?r ?b)) 0 NR_COL\<rparr> in
       rb_coherent u \<and> junk u = junk d \<and> hw_mem u = burst_store (burst addr) data msk (hw_mem d)) d"
  proof (rule wp_mono [OF open_row_spec], goal_cases)
    case (5 x t)
    then have "hw_mem t = hw_mem d" "junk t = junk d" by simp_all
    with 5 writeback_coherent [of t ?r ?b ?w ?c "?d1 t" data msk, OF _ _ _ _ _ _ refl refl]
    show ?case using subscripts_bound burst_col burst_geometry [OF assms(2)]
      by (simp only: Let_def)
  qed (use assms subscripts_bound in auto)
  then show ?thesis using assms(2) by (simp add: ddr3_write_def wp_simps Let_def)
qed

section \<open>Word accesses\<close>

text \<open>The accesses DRAM accepts: one to four bytes inside physical memory.\<close>

definition dram_ok :: "dram_state \<Rightarrow> u32 \<Rightarrow> nat \<Rightarrow> bool" where
  "dram_ok d a n \<longleftrightarrow> 1 \<le> n \<and> n \<le> 4 \<and> unat a + n \<le> HW_MEM_SIZE"

lemma burst_mult: "burst a = 8 * (unat a div 8)"
  by (simp add: burst_def minus_mod_eq_mult_div)

lemma burst_plus: "burst a + unat a mod 8 = unat a"
  by (simp add: burst_mult)

lemma next_burst:
  assumes "dram_ok d a n" and cross: "unat a mod 8 + n > 8"
  shows "unat (a + 8) = unat a + 8" "unat (a + 8) < HW_MEM_SIZE" "burst (a + 8) = burst a + 8"
proof -
  from assms(1) have "unat a < HW_MEM_SIZE" by (simp add: dram_ok_def)
  then show *: "unat (a + 8) = unat a + 8" by (simp add: unat_word_ariths)
  have "8 * (unat a div 8) + 8 < HW_MEM_SIZE"
    using assms div_mult_mod_eq [of "unat a" 8] unfolding dram_ok_def by linarith
  then have "unat a div 8 + 1 < 16777216" by simp
  then show "unat (a + 8) < HW_MEM_SIZE"
    using div_mult_mod_eq [of "unat a" 8] mod_less_divisor [of 8 "unat a"] by (simp add: *)
  show "burst (a + 8) = burst a + 8" by (simp add: burst_mult * div_add_self2)
qed

lemma dram_read_spec:
  assumes coh: "rb_coherent d" and ok: "dram_ok d a n"
  shows "wp (dram_read a n) (\<lambda>v t. rb_coherent t \<and> hw_mem t = hw_mem d \<and> junk t = junk d \<and>
    (\<forall>i<n. byte_at i v = hw_mem d (unat a + i))) d"
proof -
  have lt: "unat a < HW_MEM_SIZE" and n: "1 \<le> n" "n \<le> 4" using ok by (auto simp: dram_ok_def)
  let ?o = "unat a mod 8"
  have o: "?o < 8" by simp
  let ?Q = "\<lambda>v t. rb_coherent t \<and> hw_mem t = hw_mem d \<and> junk t = junk d \<and>
    (\<forall>i<n. byte_at i v = hw_mem d (unat a + i))"
  show ?thesis
  proof (cases "?o + n > 8")
    case False
    have "wp (ddr3_read a) (\<lambda>lo. ?Q (le32 (\<lambda>i. memcpy (junk d) 0 lo 0 8 (?o + i)))) d"
      by (rule wp_mono [OF ddr3_read_spec [OF coh lt]])
        (use False n burst_plus [of a] in \<open>auto simp: memcpy_def simp flip: add.assoc\<close>)
    with False show ?thesis by (simp add: dram_read_def wp_simps Let_def)
  next
    case True
    note nb = next_burst [OF ok True]
    have "wp (ddr3_read a) (\<lambda>lo. wp (ddr3_read (a + 8)) (\<lambda>hi. ?Q (le32 (\<lambda>i.
        memcpy (memcpy (junk d) 0 lo 0 8) 8 hi 0 8 (?o + i))))) d"
    proof (rule wp_mono [OF ddr3_read_spec [OF coh lt]])
      fix lo t
      assume t: "rb_coherent t \<and> hw_mem t = hw_mem d \<and> junk t = junk d \<and> (\<forall>i<8. lo i = hw_mem d (burst a + i))"
      show "wp (ddr3_read (a + 8)) (\<lambda>hi. ?Q (le32 (\<lambda>i. memcpy (memcpy (junk d) 0 lo 0 8) 8 hi 0 8 (?o + i)))) t"
      proof (rule wp_mono [OF ddr3_read_spec])
        fix hi u
        assume u: "rb_coherent u \<and> hw_mem u = hw_mem t \<and> junk u = junk t \<and>
          (\<forall>i<8. hi i = hw_mem t (burst (a + 8) + i))"
        have "memcpy (memcpy (junk d) 0 lo 0 8) 8 hi 0 8 (?o + i) = hw_mem d (unat a + i)" if "i < n" for i
        proof (cases "?o + i < 8")
          case True
          then show ?thesis using t burst_plus [of a] by (simp add: memcpy_def flip: add.assoc)
        next
          case False
          then have k: "?o + i - 8 < 8" "burst a + 8 + (?o + i - 8) = unat a + i" "?o + i < 16"
            using that n o burst_plus [of a] by linarith+
          have "hi (?o + i - 8) = hw_mem t (burst (a + 8) + (?o + i - 8))"
            using u k(1) by blast
          then have "hi (?o + i - 8) = hw_mem d (unat a + i)"
            using t by (simp only: nb(3) k(2))
          with False k(1,3) show ?thesis by (simp add: memcpy_def)
        qed
        then show "?Q (le32 (\<lambda>i. memcpy (memcpy (junk d) 0 lo 0 8) 8 hi 0 8 (?o + i))) u"
          using t u n by simp
      qed (use t nb in auto)
    qed
    with True show ?thesis by (simp add: dram_read_def wp_simps Let_def)
  qed
qed

lemma dram_write_spec:
  assumes coh: "rb_coherent d" and ok: "dram_ok d a n"
  shows "wp (dram_write a n v) (\<lambda>_ t. rb_coherent t \<and> junk t = junk d \<and>
    hw_mem t = store (unat a) n v (hw_mem d)) d"
proof -
  have lt: "unat a < HW_MEM_SIZE" and n: "1 \<le> n" "n \<le> 4" using ok by (auto simp: dram_ok_def)
  let ?o = "unat a mod 8"
  have o: "?o < 8" by simp
  let ?temp = "memcpy (junk d) ?o (\<lambda>i. byte_at i v) 0 4"
  let ?msk = "memset (memset (\<lambda>_. 0) 0 0 16) ?o 1 n :: bytes"
  show ?thesis
  proof (cases "?o + n > 8")
    case False
    have "burst_store (burst a) ?temp ?msk m = store (unat a) n v m" for m
      using False n burst_plus [of a]
      by (intro ext) (auto simp: burst_store_def memcpy_with_mask_def memset_def store_def memcpy_def)
    with False ddr3_write_spec [OF coh lt, of ?temp ?msk] show ?thesis
      by (simp add: dram_write_def wp_simps Let_def)
  next
    case True
    note nb = next_burst [OF ok True]
    let ?temp' = "\<lambda>i. ?temp (8 + i)" and ?msk' = "\<lambda>i. ?msk (8 + i)"
    have both: "burst_store (burst a + 8) ?temp' ?msk' (burst_store (burst a) ?temp ?msk m) = store (unat a) n v m" for m
      using True n o burst_plus [of a]
      by (intro ext) (auto simp: burst_store_def memcpy_with_mask_def memset_def store_def memcpy_def)
    have "wp (ddr3_write a ?temp ?msk) (\<lambda>_. wp (ddr3_write (a + 8) ?temp' ?msk')
        (\<lambda>_ t. rb_coherent t \<and> junk t = junk d \<and> hw_mem t = store (unat a) n v (hw_mem d))) d"
    proof (rule wp_mono [OF ddr3_write_spec [OF coh lt]])
      fix x t assume t: "rb_coherent t \<and> junk t = junk d \<and> hw_mem t = burst_store (burst a) ?temp ?msk (hw_mem d)"
      show "wp (ddr3_write (a + 8) ?temp' ?msk')
        (\<lambda>_ t. rb_coherent t \<and> junk t = junk d \<and> hw_mem t = store (unat a) n v (hw_mem d)) t"
        by (rule wp_mono [OF ddr3_write_spec]) (use t nb both in auto)
    qed
    with True show ?thesis by (simp add: dram_write_def wp_simps Let_def)
  qed
qed

interpretation dram: byte_store dram_read dram_write hw_mem rb_coherent dram_ok
proof
  fix s a n assume "rb_coherent s" "dram_ok s a n"
  then show "wp (dram_read a n) (\<lambda>v t. rb_coherent t \<and> hw_mem t = hw_mem s \<and>
      (\<forall>b m. dram_ok s b m \<longrightarrow> dram_ok t b m) \<and> (\<forall>i<n. byte_at i v = hw_mem s (unat a + i))) s"
    by (rule wp_mono [OF dram_read_spec]) (simp add: dram_ok_def)
next
  fix s a n v assume "rb_coherent s" "dram_ok s a n"
  then show "wp (dram_write a n v) (\<lambda>_ t. rb_coherent t \<and> hw_mem t = store (unat a) n v (hw_mem s) \<and>
      (\<forall>b m. dram_ok s b m \<longrightarrow> dram_ok t b m)) s"
    by (rule wp_mono [OF dram_write_spec]) (simp add: dram_ok_def)
qed

lemma dram_read_outside: "HW_MEM_SIZE \<le> unat a \<Longrightarrow> dram_read a n d = Err AssertFail"
  by (simp add: dram_read_def ddr3_read_def Let_def)

lemma dram_write_outside: "HW_MEM_SIZE \<le> unat a \<Longrightarrow> dram_write a n v d = Err AssertFail"
  by (simp add: dram_write_def ddr3_write_def Let_def)

section \<open>Properties\<close>

text \<open>A machine at power-on: arbitrary contents, no open rows.\<close>

definition cold_dram :: dram_state where
  "cold_dram = \<lparr>hw_mem = (\<lambda>k. of_nat k), rowbufs = (\<lambda>_ _. \<lparr>rb_buf = (\<lambda>_. 0), row_idx = 0, rb_valid = False\<rparr>),
     junk = (\<lambda>_. 0)\<rparr>"

lemma cold_dram_coherent: "rb_coherent cold_dram"
  by (simp add: rb_coherent_def cold_dram_def)

text \<open>
  C26. Burst accesses through the row buffers are invisible: from a state whose valid row
  buffers agree with memory, \<open>dram_read\<close> of one to four bytes inside the 128 MiB returns the
  bytes of memory and \<open>dram_write\<close> changes exactly the written bytes, at any alignment (also
  across two bursts, two rows, two banks or two ranks), and both keep the row buffers in
  agreement with memory.
\<close>

theorem dram_transparent:
  assumes "rb_coherent d" "1 \<le> n" "n \<le> 4" "unat a + n \<le> HW_MEM_SIZE"
  shows "wp (dram_read a n) (\<lambda>x t. rb_coherent t \<and> hw_mem t = hw_mem d \<and>
           (\<forall>i<n. byte_at i x = hw_mem d (unat a + i))) d \<and>
         wp (dram_write a n v) (\<lambda>_ t. rb_coherent t \<and> hw_mem t = store (unat a) n v (hw_mem d)) d"
proof -
  have "dram_ok d a n" using assms by (simp add: dram_ok_def)
  then show ?thesis using assms(1) by (intro conjI dram.rd_mono dram.wr_mono) auto
qed

theorem dram_transparent_witness:
  "wp (dram_read 0x3FE 4) (\<lambda>x t. rb_coherent t \<and> hw_mem t = hw_mem cold_dram \<and>
     (\<forall>i<4. byte_at i x = hw_mem cold_dram (0x3FE + i))) cold_dram \<and>
   wp (dram_write 0x3FE 4 0xCAFEBABE) (\<lambda>_ t. rb_coherent t \<and>
     hw_mem t = store 0x3FE 4 0xCAFEBABE (hw_mem cold_dram)) cold_dram"
  using dram_transparent [OF cold_dram_coherent, of 4 "0x3FE" "0xCAFEBABE"] by simp

text \<open>
  \<open>init_ddr3\<close> establishes the agreement of row buffers and memory and leaves memory as it
  is; a first access at or above the end of memory stops the emulator at the assertion of
  \<open>ddr3_read\<close> or \<open>ddr3_write\<close> instead of touching memory.
\<close>

lemma dram_init_and_bounds:
  "wp init_ddr3 (\<lambda>_ t. rb_coherent t \<and> hw_mem t = hw_mem d) d \<and>
   (HW_MEM_SIZE \<le> unat a \<longrightarrow> dram_read a n d = Err AssertFail \<and> dram_write a n v d = Err AssertFail)"
  using init_ddr3_coherent dram_read_outside dram_write_outside by blast


end
