(* ===== verification/Cache.thy ===== *)
theory Cache
  imports Dram
begin

unbundle bit_operations_syntax

text \<open>
  The two-level cache of nemu/src/memory/cache.c over the DRAM of \<open>Dram\<close>: an 8-way, 128-group
  write-through first level and a 16-way, 4096-group write-back second level, both with
  64-byte blocks and random replacement. Each C line carries a union of a 32-bit \<open>addr\<close>
  with the bit-fields \<open>offset\<close>, \<open>group\<close> and \<open>tag\<close>; only \<open>tag\<close> is ever assigned on
  allocation, as here. The libc generator is a parameter: \<open>rand_fn seed i\<close> is the \<open>i\<close>-th
  value after \<open>srand(seed)\<close>, and nothing is assumed about it.
\<close>

section \<open>State\<close>

record Cache_1 =
  c1_valid :: bool
  c1_addr :: u32
  c1_data :: bytes

record Cache_2 =
  c2_valid :: bool
  c2_dirty :: bool
  c2_addr :: u32
  c2_data :: bytes

record mem_state =
  dram :: dram_state
  L1 :: "nat \<Rightarrow> nat \<Rightarrow> Cache_1"
  L2 :: "nat \<Rightarrow> nat \<Rightarrow> Cache_2"
  rand_fn :: "nat \<Rightarrow> nat \<Rightarrow> nat"
  rand_seed :: nat
  rand_pos :: nat

abbreviation (input) BLOCK_SIZE :: nat where "BLOCK_SIZE \<equiv> 64"
abbreviation (input) GROUP_NUM :: nat where "GROUP_NUM \<equiv> 128"
abbreviation (input) WAY_NUM :: nat where "WAY_NUM \<equiv> 8"
abbreviation (input) GROUP_NUM_2 :: nat where "GROUP_NUM_2 \<equiv> 4096"
abbreviation (input) WAY_NUM_2 :: nat where "WAY_NUM_2 \<equiv> 16"

text \<open>The bit-fields of the two address unions.\<close>

definition c_offset :: "u32 \<Rightarrow> nat" where "c_offset a = unat (bits 0 6 a)"
definition c1_group :: "u32 \<Rightarrow> nat" where "c1_group a = unat (bits 6 7 a)"
definition c1_tag :: "u32 \<Rightarrow> u32" where "c1_tag a = bits 13 19 a"
definition c2_group :: "u32 \<Rightarrow> nat" where "c2_group a = unat (bits 6 12 a)"
definition c2_tag :: "u32 \<Rightarrow> u32" where "c2_tag a = bits 18 14 a"

text \<open>\<open>addr & (~0u << BLOCK_BIT)\<close>\<close>

definition addr_block :: "u32 \<Rightarrow> u32" where
  "addr_block a = a AND push_bit 6 (NOT 0)"

definition set_L1 :: "nat \<Rightarrow> nat \<Rightarrow> (Cache_1 \<Rightarrow> Cache_1) \<Rightarrow> mem_state \<Rightarrow> mem_state" where
  "set_L1 g w f m = m\<lparr>L1 := (L1 m)(g := (L1 m g)(w := f (L1 m g w)))\<rparr>"

definition set_L2 :: "nat \<Rightarrow> nat \<Rightarrow> (Cache_2 \<Rightarrow> Cache_2) \<Rightarrow> mem_state \<Rightarrow> mem_state" where
  "set_L2 g w f m = m\<lparr>L2 := (L2 m)(g := (L2 m g)(w := f (L2 m g w)))\<rparr>"

definition on_dram :: "(dram_state, 'a) M \<Rightarrow> (mem_state, 'a) M" where
  "on_dram = zoom dram (\<lambda>d m. m\<lparr>dram := d\<rparr>)"

section \<open>The libc random numbers\<close>

definition crand :: "(mem_state, nat) M" where
  "crand = bindM (getM (\<lambda>m. rand_fn m (rand_seed m) (rand_pos m))) (\<lambda>r.
     seqM (modM (\<lambda>m. m\<lparr>rand_pos := Suc (rand_pos m)\<rparr>)) (ret r))"

definition csrand :: "nat \<Rightarrow> (mem_state, unit) M" where
  "csrand seed = modM (\<lambda>m. m\<lparr>rand_seed := seed, rand_pos := 0\<rparr>)"

section \<open>Initialisation\<close>

definition init_cache1 :: "(mem_state, unit) M" where
  "init_cache1 =
     seqM (modM (\<lambda>m. m\<lparr>L1 := (\<lambda>_ _. \<lparr>c1_valid = False, c1_addr = 0, c1_data = (\<lambda>_. 0)\<rparr>)\<rparr>))
       (forM [0..<GROUP_NUM] (\<lambda>i. forM [0..<WAY_NUM] (\<lambda>j.
          modM (set_L1 i j (\<lambda>l. l\<lparr>c1_addr := put_bits 6 7 (of_nat j) (c1_addr l)\<rparr>)))))"

definition init_cache2 :: "(mem_state, unit) M" where
  "init_cache2 =
     seqM (modM (\<lambda>m. m\<lparr>L2 := (\<lambda>_ _. \<lparr>c2_valid = False, c2_dirty = False, c2_addr = 0, c2_data = (\<lambda>_. 0)\<rparr>)\<rparr>))
       (forM [0..<GROUP_NUM_2] (\<lambda>i. forM [0..<WAY_NUM_2] (\<lambda>j.
          modM (set_L2 i j (\<lambda>l. l\<lparr>c2_addr := put_bits 6 12 (of_nat j) (c2_addr l)\<rparr>)))))"

definition init_cache :: "(mem_state, unit) M" where
  "init_cache = seqM init_cache1 init_cache2"

section \<open>Lookup and replacement\<close>

text \<open>The hit loops and the search for a free way, falling back to \<open>rand()\<close>.\<close>

definition hit1 :: "mem_state \<Rightarrow> nat \<Rightarrow> u32 \<Rightarrow> nat option" where
  "hit1 m grp tag = find_way WAY_NUM (\<lambda>i. c1_valid (L1 m grp i) \<and> c1_tag (c1_addr (L1 m grp i)) = tag)"

definition hit2 :: "mem_state \<Rightarrow> nat \<Rightarrow> u32 \<Rightarrow> nat option" where
  "hit2 m grp tag = find_way WAY_NUM_2 (\<lambda>i. c2_valid (L2 m grp i) \<and> c2_tag (c2_addr (L2 m grp i)) = tag)"

definition pick1 :: "nat \<Rightarrow> (mem_state, nat) M" where
  "pick1 grp = bindM (getM (\<lambda>m. find_way WAY_NUM (\<lambda>i. \<not> c1_valid (L1 m grp i)))) (\<lambda>free.
     case free of Some i \<Rightarrow> ret i | None \<Rightarrow> bindM crand (\<lambda>r. ret (r mod WAY_NUM)))"

definition pick2 :: "nat \<Rightarrow> (mem_state, nat) M" where
  "pick2 grp = bindM (getM (\<lambda>m. find_way WAY_NUM_2 (\<lambda>i. \<not> c2_valid (L2 m grp i)))) (\<lambda>free.
     case free of Some i \<Rightarrow> ret i | None \<Rightarrow> bindM crand (\<lambda>r. ret (r mod WAY_NUM_2)))"

section \<open>The second level\<close>

text \<open>
  Replacing a way of the second level, common to the miss paths of \<open>Cache_2_read\<close> and
  \<open>Cache_2_write\<close>. When the victim is dirty the code writes \<open>L1[group].cache[x].data\<close> to the
  block that is being \<^emph>\<open>loaded\<close>; the first level has only 128 groups of 8 ways, so the
  access is out of bounds for a larger subscript.
\<close>

definition evict2 :: "u32 \<Rightarrow> nat \<Rightarrow> nat \<Rightarrow> (mem_state, unit) M" where
  "evict2 block grp x =
     bindM (getM (\<lambda>m. c2_dirty (L2 m grp x))) (\<lambda>dirty.
     whenM dirty
       (if grp < GROUP_NUM \<and> x < WAY_NUM
        then forM [0..<BLOCK_SIZE] (\<lambda>i. bindM (getM (\<lambda>m. c1_data (L1 m grp x) i)) (\<lambda>b.
               on_dram (dram_write (block + of_nat i) 1 (ucast b))))
        else fail OutOfBounds))"

definition load2 :: "u32 \<Rightarrow> nat \<Rightarrow> u32 \<Rightarrow> nat \<Rightarrow> (mem_state, unit) M" where
  "load2 block grp tag x =
     seqM (modM (set_L2 grp x (\<lambda>l. l\<lparr>c2_valid := True, c2_addr := put_bits 18 14 tag (c2_addr l),
         c2_dirty := False\<rparr>)))
       (forM [0..<BLOCK_SIZE] (\<lambda>i. bindM (on_dram (dram_read (block + of_nat i) 1)) (\<lambda>v.
          modM (set_L2 grp x (\<lambda>l. l\<lparr>c2_data := (c2_data l)(i := ucast (v AND len_mask 1))\<rparr>)))))"

text \<open>
  The two parts of the code above in sequence: choose a way, write the victim back, load the
  block; and the lookup that does so on a miss.
\<close>

definition alloc2 :: "u32 \<Rightarrow> nat \<Rightarrow> u32 \<Rightarrow> (mem_state, nat) M" where
  "alloc2 block grp tag =
     bindM (pick2 grp) (\<lambda>x. seqM (evict2 block grp x) (seqM (load2 block grp tag x) (ret x)))"

definition fetch2 :: "u32 \<Rightarrow> nat \<Rightarrow> u32 \<Rightarrow> (mem_state, nat) M" where
  "fetch2 block grp tag =
     bindM (getM (\<lambda>m. hit2 m grp tag)) (\<lambda>hit.
       case hit of Some x \<Rightarrow> ret x | None \<Rightarrow> alloc2 block grp tag)"

text \<open>
  The recursive calls happen only when the access crosses into the next block, where the
  offset is 0, so two levels of recursion serve every access of at most 64 bytes. A write
  of no bytes at offset 0 makes \<open>offset + len - 1\<close> wrap around: the code then copies 64 bytes
  from the 4-byte argument.
\<close>

primrec Cache_2_read_rec :: "nat \<Rightarrow> u32 \<Rightarrow> nat \<Rightarrow> (mem_state, u32) M" where
  "Cache_2_read_rec 0 addr len = fail OutOfFuel"
| "Cache_2_read_rec (Suc depth) addr len =
     (let offset = c_offset addr; grp = c2_group addr; tag = c2_tag addr; block = addr_block addr in
      bindM (fetch2 block grp tag) (\<lambda>x.
      bindM (getM (\<lambda>m. memcpy (junk (dram m)) 0 (c2_data (L2 m grp x)) 0 BLOCK_SIZE)) (\<lambda>temp.
      bindM (if offset + len > BLOCK_SIZE
             then bindM (Cache_2_read_rec depth (block + of_nat BLOCK_SIZE) len) (\<lambda>v.
                    ret (memcpy temp BLOCK_SIZE (\<lambda>i. byte_at i v) 0 4))
             else ret temp) (\<lambda>temp.
      ret (le32 (\<lambda>i. temp (offset + i)))))))"

definition Cache_2_read :: "u32 \<Rightarrow> nat \<Rightarrow> (mem_state, u32) M" where
  "Cache_2_read = Cache_2_read_rec 2"

primrec Cache_2_write_rec :: "nat \<Rightarrow> u32 \<Rightarrow> nat \<Rightarrow> u32 \<Rightarrow> (mem_state, unit) M" where
  "Cache_2_write_rec 0 addr len data = fail OutOfFuel"
| "Cache_2_write_rec (Suc depth) addr len data =
     (let offset = c_offset addr; grp = c2_group addr; tag = c2_tag addr; block = addr_block addr in
      if offset + len = 0 then fail OutOfBounds
      else if offset + len - 1 > 63
      then (let front = 63 - offset + 1; back = len - front;
                high = drop_bit (8 * front) data; low = data AND (push_bit (front * 8) 1 - 1) in
            seqM (Cache_2_write_rec depth addr front low)
                 (Cache_2_write_rec depth (addr + of_nat front) back high))
      else bindM (getM (\<lambda>m. hit2 m grp tag)) (\<lambda>hit.
        case hit of
          Some x \<Rightarrow>
            seqM (forM [0..<len] (\<lambda>i. modM (set_L2 grp x (\<lambda>l.
                    l\<lparr>c2_data := (c2_data l)(offset + i := byte_at i data)\<rparr>))))
              (modM (set_L2 grp x (\<lambda>l. l\<lparr>c2_dirty := True\<rparr>)))
        | None \<Rightarrow>
            seqM (on_dram (dram_write addr len data))
              (seqM (alloc2 block grp tag) (ret ()))))"

definition Cache_2_write :: "u32 \<Rightarrow> nat \<Rightarrow> u32 \<Rightarrow> (mem_state, unit) M" where
  "Cache_2_write = Cache_2_write_rec 2"

section \<open>The first level\<close>

definition fill1 :: "u32 \<Rightarrow> nat \<Rightarrow> nat \<Rightarrow> (mem_state, unit) M" where
  "fill1 block grp x =
     forM [0..<BLOCK_SIZE] (\<lambda>i. bindM (Cache_2_read (block + of_nat i) 1) (\<lambda>v.
       modM (set_L1 grp x (\<lambda>l. l\<lparr>c1_data := (c1_data l)(i := ucast (v AND len_mask 1))\<rparr>))))"

definition fetch1 :: "u32 \<Rightarrow> nat \<Rightarrow> u32 \<Rightarrow> (mem_state, nat) M" where
  "fetch1 block grp tag =
     bindM (getM (\<lambda>m. hit1 m grp tag)) (\<lambda>hit.
       case hit of Some x \<Rightarrow> ret x
       | None \<Rightarrow> bindM (pick1 grp) (\<lambda>x.
           seqM (modM (set_L1 grp x (\<lambda>l. l\<lparr>c1_valid := True, c1_addr := put_bits 13 19 tag (c1_addr l)\<rparr>)))
             (seqM (fill1 block grp x) (ret x))))"

primrec Cache_1_read_rec :: "nat \<Rightarrow> u32 \<Rightarrow> nat \<Rightarrow> (mem_state, u32) M" where
  "Cache_1_read_rec 0 addr len = fail OutOfFuel"
| "Cache_1_read_rec (Suc depth) addr len =
     (let offset = c_offset addr; grp = c1_group addr; tag = c1_tag addr; block = addr_block addr in
      bindM (fetch1 block grp tag) (\<lambda>x.
      bindM (getM (\<lambda>m. memcpy (junk (dram m)) 0 (c1_data (L1 m grp x)) 0 BLOCK_SIZE)) (\<lambda>temp.
      bindM (if offset + len > BLOCK_SIZE
             then bindM (Cache_1_read_rec depth (block + of_nat BLOCK_SIZE) len) (\<lambda>v.
                    ret (memcpy temp BLOCK_SIZE (\<lambda>i. byte_at i v) 0 4))
             else ret temp) (\<lambda>temp.
      ret (le32 (\<lambda>i. temp (offset + i)))))))"

definition Cache_1_read :: "u32 \<Rightarrow> nat \<Rightarrow> (mem_state, u32) M" where
  "Cache_1_read = Cache_1_read_rec 2"

primrec Cache_1_write_rec :: "nat \<Rightarrow> u32 \<Rightarrow> nat \<Rightarrow> u32 \<Rightarrow> (mem_state, unit) M" where
  "Cache_1_write_rec 0 addr len data = fail OutOfFuel"
| "Cache_1_write_rec (Suc depth) addr len data =
     (let offset = c_offset addr; grp = c1_group addr; tag = c1_tag addr; block = addr_block addr in
      if offset + len = 0 then fail OutOfBounds
      else if offset + len - 1 > 63
      then (let front = 63 - offset + 1; back = len - front;
                high = drop_bit (8 * front) data; low = data AND (push_bit (front * 8) 1 - 1) in
            seqM (Cache_1_write_rec depth addr front low)
                 (Cache_1_write_rec depth (addr + of_nat front) back high))
      else bindM (getM (\<lambda>m. hit1 m grp tag)) (\<lambda>hit.
        seqM (Cache_2_write addr len data)
          (case hit of Some x \<Rightarrow> fill1 block grp x | None \<Rightarrow> ret ())))"

definition Cache_1_write :: "u32 \<Rightarrow> nat \<Rightarrow> u32 \<Rightarrow> (mem_state, unit) M" where
  "Cache_1_write = Cache_1_write_rec 2"

section \<open>Address geometry\<close>

lemma addr_fields:
  "c_offset a = unat a mod 64" "c1_group a = unat a div 64 mod 128"
  "unat (c1_tag a) = unat a div 64 div 128"
  "c2_group a = unat a div 64 mod 4096" "unat (c2_tag a) = unat a div 64 div 4096"
proof -
  have pow: "(2::nat) ^ 6 = 64" "(2::nat) ^ 7 = 128" "(2::nat) ^ 13 = 64 * 128" "(2::nat) ^ 12 = 4096"
    "(2::nat) ^ 18 = 64 * 4096" by simp_all
  show "c1_group a = unat a div 64 mod 128" "c2_group a = unat a div 64 mod 4096"
    unfolding c1_group_def c2_group_def unat_bits pow by (rule refl)+
  show "c_offset a = unat a mod 64" unfolding c_offset_def unat_bits pow by simp
  have lt: "unat a < 2 ^ 32" using unsigned_less [of a] by simp
  have "unat a div 2 ^ 13 < 2 ^ 19" "unat a div 2 ^ 18 < 2 ^ 14"
    using lt by (simp_all add: less_mult_imp_div_less)
  then show "unat (c1_tag a) = unat a div 64 div 128" "unat (c2_tag a) = unat a div 64 div 4096"
    unfolding c1_tag_def c2_tag_def unat_bits by (simp_all add: div_mult2_eq [symmetric])
qed

lemma unat_addr_block: "unat (addr_block a) = 64 * (unat a div 64)"
proof -
  have "push_bit 6 (NOT 0) = (NOT (mask 6) :: u32)"
    by (rule bit_word_eqI) (simp add: bit_simps)
  then have "unat (addr_block a) = unat a - unat a mod 2 ^ 6"
    unfolding addr_block_def by (simp only: unat_and_not_low)
  then show ?thesis by (simp add: minus_mod_eq_mult_div)
qed

lemma c2_tag_put [simp]: "c2_tag (put_bits 18 14 tag a) = take_bit 14 tag"
  unfolding c2_tag_def by (rule bits_put_bits_same) simp

lemma c1_tag_put [simp]: "c1_tag (put_bits 13 19 tag a) = take_bit 19 tag"
  unfolding c1_tag_def by (rule bits_put_bits_same) simp

end
