(* ===== verification/Block_Cache.thy ===== *)
theory Block_Cache
  imports Cache
begin

unbundle bit_operations_syntax

text \<open>
  What the two cache levels have in common: both serve an access from the 64-byte line of its
  block, continue in the next block when the access crosses the boundary, and split a
  crossing write in two. The locale takes the two single-block operations of a level with
  their contracts and derives that the level is a byte store; \<open>W\<close> is the set of blocks the
  level accepts and \<open>frame\<close> relates the states before and after an operation.
\<close>

definition cache_ok :: "nat set \<Rightarrow> 's \<Rightarrow> u32 \<Rightarrow> nat \<Rightarrow> bool" where
  "cache_ok W m a n \<longleftrightarrow> 1 \<le> n \<and> n \<le> 4 \<and> unat a + n \<le> HW_MEM_SIZE \<and>
     unat a div 64 \<in> W \<and> (unat a + n - 1) div 64 \<in> W"

definition block_ok :: "nat set \<Rightarrow> u32 \<Rightarrow> bool" where
  "block_ok W a \<longleftrightarrow> unat a div 64 \<in> W \<and> unat a < HW_MEM_SIZE"

locale block_cache =
  fixes line :: "u32 \<Rightarrow> ('s, bytes) M"
    and single :: "u32 \<Rightarrow> nat \<Rightarrow> u32 \<Rightarrow> ('s, unit) M"
    and scratch :: "'s \<Rightarrow> bytes"
    and rd_rec :: "nat \<Rightarrow> u32 \<Rightarrow> nat \<Rightarrow> ('s, u32) M"
    and wr_rec :: "nat \<Rightarrow> u32 \<Rightarrow> nat \<Rightarrow> u32 \<Rightarrow> ('s, unit) M"
    and view :: "'s \<Rightarrow> bytes"
    and inv :: "'s \<Rightarrow> bool"
    and frame :: "'s \<Rightarrow> 's \<Rightarrow> bool"
    and W :: "nat set"
  assumes rd_eq: "rd_rec (Suc d) a n =
      bindM (line a) (\<lambda>dat. bindM (getM (\<lambda>s. memcpy (scratch s) 0 dat 0 64)) (\<lambda>temp.
      bindM (if c_offset a + n > 64
             then bindM (rd_rec d (addr_block a + 64) n) (\<lambda>v. ret (memcpy temp 64 (\<lambda>i. byte_at i v) 0 4))
             else ret temp) (\<lambda>temp. ret (le32 (\<lambda>i. temp (c_offset a + i))))))"
    and wr_eq: "0 < c_offset a + n \<Longrightarrow> wr_rec (Suc d) a n v =
      (if c_offset a + n - 1 > 63
       then (let front = 63 - c_offset a + 1; back = n - front;
                 high = drop_bit (8 * front) v; low = v AND (push_bit (front * 8) 1 - 1) in
             seqM (wr_rec d a front low) (wr_rec d (a + of_nat front) back high))
       else single a n v)"
    and line_spec: "inv s \<Longrightarrow> block_ok W a \<Longrightarrow>
      wp (line a) (\<lambda>dat t. inv t \<and> view t = view s \<and> frame s t \<and>
        (\<forall>i<64. dat i = view s (64 * (unat a div 64) + i))) s"
    and single_spec: "inv s \<Longrightarrow> block_ok W a \<Longrightarrow> 1 \<le> n \<Longrightarrow> n \<le> 4 \<Longrightarrow> unat a mod 64 + n \<le> 64 \<Longrightarrow>
      wp (single a n v) (\<lambda>_ t. inv t \<and> view t = store (unat a) n v (view s) \<and> frame s t) s"
    and frame_trans: "frame s t \<Longrightarrow> frame t u \<Longrightarrow> frame s u"
begin

lemma rd_one_block:
  assumes "inv s" "block_ok W a" "n \<le> 4" "unat a mod 64 + n \<le> 64"
  shows "wp (rd_rec (Suc d) a n) (\<lambda>v t. inv t \<and> view t = view s \<and> frame s t \<and>
    (\<forall>i<n. byte_at i v = view s (unat a + i))) s"
proof -
  have "wp (line a) (\<lambda>dat t. inv t \<and> view t = view s \<and> frame s t \<and>
      (\<forall>i<n. byte_at i (le32 (\<lambda>i. memcpy (scratch t) 0 dat 0 64 (unat a mod 64 + i))) = view s (unat a + i))) s"
  proof (rule wp_mono [OF line_spec [OF assms(1,2)]])
    fix dat t assume t: "inv t \<and> view t = view s \<and> frame s t \<and> (\<forall>i<64. dat i = view s (64 * (unat a div 64) + i))"
    have "byte_at i (le32 (\<lambda>i. memcpy (scratch t) 0 dat 0 64 (unat a mod 64 + i))) = view s (unat a + i)"
      if "i < n" for i
    proof -
      have "unat a mod 64 + i < 64" "i < 4" using that assms by simp_all
      moreover have "64 * (unat a div 64) + (unat a mod 64 + i) = unat a + i"
        using mult_div_mod_eq [of 64 "unat a"] by simp
      ultimately show ?thesis using t by (simp add: memcpy_def)
    qed
    with t show "inv t \<and> view t = view s \<and> frame s t \<and>
      (\<forall>i<n. byte_at i (le32 (\<lambda>i. memcpy (scratch t) 0 dat 0 64 (unat a mod 64 + i))) = view s (unat a + i))"
      by blast
  qed
  with assms show ?thesis by (simp add: rd_eq wp_simps addr_fields)
qed

lemma next_block:
  assumes ok: "cache_ok W s a n" and cross: "unat a mod 64 + n > 64"
  shows "block_ok W a" and "block_ok W (addr_block a + 64)"
    and "unat (addr_block a + 64) = 64 * (unat a div 64) + 64"
proof -
  let ?B = "unat a div 64"
  have a: "unat a = 64 * ?B + unat a mod 64" by simp
  from ok have n: "n \<le> 4" "unat a + n \<le> HW_MEM_SIZE" by (auto simp: cache_ok_def)
  from cross n have lt: "64 * ?B + 64 < HW_MEM_SIZE" using a by linarith
  then show eq: "unat (addr_block a + 64) = 64 * ?B + 64"
    by (simp add: unat_word_ariths unat_addr_block)
  have "(unat a + n - 1) div 64 = ?B + 1"
    using cross n(1) next_block_div [of 64 "unat a" n] by simp
  with ok have "?B + 1 \<in> W" by (simp add: cache_ok_def)
  moreover have "(64 * ?B + 64) div 64 = ?B + 1" by simp
  ultimately show "block_ok W (addr_block a + 64)" using lt by (simp add: block_ok_def eq)
  show "block_ok W a" using ok by (auto simp: block_ok_def cache_ok_def)
qed

lemma rd_spec2:
  assumes inv: "inv s" and ok: "cache_ok W s a n"
  shows "wp (rd_rec 2 a n) (\<lambda>v t. inv t \<and> view t = view s \<and> frame s t \<and>
    (\<forall>i<n. byte_at i v = view s (unat a + i))) s"
proof (cases "unat a mod 64 + n > 64")
  case False
  then show ?thesis using rd_one_block [of s a n 1] inv ok
    by (simp add: cache_ok_def block_ok_def numeral_2_eq_2)
next
  case True
  let ?B = "64 * (unat a div 64)" and ?o = "unat a mod 64"
  have n: "n \<le> 4" using ok by (simp add: cache_ok_def)
  note nb = next_block [OF ok True]
  have a: "unat a = ?B + ?o" by simp
  have "wp (line a) (\<lambda>dat t. wp (rd_rec (Suc 0) (addr_block a + 64) n) (\<lambda>v u. inv u \<and> view u = view s \<and> frame s u \<and>
      (\<forall>i<n. byte_at i (le32 (\<lambda>i. memcpy (memcpy (scratch t) 0 dat 0 64) 64 (\<lambda>i. byte_at i v) 0 4 (?o + i)))
        = view s (unat a + i))) t) s"
  proof (rule wp_mono [OF line_spec [OF inv nb(1)]])
    fix dat t assume t: "inv t \<and> view t = view s \<and> frame s t \<and> (\<forall>i<64. dat i = view s (?B + i))"
    then have "wp (rd_rec (Suc 0) (addr_block a + 64) n) (\<lambda>v u. inv u \<and> view u = view t \<and> frame t u \<and>
        (\<forall>i<n. byte_at i v = view t (unat (addr_block a + 64) + i))) t"
      by (intro rd_one_block) (use nb n in auto)
    then show "wp (rd_rec (Suc 0) (addr_block a + 64) n) (\<lambda>v u. inv u \<and> view u = view s \<and> frame s u \<and>
      (\<forall>i<n. byte_at i (le32 (\<lambda>i. memcpy (memcpy (scratch t) 0 dat 0 64) 64 (\<lambda>i. byte_at i v) 0 4 (?o + i)))
        = view s (unat a + i))) t"
    proof (rule wp_mono)
      fix v u assume u: "inv u \<and> view u = view t \<and> frame t u \<and>
        (\<forall>i<n. byte_at i v = view t (unat (addr_block a + 64) + i))"
      have "memcpy (memcpy (scratch t) 0 dat 0 64) 64 (\<lambda>i. byte_at i v) 0 4 (?o + i) = view s (unat a + i)"
        if "i < n" for i
      proof (cases "?o + i < 64")
        case True
        then show ?thesis using t a by (simp add: memcpy_def)
      next
        case False
        have o: "?o < 64" by simp
        from o that have "?o + i - 64 < n" by linarith
        moreover have "?B + 64 + (?o + i - 64) = unat a + i" using a False by linarith
        moreover have "?o + i < 68" using o that n by linarith
        ultimately show ?thesis using u t False by (simp add: memcpy_def nb(3))
      qed
      with u t n show "inv u \<and> view u = view s \<and> frame s u \<and>
        (\<forall>i<n. byte_at i (le32 (\<lambda>i. memcpy (memcpy (scratch t) 0 dat 0 64) 64 (\<lambda>i. byte_at i v) 0 4 (?o + i)))
          = view s (unat a + i))" by (auto intro: frame_trans)
    qed
  qed
  with True show ?thesis
    by (simp add: numeral_2_eq_2 rd_eq [of "Suc 0"] wp_simps addr_fields)
qed

lemma wr_spec2:
  assumes inv: "inv s" and ok: "cache_ok W s a n"
  shows "wp (wr_rec 2 a n v) (\<lambda>_ t. inv t \<and> view t = store (unat a) n v (view s) \<and> frame s t) s"
proof -
  have n: "1 \<le> n" "n \<le> 4" and a_ok: "block_ok W a"
    using ok by (auto simp: cache_ok_def block_ok_def)
  have two: "wr_rec 2 b k w = wr_rec (Suc (Suc 0)) b k w" for b k w by (simp add: numeral_2_eq_2)
  show ?thesis
  proof (cases "unat a mod 64 + n > 64")
    case False
    then have "\<not> unat a mod 64 + n - 1 > 63" "0 < unat a mod 64 + n" using n by linarith+
    then have "wr_rec 2 a n v = single a n v" by (simp add: two wr_eq addr_fields)
    then show ?thesis using single_spec [OF inv a_ok n, of v] False by simp
  next
    case True
    define f where "f = 64 - unat a mod 64"
    have f: "unat a mod 64 + f = 64" "1 \<le> f" "f < n" using True by (auto simp: f_def)
    note nb = next_block [OF ok True]
    have a': "a + of_nat f = addr_block a + 64"
    proof (rule word_unat_eq_iff [THEN iffD2])
      have "unat a + f = 64 * (unat a div 64) + 64" using f(1) mult_div_mod_eq [of 64 "unat a"] by linarith
      moreover from this nb(2,3) have "unat a + f < 2 ^ 32" by (simp add: block_ok_def)
      ultimately show "unat (a + of_nat f) = unat (addr_block a + 64)"
        using nb(3) f n by (simp add: unat_word_ariths unat_of_nat)
    qed
    have f': "63 - unat a mod 64 + 1 = f" "Suc (63 - unat a mod 64) = f" by (simp_all add: f_def)
    let ?low = "v AND (push_bit (f * 8) 1 - 1)" and ?high = "drop_bit (8 * f) v"
    have eq: "wr_rec 2 a n v = seqM (single a f ?low) (single (addr_block a + 64) (n - f) ?high)"
    proof -
      have "unat a mod 64 + n - 1 > 63" "0 < unat a mod 64 + n" "\<not> unat a mod 64 + f - 1 > 63"
        "0 < unat a mod 64 + f" "0 < n - f" "\<not> 0 + (n - f) - 1 > 63"
        using True n f by linarith+
      then show ?thesis using nb(3) by (simp add: two wr_eq addr_fields Let_def f' a')
    qed
    have "wp (single a f ?low) (\<lambda>_. wp (single (addr_block a + 64) (n - f) ?high)
        (\<lambda>_ t. inv t \<and> view t = store (unat a) n v (view s) \<and> frame s t)) s"
    proof (rule wp_mono [OF single_spec [OF inv a_ok f(2)]])
      fix x t assume t: "inv t \<and> view t = store (unat a) f ?low (view s) \<and> frame s t"
      have mod: "unat (addr_block a + 64) mod 64 = 0" using nb(3) by simp
      have "unat (addr_block a + 64) = unat a + f" using nb(3) f(1) mult_div_mod_eq [of 64 "unat a"] by linarith
      with t show "wp (single (addr_block a + 64) (n - f) ?high)
        (\<lambda>_ t. inv t \<and> view t = store (unat a) n v (view s) \<and> frame s t) t"
        using nb f n store_split [of f n "unat a" v "view s"] mod
        by (intro wp_mono [OF single_spec]) (auto intro: frame_trans)
    qed (use f n in auto)
    then show ?thesis by (simp add: eq wp_simps)
  qed
qed

end

sublocale block_cache \<subseteq> store: byte_store "rd_rec 2" "wr_rec 2" view inv "cache_ok W"
proof
  fix s a n assume "inv s" "cache_ok W s a n"
  then show "wp (rd_rec 2 a n) (\<lambda>v t. inv t \<and> view t = view s \<and>
      (\<forall>b m. cache_ok W s b m \<longrightarrow> cache_ok W t b m) \<and> (\<forall>i<n. byte_at i v = view s (unat a + i))) s"
    by (rule wp_mono [OF rd_spec2]) (simp add: cache_ok_def)
next
  fix s a n v assume "inv s" "cache_ok W s a n"
  then show "wp (wr_rec 2 a n v) (\<lambda>_ t. inv t \<and> view t = store (unat a) n v (view s) \<and>
      (\<forall>b m. cache_ok W s b m \<longrightarrow> cache_ok W t b m)) s"
    by (rule wp_mono [OF wr_spec2]) (simp add: cache_ok_def)
qed

end
