(* ===== verification/Cache_Correct.thy ===== *)
theory Cache_Correct
  imports Block_Cache
begin

unbundle bit_operations_syntax

text \<open>
  Transparency of the caches. The memory a client of the caches should see is \<open>mem_view\<close>: a
  byte comes from the second level when its block is resident there and from the DRAM
  otherwise. As long as the blocks in use, a set \<open>W\<close>, put at most 16 blocks in any group of
  the second level, both levels are byte stores over that view. A dirty block is never
  replaced then. What happens when one is replaced is stated at the end.
\<close>

section \<open>The view of memory\<close>

definition way_of :: "mem_state \<Rightarrow> nat \<Rightarrow> nat option" where
  "way_of m B = find_way WAY_NUM_2 (\<lambda>i. c2_valid (L2 m (B mod 4096) i) \<and>
     unat (c2_tag (c2_addr (L2 m (B mod 4096) i))) = B div 4096)"

definition mem_view :: "mem_state \<Rightarrow> bytes" where
  "mem_view m k =
     (if k < HW_MEM_SIZE then
        (case way_of m (k div 64) of
           Some x \<Rightarrow> c2_data (L2 m (k div 64 mod 4096) x) (k mod 64)
         | None \<Rightarrow> hw_mem (dram m) k)
      else hw_mem (dram m) k)"

lemma hit2_way_of: "hit2 m (c2_group a) (c2_tag a) = way_of m (unat a div 64)"
  unfolding hit2_def way_of_def addr_fields(4)
  by (intro find_way_cong) (simp add: addr_fields(5) [symmetric] word_unat_eq_iff)

lemmas hit2_way_of' = hit2_way_of [unfolded addr_fields(4)]

text \<open>A set of blocks that fits the second level.\<close>

definition working_set :: "nat set \<Rightarrow> bool" where
  "working_set W \<longleftrightarrow> (\<forall>g. finite {B \<in> W. B mod 4096 = g} \<and> card {B \<in> W. B mod 4096 = g} \<le> WAY_NUM_2)"

definition l2_inv :: "nat set \<Rightarrow> mem_state \<Rightarrow> bool" where
  "l2_inv W m \<longleftrightarrow> working_set W \<and> rb_coherent (dram m) \<and>
     (\<forall>g<4096. \<forall>i<16. c2_valid (L2 m g i) \<longrightarrow> unat (c2_tag (c2_addr (L2 m g i))) * 4096 + g \<in> W) \<and>
     (\<forall>g<4096. \<forall>i<16. \<forall>j<16. c2_valid (L2 m g i) \<longrightarrow> c2_valid (L2 m g j) \<longrightarrow>
        c2_tag (c2_addr (L2 m g i)) = c2_tag (c2_addr (L2 m g j)) \<longrightarrow> i = j) \<and>
     (\<forall>g<4096. \<forall>i<16. c2_dirty (L2 m g i) \<longrightarrow> c2_valid (L2 m g i)) \<and>
     (\<forall>B x. way_of m B = Some x \<longrightarrow> \<not> c2_dirty (L2 m (B mod 4096) x) \<longrightarrow>
        (\<forall>i<64. c2_data (L2 m (B mod 4096) x) i = hw_mem (dram m) (64 * B + i)))"

lemma l2_invD:
  assumes "l2_inv W m"
  shows "working_set W" "rb_coherent (dram m)"
    and "g < 4096 \<Longrightarrow> i < 16 \<Longrightarrow> c2_valid (L2 m g i) \<Longrightarrow> unat (c2_tag (c2_addr (L2 m g i))) * 4096 + g \<in> W"
    and "g < 4096 \<Longrightarrow> i < 16 \<Longrightarrow> j < 16 \<Longrightarrow> c2_valid (L2 m g i) \<Longrightarrow> c2_valid (L2 m g j) \<Longrightarrow>
        c2_tag (c2_addr (L2 m g i)) = c2_tag (c2_addr (L2 m g j)) \<Longrightarrow> i = j"
    and "g < 4096 \<Longrightarrow> i < 16 \<Longrightarrow> c2_dirty (L2 m g i) \<Longrightarrow> c2_valid (L2 m g i)"
    and "way_of m B = Some x \<Longrightarrow> \<not> c2_dirty (L2 m (B mod 4096) x) \<Longrightarrow> k < 64 \<Longrightarrow>
        c2_data (L2 m (B mod 4096) x) k = hw_mem (dram m) (64 * B + k)"
  using assms by (simp_all add: l2_inv_def)

text \<open>Reading a line through the view.\<close>

lemma mem_view_block:
  assumes "B < 2097152" "i < 64"
  shows "mem_view m (64 * B + i) = (case way_of m B of Some x \<Rightarrow> c2_data (L2 m (B mod 4096) x) i
     | None \<Rightarrow> hw_mem (dram m) (64 * B + i))"
proof -
  have "(64 * B + i) div 64 = B" "(64 * B + i) mod 64 = i" "64 * B + i < HW_MEM_SIZE"
    using assms by simp_all
  then show ?thesis by (simp add: mem_view_def split: option.split)
qed

text \<open>A missing block of the working set finds an empty way.\<close>

lemma free_way:
  assumes inv: "l2_inv W m" and B: "B \<in> W" and miss: "way_of m B = None"
  obtains x where "x < 16" "\<not> c2_valid (L2 m (B mod 4096) x)"
    and "find_way WAY_NUM_2 (\<lambda>i. \<not> c2_valid (L2 m (B mod 4096) i)) = Some x"
proof -
  let ?g = "B mod 4096"
  let ?blk = "\<lambda>i. unat (c2_tag (c2_addr (L2 m ?g i))) * 4096 + ?g"
  let ?Wg = "{C \<in> W. C mod 4096 = ?g}"
  have g: "?g < 4096" by simp
  have "\<not> (\<forall>i<16. c2_valid (L2 m ?g i))"
  proof
    assume all: "\<forall>i<16. c2_valid (L2 m ?g i)"
    have inj: "inj_on ?blk {..<16}"
      by (rule inj_onI) (use l2_invD(4) [OF inv g] all in \<open>simp add: word_unat_eq_iff\<close>)
    have blk_W: "?blk ` {..<16} \<subseteq> ?Wg - {B}"
    proof
      fix C assume "C \<in> ?blk ` {..<16}"
      then obtain i where i: "i < 16" "C = ?blk i" by auto
      moreover from i miss all have "unat (c2_tag (c2_addr (L2 m ?g i))) \<noteq> B div 4096"
        by (auto simp: way_of_def find_way_None)
      then have "C \<noteq> B" using i div_mult_mod_eq [of B 4096] by auto
      ultimately show "C \<in> ?Wg - {B}" using l2_invD(3) [OF inv g i(1)] all by simp
    qed
    have fin: "finite ?Wg" and card: "card ?Wg \<le> 16"
      using l2_invD(1) [OF inv] by (auto simp: working_set_def)
    have "card (?blk ` {..<16}) = 16" using inj by (simp add: card_image)
    moreover have "card (?blk ` {..<16}) \<le> card (?Wg - {B})" using blk_W fin by (intro card_mono) auto
    moreover have "card (?Wg - {B}) < card ?Wg" using fin B by (intro psubset_card_mono) auto
    ultimately show False using card by simp
  qed
  then have "find_way 16 (\<lambda>i. \<not> c2_valid (L2 m ?g i)) \<noteq> None" by (simp add: find_way_None)
  then obtain x where x: "find_way 16 (\<lambda>i. \<not> c2_valid (L2 m ?g i)) = Some x" by auto
  then show ?thesis using that [of x] find_way_SomeD [OF x] by simp
qed

section \<open>Loading a block\<close>

text \<open>The second level's DRAM port is a byte store on the larger state.\<close>

interpretation port: byte_store "\<lambda>a n. on_dram (dram_read a n)" "\<lambda>a n v. on_dram (dram_write a n v)"
  "\<lambda>m. hw_mem (dram m)" "\<lambda>m. rb_coherent (dram m)" "\<lambda>m. dram_ok (dram m)"
  unfolding on_dram_def by (rule dram.zoom_store) simp

lemma on_dram_frame:
  "wp (on_dram f) Q m \<Longrightarrow> wp (on_dram f) (\<lambda>x t. Q x t \<and> (\<exists>d. t = m\<lparr>dram := d\<rparr>)) m"
  by (auto simp: on_dram_def wp_zoom elim: wp_mono)

lemma block_addr:
  assumes "unat block = 64 * B" "B < 2097152" "i < 64"
  shows "unat (block + of_nat i :: u32) = 64 * B + i"
  using assms by (simp add: unat_word_ariths unat_of_nat)

definition loaded :: "mem_state \<Rightarrow> nat \<Rightarrow> nat \<Rightarrow> Cache_2 \<Rightarrow> mem_state \<Rightarrow> bool" where
  "loaded m g x line t \<longleftrightarrow> rb_coherent (dram t) \<and> hw_mem (dram t) = hw_mem (dram m) \<and> L1 t = L1 m \<and>
     L2 t = (L2 m)(g := (L2 m g)(x := line))"

lemma load2_spec:
  assumes coh: "rb_coherent (dram m)" and block: "unat block = 64 * B" "B < 2097152"
  shows "wp (load2 block g tag x) (\<lambda>_ t. \<exists>d. (\<forall>i<64. d i = hw_mem (dram m) (64 * B + i)) \<and>
     loaded m g x ((L2 m g x)\<lparr>c2_valid := True, c2_addr := put_bits 18 14 tag (c2_addr (L2 m g x)),
         c2_dirty := False, c2_data := d\<rparr>) t) m"
proof -
  let ?l = "(L2 m g x)\<lparr>c2_valid := True, c2_addr := put_bits 18 14 tag (c2_addr (L2 m g x)), c2_dirty := False\<rparr>"
  let ?m = "set_L2 g x (\<lambda>l. l\<lparr>c2_valid := True, c2_addr := put_bits 18 14 tag (c2_addr l), c2_dirty := False\<rparr>) m"
  let ?F = "\<lambda>t :: mem_state. L1 t = L1 m \<and> (\<exists>d. L2 t = (L2 m)(g := (L2 m g)(x := ?l\<lparr>c2_data := d\<rparr>)))"
  let ?act = "\<lambda>i (v::u32). modM (set_L2 g x (\<lambda>l. l\<lparr>c2_data := (c2_data l)(i := ucast (v AND len_mask 1))\<rparr>))"
  have m1: "L1 ?m = L1 m" "dram ?m = dram m" "L2 ?m = (L2 m)(g := (L2 m g)(x := ?l\<lparr>c2_data := c2_data (L2 m g x)\<rparr>))"
    by (simp_all add: set_L2_def)
  have ok: "dram_ok (dram s) (block + of_nat i) 1" if "i < 64" for i s
    using block_addr [OF block that] that block(2) by (simp add: dram_ok_def)
  have "wp (forM [0..<64] (\<lambda>i. bindM (on_dram (dram_read (block + of_nat i) 1)) (?act i)))
    (\<lambda>_ t. rb_coherent (dram t) \<and> ?F t \<and> hw_mem (dram t) = hw_mem (dram ?m) \<and>
       (\<forall>b n. dram_ok (dram ?m) b n \<longrightarrow> dram_ok (dram t) b n) \<and>
       (\<forall>i. c2_data (L2 t g x) i = (if i < 64 then hw_mem (dram ?m) (unat block + i) else c2_data (L2 ?m g x) i))) ?m"
  proof (rule port.fill_loop)
    show "rb_coherent (dram ?m)" using coh m1 by simp
    show "?F ?m" using m1 by blast
    show "unat block + 64 < 2 ^ 32" using block by simp
    show "dram_ok (dram ?m) (block + of_nat i) 1" if "i < 64" for i by (rule ok [OF that])
  next
    fix i :: nat and t :: mem_state assume "i < 64" "rb_coherent (dram t)" "?F t" "dram_ok (dram t) (block + of_nat i) 1"
    then have "wp (on_dram (dram_read (block + of_nat i) 1)) (\<lambda>_ _. True) t" by (intro port.rd_mono) auto
    from on_dram_frame [OF this]
    show "wp (on_dram (dram_read (block + of_nat i) 1)) (\<lambda>_ u. ?F u \<and> c2_data (L2 u g x) = c2_data (L2 t g x)) t"
      by (rule wp_mono) (use \<open>?F t\<close> in auto)
  next
    fix i :: nat and v and t :: mem_state assume t: "i < 64" "rb_coherent (dram t)" "?F t"
    then show "wp (?act i v) (\<lambda>_ u. rb_coherent (dram u) \<and> ?F u \<and> hw_mem (dram u) = hw_mem (dram t) \<and>
        (\<forall>b n. dram_ok (dram t) b n \<longrightarrow> dram_ok (dram u) b n) \<and>
        c2_data (L2 u g x) = (c2_data (L2 t g x))(i := byte_at 0 v)) t"
      by (auto simp: wp_modM set_L2_def)
  qed
  then have "wp (forM [0..<64] (\<lambda>i. bindM (on_dram (dram_read (block + of_nat i) 1)) (?act i)))
    (\<lambda>_ t. \<exists>d. (\<forall>i<64. d i = hw_mem (dram m) (64 * B + i)) \<and> loaded m g x (?l\<lparr>c2_data := d\<rparr>) t) ?m"
  proof (rule wp_mono)
    fix u and t :: mem_state
    assume post: "rb_coherent (dram t) \<and> ?F t \<and> hw_mem (dram t) = hw_mem (dram ?m) \<and>
       (\<forall>b n. dram_ok (dram ?m) b n \<longrightarrow> dram_ok (dram t) b n) \<and>
       (\<forall>i. c2_data (L2 t g x) i = (if i < 64 then hw_mem (dram ?m) (unat block + i) else c2_data (L2 ?m g x) i))"
    then obtain d where d: "L2 t = (L2 m)(g := (L2 m g)(x := ?l\<lparr>c2_data := d\<rparr>))" by blast
    then have "\<forall>i<64. d i = hw_mem (dram m) (64 * B + i)" using post m1 block by simp
    with post d m1 show "\<exists>d. (\<forall>i<64. d i = hw_mem (dram m) (64 * B + i)) \<and> loaded m g x (?l\<lparr>c2_data := d\<rparr>) t"
      by (intro exI [of _ d]) (simp add: loaded_def)
  qed
  then show ?thesis by (simp add: load2_def wp_simps)
qed

text \<open>Filling an empty way with the block of memory keeps the invariant and the view.\<close>

lemma way_of_loaded:
  assumes inv: "l2_inv W m" and x: "x < 16" "\<not> c2_valid (L2 m (B mod 4096) x)" and miss: "way_of m B = None"
    and t: "loaded m (B mod 4096) x line t"
    and line: "c2_valid line" "unat (c2_tag (c2_addr line)) = B div 4096"
  shows "way_of t C = (if C = B then Some x else way_of m C)"
proof (cases "C mod 4096 = B mod 4096")
  case True
  have L2t: "L2 t (C mod 4096) i = (if i = x then line else L2 m (C mod 4096) i)" for i
    using t True by (simp add: loaded_def)
  show ?thesis
  proof (cases "C = B")
    case C: True
    have "find_way 16 (\<lambda>i. c2_valid (L2 t (B mod 4096) i) \<and>
        unat (c2_tag (c2_addr (L2 t (B mod 4096) i))) = B div 4096) = Some x"
      by (rule find_way_unique)
        (use L2t C line x miss in \<open>auto simp: way_of_def find_way_None split: if_splits\<close>)
    then show ?thesis using C by (simp add: way_of_def)
  next
    case False
    with True have "C div 4096 \<noteq> B div 4096" by (metis div_mult_mod_eq)
    then have "way_of t C = way_of m C" unfolding way_of_def
      by (intro find_way_cong) (use L2t line x True in auto)
    then show ?thesis using False by simp
  qed
next
  case False
  then have "L2 t (C mod 4096) = L2 m (C mod 4096)" using t by (simp add: loaded_def)
  moreover from False have "C \<noteq> B" by auto
  ultimately show ?thesis by (simp add: way_of_def)
qed

lemma loaded_l2_inv:
  assumes inv: "l2_inv W m" and B: "B \<in> W" and x: "x < 16" "\<not> c2_valid (L2 m (B mod 4096) x)"
    and miss: "way_of m B = None" and t: "loaded m (B mod 4096) x line t"
    and line: "c2_valid line" "\<not> c2_dirty line" "unat (c2_tag (c2_addr line)) = B div 4096"
      "\<forall>i<64. c2_data line i = hw_mem (dram m) (64 * B + i)"
  shows "l2_inv W t \<and> mem_view t = mem_view m \<and> way_of t B = Some x"
proof -
  note way = way_of_loaded [OF inv x miss t line(1,3)]
  have L2t: "L2 t g i = (if g = B mod 4096 \<and> i = x then line else L2 m g i)" for g i
    using t by (simp add: loaded_def)
  have mem: "hw_mem (dram t) = hw_mem (dram m)" "rb_coherent (dram t)" using t by (simp_all add: loaded_def)
  have fresh: "c2_tag (c2_addr (L2 m (B mod 4096) i)) \<noteq> c2_tag (c2_addr line)"
    if "i < 16" "c2_valid (L2 m (B mod 4096) i)" for i
    using miss that line(3) by (auto simp: way_of_def find_way_None)
  have "l2_inv W t"
    unfolding l2_inv_def
  proof (intro conjI allI impI)
    show "working_set W" by (rule l2_invD(1) [OF inv])
    show "rb_coherent (dram t)" by (rule mem(2))
  next
    fix g i assume "g < 4096" "i < 16" "c2_valid (L2 t g i)"
    then show "unat (c2_tag (c2_addr (L2 t g i))) * 4096 + g \<in> W"
      using l2_invD(3) [OF inv] B line(3) by (auto simp: L2t split: if_splits)
  next
    fix g i j assume "g < 4096" "i < 16" "j < 16" "c2_valid (L2 t g i)" "c2_valid (L2 t g j)"
      "c2_tag (c2_addr (L2 t g i)) = c2_tag (c2_addr (L2 t g j))"
    then show "i = j"
      using l2_invD(4) [OF inv, of g i j] fresh [of i] fresh [of j] by (auto simp: L2t split: if_splits)
  next
    fix g i assume "g < 4096" "i < 16" "c2_dirty (L2 t g i)"
    then show "c2_valid (L2 t g i)" using l2_invD(5) [OF inv] line(2) by (auto simp: L2t split: if_splits)
  next
    fix C y k :: nat assume C: "way_of t C = Some y" "\<not> c2_dirty (L2 t (C mod 4096) y)" and k: "k < 64"
    show "c2_data (L2 t (C mod 4096) y) k = hw_mem (dram t) (64 * C + k)"
    proof (cases "C = B")
      case True
      then show ?thesis using C way line(4) k mem by (simp add: L2t)
    next
      case False
      with C way have y: "way_of m C = Some y" by simp
      then have "c2_valid (L2 m (C mod 4096) y)" by (auto simp: way_of_def dest!: find_way_SomeD)
      then have "L2 t (C mod 4096) y = L2 m (C mod 4096) y" using x by (auto simp: L2t)
      with C(2) l2_invD(6) [OF inv y _ k] mem show ?thesis by simp
    qed
  qed
  moreover have "mem_view t k = mem_view m k" for k
  proof (cases "k div 64 = B")
    case True
    then have k: "k = 64 * B + k mod 64" using mult_div_mod_eq [of 64 k] by simp
    have "c2_data line (k mod 64) = hw_mem (dram m) k" using line(4) k by simp
    then show ?thesis using True way miss mem by (simp add: mem_view_def L2t)
  next
    case False
    have "L2 t (k div 64 mod 4096) y = L2 m (k div 64 mod 4096) y" if "way_of m (k div 64) = Some y" for y
      using that x by (auto simp: L2t way_of_def dest!: find_way_SomeD)
    then show ?thesis using False way mem by (auto simp: mem_view_def split: option.split)
  qed
  ultimately show ?thesis using way by auto
qed

lemma alloc2_spec:
  assumes inv: "l2_inv W m" and B: "B \<in> W" "B < 2097152" and miss: "way_of m B = None"
    and block: "unat block = 64 * B" and tag: "unat tag = B div 4096"
  shows "wp (alloc2 block (B mod 4096) tag)
    (\<lambda>x t. l2_inv W t \<and> mem_view t = mem_view m \<and> L1 t = L1 m \<and> way_of t B = Some x) m"
proof -
  obtain x where x: "x < 16" "\<not> c2_valid (L2 m (B mod 4096) x)"
    and pick: "find_way 16 (\<lambda>i. \<not> c2_valid (L2 m (B mod 4096) i)) = Some x"
    using free_way [OF inv B(1) miss] .
  have clean: "\<not> c2_dirty (L2 m (B mod 4096) x)" using l2_invD(5) [OF inv, of "B mod 4096" x] x by auto
  have "unat (take_bit 14 tag) = B div 4096" using tag B(2) by (simp add: unat_take_bit)
  then have "wp (load2 block (B mod 4096) tag x)
    (\<lambda>_ t. l2_inv W t \<and> mem_view t = mem_view m \<and> L1 t = L1 m \<and> way_of t B = Some x) m"
    by (intro wp_mono [OF load2_spec [OF l2_invD(2) [OF inv] block B(2)]])
      (use loaded_l2_inv [OF inv B(1) x miss] in \<open>auto simp: loaded_def\<close>)
  with pick clean show ?thesis
    by (simp add: alloc2_def pick2_def evict2_def wp_simps)
qed

lemma fetch2_spec:
  assumes inv: "l2_inv W m" and ok: "block_ok W a"
  shows "wp (fetch2 (addr_block a) (c2_group a) (c2_tag a))
    (\<lambda>x t. l2_inv W t \<and> mem_view t = mem_view m \<and> L1 t = L1 m \<and> way_of t (unat a div 64) = Some x) m"
proof (cases "way_of m (unat a div 64)")
  case (Some x)
  then show ?thesis using inv by (simp add: fetch2_def wp_simps hit2_way_of)
next
  case None
  with alloc2_spec [OF inv _ _ None, of "addr_block a" "c2_tag a"] ok show ?thesis
    by (simp add: fetch2_def wp_simps hit2_way_of' block_ok_def unat_addr_block addr_fields
        less_mult_imp_div_less)
qed

section \<open>Writing through the second level\<close>

text \<open>A hit changes the line only; the block becomes dirty.\<close>

lemma way_of_same_lines:
  assumes "\<And>g i. c2_valid (L2 t g i) = c2_valid (L2 m g i) \<and>
      c2_tag (c2_addr (L2 t g i)) = c2_tag (c2_addr (L2 m g i))"
  shows "way_of t B = way_of m B"
  using assms by (simp add: way_of_def)

lemma write_line_spec:
  assumes inv: "l2_inv W m" and hit: "way_of m B = Some x" and B: "B < 2097152" and len: "off + n \<le> 64"
    and t: "t = set_L2 (B mod 4096) x (\<lambda>l. l\<lparr>c2_data := d, c2_dirty := True\<rparr>) m"
    and d: "d = (\<lambda>k. if off \<le> k \<and> k < off + n then byte_at (k - off) v else c2_data (L2 m (B mod 4096) x) k)"
  shows "l2_inv W t \<and> mem_view t = store (64 * B + off) n v (mem_view m)"
proof -
  have L2t: "L2 t g i = (if g = B mod 4096 \<and> i = x then (L2 m g i)\<lparr>c2_data := d, c2_dirty := True\<rparr> else L2 m g i)" for g i
    by (simp add: t set_L2_def)
  have mem: "dram t = dram m" by (simp add: t set_L2_def)
  have way: "way_of t C = way_of m C" for C by (rule way_of_same_lines) (simp add: L2t)
  have x: "x < 16" "c2_valid (L2 m (B mod 4096) x)" "unat (c2_tag (c2_addr (L2 m (B mod 4096) x))) = B div 4096"
    using hit by (auto simp: way_of_def dest!: find_way_SomeD)
  have other: "L2 t (C mod 4096) y = L2 m (C mod 4096) y" if "way_of m C = Some y" "C \<noteq> B" for C y
  proof -
    have "c2_valid (L2 m (C mod 4096) y)" "unat (c2_tag (c2_addr (L2 m (C mod 4096) y))) = C div 4096"
      using that(1) by (auto simp: way_of_def dest!: find_way_SomeD)
    with x that(2) show ?thesis by (auto simp: L2t) (metis div_mult_mod_eq)
  qed
  have "l2_inv W t"
    unfolding l2_inv_def
  proof (intro conjI allI impI)
    show "working_set W" "rb_coherent (dram t)" using l2_invD(1,2) [OF inv] mem by simp_all
  next
    fix g i assume "g < 4096" "i < 16" "c2_valid (L2 t g i)"
    then show "unat (c2_tag (c2_addr (L2 t g i))) * 4096 + g \<in> W"
      using l2_invD(3) [OF inv] by (auto simp: L2t split: if_splits)
  next
    fix g i j assume "g < 4096" "i < 16" "j < 16" "c2_valid (L2 t g i)" "c2_valid (L2 t g j)"
      "c2_tag (c2_addr (L2 t g i)) = c2_tag (c2_addr (L2 t g j))"
    then show "i = j" using l2_invD(4) [OF inv, of g i j] by (auto simp: L2t split: if_splits)
  next
    fix g i assume "g < 4096" "i < 16" "c2_dirty (L2 t g i)"
    then show "c2_valid (L2 t g i)" using l2_invD(5) [OF inv] x by (auto simp: L2t split: if_splits)
  next
    fix C y k :: nat assume C: "way_of t C = Some y" "\<not> c2_dirty (L2 t (C mod 4096) y)" and k: "k < 64"
    then have "C \<noteq> B" using hit way by (auto simp: L2t)
    with C way other l2_invD(6) [OF inv _ _ k] mem
    show "c2_data (L2 t (C mod 4096) y) k = hw_mem (dram t) (64 * C + k)" by simp
  qed
  moreover have "mem_view t k = store (64 * B + off) n v (mem_view m) k" for k
  proof (cases "k div 64 = B")
    case True
    then have k: "k = 64 * B + k mod 64" using mult_div_mod_eq [of 64 k] by simp
    have "mem_view t k = d (k mod 64)" using mem_view_block [OF B, of "k mod 64" t] k way hit by (simp add: L2t)
    moreover have "mem_view m k = c2_data (L2 m (B mod 4096) x) (k mod 64)"
      using mem_view_block [OF B, of "k mod 64" m] k hit by simp
    moreover have "64 * B + off \<le> k \<longleftrightarrow> off \<le> k mod 64" "k < 64 * B + off + n \<longleftrightarrow> k mod 64 < off + n"
      "k - (64 * B + off) = k mod 64 - off" using k by linarith+
    ultimately show ?thesis by (simp add: store_def d)
  next
    case False
    have "mem_view t k = mem_view m k"
      using False other way mem by (auto simp: mem_view_def split: option.split)
    moreover have "k < 64 * B + off \<or> 64 * B + off + n \<le> k"
      using False len div_mod_block [of 64 B k] by linarith
    ultimately show ?thesis by simp
  qed
  ultimately show ?thesis by auto
qed

lemma write_loop:
  "wp (forM [0..<n] (\<lambda>i. modM (set_L2 g x (\<lambda>l. l\<lparr>c2_data := (c2_data l)(off + i := byte_at i v)\<rparr>))))
     (\<lambda>_ t. t = set_L2 g x (\<lambda>l. l\<lparr>c2_data := (\<lambda>k. if off \<le> k \<and> k < off + n then byte_at (k - off) v
        else c2_data (L2 m g x) k)\<rparr>) m) m"
proof (rule wp_for_upt [where I = "\<lambda>j t. t = set_L2 g x (\<lambda>l. l\<lparr>c2_data := (\<lambda>k. if off \<le> k \<and> k < off + j
     then byte_at (k - off) v else c2_data (L2 m g x) k)\<rparr>) m"])
  show "m = set_L2 g x (\<lambda>l. l\<lparr>c2_data := (\<lambda>k. if off \<le> k \<and> k < off + 0 then byte_at (k - off) v
      else c2_data (L2 m g x) k)\<rparr>) m"
  proof -
    have "(\<lambda>k. if off \<le> k \<and> k < off + 0 then byte_at (k - off) v else c2_data (L2 m g x) k) = c2_data (L2 m g x)"
      by (rule ext) auto
    then show ?thesis by (simp add: set_L2_def)
  qed
next
  fix j t assume "t = set_L2 g x (\<lambda>l. l\<lparr>c2_data := (\<lambda>k. if off \<le> k \<and> k < off + j
     then byte_at (k - off) v else c2_data (L2 m g x) k)\<rparr>) m"
  moreover have "(\<lambda>k. if off \<le> k \<and> k < off + j then byte_at (k - off) v else c2_data (L2 m g x) k)
      (off + j := byte_at j v) = (\<lambda>k. if off \<le> k \<and> k < off + Suc j then byte_at (k - off) v else c2_data (L2 m g x) k)"
    by (rule ext) auto
  ultimately show "wp (modM (set_L2 g x (\<lambda>l. l\<lparr>c2_data := (c2_data l)(off + j := byte_at j v)\<rparr>)))
     (\<lambda>_ t. t = set_L2 g x (\<lambda>l. l\<lparr>c2_data := (\<lambda>k. if off \<le> k \<and> k < off + Suc j
     then byte_at (k - off) v else c2_data (L2 m g x) k)\<rparr>) m) t"
    by (simp add: wp_modM set_L2_def)
qed simp

text \<open>A miss writes the DRAM first.\<close>

lemma dram_store_l2_inv:
  assumes inv: "l2_inv W m" and miss: "way_of m B = None" and len: "off + n \<le> 64" and B: "B < 2097152"
    and d: "rb_coherent d" "hw_mem d = store (64 * B + off) n v (hw_mem (dram m))"
  shows "l2_inv W (m\<lparr>dram := d\<rparr>) \<and> mem_view (m\<lparr>dram := d\<rparr>) = store (64 * B + off) n v (mem_view m) \<and>
    way_of (m\<lparr>dram := d\<rparr>) B = None"
proof -
  let ?t = "m\<lparr>dram := d\<rparr>"
  have way: "way_of ?t C = way_of m C" for C by (simp add: way_of_def)
  have out: "hw_mem d k = hw_mem (dram m) k" if "k div 64 \<noteq> B" for k
    using that len div_mod_block [of 64 B k] by (subst d(2), intro store_other) linarith
  have "l2_inv W ?t"
    unfolding l2_inv_def
  proof (intro conjI allI impI)
    fix C y k :: nat assume C: "way_of ?t C = Some y" "\<not> c2_dirty (L2 ?t (C mod 4096) y)" and k: "k < 64"
    then have "(64 * C + k) div 64 \<noteq> B" using miss way by auto
    from out [OF this] l2_invD(6) [OF inv, of C y k] C k way
    show "c2_data (L2 ?t (C mod 4096) y) k = hw_mem (dram ?t) (64 * C + k)" by simp
  qed (use inv d(1) in \<open>simp_all add: l2_inv_def\<close>)
  moreover have "mem_view ?t k = store (64 * B + off) n v (mem_view m) k" for k
  proof (cases "k div 64 = B")
    case True
    then have "64 * B \<le> k" "k < 64 * B + 64" by auto
    then show ?thesis using True miss way B by (auto simp: mem_view_def d(2) store_def)
  next
    case False
    then have "k < 64 * B + off \<or> 64 * B + off + n \<le> k" using len div_mod_block [of 64 B k] by linarith
    then show ?thesis using False out way by (auto simp: mem_view_def split: option.split)
  qed
  ultimately show ?thesis using way miss by auto
qed

section \<open>The second level is a byte store\<close>

definition line2 :: "u32 \<Rightarrow> (mem_state, bytes) M" where
  "line2 a = bindM (fetch2 (addr_block a) (c2_group a) (c2_tag a)) (\<lambda>x. getM (\<lambda>m. c2_data (L2 m (c2_group a) x)))"

definition write2 :: "u32 \<Rightarrow> nat \<Rightarrow> u32 \<Rightarrow> (mem_state, unit) M" where
  "write2 a n v = bindM (getM (\<lambda>m. hit2 m (c2_group a) (c2_tag a))) (\<lambda>hit.
     case hit of
       Some x \<Rightarrow> seqM (forM [0..<n] (\<lambda>i. modM (set_L2 (c2_group a) x (\<lambda>l.
                    l\<lparr>c2_data := (c2_data l)(c_offset a + i := byte_at i v)\<rparr>))))
              (modM (set_L2 (c2_group a) x (\<lambda>l. l\<lparr>c2_dirty := True\<rparr>)))
     | None \<Rightarrow> seqM (on_dram (dram_write a n v)) (seqM (alloc2 (addr_block a) (c2_group a) (c2_tag a)) (ret ())))"

lemma bindM_assoc: "bindM (bindM m f) g = bindM m (\<lambda>x. bindM (f x) g)"
  by (rule ext) (simp add: bindM_def split: outcome.split)

lemma bindM_getM2: "bindM (getM f) (\<lambda>x. bindM (getM (\<lambda>s. g s x)) h) = bindM (getM (\<lambda>s. g s (f s))) h"
  by (rule ext) simp

lemma write2_spec:
  assumes inv: "l2_inv W m" and ok: "block_ok W a" and n: "1 \<le> n" "n \<le> 4" "unat a mod 64 + n \<le> 64"
  shows "wp (write2 a n v) (\<lambda>_ t. l2_inv W t \<and> mem_view t = store (unat a) n v (mem_view m) \<and> L1 t = L1 m) m"
proof -
  let ?B = "unat a div 64" and ?o = "unat a mod 64"
  have a: "64 * ?B + ?o = unat a" by simp
  have B: "?B \<in> W" "?B < 2097152" using ok by (simp_all add: block_ok_def less_mult_imp_div_less)
  show ?thesis
  proof (cases "way_of m ?B")
    case (Some x)
    have "wp (forM [0..<n] (\<lambda>i. modM (set_L2 (?B mod 4096) x (\<lambda>l. l\<lparr>c2_data := (c2_data l)(?o + i := byte_at i v)\<rparr>))))
      (\<lambda>_ t. l2_inv W (set_L2 (?B mod 4096) x (\<lambda>l. l\<lparr>c2_dirty := True\<rparr>) t) \<and>
         mem_view (set_L2 (?B mod 4096) x (\<lambda>l. l\<lparr>c2_dirty := True\<rparr>) t) = store (unat a) n v (mem_view m) \<and>
         L1 (set_L2 (?B mod 4096) x (\<lambda>l. l\<lparr>c2_dirty := True\<rparr>) t) = L1 m) m"
    proof (rule wp_mono [OF write_loop])
      fix u t assume t: "t = set_L2 (?B mod 4096) x (\<lambda>l. l\<lparr>c2_data := (\<lambda>k. if ?o \<le> k \<and> k < ?o + n
          then byte_at (k - ?o) v else c2_data (L2 m (?B mod 4096) x) k)\<rparr>) m"
      then have "set_L2 (?B mod 4096) x (\<lambda>l. l\<lparr>c2_dirty := True\<rparr>) t =
        set_L2 (?B mod 4096) x (\<lambda>l. l\<lparr>c2_data := (\<lambda>k. if ?o \<le> k \<and> k < ?o + n
          then byte_at (k - ?o) v else c2_data (L2 m (?B mod 4096) x) k), c2_dirty := True\<rparr>) m"
        by (simp add: set_L2_def)
      from write_line_spec [OF inv Some B(2) n(3) this refl] t
      show "l2_inv W (set_L2 (?B mod 4096) x (\<lambda>l. l\<lparr>c2_dirty := True\<rparr>) t) \<and>
         mem_view (set_L2 (?B mod 4096) x (\<lambda>l. l\<lparr>c2_dirty := True\<rparr>) t) = store (unat a) n v (mem_view m) \<and>
         L1 (set_L2 (?B mod 4096) x (\<lambda>l. l\<lparr>c2_dirty := True\<rparr>) t) = L1 m"
        by (simp add: set_L2_def)
    qed
    with Some show ?thesis by (simp add: write2_def wp_simps hit2_way_of' addr_fields)
  next
    case None
    have "unat a + n \<le> HW_MEM_SIZE" using n(3) B(2) a by linarith
    then have "dram_ok (dram m) a n" using n by (simp add: dram_ok_def)
    then have "wp (dram_write a n v) (\<lambda>_ d. wp (alloc2 (addr_block a) (?B mod 4096) (c2_tag a))
       (\<lambda>_ t. l2_inv W t \<and> mem_view t = store (unat a) n v (mem_view m) \<and> L1 t = L1 m) (m\<lparr>dram := d\<rparr>)) (dram m)"
    proof (rule dram.wr_mono [OF l2_invD(2) [OF inv]])
      fix d assume d: "rb_coherent d" "hw_mem d = store (unat a) n v (hw_mem (dram m))"
      have s: "l2_inv W (m\<lparr>dram := d\<rparr>) \<and> mem_view (m\<lparr>dram := d\<rparr>) = store (unat a) n v (mem_view m) \<and>
          way_of (m\<lparr>dram := d\<rparr>) ?B = None"
        using dram_store_l2_inv [OF inv None n(3) B(2) d(1), of v] d(2) by simp
      show "wp (alloc2 (addr_block a) (?B mod 4096) (c2_tag a))
       (\<lambda>_ t. l2_inv W t \<and> mem_view t = store (unat a) n v (mem_view m) \<and> L1 t = L1 m) (m\<lparr>dram := d\<rparr>)"
        using s by (intro wp_mono [OF alloc2_spec [OF _ B]]) (auto simp: unat_addr_block addr_fields)
    qed
    with None show ?thesis by (simp add: write2_def wp_simps hit2_way_of' addr_fields on_dram_def)
  qed
qed

interpretation l2: block_cache line2 write2 "\<lambda>m. junk (dram m)" Cache_2_read_rec Cache_2_write_rec mem_view
  "l2_inv W" "\<lambda>m t. L1 t = L1 m" W for W
proof
  fix d a n
  show "Cache_2_read_rec (Suc d) a n =
      bindM (line2 a) (\<lambda>dat. bindM (getM (\<lambda>s. memcpy (junk (dram s)) 0 dat 0 64)) (\<lambda>temp.
      bindM (if c_offset a + n > 64
             then bindM (Cache_2_read_rec d (addr_block a + 64) n) (\<lambda>v. ret (memcpy temp 64 (\<lambda>i. byte_at i v) 0 4))
             else ret temp) (\<lambda>temp. ret (le32 (\<lambda>i. temp (c_offset a + i))))))"
    by (simp add: line2_def bindM_assoc bindM_getM2 Let_def cong: if_cong)
next
  fix a n d v assume "0 < c_offset a + n"
  then show "Cache_2_write_rec (Suc d) a n v =
      (if c_offset a + n - 1 > 63
       then (let front = 63 - c_offset a + 1; back = n - front;
                 high = drop_bit (8 * front) v; low = v AND (push_bit (front * 8) 1 - 1) in
             seqM (Cache_2_write_rec d a front low) (Cache_2_write_rec d (a + of_nat front) back high))
       else write2 a n v)"
    by (auto simp: write2_def Let_def)
next
  fix m a assume inv: "l2_inv W m" and ok: "block_ok W a"
  then have B: "unat a div 64 < 2097152" by (simp add: block_ok_def less_mult_imp_div_less)
  show "wp (line2 a) (\<lambda>dat t. l2_inv W t \<and> mem_view t = mem_view m \<and> L1 t = L1 m \<and>
        (\<forall>i<64. dat i = mem_view m (64 * (unat a div 64) + i))) m"
    unfolding line2_def wp_bindM wp_getM
  proof (rule wp_mono [OF fetch2_spec [OF inv ok]])
    fix x t assume t: "l2_inv W t \<and> mem_view t = mem_view m \<and> L1 t = L1 m \<and> way_of t (unat a div 64) = Some x"
    then have "c2_data (L2 t (c2_group a) x) i = mem_view m (64 * (unat a div 64) + i)" if "i < 64" for i
      using mem_view_block [OF B that, of t] by (simp add: addr_fields)
    with t show "l2_inv W t \<and> mem_view t = mem_view m \<and> L1 t = L1 m \<and>
        (\<forall>i<64. c2_data (L2 t (c2_group a) x) i = mem_view m (64 * (unat a div 64) + i))" by blast
  qed
next
  fix m a n v assume "l2_inv W m" "block_ok W a" "1 \<le> n" "n \<le> 4" "unat a mod 64 + n \<le> 64"
  then show "wp (write2 a n v) (\<lambda>_ t. l2_inv W t \<and> mem_view t = store (unat a) n v (mem_view m) \<and> L1 t = L1 m) m"
    by (rule write2_spec)
qed simp

lemma Cache_2_read_spec:
  assumes "l2_inv W m" "cache_ok W m a n"
  shows "wp (Cache_2_read a n) (\<lambda>v t. l2_inv W t \<and> mem_view t = mem_view m \<and> L1 t = L1 m \<and>
    (\<forall>i<n. byte_at i v = mem_view m (unat a + i))) m"
  using l2.rd_spec2 [OF assms] by (simp add: Cache_2_read_def)

lemma Cache_2_write_spec:
  assumes "l2_inv W m" "cache_ok W m a n"
  shows "wp (Cache_2_write a n v) (\<lambda>_ t. l2_inv W t \<and> mem_view t = store (unat a) n v (mem_view m) \<and>
    L1 t = L1 m) m"
  using l2.wr_spec2 [OF assms] by (simp add: Cache_2_write_def)

section \<open>The first level is a byte store\<close>

definition l1_inv :: "mem_state \<Rightarrow> bool" where
  "l1_inv m \<longleftrightarrow>
     (\<forall>g<128. \<forall>i<8. \<forall>j<8. c1_valid (L1 m g i) \<longrightarrow> c1_valid (L1 m g j) \<longrightarrow>
        c1_tag (c1_addr (L1 m g i)) = c1_tag (c1_addr (L1 m g j)) \<longrightarrow> i = j) \<and>
     (\<forall>g<128. \<forall>i<8. c1_valid (L1 m g i) \<longrightarrow>
        (\<forall>k<64. c1_data (L1 m g i) k = mem_view m (64 * (unat (c1_tag (c1_addr (L1 m g i))) * 128 + g) + k)))"

definition cache_inv :: "nat set \<Rightarrow> mem_state \<Rightarrow> bool" where
  "cache_inv W m \<longleftrightarrow> l2_inv W m \<and> l1_inv m"

lemma block_ok_bytes:
  assumes "block_ok W a" "i < 64"
  shows "cache_ok W m (addr_block a + of_nat i) 1" "unat (addr_block a + of_nat i) = 64 * (unat a div 64) + i"
proof -
  have B: "unat a div 64 < 2097152" using assms by (simp add: block_ok_def less_mult_imp_div_less)
  show u: "unat (addr_block a + of_nat i) = 64 * (unat a div 64) + i"
    by (rule block_addr [OF unat_addr_block B assms(2)])
  have "64 * (unat a div 64) + i < HW_MEM_SIZE" using B assms(2) by linarith
  then show "cache_ok W m (addr_block a + of_nat i) 1"
    using assms by (simp add: cache_ok_def block_ok_def u)
qed

lemma l2_same:
  assumes "L2 t = L2 m" "dram t = dram m"
  shows "l2_inv W t = l2_inv W m" "mem_view t = mem_view m"
proof -
  have way: "way_of t = way_of m" using assms by (intro ext) (simp add: way_of_def)
  show "l2_inv W t = l2_inv W m" "mem_view t = mem_view m"
    unfolding l2_inv_def mem_view_def [abs_def] way assms by (rule refl)+
qed

lemma l2_set_L1: "l2_inv W (set_L1 g x f m) = l2_inv W m" "mem_view (set_L1 g x f m) = mem_view m"
  by (intro l2_same; simp add: set_L1_def)+

text \<open>Filling a line of the first level from the second.\<close>

lemma fill1_spec:
  assumes inv: "l2_inv W m" and ok: "block_ok W a"
  shows "wp (fill1 (addr_block a) g x) (\<lambda>_ t. l2_inv W t \<and> mem_view t = mem_view m \<and>
    (\<exists>d. L1 t = (L1 m)(g := (L1 m g)(x := (L1 m g x)\<lparr>c1_data := d\<rparr>)) \<and>
       (\<forall>i<64. d i = mem_view m (64 * (unat a div 64) + i)))) m"
proof -
  let ?F = "\<lambda>t :: mem_state. \<exists>d. L1 t = (L1 m)(g := (L1 m g)(x := (L1 m g x)\<lparr>c1_data := d\<rparr>))"
  let ?act = "\<lambda>i (v::u32). modM (set_L1 g x (\<lambda>l. l\<lparr>c1_data := (c1_data l)(i := ucast (v AND len_mask 1))\<rparr>))"
  have "wp (forM [0..<64] (\<lambda>i. bindM (Cache_2_read (addr_block a + of_nat i) 1) (?act i)))
    (\<lambda>_ t. l2_inv W t \<and> ?F t \<and> mem_view t = mem_view m \<and> (\<forall>b n. cache_ok W m b n \<longrightarrow> cache_ok W t b n) \<and>
       (\<forall>i. c1_data (L1 t g x) i = (if i < 64 then mem_view m (unat (addr_block a) + i) else c1_data (L1 m g x) i))) m"
    unfolding Cache_2_read_def
  proof (rule l2.store.fill_loop [OF inv])
    show "?F m" by (rule exI [of _ "c1_data (L1 m g x)"]) simp
    show "unat (addr_block a) + 64 < 2 ^ 32"
      using ok by (simp add: unat_addr_block block_ok_def) linarith
    show "cache_ok W m (addr_block a + of_nat i) 1" if "i < 64" for i by (rule block_ok_bytes(1) [OF ok that])
  next
    fix i :: nat and t :: mem_state
    assume "l2_inv W t" "cache_ok W t (addr_block a + of_nat i) 1" "?F t"
    then show "wp (Cache_2_read_rec 2 (addr_block a + of_nat i) 1) (\<lambda>_ u. ?F u \<and> c1_data (L1 u g x) = c1_data (L1 t g x)) t"
      by (intro wp_mono [OF l2.rd_spec2]) auto
  next
    fix i :: nat and v and t :: mem_state
    assume t: "l2_inv W t" "?F t"
    then show "wp (?act i v) (\<lambda>_ u. l2_inv W u \<and> ?F u \<and> mem_view u = mem_view t \<and>
        (\<forall>b n. cache_ok W t b n \<longrightarrow> cache_ok W u b n) \<and>
        c1_data (L1 u g x) = (c1_data (L1 t g x))(i := byte_at 0 v)) t"
      by (auto simp: wp_modM l2_set_L1 cache_ok_def) (auto simp: set_L1_def)
  qed
  then have "wp (forM [0..<64] (\<lambda>i. bindM (Cache_2_read (addr_block a + of_nat i) 1) (?act i)))
    (\<lambda>_ t. l2_inv W t \<and> mem_view t = mem_view m \<and>
      (\<exists>d. L1 t = (L1 m)(g := (L1 m g)(x := (L1 m g x)\<lparr>c1_data := d\<rparr>)) \<and>
       (\<forall>i<64. d i = mem_view m (64 * (unat a div 64) + i)))) m"
    by (rule wp_mono) (auto simp: unat_addr_block)
  then show ?thesis by (simp add: fill1_def)
qed

text \<open>The line of the block that was filled, and the lines of all other blocks.\<close>

lemma refilled_cache_inv:
  assumes inv: "l2_inv W t" and B: "g = B mod 128" "x < 8"
    and L1t: "L1 t = (L1 m)(g := (L1 m g)(x := line))"
    and line: "unat (c1_tag (c1_addr line)) = B div 128"
      "\<forall>i<64. c1_data line i = mem_view t (64 * B + i)"
    and fresh: "\<And>j. j < 8 \<Longrightarrow> j \<noteq> x \<Longrightarrow> c1_valid (L1 m g j) \<Longrightarrow> unat (c1_tag (c1_addr (L1 m g j))) \<noteq> B div 128"
    and unique: "\<And>g i j. g < 128 \<Longrightarrow> i < 8 \<Longrightarrow> j < 8 \<Longrightarrow> c1_valid (L1 m g i) \<Longrightarrow> c1_valid (L1 m g j) \<Longrightarrow>
        c1_tag (c1_addr (L1 m g i)) = c1_tag (c1_addr (L1 m g j)) \<Longrightarrow> i = j"
    and others: "\<And>h i k. h < 128 \<Longrightarrow> i < 8 \<Longrightarrow> c1_valid (L1 m h i) \<Longrightarrow> (h, i) \<noteq> (g, x) \<Longrightarrow> k < 64 \<Longrightarrow>
        c1_data (L1 m h i) k = mem_view t (64 * (unat (c1_tag (c1_addr (L1 m h i))) * 128 + h) + k)"
  shows "cache_inv W t"
proof -
  have L: "L1 t h i = (if h = g \<and> i = x then line else L1 m h i)" for h i by (simp add: L1t)
  have Bg: "B div 128 * 128 + g = B" using B(1) by simp
  have "l1_inv t"
    unfolding l1_inv_def
  proof (intro conjI allI impI)
    fix h i j assume *: "h < 128" "i < 8" "j < 8" "c1_valid (L1 t h i)" "c1_valid (L1 t h j)"
      "c1_tag (c1_addr (L1 t h i)) = c1_tag (c1_addr (L1 t h j))"
    then show "i = j"
      using unique [of h i j] fresh [of i] fresh [of j] line(1) by (auto simp: L split: if_splits)
  next
    fix h i k :: nat assume *: "h < 128" "i < 8" "c1_valid (L1 t h i)" "k < 64"
    show "c1_data (L1 t h i) k = mem_view t (64 * (unat (c1_tag (c1_addr (L1 t h i))) * 128 + h) + k)"
    proof (cases "h = g \<and> i = x")
      case True
      then have "unat (c1_tag (c1_addr (L1 t h i))) * 128 + h = B" using Bg line(1) by (simp only: L simp_thms if_True)
      then show ?thesis using True line(2) * by (simp only: L simp_thms if_True)
    next
      case False
      then show ?thesis using others [of h i k] * by (auto simp: L)
    qed
  qed
  with inv show ?thesis by (simp add: cache_inv_def)
qed

lemma hit1_iff:
  "hit1 m (c1_group a) (c1_tag a) = find_way 8 (\<lambda>i. c1_valid (L1 m (unat a div 64 mod 128) i) \<and>
     unat (c1_tag (c1_addr (L1 m (unat a div 64 mod 128) i))) = unat a div 64 div 128)"
  unfolding hit1_def addr_fields(2)
  by (intro find_way_cong) (simp add: addr_fields(3) [symmetric] word_unat_eq_iff)

lemma l1_invD:
  assumes "cache_inv W m"
  shows "l2_inv W m"
    and "g < 128 \<Longrightarrow> i < 8 \<Longrightarrow> j < 8 \<Longrightarrow> c1_valid (L1 m g i) \<Longrightarrow> c1_valid (L1 m g j) \<Longrightarrow>
        c1_tag (c1_addr (L1 m g i)) = c1_tag (c1_addr (L1 m g j)) \<Longrightarrow> i = j"
    and "g < 128 \<Longrightarrow> i < 8 \<Longrightarrow> c1_valid (L1 m g i) \<Longrightarrow> k < 64 \<Longrightarrow>
        c1_data (L1 m g i) k = mem_view m (64 * (unat (c1_tag (c1_addr (L1 m g i))) * 128 + g) + k)"
  using assms by (simp_all add: cache_inv_def l1_inv_def)

lemma pick1_spec:
  "wp (pick1 g) (\<lambda>x t. x < 8 \<and> L1 t = L1 m \<and> L2 t = L2 m \<and> dram t = dram m) m"
  by (auto simp: pick1_def crand_def wp_simps dest!: find_way_SomeD split: option.split)

lemma fetch1_spec:
  assumes inv: "cache_inv W m" and ok: "block_ok W a"
  shows "wp (fetch1 (addr_block a) (c1_group a) (c1_tag a)) (\<lambda>x t. cache_inv W t \<and> mem_view t = mem_view m \<and>
    (\<forall>i<64. c1_data (L1 t (c1_group a) x) i = mem_view m (64 * (unat a div 64) + i))) m"
proof (cases "hit1 m (c1_group a) (c1_tag a)")
  case (Some x)
  let ?g = "unat a div 64 mod 128"
  from Some have x: "x < 8" "c1_valid (L1 m ?g x)" "unat (c1_tag (c1_addr (L1 m ?g x))) = unat a div 64 div 128"
    by (auto simp: hit1_iff dest!: find_way_SomeD)
  then have "c1_data (L1 m ?g x) k = mem_view m (64 * (unat a div 64) + k)" if "k < 64" for k
    using l1_invD(3) [OF inv _ x(1,2) that] by (simp only: x(3) div_mult_mod_eq mod_less_divisor zero_less_numeral)
  with Some inv show ?thesis by (simp add: fetch1_def wp_simps addr_fields(2))
next
  case None
  let ?g = "unat a div 64 mod 128"
  let ?new = "\<lambda>(l :: Cache_1). l\<lparr>c1_valid := True, c1_addr := put_bits 13 19 (c1_tag a) (c1_addr l)\<rparr>"
  have tag: "unat (take_bit 19 (c1_tag a)) = unat a div 64 div 128"
    by (simp add: c1_tag_def addr_fields(3) [unfolded c1_tag_def])
  have fresh: "unat (c1_tag (c1_addr (L1 m ?g j))) \<noteq> unat a div 64 div 128" if "j < 8" "c1_valid (L1 m ?g j)" for j
    using None that by (simp add: hit1_iff find_way_None)
  have "wp (pick1 ?g) (\<lambda>x t. wp (fill1 (addr_block a) ?g x) (\<lambda>_ u. cache_inv W u \<and> mem_view u = mem_view m \<and>
      (\<forall>i<64. c1_data (L1 u ?g x) i = mem_view m (64 * (unat a div 64) + i))) (set_L1 ?g x ?new t)) m"
  proof (rule wp_mono [OF pick1_spec])
    fix x :: nat and t :: mem_state assume t: "x < 8 \<and> L1 t = L1 m \<and> L2 t = L2 m \<and> dram t = dram m"
    then have l2: "l2_inv W t" "mem_view t = mem_view m" using l2_same [of t m] l1_invD(1) [OF inv] by simp_all
    let ?t = "set_L1 ?g x ?new t"
    have "l2_inv W ?t" "mem_view ?t = mem_view m" using l2 by (simp_all add: l2_set_L1)
    then show "wp (fill1 (addr_block a) ?g x) (\<lambda>_ u. cache_inv W u \<and> mem_view u = mem_view m \<and>
      (\<forall>i<64. c1_data (L1 u ?g x) i = mem_view m (64 * (unat a div 64) + i))) ?t"
    proof (intro wp_mono [OF fill1_spec [OF _ ok]])
      fix v u assume "l2_inv W u \<and> mem_view u = mem_view ?t \<and>
        (\<exists>d. L1 u = (L1 ?t)(?g := (L1 ?t ?g)(x := (L1 ?t ?g x)\<lparr>c1_data := d\<rparr>)) \<and>
          (\<forall>i<64. d i = mem_view ?t (64 * (unat a div 64) + i)))"
      then obtain d where u: "l2_inv W u" "mem_view u = mem_view m"
        and L1u: "L1 u = (L1 m)(?g := (L1 m ?g)(x := (?new (L1 m ?g x))\<lparr>c1_data := d\<rparr>))"
        and d: "\<forall>i<64. d i = mem_view m (64 * (unat a div 64) + i)"
        using t l2 by (auto simp: l2_set_L1) (auto simp: set_L1_def)
      have "cache_inv W u"
        by (rule refilled_cache_inv [OF u(1) refl _ L1u])
          (use t tag d u(2) fresh l1_invD [OF inv] in auto)
      with u d L1u show "cache_inv W u \<and> mem_view u = mem_view m \<and>
        (\<forall>i<64. c1_data (L1 u ?g x) i = mem_view m (64 * (unat a div 64) + i))" by simp
    qed
  qed
  with None show ?thesis by (simp add: fetch1_def wp_simps addr_fields(2))
qed

definition line1 :: "u32 \<Rightarrow> (mem_state, bytes) M" where
  "line1 a = bindM (fetch1 (addr_block a) (c1_group a) (c1_tag a)) (\<lambda>x. getM (\<lambda>m. c1_data (L1 m (c1_group a) x)))"

definition write1 :: "u32 \<Rightarrow> nat \<Rightarrow> u32 \<Rightarrow> (mem_state, unit) M" where
  "write1 a n v = bindM (getM (\<lambda>m. hit1 m (c1_group a) (c1_tag a))) (\<lambda>hit.
     seqM (Cache_2_write a n v) (case hit of Some x \<Rightarrow> fill1 (addr_block a) (c1_group a) x | None \<Rightarrow> ret ()))"

lemma write1_spec:
  assumes inv: "cache_inv W m" and ok: "block_ok W a" and n: "1 \<le> n" "n \<le> 4" "unat a mod 64 + n \<le> 64"
  shows "wp (write1 a n v) (\<lambda>_ t. cache_inv W t \<and> mem_view t = store (unat a) n v (mem_view m)) m"
proof -
  let ?B = "unat a div 64" and ?g = "unat a div 64 mod 128"
  let ?V = "store (unat a) n v (mem_view m)"
  have a: "64 * ?B + unat a mod 64 = unat a" by simp
  have B: "?B \<in> W" "?B < 2097152" using ok by (simp_all add: block_ok_def less_mult_imp_div_less)
  have "unat a + n \<le> HW_MEM_SIZE" "unat a + n - 1 < 64 * ?B + 64" "64 * ?B \<le> unat a + n - 1"
    using n B(2) a by linarith+
  moreover from this have "(unat a + n - 1) div 64 = ?B" using div_mod_block [of 64 ?B "unat a + n - 1"] by simp
  ultimately have cok: "cache_ok W m a n" using n B by (simp add: cache_ok_def)
  have elsewhere: "?V (64 * C + k) = mem_view m (64 * C + k)" if "C \<noteq> ?B" "k < 64" for C k
    using that n(3) a by (intro store_other) linarith
  show ?thesis
  proof (cases "hit1 m (c1_group a) (c1_tag a)")
    case None
    have "wp (Cache_2_write a n v) (\<lambda>_ t. cache_inv W t \<and> mem_view t = ?V) m"
    proof (rule wp_mono [OF Cache_2_write_spec [OF l1_invD(1) [OF inv] cok]])
      fix u t assume t: "l2_inv W t \<and> mem_view t = ?V \<and> L1 t = L1 m"
      have "c1_data (L1 m g i) k = ?V (64 * (unat (c1_tag (c1_addr (L1 m g i))) * 128 + g) + k)"
        if gi: "g < 128" "i < 8" "c1_valid (L1 m g i)" "k < 64" for g i k
      proof -
        have "unat (c1_tag (c1_addr (L1 m g i))) * 128 + g \<noteq> ?B"
        proof
          assume eq: "unat (c1_tag (c1_addr (L1 m g i))) * 128 + g = ?B"
          then have "?g = g" "?B div 128 = unat (c1_tag (c1_addr (L1 m g i)))"
            using gi(1) div_mod_block [of 128 "unat (c1_tag (c1_addr (L1 m g i)))" ?B] by simp_all
          with None gi show False by (auto simp: hit1_iff find_way_None)
        qed
        from elsewhere [OF this gi(4)] l1_invD(3) [OF inv gi] show ?thesis by (simp only:)
      qed
      then show "cache_inv W t \<and> mem_view t = ?V" using t l1_invD(2) [OF inv]
        unfolding cache_inv_def l1_inv_def by simp
    qed
    with None show ?thesis by (simp add: write1_def wp_simps)
  next
    case (Some x)
    from Some have x: "x < 8" "c1_valid (L1 m ?g x)" "unat (c1_tag (c1_addr (L1 m ?g x))) = ?B div 128"
      by (auto simp: hit1_iff dest!: find_way_SomeD)
    have uniq: "j = x" if "j < 8" "c1_valid (L1 m ?g j)" "unat (c1_tag (c1_addr (L1 m ?g j))) = ?B div 128" for j
      using that x l1_invD(2) [OF inv, of ?g j x] by (simp add: word_unat_eq_iff)
    have "wp (Cache_2_write a n v) (\<lambda>_. wp (fill1 (addr_block a) ?g x) (\<lambda>_ t. cache_inv W t \<and> mem_view t = ?V)) m"
    proof (rule wp_mono [OF Cache_2_write_spec [OF l1_invD(1) [OF inv] cok]])
      fix u t assume t: "l2_inv W t \<and> mem_view t = ?V \<and> L1 t = L1 m"
      then show "wp (fill1 (addr_block a) ?g x) (\<lambda>_ t. cache_inv W t \<and> mem_view t = ?V) t"
      proof (intro wp_mono [OF fill1_spec [OF _ ok]])
        fix y w assume "l2_inv W w \<and> mem_view w = mem_view t \<and>
          (\<exists>d. L1 w = (L1 t)(?g := (L1 t ?g)(x := (L1 t ?g x)\<lparr>c1_data := d\<rparr>)) \<and>
            (\<forall>i<64. d i = mem_view t (64 * ?B + i)))"
        then obtain d where w: "l2_inv W w" "mem_view w = ?V"
          and L1w: "L1 w = (L1 m)(?g := (L1 m ?g)(x := (L1 m ?g x)\<lparr>c1_data := d\<rparr>))"
          and d: "\<forall>i<64. d i = ?V (64 * ?B + i)" using t by auto
        have "c1_data (L1 m h i) k = ?V (64 * (unat (c1_tag (c1_addr (L1 m h i))) * 128 + h) + k)"
          if hi: "h < 128" "i < 8" "c1_valid (L1 m h i)" "(h, i) \<noteq> (?g, x)" "k < 64" for h i k
        proof -
          have "unat (c1_tag (c1_addr (L1 m h i))) * 128 + h \<noteq> ?B"
          proof
            assume eq: "unat (c1_tag (c1_addr (L1 m h i))) * 128 + h = ?B"
            then have "?g = h" "?B div 128 = unat (c1_tag (c1_addr (L1 m h i)))"
              using hi(1) div_mod_block [of 128 "unat (c1_tag (c1_addr (L1 m h i)))" ?B] by simp_all
            with uniq [of i] hi show False by auto
          qed
          from elsewhere [OF this hi(5)] l1_invD(3) [OF inv hi(1-3,5)] show ?thesis by (simp only:)
        qed
        then have "cache_inv W w"
          by (intro refilled_cache_inv [OF w(1) refl x(1) L1w])
            (use x(3) d w(2) uniq l1_invD(2) [OF inv] in auto)
        with w show "cache_inv W w \<and> mem_view w = ?V" by simp
      qed simp
    qed
    with Some show ?thesis by (simp add: write1_def wp_simps addr_fields(2))
  qed
qed

interpretation l1: block_cache line1 write1 "\<lambda>m. junk (dram m)" Cache_1_read_rec Cache_1_write_rec mem_view
  "cache_inv W" "\<lambda>_ _. True" W for W
proof
  fix d a n
  show "Cache_1_read_rec (Suc d) a n =
      bindM (line1 a) (\<lambda>dat. bindM (getM (\<lambda>s. memcpy (junk (dram s)) 0 dat 0 64)) (\<lambda>temp.
      bindM (if c_offset a + n > 64
             then bindM (Cache_1_read_rec d (addr_block a + 64) n) (\<lambda>v. ret (memcpy temp 64 (\<lambda>i. byte_at i v) 0 4))
             else ret temp) (\<lambda>temp. ret (le32 (\<lambda>i. temp (c_offset a + i))))))"
    by (simp add: line1_def bindM_assoc bindM_getM2 Let_def cong: if_cong)
next
  fix a n d v assume "0 < c_offset a + n"
  then show "Cache_1_write_rec (Suc d) a n v =
      (if c_offset a + n - 1 > 63
       then (let front = 63 - c_offset a + 1; back = n - front;
                 high = drop_bit (8 * front) v; low = v AND (push_bit (front * 8) 1 - 1) in
             seqM (Cache_1_write_rec d a front low) (Cache_1_write_rec d (a + of_nat front) back high))
       else write1 a n v)"
    by (auto simp: write1_def Let_def)
next
  fix m a assume "cache_inv W m" "block_ok W a"
  then show "wp (line1 a) (\<lambda>dat t. cache_inv W t \<and> mem_view t = mem_view m \<and> True \<and>
        (\<forall>i<64. dat i = mem_view m (64 * (unat a div 64) + i))) m"
    unfolding line1_def wp_bindM wp_getM by (intro wp_mono [OF fetch1_spec]) auto
next
  fix m a n v assume "cache_inv W m" "block_ok W a" "1 \<le> n" "n \<le> 4" "unat a mod 64 + n \<le> 64"
  then show "wp (write1 a n v) (\<lambda>_ t. cache_inv W t \<and> mem_view t = store (unat a) n v (mem_view m) \<and> True) m"
    using write1_spec by simp
qed simp

lemma Cache_1_read_spec:
  assumes "cache_inv W m" "cache_ok W m a n"
  shows "wp (Cache_1_read a n) (\<lambda>v t. cache_inv W t \<and> mem_view t = mem_view m \<and>
    (\<forall>i<n. byte_at i v = mem_view m (unat a + i))) m"
  using l1.rd_spec2 [OF assms] by (simp add: Cache_1_read_def)

lemma Cache_1_write_spec:
  assumes "cache_inv W m" "cache_ok W m a n"
  shows "wp (Cache_1_write a n v) (\<lambda>_ t. cache_inv W t \<and> mem_view t = store (unat a) n v (mem_view m)) m"
  using l1.wr_spec2 [OF assms] by (simp add: Cache_1_write_def)

section \<open>Initialisation and working sets\<close>

definition all_invalid :: "mem_state \<Rightarrow> bool" where
  "all_invalid m \<longleftrightarrow> (\<forall>g i. \<not> c1_valid (L1 m g i) \<and> \<not> c2_valid (L2 m g i) \<and> \<not> c2_dirty (L2 m g i))"

lemma all_invalid_inv:
  assumes "all_invalid m" "rb_coherent (dram m)" "working_set W"
  shows "cache_inv W m" "mem_view m = hw_mem (dram m)"
proof -
  have way: "way_of m B = None" for B using assms(1) by (simp add: way_of_def find_way_None all_invalid_def)
  then show "mem_view m = hw_mem (dram m)" by (intro ext) (simp add: mem_view_def)
  show "cache_inv W m" using assms way by (simp add: cache_inv_def l1_inv_def l2_inv_def all_invalid_def)
qed

lemma init_cache1_run:
  "wp init_cache1 (\<lambda>_ t. (\<forall>g i. \<not> c1_valid (L1 t g i)) \<and> L2 t = L2 m \<and> dram t = dram m) m"
  unfolding init_cache1_def wp_seqM wp_modM
proof (rule wp_for_upt [where I = "\<lambda>_ t. (\<forall>g i. \<not> c1_valid (L1 t g i)) \<and> L2 t = L2 m \<and> dram t = dram m"])
  fix i and t :: mem_state
  assume I: "(\<forall>g i. \<not> c1_valid (L1 t g i)) \<and> L2 t = L2 m \<and> dram t = dram m"
  show "wp (forM [0..<8] (\<lambda>j. modM (set_L1 i j (\<lambda>l. l\<lparr>c1_addr := put_bits 6 7 (of_nat j) (c1_addr l)\<rparr>))))
      (\<lambda>_ t. (\<forall>g i. \<not> c1_valid (L1 t g i)) \<and> L2 t = L2 m \<and> dram t = dram m) t"
    by (rule wp_for_upt [where I = "\<lambda>_ t. (\<forall>g i. \<not> c1_valid (L1 t g i)) \<and> L2 t = L2 m \<and> dram t = dram m"])
      (use I in \<open>auto simp: wp_simps set_L1_def\<close>)
qed auto

lemma init_cache2_run:
  "wp init_cache2 (\<lambda>_ t. (\<forall>g i. \<not> c2_valid (L2 t g i) \<and> \<not> c2_dirty (L2 t g i)) \<and> L1 t = L1 m \<and> dram t = dram m) m"
  unfolding init_cache2_def wp_seqM wp_modM
proof (rule wp_for_upt [where I = "\<lambda>_ t. (\<forall>g i. \<not> c2_valid (L2 t g i) \<and> \<not> c2_dirty (L2 t g i)) \<and>
    L1 t = L1 m \<and> dram t = dram m"])
  fix i and t :: mem_state
  assume I: "(\<forall>g i. \<not> c2_valid (L2 t g i) \<and> \<not> c2_dirty (L2 t g i)) \<and> L1 t = L1 m \<and> dram t = dram m"
  show "wp (forM [0..<16] (\<lambda>j. modM (set_L2 i j (\<lambda>l. l\<lparr>c2_addr := put_bits 6 12 (of_nat j) (c2_addr l)\<rparr>))))
      (\<lambda>_ t. (\<forall>g i. \<not> c2_valid (L2 t g i) \<and> \<not> c2_dirty (L2 t g i)) \<and> L1 t = L1 m \<and> dram t = dram m) t"
    by (rule wp_for_upt [where I = "\<lambda>_ t. (\<forall>g i. \<not> c2_valid (L2 t g i) \<and> \<not> c2_dirty (L2 t g i)) \<and>
        L1 t = L1 m \<and> dram t = dram m"])
      (use I in \<open>auto simp: wp_simps set_L2_def\<close>)
qed auto

lemma init_cache_spec:
  assumes "rb_coherent (dram m)" "working_set W"
  shows "wp init_cache (\<lambda>_ t. cache_inv W t \<and> mem_view t = hw_mem (dram m)) m"
  unfolding init_cache_def wp_seqM
proof (rule wp_mono [OF init_cache1_run])
  fix u and t :: mem_state assume t: "(\<forall>g i. \<not> c1_valid (L1 t g i)) \<and> L2 t = L2 m \<and> dram t = dram m"
  show "wp init_cache2 (\<lambda>_ t. cache_inv W t \<and> mem_view t = hw_mem (dram m)) t"
  proof (rule wp_mono [OF init_cache2_run])
    fix v and w :: mem_state assume "(\<forall>g i. \<not> c2_valid (L2 w g i) \<and> \<not> c2_dirty (L2 w g i)) \<and> L1 w = L1 t \<and> dram w = dram t"
    with t have "all_invalid w" "dram w = dram m" by (simp_all add: all_invalid_def)
    with all_invalid_inv [of w W] assms show "cache_inv W w \<and> mem_view w = hw_mem (dram m)" by simp
  qed
qed

text \<open>Any window of 4 MiB (65536 consecutive blocks) fits the second level.\<close>

lemma working_set_window: "working_set {b..<b + 65536}"
  unfolding working_set_def
proof (intro allI conjI)
  fix g
  let ?S = "{B \<in> {b..<b + 65536}. B mod 4096 = g}"
  show "finite ?S" by simp
  have "inj_on (\<lambda>B. (B - b) div 4096) ?S"
  proof (rule inj_onI)
    fix B C assume BC: "B \<in> ?S" "C \<in> ?S" and eq: "(B - b) div 4096 = (C - b) div 4096"
    from BC have "int B mod 4096 = int C mod 4096" by (auto simp flip: of_nat_mod zmod_int) (metis of_nat_mod of_nat_numeral)
    then have "(int B - int b) mod 4096 = (int C - int b) mod 4096" by (intro mod_diff_cong) simp_all
    then have "int ((B - b) mod 4096) = int ((C - b) mod 4096)" using BC by (simp add: zmod_int of_nat_diff)
    with eq have "B - b = C - b" by (metis div_mult_mod_eq of_nat_eq_iff)
    with BC show "B = C" by auto
  qed
  moreover have "(\<lambda>B. (B - b) div 4096) ` ?S \<subseteq> {..<16}"
    by (auto simp: less_mult_imp_div_less)
  ultimately have "card ?S \<le> card {..<16::nat}" by (intro card_inj_on_le) auto
  then show "card ?S \<le> 16" by simp
qed

section \<open>Replacing a dirty block\<close>

text \<open>
  The write-back loop copies a line of the first level over the block that is being loaded,
  and never writes the victim's bytes anywhere.
\<close>

lemma evict2_dirty:
  assumes coh: "rb_coherent (dram m)" and dirty: "c2_dirty (L2 m g x)" and g: "g < 128" "x < 8"
    and block: "unat block = 64 * B" "B < 2097152"
  shows "wp (evict2 block g x) (\<lambda>_ t. L2 t = L2 m \<and>
    hw_mem (dram t) = memcpy (hw_mem (dram m)) (64 * B) (c1_data (L1 m g x)) 0 64) m"
proof -
  let ?I = "\<lambda>j t. rb_coherent (dram t) \<and> L1 t = L1 m \<and> L2 t = L2 m \<and>
      hw_mem (dram t) = memcpy (hw_mem (dram m)) (64 * B) (c1_data (L1 m g x)) 0 j"
  have "wp (forM [0..<64] (\<lambda>i. bindM (getM (\<lambda>m. c1_data (L1 m g x) i)) (\<lambda>b.
       on_dram (dram_write (block + of_nat i) 1 (ucast b))))) (\<lambda>_ t. ?I 64 t) m"
  proof (rule wp_for_upt [where I = ?I])
    show "?I 0 m" using coh by (auto simp: memcpy_def fun_eq_iff)
  next
    fix i and t :: mem_state assume i: "i < 64" and I: "?I i t"
    have addr: "unat (block + of_nat i) = 64 * B + i" by (rule block_addr [OF block i])
    then have "dram_ok (dram t) (block + of_nat i) 1" using i block(2) by (simp add: dram_ok_def)
    then have "wp (on_dram (dram_write (block + of_nat i) 1 (ucast (c1_data (L1 m g x) i))))
        (\<lambda>_ u. rb_coherent (dram u) \<and> hw_mem (dram u) = store (64 * B + i) 1 (ucast (c1_data (L1 m g x) i)) (hw_mem (dram t))) t"
      using I addr by (intro port.wr_mono) auto
    from on_dram_frame [OF this] have "wp (on_dram (dram_write (block + of_nat i) 1 (ucast (c1_data (L1 m g x) i)))) (\<lambda>_. ?I (Suc i)) t"
      by (rule wp_mono) (use I in \<open>auto simp: memcpy_def store_def less_Suc_eq fun_eq_iff\<close>)
    with I show "wp (bindM (getM (\<lambda>m. c1_data (L1 m g x) i)) (\<lambda>b. on_dram (dram_write (block + of_nat i) 1 (ucast b))))
        (\<lambda>_. ?I (Suc i)) t" by (simp add: wp_simps)
  qed simp
  then have "wp (forM [0..<64] (\<lambda>i. bindM (getM (\<lambda>m. c1_data (L1 m g x) i)) (\<lambda>b.
       on_dram (dram_write (block + of_nat i) 1 (ucast b))))) (\<lambda>_ t. L2 t = L2 m \<and>
    hw_mem (dram t) = memcpy (hw_mem (dram m)) (64 * B) (c1_data (L1 m g x)) 0 64) m"
    by (rule wp_mono) simp
  with dirty g show ?thesis by (simp add: evict2_def wp_simps)
qed

lemma Cache_2_read_dirty_victim:
  assumes miss: "hit2 m (c2_group a) (c2_tag a) = None"
    and full: "\<forall>i<16. c2_valid (L2 m (c2_group a) i)"
    and victim: "x = rand_fn m (rand_seed m) (rand_pos m) mod 16" "c2_dirty (L2 m (c2_group a) x)"
    and outside: "128 \<le> c2_group a \<or> 8 \<le> x"
  shows "Cache_2_read a n m = Err OutOfBounds"
proof -
  have "find_way 16 (\<lambda>i. \<not> c2_valid (L2 m (c2_group a) i)) = None" using full by (simp add: find_way_None)
  then show ?thesis using miss victim outside
    by (auto simp: Cache_2_read_def numeral_2_eq_2 fetch2_def alloc2_def pick2_def crand_def evict2_def run_simps
        bindM_def seqM_def Let_def)
qed

section \<open>Properties\<close>

definition cold_mem :: mem_state where
  "cold_mem = \<lparr>dram = cold_dram,
     L1 = (\<lambda>_ _. \<lparr>c1_valid = False, c1_addr = 0, c1_data = (\<lambda>_. 0)\<rparr>),
     L2 = (\<lambda>_ _. \<lparr>c2_valid = False, c2_dirty = False, c2_addr = 0, c2_data = (\<lambda>_. 0)\<rparr>),
     rand_fn = (\<lambda>_ _. 0), rand_seed = 1, rand_pos = 0\<rparr>"

lemma cold_mem_inv: "cache_inv {b..<b + 65536} cold_mem"
  by (rule all_invalid_inv) (simp_all add: all_invalid_def cold_mem_def cold_dram_coherent working_set_window)

text \<open>
  C1. The two cache levels are transparent: while the blocks in use put at most 16 blocks in
  each group of the second level, \<open>Cache_1_read\<close> returns the bytes of the memory the program
  sees, \<open>Cache_1_write\<close> changes exactly the written bytes of it, neither fails (whatever
  \<open>rand\<close> returns), and both keep the invariant that relates the two levels and the DRAM.
  Accesses that cross a block boundary are included.
\<close>

theorem cache_transparent:
  assumes "cache_inv W m" "cache_ok W m a n"
  shows "wp (Cache_1_read a n) (\<lambda>x t. cache_inv W t \<and> mem_view t = mem_view m \<and>
           (\<forall>i<n. byte_at i x = mem_view m (unat a + i))) m \<and>
         wp (Cache_1_write a n v) (\<lambda>_ t. cache_inv W t \<and>
           mem_view t = store (unat a) n v (mem_view m)) m"
  using Cache_1_read_spec [OF assms] Cache_1_write_spec [OF assms] by blast

theorem cache_transparent_witness:
  "wp (Cache_1_read 0x10003E 4) (\<lambda>x t. cache_inv {0..<65536} t \<and> mem_view t = mem_view cold_mem \<and>
     (\<forall>i<4. byte_at i x = mem_view cold_mem (0x10003E + i))) cold_mem \<and>
   wp (Cache_1_write 0x10003E 4 0xCAFEBABE) (\<lambda>_ t. cache_inv {0..<65536} t \<and>
     mem_view t = store 0x10003E 4 0xCAFEBABE (mem_view cold_mem)) cold_mem"
  using cache_transparent [of "{0..<65536}" cold_mem "0x10003E" 4 "0xCAFEBABE"] cold_mem_inv [of 0]
  by (simp add: cache_ok_def)

text \<open>
  \<open>init_cache\<close> on a coherent DRAM makes the caches ready for any 4 MiB window of physical
  memory: the invariant holds for all 65536 blocks of the window and the program sees exactly
  the contents of the DRAM.
\<close>

lemma cache_init_window:
  assumes "rb_coherent (dram m)"
  shows "wp init_cache (\<lambda>_ t. cache_inv {b..<b + 65536} t \<and> mem_view t = hw_mem (dram m)) m"
  by (rule init_cache_spec [OF assms working_set_window])


text \<open>
  Replacing a dirty block of the second level is wrong. When the block to load is absent,
  its group is full and the victim drawn by \<open>rand\<close> is dirty, \<open>Cache_2_read\<close> indexes the first
  level with a subscript outside its bounds if the group is 128 or more or the way 8 or more;
  otherwise the write-back overwrites the block being loaded with a line of the first level and
  never stores the victim's bytes in the DRAM.
\<close>

lemma dirty_eviction_defect:
  assumes "rb_coherent (dram m)" "hit2 m (c2_group a) (c2_tag a) = None"
    and "\<forall>i<16. c2_valid (L2 m (c2_group a) i)"
    and "x = rand_fn m (rand_seed m) (rand_pos m) mod 16" "c2_dirty (L2 m (c2_group a) x)"
    and "unat a < HW_MEM_SIZE"
  shows "if 128 \<le> c2_group a \<or> 8 \<le> x then Cache_2_read a n m = Err OutOfBounds
     else wp (evict2 (addr_block a) (c2_group a) x) (\<lambda>_ t. L2 t = L2 m \<and> hw_mem (dram t) =
       memcpy (hw_mem (dram m)) (unat (addr_block a)) (c1_data (L1 m (c2_group a) x)) 0 64) m"
proof (cases "128 \<le> c2_group a \<or> 8 \<le> x")
  case True
  then show ?thesis using Cache_2_read_dirty_victim [OF assms(2-5)] by simp
next
  case False
  then have "unat a div 64 < 2097152" using assms(6) by (simp add: less_mult_imp_div_less)
  with evict2_dirty [OF assms(1,5) _ _ unat_addr_block] False show ?thesis
    by (simp add: unat_addr_block)
qed

text \<open>A second level whose group 200 holds the blocks with tags 0 to 15, all dirty.\<close>

definition full_mem :: mem_state where
  "full_mem = cold_mem\<lparr>L2 := (\<lambda>g i. \<lparr>c2_valid = True, c2_dirty = True,
     c2_addr = put_bits 18 14 (of_nat i) 0, c2_data = (\<lambda>_. 0)\<rparr>)\<rparr>"


end
