(* ===== verification/Machine.thy ===== *)
theory Machine
  imports Cache
begin

unbundle bit_operations_syntax

text \<open>
  The state of the emulated machine: one field for each group of global variables of NEMU.
  The processor state follows nemu/include/cpu/reg.h. A C union is kept as its widest member and
  the narrower members are read and written through bit-fields of it. Function pointers
  registered with the buses are values of a datatype that lists the handlers of the program.
\<close>

section \<open>Processor\<close>

record SegDesc =
  limit_15_0 :: u16
  base_15_0 :: u16
  base_23_16 :: u8
  limit_19_16 :: u8
  base_31_24 :: u8

record SREG =
  selector :: u16
  sreg_cache :: SegDesc

record DTR =
  dtr_limit :: u16
  dtr_base :: u32

record CPU_state =
  gpr :: "nat \<Rightarrow> u32"
  eflags :: u32
  eip :: u32
  gdtr :: DTR
  idtr :: DTR
  sreg :: "nat \<Rightarrow> SREG"
  INTR :: bool
  cr0 :: u32
  cr3 :: u32

text \<open>The bit-field \<open>INDEX\<close> of a selector.\<close>

definition INDEX :: "SREG \<Rightarrow> u32" where
  "INDEX r = ucast (bits 3 13 (selector r))"

definition protect_enable :: "CPU_state \<Rightarrow> bool" where "protect_enable c = bit (cr0 c) 0"
definition paging :: "CPU_state \<Rightarrow> bool" where "paging c = bit (cr0 c) 31"
definition page_directory_base :: "CPU_state \<Rightarrow> u32" where "page_directory_base c = bits 12 20 (cr3 c)"

section \<open>Decoded operands\<close>

datatype op_type = OP_TYPE_REG | OP_TYPE_MEM | OP_TYPE_IMM

text \<open>
  \<open>opu\<close> is the 32-bit word that the union members \<open>reg\<close>, \<open>addr\<close>, \<open>imm\<close> and \<open>simm\<close> share;
  \<open>op_sreg\<close> lies behind \<open>addr\<close> and keeps its value when another member is assigned.
\<close>

record Operand =
  op_ty :: op_type
  op_size :: nat
  opu :: u32
  op_sreg :: nat
  op_val :: u32

record Operands =
  opcode :: u32
  is_operand_size_16 :: bool
  op_src :: Operand
  op_dest :: Operand
  op_src2 :: Operand

section \<open>Buses and devices\<close>

record TLB =
  tlb_valid :: bool
  tlb_addr :: u32
  tlb_result :: u32

datatype mmio_callback = Vga_vmem_io

record MMIO_t =
  mmio_low :: u32
  mmio_high :: u32
  mmio_space :: nat
  mmio_cb :: mmio_callback

record mmio_state =
  mmio_space_pool :: bytes
  mmio_space_free_index :: nat
  mmio_maps :: "MMIO_t list"

datatype pio_callback = Serial_io | Vga_dac_io | Vga_crtc_io | I8042_io | Ide_io | Bmr_io

record PIO_t =
  pio_low :: u16
  pio_high :: u16
  pio_cb :: pio_callback

record pio_state =
  pio_space :: bytes
  pio_maps :: "PIO_t list"

record i8259 =
  IRR :: u8
  ISR :: u8
  IMR :: u8
  highest_irq :: int

record pic_state =
  master :: i8259
  slave :: i8259
  intr_NO :: u8

text \<open>The disk image is a list of bytes; \<open>disk_pos\<close> is the position of the C stream.\<close>

record ide_state =
  ide_sector :: u32
  disk_idx :: u32
  byte_cnt :: u32
  ide_write :: bool
  disk :: "u8 list"
  disk_pos :: nat

text \<open>
  \<open>color_ptr\<close> is the offset in bytes from the start of \<open>palette\<close>; \<open>None\<close> is the initial null
  pointer. The code also compares the pointer with the address of an SDL object;
  \<open>pal_phase\<close> is the distance of the two objects modulo 4.
\<close>

record vga_state =
  vga_crtc_regs :: "nat \<Rightarrow> u8"
  vmem_base :: nat
  line_dirty :: "nat \<Rightarrow> bool"
  vmem_dirty :: bool
  palette :: bytes
  color_ptr :: "nat option"
  pal_phase :: nat
  palette_shown :: bytes
  pixel_buf :: "nat \<Rightarrow> nat \<Rightarrow> u8"

datatype nemu_run = STOP | RUNNING | END

record sdl_state =
  jiffy :: u64
  device_update_flag :: bool
  update_screen_flag :: bool

section \<open>The machine\<close>

record machine =
  cpu :: CPU_state
  mem :: mem_state
  tlb :: "nat \<Rightarrow> TLB"
  mmio :: mmio_state
  pio :: pio_state
  pic :: pic_state
  ide :: ide_state
  vga :: vga_state
  newkey :: bool
  serial_out :: "u8 list"
  sdl :: sdl_state
  nemu_state :: nemu_run
  ops_decoded :: Operands

text \<open>Operations on the parts.\<close>

definition on_cpu :: "(CPU_state \<Rightarrow> CPU_state) \<Rightarrow> (machine, unit) M" where
  "on_cpu f = modM (\<lambda>s. s\<lparr>cpu := f (cpu s)\<rparr>)"

definition cpuM :: "(CPU_state \<Rightarrow> 'a) \<Rightarrow> (machine, 'a) M" where
  "cpuM f = getM (\<lambda>s. f (cpu s))"

definition on_mem :: "(mem_state, 'a) M \<Rightarrow> (machine, 'a) M" where
  "on_mem = zoom mem (\<lambda>t s. s\<lparr>mem := t\<rparr>)"

lemma run_on_cpu [run_simps, simp]: "on_cpu f s = Ret () (s\<lparr>cpu := f (cpu s)\<rparr>)"
  by (simp add: on_cpu_def)

lemma run_cpuM [run_simps, simp]: "cpuM f s = Ret (f (cpu s)) s"
  by (simp add: cpuM_def)

lemma wp_on_cpu [wp_simps]: "wp (on_cpu f) Q = (\<lambda>s. Q () (s\<lparr>cpu := f (cpu s)\<rparr>))"
  by (simp add: on_cpu_def wp_simps)

lemma wp_cpuM [wp_simps]: "wp (cpuM f) Q = (\<lambda>s. Q (f (cpu s)) s)"
  by (simp add: cpuM_def wp_simps)

lemma wp_on_mem [wp_simps]: "wp (on_mem f) Q = (\<lambda>s. wp f (\<lambda>x t. Q x (s\<lparr>mem := t\<rparr>)) (mem s))"
  by (simp add: on_mem_def wp_zoom)

end
