(* ===== verification/Mmio.thy ===== *)
theory Mmio
  imports Machine
begin

unbundle bit_operations_syntax

text \<open>
  Memory-mapped I/O (nemu/src/device/io/mmio.c) and its only client, the VGA frame buffer
  (\<open>vga_vmem_io_handler\<close> of nemu/src/device/vga.c). \<open>nr_map\<close> is the length of the list of maps,
  \<open>mmio_space\<close> an index into the pool. The pool is read four bytes at a time, which is an access
  outside the array when fewer than four bytes are left.
\<close>

section \<open>Operations\<close>

abbreviation (input) MMIO_SPACE_MAX :: nat where "MMIO_SPACE_MAX \<equiv> 262144"
abbreviation (input) NR_MAP :: nat where "NR_MAP \<equiv> 8"
abbreviation (input) CTR_ROW :: nat where "CTR_ROW \<equiv> 200"
abbreviation (input) CTR_COL :: nat where "CTR_COL \<equiv> 320"

definition vga_vmem_io_handler :: "u32 \<Rightarrow> nat \<Rightarrow> bool \<Rightarrow> (machine, unit) M" where
  "vga_vmem_io_handler addr len is_write =
     whenM is_write
       (let line = unat (addr - 0xa0000) div CTR_COL in
        whenM (line < CTR_ROW)
          (modM (\<lambda>s. s\<lparr>vga := (vga s)\<lparr>line_dirty := (line_dirty (vga s))(line := True), vmem_dirty := True\<rparr>\<rparr>)))"

definition run_mmio_callback :: "mmio_callback \<Rightarrow> u32 \<Rightarrow> nat \<Rightarrow> bool \<Rightarrow> (machine, unit) M" where
  "run_mmio_callback cb = (case cb of Vga_vmem_io \<Rightarrow> vga_vmem_io_handler)"

definition add_mmio_map :: "u32 \<Rightarrow> nat \<Rightarrow> mmio_callback \<Rightarrow> (machine, nat) M" where
  "add_mmio_map addr len callback =
     bindM (getM mmio) (\<lambda>m.
     seqM (assertM (length (mmio_maps m) < NR_MAP))
     (seqM (assertM (mmio_space_free_index m + len \<le> MMIO_SPACE_MAX))
     (let space_base = mmio_space_free_index m in
      seqM (modM (\<lambda>s. s\<lparr>mmio := m\<lparr>mmio_maps := mmio_maps m @ [\<lparr>mmio_low = addr, mmio_high = addr + of_nat len - 1,
              mmio_space = space_base, mmio_cb = callback\<rparr>],
            mmio_space_free_index := mmio_space_free_index m + len\<rparr>\<rparr>))
        (ret space_base))))"

definition is_mmio :: "machine \<Rightarrow> u32 \<Rightarrow> nat option" where
  "is_mmio s addr = find_way (length (mmio_maps (mmio s)))
     (\<lambda>i. addr \<ge> mmio_low (mmio_maps (mmio s) ! i) \<and> addr \<le> mmio_high (mmio_maps (mmio s) ! i))"

definition mmio_read :: "u32 \<Rightarrow> nat \<Rightarrow> nat \<Rightarrow> (machine, u32) M" where
  "mmio_read addr len map_NO =
     seqM (assertM (len = 1 \<or> len = 2 \<or> len = 4))
     (bindM (getM (\<lambda>s. mmio_maps (mmio s) ! map_NO)) (\<lambda>map.
      let p = mmio_space map + unat (addr - mmio_low map) in
      if p + 4 > MMIO_SPACE_MAX then fail OutOfBounds
      else bindM (getM (\<lambda>s. le32 (\<lambda>i. mmio_space_pool (mmio s) (p + i)) AND len_mask len)) (\<lambda>data.
        seqM (run_mmio_callback (mmio_cb map) addr len False) (ret data))))"

definition mmio_write :: "u32 \<Rightarrow> nat \<Rightarrow> u32 \<Rightarrow> nat \<Rightarrow> (machine, unit) M" where
  "mmio_write addr len data map_NO =
     seqM (assertM (len = 1 \<or> len = 2 \<or> len = 4))
     (bindM (getM (\<lambda>s. mmio_maps (mmio s) ! map_NO)) (\<lambda>map.
      let msk = len_mask len; p = mmio_space map + unat (addr - mmio_low map) in
      if p + len > MMIO_SPACE_MAX then fail OutOfBounds
      else seqM (modM (\<lambda>s. s\<lparr>mmio := (mmio s)\<lparr>mmio_space_pool :=
               memcpy_with_mask (mmio_space_pool (mmio s)) p (\<lambda>i. byte_at i data) 0 len (\<lambda>i. byte_at i msk)\<rparr>\<rparr>))
        (run_mmio_callback (mmio_cb map) addr len True)))"

section \<open>A mapped region is a byte store\<close>

text \<open>The part of the pool that backs a map, seen at its bus addresses.\<close>

definition mmio_view :: "nat \<Rightarrow> machine \<Rightarrow> bytes" where
  "mmio_view n s k = (let map = mmio_maps (mmio s) ! n in
     if k < unat (mmio_low map) then 0 else mmio_space_pool (mmio s) (mmio_space map + (k - unat (mmio_low map))))"

definition mmio_ok :: "nat \<Rightarrow> machine \<Rightarrow> u32 \<Rightarrow> nat \<Rightarrow> bool" where
  "mmio_ok n s a len \<longleftrightarrow> (len = 1 \<or> len = 2 \<or> len = 4) \<and>
     mmio_low (mmio_maps (mmio s) ! n) \<le> a \<and>
     mmio_space (mmio_maps (mmio s) ! n) + unat (a - mmio_low (mmio_maps (mmio s) ! n)) + 4 \<le> MMIO_SPACE_MAX"

lemma mmio_view_vga [simp]: "mmio_view n (s\<lparr>vga := v\<rparr>) = mmio_view n s"
  by (rule ext) (simp add: mmio_view_def Let_def)

lemma callback_runs:
  obtains v where "\<And>Q. wp (run_mmio_callback cb a n w) Q s = Q () (s\<lparr>vga := v\<rparr>)"
proof -
  have "\<exists>v. run_mmio_callback cb a n w s = Ret () (s\<lparr>vga := v\<rparr>)"
    by (cases cb) (auto simp: run_mmio_callback_def vga_vmem_io_handler_def run_simps Let_def intro: exI [of _ "vga s"])
  then show ?thesis using that by (auto simp: wp_def)
qed

interpretation mmio: byte_store "\<lambda>a len. mmio_read a len n" "\<lambda>a len v. mmio_write a len v n"
  "mmio_view n" "\<lambda>_. True" "mmio_ok n" for n
proof
  fix s a len assume ok: "mmio_ok n s a len"
  let ?m = "mmio_maps (mmio s) ! n" and ?p = "mmio_space (mmio_maps (mmio s) ! n) + unat (a - mmio_low (mmio_maps (mmio s) ! n))"
  have p: "mmio_view n s (unat a + i) = mmio_space_pool (mmio s) (?p + i)" for i
    using ok by (simp add: mmio_ok_def unat_sub word_le_nat_alt mmio_view_def Let_def add.assoc)
  obtain v where v: "\<And>Q. wp (run_mmio_callback (mmio_cb ?m) a len False) Q s = Q () (s\<lparr>vga := v\<rparr>)"
    using callback_runs [of "mmio_cb ?m" a len False s] by blast
  show "wp (mmio_read a len n) (\<lambda>v t. True \<and> mmio_view n t = mmio_view n s \<and>
      (\<forall>b m. mmio_ok n s b m \<longrightarrow> mmio_ok n t b m) \<and> (\<forall>i<len. byte_at i v = mmio_view n s (unat a + i))) s"
    using ok v p by (auto simp: mmio_read_def wp_simps Let_def mmio_ok_def)
next
  fix s a len v assume ok: "mmio_ok n s a len"
  let ?m = "mmio_maps (mmio s) ! n" and ?p = "mmio_space (mmio_maps (mmio s) ! n) + unat (a - mmio_low (mmio_maps (mmio s) ! n))"
  let ?s = "s\<lparr>mmio := (mmio s)\<lparr>mmio_space_pool := memcpy_with_mask (mmio_space_pool (mmio s)) ?p
      (\<lambda>i. byte_at i v) 0 len (\<lambda>i. byte_at i (len_mask len))\<rparr>\<rparr>"
  obtain g where g: "\<And>Q. wp (run_mmio_callback (mmio_cb ?m) a len True) Q ?s = Q () (?s\<lparr>vga := g\<rparr>)"
    using callback_runs [of "mmio_cb ?m" a len True ?s] by blast
  have msk: "byte_at i (len_mask len) \<noteq> 0" if "i < len" for i
  proof -
    have "bit (byte_at i (len_mask len)) 0" using that ok by (auto simp: bit_byte_at bit_len_mask mmio_ok_def)
    then show ?thesis by auto
  qed
  have "mmio_view n (?s\<lparr>vga := g\<rparr>) k = store (unat a) len v (mmio_view n s) k" for k
  proof -
    have "unat (a - mmio_low ?m) = unat a - unat (mmio_low ?m)" "unat (mmio_low ?m) \<le> unat a"
      using ok by (simp_all add: mmio_ok_def unat_sub word_le_nat_alt)
    then show ?thesis using msk by (auto simp: mmio_view_def Let_def memcpy_with_mask_def store_def)
  qed
  then have view: "mmio_view n (?s\<lparr>vga := g\<rparr>) = store (unat a) len v (mmio_view n s)" by (rule ext)
  have bnd: "\<not> ?p + len > 262144" "len = 1 \<or> len = 2 \<or> len = 4" using ok by (auto simp: mmio_ok_def)
  have "wp (mmio_write a len v n) Q s = Q () (?s\<lparr>vga := g\<rparr>)" for Q
    unfolding mmio_write_def Let_def wp_seqM wp_assertM wp_bindM wp_getM using bnd
    by (simp only: if_False wp_seqM wp_modM g) simp
  then show "wp (mmio_write a len v n) (\<lambda>_ t. True \<and> mmio_view n t = store (unat a) len v (mmio_view n s) \<and>
      (\<forall>b m. mmio_ok n s b m \<longrightarrow> mmio_ok n t b m)) s"
    using ok view by (simp add: mmio_ok_def)
qed

end
