(* ===== verification/Memory.thy ===== *)
theory Memory
  imports Mmio Cache_Correct
begin

unbundle bit_operations_syntax

text \<open>
  Address translation and the memory interface of the processor: the TLB
  (nemu/src/memory/TLB.c) and the physical, linear and segmented accesses of
  nemu/src/memory/memory.c. The C functions return \<open>0xffffffff\<close> for a TLB miss.
\<close>

section \<open>The TLB\<close>

abbreviation (input) COUNT_ITEM :: nat where "COUNT_ITEM \<equiv> 64"

definition tlb_tag :: "TLB \<Rightarrow> u32" where "tlb_tag e = bits 12 20 (tlb_addr e)"

definition init_TLB :: "(machine, unit) M" where
  "init_TLB = forM [0..<COUNT_ITEM] (\<lambda>i.
     modM (\<lambda>s. s\<lparr>tlb := (tlb s)(i := \<lparr>tlb_valid = False, tlb_addr = 0, tlb_result = 0\<rparr>)\<rparr>))"

definition TLB_translate :: "u32 \<Rightarrow> (machine, u32) M" where
  "TLB_translate addr = getM (\<lambda>s. let tag = drop_bit 12 addr in
     case find_way COUNT_ITEM (\<lambda>i. tlb_valid (tlb s i) \<and> tlb_tag (tlb s i) = tag) of
       Some i \<Rightarrow> tlb_result (tlb s i) | None \<Rightarrow> 0xffffffff)"

definition TLB_update :: "u32 \<Rightarrow> u32 \<Rightarrow> (machine, unit) M" where
  "TLB_update addr hwaddr =
     bindM (getM (\<lambda>s. find_way 64 (\<lambda>i. \<not> tlb_valid (tlb s i)))) (\<lambda>free.
     seqM (on_mem (csrand 0))
    (bindM (case free of Some i \<Rightarrow> ret i | None \<Rightarrow> bindM (on_mem crand) (\<lambda>r. ret (r mod 64))) (\<lambda>i.
     modM (\<lambda>s. s\<lparr>tlb := (tlb s)(i := \<lparr>tlb_valid = True, tlb_addr = addr, tlb_result = hwaddr\<rparr>)\<rparr>))))"

section \<open>Physical accesses\<close>

definition hwaddr_read :: "u32 \<Rightarrow> nat \<Rightarrow> (machine, u32) M" where
  "hwaddr_read addr len =
     bindM (getM (\<lambda>s. is_mmio s addr)) (\<lambda>map_NO.
     case map_NO of
       None \<Rightarrow> bindM (on_mem (Cache_1_read addr len)) (\<lambda>v. ret (v AND len_mask len))
     | Some i \<Rightarrow> bindM (mmio_read addr len i) (\<lambda>v. ret (v AND len_mask len)))"

definition hwaddr_write :: "u32 \<Rightarrow> nat \<Rightarrow> u32 \<Rightarrow> (machine, unit) M" where
  "hwaddr_write addr len data =
     (if addr = 0 then ret ()
      else bindM (getM (\<lambda>s. is_mmio s addr)) (\<lambda>map_NO.
        case map_NO of
          None \<Rightarrow> on_mem (Cache_1_write addr len data)
        | Some i \<Rightarrow> mmio_write addr len data i))"

section \<open>Paging\<close>

text \<open>The fields of page directory and page table entries.\<close>

definition pte_present :: "u32 \<Rightarrow> bool" where "pte_present e = bit e 0"
definition pte_page_frame :: "u32 \<Rightarrow> u32" where "pte_page_frame e = bits 12 20 e"

definition page_translate :: "u32 \<Rightarrow> (machine, u32) M" where
  "page_translate addr =
     bindM (cpuM (\<lambda>c. paging c \<and> protect_enable c)) (\<lambda>enabled.
     if \<not> enabled then ret addr
     else bindM (TLB_translate addr) (\<lambda>hwaddr.
       if NOT hwaddr = 0 then
         (let dir = drop_bit 22 addr; page = drop_bit 12 addr AND 0x3ff; offset = addr AND 0xfff in
          bindM (cpuM page_directory_base) (\<lambda>page_directory.
          bindM (hwaddr_read (push_bit 12 page_directory OR push_bit 2 dir) 4) (\<lambda>pde.
          seqM (assertM (pte_present pde))
         (bindM (hwaddr_read (push_bit 12 (pte_page_frame pde) OR push_bit 2 page) 4) (\<lambda>pte.
          seqM (assertM (pte_present pte))
         (let hwaddr = offset OR push_bit 12 (pte_page_frame pte) in
          seqM (TLB_update addr hwaddr) (ret hwaddr)))))))
       else ret ((hwaddr AND 0xfffff000) OR (addr AND 0xfff))))"

section \<open>Linear and segmented accesses\<close>

definition lnaddr_read :: "u32 \<Rightarrow> nat \<Rightarrow> (machine, u32) M" where
  "lnaddr_read addr len =
     seqM (assertM (len = 1 \<or> len = 2 \<or> len = 4))
     (if unat (addr AND 0xfff) + len - 1 > 0xfff then
        (let front = 0xfff - unat (addr AND 0xfff) + 1; back = len - front in
         bindM (page_translate addr) (\<lambda>h.
         bindM (hwaddr_read h front) (\<lambda>low.
         bindM (page_translate (addr + of_nat front)) (\<lambda>h'.
         bindM (hwaddr_read h' back) (\<lambda>high.
         ret (push_bit (front * 8) high OR low))))))
      else bindM (page_translate addr) (\<lambda>h. hwaddr_read h len))"

text \<open>For no bytes at the start of a page \<open>(addr & 0xfff) + len - 1\<close> wraps around and the shift that follows is undefined.\<close>

definition lnaddr_write :: "u32 \<Rightarrow> nat \<Rightarrow> u32 \<Rightarrow> (machine, unit) M" where
  "lnaddr_write addr len data =
     (if unat (addr AND 0xfff) + len = 0 then fail OutOfBounds
      else if unat (addr AND 0xfff) + len - 1 > 0xfff then
        (let front = 0xfff - unat (addr AND 0xfff) + 1; back = len - front;
             high = drop_bit (8 * front) data; low = data AND (push_bit (front * 8) 1 - 1) in
         bindM (page_translate addr) (\<lambda>h.
         seqM (hwaddr_write h front low)
        (bindM (page_translate (addr + of_nat front)) (\<lambda>h'.
         hwaddr_write h' back high))))
      else bindM (page_translate addr) (\<lambda>h. hwaddr_write h len data))"

definition seg_base :: "nat \<Rightarrow> CPU_state \<Rightarrow> u32" where
  "seg_base r c = (let d = sreg_cache (sreg c r) in
     ucast (base_15_0 d) OR push_bit 16 (ucast (base_23_16 d)) OR push_bit 24 (ucast (base_31_24 d)))"

definition seg_translate :: "u32 \<Rightarrow> nat \<Rightarrow> nat \<Rightarrow> (machine, u32) M" where
  "seg_translate addr len r =
     seqM (assertM (r = 0 \<or> r = 1 \<or> r = 2 \<or> r = 3))
     (cpuM (\<lambda>c. if protect_enable c then addr + seg_base r c else addr))"

definition swaddr_read :: "u32 \<Rightarrow> nat \<Rightarrow> nat \<Rightarrow> (machine, u32) M" where
  "swaddr_read addr len r =
     seqM (assertM (len = 1 \<or> len = 2 \<or> len = 4))
     (bindM (seg_translate addr len r) (\<lambda>lnaddr. lnaddr_read lnaddr len))"

definition swaddr_write :: "u32 \<Rightarrow> nat \<Rightarrow> u32 \<Rightarrow> nat \<Rightarrow> (machine, unit) M" where
  "swaddr_write addr len data r =
     seqM (assertM (len = 1 \<or> len = 2 \<or> len = 4))
     (bindM (seg_translate addr len r) (\<lambda>lnaddr. lnaddr_write lnaddr len data))"

section \<open>Physical memory behind the caches\<close>

lemma cache_inv_rand [simp]:
  "cache_inv W (m\<lparr>rand_seed := x\<rparr>) = cache_inv W m" "cache_inv W (m\<lparr>rand_pos := y\<rparr>) = cache_inv W m"
  "mem_view (m\<lparr>rand_seed := x\<rparr>) = mem_view m" "mem_view (m\<lparr>rand_pos := y\<rparr>) = mem_view m"
proof -
  show v: "mem_view (m\<lparr>rand_seed := x\<rparr>) = mem_view m" "mem_view (m\<lparr>rand_pos := y\<rparr>) = mem_view m"
    by (rule l2_same; simp)+
  have "l2_inv W (m\<lparr>rand_seed := x\<rparr>) = l2_inv W m" "l2_inv W (m\<lparr>rand_pos := y\<rparr>) = l2_inv W m"
    by (rule l2_same; simp)+
  then show "cache_inv W (m\<lparr>rand_seed := x\<rparr>) = cache_inv W m" "cache_inv W (m\<lparr>rand_pos := y\<rparr>) = cache_inv W m"
    by (simp_all add: cache_inv_def l1_inv_def v)
qed

text \<open>An access to memory proper: inside the working set and not claimed by a device.\<close>

definition phys_ok :: "nat set \<Rightarrow> machine \<Rightarrow> u32 \<Rightarrow> nat \<Rightarrow> bool" where
  "phys_ok W s a n \<longleftrightarrow> cache_ok W s a n \<and> is_mmio s a = None"

lemma is_mmio_cong: "mmio t = mmio s \<Longrightarrow> is_mmio t = is_mmio s"
  by (rule ext) (simp add: is_mmio_def)

lemma phys_ok_cong: "mmio t = mmio s \<Longrightarrow> phys_ok W t a n = phys_ok W s a n"
  using is_mmio_cong [of t s] by (simp add: phys_ok_def cache_ok_def)

lemma phys_ok_upd [simp]:
  "phys_ok W (s\<lparr>mem := m\<rparr>) a n = phys_ok W s a n" "phys_ok W (s\<lparr>tlb := T\<rparr>) a n = phys_ok W s a n"
  "phys_ok W (s\<lparr>cpu := c\<rparr>) a n = phys_ok W s a n" "phys_ok W (s\<lparr>ops_decoded := d\<rparr>) a n = phys_ok W s a n"
  by (rule phys_ok_cong, simp)+

definition same_mem :: "nat set \<Rightarrow> machine \<Rightarrow> mem_state \<Rightarrow> bool" where
  "same_mem W s m \<longleftrightarrow> cache_inv W m \<and> mem_view m = mem_view (mem s)"

lemma hwaddr_read_run:
  assumes "cache_inv W (mem s)" "phys_ok W s a n"
  shows "\<exists>m. hwaddr_read a n s = Ret (load (unat a) n (mem_view (mem s))) (s\<lparr>mem := m\<rparr>) \<and> same_mem W s m"
proof -
  have n: "n \<le> 4" and c: "cache_ok W (mem s) a n" using assms(2) by (auto simp: phys_ok_def cache_ok_def)
  from wp_RetD [OF Cache_1_read_spec [OF assms(1) c]] obtain v m
    where m: "Cache_1_read a n (mem s) = Ret v m" "cache_inv W m" "mem_view m = mem_view (mem s)"
      "\<forall>i<n. byte_at i v = mem_view (mem s) (unat a + i)" by blast
  from masked_read [OF n m(4)] m(1) assms(2)
  have "hwaddr_read a n s = Ret (load (unat a) n (mem_view (mem s))) (s\<lparr>mem := m\<rparr>)"
    by (simp add: hwaddr_read_def phys_ok_def on_mem_def zoom_def bindM_def)
  with m show ?thesis by (auto simp: same_mem_def)
qed

lemma hwaddr_write_run:
  assumes "cache_inv W (mem s)" "phys_ok W s a n" "a \<noteq> 0"
  shows "\<exists>m. hwaddr_write a n v s = Ret () (s\<lparr>mem := m\<rparr>) \<and> cache_inv W m \<and>
    mem_view m = store (unat a) n v (mem_view (mem s))"
proof -
  have c: "cache_ok W (mem s) a n" using assms(2) by (auto simp: phys_ok_def cache_ok_def)
  from wp_RetD [OF Cache_1_write_spec [OF assms(1) c, of v]] obtain m
    where m: "Cache_1_write a n v (mem s) = Ret () m" "cache_inv W m"
      "mem_view m = store (unat a) n v (mem_view (mem s))" by auto
  with assms have "hwaddr_write a n v s = Ret () (s\<lparr>mem := m\<rparr>)"
    by (simp add: hwaddr_write_def phys_ok_def on_mem_def zoom_def bindM_def)
  with m show ?thesis by auto
qed

interpretation phys: byte_store hwaddr_read hwaddr_write "\<lambda>s. mem_view (mem s)" "\<lambda>s. cache_inv W (mem s)"
  "\<lambda>s a n. phys_ok W s a n \<and> a \<noteq> 0" for W
proof
  fix s a n assume inv: "cache_inv W (mem s)" and ok: "phys_ok W s a n \<and> a \<noteq> 0"
  have "n \<le> 4" using ok by (simp add: phys_ok_def cache_ok_def)
  then show "wp (hwaddr_read a n) (\<lambda>v t. cache_inv W (mem t) \<and> mem_view (mem t) = mem_view (mem s) \<and>
      (\<forall>b m. phys_ok W s b m \<and> b \<noteq> 0 \<longrightarrow> phys_ok W t b m \<and> b \<noteq> 0) \<and>
      (\<forall>i<n. byte_at i v = mem_view (mem s) (unat a + i))) s"
    using hwaddr_read_run [OF inv, of a n] ok
    by (auto simp: wp_def same_mem_def byte_at_load)
next
  fix s a n v assume inv: "cache_inv W (mem s)" and ok: "phys_ok W s a n \<and> a \<noteq> 0"
  then show "wp (hwaddr_write a n v) (\<lambda>_ t. cache_inv W (mem t) \<and>
      mem_view (mem t) = store (unat a) n v (mem_view (mem s)) \<and>
      (\<forall>b m. phys_ok W s b m \<and> b \<noteq> 0 \<longrightarrow> phys_ok W t b m \<and> b \<noteq> 0)) s"
    using hwaddr_write_run [OF inv, of a n v] by (auto simp: wp_def)
qed

end
