(* ===== verification/Regs.thy ===== *)
theory Regs
  imports Machine
begin

unbundle bit_operations_syntax

text \<open>
  Register access (nemu/include/cpu/reg.h, nemu/src/cpu/reg.c), the flag bit-fields of
  \<open>eflags\<close>, the condition codes (nemu/include/cpu/eflags.h) and \<open>update_eflags_pf_zf_sf\<close>
  (nemu/src/cpu/eflags.c).
\<close>

section \<open>General registers\<close>

abbreviation (input) R_EAX :: nat where "R_EAX \<equiv> 0"
abbreviation (input) R_ECX :: nat where "R_ECX \<equiv> 1"
abbreviation (input) R_EDX :: nat where "R_EDX \<equiv> 2"
abbreviation (input) R_EBX :: nat where "R_EBX \<equiv> 3"
abbreviation (input) R_ESP :: nat where "R_ESP \<equiv> 4"
abbreviation (input) R_EBP :: nat where "R_EBP \<equiv> 5"
abbreviation (input) R_ESI :: nat where "R_ESI \<equiv> 6"
abbreviation (input) R_EDI :: nat where "R_EDI \<equiv> 7"

definition set_gpr :: "nat \<Rightarrow> u32 \<Rightarrow> CPU_state \<Rightarrow> CPU_state" where
  "set_gpr i v c = c\<lparr>gpr := (gpr c)(i := v)\<rparr>"

text \<open>The union members \<open>_32\<close>, \<open>_16\<close> and \<open>_8[k]\<close>, read and written.\<close>

definition gpr_w :: "nat \<Rightarrow> CPU_state \<Rightarrow> u32" where "gpr_w i c = bits 0 16 (gpr c i)"
definition gpr_b :: "nat \<Rightarrow> CPU_state \<Rightarrow> u32" where "gpr_b i c = bits (8 * (i div 4)) 8 (gpr c (i mod 4))"

definition set_gpr_w :: "nat \<Rightarrow> u32 \<Rightarrow> CPU_state \<Rightarrow> CPU_state" where
  "set_gpr_w i v c = set_gpr i (put_bits 0 16 v (gpr c i)) c"
definition set_gpr_b :: "nat \<Rightarrow> u32 \<Rightarrow> CPU_state \<Rightarrow> CPU_state" where
  "set_gpr_b i v c = set_gpr (i mod 4) (put_bits (8 * (i div 4)) 8 v (gpr c (i mod 4))) c"

definition check_reg_index :: "nat \<Rightarrow> (machine, nat) M" where
  "check_reg_index i = seqM (assertM (i < 8)) (ret i)"

definition reg_l :: "nat \<Rightarrow> (machine, u32) M" where
  "reg_l i = bindM (check_reg_index i) (\<lambda>i. cpuM (\<lambda>c. gpr c i))"
definition reg_w :: "nat \<Rightarrow> (machine, u32) M" where
  "reg_w i = bindM (check_reg_index i) (\<lambda>i. cpuM (gpr_w i))"
definition reg_b :: "nat \<Rightarrow> (machine, u32) M" where
  "reg_b i = bindM (check_reg_index i) (\<lambda>i. cpuM (gpr_b i))"

definition set_reg_l :: "nat \<Rightarrow> u32 \<Rightarrow> (machine, unit) M" where
  "set_reg_l i v = bindM (check_reg_index i) (\<lambda>i. on_cpu (set_gpr i v))"
definition set_reg_w :: "nat \<Rightarrow> u32 \<Rightarrow> (machine, unit) M" where
  "set_reg_w i v = bindM (check_reg_index i) (\<lambda>i. on_cpu (set_gpr_w i v))"
definition set_reg_b :: "nat \<Rightarrow> u32 \<Rightarrow> (machine, unit) M" where
  "set_reg_b i v = bindM (check_reg_index i) (\<lambda>i. on_cpu (set_gpr_b i v))"

lemmas reg_defs = reg_l_def reg_w_def reg_b_def set_reg_l_def set_reg_w_def set_reg_b_def check_reg_index_def

lemma gpr_set_gpr [simp]: "gpr (set_gpr i v c) j = (if j = i then v else gpr c j)"
  by (simp add: set_gpr_def)

lemma set_gpr_other [simp]:
  "eflags (set_gpr i v c) = eflags c" "eip (set_gpr i v c) = eip c" "sreg (set_gpr i v c) = sreg c"
  "cr0 (set_gpr i v c) = cr0 c" "cr3 (set_gpr i v c) = cr3 c" "gdtr (set_gpr i v c) = gdtr c"
  "idtr (set_gpr i v c) = idtr c" "INTR (set_gpr i v c) = INTR c"
  by (simp_all add: set_gpr_def)

section \<open>Register views\<close>

text \<open>Reading back a narrow register, and what a narrow write leaves of the others.\<close>

lemma gpr_w_set [simp]: "gpr_w i (set_gpr_w j v c) = (if i = j then take_bit 16 v else gpr_w i c)"
  by (simp add: gpr_w_def set_gpr_w_def bits_put_bits_same)

lemma byte_slots_disjoint:
  "a < 2 \<Longrightarrow> b < (2::nat) \<Longrightarrow> a \<noteq> b \<Longrightarrow> 8 * a + 8 \<le> 8 * b \<or> 8 * b + 8 \<le> 8 * a"
  by auto

lemma gpr_b_set [simp]:
  assumes "i < 8" "j < 8"
  shows "gpr_b i (set_gpr_b j v c) = (if i = j then take_bit 8 v else gpr_b i c)"
proof (cases "i mod 4 = j mod 4")
  case True
  have lt: "i div 4 < 2" "j div 4 < 2" using assms by auto
  show ?thesis
  proof (cases "i = j")
    case True
    then show ?thesis using lt by (simp add: gpr_b_def set_gpr_b_def bits_put_bits_same)
  next
    case False
    with True have "i div 4 \<noteq> j div 4" by (metis div_mult_mod_eq)
    with lt byte_slots_disjoint [of "i div 4" "j div 4"] True False show ?thesis
      by (simp add: gpr_b_def set_gpr_b_def bits_put_bits_other)
  qed
next
  case False
  then show ?thesis by (auto simp: gpr_b_def set_gpr_b_def)
qed

lemma gpr_views:
  "gpr_b i (set_gpr j v c) = (if i mod 4 = j then bits (8 * (i div 4)) 8 v else gpr_b i c)"
  "gpr_w i (set_gpr j v c) = (if i = j then bits 0 16 v else gpr_w i c)"
  by (simp_all add: gpr_b_def gpr_w_def)

text \<open>The upper half of a register survives 16-bit and 8-bit writes.\<close>

lemma narrow_writes_keep_high:
  assumes "i < 8" "j < 8"
  shows "bits 16 16 (gpr (set_gpr_w i v c) j) = bits 16 16 (gpr c j)"
    "bits 16 16 (gpr (set_gpr_b i v c) j) = bits 16 16 (gpr c j)"
proof -
  show "bits 16 16 (gpr (set_gpr_w i v c) j) = bits 16 16 (gpr c j)"
    by (simp add: set_gpr_w_def bits_put_bits_other)
  have "i div 4 < 2" using assms by auto
  then have "8 * (i div 4) + 8 \<le> 16" by simp
  then show "bits 16 16 (gpr (set_gpr_b i v c) j) = bits 16 16 (gpr c j)"
    by (simp add: set_gpr_b_def bits_put_bits_other)
qed

lemma narrow_write_other [simp]:
  "eflags (set_gpr_w i v c) = eflags c" "eflags (set_gpr_b i v c) = eflags c"
  "eip (set_gpr_w i v c) = eip c" "eip (set_gpr_b i v c) = eip c"
  "sreg (set_gpr_w i v c) = sreg c" "sreg (set_gpr_b i v c) = sreg c"
  "cr0 (set_gpr_w i v c) = cr0 c" "cr0 (set_gpr_b i v c) = cr0 c"
  "cr3 (set_gpr_w i v c) = cr3 c" "cr3 (set_gpr_b i v c) = cr3 c"
  by (simp_all add: set_gpr_w_def set_gpr_b_def)

section \<open>Flags\<close>

abbreviation (input) CF_bit :: nat where "CF_bit \<equiv> 0"
abbreviation (input) PF_bit :: nat where "PF_bit \<equiv> 2"
abbreviation (input) AF_bit :: nat where "AF_bit \<equiv> 4"
abbreviation (input) ZF_bit :: nat where "ZF_bit \<equiv> 6"
abbreviation (input) SF_bit :: nat where "SF_bit \<equiv> 7"
abbreviation (input) IF_bit :: nat where "IF_bit \<equiv> 9"
abbreviation (input) DF_bit :: nat where "DF_bit \<equiv> 10"
abbreviation (input) OF_bit :: nat where "OF_bit \<equiv> 11"

definition flag :: "nat \<Rightarrow> CPU_state \<Rightarrow> bool" where
  "flag n c = bit (eflags c) n"

definition set_flag :: "nat \<Rightarrow> bool \<Rightarrow> CPU_state \<Rightarrow> CPU_state" where
  "set_flag n b c = c\<lparr>eflags := (if b then set_bit n (eflags c) else unset_bit n (eflags c))\<rparr>"

abbreviation CF :: "CPU_state \<Rightarrow> bool" where "CF \<equiv> flag 0"
abbreviation PF :: "CPU_state \<Rightarrow> bool" where "PF \<equiv> flag 2"
abbreviation AF :: "CPU_state \<Rightarrow> bool" where "AF \<equiv> flag 4"
abbreviation ZF :: "CPU_state \<Rightarrow> bool" where "ZF \<equiv> flag 6"
abbreviation SF :: "CPU_state \<Rightarrow> bool" where "SF \<equiv> flag 7"
abbreviation IFl :: "CPU_state \<Rightarrow> bool" where "IFl \<equiv> flag 9"
abbreviation DF :: "CPU_state \<Rightarrow> bool" where "DF \<equiv> flag 10"
abbreviation OF :: "CPU_state \<Rightarrow> bool" where "OF \<equiv> flag 11"

lemma flag_set_flag [simp]: "n < 32 \<Longrightarrow> flag k (set_flag n b c) = (if k = n then b else flag k c)"
  by (auto simp: flag_def set_flag_def bit_simps)

lemma set_flag_other [simp]:
  "gpr (set_flag n b c) = gpr c" "eip (set_flag n b c) = eip c" "sreg (set_flag n b c) = sreg c"
  "cr0 (set_flag n b c) = cr0 c" "cr3 (set_flag n b c) = cr3 c" "gdtr (set_flag n b c) = gdtr c"
  "idtr (set_flag n b c) = idtr c" "INTR (set_flag n b c) = INTR c"
  by (simp_all add: set_flag_def)

lemma flag_set_gpr [simp]: "flag k (set_gpr i v c) = flag k c"
  by (simp add: flag_def)

text \<open>The 4-bit parity table of eflags.c, as written there.\<close>

definition parity_table :: "nat list" where
  "parity_table = [0, 1, 0, 1,  1, 0, 1, 0,  0, 1, 0, 1,  1, 0, 1, 0]"

definition update_eflags_pf_zf_sf :: "u32 \<Rightarrow> CPU_state \<Rightarrow> CPU_state" where
  "update_eflags_pf_zf_sf result c =
     (let temp = unat (result AND 0xff);
          c = set_flag PF_bit (odd (parity_table ! (temp mod 16) + parity_table ! (temp div 16))) c;
          c = set_flag ZF_bit (result = 0) c
      in set_flag SF_bit (bit result 31) c)"

section \<open>Condition codes\<close>

definition check_cc_b :: "CPU_state \<Rightarrow> bool" where "check_cc_b c = CF c"
definition check_cc_e :: "CPU_state \<Rightarrow> bool" where "check_cc_e c = ZF c"
definition check_cc_ne :: "CPU_state \<Rightarrow> bool" where "check_cc_ne c = (\<not> ZF c)"
definition check_cc_be :: "CPU_state \<Rightarrow> bool" where "check_cc_be c = (CF c \<or> ZF c)"
definition check_cc_a :: "CPU_state \<Rightarrow> bool" where "check_cc_a c = (\<not> (CF c \<or> ZF c))"
definition check_cc_s :: "CPU_state \<Rightarrow> bool" where "check_cc_s c = SF c"
definition check_cc_ns :: "CPU_state \<Rightarrow> bool" where "check_cc_ns c = (\<not> SF c)"
definition check_cc_l :: "CPU_state \<Rightarrow> bool" where "check_cc_l c = (SF c \<noteq> OF c)"
definition check_cc_ge :: "CPU_state \<Rightarrow> bool" where "check_cc_ge c = (\<not> (SF c \<noteq> OF c))"
definition check_cc_le :: "CPU_state \<Rightarrow> bool" where "check_cc_le c = ((SF c \<noteq> OF c) \<or> ZF c)"
definition check_cc_g :: "CPU_state \<Rightarrow> bool" where "check_cc_g c = (\<not> ((SF c \<noteq> OF c) \<or> ZF c))"

section \<open>Self-test and lookup by name\<close>

definition regsl :: "string list" where
  "regsl = [''eax'', ''ecx'', ''edx'', ''ebx'', ''esp'', ''ebp'', ''esi'', ''edi'']"
definition regsw :: "string list" where
  "regsw = [''ax'', ''cx'', ''dx'', ''bx'', ''sp'', ''bp'', ''si'', ''di'']"
definition regsb :: "string list" where
  "regsb = [''al'', ''cl'', ''dl'', ''bl'', ''ah'', ''ch'', ''dh'', ''bh'']"

definition randM :: "(machine, u32) M" where
  "randM = bindM (on_mem crand) (\<lambda>r. ret (of_nat r))"

text \<open>\<open>now\<close> is the value of \<open>time(0)\<close>.\<close>

definition reg_test :: "nat \<Rightarrow> (machine, unit) M" where
  "reg_test now =
     seqM (on_mem (csrand now))
     (bindM randM (\<lambda>eip_sample.
      seqM (on_cpu (\<lambda>c. c\<lparr>eip := eip_sample\<rparr>))
     (bindM (getM (\<lambda>s i. 0 :: u32)) (\<lambda>sample0.
      bindM (foldr (\<lambda>i k sample. bindM randM (\<lambda>r.
                 seqM (set_reg_l i r)
                 (bindM (reg_w i) (\<lambda>w.
                  seqM (assertM (w = r AND 0xffff)) (k (sample(i := r)))))))
               [R_EAX, R_ECX, R_EDX, R_EBX, R_ESP, R_EBP, R_ESI, R_EDI] ret sample0) (\<lambda>sample.
      seqM (forM [(0, 0, 0), (4, 0, 8), (3, 3, 0), (7, 3, 8), (1, 1, 0), (5, 1, 8), (2, 2, 0), (6, 2, 8)]
              (\<lambda>(b, i, k). bindM (reg_b b) (\<lambda>v. assertM (v = drop_bit k (sample i) AND 0xff))))
     (seqM (forM [R_EAX, R_ECX, R_EDX, R_EBX, R_ESP, R_EBP, R_ESI, R_EDI]
              (\<lambda>i. bindM (cpuM (\<lambda>c. gpr c i)) (\<lambda>v. assertM (sample i = v))))
      (bindM (cpuM eip) (\<lambda>v. assertM (eip_sample = v)))))))))"

text \<open>\<open>None\<close> is \<open>*success = false\<close>.\<close>

definition get_reg_val :: "string \<Rightarrow> CPU_state \<Rightarrow> u32 option" where
  "get_reg_val str c =
     (case find_way 8 (\<lambda>i. regsl ! i = str) of Some i \<Rightarrow> Some (gpr c i)
      | None \<Rightarrow> (case find_way 8 (\<lambda>i. regsw ! i = str) of Some i \<Rightarrow> Some (gpr_w i c)
      | None \<Rightarrow> (case find_way 8 (\<lambda>i. regsb ! i = str) of Some i \<Rightarrow> Some (gpr_b i c)
      | None \<Rightarrow> if str = ''eip'' then Some (eip c) else None)))"

section \<open>Properties\<close>

lemma run_randM [run_simps]:
  "randM s = Ret (of_nat (rand_fn (mem s) (rand_seed (mem s)) (rand_pos (mem s))))
     (s\<lparr>mem := (mem s)\<lparr>rand_pos := Suc (rand_pos (mem s))\<rparr>\<rparr>)"
  by (simp add: randM_def on_mem_def crand_def zoom_def bindM_def seqM_def run_simps)

lemma wp_randM [wp_simps]:
  "wp randM Q = (\<lambda>s. Q (of_nat (rand_fn (mem s) (rand_seed (mem s)) (rand_pos (mem s))))
     (s\<lparr>mem := (mem s)\<lparr>rand_pos := Suc (rand_pos (mem s))\<rparr>\<rparr>))"
  by (rule ext) (simp add: wp_def run_randM)

lemma bits_masks: "bits 0 16 (x :: u32) = x AND 0xffff" "bits k 8 (x :: u32) = drop_bit k x AND 0xff"
  by (simp_all add: bits_def take_bit_eq_mask mask_eq_exp_minus_1)

definition reset_cpu :: CPU_state where
  "reset_cpu = \<lparr>gpr = (\<lambda>_. 0), eflags = 2, eip = 0x100000, gdtr = \<lparr>dtr_limit = 0, dtr_base = 0\<rparr>,
     idtr = \<lparr>dtr_limit = 0, dtr_base = 0\<rparr>,
     sreg = (\<lambda>_. \<lparr>selector = 0, sreg_cache = \<lparr>limit_15_0 = 0, base_15_0 = 0, base_23_16 = 0,
       limit_19_16 = 0, base_31_24 = 0\<rparr>\<rparr>), INTR = False, cr0 = 0, cr3 = 0\<rparr>"

text \<open>
  \<open>reg_test\<close>, run by \<open>main\<close> before anything else, never fails: whatever \<open>time\<close> and \<open>rand\<close>
  return, the 8-, 16- and 32-bit register accesses alias as the i386 encoding demands and
  every assertion of the self-test holds.
\<close>

lemma reg_test_passes: "wp (reg_test now) (\<lambda>_ _. True) s"
  by (simp add: reg_test_def wp_simps reg_defs csrand_def gpr_views)
    (simp add: bits_masks)

text \<open>
  Byte and word registers are views of the 32-bit registers: a byte write is read back
  truncated to 8 bits and changes no other byte register, a word write is read back
  truncated to 16 bits, neither touches the upper halves, and both leave the flags and the
  instruction pointer alone.
\<close>

lemma register_aliasing:
  assumes "i < 8" "j < 8"
  shows "gpr_b j (set_gpr_b i v c) = (if j = i then take_bit 8 v else gpr_b j c) \<and>
    gpr_w j (set_gpr_w i v c) = (if j = i then take_bit 16 v else gpr_w j c) \<and>
    bits 16 16 (gpr (set_gpr_b i v c) j) = bits 16 16 (gpr c j) \<and>
    bits 16 16 (gpr (set_gpr_w i v c) j) = bits 16 16 (gpr c j) \<and>
    eflags (set_gpr_b i v c) = eflags c \<and> eflags (set_gpr_w i v c) = eflags c \<and>
    eip (set_gpr_b i v c) = eip c \<and> eip (set_gpr_w i v c) = eip c"
  using assms narrow_writes_keep_high [OF assms] by simp


end
