(* ===== verification/Paging.thy ===== *)
theory Paging
  imports Memory Regs
begin

unbundle bit_operations_syntax

text \<open>
  Virtual memory: the two-level page walk of \<open>page_translate\<close> with the TLB in front of it is
  compared with a walk over the visible memory, and the linear accesses with the bytes at the
  translated addresses. A TLB entry is right when it agrees with the walk for its page.
\<close>

section \<open>The page walk as a function\<close>

definition pde_addr :: "u32 \<Rightarrow> u32 \<Rightarrow> u32" where
  "pde_addr base addr = push_bit 12 base OR push_bit 2 (drop_bit 22 addr)"

definition pte_addr :: "u32 \<Rightarrow> u32 \<Rightarrow> u32" where
  "pte_addr pde addr = push_bit 12 (pte_page_frame pde) OR push_bit 2 (drop_bit 12 addr AND 0x3ff)"

definition walk :: "bytes \<Rightarrow> u32 \<Rightarrow> u32 \<Rightarrow> u32 option" where
  "walk m base addr =
     (let pde = load (unat (pde_addr base addr)) 4 m; pte = load (unat (pte_addr pde addr)) 4 m in
      if pte_present pde \<and> pte_present pte
      then Some ((addr AND 0xfff) OR push_bit 12 (pte_page_frame pte)) else None)"

definition vm_on :: "machine \<Rightarrow> bool" where
  "vm_on s \<longleftrightarrow> paging (cpu s) \<and> protect_enable (cpu s)"

definition xlate :: "machine \<Rightarrow> u32 \<Rightarrow> u32 option" where
  "xlate s addr = (if vm_on s then walk (mem_view (mem s)) (page_directory_base (cpu s)) addr else Some addr)"

text \<open>The page tables of an address are in memory proper.\<close>

definition tables_ok :: "nat set \<Rightarrow> machine \<Rightarrow> u32 \<Rightarrow> bool" where
  "tables_ok W s addr \<longleftrightarrow> (vm_on s \<longrightarrow>
     (let base = page_directory_base (cpu s); pde = load (unat (pde_addr base addr)) 4 (mem_view (mem s)) in
      phys_ok W s (pde_addr base addr) 4 \<and> phys_ok W s (pte_addr pde addr) 4))"

definition tlb_inv :: "machine \<Rightarrow> bool" where
  "tlb_inv s \<longleftrightarrow> (\<forall>i<64. tlb_valid (tlb s i) \<longrightarrow>
     walk (mem_view (mem s)) (page_directory_base (cpu s)) (tlb_addr (tlb s i)) = Some (tlb_result (tlb s i)))"

definition vm_inv :: "nat set \<Rightarrow> machine \<Rightarrow> bool" where
  "vm_inv W s \<longleftrightarrow> cache_inv W (mem s) \<and> (vm_on s \<longrightarrow> tlb_inv s)"

text \<open>Translation touches the caches, the TLB and the random numbers, nothing visible.\<close>

definition vm_same :: "nat set \<Rightarrow> machine \<Rightarrow> machine \<Rightarrow> bool" where
  "vm_same W s t \<longleftrightarrow> (\<exists>m T. t = s\<lparr>mem := m, tlb := T\<rparr>) \<and> mem_view (mem t) = mem_view (mem s) \<and> vm_inv W t"

lemma vm_same_parts:
  assumes "vm_same W s t"
  shows "cpu t = cpu s" "mmio t = mmio s" "mem_view (mem t) = mem_view (mem s)" "cache_inv W (mem t)" "vm_inv W t"
    "ops_decoded t = ops_decoded s" "vm_on t = vm_on s" "xlate t = xlate s" "tables_ok W t = tables_ok W s"
    "phys_ok W t = phys_ok W s"
proof -
  obtain m T where eq: "t = s\<lparr>mem := m, tlb := T\<rparr>" and v: "mem_view (mem t) = mem_view (mem s)" and inv: "vm_inv W t"
    using assms by (auto simp: vm_same_def)
  from eq show c: "cpu t = cpu s" "mmio t = mmio s" "ops_decoded t = ops_decoded s" by simp_all
  show "mem_view (mem t) = mem_view (mem s)" "vm_inv W t" "cache_inv W (mem t)" using v inv by (simp_all add: vm_inv_def)
  from c show on: "vm_on t = vm_on s" by (simp add: vm_on_def)
  show "xlate t = xlate s" by (rule ext) (simp add: xlate_def on c v)
  show p: "phys_ok W t = phys_ok W s" by (intro ext phys_ok_cong c)
  show "tables_ok W t = tables_ok W s" by (rule ext) (simp add: tables_ok_def on c v p)
qed

section \<open>Pages\<close>

lemma walk_same_page:
  assumes "drop_bit 12 a = drop_bit 12 (b :: u32)"
  shows "walk m base a = map_option (\<lambda>h. (h AND 0xfffff000) OR (a AND 0xfff)) (walk m base b)"
proof -
  have bits: "bit a n = bit b n" if "12 \<le> n" for n
  proof -
    have "bit (drop_bit 12 a) (n - 12) = bit (drop_bit 12 b) (n - 12)" using assms by simp
    with that show ?thesis by (simp add: bit_simps)
  qed
  have "drop_bit 22 a = drop_bit 22 b" by (rule bit_word_eqI) (simp add: bit_simps bits)
  then have dirs: "pde_addr base a = pde_addr base b" "\<And>e. pte_addr e a = pte_addr e b"
    using assms by (simp_all add: pde_addr_def pte_addr_def)
  have hi: "(0xfffff000 :: u32) = NOT (mask 12)" and lo: "(0xfff :: u32) = mask 12"
    by (simp_all add: mask_eq_exp_minus_1)
  have "(((b AND 0xfff) OR push_bit 12 f) AND 0xfffff000) OR (a AND 0xfff) = (a AND 0xfff) OR push_bit 12 f" for f :: u32
    unfolding hi lo by (rule bit_word_eqI) (auto simp: bit_simps)
  then show ?thesis by (simp add: walk_def dirs Let_def)
qed

section \<open>Translation\<close>

lemma vm_sameI:
  assumes "t = s\<lparr>mem := m, tlb := T\<rparr>" "same_mem W s m"
    and "vm_on s \<Longrightarrow> \<forall>i<64. tlb_valid (T i) \<longrightarrow>
      walk (mem_view (mem s)) (page_directory_base (cpu s)) (tlb_addr (T i)) = Some (tlb_result (T i))"
  shows "vm_same W s t"
  using assms by (auto simp: vm_same_def vm_inv_def same_mem_def tlb_inv_def vm_on_def)

lemma vm_same_refl: "vm_inv W s \<Longrightarrow> vm_same W s s"
  unfolding vm_same_def by (intro conjI exI [of _ "mem s"] exI [of _ "tlb s"]) simp_all

lemma vm_same_trans: "vm_same W s t \<Longrightarrow> vm_same W t u \<Longrightarrow> vm_same W s u"
  unfolding vm_same_def by (elim conjE exE) (intro conjI exI, auto)

lemma TLB_update_run:
  "\<exists>i m. TLB_update a h s = Ret () (s\<lparr>mem := m, tlb := (tlb s)(i := \<lparr>tlb_valid = True, tlb_addr = a, tlb_result = h\<rparr>)\<rparr>) \<and>
     (\<exists>p q. m = (mem s)\<lparr>rand_seed := p, rand_pos := q\<rparr>)"
proof (cases "find_way 64 (\<lambda>i. \<not> tlb_valid (tlb s i))")
  case (Some i)
  then show ?thesis
    by (intro exI [of _ i] exI [of _ "(mem s)\<lparr>rand_seed := 0, rand_pos := 0\<rparr>"])
      (auto simp: TLB_update_def on_mem_def zoom_def csrand_def bindM_def seqM_def)
next
  case None
  then show ?thesis
    by (intro exI [of _ "rand_fn (mem s) 0 0 mod 64"] exI [of _ "(mem s)\<lparr>rand_seed := 0, rand_pos := 1\<rparr>"])
      (auto simp: TLB_update_def on_mem_def zoom_def csrand_def crand_def bindM_def seqM_def)
qed

lemma tlb_hit:
  assumes inv: "tlb_inv s" and hit: "find_way 64 (\<lambda>i. tlb_valid (tlb s i) \<and> tlb_tag (tlb s i) = drop_bit 12 addr) = Some i"
  shows "walk (mem_view (mem s)) (page_directory_base (cpu s)) addr =
    Some ((tlb_result (tlb s i) AND 0xfffff000) OR (addr AND 0xfff))"
proof -
  from hit have i: "i < 64" "tlb_valid (tlb s i)" "tlb_tag (tlb s i) = drop_bit 12 addr"
    by (auto dest!: find_way_SomeD)
  have "tlb_tag (tlb s i) = drop_bit 12 (tlb_addr (tlb s i))"
    unfolding tlb_tag_def bits_def by (rule bit_word_eqI) (auto simp: bit_simps dest: bit_imp_le_length)
  with i walk_same_page [of addr "tlb_addr (tlb s i)"] inv show ?thesis
    by (simp add: tlb_inv_def)
qed

text \<open>The miss path of \<open>page_translate\<close>.\<close>

definition walk_path :: "u32 \<Rightarrow> (machine, u32) M" where
  "walk_path addr = (let dir = drop_bit 22 addr; page = drop_bit 12 addr AND 0x3ff; offset = addr AND 0xfff in
     bindM (cpuM page_directory_base) (\<lambda>page_directory.
     bindM (hwaddr_read (push_bit 12 page_directory OR push_bit 2 dir) 4) (\<lambda>pde.
     seqM (assertM (pte_present pde))
    (bindM (hwaddr_read (push_bit 12 (pte_page_frame pde) OR push_bit 2 page) 4) (\<lambda>pte.
     seqM (assertM (pte_present pte))
    (let hwaddr = offset OR push_bit 12 (pte_page_frame pte) in
     seqM (TLB_update addr hwaddr) (ret hwaddr)))))))"

lemma walk_path_run:
  assumes inv: "vm_inv W s" and on: "vm_on s" and tables: "tables_ok W s addr"
  shows "case xlate s addr of
      Some h \<Rightarrow> \<exists>t. walk_path addr s = Ret h t \<and> vm_same W s t
    | None \<Rightarrow> walk_path addr s = Err AssertFail"
proof -
  let ?base = "page_directory_base (cpu s)" and ?m = "mem_view (mem s)"
  let ?pde = "load (unat (pde_addr ?base addr)) 4 ?m"
  let ?pte = "load (unat (pte_addr ?pde addr)) 4 ?m"
  have ok: "phys_ok W s (pde_addr ?base addr) 4" "phys_ok W s (pte_addr ?pde addr) 4"
    using tables on by (simp_all add: tables_ok_def Let_def)
  have ci: "cache_inv W (mem s)" using inv by (simp add: vm_inv_def)
  from hwaddr_read_run [OF ci ok(1)] obtain m1 where
    r1: "hwaddr_read (pde_addr ?base addr) 4 s = Ret ?pde (s\<lparr>mem := m1\<rparr>)" "same_mem W s m1" by blast
  from r1(2) have c1: "cache_inv W (mem (s\<lparr>mem := m1\<rparr>))" "mem_view m1 = ?m" by (simp_all add: same_mem_def)
  have ok2: "phys_ok W (s\<lparr>mem := m1\<rparr>) (pte_addr ?pde addr) 4" using ok(2) by simp
  from hwaddr_read_run [OF c1(1) ok2] obtain m2 where
    r2: "hwaddr_read (pte_addr ?pde addr) 4 (s\<lparr>mem := m1\<rparr>) = Ret ?pte (s\<lparr>mem := m2\<rparr>)" "same_mem W (s\<lparr>mem := m1\<rparr>) m2"
    using c1(2) by auto
  have c2: "cache_inv W m2" "mem_view m2 = ?m" using r2(2) c1(2) by (simp_all add: same_mem_def)
  have step: "walk_path addr s = (if pte_present ?pde \<and> pte_present ?pte
      then seqM (TLB_update addr ((addr AND 0xfff) OR push_bit 12 (pte_page_frame ?pte)))
             (ret ((addr AND 0xfff) OR push_bit 12 (pte_page_frame ?pte))) (s\<lparr>mem := m2\<rparr>)
      else Err AssertFail)"
    using r1(1) r2(1) by (simp add: walk_path_def Let_def bindM_def seqM_def pde_addr_def pte_addr_def run_simps)
  show ?thesis
  proof (cases "pte_present ?pde \<and> pte_present ?pte")
    case False
    then show ?thesis using step on by (auto simp: xlate_def walk_def Let_def)
  next
    case True
    let ?h = "(addr AND 0xfff) OR push_bit 12 (pte_page_frame ?pte)"
    have w: "walk ?m ?base addr = Some ?h" using True by (simp add: walk_def Let_def)
    from TLB_update_run [of addr ?h "s\<lparr>mem := m2\<rparr>"] obtain i m p q where
      u: "TLB_update addr ?h (s\<lparr>mem := m2\<rparr>) =
         Ret () (s\<lparr>mem := m, tlb := (tlb s)(i := \<lparr>tlb_valid = True, tlb_addr = addr, tlb_result = ?h\<rparr>)\<rparr>)"
      and m: "m = m2\<lparr>rand_seed := p, rand_pos := q\<rparr>" by auto
    have "vm_same W s (s\<lparr>mem := m, tlb := (tlb s)(i := \<lparr>tlb_valid = True, tlb_addr = addr, tlb_result = ?h\<rparr>)\<rparr>)"
    proof (rule vm_sameI [OF refl])
      show "same_mem W s m" using c2 m by (simp add: same_mem_def)
      show "\<forall>j<64. tlb_valid (((tlb s)(i := \<lparr>tlb_valid = True, tlb_addr = addr, tlb_result = ?h\<rparr>)) j) \<longrightarrow>
        walk ?m ?base (tlb_addr (((tlb s)(i := \<lparr>tlb_valid = True, tlb_addr = addr, tlb_result = ?h\<rparr>)) j)) =
        Some (tlb_result (((tlb s)(i := \<lparr>tlb_valid = True, tlb_addr = addr, tlb_result = ?h\<rparr>)) j))"
        using w inv on by (simp add: vm_inv_def tlb_inv_def)
    qed
    then show ?thesis using step True u w on by (simp add: xlate_def seqM_def bindM_def)
  qed
qed

lemma page_translate_unfold:
  "vm_on s \<Longrightarrow> page_translate addr s =
     (case find_way 64 (\<lambda>i. tlb_valid (tlb s i) \<and> tlb_tag (tlb s i) = drop_bit 12 addr) of
        Some i \<Rightarrow> if tlb_result (tlb s i) = 0xffffffff then walk_path addr s
          else Ret ((tlb_result (tlb s i) AND 0xfffff000) OR (addr AND 0xfff)) s
      | None \<Rightarrow> walk_path addr s)"
proof -
  have "(NOT h = 0) = (h = 0xffffffff)" for h :: u32
  proof -
    have "(0xffffffff :: u32) = NOT 0" by simp
    then show ?thesis by (metis bit.double_compl)
  qed
  then show "vm_on s \<Longrightarrow> ?thesis"
    by (simp add: page_translate_def walk_path_def vm_on_def TLB_translate_def Let_def bindM_def split: option.split)
qed

lemma page_translate_run:
  assumes inv: "vm_inv W s" and tables: "tables_ok W s addr" and h: "xlate s addr = Some h"
  shows "\<exists>t. page_translate addr s = Ret h t \<and> vm_same W s t"
proof (cases "vm_on s")
  case False
  then show ?thesis using h vm_same_refl [OF inv]
    by (auto simp: page_translate_def xlate_def vm_on_def bindM_def)
next
  case True
  have w: "\<exists>t. walk_path addr s = Ret h t \<and> vm_same W s t" using walk_path_run [OF inv True tables] h by simp
  show ?thesis
  proof (cases "find_way 64 (\<lambda>i. tlb_valid (tlb s i) \<and> tlb_tag (tlb s i) = drop_bit 12 addr)")
    case None
    then show ?thesis using w True by (simp add: page_translate_unfold)
  next
    case (Some i)
    have "tlb_inv s" using inv True by (simp add: vm_inv_def)
    from tlb_hit [OF this Some] h True have "h = (tlb_result (tlb s i) AND 0xfffff000) OR (addr AND 0xfff)"
      by (simp add: xlate_def)
    then show ?thesis using w True Some vm_same_refl [OF inv] by (auto simp: page_translate_unfold)
  qed
qed

section \<open>Linear accesses\<close>

lemma unat_page_join:
  "unat ((x AND NOT (mask n)) OR (y AND mask n) :: 'a::len word) = (unat x - unat x mod 2 ^ n) + unat y mod 2 ^ n"
proof -
  have "(x AND NOT (mask n)) OR (y AND mask n) = (x AND NOT (mask n)) + take_bit n y"
    unfolding take_bit_eq_mask by (subst disjunctive_add) (auto simp: bit_simps)
  moreover have "unat (take_bit n y) < 2 ^ n" by (simp add: unat_take_bit)
  moreover have "unat (x AND NOT (mask n)) + unat (take_bit n y) < 2 ^ LENGTH('a)"
  proof (cases "n < LENGTH('a)")
    case True
    have pow: "2 ^ LENGTH('a) = 2 ^ n * (2 ^ (LENGTH('a) - n) :: nat)" using True by (simp flip: power_add)
    have "unat x < 2 ^ LENGTH('a)" by (rule unsigned_less)
    with pow have "unat x div 2 ^ n < 2 ^ (LENGTH('a) - n)"
      by (simp only: less_mult_imp_div_less mult.commute)
    then have "2 ^ n * (unat x div 2 ^ n) + 2 ^ n \<le> 2 ^ n * 2 ^ (LENGTH('a) - n)"
      by (metis Suc_leI add.commute mult_Suc_right mult_le_mono2)
    moreover have "unat x - unat x mod 2 ^ n = 2 ^ n * (unat x div 2 ^ n)" by (simp add: minus_mod_eq_mult_div)
    ultimately show ?thesis using \<open>unat (take_bit n y) < 2 ^ n\<close> pow by (simp add: unat_and_not_low)
  next
    case False
    then have "x AND NOT (mask n) = 0" by (intro bit_word_eqI) (auto simp: bit_simps dest: bit_imp_le_length)
    then show ?thesis using unsigned_less [of "take_bit n y"] by simp
  qed
  ultimately show ?thesis by (simp add: unat_word_ariths unat_and_not_low unat_take_bit)
qed

lemma walk_low_bits: "walk m base a = Some h \<Longrightarrow> unat h mod 4096 = unat a mod 4096"
proof -
  assume "walk m base a = Some h"
  then obtain f where h: "h = (a AND 0xfff) OR push_bit 12 f" by (auto simp: walk_def Let_def split: if_splits)
  have lo: "(0xfff :: u32) = mask 12" by (simp add: mask_eq_exp_minus_1)
  have "take_bit 12 h = take_bit 12 a" unfolding h lo
    by (rule bit_word_eqI) (auto simp: bit_simps)
  then have "unat (take_bit 12 h) = unat (take_bit 12 a)" by simp
  then show ?thesis by (simp add: unat_take_bit)
qed

text \<open>Inside a page, translation is an offset.\<close>

lemma block_bound: "n div b < c \<Longrightarrow> n mod b + i < b \<Longrightarrow> n + i < b * (c :: nat)"
proof -
  assume c: "n div b < c" and r: "n mod b + i < b"
  have "n + i = b * (n div b) + (n mod b + i)" by simp
  also have "\<dots> < b * (n div b) + b" using r by (rule add_strict_left_mono)
  also have "\<dots> \<le> b * c" using c by (metis Suc_leI add.commute mult_Suc_right mult_le_mono2)
  finally show ?thesis .
qed

lemma drop_bit_same_page:
  assumes "unat (a :: u32) mod 4096 + i < 4096"
  shows "unat (a + of_nat i) = unat a + i" "drop_bit 12 (a + of_nat i) = drop_bit 12 a"
proof -
  have a: "unat a = 4096 * (unat a div 4096) + unat a mod 4096" by simp
  have "unat a < 2 ^ 32" using unsigned_less [of a] by simp
  then have "unat a div 4096 < 1048576" by (simp add: less_mult_imp_div_less)
  from block_bound [OF this assms] have lt: "unat a + i < 2 ^ 32" by simp
  then show u: "unat (a + of_nat i) = unat a + i" using assms by (simp add: unat_word_ariths unat_of_nat)
  have "(unat a + i) div 4096 = unat a div 4096"
    using a assms div_mod_block [of 4096 "unat a div 4096" "unat a + i"] by linarith
  then show "drop_bit 12 (a + of_nat i) = drop_bit 12 a"
    by (simp add: word_unat_eq_iff unat_drop_bit u)
qed

lemma xlate_offset:
  assumes h: "xlate s a = Some h" and i: "unat a mod 4096 + i < 4096"
  shows "xlate s (a + of_nat i) = Some (h + of_nat i)" "unat (h + of_nat i) = unat h + i"
proof -
  have hi: "(0xfffff000 :: u32) = NOT (mask 12)" and lo: "(0xfff :: u32) = mask 12"
    by (simp_all add: mask_eq_exp_minus_1)
  have mod: "unat h mod 4096 = unat a mod 4096" using h walk_low_bits by (auto simp: xlate_def split: if_splits)
  then show u: "unat (h + of_nat i) = unat h + i" using i drop_bit_same_page [of h i] by simp
  show "xlate s (a + of_nat i) = Some (h + of_nat i)"
  proof (cases "vm_on s")
    case False
    then show ?thesis using h by (simp add: xlate_def)
  next
    case True
    have "unat ((h AND NOT (mask 12)) OR ((a + of_nat i) AND mask 12)) = unat h + i"
      using i mod drop_bit_same_page(1) [OF i] mod_add_left_eq [of "unat a" 4096 i]
      by (simp add: unat_page_join)
    then have "(h AND 0xfffff000) OR ((a + of_nat i) AND 0xfff) = h + of_nat i"
      unfolding hi lo using u by (simp add: word_unat_eq_iff)
    with True h walk_same_page [OF drop_bit_same_page(2) [OF i]] show ?thesis
      by (simp add: xlate_def)
  qed
qed

text \<open>The bytes of a linear access, each fetched at its own translation.\<close>

definition vload :: "machine \<Rightarrow> u32 \<Rightarrow> nat \<Rightarrow> u32" where
  "vload s a n = le32 (\<lambda>i. if i < n then mem_view (mem s) (unat (the (xlate s (a + of_nat i)))) else 0)"

text \<open>
  An access of \<open>n\<close> bytes is mapped: the page (or both pages) translate, the page tables and the
  bytes are in memory proper.
\<close>

definition part_ok :: "nat set \<Rightarrow> machine \<Rightarrow> u32 \<Rightarrow> nat \<Rightarrow> bool" where
  "part_ok W s a n \<longleftrightarrow> tables_ok W s a \<and> (case xlate s a of Some h \<Rightarrow> phys_ok W s h n | None \<Rightarrow> False)"

definition mapped :: "nat set \<Rightarrow> machine \<Rightarrow> u32 \<Rightarrow> nat \<Rightarrow> bool" where
  "mapped W s a n \<longleftrightarrow>
     (if unat a mod 4096 + n \<le> 4096 then part_ok W s a n
      else part_ok W s a (4096 - unat a mod 4096) \<and>
        part_ok W s (a + of_nat (4096 - unat a mod 4096)) (n - (4096 - unat a mod 4096)))"

lemma part_ok_same: "vm_same W s t \<Longrightarrow> part_ok W t a n = part_ok W s a n"
  unfolding part_ok_def by (simp only: vm_same_parts)

lemma part_read:
  assumes "vm_inv W s" "part_ok W s a n" "unat a mod 4096 + n \<le> 4096"
  shows "\<exists>t. bindM (page_translate a) (\<lambda>h. hwaddr_read h n) s = Ret (vload s a n) t \<and> vm_same W s t"
proof -
  obtain h where h: "xlate s a = Some h" "phys_ok W s h n" and tb: "tables_ok W s a"
    using assms(2) by (auto simp: part_ok_def split: option.splits)
  from page_translate_run [OF assms(1) tb h(1)] obtain t where t: "page_translate a s = Ret h t" "vm_same W s t" by blast
  note p = vm_same_parts [OF t(2)]
  from hwaddr_read_run [OF p(4), of h n] h(2) p(10) obtain m
    where m: "hwaddr_read h n t = Ret (load (unat h) n (mem_view (mem t))) (t\<lparr>mem := m\<rparr>)" "same_mem W t m" by auto
  have "vm_same W t (t\<lparr>mem := m\<rparr>)"
    by (rule vm_sameI [where T = "tlb t"]) (use m(2) p(5) in \<open>auto simp: vm_inv_def tlb_inv_def\<close>)
  with t(2) have same: "vm_same W s (t\<lparr>mem := m\<rparr>)" by (rule vm_same_trans)
  have "load (unat h) n (mem_view (mem s)) = vload s a n"
    unfolding vload_def load_def
    by (rule le32_cong) (use xlate_offset [OF h(1)] assms(3) in auto)
  with t m same p(3) show ?thesis by (auto simp: bindM_def)
qed

lemma mask_0xfff [simp]: "unat (a AND 0xfff :: u32) = unat a mod 4096"
proof -
  have "(0xfff :: u32) = mask 12" by (simp add: mask_eq_exp_minus_1)
  then show ?thesis using unat_and_low [of 12 a] by simp
qed

lemma front_eq:
  assumes "unat (a :: u32) mod 4096 + n > 4096" "n \<le> 4"
  defines "f \<equiv> 4096 - unat a mod 4096"
  shows "0xfff - unat (a AND 0xfff) + 1 = f" "unat a mod 4096 + f = 4096" "1 \<le> f" "f < n" "unat a mod 4096 + n - 1 > 0xfff"
    and "unat (a + of_nat f) mod 4096 = 0"
proof -
  have m: "unat a mod 4096 < 4096" by simp
  with assms show f: "0xfff - unat (a AND 0xfff) + 1 = f" "unat a mod 4096 + f = 4096" "1 \<le> f" "f < n"
    "unat a mod 4096 + n - 1 > 0xfff" by (simp_all add: f_def)
  have "unat (a + of_nat f) = (unat a + f) mod 2 ^ 32"
    using f assms(2) by (simp add: unat_word_ariths unat_of_nat)
  then have "unat (a + of_nat f) mod 4096 = (unat a + f) mod 4096" by (simp add: mod_mod_cancel)
  also have "\<dots> = 0" using f(2) by (metis mod_add_left_eq mod_self)
  finally show "unat (a + of_nat f) mod 4096 = 0" .
qed

lemma vload_append:
  assumes "f \<le> n"
  shows "push_bit (f * 8) (vload s (a + of_nat f) (n - f)) OR vload s a f = vload s a n"
proof (rule u32_eq_bytesI)
  fix i :: nat assume i: "i < 4"
  show "byte_at i (push_bit (f * 8) (vload s (a + of_nat f) (n - f)) OR vload s a f) = byte_at i (vload s a n)"
  proof (cases "f \<le> i")
    case True
    then have "a + of_nat f + of_nat (i - f) = a + of_nat i" by (simp add: of_nat_diff)
    moreover have "i - f < n - f \<longleftrightarrow> i < n" using True assms by linarith
    ultimately show ?thesis using True i by (simp add: byte_at_or byte_at_shift vload_def)
  next
    case False
    then show ?thesis using i assms by (simp add: byte_at_or byte_at_shift vload_def)
  qed
qed

lemma lnaddr_read_cross:
  assumes "n = 1 \<or> n = 2 \<or> n = 4" "unat a mod 4096 + n - 1 > 0xfff" "0xfff - unat (a AND 0xfff) + 1 = f"
  shows "lnaddr_read a n s = bindM (bindM (page_translate a) (\<lambda>h. hwaddr_read h f)) (\<lambda>low.
    bindM (bindM (page_translate (a + of_nat f)) (\<lambda>h. hwaddr_read h (n - f))) (\<lambda>high.
    ret (push_bit (f * 8) high OR low))) s"
  unfolding lnaddr_read_def Let_def assms(3) bindM_assoc using assms(1,2)
  by (simp only: mask_0xfff if_True simp_thms seqM_Ret run_assertM_True)

lemma lnaddr_read_run:
  assumes inv: "vm_inv W s" and ok: "mapped W s a n" and n: "n = 1 \<or> n = 2 \<or> n = 4"
  shows "\<exists>t. lnaddr_read a n s = Ret (vload s a n) t \<and> vm_same W s t"
proof (cases "unat a mod 4096 + n \<le> 4096")
  case True
  then have "\<not> unat a mod 4096 + n - 1 > 0xfff" using n by linarith
  with part_read [OF inv _ True] ok True n show ?thesis
    by (simp add: mapped_def lnaddr_read_def)
next
  case False
  then have cross: "unat a mod 4096 + n > 4096" and n4: "n \<le> 4" using n by auto
  define f where "f = 4096 - unat a mod 4096"
  note fe = front_eq [OF cross n4, folded f_def]
  from ok False have ok': "part_ok W s a f" "part_ok W s (a + of_nat f) (n - f)" by (simp_all add: mapped_def f_def)
  from part_read [OF inv ok'(1) eq_imp_le [OF fe(2)]] obtain t where
    t: "bindM (page_translate a) (\<lambda>h. hwaddr_read h f) s = Ret (vload s a f) t" "vm_same W s t" by blast
  note p = vm_same_parts [OF t(2)]
  have small: "unat (a + of_nat f) mod 4096 + (n - f) \<le> 4096" using fe(6) n4 by simp
  have "part_ok W t (a + of_nat f) (n - f)" using ok'(2) part_ok_same [OF t(2)] by simp
  from part_read [OF p(5) this small] obtain u where
    u: "bindM (page_translate (a + of_nat f)) (\<lambda>h. hwaddr_read h (n - f)) t = Ret (vload t (a + of_nat f) (n - f)) u"
      "vm_same W t u" by blast
  have hi: "vload t (a + of_nat f) (n - f) = vload s (a + of_nat f) (n - f)"
    unfolding vload_def p(3,8) by (rule refl)
  from vload_append [OF less_imp_le [OF fe(4)]]
  have "push_bit (f * 8) (vload s (a + of_nat f) (n - f)) OR vload s a f = vload s a n" .
  note append = this
  have e1: "bindM (bindM (page_translate a) (\<lambda>h. hwaddr_read h f)) k s = k (vload s a f) t" for k :: "u32 \<Rightarrow> (machine, u32) M"
    by (rule bindM_Ret) (rule t(1))
  have e2: "bindM (bindM (page_translate (a + of_nat f)) (\<lambda>h. hwaddr_read h (n - f))) k t =
      k (vload t (a + of_nat f) (n - f)) u" for k :: "u32 \<Rightarrow> (machine, u32) M"
    by (rule bindM_Ret) (rule u(1))
  have "lnaddr_read a n s = Ret (vload s a n) u"
    unfolding lnaddr_read_cross [OF n fe(5) fe(1)] e1 e2 hi append by (rule refl)
  with vm_same_trans [OF t(2) u(2)] show ?thesis by blast
qed

section \<open>Flat mode\<close>

text \<open>
  With paging off and a segment based at 0 (or protection off) a segmented address is a physical
  one. This is how the entry code and the kernel's early code run.
\<close>

definition flat :: "nat \<Rightarrow> machine \<Rightarrow> bool" where
  "flat r s \<longleftrightarrow> r < 4 \<and> \<not> vm_on s \<and> (protect_enable (cpu s) \<longrightarrow> seg_base r (cpu s) = 0)"

definition flat_ok :: "nat set \<Rightarrow> machine \<Rightarrow> u32 \<Rightarrow> nat \<Rightarrow> bool" where
  "flat_ok W s a n \<longleftrightarrow> (n = 1 \<or> n = 2 \<or> n = 4) \<and> a \<noteq> 0 \<and> phys_ok W s a n \<and>
     (unat a mod 4096 + n > 4096 \<longrightarrow> is_mmio s (a + of_nat (4096 - unat a mod 4096)) = None)"

lemma page_translate_off: "\<not> vm_on s \<Longrightarrow> page_translate a s = Ret a s"
  by (simp add: page_translate_def vm_on_def)

lemma seg_translate_flat: "flat r s \<Longrightarrow> seg_translate a n r s = Ret a s"
  by (auto simp: flat_def seg_translate_def seqM_def bindM_def run_simps less_Suc_eq numeral_eq_Suc)

text \<open>The two parts of a page-crossing access.\<close>

lemma flat_parts:
  assumes ok: "flat_ok W s a n" and cross: "unat a mod 4096 + n > 4096"
  defines "f \<equiv> 4096 - unat a mod 4096"
  shows "phys_ok W s a f" "phys_ok W s (a + of_nat f) (n - f)" "unat (a + of_nat f) = unat a + f" "a + of_nat f \<noteq> 0"
proof -
  have n4: "n \<le> 4" using ok by (auto simp: flat_ok_def)
  note fe = front_eq [OF cross n4, folded f_def]
  have hw: "unat a + n \<le> HW_MEM_SIZE" and W: "unat a div 64 \<in> W" "(unat a + n - 1) div 64 \<in> W" and io: "is_mmio s a = None"
    using ok by (auto simp: flat_ok_def phys_ok_def cache_ok_def)
  show u: "unat (a + of_nat f) = unat a + f" using fe hw n4 by (simp add: unat_word_ariths unat_of_nat)
  then show "a + of_nat f \<noteq> 0" using fe(3) by auto
  obtain q r where a: "unat a = 4096 * q + r" "unat a mod 4096 = r" "r < 4096"
    using that [of "unat a div 4096" "unat a mod 4096"] by simp
  let ?C = "64 * q + 64"
  have fr: "r + f = 4096" "1 \<le> f" "f < n" using fe(2-4) a(2) by simp_all
  have "(unat a + f) div 64 = ?C" "(unat a + n - 1) div 64 = ?C"
    using a fr n4 by (auto intro!: div_nat_eqI)
  then have second: "(unat a + f) div 64 \<in> W" using W(2) by simp
  have "(unat a + f - 1) div 64 = 64 * q + 63" "unat a div 64 = 64 * q + 63"
    using a fr n4 by (auto intro!: div_nat_eqI)
  then have first: "(unat a + f - 1) div 64 \<in> W" using W(1) by simp
  show "phys_ok W s a f" using hw W first io fe n4 by (simp add: phys_ok_def cache_ok_def)
  have "is_mmio s (a + of_nat f) = None" using ok cross by (simp add: flat_ok_def f_def)
  moreover have "1 \<le> n - f" "n - f \<le> 4" "unat a + f + (n - f) = unat a + n" using fr n4 by linarith+
  ultimately show "phys_ok W s (a + of_nat f) (n - f)" using hw W second by (simp add: phys_ok_def cache_ok_def u)
qed

lemma off_read_run:
  assumes inv: "cache_inv W (mem s)" and fl: "\<not> vm_on s" and ok: "flat_ok W s a n"
  shows "\<exists>m. lnaddr_read a n s = Ret (load (unat a) n (mem_view (mem s))) (s\<lparr>mem := m\<rparr>) \<and> same_mem W s m"
proof -
  have off: "\<not> vm_on s" "\<And>m. \<not> vm_on (s\<lparr>mem := m\<rparr>)" using fl by (simp_all add: vm_on_def)
  have n: "n = 1 \<or> n = 2 \<or> n = 4" "n \<le> 4" using ok by (auto simp: flat_ok_def)
  show ?thesis
  proof (cases "unat a mod 4096 + n > 4096")
    case False
    then have "\<not> unat a mod 4096 + n - 1 > 0xfff" using n by linarith
    moreover have "phys_ok W s a n" using ok by (simp add: flat_ok_def)
    ultimately show ?thesis using hwaddr_read_run [OF inv, of a n] n(1)
      by (simp add: lnaddr_read_def page_translate_off [OF off(1)] run_simps)
  next
    case True
    define f where "f = 4096 - unat a mod 4096"
    note fe = front_eq [OF True n(2), folded f_def] and fp = flat_parts [OF ok True, folded f_def]
    from hwaddr_read_run [OF inv fp(1)] obtain m1 where
      m1: "hwaddr_read a f s = Ret (load (unat a) f (mem_view (mem s))) (s\<lparr>mem := m1\<rparr>)" "same_mem W s m1" by blast
    have c1: "cache_inv W (mem (s\<lparr>mem := m1\<rparr>))" "mem_view m1 = mem_view (mem s)" using m1(2) by (simp_all add: same_mem_def)
    from hwaddr_read_run [OF c1(1), of "a + of_nat f" "n - f"] fp(2) c1(2) obtain m2 where
      m2: "hwaddr_read (a + of_nat f) (n - f) (s\<lparr>mem := m1\<rparr>) =
         Ret (load (unat a + f) (n - f) (mem_view (mem s))) (s\<lparr>mem := m2\<rparr>)" "same_mem W (s\<lparr>mem := m1\<rparr>) m2"
      using fp(3) by auto
    have "push_bit (f * 8) (load (unat a + f) (n - f) (mem_view (mem s))) OR load (unat a) f (mem_view (mem s))
        = load (unat a) n (mem_view (mem s))"
    proof -
      have fn: "f \<le> n" using fe(4) by simp
      have "load (unat a) n (mem_view (mem s)) = le32 (\<lambda>i. if i < f then mem_view (mem s) (unat a + i)
          else if i < n then mem_view (mem s) (unat a + f + (i - f)) else 0)"
        unfolding load_def by (rule le32_cong) (use fn in \<open>auto simp: add.assoc\<close>)
      then show ?thesis by (simp only: load_append [OF fn n(2)])
    qed
    then have "lnaddr_read a n s = Ret (load (unat a) n (mem_view (mem s))) (s\<lparr>mem := m2\<rparr>)"
      using m1(1) m2(1) n(1) fe(1,5)
      by (simp add: lnaddr_read_def page_translate_off [OF off(1)] page_translate_off [OF off(2)]
          Let_def seqM_def bindM_def run_simps)
    moreover have "same_mem W s m2" using m2(2) c1(2) by (simp add: same_mem_def)
    ultimately show ?thesis by blast
  qed
qed

lemma off_write_run:
  assumes inv: "cache_inv W (mem s)" and fl: "\<not> vm_on s" and ok: "flat_ok W s a n"
  shows "\<exists>m. lnaddr_write a n v s = Ret () (s\<lparr>mem := m\<rparr>) \<and> cache_inv W m \<and>
    mem_view m = store (unat a) n v (mem_view (mem s))"
proof -
  have off: "\<not> vm_on s" "\<And>m. \<not> vm_on (s\<lparr>mem := m\<rparr>)" using fl by (simp_all add: vm_on_def)
  have n: "n = 1 \<or> n = 2 \<or> n = 4" "n \<le> 4" "0 < n" and a: "a \<noteq> 0" using ok by (auto simp: flat_ok_def)
  show ?thesis
  proof (cases "unat a mod 4096 + n > 4096")
    case False
    then have "\<not> unat a mod 4096 + n - 1 > 0xfff" using n by linarith
    moreover have "phys_ok W s a n" using ok by (simp add: flat_ok_def)
    ultimately show ?thesis using hwaddr_write_run [OF inv, of a n v] n a
      by (simp add: lnaddr_write_def page_translate_off [OF off(1)] run_simps)
  next
    case True
    define f where "f = 4096 - unat a mod 4096"
    note fe = front_eq [OF True n(2), folded f_def] and fp = flat_parts [OF ok True, folded f_def]
    let ?lo = "v AND (push_bit (f * 8) 1 - 1)" and ?hi = "drop_bit (8 * f) v"
    from hwaddr_write_run [OF inv fp(1) a, of ?lo] obtain m1 where
      m1: "hwaddr_write a f ?lo s = Ret () (s\<lparr>mem := m1\<rparr>)" "cache_inv W m1"
        "mem_view m1 = store (unat a) f ?lo (mem_view (mem s))" by blast
    have c1: "cache_inv W (mem (s\<lparr>mem := m1\<rparr>))" "phys_ok W (s\<lparr>mem := m1\<rparr>) (a + of_nat f) (n - f)"
      using m1(2) fp(2) by simp_all
    from hwaddr_write_run [OF c1 fp(4), of ?hi] fp(3) m1(3) obtain m2 where
      m2: "hwaddr_write (a + of_nat f) (n - f) ?hi (s\<lparr>mem := m1\<rparr>) = Ret () (s\<lparr>mem := m2\<rparr>)" "cache_inv W m2"
        "mem_view m2 = store (unat a + f) (n - f) ?hi (store (unat a) f ?lo (mem_view (mem s)))" by auto
    have "f \<le> n" using fe(4) by simp
    from m2(3) have v2: "mem_view m2 = store (unat a) n v (mem_view (mem s))" unfolding store_split [OF \<open>f \<le> n\<close>] .
    have "lnaddr_write a n v s = Ret () (s\<lparr>mem := m2\<rparr>)"
      using m1(1) m2(1) n fe(1,5)
      by (simp add: lnaddr_write_def page_translate_off [OF off(1)] page_translate_off [OF off(2)]
          Let_def seqM_def bindM_def run_simps)
    with m2(2) v2 show ?thesis by blast
  qed
qed

lemma flat_read_run:
  assumes "cache_inv W (mem s)" "flat r s" "flat_ok W s a n"
  shows "\<exists>m. swaddr_read a n r s = Ret (load (unat a) n (mem_view (mem s))) (s\<lparr>mem := m\<rparr>) \<and> same_mem W s m"
  using off_read_run [of W s a n] seg_translate_flat [of r s a n] assms
  by (auto simp: swaddr_read_def flat_def flat_ok_def run_simps)

lemma flat_write_run:
  assumes "cache_inv W (mem s)" "flat r s" "flat_ok W s a n"
  shows "\<exists>m. swaddr_write a n v r s = Ret () (s\<lparr>mem := m\<rparr>) \<and> cache_inv W m \<and>
    mem_view m = store (unat a) n v (mem_view (mem s))"
  using off_write_run [of W s a n v] seg_translate_flat [of r s a n] assms
  by (auto simp: swaddr_write_def flat_def flat_ok_def run_simps)

lemma flat_upd [simp]:
  "flat r (s\<lparr>mem := m\<rparr>) = flat r s" "flat_ok W (s\<lparr>mem := m\<rparr>) a n = flat_ok W s a n"
  "flat r (s\<lparr>ops_decoded := d\<rparr>) = flat r s" "flat_ok W (s\<lparr>ops_decoded := d\<rparr>) a n = flat_ok W s a n"
  "flat_ok W (s\<lparr>cpu := c\<rparr>) a n = flat_ok W s a n"
  using is_mmio_cong [of "s\<lparr>mem := m\<rparr>" s] is_mmio_cong [of "s\<lparr>ops_decoded := d\<rparr>" s] is_mmio_cong [of "s\<lparr>cpu := c\<rparr>" s]
  by (simp_all add: flat_def vm_on_def flat_ok_def)

interpretation flat: byte_store "\<lambda>a n. swaddr_read a n r" "\<lambda>a n v. swaddr_write a n v r" "\<lambda>s. mem_view (mem s)"
  "\<lambda>s. cache_inv W (mem s) \<and> flat r s" "flat_ok W" for r W
proof
  fix s a n assume inv: "cache_inv W (mem s) \<and> flat r s" and ok: "flat_ok W s a n"
  have "n \<le> 4" using ok by (auto simp: flat_ok_def)
  with flat_read_run [of W s r a n] inv ok
  show "wp (\<lambda>s. swaddr_read a n r s) (\<lambda>v t. (cache_inv W (mem t) \<and> flat r t) \<and> mem_view (mem t) = mem_view (mem s) \<and>
      (\<forall>b m. flat_ok W s b m \<longrightarrow> flat_ok W t b m) \<and>
      (\<forall>i<n. byte_at i v = mem_view (mem s) (unat a + i))) s"
    by (auto simp: wp_def same_mem_def byte_at_load)
next
  fix s a n v assume inv: "cache_inv W (mem s) \<and> flat r s" and ok: "flat_ok W s a n"
  with flat_write_run [of W s r a n v]
  show "wp (swaddr_write a n v r) (\<lambda>_ t. (cache_inv W (mem t) \<and> flat r t) \<and>
      mem_view (mem t) = store (unat a) n v (mem_view (mem s)) \<and> (\<forall>b m. flat_ok W s b m \<longrightarrow> flat_ok W t b m)) s"
    by (auto simp: wp_def)
qed

section \<open>Properties\<close>

lemma init_TLB_run: "wp init_TLB (\<lambda>_ t. (\<forall>i<64. \<not> tlb_valid (tlb t i)) \<and> (\<exists>T. t = s\<lparr>tlb := T\<rparr>)) s"
  unfolding init_TLB_def
proof (rule wp_for_upt [where I = "\<lambda>k t. (\<forall>i<k. \<not> tlb_valid (tlb t i)) \<and> (\<exists>T. t = s\<lparr>tlb := T\<rparr>)"])
  show "(\<forall>i<0. \<not> tlb_valid (tlb s i)) \<and> (\<exists>T. s = s\<lparr>tlb := T\<rparr>)" by (auto intro: exI [of _ "tlb s"])
qed (auto simp: wp_simps less_Suc_eq)

text \<open>A machine after reset, with the memory of \<open>cold_mem\<close> and no devices attached.\<close>

definition cold_machine :: machine where
  "cold_machine = \<lparr>cpu = reset_cpu, mem = cold_mem, tlb = (\<lambda>_. \<lparr>tlb_valid = False, tlb_addr = 0, tlb_result = 0\<rparr>),
     mmio = \<lparr>mmio_space_pool = (\<lambda>_. 0), mmio_space_free_index = 0, mmio_maps = []\<rparr>,
     pio = \<lparr>pio_space = (\<lambda>_. 0), pio_maps = []\<rparr>,
     pic = \<lparr>master = \<lparr>IRR = 0, ISR = 0, IMR = 0, highest_irq = 0\<rparr>,
       slave = \<lparr>IRR = 0, ISR = 0, IMR = 0, highest_irq = 0\<rparr>, intr_NO = 0\<rparr>,
     ide = \<lparr>ide_sector = 0, disk_idx = 0, byte_cnt = 0, ide_write = False, disk = [], disk_pos = 0\<rparr>,
     vga = \<lparr>vga_crtc_regs = (\<lambda>_. 0), vmem_base = 0, line_dirty = (\<lambda>_. False), vmem_dirty = False, palette = (\<lambda>_. 0),
       color_ptr = None, pal_phase = 0, palette_shown = (\<lambda>_. 0), pixel_buf = (\<lambda>_ _. 0)\<rparr>,
     newkey = False, serial_out = [],
     sdl = \<lparr>jiffy = 0, device_update_flag = False, update_screen_flag = False\<rparr>,
     nemu_state = STOP,
     ops_decoded = (let z = \<lparr>op_ty = OP_TYPE_REG, op_size = 0, opu = 0, op_sreg = 0, op_val = 0\<rparr> in
       \<lparr>opcode = 0, is_operand_size_16 = False, op_src = z, op_dest = z, op_src2 = z\<rparr>)\<rparr>"

lemma cold_no_mmio [simp]: "is_mmio (cold_machine\<lparr>mem := m, cpu := c\<rparr>) a = None" "is_mmio cold_machine a = None"
  by (simp_all add: is_mmio_def cold_machine_def find_way_None)

text \<open>The same machine with paging on and every page table entry equal to \<open>0x01010101\<close>.\<close>

definition paged_machine :: machine where
  "paged_machine = cold_machine\<lparr>mem := cold_mem\<lparr>dram := cold_dram\<lparr>hw_mem := (\<lambda>_. 1)\<rparr>\<rparr>,
     cpu := reset_cpu\<lparr>cr0 := 0x80000001, cr3 := 0x1000\<rparr>\<rparr>"

lemma working_set_small:
  assumes "finite W" "card W \<le> 16"
  shows "working_set W"
proof -
  have "finite {B \<in> W. B mod 4096 = g} \<and> card {B \<in> W. B mod 4096 = g} \<le> 16" for g
    using assms card_mono [OF assms(1), of "{B \<in> W. B mod 4096 = g}"] by auto
  then show ?thesis by (simp add: working_set_def)
qed

lemma paged_machine_facts:
  "vm_inv {64, 263168} paged_machine" "vm_on paged_machine" "mem_view (mem paged_machine) = (\<lambda>_. 1)"
proof -
  have "rb_coherent (cold_dram\<lparr>hw_mem := (\<lambda>_. 1)\<rparr>)" by (simp add: rb_coherent_def cold_dram_def)
  then have i: "cache_inv {64, 263168} (mem paged_machine) \<and> mem_view (mem paged_machine) = (\<lambda>_. 1)"
    using all_invalid_inv [of "mem paged_machine" "{64, 263168}"] working_set_small [of "{64, 263168}"]
    by (simp add: paged_machine_def all_invalid_def cold_mem_def)
  show "vm_on paged_machine" by (simp add: vm_on_def paged_machine_def paging_def protect_enable_def bit_simps)
  show "vm_inv {64, 263168} paged_machine" "mem_view (mem paged_machine) = (\<lambda>_. 1)"
    using i by (simp_all add: vm_inv_def tlb_inv_def paged_machine_def cold_machine_def)
qed

lemma page_translate_fault:
  assumes inv: "vm_inv W s" and tables: "tables_ok W s a" and fault: "xlate s a = None"
  shows "page_translate a s = Err AssertFail"
proof -
  have on: "vm_on s" using fault by (auto simp: xlate_def split: if_splits)
  have w: "walk_path a s = Err AssertFail" using walk_path_run [OF inv on tables] fault by simp
  have "find_way 64 (\<lambda>i. tlb_valid (tlb s i) \<and> tlb_tag (tlb s i) = drop_bit 12 a) = None"
  proof (rule ccontr)
    assume "find_way 64 (\<lambda>i. tlb_valid (tlb s i) \<and> tlb_tag (tlb s i) = drop_bit 12 a) \<noteq> None"
    then obtain i where "find_way 64 (\<lambda>i. tlb_valid (tlb s i) \<and> tlb_tag (tlb s i) = drop_bit 12 a) = Some i" by blast
    from tlb_hit [OF _ this] inv on fault show False by (simp add: vm_inv_def xlate_def)
  qed
  with w on show ?thesis by (simp add: page_translate_unfold)
qed

text \<open>
  C3. Translation is the page walk: while every TLB entry agrees with the page tables,
  \<open>page_translate\<close> returns exactly the address the two-level walk over the visible memory gives
  (the address itself when paging is off), whether the TLB hits, misses or has to replace an
  entry; it changes nothing visible and leaves a TLB that still agrees. When an entry on the
  path is not present the emulator stops at an assertion.
\<close>

theorem page_translate_is_walk:
  assumes "vm_inv W s" "tables_ok W s a"
  shows "case xlate s a of
      Some h \<Rightarrow> wp (page_translate a) (\<lambda>x t. x = h \<and> vm_same W s t) s
    | None \<Rightarrow> page_translate a s = Err AssertFail"
  using page_translate_run [OF assms] page_translate_fault [OF assms]
  by (auto simp: wp_def split: option.split)

lemma ones_load [simp]: "load a 4 (\<lambda>_. 1) = 0x01010101"
proof (rule u32_eq_bytesI)
  fix i :: nat assume "i < 4"
  then have "byte_at i (0x01010101 :: u32) = 1" by (auto dest!: nat_lt_4 simp: byte_at_def)
  with \<open>i < 4\<close> show "byte_at i (load a 4 (\<lambda>_. 1)) = byte_at i 0x01010101" by (simp add: byte_at_load)
qed

lemma paged_machine_walk: "tables_ok {64, 263168} paged_machine 0" "xlate paged_machine 0 = Some 0x01010000"
proof -
  have base: "page_directory_base (cpu paged_machine) = 1"
    by (rule word_unat_eq_iff [THEN iffD2]) (simp add: page_directory_base_def paged_machine_def unat_bits)
  have frame: "pte_page_frame 0x01010101 = 0x01010"
    by (rule word_unat_eq_iff [THEN iffD2]) (simp add: pte_page_frame_def unat_bits)
  have mm: "is_mmio paged_machine a = None" for a
    by (simp add: is_mmio_def paged_machine_def cold_machine_def find_way_None)
  have addr: "pde_addr 1 0 = 0x1000" "pte_addr 0x01010101 0 = 0x1010000"
    by (simp_all add: pde_addr_def pte_addr_def frame)
  show "tables_ok {64, 263168} paged_machine 0"
    by (simp add: tables_ok_def base addr paged_machine_facts Let_def phys_ok_def mm cache_ok_def)
  have "pte_present 0x01010101" by (simp add: pte_present_def)
  then show "xlate paged_machine 0 = Some 0x01010000"
    by (simp add: xlate_def walk_def paged_machine_facts base addr frame Let_def)
qed

theorem page_translate_is_walk_witness:
  "wp (page_translate 0) (\<lambda>x t. x = 0x01010000 \<and> vm_same {64, 263168} paged_machine t) paged_machine"
  using page_translate_is_walk [OF paged_machine_facts(1) paged_machine_walk(1)] paged_machine_walk(2) by simp

text \<open>
  \<open>init_TLB\<close>, called at reset and when CR3 is loaded, leaves a TLB that agrees with any page
  tables, whatever it held before, and changes nothing else.
\<close>

lemma init_TLB_flushes:
  "wp init_TLB (\<lambda>_ t. tlb_inv t \<and> (\<exists>T. t = s\<lparr>tlb := T\<rparr>) \<and> (cache_inv W (mem s) \<longrightarrow> vm_inv W t)) s"
  by (rule wp_mono [OF init_TLB_run]) (auto simp: tlb_inv_def vm_inv_def)


text \<open>
  C8. A linear read of 1, 2 or 4 bytes returns, byte by byte, the memory at the translation of
  each address, also when it crosses into a page that is mapped elsewhere: the two physical
  reads are combined in the right order and the unused upper bytes are zero.
\<close>

theorem linear_read_bytes:
  assumes "vm_inv W s" "mapped W s a n" "n = 1 \<or> n = 2 \<or> n = 4"
  shows "wp (lnaddr_read a n) (\<lambda>v t. vm_same W s t \<and>
    (\<forall>i<4. byte_at i v = (if i < n then mem_view (mem s) (unat (the (xlate s (a + of_nat i)))) else 0))) s"
  using lnaddr_read_run [OF assms] by (auto simp: wp_def vload_def)

theorem linear_read_bytes_witness:
  "wp (lnaddr_read 0 4) (\<lambda>v t. vm_same {64, 263168} paged_machine t \<and>
    (\<forall>i<4. byte_at i v = (if i < 4 then mem_view (mem paged_machine) (unat (the (xlate paged_machine (0 + of_nat i)))) else 0)))
    paged_machine"
proof (rule linear_read_bytes)
  have "is_mmio paged_machine a = None" for a
    by (simp add: is_mmio_def paged_machine_def cold_machine_def find_way_None)
  then show "mapped {64, 263168} paged_machine 0 4"
    by (simp add: mapped_def part_ok_def paged_machine_walk phys_ok_def cache_ok_def)
qed (use paged_machine_facts in simp_all)

text \<open>
  The start of a segment as the i386 manual has it: the three fields of the descriptor put together as digits, with
  protection on, and 0 without.
\<close>

definition segment_start :: "nat \<Rightarrow> CPU_state \<Rightarrow> nat" where
  "segment_start r c = (if protect_enable c
     then unat (base_15_0 (sreg_cache (sreg c r))) + 2 ^ 16 * unat (base_23_16 (sreg_cache (sreg c r))) +
       2 ^ 24 * unat (base_31_24 (sreg_cache (sreg c r)))
     else 0)"

lemma seg_base_digits:
  "seg_base r c = of_nat (unat (base_15_0 (sreg_cache (sreg c r))) + 2 ^ 16 * unat (base_23_16 (sreg_cache (sreg c r))) +
     2 ^ 24 * unat (base_31_24 (sreg_cache (sreg c r))))"
proof -
  let ?d = "sreg_cache (sreg c r)"
  let ?x = "ucast (base_15_0 ?d) :: u32" and ?y = "push_bit 16 (ucast (base_23_16 ?d)) :: u32" and
    ?z = "push_bit 24 (ucast (base_31_24 ?d)) :: u32"
  have y: "\<not> bit (base_23_16 ?d) k" if "8 \<le> k" for k using that bit_imp_le_length by (fastforce simp: not_less)
  have "?x + ?y = ?x OR ?y"
    by (rule disjunctive_add) (auto simp: bit_simps dest: bit_imp_le_length)
  moreover have "(?x OR ?y) + ?z = (?x OR ?y) OR ?z"
    by (rule disjunctive_add) (auto simp: bit_simps dest: bit_imp_le_length intro: y)
  ultimately have "seg_base r c = ?x + ?y + ?z" by (simp only: seg_base_def Let_def or.assoc)
  also have "\<dots> = of_nat (unat (base_15_0 ?d)) + 2 ^ 16 * of_nat (unat (base_23_16 ?d)) + 2 ^ 24 * of_nat (unat (base_31_24 ?d))"
    by (simp add: push_bit_eq_mult mult.commute)
  finally show ?thesis by simp
qed

lemma seg_translate_start: "r < 4 \<Longrightarrow> seg_translate a n r s = Ret (a + of_nat (segment_start r (cpu s))) s"
proof -
  assume "r < 4"
  then have "r = 0 \<or> r = 1 \<or> r = 2 \<or> r = 3" by (simp add: less_Suc_eq numeral_eq_Suc)
  then show ?thesis
    by (simp only: seg_translate_def segment_start_def seg_base_digits [symmetric] run_simps seqM_Ret simp_thms if_cancel
        split: if_split) (simp add: run_simps)
qed

text \<open>Physical address 0 is readable; \<open>hwaddr_write\<close> drops what is written there.\<close>

lemma off_zero_run:
  assumes "cache_inv W (mem s)" "\<not> vm_on s" "n = 1 \<or> n = 2 \<or> n = 4" "phys_ok W s 0 n"
  shows "\<exists>m. lnaddr_read 0 n s = Ret (load 0 n (mem_view (mem s))) (s\<lparr>mem := m\<rparr>) \<and> same_mem W s m"
    and "lnaddr_write 0 n v s = Ret () s"
proof -
  have small: "\<not> unat ((0 :: u32) AND 0xfff) + n - 1 > 0xfff" "unat ((0 :: u32) AND 0xfff) + n \<noteq> 0" using assms(3) by auto
  have "lnaddr_read 0 n s = hwaddr_read 0 n s"
    using assms(3) small by (simp add: lnaddr_read_def page_translate_off [OF assms(2)] run_simps)
  then show "\<exists>m. lnaddr_read 0 n s = Ret (load 0 n (mem_view (mem s))) (s\<lparr>mem := m\<rparr>) \<and> same_mem W s m"
    using hwaddr_read_run [OF assms(1,4)] by simp
  show "lnaddr_write 0 n v s = Ret () s"
    using small by (simp add: lnaddr_write_def page_translate_off [OF assms(2)] hwaddr_write_def run_simps)
qed

text \<open>
  C7. With paging off, \<open>swaddr_read\<close> and \<open>swaddr_write\<close> through any segment register reach the
  bytes at the address plus the start of the segment, modulo \<open>2 ^ 32\<close>: with protection on whatever start the
  descriptor has, without protection 0. Nothing but the memory hierarchy changes, across page and cache-block boundaries.
  Linear address 0 is read, but a write to it is dropped. The accessed bytes are memory (inside the working set of
  the caches), not device registers, which are the subject of \<open>Mmio\<close> and \<open>Device_Props\<close>.
\<close>

theorem segmented_access:
  assumes "cache_inv W (mem s)" "\<not> vm_on s" "r < 4" "l = a + of_nat (segment_start r (cpu s))"
    and "flat_ok W s l n \<or> l = 0 \<and> (n = 1 \<or> n = 2 \<or> n = 4) \<and> phys_ok W s 0 n"
  shows "wp (swaddr_read a n r) (\<lambda>x t. x = load (unat l) n (mem_view (mem s)) \<and>
           (\<exists>m. t = s\<lparr>mem := m\<rparr>) \<and> cache_inv W (mem t) \<and> mem_view (mem t) = mem_view (mem s)) s \<and>
         wp (swaddr_write a n v r) (\<lambda>_ t. (\<exists>m. t = s\<lparr>mem := m\<rparr>) \<and> cache_inv W (mem t) \<and>
           mem_view (mem t) = (if l = 0 then mem_view (mem s) else store (unat l) n v (mem_view (mem s)))) s"
proof -
  have n: "n = 1 \<or> n = 2 \<or> n = 4" using assms(5) by (auto simp: flat_ok_def)
  have same: "s\<lparr>mem := mem s\<rparr> = s" by simp
  have w: "l \<noteq> 0" if "flat_ok W s l n" using that by (simp add: flat_ok_def)
  have rd: "swaddr_read a n r s = lnaddr_read l n s" and wr: "swaddr_write a n v r s = lnaddr_write l n v s"
    using n assms(4) seg_translate_start [OF assms(3), of a n s]
    by (auto simp: swaddr_read_def swaddr_write_def run_simps)
  from assms(5) show ?thesis
  proof
    assume ok: "flat_ok W s l n"
    from off_read_run [OF assms(1,2) ok] off_write_run [OF assms(1,2) ok, of v] w [OF ok]
    show ?thesis by (auto simp: wp_def rd wr same_mem_def)
  next
    assume "l = 0 \<and> (n = 1 \<or> n = 2 \<or> n = 4) \<and> phys_ok W s 0 n"
    then have z: "l = 0" "phys_ok W s 0 n" by simp_all
    from off_zero_run [OF assms(1,2) n z(2)] z(1) assms(1) same
    show ?thesis by (auto simp: wp_def rd wr same_mem_def intro: exI [of _ "mem s"])
  qed
qed

definition based_cpu :: CPU_state where
  "based_cpu = reset_cpu\<lparr>cr0 := 1, sreg := (\<lambda>_. \<lparr>selector = 8, sreg_cache = \<lparr>limit_15_0 = 0xffff, base_15_0 = 0x0ff0,
    base_23_16 = 0x10, limit_19_16 = 0xf, base_31_24 = 0\<rparr>\<rparr>)\<rparr>"

theorem segmented_access_witness:
  "segment_start 3 based_cpu = 0x100ff0 \<and>
    wp (swaddr_write 0xe 4 0xCAFEBABE 3) (\<lambda>_ t. (\<exists>m. t = cold_machine\<lparr>cpu := based_cpu, mem := m\<rparr>) \<and>
      mem_view (mem t) = store 0x100ffe 4 0xCAFEBABE (mem_view (mem cold_machine))) (cold_machine\<lparr>cpu := based_cpu\<rparr>)"
proof -
  let ?s = "cold_machine\<lparr>cpu := based_cpu\<rparr>"
  have start: "segment_start 3 based_cpu = 0x100ff0" by (simp add: segment_start_def based_cpu_def protect_enable_def)
  have "\<not> vm_on ?s" by (simp add: vm_on_def based_cpu_def paging_def)
  moreover have "cache_inv {0..<0 + 65536} (mem ?s)" using cold_mem_inv [of 0] by (simp add: cold_machine_def)
  moreover have "flat_ok {0..<0 + 65536} ?s 0x100ffe 4"
    using is_mmio_cong [of ?s cold_machine] by (simp add: flat_ok_def phys_ok_def cache_ok_def)
  ultimately have "wp (swaddr_write 0xe 4 0xCAFEBABE 3) (\<lambda>_ t. (\<exists>m. t = ?s\<lparr>mem := m\<rparr>) \<and> cache_inv {0..<0 + 65536} (mem t) \<and>
      mem_view (mem t) = store 0x100ffe 4 0xCAFEBABE (mem_view (mem cold_machine))) ?s"
    using segmented_access [of "{0..<0 + 65536}" ?s 3 "0x100ffe" "0xe" 4 "0xCAFEBABE"] start by simp
  then show ?thesis using start by (auto elim!: wp_mono)
qed

end
