(* ===== verification/Pic.thy ===== *)
theory Pic
  imports Machine
begin

unbundle bit_operations_syntax

text \<open>
  The pair of interrupt controllers of nemu/src/device/i8259.c. Interrupt requests are kept
  in the \<open>IRR\<close> registers; \<open>highest_irq\<close> caches the lowest-numbered unmasked request and
  \<open>intr_NO\<close> the vector the processor will be given.
\<close>

section \<open>Operations\<close>

definition ffo_table :: "int list" where
  "ffo_table = [
     -1, 0, 1, 0, 2, 0, 1, 0, 3, 0, 1, 0, 2, 0, 1, 0,
     4, 0, 1, 0, 2, 0, 1, 0, 3, 0, 1, 0, 2, 0, 1, 0,
     5, 0, 1, 0, 2, 0, 1, 0, 3, 0, 1, 0, 2, 0, 1, 0,
     4, 0, 1, 0, 2, 0, 1, 0, 3, 0, 1, 0, 2, 0, 1, 0,
     6, 0, 1, 0, 2, 0, 1, 0, 3, 0, 1, 0, 2, 0, 1, 0,
     4, 0, 1, 0, 2, 0, 1, 0, 3, 0, 1, 0, 2, 0, 1, 0,
     5, 0, 1, 0, 2, 0, 1, 0, 3, 0, 1, 0, 2, 0, 1, 0,
     4, 0, 1, 0, 2, 0, 1, 0, 3, 0, 1, 0, 2, 0, 1, 0,
     7, 0, 1, 0, 2, 0, 1, 0, 3, 0, 1, 0, 2, 0, 1, 0,
     4, 0, 1, 0, 2, 0, 1, 0, 3, 0, 1, 0, 2, 0, 1, 0,
     5, 0, 1, 0, 2, 0, 1, 0, 3, 0, 1, 0, 2, 0, 1, 0,
     4, 0, 1, 0, 2, 0, 1, 0, 3, 0, 1, 0, 2, 0, 1, 0,
     6, 0, 1, 0, 2, 0, 1, 0, 3, 0, 1, 0, 2, 0, 1, 0,
     4, 0, 1, 0, 2, 0, 1, 0, 3, 0, 1, 0, 2, 0, 1, 0,
     5, 0, 1, 0, 2, 0, 1, 0, 3, 0, 1, 0, 2, 0, 1, 0,
     4, 0, 1, 0, 2, 0, 1, 0, 3, 0, 1, 0, 2, 0, 1, 0]"

text \<open>\<open>ffo_table[x & ~y]\<close>; the subscript is a byte, so it is always inside the table.\<close>

definition ffo :: "u8 \<Rightarrow> u8 \<Rightarrow> int" where
  "ffo x y = ffo_table ! unat (x AND NOT y)"

definition MASK :: "nat \<Rightarrow> u8" where
  "MASK n = push_bit n 1"

definition do_i8259 :: "(machine, unit) M" where
  "do_i8259 =
     bindM (getM (\<lambda>s. highest_irq (master (pic s)))) (\<lambda>master_irq.
     if master_irq = -1 then on_cpu (\<lambda>c. c\<lparr>INTR := False\<rparr>)
     else bindM (if master_irq = 2
                 then bindM (getM (\<lambda>s. highest_irq (slave (pic s)))) (\<lambda>h.
                        seqM (assertM (h \<noteq> -1)) (ret (8 + h)))
                 else ret master_irq) (\<lambda>master_irq.
          seqM (modM (\<lambda>s. s\<lparr>pic := (pic s)\<lparr>intr_NO := word_of_int (master_irq + 32)\<rparr>\<rparr>))
               (on_cpu (\<lambda>c. c\<lparr>INTR := True\<rparr>))))"

definition on_master :: "(i8259 \<Rightarrow> i8259) \<Rightarrow> (machine, unit) M" where
  "on_master f = modM (\<lambda>s. s\<lparr>pic := (pic s)\<lparr>master := f (master (pic s))\<rparr>\<rparr>)"

definition on_slave :: "(i8259 \<Rightarrow> i8259) \<Rightarrow> (machine, unit) M" where
  "on_slave f = modM (\<lambda>s. s\<lparr>pic := (pic s)\<lparr>slave := f (slave (pic s))\<rparr>\<rparr>)"

definition i8259_raise_intr :: "int \<Rightarrow> (machine, unit) M" where
  "i8259_raise_intr n =
     seqM (assertM (0 \<le> n \<and> n < 16))
     (seqM (if n < 8 then on_master (\<lambda>p. p\<lparr>IRR := IRR p OR MASK (nat n)\<rparr>)
            else let n = n - 8 in
              seqM (on_slave (\<lambda>p. p\<lparr>IRR := IRR p OR MASK (nat n)\<rparr>))
             (seqM (on_master (\<lambda>p. p\<lparr>IRR := IRR p OR MASK 2\<rparr>))
                   (on_slave (\<lambda>p. p\<lparr>highest_irq := ffo (IRR p) (IMR p)\<rparr>))))
     (seqM (on_master (\<lambda>p. p\<lparr>highest_irq := ffo (IRR p) (IMR p)\<rparr>))
           do_i8259))"

definition i8259_query_intr :: "(machine, u8) M" where
  "i8259_query_intr = getM (\<lambda>s. intr_NO (pic s))"

text \<open>
  The comparison \<open>intr_NO == NO_INTR\<close> is between a promoted \<open>uint8_t\<close> and \<open>-1\<close>. A shift by a
  negative or too large amount has no defined result in C.
\<close>

definition i8259_ack_intr :: "(machine, unit) M" where
  "i8259_ack_intr =
     bindM (getM (\<lambda>s. uint (intr_NO (pic s)))) (\<lambda>no.
     if no = -1 then ret ()
     else let n = no - 32 in
       seqM (if n < 0 \<or> 31 \<le> n - 8 then fail OutOfBounds
             else if n < 8 then on_master (\<lambda>p. p\<lparr>IRR := IRR p AND NOT (MASK (nat n))\<rparr>)
             else let n = n - 8 in
               seqM (on_slave (\<lambda>p. p\<lparr>IRR := IRR p AND NOT (MASK (nat n))\<rparr>))
              (seqM (on_master (\<lambda>p. p\<lparr>IRR := IRR p AND NOT (MASK 2)\<rparr>))
                    (on_slave (\<lambda>p. p\<lparr>highest_irq := ffo (IRR p) (IMR p)\<rparr>))))
      (seqM (on_master (\<lambda>p. p\<lparr>highest_irq := ffo (IRR p) (IMR p)\<rparr>))
            do_i8259))"

section \<open>The table\<close>

text \<open>The table holds the position of the lowest set bit, found by shifting right.\<close>

fun lowest :: "nat \<Rightarrow> int \<Rightarrow> int" where
  "lowest 0 n = -1"
| "lowest (Suc w) n = (if odd n then 0 else let r = lowest w (n div 2) in if r = -1 then -1 else r + 1)"

lemma ffo_table_lowest: "ffo_table = map (lowest 8) [0..255]"
  by code_simp

lemma lowest_spec:
  "lowest w n = -1 \<and> (\<forall>i<w. \<not> bit n i) \<or> (\<exists>k<w. lowest w n = int k \<and> bit n k \<and> (\<forall>j<k. \<not> bit n j))"
proof (induction w arbitrary: n)
  case (Suc w)
  have shift: "bit n (Suc i) = bit (n div 2) i" for i by (simp add: bit_Suc)
  show ?case
  proof (cases "odd n")
    case True
    then show ?thesis by (simp add: bit_0)
  next
    case False
    from Suc [of "n div 2"] show ?thesis
    proof (elim disjE exE conjE)
      fix k assume k: "k < w" "lowest w (n div 2) = int k" "bit (n div 2) k" "\<forall>j<k. \<not> bit (n div 2) j"
      with False show ?thesis
        by (intro disjI2 exI [of _ "Suc k"]) (auto simp: shift bit_0 less_Suc_eq_0_disj)
    qed (use False in \<open>auto simp: shift bit_0 less_Suc_eq_0_disj\<close>)
  qed
qed simp

lemma ffo_entry:
  assumes "n < 256" "n \<noteq> 0"
  shows "\<exists>k<8. ffo_table ! n = int k \<and> bit n k \<and> (\<forall>j<k. \<not> bit n j)"
proof -
  have bits: "bit (int n) i = bit n i" for i by (simp add: bit_of_nat_iff_bit)
  have "\<not> (\<forall>i<8. \<not> bit n i)"
  proof
    assume "\<forall>i<8. \<not> bit n i"
    then have "take_bit 8 n = 0" by (intro bit_eqI) (auto simp: bit_simps)
    then show False using assms by (simp add: take_bit_eq_mod)
  qed
  moreover have "ffo_table ! n = lowest 8 (int n)" using assms(1) by (simp add: ffo_table_lowest)
  ultimately show ?thesis using lowest_spec [of 8 "int n"] by (simp add: bits) blast
qed

text \<open>\<open>ffo\<close> finds the lowest unmasked request.\<close>

lemma ffo_some:
  assumes "x AND NOT y \<noteq> 0"
  obtains k where "ffo x y = int k" "k < 8" "bit (x AND NOT y) k" "\<forall>j<k. \<not> bit (x AND NOT y) j"
proof -
  have "unat (x AND NOT y) < 256" using unsigned_less [of "x AND NOT y"] by simp
  moreover have "unat (x AND NOT y) \<noteq> 0" using assms by (simp add: unat_eq_0)
  ultimately show ?thesis using that by (auto dest!: ffo_entry simp: ffo_def bit_unsigned_iff)
qed

lemma ffo_none: "ffo x y = -1 \<longleftrightarrow> x AND NOT y = 0"
proof
  assume "ffo x y = -1"
  then show "x AND NOT y = 0" using ffo_some [of x y] by fastforce
next
  have "ffo_table ! 0 = -1" by (simp add: ffo_table_def)
  moreover assume "x AND NOT y = 0"
  ultimately show "ffo x y = -1" by (simp add: ffo_def)
qed

lemma ffo_least:
  assumes "bit (x AND NOT y) k" "\<forall>j<k. \<not> bit (x AND NOT y) j"
  shows "ffo x y = int k"
proof -
  have "x AND NOT y \<noteq> 0" using assms(1) by auto
  from ffo_some [OF this] obtain m where m: "ffo x y = int m" "bit (x AND NOT y) m" "\<forall>j<m. \<not> bit (x AND NOT y) j"
    by blast
  then have "m = k" using assms by (meson linorder_neqE_nat)
  with m show ?thesis by simp
qed

section \<open>Requests in priority order\<close>

text \<open>
  The devices of NEMU raise lines 0 and 1 of the master and one line of the slave (14, the
  disk). \<open>pend s\<close> is the set of requests outstanding, \<open>next_irq\<close> the one with the highest
  priority: the slave is served at the place of master line 2.
\<close>

definition pend :: "machine \<Rightarrow> nat set" where
  "pend s = {i. i < 16 \<and> i \<noteq> 2 \<and> (if i < 8 then bit (IRR (master (pic s))) i else bit (IRR (slave (pic s))) (i - 8))}"

definition prio :: "nat \<Rightarrow> nat" where
  "prio i = (if i < 8 then i else 2)"

definition next_irq :: "nat set \<Rightarrow> nat \<Rightarrow> bool" where
  "next_irq P i \<longleftrightarrow> i \<in> P \<and> (\<forall>j\<in>P. prio i \<le> prio j)"

text \<open>Invariant: nothing is masked, only line \<open>k\<close> of the slave is used, and master line 2 follows it.\<close>

definition pic_wired :: "nat \<Rightarrow> machine \<Rightarrow> bool" where
  "pic_wired k s \<longleftrightarrow> k < 8 \<and> IMR (master (pic s)) = 0 \<and> IMR (slave (pic s)) = 0 \<and>
     (\<forall>i. i \<noteq> k \<longrightarrow> \<not> bit (IRR (slave (pic s))) i) \<and>
     (bit (IRR (master (pic s))) 2 \<longleftrightarrow> bit (IRR (slave (pic s))) k) \<and>
     (bit (IRR (slave (pic s))) k \<longrightarrow> highest_irq (slave (pic s)) = int k)"

definition pic_inv :: "nat \<Rightarrow> machine \<Rightarrow> bool" where
  "pic_inv k s \<longleftrightarrow> pic_wired k s \<and> (INTR (cpu s) \<longleftrightarrow> pend s \<noteq> {}) \<and>
     (INTR (cpu s) \<longrightarrow> next_irq (pend s) (unat (intr_NO (pic s)) - 32) \<and> 32 \<le> unat (intr_NO (pic s)))"

lemma pend_cpu [simp]: "pend (s\<lparr>cpu := c\<rparr>) = pend s"
  by (simp add: pend_def)

lemma pend_intr_NO [simp]: "pend (s\<lparr>pic := (pic s)\<lparr>intr_NO := v\<rparr>\<rparr>) = pend s"
  by (simp add: pend_def)

text \<open>The last step of both operations recomputes the output.\<close>

lemma publish_spec:
  assumes w: "pic_wired k s"
  shows "wp (seqM (on_master (\<lambda>p. p\<lparr>highest_irq := ffo (IRR p) (IMR p)\<rparr>)) do_i8259)
    (\<lambda>_ t. pic_inv k t \<and> pend t = pend s) s"
proof -
  let ?M = "IRR (master (pic s))" and ?S = "IRR (slave (pic s))"
  let ?s = "s\<lparr>pic := (pic s)\<lparr>master := (master (pic s))\<lparr>highest_irq := ffo ?M 0\<rparr>\<rparr>\<rparr>"
  have imr: "IMR (master (pic s)) = 0" and k: "k < 8" using w by (simp_all add: pic_wired_def)
  have wired: "pic_wired k ?s" using w by (simp add: pic_wired_def)
  have pend: "pend ?s = pend s" by (simp add: pend_def)
  have "wp do_i8259 (\<lambda>_ t. pic_inv k t \<and> pend t = pend s) ?s"
  proof (cases "?M = 0")
    case True
    then have "ffo ?M 0 = -1" by (simp add: ffo_none)
    moreover have "pend s = {}" using w True by (auto simp: pend_def pic_wired_def)
    ultimately show ?thesis using wired pend
      by (simp add: do_i8259_def wp_simps pic_inv_def pic_wired_def)
  next
    case False
    then obtain j where j: "ffo ?M 0 = int j" "j < 8" "bit ?M j" "\<forall>i<j. \<not> bit ?M i"
      using ffo_some [of ?M 0] by auto
    define v where "v = (if j = 2 then 8 + k else j)"
    have v16: "v < 16" using j k by (simp add: v_def)
    have "next_irq (pend s) v"
      unfolding next_irq_def
    proof (intro conjI ballI)
      show "v \<in> pend s" using j k w by (auto simp: v_def pend_def pic_wired_def)
      fix i assume "i \<in> pend s"
      then have "bit ?M (prio i)" using w by (auto simp: pend_def prio_def pic_wired_def split: if_splits)
      then have "\<not> prio i < j" using j by auto
      moreover have "prio v = j" using k j by (simp add: v_def prio_def)
      ultimately show "prio v \<le> prio i" by simp
    qed
    moreover have "unat (word_of_int (int v + 32) :: u8) = v + 32"
    proof -
      have "(word_of_int (int v + 32) :: u8) = word_of_nat (v + 32)" by simp
      then have "unat (word_of_int (int v + 32) :: u8) = (v + 32) mod 2 ^ LENGTH(8)" by (simp only: unat_of_nat)
      with v16 show ?thesis by simp
    qed
    moreover have "j = 2 \<Longrightarrow> highest_irq (slave (pic s)) = int k" using w j by (simp add: pic_wired_def)
    moreover have "pend s \<noteq> {}" using calculation(1) by (auto simp: next_irq_def)
    ultimately show ?thesis using wired j pend
      by (auto simp: do_i8259_def wp_simps pic_inv_def pic_wired_def v_def)
  qed
  then show ?thesis using imr by (simp add: wp_simps on_master_def)
qed

lemma bit_MASK: "n < 8 \<Longrightarrow> bit (MASK n) i \<longleftrightarrow> i = n"
  by (auto simp: MASK_def bit_simps)

lemma raise_spec:
  assumes inv: "pic_wired k s" and n: "n < 8 \<and> n \<noteq> 2 \<or> n = 8 + k"
  shows "wp (i8259_raise_intr (int n)) (\<lambda>_ t. pic_inv k t \<and> pend t = insert n (pend s)) s"
proof (cases "n < 8")
  case True
  let ?s = "s\<lparr>pic := (pic s)\<lparr>master := (master (pic s))\<lparr>IRR := IRR (master (pic s)) OR MASK n\<rparr>\<rparr>\<rparr>"
  have "pic_wired k ?s" using inv True n by (auto simp: pic_wired_def bit_or_iff bit_MASK)
  moreover have "pend ?s = insert n (pend s)" using True n by (auto simp: pend_def bit_or_iff bit_MASK)
  ultimately have "wp (seqM (on_master (\<lambda>p. p\<lparr>highest_irq := ffo (IRR p) (IMR p)\<rparr>)) do_i8259)
      (\<lambda>_ t. pic_inv k t \<and> pend t = insert n (pend s)) ?s"
    using publish_spec [of k ?s] by (simp only:)
  then show ?thesis using True by (simp add: i8259_raise_intr_def wp_simps on_master_def)
next
  case False
  with n have n: "n = 8 + k" by simp
  have k: "k < 8" using inv by (simp add: pic_wired_def)
  let ?S = "(slave (pic s))\<lparr>IRR := IRR (slave (pic s)) OR MASK k\<rparr>"
  let ?s = "s\<lparr>pic := (pic s)\<lparr>master := (master (pic s))\<lparr>IRR := IRR (master (pic s)) OR MASK 2\<rparr>,
     slave := ?S\<lparr>highest_irq := ffo (IRR ?S) (IMR ?S)\<rparr>\<rparr>\<rparr>"
  have only: "bit (IRR (slave (pic s)) OR MASK k) i \<longleftrightarrow> i = k" for i
    using inv k by (auto simp: pic_wired_def bit_or_iff bit_MASK)
  have "ffo (IRR (slave (pic s)) OR MASK k) 0 = int k" by (rule ffo_least) (simp_all add: only)
  then have "pic_wired k ?s" using inv k by (auto simp: pic_wired_def only bit_or_iff bit_MASK)
  moreover have "pend ?s = insert n (pend s)"
  proof (rule set_eqI)
    fix i
    show "(i \<in> pend ?s) = (i \<in> insert n (pend s))"
      using inv k n by (cases "i < 8") (auto simp: pend_def bit_or_iff bit_MASK pic_wired_def)
  qed
  ultimately have "wp (seqM (on_master (\<lambda>p. p\<lparr>highest_irq := ffo (IRR p) (IMR p)\<rparr>)) do_i8259)
      (\<lambda>_ t. pic_inv k t \<and> pend t = insert n (pend s)) ?s"
    using publish_spec [of k ?s] by (simp only:)
  then show ?thesis using n k by (simp add: i8259_raise_intr_def wp_simps on_master_def on_slave_def Let_def)
qed

lemma ack_spec:
  assumes inv: "pic_inv k s" and intr: "INTR (cpu s)"
  shows "wp i8259_ack_intr (\<lambda>_ t. pic_inv k t \<and> pend t = pend s - {unat (intr_NO (pic s)) - 32}) s"
proof -
  define n where "n = unat (intr_NO (pic s)) - 32"
  have w: "pic_wired k s" and k: "k < 8" using inv by (simp_all add: pic_inv_def pic_wired_def)
  have no: "uint (intr_NO (pic s)) = int n + 32" "n \<in> pend s"
    using inv intr by (auto simp: pic_inv_def n_def next_irq_def)
  then have n16: "n < 16" "n \<noteq> 2" by (simp_all add: pend_def)
  show ?thesis
  proof (cases "n < 8")
    case True
    let ?s = "s\<lparr>pic := (pic s)\<lparr>master := (master (pic s))\<lparr>IRR := IRR (master (pic s)) AND NOT (MASK n)\<rparr>\<rparr>\<rparr>"
    have "pic_wired k ?s" using w True n16 by (auto simp: pic_wired_def bit_and_iff bit_not_iff bit_MASK)
    moreover have "pend ?s = pend s - {n}" using True n16
      by (auto simp: pend_def bit_and_iff bit_not_iff bit_MASK split: if_splits)
    ultimately have "wp (seqM (on_master (\<lambda>p. p\<lparr>highest_irq := ffo (IRR p) (IMR p)\<rparr>)) do_i8259)
        (\<lambda>_ t. pic_inv k t \<and> pend t = pend s - {n}) ?s"
      using publish_spec [of k ?s] by (simp only:)
    then show ?thesis using True no
      by (simp add: i8259_ack_intr_def wp_simps on_master_def Let_def flip: n_def)
  next
    case False
    with no(2) have "bit (IRR (slave (pic s))) (n - 8)" by (simp add: pend_def)
    with w have "n - 8 = k" by (auto simp: pic_wired_def)
    with False have nk: "n = 8 + k" by simp
    let ?S = "(slave (pic s))\<lparr>IRR := IRR (slave (pic s)) AND NOT (MASK k)\<rparr>"
    let ?s = "s\<lparr>pic := (pic s)\<lparr>master := (master (pic s))\<lparr>IRR := IRR (master (pic s)) AND NOT (MASK 2)\<rparr>,
       slave := ?S\<lparr>highest_irq := ffo (IRR ?S) (IMR ?S)\<rparr>\<rparr>\<rparr>"
    have none: "IRR (slave (pic s)) AND NOT (MASK k) = 0"
      by (rule bit_word_eqI) (use w k in \<open>auto simp: pic_wired_def bit_and_iff bit_not_iff bit_MASK\<close>)
    have "pic_wired k ?s" using w k none by (auto simp: pic_wired_def bit_and_iff bit_not_iff bit_MASK)
    moreover have "pend ?s = pend s - {n}"
    proof (rule set_eqI)
      fix i
      show "(i \<in> pend ?s) = (i \<in> pend s - {n})"
        using w k nk none by (cases "i < 8"; cases "i - 8 = k")
          (auto simp: pend_def bit_and_iff bit_not_iff bit_MASK pic_wired_def)
    qed
    ultimately have "wp (seqM (on_master (\<lambda>p. p\<lparr>highest_irq := ffo (IRR p) (IMR p)\<rparr>)) do_i8259)
        (\<lambda>_ t. pic_inv k t \<and> pend t = pend s - {n}) ?s"
      using publish_spec [of k ?s] by (simp only:)
    then show ?thesis using nk no k
      by (simp add: i8259_ack_intr_def wp_simps on_master_def on_slave_def Let_def flip: n_def)
  qed
qed

text \<open>Only the controllers and the \<open>INTR\<close> line change.\<close>

lemma do_i8259_frame:
  "do_i8259 s = Ret x t \<Longrightarrow> t = s\<lparr>pic := pic t, cpu := (cpu s)\<lparr>INTR := INTR (cpu t)\<rparr>\<rparr>"
  by (auto simp: do_i8259_def bindM_def seqM_def run_simps split: if_splits outcome.splits)

lemma raise_frame:
  "i8259_raise_intr n s = Ret x t \<Longrightarrow> t = s\<lparr>pic := pic t, cpu := (cpu s)\<lparr>INTR := INTR (cpu t)\<rparr>\<rparr>"
  by (auto simp: i8259_raise_intr_def bindM_def seqM_def run_simps on_master_def on_slave_def Let_def
      split: if_splits outcome.splits dest!: do_i8259_frame)

lemma raise_run:
  assumes "pic_wired k s" "n < 8 \<and> n \<noteq> 2 \<or> n = 8 + k"
  shows "\<exists>p b. i8259_raise_intr (int n) s = Ret () (s\<lparr>pic := p, cpu := (cpu s)\<lparr>INTR := b\<rparr>\<rparr>) \<and>
    pic_inv k (s\<lparr>pic := p, cpu := (cpu s)\<lparr>INTR := b\<rparr>\<rparr>) \<and>
    pend (s\<lparr>pic := p, cpu := (cpu s)\<lparr>INTR := b\<rparr>\<rparr>) = insert n (pend s)"
proof -
  from wp_RetD [OF raise_spec [OF assms]] obtain t where
    t: "i8259_raise_intr (int n) s = Ret () t" "pic_inv k t" "pend t = insert n (pend s)" by auto
  note eq = raise_frame [OF t(1)]
  show ?thesis by (intro exI [of _ "pic t"] exI [of _ "INTR (cpu t)"]) (unfold eq [symmetric], intro conjI t)
qed

section \<open>Properties\<close>

text \<open>
  C6. Interrupt requests are neither lost nor reordered: with a single slave line in use, as in
  NEMU, \<open>i8259_raise_intr\<close> adds exactly its line to the outstanding requests and sets \<open>INTR\<close>, the
  vector offered to the processor is 32 plus the outstanding line of highest priority, and
  \<open>i8259_ack_intr\<close> removes exactly the line whose vector was offered, after which \<open>INTR\<close> tells
  whether anything is left. Neither operation fails.
\<close>

theorem pic_refines_request_set:
  assumes "pic_inv k s" "n < 8 \<and> n \<noteq> 2 \<or> n = 8 + k"
  shows "wp (i8259_raise_intr (int n)) (\<lambda>_ t. pic_inv k t \<and> pend t = insert n (pend s) \<and> INTR (cpu t) \<and>
           next_irq (pend t) (unat (intr_NO (pic t)) - 32)) s \<and>
         (INTR (cpu s) \<longrightarrow> wp i8259_ack_intr (\<lambda>_ t. pic_inv k t \<and>
           pend t = pend s - {unat (intr_NO (pic s)) - 32} \<and> (INTR (cpu t) \<longleftrightarrow> pend t \<noteq> {})) s)"
proof -
  have "pic_wired k s" using assms(1) by (simp add: pic_inv_def)
  then have "wp (i8259_raise_intr (int n)) (\<lambda>_ t. pic_inv k t \<and> pend t = insert n (pend s) \<and> INTR (cpu t) \<and>
           next_irq (pend t) (unat (intr_NO (pic t)) - 32)) s"
    by (rule wp_mono [OF raise_spec [OF _ assms(2)]]) (clarsimp simp: pic_inv_def)
  moreover have "INTR (cpu s) \<longrightarrow> wp i8259_ack_intr (\<lambda>_ t. pic_inv k t \<and>
           pend t = pend s - {unat (intr_NO (pic s)) - 32} \<and> (INTR (cpu t) \<longleftrightarrow> pend t \<noteq> {})) s"
  proof
    assume "INTR (cpu s)"
    from ack_spec [OF assms(1) this] show "wp i8259_ack_intr (\<lambda>_ t. pic_inv k t \<and>
           pend t = pend s - {unat (intr_NO (pic s)) - 32} \<and> (INTR (cpu t) \<longleftrightarrow> pend t \<noteq> {})) s"
      by (rule wp_mono) (unfold pic_inv_def, blast)
  qed
  ultimately show ?thesis by blast
qed

text \<open>Both controllers idle, as after power-on.\<close>

definition idle_pic :: "machine \<Rightarrow> machine" where
  "idle_pic s = s\<lparr>pic := \<lparr>master = \<lparr>IRR = 0, ISR = 0, IMR = 0, highest_irq = 0\<rparr>,
     slave = \<lparr>IRR = 0, ISR = 0, IMR = 0, highest_irq = 0\<rparr>, intr_NO = 0\<rparr>, cpu := (cpu s)\<lparr>INTR := False\<rparr>\<rparr>"

theorem pic_refines_request_set_witness:
  "\<forall>s. wp (i8259_raise_intr 14) (\<lambda>_ t. pic_inv 6 t \<and> pend t = {14} \<and> INTR (cpu t) \<and>
     next_irq (pend t) (unat (intr_NO (pic t)) - 32)) (idle_pic s)"
proof
  fix s
  have "pic_inv 6 (idle_pic s)" by (simp add: pic_inv_def pic_wired_def idle_pic_def pend_def)
  moreover have "pend (idle_pic s) = {}" by (simp add: pend_def idle_pic_def)
  ultimately show "wp (i8259_raise_intr 14) (\<lambda>_ t. pic_inv 6 t \<and> pend t = {14} \<and> INTR (cpu t) \<and>
     next_irq (pend t) (unat (intr_NO (pic t)) - 32)) (idle_pic s)"
    using pic_refines_request_set [of 6 "idle_pic s" 14] by simp
qed

text \<open>
  With two lines of the slave outstanding, acknowledging the first clears master line 2 as
  well, so \<open>INTR\<close> drops although a request is still recorded in the slave: it stays unseen
  until another slave device raises an interrupt.
\<close>

lemma ack_loses_second_slave_request:
  assumes "IMR (master (pic s)) = 0" "IMR (slave (pic s)) = 0"
    and "IRR (master (pic s)) = MASK 2" "i < j" "j < 8" "IRR (slave (pic s)) = MASK i OR MASK j"
    and "intr_NO (pic s) = word_of_int (int i + 40)"
  shows "wp i8259_ack_intr (\<lambda>_ t. \<not> INTR (cpu t) \<and> IRR (slave (pic t)) = MASK j) s"
proof -
  have no: "uint (intr_NO (pic s)) = int i + 40"
  proof -
    have "uint (word_of_int (int i + 40) :: u8) = (int i + 40) mod 2 ^ LENGTH(8)" by (rule uint_word_of_int)
    then show ?thesis using assms(4,5,7) by simp
  qed
  have M: "MASK 2 AND NOT (MASK 2) = 0" by simp
  have S: "(MASK i OR MASK j) AND NOT (MASK i) = MASK j"
    using assms(4,5) by (intro bit_word_eqI) (auto simp: bit_simps bit_MASK)
  have "ffo 0 0 = -1" by (simp add: ffo_none)
  then show ?thesis using assms(1-6) no M S
    by (simp add: i8259_ack_intr_def wp_simps on_master_def on_slave_def Let_def do_i8259_def)
qed


end
