(* ===== verification/Devices.thy ===== *)
theory Devices
  imports Paging Pic
begin

unbundle bit_operations_syntax

text \<open>
  Port I/O (nemu/src/device/io/port-io.c) and the devices behind it: serial port, timer,
  keyboard, IDE disk with its bus master, VGA (nemu/src/device/*.c), and the periodic update
  driven by SDL (nemu/src/device/sdl.c). The SDL calls that only show the picture are left out;
  the queue of SDL events is an argument of \<open>device_update\<close>.
\<close>

section \<open>Ports\<close>

abbreviation (input) PORT_IO_SPACE_MAX :: nat where "PORT_IO_SPACE_MAX \<equiv> 65536"

definition port :: "nat \<Rightarrow> machine \<Rightarrow> u8" where
  "port a s = pio_space (pio s) a"

definition set_port :: "nat \<Rightarrow> u8 \<Rightarrow> (machine, unit) M" where
  "set_port a v = modM (\<lambda>s. s\<lparr>pio := (pio s)\<lparr>pio_space := (pio_space (pio s))(a := v)\<rparr>\<rparr>)"

definition add_pio_map :: "u16 \<Rightarrow> nat \<Rightarrow> pio_callback \<Rightarrow> (machine, nat) M" where
  "add_pio_map addr len callback =
     bindM (getM (\<lambda>s. length (pio_maps (pio s)))) (\<lambda>nr_map.
     seqM (assertM (nr_map < NR_MAP))
    (seqM (assertM (unat addr + len \<le> PORT_IO_SPACE_MAX))
    (seqM (modM (\<lambda>s. s\<lparr>pio := (pio s)\<lparr>pio_maps := pio_maps (pio s) @
        [\<lparr>pio_low = addr, pio_high = addr + of_nat len - 1, pio_cb = callback\<rparr>]\<rparr>\<rparr>))
      (ret (unat addr)))))"

section \<open>Serial port\<close>

abbreviation (input) SERIAL_PORT :: nat where "SERIAL_PORT \<equiv> 0x3F8"

definition serial_io_handler :: "u16 \<Rightarrow> nat \<Rightarrow> bool \<Rightarrow> (machine, unit) M" where
  "serial_io_handler addr len is_write =
     whenM is_write
       (seqM (assertM (len = 1))
         (whenM (unat addr = SERIAL_PORT)
           (modM (\<lambda>s. s\<lparr>serial_out := serial_out s @ [port SERIAL_PORT s]\<rparr>))))"

definition init_serial :: "(machine, unit) M" where
  "init_serial = bindM (add_pio_map 0x3F8 8 Serial_io) (\<lambda>base. set_port (base + 5) 0x20)"

section \<open>Timer and keyboard\<close>

definition timer_intr :: "(machine, unit) M" where
  "timer_intr = bindM (getM nemu_state) (\<lambda>st. whenM (st = RUNNING) (i8259_raise_intr 0))"

definition init_timer :: "(machine, unit) M" where
  "init_timer = ret ()"

abbreviation (input) I8042_DATA_PORT :: nat where "I8042_DATA_PORT \<equiv> 0x60"

definition keyboard_intr :: "u8 \<Rightarrow> (machine, unit) M" where
  "keyboard_intr scancode =
     bindM (getM (\<lambda>s. nemu_state s = RUNNING \<and> newkey s = False)) (\<lambda>b.
     whenM b
       (seqM (set_port I8042_DATA_PORT scancode)
       (seqM (i8259_raise_intr 1)
             (modM (\<lambda>s. s\<lparr>newkey := True\<rparr>)))))"

definition i8042_io_handler :: "u16 \<Rightarrow> nat \<Rightarrow> bool \<Rightarrow> (machine, unit) M" where
  "i8042_io_handler addr len is_write = whenM (\<not> is_write) (modM (\<lambda>s. s\<lparr>newkey := False\<rparr>))"

definition init_i8042 :: "(machine, unit) M" where
  "init_i8042 = bindM (add_pio_map 0x60 1 I8042_io) (\<lambda>_. modM (\<lambda>s. s\<lparr>newkey := False\<rparr>))"

section \<open>IDE disk\<close>

text \<open>
  The C stream over the disk image: \<open>fseek\<close> sets the position; \<open>fread\<close> copies what is left
  before the end of the file and reports whether the item was complete; \<open>fwrite\<close> overwrites,
  extending the file with zeros if the position is behind its end.
\<close>

abbreviation (input) IDE_PORT :: nat where "IDE_PORT \<equiv> 0x1F0"
abbreviation (input) BMR_PORT :: nat where "BMR_PORT \<equiv> 0xc040"
abbreviation (input) IDE_IRQ :: int where "IDE_IRQ \<equiv> 14"

definition on_ide :: "(ide_state \<Rightarrow> ide_state) \<Rightarrow> (machine, unit) M" where
  "on_ide f = modM (\<lambda>s. s\<lparr>ide := f (ide s)\<rparr>)"

definition disk_write :: "nat \<Rightarrow> u8 list \<Rightarrow> u8 list \<Rightarrow> u8 list" where
  "disk_write pos bs d = take pos (d @ replicate (pos - length d) 0) @ bs @ drop (pos + length bs) d"

definition fread :: "nat \<Rightarrow> (machine, u8 list) M" where
  "fread n = bindM (getM (\<lambda>s. take n (drop (disk_pos (ide s)) (disk (ide s))))) (\<lambda>bs.
     seqM (on_ide (\<lambda>i. i\<lparr>disk_pos := disk_pos i + length bs\<rparr>)) (ret bs))"

definition fwrite :: "u8 list \<Rightarrow> (machine, unit) M" where
  "fwrite bs = on_ide (\<lambda>i. i\<lparr>disk := disk_write (disk_pos i) bs (disk i), disk_pos := disk_pos i + length bs\<rparr>)"

text \<open>\<open>sector = (port[6] & 0x1f) << 24 | port[5] << 16 | port[4] << 8 | port[3]\<close> and the seek.\<close>

definition lba :: "machine \<Rightarrow> u32" where
  "lba s = push_bit 24 (ucast (port (IDE_PORT + 6) s AND 0x1f)) OR push_bit 16 (ucast (port (IDE_PORT + 5) s))
     OR push_bit 8 (ucast (port (IDE_PORT + 4) s)) OR ucast (port (IDE_PORT + 3) s)"

definition seek_sector :: "(machine, unit) M" where
  "seek_sector = bindM (getM lba) (\<lambda>l. on_ide (\<lambda>i. i\<lparr>ide_sector := l, disk_idx := push_bit 9 l,
     disk_pos := unat (push_bit 9 l)\<rparr>))"

definition finish_sector :: "(machine, unit) M" where
  "finish_sector = bindM (getM (\<lambda>s. byte_cnt (ide s))) (\<lambda>c. whenM (c = 512) (set_port (IDE_PORT + 7) 0x40))"

definition ide_io_handler :: "u16 \<Rightarrow> nat \<Rightarrow> bool \<Rightarrow> (machine, unit) M" where
  "ide_io_handler addr len is_write =
     bindM (getM ide) (\<lambda>d.
     seqM (assertM (byte_cnt d \<le> 512))
     (if is_write then
        (if unat addr = IDE_PORT \<and> len = 4 then
           seqM (assertM (ide_write d))
          (bindM (getM (\<lambda>s. map (\<lambda>i. port (IDE_PORT + i) s) [0..<4])) (\<lambda>bs.
           seqM (fwrite bs)
          (seqM (on_ide (\<lambda>i. i\<lparr>byte_cnt := byte_cnt i + 4\<rparr>))
                finish_sector)))
         else if unat addr = IDE_PORT + 7 then
           bindM (getM (port (IDE_PORT + 7))) (\<lambda>cmd.
           if cmd = 0x20 \<or> cmd = 0x30 then
             seqM seek_sector
            (seqM (on_ide (\<lambda>i. i\<lparr>byte_cnt := 0\<rparr>))
            (if cmd = 0x20 then
               seqM (on_ide (\<lambda>i. i\<lparr>ide_write := False\<rparr>))
              (seqM (set_port (IDE_PORT + 7) 0x40)
                    (i8259_raise_intr IDE_IRQ))
             else on_ide (\<lambda>i. i\<lparr>ide_write := True\<rparr>)))
           else if cmd = 0xc8 then ret ()
           else fail AssertFail)
         else ret ())
      else
        (if unat addr = IDE_PORT \<and> len = 4 then
           seqM (assertM (\<not> ide_write d))
          (bindM (fread 4) (\<lambda>bs.
           seqM (forM [0..<length bs] (\<lambda>i. set_port (IDE_PORT + i) (bs ! i)))
          (seqM (on_ide (\<lambda>i. i\<lparr>byte_cnt := byte_cnt i + 4\<rparr>))
                finish_sector)))
         else ret ())))"

text \<open>
  The bus master reads straight into \<open>hw_mem\<close>. An item of no bytes is never complete and does
  not reach the end of the file, so the assertion behind \<open>fread\<close> fails.
\<close>

definition dma_store :: "nat \<Rightarrow> u8 list \<Rightarrow> (machine, unit) M" where
  "dma_store a bs = modM (\<lambda>s. s\<lparr>mem := (mem s)\<lparr>dram := (dram (mem s))\<lparr>hw_mem :=
     (\<lambda>k. if a \<le> k \<and> k < a + length bs then bs ! (k - a) else hw_mem (dram (mem s)) k)\<rparr>\<rparr>\<rparr>)"

definition bmr_io_handler :: "u16 \<Rightarrow> nat \<Rightarrow> bool \<Rightarrow> (machine, unit) M" where
  "bmr_io_handler addr len is_write =
     whenM (is_write \<and> unat addr = BMR_PORT)
     (bindM (getM (port BMR_PORT)) (\<lambda>cmd.
      whenM (bit cmd 0)
      (if bit cmd 3 then
         bindM (getM (\<lambda>s. le32 (\<lambda>i. port (BMR_PORT + 4 + i) s))) (\<lambda>prdt_addr.
         bindM (hwaddr_read prdt_addr 4) (\<lambda>a.
         bindM (hwaddr_read (prdt_addr + 4) 4) (\<lambda>hi_entry.
         let cnt = unat (hi_entry AND 0xffff) in
         seqM seek_sector
        (bindM (fread cnt) (\<lambda>bs.
         seqM (assertM (cnt \<noteq> 0))
        (seqM (if unat a + length bs > HW_MEM_SIZE then fail OutOfBounds else dma_store (unat a) bs)
        (seqM (assertM (bit hi_entry 31))
        (seqM (set_port (IDE_PORT + 7) 0x40)
              (i8259_raise_intr IDE_IRQ)))))))))
       else fail AssertFail)))"

text \<open>\<open>img\<close> is the contents of the file opened as the disk.\<close>

definition init_ide :: "u8 list \<Rightarrow> (machine, unit) M" where
  "init_ide img =
     bindM (add_pio_map 0x1F0 8 Ide_io) (\<lambda>base.
     seqM (set_port (base + 7) 0x40)
    (bindM (add_pio_map 0xc040 8 Bmr_io) (\<lambda>bmr.
     seqM (set_port bmr 0)
          (on_ide (\<lambda>i. i\<lparr>disk := img, disk_pos := 0\<rparr>)))))"

section \<open>VGA\<close>

abbreviation (input) VGA_DAC_WRITE_INDEX :: nat where "VGA_DAC_WRITE_INDEX \<equiv> 0x3C8"
abbreviation (input) VGA_DAC_DATA :: nat where "VGA_DAC_DATA \<equiv> 0x3C9"
abbreviation (input) VGA_CRTC_INDEX :: nat where "VGA_CRTC_INDEX \<equiv> 0x3D4"
abbreviation (input) VGA_CRTC_DATA :: nat where "VGA_CRTC_DATA \<equiv> 0x3D5"

definition on_vga :: "(vga_state \<Rightarrow> vga_state) \<Rightarrow> (machine, unit) M" where
  "on_vga f = modM (\<lambda>s. s\<lparr>vga := f (vga s)\<rparr>)"

definition draw_pixel :: "nat \<Rightarrow> nat \<Rightarrow> u8 \<Rightarrow> (machine, unit) M" where
  "draw_pixel x y c =
     seqM (assertM (x < 640 \<and> y < 400))
       (on_vga (\<lambda>g. g\<lparr>pixel_buf := (pixel_buf g)(y := (pixel_buf g y)(x := c))\<rparr>))"

definition do_update_screen_graphic_mode :: "(machine, unit) M" where
  "do_update_screen_graphic_mode =
     forM [0..<CTR_ROW] (\<lambda>i. bindM (getM (\<lambda>s. line_dirty (vga s) i)) (\<lambda>d. whenM d
       (forM [0..<CTR_COL] (\<lambda>j.
          bindM (getM (\<lambda>s. mmio_space_pool (mmio s) (vmem_base (vga s) + (i * CTR_COL + j)))) (\<lambda>color_idx.
          seqM (draw_pixel (2 * j) (2 * i) color_idx)
         (seqM (draw_pixel (2 * j) (2 * i + 1) color_idx)
         (seqM (draw_pixel (2 * j + 1) (2 * i) color_idx)
               (draw_pixel (2 * j + 1) (2 * i + 1) color_idx))))))))"

definition update_screen :: "(machine, unit) M" where
  "update_screen =
     bindM (getM (\<lambda>s. vmem_dirty (vga s))) (\<lambda>d. whenM d
       (seqM do_update_screen_graphic_mode
         (on_vga (\<lambda>g. g\<lparr>vmem_dirty := False, line_dirty := (\<lambda>i. i \<ge> CTR_ROW \<and> line_dirty g i)\<rparr>))))"

definition vga_dac_io_handler :: "u16 \<Rightarrow> nat \<Rightarrow> bool \<Rightarrow> (machine, unit) M" where
  "vga_dac_io_handler addr len is_write =
     (if unat addr = VGA_DAC_WRITE_INDEX \<and> is_write then
        bindM (getM (port VGA_DAC_WRITE_INDEX)) (\<lambda>i. on_vga (\<lambda>g. g\<lparr>color_ptr := Some (4 * unat i)\<rparr>))
      else if unat addr = VGA_DAC_DATA \<and> is_write then
        bindM (getM (\<lambda>s. color_ptr (vga s))) (\<lambda>p.
        case p of None \<Rightarrow> fail NullDeref
        | Some p \<Rightarrow>
          if p \<ge> 1024 then fail OutOfBounds
          else bindM (getM (port VGA_DAC_DATA)) (\<lambda>v.
            seqM (on_vga (\<lambda>g. g\<lparr>palette := (palette g)(p := push_bit 2 v), color_ptr := Some (p + 1)\<rparr>))
           (bindM (getM (\<lambda>s. (p + 1 + pal_phase (vga s)) mod 4 = 3)) (\<lambda>skip.
            whenM skip
              (seqM (on_vga (\<lambda>g. g\<lparr>color_ptr := Some (p + 2)\<rparr>))
                (whenM (p + 2 = 1024) (on_vga (\<lambda>g. g\<lparr>palette_shown := palette g\<rparr>)))))))
        )
      else ret ())"

definition vga_crtc_io_handler :: "u16 \<Rightarrow> nat \<Rightarrow> bool \<Rightarrow> (machine, unit) M" where
  "vga_crtc_io_handler addr len is_write =
     bindM (getM (\<lambda>s. unat (port VGA_CRTC_INDEX s))) (\<lambda>i.
     if unat addr = VGA_CRTC_INDEX \<and> is_write then
       (if i \<ge> 19 then fail OutOfBounds
        else bindM (getM (\<lambda>s. vga_crtc_regs (vga s) i)) (set_port VGA_CRTC_DATA))
     else if unat addr = VGA_CRTC_DATA \<and> is_write then
       (if i \<ge> 19 then fail OutOfBounds
        else bindM (getM (port VGA_CRTC_DATA)) (\<lambda>v. on_vga (\<lambda>g. g\<lparr>vga_crtc_regs := (vga_crtc_regs g)(i := v)\<rparr>)))
     else ret ())"

definition init_vga :: "(machine, unit) M" where
  "init_vga =
     seqM (seqM (add_pio_map 0x3C8 2 Vga_dac_io) (ret ()))
    (seqM (seqM (add_pio_map 0x3D4 2 Vga_crtc_io) (ret ()))
    (bindM (add_mmio_map 0xa0000 0x20000 Vga_vmem_io) (\<lambda>b. on_vga (\<lambda>g. g\<lparr>vmem_base := b\<rparr>))))"

section \<open>The bus\<close>

definition run_pio_callback :: "pio_callback \<Rightarrow> u16 \<Rightarrow> nat \<Rightarrow> bool \<Rightarrow> (machine, unit) M" where
  "run_pio_callback cb = (case cb of Serial_io \<Rightarrow> serial_io_handler | Vga_dac_io \<Rightarrow> vga_dac_io_handler
     | Vga_crtc_io \<Rightarrow> vga_crtc_io_handler | I8042_io \<Rightarrow> i8042_io_handler | Ide_io \<Rightarrow> ide_io_handler
     | Bmr_io \<Rightarrow> bmr_io_handler)"

definition pio_map_of :: "machine \<Rightarrow> u16 \<Rightarrow> nat \<Rightarrow> pio_callback option" where
  "pio_map_of s addr len = map_option pio_cb (List.find
     (\<lambda>m. addr \<ge> pio_low m \<and> unat addr + len - 1 \<le> unat (pio_high m)) (pio_maps (pio s)))"

definition pio_callback :: "u16 \<Rightarrow> nat \<Rightarrow> bool \<Rightarrow> (machine, unit) M" where
  "pio_callback addr len is_write =
     bindM (getM (\<lambda>s. pio_map_of s addr len)) (\<lambda>m.
     case m of None \<Rightarrow> ret () | Some cb \<Rightarrow> run_pio_callback cb addr len is_write)"

definition pio_read :: "u16 \<Rightarrow> nat \<Rightarrow> (machine, u32) M" where
  "pio_read addr len =
     seqM (assertM (len = 1 \<or> len = 2 \<or> len = 4))
    (seqM (assertM (unat addr + len - 1 < PORT_IO_SPACE_MAX))
    (seqM (pio_callback addr len False)
      (getM (\<lambda>s. le32 (\<lambda>i. port (unat addr + i) s) AND len_mask len))))"

definition pio_write :: "u16 \<Rightarrow> nat \<Rightarrow> u32 \<Rightarrow> (machine, unit) M" where
  "pio_write addr len data =
     seqM (assertM (len = 1 \<or> len = 2 \<or> len = 4))
    (seqM (assertM (unat addr + len - 1 < PORT_IO_SPACE_MAX))
    (seqM (modM (\<lambda>s. s\<lparr>pio := (pio s)\<lparr>pio_space := store (unat addr) len data (pio_space (pio s))\<rparr>\<rparr>))
      (pio_callback addr len True)))"

section \<open>Initialisation and periodic update\<close>

definition init_device :: "u8 list \<Rightarrow> (machine, unit) M" where
  "init_device img =
     seqM init_serial (seqM init_timer (seqM init_vga (seqM init_i8042 (init_ide img))))"

text \<open>The handler of the host timer signal.\<close>

definition timer_sig_handler :: "(machine, unit) M" where
  "timer_sig_handler =
     seqM (modM (\<lambda>s. s\<lparr>sdl := (sdl s)\<lparr>jiffy := jiffy (sdl s) + 1\<rparr>\<rparr>))
    (seqM timer_intr
    (seqM (modM (\<lambda>s. s\<lparr>sdl := (sdl s)\<lparr>device_update_flag := True\<rparr>\<rparr>))
      (modM (\<lambda>s. if unat (jiffy (sdl s)) mod (100 div 25) = 0
               then s\<lparr>sdl := (sdl s)\<lparr>update_screen_flag := True\<rparr>\<rparr> else s))))"

datatype sdl_event = SDL_KEYDOWN u32 | SDL_KEYUP u32 | SDL_QUIT | SDL_OTHER

text \<open>The two rows of the key map of nemu/src/device/sdl.h, with the enumeration values.\<close>

definition sym2scancode :: "u8 list list" where
  "sym2scancode = [
    [0, 0, 0, 0, 0, 0, 0, 0, 14, 15, 0, 0, 0, 28, 0, 0,
     0, 0, 0, 0, 0, 0, 0, 0, 0, 0, 0, 1, 0, 0, 0, 0,
     57, 0, 0, 0, 0, 0, 0, 40, 0, 0, 0, 0, 51, 12, 52, 53,
     11, 2, 3, 4, 5, 6, 7, 8, 9, 10, 0, 39, 0, 13, 0, 0,
     0, 0, 0, 0, 0, 0, 0, 0, 0, 0, 0, 0, 0, 0, 0, 0,
     0, 0, 0, 0, 0, 0, 0, 0, 0, 0, 0, 26, 43, 27, 0, 0,
     41, 30, 48, 46, 32, 18, 33, 34, 35, 23, 36, 37, 38, 50, 49, 24,
     25, 16, 19, 31, 20, 22, 47, 17, 45, 21, 44, 0, 0, 0, 0, 83],
    [0, 0, 0, 0, 0, 0, 0, 0, 0, 0, 0, 0, 0, 0, 0, 0,
     0, 72, 80, 77, 75, 82, 71, 79, 73, 81, 59, 60, 61, 62, 63, 64,
     65, 66, 67, 68, 87, 88, 0, 0, 0, 0, 0, 0, 69, 58, 70, 54,
     42, 29, 29, 56, 56, 0, 0, 0, 0, 0, 0, 0, 0, 0, 0, 0,
     0, 0, 0, 0, 0, 0, 0, 0, 0, 0, 0, 0, 0, 0, 0, 0,
     0, 0, 0, 0, 0, 0, 0, 0, 0, 0, 0, 0, 0, 0, 0, 0,
     0, 0, 0, 0, 0, 0, 0, 0, 0, 0, 0, 0, 0, 0, 0, 0,
     0, 0, 0, 0, 0, 0, 0, 0, 0, 0, 0, 0, 0, 0, 0, 0]]"

definition scancode :: "u32 \<Rightarrow> (machine, u8) M" where
  "scancode ksym =
     (if unat (drop_bit 8 ksym) < 2 \<and> unat (ksym AND 0xff) < 128
      then ret (sym2scancode ! unat (drop_bit 8 ksym) ! unat (ksym AND 0xff)) else fail OutOfBounds)"

definition device_update :: "sdl_event list \<Rightarrow> (machine, unit) M" where
  "device_update events =
     bindM (getM (\<lambda>s. device_update_flag (sdl s))) (\<lambda>f. whenM f
      (seqM (modM (\<lambda>s. s\<lparr>sdl := (sdl s)\<lparr>device_update_flag := False\<rparr>\<rparr>))
      (seqM (bindM (getM (\<lambda>s. update_screen_flag (sdl s))) (\<lambda>u. whenM u
              (seqM update_screen (modM (\<lambda>s. s\<lparr>sdl := (sdl s)\<lparr>update_screen_flag := False\<rparr>\<rparr>)))))
        (forM events (\<lambda>e. case e of
             SDL_KEYDOWN k \<Rightarrow> bindM (scancode k) keyboard_intr
           | SDL_KEYUP k \<Rightarrow> bindM (scancode k) (\<lambda>c. keyboard_intr (c OR 0x80))
           | SDL_QUIT \<Rightarrow> fail Exited
           | SDL_OTHER \<Rightarrow> ret ())))))"

end
