(* ===== verification/Device_Props.thy ===== *)
theory Device_Props
  imports Devices
begin

unbundle bit_operations_syntax

text \<open>
  Properties of the devices: what initialisation registers on the two buses, how a port access
  finds its handler, the serial output, the keyboard latch, the frame buffer and the screen
  update, and the effect of a bus-master transfer on the memory hierarchy.
\<close>

section \<open>The bus after initialisation\<close>

definition device_ports :: "PIO_t list" where
  "device_ports =
    [\<lparr>pio_low = 0x3F8, pio_high = 0x3FF, pio_cb = Serial_io\<rparr>,
     \<lparr>pio_low = 0x3C8, pio_high = 0x3C9, pio_cb = Vga_dac_io\<rparr>,
     \<lparr>pio_low = 0x3D4, pio_high = 0x3D5, pio_cb = Vga_crtc_io\<rparr>,
     \<lparr>pio_low = 0x60, pio_high = 0x60, pio_cb = I8042_io\<rparr>,
     \<lparr>pio_low = 0x1F0, pio_high = 0x1F7, pio_cb = Ide_io\<rparr>,
     \<lparr>pio_low = 0xc040, pio_high = 0xc047, pio_cb = Bmr_io\<rparr>]"

definition frame_buffer :: MMIO_t where
  "frame_buffer = \<lparr>mmio_low = 0xa0000, mmio_high = 0xbffff, mmio_space = 0, mmio_cb = Vga_vmem_io\<rparr>"

lemma run_set_port [run_simps, simp]:
  "set_port a v s = Ret () (s\<lparr>pio := (pio s)\<lparr>pio_space := (pio_space (pio s))(a := v)\<rparr>\<rparr>)"
  by (simp add: set_port_def)

lemma run_on_ide [run_simps, simp]: "on_ide f s = Ret () (s\<lparr>ide := f (ide s)\<rparr>)"
  by (simp add: on_ide_def)

lemma run_on_vga [run_simps, simp]: "on_vga f s = Ret () (s\<lparr>vga := f (vga s)\<rparr>)"
  by (simp add: on_vga_def)

lemma wp_device_steps [wp_simps]:
  "wp (set_port a v) Q = (\<lambda>s. Q () (s\<lparr>pio := (pio s)\<lparr>pio_space := (pio_space (pio s))(a := v)\<rparr>\<rparr>))"
  "wp (on_ide f) R = (\<lambda>s. R () (s\<lparr>ide := f (ide s)\<rparr>))"
  "wp (on_vga g) S = (\<lambda>s. S () (s\<lparr>vga := g (vga s)\<rparr>))"
  by (simp_all add: set_port_def on_ide_def on_vga_def wp_simps)

lemma init_device_run:
  assumes "pio_maps (pio s) = []" "mmio_maps (mmio s) = []" "mmio_space_free_index (mmio s) = 0"
  shows "wp (init_device img) (\<lambda>_ t. pio_maps (pio t) = device_ports \<and> mmio_maps (mmio t) = [frame_buffer] \<and>
    vmem_base (vga t) = 0 \<and> port 0x3FD t = 0x20 \<and> port 0x1F7 t = 0x40 \<and> port 0xc040 t = 0 \<and> \<not> newkey t \<and>
    disk (ide t) = img \<and> disk_pos (ide t) = 0 \<and> mem t = mem s \<and> cpu t = cpu s) s"
  using assms
  by (simp add: init_device_def init_serial_def init_timer_def init_vga_def init_i8042_def init_ide_def
      add_pio_map_def add_mmio_map_def wp_simps device_ports_def frame_buffer_def port_def Let_def)

text \<open>The handler of every port, as a table.\<close>

lemma device_port_map:
  assumes "pio_maps (pio s) = device_ports"
  shows "pio_map_of s a n = (if 0x3F8 \<le> unat a \<and> unat a + n - 1 \<le> 0x3FF then Some Serial_io
    else if 0x3C8 \<le> unat a \<and> unat a + n - 1 \<le> 0x3C9 then Some Vga_dac_io
    else if 0x3D4 \<le> unat a \<and> unat a + n - 1 \<le> 0x3D5 then Some Vga_crtc_io
    else if 0x60 \<le> unat a \<and> unat a + n - 1 \<le> 0x60 then Some I8042_io
    else if 0x1F0 \<le> unat a \<and> unat a + n - 1 \<le> 0x1F7 then Some Ide_io
    else if 0xc040 \<le> unat a \<and> unat a + n - 1 \<le> 0xc047 then Some Bmr_io else None)"
  unfolding pio_map_of_def assms device_ports_def by (simp add: word_le_nat_alt)

section \<open>The screen\<close>

definition vmem :: "machine \<Rightarrow> nat \<Rightarrow> nat \<Rightarrow> u8" where
  "vmem s i j = mmio_space_pool (mmio s) (vmem_base (vga s) + (i * CTR_COL + j))"

text \<open>Drawing one line: the two pixel rows show every byte of it twice.\<close>

definition drawn :: "nat \<Rightarrow> (nat \<Rightarrow> u8) \<Rightarrow> nat \<Rightarrow> (nat \<Rightarrow> nat \<Rightarrow> u8) \<Rightarrow> nat \<Rightarrow> nat \<Rightarrow> u8" where
  "drawn i row k buf = (\<lambda>y x. if y div 2 = i \<and> x < 2 * k then row (x div 2) else buf y x)"

lemma run_draw_pixel [run_simps]:
  "x < 640 \<Longrightarrow> y < 400 \<Longrightarrow> draw_pixel x y c s = Ret () (s\<lparr>vga := (vga s)\<lparr>pixel_buf :=
     (pixel_buf (vga s))(y := (pixel_buf (vga s) y)(x := c))\<rparr>\<rparr>)"
  by (simp add: draw_pixel_def run_simps)

lemma draw_line:
  assumes "i < 200"
  shows "wp (forM [0..<320] (\<lambda>j.
          bindM (getM (\<lambda>s. mmio_space_pool (mmio s) (vmem_base (vga s) + (i * 320 + j)))) (\<lambda>color_idx.
          seqM (draw_pixel (2 * j) (2 * i) color_idx)
         (seqM (draw_pixel (2 * j) (2 * i + 1) color_idx)
         (seqM (draw_pixel (2 * j + 1) (2 * i) color_idx)
               (draw_pixel (2 * j + 1) (2 * i + 1) color_idx))))))
    (\<lambda>_ t. t = s\<lparr>vga := (vga s)\<lparr>pixel_buf := drawn i (vmem s i) 320 (pixel_buf (vga s))\<rparr>\<rparr>) s"
proof (rule wp_for_upt [where I = "\<lambda>k t. t = s\<lparr>vga := (vga s)\<lparr>pixel_buf := drawn i (vmem s i) k (pixel_buf (vga s))\<rparr>\<rparr>"])
  show "s = s\<lparr>vga := (vga s)\<lparr>pixel_buf := drawn i (vmem s i) 0 (pixel_buf (vga s))\<rparr>\<rparr>"
    by (simp add: drawn_def)
next
  fix j t assume j: "j < 320" and t: "t = s\<lparr>vga := (vga s)\<lparr>pixel_buf := drawn i (vmem s i) j (pixel_buf (vga s))\<rparr>\<rparr>"
  let ?d = "drawn i (vmem s i) j (pixel_buf (vga s))" and ?c = "vmem s i j"
  have split: "(y div 2 = i \<and> x < 2 * Suc j) = (y div 2 = i \<and> x < 2 * j \<or> y = 2 * i \<and> x = 2 * j \<or> y = 2 * i \<and> x = 2 * j + 1 \<or>
      y = 2 * i + 1 \<and> x = 2 * j \<or> y = 2 * i + 1 \<and> x = 2 * j + 1)" for x y
    by auto
  have step: "(((?d(2 * i := (?d (2 * i))(2 * j := ?c)))(2 * i + 1 := (?d (2 * i + 1))(2 * j := ?c)))
      (2 * i := ((?d (2 * i))(2 * j := ?c))(2 * j + 1 := ?c)))(2 * i + 1 := ((?d (2 * i + 1))(2 * j := ?c))(2 * j + 1 := ?c))
    = drawn i (vmem s i) (Suc j) (pixel_buf (vga s))"
    by (intro ext) (unfold drawn_def split, auto)
  have v: "mmio_space_pool (mmio t) (vmem_base (vga t) + (i * 320 + j)) = ?c" by (simp add: t vmem_def)
  show "wp (bindM (getM (\<lambda>s. mmio_space_pool (mmio s) (vmem_base (vga s) + (i * 320 + j)))) (\<lambda>color_idx.
          seqM (draw_pixel (2 * j) (2 * i) color_idx)
         (seqM (draw_pixel (2 * j) (2 * i + 1) color_idx)
         (seqM (draw_pixel (2 * j + 1) (2 * i) color_idx)
               (draw_pixel (2 * j + 1) (2 * i + 1) color_idx)))))
      (\<lambda>_ t. t = s\<lparr>vga := (vga s)\<lparr>pixel_buf := drawn i (vmem s i) (Suc j) (pixel_buf (vga s))\<rparr>\<rparr>) t"
    using j assms step unfolding wp_bindM wp_getM v
    by (simp add: wp_def seqM_def bindM_def run_draw_pixel t)
qed simp

text \<open>Line \<open>i\<close> is on the screen: the picture shows its bytes of video memory, doubled in both directions.\<close>

definition shown :: "machine \<Rightarrow> nat \<Rightarrow> bool" where
  "shown s i \<longleftrightarrow> (\<forall>y x. y div 2 = i \<longrightarrow> x < 640 \<longrightarrow> pixel_buf (vga s) y x = vmem s i (x div 2))"

definition redrawn :: "machine \<Rightarrow> nat \<Rightarrow> machine \<Rightarrow> bool" where
  "redrawn s k t \<longleftrightarrow> (\<forall>i<k. line_dirty (vga s) i \<longrightarrow> shown t i) \<and>
     (\<forall>y x. y div 2 < k \<and> line_dirty (vga s) (y div 2) \<or> pixel_buf (vga t) y x = pixel_buf (vga s) y x) \<and>
     (\<exists>p. t = s\<lparr>vga := (vga s)\<lparr>pixel_buf := p\<rparr>\<rparr>)"

lemma redraw_spec: "wp do_update_screen_graphic_mode (\<lambda>_. redrawn s 200) s"
  unfolding do_update_screen_graphic_mode_def
proof (rule wp_for_upt [where I = "redrawn s"])
  show "redrawn s 0 s" by (auto simp: redrawn_def intro: exI [of _ "pixel_buf (vga s)"])
next
  fix k t assume k: "k < 200" and I: "redrawn s k t"
  then obtain p where p: "t = s\<lparr>vga := (vga s)\<lparr>pixel_buf := p\<rparr>\<rparr>" by (auto simp: redrawn_def)
  have dirty: "line_dirty (vga t) k = line_dirty (vga s) k" by (simp add: p)
  let ?t = "t\<lparr>vga := (vga t)\<lparr>pixel_buf := drawn k (vmem t k) 320 (pixel_buf (vga t))\<rparr>\<rparr>"
  have vm: "vmem ?t i = vmem t i" for i by (intro ext) (simp add: vmem_def)
  have drawn_k: "shown ?t k" unfolding shown_def vm by (simp add: drawn_def)
  have drawn_i: "shown ?t i" if "shown t i" "i \<noteq> k" for i
    using that unfolding shown_def vm by (simp add: drawn_def)
  show "wp (bindM (getM (\<lambda>s. line_dirty (vga s) k)) (\<lambda>d. whenM d
       (forM [0..<320] (\<lambda>j.
          bindM (getM (\<lambda>s. mmio_space_pool (mmio s) (vmem_base (vga s) + (k * 320 + j)))) (\<lambda>color_idx.
          seqM (draw_pixel (2 * j) (2 * k) color_idx)
         (seqM (draw_pixel (2 * j) (2 * k + 1) color_idx)
         (seqM (draw_pixel (2 * j + 1) (2 * k) color_idx)
               (draw_pixel (2 * j + 1) (2 * k + 1) color_idx))))))))
      (\<lambda>_. redrawn s (Suc k)) t"
  proof (cases "line_dirty (vga s) k")
    case True
    have "shown ?t i" if "i < Suc k" "line_dirty (vga s) i" for i
    proof (cases "i = k")
      case True
      then show ?thesis using drawn_k by (simp only:)
    next
      case False
      with that I have "shown t i" by (auto simp: less_Suc_eq redrawn_def)
      from drawn_i [OF this False] show ?thesis .
    qed
    moreover have "y div 2 < Suc k \<and> line_dirty (vga s) (y div 2) \<or> pixel_buf (vga ?t) y x = pixel_buf (vga s) y x" for y x
      using I True by (auto simp: drawn_def redrawn_def less_Suc_eq)
    moreover have "\<exists>p. ?t = s\<lparr>vga := (vga s)\<lparr>pixel_buf := p\<rparr>\<rparr>"
      unfolding p by (intro exI [of _ "drawn k (vmem t k) 320 (pixel_buf (vga t))"]) (simp add: p)
    ultimately have "redrawn s (Suc k) ?t" unfolding redrawn_def by blast
    then have done_k: "redrawn s (Suc k) u" if "u = ?t" for u unfolding that .
    from True dirty show ?thesis
      by (simp only: wp_bindM wp_getM wp_whenM if_True) (rule wp_mono [OF draw_line [OF k]], rule done_k)
  next
    case False
    then show ?thesis using I dirty by (auto simp: wp_simps less_Suc_eq redrawn_def)
  qed
qed auto

text \<open>The marks are covered by \<open>vmem_dirty\<close>, without which \<open>update_screen\<close> does nothing.\<close>

definition marks_ok :: "machine \<Rightarrow> bool" where
  "marks_ok s \<longleftrightarrow> ((\<exists>i<200. line_dirty (vga s) i) \<longrightarrow> vmem_dirty (vga s))"

lemma update_screen_spec:
  assumes "marks_ok s"
  shows "wp update_screen (\<lambda>_ t. (\<forall>i<200. \<not> line_dirty (vga t) i) \<and> (\<forall>i<200. line_dirty (vga s) i \<or> shown s i \<longrightarrow> shown t i) \<and>
    (\<forall>y x. y div 2 < 200 \<and> line_dirty (vga s) (y div 2) \<or> pixel_buf (vga t) y x = pixel_buf (vga s) y x) \<and>
    mmio t = mmio s \<and> vmem_base (vga t) = vmem_base (vga s)) s"
proof (cases "vmem_dirty (vga s)")
  case False
  then show ?thesis using assms by (auto simp: update_screen_def wp_simps marks_ok_def)
next
  case True
  have "wp do_update_screen_graphic_mode (\<lambda>_ t.
      (let u = t\<lparr>vga := (vga t)\<lparr>vmem_dirty := False, line_dirty := (\<lambda>i. i \<ge> 200 \<and> line_dirty (vga t) i)\<rparr>\<rparr> in
       (\<forall>i<200. \<not> line_dirty (vga u) i) \<and> (\<forall>i<200. line_dirty (vga s) i \<or> shown s i \<longrightarrow> shown u i) \<and>
       (\<forall>y x. y div 2 < 200 \<and> line_dirty (vga s) (y div 2) \<or> pixel_buf (vga u) y x = pixel_buf (vga s) y x) \<and>
       mmio u = mmio s \<and> vmem_base (vga u) = vmem_base (vga s))) s"
  proof (rule wp_mono [OF redraw_spec])
    fix x t assume t: "redrawn s 200 t"
    let ?u = "t\<lparr>vga := (vga t)\<lparr>vmem_dirty := False, line_dirty := (\<lambda>i. i \<ge> 200 \<and> line_dirty (vga t) i)\<rparr>\<rparr>"
    from t obtain p where p: "t = s\<lparr>vga := (vga s)\<lparr>pixel_buf := p\<rparr>\<rparr>" by (auto simp: redrawn_def)
    have pix: "y div 2 < 200 \<and> line_dirty (vga s) (y div 2) \<or> pixel_buf (vga ?u) y x = pixel_buf (vga s) y x" for y x
      using t unfolding redrawn_def by auto
    have vm: "vmem ?u i = vmem t i" "vmem t i = vmem s i" for i by (intro ext, simp add: vmem_def p)+
    have "shown ?u i" if i: "i < 200" "line_dirty (vga s) i \<or> shown s i" for i
    proof (cases "line_dirty (vga s) i")
      case True
      then show ?thesis using t i(1) by (simp add: redrawn_def shown_def vm)
    next
      case False
      then have "shown s i" using i by blast
      show ?thesis unfolding shown_def vm
      proof (intro allI impI)
        fix y x :: nat assume y: "y div 2 = i" "x < 640"
        have "pixel_buf (vga ?u) y x = pixel_buf (vga s) y x" using pix [of y x] y(1) False by blast
        also have "\<dots> = vmem s i (x div 2)" using \<open>shown s i\<close> y by (simp add: shown_def)
        finally show "pixel_buf (vga ?u) y x = vmem s i (x div 2)" .
      qed
    qed
    moreover have "mmio ?u = mmio s" "vmem_base (vga ?u) = vmem_base (vga s)" "\<forall>i<200. \<not> line_dirty (vga ?u) i" by (simp_all add: p)
    ultimately show "let u = ?u in
       (\<forall>i<200. \<not> line_dirty (vga u) i) \<and> (\<forall>i<200. line_dirty (vga s) i \<or> shown s i \<longrightarrow> shown u i) \<and>
       (\<forall>y x. y div 2 < 200 \<and> line_dirty (vga s) (y div 2) \<or> pixel_buf (vga u) y x = pixel_buf (vga s) y x) \<and>
       mmio u = mmio s \<and> vmem_base (vga u) = vmem_base (vga s)" using pix unfolding Let_def by blast
  qed
  with True show ?thesis by (simp add: update_screen_def wp_simps Let_def)
qed

text \<open>A write through the bus into video memory stores the bytes and marks the line of the first one.\<close>

lemma frame_write_run:
  assumes map: "mmio_maps (mmio s) = [frame_buffer]"
    and a: "0xa0000 \<le> unat a" "unat a + n \<le> 0xa0000 + 64000" and n: "n = 1 \<or> n = 2 \<or> n = 4"
  shows "hwaddr_write a n v s = Ret () (s\<lparr>mmio := (mmio s)\<lparr>mmio_space_pool := store (unat a - 0xa0000) n v (mmio_space_pool (mmio s))\<rparr>,
     vga := (vga s)\<lparr>line_dirty := (line_dirty (vga s))((unat a - 0xa0000) div 320 := True), vmem_dirty := True\<rparr>\<rparr>)"
proof -
  define o' where "o' = unat a - 0xa0000"
  define L where "L = o' div 320"
  have lowle: "0xa0000 \<le> a" "a \<le> 0xbffff" "a \<noteq> 0" using a n by (auto simp: word_le_nat_alt)
  have off: "unat (a - 0xa0000) = o'" using lowle(1) by (simp add: o'_def unat_sub)
  have o_lt: "o' + n \<le> 64000" "0 < n" using a n by (auto simp: o'_def)
  then have L: "L < 200" by (simp add: L_def less_mult_imp_div_less)
  have hit: "is_mmio s a = Some 0" using lowle by (simp add: is_mmio_def map frame_buffer_def find_way_Some)
  have msk: "byte_at i (len_mask n) \<noteq> 0" if "i < n" for i
  proof -
    have "bit (byte_at i (len_mask n)) 0" using that n by (auto simp: bit_byte_at bit_len_mask)
    then show ?thesis by auto
  qed
  have pool: "memcpy_with_mask (mmio_space_pool (mmio s)) o' (\<lambda>i. byte_at i v) 0 n (\<lambda>i. byte_at i (len_mask n)) =
      store o' n v (mmio_space_pool (mmio s))"
    using msk by (auto simp: memcpy_with_mask_def store_def)
  have bound: "\<not> o' + n > 262144" using o_lt by simp
  show ?thesis
    using lowle(3) n bound L unfolding hwaddr_write_def o'_def [symmetric] L_def [symmetric]
    by (simp add: hit mmio_write_def map frame_buffer_def off pool run_mmio_callback_def vga_vmem_io_handler_def
        Let_def run_simps seqM_def bindM_def flip: L_def)
qed

section \<open>Sequences of writes and refreshes\<close>

datatype screen_event = Frame_write u32 nat u32 | Refresh

definition frame_event :: "screen_event \<Rightarrow> bool" where
  "frame_event e = (case e of
     Frame_write a n v \<Rightarrow> 0xa0000 \<le> unat a \<and> unat a + n \<le> 0xa0000 + 64000 \<and> (n = 1 \<or> n = 2 \<or> n = 4) | Refresh \<Rightarrow> True)"

fun screen_step :: "screen_event \<Rightarrow> (machine, unit) M" where
  "screen_step (Frame_write a n v) = hwaddr_write a n v"
| "screen_step Refresh = update_screen"

text \<open>What video memory holds after the events: at every offset the byte written last, 0 if there is none.\<close>

fun video_after :: "screen_event \<Rightarrow> bytes \<Rightarrow> bytes" where
  "video_after (Frame_write a n v) V = store (unat a - 0xa0000) n v V"
| "video_after Refresh V = V"

definition video :: "screen_event list \<Rightarrow> bytes" where
  "video evs = fold video_after evs (\<lambda>_. 0)"

text \<open>
  A write starts in the line of its first byte and may spill into the next one. A line is left behind when a write has
  spilled into it and no later one has started in it.
\<close>

fun starts_in :: "nat \<Rightarrow> screen_event \<Rightarrow> bool" where
  "starts_in i (Frame_write a n v) \<longleftrightarrow> (unat a - 0xa0000) div 320 = i"
| "starts_in i Refresh \<longleftrightarrow> False"

fun spills_into :: "nat \<Rightarrow> screen_event \<Rightarrow> bool" where
  "spills_into i (Frame_write a n v) \<longleftrightarrow> (unat a - 0xa0000) div 320 < i \<and> 320 * i < unat a - 0xa0000 + n"
| "spills_into i Refresh \<longleftrightarrow> False"

definition left_behind :: "screen_event list \<Rightarrow> nat \<Rightarrow> bool" where
  "left_behind evs i \<longleftrightarrow> (\<exists>before e after. evs = before @ e # after \<and> spills_into i e \<and> (\<forall>e'\<in>set after. \<not> starts_in i e'))"

lemma left_behind_snoc: "left_behind (evs @ [e]) i \<longleftrightarrow> spills_into i e \<or> left_behind evs i \<and> \<not> starts_in i e"
proof
  assume "left_behind (evs @ [e]) i"
  then obtain before f after where f: "evs @ [e] = before @ f # after" "spills_into i f" "\<forall>e'\<in>set after. \<not> starts_in i e'"
    unfolding left_behind_def by blast
  show "spills_into i e \<or> left_behind evs i \<and> \<not> starts_in i e"
  proof (cases after rule: rev_cases)
    case Nil
    then show ?thesis using f by simp
  next
    case (snoc ys y)
    with f have "evs = before @ f # ys" "y = e" by simp_all
    with f snoc show ?thesis unfolding left_behind_def by auto
  qed
next
  assume "spills_into i e \<or> left_behind evs i \<and> \<not> starts_in i e"
  then show "left_behind (evs @ [e]) i"
  proof
    assume "spills_into i e"
    then show ?thesis unfolding left_behind_def by (intro exI [of _ evs] exI [of _ e] exI [of _ "[]"]) simp
  next
    assume l: "left_behind evs i \<and> \<not> starts_in i e"
    then obtain before f after where "evs = before @ f # after" "spills_into i f" "\<forall>e'\<in>set after. \<not> starts_in i e'"
      unfolding left_behind_def by blast
    with l show ?thesis unfolding left_behind_def
      by (intro exI [of _ before] exI [of _ f] exI [of _ "after @ [e]"]) auto
  qed
qed

text \<open>The state of the display after the events.\<close>

definition display_inv :: "screen_event list \<Rightarrow> machine \<Rightarrow> bool" where
  "display_inv evs s \<longleftrightarrow> mmio_maps (mmio s) = [frame_buffer] \<and> vmem_base (vga s) = 0 \<and> mmio_space_pool (mmio s) = video evs \<and>
     marks_ok s \<and> (\<forall>i<200. line_dirty (vga s) i \<or> left_behind evs i \<or> shown s i)"

lemma display_inv_refresh:
  assumes "display_inv evs s"
  shows "wp update_screen (\<lambda>_ t. display_inv (evs @ [Refresh]) t \<and> (\<forall>i<200. left_behind evs i \<or> shown t i)) s"
proof (rule wp_mono [OF update_screen_spec])
  show "marks_ok s" using assms by (simp add: display_inv_def)
  have v: "video (evs @ [Refresh]) = video evs" by (simp add: video_def)
  have l: "left_behind (evs @ [Refresh]) i = left_behind evs i" for i by (simp add: left_behind_snoc)
  fix u t
  assume "(\<forall>i<200. \<not> line_dirty (vga t) i) \<and> (\<forall>i<200. line_dirty (vga s) i \<or> shown s i \<longrightarrow> shown t i) \<and>
    (\<forall>y x. y div 2 < 200 \<and> line_dirty (vga s) (y div 2) \<or> pixel_buf (vga t) y x = pixel_buf (vga s) y x) \<and>
    mmio t = mmio s \<and> vmem_base (vga t) = vmem_base (vga s)"
  with assms show "display_inv (evs @ [Refresh]) t \<and> (\<forall>i<200. left_behind evs i \<or> shown t i)"
    unfolding display_inv_def v l marks_ok_def by auto
qed

lemma display_inv_write:
  assumes inv: "display_inv evs s" and e: "frame_event (Frame_write a n v)"
  shows "wp (hwaddr_write a n v) (\<lambda>_. display_inv (evs @ [Frame_write a n v])) s"
proof -
  define o' where "o' = unat a - 0xa0000"
  define L where "L = o' div 320"
  let ?e = "Frame_write a n v"
  let ?t = "s\<lparr>mmio := (mmio s)\<lparr>mmio_space_pool := store o' n v (mmio_space_pool (mmio s))\<rparr>,
     vga := (vga s)\<lparr>line_dirty := (line_dirty (vga s))(L := True), vmem_dirty := True\<rparr>\<rparr>"
  have map: "mmio_maps (mmio s) = [frame_buffer]" and base: "vmem_base (vga s) = 0" using inv by (simp_all add: display_inv_def)
  have run: "hwaddr_write a n v s = Ret () ?t"
    using frame_write_run [OF map, of a n v, folded o'_def, folded L_def] e by (simp add: frame_event_def)
  have "line_dirty (vga ?t) i \<or> left_behind (evs @ [?e]) i \<or> shown ?t i" if i: "i < 200" for i
  proof (cases "i = L \<or> spills_into i ?e \<or> line_dirty (vga s) i \<or> left_behind evs i")
    case True
    then show ?thesis by (auto simp: left_behind_snoc L_def o'_def)
  next
    case False
    then have "shown s i" using inv i by (auto simp: display_inv_def)
    have out: "\<not> (o' \<le> i * 320 + j \<and> i * 320 + j < o' + n)" if j: "j < 320" for j
    proof
      assume w: "o' \<le> i * 320 + j \<and> i * 320 + j < o' + n"
      then have "L \<le> i" using j div_le_mono [of o' "i * 320 + j" 320] by (simp add: L_def)
      with False have "L < i" by auto
      then have "o' div 320 < i" "320 * i < o' + n" using w by (auto simp: L_def)
      with False show False by (simp add: o'_def)
    qed
    have same: "vmem ?t i j = vmem s i j" if "j < 320" for j using out [OF that] by (auto simp: vmem_def base store_def)
    have "shown ?t i" unfolding shown_def
    proof (intro allI impI)
      fix y x :: nat assume y: "y div 2 = i" "x < 640"
      then have "pixel_buf (vga s) y x = vmem s i (x div 2)" using \<open>shown s i\<close> by (simp add: shown_def)
      then show "pixel_buf (vga ?t) y x = vmem ?t i (x div 2)" using same [of "x div 2"] y(2) by simp
    qed
    then show ?thesis by blast
  qed
  moreover have "video (evs @ [?e]) = store o' n v (video evs)" by (simp add: video_def o'_def)
  ultimately have "display_inv (evs @ [?e]) ?t" using inv by (simp add: display_inv_def marks_ok_def)
  with run show ?thesis by (simp add: wp_def)
qed

lemma display_inv_run:
  assumes "display_inv [] s" "\<forall>e\<in>set evs. frame_event e"
  shows "wp (forM evs screen_step) (\<lambda>_. display_inv evs) s"
proof (rule wp_forM [where I = display_inv])
  fix before e rest t assume evs: "evs = before @ e # rest" and inv: "display_inv before t"
  have "frame_event e" using assms(2) evs by simp
  then show "wp (screen_step e) (\<lambda>_. display_inv (before @ [e])) t"
    using display_inv_write [OF inv] wp_mono [OF display_inv_refresh [OF inv]] by (cases e) auto
qed (use assms(1) in simp_all)

section \<open>Properties\<close>

text \<open>A machine whose devices have just been initialised with a blank screen.\<close>

definition booted :: "u8 list \<Rightarrow> machine" where
  "booted img = cold_machine\<lparr>nemu_state := RUNNING, pio := \<lparr>pio_space = (\<lambda>_. 0), pio_maps = device_ports\<rparr>,
     mmio := \<lparr>mmio_space_pool = (\<lambda>_. 0), mmio_space_free_index = 0x20000, mmio_maps = [frame_buffer]\<rparr>,
     ide := \<lparr>ide_sector = 0, disk_idx = 0, byte_cnt = 0, ide_write = False, disk = img, disk_pos = 0\<rparr>\<rparr>"

text \<open>
  \<open>init_device\<close> on empty buses registers the six port ranges and the frame buffer of the
  devices, in the order that decides which handler serves a port, sets the ready bits of the
  serial port and the disk, and touches neither the processor nor memory.
\<close>

lemma init_device_registers:
  assumes "pio_maps (pio s) = []" "mmio_maps (mmio s) = []" "mmio_space_free_index (mmio s) = 0"
  shows "wp (init_device img) (\<lambda>_ t. mmio_maps (mmio t) = [frame_buffer] \<and> vmem_base (vga t) = 0 \<and>
    pio_map_of t 0x3F8 1 = Some Serial_io \<and> pio_map_of t 0x60 1 = Some I8042_io \<and>
    pio_map_of t 0x1F0 4 = Some Ide_io \<and> pio_map_of t 0x3C9 1 = Some Vga_dac_io \<and> pio_map_of t 0xc040 1 = Some Bmr_io \<and>
    port 0x3FD t = 0x20 \<and> port 0x1F7 t = 0x40 \<and> disk (ide t) = img \<and> mem t = mem s \<and> cpu t = cpu s) s"
  by (rule wp_mono [OF init_device_run [OF assms]]) (simp add: device_port_map)


lemma booted_display: "display_inv [] (booted img)"
  by (auto simp: display_inv_def marks_ok_def shown_def booted_def cold_machine_def vmem_def video_def)

text \<open>
  C25. The display shows video memory: after any sequence of processor writes into the frame buffer and
  screen updates from the booted machine, one more \<open>update_screen\<close> leaves no line marked, and every pixel is the byte
  of video memory it stands for, that is the byte written there last, each byte drawn as a 2x2 square, on every line that is
  not left behind. Left behind is a line into which a write of two or four bytes that starts in the line above has spilled, as
  long as no later write starts in it: \<open>vga_vmem_io_handler\<close> marks the first line of a write only. No aligned
  write spills.
\<close>

theorem screen_shows_video_memory:
  assumes "\<forall>e\<in>set evs. frame_event e"
  shows "wp (seqM (forM evs screen_step) update_screen) (\<lambda>_ t. (\<forall>i<200. \<not> line_dirty (vga t) i) \<and>
    mmio_space_pool (mmio t) = video evs \<and>
    (\<forall>y<400. \<forall>x<640. left_behind evs (y div 2) \<or> pixel_buf (vga t) y x = video evs (y div 2 * 320 + x div 2))) (booted img)"
  unfolding wp_seqM
proof (rule wp_mono [OF display_inv_run [OF booted_display assms]])
  fix x s assume inv: "display_inv evs s"
  show "wp update_screen (\<lambda>_ t. (\<forall>i<200. \<not> line_dirty (vga t) i) \<and> mmio_space_pool (mmio t) = video evs \<and>
    (\<forall>y<400. \<forall>x<640. left_behind evs (y div 2) \<or> pixel_buf (vga t) y x = video evs (y div 2 * 320 + x div 2))) s"
  proof (rule wp_mono [OF wp_conj [OF display_inv_refresh [OF inv] update_screen_spec]])
    show "marks_ok s" using inv by (simp add: display_inv_def)
    fix x t
    assume t: "(display_inv (evs @ [Refresh]) t \<and> (\<forall>i<200. left_behind evs i \<or> shown t i)) \<and>
      (\<forall>i<200. \<not> line_dirty (vga t) i) \<and> (\<forall>i<200. line_dirty (vga s) i \<or> shown s i \<longrightarrow> shown t i) \<and>
      (\<forall>y x. y div 2 < 200 \<and> line_dirty (vga s) (y div 2) \<or> pixel_buf (vga t) y x = pixel_buf (vga s) y x) \<and>
      mmio t = mmio s \<and> vmem_base (vga t) = vmem_base (vga s)"
    have v: "mmio_space_pool (mmio t) = video evs" "vmem_base (vga t) = 0" using inv t by (simp_all add: display_inv_def)
    have "left_behind evs (y div 2) \<or> pixel_buf (vga t) y x = video evs (y div 2 * 320 + x div 2)" if "y < 400" "x < 640" for y x
    proof -
      have "y div 2 < 200" using that by simp
      then show ?thesis using t that v by (auto simp: shown_def vmem_def)
    qed
    with t v show "(\<forall>i<200. \<not> line_dirty (vga t) i) \<and> mmio_space_pool (mmio t) = video evs \<and>
      (\<forall>y<400. \<forall>x<640. left_behind evs (y div 2) \<or> pixel_buf (vga t) y x = video evs (y div 2 * 320 + x div 2))" by blast
  qed
qed

theorem screen_shows_video_memory_witness:
  "wp (seqM (forM [Frame_write 0xa0140 4 0x01020304, Refresh, Frame_write 0xa0144 2 0x0506] screen_step) update_screen)
     (\<lambda>_ t. pixel_buf (vga t) 3 1 = 4 \<and> pixel_buf (vga t) 2 8 = 6 \<and> pixel_buf (vga t) 0 0 = 0) (booted [])"
proof -
  let ?evs = "[Frame_write 0xa0140 4 0x01020304, Refresh, Frame_write 0xa0144 2 0x0506]"
  have l: "\<not> left_behind ?evs i" for i
  proof -
    have "?evs = [Frame_write 0xa0140 4 0x01020304] @ [Refresh] @ [Frame_write 0xa0144 2 0x0506]" by simp
    moreover have "\<not> left_behind [] i" by (simp add: left_behind_def)
    ultimately show ?thesis
      using left_behind_snoc [of "[]" "Frame_write 0xa0140 4 0x01020304" i] left_behind_snoc [of "[Frame_write 0xa0140 4 0x01020304]" Refresh i]
        left_behind_snoc [of "[Frame_write 0xa0140 4 0x01020304, Refresh]" "Frame_write 0xa0144 2 0x0506" i] by auto
  qed
  have v: "video ?evs 320 = 4" "video ?evs 324 = 6" "video ?evs 0 = 0"
    by (simp_all add: video_def store_def byte_at_def)
  show ?thesis
  proof (rule wp_mono [OF screen_shows_video_memory])
    show "\<forall>e\<in>set ?evs. frame_event e" by (simp add: frame_event_def)
    fix x t assume t: "(\<forall>i<200. \<not> line_dirty (vga t) i) \<and> mmio_space_pool (mmio t) = video ?evs \<and>
      (\<forall>y<400. \<forall>x<640. left_behind ?evs (y div 2) \<or> pixel_buf (vga t) y x = video ?evs (y div 2 * 320 + x div 2))"
    have "pixel_buf (vga t) y x = video ?evs (y div 2 * 320 + x div 2)" if "y < 400" "x < 640" for y x
      using t l that by blast
    from this [of 3 1] this [of 2 8] this [of 0 0] v
    show "pixel_buf (vga t) 3 1 = 4 \<and> pixel_buf (vga t) 2 8 = 6 \<and> pixel_buf (vga t) 0 0 = 0" by simp
  qed
qed

text \<open>
  The line a write spills into, if it was on the screen and not marked, keeps its old picture through the next
  \<open>update_screen\<close>, which leaves no mark behind that would ever repair it.
\<close>

lemma spilled_line_is_stale:
  assumes "display_inv evs s" "frame_event (Frame_write a n v)" "spills_into i (Frame_write a n v)" "\<not> line_dirty (vga s) i"
    and "y div 2 = i"
  shows "wp (seqM (hwaddr_write a n v) update_screen) (\<lambda>_ t. pixel_buf (vga t) y x = pixel_buf (vga s) y x \<and>
    (\<forall>i<200. \<not> line_dirty (vga t) i)) s"
proof -
  have map: "mmio_maps (mmio s) = [frame_buffer]" using assms(1) by (simp add: display_inv_def)
  let ?t = "s\<lparr>mmio := (mmio s)\<lparr>mmio_space_pool := store (unat a - 0xa0000) n v (mmio_space_pool (mmio s))\<rparr>,
     vga := (vga s)\<lparr>line_dirty := (line_dirty (vga s))((unat a - 0xa0000) div 320 := True), vmem_dirty := True\<rparr>\<rparr>"
  have run: "hwaddr_write a n v s = Ret () ?t" using frame_write_run [OF map] assms(2) by (simp add: frame_event_def)
  have clean: "\<not> line_dirty (vga ?t) (y div 2)" using assms(3-5) by auto
  have "wp update_screen (\<lambda>_ t. pixel_buf (vga t) y x = pixel_buf (vga s) y x \<and> (\<forall>i<200. \<not> line_dirty (vga t) i)) ?t"
  proof (rule wp_mono [OF update_screen_spec])
    fix u t assume t: "(\<forall>i<200. \<not> line_dirty (vga t) i) \<and> (\<forall>i<200. line_dirty (vga ?t) i \<or> shown ?t i \<longrightarrow> shown t i) \<and>
      (\<forall>y x. y div 2 < 200 \<and> line_dirty (vga ?t) (y div 2) \<or> pixel_buf (vga t) y x = pixel_buf (vga ?t) y x) \<and>
      mmio t = mmio ?t \<and> vmem_base (vga t) = vmem_base (vga ?t)"
    then have "pixel_buf (vga t) y x = pixel_buf (vga ?t) y x" using clean by blast
    with t show "pixel_buf (vga t) y x = pixel_buf (vga s) y x \<and> (\<forall>i<200. \<not> line_dirty (vga t) i)" by simp
  qed (simp add: marks_ok_def)
  with run show ?thesis by (simp add: wp_seqM wp_RetI [of "hwaddr_write a n v", OF run])
qed

lemma port_cpu_pic [simp]: "port a (s\<lparr>pic := p, cpu := c\<rparr>) = port a s" "port a (s\<lparr>newkey := b\<rparr>) = port a s"
  by (simp_all add: port_def)

lemma pend_cong: "pic t = pic s \<Longrightarrow> pend t = pend s"
  by (simp add: pend_def)

lemma pic_inv_cong: "pic t = pic s \<Longrightarrow> INTR (cpu t) = INTR (cpu s) \<Longrightarrow> pic_inv k t = pic_inv k s"
  using pend_cong [of t s] by (simp add: pic_inv_def pic_wired_def)

text \<open>
  The keyboard latch: while the emulator runs and no key is waiting, a key event stores its
  scan code in the data port, raises interrupt line 1 and marks the key as waiting; while a key
  is waiting further events are dropped and change nothing; reading the data port returns the
  stored code and makes the latch ready again.
\<close>

lemma keyboard_latch:
  assumes "pio_maps (pio s) = device_ports" "nemu_state s = RUNNING" "pic_inv k s"
  shows "(\<not> newkey s \<longrightarrow> wp (keyboard_intr c) (\<lambda>_ t. port 0x60 t = c \<and> newkey t \<and> pend t = insert 1 (pend s) \<and> pic_inv k t) s) \<and>
    (newkey s \<longrightarrow> keyboard_intr c s = Ret () s) \<and>
    wp (pio_read 0x60 1) (\<lambda>v t. v = ucast (port 0x60 s) \<and> \<not> newkey t \<and> pend t = pend s) s"
proof (intro conjI impI)
  assume nk: "\<not> newkey s"
  let ?s = "s\<lparr>pio := (pio s)\<lparr>pio_space := (pio_space (pio s))(0x60 := c)\<rparr>\<rparr>"
  have w: "pic_wired k ?s" "pend ?s = pend s" using assms(3) by (simp_all add: pic_inv_def pic_wired_def pend_def)
  from raise_run [OF w(1), of 1] obtain p b where
    r: "i8259_raise_intr 1 ?s = Ret () (?s\<lparr>pic := p, cpu := (cpu ?s)\<lparr>INTR := b\<rparr>\<rparr>)"
      "pic_inv k (?s\<lparr>pic := p, cpu := (cpu ?s)\<lparr>INTR := b\<rparr>\<rparr>)"
      "pend (?s\<lparr>pic := p, cpu := (cpu ?s)\<lparr>INTR := b\<rparr>\<rparr>) = insert 1 (pend s)" using w(2) by auto
  let ?t = "?s\<lparr>pic := p, cpu := (cpu ?s)\<lparr>INTR := b\<rparr>, newkey := True\<rparr>"
  have "keyboard_intr c s = Ret () ?t"
    using nk assms(2) r(1) by (simp add: keyboard_intr_def run_simps seqM_def bindM_def)
  moreover have "pic_inv k ?t" "pend ?t = insert 1 (pend s)"
    using r(2,3) pic_inv_cong [of ?t "?s\<lparr>pic := p, cpu := (cpu ?s)\<lparr>INTR := b\<rparr>\<rparr>"]
      pend_cong [of ?t "?s\<lparr>pic := p, cpu := (cpu ?s)\<lparr>INTR := b\<rparr>\<rparr>"] by simp_all
  ultimately show "wp (keyboard_intr c) (\<lambda>_ t. port 0x60 t = c \<and> newkey t \<and> pend t = insert 1 (pend s) \<and> pic_inv k t) s"
    by (simp add: wp_def port_def)
next
  assume "newkey s"
  then show "keyboard_intr c s = Ret () s" by (simp add: keyboard_intr_def run_simps bindM_def)
next
  have h: "pio_map_of s 0x60 1 = Some I8042_io" by (simp add: device_port_map [OF assms(1)])
  have "le32 (\<lambda>i. port (0x60 + i) s) AND len_mask 1 = ucast (port 0x60 s)"
    using and_byte_mask [of "le32 (\<lambda>i. port (0x60 + i) s)"] by simp
  then show "wp (pio_read 0x60 1) (\<lambda>v t. v = ucast (port 0x60 s) \<and> \<not> newkey t \<and> pend t = pend s) s"
    using h by (simp add: pio_read_def pio_callback_def wp_simps run_pio_callback_def i8042_io_handler_def pend_def)
qed

lemma booted_pic: "pic_inv 6 (booted img)" "pend (booted img) = {}"
  by (simp_all add: pic_inv_def pic_wired_def pend_def booted_def cold_machine_def reset_cpu_def)


text \<open>
  A byte written to the serial data port is appended to the output of the host exactly once,
  and writes to the other serial registers print nothing.
\<close>

lemma serial_output:
  assumes "pio_maps (pio s) = device_ports" "i < 8"
  shows "wp (pio_write (0x3F8 + of_nat i) 1 v) (\<lambda>_ t. serial_out t =
    serial_out s @ (if i = 0 then [byte_at 0 v] else []) \<and> pio_maps (pio t) = device_ports) s"
proof -
  have a: "unat (0x3F8 + of_nat i :: u16) = 0x3F8 + i" using assms(2) by (simp add: unat_word_ariths unat_of_nat)
  let ?s = "s\<lparr>pio := (pio s)\<lparr>pio_space := store (0x3F8 + i) 1 v (pio_space (pio s))\<rparr>\<rparr>"
  have "pio_maps (pio ?s) = device_ports" using assms(1) by simp
  from device_port_map [OF this, of "0x3F8 + of_nat i" 1] have "pio_map_of ?s (0x3F8 + of_nat i) 1 = Some Serial_io"
    using a assms(2) by simp
  then show ?thesis using a assms
    by (simp add: pio_write_def pio_callback_def wp_simps run_pio_callback_def serial_io_handler_def port_def)
qed


text \<open>
  Bus-master transfers bypass the caches: the bytes that \<open>bmr_io_handler\<close> copies into
  \<open>hw_mem\<close> are invisible to the processor in every block that the second-level cache holds. The
  processor keeps reading the old contents of such a block.
\<close>

lemma dma_invisible_in_cached_blocks:
  assumes "way_of (mem s) B = Some x" "B < 2097152" "i < 64"
  shows "wp (dma_store a bs) (\<lambda>_ t. mem_view (mem t) (64 * B + i) = mem_view (mem s) (64 * B + i)) s"
proof -
  have "way_of ((mem s)\<lparr>dram := d\<rparr>) B = way_of (mem s) B" for d by (simp add: way_of_def)
  then show ?thesis using assms by (simp add: dma_store_def wp_simps mem_view_block)
qed


end
