(* ===== verification/Decode.thy ===== *)
theory Decode
  imports Device_Props
begin

unbundle bit_operations_syntax

text \<open>
  Instruction decoding: the template parameter \<open>DATA_BYTE\<close> of nemu/include/cpu/exec/template-start.h,
  the ModR/M byte (nemu/src/cpu/decode/modrm.c) and the operand decoders instantiated from
  nemu/src/cpu/decode/decode-template.h. A decoder gets the address behind the opcode, fills the
  global \<open>ops_decoded\<close> and returns the number of bytes it consumed. The disassembly strings are
  left out.
\<close>

section \<open>Operand width\<close>

text \<open>The three instances of every template, \<open>SUFFIX\<close> b, w and l.\<close>

datatype width = B8 | W16 | L32

definition DATA_BYTE :: "width \<Rightarrow> nat" where
  "DATA_BYTE w = (case w of B8 \<Rightarrow> 1 | W16 \<Rightarrow> 2 | L32 \<Rightarrow> 4)"

text \<open>The casts \<open>(DATA_TYPE)x\<close> and \<open>(DATA_TYPE_S)x\<close>, as 32-bit words, and \<open>MSB(x)\<close>.\<close>

definition data_type :: "width \<Rightarrow> u32 \<Rightarrow> u32" where
  "data_type w x = take_bit (8 * DATA_BYTE w) x"

definition data_type_s :: "width \<Rightarrow> u32 \<Rightarrow> u32" where
  "data_type_s w x = signed_take_bit (8 * DATA_BYTE w - 1) x"

definition MSB :: "width \<Rightarrow> u32 \<Rightarrow> bool" where
  "MSB w x = bit x (8 * DATA_BYTE w - 1)"

definition REG :: "width \<Rightarrow> nat \<Rightarrow> (machine, u32) M" where
  "REG w = (case w of B8 \<Rightarrow> reg_b | W16 \<Rightarrow> reg_w | L32 \<Rightarrow> reg_l)"

definition set_REG :: "width \<Rightarrow> nat \<Rightarrow> u32 \<Rightarrow> (machine, unit) M" where
  "set_REG w = (case w of B8 \<Rightarrow> set_reg_b | W16 \<Rightarrow> set_reg_w | L32 \<Rightarrow> set_reg_l)"

definition MEM_R :: "width \<Rightarrow> u32 \<Rightarrow> nat \<Rightarrow> (machine, u32) M" where
  "MEM_R w a r = swaddr_read a (DATA_BYTE w) r"

definition MEM_W :: "width \<Rightarrow> u32 \<Rightarrow> u32 \<Rightarrow> nat \<Rightarrow> (machine, unit) M" where
  "MEM_W w a v r = swaddr_write a (DATA_BYTE w) v r"

text \<open>The helper type: \<open>int name(swaddr_t eip)\<close>.\<close>

type_synonym helper_fun = "u32 \<Rightarrow> (machine, nat) M"

definition instr_fetch :: "u32 \<Rightarrow> nat \<Rightarrow> (machine, u32) M" where
  "instr_fetch addr len = swaddr_read addr len 1"

definition idex :: "u32 \<Rightarrow> helper_fun \<Rightarrow> (machine, unit) M \<Rightarrow> (machine, nat) M" where
  "idex pc decode execute = bindM (decode (pc + 1)) (\<lambda>len. seqM execute (ret (len + 1)))"

text \<open>\<open>make_helper_v\<close>: the 16- or 32-bit instance, by the operand-size prefix.\<close>

definition make_helper_v :: "(width \<Rightarrow> helper_fun) \<Rightarrow> helper_fun" where
  "make_helper_v h pc = bindM (getM (\<lambda>s. is_operand_size_16 (ops_decoded s))) (\<lambda>b. h (if b then W16 else L32) pc)"

section \<open>The decoded operands\<close>

datatype opsel = Src | Dest | Src2

definition get_op :: "opsel \<Rightarrow> machine \<Rightarrow> Operand" where
  "get_op q s = (case q of Src \<Rightarrow> op_src (ops_decoded s) | Dest \<Rightarrow> op_dest (ops_decoded s)
     | Src2 \<Rightarrow> op_src2 (ops_decoded s))"

definition upd_op :: "opsel \<Rightarrow> (Operand \<Rightarrow> Operand) \<Rightarrow> machine \<Rightarrow> machine" where
  "upd_op q f s = s\<lparr>ops_decoded := (case q of
      Src \<Rightarrow> (ops_decoded s)\<lparr>op_src := f (op_src (ops_decoded s))\<rparr>
    | Dest \<Rightarrow> (ops_decoded s)\<lparr>op_dest := f (op_dest (ops_decoded s))\<rparr>
    | Src2 \<Rightarrow> (ops_decoded s)\<lparr>op_src2 := f (op_src2 (ops_decoded s))\<rparr>)\<rparr>"

definition opM :: "opsel \<Rightarrow> (machine, Operand) M" where
  "opM q = getM (get_op q)"

definition set_op :: "opsel \<Rightarrow> (Operand \<Rightarrow> Operand) \<Rightarrow> (machine, unit) M" where
  "set_op q f = modM (upd_op q f)"

definition write_operand :: "width \<Rightarrow> opsel \<Rightarrow> u32 \<Rightarrow> (machine, unit) M" where
  "write_operand w q v =
     bindM (opM q) (\<lambda>p.
     let src = data_type w v in
     case op_ty p of
       OP_TYPE_REG \<Rightarrow> set_REG w (unat (opu p)) src
     | OP_TYPE_MEM \<Rightarrow> swaddr_write (opu p) (op_size p) src (op_sreg p)
     | OP_TYPE_IMM \<Rightarrow> fail AssertFail)"

section \<open>ModR/M\<close>

definition mrm_R_M :: "u32 \<Rightarrow> nat" where "mrm_R_M m = unat (bits 0 3 m)"
definition mrm_reg :: "u32 \<Rightarrow> nat" where "mrm_reg m = unat (bits 3 3 m)"
definition mrm_mod :: "u32 \<Rightarrow> nat" where "mrm_mod m = unat (bits 6 2 m)"
definition sib_base :: "u32 \<Rightarrow> nat" where "sib_base m = unat (bits 0 3 m)"
definition sib_index :: "u32 \<Rightarrow> nat" where "sib_index m = unat (bits 3 3 m)"
definition sib_ss :: "u32 \<Rightarrow> nat" where "sib_ss m = unat (bits 6 2 m)"

text \<open>\<open>base_reg\<close> and \<open>index_reg\<close> are \<open>None\<close> where the code has -1.\<close>

definition load_addr :: "u32 \<Rightarrow> u32 \<Rightarrow> opsel \<Rightarrow> (machine, nat) M" where
  "load_addr pc m rm =
     seqM (assertM (mrm_mod m \<noteq> 3))
    (bindM (if mrm_R_M m = R_ESP
            then bindM (instr_fetch (pc + 1) 1) (\<lambda>sb.
                   ret (Some (sib_base sb), 2, sib_ss sb, if sib_index sb \<noteq> R_ESP then Some (sib_index sb) else None))
            else ret (Some (mrm_R_M m), 1, 0, None))
      (\<lambda>(base_reg, disp_offset, scale, index_reg).
     let (base_reg, disp_size) =
           (if mrm_mod m = 0 then (if base_reg = Some R_EBP then (None, 4) else (base_reg, 0))
            else if mrm_mod m = 1 then (base_reg, 1) else (base_reg, 4)) in
     bindM (if disp_size \<noteq> 0
            then bindM (instr_fetch (pc + of_nat disp_offset) disp_size) (\<lambda>d.
                   ret (if disp_size = 1 then signed_take_bit 7 d else d))
            else ret 0) (\<lambda>disp.
     bindM (case base_reg of Some b \<Rightarrow> reg_l b | None \<Rightarrow> ret 0) (\<lambda>b.
     bindM (case index_reg of Some i \<Rightarrow> bindM (reg_l i) (\<lambda>v. ret (push_bit scale v)) | None \<Rightarrow> ret 0) (\<lambda>i.
     seqM (set_op rm (\<lambda>p. p\<lparr>op_ty := OP_TYPE_MEM, opu := disp + b + i\<rparr>))
          (ret (disp_offset + disp_size)))))))"

definition read_ModR_M :: "u32 \<Rightarrow> opsel \<Rightarrow> opsel \<Rightarrow> (machine, nat) M" where
  "read_ModR_M pc rm reg =
     bindM (instr_fetch pc 1) (\<lambda>m.
     seqM (set_op reg (\<lambda>p. p\<lparr>op_ty := OP_TYPE_REG, opu := of_nat (mrm_reg m)\<rparr>))
    (bindM (opM reg) (\<lambda>g.
     seqM (set_op rm (\<lambda>p. p\<lparr>op_sreg := (if opu g = 5 \<or> opu g = 4 then 2 else 3)\<rparr>))
    (if mrm_mod m = 3 then
       seqM (set_op rm (\<lambda>p. p\<lparr>op_ty := OP_TYPE_REG, opu := of_nat (mrm_R_M m)\<rparr>))
      (bindM (opM rm) (\<lambda>p.
       bindM (if op_size p = 1 then reg_b (mrm_R_M m)
              else if op_size p = 2 then reg_w (mrm_R_M m)
              else if op_size p = 4 then reg_l (mrm_R_M m)
              else fail AssertFail) (\<lambda>v.
       seqM (set_op rm (\<lambda>p. p\<lparr>op_val := v\<rparr>)) (ret 1))))
     else
       bindM (load_addr pc m rm) (\<lambda>instr_len.
       bindM (opM rm) (\<lambda>p.
       bindM (swaddr_read (opu p) (op_size p) (op_sreg p)) (\<lambda>v.
       seqM (set_op rm (\<lambda>p. p\<lparr>op_val := v\<rparr>)) (ret instr_len))))))))"

section \<open>Decoders\<close>

definition decode_n :: "width \<Rightarrow> helper_fun" where
  "decode_n w pc = seqM (set_op Src (\<lambda>p. p\<lparr>op_ty := OP_TYPE_IMM\<rparr>)) (ret 0)"

definition decode_i :: "width \<Rightarrow> helper_fun" where
  "decode_i w pc =
     seqM (set_op Src (\<lambda>p. p\<lparr>op_ty := OP_TYPE_IMM\<rparr>))
    (bindM (instr_fetch pc (DATA_BYTE w)) (\<lambda>v.
     seqM (set_op Src (\<lambda>p. p\<lparr>opu := v, op_val := v\<rparr>)) (ret (DATA_BYTE w))))"

definition decode_si :: "width \<Rightarrow> helper_fun" where
  "decode_si w pc =
     seqM (set_op Src (\<lambda>p. p\<lparr>op_ty := OP_TYPE_IMM\<rparr>))
    (bindM (instr_fetch pc (DATA_BYTE w)) (\<lambda>v.
     let v = data_type_s w v in
     seqM (set_op Src (\<lambda>p. p\<lparr>opu := v, op_val := v\<rparr>)) (ret (DATA_BYTE w))))"

definition decode_a :: "width \<Rightarrow> u32 \<Rightarrow> opsel \<Rightarrow> (machine, nat) M" where
  "decode_a w pc q =
     seqM (set_op q (\<lambda>p. p\<lparr>op_ty := OP_TYPE_REG, opu := of_nat R_EAX\<rparr>))
    (bindM (REG w R_EAX) (\<lambda>v. seqM (set_op q (\<lambda>p. p\<lparr>op_val := v\<rparr>)) (ret 0)))"

definition decode_r_internal :: "width \<Rightarrow> u32 \<Rightarrow> opsel \<Rightarrow> (machine, nat) M" where
  "decode_r_internal w pc q =
     bindM (getM (\<lambda>s. opcode (ops_decoded s) AND 7)) (\<lambda>r.
     seqM (set_op q (\<lambda>p. p\<lparr>op_ty := OP_TYPE_REG, opu := r\<rparr>))
    (bindM (REG w (unat r)) (\<lambda>v. seqM (set_op q (\<lambda>p. p\<lparr>op_val := v\<rparr>)) (ret 0))))"

definition decode_rm_internal :: "width \<Rightarrow> u32 \<Rightarrow> opsel \<Rightarrow> opsel \<Rightarrow> (machine, nat) M" where
  "decode_rm_internal w pc rm reg =
     seqM (set_op rm (\<lambda>p. p\<lparr>op_size := DATA_BYTE w\<rparr>))
    (bindM (read_ModR_M pc rm reg) (\<lambda>len.
     bindM (opM reg) (\<lambda>g.
     bindM (REG w (unat (opu g))) (\<lambda>v.
     seqM (set_op reg (\<lambda>p. p\<lparr>op_val := v\<rparr>)) (ret len)))))"

definition decode_r2rm :: "width \<Rightarrow> helper_fun" where
  "decode_r2rm w pc = decode_rm_internal w pc Dest Src"

definition decode_rm2r :: "width \<Rightarrow> helper_fun" where
  "decode_rm2r w pc = decode_rm_internal w pc Src Dest"

definition decode_i2a :: "width \<Rightarrow> helper_fun" where
  "decode_i2a w pc = seqM (decode_a w pc Dest) (decode_i w pc)"

text \<open>A decoder followed by an immediate.\<close>

definition then_imm :: "(machine, nat) M \<Rightarrow> helper_fun \<Rightarrow> u32 \<Rightarrow> (machine, nat) M" where
  "then_imm d imm pc = bindM d (\<lambda>len. bindM (imm (pc + of_nat len)) (\<lambda>k. ret (len + k)))"

definition decode_i_rm2r :: "width \<Rightarrow> helper_fun" where
  "decode_i_rm2r w pc = then_imm (decode_rm_internal w pc Src2 Dest) (decode_i w) pc"

definition decode_i2rm :: "width \<Rightarrow> helper_fun" where
  "decode_i2rm w pc = then_imm (decode_rm_internal w pc Dest Src2) (decode_i w) pc"

definition decode_i2r :: "width \<Rightarrow> helper_fun" where
  "decode_i2r w pc = seqM (decode_r_internal w pc Dest) (decode_i w pc)"

definition decode_rm :: "width \<Rightarrow> helper_fun" where
  "decode_rm w pc = decode_rm_internal w pc Src Src2"

definition decode_r :: "width \<Rightarrow> helper_fun" where
  "decode_r w pc = decode_r_internal w pc Src"

definition decode_si2rm :: "width \<Rightarrow> helper_fun" where
  "decode_si2rm w pc = then_imm (decode_rm_internal w pc Dest Src2) (decode_si B8) pc"

definition decode_si_rm2r :: "width \<Rightarrow> helper_fun" where
  "decode_si_rm2r w pc = then_imm (decode_rm_internal w pc Src2 Dest) (decode_si B8) pc"

definition decode_rm_1 :: "width \<Rightarrow> helper_fun" where
  "decode_rm_1 w pc = bindM (decode_r2rm w pc) (\<lambda>len.
     seqM (set_op Src (\<lambda>p. p\<lparr>op_ty := OP_TYPE_IMM, opu := 1, op_val := 1\<rparr>)) (ret len))"

definition decode_rm_cl :: "width \<Rightarrow> helper_fun" where
  "decode_rm_cl w pc = bindM (decode_r2rm w pc) (\<lambda>len.
     seqM (set_op Src (\<lambda>p. p\<lparr>op_ty := OP_TYPE_REG, opu := of_nat R_ECX\<rparr>))
    (bindM (reg_b R_ECX) (\<lambda>v.
     seqM (set_op Src (\<lambda>p. p\<lparr>op_val := v\<rparr>)) (ret len))))"

definition decode_rm_imm :: "width \<Rightarrow> helper_fun" where
  "decode_rm_imm w pc = then_imm (decode_r2rm w pc) (decode_i B8) pc"

end
