(* ===== verification/Operands.thy ===== *)
theory Operands
  imports Decode
begin

unbundle bit_operations_syntax

text \<open>
  What the instruction templates share: the instruction helpers built from a decoder and a
  \<open>do_execute\<close>, the register views by width, and how reading and writing decoded operands runs.
\<close>

text \<open>\<open>make_instr_helper\<close> of nemu/include/cpu/exec/helper.h.\<close>

definition make_instr_helper :: "(width \<Rightarrow> helper_fun) \<Rightarrow> (width \<Rightarrow> (machine, unit) M) \<Rightarrow> width \<Rightarrow> helper_fun" where
  "make_instr_helper decode execute w pc = idex pc (decode w) (execute w)"

section \<open>Registers by width\<close>

definition reg_val :: "width \<Rightarrow> nat \<Rightarrow> CPU_state \<Rightarrow> u32" where
  "reg_val w i c = (case w of B8 \<Rightarrow> gpr_b i c | W16 \<Rightarrow> gpr_w i c | L32 \<Rightarrow> gpr c i)"

definition set_reg_val :: "width \<Rightarrow> nat \<Rightarrow> u32 \<Rightarrow> CPU_state \<Rightarrow> CPU_state" where
  "set_reg_val w = (case w of B8 \<Rightarrow> set_gpr_b | W16 \<Rightarrow> set_gpr_w | L32 \<Rightarrow> set_gpr)"

lemma DATA_BYTE_simps [simp]: "DATA_BYTE B8 = 1" "DATA_BYTE W16 = 2" "DATA_BYTE L32 = 4"
  by (simp_all add: DATA_BYTE_def)

lemma run_reg [run_simps]:
  "i < 8 \<Longrightarrow> reg_l i s = Ret (gpr (cpu s) i) s" "i < 8 \<Longrightarrow> reg_w i s = Ret (gpr_w i (cpu s)) s"
  "i < 8 \<Longrightarrow> reg_b i s = Ret (gpr_b i (cpu s)) s"
  "i < 8 \<Longrightarrow> set_reg_l i v s = Ret () (s\<lparr>cpu := set_gpr i v (cpu s)\<rparr>)"
  "i < 8 \<Longrightarrow> set_reg_w i v s = Ret () (s\<lparr>cpu := set_gpr_w i v (cpu s)\<rparr>)"
  "i < 8 \<Longrightarrow> set_reg_b i v s = Ret () (s\<lparr>cpu := set_gpr_b i v (cpu s)\<rparr>)"
  by (simp_all add: reg_defs cpuM_def on_cpu_def seqM_def bindM_def run_simps)

lemma run_REG [run_simps]: "i < 8 \<Longrightarrow> REG w i s = Ret (reg_val w i (cpu s)) s"
  by (cases w) (simp_all add: REG_def reg_val_def run_simps)

lemma run_set_REG [run_simps]: "i < 8 \<Longrightarrow> set_REG w i v s = Ret () (s\<lparr>cpu := set_reg_val w i v (cpu s)\<rparr>)"
  by (cases w) (simp_all add: set_REG_def set_reg_val_def run_simps)

lemma run_opM [run_simps]: "opM q s = Ret (get_op q s) s"
  by (simp add: opM_def)

lemma run_set_op [run_simps]: "set_op q f s = Ret () (upd_op q f s)"
  by (simp add: set_op_def)

lemma get_upd_op [simp]: "get_op q (upd_op p f s) = (if p = q then f (get_op q s) else get_op q s)"
  by (cases q; cases p) (simp_all add: get_op_def upd_op_def)

lemma upd_op_other [simp]:
  "cpu (upd_op q f s) = cpu s" "mem (upd_op q f s) = mem s" "tlb (upd_op q f s) = tlb s"
  "mmio (upd_op q f s) = mmio s" "pio (upd_op q f s) = pio s" "pic (upd_op q f s) = pic s"
  "opcode (ops_decoded (upd_op q f s)) = opcode (ops_decoded s)"
  by (cases q; simp add: upd_op_def)+

lemma get_op_upd [simp]:
  "get_op q (s\<lparr>cpu := c\<rparr>) = get_op q s" "get_op q (s\<lparr>mem := m\<rparr>) = get_op q s"
  by (cases q; simp add: get_op_def)+

section \<open>Values of a width\<close>

abbreviation nbits :: "width \<Rightarrow> nat" where "nbits w \<equiv> 8 * DATA_BYTE w"

text \<open>\<open>uval\<close> and \<open>sval\<close> read the low bits of a word as an unsigned or signed number.\<close>

definition in_width :: "width \<Rightarrow> u32 \<Rightarrow> bool" where
  "in_width w x \<longleftrightarrow> unat x < 2 ^ nbits w"

definition uval :: "width \<Rightarrow> u32 \<Rightarrow> int" where
  "uval w x = uint (data_type w x)"

definition sval :: "width \<Rightarrow> u32 \<Rightarrow> int" where
  "sval w x = sint (data_type_s w x)"

lemma nbits_Suc: "\<exists>k. nbits w = Suc k \<and> k < 32"
  by (cases w) simp_all

lemma nbits_le [simp]: "nbits w \<le> 32"
  by (cases w) simp_all

lemma uval_mod: "uval w x = uint x mod 2 ^ nbits w"
  unfolding uval_def data_type_def unsigned_take_bit_eq by (rule take_bit_eq_mod)

lemma in_width_uint: "in_width w x \<longleftrightarrow> uint x < 2 ^ nbits w"
proof -
  have "in_width w x \<longleftrightarrow> int (unat x) < int (2 ^ nbits w)" by (simp only: in_width_def of_nat_less_iff)
  then show ?thesis by simp
qed

lemma uval_in [simp]: "in_width w x \<Longrightarrow> uval w x = uint x"
  by (simp add: uval_mod in_width_uint)

lemma in_width_data_type [simp]: "in_width w (data_type w x)"
  using uval_mod [of w x] by (simp add: in_width_uint uval_def)

lemma uint_data_type: "uint (data_type w x) = uint x mod 2 ^ nbits w"
  using uval_mod [of w x] by (simp only: uval_def)

lemma data_type_in [simp]: "in_width w x \<Longrightarrow> data_type w x = x"
  by (rule word_uint_eqI) (simp add: uint_data_type in_width_uint)

lemma in_width_L32 [simp]: "in_width L32 x"
  using uint_lt2p [of x] by (simp add: in_width_uint)

text \<open>The most significant bit and the signed value, by comparison with half the range.\<close>

lemma MSB_iff:
  assumes "in_width w x"
  shows "MSB w x \<longleftrightarrow> 2 ^ (nbits w - 1) \<le> uint x"
proof -
  obtain k where k: "nbits w = Suc k" "k < 32" using nbits_Suc by blast
  have "MSB w x \<longleftrightarrow> bit (uint x) k" using k by (simp add: MSB_def bit_uint_iff)
  also have "\<dots> \<longleftrightarrow> odd (uint x div 2 ^ k)" by (simp add: bit_iff_odd)
  also have "uint x div 2 ^ k = (if 2 ^ k \<le> uint x then 1 else 0)"
  proof -
    have "uint x < 2 * 2 ^ k" "0 \<le> uint x" using assms k by (simp_all add: in_width_uint)
    then show ?thesis by (auto intro!: div_pos_pos_trivial int_div_pos_eq [of _ _ _ "uint x - 2 ^ k"])
  qed
  finally show ?thesis using k by simp
qed

lemma MSB_data_type [simp]: "MSB w (data_type w x) = MSB w x"
  using nbits_Suc [of w] by (auto simp: MSB_def data_type_def bit_simps)

lemma data_type_s_data_type: "data_type_s w (data_type w x) = data_type_s w x"
  using nbits_Suc [of w] by (auto simp: data_type_s_def data_type_def signed_take_bit_take_bit)

lemma sval_signed: "sval w x = signed_take_bit (nbits w - 1) (uint x)"
proof -
  obtain k where k: "nbits w = Suc k" "k < 32" using nbits_Suc by blast
  have "sint (signed_take_bit k x) = signed_take_bit k (uint x)"
    using k(2) by (intro bit_eqI) (auto simp: bit_sint_iff bit_signed_take_bit_iff bit_uint_iff min_def not_less)
  then show ?thesis using k by (simp add: sval_def data_type_s_def)
qed

lemma sval_eq: "in_width w x \<Longrightarrow> sval w x = (if MSB w x then uint x - 2 ^ nbits w else uint x)"
proof -
  assume x: "in_width w x"
  obtain k where k: "nbits w = Suc k" "k < 32" using nbits_Suc by blast
  have t: "take_bit (Suc k) (uint x) = uint x"
    using x k by (simp add: take_bit_eq_mod in_width_uint)
  have "bit (uint x) k \<longleftrightarrow> 2 ^ k \<le> uint x"
    using MSB_iff [OF x] k by (simp add: MSB_def bit_uint_iff)
  then show ?thesis using MSB_iff [OF x] k t
    by (auto simp: sval_signed signed_take_bit_eq_take_bit_minus)
qed

section \<open>Operands that are registers or memory\<close>

lemma take_bit_u32 [simp]: "take_bit 32 (v :: u32) = v"
  by (rule bit_word_eqI) (simp add: bit_simps)

lemma reg_val_set [simp]:
  "i < 8 \<Longrightarrow> j < 8 \<Longrightarrow> reg_val w i (set_reg_val w j v c) = (if i = j then data_type w v else reg_val w i c)"
  by (cases w) (simp_all add: reg_val_def set_reg_val_def data_type_def)

lemma reg_val_in [simp]: "in_width w (reg_val w i c)"
proof (cases w)
  case L32 then show ?thesis by simp
next
  case W16
  have "gpr_w i c = data_type W16 (gpr_w i c)" by (simp add: gpr_w_def data_type_def)
  then show ?thesis using in_width_data_type W16 by (metis reg_val_def width.simps(8))
next
  case B8
  have "gpr_b i c = data_type B8 (gpr_b i c)" by (simp add: gpr_b_def data_type_def)
  then show ?thesis using in_width_data_type B8 by (metis reg_val_def width.simps(7))
qed

lemma set_reg_val_other [simp]:
  "eflags (set_reg_val w i v c) = eflags c" "eip (set_reg_val w i v c) = eip c"
  "sreg (set_reg_val w i v c) = sreg c" "cr0 (set_reg_val w i v c) = cr0 c" "cr3 (set_reg_val w i v c) = cr3 c"
  by (cases w; simp add: set_reg_val_def)+

lemma flag_set_reg_val [simp]: "flag k (set_reg_val w i v c) = flag k c"
  by (simp add: flag_def)

lemma reg_val_set_flag [simp]: "reg_val w i (set_flag n b c) = reg_val w i c"
  by (cases w) (simp_all add: reg_val_def gpr_w_def gpr_b_def)

text \<open>An operand that names register \<open>i\<close>, and one that names the flat memory cell at \<open>a\<close>.\<close>

definition reg_operand :: "nat \<Rightarrow> Operand \<Rightarrow> bool" where
  "reg_operand i p \<longleftrightarrow> op_ty p = OP_TYPE_REG \<and> unat (opu p) = i \<and> i < 8"

definition mem_operand :: "nat set \<Rightarrow> width \<Rightarrow> machine \<Rightarrow> Operand \<Rightarrow> bool" where
  "mem_operand W w s p \<longleftrightarrow> op_ty p = OP_TYPE_MEM \<and> op_size p = DATA_BYTE w \<and> flat (op_sreg p) s \<and>
     flat_ok W s (opu p) (DATA_BYTE w)"

lemma write_register [run_simps]:
  "reg_operand i (get_op q s) \<Longrightarrow>
     write_operand w q v s = Ret () (s\<lparr>cpu := set_reg_val w i (data_type w v) (cpu s)\<rparr>)"
  by (auto simp: write_operand_def reg_operand_def bindM_def run_simps Let_def)

lemma flat_congr:
  "mmio t = mmio s \<Longrightarrow> flat_ok W t a n = flat_ok W s a n"
  using is_mmio_cong [of t s] phys_ok_cong [of t s W a n] by (simp add: flat_ok_def)

lemma store_data_type: "store a (DATA_BYTE w) (data_type w v) m = store a (DATA_BYTE w) v m"
proof
  fix k
  have "byte_at i (data_type w v) = byte_at i v" if "i < DATA_BYTE w" for i
    using that by (intro bit_eqI) (auto simp: bit_byte_at data_type_def bit_simps)
  then show "store a (DATA_BYTE w) (data_type w v) m k = store a (DATA_BYTE w) v m k"
    by (auto simp: store_def)
qed

lemma write_memory:
  assumes "cache_inv W (mem s)" "mem_operand W w s (get_op q s)"
  shows "\<exists>m. write_operand w q v s = Ret () (s\<lparr>mem := m\<rparr>) \<and> cache_inv W m \<and>
    mem_view m = store (unat (opu (get_op q s))) (DATA_BYTE w) v (mem_view (mem s))"
proof -
  let ?p = "get_op q s"
  from assms(2) have p: "op_ty ?p = OP_TYPE_MEM" "op_size ?p = DATA_BYTE w" "flat (op_sreg ?p) s"
    "flat_ok W s (opu ?p) (DATA_BYTE w)" by (simp_all add: mem_operand_def)
  from flat_write_run [OF assms(1) p(3,4), of "data_type w v"] obtain m where
    m: "swaddr_write (opu ?p) (DATA_BYTE w) (data_type w v) (op_sreg ?p) s = Ret () (s\<lparr>mem := m\<rparr>)" "cache_inv W m"
      "mem_view m = store (unat (opu ?p)) (DATA_BYTE w) (data_type w v) (mem_view (mem s))" by blast
  have "write_operand w q v s = Ret () (s\<lparr>mem := m\<rparr>)"
    using p(1,2) m(1) by (simp add: write_operand_def bindM_def run_simps Let_def)
  then show ?thesis using m(2,3) by (auto simp: store_data_type)
qed

section \<open>Flat accesses as steps of a proof\<close>

lemma flat_cpu:
  "cr0 c = cr0 (cpu s) \<Longrightarrow> sreg c = sreg (cpu s) \<Longrightarrow> flat r (s\<lparr>cpu := c\<rparr>) = flat r s"
  by (simp add: flat_def vm_on_def paging_def protect_enable_def seg_base_def)

lemma flat_set_gpr [simp]:
  "flat r (s\<lparr>cpu := set_gpr i v (cpu s)\<rparr>) = flat r s" "flat r (s\<lparr>cpu := set_reg_val w i v (cpu s)\<rparr>) = flat r s"
  "flat r (s\<lparr>cpu := set_flag i b (cpu s)\<rparr>) = flat r s"
  by (simp_all add: flat_cpu)

lemma wp_flat_read:
  assumes "cache_inv W (mem s)" "flat r s" "flat_ok W s a n"
    and "\<And>m. cache_inv W m \<Longrightarrow> mem_view m = mem_view (mem s) \<Longrightarrow> Q (load (unat a) n (mem_view (mem s))) (s\<lparr>mem := m\<rparr>)"
  shows "wp (swaddr_read a n r) Q s"
  using flat_read_run [OF assms(1-3)] assms(4) by (auto simp: wp_def same_mem_def)

lemma wp_flat_write:
  assumes "cache_inv W (mem s)" "flat r s" "flat_ok W s a n"
    and "\<And>m. cache_inv W m \<Longrightarrow> mem_view m = store (unat a) n v (mem_view (mem s)) \<Longrightarrow> Q () (s\<lparr>mem := m\<rparr>)"
  shows "wp (swaddr_write a n v r) Q s"
  using flat_write_run [OF assms(1-3), of v] assms(4) by (auto simp: wp_def)

section \<open>A machine for examples\<close>

abbreviation low_blocks :: "nat set" where "low_blocks \<equiv> {0..<65536}"

lemma cold_flat: "r < 4 \<Longrightarrow> flat r cold_machine"
  by (simp add: flat_def vm_on_def cold_machine_def reset_cpu_def paging_def protect_enable_def)

lemma cold_inv: "cache_inv low_blocks (mem cold_machine)"
  using cold_mem_inv [of 0] by (simp add: cold_machine_def)

lemma cold_flat_ok:
  assumes "n = 1 \<or> n = 2 \<or> n = 4" "0 < unat a" "unat a + n \<le> 4194304"
  shows "flat_ok low_blocks cold_machine a n"
proof -
  have "unat a div 64 < 65536" "(unat a + n - 1) div 64 < 65536" using assms by (auto simp: less_mult_imp_div_less)
  then show ?thesis using assms by (auto simp: flat_ok_def phys_ok_def cache_ok_def)
qed

end
