(* ===== verification/Arith.thy ===== *)
theory Arith
  imports Operands "HOL-Library.Signed_Division"
begin

unbundle bit_operations_syntax

text \<open>
  Integer arithmetic: the templates of nemu/src/cpu/exec/arith. Each \<open>do_execute\<close> of a template
  is a function of the operand width, each instruction helper a definition with the name of the
  C function without its width suffix. Signed overflows of the C code (in \<open>imul\<close>) wrap, as the
  compiler's two's complement arithmetic does.
\<close>

section \<open>Flags of a result\<close>

text \<open>
  \<open>add_flags\<close> and \<open>sub_flags\<close> are the assignments to CF, SF, ZF, OF and PF that the templates
  repeat, in their order; \<open>d\<close> and \<open>r\<close> are the values of the two operands, \<open>cf\<close> the carry.
\<close>

definition even_parity :: "u32 \<Rightarrow> bool" where
  "even_parity result =
     (let r = result XOR drop_bit 4 result;
          r = r XOR drop_bit 2 r;
          r = r XOR drop_bit 1 r
      in (r AND 1) = 0)"

definition add_flags :: "width \<Rightarrow> u32 \<Rightarrow> u32 \<Rightarrow> u32 \<Rightarrow> CPU_state \<Rightarrow> CPU_state" where
  "add_flags w result d r c =
     (let c = set_flag CF_bit (result < d) c;
          c = set_flag SF_bit (MSB w result) c;
          c = set_flag ZF_bit (result = 0) c;
          c = set_flag OF_bit (MSB w d = MSB w r \<and> SF c \<noteq> MSB w d) c
      in set_flag PF_bit (even_parity result) c)"

definition sub_flags :: "width \<Rightarrow> u32 \<Rightarrow> bool \<Rightarrow> u32 \<Rightarrow> u32 \<Rightarrow> CPU_state \<Rightarrow> CPU_state" where
  "sub_flags w result cf d r c =
     (let c = set_flag CF_bit cf c;
          c = set_flag SF_bit (MSB w result) c;
          c = set_flag ZF_bit (result = 0) c;
          c = set_flag OF_bit (MSB w d \<noteq> MSB w r \<and> SF c = MSB w r) c
      in set_flag PF_bit (even_parity result) c)"

section \<open>Addition\<close>

definition add_execute :: "width \<Rightarrow> (machine, unit) M" where
  "add_execute w =
     bindM (opM Dest) (\<lambda>d. bindM (opM Src) (\<lambda>r.
     let result = data_type w (op_val d + op_val r) in
     seqM (write_operand w Dest result)
          (on_cpu (add_flags w result (op_val d) (op_val r)))))"

definition add_r2rm :: "width \<Rightarrow> helper_fun" where
  "add_r2rm = make_instr_helper decode_r2rm add_execute"
definition add_i2rm :: "width \<Rightarrow> helper_fun" where
  "add_i2rm = make_instr_helper decode_i2rm add_execute"
definition add_rm2r :: "width \<Rightarrow> helper_fun" where
  "add_rm2r = make_instr_helper decode_rm2r add_execute"
definition add_i2a :: "width \<Rightarrow> helper_fun" where
  "add_i2a = make_instr_helper decode_i2a add_execute"
definition add_si2rm :: "width \<Rightarrow> helper_fun" where
  "add_si2rm = make_instr_helper decode_si2rm add_execute"

definition add_i2rm_v :: helper_fun where "add_i2rm_v = make_helper_v add_i2rm"
definition add_i2a_v :: helper_fun where "add_i2a_v = make_helper_v add_i2a"
definition add_si2rm_v :: helper_fun where "add_si2rm_v = make_helper_v add_si2rm"
definition add_r2rm_v :: helper_fun where "add_r2rm_v = make_helper_v add_r2rm"
definition add_rm2r_v :: helper_fun where "add_rm2r_v = make_helper_v add_rm2r"

definition adc_execute :: "width \<Rightarrow> (machine, unit) M" where
  "adc_execute w =
     bindM (opM Dest) (\<lambda>d. bindM (opM Src) (\<lambda>r. bindM (cpuM CF) (\<lambda>cf.
     let result = data_type w (op_val d + op_val r + of_bool cf) in
     seqM (write_operand w Dest result)
          (on_cpu (add_flags w result (op_val d) (op_val r))))))"

definition adc_r2rm :: "width \<Rightarrow> helper_fun" where
  "adc_r2rm = make_instr_helper decode_r2rm adc_execute"
definition adc_i2rm :: "width \<Rightarrow> helper_fun" where
  "adc_i2rm = make_instr_helper decode_i2rm adc_execute"
definition adc_rm2r :: "width \<Rightarrow> helper_fun" where
  "adc_rm2r = make_instr_helper decode_rm2r adc_execute"
definition adc_i2a :: "width \<Rightarrow> helper_fun" where
  "adc_i2a = make_instr_helper decode_i2a adc_execute"
definition adc_si2rm :: "width \<Rightarrow> helper_fun" where
  "adc_si2rm = make_instr_helper decode_si2rm adc_execute"

definition adc_i2rm_v :: helper_fun where "adc_i2rm_v = make_helper_v adc_i2rm"
definition adc_i2a_v :: helper_fun where "adc_i2a_v = make_helper_v adc_i2a"
definition adc_si2rm_v :: helper_fun where "adc_si2rm_v = make_helper_v adc_si2rm"
definition adc_r2rm_v :: helper_fun where "adc_r2rm_v = make_helper_v adc_r2rm"
definition adc_rm2r_v :: helper_fun where "adc_rm2r_v = make_helper_v adc_rm2r"

section \<open>Subtraction and comparison\<close>

definition sub_execute :: "width \<Rightarrow> (machine, unit) M" where
  "sub_execute w =
     bindM (opM Dest) (\<lambda>d. bindM (opM Src) (\<lambda>r.
     let result = data_type w (op_val d - op_val r) in
     seqM (write_operand w Dest result)
          (on_cpu (sub_flags w result (op_val d < op_val r) (op_val d) (op_val r)))))"

definition sub_r2rm :: "width \<Rightarrow> helper_fun" where
  "sub_r2rm = make_instr_helper decode_r2rm sub_execute"
definition sub_i2rm :: "width \<Rightarrow> helper_fun" where
  "sub_i2rm = make_instr_helper decode_i2rm sub_execute"
definition sub_rm2r :: "width \<Rightarrow> helper_fun" where
  "sub_rm2r = make_instr_helper decode_rm2r sub_execute"
definition sub_i2a :: "width \<Rightarrow> helper_fun" where
  "sub_i2a = make_instr_helper decode_i2a sub_execute"
definition sub_si2rm :: "width \<Rightarrow> helper_fun" where
  "sub_si2rm = make_instr_helper decode_si2rm sub_execute"

definition sub_i2rm_v :: helper_fun where "sub_i2rm_v = make_helper_v sub_i2rm"
definition sub_i2a_v :: helper_fun where "sub_i2a_v = make_helper_v sub_i2a"
definition sub_si2rm_v :: helper_fun where "sub_si2rm_v = make_helper_v sub_si2rm"
definition sub_rm2r_v :: helper_fun where "sub_rm2r_v = make_helper_v sub_rm2r"
definition sub_r2rm_v :: helper_fun where "sub_r2rm_v = make_helper_v sub_r2rm"

definition cmp_execute :: "width \<Rightarrow> (machine, unit) M" where
  "cmp_execute w =
     bindM (opM Dest) (\<lambda>d. bindM (opM Src) (\<lambda>r.
     let result = data_type w (op_val d - op_val r) in
     on_cpu (sub_flags w result (op_val d < op_val r) (op_val d) (op_val r))))"

definition cmp_r2rm :: "width \<Rightarrow> helper_fun" where
  "cmp_r2rm = make_instr_helper decode_r2rm cmp_execute"
definition cmp_i2rm :: "width \<Rightarrow> helper_fun" where
  "cmp_i2rm = make_instr_helper decode_i2rm cmp_execute"
definition cmp_rm2r :: "width \<Rightarrow> helper_fun" where
  "cmp_rm2r = make_instr_helper decode_rm2r cmp_execute"
definition cmp_i2a :: "width \<Rightarrow> helper_fun" where
  "cmp_i2a = make_instr_helper decode_i2a cmp_execute"
definition cmp_si2rm :: "width \<Rightarrow> helper_fun" where
  "cmp_si2rm = make_instr_helper decode_si2rm cmp_execute"

definition cmp_i2rm_v :: helper_fun where "cmp_i2rm_v = make_helper_v cmp_i2rm"
definition cmp_r2rm_v :: helper_fun where "cmp_r2rm_v = make_helper_v cmp_r2rm"
definition cmp_rm2r_v :: helper_fun where "cmp_rm2r_v = make_helper_v cmp_rm2r"
definition cmp_si2rm_v :: helper_fun where "cmp_si2rm_v = make_helper_v cmp_si2rm"
definition cmp_i2a_v :: helper_fun where "cmp_i2a_v = make_helper_v cmp_i2a"

text \<open>
  \<open>sbb\<close> adds the carry to a copy of the source truncated to the operand width; the sign
  extension it applies to \<open>op_src->val\<close> afterwards only affects the overflow flag.
\<close>

definition sbb_execute :: "width \<Rightarrow> (machine, unit) M" where
  "sbb_execute w =
     bindM (opM Src) (\<lambda>r0. bindM (opM Dest) (\<lambda>d.
     let src = data_type w (op_val r0) in
     seqM (whenM (op_size r0 = 1 \<and> op_size d \<noteq> 1)
            (set_op Src (\<lambda>p. p\<lparr>op_val := signed_take_bit 7 (op_val p)\<rparr>)))
    (bindM (cpuM CF) (\<lambda>cf.
     let src = data_type w (src + of_bool cf);
         result = data_type w (op_val d - src) in
     seqM (write_operand w Dest result)
    (bindM (opM Src) (\<lambda>r.
     on_cpu (sub_flags w result (op_val d < src) (op_val d) (op_val r))))))))"

definition sbb_si2rm :: "width \<Rightarrow> helper_fun" where
  "sbb_si2rm = make_instr_helper decode_si2rm sbb_execute"
definition sbb_i2a :: "width \<Rightarrow> helper_fun" where
  "sbb_i2a = make_instr_helper decode_i2a sbb_execute"
definition sbb_i2rm :: "width \<Rightarrow> helper_fun" where
  "sbb_i2rm = make_instr_helper decode_i2rm sbb_execute"
definition sbb_r2rm :: "width \<Rightarrow> helper_fun" where
  "sbb_r2rm = make_instr_helper decode_r2rm sbb_execute"
definition sbb_rm2r :: "width \<Rightarrow> helper_fun" where
  "sbb_rm2r = make_instr_helper decode_rm2r sbb_execute"

definition sbb_i2a_v :: helper_fun where "sbb_i2a_v = make_helper_v sbb_i2a"
definition sbb_i2rm_v :: helper_fun where "sbb_i2rm_v = make_helper_v sbb_i2rm"
definition sbb_r2rm_v :: helper_fun where "sbb_r2rm_v = make_helper_v sbb_r2rm"
definition sbb_rm2r_v :: helper_fun where "sbb_rm2r_v = make_helper_v sbb_rm2r"
definition sbb_si2rm_v :: helper_fun where "sbb_si2rm_v = make_helper_v sbb_si2rm"

section \<open>Increment, decrement, negation\<close>

definition inc_execute :: "width \<Rightarrow> (machine, unit) M" where
  "inc_execute w =
     bindM (opM Src) (\<lambda>r.
     let result = data_type w (op_val r + 1) in
     seqM (write_operand w Src result)
          (on_cpu (\<lambda>c.
             let c = set_flag CF_bit (result < op_val r) c;
                 c = set_flag SF_bit (MSB w result) c;
                 c = set_flag ZF_bit (result = 0) c;
                 c = set_flag OF_bit (\<not> MSB w (op_val r) \<and> SF c \<noteq> MSB w (op_val r)) c
             in set_flag PF_bit (even_parity result) c)))"

definition inc_rm :: "width \<Rightarrow> helper_fun" where
  "inc_rm = make_instr_helper decode_rm inc_execute"
definition inc_r :: "width \<Rightarrow> helper_fun" where
  "inc_r = make_instr_helper decode_r inc_execute"

definition inc_rm_v :: helper_fun where "inc_rm_v = make_helper_v inc_rm"
definition inc_r_v :: helper_fun where "inc_r_v = make_helper_v inc_r"

definition dec_execute :: "width \<Rightarrow> (machine, unit) M" where
  "dec_execute w =
     bindM (opM Src) (\<lambda>r.
     let result = data_type w (op_val r - 1) in
     seqM (write_operand w Src result)
          (on_cpu (\<lambda>c.
             let c = set_flag CF_bit (op_val r < 1) c;
                 c = set_flag SF_bit (MSB w result) c;
                 c = set_flag ZF_bit (result = 0) c;
                 c = set_flag OF_bit (MSB w (op_val r) \<and> \<not> SF c) c
             in set_flag PF_bit (even_parity result) c)))"

definition dec_rm :: "width \<Rightarrow> helper_fun" where
  "dec_rm = make_instr_helper decode_rm dec_execute"
definition dec_r :: "width \<Rightarrow> helper_fun" where
  "dec_r = make_instr_helper decode_r dec_execute"

definition dec_rm_v :: helper_fun where "dec_rm_v = make_helper_v dec_rm"
definition dec_r_v :: helper_fun where "dec_r_v = make_helper_v dec_r"

definition neg_execute :: "width \<Rightarrow> (machine, unit) M" where
  "neg_execute w = bindM (opM Src) (\<lambda>r. write_operand w Src (data_type w (- op_val r)))"

definition neg_rm :: "width \<Rightarrow> helper_fun" where
  "neg_rm = make_instr_helper decode_rm neg_execute"

definition neg_rm_v :: helper_fun where "neg_rm_v = make_helper_v neg_rm"

section \<open>Multiplication\<close>

text \<open>The accumulator receives a 64-bit product: AX, DX:AX or EDX:EAX.\<close>

definition set_product :: "width \<Rightarrow> u64 \<Rightarrow> (machine, unit) M" where
  "set_product w result = (case w of
     B8 \<Rightarrow> set_reg_w R_EAX (ucast result)
   | W16 \<Rightarrow> seqM (set_REG w R_EAX (ucast (result AND 0xffff))) (set_REG w R_EDX (ucast (drop_bit 16 result)))
   | L32 \<Rightarrow> seqM (set_REG w R_EAX (ucast (result AND 0xffffffff))) (set_REG w R_EDX (ucast (drop_bit 32 result))))"

definition mul_execute :: "width \<Rightarrow> (machine, unit) M" where
  "mul_execute w =
     bindM (opM Src) (\<lambda>r. bindM (REG w R_EAX) (\<lambda>a. set_product w (ucast a * ucast (op_val r))))"

definition mul_rm :: "width \<Rightarrow> helper_fun" where
  "mul_rm = make_instr_helper decode_rm mul_execute"

definition mul_rm_v :: helper_fun where "mul_rm_v = make_helper_v mul_rm"

definition imul_execute :: "width \<Rightarrow> (machine, unit) M" where
  "imul_execute w =
     bindM (opM Src) (\<lambda>r. bindM (opM Src2) (\<lambda>r2.
     write_operand w Dest (data_type w (op_val r * op_val r2))))"

definition imul_rm2r :: "width \<Rightarrow> helper_fun" where
  "imul_rm2r w pc =
     bindM (decode_rm2r w (pc + 1)) (\<lambda>len.
     bindM (opM Dest) (\<lambda>d.
     seqM (set_op Src2 (\<lambda>_. d))
    (seqM (imul_execute w) (ret (len + 1)))))"

definition imul_si_rm2r :: "width \<Rightarrow> helper_fun" where
  "imul_si_rm2r = make_instr_helper decode_si_rm2r imul_execute"
definition imul_i_rm2r :: "width \<Rightarrow> helper_fun" where
  "imul_i_rm2r = make_instr_helper decode_i_rm2r imul_execute"
definition imul_rm :: "width \<Rightarrow> helper_fun" where
  "imul_rm = make_instr_helper decode_rm imul_execute"

definition imul_rm2a :: "width \<Rightarrow> helper_fun" where
  "imul_rm2a w pc =
     bindM (decode_rm w (pc + 1)) (\<lambda>len.
     bindM (opM Src) (\<lambda>r. bindM (REG w R_EAX) (\<lambda>a.
     seqM (set_product w (scast (data_type_s w a) * scast (data_type_s w (op_val r)))) (ret (len + 1)))))"

definition imul_rm2a_v :: helper_fun where "imul_rm2a_v = make_helper_v imul_rm2a"
definition imul_rm2r_v :: helper_fun where "imul_rm2r_v = make_helper_v imul_rm2r"
definition imul_rm_v :: helper_fun where "imul_rm_v = make_helper_v imul_rm"
definition imul_si_rm2r_v :: helper_fun where "imul_si_rm2r_v = make_helper_v imul_si_rm2r"
definition imul_i_rm2r_v :: helper_fun where "imul_i_rm2r_v = make_helper_v imul_i_rm2r"

section \<open>Division\<close>

text \<open>The quotient and remainder go to \<open>REG(R_EAX)\<close> and \<open>REG(R_EDX)\<close>, which is DL for bytes.\<close>

definition div_execute :: "width \<Rightarrow> (machine, unit) M" where
  "div_execute w =
     bindM (opM Src) (\<lambda>r.
     let b :: u64 = ucast (data_type w (op_val r)) in
     bindM (case w of
         B8 \<Rightarrow> bindM (reg_w R_EAX) (\<lambda>x. ret (ucast x))
       | _ \<Rightarrow> bindM (REG w R_EDX) (\<lambda>h. bindM (REG w R_EAX) (\<lambda>l.
               ret (push_bit (DATA_BYTE w * 8) (ucast h) OR ucast l)))) (\<lambda>a :: u64.
     if b = 0 then fail DivideError
     else seqM (set_REG w R_EAX (ucast (a div b))) (set_REG w R_EDX (ucast (a mod b)))))"

definition div_rm :: "width \<Rightarrow> helper_fun" where
  "div_rm = make_instr_helper decode_rm div_execute"

definition div_rm_v :: helper_fun where "div_rm_v = make_helper_v div_rm"

definition idiv_execute :: "width \<Rightarrow> (machine, unit) M" where
  "idiv_execute w =
     bindM (opM Src) (\<lambda>r.
     let b = sint (data_type_s w (op_val r)) in
     bindM (case w of
         B8 \<Rightarrow> bindM (reg_w R_EAX) (\<lambda>x. ret (signed_take_bit 15 (ucast x)))
       | _ \<Rightarrow> bindM (REG w R_EDX) (\<lambda>h. bindM (REG w R_EAX) (\<lambda>l.
               ret (push_bit (DATA_BYTE w * 8) (ucast h) OR ucast l)))) (\<lambda>a :: u64.
     if b = 0 \<or> sint a = - (2 ^ 63) \<and> b = -1 then fail DivideError
     else seqM (set_REG w R_EAX (word_of_int (sint a sdiv b))) (set_REG w R_EDX (word_of_int (sint a smod b)))))"

definition idiv_rm :: "width \<Rightarrow> helper_fun" where
  "idiv_rm = make_instr_helper decode_rm idiv_execute"

definition idiv_rm_v :: helper_fun where "idiv_rm_v = make_helper_v idiv_rm"

end
