(* ===== verification/Arith_Props.thy ===== *)
theory Arith_Props
  imports Arith
begin

unbundle bit_operations_syntax

text \<open>
  What the arithmetic templates compute: results and flags against integer arithmetic, and the
  condition codes after a comparison.
\<close>

section \<open>Modular results\<close>

lemma width_halves: "(2::int) ^ nbits w = 2 * 2 ^ (nbits w - 1)"
  using nbits_Suc [of w] by auto

lemma mod_width: "(x mod 2 ^ 32) mod 2 ^ nbits w = (x mod 2 ^ nbits w :: int)"
  by (rule mod_mod_cancel) (rule le_imp_power_dvd, rule nbits_le)

lemma uint_add_width: "uint (data_type w (d + r)) = (uint d + uint r) mod 2 ^ nbits w"
  using mod_width [of "uint d + uint r" w] by (simp add: uint_data_type uint_word_ariths)

lemma uint_sub_width: "uint (data_type w (d - r)) = (uint d - uint r) mod 2 ^ nbits w"
  using mod_width [of "uint d - uint r" w] by (simp add: uint_data_type uint_word_ariths)

lemma wrap_once: "- N \<le> x \<Longrightarrow> x < 2 * N \<Longrightarrow> 0 < (N::int) \<Longrightarrow>
  x mod N = (if x < 0 then x + N else if x < N then x else x - N)"
proof -
  assume x: "- N \<le> x" "x < 2 * N" "0 < N"
  have "x mod N = (x + N) mod N" "x mod N = (x - N) mod N" by simp_all
  then show ?thesis using x by (auto simp: mod_pos_pos_trivial simp del: mod_add_self2 minus_mod_self2)
qed

text \<open>The number of ones in the low byte, whose parity the flag reports.\<close>

definition low_ones :: "u32 \<Rightarrow> nat" where
  "low_ones x = length (filter (bit x) [0..<8])"

lemma even_filter_Cons: "even (length (filter P (a # xs))) \<longleftrightarrow> (P a \<longleftrightarrow> odd (length (filter P xs)))"
  by simp

lemma even_parity_iff: "even_parity x \<longleftrightarrow> even (low_ones x)"
proof -
  have "[0..<8] = [0, 1, 2, 3, 4, 5, 6, 7 :: nat]" by (simp add: upt_rec)
  then have "even (low_ones x) \<longleftrightarrow> (bit x 0 \<longleftrightarrow> \<not> (bit x 1 \<longleftrightarrow> \<not> (bit x 2 \<longleftrightarrow> \<not> (bit x 3 \<longleftrightarrow>
      \<not> (bit x 4 \<longleftrightarrow> \<not> (bit x 5 \<longleftrightarrow> \<not> (bit x 6 \<longleftrightarrow> bit x 7)))))))"
    unfolding low_ones_def even_filter_Cons by simp
  moreover have "even_parity x \<longleftrightarrow> \<not> bit (let r = x XOR drop_bit 4 x; r = r XOR drop_bit 2 r in r XOR drop_bit 1 r) 0"
    by (simp add: even_parity_def Let_def and_one_eq mod_2_eq_odd bit_0)
  ultimately show ?thesis by (simp add: Let_def bit_simps numeral_3_eq_3 [symmetric]) argo
qed

section \<open>Flags\<close>

text \<open>
  The arithmetic behind the flag expressions: \<open>H\<close> is half the range \<open>N\<close>, \<open>a\<close> and \<open>b\<close> the unsigned
  operands, \<open>R\<close> the wrapped result, \<open>sgn_val\<close> the signed reading.
\<close>

definition sgn_val :: "int \<Rightarrow> int \<Rightarrow> int" where
  "sgn_val H a = (if H \<le> a then a - 2 * H else a)"

lemma add_overflow:
  assumes "0 \<le> a" "a < 2 * H" "0 \<le> b" "b < 2 * H"
    and "R = (if a + b < 2 * H then a + b else a + b - 2 * H)"
  shows "(H \<le> a) = (H \<le> b) \<and> (H \<le> R) \<noteq> (H \<le> a) \<longleftrightarrow>
    sgn_val H a + sgn_val H b < - H \<or> H \<le> sgn_val H a + sgn_val H b"
  using assms by (simp add: sgn_val_def split: if_split; linarith)

lemma sub_overflow:
  assumes "0 \<le> a" "a < 2 * H" "0 \<le> b" "b < 2 * H"
    and "R = (if a < b then a - b + 2 * H else a - b)"
  shows "(H \<le> a) \<noteq> (H \<le> b) \<and> (H \<le> R) = (H \<le> b) \<longleftrightarrow>
      sgn_val H a - sgn_val H b < - H \<or> H \<le> sgn_val H a - sgn_val H b" (is ?ovf)
    and "(H \<le> R) \<noteq> ((H \<le> a) \<noteq> (H \<le> b) \<and> (H \<le> R) = (H \<le> b)) \<longleftrightarrow> sgn_val H a < sgn_val H b" (is ?less)
proof -
  show ?ovf using assms by (simp add: sgn_val_def split: if_split; linarith)
  show ?less using assms by (simp add: sgn_val_def split: if_split; linarith)
qed

lemma carry_lost:
  assumes "0 \<le> a" "a < N" "0 \<le> b" "b < N"
    and "R = (if a + b + of_bool cf < N then a + b + of_bool cf else a + b + of_bool cf - (N :: int))"
  shows "R < a \<longleftrightarrow> N \<le> a + b + of_bool cf \<and> \<not> (cf \<and> b = N - 1)"
  using assms by (cases cf; cases "a + b + of_bool cf < N"; auto)

lemma inc_wrap:
  assumes "0 \<le> a" "a < N" "1 < N" "R = (if a + 1 < N then a + 1 else (0 :: int))"
  shows "R = 0 \<longleftrightarrow> a = N - 1" "R < a \<longleftrightarrow> a = N - 1"
  using assms by (cases "a + 1 < N"; simp)+

lemma sval_sgn_val: "in_width w x \<Longrightarrow> sval w x = sgn_val (2 ^ (nbits w - 1)) (uint x)"
  using width_halves [of w] by (simp add: sval_eq MSB_iff sgn_val_def)

lemma in_width_half: "in_width w x \<Longrightarrow> uint x < 2 * 2 ^ (nbits w - 1)"
  by (simp only: in_width_uint width_halves)

lemma add_flags_spec:
  fixes c :: CPU_state
  assumes "in_width w d" "in_width w r"
  defines "c' \<equiv> add_flags w (data_type w (d + r)) d r c"
  shows "CF c' \<longleftrightarrow> 2 ^ nbits w \<le> uval w d + uval w r"
    and "OF c' \<longleftrightarrow> sval w d + sval w r < - (2 ^ (nbits w - 1)) \<or> 2 ^ (nbits w - 1) \<le> sval w d + sval w r"
    and "SF c' \<longleftrightarrow> sval w (d + r) < 0" and "ZF c' \<longleftrightarrow> data_type w (d + r) = 0"
    and "PF c' \<longleftrightarrow> even (low_ones (data_type w (d + r)))"
proof -
  let ?N = "2 ^ nbits w :: int" and ?R = "data_type w (d + r)"
  note f = assms(1,2) [unfolded in_width_uint] uint_ge_0 [of d] uint_ge_0 [of r]
  have R: "uint ?R = (if uint d + uint r < ?N then uint d + uint r else uint d + uint r - ?N)"
    using f wrap_once [of ?N "uint d + uint r"] by (simp add: uint_add_width)
  have "MSB w (d + r) \<longleftrightarrow> 2 ^ (nbits w - 1) \<le> uint ?R"
    using MSB_iff [OF in_width_data_type, of w "d + r"] by simp
  note m = MSB_iff [OF assms(1)] MSB_iff [OF assms(2)] this
  note sv = sval_eq [OF in_width_data_type [of w "d + r"]]
  have s: "sval w ?R = sval w (d + r)" by (simp add: sval_def data_type_s_data_type)
  show "CF c' \<longleftrightarrow> ?N \<le> uval w d + uval w r"
    using R f assms(1,2) by (auto simp: c'_def add_flags_def Let_def word_less_alt)
  show "SF c' \<longleftrightarrow> sval w (d + r) < 0"
    using sv in_width_data_type [of w "d + r", unfolded in_width_uint] uint_ge_0 [of ?R]
    by (auto simp: c'_def add_flags_def Let_def s)
  show "OF c' \<longleftrightarrow> sval w d + sval w r < - (2 ^ (nbits w - 1)) \<or> 2 ^ (nbits w - 1) \<le> sval w d + sval w r"
    using add_overflow [OF uint_ge_0 in_width_half [OF assms(1)] uint_ge_0 in_width_half [OF assms(2)] R [unfolded width_halves]]
    unfolding sval_sgn_val [OF assms(1)] sval_sgn_val [OF assms(2)] m [symmetric]
    by (simp add: c'_def add_flags_def Let_def)
  show "ZF c' \<longleftrightarrow> data_type w (d + r) = 0" by (simp add: c'_def add_flags_def Let_def)
  show "PF c' \<longleftrightarrow> even (low_ones (data_type w (d + r)))"
    by (simp add: c'_def add_flags_def Let_def even_parity_iff)
qed

lemma sub_flags_spec:
  fixes c :: CPU_state
  assumes "in_width w d" "in_width w r"
  defines "c' \<equiv> sub_flags w (data_type w (d - r)) (d < r) d r c"
  shows "CF c' \<longleftrightarrow> uval w d < uval w r" and "ZF c' \<longleftrightarrow> uval w d = uval w r"
    and "(SF c' \<noteq> OF c') \<longleftrightarrow> sval w d < sval w r" and "ZF c' \<longleftrightarrow> sval w d = sval w r"
    and "OF c' \<longleftrightarrow> sval w d - sval w r < - (2 ^ (nbits w - 1)) \<or> 2 ^ (nbits w - 1) \<le> sval w d - sval w r"
    and "SF c' \<longleftrightarrow> sval w (d - r) < 0"
    and "PF c' \<longleftrightarrow> even (low_ones (data_type w (d - r)))"
proof -
  let ?N = "2 ^ nbits w :: int" and ?R = "data_type w (d - r)"
  note f = assms(1,2) [unfolded in_width_uint] uint_ge_0 [of d] uint_ge_0 [of r]
  have R: "uint ?R = (if uint d < uint r then uint d - uint r + ?N else uint d - uint r)"
    using wrap_once [of ?N "uint d - uint r"] f unfolding uint_sub_width by (simp only: split: if_split) linarith
  have "MSB w (d - r) \<longleftrightarrow> 2 ^ (nbits w - 1) \<le> uint ?R"
    using MSB_iff [OF in_width_data_type, of w "d - r"] by simp
  note m = MSB_iff [OF assms(1)] MSB_iff [OF assms(2)] this
  note sv = sval_eq [OF in_width_data_type [of w "d - r"]]
  have s: "sval w ?R = sval w (d - r)" by (simp add: sval_def data_type_s_data_type)
  have Z: "?R = 0 \<longleftrightarrow> uint d = uint r"
    using R f by (simp add: word_uint_eq_iff split: if_splits; linarith)
  show "CF c' \<longleftrightarrow> uval w d < uval w r"
    using assms(1,2) by (simp add: c'_def sub_flags_def Let_def word_less_alt)
  show "ZF c' \<longleftrightarrow> uval w d = uval w r"
    using assms(1,2) Z by (simp add: c'_def sub_flags_def Let_def)
  show "ZF c' \<longleftrightarrow> sval w d = sval w r"
    using Z f unfolding sval_eq [OF assms(1)] sval_eq [OF assms(2)] m
    by (simp add: c'_def sub_flags_def Let_def split: if_split; linarith)
  show "(SF c' \<noteq> OF c') \<longleftrightarrow> sval w d < sval w r"
    using sub_overflow [OF uint_ge_0 in_width_half [OF assms(1)] uint_ge_0 in_width_half [OF assms(2)] R [unfolded width_halves]]
    unfolding sval_sgn_val [OF assms(1)] sval_sgn_val [OF assms(2)] m [symmetric]
    by (simp add: c'_def sub_flags_def Let_def)
  show "OF c' \<longleftrightarrow> sval w d - sval w r < - (2 ^ (nbits w - 1)) \<or> 2 ^ (nbits w - 1) \<le> sval w d - sval w r"
    using sub_overflow [OF uint_ge_0 in_width_half [OF assms(1)] uint_ge_0 in_width_half [OF assms(2)] R [unfolded width_halves]]
    unfolding sval_sgn_val [OF assms(1)] sval_sgn_val [OF assms(2)] m [symmetric]
    by (simp add: c'_def sub_flags_def Let_def)
  show "SF c' \<longleftrightarrow> sval w (d - r) < 0"
    using sv in_width_data_type [of w "d - r", unfolded in_width_uint] uint_ge_0 [of ?R]
    by (auto simp: c'_def sub_flags_def Let_def s)
  show "PF c' \<longleftrightarrow> even (low_ones (data_type w (d - r)))"
    by (simp add: c'_def sub_flags_def Let_def even_parity_iff)
qed

text \<open>
  The source of a comparison need not fit the width: the sign-extended byte of \<open>66 83 /7\<close> is 32 bits
  wide. Every flag but CF is computed from the truncated result and the top bits, so it is that of the truncated
  source; CF compares the untruncated values and is then always set.
\<close>

lemma sub_flags_any_source:
  fixes c :: CPU_state and r :: u32
  assumes "in_width w d"
  defines "c' \<equiv> sub_flags w (data_type w (d - r)) (d < r) d r c"
  shows "CF c' \<longleftrightarrow> uval w d < uval w r \<or> \<not> in_width w r" and "ZF c' \<longleftrightarrow> uval w d = uval w r"
    and "(SF c' \<noteq> OF c') \<longleftrightarrow> sval w d < sval w r" and "ZF c' \<longleftrightarrow> sval w d = sval w r"
proof -
  let ?r = "data_type w r"
  let ?c = "sub_flags w (data_type w (d - ?r)) (d < ?r) d ?r c"
  have result: "data_type w (d - ?r) = data_type w (d - r)"
    by (rule word_uint_eqI, simp only: uint_sub_width) (simp only: uint_data_type mod_diff_right_eq)
  have top: "MSB w ?r = MSB w r" using nbits_Suc [of w] by (auto simp: MSB_def data_type_def bit_simps)
  have other: "ZF c' = ZF ?c" "SF c' = SF ?c" "OF c' = OF ?c" by (simp_all add: c'_def sub_flags_def result top)
  have r: "uval w ?r = uval w r" "sval w ?r = sval w r"
    by (simp_all add: uval_def sval_def data_type_s_data_type)
  note F = sub_flags_spec [OF assms(1) in_width_data_type [of w r], of c, unfolded r]
  show "ZF c' \<longleftrightarrow> uval w d = uval w r" unfolding other by (rule F(2))
  show "(SF c' \<noteq> OF c') \<longleftrightarrow> sval w d < sval w r" unfolding other by (rule F(3))
  show "ZF c' \<longleftrightarrow> sval w d = sval w r" unfolding other by (rule F(4))
  have "CF c' \<longleftrightarrow> uint d < uint r" by (simp add: c'_def sub_flags_def Let_def word_less_alt)
  moreover have "uint d < 2 ^ nbits w" using assms(1) by (simp only: in_width_uint)
  ultimately show "CF c' \<longleftrightarrow> uval w d < uval w r \<or> \<not> in_width w r"
    using assms(1) by (cases "in_width w r") (simp_all add: in_width_uint [of w r] not_less)
qed

section \<open>Runs\<close>

lemmas exec_run = seqM_def bindM_def run_simps Let_def

lemma add_run:
  assumes "reg_operand i (get_op Dest s)"
  shows "add_execute w s = Ret () (s\<lparr>cpu :=
    (let d = op_val (get_op Dest s); r = op_val (get_op Src s)
     in add_flags w (data_type w (d + r)) d r (set_reg_val w i (data_type w (d + r)) (cpu s)))\<rparr>)"
  using assms by (simp add: add_execute_def exec_run)

lemma add_flags_frame [simp]:
  "reg_val w i (add_flags w' x d r c) = reg_val w i c" "eip (add_flags w' x d r c) = eip c"
  "reg_val w i (sub_flags w' x cf d r c) = reg_val w i c" "eip (sub_flags w' x cf d r c) = eip c"
  by (simp_all add: add_flags_def sub_flags_def Let_def)

lemma sub_flags_gpr [simp]: "gpr (sub_flags w x cf d r c) = gpr c"
  by (simp add: sub_flags_def Let_def)

section \<open>Properties\<close>

text \<open>
  C27. After \<open>cmp\<close> the condition codes decide the order of the operands at every width: less and
  greater compare them as two's complement numbers, equality is equality, and below and above compare them as
  unsigned numbers whenever the source fits the width. The destination always fits: the decoders read it from a register
  or from memory at the width. The one source that may not fit is the sign-extended byte of a word
  comparison (\<open>66 83 /7\<close>): a negative one leaves CF set and "below" answered yes whatever the
  destination holds. No register and no memory changes.
\<close>

theorem cmp_decides:
  assumes "d = op_val (get_op Dest s)" "r = op_val (get_op Src s)" "in_width w d"
  shows "wp (cmp_execute w) (\<lambda>_ t.
    (check_cc_b (cpu t) \<longleftrightarrow> uval w d < uval w r \<or> \<not> in_width w r) \<and>
    (check_cc_be (cpu t) \<longleftrightarrow> uval w d \<le> uval w r \<or> \<not> in_width w r) \<and>
    (check_cc_a (cpu t) \<longleftrightarrow> uval w r < uval w d \<and> in_width w r) \<and>
    (check_cc_e (cpu t) \<longleftrightarrow> uval w d = uval w r) \<and> (check_cc_ne (cpu t) \<longleftrightarrow> uval w d \<noteq> uval w r) \<and>
    (check_cc_l (cpu t) \<longleftrightarrow> sval w d < sval w r) \<and> (check_cc_le (cpu t) \<longleftrightarrow> sval w d \<le> sval w r) \<and>
    (check_cc_g (cpu t) \<longleftrightarrow> sval w r < sval w d) \<and> (check_cc_ge (cpu t) \<longleftrightarrow> sval w r \<le> sval w d) \<and>
    gpr (cpu t) = gpr (cpu s) \<and> mem t = mem s) s"
proof -
  let ?c = "sub_flags w (data_type w (d - r)) (d < r) d r (cpu s)"
  have run: "cmp_execute w s = Ret () (s\<lparr>cpu := ?c\<rparr>)"
    using assms(1,2) by (simp add: cmp_execute_def exec_run)
  note F = sub_flags_any_source [OF assms(3), of r "cpu s"]
  have sv: "sval w d \<le> sval w r \<longleftrightarrow> sval w d < sval w r \<or> ZF ?c" using F(4) by auto
  have u: "uval w d \<le> uval w r \<or> \<not> in_width w r \<longleftrightarrow> CF ?c \<or> ZF ?c" unfolding F(1,2) by linarith
  have g: "sval w r < sval w d \<longleftrightarrow> \<not> (sval w d < sval w r \<or> ZF ?c)" using sv by linarith
  have ge: "sval w r \<le> sval w d \<longleftrightarrow> \<not> sval w d < sval w r" by linarith
  have a: "uval w r < uval w d \<and> in_width w r \<longleftrightarrow> \<not> (CF ?c \<or> ZF ?c)" unfolding F(1,2) by linarith
  show ?thesis unfolding wp_def run outcome.case sv u g ge a
    unfolding F(1,3) [symmetric] F(2) [symmetric]
    by (simp add: check_cc_b_def check_cc_be_def check_cc_a_def check_cc_e_def check_cc_ne_def
        check_cc_l_def check_cc_le_def check_cc_g_def check_cc_ge_def)
qed

theorem cmp_decides_witness:
  "wp (cmp_execute W16) (\<lambda>_ t. check_cc_b (cpu t) \<and> \<not> check_cc_a (cpu t) \<and> check_cc_e (cpu t))
     (cold_machine\<lparr>ops_decoded := (ops_decoded cold_machine)\<lparr>
        op_dest := (op_dest (ops_decoded cold_machine))\<lparr>op_val := 0xffff\<rparr>,
        op_src := (op_src (ops_decoded cold_machine))\<lparr>op_val := 0xffffffff\<rparr>\<rparr>\<rparr>)"
  by (rule wp_mono [OF cmp_decides [where d = "0xffff" and r = "0xffffffff"]])
    (simp_all add: get_op_def in_width_def uval_def data_type_def)

text \<open>
  \<open>add\<close> on a register destination: the register receives the sum modulo the operand width,
  the other registers keep their values, CF reports the unsigned and OF the signed overflow,
  SF the sign, ZF a zero result and PF an even number of ones in the low byte.
\<close>

lemma add_register:
  assumes "reg_operand i (get_op Dest s)" "d = op_val (get_op Dest s)" "r = op_val (get_op Src s)"
    and "in_width w d" "in_width w r"
  shows "wp (add_execute w) (\<lambda>_ t.
    uval w (reg_val w i (cpu t)) = (uval w d + uval w r) mod 2 ^ nbits w \<and>
    (\<forall>j<8. j \<noteq> i \<longrightarrow> reg_val w j (cpu t) = reg_val w j (cpu s)) \<and>
    (CF (cpu t) \<longleftrightarrow> 2 ^ nbits w \<le> uval w d + uval w r) \<and>
    (OF (cpu t) \<longleftrightarrow> \<not> (- (2 ^ (nbits w - 1)) \<le> sval w d + sval w r \<and> sval w d + sval w r < 2 ^ (nbits w - 1))) \<and>
    (SF (cpu t) \<longleftrightarrow> sval w (d + r) < 0) \<and> (ZF (cpu t) \<longleftrightarrow> data_type w (d + r) = 0) \<and>
    (PF (cpu t) \<longleftrightarrow> even (low_ones (d + r))) \<and> mem t = mem s) s"
proof -
  have i: "i < 8" using assms(1) by (simp add: reg_operand_def)
  let ?x = "data_type w (d + r)"
  let ?c = "add_flags w ?x d r (set_reg_val w i ?x (cpu s))"
  have run: "add_execute w s = Ret () (s\<lparr>cpu := ?c\<rparr>)" using add_run [OF assms(1), of w] assms(2,3) by (simp add: Let_def)
  have low: "low_ones ?x = low_ones (d + r)"
  proof -
    have "bit ?x k = bit (d + r) k" if "k < 8" for k
      using that by (cases w) (simp_all add: data_type_def bit_simps)
    then show ?thesis by (auto simp: low_ones_def intro!: arg_cong [of _ _ length] filter_cong)
  qed
  have sum: "uval w (reg_val w i ?c) = (uval w d + uval w r) mod 2 ^ nbits w"
    using assms(4,5) i by (simp add: uint_add_width)
  show ?thesis unfolding wp_def run outcome.case
    using add_flags_spec [OF assms(4,5), of "set_reg_val w i ?x (cpu s)"] sum i low by auto
qed


text \<open>
  \<open>sub\<close> on a memory destination in flat mode writes back exactly the bytes of the
  difference, at the width of the operand, and sets CF and the signed comparison as \<open>cmp\<close> does.
\<close>

lemma sub_memory:
  assumes "cache_inv W (mem s)" "mem_operand W w s (get_op Dest s)"
    and "d = op_val (get_op Dest s)" "r = op_val (get_op Src s)" "in_width w d" "in_width w r"
  shows "wp (sub_execute w) (\<lambda>_ t. cache_inv W (mem t) \<and>
    mem_view (mem t) = store (unat (opu (get_op Dest s))) (DATA_BYTE w) (d - r) (mem_view (mem s)) \<and>
    gpr (cpu t) = gpr (cpu s) \<and> (CF (cpu t) \<longleftrightarrow> uval w d < uval w r) \<and>
    (check_cc_l (cpu t) \<longleftrightarrow> sval w d < sval w r) \<and> (ZF (cpu t) \<longleftrightarrow> d = r)) s"
proof -
  let ?x = "data_type w (d - r)"
  let ?c = "sub_flags w ?x (d < r) d r (cpu s)"
  from write_memory [OF assms(1,2), of "?x"] obtain m where
    m: "write_operand w Dest ?x s = Ret () (s\<lparr>mem := m\<rparr>)" "cache_inv W m"
      "mem_view m = store (unat (opu (get_op Dest s))) (DATA_BYTE w) ?x (mem_view (mem s))" by blast
  have "sub_execute w s = Ret () (s\<lparr>mem := m, cpu := ?c\<rparr>)"
    using assms(3,4) m(1) by (simp add: sub_execute_def exec_run)
  moreover have "d = r \<longleftrightarrow> uval w d = uval w r" using assms(5,6) by (simp add: word_uint_eq_iff)
  ultimately show ?thesis
    using m(2,3) sub_flags_spec(1,2,3) [OF assms(5,6), of "cpu s"]
    by (simp add: wp_def check_cc_l_def store_data_type)
qed


text \<open>
  \<open>adc\<close> adds the carry into the result correctly, but loses the carry out in one case: when
  CF is set and the source is all ones the result equals the destination, so the test
  \<open>result < op_dest->val\<close> clears CF although the sum overflowed. In every other case CF is right.
\<close>

lemma adc_carry_out:
  assumes "reg_operand i (get_op Dest s)" "d = op_val (get_op Dest s)" "r = op_val (get_op Src s)"
    and "in_width w d" "in_width w r"
  shows "wp (adc_execute w) (\<lambda>_ t.
    uval w (reg_val w i (cpu t)) = (uval w d + uval w r + of_bool (CF (cpu s))) mod 2 ^ nbits w \<and>
    (CF (cpu t) \<longleftrightarrow> 2 ^ nbits w \<le> uval w d + uval w r + of_bool (CF (cpu s)) \<and>
       \<not> (CF (cpu s) \<and> uval w r = 2 ^ nbits w - 1))) s"
proof -
  have i: "i < 8" using assms(1) by (simp add: reg_operand_def)
  let ?k = "of_bool (CF (cpu s))" and ?N = "2 ^ nbits w :: int"
  let ?x = "data_type w (d + r + ?k)"
  have run: "adc_execute w s = Ret () (s\<lparr>cpu := add_flags w ?x d r (set_reg_val w i ?x (cpu s))\<rparr>)"
    using assms(1-3) by (simp add: adc_execute_def exec_run)
  have "uint (d + r + ?k) = (uint d + uint r + ?k) mod 2 ^ 32"
    by (cases "CF (cpu s)") (simp_all add: uint_word_ariths mod_simps)
  then have x: "uint ?x = (uint d + uint r + ?k) mod ?N"
    using mod_width [of "uint d + uint r + ?k" w] by (simp only: uint_data_type)
  have b: "uint d < ?N" "uint r < ?N" "0 \<le> uint d" "0 \<le> uint r" using assms(4,5) by (simp_all add: in_width_uint)
  have xr: "uint ?x = (if uint d + uint r + ?k < ?N then uint d + uint r + ?k else uint d + uint r + ?k - ?N)"
    using wrap_once [of ?N "uint d + uint r + ?k"] b unfolding x by (cases "CF (cpu s)") auto
  have "?x < d \<longleftrightarrow> ?N \<le> uint d + uint r + ?k \<and> \<not> (CF (cpu s) \<and> uint r = ?N - 1)"
    unfolding word_less_alt using carry_lost [OF b(3) b(1) b(4) b(2) xr] by simp
  then show ?thesis unfolding wp_def run outcome.case
    using i x assms(4,5) by (simp add: add_flags_def Let_def)
qed


section \<open>Products and quotients\<close>

text \<open>The value of EDX:EAX (DX:AX for 16-bit operations).\<close>

definition acc_pair :: "width \<Rightarrow> CPU_state \<Rightarrow> nat" where
  "acc_pair w c = unat (reg_val w R_EDX c) * 2 ^ nbits w + unat (reg_val w R_EAX c)"

lemma unat_u64 [simp]: "unat (ucast (x :: u32) :: u64) = unat x"
proof -
  have "unat x < 2 ^ LENGTH(64)" using unsigned_less [of x, where 'a = nat] by simp
  then show ?thesis by (simp only: unsigned_ucast_eq take_bit_nat_eq_self)
qed

lemma unat_u32 [simp]: "unat (ucast (x :: u64) :: u32) = unat x mod 2 ^ 32"
  by (simp only: unsigned_ucast_eq take_bit_eq_mod) simp

lemma unat_data_type: "unat (data_type w x) = unat x mod 2 ^ nbits w"
  by (simp add: data_type_def unat_take_bit)

lemma div_run:
  assumes "w \<noteq> B8" "in_width w b" "b = op_val (get_op Src s)" "b \<noteq> 0"
  shows "wp (div_execute w) (\<lambda>_ t.
    unat (reg_val w R_EAX (cpu t)) = (acc_pair w (cpu s) div unat b) mod 2 ^ nbits w \<and>
    unat (reg_val w R_EDX (cpu t)) = acc_pair w (cpu s) mod unat b \<and> mem t = mem s) s"
proof -
  let ?h = "reg_val w R_EDX (cpu s)" and ?l = "reg_val w R_EAX (cpu s)"
  let ?a = "push_bit (DATA_BYTE w * 8) (ucast ?h) OR ucast ?l :: u64"
  have lt: "unat ?h < 2 ^ nbits w" "unat ?l < 2 ^ nbits w" "unat b < 2 ^ nbits w"
    using assms(2) reg_val_in [of w _ "cpu s"] by (simp_all add: in_width_def)
  have "?a = push_bit (DATA_BYTE w * 8) (ucast ?h) + ucast ?l"
  proof (rule disjunctive_add [symmetric])
    fix n
    have "\<not> bit ?l n" if "DATA_BYTE w * 8 \<le> n"
      using reg_val_in [of w R_EAX "cpu s"] that
      by (metis bit_take_bit_iff data_type_def data_type_in leD mult.commute)
    then show "\<not> bit (push_bit (DATA_BYTE w * 8) (ucast ?h) :: u64) n \<or> \<not> bit (ucast ?l :: u64) n"
      by (auto simp: bit_simps)
  qed
  then have a: "unat ?a = acc_pair w (cpu s)"
    using lt assms(1)
    by (cases w) (simp_all add: acc_pair_def unat_word_ariths push_bit_eq_mult)
  have m: "unat (data_type w (ucast (x :: u64))) = unat x mod 2 ^ nbits w" for x
    unfolding unat_data_type unat_u32 by (rule mod_mod_cancel) (rule le_imp_power_dvd, rule nbits_le)
  have rem: "acc_pair w (cpu s) mod unat b < 2 ^ nbits w"
    using assms(4) lt(3) by (metis mod_less_divisor order.strict_trans unat_gt_0)
  have b0: "(ucast b :: u64) \<noteq> 0" using assms(4) by (simp add: word_unat_eq_iff)
  have "div_execute w s = Ret () (s\<lparr>cpu := set_reg_val w R_EDX (ucast (?a mod ucast b))
      (set_reg_val w R_EAX (ucast (?a div ucast b)) (cpu s))\<rparr>)"
    using assms(1-3) b0 by (cases w) (simp_all add: div_execute_def exec_run)
  then show ?thesis using m rem unat_div [of ?a "ucast b"] unat_mod [of ?a "ucast b"] a by (simp add: wp_def)
qed

lemma mul_run:
  assumes "w \<noteq> B8" "in_width w b" "b = op_val (get_op Src s)"
  shows "wp (mul_execute w) (\<lambda>_ t. acc_pair w (cpu t) = unat (reg_val w R_EAX (cpu s)) * unat b \<and>
    ops_decoded t = ops_decoded s \<and> mem t = mem s) s"
proof -
  let ?a = "reg_val w R_EAX (cpu s)"
  let ?p = "ucast ?a * ucast b :: u64"
  have lt: "unat ?a < 2 ^ nbits w" "unat b < 2 ^ nbits w"
    using assms(2) reg_val_in [of w R_EAX "cpu s"] by (simp_all add: in_width_def)
  then have "unat ?a * unat b < 2 ^ nbits w * 2 ^ nbits w" by (intro mult_strict_mono) auto
  also have "\<dots> \<le> 2 ^ 64" using assms(1) by (cases w) simp_all
  finally have p: "unat ?p = unat ?a * unat b" by (simp add: unat_word_ariths)
  have sq: "unat ?p < 2 ^ nbits w * 2 ^ nbits w" unfolding p using lt by (intro mult_strict_mono) auto
  have lo: "unat (data_type w (ucast (?p AND mask (nbits w)))) = unat ?p mod 2 ^ nbits w"
    unfolding unat_data_type unat_u32 using assms(1) by (cases w) (simp_all add: unat_and_low)
  have hi: "unat (data_type w (ucast (drop_bit (nbits w) ?p))) = unat ?p div 2 ^ nbits w"
    using sq assms(1) unfolding unat_data_type unat_u32 unat_drop_bit
    by (cases w) (simp_all add: less_mult_imp_div_less)
  have masks: "(0xffff :: u64) = mask 16" "(0xffffffff :: u64) = mask 32" by (simp_all add: mask_eq_exp_minus_1)
  have "mul_execute w s = Ret () (s\<lparr>cpu := set_reg_val w R_EDX (ucast (drop_bit (nbits w) ?p))
      (set_reg_val w R_EAX (ucast (?p AND mask (nbits w))) (cpu s))\<rparr>)"
    using assms(1,3) by (cases w) (simp_all add: mul_execute_def set_product_def exec_run masks)
  then show ?thesis using lo hi p by (simp add: wp_def acc_pair_def mult.commute div_mult_mod_eq)
qed

text \<open>
  C28. Unsigned division of DX:AX or EDX:EAX puts the remainder into (E)DX and the quotient,
  cut to the operand width without the overflow fault of the i386, into (E)AX; a zero divisor
  stops the emulator. Multiplying and then dividing by the same operand gives back the
  accumulator with remainder 0.
\<close>

theorem mul_div:
  assumes "w \<noteq> B8" "in_width w b" "b = op_val (get_op Src s)"
  shows "(if b = 0 then div_execute w s = Err DivideError else
    wp (div_execute w) (\<lambda>_ t.
      unat (reg_val w R_EAX (cpu t)) = (acc_pair w (cpu s) div unat b) mod 2 ^ nbits w \<and>
      unat (reg_val w R_EDX (cpu t)) = acc_pair w (cpu s) mod unat b) s \<and>
    wp (seqM (mul_execute w) (div_execute w)) (\<lambda>_ t.
      reg_val w R_EAX (cpu t) = reg_val w R_EAX (cpu s) \<and> reg_val w R_EDX (cpu t) = 0) s)"
proof (cases "b = 0")
  case True
  then show ?thesis using assms by (cases w) (simp_all add: div_execute_def exec_run)
next
  case False
  then have pos: "0 < unat b" by (simp add: unat_gt_0)
  from wp_RetD [OF mul_run [OF assms]] obtain t where t: "mul_execute w s = Ret () t"
    "acc_pair w (cpu t) = unat (reg_val w R_EAX (cpu s)) * unat b" "ops_decoded t = ops_decoded s" by auto
  have "b = op_val (get_op Src t)" using assms(3) t(3) by (simp add: get_op_def)
  from div_run [OF assms(1,2) this False] have "wp (div_execute w) (\<lambda>_ u.
      unat (reg_val w R_EAX (cpu u)) = unat (reg_val w R_EAX (cpu s)) \<and> unat (reg_val w R_EDX (cpu u)) = 0) t"
    by (rule wp_mono) (use t(2) pos reg_val_in [of w R_EAX "cpu s"] in \<open>simp add: in_width_def\<close>)
  then have "wp (seqM (mul_execute w) (div_execute w)) (\<lambda>_ t.
      reg_val w R_EAX (cpu t) = reg_val w R_EAX (cpu s) \<and> reg_val w R_EDX (cpu t) = 0) s"
    unfolding wp_seqM wp_def [of "mul_execute w"] t(1) outcome.case
    by (rule wp_mono) (simp add: word_unat_eq_iff)
  moreover have "wp (div_execute w) (\<lambda>_ t.
      unat (reg_val w R_EAX (cpu t)) = (acc_pair w (cpu s) div unat b) mod 2 ^ nbits w \<and>
      unat (reg_val w R_EDX (cpu t)) = acc_pair w (cpu s) mod unat b) s"
    by (rule wp_mono [OF div_run [OF assms False]]) simp
  ultimately show ?thesis using False by simp
qed

theorem mul_div_witness:
  "wp (seqM (mul_execute L32) (div_execute L32)) (\<lambda>_ t.
      reg_val L32 R_EAX (cpu t) = 0xdeadbeef \<and> reg_val L32 R_EDX (cpu t) = 0)
     (cold_machine\<lparr>cpu := set_gpr 0 0xdeadbeef (cpu cold_machine), ops_decoded := (ops_decoded cold_machine)\<lparr>
        op_src := (op_src (ops_decoded cold_machine))\<lparr>op_val := 0x12345678\<rparr>\<rparr>\<rparr>)" (is "wp _ _ ?s")
  using mul_div [of L32 "0x12345678" ?s] by (simp add: get_op_def reg_val_def)

text \<open>
  The 8-bit division writes the remainder to DL: it leaves AH, where the i386 puts it,
  unchanged.
\<close>

lemma div_b_remainder_in_DL:
  assumes "b = op_val (get_op Src s)" "in_width B8 b" "b \<noteq> 0"
  shows "wp (div_execute B8) (\<lambda>_ t.
    unat (reg_val B8 R_EDX (cpu t)) = unat (gpr_w R_EAX (cpu s)) mod unat b \<and>
    reg_val B8 4 (cpu t) = reg_val B8 4 (cpu s)) s"
proof -
  let ?a = "ucast (gpr_w R_EAX (cpu s)) :: u64"
  have b0: "(ucast b :: u64) \<noteq> 0" using assms(3) by (simp add: word_unat_eq_iff)
  have "div_execute B8 s = Ret () (s\<lparr>cpu := set_reg_val B8 R_EDX (ucast (?a mod ucast b))
      (set_reg_val B8 R_EAX (ucast (?a div ucast b)) (cpu s))\<rparr>)"
    using assms(1,2) b0 by (simp add: div_execute_def exec_run)
  moreover have "unat (gpr_w R_EAX (cpu s)) mod unat b < unat b" using assms(3) by (simp add: unat_gt_0)
  then have "unat (gpr_w R_EAX (cpu s)) mod unat b < 256" using assms(2) by (simp add: in_width_def)
  ultimately show ?thesis by (simp add: wp_def unat_data_type unat_mod)
qed


text \<open>
  \<open>inc\<close> of a register adds one modulo the operand width, sets OF exactly when the signed
  value was the largest one and ZF on wrap-around, and, unlike the i386, it does not keep CF:
  CF is overwritten with the carry of the addition.
\<close>

lemma inc_register:
  assumes "reg_operand i (get_op Src s)" "r = op_val (get_op Src s)" "in_width w r"
  shows "wp (inc_execute w) (\<lambda>_ t. uval w (reg_val w i (cpu t)) = (uval w r + 1) mod 2 ^ nbits w \<and>
    (ZF (cpu t) \<longleftrightarrow> uval w r = 2 ^ nbits w - 1) \<and> (CF (cpu t) \<longleftrightarrow> uval w r = 2 ^ nbits w - 1) \<and>
    (OF (cpu t) \<longleftrightarrow> sval w r = 2 ^ (nbits w - 1) - 1)) s"
proof -
  have i: "i < 8" using assms(1) by (simp add: reg_operand_def)
  let ?x = "data_type w (r + 1)" and ?N = "2 ^ nbits w :: int" and ?H = "2 ^ (nbits w - 1) :: int"
  have b: "uint r < ?N" "0 \<le> uint r" "?N = 2 * ?H" "1 \<le> ?H"
    using assms(3) width_halves by (simp_all add: in_width_uint)
  have x: "uint ?x = (uint r + 1) mod ?N" using uint_add_width [of w r 1] by simp
  have xr: "uint ?x = (if uint r + 1 < ?N then uint r + 1 else 0)"
    using b(1,2) unfolding x by (cases "uint r + 1 = ?N") simp_all
  have N: "1 < ?N" by (cases w) simp_all
  have Z: "?x = 0 \<longleftrightarrow> uint r = ?N - 1" "?x < r \<longleftrightarrow> uint r = ?N - 1"
    using inc_wrap [OF b(2) b(1) N xr] unfolding word_uint_eq_iff [of ?x] word_less_alt by simp_all
  have m: "MSB w r \<longleftrightarrow> ?H \<le> uint r" "MSB w (r + 1) \<longleftrightarrow> ?H \<le> uint ?x"
    using MSB_iff [OF assms(3)] MSB_iff [OF in_width_data_type, of w "r + 1"] by simp_all
  have O: "\<not> MSB w r \<and> MSB w (r + 1) \<noteq> MSB w r \<longleftrightarrow> sval w r = ?H - 1"
    unfolding sval_sgn_val [OF assms(3)] m using xr b by (auto simp: sgn_val_def)
  have "inc_execute w s = Ret () (s\<lparr>cpu :=
      set_flag PF_bit (even_parity ?x) (set_flag OF_bit (\<not> MSB w r \<and> MSB w (r + 1) \<noteq> MSB w r)
      (set_flag ZF_bit (?x = 0) (set_flag SF_bit (MSB w (r + 1)) (set_flag CF_bit (?x < r)
        (set_reg_val w i ?x (cpu s))))))\<rparr>)"
    using assms(1,2) by (simp add: inc_execute_def exec_run)
  then show ?thesis using i x Z O assms(3) by (simp add: wp_def)
qed


end
