(* ===== verification/Logic.thy ===== *)
theory Logic
  imports Arith
begin

unbundle bit_operations_syntax

text \<open>
  Bitwise operations, shifts and conditional byte sets: the templates of
  nemu/src/cpu/exec/logic.
\<close>

section \<open>And, or, xor, test, not\<close>

definition result_flags :: "width \<Rightarrow> u32 \<Rightarrow> CPU_state \<Rightarrow> CPU_state" where
  "result_flags w result c =
     set_flag PF_bit (even_parity result) (set_flag ZF_bit (result = 0) (set_flag SF_bit (MSB w result) c))"

definition logic_flags :: "width \<Rightarrow> u32 \<Rightarrow> CPU_state \<Rightarrow> CPU_state" where
  "logic_flags w result c = result_flags w result (set_flag OF_bit False (set_flag CF_bit False c))"

definition and_execute :: "width \<Rightarrow> (machine, unit) M" where
  "and_execute w =
     bindM (opM Dest) (\<lambda>d. bindM (opM Src) (\<lambda>r.
     let result = data_type w (op_val d AND op_val r) in
     seqM (write_operand w Dest result) (on_cpu (logic_flags w result))))"

definition and_i2a :: "width \<Rightarrow> helper_fun" where
  "and_i2a = make_instr_helper decode_i2a and_execute"
definition and_i2rm :: "width \<Rightarrow> helper_fun" where
  "and_i2rm = make_instr_helper decode_i2rm and_execute"
definition and_si2rm :: "width \<Rightarrow> helper_fun" where
  "and_si2rm = make_instr_helper decode_si2rm and_execute"
definition and_r2rm :: "width \<Rightarrow> helper_fun" where
  "and_r2rm = make_instr_helper decode_r2rm and_execute"
definition and_rm2r :: "width \<Rightarrow> helper_fun" where
  "and_rm2r = make_instr_helper decode_rm2r and_execute"

definition and_i2a_v :: helper_fun where "and_i2a_v = make_helper_v and_i2a"
definition and_i2rm_v :: helper_fun where "and_i2rm_v = make_helper_v and_i2rm"
definition and_si2rm_v :: helper_fun where "and_si2rm_v = make_helper_v and_si2rm"
definition and_r2rm_v :: helper_fun where "and_r2rm_v = make_helper_v and_r2rm"
definition and_rm2r_v :: helper_fun where "and_rm2r_v = make_helper_v and_rm2r"

definition or_execute :: "width \<Rightarrow> (machine, unit) M" where
  "or_execute w =
     bindM (opM Dest) (\<lambda>d. bindM (opM Src) (\<lambda>r.
     let result = data_type w (op_val d OR op_val r) in
     seqM (write_operand w Dest result) (on_cpu (logic_flags w result))))"

definition or_i2a :: "width \<Rightarrow> helper_fun" where
  "or_i2a = make_instr_helper decode_i2a or_execute"
definition or_i2rm :: "width \<Rightarrow> helper_fun" where
  "or_i2rm = make_instr_helper decode_i2rm or_execute"
definition or_si2rm :: "width \<Rightarrow> helper_fun" where
  "or_si2rm = make_instr_helper decode_si2rm or_execute"
definition or_r2rm :: "width \<Rightarrow> helper_fun" where
  "or_r2rm = make_instr_helper decode_r2rm or_execute"
definition or_rm2r :: "width \<Rightarrow> helper_fun" where
  "or_rm2r = make_instr_helper decode_rm2r or_execute"

definition or_i2a_v :: helper_fun where "or_i2a_v = make_helper_v or_i2a"
definition or_i2rm_v :: helper_fun where "or_i2rm_v = make_helper_v or_i2rm"
definition or_si2rm_v :: helper_fun where "or_si2rm_v = make_helper_v or_si2rm"
definition or_r2rm_v :: helper_fun where "or_r2rm_v = make_helper_v or_r2rm"
definition or_rm2r_v :: helper_fun where "or_rm2r_v = make_helper_v or_rm2r"

definition xor_execute :: "width \<Rightarrow> (machine, unit) M" where
  "xor_execute w =
     bindM (opM Dest) (\<lambda>d. bindM (opM Src) (\<lambda>r.
     let result = data_type w (op_val d XOR op_val r) in
     seqM (write_operand w Dest result) (on_cpu (logic_flags w result))))"

definition xor_i2a :: "width \<Rightarrow> helper_fun" where
  "xor_i2a = make_instr_helper decode_i2a xor_execute"
definition xor_i2rm :: "width \<Rightarrow> helper_fun" where
  "xor_i2rm = make_instr_helper decode_i2rm xor_execute"
definition xor_si2rm :: "width \<Rightarrow> helper_fun" where
  "xor_si2rm = make_instr_helper decode_si2rm xor_execute"
definition xor_r2rm :: "width \<Rightarrow> helper_fun" where
  "xor_r2rm = make_instr_helper decode_r2rm xor_execute"
definition xor_rm2r :: "width \<Rightarrow> helper_fun" where
  "xor_rm2r = make_instr_helper decode_rm2r xor_execute"

definition xor_i2a_v :: helper_fun where "xor_i2a_v = make_helper_v xor_i2a"
definition xor_i2rm_v :: helper_fun where "xor_i2rm_v = make_helper_v xor_i2rm"
definition xor_si2rm_v :: helper_fun where "xor_si2rm_v = make_helper_v xor_si2rm"
definition xor_r2rm_v :: helper_fun where "xor_r2rm_v = make_helper_v xor_r2rm"
definition xor_rm2r_v :: helper_fun where "xor_rm2r_v = make_helper_v xor_rm2r"

definition test_execute :: "width \<Rightarrow> (machine, unit) M" where
  "test_execute w =
     bindM (opM Dest) (\<lambda>d. bindM (opM Src) (\<lambda>r.
     on_cpu (logic_flags w (data_type w (op_val d AND op_val r)))))"

definition test_r2rm :: "width \<Rightarrow> helper_fun" where
  "test_r2rm = make_instr_helper decode_r2rm test_execute"
definition test_i2rm :: "width \<Rightarrow> helper_fun" where
  "test_i2rm = make_instr_helper decode_i2rm test_execute"
definition test_i2a :: "width \<Rightarrow> helper_fun" where
  "test_i2a = make_instr_helper decode_i2a test_execute"

definition test_r2rm_v :: helper_fun where "test_r2rm_v = make_helper_v test_r2rm"
definition test_i2rm_v :: helper_fun where "test_i2rm_v = make_helper_v test_i2rm"
definition test_i2a_v :: helper_fun where "test_i2a_v = make_helper_v test_i2a"

definition not_execute :: "width \<Rightarrow> (machine, unit) M" where
  "not_execute w =
     bindM (opM Src) (\<lambda>r.
     let result = data_type w (NOT (op_val r)) in
     seqM (write_operand w Src result) (on_cpu (set_flag ZF_bit (result = 0))))"

definition not_rm :: "width \<Rightarrow> helper_fun" where
  "not_rm = make_instr_helper decode_rm not_execute"

definition not_rm_v :: helper_fun where "not_rm_v = make_helper_v not_rm"

section \<open>Shifts\<close>

text \<open>
  The shift count is \<open>src & 0x1f\<close>. CF is taken from the count operand, not from the shifted
  value: its most significant bit for \<open>shl\<close>, its least significant bit for \<open>shr\<close> and \<open>sar\<close>.
\<close>

definition shl_execute :: "width \<Rightarrow> (machine, unit) M" where
  "shl_execute w =
     bindM (opM Src) (\<lambda>r. bindM (opM Dest) (\<lambda>d.
     let src = data_type w (op_val r); dest = data_type w (op_val d) in
     seqM (on_cpu (set_flag CF_bit (MSB w src)))
    (let count = unat (src AND 0x1f); dest = data_type w (push_bit count dest) in
     seqM (write_operand w Dest dest) (on_cpu (result_flags w dest)))))"

definition shl_rm_1 :: "width \<Rightarrow> helper_fun" where
  "shl_rm_1 = make_instr_helper decode_rm_1 shl_execute"
definition shl_rm_cl :: "width \<Rightarrow> helper_fun" where
  "shl_rm_cl = make_instr_helper decode_rm_cl shl_execute"
definition shl_rm_imm :: "width \<Rightarrow> helper_fun" where
  "shl_rm_imm = make_instr_helper decode_rm_imm shl_execute"

definition shl_rm_1_v :: helper_fun where "shl_rm_1_v = make_helper_v shl_rm_1"
definition shl_rm_cl_v :: helper_fun where "shl_rm_cl_v = make_helper_v shl_rm_cl"
definition shl_rm_imm_v :: helper_fun where "shl_rm_imm_v = make_helper_v shl_rm_imm"

definition shr_execute :: "width \<Rightarrow> (machine, unit) M" where
  "shr_execute w =
     bindM (opM Src) (\<lambda>r. bindM (opM Dest) (\<lambda>d.
     let src = data_type w (op_val r); dest = data_type w (op_val d) in
     seqM (on_cpu (set_flag CF_bit (MSB w (push_bit (nbits w - 1) src))))
    (let count = unat (src AND 0x1f); dest = drop_bit count dest in
     seqM (write_operand w Dest dest) (on_cpu (result_flags w dest)))))"

definition shr_rm_1 :: "width \<Rightarrow> helper_fun" where
  "shr_rm_1 = make_instr_helper decode_rm_1 shr_execute"
definition shr_rm_cl :: "width \<Rightarrow> helper_fun" where
  "shr_rm_cl = make_instr_helper decode_rm_cl shr_execute"
definition shr_rm_imm :: "width \<Rightarrow> helper_fun" where
  "shr_rm_imm = make_instr_helper decode_rm_imm shr_execute"

definition shr_rm_1_v :: helper_fun where "shr_rm_1_v = make_helper_v shr_rm_1"
definition shr_rm_cl_v :: helper_fun where "shr_rm_cl_v = make_helper_v shr_rm_cl"
definition shr_rm_imm_v :: helper_fun where "shr_rm_imm_v = make_helper_v shr_rm_imm"

definition sar_execute :: "width \<Rightarrow> (machine, unit) M" where
  "sar_execute w =
     bindM (opM Src) (\<lambda>r. bindM (opM Dest) (\<lambda>d.
     let src = data_type w (op_val r); dest = data_type_s w (op_val d) in
     seqM (on_cpu (set_flag CF_bit (MSB w (push_bit (nbits w - 1) src))))
    (let count = unat (src AND 0x1f); dest = data_type w (signed_drop_bit count dest) in
     seqM (write_operand w Dest dest) (on_cpu (result_flags w dest)))))"

definition sar_rm_1 :: "width \<Rightarrow> helper_fun" where
  "sar_rm_1 = make_instr_helper decode_rm_1 sar_execute"
definition sar_rm_cl :: "width \<Rightarrow> helper_fun" where
  "sar_rm_cl = make_instr_helper decode_rm_cl sar_execute"
definition sar_rm_imm :: "width \<Rightarrow> helper_fun" where
  "sar_rm_imm = make_instr_helper decode_rm_imm sar_execute"

definition sar_rm_1_v :: helper_fun where "sar_rm_1_v = make_helper_v sar_rm_1"
definition sar_rm_cl_v :: helper_fun where "sar_rm_cl_v = make_helper_v sar_rm_cl"
definition sar_rm_imm_v :: helper_fun where "sar_rm_imm_v = make_helper_v sar_rm_imm"

text \<open>The loop of \<open>shrd\<close>: one bit of \<open>inn\<close> moves into \<open>out\<close> per round.\<close>

primrec shrd_loop :: "width \<Rightarrow> nat \<Rightarrow> u32 \<Rightarrow> u32 \<Rightarrow> u32" where
  "shrd_loop w 0 inn out = out"
| "shrd_loop w (Suc count) inn out =
     shrd_loop w count (drop_bit 1 inn) (drop_bit 1 out OR push_bit (nbits w - 1) (inn AND 1))"

definition shrd_execute :: "width \<Rightarrow> (machine, unit) M" where
  "shrd_execute w =
     bindM (opM Dest) (\<lambda>d. bindM (opM Src2) (\<lambda>r2. bindM (opM Src) (\<lambda>r.
     write_operand w Src2 (shrd_loop w (unat (op_val r AND 0x1f)) (data_type w (op_val d)) (data_type w (op_val r2))))))"

definition shrdi :: "width \<Rightarrow> helper_fun" where
  "shrdi w pc =
     bindM (decode_si_rm2r w (pc + 1)) (\<lambda>len.
     bindM (opM Dest) (\<lambda>d.
     bindM (REG w (unat (opu d))) (\<lambda>v.
     seqM (set_op Dest (\<lambda>p. p\<lparr>op_val := v\<rparr>))
    (seqM (shrd_execute w) (ret (len + 1))))))"

definition shrdi_v :: helper_fun where "shrdi_v = make_helper_v shrdi"

section \<open>Setting a byte on a condition\<close>

definition setcc_on :: "(CPU_state \<Rightarrow> bool) \<Rightarrow> helper_fun" where
  "setcc_on cond pc =
     bindM (decode_r2rm B8 (pc + 1)) (\<lambda>len.
     bindM (cpuM cond) (\<lambda>b.
     seqM (write_operand B8 Dest (if b then 1 else 0)) (ret (1 + len))))"

definition setcc_a :: helper_fun where "setcc_a = setcc_on (\<lambda>c. \<not> CF c \<and> \<not> ZF c)"
definition setcc_ae :: helper_fun where "setcc_ae = setcc_on (\<lambda>c. \<not> CF c)"
definition setcc_b :: helper_fun where "setcc_b = setcc_on (\<lambda>c. CF c)"
definition setcc_be :: helper_fun where "setcc_be = setcc_on (\<lambda>c. CF c \<or> ZF c)"
definition setcc_e :: helper_fun where "setcc_e = setcc_on (\<lambda>c. ZF c)"
definition setcc_g :: helper_fun where "setcc_g = setcc_on (\<lambda>c. \<not> ZF c \<and> SF c = OF c)"
definition setcc_ge :: helper_fun where "setcc_ge = setcc_on (\<lambda>c. SF c = OF c)"
definition setcc_l :: helper_fun where "setcc_l = setcc_on (\<lambda>c. SF c \<noteq> OF c)"
definition setcc_le :: helper_fun where "setcc_le = setcc_on (\<lambda>c. ZF c \<or> SF c \<noteq> OF c)"
definition setcc_ne :: helper_fun where "setcc_ne = setcc_on (\<lambda>c. \<not> ZF c)"
definition setcc_no :: helper_fun where "setcc_no = setcc_on (\<lambda>c. \<not> OF c)"
definition setcc_np :: helper_fun where "setcc_np = setcc_on (\<lambda>c. \<not> PF c)"
definition setcc_ns :: helper_fun where "setcc_ns = setcc_on (\<lambda>c. \<not> SF c)"
definition setcc_o :: helper_fun where "setcc_o = setcc_on (\<lambda>c. OF c)"
definition setcc_p :: helper_fun where "setcc_p = setcc_on (\<lambda>c. PF c)"
definition setcc_s :: helper_fun where "setcc_s = setcc_on (\<lambda>c. SF c)"

text \<open>The older templates seta, setc, sete, setna, setnc and setne, which no opcode uses.\<close>

definition set_src_on :: "(CPU_state \<Rightarrow> bool) \<Rightarrow> (machine, unit) M" where
  "set_src_on cond = bindM (cpuM cond) (\<lambda>b. write_operand B8 Src (if b then 1 else 0))"

definition seta_execute :: "(machine, unit) M" where "seta_execute = set_src_on (\<lambda>c. \<not> CF c \<and> \<not> ZF c)"
definition setc_execute :: "(machine, unit) M" where "setc_execute = set_src_on (\<lambda>c. CF c)"
definition sete_execute :: "(machine, unit) M" where "sete_execute = set_src_on (\<lambda>c. ZF c)"
definition setna_execute :: "(machine, unit) M" where "setna_execute = set_src_on (\<lambda>c. CF c \<or> ZF c)"
definition setnc_execute :: "(machine, unit) M" where "setnc_execute = set_src_on (\<lambda>c. \<not> CF c)"
definition setne_execute :: "(machine, unit) M" where "setne_execute = set_src_on (\<lambda>c. \<not> ZF c)"

definition seta_rm_b :: helper_fun where "seta_rm_b pc = idex pc (decode_rm B8) seta_execute"
definition setc_rm_b :: helper_fun where "setc_rm_b pc = idex pc (decode_rm B8) setc_execute"
definition sete_rm_b :: helper_fun where "sete_rm_b pc = idex pc (decode_rm B8) sete_execute"
definition setna_rm_b :: helper_fun where "setna_rm_b pc = idex pc (decode_rm B8) setna_execute"
definition setnc_rm_b :: helper_fun where "setnc_rm_b pc = idex pc (decode_rm B8) setnc_execute"
definition setne_rm_b :: helper_fun where "setne_rm_b pc = idex pc (decode_rm B8) setne_execute"

end
