(* ===== verification/DataMov.thy ===== *)
theory DataMov
  imports Operands
begin

unbundle bit_operations_syntax

text \<open>
  Data movement: the templates of nemu/src/cpu/exec/data-mov, with the loading of segment
  registers that jumps and interrupts share.
\<close>

section \<open>Moves\<close>

definition mov_execute :: "width \<Rightarrow> (machine, unit) M" where
  "mov_execute w = bindM (opM Src) (\<lambda>r. write_operand w Dest (op_val r))"

definition mov_i2r :: "width \<Rightarrow> helper_fun" where
  "mov_i2r = make_instr_helper decode_i2r mov_execute"
definition mov_i2rm :: "width \<Rightarrow> helper_fun" where
  "mov_i2rm = make_instr_helper decode_i2rm mov_execute"
definition mov_r2rm :: "width \<Rightarrow> helper_fun" where
  "mov_r2rm = make_instr_helper decode_r2rm mov_execute"
definition mov_rm2r :: "width \<Rightarrow> helper_fun" where
  "mov_rm2r = make_instr_helper decode_rm2r mov_execute"

definition mov_a2moffs :: "width \<Rightarrow> helper_fun" where
  "mov_a2moffs w pc =
     bindM (instr_fetch (pc + 1) 4) (\<lambda>addr.
     bindM (REG w R_EAX) (\<lambda>v.
     seqM (MEM_W w addr v 3) (ret 5)))"

definition mov_moffs2a :: "width \<Rightarrow> helper_fun" where
  "mov_moffs2a w pc =
     bindM (instr_fetch (pc + 1) 4) (\<lambda>addr.
     bindM (MEM_R w addr 3) (\<lambda>v.
     seqM (set_REG w R_EAX v) (ret 5)))"

definition mov_i2r_v :: helper_fun where "mov_i2r_v = make_helper_v mov_i2r"
definition mov_i2rm_v :: helper_fun where "mov_i2rm_v = make_helper_v mov_i2rm"
definition mov_r2rm_v :: helper_fun where "mov_r2rm_v = make_helper_v mov_r2rm"
definition mov_rm2r_v :: helper_fun where "mov_rm2r_v = make_helper_v mov_rm2r"
definition mov_a2moffs_v :: helper_fun where "mov_a2moffs_v = make_helper_v mov_a2moffs"
definition mov_moffs2a_v :: helper_fun where "mov_moffs2a_v = make_helper_v mov_moffs2a"

text \<open>Both branches of \<open>mov_cr2r\<close> read \<open>cr0\<close>.\<close>

definition mov_cr2r :: helper_fun where
  "mov_cr2r pc =
     bindM (instr_fetch (pc + 1) 1) (\<lambda>r_num.
     bindM (cpuM cr0) (\<lambda>v.
     seqM (if bits 3 3 r_num = 0 then set_reg_l (unat (r_num AND 7)) v
           else set_reg_l (unat (r_num AND 7)) v)
          (ret 2)))"

definition mov_r2cr :: helper_fun where
  "mov_r2cr pc =
     bindM (instr_fetch (pc + 1) 1) (\<lambda>r_num.
     bindM (reg_l (unat (r_num AND 7))) (\<lambda>v.
     seqM (if bits 3 3 r_num = 0 then on_cpu (\<lambda>c. c\<lparr>cr0 := v\<rparr>)
           else seqM (on_cpu (\<lambda>c. c\<lparr>cr3 := v\<rparr>)) init_TLB)
          (ret 2)))"

section \<open>Segment registers\<close>

definition set_selector :: "nat \<Rightarrow> u16 \<Rightarrow> (machine, unit) M" where
  "set_selector r v = on_cpu (\<lambda>c. c\<lparr>sreg := (sreg c)(r := (sreg c r)\<lparr>selector := v\<rparr>)\<rparr>)"

text \<open>One field of the cached descriptor, read from \<open>gdtr.base + 8 * INDEX + k\<close>.\<close>

definition load_desc :: "nat \<Rightarrow> u32 \<Rightarrow> nat \<Rightarrow> (u32 \<Rightarrow> SegDesc \<Rightarrow> SegDesc) \<Rightarrow> (machine, unit) M" where
  "load_desc r k len f =
     bindM (cpuM (\<lambda>c. dtr_base (gdtr c) + 8 * INDEX (sreg c r) + k)) (\<lambda>addr.
     bindM (lnaddr_read addr len) (\<lambda>v.
     on_cpu (\<lambda>c. c\<lparr>sreg := (sreg c)(r := (sreg c r)\<lparr>sreg_cache := f v (sreg_cache (sreg c r))\<rparr>)\<rparr>)))"

definition load_segment :: "nat \<Rightarrow> (machine, unit) M" where
  "load_segment r =
     seqM (load_desc r 2 2 (\<lambda>v d. d\<lparr>base_15_0 := ucast v\<rparr>))
    (seqM (load_desc r 4 1 (\<lambda>v d. d\<lparr>base_23_16 := ucast v\<rparr>))
    (seqM (load_desc r 7 1 (\<lambda>v d. d\<lparr>base_31_24 := ucast v\<rparr>))
    (seqM (load_desc r 0 2 (\<lambda>v d. d\<lparr>limit_15_0 := ucast v\<rparr>))
          (load_desc r 6 1 (\<lambda>v d. d\<lparr>limit_19_16 := ucast (v AND 0xf)\<rparr>)))))"

text \<open>\<open>cpu.sreg\<close> has six entries; a register number of six or seven is outside of it.\<close>

definition mov_rm2s :: helper_fun where
  "mov_rm2s pc =
     bindM (decode_r2rm W16 (pc + 1)) (\<lambda>len.
     bindM (opM Src) (\<lambda>src. bindM (opM Dest) (\<lambda>dest.
     let r = unat (opu src) in
     if 6 \<le> r then fail OutOfBounds
     else seqM (set_selector r (ucast (op_val dest AND 0xffff)))
         (seqM (load_segment r)
         (seqM (assertM (r < 4)) (ret (len + 1)))))))"

section \<open>Widening moves\<close>

definition movzb :: "width \<Rightarrow> helper_fun" where
  "movzb w pc =
     bindM (decode_rm2r B8 (pc + 1)) (\<lambda>len.
     bindM (opM Src) (\<lambda>r. bindM (opM Dest) (\<lambda>d.
     seqM (set_REG w (unat (opu d)) (op_val r)) (ret (len + 1)))))"

definition movsb :: "width \<Rightarrow> helper_fun" where
  "movsb w pc =
     bindM (decode_rm2r B8 (pc + 1)) (\<lambda>len.
     bindM (opM Src) (\<lambda>r. bindM (opM Dest) (\<lambda>d.
     seqM (set_REG w (unat (opu d)) (signed_take_bit 7 (op_val r))) (ret (len + 1)))))"

definition movzw_l :: helper_fun where
  "movzw_l pc =
     bindM (decode_rm2r W16 (pc + 1)) (\<lambda>len.
     bindM (opM Src) (\<lambda>r. bindM (opM Dest) (\<lambda>d.
     seqM (set_REG L32 (unat (opu d)) (op_val r)) (ret (len + 1)))))"

definition movsw_l :: helper_fun where
  "movsw_l pc =
     bindM (decode_rm2r W16 (pc + 1)) (\<lambda>len.
     bindM (opM Src) (\<lambda>r. bindM (opM Dest) (\<lambda>d.
     seqM (set_REG L32 (unat (opu d)) (signed_take_bit 15 (op_val r))) (ret (len + 1)))))"

definition movzb_v :: helper_fun where "movzb_v = make_helper_v movzb"
definition movsb_v :: helper_fun where "movsb_v = make_helper_v movsb"

definition cltd :: "width \<Rightarrow> helper_fun" where
  "cltd w pc =
     bindM (REG w R_EAX) (\<lambda>a. seqM (set_REG w R_EDX (- (if MSB w a then 1 else 0))) (ret 1))"

definition cwtl :: "width \<Rightarrow> helper_fun" where
  "cwtl w pc =
     (if w = W16 then bindM (reg_b R_EAX) (\<lambda>v. seqM (set_reg_w R_EAX (signed_take_bit 7 v)) (ret 1))
      else bindM (reg_w R_EAX) (\<lambda>v. seqM (set_reg_l R_EAX (signed_take_bit 15 v)) (ret 1)))"

definition cltd_v :: helper_fun where "cltd_v = make_helper_v cltd"
definition cwtl_v :: helper_fun where "cwtl_v = make_helper_v cwtl"

definition cmovcc :: "(CPU_state \<Rightarrow> bool) \<Rightarrow> width \<Rightarrow> helper_fun" where
  "cmovcc cc w pc =
     bindM (decode_rm2r w (pc + 1)) (\<lambda>len.
     bindM (cpuM cc) (\<lambda>b. bindM (opM Src) (\<lambda>r.
     seqM (whenM b (write_operand w Dest (op_val r))) (ret (len + 1)))))"

definition cmove :: "width \<Rightarrow> helper_fun" where "cmove = cmovcc check_cc_e"
definition cmovle :: "width \<Rightarrow> helper_fun" where "cmovle = cmovcc check_cc_le"

definition cmove_v :: helper_fun where "cmove_v = make_helper_v cmove"
definition cmovle_v :: helper_fun where "cmovle_v = make_helper_v cmovle"

section \<open>Stack\<close>

text \<open>\<open>reg_l(R_ESP) -= n\<close> and \<open>+= n\<close>.\<close>

definition esp_sub :: "nat \<Rightarrow> (machine, unit) M" where
  "esp_sub n = bindM (reg_l R_ESP) (\<lambda>p. set_reg_l R_ESP (p - of_nat n))"

definition esp_add :: "nat \<Rightarrow> (machine, unit) M" where
  "esp_add n = bindM (reg_l R_ESP) (\<lambda>p. set_reg_l R_ESP (p + of_nat n))"

definition push_execute :: "width \<Rightarrow> (machine, unit) M" where
  "push_execute w =
     seqM (whenM (w = B8) (set_op Src (\<lambda>p. p\<lparr>op_val := signed_take_bit 7 (op_val p)\<rparr>)))
    (seqM (esp_sub 4)
    (bindM (reg_l R_ESP) (\<lambda>sp. bindM (opM Src) (\<lambda>r.
     swaddr_write sp 4 (op_val r) 2))))"

definition push_i :: "width \<Rightarrow> helper_fun" where
  "push_i = make_instr_helper decode_i push_execute"
definition push_r :: "width \<Rightarrow> helper_fun" where
  "push_r = make_instr_helper decode_r push_execute"
definition push_rm :: "width \<Rightarrow> helper_fun" where
  "push_rm = make_instr_helper decode_rm push_execute"

definition push_r_v :: helper_fun where "push_r_v = make_helper_v push_r"
definition push_rm_v :: helper_fun where "push_rm_v = make_helper_v push_rm"
definition push_i_v :: helper_fun where "push_i_v = make_helper_v push_i"

text \<open>\<open>pop\<close> clears the slot it has read, at the address ESP has after the operand was written.\<close>

definition pop_execute :: "width \<Rightarrow> (machine, unit) M" where
  "pop_execute w =
     bindM (reg_l R_ESP) (\<lambda>sp. bindM (opM Src) (\<lambda>r.
     bindM (MEM_R w sp (op_sreg r)) (\<lambda>v.
     seqM (write_operand w Src v)
    (bindM (reg_l R_ESP) (\<lambda>sp.
     seqM (MEM_W w sp 0 2) (esp_add (DATA_BYTE w)))))))"

definition pop_r :: "width \<Rightarrow> helper_fun" where
  "pop_r = make_instr_helper decode_r pop_execute"
definition pop_rm :: "width \<Rightarrow> helper_fun" where
  "pop_rm = make_instr_helper decode_rm pop_execute"

definition pop_r_v :: helper_fun where "pop_r_v = make_helper_v pop_r"
definition pop_rm_v :: helper_fun where "pop_rm_v = make_helper_v pop_rm"

definition push_word :: "width \<Rightarrow> u32 \<Rightarrow> (machine, unit) M" where
  "push_word w v = seqM (esp_sub (DATA_BYTE w)) (bindM (reg_l R_ESP) (\<lambda>sp. MEM_W w sp v 2))"

definition pusha :: "width \<Rightarrow> helper_fun" where
  "pusha w pc =
     bindM (reg_l R_ESP) (\<lambda>sp. let temp = data_type w sp in
     seqM (forM [0, 1, 2, 3] (\<lambda>i. seqM (esp_sub (DATA_BYTE w))
             (bindM (reg_l R_ESP) (\<lambda>sp. bindM (REG w i) (\<lambda>v. MEM_W w sp v 2)))))
    (seqM (push_word w temp)
    (seqM (forM [5, 6, 7] (\<lambda>i. seqM (esp_sub (DATA_BYTE w))
             (bindM (reg_l R_ESP) (\<lambda>sp. bindM (REG w i) (\<lambda>v. MEM_W w sp v 2)))))
          (ret 1))))"

definition pop_reg :: "width \<Rightarrow> nat \<Rightarrow> (machine, unit) M" where
  "pop_reg w i =
     bindM (reg_l R_ESP) (\<lambda>sp. bindM (MEM_R w sp 2) (\<lambda>v.
     seqM (set_REG w i v) (esp_add (DATA_BYTE w))))"

definition popa :: "width \<Rightarrow> helper_fun" where
  "popa w pc =
     seqM (forM [7, 6, 5] (pop_reg w))
    (seqM (esp_add (DATA_BYTE w))
    (seqM (forM [3, 2, 1, 0] (pop_reg w)) (ret 1)))"

definition pusha_v :: helper_fun where "pusha_v = make_helper_v pusha"
definition popa_v :: helper_fun where "popa_v = make_helper_v popa"

definition leave :: helper_fun where
  "leave pc =
     bindM (reg_l R_EBP) (\<lambda>bp.
     seqM (set_reg_l R_ESP bp)
    (bindM (swaddr_read bp 4 2) (\<lambda>v.
     seqM (set_reg_l R_EBP v)
    (seqM (esp_add 4) (ret 1)))))"

section \<open>Exchange, bit test, descriptor tables, direction flag\<close>

definition xchg_execute :: "width \<Rightarrow> (machine, unit) M" where
  "xchg_execute w =
     bindM (opM Src) (\<lambda>r. bindM (opM Dest) (\<lambda>d.
     let temp = data_type w (op_val r) in
     seqM (write_operand w Src (op_val d)) (write_operand w Dest temp)))"

definition xchg_a2r :: "width \<Rightarrow> helper_fun" where
  "xchg_a2r w pc =
     seqM (decode_r w pc)
    (seqM (set_op Dest (\<lambda>p. p\<lparr>op_ty := OP_TYPE_REG, opu := of_nat R_EAX\<rparr>))
    (bindM (REG w R_EAX) (\<lambda>v.
     seqM (set_op Dest (\<lambda>p. p\<lparr>op_val := v\<rparr>))
    (seqM (xchg_execute w) (ret 1)))))"

definition xchg_r2rm :: "width \<Rightarrow> helper_fun" where
  "xchg_r2rm = make_instr_helper decode_r2rm xchg_execute"

definition xchg_a2r_v :: helper_fun where "xchg_a2r_v = make_helper_v xchg_a2r"
definition xchg_r2rm_v :: helper_fun where "xchg_r2rm_v = make_helper_v xchg_r2rm"

text \<open>The test shared by the two forms of \<open>bt\<close>, on \<open>op_src\<close> and \<open>op_dest\<close>.\<close>

definition bt_test :: "width \<Rightarrow> (machine, unit) M" where
  "bt_test w =
     bindM (opM Src) (\<lambda>r. bindM (opM Dest) (\<lambda>d.
     let b = of_nat (DATA_BYTE w * 8) in
     if op_ty d = OP_TYPE_REG then
       on_cpu (set_flag CF_bit (op_val d AND push_bit (unat (op_val r mod b)) 1 \<noteq> 0))
     else
       bindM (swaddr_read (op_val r div b + opu d) (DATA_BYTE w) (op_sreg d)) (\<lambda>v.
       on_cpu (set_flag CF_bit (drop_bit (unat (op_val r mod b)) v AND 1 \<noteq> 0)))))"

definition bt_i2rm :: "width \<Rightarrow> helper_fun" where
  "bt_i2rm w pc =
     bindM (decode_rm w (pc + 1)) (\<lambda>len.
     bindM (decode_i B8 (pc + 1 + of_nat len)) (\<lambda>k.
     seqM (bt_test w) (ret (1 + (len + k)))))"

definition bt_r2rm :: "width \<Rightarrow> helper_fun" where
  "bt_r2rm w pc = bindM (decode_r2rm w (pc + 1)) (\<lambda>len. seqM (bt_test w) (ret (1 + len)))"

definition bt_r2rm_v :: helper_fun where "bt_r2rm_v = make_helper_v bt_r2rm"
definition bt_i2rm_v :: helper_fun where "bt_i2rm_v = make_helper_v bt_i2rm"

definition lgdt :: "width \<Rightarrow> helper_fun" where
  "lgdt w pc =
     bindM (decode_rm2r L32 (pc + 1)) (\<lambda>len.
     bindM (opM Src) (\<lambda>r.
     bindM (lnaddr_read (opu r) 2) (\<lambda>lim.
     seqM (on_cpu (\<lambda>c. c\<lparr>gdtr := (gdtr c)\<lparr>dtr_limit := ucast lim\<rparr>\<rparr>))
    (bindM (lnaddr_read (opu r + 2) (if DATA_BYTE w = 2 then 3 else 4)) (\<lambda>base.
     seqM (on_cpu (\<lambda>c. c\<lparr>gdtr := (gdtr c)\<lparr>dtr_base := base\<rparr>\<rparr>)) (ret (len + 1)))))))"

definition lidt :: "width \<Rightarrow> helper_fun" where
  "lidt w pc =
     bindM (decode_rm2r L32 (pc + 1)) (\<lambda>len.
     bindM (opM Src) (\<lambda>r.
     bindM (lnaddr_read (opu r) 2) (\<lambda>lim.
     seqM (on_cpu (\<lambda>c. c\<lparr>idtr := (idtr c)\<lparr>dtr_limit := ucast lim\<rparr>\<rparr>))
    (bindM (lnaddr_read (opu r + 2) (if DATA_BYTE w = 2 then 3 else 4)) (\<lambda>base.
     seqM (on_cpu (\<lambda>c. c\<lparr>idtr := (idtr c)\<lparr>dtr_base := base\<rparr>\<rparr>)) (ret (len + 1)))))))"

definition lgdt_v :: helper_fun where "lgdt_v = make_helper_v lgdt"
definition lidt_v :: helper_fun where "lidt_v = make_helper_v lidt"

definition cld :: helper_fun where "cld pc = seqM (on_cpu (set_flag DF_bit False)) (ret 1)"
definition std :: helper_fun where "std pc = seqM (on_cpu (set_flag DF_bit True)) (ret 1)"

end
