(* ===== verification/ConTran.thy ===== *)
theory ConTran
  imports DataMov
begin

unbundle bit_operations_syntax

text \<open>
  Control transfer: the templates of nemu/src/cpu/exec/con-tran. \<open>cpu.eip\<close> still points to the
  instruction while it executes and the main loop adds the returned length afterwards, so
  every jump stores its target minus that length.
\<close>

definition add_eip :: "u32 \<Rightarrow> (machine, unit) M" where
  "add_eip d = on_cpu (\<lambda>c. c\<lparr>eip := eip c + d\<rparr>)"

definition set_eip :: "u32 \<Rightarrow> (machine, unit) M" where
  "set_eip v = on_cpu (\<lambda>c. c\<lparr>eip := v\<rparr>)"

section \<open>Call and return\<close>

definition call_i :: "width \<Rightarrow> helper_fun" where
  "call_i w pc =
     bindM (decode_i w (pc + 1)) (\<lambda>len.
     seqM (esp_sub (DATA_BYTE w))
    (bindM (reg_l R_ESP) (\<lambda>sp. bindM (cpuM eip) (\<lambda>e.
     seqM (swaddr_write sp 4 (e + of_nat len) 1)
    (bindM (opM Src) (\<lambda>r.
     seqM (add_eip (data_type_s w (op_val r))) (ret (len + 1))))))))"

definition call_rm :: "width \<Rightarrow> helper_fun" where
  "call_rm w pc =
     bindM (decode_rm w (pc + 1)) (\<lambda>len.
     seqM (esp_sub (DATA_BYTE w))
    (bindM (reg_l R_ESP) (\<lambda>sp. bindM (cpuM eip) (\<lambda>e.
     seqM (swaddr_write sp 4 (e + of_nat len) 1)
    (bindM (opM Src) (\<lambda>r.
     seqM (set_eip (data_type_s w (op_val r) - of_nat len - 1)) (ret (len + 1))))))))"

definition call_i_v :: helper_fun where "call_i_v = make_helper_v call_i"
definition call_rm_v :: helper_fun where "call_rm_v = make_helper_v call_rm"

definition ret_o :: "width \<Rightarrow> helper_fun" where
  "ret_o w pc =
     bindM (reg_l R_ESP) (\<lambda>sp.
     bindM (MEM_R w sp 1) (\<lambda>v.
     seqM (set_eip v) (seqM (esp_add (DATA_BYTE w)) (ret 1))))"

definition ret_i :: "width \<Rightarrow> helper_fun" where
  "ret_i w pc =
     bindM (instr_fetch (pc + 1) 2) (\<lambda>val.
     bindM (REG w R_ESP) (\<lambda>sp.
     bindM (MEM_R w sp 1) (\<lambda>v.
     seqM (set_eip (if DATA_BYTE w = 2 then v AND 0xffff else v))
    (seqM (set_REG w R_ESP (sp + of_nat (DATA_BYTE w)))
    (seqM (forM [0..<(unat val + DATA_BYTE w - 1) div DATA_BYTE w] (\<lambda>k.
             bindM (REG w R_ESP) (\<lambda>sp. MEM_W w (sp + of_nat (k * DATA_BYTE w)) 0 1)))
    (seqM (bindM (REG w R_ESP) (\<lambda>sp. set_REG w R_ESP (sp + val)))
          (ret 1)))))))"

definition ret_o_v :: helper_fun where "ret_o_v = make_helper_v ret_o"
definition ret_i_v :: helper_fun where "ret_i_v = make_helper_v ret_i"

section \<open>Jumps\<close>

text \<open>An indirect jump decodes its operand a second time, at \<open>cpu.eip + 1\<close>, to learn the length.\<close>

definition jmp_execute :: "width \<Rightarrow> (machine, unit) M" where
  "jmp_execute w =
     bindM (opM Src) (\<lambda>r.
     let displacement = data_type w (op_val r) in
     if op_ty r = OP_TYPE_MEM \<or> op_ty r = OP_TYPE_REG then
       bindM (cpuM eip) (\<lambda>e. bindM (decode_rm w (e + 1)) (\<lambda>len.
       set_eip (displacement - of_nat len - 1)))
     else add_eip (data_type_s w displacement))"

definition jmp_i :: "width \<Rightarrow> helper_fun" where
  "jmp_i = make_instr_helper decode_i jmp_execute"
definition jmp_rm :: "width \<Rightarrow> helper_fun" where
  "jmp_rm = make_instr_helper decode_rm jmp_execute"

definition jmp_l :: "width \<Rightarrow> helper_fun" where
  "jmp_l w pc =
     bindM (instr_fetch (pc + 1) (DATA_BYTE w)) (\<lambda>offset.
     bindM (instr_fetch (pc + 5) 2) (\<lambda>cs_new.
     seqM (set_eip (offset - of_nat (DATA_BYTE w) - 3))
    (seqM (whenM (w = W16) (on_cpu (\<lambda>c. c\<lparr>eip := eip c AND 0xffff\<rparr>)))
    (seqM (set_selector 1 (ucast cs_new))
    (seqM (load_segment 1) (ret (DATA_BYTE w + 3)))))))"

definition jmp_i_v :: helper_fun where "jmp_i_v = make_helper_v jmp_i"
definition jmp_rm_v :: helper_fun where "jmp_rm_v = make_helper_v jmp_rm"
definition jmp_l_v :: helper_fun where "jmp_l_v = make_helper_v jmp_l"

section \<open>Conditional jumps\<close>

text \<open>
  \<open>next_addr\<close> is the target of a relative jump whose opcode byte is at \<open>pc\<close>. The jumps with a
  wide displacement have two opcode bytes: \<open>for_2_bit\<close> is the one that \<open>_2byte_esc\<close> adds.
\<close>

definition next_addr :: "width \<Rightarrow> u32 \<Rightarrow> (machine, u32) M" where
  "next_addr w pc =
     (if w = W16 then
        bindM (instr_fetch (pc + 1) (DATA_BYTE w)) (\<lambda>d. ret ((pc + 1 + of_nat (DATA_BYTE w) + d) AND 0xffff))
      else
        bindM (decode_si w (pc + 1)) (\<lambda>_.
        bindM (opM Src) (\<lambda>r. ret (pc + 1 + of_nat (DATA_BYTE w) + opu r))))"

definition for_2_bit :: "width \<Rightarrow> u32" where
  "for_2_bit w = of_bool (DATA_BYTE w \<noteq> 1)"

definition jcc_on :: "(CPU_state \<Rightarrow> bool) \<Rightarrow> width \<Rightarrow> helper_fun" where
  "jcc_on cond w pc =
     bindM (next_addr w pc) (\<lambda>cur_addr.
     bindM (cpuM cond) (\<lambda>b.
     seqM (whenM b (set_eip (cur_addr - (1 + of_nat (DATA_BYTE w)) - for_2_bit w)))
          (ret (DATA_BYTE w + 1))))"

definition jcc_e :: "width \<Rightarrow> helper_fun" where "jcc_e = jcc_on (\<lambda>c. ZF c)"
definition jcc_a :: "width \<Rightarrow> helper_fun" where "jcc_a = jcc_on (\<lambda>c. \<not> CF c \<and> \<not> ZF c)"
definition jcc_ae :: "width \<Rightarrow> helper_fun" where "jcc_ae = jcc_on (\<lambda>c. \<not> CF c)"
definition jcc_b :: "width \<Rightarrow> helper_fun" where "jcc_b = jcc_on (\<lambda>c. CF c)"
definition jcc_be :: "width \<Rightarrow> helper_fun" where "jcc_be = jcc_on (\<lambda>c. ZF c \<or> CF c)"
definition jcc_ecxz :: "width \<Rightarrow> helper_fun" where "jcc_ecxz = jcc_on (\<lambda>c. gpr c R_ECX = 0)"
definition jcc_g :: "width \<Rightarrow> helper_fun" where "jcc_g = jcc_on (\<lambda>c. \<not> ZF c \<and> SF c = OF c)"
definition jcc_ge :: "width \<Rightarrow> helper_fun" where "jcc_ge = jcc_on (\<lambda>c. SF c = OF c)"
definition jcc_l :: "width \<Rightarrow> helper_fun" where "jcc_l = jcc_on (\<lambda>c. SF c \<noteq> OF c)"
definition jcc_le :: "width \<Rightarrow> helper_fun" where "jcc_le = jcc_on (\<lambda>c. ZF c \<or> SF c \<noteq> OF c)"
definition jcc_ne :: "width \<Rightarrow> helper_fun" where "jcc_ne = jcc_on (\<lambda>c. \<not> ZF c)"
definition jcc_no :: "width \<Rightarrow> helper_fun" where "jcc_no = jcc_on (\<lambda>c. \<not> OF c)"
definition jcc_np :: "width \<Rightarrow> helper_fun" where "jcc_np = jcc_on (\<lambda>c. \<not> PF c)"
definition jcc_ns :: "width \<Rightarrow> helper_fun" where "jcc_ns = jcc_on (\<lambda>c. \<not> SF c)"
definition jcc_o :: "width \<Rightarrow> helper_fun" where "jcc_o = jcc_on (\<lambda>c. OF c)"
definition jcc_p :: "width \<Rightarrow> helper_fun" where "jcc_p = jcc_on (\<lambda>c. PF c)"
definition jcc_s :: "width \<Rightarrow> helper_fun" where "jcc_s = jcc_on (\<lambda>c. SF c)"

definition jcc_e_v :: helper_fun where "jcc_e_v = make_helper_v jcc_e"
definition jcc_a_v :: helper_fun where "jcc_a_v = make_helper_v jcc_a"
definition jcc_ae_v :: helper_fun where "jcc_ae_v = make_helper_v jcc_ae"
definition jcc_b_v :: helper_fun where "jcc_b_v = make_helper_v jcc_b"
definition jcc_be_v :: helper_fun where "jcc_be_v = make_helper_v jcc_be"
definition jcc_g_v :: helper_fun where "jcc_g_v = make_helper_v jcc_g"
definition jcc_ge_v :: helper_fun where "jcc_ge_v = make_helper_v jcc_ge"
definition jcc_l_v :: helper_fun where "jcc_l_v = make_helper_v jcc_l"
definition jcc_le_v :: helper_fun where "jcc_le_v = make_helper_v jcc_le"
definition jcc_ne_v :: helper_fun where "jcc_ne_v = make_helper_v jcc_ne"
definition jcc_no_v :: helper_fun where "jcc_no_v = make_helper_v jcc_no"
definition jcc_np_v :: helper_fun where "jcc_np_v = make_helper_v jcc_np"
definition jcc_ns_v :: helper_fun where "jcc_ns_v = make_helper_v jcc_ns"
definition jcc_o_v :: helper_fun where "jcc_o_v = make_helper_v jcc_o"
definition jcc_p_v :: helper_fun where "jcc_p_v = make_helper_v jcc_p"
definition jcc_s_v :: helper_fun where "jcc_s_v = make_helper_v jcc_s"

section \<open>The older templates of conditional jumps\<close>

text \<open>
  One template per condition, which \<open>exec.c\<close> no longer uses. Three of them do not test the
  condition of their name: \<open>jae\<close> tests ZF, \<open>jge\<close> also accepts ZF and \<open>jl\<close> also demands a clear ZF.
\<close>

definition jump_on :: "(CPU_state \<Rightarrow> bool) \<Rightarrow> width \<Rightarrow> (machine, unit) M" where
  "jump_on cond w =
     bindM (opM Src) (\<lambda>r.
     let displacement = data_type_s w (op_val r) in
     bindM (cpuM cond) (\<lambda>b. whenM b (add_eip displacement)))"

definition ja_execute :: "width \<Rightarrow> (machine, unit) M" where "ja_execute = jump_on (\<lambda>c. \<not> CF c \<and> \<not> ZF c)"
definition jae_execute :: "width \<Rightarrow> (machine, unit) M" where "jae_execute = jump_on (\<lambda>c. \<not> ZF c)"
definition jb_execute :: "width \<Rightarrow> (machine, unit) M" where "jb_execute = jump_on (\<lambda>c. CF c)"
definition jbe_execute :: "width \<Rightarrow> (machine, unit) M" where "jbe_execute = jump_on (\<lambda>c. CF c \<or> ZF c)"
definition je_execute :: "width \<Rightarrow> (machine, unit) M" where "je_execute = jump_on (\<lambda>c. ZF c)"
definition jg_execute :: "width \<Rightarrow> (machine, unit) M" where "jg_execute = jump_on (\<lambda>c. \<not> ZF c \<and> SF c = OF c)"
definition jge_execute :: "width \<Rightarrow> (machine, unit) M" where "jge_execute = jump_on (\<lambda>c. ZF c \<or> SF c = OF c)"
definition jl_execute :: "width \<Rightarrow> (machine, unit) M" where "jl_execute = jump_on (\<lambda>c. \<not> ZF c \<and> SF c \<noteq> OF c)"
definition jle_execute :: "width \<Rightarrow> (machine, unit) M" where "jle_execute = jump_on (\<lambda>c. ZF c \<or> SF c \<noteq> OF c)"
definition jna_execute :: "width \<Rightarrow> (machine, unit) M" where "jna_execute = jump_on (\<lambda>c. CF c \<or> ZF c)"
definition jne_execute :: "width \<Rightarrow> (machine, unit) M" where "jne_execute = jump_on (\<lambda>c. \<not> ZF c)"
definition jns_execute :: "width \<Rightarrow> (machine, unit) M" where "jns_execute = jump_on (\<lambda>c. \<not> SF c)"
definition js_execute :: "width \<Rightarrow> (machine, unit) M" where "js_execute = jump_on (\<lambda>c. SF c)"

definition ja_i :: "width \<Rightarrow> helper_fun" where "ja_i = make_instr_helper decode_i ja_execute"
definition jae_i :: "width \<Rightarrow> helper_fun" where "jae_i = make_instr_helper decode_i jae_execute"
definition jb_i :: "width \<Rightarrow> helper_fun" where "jb_i = make_instr_helper decode_i jb_execute"
definition jbe_i :: "width \<Rightarrow> helper_fun" where "jbe_i = make_instr_helper decode_i jbe_execute"
definition je_i :: "width \<Rightarrow> helper_fun" where "je_i = make_instr_helper decode_i je_execute"
definition jg_i :: "width \<Rightarrow> helper_fun" where "jg_i = make_instr_helper decode_i jg_execute"
definition jge_i :: "width \<Rightarrow> helper_fun" where "jge_i = make_instr_helper decode_i jge_execute"
definition jl_i :: "width \<Rightarrow> helper_fun" where "jl_i = make_instr_helper decode_i jl_execute"
definition jle_i :: "width \<Rightarrow> helper_fun" where "jle_i = make_instr_helper decode_i jle_execute"
definition jna_i :: "width \<Rightarrow> helper_fun" where "jna_i = make_instr_helper decode_i jna_execute"
definition jne_i :: "width \<Rightarrow> helper_fun" where "jne_i = make_instr_helper decode_i jne_execute"
definition jns_i :: "width \<Rightarrow> helper_fun" where "jns_i = make_instr_helper decode_i jns_execute"
definition js_i :: "width \<Rightarrow> helper_fun" where "js_i = make_instr_helper decode_i js_execute"
definition ja_i_v :: helper_fun where "ja_i_v = make_helper_v ja_i"
definition jae_i_v :: helper_fun where "jae_i_v = make_helper_v jae_i"
definition jb_i_v :: helper_fun where "jb_i_v = make_helper_v jb_i"
definition jbe_i_v :: helper_fun where "jbe_i_v = make_helper_v jbe_i"
definition je_i_v :: helper_fun where "je_i_v = make_helper_v je_i"
definition jg_i_v :: helper_fun where "jg_i_v = make_helper_v jg_i"
definition jge_i_v :: helper_fun where "jge_i_v = make_helper_v jge_i"
definition jl_i_v :: helper_fun where "jl_i_v = make_helper_v jl_i"
definition jle_i_v :: helper_fun where "jle_i_v = make_helper_v jle_i"
definition jna_i_v :: helper_fun where "jna_i_v = make_helper_v jna_i"
definition jne_i_v :: helper_fun where "jne_i_v = make_helper_v jne_i"
definition jns_i_v :: helper_fun where "jns_i_v = make_helper_v jns_i"
definition js_i_v :: helper_fun where "js_i_v = make_helper_v js_i"

end
