(* ===== verification/Strings.thy ===== *)
theory Strings
  imports DataMov Arith
begin

unbundle bit_operations_syntax

text \<open>
  String instructions: the templates of nemu/src/cpu/exec/string. The repeat prefixes are with
  the dispatch in theory \<open>Exec\<close>.
\<close>

text \<open>\<open>reg_l(i) += DATA_BYTE\<close> or, with DF set, \<open>-= DATA_BYTE\<close>.\<close>

definition step_index :: "width \<Rightarrow> nat \<Rightarrow> (machine, unit) M" where
  "step_index w i =
     bindM (cpuM DF) (\<lambda>df. bindM (reg_l i) (\<lambda>v.
     set_reg_l i (if df then v - of_nat (DATA_BYTE w) else v + of_nat (DATA_BYTE w))))"

definition movs_execute :: "width \<Rightarrow> (machine, unit) M" where
  "movs_execute w =
     bindM (reg_l R_EDI) (\<lambda>d. bindM (reg_l R_ESI) (\<lambda>a.
     bindM (MEM_R w a 3) (\<lambda>v.
     seqM (MEM_W w d v 0)
    (seqM (step_index w R_EDI) (step_index w R_ESI)))))"

definition stos_execute :: "width \<Rightarrow> (machine, unit) M" where
  "stos_execute w =
     bindM (reg_l R_EDI) (\<lambda>d. bindM (REG w R_EAX) (\<lambda>v.
     seqM (MEM_W w d v 0) (step_index w R_EDI)))"

definition lods_execute :: "width \<Rightarrow> (machine, unit) M" where
  "lods_execute w =
     bindM (reg_l R_ESI) (\<lambda>a. bindM (MEM_R w a 3) (\<lambda>v.
     seqM (set_REG w R_EAX v) (step_index w R_ESI)))"

text \<open>
  \<open>scas\<close> and \<open>cmps\<close> compute OF from \<open>op_dest->val\<close> and \<open>op_src->val\<close>, which hold whatever an
  earlier instruction left there.
\<close>

definition scas_execute :: "width \<Rightarrow> (machine, unit) M" where
  "scas_execute w =
     bindM (reg_l R_EDI) (\<lambda>d.
     bindM (MEM_R w d 0) (\<lambda>dest.
     bindM (REG w R_EAX) (\<lambda>src.
     bindM (opM Dest) (\<lambda>p. bindM (opM Src) (\<lambda>q.
     let result = data_type w (src - dest) in
     seqM (on_cpu (sub_flags w result (src < dest) (op_val p) (op_val q)))
          (step_index w R_EDI))))))"

text \<open>\<open>cmps\<close> steps \<open>REG(R_EDI)\<close> and \<open>REG(R_ESI)\<close>: at byte width these are BH and DH.\<close>

definition step_narrow :: "width \<Rightarrow> nat \<Rightarrow> (machine, unit) M" where
  "step_narrow w i =
     bindM (cpuM DF) (\<lambda>df. bindM (REG w i) (\<lambda>v.
     set_REG w i (if df then v - of_nat (DATA_BYTE w) else v + of_nat (DATA_BYTE w))))"

definition cmps_execute :: "width \<Rightarrow> (machine, unit) M" where
  "cmps_execute w =
     bindM (reg_l R_ESI) (\<lambda>a. bindM (swaddr_read a (DATA_BYTE w) 3) (\<lambda>src.
     bindM (reg_l R_EDI) (\<lambda>d. bindM (swaddr_read d (DATA_BYTE w) 0) (\<lambda>dest.
     bindM (opM Dest) (\<lambda>p. bindM (opM Src) (\<lambda>q.
     let src = data_type w src; dest = data_type w dest; result = data_type w (dest - src) in
     seqM (on_cpu (sub_flags w result (dest < src) (op_val p) (op_val q)))
    (seqM (step_narrow w R_EDI) (step_narrow w R_ESI))))))))"

definition movs_n :: "width \<Rightarrow> helper_fun" where
  "movs_n = make_instr_helper decode_n movs_execute"
definition stos_n :: "width \<Rightarrow> helper_fun" where
  "stos_n = make_instr_helper decode_n stos_execute"
definition lods_n :: "width \<Rightarrow> helper_fun" where
  "lods_n = make_instr_helper decode_n lods_execute"
definition scas_n :: "width \<Rightarrow> helper_fun" where
  "scas_n = make_instr_helper decode_n scas_execute"
definition cmps_n :: "width \<Rightarrow> helper_fun" where
  "cmps_n = make_instr_helper decode_n cmps_execute"

definition movs_n_v :: helper_fun where "movs_n_v = make_helper_v movs_n"
definition stos_n_v :: helper_fun where "stos_n_v = make_helper_v stos_n"
definition lods_n_v :: helper_fun where "lods_n_v = make_helper_v lods_n"
definition scas_n_v :: helper_fun where "scas_n_v = make_helper_v scas_n"
definition cmps_n_v :: helper_fun where "cmps_n_v = make_helper_v cmps_n"

end
