(* ===== verification/System.thy ===== *)
theory System
  imports DataMov ConTran
begin

unbundle bit_operations_syntax

text \<open>
  Interrupts, port instructions and the instructions special to the emulator:
  nemu/src/cpu/exec/intr.c, system, io, misc and special.
\<close>

section \<open>Interrupts\<close>

text \<open>\<open>cpu.esp -= 4; swaddr_write(cpu.esp, 4, v, 2)\<close>.\<close>

definition push4 :: "u32 \<Rightarrow> (machine, unit) M" where
  "push4 v = seqM (esp_sub 4) (bindM (reg_l R_ESP) (\<lambda>sp. swaddr_write sp 4 v 2))"

definition pop4 :: "(machine, u32) M" where
  "pop4 = bindM (reg_l R_ESP) (\<lambda>sp. bindM (swaddr_read sp 4 2) (\<lambda>v. seqM (esp_add 4) (ret v)))"

definition longjmp :: "(machine, unit) M" where
  "longjmp s = Jmp s"

definition raise_intr :: "u8 \<Rightarrow> (machine, unit) M" where
  "raise_intr NO =
     seqM (bindM (cpuM eflags) push4)
    (seqM (bindM (cpuM (\<lambda>c. ucast (selector (sreg c 1)))) push4)
    (seqM (bindM (cpuM eip) push4)
    (bindM (cpuM (\<lambda>c. dtr_base (idtr c) + 8 * ucast NO)) (\<lambda>gate.
     bindM (lnaddr_read (gate + 2) 2) (\<lambda>idt_selector.
     seqM (set_selector 1 (ucast idt_selector))
    (seqM (load_segment 1)
    (bindM (cpuM (seg_base 1)) (\<lambda>base_addr.
     bindM (lnaddr_read gate 2) (\<lambda>offset1.
     bindM (lnaddr_read (gate + 6) 2) (\<lambda>offset2.
     seqM (set_eip (base_addr + (push_bit 16 (take_bit 16 offset2) OR take_bit 16 offset1)))
          longjmp))))))))))"

definition int_i :: helper_fun where
  "int_i pc = bindM (instr_fetch (pc + 1) 1) (\<lambda>imm.
     seqM (add_eip 2) (seqM (raise_intr (ucast imm)) (ret 0)))"

definition iret :: helper_fun where
  "iret pc =
     seqM (bindM (reg_l R_ESP) (\<lambda>sp. bindM (swaddr_read sp 4 2) set_eip))
    (seqM (esp_add 4)
    (seqM (bindM (reg_l R_ESP) (\<lambda>sp. bindM (swaddr_read sp 4 2) (\<lambda>v. set_selector 1 (ucast v))))
    (seqM (esp_add 4)
    (seqM (bindM (reg_l R_ESP) (\<lambda>sp. bindM (swaddr_read sp 4 2) (\<lambda>v. on_cpu (\<lambda>c. c\<lparr>eflags := v\<rparr>))))
    (seqM (esp_add 4) (ret 0))))))"

definition cli :: helper_fun where "cli pc = seqM (on_cpu (set_flag IF_bit False)) (ret 1)"
definition sti :: helper_fun where "sti pc = seqM (on_cpu (set_flag IF_bit True)) (ret 1)"

definition hlt :: helper_fun where
  "hlt pc = bindM (cpuM INTR) (\<lambda>i. seqM (whenM (\<not> i) (add_eip (-1))) (ret 1))"

section \<open>Port instructions\<close>

definition in_i :: "width \<Rightarrow> helper_fun" where
  "in_i w pc =
     bindM (decode_i B8 (pc + 1)) (\<lambda>len.
     bindM (opM Src) (\<lambda>r. bindM (pio_read (ucast (op_val r)) (DATA_BYTE w)) (\<lambda>v.
     seqM (set_REG w R_EAX v) (ret (1 + len)))))"

definition in_d :: "width \<Rightarrow> helper_fun" where
  "in_d w pc =
     bindM (reg_w R_EDX) (\<lambda>p. bindM (pio_read (ucast p) (DATA_BYTE w)) (\<lambda>v.
     seqM (set_REG w R_EAX v) (ret 1)))"

definition out_i :: "width \<Rightarrow> helper_fun" where
  "out_i w pc =
     bindM (decode_i B8 (pc + 1)) (\<lambda>len.
     bindM (opM Src) (\<lambda>r. bindM (REG w R_EAX) (\<lambda>v.
     seqM (pio_write (ucast (op_val r)) (DATA_BYTE w) v) (ret (1 + len)))))"

definition out_d :: "width \<Rightarrow> helper_fun" where
  "out_d w pc =
     bindM (reg_w R_EDX) (\<lambda>p. bindM (REG w R_EAX) (\<lambda>v.
     seqM (pio_write (ucast p) (DATA_BYTE w) v) (ret 1)))"

definition in_i_v :: helper_fun where "in_i_v = make_helper_v in_i"
definition in_d_v :: helper_fun where "in_d_v = make_helper_v in_d"
definition out_i_v :: helper_fun where "out_i_v = make_helper_v out_i"
definition out_d_v :: helper_fun where "out_d_v = make_helper_v out_d"

section \<open>Miscellaneous and special instructions\<close>

definition nop :: helper_fun where "nop pc = ret 1"

definition do_int3 :: "(machine, unit) M" where
  "do_int3 = modM (\<lambda>s. s\<lparr>nemu_state := STOP\<rparr>)"

definition int3 :: helper_fun where "int3 pc = seqM do_int3 (ret 1)"

definition lea :: helper_fun where
  "lea pc =
     bindM (instr_fetch (pc + 1) 1) (\<lambda>m.
     bindM (load_addr (pc + 1) m Src) (\<lambda>len.
     bindM (opM Src) (\<lambda>r.
     seqM (set_reg_l (mrm_reg m) (opu r)) (ret (1 + len)))))"

definition inv :: helper_fun where
  "inv pc = bindM (instr_fetch pc 4) (\<lambda>_. bindM (instr_fetch (pc + 4) 4) (\<lambda>_. fail AssertFail))"

text \<open>
  \<open>nemu_trap\<close> prints a guest string (its length as a signed number in EDX) on the standard
  output of the host, which the serial port also uses, or ends the simulation.
\<close>

definition nemu_trap :: helper_fun where
  "nemu_trap pc =
     bindM (reg_l R_EAX) (\<lambda>a. bindM (reg_l R_EDX) (\<lambda>len. bindM (reg_l R_ECX) (\<lambda>addr.
     seqM (if a = 2 then
             forM [0..<nat (sint len)] (\<lambda>i.
               bindM (swaddr_read (addr + of_nat i) 1 3) (\<lambda>v.
               modM (\<lambda>s. s\<lparr>serial_out := serial_out s @ [ucast v]\<rparr>)))
           else modM (\<lambda>s. s\<lparr>nemu_state := END\<rparr>))
          (ret 1))))"

end
