(* ===== verification/Exec.thy ===== *)
theory Exec
  imports Arith Logic DataMov ConTran Strings System
begin

unbundle bit_operations_syntax

text \<open>
  Instruction dispatch: nemu/src/cpu/exec/exec.c with its opcode tables and ModR/M groups, the
  operand-size prefix (prefix.c) and the repeat prefixes (string/rep.c). The prefixes call
  \<open>exec\<close> again; \<open>exec n\<close> is the recursion cut off at depth \<open>n\<close>, and the same \<open>n\<close> bounds the
  rounds of a repeat loop, so \<open>n\<close> above the count in ECX and the number of prefixes is enough.
\<close>

section \<open>Groups\<close>

definition make_group :: "helper_fun list \<Rightarrow> helper_fun" where
  "make_group table pc = bindM (instr_fetch (pc + 1) 1) (\<lambda>m. (table ! mrm_reg m) pc)"

definition group1_b :: helper_fun where
  "group1_b = make_group [add_i2rm B8, or_i2rm B8, adc_i2rm B8, sbb_i2rm B8, and_i2rm B8, sub_i2rm B8, xor_i2rm B8, cmp_i2rm B8]"

definition group1_v :: helper_fun where
  "group1_v = make_group [add_i2rm_v, or_i2rm_v, adc_i2rm_v, sbb_i2rm_v, and_i2rm_v, sub_i2rm_v, xor_i2rm_v, cmp_i2rm_v]"

definition group1_sx_v :: helper_fun where
  "group1_sx_v = make_group [add_si2rm_v, or_si2rm_v, adc_si2rm_v, sbb_si2rm_v, and_si2rm_v, sub_si2rm_v, xor_si2rm_v, cmp_si2rm_v]"

definition group2_i_b :: helper_fun where
  "group2_i_b = make_group [inv, inv, inv, inv, shl_rm_imm B8, shr_rm_imm B8, inv, sar_rm_imm B8]"

definition group2_i_v :: helper_fun where
  "group2_i_v = make_group [inv, inv, inv, inv, shl_rm_imm_v, shr_rm_imm_v, inv, sar_rm_imm_v]"

definition group2_1_b :: helper_fun where
  "group2_1_b = make_group [inv, inv, inv, inv, shl_rm_1 B8, shr_rm_1 B8, inv, sar_rm_1 B8]"

definition group2_1_v :: helper_fun where
  "group2_1_v = make_group [inv, inv, inv, inv, shl_rm_1_v, shr_rm_1_v, inv, sar_rm_1_v]"

definition group2_cl_b :: helper_fun where
  "group2_cl_b = make_group [inv, inv, inv, inv, shl_rm_cl B8, shr_rm_cl B8, inv, sar_rm_cl B8]"

definition group2_cl_v :: helper_fun where
  "group2_cl_v = make_group [inv, inv, inv, inv, shl_rm_cl_v, shr_rm_cl_v, inv, sar_rm_cl_v]"

definition group3_b :: helper_fun where
  "group3_b = make_group [test_i2rm B8, inv, not_rm B8, neg_rm B8, mul_rm B8, imul_rm2a B8, div_rm B8, idiv_rm B8]"

definition group3_v :: helper_fun where
  "group3_v = make_group [test_i2rm_v, inv, not_rm_v, neg_rm_v, mul_rm_v, imul_rm2a_v, div_rm_v, idiv_rm_v]"

definition group4 :: helper_fun where
  "group4 = make_group [inc_rm B8, dec_rm B8, inv, inv, inv, inv, inv, inv]"

definition group5 :: helper_fun where
  "group5 = make_group [inc_rm_v, dec_rm_v, call_rm_v, call_rm_v, jmp_rm_v, jmp_rm_v, push_rm_v, inv]"

definition group6 :: helper_fun where
  "group6 = make_group [inv, inv, inv, inv, inv, inv, inv, inv]"

definition group7 :: helper_fun where
  "group7 = make_group [inv, inv, lgdt_v, lidt_v, inv, inv, inv, inv]"

section \<open>The two-byte table\<close>

definition two_byte_opcode_table :: "helper_fun list" where
  "two_byte_opcode_table = [group6, group7, inv, inv,
    inv, inv, inv, inv,
    inv, inv, inv, inv,
    inv, inv, inv, inv,
    inv, inv, inv, inv,
    inv, inv, inv, inv,
    inv, inv, inv, inv,
    inv, inv, inv, inv,
    mov_cr2r, inv, mov_r2cr, inv,
    inv, inv, inv, inv,
    inv, inv, inv, inv,
    inv, inv, inv, inv,
    inv, inv, inv, inv,
    inv, inv, inv, inv,
    inv, inv, inv, inv,
    inv, inv, inv, inv,
    inv, inv, inv, inv,
    cmove_v, inv, inv, inv,
    inv, inv, inv, inv,
    inv, cmovle_v, cmovle_v, inv,
    inv, inv, inv, inv,
    inv, inv, inv, inv,
    inv, inv, inv, inv,
    inv, inv, inv, inv,
    inv, inv, inv, inv,
    inv, inv, inv, inv,
    inv, inv, inv, inv,
    inv, inv, inv, inv,
    inv, inv, inv, inv,
    inv, inv, inv, inv,
    inv, inv, inv, inv,
    inv, inv, inv, inv,
    jcc_o_v, jcc_no_v, jcc_b_v, jcc_ae_v,
    jcc_e_v, jcc_ne_v, jcc_be_v, jcc_a_v,
    jcc_s_v, jcc_ns_v, jcc_p_v, jcc_np_v,
    jcc_l_v, jcc_ge_v, jcc_le_v, jcc_g_v,
    setcc_o, setcc_no, setcc_b, setcc_ae,
    setcc_e, setcc_ne, setcc_be, setcc_a,
    setcc_s, setcc_ns, setcc_p, setcc_np,
    setcc_l, setcc_ge, setcc_le, setcc_g,
    inv, inv, inv, bt_r2rm_v,
    inv, inv, inv, inv,
    inv, inv, inv, inv,
    shrdi_v, inv, inv, imul_rm2r_v,
    inv, inv, inv, inv,
    inv, inv, movzb_v, movzw_l,
    inv, inv, bt_i2rm_v, inv,
    inv, inv, movsb_v, movsw_l,
    inv, inv, inv, inv,
    inv, inv, inv, inv,
    inv, inv, inv, inv,
    inv, inv, inv, inv,
    inv, inv, inv, inv,
    inv, inv, inv, inv,
    inv, inv, inv, inv,
    inv, inv, inv, inv,
    inv, inv, inv, inv,
    inv, inv, inv, inv,
    inv, inv, inv, inv,
    inv, inv, inv, inv,
    inv, inv, inv, inv,
    inv, inv, inv, inv,
    inv, inv, inv, inv,
    inv, inv, inv, inv]"

definition two_byte_esc :: helper_fun where
  "two_byte_esc pc =
     bindM (instr_fetch (pc + 1) 1) (\<lambda>opc.
     seqM (modM (\<lambda>s. s\<lparr>ops_decoded := (ops_decoded s)\<lparr>opcode := opc OR 0x100\<rparr>\<rparr>))
    (bindM ((two_byte_opcode_table ! unat opc) (pc + 1)) (\<lambda>len. ret (len + 1))))"

section \<open>Prefixes\<close>

definition set_operand_size_16 :: "bool \<Rightarrow> (machine, unit) M" where
  "set_operand_size_16 b = modM (\<lambda>s. s\<lparr>ops_decoded := (ops_decoded s)\<lparr>is_operand_size_16 := b\<rparr>\<rparr>)"

definition operand_size :: "helper_fun \<Rightarrow> helper_fun" where
  "operand_size ex pc =
     seqM (set_operand_size_16 True)
    (bindM (ex (pc + 1)) (\<lambda>instr_len.
     seqM (set_operand_size_16 False) (ret (instr_len + 1))))"

text \<open>
  The loop of \<open>rep\<close> and \<open>repnz\<close>, at most \<open>n\<close> rounds: execute, count down ECX, and leave after a
  comparing string instruction when ZF has the value \<open>z\<close>.
\<close>

definition compares :: "u32 \<Rightarrow> bool" where
  "compares opc \<longleftrightarrow> opc = 0xa6 \<or> opc = 0xa7 \<or> opc = 0xae \<or> opc = 0xaf"

primrec rep_loop :: "bool \<Rightarrow> nat \<Rightarrow> helper_fun \<Rightarrow> u32 \<Rightarrow> (machine, unit) M" where
  "rep_loop z 0 ex pc = bindM (reg_l R_ECX) (\<lambda>c. if c = 0 then ret () else fail OutOfFuel)"
| "rep_loop z (Suc n) ex pc =
     bindM (reg_l R_ECX) (\<lambda>c.
     if c = 0 then ret ()
     else bindM (ex (pc + 1)) (\<lambda>_.
          seqM (bindM (reg_l R_ECX) (\<lambda>c. set_reg_l R_ECX (c - 1)))
         (bindM (getM (\<lambda>s. compares (opcode (ops_decoded s)) \<and> ZF (cpu s) = z)) (\<lambda>b.
          if b then ret () else rep_loop z n ex pc))))"

definition rep :: "nat \<Rightarrow> helper_fun \<Rightarrow> helper_fun" where
  "rep n ex pc =
     bindM (instr_fetch (pc + 1) 1) (\<lambda>b.
     if b = 0xc3 then bindM (ex (pc + 1)) (\<lambda>_. ret (0 + 1))
     else seqM (rep_loop False n ex pc) (ret (1 + 1)))"

definition repnz :: "nat \<Rightarrow> helper_fun \<Rightarrow> helper_fun" where
  "repnz n ex pc = seqM (rep_loop True n ex pc) (ret (1 + 1))"

section \<open>Dispatch\<close>

definition opcode_table :: "nat \<Rightarrow> helper_fun \<Rightarrow> helper_fun list" where
  "opcode_table n ex = [add_r2rm B8, add_r2rm_v, add_rm2r B8, add_rm2r_v,
    add_i2a B8, add_i2a_v, inv, inv,
    or_r2rm B8, or_r2rm_v, or_rm2r B8, or_rm2r_v,
    or_i2a B8, or_i2a_v, inv, two_byte_esc,
    adc_r2rm B8, adc_r2rm_v, adc_rm2r B8, adc_rm2r_v,
    adc_i2a B8, adc_i2a_v, inv, inv,
    sbb_r2rm B8, sbb_r2rm_v, sbb_rm2r B8, sbb_rm2r_v,
    sbb_i2a B8, sbb_i2a_v, inv, inv,
    and_r2rm B8, and_r2rm_v, and_rm2r B8, and_rm2r_v,
    and_i2a B8, and_i2a_v, inv, inv,
    sub_r2rm B8, sub_r2rm_v, sub_rm2r B8, sub_rm2r_v,
    sub_i2a B8, sub_i2a_v, inv, inv,
    xor_r2rm B8, xor_r2rm_v, xor_rm2r B8, xor_rm2r_v,
    xor_i2a B8, xor_i2a_v, inv, inv,
    cmp_r2rm B8, cmp_r2rm_v, cmp_rm2r B8, cmp_rm2r_v,
    cmp_i2a B8, cmp_i2a_v, inv, inv,
    inc_r_v, inc_r_v, inc_r_v, inc_r_v,
    inc_r_v, inc_r_v, inc_r_v, inc_r_v,
    dec_r_v, dec_r_v, dec_r_v, dec_r_v,
    dec_r_v, dec_r_v, dec_r_v, dec_r_v,
    push_r_v, push_r_v, push_r_v, push_r_v,
    push_r_v, push_r_v, push_r_v, push_r_v,
    pop_r_v, pop_r_v, pop_r_v, pop_r_v,
    pop_r_v, pop_r_v, pop_r_v, pop_r_v,
    pusha_v, popa_v, inv, inv,
    inv, inv, operand_size ex, inv,
    push_i_v, imul_i_rm2r_v, push_i B8, imul_si_rm2r_v,
    inv, inv, inv, inv,
    jcc_o B8, jcc_no B8, jcc_b B8, jcc_ae B8,
    jcc_e B8, jcc_ne B8, jcc_be B8, jcc_a B8,
    jcc_s B8, jcc_ns B8, jcc_p B8, jcc_np B8,
    jcc_l B8, jcc_ge B8, jcc_le B8, jcc_g B8,
    group1_b, group1_v, inv, group1_sx_v,
    test_r2rm B8, test_r2rm_v, xchg_r2rm B8, xchg_r2rm_v,
    mov_r2rm B8, mov_r2rm_v, mov_rm2r B8, mov_rm2r_v,
    inv, lea, mov_rm2s, pop_rm_v,
    nop, xchg_a2r_v, xchg_a2r_v, xchg_a2r_v,
    xchg_a2r_v, xchg_a2r_v, xchg_a2r_v, xchg_a2r_v,
    cwtl_v, cltd_v, inv, inv,
    inv, inv, inv, inv,
    mov_moffs2a B8, mov_moffs2a_v, mov_a2moffs B8, mov_a2moffs_v,
    movs_n B8, movs_n_v, inv, inv,
    test_i2a B8, test_i2a_v, stos_n B8, stos_n_v,
    lods_n B8, lods_n_v, scas_n B8, scas_n_v,
    mov_i2r B8, mov_i2r B8, mov_i2r B8, mov_i2r B8,
    mov_i2r B8, mov_i2r B8, mov_i2r B8, mov_i2r B8,
    mov_i2r_v, mov_i2r_v, mov_i2r_v, mov_i2r_v,
    mov_i2r_v, mov_i2r_v, mov_i2r_v, mov_i2r_v,
    group2_i_b, group2_i_v, ret_i_v, ret_o_v,
    inv, inv, mov_i2rm B8, mov_i2rm_v,
    inv, leave, inv, ret_o_v,
    int3, int_i, inv, iret,
    group2_1_b, group2_1_v, group2_cl_b, group2_cl_v,
    inv, inv, nemu_trap, inv,
    inv, inv, inv, inv,
    inv, inv, inv, inv,
    inv, inv, inv, inv,
    in_i B8, in_i_v, out_i B8, out_i_v,
    call_i_v, jmp_i_v, jmp_l_v, jmp_i B8,
    in_d B8, in_d_v, out_d B8, out_d_v,
    inv, inv, repnz n ex, rep n ex,
    hlt, inv, group3_b, group3_v,
    inv, inv, cli, sti,
    cld, std, group4, group5]"

primrec exec :: "nat \<Rightarrow> helper_fun" where
  "exec 0 pc = fail OutOfFuel"
| "exec (Suc n) pc =
     bindM (instr_fetch pc 1) (\<lambda>opc.
     seqM (modM (\<lambda>s. s\<lparr>ops_decoded := (ops_decoded s)\<lparr>opcode := opc\<rparr>\<rparr>))
          ((opcode_table n (exec n) ! unat opc) pc))"

end
