(* ===== verification/Expr.thy ===== *)
theory Expr
  imports Exec
begin

unbundle bit_operations_syntax

text \<open>
  The expression evaluator of the debugger: nemu/src/monitor/debug/expr.c. The regular
  expressions of the token rules are matched by hand-written functions that return the length
  of the longest match at the start of the text. The tokens stay in a global array from one
  expression to the next, and \<open>strncpy\<close> does not terminate the copied text: the array and its
  32-byte buffers are therefore part of the state.
\<close>

section \<open>Tokens\<close>

datatype token_type = TK_NONE | TK_LPAR | TK_RPAR | TK_HEXNUM | TK_NUM | TK_REGISTER | TK_MARK | TK_NOTYPE
  | TK_PLUS | TK_EQ | TK_NEQ | TK_SUB | TK_DIV | TK_MUL | TK_NOT | TK_AND | TK_OR | TK_MINUS | TK_STAR

record token =
  tk_type :: token_type
  tk_str :: "char list"

record token_state =
  tokens :: "nat \<Rightarrow> token"
  nr_token :: nat

definition is_digit :: "char \<Rightarrow> bool" where
  "is_digit c \<longleftrightarrow> 48 \<le> (of_char c :: nat) \<and> (of_char c :: nat) \<le> 57"

definition is_alpha :: "char \<Rightarrow> bool" where
  "is_alpha c \<longleftrightarrow> 65 \<le> (of_char c :: nat) \<and> (of_char c :: nat) \<le> 90 \<or> 97 \<le> (of_char c :: nat) \<and> (of_char c :: nat) \<le> 122"

definition is_xdigit :: "char \<Rightarrow> bool" where
  "is_xdigit c \<longleftrightarrow> is_digit c \<or> 65 \<le> (of_char c :: nat) \<and> (of_char c :: nat) \<le> 70 \<or>
     97 \<le> (of_char c :: nat) \<and> (of_char c :: nat) \<le> 102"

definition is_word :: "char \<Rightarrow> bool" where
  "is_word c \<longleftrightarrow> is_alpha c \<or> is_digit c \<or> c = CHR ''_''"

section \<open>Rules\<close>

text \<open>A literal text, and a literal text followed by one or more characters of a class.\<close>

definition lit :: "string \<Rightarrow> string \<Rightarrow> nat option" where
  "lit p s = (if take (length p) s = p then Some (length p) else None)"

definition lit_many :: "string \<Rightarrow> (char \<Rightarrow> bool) \<Rightarrow> string \<Rightarrow> nat option" where
  "lit_many p cls s =
     (let k = length (takeWhile cls (drop (length p) s))
      in if take (length p) s = p \<and> 0 < k then Some (length p + k) else None)"

definition rules :: "((string \<Rightarrow> nat option) \<times> token_type) list" where
  "rules = [
     (lit ''('', TK_LPAR), (lit '')'', TK_RPAR), (lit_many ''0x'' is_xdigit, TK_HEXNUM),
     (lit_many [] is_digit, TK_NUM), (lit_many ''$'' is_alpha, TK_REGISTER), (lit_many [] is_word, TK_MARK),
     (lit_many [] (\<lambda>c. c = CHR '' ''), TK_NOTYPE), (lit ''+'', TK_PLUS), (lit ''=='', TK_EQ), (lit ''!='', TK_NEQ),
     (lit ''-'', TK_SUB), (lit ''/'', TK_DIV), (lit ''*'', TK_MUL), (lit ''!'', TK_NOT), (lit ''&&'', TK_AND),
     (lit ''||'', TK_OR)]"

text \<open>The first rule that matches at the start of the text.\<close>

fun first_rule :: "((string \<Rightarrow> nat option) \<times> token_type) list \<Rightarrow> string \<Rightarrow> (token_type \<times> nat) option" where
  "first_rule [] s = None"
| "first_rule ((r, t) # rs) s = (case r s of Some n \<Rightarrow> Some (t, n) | None \<Rightarrow> first_rule rs s)"

text \<open>\<open>strncpy(buf, src, n)\<close> where \<open>src\<close> has at least \<open>n\<close> characters, and the C string in a buffer.\<close>

definition strncpy :: "char list \<Rightarrow> char list \<Rightarrow> nat \<Rightarrow> char list" where
  "strncpy buf src n = take n src @ drop n buf"

definition cstr :: "char list \<Rightarrow> string option" where
  "cstr buf = (if CHR 0x00 \<in> set buf then Some (takeWhile (\<lambda>c. c \<noteq> CHR 0x00) buf) else None)"

definition add_token :: "token_type \<Rightarrow> string \<Rightarrow> nat \<Rightarrow> token_state \<Rightarrow> token_state" where
  "add_token t src n st = st\<lparr>
     tokens := (tokens st)(nr_token st := \<lparr>tk_type = t, tk_str = strncpy (tk_str (tokens st (nr_token st))) src n\<rparr>),
     nr_token := nr_token st + 1\<rparr>"

definition record_token :: "token_type \<Rightarrow> string \<Rightarrow> nat \<Rightarrow> token_state \<Rightarrow> token_state" where
  "record_token t s n st = (case t of
     TK_NOTYPE \<Rightarrow> st
   | TK_REGISTER \<Rightarrow> add_token t (drop 1 s) (n - 1) st
   | _ \<Rightarrow> add_token t s n st)"

lemma lit_pos: "p \<noteq> [] \<Longrightarrow> lit p s = Some n \<Longrightarrow> 0 < n"
  by (auto simp: lit_def split: if_splits)

lemma lit_many_pos: "lit_many p cls s = Some n \<Longrightarrow> 0 < n"
  by (auto simp: lit_many_def Let_def split: if_splits)

lemma first_rule_pos:
  "\<forall>(r, t)\<in>set rs. \<forall>s n. r s = Some n \<longrightarrow> 0 < n \<Longrightarrow> first_rule rs s = Some (t, n) \<Longrightarrow> 0 < n"
  by (induction rs s rule: first_rule.induct) (auto split: option.splits)

lemma rules_pos: "first_rule rules s = Some (t, n) \<Longrightarrow> 0 < n"
  by (rule first_rule_pos [of rules]) (auto simp: rules_def dest: lit_pos [rotated] lit_many_pos)

function tokenize :: "string \<Rightarrow> token_state \<Rightarrow> bool \<times> token_state" where
  "tokenize s st =
     (if s = [] then (True, st)
      else case first_rule rules s of
        None \<Rightarrow> (False, st)
      | Some (t, n) \<Rightarrow> tokenize (drop n s) (record_token t s n st))"
  by pat_completeness auto
termination
  by (relation "measure (\<lambda>(s, _). length s)") (auto dest: rules_pos)

declare tokenize.simps [simp del]

definition make_token :: "string \<Rightarrow> token_state \<Rightarrow> bool \<times> token_state" where
  "make_token e st = tokenize e (st\<lparr>nr_token := 0\<rparr>)"

section \<open>Evaluation\<close>

text \<open>The count of open parentheses over tokens \<open>i, ..., q - 1\<close>; \<open>None\<close> when it becomes negative.\<close>

definition paren_step :: "token_type \<Rightarrow> int \<Rightarrow> int" where
  "paren_step t count = (if t = TK_LPAR then count + 1 else if t = TK_RPAR then count - 1 else count)"

fun paren_scan :: "(nat \<Rightarrow> token_type) \<Rightarrow> nat list \<Rightarrow> int \<Rightarrow> int option" where
  "paren_scan ty [] count = Some count"
| "paren_scan ty (i # is) count =
     (let count = paren_step (ty i) count in if count < 0 then None else paren_scan ty is count)"

definition check_parentheses :: "(nat \<Rightarrow> token_type) \<Rightarrow> nat \<Rightarrow> nat \<Rightarrow> bool" where
  "check_parentheses ty p q \<longleftrightarrow>
     ty p = TK_LPAR \<and> ty q = TK_RPAR \<and> paren_scan ty [p + 1..<q] 0 = Some 0"

text \<open>The scan from right to left, with the nesting depth, the best position and its priority.\<close>

fun dom_scan :: "(nat \<Rightarrow> token_type) \<Rightarrow> nat list \<Rightarrow> int \<Rightarrow> nat \<Rightarrow> nat \<Rightarrow> nat" where
  "dom_scan ty [] depth res priority = res"
| "dom_scan ty (i # is) depth res priority =
     (let t = ty i;
          depth = (if t = TK_RPAR then depth + 1 else if t = TK_LPAR then depth - 1 else depth) in
      if t \<in> {TK_NUM, TK_HEXNUM, TK_REGISTER, TK_MARK} \<or> depth \<noteq> 0 then dom_scan ty is depth res priority
      else if t \<in> {TK_AND, TK_OR} then i
      else if t \<in> {TK_EQ, TK_NEQ} \<and> priority > 1 then dom_scan ty is depth i 1
      else if t \<in> {TK_PLUS, TK_SUB} \<and> priority > 2 then dom_scan ty is depth i 2
      else if t \<in> {TK_MUL, TK_DIV} \<and> priority > 3 then dom_scan ty is depth i 3
      else if t \<in> {TK_STAR, TK_MINUS, TK_NOT} \<and> priority > 4 then dom_scan ty is depth i 4
      else dom_scan ty is depth res priority)"

definition dominant_operator :: "(nat \<Rightarrow> token_type) \<Rightarrow> nat \<Rightarrow> nat \<Rightarrow> nat" where
  "dominant_operator ty p q = dom_scan ty (rev [p..<q + 1]) 0 p 100"

lemma dom_scan_in: "res \<in> A \<Longrightarrow> set is \<subseteq> A \<Longrightarrow> dom_scan ty is depth res priority \<in> A"
  by (induction ty "is" depth res priority rule: dom_scan.induct) (auto simp: Let_def)

lemma dominant_operator_in: "p \<le> q \<Longrightarrow> p \<le> dominant_operator ty p q \<and> dominant_operator ty p q \<le> q"
proof -
  assume "p \<le> q"
  then have "p \<in> {p..q}" "set (rev [p..<q + 1]) \<subseteq> {p..q}" by auto
  from dom_scan_in [OF this, of ty 0 100] show ?thesis
    by (simp only: dominant_operator_def atLeastAtMost_iff)
qed

text \<open>
  \<open>sscanf\<close> with \<open>%u\<close> and \<open>%x\<close> on a text that starts with a digit: the longest run of digits,
  saturated at the largest 64-bit number as in the C library, then cut to 32 bits.
\<close>

definition digit_val :: "char \<Rightarrow> nat" where
  "digit_val c = (let n = of_char c in if n \<le> 57 then n - 48 else if n \<le> 70 then n - 55 else n - 87)"

definition number :: "nat \<Rightarrow> string \<Rightarrow> nat" where
  "number base ds = foldl (\<lambda>n c. n * base + digit_val c) 0 ds"

definition scan_u :: "string \<Rightarrow> u32" where
  "scan_u s = of_nat (min (number 10 (takeWhile is_digit s)) (2 ^ 64 - 1))"

definition scan_x :: "string \<Rightarrow> u32" where
  "scan_x s = of_nat (min (number 16 (takeWhile is_xdigit (if take 2 s = ''0x'' then drop 2 s else s))) (2 ^ 64 - 1))"

text \<open>Symbols of the loaded program; type 1 is \<open>STT_OBJECT\<close>, type 2 \<open>STT_FUNC\<close>.\<close>

record symbol =
  st_name :: string
  st_value :: u32
  st_size :: u32
  st_info :: u8

text \<open>
  The loop over the symbol table copies every object name into a buffer of 32 bytes before it
  compares, whether it is the wanted one or not.
\<close>

fun find_object :: "symbol list \<Rightarrow> string \<Rightarrow> (machine, u32 option) M" where
  "find_object [] nm = ret None"
| "find_object (y # ys) nm =
     (if st_info y AND 0xf = 1 then
        (if 32 \<le> length (st_name y) then fail OutOfBounds
         else if st_name y = nm then ret (Some (st_value y)) else find_object ys nm)
      else find_object ys nm)"

definition eval_register :: "string \<Rightarrow> (machine, u32) M" where
  "eval_register nm =
     (case find_way 8 (\<lambda>k. regsl ! k = nm) of Some k \<Rightarrow> reg_l k
      | None \<Rightarrow> if nm = ''eip'' then cpuM eip
      else (case find_way 8 (\<lambda>k. regsw ! k = nm) of Some k \<Rightarrow> reg_w k
      | None \<Rightarrow> (case find_way 5 (\<lambda>k. regsb ! k = nm) of Some k \<Rightarrow> reg_b k
      | None \<Rightarrow> fail Panic)))"

definition eval_atom :: "symbol list \<Rightarrow> token \<Rightarrow> (machine, u32) M" where
  "eval_atom syms t =
     (case cstr (tk_str t) of None \<Rightarrow> fail OutOfBounds | Some chk \<Rightarrow>
      (case tk_type t of
         TK_MARK \<Rightarrow> bindM (find_object syms chk) (\<lambda>r. case r of Some v \<Rightarrow> ret v | None \<Rightarrow> fail Panic)
       | TK_HEXNUM \<Rightarrow> ret (scan_x chk)
       | TK_NUM \<Rightarrow> ret (scan_u chk)
       | TK_REGISTER \<Rightarrow> eval_register chk
       | _ \<Rightarrow> fail Panic))"

definition unary :: "token_type \<Rightarrow> u32 \<Rightarrow> (machine, u32) M" where
  "unary t val = (case t of
     TK_MINUS \<Rightarrow> ret (- val)
   | TK_STAR \<Rightarrow> swaddr_read val 4 3
   | TK_NOT \<Rightarrow> ret (of_bool (val = 0))
   | _ \<Rightarrow> fail Panic)"

definition binary :: "token_type \<Rightarrow> u32 \<Rightarrow> u32 \<Rightarrow> (machine, u32) M" where
  "binary t a b = (case t of
     TK_PLUS \<Rightarrow> ret (a + b)
   | TK_SUB \<Rightarrow> ret (a - b)
   | TK_MUL \<Rightarrow> ret (a * b)
   | TK_DIV \<Rightarrow> if b = 0 then fail DivideError else ret (a div b)
   | TK_EQ \<Rightarrow> ret (of_bool (a = b))
   | TK_NEQ \<Rightarrow> ret (of_bool (a \<noteq> b))
   | TK_AND \<Rightarrow> ret (of_bool (a \<noteq> 0 \<and> b \<noteq> 0))
   | TK_OR \<Rightarrow> ret (of_bool (a \<noteq> 0 \<or> b \<noteq> 0))
   | _ \<Rightarrow> fail AssertFail)"

text \<open>
  \<open>eval ts syms p k\<close> is the C call \<open>eval(p, p + k - 1)\<close>: the range is given by its first token
  and its length, so that the empty range needs no negative index.
\<close>

function eval :: "(nat \<Rightarrow> token) \<Rightarrow> symbol list \<Rightarrow> nat \<Rightarrow> nat \<Rightarrow> (machine, u32) M" where
  "eval ts syms p k =
     (if k = 0 then fail Panic
      else if k = 1 then eval_atom syms (ts p)
      else let ty = (\<lambda>i. tk_type (ts i)); q = p + k - 1 in
        if check_parentheses ty p q then eval ts syms (p + 1) (k - 2)
        else let opr = dominant_operator ty p q in
          if opr = p then bindM (eval ts syms (p + 1) (k - 1)) (unary (ty opr))
          else bindM (eval ts syms p (opr - p)) (\<lambda>val1.
               bindM (eval ts syms (opr + 1) (q - opr)) (\<lambda>val2. binary (ty opr) val1 val2)))"
  by pat_completeness auto
termination
proof (relation "measure (\<lambda>(ts, syms, p, k). k)", goal_cases)
  case (4 ts syms p k ty q opr)
  then have "p \<le> q" by simp
  from dominant_operator_in [OF this, of ty] 4 show ?case unfolding in_measure by auto
next
  case (5 ts syms p k ty q opr)
  then have "p \<le> q" by simp
  from dominant_operator_in [OF this, of ty] 5 show ?case unfolding in_measure by auto
qed auto

declare eval.simps [simp del]

text \<open>The pass that turns \<open>*\<close> and \<open>-\<close> into their unary forms, from left to right.\<close>

definition operand_end :: "token_type \<Rightarrow> bool" where
  "operand_end t \<longleftrightarrow> t \<in> {TK_NUM, TK_HEXNUM, TK_REGISTER, TK_RPAR}"

definition mark_unary :: "nat \<Rightarrow> (nat \<Rightarrow> token) \<Rightarrow> nat \<Rightarrow> token" where
  "mark_unary i ts =
     (let chk = (if 0 < i then tk_type (ts (i - 1)) else TK_NONE);
          ts = (if tk_type (ts i) = TK_MUL \<and> (i = 0 \<or> \<not> operand_end chk) then ts(i := (ts i)\<lparr>tk_type := TK_STAR\<rparr>) else ts)
      in if tk_type (ts i) = TK_SUB \<and> (i = 0 \<or> \<not> operand_end chk) then ts(i := (ts i)\<lparr>tk_type := TK_MINUS\<rparr>) else ts)"

text \<open>The result is \<open>None\<close> when \<open>*success\<close> is false.\<close>

definition expr :: "symbol list \<Rightarrow> string \<Rightarrow> token_state \<Rightarrow> (machine, u32 option \<times> token_state) M" where
  "expr syms e st =
     (if length e > 32 then fail Panic
      else case make_token e st of
        (False, st) \<Rightarrow> ret (None, st)
      | (True, st) \<Rightarrow>
          let st = st\<lparr>tokens := foldl (\<lambda>ts i. mark_unary i ts) (tokens st) [0..<nr_token st]\<rparr>
          in bindM (eval (tokens st) syms 0 (nr_token st)) (\<lambda>v. ret (Some v, st)))"

end
