(* ===== verification/Watch.thy ===== *)
theory Watch
  imports Expr
begin

text \<open>
  The watchpoint pool: nemu/src/monitor/debug/watchpoint.c. Pointers are null, a slot of
  \<open>wp_pool\<close>, or the address of the local copy that \<open>delete_wp\<close> hands to \<open>free_WP\<close>, which is
  dangling as soon as \<open>delete_wp\<close> has returned. \<open>free_list\<close> is the C variable \<open>free_\<close>; the
  messages of \<open>free_WP\<close> are left out, as are tabs and line ends in the formats of \<open>printf\<close>.
\<close>

section \<open>State\<close>

abbreviation (input) NR_WP :: nat where "NR_WP \<equiv> 32"

datatype wp_ptr = Null | Slot nat | Local_copy

record WP =
  wp_NO :: nat
  wp_next :: wp_ptr
  wp_str :: string
  wp_val :: u32

record wp_state =
  wp_pool :: "nat \<Rightarrow> WP"
  head :: wp_ptr
  free_list :: wp_ptr

definition init_wp_pool :: "(wp_state, unit) M" where
  "init_wp_pool =
     seqM (forM [0..<NR_WP] (\<lambda>i. modM (\<lambda>s. s\<lparr>wp_pool := (wp_pool s)(i := (wp_pool s i)\<lparr>wp_NO := i, wp_next := Slot (i + 1)\<rparr>)\<rparr>)))
    (seqM (modM (\<lambda>s. s\<lparr>wp_pool := (wp_pool s)(NR_WP - 1 := (wp_pool s (NR_WP - 1))\<lparr>wp_next := Null\<rparr>)\<rparr>))
          (modM (\<lambda>s. s\<lparr>head := Null, free_list := Slot 0\<rparr>)))"

text \<open>\<open>*p\<close> and \<open>p->next = q\<close>.\<close>

definition deref :: "wp_ptr \<Rightarrow> (wp_state, WP) M" where
  "deref p = (case p of Null \<Rightarrow> fail NullDeref | Local_copy \<Rightarrow> fail Dangling
     | Slot i \<Rightarrow> if i < NR_WP then getM (\<lambda>s. wp_pool s i) else fail OutOfBounds)"

definition upd_wp :: "wp_ptr \<Rightarrow> (WP \<Rightarrow> WP) \<Rightarrow> (wp_state, unit) M" where
  "upd_wp p f = (case p of Null \<Rightarrow> fail NullDeref | Local_copy \<Rightarrow> fail Dangling
     | Slot i \<Rightarrow> if i < NR_WP then modM (\<lambda>s. s\<lparr>wp_pool := (wp_pool s)(i := f (wp_pool s i))\<rparr>) else fail OutOfBounds)"

text \<open>\<open>while (h->next != NULL && h->next->NO != no) h = h->next\<close>; without \<open>no\<close>, the first test only.\<close>

primrec walk_to :: "nat \<Rightarrow> (WP \<Rightarrow> bool) \<Rightarrow> wp_ptr \<Rightarrow> (wp_state, wp_ptr) M" where
  "walk_to 0 stop h = fail OutOfFuel"
| "walk_to (Suc n) stop h =
     bindM (deref h) (\<lambda>w.
     if wp_next w = Null then ret h
     else bindM (deref (wp_next w)) (\<lambda>x. if stop x then ret h else walk_to n stop (wp_next w)))"

section \<open>Operations\<close>

definition new_wp :: "(wp_state, wp_ptr) M" where
  "new_wp =
     bindM (getM free_list) (\<lambda>w.
     if w = Null then fail Panic
     else bindM (deref w) (\<lambda>x.
       seqM (modM (\<lambda>s. s\<lparr>free_list := wp_next x\<rparr>))
      (seqM (upd_wp w (\<lambda>x. x\<lparr>wp_next := Null\<rparr>))
      (bindM (getM head) (\<lambda>h.
       seqM (if h = Null
             then seqM (modM (\<lambda>s. s\<lparr>head := w\<rparr>)) (upd_wp w (\<lambda>x. x\<lparr>wp_next := Null\<rparr>))
             else bindM (walk_to (NR_WP + 1) (\<lambda>_. False) h) (\<lambda>l. upd_wp l (\<lambda>x. x\<lparr>wp_next := w\<rparr>)))
            (ret w))))))"

text \<open>
  \<open>free_WP\<close> on the local copy \<open>victim\<close>. Removing the first node only moves \<open>head\<close>; removing another
  node appends the address of the copy to the free list.
\<close>

definition free_WP :: "WP \<Rightarrow> (wp_state, unit) M" where
  "free_WP victim =
     bindM (getM head) (\<lambda>h.
     if h = Null then ret ()
     else bindM (deref h) (\<lambda>x.
       if wp_NO x = wp_NO victim then modM (\<lambda>s. s\<lparr>head := wp_next x\<rparr>)
       else bindM (walk_to (NR_WP + 1) (\<lambda>x. wp_NO x = wp_NO victim) h) (\<lambda>h.
         bindM (deref h) (\<lambda>x.
         if wp_next x = Null then ret ()
         else seqM (upd_wp h (\<lambda>x. x\<lparr>wp_next := wp_next victim\<rparr>))
             (bindM (getM free_list) (\<lambda>p.
              if p = Null then ret ()
              else bindM (walk_to (NR_WP + 1) (\<lambda>_. False) p) (\<lambda>p. upd_wp p (\<lambda>x. x\<lparr>wp_next := Local_copy\<rparr>))))))))"

definition delete_wp :: "int \<Rightarrow> (wp_state, int) M" where
  "delete_wp num =
     (if 0 \<le> num \<and> num < 32 then bindM (getM (\<lambda>s. wp_pool s (nat num))) (\<lambda>tmp. seqM (free_WP tmp) (ret 1))
      else ret 0)"

section \<open>The debugger state\<close>

text \<open>What \<open>printf\<close> writes: the format and its arguments.\<close>

datatype print_arg = PI u32 | PS string

record nemu =
  vm :: machine
  wps :: wp_state
  toks :: token_state
  symtab :: "symbol list"
  printed :: "(string \<times> print_arg list) list"

definition on_vm :: "(machine, 'a) M \<Rightarrow> (nemu, 'a) M" where
  "on_vm = zoom vm (\<lambda>t s. s\<lparr>vm := t\<rparr>)"

definition on_wps :: "(wp_state, 'a) M \<Rightarrow> (nemu, 'a) M" where
  "on_wps = zoom wps (\<lambda>t s. s\<lparr>wps := t\<rparr>)"

definition printf :: "string \<Rightarrow> print_arg list \<Rightarrow> (nemu, unit) M" where
  "printf fmt args = modM (\<lambda>s. s\<lparr>printed := printed s @ [(fmt, args)]\<rparr>)"

definition exprM :: "string \<Rightarrow> (nemu, u32 option) M" where
  "exprM e =
     bindM (getM toks) (\<lambda>tk. bindM (getM symtab) (\<lambda>syms.
     bindM (on_vm (expr syms e tk)) (\<lambda>(r, tk'). seqM (modM (\<lambda>s. s\<lparr>toks := tk'\<rparr>)) (ret r))))"

primrec check_loop :: "nat \<Rightarrow> wp_ptr \<Rightarrow> bool \<Rightarrow> (nemu, bool) M" where
  "check_loop 0 h key = (if h = Null then ret key else fail OutOfFuel)"
| "check_loop (Suc n) h key =
     (if h = Null then ret key
      else bindM (on_wps (deref h)) (\<lambda>w.
        bindM (exprM (wp_str w)) (\<lambda>r.
        case r of None \<Rightarrow> fail Panic | Some v \<Rightarrow>
          bindM (if v \<noteq> wp_val w then
                   seqM (printf ''Hit WatchPoint %d'' [PI (of_nat (wp_NO w))])
                  (seqM (printf ''Old Value Is %d, New Value is %d'' [PI (wp_val w), PI v])
                  (seqM (on_wps (upd_wp h (\<lambda>x. x\<lparr>wp_val := v\<rparr>))) (ret False)))
                 else ret key) (\<lambda>key.
          bindM (on_wps (deref h)) (\<lambda>w. check_loop n (wp_next w) key)))))"

definition check_WP :: "(nemu, bool) M" where
  "check_WP = bindM (getM (\<lambda>s. head (wps s))) (\<lambda>h. check_loop (NR_WP + 1) h True)"

primrec print_loop :: "nat \<Rightarrow> wp_ptr \<Rightarrow> (nemu, unit) M" where
  "print_loop 0 h = (if h = Null then ret () else fail OutOfFuel)"
| "print_loop (Suc n) h =
     (if h = Null then ret ()
      else bindM (on_wps (deref h)) (\<lambda>w.
        seqM (printf ''%d %s %d'' [PI (of_nat (wp_NO w)), PS (wp_str w), PI (wp_val w)])
             (print_loop n (wp_next w))))"

definition print_wp :: "(nemu, unit) M" where
  "print_wp = bindM (getM (\<lambda>s. head (wps s))) (print_loop (NR_WP + 1))"

end
