(* ===== verification/Watch_Props.thy ===== *)
theory Watch_Props
  imports Watch
begin

text \<open>
  The watchpoint pool as two lists of slots: those in use, in the order they were set, and the
  free ones. \<open>new_wp\<close> implements the move from one list to the other; deletion does not bring
  slots back.
\<close>

section \<open>Chains of slots\<close>

primrec chain :: "(nat \<Rightarrow> WP) \<Rightarrow> wp_ptr \<Rightarrow> nat list \<Rightarrow> wp_ptr \<Rightarrow> bool" where
  "chain pool p [] e \<longleftrightarrow> p = e"
| "chain pool p (i # is) e \<longleftrightarrow> p = Slot i \<and> i < NR_WP \<and> chain pool (wp_next (pool i)) is e"

lemma chain_append: "chain pool p (xs @ ys) e \<longleftrightarrow> (\<exists>q. chain pool p xs q \<and> chain pool q ys e)"
  by (induction xs arbitrary: p) auto

lemma chain_upd_other: "i \<notin> set xs \<Longrightarrow> chain (pool(i := w)) p xs e = chain pool p xs e"
  by (induction xs arbitrary: p) auto

lemma chain_set_last:
  assumes "chain pool p xs e" "xs \<noteq> []" "distinct xs"
  shows "chain (pool(last xs := (pool (last xs))\<lparr>wp_next := q\<rparr>)) p xs q"
  using assms
proof (induction xs arbitrary: p)
  case (Cons i "is")
  then show ?case by (cases "is = []") (auto simp: chain_upd_other)
qed simp

lemma chain_upd_keep_next:
  "wp_next w = wp_next (pool i) \<Longrightarrow> chain (pool(i := w)) p xs e = chain pool p xs e"
  by (induction xs arbitrary: p) auto

definition wp_abs :: "wp_state \<Rightarrow> nat list \<Rightarrow> nat list \<Rightarrow> wp_ptr \<Rightarrow> bool" where
  "wp_abs s us fs e \<longleftrightarrow>
     chain (wp_pool s) (head s) us Null \<and> chain (wp_pool s) (free_list s) fs e \<and> distinct (us @ fs) \<and>
     length (us @ fs) \<le> NR_WP \<and> (\<forall>i<NR_WP. wp_NO (wp_pool s i) = i) \<and> (e = Null \<or> e = Local_copy)"

lemma run_deref [simp]: "i < NR_WP \<Longrightarrow> deref (Slot i) s = Ret (wp_pool s i) s"
  "deref Local_copy s = Err Dangling" "deref Null s = Err NullDeref"
  by (simp_all add: deref_def)

lemma run_upd_wp [simp]: "i < NR_WP \<Longrightarrow> upd_wp (Slot i) f s = Ret () (s\<lparr>wp_pool := (wp_pool s)(i := f (wp_pool s i))\<rparr>)"
  by (simp add: upd_wp_def)

text \<open>The searching loop stops before the first node that satisfies the test, or at the end.\<close>

lemma walk_to_run:
  fixes stop :: "WP \<Rightarrow> bool"
  assumes "chain (wp_pool s) (Slot i) (i # xs) e" "length xs < n"
  defines "ys \<equiv> takeWhile (\<lambda>j. \<not> stop (wp_pool s j)) xs"
  shows "ys \<noteq> xs \<or> e = Null \<Longrightarrow> walk_to n stop (Slot i) s = Ret (Slot (last (i # ys))) s"
    and "ys = xs \<Longrightarrow> e = Local_copy \<Longrightarrow> walk_to n stop (Slot i) s = Err Dangling"
proof -
  have "(ys \<noteq> xs \<or> e = Null \<longrightarrow> walk_to n stop (Slot i) s = Ret (Slot (last (i # ys))) s) \<and>
      (ys = xs \<longrightarrow> e = Local_copy \<longrightarrow> walk_to n stop (Slot i) s = Err Dangling)"
    using assms(1,2) unfolding ys_def
  proof (induction xs arbitrary: i n)
    case Nil
    then obtain k where "n = Suc k" by (cases n) auto
    with Nil show ?case by (auto simp: bindM_def)
  next
    case (Cons j xs)
    then obtain k where k: "n = Suc k" "length xs < k" by (cases n) auto
    from Cons.prems(1) have c: "i < NR_WP" "wp_next (wp_pool s i) = Slot j" "j < NR_WP"
      "chain (wp_pool s) (Slot j) (j # xs) e" by auto
    show ?case using Cons.IH [OF c(4) k(2)] c(1-3) k(1) by (auto simp: bindM_def)
  qed
  then show "ys \<noteq> xs \<or> e = Null \<Longrightarrow> walk_to n stop (Slot i) s = Ret (Slot (last (i # ys))) s"
    "ys = xs \<Longrightarrow> e = Local_copy \<Longrightarrow> walk_to n stop (Slot i) s = Err Dangling" by auto
qed

lemma takeWhile_True [simp]: "takeWhile (\<lambda>_. True) xs = xs"
  by (simp add: takeWhile_eq_all_conv)

lemma walk_to_last:
  assumes "chain (wp_pool s) p xs Null" "xs \<noteq> []" "length xs \<le> NR_WP"
  shows "walk_to (NR_WP + 1) (\<lambda>_. False) p s = Ret (Slot (last xs)) s"
proof -
  obtain i ys where xs: "xs = i # ys" using assms(2) by (cases xs) auto
  with assms(1) have "p = Slot i" by simp
  then show ?thesis
    using walk_to_run(1) [of s i ys Null "NR_WP + 1" "\<lambda>_. False"] assms xs by (simp del: walk_to.simps)
qed

lemma distinct_slots_bound: "distinct xs \<Longrightarrow> set xs \<subseteq> {..<n} \<Longrightarrow> length xs \<le> n"
  by (metis card_lessThan card_mono distinct_card finite_lessThan)

lemma chain_slots: "chain pool p xs e \<Longrightarrow> set xs \<subseteq> {..<NR_WP}"
  by (induction xs arbitrary: p) auto

lemma chain_det: "chain pool p xs e \<Longrightarrow> (p = Null) = (xs = [] \<and> e = Null)"
  by (cases xs) auto

section \<open>Initialisation and allocation\<close>

lemma init_wp_pool_abs: "wp init_wp_pool (\<lambda>_ t. wp_abs t [] [0..<NR_WP] Null) s"
proof -
  have up: "chain pool (Slot i) [i..<NR_WP] Null"
    if "\<forall>k<31. wp_next (pool k) = Slot (Suc k)" "wp_next (pool 31) = Null" "i \<le> 31" for pool i
    using that(3)
  proof (induction "31 - i" arbitrary: i)
    case 0
    then have "[i..<NR_WP] = [31]" "i = 31" by (simp_all add: upt_rec)
    with that(2) show ?case by simp
  next
    case (Suc k)
    from Suc have i: "i < 31" "k = 31 - Suc i" by simp_all
    have "[i..<NR_WP] = i # [Suc i..<NR_WP]" using i(1) by (simp only: upt_conv_Cons)
    moreover have "chain pool (Slot (Suc i)) [Suc i..<NR_WP] Null" by (rule Suc.hyps(1)) (use i in auto)
    ultimately show ?case using that(1) i(1) by (simp only: chain.simps) simp
  qed
  have "wp (forM [0..<NR_WP] (\<lambda>i. modM (\<lambda>s. s\<lparr>wp_pool := (wp_pool s)(i := (wp_pool s i)\<lparr>wp_NO := i, wp_next := Slot (i + 1)\<rparr>)\<rparr>)))
      (\<lambda>_ t. \<forall>k<NR_WP. wp_NO (wp_pool t k) = k \<and> wp_next (wp_pool t k) = Slot (Suc k)) s"
    by (rule wp_for_upt [where I = "\<lambda>n t. \<forall>k<n. wp_NO (wp_pool t k) = k \<and> wp_next (wp_pool t k) = Slot (Suc k)"])
      (auto simp: wp_simps less_Suc_eq simp del: upt_Suc)
  then show ?thesis unfolding init_wp_pool_def wp_seqM wp_modM
  proof (rule wp_mono)
    fix t :: wp_state
    let ?P = "(wp_pool t)(NR_WP - 1 := (wp_pool t (NR_WP - 1))\<lparr>wp_next := Null\<rparr>)"
    assume t: "\<forall>k<NR_WP. wp_NO (wp_pool t k) = k \<and> wp_next (wp_pool t k) = Slot (Suc k)"
    have "chain ?P (Slot 0) [0..<NR_WP] Null" by (rule up) (use t in auto)
    moreover have "\<forall>i<NR_WP. wp_NO (?P i) = i" using t by auto
    ultimately show "wp_abs (t\<lparr>wp_pool := ?P, head := Null, free_list := Slot 0\<rparr>) [] [0..<NR_WP] Null"
      unfolding wp_abs_def by (simp del: upt_Suc)
  qed
qed

lemma new_wp_abs:
  assumes "wp_abs s us (f # fs) e"
  shows "wp new_wp (\<lambda>w t. w = Slot f \<and> wp_abs t (us @ [f]) fs e) s"
proof -
  let ?P = "(wp_pool s)(f := (wp_pool s f)\<lparr>wp_next := Null\<rparr>)"
  let ?s = "s\<lparr>free_list := wp_next (wp_pool s f), wp_pool := ?P\<rparr>"
  from assms have c: "chain (wp_pool s) (head s) us Null" "f < NR_WP" "free_list s = Slot f"
      "chain (wp_pool s) (wp_next (wp_pool s f)) fs e"
    and d: "distinct (us @ f # fs)" and len: "length us + length fs < NR_WP"
    and no: "\<forall>i<NR_WP. wp_NO (wp_pool s i) = i" and e: "e = Null \<or> e = Local_copy" by (auto simp: wp_abs_def)
  have fs: "f \<notin> set us" "f \<notin> set fs" using d by auto
  have u: "chain ?P (head s) us Null" using c(1) fs by (simp add: chain_upd_other)
  have v: "chain ?P (wp_next (wp_pool s f)) fs e" using c(4) fs by (simp add: chain_upd_other)
  show ?thesis
  proof (cases "us = []")
    case True
    then have "new_wp s = Ret (Slot f) (s\<lparr>wp_pool := ?P(f := (?P f)\<lparr>wp_next := Null\<rparr>), free_list := wp_next (wp_pool s f), head := Slot f\<rparr>)"
      using c by (simp add: new_wp_def bindM_def seqM_def)
    moreover have "chain ?P (wp_next (wp_pool s f)) fs e" by (rule v)
    ultimately show ?thesis using True c(2) d len no e v by (simp add: wp_def wp_abs_def)
  next
    case False
    let ?l = "last us"
    let ?Q = "?P(?l := (?P ?l)\<lparr>wp_next := Slot f\<rparr>)"
    have h: "head s \<noteq> Null" using c(1) False by (auto simp: chain_det)
    have "?l \<in> set us" using False by simp
    then have l: "?l < NR_WP" "?l \<noteq> f" using chain_slots [OF c(1)] fs by auto
    have "walk_to (NR_WP + 1) (\<lambda>_. False) (head s) ?s = Ret (Slot ?l) ?s"
      by (rule walk_to_last) (use u False len in simp_all)
    then have run: "new_wp s = Ret (Slot f) (?s\<lparr>wp_pool := ?Q\<rparr>)"
      using c(2,3) h l by (simp add: new_wp_def bindM_def seqM_def del: walk_to.simps)
    have "chain ?Q (head s) us (Slot f)" by (rule chain_set_last [OF u False]) (use d in simp)
    then have "chain ?Q (head s) (us @ [f]) Null" using c(2) l by (auto simp: chain_append)
    moreover have "chain ?Q (wp_next (wp_pool s f)) fs e"
      using v d \<open>?l \<in> set us\<close> by (subst chain_upd_other) auto
    moreover have "\<forall>i<NR_WP. wp_NO (?Q i) = i" using no by simp
    ultimately show ?thesis using run d len e by (auto simp: wp_def wp_abs_def)
  qed
qed

lemma new_wp_exhausted:
  assumes "wp_abs s us [] e"
  shows "new_wp s = Err (if e = Null then Panic else Dangling)"
  using assms by (auto simp: wp_abs_def new_wp_def bindM_def)

section \<open>Deletion\<close>

lemma delete_head_abs:
  assumes "wp_abs s (u # us) fs e"
  shows "wp (delete_wp (int u)) (\<lambda>r t. r = 1 \<and> wp_abs t us fs e) s"
proof -
  from assms have "head s = Slot u" "u < NR_WP" "wp_NO (wp_pool s u) = u" by (auto simp: wp_abs_def)
  then have "delete_wp (int u) s = Ret 1 (s\<lparr>head := wp_next (wp_pool s u)\<rparr>)"
    by (simp add: delete_wp_def free_WP_def bindM_def seqM_def)
  then show ?thesis using assms by (simp add: wp_def wp_abs_def)
qed

lemma delete_other_run:
  assumes abs: "wp_abs s (u # as @ x # bs) (f # fs) e"
  defines "P \<equiv> (wp_pool s)(last (u # as) := (wp_pool s (last (u # as)))\<lparr>wp_next := wp_next (wp_pool s x)\<rparr>)"
  shows "e = Null \<Longrightarrow> delete_wp (int x) s =
      Ret 1 (s\<lparr>wp_pool := P(last (f # fs) := (P (last (f # fs)))\<lparr>wp_next := Local_copy\<rparr>)\<rparr>)"
    and "e = Local_copy \<Longrightarrow> delete_wp (int x) s = Err Dangling"
proof -
  let ?l = "last (u # as)"
  let ?s = "s\<lparr>wp_pool := P\<rparr>"
  from abs have c: "chain (wp_pool s) (head s) (u # as @ x # bs) Null" "chain (wp_pool s) (free_list s) (f # fs) e"
    and d: "distinct (u # as @ x # bs)" "(set as \<union> {u, x} \<union> set bs) \<inter> set (f # fs) = {}"
    and len: "length as + length bs + length fs + 3 \<le> NR_WP"
    and no: "\<forall>i<NR_WP. wp_NO (wp_pool s i) = i" by (auto simp: wp_abs_def)
  have h: "head s = Slot u" and sl: "set (u # as @ x # bs) \<subseteq> {..<NR_WP}" using c(1) chain_slots [OF c(1)] by auto
  have nos: "wp_NO (wp_pool s j) = j" if "j \<in> set (u # as @ x # bs)" for j using that sl no by auto
  have tw: "takeWhile (\<lambda>j. \<not> wp_NO (wp_pool s j) = x) (as @ x # bs) = as"
  proof -
    have "takeWhile (\<lambda>j. wp_NO (wp_pool s j) \<noteq> x) (as @ x # bs) = as @ takeWhile (\<lambda>j. wp_NO (wp_pool s j) \<noteq> x) (x # bs)"
      using nos d by (subst takeWhile_append2) auto
    then show ?thesis using nos [of x] by simp
  qed
  have w1: "walk_to (NR_WP + 1) (\<lambda>w. wp_NO w = x) (Slot u) s = Ret (Slot ?l) s"
    using walk_to_run(1) [of s u "as @ x # bs" Null "NR_WP + 1" "\<lambda>w. wp_NO w = x"] c(1) h tw len by (simp del: walk_to.simps)
  have l: "?l < NR_WP" "?l \<notin> set (f # fs)" "?l \<noteq> x" "?l \<in> set (u # as)"
  proof -
    show "?l \<in> set (u # as)" by (rule last_in_set) simp
    then show "?l < NR_WP" "?l \<notin> set (f # fs)" "?l \<noteq> x" using sl d by auto
  qed
  have nl: "wp_next (wp_pool s ?l) = Slot x"
  proof -
    from c(1) obtain q where "chain (wp_pool s) (head s) (u # as) q" "chain (wp_pool s) q (x # bs) Null"
      using chain_append [of "wp_pool s" "head s" "u # as" "x # bs" Null] by auto
    moreover have "q = wp_next (wp_pool s (last (u # as)))" if "chain pl p (u # as) q" "pl = wp_pool s" for pl p
      using that by (induction as arbitrary: u p) auto
    ultimately show ?thesis by auto
  qed
  have cf: "chain P (Slot f) (f # fs) e" using c(2) l(2) unfolding P_def by (subst chain_upd_other) auto
  have fl: "free_list s = Slot f" "length fs < NR_WP + 1" using c(2) len by auto
  have x: "x < NR_WP" "u \<noteq> x" "wp_NO (wp_pool s u) = u" "wp_NO (wp_pool s x) = x" using sl d nos by auto
  have "delete_wp (int x) s = bindM (walk_to (NR_WP + 1) (\<lambda>_. False) (Slot f)) (\<lambda>p.
      seqM (upd_wp p (\<lambda>x. x\<lparr>wp_next := Local_copy\<rparr>)) (ret 1)) ?s"
    using h w1 x l(1) nl fl(1) sl
    by (simp add: delete_wp_def free_WP_def bindM_def seqM_def P_def del: walk_to.simps split: outcome.splits)
  then show "e = Null \<Longrightarrow> delete_wp (int x) s =
      Ret 1 (s\<lparr>wp_pool := P(last (f # fs) := (P (last (f # fs)))\<lparr>wp_next := Local_copy\<rparr>)\<rparr>)"
    and "e = Local_copy \<Longrightarrow> delete_wp (int x) s = Err Dangling"
  proof -
    have lf: "last (f # fs) < NR_WP"
      using chain_slots [OF c(2)] last_in_set [of "f # fs"] by auto
    assume D: "delete_wp (int x) s = bindM (walk_to (NR_WP + 1) (\<lambda>_. False) (Slot f)) (\<lambda>p.
        seqM (upd_wp p (\<lambda>x. x\<lparr>wp_next := Local_copy\<rparr>)) (ret 1)) ?s"
    show "delete_wp (int x) s =
        Ret 1 (s\<lparr>wp_pool := P(last (f # fs) := (P (last (f # fs)))\<lparr>wp_next := Local_copy\<rparr>)\<rparr>)" if "e = Null"
      using walk_to_run(1) [of ?s f fs e "NR_WP + 1" "\<lambda>_. False"] cf fl(2) lf that D
      by (simp del: walk_to.simps chain.simps)
    show "delete_wp (int x) s = Err Dangling" if "e = Local_copy"
      using walk_to_run(2) [of ?s f fs e "NR_WP + 1" "\<lambda>_. False"] cf fl(2) that D
      by (simp del: walk_to.simps chain.simps)
  qed
qed

lemma delete_other_abs:
  assumes abs: "wp_abs s (u # as @ x # bs) (f # fs) Null"
  shows "wp (delete_wp (int x)) (\<lambda>r t. r = 1 \<and> wp_abs t (u # as @ bs) (f # fs) Local_copy) s"
proof -
  let ?l = "last (u # as)" and ?m = "last (f # fs)"
  let ?P = "(wp_pool s)(?l := (wp_pool s ?l)\<lparr>wp_next := wp_next (wp_pool s x)\<rparr>)"
  let ?Q = "?P(?m := (?P ?m)\<lparr>wp_next := Local_copy\<rparr>)"
  from abs have c: "chain (wp_pool s) (head s) (u # as @ x # bs) Null" "chain (wp_pool s) (free_list s) (f # fs) Null"
    and d: "distinct (u # as @ x # bs)" "distinct (f # fs)" "(set as \<union> {u, x} \<union> set bs) \<inter> set (f # fs) = {}"
    and len: "length (u # as @ x # bs) + length (f # fs) \<le> NR_WP"
    and no: "\<forall>i<NR_WP. wp_NO (wp_pool s i) = i" by (auto simp: wp_abs_def)
  have l: "?l \<in> set (u # as)" "?m \<in> set (f # fs)" by (rule last_in_set, simp)+
  have "a \<notin> set (f # fs)" "a \<notin> set bs" if "a \<in> set (u # as)" for a using that d by auto
  moreover have "b \<notin> set (u # as @ bs)" if "b \<in> set (f # fs)" for b using that d by auto
  ultimately have lm: "?l \<notin> set (f # fs)" "?m \<notin> set (u # as @ bs)" "?l \<notin> set bs" using l by blast+
  from c(1) obtain q where q: "chain (wp_pool s) (head s) (u # as) q" "chain (wp_pool s) q (x # bs) Null"
    using chain_append [of "wp_pool s" "head s" "u # as" "x # bs" Null] by auto
  have "chain ?P (head s) (u # as) (wp_next (wp_pool s x))" by (rule chain_set_last [OF q(1)]) (use d in auto)
  moreover have "chain ?P (wp_next (wp_pool s x)) bs Null"
    using q(2) lm(3) by (subst chain_upd_other) auto
  ultimately have "chain ?P (head s) ((u # as) @ bs) Null" by (subst chain_append) blast
  then have "chain ?Q (head s) ((u # as) @ bs) Null" by (subst chain_upd_other) (use lm(2) in auto)
  moreover have "chain ?P (free_list s) (f # fs) Null" using c(2) lm(1) by (subst chain_upd_other) auto
  then have "chain ?Q (free_list s) (f # fs) Local_copy" by (rule chain_set_last) (use d in auto)
  moreover have "\<forall>i<NR_WP. wp_NO (?Q i) = i" using no by simp
  ultimately have "wp_abs (s\<lparr>wp_pool := ?Q\<rparr>) (u # as @ bs) (f # fs) Local_copy"
    using d len by (auto simp: wp_abs_def simp del: chain.simps)
  with delete_other_run(1) [OF abs refl] show ?thesis by (simp add: wp_def)
qed

section \<open>Properties\<close>

text \<open>
  After initialisation, any number n up to 32 of allocations succeeds and yields the slots 0, ..., n - 1
  in order, linked in that order, the rest of the pool staying free; the allocation after the 32nd panics.\<close>

lemma watch_allocation:
  "wp init_wp_pool (\<lambda>_ t. \<forall>n\<le>32.
     wp (forM [0..<n] (\<lambda>i. bindM new_wp (\<lambda>w. assertM (w = Slot i)))) (\<lambda>_ u.
       wp_abs u [0..<n] [n..<32] Null \<and> (n = 32 \<longrightarrow> new_wp u = Err Panic)) t) s"
proof (rule wp_mono [OF init_wp_pool_abs], intro allI impI)
  fix t n assume t: "wp_abs t [] [0..<NR_WP] Null" and n: "n \<le> (32 :: nat)"
  show "wp (forM [0..<n] (\<lambda>i. bindM new_wp (\<lambda>w. assertM (w = Slot i)))) (\<lambda>_ u.
       wp_abs u [0..<n] [n..<32] Null \<and> (n = 32 \<longrightarrow> new_wp u = Err Panic)) t"
  proof (rule wp_for_upt [where I = "\<lambda>i u. wp_abs u [0..<i] [i..<32] Null"])
    show "wp_abs t [0..<0] [0..<32] Null" using t by (simp del: upt_Suc)
  next
    fix i u assume i: "i < n" and u: "wp_abs u [0..<i] [i..<32] Null"
    have "[i..<32] = i # [Suc i..<32]" using i n by (simp only: upt_conv_Cons)
    with u have "wp new_wp (\<lambda>w v. w = Slot i \<and> wp_abs v ([0..<i] @ [i]) [Suc i..<32] Null) u"
      by (intro new_wp_abs) (simp only:)
    then show "wp (bindM new_wp (\<lambda>w. assertM (w = Slot i))) (\<lambda>_ v. wp_abs v [0..<Suc i] [Suc i..<32] Null) u"
      unfolding wp_bindM by (rule wp_mono) (simp add: wp_simps)
  next
    fix u assume u: "wp_abs u [0..<n] [n..<32] Null"
    show "wp_abs u [0..<n] [n..<32] Null \<and> (n = 32 \<longrightarrow> new_wp u = Err Panic)"
    proof (intro conjI impI)
      assume "n = 32"
      with u have "wp_abs u [0..<32] [] Null" by (simp only: upt_conv_Nil)
      from new_wp_exhausted [OF this] show "new_wp u = Err Panic" by simp
    qed (rule u)
  qed
qed


text \<open>
  Deleting the only watchpoint does not give its slot back: after 32 rounds of setting a watchpoint and
  deleting it, no watchpoint is set, and setting one more panics.\<close>

lemma watch_delete_leaks:
  "wp (seqM init_wp_pool (forM [0..<32] (\<lambda>i. bindM new_wp (\<lambda>_. bindM (delete_wp (int i)) (\<lambda>r. assertM (r = 1))))))
     (\<lambda>_ t. head t = Null \<and> new_wp t = Err Panic) s"
  unfolding wp_seqM
proof (rule wp_mono [OF init_wp_pool_abs])
  fix t assume t: "wp_abs t [] [0..<NR_WP] Null"
  show "wp (forM [0..<32] (\<lambda>i. bindM new_wp (\<lambda>_. bindM (delete_wp (int i)) (\<lambda>r. assertM (r = 1)))))
     (\<lambda>_ t. head t = Null \<and> new_wp t = Err Panic) t"
  proof (rule wp_for_upt [where I = "\<lambda>i u. wp_abs u [] [i..<32] Null"])
    fix i :: nat and u assume i: "i < 32" and u: "wp_abs u [] [i..<32] Null"
    have "[i..<32] = i # [Suc i..<32]" using i by (simp only: upt_conv_Cons)
    with u have "wp new_wp (\<lambda>w v. w = Slot i \<and> wp_abs v ([] @ [i]) [Suc i..<32] Null) u"
      by (intro new_wp_abs) (simp only:)
    then show "wp (bindM new_wp (\<lambda>_. bindM (delete_wp (int i)) (\<lambda>r. assertM (r = 1)))) (\<lambda>_ v. wp_abs v [] [Suc i..<32] Null) u"
      unfolding wp_bindM
    proof (rule wp_mono)
      fix w v assume "w = Slot i \<and> wp_abs v ([] @ [i]) [Suc i..<32] Null"
      then have "wp_abs v [i] [Suc i..<32] Null" by simp
      from delete_head_abs [OF this]
      show "wp (delete_wp (int i)) (\<lambda>x. wp (assertM (x = 1)) (\<lambda>_ v. wp_abs v [] [Suc i..<32] Null)) v"
        by (rule wp_mono) (simp add: wp_simps)
    qed
  next
    fix u assume "wp_abs u [] [32..<32] Null"
    then have u: "wp_abs u [] [] Null" by (simp only: upt_conv_Nil)
    from new_wp_exhausted [OF u] u show "head u = Null \<and> new_wp u = Err Panic" by (simp add: wp_abs_def)
  qed (rule t)
qed

text \<open>
  Deleting a watchpoint that is not the first one keeps the other watchpoints and leaves a dangling pointer
  at the end of the free list; the next deletion of that kind then follows the dangling pointer.\<close>

lemma watch_delete_dangles:
  assumes "wp_abs s (u # as @ x # bs) (f # fs) Null" "y \<in> set (as @ bs)"
  shows "wp (delete_wp (int x)) (\<lambda>r t. r = 1 \<and> wp_abs t (u # as @ bs) (f # fs) Local_copy \<and>
           delete_wp (int y) t = Err Dangling) s"
proof (rule wp_mono [OF delete_other_abs [OF assms(1)]])
  fix r t assume t: "r = 1 \<and> wp_abs t (u # as @ bs) (f # fs) Local_copy"
  from assms(2) obtain as' bs' where "as @ bs = as' @ y # bs'" by (meson split_list)
  with t have "wp_abs t (u # as' @ y # bs') (f # fs) Local_copy" by simp
  from delete_other_run(2) [OF this refl] t
  show "r = 1 \<and> wp_abs t (u # as @ bs) (f # fs) Local_copy \<and> delete_wp (int y) t = Err Dangling" by simp
qed


end
