(* ===== verification/Flat_Mode.thy ===== *)
theory Flat_Mode
  imports System Strings
begin

unbundle bit_operations_syntax

text \<open>
  A machine in flat mode, as the kernel and the test programs set it up: caches in working
  order, paging off, segments based at 0. Memory then is the byte map \<open>mem_view (mem s)\<close>, and the
  rules of this theory turn accesses of all kinds into loads from and stores to that map. \<open>jumps\<close> is
  the predicate transformer for operations that end in \<open>longjmp\<close>.
\<close>

section \<open>Flat machines and plain memory\<close>

lemma unat_sub_nat: "d \<le> unat x \<Longrightarrow> unat (x - of_nat d) = unat x - d" for x :: u32
proof -
  assume d: "d \<le> unat x"
  then have "d < 2 ^ 32" using unsigned_less [of x, where 'a = nat] by simp
  then have "unat (of_nat d :: u32) = d" by (simp add: unat_of_nat)
  with d show ?thesis by (simp add: unat_sub word_le_nat_alt)
qed

lemma unat_add_nat: "unat x + d < 2 ^ 32 \<Longrightarrow> unat (x + of_nat d) = unat x + d" for x :: u32
  by (simp add: unat_word_ariths unat_of_nat)

definition flat_machine :: "nat set \<Rightarrow> machine \<Rightarrow> bool" where
  "flat_machine W s \<longleftrightarrow> cache_inv W (mem s) \<and> (\<forall>r<4. flat r s)"

text \<open>Physical addresses from \<open>lo\<close> to below \<open>hi\<close> that no device claims.\<close>

definition plain :: "nat set \<Rightarrow> machine \<Rightarrow> nat \<Rightarrow> nat \<Rightarrow> bool" where
  "plain W s lo hi \<longleftrightarrow> 0 < lo \<and> hi \<le> HW_MEM_SIZE \<and> (\<forall>a. lo \<le> a \<and> a < hi \<longrightarrow> a div 64 \<in> W) \<and>
     (\<forall>a. lo \<le> unat a \<and> unat a < hi \<longrightarrow> is_mmio s a = None)"

lemma plain_ok [intro]:
  assumes "plain W s lo hi" "lo \<le> unat a" "unat a + n \<le> hi" "n = 1 \<or> n = 2 \<or> n = 4"
  shows "flat_ok W s a n"
proof -
  have n: "0 < n" "n \<le> 4" using assms(4) by auto
  have "is_mmio s (a + of_nat (4096 - unat a mod 4096)) = None" if "unat a mod 4096 + n > 4096"
  proof -
    define f where "f = 4096 - unat a mod 4096"
    have f: "f < n" "f \<le> 4096" using that n by (simp_all add: f_def less_diff_conv2)
    have "unat a + f < 2 ^ 32" using assms(1,3) f(1) by (simp add: plain_def)
    then have "unat (a + of_nat f) = unat a + f" using f by (simp add: unat_word_ariths unat_of_nat)
    with assms f(1) show ?thesis by (simp add: plain_def f_def [symmetric])
  qed
  moreover have "a \<noteq> 0" using assms(1,2) by (auto simp: plain_def)
  moreover have "is_mmio s a = None" "unat a div 64 \<in> W" "unat a + n \<le> HW_MEM_SIZE"
    using assms(1-3) n by (simp_all add: plain_def)
  moreover have "lo \<le> unat a + n - 1" "unat a + n - 1 < hi" using assms(2,3) n by simp_all
  then have "(unat a + n - 1) div 64 \<in> W" using assms(1) unfolding plain_def by blast
  ultimately show ?thesis using assms(4) n by (auto simp: flat_ok_def phys_ok_def cache_ok_def)
qed

lemma plain_congr: "mmio t = mmio s \<Longrightarrow> plain W t lo hi = plain W s lo hi"
  using is_mmio_cong [of t s] by (simp add: plain_def)

lemma plain_upd [simp]:
  "plain W (s\<lparr>mem := m\<rparr>) lo hi = plain W s lo hi" "plain W (s\<lparr>cpu := c\<rparr>) lo hi = plain W s lo hi"
  "plain W (s\<lparr>ops_decoded := d\<rparr>) lo hi = plain W s lo hi" "plain W (upd_op q f s) lo hi = plain W s lo hi"
  by (rule plain_congr, simp)+

lemma flat_machine_mem: "flat_machine W s \<Longrightarrow> cache_inv W m \<Longrightarrow> flat_machine W (s\<lparr>mem := m\<rparr>)"
  by (simp add: flat_machine_def)

lemma flat_machine_cpu [simp]:
  "cr0 c = cr0 (cpu s) \<Longrightarrow> sreg c = sreg (cpu s) \<Longrightarrow> flat_machine W (s\<lparr>cpu := c\<rparr>) = flat_machine W s"
  by (simp add: flat_machine_def flat_cpu)

lemma set_gpr_fields [simp]:
  "cr0 (set_gpr i v c) = cr0 c" "sreg (set_gpr i v c) = sreg c" "eip (set_gpr i v c) = eip c"
  "eflags (set_gpr i v c) = eflags c" "INTR (set_gpr i v c) = INTR c" "idtr (set_gpr i v c) = idtr c"
  "gdtr (set_gpr i v c) = gdtr c" "gpr (set_gpr i v c) = (gpr c)(i := v)"
  by (simp_all add: set_gpr_def)

lemma set_flag_fields [simp]:
  "cr0 (set_flag i b c) = cr0 c" "sreg (set_flag i b c) = sreg c" "eip (set_flag i b c) = eip c"
  "gpr (set_flag i b c) = gpr c" "INTR (set_flag i b c) = INTR c" "idtr (set_flag i b c) = idtr c"
  "gdtr (set_flag i b c) = gdtr c"
  by (simp_all add: set_flag_def)

lemma flat_machine_ops [simp]: "flat_machine W (s\<lparr>ops_decoded := d\<rparr>) = flat_machine W s"
  by (simp add: flat_machine_def)

lemma flat_machine_upd_op [simp]:
  "flat_machine W (upd_op q f s) = flat_machine W s" "flat_ok W (upd_op q f s) a n = flat_ok W s a n"
  by (simp_all add: upd_op_def)

lemma data_type_L32 [simp]: "data_type L32 x = x" "data_type_s L32 x = x"
proof -
  have "bit (signed_take_bit 31 x) n = bit x n" if "n < 32" for n
    using that by (cases "n = 31") (auto simp: bit_signed_take_bit_iff min_def)
  then have "signed_take_bit 31 x = x" by (intro bit_word_eqI) simp
  then show "data_type L32 x = x" "data_type_s L32 x = x" by (simp_all add: data_type_def data_type_s_def)
qed

section \<open>Accesses\<close>

lemma wp_read:
  assumes "flat_machine W s" "flat_ok W s a n" "r < 4"
    and "\<And>m. flat_machine W (s\<lparr>mem := m\<rparr>) \<Longrightarrow> mem_view m = mem_view (mem s) \<Longrightarrow>
      Q (load (unat a) n (mem_view (mem s))) (s\<lparr>mem := m\<rparr>)"
  shows "wp (swaddr_read a n r) Q s"
  by (rule wp_flat_read) (use assms in \<open>auto simp: flat_machine_def\<close>)

lemma wp_write:
  assumes "flat_machine W s" "flat_ok W s a n" "r < 4"
    and "\<And>m. flat_machine W (s\<lparr>mem := m\<rparr>) \<Longrightarrow> mem_view m = store (unat a) n v (mem_view (mem s)) \<Longrightarrow>
      Q () (s\<lparr>mem := m\<rparr>)"
  shows "wp (swaddr_write a n v r) Q s"
  by (rule wp_flat_write) (use assms in \<open>auto simp: flat_machine_def\<close>)

lemma wp_MEM_R:
  assumes "flat_machine W s" "flat_ok W s a (DATA_BYTE w)" "r < 4"
    and "\<And>m. flat_machine W (s\<lparr>mem := m\<rparr>) \<Longrightarrow> mem_view m = mem_view (mem s) \<Longrightarrow>
      Q (load (unat a) (DATA_BYTE w) (mem_view (mem s))) (s\<lparr>mem := m\<rparr>)"
  shows "wp (MEM_R w a r) Q s"
  unfolding MEM_R_def by (rule wp_read) (use assms in auto)

lemma wp_MEM_W:
  assumes "flat_machine W s" "flat_ok W s a (DATA_BYTE w)" "r < 4"
    and "\<And>m. flat_machine W (s\<lparr>mem := m\<rparr>) \<Longrightarrow> mem_view m = store (unat a) (DATA_BYTE w) v (mem_view (mem s)) \<Longrightarrow>
      Q () (s\<lparr>mem := m\<rparr>)"
  shows "wp (MEM_W w a v r) Q s"
  unfolding MEM_W_def by (rule wp_write) (use assms in auto)

lemma wp_fetch:
  assumes "flat_machine W s" "flat_ok W s a n"
    and "\<And>m. flat_machine W (s\<lparr>mem := m\<rparr>) \<Longrightarrow> mem_view m = mem_view (mem s) \<Longrightarrow>
      Q (load (unat a) n (mem_view (mem s))) (s\<lparr>mem := m\<rparr>)"
  shows "wp (instr_fetch a n) Q s"
  unfolding instr_fetch_def by (rule wp_read [OF assms(1,2)]) (use assms(3) in auto)

lemma lnaddr_read_flat: "flat r s \<Longrightarrow> n = 1 \<or> n = 2 \<or> n = 4 \<Longrightarrow> lnaddr_read a n s = swaddr_read a n r s"
  by (simp add: swaddr_read_def seg_translate_flat seqM_def bindM_def run_simps)

lemma wp_lnread:
  assumes "flat_machine W s" "flat_ok W s a n"
    and "\<And>m. flat_machine W (s\<lparr>mem := m\<rparr>) \<Longrightarrow> mem_view m = mem_view (mem s) \<Longrightarrow>
      Q (load (unat a) n (mem_view (mem s))) (s\<lparr>mem := m\<rparr>)"
  shows "wp (lnaddr_read a n) Q s"
proof -
  have "wp (swaddr_read a n 0) Q s" by (rule wp_read [OF assms(1,2)]) (use assms(3) in auto)
  moreover have "lnaddr_read a n s = swaddr_read a n 0 s"
    by (rule lnaddr_read_flat) (use assms(1,2) in \<open>auto simp: flat_machine_def flat_ok_def\<close>)
  ultimately show ?thesis by (simp add: wp_def)
qed

subsection \<open>Registers\<close>

lemma wp_reg [wp_simps]:
  "i < 8 \<Longrightarrow> wp (reg_l i) Q = (\<lambda>s. Q (gpr (cpu s) i) s)"
  "i < 8 \<Longrightarrow> wp (set_reg_l i v) R = (\<lambda>s. R () (s\<lparr>cpu := set_gpr i v (cpu s)\<rparr>))"
  "i < 8 \<Longrightarrow> wp (REG w i) Q = (\<lambda>s. Q (reg_val w i (cpu s)) s)"
  "i < 8 \<Longrightarrow> wp (set_REG w i v) R = (\<lambda>s. R () (s\<lparr>cpu := set_reg_val w i v (cpu s)\<rparr>))"
  by (rule ext, simp add: wp_def run_simps)+

lemma wp_op [wp_simps]:
  "wp (opM q) Q = (\<lambda>s. Q (get_op q s) s)" "wp (set_op q f) R = (\<lambda>s. R () (upd_op q f s))"
  by (rule ext, simp add: wp_def run_simps)+

lemma wp_esp [wp_simps]:
  "wp (esp_sub n) Q = (\<lambda>s. Q () (s\<lparr>cpu := set_gpr R_ESP (gpr (cpu s) R_ESP - of_nat n) (cpu s)\<rparr>))"
  "wp (esp_add n) Q = (\<lambda>s. Q () (s\<lparr>cpu := set_gpr R_ESP (gpr (cpu s) R_ESP + of_nat n) (cpu s)\<rparr>))"
  by (simp_all add: esp_sub_def esp_add_def wp_simps)

lemma wp_eip [wp_simps]:
  "wp (add_eip d) Q = (\<lambda>s. Q () (s\<lparr>cpu := (cpu s)\<lparr>eip := eip (cpu s) + d\<rparr>\<rparr>))"
  "wp (set_eip v) Q = (\<lambda>s. Q () (s\<lparr>cpu := (cpu s)\<lparr>eip := v\<rparr>\<rparr>))"
  by (simp_all add: add_eip_def set_eip_def wp_simps)

lemma reg_val_L32 [simp]: "reg_val L32 i c = gpr c i" "set_reg_val L32 i v c = set_gpr i v c"
  by (simp_all add: reg_val_def set_reg_val_def)

section \<open>Non-local exits\<close>

definition jumps :: "('s, 'a) M \<Rightarrow> ('s \<Rightarrow> bool) \<Rightarrow> 's \<Rightarrow> bool" where
  "jumps m Q s \<longleftrightarrow> (\<exists>t. m s = Jmp t \<and> Q t)"

lemma jumps_bindM: "wp m (\<lambda>x. jumps (f x) Q) s \<Longrightarrow> jumps (bindM m f) Q s"
  by (auto simp: wp_Ret_iff jumps_def)

lemma jumps_seqM: "wp m (\<lambda>_. jumps n Q) s \<Longrightarrow> jumps (seqM m n) Q s"
  unfolding seqM_def by (rule jumps_bindM)

lemma jumps_first: "jumps m Q s \<Longrightarrow> jumps (bindM m f) Q s" "jumps m Q s \<Longrightarrow> jumps (seqM m n) Q s"
  by (auto simp: jumps_def)

lemma jumps_mono: "jumps m Q s \<Longrightarrow> (\<And>t. Q t \<Longrightarrow> R t) \<Longrightarrow> jumps m R s"
  by (auto simp: jumps_def)

lemma jumps_longjmp: "Q s \<Longrightarrow> jumps longjmp Q s"
  by (simp add: jumps_def longjmp_def)

section \<open>Loading a segment register\<close>

definition base_zero :: "SegDesc \<Rightarrow> bool" where
  "base_zero d \<longleftrightarrow> base_15_0 d = 0 \<and> base_23_16 d = 0 \<and> base_31_24 d = 0"

lemma seg_base_zero: "seg_base r c = 0 \<longleftrightarrow> base_zero (sreg_cache (sreg c r))"
proof
  assume z: "seg_base r c = 0"
  let ?d = "sreg_cache (sreg c r)"
  from z have z: "bit (ucast (base_15_0 ?d) OR push_bit 16 (ucast (base_23_16 ?d)) OR push_bit 24 (ucast (base_31_24 ?d)) :: u32) n = False" for n
    by (simp add: seg_base_def Let_def)
  have "\<not> bit (base_15_0 ?d) n" if "n < 16" for n using z [of n] that by (simp add: bit_simps)
  moreover have "\<not> bit (base_23_16 ?d) n" if "n < 8" for n using z [of "16 + n"] that by (simp add: bit_simps)
  moreover have "\<not> bit (base_31_24 ?d) n" if "n < 8" for n using z [of "24 + n"] that by (simp add: bit_simps)
  ultimately show "base_zero ?d" unfolding base_zero_def by (auto intro!: bit_word_eqI)
qed (simp add: seg_base_def base_zero_def Let_def)

lemma flat_machine_cache:
  assumes "flat_machine W s" "base_zero (sreg_cache (sreg (cpu s) r)) \<Longrightarrow> base_zero d"
  shows "flat_machine W (s\<lparr>cpu := (cpu s)\<lparr>sreg := (sreg (cpu s))(r := (sreg (cpu s) r)\<lparr>sreg_cache := d\<rparr>)\<rparr>\<rparr>)"
  using assms by (auto simp: flat_machine_def flat_def seg_base_zero vm_on_def paging_def protect_enable_def)

text \<open>What loading segment register \<open>r\<close> may change.\<close>

definition cache_loaded :: "nat set \<Rightarrow> nat \<Rightarrow> machine \<Rightarrow> machine \<Rightarrow> bool" where
  "cache_loaded W r s t \<longleftrightarrow> flat_machine W t \<and> (\<exists>m d. mem_view m = mem_view (mem s) \<and>
     t = s\<lparr>mem := m, cpu := (cpu s)\<lparr>sreg := (sreg (cpu s))(r := (sreg (cpu s) r)\<lparr>sreg_cache := d\<rparr>)\<rparr>\<rparr>)"

lemma wp_load_desc:
  assumes t: "cache_loaded W r s t" and a: "a = dtr_base (gdtr (cpu s)) + 8 * INDEX (sreg (cpu s) r) + k" "flat_ok W s a n"
    and f: "\<And>d. base_zero d \<Longrightarrow> base_zero (f (load (unat a) n (mem_view (mem s))) d)"
  shows "wp (load_desc r k n f) (\<lambda>_. cache_loaded W r s) t"
proof -
  from t obtain m d where m: "mem_view m = mem_view (mem s)" and ft: "flat_machine W t"
    and te: "t = s\<lparr>mem := m, cpu := (cpu s)\<lparr>sreg := (sreg (cpu s))(r := (sreg (cpu s) r)\<lparr>sreg_cache := d\<rparr>)\<rparr>\<rparr>"
    by (auto simp: cache_loaded_def)
  have a': "a = dtr_base (gdtr (cpu t)) + 8 * INDEX (sreg (cpu t) r) + k" using a(1) te by (simp add: INDEX_def)
  have "wp (lnaddr_read a n) (\<lambda>v. wp (on_cpu (\<lambda>c. c\<lparr>sreg := (sreg c)(r := (sreg c r)\<lparr>sreg_cache := f v (sreg_cache (sreg c r))\<rparr>)\<rparr>))
      (\<lambda>_. cache_loaded W r s)) t"
  proof (rule wp_lnread [OF ft])
    show "flat_ok W t a n" using a(2) te by simp
    fix m' assume f': "flat_machine W (t\<lparr>mem := m'\<rparr>)" and m': "mem_view m' = mem_view (mem t)"
    let ?v = "load (unat a) n (mem_view (mem t))"
    have v: "?v = load (unat a) n (mem_view (mem s))" using te m by simp
    have "flat_machine W ((t\<lparr>mem := m'\<rparr>)\<lparr>cpu := (cpu (t\<lparr>mem := m'\<rparr>))\<lparr>sreg := (sreg (cpu (t\<lparr>mem := m'\<rparr>)))(r :=
        (sreg (cpu (t\<lparr>mem := m'\<rparr>)) r)\<lparr>sreg_cache := f ?v (sreg_cache (sreg (cpu t) r))\<rparr>)\<rparr>\<rparr>)"
      by (rule flat_machine_cache [OF f']) (use f v in simp)
    then show "wp (on_cpu (\<lambda>c. c\<lparr>sreg := (sreg c)(r := (sreg c r)\<lparr>sreg_cache := f ?v (sreg_cache (sreg c r))\<rparr>)\<rparr>))
      (\<lambda>_. cache_loaded W r s) (t\<lparr>mem := m'\<rparr>)"
      using m m' te by (auto simp: wp_simps cache_loaded_def)
  qed
  then show ?thesis unfolding load_desc_def by (simp add: wp_simps a')
qed

lemma wp_load_segment:
  assumes s: "flat_machine W s" and a: "a = dtr_base (gdtr (cpu s)) + 8 * INDEX (sreg (cpu s) r)"
    and ok: "plain W s lo hi" "lo \<le> unat a" "unat a + 8 \<le> hi"
    and zero: "load (unat a + 2) 2 (mem_view (mem s)) = 0" "load (unat a + 4) 1 (mem_view (mem s)) = 0" "load (unat a + 7) 1 (mem_view (mem s)) = 0"
  shows "wp (load_segment r) (\<lambda>_. cache_loaded W r s) s"
proof -
  have hi: "hi \<le> HW_MEM_SIZE" using ok(1) by (simp add: plain_def)
  have u: "unat (a + of_nat k) = unat a + k" if "k < 8" for k using that ok(3) hi by (intro unat_add_nat) simp
  have fo: "flat_ok W s (a + of_nat k) n" if "k + n \<le> 8" "n = 1 \<or> n = 2" for k n
    by (rule plain_ok [OF ok(1)]) (use that u [of k] ok in auto)
  have "cache_loaded W r s s"
    using s by (auto simp: cache_loaded_def intro!: exI [of _ "mem s"] exI [of _ "sreg_cache (sreg (cpu s) r)"])
  then show ?thesis unfolding load_segment_def wp_seqM
    using fo [of 2 2] fo [of 4 1] fo [of 7 1] fo [of 0 2] fo [of 6 1] u [of 2] u [of 4] u [of 7] zero
    by (intro wp_mono [OF wp_load_desc [OF _ arg_cong2 [OF a refl, of "(+)"]]] wp_load_desc [OF _ arg_cong2 [OF a refl, of "(+)"]])
      (auto simp: base_zero_def)
qed

section \<open>Machines for examples\<close>

text \<open>The machine after reset with processor state \<open>c\<close> and memory contents \<open>f\<close>.\<close>

definition machine_with :: "CPU_state \<Rightarrow> bytes \<Rightarrow> machine" where
  "machine_with c f = cold_machine\<lparr>mem := cold_mem\<lparr>dram := cold_dram\<lparr>hw_mem := f\<rparr>\<rparr>, cpu := c\<rparr>"

lemma machine_with_view [simp]: "mem_view (mem (machine_with c f)) = f" "cpu (machine_with c f) = c"
  and machine_with_inv: "cache_inv low_blocks (mem (machine_with c f))"
proof -
  have "rb_coherent (cold_dram\<lparr>hw_mem := f\<rparr>)" by (simp add: rb_coherent_def cold_dram_def)
  then have "cache_inv low_blocks (mem (machine_with c f)) \<and> mem_view (mem (machine_with c f)) = f"
    using all_invalid_inv [of "mem (machine_with c f)" low_blocks] working_set_window [of 0]
    by (simp add: machine_with_def all_invalid_def cold_mem_def)
  then show "mem_view (mem (machine_with c f)) = f" "cache_inv low_blocks (mem (machine_with c f))" by simp_all
qed (simp add: machine_with_def)

lemma machine_with_flat:
  "(\<And>r. base_zero (sreg_cache (sreg c r))) \<Longrightarrow> \<not> paging c \<Longrightarrow> flat_machine low_blocks (machine_with c f)"
  using machine_with_inv by (auto simp: flat_machine_def flat_def vm_on_def seg_base_zero)

lemma machine_with_plain: "0 < lo \<Longrightarrow> hi \<le> 4194304 \<Longrightarrow> plain low_blocks (machine_with c f) lo hi"
  by (auto simp: plain_def machine_with_def)

lemma reset_flat:
  "sreg c = sreg reset_cpu \<Longrightarrow> \<not> paging c \<Longrightarrow> flat_machine low_blocks (machine_with c f)"
  by (rule machine_with_flat) (simp_all add: reset_cpu_def base_zero_def)

end
