(* ===== verification/Branch_Props.thy ===== *)
theory Branch_Props
  imports Flat_Mode Arith_Props Exec
begin

unbundle bit_operations_syntax

text \<open>
  Conditional jumps: a comparison followed by a jump goes where the order of the operands says; the
  word-sized jumps behind an operand-size prefix miss their target by one byte.
\<close>

section \<open>Relative jumps\<close>

lemma jcc_on_flat:
  assumes s: "flat_machine W s" and code: "flat_ok W s (pc + 1) (DATA_BYTE w)" and w: "w \<noteq> W16"
  defines "disp \<equiv> data_type_s w (load (unat (pc + 1)) (DATA_BYTE w) (mem_view (mem s)))"
  shows "wp (jcc_on cond w pc) (\<lambda>len t. len = DATA_BYTE w + 1 \<and> flat_machine W t \<and> mem_view (mem t) = mem_view (mem s) \<and>
    cpu t = (if cond (cpu s) then (cpu s)\<lparr>eip := pc + disp - for_2_bit w\<rparr> else cpu s)) s"
proof -
  have "wp (next_addr w pc) (\<lambda>a t. a = pc + 1 + of_nat (DATA_BYTE w) + disp \<and> flat_machine W t \<and>
      mem_view (mem t) = mem_view (mem s) \<and> cpu t = cpu s) s"
    using w unfolding next_addr_def decode_si_def Let_def
    by (simp add: wp_simps)
      (rule wp_fetch, use s code in \<open>simp_all add: upd_op_def disp_def get_op_def\<close>)
  then show ?thesis unfolding jcc_on_def wp_bindM wp_cpuM wp_seqM wp_whenM
    by (rule wp_mono) (auto simp: wp_simps algebra_simps)
qed

text \<open>
  The ten conditional jumps named after an order, with the relation of the compared operands each one tests. A source
  that does not fit the width, which only the sign-extended byte of \<open>66 83 /7\<close> can be, counts as above every
  destination for the unsigned jumps.
\<close>

definition branches :: "width \<Rightarrow> u32 \<Rightarrow> u32 \<Rightarrow> ((width \<Rightarrow> helper_fun) \<times> bool) list" where
  "branches w d r =
     [(jcc_e, uval w d = uval w r), (jcc_ne, uval w d \<noteq> uval w r),
      (jcc_b, uval w d < uval w r \<or> \<not> in_width w r), (jcc_ae, uval w r \<le> uval w d \<and> in_width w r),
      (jcc_be, uval w d \<le> uval w r \<or> \<not> in_width w r), (jcc_a, uval w r < uval w d \<and> in_width w r),
      (jcc_l, sval w d < sval w r), (jcc_ge, sval w r \<le> sval w d), (jcc_le, sval w d \<le> sval w r), (jcc_g, sval w r < sval w d)]"

lemma branches_decide:
  assumes "in_width w d" "(jcc, taken) \<in> set (branches w d r)"
  shows "\<exists>cond. jcc = jcc_on cond \<and> cond (sub_flags w (data_type w (d - r)) (d < r) d r c) = taken"
proof -
  let ?c = "sub_flags w (data_type w (d - r)) (d < r) d r c"
  note F = sub_flags_any_source [OF assms(1), of r c]
  have b: "uval w r \<le> uval w d \<and> in_width w r \<longleftrightarrow> \<not> (uval w d < uval w r \<or> \<not> in_width w r)"
    "uval w d \<le> uval w r \<or> \<not> in_width w r \<longleftrightarrow> uval w d = uval w r \<or> uval w d < uval w r \<or> \<not> in_width w r"
    "uval w r < uval w d \<and> in_width w r \<longleftrightarrow> \<not> (uval w d < uval w r \<or> \<not> in_width w r) \<and> uval w d \<noteq> uval w r" by linarith+
  have l: "sval w r \<le> sval w d \<longleftrightarrow> \<not> sval w d < sval w r" "sval w d \<le> sval w r \<longleftrightarrow> sval w d = sval w r \<or> sval w d < sval w r"
    "sval w r < sval w d \<longleftrightarrow> \<not> sval w d < sval w r \<and> sval w d \<noteq> sval w r" by linarith+
  from assms(2) have "(jcc, taken) \<in> set [(jcc_e, ZF ?c), (jcc_ne, \<not> ZF ?c), (jcc_b, CF ?c), (jcc_ae, \<not> CF ?c),
      (jcc_be, ZF ?c \<or> CF ?c), (jcc_a, \<not> CF ?c \<and> \<not> ZF ?c), (jcc_l, SF ?c \<noteq> OF ?c), (jcc_ge, SF ?c = OF ?c),
      (jcc_le, ZF ?c \<or> SF ?c \<noteq> OF ?c), (jcc_g, \<not> ZF ?c \<and> SF ?c = OF ?c)]"
    unfolding branches_def b l F(1,3) [symmetric]
    unfolding F(2) [symmetric] F(4) [symmetric] by auto
  then show ?thesis
    unfolding jcc_e_def jcc_ne_def jcc_b_def jcc_ae_def jcc_be_def jcc_a_def jcc_l_def jcc_ge_def jcc_le_def jcc_g_def
    by (simp only: set_simps insert_iff empty_iff prod.inject) (elim disjE conjE FalseE; (intro exI conjI, assumption, simp only: simp_thms))
qed

text \<open>
  C10. A comparison of two operands of any width followed by one of the ten conditional jumps named after an
  order, with an 8- or 32-bit displacement: execution continues behind the jump, plus the sign-extended displacement exactly
  when the unsigned or signed order of the operands is the one the jump is named after. Registers and memory are kept. The
  destination fits the width, as a decoded one always does; a source that does not, which only \<open>66 83 /7\<close> with a
  negative byte has, sends the unsigned jumps the way of a destination below it. Word displacements miss their target and are
  the subject of the last section.
\<close>

theorem compare_and_branch:
  assumes "d = op_val (get_op Dest s)" "r = op_val (get_op Src s)" "in_width w d"
    and "(jcc, taken) \<in> set (branches w d r)" "w' \<noteq> W16"
    and "flat_machine W s" "flat_ok W s (eip (cpu s) + for_2_bit w' + 1) (DATA_BYTE w')"
  shows "wp (seqM (cmp_execute w) (bindM (jcc w' (eip (cpu s) + for_2_bit w')) (\<lambda>len. add_eip (of_nat len + for_2_bit w'))))
    (\<lambda>_ t. eip (cpu t) = eip (cpu s) + for_2_bit w' + 1 + of_nat (DATA_BYTE w') +
       (if taken then data_type_s w' (load (unat (eip (cpu s) + for_2_bit w' + 1)) (DATA_BYTE w') (mem_view (mem s))) else 0) \<and>
       gpr (cpu t) = gpr (cpu s) \<and> mem_view (mem t) = mem_view (mem s)) s"
proof -
  let ?c = "sub_flags w (data_type w (d - r)) (d < r) d r (cpu s)"
  let ?t = "s\<lparr>cpu := ?c\<rparr>"
  have run: "cmp_execute w s = Ret () ?t" using assms(1,2) by (simp add: cmp_execute_def exec_run)
  from branches_decide [OF assms(3,4), of "cpu s"] obtain cond where cond: "jcc = jcc_on cond" "cond ?c = taken" by blast
  have t: "flat_machine W ?t" using assms(6) by (simp add: sub_flags_def Let_def)
  have ok: "flat_ok W ?t (eip (cpu s) + for_2_bit w' + 1) (DATA_BYTE w')" using assms(7) by simp
  show ?thesis unfolding wp_seqM wp_bindM
    by (rule wp_RetI [of "cmp_execute w", OF run]) (rule wp_mono [OF jcc_on_flat [OF t ok assms(5), of cond, folded cond(1)]],
      simp add: wp_simps cond(2) algebra_simps split: if_splits)
qed

lemma compare_and_branch_witness:
  "wp (seqM (cmp_execute B8) (bindM (jcc_l B8 0x100000) (\<lambda>len. add_eip (of_nat len)))) (\<lambda>_ t. eip (cpu t) = 0x100000)
     ((machine_with reset_cpu (\<lambda>_. 0xFE))\<lparr>ops_decoded := (ops_decoded cold_machine)\<lparr>
        op_dest := (op_dest (ops_decoded cold_machine))\<lparr>op_val := 0x80\<rparr>,
        op_src := (op_src (ops_decoded cold_machine))\<lparr>op_val := 1\<rparr>\<rparr>\<rparr>)"
proof -
  let ?m = "machine_with reset_cpu (\<lambda>_. 0xFE)"
  let ?s = "?m\<lparr>ops_decoded := (ops_decoded cold_machine)\<lparr>
        op_dest := (op_dest (ops_decoded cold_machine))\<lparr>op_val := 0x80\<rparr>,
        op_src := (op_src (ops_decoded cold_machine))\<lparr>op_val := 1\<rparr>\<rparr>\<rparr>"
  have f: "flat_machine low_blocks ?s" by (simp, rule reset_flat) (simp_all add: reset_cpu_def paging_def)
  have p: "plain low_blocks ?s 1 0x200000" by (simp, rule machine_with_plain) simp_all
  have fe: "for_2_bit B8 = 0" "eip (cpu ?s) = 0x100000" by (simp_all add: for_2_bit_def reset_cpu_def)
  have ok: "flat_ok low_blocks ?s (eip (cpu ?s) + for_2_bit B8 + 1) (DATA_BYTE B8)" unfolding fe
    by (rule plain_ok [OF p]) simp_all
  have b: "(jcc_l, True) \<in> set (branches B8 0x80 1)"
    by (simp add: branches_def sval_def data_type_s_def)
  have "wp (seqM (cmp_execute B8) (bindM (jcc_l B8 (eip (cpu ?s) + for_2_bit B8)) (\<lambda>len. add_eip (of_nat len + for_2_bit B8))))
      (\<lambda>_ t. eip (cpu t) = 0x100000) ?s"
    by (rule wp_mono [OF compare_and_branch [OF _ _ _ b _ f ok]])
      (simp_all add: get_op_def in_width_def for_2_bit_def reset_cpu_def load_def le32_def data_type_s_def)
  then show ?thesis by (simp only: fe) simp
qed

section \<open>Word-sized displacements\<close>

text \<open>
  \<open>je rel16\<close> behind the operand-size prefix (bytes 66 0f 84 and a word), with ZF set: the i386 continues at
  the low 16 bits of the address behind the five bytes plus the displacement; the emulator continues one byte after that,
  because the prefix byte is added to the length but not subtracted from the target.
\<close>

lemma word_jump_off_by_one:
  assumes flat: "flat_machine W s" "plain W s lo hi" "lo \<le> unat (eip (cpu s))" "unat (eip (cpu s)) + 5 \<le> hi"
    and code: "load (unat (eip (cpu s)) + 2) 1 (mem_view (mem s)) = 0x84" and zf: "ZF (cpu s)"
  shows "wp (bindM (operand_size two_byte_esc (eip (cpu s))) (\<lambda>len. add_eip (of_nat len)))
    (\<lambda>_ t. eip (cpu t) = ((eip (cpu s) + 5 + load (unat (eip (cpu s)) + 3) 2 (mem_view (mem s))) AND 0xffff) + 1) s"
proof -
  let ?e = "eip (cpu s)" and ?m = "mem_view (mem s)"
  have hi: "hi \<le> HW_MEM_SIZE" using flat(2) by (simp add: plain_def)
  have u: "unat (?e + of_nat k) = unat ?e + k" if "k < 5" for k using that flat(4) hi by (intro unat_add_nat) simp
  have ok: "flat_ok W t (?e + of_nat k) n" if "mmio t = mmio s" "k + n \<le> 5" "n = 1 \<or> n = 2" for k n t
    by (rule plain_ok [of W _ lo hi]) (use that u [of k] flat plain_congr [OF that(1)] in auto)
  have table: "two_byte_opcode_table ! unat (0x84 :: u32) = jcc_e_v" by (simp add: two_byte_opcode_table_def)
  let ?s1 = "s\<lparr>ops_decoded := (ops_decoded s)\<lparr>is_operand_size_16 := True\<rparr>\<rparr>"
  let ?Q = "\<lambda>t. eip (cpu t) = ((?e + 5 + load (unat ?e + 3) 2 ?m) AND 0xffff) + 1"
  have "wp (instr_fetch (?e + of_nat 2) 1) (\<lambda>opc. wp (seqM (modM (\<lambda>s. s\<lparr>ops_decoded := (ops_decoded s)\<lparr>opcode := opc OR 0x100\<rparr>\<rparr>))
      ((two_byte_opcode_table ! unat opc) (?e + 2))) (\<lambda>len t. ?Q (t\<lparr>cpu := (cpu t)\<lparr>eip := eip (cpu t) + of_nat len + 2\<rparr>\<rparr>))) ?s1"
  proof (rule wp_fetch [where W = W], goal_cases)
    case (3 m)
    let ?s2 = "s\<lparr>mem := m, ops_decoded := (ops_decoded s)\<lparr>is_operand_size_16 := True, opcode := 0x184\<rparr>\<rparr>"
    have l: "load (unat (?e + of_nat 2)) 1 (mem_view (mem ?s1)) = 0x84" using code u [of 2] by simp
    have v: "mem_view m = ?m" using 3(2) by simp
    have fetch: "wp (instr_fetch (3 + ?e) 2) R ?s2"
      if "\<And>m'. mem_view m' = ?m \<Longrightarrow> R (load (unat ?e + 3) 2 ?m) (?s2\<lparr>mem := m'\<rparr>)" for R
      by (rule wp_fetch [where W = W])
        (use 3(1) ok [of _ 3 2] u [of 3] v that add.commute [of ?e 3] in \<open>simp_all add: flat_machine_def\<close>)
    show ?case unfolding l table
      by (simp add: wp_simps jcc_e_v_def make_helper_v_def jcc_e_def jcc_on_def next_addr_def for_2_bit_def)
        (rule fetch, use zf in \<open>simp add: ac_simps\<close>)
  qed (use flat(1) ok [of _ 2 1] in simp_all)
  then show ?thesis
    by (simp add: operand_size_def two_byte_esc_def set_operand_size_16_def wp_simps algebra_simps)
qed


end
