(* ===== verification/Stack_Props.thy ===== *)
theory Stack_Props
  imports Flat_Mode
begin

unbundle bit_operations_syntax

text \<open>
  The instructions that move control and data through the stack, in flat mode: call and return,
  \<open>pusha\<close> and \<open>popa\<close>, interrupt entry and return.
\<close>

text \<open>One round of \<open>cpu_exec\<close> up to the update of EIP: \<open>cpu.eip += exec(...)\<close>.\<close>

definition advance :: "helper_fun \<Rightarrow> u32 \<Rightarrow> (machine, unit) M" where
  "advance h pc = bindM (h pc) (\<lambda>len. add_eip (of_nat len))"

lemma wp_advance:
  "wp (advance h pc) Q = wp (h pc) (\<lambda>len s. Q () (s\<lparr>cpu := (cpu s)\<lparr>eip := eip (cpu s) + of_nat len\<rparr>\<rparr>))"
  by (simp add: advance_def wp_simps)

section \<open>Call and return\<close>

text \<open>
  A near \<open>call\<close> followed, after any code that brings ESP back and keeps the pushed word, by a near
  \<open>ret\<close>: the call goes to the address behind the instruction plus the displacement, touches only
  ESP and the four bytes below the old ESP, and the return continues behind the call with the
  old ESP.
\<close>

lemma call_return:
  assumes flat: "flat_machine W s"
    and code: "flat_ok W s (pc + 1) 4"
    and stack: "flat_ok W s (gpr (cpu s) R_ESP - 4) 4"
  shows "wp (advance (call_i L32) pc) (\<lambda>_ t.
    let sp = gpr (cpu s) R_ESP - 4; after = eip (cpu s) + 5 in
    flat_machine W t \<and> eip (cpu t) = after + load (unat (pc + 1)) 4 (mem_view (mem s)) \<and>
    gpr (cpu t) = (gpr (cpu s))(R_ESP := sp) \<and>
    mem_view (mem t) = store (unat sp) 4 (after - 1) (mem_view (mem s)) \<and>
    (\<forall>u pc'. flat_machine W u \<and> flat_ok W u sp 4 \<and> gpr (cpu u) R_ESP = sp \<and>
         load (unat sp) 4 (mem_view (mem u)) = load (unat sp) 4 (mem_view (mem t)) \<longrightarrow>
       wp (advance (ret_o L32) pc') (\<lambda>_ v. eip (cpu v) = after \<and>
         gpr (cpu v) = (gpr (cpu u))(R_ESP := gpr (cpu s) R_ESP)) u)) s"
proof -
  have returns: "wp (advance (ret_o L32) pc') (\<lambda>_ v. eip (cpu v) = eip (cpu s) + 5 \<and>
         gpr (cpu v) = (gpr (cpu u))(R_ESP := gpr (cpu s) R_ESP)) u"
    if u: "flat_machine W u" "flat_ok W u (gpr (cpu s) R_ESP - 4) 4" "gpr (cpu u) R_ESP = gpr (cpu s) R_ESP - 4"
      "load (unat (gpr (cpu s) R_ESP - 4)) 4 (mem_view (mem u)) = eip (cpu s) + 4" for u pc'
    by (simp add: wp_advance ret_o_def wp_simps, rule wp_MEM_R [OF u(1)]) (use u in \<open>simp_all add: wp_simps\<close>)
  show ?thesis
    apply (subst wp_advance)
    apply (simp only: call_i_def decode_i_def Let_def wp_simps)
    apply (rule wp_fetch)
    using flat code apply simp_all
    apply (rule wp_write)
    using stack returns apply simp_all
    by (simp add: add.commute [of _ "eip (cpu s)"])
qed


section \<open>The stack as a list\<close>

primrec stack_at :: "nat \<Rightarrow> bytes \<Rightarrow> nat \<Rightarrow> u32 list \<Rightarrow> bool" where
  "stack_at d m p [] \<longleftrightarrow> True"
| "stack_at d m p (v # vs) \<longleftrightarrow> load p d m = v \<and> stack_at d m (p + d) vs"

lemma stack_at_cong:
  "(\<And>a. p \<le> a \<Longrightarrow> a < p + d * length vs \<Longrightarrow> m a = m' a) \<Longrightarrow> stack_at d m p vs = stack_at d m' p vs"
proof (induction vs arbitrary: p)
  case (Cons v vs)
  have "load p d m = load p d m'" by (rule load_cong) (use Cons.prems in simp)
  moreover have "stack_at d m (p + d) vs = stack_at d m' (p + d) vs"
    by (rule Cons.IH) (use Cons.prems in simp)
  ultimately show ?case by simp
qed simp

abbreviation esp :: "machine \<Rightarrow> u32" where "esp s \<equiv> gpr (cpu s) R_ESP"

text \<open>The words \<open>vs\<close>, top first, are on the stack, which may grow down to \<open>lo\<close>.\<close>

definition has_stack :: "nat set \<Rightarrow> nat \<Rightarrow> nat \<Rightarrow> width \<Rightarrow> u32 list \<Rightarrow> machine \<Rightarrow> bool" where
  "has_stack W lo hi w vs s \<longleftrightarrow> flat_machine W s \<and> plain W s lo hi \<and> lo \<le> unat (esp s) \<and>
     unat (esp s) + DATA_BYTE w * length vs \<le> hi \<and> stack_at (DATA_BYTE w) (mem_view (mem s)) (unat (esp s)) vs"

lemma load_store_width: "in_width w v \<Longrightarrow> load a (DATA_BYTE w) (store a (DATA_BYTE w) v m) = v"
proof -
  assume v: "in_width w v"
  have "v AND len_mask (DATA_BYTE w) = data_type w v"
    by (rule bit_word_eqI) (cases w; auto simp: bit_simps bit_len_mask data_type_def)
  moreover have "DATA_BYTE w \<le> 4" by (cases w) simp_all
  ultimately show ?thesis using v by simp
qed

lemma wp_push:
  assumes st: "has_stack W lo hi w vs s" and room: "lo + DATA_BYTE w \<le> unat (esp s)" and v: "in_width w v"
    and cont: "\<And>t. has_stack W lo hi w (v # vs) t \<Longrightarrow> esp t = esp s - of_nat (DATA_BYTE w) \<Longrightarrow>
       cpu t = set_gpr R_ESP (esp t) (cpu s) \<Longrightarrow> mem_view (mem t) = store (unat (esp t)) (DATA_BYTE w) v (mem_view (mem s)) \<Longrightarrow> mmio t = mmio s \<Longrightarrow> Q () t"
  shows "wp (seqM (esp_sub (DATA_BYTE w)) (bindM (reg_l R_ESP) (\<lambda>sp. MEM_W w sp v 2))) Q s"
proof -
  let ?d = "DATA_BYTE w" and ?p = "esp s - of_nat (DATA_BYTE w)"
  let ?s = "s\<lparr>cpu := set_gpr R_ESP ?p (cpu s)\<rparr>"
  from st have h: "flat_machine W s" "plain W s lo hi" "unat (esp s) + ?d * length vs \<le> hi"
    "stack_at ?d (mem_view (mem s)) (unat (esp s)) vs" by (simp_all add: has_stack_def)
  have p: "unat ?p = unat (esp s) - ?d" by (rule unat_sub_nat) (use room in simp)
  have ok: "flat_ok W ?s ?p ?d"
    by (rule plain_ok [of W _ lo hi]) (use h room p in \<open>cases w; simp\<close>)+
  have "wp (MEM_W w ?p v 2) Q ?s"
  proof (rule wp_MEM_W [OF _ ok])
    fix m assume m: "flat_machine W (?s\<lparr>mem := m\<rparr>)" "mem_view m = store (unat ?p) ?d v (mem_view (mem ?s))"
    have "stack_at ?d (mem_view m) (unat (esp s)) vs"
      using h(4) by (rule stack_at_cong [THEN iffD1, rotated]) (use m(2) p room in auto)
    moreover have "load (unat ?p) ?d (mem_view m) = v" using m(2) v by (simp add: load_store_width)
    moreover have "unat ?p + ?d = unat (esp s)" using p room by simp
    ultimately have "has_stack W lo hi w (v # vs) (?s\<lparr>mem := m\<rparr>)"
      using h m(1) p room by (simp add: has_stack_def)
    then show "Q () (?s\<lparr>mem := m\<rparr>)" by (rule cont) (use m(2) in simp_all)
  qed (use h in simp_all)
  then show ?thesis by (simp add: wp_simps)
qed

lemma wp_top:
  assumes st: "has_stack W lo hi w (v # vs) s"
    and cont: "\<And>m. has_stack W lo hi w (v # vs) (s\<lparr>mem := m\<rparr>) \<Longrightarrow> mem_view m = mem_view (mem s) \<Longrightarrow> Q v (s\<lparr>mem := m\<rparr>)"
  shows "wp (MEM_R w (esp s) 2) Q s"
proof (rule wp_MEM_R)
  from st show f: "flat_machine W s" by (simp add: has_stack_def)
  show "flat_ok W s (esp s) (DATA_BYTE w)"
    by (rule plain_ok [of W _ lo hi]) (use st in \<open>cases w; simp add: has_stack_def\<close>)+
  fix m assume m: "flat_machine W (s\<lparr>mem := m\<rparr>)" "mem_view m = mem_view (mem s)"
  then have "has_stack W lo hi w (v # vs) (s\<lparr>mem := m\<rparr>)" using st by (simp add: has_stack_def)
  from cont [OF this m(2)] st show "Q (load (unat (esp s)) (DATA_BYTE w) (mem_view (mem s))) (s\<lparr>mem := m\<rparr>)"
    by (simp add: has_stack_def)
qed simp

lemma has_stack_drop:
  assumes "has_stack W lo hi w (v # vs) s"
    and "flat_machine W t" "mmio t = mmio s" "mem_view (mem t) = mem_view (mem s)" "esp t = esp s + of_nat (DATA_BYTE w)"
  shows "has_stack W lo hi w vs t"
proof -
  from assms(1) have "unat (esp s) + DATA_BYTE w \<le> hi" "hi \<le> HW_MEM_SIZE" by (simp_all add: has_stack_def plain_def)
  then have "unat (esp t) = unat (esp s) + DATA_BYTE w" unfolding assms(5) by (intro unat_add_nat) simp
  with assms plain_congr [OF assms(3)] show ?thesis by (simp add: has_stack_def)
qed

section \<open>Saving and restoring the registers\<close>

lemma reg_val_set_esp [simp]: "i < 8 \<Longrightarrow> i \<noteq> R_ESP \<Longrightarrow> w \<noteq> B8 \<Longrightarrow> reg_val w i (set_gpr R_ESP v c) = reg_val w i c"
  by (cases w) (simp_all add: reg_val_def gpr_w_def)

lemma gpr_set_reg_val: "w \<noteq> B8 \<Longrightarrow> i \<noteq> j \<Longrightarrow> gpr (set_reg_val w i v c) j = gpr c j"
  by (cases w) (simp_all add: set_reg_val_def set_gpr_w_def)

lemma set_gpr_self [simp]: "set_gpr i (gpr c i) c = c"
  by (simp add: set_gpr_def)

lemma wp_push_regs:
  assumes "has_stack W lo hi w vs s" "lo + DATA_BYTE w * length is \<le> unat (esp s)" "\<forall>i\<in>set is. i < 8 \<and> i \<noteq> R_ESP" "w \<noteq> B8"
  shows "wp (forM is (\<lambda>i. seqM (esp_sub (DATA_BYTE w)) (bindM (reg_l R_ESP) (\<lambda>sp. bindM (REG w i) (\<lambda>v. MEM_W w sp v 2)))))
    (\<lambda>_ t. has_stack W lo hi w (rev (map (\<lambda>i. reg_val w i (cpu s)) is) @ vs) t \<and>
       unat (esp t) = unat (esp s) - DATA_BYTE w * length is \<and> (\<exists>p. cpu t = set_gpr R_ESP p (cpu s)) \<and>
       (\<forall>a. a < unat (esp t) \<or> unat (esp s) \<le> a \<longrightarrow> mem_view (mem t) a = mem_view (mem s) a)) s"
  using assms(1-3)
proof (induction "is" arbitrary: s vs)
  case Nil
  then show ?case by (auto simp: wp_simps intro!: exI [of _ "esp s"])
next
  case (Cons i "is")
  let ?d = "DATA_BYTE w" and ?push = "\<lambda>i. seqM (esp_sub (DATA_BYTE w)) (bindM (reg_l R_ESP) (\<lambda>sp. bindM (REG w i) (\<lambda>v. MEM_W w sp v 2)))"
  have i: "i < 8" "i \<noteq> R_ESP" using Cons.prems(3) by auto
  have push: "wp (?push i) Q s = wp (seqM (esp_sub ?d) (bindM (reg_l R_ESP) (\<lambda>sp. MEM_W w sp (reg_val w i (cpu s)) 2))) Q s" for Q
    using i assms(4) by (simp add: wp_simps)
  show ?case unfolding forM.simps wp_seqM [of "?push i"] push
  proof (rule wp_push [OF Cons.prems(1)])
    fix t assume t: "has_stack W lo hi w (reg_val w i (cpu s) # vs) t" "esp t = esp s - of_nat ?d"
      "cpu t = set_gpr R_ESP (esp t) (cpu s)" "mem_view (mem t) = store (unat (esp t)) ?d (reg_val w i (cpu s)) (mem_view (mem s))"
    have ut: "unat (esp t) = unat (esp s) - ?d" unfolding t(2) by (rule unat_sub_nat) (use Cons.prems(2) in simp)
    have regs: "map (\<lambda>i. reg_val w i (cpu t)) is = map (\<lambda>i. reg_val w i (cpu s)) is"
    proof -
      have "map (\<lambda>i. reg_val w i c) is = map (\<lambda>i. reg_val w i (cpu s)) is" if "c = set_gpr R_ESP p (cpu s)" for c p
        using that Cons.prems(3) assms(4) by simp
      then show ?thesis using t(3) .
    qed
    from Cons.IH [OF t(1)] Cons.prems(2,3) ut
    have "wp (forM is ?push) (\<lambda>_ u. has_stack W lo hi w (rev (map (\<lambda>i. reg_val w i (cpu t)) is) @ reg_val w i (cpu s) # vs) u \<and>
       unat (esp u) = unat (esp t) - ?d * length is \<and> (\<exists>p. cpu u = set_gpr R_ESP p (cpu t)) \<and>
       (\<forall>a. a < unat (esp u) \<or> unat (esp t) \<le> a \<longrightarrow> mem_view (mem u) a = mem_view (mem t) a)) t" by simp
    then show "wp (forM is ?push) (\<lambda>_ u. has_stack W lo hi w (rev (map (\<lambda>i. reg_val w i (cpu s)) (i # is)) @ vs) u \<and>
       unat (esp u) = unat (esp s) - ?d * length (i # is) \<and> (\<exists>p. cpu u = set_gpr R_ESP p (cpu s)) \<and>
       (\<forall>a. a < unat (esp u) \<or> unat (esp s) \<le> a \<longrightarrow> mem_view (mem u) a = mem_view (mem s) a)) t"
    proof (rule wp_mono, elim conjE exE, intro conjI)
      fix u :: machine and p assume u: "unat (esp u) = unat (esp t) - ?d * length is"
        "\<forall>a. a < unat (esp u) \<or> unat (esp t) \<le> a \<longrightarrow> mem_view (mem u) a = mem_view (mem t) a"
      have t': "mem_view (mem t) a = mem_view (mem s) a" if "a < unat (esp t) \<or> unat (esp s) \<le> a" for a
        unfolding t(4) by (rule store_other) (use that ut Cons.prems(2) in auto)
      show "\<forall>a. a < unat (esp u) \<or> unat (esp s) \<le> a \<longrightarrow> mem_view (mem u) a = mem_view (mem s) a"
      proof (intro allI impI)
        fix a assume "a < unat (esp u) \<or> unat (esp s) \<le> a"
        then have a: "a < unat (esp t) \<or> unat (esp s) \<le> a" "a < unat (esp u) \<or> unat (esp t) \<le> a" using u(1) ut by linarith+
        show "mem_view (mem u) a = mem_view (mem s) a" using t' [OF a(1)] u(2) [rule_format, OF a(2)] by simp
      qed
    next
      fix u p assume u: "cpu u = set_gpr R_ESP p (cpu t)"
      then have "cpu u = set_gpr R_ESP p (cpu s)" by (subst (asm) t(3)) (simp add: set_gpr_def)
      then show "\<exists>p. cpu u = set_gpr R_ESP p (cpu s)" by blast
    qed (use regs ut in auto)
  qed (use Cons.prems(2) in simp_all)
qed

lemma wp_pop_reg:
  assumes "has_stack W lo hi w (v # vs) s" "i < 8" "i \<noteq> R_ESP" "w \<noteq> B8"
  shows "wp (pop_reg w i) (\<lambda>_ t. has_stack W lo hi w vs t \<and> mem_view (mem t) = mem_view (mem s) \<and>
      esp t = esp s + of_nat (DATA_BYTE w) \<and> reg_val w i (cpu t) = data_type w v \<and>
      (\<forall>j<8. j \<noteq> R_ESP \<and> j \<noteq> i \<longrightarrow> reg_val w j (cpu t) = reg_val w j (cpu s))) s"
  unfolding pop_reg_def wp_bindM wp_seqM wp_reg(1) [of R_ESP, simplified]
proof (rule wp_top [OF assms(1)])
  fix m assume m: "has_stack W lo hi w (v # vs) (s\<lparr>mem := m\<rparr>)" "mem_view m = mem_view (mem s)"
  let ?c = "set_reg_val w i v (cpu s)"
  let ?t = "s\<lparr>mem := m, cpu := set_gpr R_ESP (gpr ?c R_ESP + of_nat (DATA_BYTE w)) ?c\<rparr>"
  have e: "esp ?t = esp s + of_nat (DATA_BYTE w)" using assms(3,4) by (simp add: gpr_set_reg_val)
  have "flat_machine W ?t" using m(1) by (simp add: has_stack_def)
  then have "has_stack W lo hi w vs ?t" by (intro has_stack_drop [OF m(1)]) (use e in simp_all)
  with e m(2) assms show "wp (set_REG w i v) (\<lambda>_. wp (esp_add (DATA_BYTE w)) (\<lambda>_ t. has_stack W lo hi w vs t \<and> mem_view (mem t) = mem_view (mem s) \<and>
      esp t = esp s + of_nat (DATA_BYTE w) \<and> reg_val w i (cpu t) = data_type w v \<and>
      (\<forall>j<8. j \<noteq> R_ESP \<and> j \<noteq> i \<longrightarrow> reg_val w j (cpu t) = reg_val w j (cpu s)))) (s\<lparr>mem := m\<rparr>)"
    by (simp add: wp_simps)
qed

lemma wp_pop_regs:
  assumes "has_stack W lo hi w (map f is @ vs) s" "\<forall>i\<in>set is. i < 8 \<and> i \<noteq> R_ESP" "distinct is" "w \<noteq> B8"
  shows "wp (forM is (pop_reg w)) (\<lambda>_ t. has_stack W lo hi w vs t \<and> mem_view (mem t) = mem_view (mem s) \<and>
      esp t = esp s + of_nat (DATA_BYTE w * length is) \<and> (\<forall>i\<in>set is. reg_val w i (cpu t) = data_type w (f i)) \<and>
      (\<forall>i<8. i \<noteq> R_ESP \<and> i \<notin> set is \<longrightarrow> reg_val w i (cpu t) = reg_val w i (cpu s))) s"
  using assms(1-3)
proof (induction "is" arbitrary: s)
  case Nil
  then show ?case by (simp add: wp_simps)
next
  case (Cons i "is")
  have i: "i < 8" "i \<noteq> R_ESP" "i \<notin> set is" and d: "distinct is" using Cons.prems(2,3) by auto
  have top: "has_stack W lo hi w (f i # map f is @ vs) s" using Cons.prems(1) by simp
  show ?case unfolding forM.simps wp_seqM
  proof (rule wp_mono [OF wp_pop_reg [OF top i(1,2) assms(4)]], elim conjE)
    fix t assume t: "has_stack W lo hi w (map f is @ vs) t" "mem_view (mem t) = mem_view (mem s)"
      "esp t = esp s + of_nat (DATA_BYTE w)" "reg_val w i (cpu t) = data_type w (f i)"
      "\<forall>j<8. j \<noteq> R_ESP \<and> j \<noteq> i \<longrightarrow> reg_val w j (cpu t) = reg_val w j (cpu s)"
    have "\<forall>i\<in>set is. i < 8 \<and> i \<noteq> R_ESP" using Cons.prems(2) by simp
    from Cons.IH [OF t(1) this d]
    show "wp (forM is (pop_reg w)) (\<lambda>_ u. has_stack W lo hi w vs u \<and> mem_view (mem u) = mem_view (mem s) \<and>
      esp u = esp s + of_nat (DATA_BYTE w * length (i # is)) \<and> (\<forall>i\<in>set (i # is). reg_val w i (cpu u) = data_type w (f i)) \<and>
      (\<forall>j<8. j \<noteq> R_ESP \<and> j \<notin> set (i # is) \<longrightarrow> reg_val w j (cpu u) = reg_val w j (cpu s))) t"
      by (rule wp_mono) (use t i in \<open>auto simp: algebra_simps\<close>)
  qed
qed

lemma pusha_stack:
  assumes w: "w \<noteq> B8" and flat: "flat_machine W s" "plain W s lo hi"
    and room: "lo + 8 * DATA_BYTE w \<le> unat (esp s)" "unat (esp s) \<le> hi"
  shows "wp (pusha w pc) (\<lambda>len t. len = 1 \<and>
      has_stack W lo hi w (map (\<lambda>i. reg_val w i (cpu s)) [7, 6, 5] @ data_type w (esp s) # map (\<lambda>i. reg_val w i (cpu s)) [3, 2, 1, 0]) t \<and>
      unat (esp t) = unat (esp s) - 8 * DATA_BYTE w \<and> (\<exists>p. cpu t = set_gpr R_ESP p (cpu s)) \<and>
      (\<forall>a. a < unat (esp t) \<or> unat (esp s) \<le> a \<longrightarrow> mem_view (mem t) a = mem_view (mem s) a)) s"
proof -
  let ?d = "DATA_BYTE w" and ?v = "\<lambda>i. reg_val w i (cpu s)"
  let ?push = "\<lambda>i. seqM (esp_sub ?d) (bindM (reg_l R_ESP) (\<lambda>sp. bindM (REG w i) (\<lambda>v. MEM_W w sp v 2)))"
  let ?Q = "\<lambda>t. has_stack W lo hi w (map ?v [7, 6, 5] @ data_type w (esp s) # map ?v [3, 2, 1, 0]) t \<and>
      unat (esp t) = unat (esp s) - 8 * ?d \<and> (\<exists>p. cpu t = set_gpr R_ESP p (cpu s)) \<and>
      (\<forall>a. a < unat (esp t) \<or> unat (esp s) \<le> a \<longrightarrow> mem_view (mem t) a = mem_view (mem s) a)"
  have regs: "map (\<lambda>i. reg_val w i c) xs = map ?v xs" if "c = set_gpr R_ESP p (cpu s)" "set xs \<subseteq> {5, 6, 7}" for c p xs
    using that w by auto
  have st: "has_stack W lo hi w [] s" using flat room by (simp add: has_stack_def)
  have "wp (forM [0, 1, 2, 3] ?push) (\<lambda>_. wp (push_word w (data_type w (esp s))) (\<lambda>_. wp (forM [5, 6, 7] ?push) (\<lambda>_. ?Q))) s"
  proof (rule wp_mono [OF wp_push_regs [OF st]], goal_cases)
    case (4 x t)
    then obtain p where p: "cpu t = set_gpr R_ESP p (cpu s)" by blast
    from 4 have t: "has_stack W lo hi w (map ?v [3, 2, 1, 0]) t" "unat (esp t) = unat (esp s) - 4 * ?d"
      "\<forall>a. a < unat (esp t) \<or> unat (esp s) \<le> a \<longrightarrow> mem_view (mem t) a = mem_view (mem s) a"
      by (simp_all add: mult.commute)
    show ?case unfolding push_word_def
    proof (rule wp_push [OF t(1)])
      fix u assume u: "has_stack W lo hi w (data_type w (esp s) # map ?v [3, 2, 1, 0]) u" "esp u = esp t - of_nat ?d"
        "cpu u = set_gpr R_ESP (esp u) (cpu t)" "mem_view (mem u) = store (unat (esp u)) ?d (data_type w (esp s)) (mem_view (mem t))"
      have ue: "unat (esp u) = unat (esp t) - ?d" unfolding u(2) by (rule unat_sub_nat) (use room t(2) in simp)
      have uc: "cpu u = set_gpr R_ESP (esp u) (cpu s)" by (subst u(3)) (simp add: p set_gpr_def)
      show "wp (forM [5, 6, 7] ?push) (\<lambda>_. ?Q) u"
      proof (rule wp_mono [OF wp_push_regs [OF u(1)]], goal_cases)
        case (4 y v)
        then obtain p' where p': "cpu v = set_gpr R_ESP p' (cpu u)" by blast
        from 4 have v: "has_stack W lo hi w (map (\<lambda>i. reg_val w i (cpu u)) [7, 6, 5] @ data_type w (esp s) # map ?v [3, 2, 1, 0]) v"
          "unat (esp v) = unat (esp u) - 3 * ?d"
          "\<forall>a. a < unat (esp v) \<or> unat (esp u) \<le> a \<longrightarrow> mem_view (mem v) a = mem_view (mem u) a"
          by (simp_all add: mult.commute)
        have "mem_view (mem v) a = mem_view (mem s) a" if "a < unat (esp v) \<or> unat (esp s) \<le> a" for a
        proof -
          have a: "a < unat (esp u) \<or> unat (esp u) + ?d \<le> a" "a < unat (esp t) \<or> unat (esp s) \<le> a"
            "a < unat (esp v) \<or> unat (esp u) \<le> a" using that v(2) ue t(2) room by linarith+
          show ?thesis using v(3) [rule_format, OF a(3)] t(3) [rule_format, OF a(2)] store_other [OF a(1)] u(4) by simp
        qed
        moreover have "cpu v = set_gpr R_ESP p' (cpu s)" using p' by (subst (asm) uc) (simp add: set_gpr_def)
        ultimately show ?case using v(1,2) ue t(2) regs [OF uc, of "[7, 6, 5]"] by auto
      qed (use room t(2) ue w in auto)
    qed (use room t(2) in simp_all)
  qed (use room w in auto)
  then show ?thesis unfolding pusha_def by (simp add: wp_simps Let_def)
qed

lemma popa_stack:
  assumes w: "w \<noteq> B8" and st: "has_stack W lo hi w (map f [7, 6, 5] @ x # map f [3, 2, 1, 0]) u"
  shows "wp (popa w pc) (\<lambda>len v. len = 1 \<and> esp v = esp u + of_nat (8 * DATA_BYTE w) \<and> mem_view (mem v) = mem_view (mem u) \<and>
      (\<forall>i<8. i \<noteq> R_ESP \<longrightarrow> reg_val w i (cpu v) = data_type w (f i))) u"
proof -
  have idx: "i = 0 \<or> i = 1 \<or> i = 2 \<or> i = 3 \<or> i = 5 \<or> i = 6 \<or> i = 7" if "i < 8" "i \<noteq> R_ESP" for i :: nat using that by arith
  show ?thesis unfolding popa_def wp_seqM
  proof (rule wp_mono [OF wp_pop_regs [OF st]], goal_cases)
    case (4 x' t)
    let ?t = "t\<lparr>cpu := set_gpr R_ESP (esp t + of_nat (DATA_BYTE w)) (cpu t)\<rparr>"
    from 4 have t: "has_stack W lo hi w (x # map f [3, 2, 1, 0]) t" "mem_view (mem t) = mem_view (mem u)"
      "esp t = esp u + of_nat (3 * DATA_BYTE w)" "\<forall>i\<in>{5, 6, 7}. reg_val w i (cpu t) = data_type w (f i)" by (simp_all add: mult.commute)
    have "flat_machine W t" using t(1) by (simp add: has_stack_def)
    then have "has_stack W lo hi w (map f [3, 2, 1, 0]) ?t" by (intro has_stack_drop [OF t(1)]) simp_all
    then have t': "has_stack W lo hi w (map f [3, 2, 1, 0] @ []) ?t" by simp
    show ?case unfolding wp_esp
    proof (rule wp_mono [OF wp_pop_regs [OF t']], goal_cases)
      case (4 y v)
      then have v: "mem_view (mem v) = mem_view (mem t)" "esp v = esp t + of_nat (5 * DATA_BYTE w)"
        "\<forall>i\<in>{0, 1, 2, 3}. reg_val w i (cpu v) = data_type w (f i)"
        "\<forall>i<8. i \<noteq> R_ESP \<and> i \<notin> {0, 1, 2, 3} \<longrightarrow> reg_val w i (cpu v) = reg_val w i (cpu ?t)"
        by (simp_all add: algebra_simps)
      have "reg_val w i (cpu v) = data_type w (f i)" if i: "i < 8" "i \<noteq> R_ESP" for i
      proof (cases "i \<in> {0, 1, 2, 3}")
        case False
        with v(4) i have "reg_val w i (cpu v) = reg_val w i (cpu t)" using w by simp
        with t(4) idx [OF i] False show ?thesis by auto
      qed (use v(3) in blast)
      with t(2,3) v(1,2) show ?case by (simp add: wp_simps algebra_simps)
    qed (use w in simp_all)
  qed (use w in simp_all)
qed

text \<open>
  \<open>pusha\<close> and \<open>popa\<close> at word and double-word width, with room for eight items above \<open>lo\<close>: \<open>pusha\<close>
  moves ESP down by eight items, changes no other register and no byte outside the eight items, and
  \<open>popa\<close>, after any code that brings ESP back and keeps those items, restores every register of that
  width and the old ESP without writing memory.
\<close>

lemma pusha_popa:
  assumes "w \<noteq> B8" "flat_machine W s" "plain W s lo hi"
    and "lo + 8 * DATA_BYTE w \<le> unat (gpr (cpu s) R_ESP)" "unat (gpr (cpu s) R_ESP) \<le> hi"
  shows "wp (pusha w pc) (\<lambda>len t. len = 1 \<and> flat_machine W t \<and> plain W t lo hi \<and>
      unat (gpr (cpu t) R_ESP) = unat (gpr (cpu s) R_ESP) - 8 * DATA_BYTE w \<and>
      (\<forall>i. i \<noteq> R_ESP \<longrightarrow> gpr (cpu t) i = gpr (cpu s) i) \<and>
      (\<forall>a. a < unat (gpr (cpu t) R_ESP) \<or> unat (gpr (cpu s) R_ESP) \<le> a \<longrightarrow> mem_view (mem t) a = mem_view (mem s) a) \<and>
      (\<forall>u pc'. flat_machine W u \<and> plain W u lo hi \<and> gpr (cpu u) R_ESP = gpr (cpu t) R_ESP \<and>
          (\<forall>a. unat (gpr (cpu t) R_ESP) \<le> a \<and> a < unat (gpr (cpu s) R_ESP) \<longrightarrow> mem_view (mem u) a = mem_view (mem t) a) \<longrightarrow>
        wp (popa w pc') (\<lambda>len v. len = 1 \<and> gpr (cpu v) R_ESP = gpr (cpu s) R_ESP \<and> mem_view (mem v) = mem_view (mem u) \<and>
          (\<forall>i<8. i \<noteq> R_ESP \<longrightarrow> reg_val w i (cpu v) = reg_val w i (cpu s))) u)) s"
proof (rule wp_mono [OF pusha_stack [OF assms]], elim conjE exE, intro conjI allI impI)
  let ?v = "\<lambda>i. reg_val w i (cpu s)"
  let ?vs = "map ?v [7, 6, 5] @ data_type w (esp s) # map ?v [3, 2, 1, 0]"
  fix len t u pc' p
  assume t: "has_stack W lo hi w ?vs t" "unat (esp t) = unat (esp s) - 8 * DATA_BYTE w"
    and u: "flat_machine W u \<and> plain W u lo hi \<and> esp u = esp t \<and>
      (\<forall>a. unat (esp t) \<le> a \<and> a < unat (esp s) \<longrightarrow> mem_view (mem u) a = mem_view (mem t) a)"
  have top: "unat (esp t) + 8 * DATA_BYTE w = unat (esp s)" using t(2) assms(4) by simp
  have "stack_at (DATA_BYTE w) (mem_view (mem u)) (unat (esp t)) ?vs = stack_at (DATA_BYTE w) (mem_view (mem t)) (unat (esp t)) ?vs"
    by (rule stack_at_cong) (use u top in simp)
  then have "has_stack W lo hi w ?vs u" using t(1) u by (simp add: has_stack_def)
  from popa_stack [OF assms(1) this]
  show "wp (popa w pc') (\<lambda>len v. len = 1 \<and> esp v = esp s \<and> mem_view (mem v) = mem_view (mem u) \<and>
          (\<forall>i<8. i \<noteq> R_ESP \<longrightarrow> reg_val w i (cpu v) = reg_val w i (cpu s))) u"
  proof (rule wp_mono, goal_cases)
    case (1 len v)
    have "unat (esp t + of_nat (8 * DATA_BYTE w)) = unat (esp s)"
      using top unsigned_less [of "esp s", where 'a = nat] by (subst unat_add_nat) simp_all
    then have "esp t + of_nat (8 * DATA_BYTE w) = esp s" by (simp add: word_unat_eq_iff)
    with 1 u show ?case by simp
  qed
qed (auto simp: has_stack_def)


section \<open>Interrupts\<close>

lemma wp_push4:
  assumes "has_stack W lo hi L32 vs s" "lo + 4 \<le> unat (esp s)"
    and "\<And>t. has_stack W lo hi L32 (v # vs) t \<Longrightarrow> cpu t = set_gpr R_ESP (esp s - 4) (cpu s) \<Longrightarrow>
       mem_view (mem t) = store (unat (esp s) - 4) 4 v (mem_view (mem s)) \<Longrightarrow> mmio t = mmio s \<Longrightarrow> Q () t"
  shows "wp (push4 v) Q s"
proof -
  have u: "unat (esp s - 4) = unat (esp s) - 4" using unat_sub_nat [of 4 "esp s"] assms(2) by simp
  have "wp (seqM (esp_sub (DATA_BYTE L32)) (bindM (reg_l R_ESP) (\<lambda>sp. MEM_W L32 sp v 2))) Q s"
    using assms by (intro wp_push [OF assms(1)]) (simp_all add: u)
  then show ?thesis by (simp add: push4_def MEM_W_def)
qed

text \<open>The three words an interrupt leaves on the stack, and the state around them.\<close>

definition frame_pushed :: "nat set \<Rightarrow> nat \<Rightarrow> nat \<Rightarrow> machine \<Rightarrow> machine \<Rightarrow> bool" where
  "frame_pushed W lo hi s t \<longleftrightarrow>
     has_stack W lo hi L32 [eip (cpu s), ucast (selector (sreg (cpu s) 1)), eflags (cpu s)] t \<and>
     cpu t = set_gpr R_ESP (esp s - 12) (cpu s) \<and> mmio t = mmio s \<and>
     (\<forall>a. a < unat (esp s) - 12 \<or> unat (esp s) \<le> a \<longrightarrow> mem_view (mem t) a = mem_view (mem s) a)"

lemma wp_push_frame:
  assumes "flat_machine W s" "plain W s lo hi" "lo + 12 \<le> unat (esp s)" "unat (esp s) \<le> hi"
  shows "wp (bindM (cpuM eflags) push4) (\<lambda>_. wp (bindM (cpuM (\<lambda>c. ucast (selector (sreg c 1)))) push4)
     (\<lambda>_. wp (bindM (cpuM eip) push4) (\<lambda>_. frame_pushed W lo hi s))) s"
proof -
  have st: "has_stack W lo hi L32 [] s" using assms by (simp add: has_stack_def)
  have e: "unat (esp s - 4) = unat (esp s) - 4" "unat (esp s - 8) = unat (esp s) - 8"
    using unat_sub_nat [of 4 "esp s"] unat_sub_nat [of 8 "esp s"] assms(3) by simp_all
  show ?thesis unfolding wp_bindM wp_cpuM
  proof (rule wp_push4 [OF st], goal_cases)
    case (2 t)
    show ?case
    proof (rule wp_push4 [OF 2(1)], goal_cases)
      case (2 u)
      show ?case
      proof (rule wp_push4 [OF 2(1)], goal_cases)
        case (2 v)
        note t = \<open>cpu t = _\<close> \<open>mem_view (mem t) = _\<close> \<open>mmio t = _\<close> and u = \<open>cpu u = _\<close> \<open>mem_view (mem u) = _\<close> \<open>mmio u = _\<close>
          and v = \<open>cpu v = _\<close> \<open>mem_view (mem v) = _\<close> \<open>mmio v = _\<close>
        have "mem_view (mem v) a = mem_view (mem s) a" if "a < unat (esp s) - 12 \<or> unat (esp s) \<le> a" for a
          using that e assms(3) by (auto simp: v(2) u(2) t(2) t(1) u(1) store_def)
        then show ?case using 2(1) t u v by (simp add: frame_pushed_def set_gpr_def)
      qed (use assms(3) e \<open>cpu t = _\<close> \<open>cpu u = _\<close> in simp_all)
    qed (use assms(3) e \<open>cpu t = _\<close> in simp_all)
  qed (use assms(3) in simp_all)
qed

lemma take_bit_load: "take_bit 16 (load a 2 m) = load a 2 m"
proof -
  have "take_bit 16 (load a 2 m) = load a 2 m AND len_mask 2"
    by (rule bit_word_eqI) (auto simp: bit_simps bit_len_mask)
  also have "\<dots> = load a 2 m" by (rule masked_read) (simp_all add: byte_at_load)
  finally show ?thesis .
qed

lemma wp_lntable:
  assumes "flat_machine W s" "plain W s tlo thi" "tlo \<le> unat a" "unat a + 8 \<le> thi" "k + n \<le> 8" "n = 1 \<or> n = 2"
    and "b = a + of_nat k"
    and "\<And>m. flat_machine W (s\<lparr>mem := m\<rparr>) \<Longrightarrow> mem_view m = mem_view (mem s) \<Longrightarrow>
       Q (load (unat a + k) n (mem_view (mem s))) (s\<lparr>mem := m\<rparr>)"
  shows "wp (lnaddr_read b n) Q s"
proof -
  have hi: "thi \<le> HW_MEM_SIZE" using assms(2) by (simp add: plain_def)
  have u: "unat b = unat a + k" unfolding assms(7) using assms(4-6) hi by (intro unat_add_nat) auto
  show ?thesis
    by (rule wp_lnread [OF assms(1) plain_ok [OF assms(2)]]) (use assms(3-6,8) u in auto)
qed

text \<open>The last part of \<open>raise_intr\<close>: EIP from the two halves of the offset in the gate.\<close>

lemma vector_jumps:
  assumes v: "flat_machine W v" "protect_enable (cpu v)" and tab: "plain W v tlo thi"
    and gate: "tlo \<le> unat gate" "unat gate + 8 \<le> thi"
    and e: "e = push_bit 16 (load (unat gate + 6) 2 (mem_view (mem v))) OR load (unat gate) 2 (mem_view (mem v))"
    and cont: "\<And>m. flat_machine W (v\<lparr>mem := m, cpu := (cpu v)\<lparr>eip := e\<rparr>\<rparr>) \<Longrightarrow> mem_view m = mem_view (mem v) \<Longrightarrow>
      Q (v\<lparr>mem := m, cpu := (cpu v)\<lparr>eip := e\<rparr>\<rparr>)"
  shows "jumps (bindM (cpuM (seg_base 1)) (\<lambda>base_addr.
     bindM (lnaddr_read gate 2) (\<lambda>offset1.
     bindM (lnaddr_read (gate + 6) 2) (\<lambda>offset2.
     seqM (set_eip (base_addr + (push_bit 16 (take_bit 16 offset2) OR take_bit 16 offset1))) longjmp)))) Q v"
proof -
  have "seg_base 1 (cpu v) = 0" using v by (auto simp: flat_machine_def flat_def)
  then have sb: "cpuM (seg_base 1) v = Ret 0 v" by (simp add: run_simps)
  have "jumps (bindM (lnaddr_read gate 2) (\<lambda>offset1. bindM (lnaddr_read (gate + 6) 2) (\<lambda>offset2.
     seqM (set_eip (0 + (push_bit 16 (take_bit 16 offset2) OR take_bit 16 offset1))) longjmp))) Q v"
  proof (rule jumps_bindM, rule wp_lntable [OF v(1) tab gate, where k = 0], goal_cases)
    case m1: (4 m1)
    have p1: "plain W (v\<lparr>mem := m1\<rparr>) tlo thi" using tab by simp
    show ?case
    proof (rule jumps_bindM, rule wp_lntable [OF m1(1) p1 gate, where k = 6], goal_cases)
      case (4 m2)
      let ?w = "v\<lparr>mem := m2, cpu := (cpu v)\<lparr>eip := e\<rparr>\<rparr>"
      have "flat_machine W ?w" using 4(1) by simp
      then have "Q ?w" by (rule cont) (use m1(2) 4(2) in simp)
      then have "jumps longjmp Q ?w" by (rule jumps_longjmp)
      then show ?case using m1(2) e by (intro jumps_seqM) (simp add: wp_eip take_bit_load)
    qed simp_all
  qed simp_all
  with sb show ?thesis by (simp add: jumps_def)
qed

lemma raise_intr_jumps:
  assumes flat: "flat_machine W s" and pe: "protect_enable (cpu s)"
    and stack: "plain W s lo hi" "lo + 12 \<le> unat (esp s)" "unat (esp s) \<le> hi"
    and tables: "plain W s tlo thi" "thi \<le> lo"
    and gate: "gate = dtr_base (idtr (cpu s)) + 8 * ucast NO" "tlo \<le> unat gate" "unat gate + 8 \<le> thi"
    and sel: "sel = ucast (load (unat gate + 2) 2 (mem_view (mem s)))"
    and desc: "desc = dtr_base (gdtr (cpu s)) + 8 * ucast (bits 3 13 sel)" "tlo \<le> unat desc" "unat desc + 8 \<le> thi"
    and zero: "load (unat desc + 2) 2 (mem_view (mem s)) = 0" "load (unat desc + 4) 1 (mem_view (mem s)) = 0"
      "load (unat desc + 7) 1 (mem_view (mem s)) = 0"
  shows "jumps (raise_intr NO) (\<lambda>t. flat_machine W t \<and>
     has_stack W lo hi L32 [eip (cpu s), ucast (selector (sreg (cpu s) 1)), eflags (cpu s)] t \<and>
     gpr (cpu t) = (gpr (cpu s))(R_ESP := esp s - 12) \<and> eflags (cpu t) = eflags (cpu s) \<and>
     selector (sreg (cpu t) 1) = sel \<and>
     eip (cpu t) = push_bit 16 (load (unat gate + 6) 2 (mem_view (mem s))) OR load (unat gate) 2 (mem_view (mem s)) \<and>
     (\<forall>a. a < unat (esp s) - 12 \<or> unat (esp s) \<le> a \<longrightarrow> mem_view (mem t) a = mem_view (mem s) a)) s"
proof -
  let ?m = "mem_view (mem s)"
  let ?Q = "\<lambda>t. flat_machine W t \<and>
     has_stack W lo hi L32 [eip (cpu s), ucast (selector (sreg (cpu s) 1)), eflags (cpu s)] t \<and>
     gpr (cpu t) = (gpr (cpu s))(R_ESP := esp s - 12) \<and> eflags (cpu t) = eflags (cpu s) \<and>
     selector (sreg (cpu t) 1) = sel \<and>
     eip (cpu t) = push_bit 16 (load (unat gate + 6) 2 ?m) OR load (unat gate) 2 ?m \<and>
     (\<forall>a. a < unat (esp s) - 12 \<or> unat (esp s) \<le> a \<longrightarrow> mem_view (mem t) a = ?m a)"
  let ?rest = "bindM (cpuM (seg_base 1)) (\<lambda>base_addr.
         bindM (lnaddr_read gate 2) (\<lambda>offset1.
         bindM (lnaddr_read (gate + 6) 2) (\<lambda>offset2.
         seqM (set_eip (base_addr + (push_bit 16 (take_bit 16 offset2) OR take_bit 16 offset1))) longjmp)))"
  let ?tail = "bindM (cpuM (\<lambda>c. dtr_base (idtr c) + 8 * ucast NO)) (\<lambda>gate.
     bindM (lnaddr_read (gate + 2) 2) (\<lambda>idt_selector.
     seqM (set_selector 1 (ucast idt_selector))
    (seqM (load_segment 1)
    (bindM (cpuM (seg_base 1)) (\<lambda>base_addr.
     bindM (lnaddr_read gate 2) (\<lambda>offset1.
     bindM (lnaddr_read (gate + 6) 2) (\<lambda>offset2.
     seqM (set_eip (base_addr + (push_bit 16 (take_bit 16 offset2) OR take_bit 16 offset1)))
          longjmp)))))))"
  have "jumps ?tail ?Q t" if t: "frame_pushed W lo hi s t" for t
  proof -
    from t have ct: "cpu t = set_gpr R_ESP (esp s - 12) (cpu s)" and mt: "mmio t = mmio s"
      and st: "has_stack W lo hi L32 [eip (cpu s), ucast (selector (sreg (cpu s) 1)), eflags (cpu s)] t"
      and old: "\<forall>a. a < unat (esp s) - 12 \<or> unat (esp s) \<le> a \<longrightarrow> mem_view (mem t) a = ?m a" by (simp_all add: frame_pushed_def)
    have ft: "flat_machine W t" using st by (simp add: has_stack_def)
    have same: "load a n (mem_view (mem t)) = load a n ?m" if "a + n \<le> thi" for a n
      by (rule load_cong) (use old that tables(2) stack(2) in auto)
    have tab: "plain W t tlo thi" using tables(1) plain_congr [OF mt] by simp
    have st': "has_stack W lo hi L32 [eip (cpu s), ucast (selector (sreg (cpu s) 1)), eflags (cpu s)] u"
      if "flat_machine W u" "mmio u = mmio t" "mem_view (mem u) = mem_view (mem t)" "esp u = esp t" for u
      using st that plain_congr [OF that(2)] by (simp add: has_stack_def)
    have gt: "dtr_base (idtr (cpu t)) + 8 * ucast NO = gate" using ct gate(1) by simp
    show ?thesis
    proof (rule jumps_bindM, simp only: wp_cpuM gt, rule jumps_bindM, rule wp_lntable [OF ft tab gate(2,3), where k = 2])
      fix m assume m: "flat_machine W (t\<lparr>mem := m\<rparr>)" "mem_view m = mem_view (mem t)"
      let ?s = "load (unat gate + 2) 2 (mem_view (mem t))"
      let ?u = "t\<lparr>mem := m, cpu := (cpu t)\<lparr>sreg := (sreg (cpu t))(1 := (sreg (cpu t) 1)\<lparr>selector := sel\<rparr>)\<rparr>\<rparr>"
      have us: "ucast ?s = sel" using sel same gate(3) by simp
      have fu: "flat_machine W ?u"
        using m(1) by (auto simp: flat_machine_def flat_def seg_base_def vm_on_def paging_def protect_enable_def)
      have load: "wp (load_segment 1) (\<lambda>_. cache_loaded W 1 ?u) ?u"
        by (rule wp_load_segment [OF fu _ _ desc(2,3)])
          (use desc tab zero m(2) same ct in \<open>simp_all add: INDEX_def\<close>)
      have rest: "jumps ?rest ?Q v"
        if v: "cache_loaded W 1 ?u v" for v
      proof -
        from v obtain m' d where fv: "flat_machine W v" and m': "mem_view m' = mem_view (mem t)"
          and v: "v = ?u\<lparr>mem := m', cpu := (cpu ?u)\<lparr>sreg := (sreg (cpu ?u))(1 := (sreg (cpu ?u) 1)\<lparr>sreg_cache := d\<rparr>)\<rparr>\<rparr>"
          using m(2) unfolding cache_loaded_def by auto
        have tv: "plain W v tlo thi" using tab v by simp
        have cv: "gpr (cpu v) = (gpr (cpu s))(R_ESP := esp s - 12)" "eflags (cpu v) = eflags (cpu s)"
          "selector (sreg (cpu v) 1) = sel" "mmio v = mmio t" "mem_view (mem v) = mem_view (mem t)"
          "protect_enable (cpu v)" "esp t = esp s - 12"
          using v m' ct pe by (simp_all add: protect_enable_def)
        have e: "push_bit 16 (load (unat gate + 6) 2 ?m) OR load (unat gate) 2 ?m =
            push_bit 16 (load (unat gate + 6) 2 (mem_view (mem v))) OR load (unat gate) 2 (mem_view (mem v))"
          using cv(5) same gate(3) by simp
        show ?thesis
        proof (rule vector_jumps [OF fv cv(6) tv gate(2,3) e])
          fix m2 let ?w = "v\<lparr>mem := m2, cpu := (cpu v)\<lparr>eip := push_bit 16 (load (unat gate + 6) 2 ?m) OR load (unat gate) 2 ?m\<rparr>\<rparr>"
          assume fw: "flat_machine W ?w" and "mem_view m2 = mem_view (mem v)"
          then have mw: "mem_view (mem ?w) = mem_view (mem t)" using cv(5) by simp
          have sw: "has_stack W lo hi L32 [eip (cpu s), ucast (selector (sreg (cpu s) 1)), eflags (cpu s)] ?w"
            by (rule st' [OF fw _ mw]) (use cv in simp_all)
          show "?Q ?w" unfolding mw by (intro conjI fw sw old) (use cv in simp_all)
        qed
      qed
      have "jumps (seqM (load_segment 1) ?rest) ?Q ?u"
        by (rule jumps_seqM, rule wp_mono [OF load], rule rest)
      moreover have "jumps (seqM (set_selector 1 sel) n) Q (t\<lparr>mem := m\<rparr>) = jumps n Q ?u" for n :: "(machine, unit) M" and Q
        by (simp add: jumps_def set_selector_def seqM_def bindM_def)
      ultimately show "jumps (seqM (set_selector 1 (ucast ?s)) (seqM (load_segment 1) ?rest)) ?Q (t\<lparr>mem := m\<rparr>)"
        unfolding us by (simp only:)
    qed simp_all
  qed
  then have "wp (bindM (cpuM eflags) push4) (\<lambda>_. wp (bindM (cpuM (\<lambda>c. ucast (selector (sreg c 1)))) push4)
     (\<lambda>_. wp (bindM (cpuM eip) push4) (\<lambda>_. jumps ?tail ?Q))) s"
    using wp_push_frame [OF flat stack] by (blast intro: wp_mono)
  then show ?thesis unfolding raise_intr_def
    by (intro jumps_seqM) (blast intro: wp_mono jumps_seqM)
qed

text \<open>Reading the top of the stack, changing other registers and dropping the word.\<close>

lemma wp_pop4:
  assumes st: "has_stack W lo hi L32 (v # vs) s"
    and f: "\<And>t. cpu t = cpu s \<Longrightarrow> f v t = Ret () (t\<lparr>cpu := c\<rparr>)"
    and c: "gpr c = gpr (cpu s)" "\<And>t. flat_machine W t \<Longrightarrow> cpu t = cpu s \<Longrightarrow> flat_machine W (t\<lparr>cpu := c\<rparr>)"
    and cont: "\<And>t. has_stack W lo hi L32 vs t \<Longrightarrow> cpu t = set_gpr R_ESP (esp s + 4) c \<Longrightarrow> mem_view (mem t) = mem_view (mem s) \<Longrightarrow> wp n Q t"
  shows "wp (seqM (bindM (reg_l R_ESP) (\<lambda>sp. bindM (swaddr_read sp 4 2) f)) (seqM (esp_add 4) n)) Q s"
proof -
  have "wp (MEM_R L32 (esp s) 2) (\<lambda>v. wp (f v) (\<lambda>_. wp (seqM (esp_add 4) n) Q)) s"
  proof (rule wp_top [OF st])
    fix m assume m: "has_stack W lo hi L32 (v # vs) (s\<lparr>mem := m\<rparr>)" "mem_view m = mem_view (mem s)"
    let ?t = "s\<lparr>mem := m, cpu := set_gpr R_ESP (esp s + 4) c\<rparr>"
    have "flat_machine W (s\<lparr>mem := m, cpu := c\<rparr>)" by (rule c(2)) (use m(1) in \<open>simp_all add: has_stack_def\<close>)
    then have "flat_machine W (s\<lparr>mem := m, cpu := c\<rparr>\<lparr>cpu := set_gpr R_ESP (esp s + 4) c\<rparr>)" by (subst flat_machine_cpu) simp_all
    then have "has_stack W lo hi L32 vs ?t" by (intro has_stack_drop [OF m(1)]) simp_all
    then have "wp n Q ?t" by (rule cont) (use m(2) in simp_all)
    then show "wp (f v) (\<lambda>_. wp (seqM (esp_add 4) n) Q) (s\<lparr>mem := m\<rparr>)"
      using f [of "s\<lparr>mem := m\<rparr>"] c(1) by (simp add: wp_def [of "f v"] wp_simps)
  qed
  then show ?thesis by (simp add: MEM_R_def wp_simps)
qed

lemma iret_stack:
  assumes st: "has_stack W lo hi L32 [e, c, f] u"
  shows "wp (iret pc) (\<lambda>len v. len = 0 \<and> eip (cpu v) = e \<and> selector (sreg (cpu v) 1) = ucast c \<and> eflags (cpu v) = f \<and>
     gpr (cpu v) = (gpr (cpu u))(R_ESP := esp u + 12) \<and> mem_view (mem v) = mem_view (mem u)) u"
  unfolding iret_def
proof (rule wp_pop4 [OF st, where c = "(cpu u)\<lparr>eip := e\<rparr>"], goal_cases)
  case (4 t)
  let ?c = "(cpu t)\<lparr>sreg := (sreg (cpu t))(1 := (sreg (cpu t) 1)\<lparr>selector := ucast c\<rparr>)\<rparr>"
  have sel: "flat_machine W (s\<lparr>cpu := ?c\<rparr>)" if "flat_machine W s" "cpu s = cpu t" for s
    using that by (auto simp: flat_machine_def flat_def seg_base_def vm_on_def paging_def protect_enable_def)
  show ?case
  proof (rule wp_pop4 [OF 4(1), where c = ?c], goal_cases)
    case (4 t')
    show ?case
    proof (rule wp_pop4 [OF 4(1), where c = "(cpu t')\<lparr>eflags := f\<rparr>"], goal_cases)
      case (4 t'')
      then show ?case using \<open>cpu t' = _\<close> \<open>cpu t = _\<close> \<open>mem_view (mem t') = _\<close> \<open>mem_view (mem t) = _\<close>
        by (simp add: wp_simps add.commute)
    qed (simp_all add: run_simps)
  qed (use sel in \<open>simp_all add: set_selector_def run_simps\<close>)
qed (simp_all add: set_eip_def run_simps)

text \<open>
  C9. Interrupt \<open>NO\<close> in flat protected mode, with 12 bytes of stack above \<open>lo\<close> and with its gate and
  the descriptor of the handler's segment in memory below the stack: \<open>raise_intr\<close> leaves through
  \<open>longjmp\<close> with EIP at the offset of the gate, the selector of the gate in CS, ESP lowered by 12 and no
  other register, no flag and no byte outside the 12 changed; \<open>iret\<close>, after any code that brings ESP
  back and keeps the 12 bytes, returns to the interrupted EIP with the old CS selector, EFLAGS and ESP.
\<close>

theorem interrupt_return:
  assumes "flat_machine W s" "protect_enable (cpu s)"
    and "plain W s lo hi" "lo + 12 \<le> unat (gpr (cpu s) R_ESP)" "unat (gpr (cpu s) R_ESP) \<le> hi"
    and "plain W s tlo thi" "thi \<le> lo"
    and "gate = dtr_base (idtr (cpu s)) + 8 * ucast NO" "tlo \<le> unat gate" "unat gate + 8 \<le> thi"
    and "sel = ucast (load (unat gate + 2) 2 (mem_view (mem s)))"
    and "desc = dtr_base (gdtr (cpu s)) + 8 * ucast (bits 3 13 sel)" "tlo \<le> unat desc" "unat desc + 8 \<le> thi"
    and "load (unat desc + 2) 2 (mem_view (mem s)) = 0" "load (unat desc + 4) 1 (mem_view (mem s)) = 0"
      "load (unat desc + 7) 1 (mem_view (mem s)) = 0"
  shows "jumps (raise_intr NO) (\<lambda>t. flat_machine W t \<and>
      eip (cpu t) = push_bit 16 (load (unat gate + 6) 2 (mem_view (mem s))) OR load (unat gate) 2 (mem_view (mem s)) \<and>
      selector (sreg (cpu t) 1) = sel \<and> eflags (cpu t) = eflags (cpu s) \<and>
      gpr (cpu t) = (gpr (cpu s))(R_ESP := gpr (cpu s) R_ESP - 12) \<and>
      (\<forall>a. a < unat (gpr (cpu s) R_ESP) - 12 \<or> unat (gpr (cpu s) R_ESP) \<le> a \<longrightarrow> mem_view (mem t) a = mem_view (mem s) a) \<and>
      (\<forall>u pc. flat_machine W u \<and> plain W u lo hi \<and> gpr (cpu u) R_ESP = gpr (cpu t) R_ESP \<and>
          (\<forall>a. unat (gpr (cpu t) R_ESP) \<le> a \<and> a < unat (gpr (cpu t) R_ESP) + 12 \<longrightarrow> mem_view (mem u) a = mem_view (mem t) a) \<longrightarrow>
        wp (iret pc) (\<lambda>len v. len = 0 \<and> eip (cpu v) = eip (cpu s) \<and> selector (sreg (cpu v) 1) = selector (sreg (cpu s) 1) \<and>
          eflags (cpu v) = eflags (cpu s) \<and> gpr (cpu v) = (gpr (cpu u))(R_ESP := gpr (cpu s) R_ESP) \<and>
          mem_view (mem v) = mem_view (mem u)) u)) s"
proof -
  let ?vs = "[eip (cpu s), ucast (selector (sreg (cpu s) 1)), eflags (cpu s)]"
  have back_again: "wp (iret pc) (\<lambda>len v. len = 0 \<and> eip (cpu v) = eip (cpu s) \<and> selector (sreg (cpu v) 1) = selector (sreg (cpu s) 1) \<and>
          eflags (cpu v) = eflags (cpu s) \<and> gpr (cpu v) = (gpr (cpu u))(R_ESP := gpr (cpu s) R_ESP) \<and>
          mem_view (mem v) = mem_view (mem u)) u"
    if t: "has_stack W lo hi L32 ?vs t" "esp t = esp s - 12"
      and u: "flat_machine W u" "plain W u lo hi" "esp u = esp t"
        "\<forall>a. unat (esp t) \<le> a \<and> a < unat (esp t) + 12 \<longrightarrow> mem_view (mem u) a = mem_view (mem t) a" for t u pc
  proof -
    have "stack_at 4 (mem_view (mem u)) (unat (esp t)) ?vs = stack_at 4 (mem_view (mem t)) (unat (esp t)) ?vs"
      by (rule stack_at_cong) (use u(4) in simp)
    then have "has_stack W lo hi L32 ?vs u" using t(1) u(1-3) by (simp add: has_stack_def)
    moreover have "ucast (ucast x :: u32) = x" for x :: u16 by (rule bit_word_eqI) (simp add: bit_simps)
    ultimately show ?thesis by (intro wp_mono [OF iret_stack]) (use t(2) u(3) in \<open>auto simp del: fun_upd_apply\<close>)
  qed
  have j: "\<exists>t. raise_intr NO s = Jmp t \<and> P t" if "jumps (raise_intr NO) P s" for P using that by (simp add: jumps_def)
  from j [OF raise_intr_jumps [OF assms]] obtain t where t: "raise_intr NO s = Jmp t" "has_stack W lo hi L32 ?vs t"
    "flat_machine W t" "gpr (cpu t) = (gpr (cpu s))(R_ESP := esp s - 12)" "eflags (cpu t) = eflags (cpu s)" "selector (sreg (cpu t) 1) = sel"
    "eip (cpu t) = push_bit 16 (load (unat gate + 6) 2 (mem_view (mem s))) OR load (unat gate) 2 (mem_view (mem s))"
    "\<forall>a. a < unat (esp s) - 12 \<or> unat (esp s) \<le> a \<longrightarrow> mem_view (mem t) a = mem_view (mem s) a" by blast
  show ?thesis unfolding jumps_def
    by (intro exI [of _ t] conjI allI impI t back_again [of t]) (use t in auto)
qed

lemma interrupt_return_witness:
  "jumps (raise_intr 0x80) (\<lambda>t. eip (cpu t) = 0x10001 \<and> selector (sreg (cpu t) 1) = 8 \<and> gpr (cpu t) R_ESP = 0x7FF4)
     (machine_with (reset_cpu\<lparr>gpr := (\<lambda>_. 0x8000), cr0 := 1, idtr := \<lparr>dtr_limit = 0x7FF, dtr_base = 0x1000\<rparr>,
        gdtr := \<lparr>dtr_limit = 15, dtr_base = 0x2000\<rparr>\<rparr>)
        (\<lambda>a. if a = 0x1402 then 8 else if a = 0x1400 \<or> a = 0x1406 then 1 else 0))"
proof -
  let ?c = "reset_cpu\<lparr>gpr := (\<lambda>_. 0x8000), cr0 := 1, idtr := \<lparr>dtr_limit = 0x7FF, dtr_base = 0x1000\<rparr>,
        gdtr := \<lparr>dtr_limit = 15, dtr_base = 0x2000\<rparr>\<rparr>"
  let ?f = "\<lambda>a :: nat. if a = 0x1402 then 8 else if a = 0x1400 \<or> a = 0x1406 then 1 else 0 :: u8"
  let ?s = "machine_with ?c ?f"
  have f: "flat_machine low_blocks ?s" by (rule reset_flat) (simp_all add: reset_cpu_def paging_def bit_simps)
  have p: "plain low_blocks ?s 0x3000 0x9000" "plain low_blocks ?s 0x1000 0x3000" by (rule machine_with_plain; simp)+
  have l: "load 0x1402 2 ?f = 8" "load 0x1406 2 ?f = 1" "load 0x1400 2 ?f = 1" by (simp_all add: load_def le32_def)
  have z: "load 0x200A 2 ?f = 0" "load 0x200C 1 ?f = 0" "load 0x200F 1 ?f = 0" by (simp_all add: load_def le32_def)
  show ?thesis
    by (rule jumps_mono [OF interrupt_return [OF f _ p(1) _ _ p(2), where gate = "0x1400" and desc = "0x2008" and sel = 8]])
      (use l z in \<open>simp_all add: protect_enable_def bits_def\<close>)
qed

end
