(* ===== verification/String_Props.thy ===== *)
theory String_Props
  imports Flat_Mode Exec
begin

unbundle bit_operations_syntax

text \<open>
  The repeat prefix on \<open>movs\<close>, from the fetch of the prefix byte to the end of the loop: it
  terminates for every count and copies byte by byte in ascending order.
\<close>

section \<open>Dispatch in flat mode\<close>

lemma wp_exec:
  assumes "flat_machine W s" "flat_ok W s pc 1" "load (unat pc) 1 (mem_view (mem s)) = opc"
    and "opcode_table n (exec n) ! unat opc = h"
    and "\<And>m. flat_machine W (s\<lparr>mem := m\<rparr>) \<Longrightarrow> mem_view m = mem_view (mem s) \<Longrightarrow>
      wp (h pc) Q (s\<lparr>mem := m, ops_decoded := (ops_decoded s)\<lparr>opcode := opc\<rparr>\<rparr>)"
  shows "wp (exec (Suc n) pc) Q s"
  unfolding exec.simps wp_bindM
  by (rule wp_fetch [OF assms(1,2)]) (use assms(3-5) in \<open>simp add: wp_simps\<close>)

lemma load_byte: "load a (Suc 0) m = ucast (m a)"
proof (rule u32_eq_bytesI)
  fix i :: nat assume i: "i < 4"
  show "byte_at i (load a (Suc 0) m) = byte_at i (ucast (m a))"
    by (rule bit_eqI) (use i in \<open>auto simp: byte_at_load bit_byte_at bit_simps dest: bit_imp_le_length\<close>)
qed

lemma store_byte: "store a (Suc 0) v m = m(a := byte_at 0 v)"
  by (rule ext) (auto simp: store_def)

section \<open>Copying\<close>

text \<open>The reference: one byte after the other, upwards.\<close>

fun copy_bytes :: "nat \<Rightarrow> nat \<Rightarrow> nat \<Rightarrow> bytes \<Rightarrow> bytes" where
  "copy_bytes 0 a d m = m"
| "copy_bytes (Suc n) a d m = copy_bytes n (a + 1) (d + 1) (m(d := m a))"

lemma copy_bytes_other: "k < d \<or> d + n \<le> k \<Longrightarrow> copy_bytes n a d m k = m k"
  by (induction n a d m rule: copy_bytes.induct) auto

lemma copy_bytes_block:
  "d \<le> a \<or> a + n \<le> d \<Longrightarrow> copy_bytes n a d m = (\<lambda>k. if d \<le> k \<and> k < d + n then m (a + (k - d)) else m k)"
proof (induction n a d m rule: copy_bytes.induct)
  case (2 n a d m)
  have IH: "copy_bytes n (a + 1) (d + 1) (m(d := m a)) =
      (\<lambda>k. if d + 1 \<le> k \<and> k < d + 1 + n then (m(d := m a)) (a + 1 + (k - (d + 1))) else (m(d := m a)) k)"
    by (rule 2) (use 2(2) in auto)
  have "Suc (a + x - Suc d) = a + x - d" if "Suc d \<le> x" for x using that by simp
  then show ?case unfolding copy_bytes.simps IH using 2(2) by (auto simp: fun_eq_iff)
qed (auto simp: fun_eq_iff)

lemma movs_step:
  assumes s: "flat_machine W s" "plain W s lo hi"
    and code: "lo \<le> unat pc" "unat pc < hi" "mem_view (mem s) (unat pc) = 0xa4"
    and src: "lo \<le> unat (gpr (cpu s) R_ESI)" "unat (gpr (cpu s) R_ESI) < hi"
    and dst: "lo \<le> unat (gpr (cpu s) R_EDI)" "unat (gpr (cpu s) R_EDI) < hi" and df: "\<not> DF (cpu s)"
  shows "wp (exec (Suc k) pc) (\<lambda>_ t. flat_machine W t \<and> mmio t = mmio s \<and> opcode (ops_decoded t) = 0xa4 \<and>
    cpu t = set_gpr R_ESI (gpr (cpu s) R_ESI + 1) (set_gpr R_EDI (gpr (cpu s) R_EDI + 1) (cpu s)) \<and>
    mem_view (mem t) = (mem_view (mem s))(unat (gpr (cpu s) R_EDI) := mem_view (mem s) (unat (gpr (cpu s) R_ESI)))) s"
proof (rule wp_exec [OF s(1)])
  show "flat_ok W s pc 1" by (rule plain_ok [OF s(2)]) (use code in simp_all)
  show "load (unat pc) 1 (mem_view (mem s)) = 0xa4" using code(3) by (simp add: load_byte)
  show "opcode_table k (exec k) ! unat (0xa4 :: u32) = movs_n B8" by (simp add: opcode_table_def)
  fix m assume m: "flat_machine W (s\<lparr>mem := m\<rparr>)" "mem_view m = mem_view (mem s)"
  let ?s = "upd_op Src (op_ty_update (\<lambda>_. OP_TYPE_IMM)) (s\<lparr>mem := m, ops_decoded := (ops_decoded s)\<lparr>opcode := 0xa4\<rparr>\<rparr>)"
  have fs: "flat_machine W ?s" using m(1) by simp
  have ok: "flat_ok W t (gpr (cpu s) R_ESI) 1" "flat_ok W t (gpr (cpu s) R_EDI) 1" if "mmio t = mmio s" for t
    by (rule plain_ok [of W _ lo hi]; use src dst s(2) plain_congr [OF that] in simp)+
  have move: "wp (MEM_R B8 (gpr (cpu s) R_ESI) 3) (\<lambda>v. wp (MEM_W B8 (gpr (cpu s) R_EDI) v 0) Q) ?s"
    if "\<And>t. flat_machine W t \<Longrightarrow> mmio t = mmio s \<Longrightarrow> opcode (ops_decoded t) = 0xa4 \<Longrightarrow> cpu t = cpu s \<Longrightarrow>
      mem_view (mem t) = (mem_view (mem s))(unat (gpr (cpu s) R_EDI) := mem_view (mem s) (unat (gpr (cpu s) R_ESI))) \<Longrightarrow> Q () t" for Q
  proof (rule wp_MEM_R [OF fs], goal_cases)
    case r: (3 m')
    show ?case
    proof (rule wp_MEM_W [OF r(1)], goal_cases)
      case (3 m'')
      show ?case by (rule that) (use 3 r m in \<open>simp_all add: load_byte store_byte\<close>)
    qed (use ok in simp_all)
  qed (use ok in simp_all)
  show "wp (movs_n B8 pc) (\<lambda>_ t. flat_machine W t \<and> mmio t = mmio s \<and> opcode (ops_decoded t) = 0xa4 \<and>
    cpu t = set_gpr R_ESI (gpr (cpu s) R_ESI + 1) (set_gpr R_EDI (gpr (cpu s) R_EDI + 1) (cpu s)) \<and>
    mem_view (mem t) = (mem_view (mem s))(unat (gpr (cpu s) R_EDI) := mem_view (mem s) (unat (gpr (cpu s) R_ESI))))
     (s\<lparr>mem := m, ops_decoded := (ops_decoded s)\<lparr>opcode := 0xa4\<rparr>\<rparr>)"
    using df by (simp add: movs_n_def make_instr_helper_def idex_def decode_n_def movs_execute_def step_index_def wp_simps)
      (rule move, simp add: wp_simps)
qed

lemma rep_movs_loop:
  assumes "flat_machine W s" "plain W s lo hi"
    and "lo \<le> unat (pc + 1)" "unat (pc + 1) < hi" "mem_view (mem s) (unat (pc + 1)) = 0xa4"
    and "lo \<le> unat (gpr (cpu s) R_ESI)" "unat (gpr (cpu s) R_ESI) + n \<le> hi"
    and "lo \<le> unat (gpr (cpu s) R_EDI)" "unat (gpr (cpu s) R_EDI) + n \<le> hi"
    and "unat (pc + 1) < unat (gpr (cpu s) R_EDI) \<or> unat (gpr (cpu s) R_EDI) + n \<le> unat (pc + 1)"
    and "\<not> DF (cpu s)" "unat (gpr (cpu s) R_ECX) = n" "n \<le> m"
  shows "wp (rep_loop False m (exec (Suc k)) pc) (\<lambda>_ t. flat_machine W t \<and>
    cpu t = (cpu s)\<lparr>gpr := (gpr (cpu s))(R_ECX := 0, R_ESI := gpr (cpu s) R_ESI + of_nat n, R_EDI := gpr (cpu s) R_EDI + of_nat n)\<rparr> \<and>
    mem_view (mem t) = copy_bytes n (unat (gpr (cpu s) R_ESI)) (unat (gpr (cpu s) R_EDI)) (mem_view (mem s))) s"
  using assms
proof (induction n arbitrary: s m)
  case 0
  then have c: "gpr (cpu s) R_ECX = 0" by (simp add: unat_eq_0)
  then have "(gpr (cpu s))(R_ECX := 0, R_ESI := gpr (cpu s) R_ESI + of_nat 0, R_EDI := gpr (cpu s) R_EDI + of_nat 0) = gpr (cpu s)"
    by (auto simp: fun_eq_iff)
  then have e: "(cpu s)\<lparr>gpr := (gpr (cpu s))(R_ECX := 0, R_ESI := gpr (cpu s) R_ESI + of_nat 0, R_EDI := gpr (cpu s) R_EDI + of_nat 0)\<rparr> = cpu s"
    by (simp only:) simp
  show ?case unfolding e using 0(1) c by (cases m) (simp_all add: wp_simps)
next
  case (Suc n)
  let ?S = "gpr (cpu s) R_ESI" and ?D = "gpr (cpu s) R_EDI" and ?C = "gpr (cpu s) R_ECX"
  obtain m' where m': "m = Suc m'" "n \<le> m'" using Suc.prems(13) by (cases m) auto
  have hi: "hi \<le> HW_MEM_SIZE" using Suc.prems(2) by (simp add: plain_def)
  have c0: "?C \<noteq> 0" using Suc.prems(12) by auto
  have u1: "unat (?S + 1) = unat ?S + 1" "unat (?D + 1) = unat ?D + 1"
    using unat_add_nat [of ?S 1] unat_add_nat [of ?D 1] Suc.prems(7,9) hi by simp_all
  have uc: "unat (?C - 1) = n" using unat_sub_nat [of 1 ?C] Suc.prems(12) by simp
  show ?case unfolding m'(1) rep_loop.simps
  proof (simp only: wp_simps wp_reg(1) [of R_ECX, simplified] c0 if_False, rule wp_mono [OF movs_step [OF Suc.prems(1-5)]], goal_cases)
    case (6 x t)
    let ?t = "t\<lparr>cpu := set_gpr R_ECX (?C - 1) (cpu t)\<rparr>"
    from 6 have t: "flat_machine W t" "mmio t = mmio s" "opcode (ops_decoded t) = 0xa4"
      "cpu t = set_gpr R_ESI (?S + 1) (set_gpr R_EDI (?D + 1) (cpu s))"
      "mem_view (mem t) = (mem_view (mem s))(unat ?D := mem_view (mem s) (unat ?S))" by simp_all
    have "wp (rep_loop False m' (exec (Suc k)) pc) (\<lambda>_ u. flat_machine W u \<and>
      cpu u = (cpu ?t)\<lparr>gpr := (gpr (cpu ?t))(R_ECX := 0, R_ESI := gpr (cpu ?t) R_ESI + of_nat n, R_EDI := gpr (cpu ?t) R_EDI + of_nat n)\<rparr> \<and>
      mem_view (mem u) = copy_bytes n (unat (gpr (cpu ?t) R_ESI)) (unat (gpr (cpu ?t) R_EDI)) (mem_view (mem ?t))) ?t"
      by (rule Suc.IH) (use t Suc.prems u1 uc m'(2) plain_congr [OF t(2)] in \<open>auto simp: flag_def\<close>)
    then have "wp (rep_loop False m' (exec (Suc k)) pc) (\<lambda>_ u. flat_machine W u \<and>
      cpu u = (cpu s)\<lparr>gpr := (gpr (cpu s))(R_ECX := 0, R_ESI := ?S + of_nat (Suc n), R_EDI := ?D + of_nat (Suc n))\<rparr> \<and>
      mem_view (mem u) = copy_bytes (Suc n) (unat ?S) (unat ?D) (mem_view (mem s))) ?t"
      by (rule wp_mono) (auto simp: t u1 u1 [unfolded add.commute [of _ 1]] set_gpr_def fun_eq_iff algebra_simps)
    moreover have "gpr (cpu t) R_ECX = ?C" using t(4) by simp
    ultimately show ?case using t(3) by (simp add: wp_simps compares_def)
  qed (use Suc.prems in simp_all)
qed

text \<open>
  C21. \<open>rep movsb\<close> (bytes f3 a4) with DF clear, on plain memory and with a destination that does not overlap
  the second byte of the instruction: for every count in ECX, with enough fuel to dispatch the prefix and run
  one round per byte, the instruction terminates, returns length 2, has copied the bytes in ascending order, cleared
  ECX and advanced ESI and EDI by the count, and changed no other register and no flag. If the destination does not start
  inside the source, the result is the block copy.
\<close>

theorem rep_movs_copies:
  assumes "flat_machine W s" "plain W s lo hi"
    and "lo \<le> unat pc" "unat pc + 1 < hi" "mem_view (mem s) (unat pc) = 0xf3" "mem_view (mem s) (unat pc + 1) = 0xa4"
    and "n = unat (gpr (cpu s) R_ECX)" "a = unat (gpr (cpu s) R_ESI)" "d = unat (gpr (cpu s) R_EDI)"
    and "lo \<le> a" "a + n \<le> hi" "lo \<le> d" "d + n \<le> hi" "unat pc + 1 < d \<or> d + n \<le> unat pc + 1"
    and "\<not> DF (cpu s)" "n + 2 \<le> fuel"
  shows "wp (exec fuel pc) (\<lambda>len t. len = 2 \<and> flat_machine W t \<and>
      cpu t = (cpu s)\<lparr>gpr := (gpr (cpu s))(R_ECX := 0, R_ESI := gpr (cpu s) R_ESI + of_nat n, R_EDI := gpr (cpu s) R_EDI + of_nat n)\<rparr> \<and>
      mem_view (mem t) = copy_bytes n a d (mem_view (mem s)) \<and>
      (d \<le> a \<or> a + n \<le> d \<longrightarrow>
        mem_view (mem t) = (\<lambda>k. if d \<le> k \<and> k < d + n then mem_view (mem s) (a + (k - d)) else mem_view (mem s) k))) s"
proof -
  obtain k where k: "fuel = Suc (Suc k)" "n \<le> k" using assms(16) by (cases fuel; cases "fuel - 1") auto
  have hi: "hi \<le> HW_MEM_SIZE" using assms(2) by (simp add: plain_def)
  have u: "unat (pc + 1) = unat pc + 1" using unat_add_nat [of pc 1] assms(4) hi by simp
  show ?thesis unfolding k(1)
  proof (rule wp_exec [OF assms(1)])
    show "flat_ok W s pc 1" by (rule plain_ok [OF assms(2)]) (use assms(3,4) in simp_all)
    show "load (unat pc) 1 (mem_view (mem s)) = 0xf3" using assms(5) by (simp add: load_byte)
    show "opcode_table (Suc k) (exec (Suc k)) ! unat (0xf3 :: u32) = rep (Suc k) (exec (Suc k))" by (simp add: opcode_table_def del: exec.simps)
    fix m assume m: "flat_machine W (s\<lparr>mem := m\<rparr>)" "mem_view m = mem_view (mem s)"
    let ?s = "s\<lparr>mem := m, ops_decoded := (ops_decoded s)\<lparr>opcode := 0xf3\<rparr>\<rparr>"
    have fs: "flat_machine W ?s" using m(1) by simp
    show "wp (rep (Suc k) (exec (Suc k)) pc) (\<lambda>len t. len = 2 \<and> flat_machine W t \<and>
      cpu t = (cpu s)\<lparr>gpr := (gpr (cpu s))(R_ECX := 0, R_ESI := gpr (cpu s) R_ESI + of_nat n, R_EDI := gpr (cpu s) R_EDI + of_nat n)\<rparr> \<and>
      mem_view (mem t) = copy_bytes n a d (mem_view (mem s)) \<and>
      (d \<le> a \<or> a + n \<le> d \<longrightarrow>
        mem_view (mem t) = (\<lambda>k. if d \<le> k \<and> k < d + n then mem_view (mem s) (a + (k - d)) else mem_view (mem s) k))) ?s"
      unfolding rep_def wp_bindM
    proof (rule wp_fetch [OF fs], goal_cases)
      case 1
      show ?case by (rule plain_ok [of W _ lo hi]) (use assms(2-4) u in simp_all)
    next
      case (2 m')
      let ?t = "?s\<lparr>mem := m'\<rparr>"
      have b: "load (unat (pc + 1)) 1 (mem_view (mem ?s)) = 0xa4" using assms(6) m(2) u by (simp add: load_byte)
      have "wp (rep_loop False (Suc k) (exec (Suc k)) pc) (\<lambda>_ t. flat_machine W t \<and>
        cpu t = (cpu ?t)\<lparr>gpr := (gpr (cpu ?t))(R_ECX := 0, R_ESI := gpr (cpu ?t) R_ESI + of_nat n, R_EDI := gpr (cpu ?t) R_EDI + of_nat n)\<rparr> \<and>
        mem_view (mem t) = copy_bytes n (unat (gpr (cpu ?t) R_ESI)) (unat (gpr (cpu ?t) R_EDI)) (mem_view (mem ?t))) ?t"
        by (rule rep_movs_loop [OF 2(1), where lo = lo and hi = hi]) (use assms k(2) u 2(2) m(2) in simp_all)
      then show ?case unfolding b using assms(8,9) 2(2) m(2) copy_bytes_block [of d a n]
        by (simp add: wp_seqM wp_ret del: exec.simps rep_loop.simps) (auto elim: wp_mono)
    qed
  qed
qed

lemma rep_movs_copies_witness:
  "wp (exec 5 0x100000) (\<lambda>len t. len = 2 \<and> gpr (cpu t) R_ECX = 0 \<and> gpr (cpu t) R_EDI = 0x3003 \<and> mem_view (mem t) 0x3002 = 0x33)
     (machine_with (reset_cpu\<lparr>gpr := (\<lambda>_. 0)(R_ECX := 3, R_ESI := 0x2000, R_EDI := 0x3000)\<rparr>)
       (\<lambda>a. if a = 0x100000 then 0xf3 else if a = 0x100001 then 0xa4 else if a = 0x2002 then 0x33 else 0))"
proof -
  let ?f = "\<lambda>a :: nat. if a = 0x100000 then 0xf3 else if a = 0x100001 then 0xa4 else if a = 0x2002 then 0x33 else 0 :: u8"
  let ?s = "machine_with (reset_cpu\<lparr>gpr := (\<lambda>_. 0)(R_ECX := 3, R_ESI := 0x2000, R_EDI := 0x3000)\<rparr>) ?f"
  have f: "flat_machine low_blocks ?s" by (rule reset_flat) (simp_all add: reset_cpu_def paging_def)
  have p: "plain low_blocks ?s 1 0x200000" by (rule machine_with_plain) simp_all
  show ?thesis
    by (rule wp_mono [OF rep_movs_copies [OF f p, where n = 3 and a = "0x2000" and d = "0x3000"]])
      (simp_all add: reset_cpu_def flag_def bit_simps copy_bytes_block)
qed

end
