(* ===== verification/Monitor.thy ===== *)
theory Monitor
  imports Watch
begin

unbundle bit_operations_syntax

text \<open>
  The main loop (nemu/src/monitor/cpu-exec.c), start-up (nemu/src/monitor/monitor.c, main.c) and
  the commands of the debugger (nemu/src/monitor/debug/ui.c). The host delivers timer signals
  and SDL events; the model takes them as an argument, one entry per round of the main loop:
  the bound for nested \<open>exec\<close> calls, the number of timer signals since the last round, and the
  queued events. Signals are handled between two instructions.
\<close>

section \<open>Executing instructions\<close>

type_synonym round_input = "nat \<times> nat \<times> sdl_event list"

definition print_bin_instr :: "u32 \<Rightarrow> nat \<Rightarrow> (nemu, unit) M" where
  "print_bin_instr pc len = forM [0..<len] (\<lambda>i. bindM (on_vm (instr_fetch (pc + of_nat i) 1)) (\<lambda>_. ret ()))"

definition set_nemu_state :: "nemu_run \<Rightarrow> (nemu, unit) M" where
  "set_nemu_state r = on_vm (modM (\<lambda>s. s\<lparr>nemu_state := r\<rparr>))"

text \<open>One round of the loop; the result tells whether \<open>cpu_exec\<close> returns.\<close>

definition cpu_step :: "round_input \<Rightarrow> (nemu, bool) M" where
  "cpu_step = (\<lambda>(fuel, ticks, events).
     seqM (on_vm (forM [0..<ticks] (\<lambda>_. timer_sig_handler)))
    (bindM (on_vm (cpuM eip)) (\<lambda>eip_temp.
     bindM (on_vm (exec fuel eip_temp)) (\<lambda>instr_len.
     seqM (on_vm (add_eip (of_nat instr_len)))
    (seqM (print_bin_instr eip_temp instr_len)
    (bindM check_WP (\<lambda>ok.
     seqM (whenM (\<not> ok) (set_nemu_state STOP))
    (seqM (on_vm (device_update events))
    (bindM (getM (\<lambda>s. nemu_state (vm s))) (\<lambda>st.
     if st \<noteq> RUNNING then ret True
     else bindM (on_vm (cpuM (\<lambda>c. INTR c \<and> IFl c))) (\<lambda>irq.
       if irq then
         bindM (on_vm i8259_query_intr) (\<lambda>intr_no.
         seqM (on_vm i8259_ack_intr)
        (seqM (on_vm (raise_intr intr_no)) (ret False)))
       else ret False)))))))))))"

text \<open>
  \<open>setjmp\<close> is in front of the loop: after a \<open>longjmp\<close> the loop goes on with the same \<open>n\<close>. A list
  of rounds that is too short is a failure of its own.
\<close>

fun cpu_loop :: "round_input list \<Rightarrow> u32 \<Rightarrow> (nemu, unit) M" where
  "cpu_loop rs n s =
     (if n = 0 then (if nemu_state (vm s) = RUNNING then set_nemu_state STOP s else Ret () s)
      else case rs of [] \<Rightarrow> Err OutOfFuel
      | inp # rs \<Rightarrow> (case cpu_step inp s of
          Ret stop t \<Rightarrow> if stop then Ret () t else cpu_loop rs (n - 1) t
        | Jmp t \<Rightarrow> cpu_loop rs n t
        | Err e \<Rightarrow> Err e))"

declare cpu_loop.simps [simp del]

definition cpu_exec :: "round_input list \<Rightarrow> u32 \<Rightarrow> (nemu, unit) M" where
  "cpu_exec rs n =
     bindM (getM (\<lambda>s. nemu_state (vm s))) (\<lambda>st.
     if st = END then printf ''Program execution has ended.'' []
     else seqM (set_nemu_state RUNNING) (cpu_loop rs n))"

section \<open>Start\<close>

abbreviation (input) ENTRY_START :: u32 where "ENTRY_START \<equiv> 0x100000"

text \<open>\<open>entry\<close> is the contents of the file of that name; \<open>fread\<close> of an empty file returns 0.\<close>

definition load_entry :: "u8 list \<Rightarrow> (machine, unit) M" where
  "load_entry entry =
     seqM (if unat ENTRY_START + length entry > HW_MEM_SIZE then fail OutOfBounds else dma_store (unat ENTRY_START) entry)
          (assertM (entry \<noteq> []))"

definition reset_segment :: "SegDesc \<Rightarrow> SegDesc" where
  "reset_segment d = d\<lparr>base_15_0 := 0, base_23_16 := 0, base_31_24 := 0, limit_15_0 := 0xffff, limit_19_16 := 0xf\<rparr>"

definition restart :: "u8 list \<Rightarrow> u8 list \<Rightarrow> (machine, unit) M" where
  "restart entry img =
     seqM (load_entry entry)
    (seqM (on_mem init_cache)
    (seqM init_TLB
    (seqM (on_cpu (\<lambda>c. c\<lparr>cr0 := unset_bit 31 (unset_bit 0 (cr0 c)),
             sreg := (sreg c)(1 := (sreg c 1)\<lparr>sreg_cache := reset_segment (sreg_cache (sreg c 1))\<rparr>),
             eip := ENTRY_START, eflags := 2\<rparr>))
    (seqM (init_device img)
          (on_mem (zoom dram (\<lambda>d m. m\<lparr>dram := d\<rparr>) init_ddr3))))))"

section \<open>Words of a command line\<close>

text \<open>\<open>strtok\<close> with a blank as delimiter: the next word and what follows its delimiter.\<close>

definition strtok :: "string \<Rightarrow> string option \<times> string" where
  "strtok s = (let s = dropWhile (\<lambda>c. c = CHR '' '') s; w = takeWhile (\<lambda>c. c \<noteq> CHR '' '') s
     in if w = [] then (None, []) else (Some w, drop (length w + 1) s))"

text \<open>\<open>sscanf\<close> with \<open>%d\<close>; \<open>None\<close> when no number can be read and the variable stays unassigned.\<close>

definition scan_d :: "string \<Rightarrow> int option" where
  "scan_d s =
     (let s = dropWhile (\<lambda>c. c = CHR '' '') s;
          neg = (take 1 s = ''-'');
          s = (if take 1 s = ''-'' \<or> take 1 s = ''+'' then drop 1 s else s);
          ds = takeWhile is_digit s;
          n = int (number 10 ds)
      in if ds = [] then None
         else Some (sint (word_of_int (if neg then max (- n) (- (2 ^ 63)) else min n (2 ^ 63 - 1)) :: u32)))"

definition int_arg :: "string option \<Rightarrow> ('s, int) M" where
  "int_arg w = (case w of None \<Rightarrow> fail NullDeref | Some a \<Rightarrow>
     (case scan_d a of None \<Rightarrow> fail Uninitialised | Some n \<Rightarrow> ret n))"

section \<open>Commands\<close>

text \<open>
  A handler gets \<open>args\<close> (\<open>None\<close> for a null pointer) and \<open>rest\<close>, the text that further calls of
  \<open>strtok(NULL, ...)\<close> will split.
\<close>

definition cmd_c :: "round_input list \<Rightarrow> (nemu, int) M" where
  "cmd_c rs = seqM (cpu_exec rs (-1)) (ret 0)"

definition cmd_q :: "(nemu, int) M" where "cmd_q = ret (-1)"

definition invalid_input :: "(nemu, int) M" where
  "invalid_input = seqM (printf ''Invalid Input'' []) (ret 0)"

definition cmd_p :: "string option \<Rightarrow> (nemu, int) M" where
  "cmd_p args = (case args of None \<Rightarrow> invalid_input | Some a \<Rightarrow>
     bindM (exprM a) (\<lambda>r. case r of
       Some num \<Rightarrow> seqM (printf ''result is 0x%x'' [PI num]) (ret 0)
     | None \<Rightarrow> seqM (printf ''EXPR IS WRONG'' []) (ret 0)))"

definition cmd_d :: "string \<Rightarrow> (nemu, int) M" where
  "cmd_d rest =
     bindM (int_arg (fst (strtok rest))) (\<lambda>num.
     bindM (on_wps (delete_wp num)) (\<lambda>suc. if suc = 0 then fail Panic else ret 0))"

definition cmd_w :: "string option \<Rightarrow> (nemu, int) M" where
  "cmd_w args = (case args of None \<Rightarrow> invalid_input | Some a \<Rightarrow>
     bindM (on_wps new_wp) (\<lambda>w.
     if 32 \<le> length a then fail OutOfBounds
     else seqM (on_wps (upd_wp w (\<lambda>x. x\<lparr>wp_str := a\<rparr>)))
         (bindM (exprM a) (\<lambda>r. case r of None \<Rightarrow> fail Panic | Some v \<Rightarrow>
            seqM (on_wps (upd_wp w (\<lambda>x. x\<lparr>wp_val := v\<rparr>)))
           (bindM (on_wps (deref w)) (\<lambda>x.
            seqM (printf ''Set WatchPoint NO.%d for %s, Now val is %d'' [PI (of_nat (wp_NO x)), PS (wp_str x), PI v])
                 (ret 0)))))))"

text \<open>A missing second word makes \<open>expr\<close> read through a null pointer.\<close>

definition cmd_x :: "string option \<Rightarrow> string \<Rightarrow> (nemu, int) M" where
  "cmd_x args rest = (if args = None then invalid_input else
     bindM (int_arg (fst (strtok rest))) (\<lambda>num.
     case fst (strtok (snd (strtok rest))) of None \<Rightarrow> fail NullDeref | Some str \<Rightarrow>
     bindM (exprM str) (\<lambda>r. case r of None \<Rightarrow> seqM (printf ''EXPR WRONG'' []) (ret 0) | Some result \<Rightarrow>
     seqM (forM [0..<nat num] (\<lambda>k. let addr = result + of_nat (4 * k) in
             bindM (on_vm (swaddr_read addr 4 3)) (\<lambda>digit. printf ''address:0x%x %08x'' [PI addr, PI digit])))
          (ret 0))))"

definition cmd_page :: "string option \<Rightarrow> string \<Rightarrow> (nemu, int) M" where
  "cmd_page args rest = (if args = None then invalid_input else
     case fst (strtok rest) of None \<Rightarrow> fail NullDeref | Some str \<Rightarrow>
     bindM (exprM str) (\<lambda>r. case r of None \<Rightarrow> seqM (printf ''EXPR WRONG'' []) (ret 0) | Some result \<Rightarrow>
     bindM (on_vm (page_translate result)) (\<lambda>result.
     bindM (on_vm (hwaddr_read result 4)) (\<lambda>digit.
     seqM (printf ''page address:0x%x %08x'' [PI result, PI digit]) (ret 0)))))"

text \<open>Each single step runs in rounds of its own.\<close>

definition cmd_si :: "(nat \<Rightarrow> round_input list) \<Rightarrow> string \<Rightarrow> (nemu, int) M" where
  "cmd_si rss rest = (case fst (strtok rest) of
     None \<Rightarrow> seqM (cpu_exec (rss 0) 1) (ret 0)
   | Some arg \<Rightarrow> bindM (int_arg (Some arg)) (\<lambda>i.
       seqM (forM [0..<nat i] (\<lambda>k. cpu_exec (rss k) 1)) (ret 0)))"

definition cmd_info :: "string \<Rightarrow> (nemu, int) M" where
  "cmd_info rest = (case fst (strtok rest) of None \<Rightarrow> invalid_input | Some arg \<Rightarrow>
     if length arg > 2 \<or> (take 1 arg \<noteq> ''r'' \<and> take 1 arg \<noteq> ''w'') then invalid_input
     else if arg = ''rs'' then
       bindM (on_vm (cpuM gdtr)) (\<lambda>g. seqM (printf ''base = %x,limit = %x'' [PI (dtr_base g), PI (ucast (dtr_limit g))]) (ret 0))
     else if arg = ''rc'' then bindM (on_vm (cpuM cr0)) (\<lambda>v. seqM (printf ''CR0 = %x'' [PI v]) (ret 0))
     else if arg = ''r'' then
       seqM (forM [R_EAX, R_ECX, R_EDX, R_EBX, R_ESP, R_EBP, R_ESI, R_EDI] (\<lambda>i.
         bindM (on_vm (cpuM (\<lambda>c. gpr c i))) (\<lambda>v. printf ''%%cpu.%s : %#08x'' [PS (regsl ! i), PI v])))
      (bindM (on_vm (cpuM eip)) (\<lambda>v. seqM (printf ''%%cpu.eip : %#08x'' [PI v]) (ret 0)))
     else if arg = ''rf'' then
       seqM (forM [(''CF'', CF_bit), (''OF'', OF_bit), (''ZF'', ZF_bit), (''PF'', PF_bit), (''SF'', SF_bit), (''DF'', DF_bit)]
         (\<lambda>(nm, b). bindM (on_vm (cpuM (flag b))) (\<lambda>v. printf ''%%cpu.%s : %x'' [PS nm, PI (of_bool v)]))) (ret 0)
     else if arg = ''w'' then seqM (printf ''NUM EXPR VAL'' []) (seqM print_wp (ret 0))
     else ret 0)"

section \<open>Backtrace\<close>

record PartOfStackFrame =
  prev_ebp :: u32
  ret_addr :: u32
  frame_args :: "u32 list"

definition read_ebp :: "u32 \<Rightarrow> (machine, PartOfStackFrame) M" where
  "read_ebp addr =
     bindM (swaddr_read addr 4 3) (\<lambda>p.
     bindM (swaddr_read (addr + 4) 4 3) (\<lambda>r.
     bindM (swaddr_read (addr + 8) 4 3) (\<lambda>a0.
     bindM (swaddr_read (addr + 12) 4 3) (\<lambda>a1.
     bindM (swaddr_read (addr + 16) 4 3) (\<lambda>a2.
     bindM (swaddr_read (addr + 20) 4 3) (\<lambda>a3.
     ret \<lparr>prev_ebp = p, ret_addr = r, frame_args = [a0, a1, a2, a3]\<rparr>))))))"

definition func_at :: "u32 \<Rightarrow> symbol \<Rightarrow> bool" where
  "func_at a y \<longleftrightarrow> st_value y \<le> a \<and> a \<le> st_value y + st_size y \<and> st_info y AND 0xf = 2"

text \<open>
  The walk over the frames. The buffer \<open>tmp\<close> keeps the name of the previous frame when no
  function contains the return address; names of 32 or more characters overrun it.
\<close>

primrec bt_loop :: "nat \<Rightarrow> nat \<Rightarrow> u32 \<Rightarrow> u32 \<Rightarrow> string option \<Rightarrow> (nemu, unit) M" where
  "bt_loop 0 j addr pc tmp = (if addr = 0 then ret () else fail OutOfFuel)"
| "bt_loop (Suc n) j addr pc tmp =
     (if addr = 0 then ret ()
      else seqM (printf ''#%d  0x%08x in '' [PI (of_nat j), PI pc])
     (bindM (getM symtab) (\<lambda>syms.
      bindM (case List.find (func_at pc) syms of
               Some y \<Rightarrow> if 32 \<le> length (st_name y) then fail OutOfBounds else ret (Some (st_name y))
             | None \<Rightarrow> ret tmp) (\<lambda>tmp.
      case tmp of None \<Rightarrow> fail Uninitialised | Some nm \<Rightarrow>
      seqM (printf ''%s'' [PS nm])
     (bindM (on_vm (read_ebp addr)) (\<lambda>fr.
      seqM (if nm = ''main'' then printf ''( )'' [] else printf ''( %d , %d , %d , %d )'' (map PI (frame_args fr)))
           (bt_loop n (j + 1) (prev_ebp fr) (ret_addr fr) (Some nm))))))))"

definition cmd_bt :: "nat \<Rightarrow> (nemu, int) M" where
  "cmd_bt n =
     bindM (on_vm (reg_l R_EBP)) (\<lambda>addr. bindM (on_vm (cpuM eip)) (\<lambda>pc.
     seqM (bt_loop n 0 addr pc None) (ret 0)))"

section \<open>Command dispatch\<close>

definition cmd_table :: "(string \<times> string) list" where
  "cmd_table = [(''help'', ''Display informations about all supported commands''),
     (''c'', ''Continue the execution of the program''), (''q'', ''Exit NEMU''),
     (''si'', ''Execute N instructions in a single step and then pause, the default is 1''),
     (''info'', '' r for  Disply info about register  w for print watchpoint infomation''),
     (''x'', ''Scanf memory, Disply N 4 Byte''), (''p'', ''Calculate the value of EXPR''),
     (''w'', ''Set watchpoint for EXPR''), (''d'', ''Delete No.N watchpoint''),
     (''bt'', ''Print stack frame chain''), (''page'', ''Show page translate'')]"

definition cmd_help :: "string \<Rightarrow> (nemu, int) M" where
  "cmd_help rest = (case fst (strtok rest) of
     None \<Rightarrow> seqM (forM cmd_table (\<lambda>(nm, d). printf ''%s - %s'' [PS nm, PS d])) (ret 0)
   | Some arg \<Rightarrow> (case List.find (\<lambda>(nm, _). nm = arg) cmd_table of
       Some (nm, d) \<Rightarrow> seqM (printf ''%s - %s'' [PS nm, PS d]) (ret 0)
     | None \<Rightarrow> seqM (printf ''Unknown command '' [PS arg]) (ret 0)))"

text \<open>
  What one command may consume: the rounds of each \<open>cpu_exec\<close> it starts and the bound for the
  frames of a backtrace.
\<close>

definition run_cmd :: "(nat \<Rightarrow> round_input list) \<Rightarrow> nat \<Rightarrow> string \<Rightarrow> string option \<Rightarrow> string \<Rightarrow> (nemu, int) M" where
  "run_cmd rss n cmd args rest =
     (if cmd = ''help'' then cmd_help rest
      else if cmd = ''c'' then cmd_c (rss 0)
      else if cmd = ''q'' then cmd_q
      else if cmd = ''si'' then cmd_si rss rest
      else if cmd = ''info'' then cmd_info rest
      else if cmd = ''x'' then cmd_x args rest
      else if cmd = ''p'' then cmd_p args
      else if cmd = ''w'' then cmd_w args
      else if cmd = ''d'' then cmd_d rest
      else if cmd = ''bt'' then cmd_bt n
      else if cmd = ''page'' then cmd_page args rest
      else seqM (printf ''Unknown command '' [PS cmd]) (ret 0))"

text \<open>The command loop over the lines typed; the end of the input is a null pointer.\<close>

fun ui_mainloop :: "(string \<times> (nat \<Rightarrow> round_input list) \<times> nat) list \<Rightarrow> (nemu, unit) M" where
  "ui_mainloop [] = fail NullDeref"
| "ui_mainloop ((str, rss, n) # ls) =
     (case strtok str of
        (None, _) \<Rightarrow> ui_mainloop ls
      | (Some cmd, rest) \<Rightarrow>
          bindM (run_cmd rss n cmd (if rest = [] then None else Some rest) rest) (\<lambda>r.
          if r < 0 then ret () else ui_mainloop ls))"

text \<open>\<open>main\<close>, after the ELF tables are loaded; \<open>now\<close> is \<open>time(0)\<close>.\<close>

definition main :: "nat \<Rightarrow> u8 list \<Rightarrow> u8 list \<Rightarrow> (string \<times> (nat \<Rightarrow> round_input list) \<times> nat) list \<Rightarrow> (nemu, unit) M" where
  "main now entry img ls =
     seqM (on_wps init_wp_pool)
    (seqM (on_vm (reg_test now))
    (seqM (on_vm (restart entry img)) (ui_mainloop ls)))"

end
