(* ===== verification/Monitor_Props.thy ===== *)
theory Monitor_Props
  imports Stack_Props String_Props Monitor
begin

unbundle bit_operations_syntax

text \<open>
  The main loop: a halted processor waits, without changing anything the program sees, until a timer signal
  arrives, and then enters the handler of interrupt 32.
\<close>

section \<open>Steps on the machine inside the debugger state\<close>

lemma wp_on_vm [wp_simps]: "wp (on_vm m) Q = (\<lambda>s. wp m (\<lambda>x t. Q x (s\<lparr>vm := t\<rparr>)) (vm s))"
  by (simp add: on_vm_def wp_zoom)

lemma jumps_on_vm: "jumps m (\<lambda>t. Q (s\<lparr>vm := t\<rparr>)) (vm s) \<Longrightarrow> jumps (on_vm m) Q s"
  by (auto simp: jumps_def on_vm_def zoom_def)

lemma flat_machine_devices [simp]:
  "flat_machine W (s\<lparr>pic := p\<rparr>) = flat_machine W s" "flat_machine W (s\<lparr>sdl := d\<rparr>) = flat_machine W s"
  "plain W (s\<lparr>pic := p\<rparr>) lo hi = plain W s lo hi" "plain W (s\<lparr>sdl := d\<rparr>) lo hi = plain W s lo hi"
  "flat r (s\<lparr>pic := p\<rparr>) = flat r s" "flat r (s\<lparr>sdl := d\<rparr>) = flat r s"
  by (simp_all add: flat_machine_def flat_def vm_on_def plain_def is_mmio_def)

lemma flat_ok_devices [simp]:
  "flat_ok W (s\<lparr>pic := p\<rparr>) a n = flat_ok W s a n" "flat_ok W (s\<lparr>sdl := d\<rparr>) a n = flat_ok W s a n"
  by (rule flat_congr, simp)+

lemma flag_upd [simp]: "flag n (c\<lparr>eip := e\<rparr>) = flag n c" "flag n (c\<lparr>INTR := b\<rparr>) = flag n c"
  by (simp_all add: flag_def)

section \<open>Waiting for an interrupt\<close>

text \<open>
  A machine that executes \<open>hlt\<close> at \<open>pc\<close>: interrupts enabled, none requested, no watchpoint set, no screen
  update due at the next tick.
\<close>

definition halted :: "nat set \<Rightarrow> u32 \<Rightarrow> nemu \<Rightarrow> bool" where
  "halted W pc s \<longleftrightarrow> flat_machine W (vm s) \<and> flat_ok W (vm s) pc 1 \<and> mem_view (mem (vm s)) (unat pc) = 0xf4 \<and>
     eip (cpu (vm s)) = pc \<and> IFl (cpu (vm s)) \<and> \<not> INTR (cpu (vm s)) \<and>
     IRR (master (pic (vm s))) = 0 \<and> IMR (master (pic (vm s))) = 0 \<and>
     nemu_state (vm s) = RUNNING \<and> head (wps s) = Null \<and>
     \<not> device_update_flag (sdl (vm s)) \<and> \<not> update_screen_flag (sdl (vm s))"

lemma wp_hlt:
  assumes "flat_machine W s" "flat_ok W s pc 1" "mem_view (mem s) (unat pc) = 0xf4"
    and "\<And>m d. flat_machine W (s\<lparr>mem := m\<rparr>) \<Longrightarrow> mem_view m = mem_view (mem s) \<Longrightarrow>
      Q 1 (s\<lparr>mem := m, ops_decoded := d, cpu := (if INTR (cpu s) then cpu s else (cpu s)\<lparr>eip := eip (cpu s) - 1\<rparr>)\<rparr>)"
  shows "wp (exec (Suc k) pc) Q s"
proof (rule wp_exec [OF assms(1,2)])
  show "load (unat pc) 1 (mem_view (mem s)) = 0xf4" using assms(3) by (simp add: load_byte)
  show "opcode_table k (exec k) ! unat (0xf4 :: u32) = hlt" by (simp add: opcode_table_def)
  fix m assume m: "flat_machine W (s\<lparr>mem := m\<rparr>)" "mem_view m = mem_view (mem s)"
  have "s\<lparr>mem := m, ops_decoded := d, cpu := cpu s\<rparr> = s\<lparr>mem := m, ops_decoded := d\<rparr>" for d by simp
  then show "wp (hlt pc) Q (s\<lparr>mem := m, ops_decoded := (ops_decoded s)\<lparr>opcode := 0xf4\<rparr>\<rparr>)"
    using assms(4) [OF m, of "(ops_decoded s)\<lparr>opcode := 0xf4\<rparr>"]
    by (cases "INTR (cpu s)") (simp_all add: hlt_def wp_simps)
qed

text \<open>What is left of a round after the instruction, when no watchpoint is set.\<close>

lemma check_WP_none: "head (wps s) = Null \<Longrightarrow> check_WP s = Ret True s"
  by (simp add: check_WP_def numeral_eq_Suc)

lemma wp_check_none [wp_simps]: "head (wps s) = Null \<Longrightarrow> wp check_WP Q s = Q True s"
  by (simp add: wp_def check_WP_none)

lemma wp_print_one:
  assumes "flat_machine W (vm s)" "flat_ok W (vm s) pc 1"
    and "\<And>m. flat_machine W ((vm s)\<lparr>mem := m\<rparr>) \<Longrightarrow> mem_view m = mem_view (mem (vm s)) \<Longrightarrow> Q () (s\<lparr>vm := (vm s)\<lparr>mem := m\<rparr>\<rparr>)"
  shows "wp (print_bin_instr pc 1) Q s"
proof -
  have "[0..<1] = [0 :: nat]" by simp
  then show ?thesis unfolding print_bin_instr_def
    by (simp add: wp_simps del: One_nat_def) (rule wp_fetch [OF assms(1,2)], use assms(3) in simp)
qed

lemma idle_step:
  assumes "halted W pc s"
  shows "wp (cpu_step (Suc k, 0, [])) (\<lambda>stop t. \<not> stop \<and> halted W pc t \<and> cpu (vm t) = cpu (vm s) \<and>
    mem_view (mem (vm t)) = mem_view (mem (vm s)) \<and> mmio (vm t) = mmio (vm s) \<and> sdl (vm t) = sdl (vm s)) s"
proof -
  from assms have h: "flat_machine W (vm s)" "flat_ok W (vm s) pc 1" "mem_view (mem (vm s)) (unat pc) = 0xf4"
    "eip (cpu (vm s)) = pc" "IFl (cpu (vm s))" "\<not> INTR (cpu (vm s))" "nemu_state (vm s) = RUNNING" "head (wps s) = Null"
    "\<not> device_update_flag (sdl (vm s))" by (simp_all add: halted_def)
  show ?thesis unfolding cpu_step_def
    by (simp add: wp_simps h(4) del: One_nat_def exec.simps, rule wp_hlt [OF h(1-3)],
        simp add: wp_simps h(4,6) del: One_nat_def, rule wp_print_one)
      (use h assms in \<open>simp_all add: wp_simps device_update_def whenM_def halted_def flag_def del: One_nat_def\<close>)
qed

text \<open>The tick: the first request of the timer makes the controller ask for interrupt 32.\<close>

lemma timer_requests:
  assumes "nemu_state s = RUNNING" "IRR (master (pic s)) = 0" "IMR (master (pic s)) = 0" "unat (jiffy (sdl s) + 1) mod 4 \<noteq> 0"
  shows "timer_sig_handler s = Ret () (s\<lparr>sdl := (sdl s)\<lparr>jiffy := jiffy (sdl s) + 1, device_update_flag := True\<rparr>,
    pic := (pic s)\<lparr>master := (master (pic s))\<lparr>IRR := 1, highest_irq := 0\<rparr>, intr_NO := 32\<rparr>, cpu := (cpu s)\<lparr>INTR := True\<rparr>\<rparr>)"
proof -
  have "ffo 1 0 = 0" by (simp add: ffo_def ffo_table_def)
  then show ?thesis using assms
    by (simp add: timer_sig_handler_def timer_intr_def i8259_raise_intr_def do_i8259_def on_master_def MASK_def
        seqM_def bindM_def run_simps)
qed

lemma timer_ack:
  assumes "IRR (master (pic s)) = 1" "IMR (master (pic s)) = 0" "intr_NO (pic s) = 32"
  shows "i8259_ack_intr s = Ret () (s\<lparr>pic := (pic s)\<lparr>master := (master (pic s))\<lparr>IRR := 0, highest_irq := -1\<rparr>\<rparr>, cpu := (cpu s)\<lparr>INTR := False\<rparr>\<rparr>)"
proof -
  have "ffo 0 0 = -1" by (simp add: ffo_def ffo_table_def)
  then show ?thesis using assms
    by (simp add: i8259_ack_intr_def do_i8259_def on_master_def MASK_def seqM_def bindM_def run_simps)
qed

lemma idle_rounds:
  assumes "halted W pc s" "m \<le> unat n"
  shows "\<exists>t. cpu_loop (replicate m (Suc k, 0, []) @ rs) n s = cpu_loop rs (n - of_nat m) t \<and> halted W pc t \<and>
    cpu (vm t) = cpu (vm s) \<and> mem_view (mem (vm t)) = mem_view (mem (vm s)) \<and> mmio (vm t) = mmio (vm s) \<and> sdl (vm t) = sdl (vm s)"
  using assms
proof (induction m arbitrary: n s)
  case (Suc m)
  have n: "n \<noteq> 0" using Suc.prems(2) by auto
  have u: "m \<le> unat (n - 1)" using unat_sub_nat [of 1 n] Suc.prems(2) by simp
  from wp_RetD [OF idle_step [OF Suc.prems(1), of k]] obtain t where t: "cpu_step (Suc k, 0, []) s = Ret False t" "halted W pc t"
    "cpu (vm t) = cpu (vm s)" "mem_view (mem (vm t)) = mem_view (mem (vm s))" "mmio (vm t) = mmio (vm s)" "sdl (vm t) = sdl (vm s)" by auto
  have "cpu_loop (replicate (Suc m) (Suc k, 0, []) @ rs) n s = cpu_loop (replicate m (Suc k, 0, []) @ rs) (n - 1) t"
    using n t(1) by (subst cpu_loop.simps) simp
  moreover have e: "n - 1 - of_nat m = n - of_nat (Suc m)" by (simp add: algebra_simps)
  ultimately show ?case using Suc.IH [OF t(2) u, unfolded e t(3-6)] by (simp only:)
qed auto

lemma tick_step:
  assumes h: "halted W pc s" and jiffy: "unat (jiffy (sdl (vm s)) + 1) mod 4 \<noteq> 0" and pe: "protect_enable (cpu (vm s))"
    and stack: "plain W (vm s) lo hi" "lo + 12 \<le> unat (esp (vm s))" "unat (esp (vm s)) \<le> hi"
    and tables: "plain W (vm s) tlo thi" "thi \<le> lo"
    and gate: "gate = dtr_base (idtr (cpu (vm s))) + 8 * 32" "tlo \<le> unat gate" "unat gate + 8 \<le> thi"
    and sel: "sel = ucast (load (unat gate + 2) 2 (mem_view (mem (vm s))))"
    and desc: "desc = dtr_base (gdtr (cpu (vm s))) + 8 * ucast (bits 3 13 sel)" "tlo \<le> unat desc" "unat desc + 8 \<le> thi"
    and zero: "load (unat desc + 2) 2 (mem_view (mem (vm s))) = 0" "load (unat desc + 4) 1 (mem_view (mem (vm s))) = 0"
      "load (unat desc + 7) 1 (mem_view (mem (vm s))) = 0"
  shows "jumps (cpu_step (Suc k, 1, [])) (\<lambda>t. flat_machine W (vm t) \<and>
      has_stack W lo hi L32 [pc + 1, ucast (selector (sreg (cpu (vm s)) 1)), eflags (cpu (vm s))] (vm t) \<and>
      gpr (cpu (vm t)) = (gpr (cpu (vm s)))(R_ESP := esp (vm s) - 12) \<and> selector (sreg (cpu (vm t)) 1) = sel \<and>
      eip (cpu (vm t)) = push_bit 16 (load (unat gate + 6) 2 (mem_view (mem (vm s)))) OR load (unat gate) 2 (mem_view (mem (vm s)))) s"
proof -
  let ?v = "vm s" let ?m = "mem_view (mem ?v)"
  let ?Q = "\<lambda>t. flat_machine W (vm t) \<and>
      has_stack W lo hi L32 [pc + 1, ucast (selector (sreg (cpu ?v) 1)), eflags (cpu ?v)] (vm t) \<and>
      gpr (cpu (vm t)) = (gpr (cpu ?v))(R_ESP := esp ?v - 12) \<and> selector (sreg (cpu (vm t)) 1) = sel \<and>
      eip (cpu (vm t)) = push_bit 16 (load (unat gate + 6) 2 ?m) OR load (unat gate) 2 ?m"
  from h have hs: "flat_machine W ?v" "flat_ok W ?v pc 1" "?m (unat pc) = 0xf4"
    "eip (cpu ?v) = pc" "IFl (cpu ?v)" "nemu_state ?v = RUNNING" "head (wps s) = Null"
    "\<not> update_screen_flag (sdl ?v)" "IRR (master (pic ?v)) = 0" "IMR (master (pic ?v)) = 0" by (simp_all add: halted_def)
  let ?u = "?v\<lparr>sdl := (sdl ?v)\<lparr>jiffy := jiffy (sdl ?v) + 1, device_update_flag := True\<rparr>,
    pic := (pic ?v)\<lparr>master := (master (pic ?v))\<lparr>IRR := 1, highest_irq := 0\<rparr>, intr_NO := 32\<rparr>, cpu := (cpu ?v)\<lparr>INTR := True\<rparr>\<rparr>"
  have tick: "timer_sig_handler ?v = Ret () ?u" by (rule timer_requests [OF hs(6,9,10) jiffy])
  have tickw: "wp timer_sig_handler Q ?v = Q () ?u" for Q using tick by (simp add: wp_def)
  have fu: "flat_machine W ?u" using hs(1) by simp
  have one: "[0..<1] = [0 :: nat]" by simp
  have enter: "jumps (raise_intr 32) (\<lambda>t. ?Q (s\<lparr>vm := t\<rparr>)) w"
    if w: "cpu w = (cpu ?v)\<lparr>INTR := False, eip := pc + 1\<rparr>" "mem_view (mem w) = ?m" "mmio w = mmio ?v" "flat_machine W w" for w
    by (rule jumps_mono [OF raise_intr_jumps [OF w(4), of lo hi tlo thi gate 32 sel desc]])
      (use w stack tables gate sel desc zero pe plain_congr [OF w(3)] in \<open>simp_all add: protect_enable_def\<close>)
  show ?thesis
    unfolding cpu_step_def
    apply (simp add: one del: One_nat_def exec.simps)
    apply (rule jumps_seqM)
    apply (simp add: wp_simps one tickw del: One_nat_def exec.simps)
    apply (rule jumps_bindM)
    apply (simp add: wp_simps hs(4) del: One_nat_def exec.simps)
    apply (rule jumps_bindM)
    apply (simp add: wp_simps del: One_nat_def exec.simps)
    apply (rule wp_hlt [of W])
       apply (simp_all add: hs fu del: One_nat_def)
    apply (rule jumps_seqM, simp add: wp_simps del: One_nat_def)
    apply (rule jumps_seqM, rule wp_print_one [of W])
    apply (simp add: flat_machine_def flat_cpu)
    apply (simp_all add: hs del: One_nat_def)
    apply (rule jumps_bindM, simp add: wp_simps hs del: One_nat_def)
    apply (rule jumps_seqM, simp add: wp_simps hs del: One_nat_def)
    apply (rule jumps_seqM, simp add: wp_simps hs device_update_def whenM_def del: One_nat_def)
    apply (rule jumps_bindM, simp add: wp_simps hs del: One_nat_def)
    apply (rule jumps_bindM, simp add: wp_simps hs del: One_nat_def)
    apply (rule jumps_bindM, simp add: wp_simps i8259_query_intr_def)
    apply (rule jumps_seqM, unfold wp_on_vm, rule wp_RetI [of i8259_ack_intr], rule timer_ack)
    apply (simp_all add: hs)
    apply (rule jumps_first, rule jumps_on_vm)
    by (rule jumps_mono [OF enter]) (simp_all add: hs flat_machine_def flat_cpu)
qed

text \<open>
  C22. Waiting in \<open>hlt\<close> ends with the next timer signal: from a state in flat protected mode that executes \<open>hlt\<close>
  with interrupts enabled and none requested, with no watchpoint and no screen update due now or at the next
  tick (which would run between the signal and the interrupt), \<open>cpu_exec\<close>'s loop goes through any number m of rounds without a signal, and in the
  round with the signal enters, through \<open>longjmp\<close>, the handler of interrupt 32, with the address behind
  \<open>hlt\<close> on top of the stack, no other register changed but ESP, and n decremented by m.
\<close>

theorem timer_wakes_hlt:
  assumes "halted W pc s" "unat (jiffy (sdl (vm s)) + 1) mod 4 \<noteq> 0" "protect_enable (cpu (vm s))"
    and "plain W (vm s) lo hi" "lo + 12 \<le> unat (gpr (cpu (vm s)) R_ESP)" "unat (gpr (cpu (vm s)) R_ESP) \<le> hi"
    and "plain W (vm s) tlo thi" "thi \<le> lo"
    and "gate = dtr_base (idtr (cpu (vm s))) + 8 * 32" "tlo \<le> unat gate" "unat gate + 8 \<le> thi"
    and "sel = ucast (load (unat gate + 2) 2 (mem_view (mem (vm s))))"
    and "desc = dtr_base (gdtr (cpu (vm s))) + 8 * ucast (bits 3 13 sel)" "tlo \<le> unat desc" "unat desc + 8 \<le> thi"
    and "load (unat desc + 2) 2 (mem_view (mem (vm s))) = 0" "load (unat desc + 4) 1 (mem_view (mem (vm s))) = 0"
      "load (unat desc + 7) 1 (mem_view (mem (vm s))) = 0"
    and "m < unat n"
  shows "\<exists>t. cpu_loop (replicate m (Suc k, 0, []) @ (Suc k, 1, []) # rs) n s = cpu_loop rs (n - of_nat m) t \<and>
      flat_machine W (vm t) \<and>
      eip (cpu (vm t)) = push_bit 16 (load (unat gate + 6) 2 (mem_view (mem (vm s)))) OR load (unat gate) 2 (mem_view (mem (vm s))) \<and>
      selector (sreg (cpu (vm t)) 1) = sel \<and>
      gpr (cpu (vm t)) = (gpr (cpu (vm s)))(R_ESP := gpr (cpu (vm s)) R_ESP - 12) \<and>
      load (unat (gpr (cpu (vm t)) R_ESP)) 4 (mem_view (mem (vm t))) = pc + 1"
proof -
  from idle_rounds [OF assms(1), of m n k "(Suc k, 1, []) # rs"] assms(19) obtain u where
    u: "cpu_loop (replicate m (Suc k, 0, []) @ (Suc k, 1, []) # rs) n s = cpu_loop ((Suc k, 1, []) # rs) (n - of_nat m) u"
      "halted W pc u" "cpu (vm u) = cpu (vm s)" "mem_view (mem (vm u)) = mem_view (mem (vm s))" "mmio (vm u) = mmio (vm s)"
      "sdl (vm u) = sdl (vm s)" by auto
  have "jumps (cpu_step (Suc k, 1, [])) (\<lambda>t. flat_machine W (vm t) \<and>
      has_stack W lo hi L32 [pc + 1, ucast (selector (sreg (cpu (vm u)) 1)), eflags (cpu (vm u))] (vm t) \<and>
      gpr (cpu (vm t)) = (gpr (cpu (vm u)))(R_ESP := esp (vm u) - 12) \<and> selector (sreg (cpu (vm t)) 1) = sel \<and>
      eip (cpu (vm t)) = push_bit 16 (load (unat gate + 6) 2 (mem_view (mem (vm u)))) OR load (unat gate) 2 (mem_view (mem (vm u)))) u"
    by (rule tick_step [OF u(2)]) (use assms plain_congr [OF u(5)] in \<open>simp_all add: u(3,4,6)\<close>)
  then obtain t where t: "cpu_step (Suc k, 1, []) u = Jmp t" "flat_machine W (vm t)"
      "has_stack W lo hi L32 [pc + 1, ucast (selector (sreg (cpu (vm u)) 1)), eflags (cpu (vm u))] (vm t)"
      "gpr (cpu (vm t)) = (gpr (cpu (vm u)))(R_ESP := esp (vm u) - 12)" "selector (sreg (cpu (vm t)) 1) = sel"
      "eip (cpu (vm t)) = push_bit 16 (load (unat gate + 6) 2 (mem_view (mem (vm u)))) OR load (unat gate) 2 (mem_view (mem (vm u)))"
    unfolding jumps_def by blast
  have "unat (n - of_nat m) = unat n - m" using assms(19) by (intro unat_sub_nat) simp
  then have "n - of_nat m \<noteq> 0" using assms(19) by auto
  then have "cpu_loop ((Suc k, 1, []) # rs) (n - of_nat m) u = cpu_loop rs (n - of_nat m) t"
    using t(1) by (subst cpu_loop.simps) simp
  moreover have "load (unat (esp (vm t))) 4 (mem_view (mem (vm t))) = pc + 1" using t(3) by (simp add: has_stack_def)
  ultimately show ?thesis using u t by (intro exI [of _ t]) simp
qed

text \<open>The debugger around a machine, with an empty watchpoint list, for examples.\<close>

definition nemu_with :: "machine \<Rightarrow> nemu" where
  "nemu_with m = \<lparr>vm = m,
     wps = \<lparr>wp_pool = (\<lambda>_. \<lparr>wp_NO = 0, wp_next = Null, wp_str = [], wp_val = 0\<rparr>), head = Null, free_list = Null\<rparr>,
     toks = \<lparr>tokens = (\<lambda>_. \<lparr>tk_type = TK_NONE, tk_str = []\<rparr>), nr_token = 0\<rparr>, symtab = [], printed = []\<rparr>"

lemma machine_with_idle [simp]:
  "IRR (master (pic (machine_with c f))) = 0" "IMR (master (pic (machine_with c f))) = 0"
  "sdl (machine_with c f) = \<lparr>jiffy = 0, device_update_flag = False, update_screen_flag = False\<rparr>"
  by (simp_all add: machine_with_def cold_machine_def)

lemma timer_wakes_hlt_witness:
  "\<exists>t. cpu_loop [(1, 0, []), (1, 0, []), (1, 1, [])] 3 (nemu_with
      ((machine_with (reset_cpu\<lparr>gpr := (\<lambda>_. 0x8000), eflags := 0x202, cr0 := 1,
          idtr := \<lparr>dtr_limit = 0x7FF, dtr_base = 0x1000\<rparr>, gdtr := \<lparr>dtr_limit = 15, dtr_base = 0x2000\<rparr>\<rparr>)
        (\<lambda>a. if a = 0x100000 then 0xf4 else if a = 0x1106 then 0x10 else if a = 0x1102 then 8 else 0))\<lparr>nemu_state := RUNNING\<rparr>))
     = cpu_loop [] 1 t \<and> eip (cpu (vm t)) = 0x100000"
proof -
  let ?c = "reset_cpu\<lparr>gpr := (\<lambda>_. 0x8000), eflags := 0x202, cr0 := 1,
          idtr := \<lparr>dtr_limit = 0x7FF, dtr_base = 0x1000\<rparr>, gdtr := \<lparr>dtr_limit = 15, dtr_base = 0x2000\<rparr>\<rparr>"
  let ?f = "\<lambda>a :: nat. if a = 0x100000 then 0xf4 else if a = 0x1106 then 0x10 else if a = 0x1102 then 8 else 0 :: u8"
  let ?m = "machine_with ?c ?f"
  let ?v = "?m\<lparr>nemu_state := RUNNING\<rparr>"
  have f: "flat_machine low_blocks ?v"
    using reset_flat [of ?c ?f] by (simp add: flat_machine_def flat_def vm_on_def paging_def bit_simps reset_cpu_def)
  have p: "plain low_blocks ?v lo hi" if "0 < lo" "hi \<le> 4194304" for lo hi
    using machine_with_plain [OF that, of ?c ?f] plain_congr [of ?v ?m] by simp
  have ok: "flat_ok low_blocks ?v 0x100000 1" by (rule plain_ok [OF p [of 1 "0x200000"]]) simp_all
  have h: "halted low_blocks 0x100000 (nemu_with ?v)"
    using f ok by (simp add: halted_def nemu_with_def reset_cpu_def flag_def bit_simps)
  have l: "load 0x1102 2 ?f = 8" "load 0x1106 2 ?f = 0x10" "load 0x1100 2 ?f = 0" by (simp_all add: load_def le32_def)
  have z: "load 0x200A 2 ?f = 0" "load 0x200C 1 ?f = 0" "load 0x200F 1 ?f = 0" by (simp_all add: load_def le32_def)
  have v: "vm (nemu_with ?v) = ?v" by (simp add: nemu_with_def)
  have "\<exists>t. cpu_loop (replicate 2 (Suc 0, 0, []) @ (Suc 0, 1, []) # []) 3 (nemu_with ?v) = cpu_loop [] (3 - of_nat 2) t \<and>
      flat_machine low_blocks (vm t) \<and>
      eip (cpu (vm t)) = push_bit 16 (load (unat (0x1100 :: u32) + 6) 2 (mem_view (mem (vm (nemu_with ?v))))) OR
        load (unat (0x1100 :: u32)) 2 (mem_view (mem (vm (nemu_with ?v)))) \<and>
      selector (sreg (cpu (vm t)) 1) = 8 \<and>
      gpr (cpu (vm t)) = (gpr (cpu (vm (nemu_with ?v))))(R_ESP := gpr (cpu (vm (nemu_with ?v))) R_ESP - 12) \<and>
      load (unat (gpr (cpu (vm t)) R_ESP)) 4 (mem_view (mem (vm t))) = 0x100000 + 1"
    by (rule timer_wakes_hlt [OF h, where lo = "0x3000" and hi = "0x9000" and tlo = "0x1000" and thi = "0x3000" and desc = "0x2008"])
      (use l z p in \<open>simp_all add: v protect_enable_def bits_def\<close>)
  moreover have r: "replicate 2 (Suc 0, 0, []) @ (Suc 0, 1, []) # [] = ([(1, 0, []), (1, 0, []), (1, 1, [])] :: round_input list)"
    by (simp add: numeral_2_eq_2)
  ultimately show ?thesis unfolding r using l by (auto simp: v)
qed

end
