(* ===== verification/Kernel_Memory.thy ===== *)
theory Kernel_Memory
  imports Paging System
begin

unbundle bit_operations_syntax

text \<open>
  The tables the kernel builds for the processor: the page directory and page tables of
  kernel/src/memory/kvm.c, mm.c and vmem.c, the segment descriptors of kvm.c and the interrupt gates of
  kernel/src/irq/idt.c, as functions on the bytes of physical memory. The addresses of the tables
  are fixed by the linker; they are arguments.
\<close>

section \<open>Entries\<close>

abbreviation (input) KOFFSET :: u32 where "KOFFSET \<equiv> 0xC0000000"
abbreviation (input) PHY_MEM :: nat where "PHY_MEM \<equiv> 128 * 1024 * 1024"
abbreviation (input) PAGE_SIZE :: nat where "PAGE_SIZE \<equiv> 4096"
abbreviation (input) NR_PDE :: nat where "NR_PDE \<equiv> 1024"
abbreviation (input) NR_PTE :: nat where "NR_PTE \<equiv> 1024"
abbreviation (input) PT_SIZE :: nat where "PT_SIZE \<equiv> 1024 * 4096"

definition va_to_pa :: "u32 \<Rightarrow> u32" where
  "va_to_pa addr = addr - KOFFSET"

definition make_pde :: "u32 \<Rightarrow> u32" where
  "make_pde addr = (addr AND 0xfffff000) OR 0x7"

definition make_pte :: "u32 \<Rightarrow> u32" where
  "make_pte addr = (addr AND 0xfffff000) OR 0x7"

text \<open>\<open>memset(p, 0, n)\<close>, and storing \<open>val\<close> in entry \<open>i\<close> of a table.\<close>

definition clear_bytes :: "nat \<Rightarrow> nat \<Rightarrow> bytes \<Rightarrow> bytes" where
  "clear_bytes p n m = (\<lambda>k. if p \<le> k \<and> k < p + n then 0 else m k)"

definition set_entry :: "u32 \<Rightarrow> nat \<Rightarrow> u32 \<Rightarrow> bytes \<Rightarrow> bytes" where
  "set_entry table i v = store (unat table + 4 * i) 4 v"

section \<open>Kernel page tables\<close>

text \<open>
  The assembly loop \<open>std; 1: stosl; subl $PAGE_SIZE, %eax; jge 1b; cld\<close>: the jump is taken while the
  signed difference is not negative.
\<close>

function fill_ptes :: "u32 \<Rightarrow> u32 \<Rightarrow> bytes \<Rightarrow> bytes" where
  "fill_ptes edi eax m =
     (let m = store (unat edi) 4 eax m in
      if of_nat PAGE_SIZE <=s eax then fill_ptes (edi - 4) (eax - of_nat PAGE_SIZE) m else m)"
  by pat_completeness auto

termination
proof (relation "measure (\<lambda>(edi, eax, m). unat eax)")
  fix edi eax :: u32 and m m' :: bytes
  assume le: "of_nat PAGE_SIZE <=s eax"
  have "\<not> unat eax < 4096"
  proof
    assume lt: "unat eax < 4096"
    then have "sint eax = int (unat eax)" by (intro sint_small) simp
    then have "sint eax < 4096" using lt by linarith
    with le show False by (simp add: word_sle_eq del: sint_small)
  qed
  then have "unat (eax - 4096) = unat eax - 4096" by (simp add: unat_sub word_le_nat_alt)
  with \<open>\<not> unat eax < 4096\<close> show "((edi - 4, eax - of_nat PAGE_SIZE, m'), edi, eax, m) \<in> measure (\<lambda>(edi, eax, m). unat eax)"
    by simp
qed simp

declare fill_ptes.simps [simp del]

text \<open>
  \<open>init_page\<close> runs before paging is on; \<open>pdir\<close> and \<open>ptable\<close> are the physical addresses of
  \<open>kpdir\<close> and \<open>kptable\<close>. The new values of the control registers are returned.
\<close>

definition fill_pdes :: "u32 \<Rightarrow> u32 \<Rightarrow> bytes \<Rightarrow> bytes" where
  "fill_pdes pdir ptable m = fold (\<lambda>i m.
     set_entry pdir (i + unat KOFFSET div PT_SIZE) (make_pde (ptable + of_nat (i * NR_PTE * 4)))
       (set_entry pdir i (make_pde (ptable + of_nat (i * NR_PTE * 4))) m)) [0..<PHY_MEM div PT_SIZE] m"

definition init_page :: "u32 \<Rightarrow> u32 \<Rightarrow> u32 \<Rightarrow> bytes \<Rightarrow> bytes \<times> u32 \<times> u32" where
  "init_page kpdir kptable c m =
     (let pdir = va_to_pa kpdir; ptable = va_to_pa kptable;
          m = clear_bytes (unat pdir) (NR_PDE * 4) m;
          m = fill_pdes pdir ptable m;
          ptable_end = ptable + of_nat (PHY_MEM div PT_SIZE * NR_PTE * 4);
          m = fill_ptes (ptable_end - 4) (of_nat (PHY_MEM - PAGE_SIZE) OR 0x7) m
      in (m, put_bits 12 20 (drop_bit 12 pdir) 0, put_bits 31 1 1 c))"

section \<open>User page tables\<close>

text \<open>\<open>updir\<close>, \<open>kpdir\<close> and \<open>table\<close> are virtual addresses of the kernel; the tables lie in physical memory below them.\<close>

definition copy_bytes_pa :: "nat \<Rightarrow> nat \<Rightarrow> nat \<Rightarrow> bytes \<Rightarrow> bytes" where
  "copy_bytes_pa d s n m = (\<lambda>k. if d \<le> k \<and> k < d + n then m (s + (k - d)) else m k)"

definition init_mm :: "u32 \<Rightarrow> u32 \<Rightarrow> bytes \<Rightarrow> bytes \<times> u32" where
  "init_mm updir kpdir m =
     (let up = unat (va_to_pa updir); kp = unat (va_to_pa kpdir); off = 4 * (unat KOFFSET div PT_SIZE);
          m = clear_bytes up (NR_PDE * 4) m;
          m = copy_bytes_pa (up + off) (kp + off) (PHY_MEM div PT_SIZE * 4) m
      in (m, va_to_pa updir AND NOT 0xfff))"

abbreviation (input) VMEM_ADDR :: u32 where "VMEM_ADDR \<equiv> 0xa0000"
abbreviation (input) SCR_SIZE :: nat where "SCR_SIZE \<equiv> 320 * 200"

definition create_video_mapping :: "u32 \<Rightarrow> u32 \<Rightarrow> bytes \<Rightarrow> bytes" where
  "create_video_mapping updir table m =
     (let m = clear_bytes (unat (va_to_pa table)) (NR_PTE * 4) m;
          m = set_entry (va_to_pa updir) (unat (drop_bit 22 VMEM_ADDR AND 0x3ff)) (make_pde (va_to_pa table)) m;
          start = unat (drop_bit 12 VMEM_ADDR AND 0x3ff)
      in fold (\<lambda>i m. set_entry (va_to_pa table) (start + i) (make_pte (VMEM_ADDR + of_nat (PAGE_SIZE * i))) m)
           [0..<SCR_SIZE div PAGE_SIZE + 1] m)"

section \<open>Segment descriptors and gates\<close>

text \<open>All fields of a descriptor are assigned, so its two words are determined.\<close>

definition bit_fields :: "(nat \<times> nat \<times> u32) list \<Rightarrow> u32" where
  "bit_fields fs = fold (\<lambda>(lo, w, v) x. put_bits lo w v x) fs 0"

definition set_segment :: "u32 \<Rightarrow> u32 \<Rightarrow> u32 \<times> u32" where
  "set_segment pl type =
     (bit_fields [(0, 16, 0xFFFF), (16, 16, 0x0)],
      bit_fields [(0, 8, 0x0), (8, 4, type), (12, 1, 1), (13, 2, pl), (15, 1, 1), (16, 4, 0xF), (20, 1, 0),
        (21, 1, 0), (22, 1, 1), (23, 1, 1), (24, 8, 0x0)])"

definition store_desc :: "nat \<Rightarrow> u32 \<times> u32 \<Rightarrow> bytes \<Rightarrow> bytes" where
  "store_desc a d m = store (a + 4) 4 (snd d) (store a 4 (fst d) m)"

definition init_segment :: "nat \<Rightarrow> bytes \<Rightarrow> bytes" where
  "init_segment gdt m =
     (let m = clear_bytes gdt (3 * 8) m;
          m = store_desc (gdt + 8 * 1) (set_segment 0 (0x8 OR 0x2)) m
      in store_desc (gdt + 8 * 2) (set_segment 0 0x2) m)"

definition set_gate :: "u32 \<Rightarrow> u32 \<Rightarrow> u32 \<Rightarrow> u32 \<Rightarrow> u32 \<times> u32" where
  "set_gate type seg offset dpl =
     (bit_fields [(0, 16, offset AND 0xFFFF), (16, 16, seg)],
      bit_fields [(0, 8, 0), (8, 4, type), (12, 1, 0), (13, 2, dpl), (15, 1, 1), (16, 16, drop_bit 16 offset AND 0xFFFF)])"

definition set_intr :: "u32 \<Rightarrow> u32 \<Rightarrow> u32 \<Rightarrow> u32 \<times> u32" where
  "set_intr = set_gate 0xE"

definition set_trap :: "u32 \<Rightarrow> u32 \<Rightarrow> u32 \<Rightarrow> u32 \<times> u32" where
  "set_trap = set_gate 0xF"

text \<open>The addresses of the entry points of do_irq.S.\<close>

record entry_points =
  vec :: "nat \<Rightarrow> u32"
  vecsys :: u32
  irq0 :: u32
  irq1 :: u32
  irq14 :: u32
  irq_empty :: u32

definition init_idt :: "entry_points \<Rightarrow> nat \<Rightarrow> bytes \<Rightarrow> bytes" where
  "init_idt E idt m =
     (let gate = (\<lambda>i g m. store_desc (idt + 8 * i) g m);
          m = fold (\<lambda>i. gate i (set_trap (1 * 8) (irq_empty E) 0)) [0..<256] m;
          m = fold (\<lambda>i. gate i (set_trap (1 * 8) (vec E i) 0)) [0..<15] m;
          m = gate 0x80 (set_trap (1 * 8) (vecsys E) 3) m;
          m = gate (32 + 1) (set_intr (1 * 8) (irq1 E) 0) m;
          m = gate (32 + 0) (set_intr (1 * 8) (irq0 E) 0) m
      in gate (32 + 14) (set_intr (1 * 8) (irq14 E) 0) m)"

text \<open>The three half-words that \<open>lgdt\<close> and \<open>lidt\<close> read.\<close>

definition write_gdtr :: "u32 \<Rightarrow> u32 \<Rightarrow> u16 list" where
  "write_gdtr addr n = [ucast (n - 1), ucast addr, ucast (drop_bit 16 addr)]"

definition write_idtr :: "u32 \<Rightarrow> u32 \<Rightarrow> u16 list" where
  "write_idtr addr n = [ucast (n - 1), ucast addr, ucast (drop_bit 16 addr)]"

end
