(* ===== verification/Kernel_Memory_Props.thy ===== *)
theory Kernel_Memory_Props
  imports Kernel_Memory Stack_Props
begin

unbundle bit_operations_syntax

text \<open>
  What the tables of the kernel mean to the emulated processor: the page tables built by \<open>init_page\<close>,
  \<open>init_mm\<close> and \<open>create_video_mapping\<close> under the page walk of the memory model, and the contents of
  the descriptors and gates built by \<open>init_segment\<close> and \<open>init_idt\<close>. Interrupt delivery through
  them, with these page tables in force, is in \<open>Kernel_Vectors\<close>.
\<close>

section \<open>Aligned addresses\<close>

lemma page_or: "unat (p :: u32) mod 4096 = 0 \<Longrightarrow> unat x < 4096 \<Longrightarrow> unat (p OR x) = unat p + unat x"
proof -
  assume p: "unat p mod 4096 = 0" and x: "unat x < 4096"
  have "p AND NOT (mask 12) = p" using p by (simp add: word_unat_eq_iff unat_and_not_low)
  moreover have "x AND mask 12 = x" using x by (simp add: word_unat_eq_iff unat_and_low)
  ultimately show ?thesis using unat_page_join [of p 12 x] p x by simp
qed

lemma frame_of_aligned: "unat (p :: u32) mod 4096 = 0 \<Longrightarrow> push_bit 12 (drop_bit 12 p) = p"
proof -
  assume "unat p mod 4096 = 0"
  then have "p AND NOT (mask 12) = p" by (simp add: word_unat_eq_iff unat_and_not_low)
  moreover have "push_bit 12 (drop_bit 12 p) = p AND NOT (mask 12)" by (rule bit_word_eqI) (auto simp: bit_simps)
  ultimately show ?thesis by simp
qed

lemma high_mask: "(0xfffff000 :: u32) = NOT (mask 12)"
  by (simp add: mask_eq_exp_minus_1)

lemma entry_fields:
  assumes "unat p mod 4096 = 0"
  shows "pte_present (make_pde p)" "push_bit 12 (pte_page_frame (make_pde p)) = p" "make_pte p = make_pde p"
proof -
  have seven: "(0x7 :: u32) = mask 3" by (simp add: mask_eq_exp_minus_1)
  show "pte_present (make_pde p)" unfolding pte_present_def make_pde_def seven by (simp add: bit_simps)
  have "push_bit 12 (pte_page_frame (make_pde p)) = push_bit 12 (drop_bit 12 p)"
    unfolding make_pde_def pte_page_frame_def high_mask seven
    by (rule bit_word_eqI) (auto simp: bit_simps bit_bits)
  then show "push_bit 12 (pte_page_frame (make_pde p)) = p" using frame_of_aligned [OF assms] by simp
  show "make_pte p = make_pde p" by (simp add: make_pte_def make_pde_def)
qed

text \<open>The two table lookups of the walk, as positions in memory.\<close>

definition dir_of :: "u32 \<Rightarrow> nat" where "dir_of a = unat a div 4194304"
definition page_of :: "u32 \<Rightarrow> nat" where "page_of a = unat a div 4096 mod 1024"

lemma dir_page_bound: "dir_of a < 1024" "page_of a < 1024"
proof -
  have "unat a < 2 ^ 32" using unsigned_less [of a] by simp
  then show "dir_of a < 1024" by (simp add: dir_of_def less_mult_imp_div_less)
  show "page_of a < 1024" by (simp add: page_of_def)
qed

lemma shifted_index:
  "unat (push_bit 2 (drop_bit 22 a) :: u32) = 4 * dir_of a" "unat (push_bit 2 (drop_bit 12 a AND 0x3ff) :: u32) = 4 * page_of a"
proof -
  have ten: "(0x3ff :: u32) = mask 10" by (simp add: mask_eq_exp_minus_1)
  have d: "unat (drop_bit 22 a) = dir_of a" by (simp add: unat_drop_bit dir_of_def)
  have p: "unat (drop_bit 12 a AND 0x3ff) = page_of a" unfolding ten by (simp add: unat_and_low unat_drop_bit page_of_def)
  show "unat (push_bit 2 (drop_bit 22 a) :: u32) = 4 * dir_of a"
    using dir_page_bound(1) [of a] by (simp add: push_bit_eq_mult unat_word_ariths d)
  show "unat (push_bit 2 (drop_bit 12 a AND 0x3ff) :: u32) = 4 * page_of a"
    using dir_page_bound(2) [of a] by (simp add: push_bit_eq_mult unat_word_ariths p)
qed

definition entry :: "bytes \<Rightarrow> u32 \<Rightarrow> nat \<Rightarrow> u32" where
  "entry m table i = load (unat table + 4 * i) 4 m"

lemma pde_at: "unat (pdir :: u32) mod 4096 = 0 \<Longrightarrow> unat (pde_addr (drop_bit 12 pdir) a) = unat pdir + 4 * dir_of a"
  unfolding pde_addr_def using dir_page_bound(1) [of a]
  by (simp add: frame_of_aligned, subst page_or) (simp_all add: shifted_index)

lemma pte_at: "unat (table :: u32) mod 4096 = 0 \<Longrightarrow> unat (pte_addr (make_pde table) a) = unat table + 4 * page_of a"
  unfolding pte_addr_def using dir_page_bound(2) [of a]
  by (simp only: entry_fields(2), subst page_or) (simp_all only: shifted_index)

lemma walk_entries:
  assumes dir: "unat pdir mod 4096 = 0"
    and pde: "entry m pdir (dir_of a) = (if present then make_pde table else 0)" and table: "unat table mod 4096 = 0"
  shows "walk m (drop_bit 12 pdir) a = (if present \<and> pte_present (entry m table (page_of a))
     then Some ((a AND 0xfff) OR push_bit 12 (pte_page_frame (entry m table (page_of a)))) else None)"
proof -
  note i = pde_at [OF dir, of a]
  show ?thesis
  proof (cases present)
    case True
    from pte_at [OF table, of a] True pde i show ?thesis
      by (simp add: walk_def Let_def entry_def entry_fields(1) [OF table])
  next
    case False
    with pde i show ?thesis by (simp add: walk_def Let_def entry_def pte_present_def)
  qed
qed

text \<open>A page that is mapped to the aligned address \<open>f\<close>.\<close>

lemma page_offset:
  assumes "unat f mod 4096 = 0"
  shows "unat ((a AND 0xfff) OR push_bit 12 (pte_page_frame (make_pde f))) = unat f + unat (a :: u32) mod 4096"
proof -
  have lo: "unat (a AND 0xfff) = unat a mod 4096"
    using unat_and_low [of 12 a] by (simp add: mask_eq_exp_minus_1)
  have "(a AND 0xfff) OR f = f OR (a AND 0xfff)" by (rule or.commute)
  then show ?thesis unfolding entry_fields(2) [OF assms] using page_or [OF assms, of "a AND 0xfff"] lo by simp
qed

section \<open>Filling tables\<close>

lemma entry_set_entry:
  "entry (set_entry t i v m) t j = (if i = j then v else entry m t j)"
proof (cases "i = j")
  case True
  then show ?thesis by (simp add: entry_def set_entry_def)
next
  case False
  then have "i < j \<or> j < i" by linarith
  then show ?thesis using False by (auto simp: entry_def set_entry_def intro!: load_store_other)
qed

lemma set_entry_outside: "k < unat t + 4 * i \<or> unat t + 4 * i + 4 \<le> k \<Longrightarrow> set_entry t i v m k = m k"
  by (simp add: set_entry_def)

text \<open>Memory outside a range is the same.\<close>

definition same_outside :: "nat \<Rightarrow> nat \<Rightarrow> bytes \<Rightarrow> bytes \<Rightarrow> bool" where
  "same_outside lo hi m m' \<longleftrightarrow> (\<forall>k. k < lo \<or> hi \<le> k \<longrightarrow> m' k = m k)"

lemma same_outside_trans: "same_outside lo hi m m' \<Longrightarrow> same_outside lo hi m' m'' \<Longrightarrow> same_outside lo hi m m''"
  by (simp add: same_outside_def)

lemma same_outside_set_entry: "i < n \<Longrightarrow> same_outside (unat t) (unat t + 4 * n) m (set_entry t i v m)"
  unfolding same_outside_def by (intro allI impI set_entry_outside) auto

lemma same_outside_clear: "same_outside p (p + n) m (clear_bytes p n m)"
  by (simp add: same_outside_def clear_bytes_def)

lemma entry_same_outside:
  assumes "same_outside lo hi m m'" "unat t + 4 * i + 4 \<le> lo \<or> hi \<le> unat t + 4 * i"
  shows "entry m' t i = entry m t i"
  unfolding entry_def by (rule load_cong) (use assms in \<open>auto simp: same_outside_def\<close>)

lemma entry_clear: "i < n \<Longrightarrow> entry (clear_bytes (unat t) (4 * n) m) t i = 0"
proof (rule u32_eq_bytesI)
  fix j :: nat assume "i < n" "j < 4"
  then show "byte_at j (entry (clear_bytes (unat t) (4 * n) m) t i) = byte_at j 0"
    by (simp add: entry_def byte_at_load clear_bytes_def)
qed

text \<open>A loop that fills entries \<open>f 0, ..., f (n - 1)\<close> of one table.\<close>

lemma fold_set_entries:
  assumes "inj f" "\<And>i. i < n \<Longrightarrow> f i < b"
  shows "same_outside (unat t) (unat t + 4 * b) m (fold (\<lambda>i. set_entry t (f i) (v i)) [0..<n] m) \<and>
    (\<forall>i<n. entry (fold (\<lambda>i. set_entry t (f i) (v i)) [0..<n] m) t (f i) = v i) \<and>
    (\<forall>j. (\<forall>i<n. j \<noteq> f i) \<longrightarrow> entry (fold (\<lambda>i. set_entry t (f i) (v i)) [0..<n] m) t j = entry m t j)"
  using assms(2)
proof (induction n)
  case 0
  then show ?case by (simp add: same_outside_def)
next
  case (Suc n)
  let ?m = "fold (\<lambda>i. set_entry t (f i) (v i)) [0..<n] m"
  have IH: "same_outside (unat t) (unat t + 4 * b) m ?m" "\<forall>i<n. entry ?m t (f i) = v i"
    "\<forall>j. (\<forall>i<n. j \<noteq> f i) \<longrightarrow> entry ?m t j = entry m t j" using Suc by auto
  have step: "fold (\<lambda>i. set_entry t (f i) (v i)) [0..<Suc n] m = set_entry t (f n) (v n) ?m" by simp
  have "f n \<noteq> f i" if "i < n" for i using assms(1) that by (auto dest: injD)
  then show ?case unfolding step
    using IH same_outside_trans [OF IH(1) same_outside_set_entry [of "f n" b]] Suc.prems
    by (auto simp: entry_set_entry less_Suc_eq)
qed

lemma fill_pdes_split:
  "fill_pdes pdir pt m = fold (\<lambda>i m. set_entry pdir (i + 768) (make_pde (pt + of_nat (i * 4096)))
     (set_entry pdir i (make_pde (pt + of_nat (i * 4096))) m)) [0..<32] m"
  by (simp add: fill_pdes_def mult.commute)

lemma fill_pdes_entries:
  "same_outside (unat pdir) (unat pdir + 4096) m (fill_pdes pdir pt m) \<and>
   (\<forall>d. entry (fill_pdes pdir pt m) pdir d = (if d < 32 then make_pde (pt + of_nat (d * 4096))
     else if 768 \<le> d \<and> d < 800 then make_pde (pt + of_nat ((d - 768) * 4096)) else entry m pdir d))"
proof -
  let ?g = "\<lambda>i m. set_entry pdir (i + 768) (make_pde (pt + of_nat (i * 4096)))
     (set_entry pdir i (make_pde (pt + of_nat (i * 4096))) m)"
  have "same_outside (unat pdir) (unat pdir + 4096) m (fold ?g [0..<n] m) \<and>
    (\<forall>d. entry (fold ?g [0..<n] m) pdir d = (if d < n then make_pde (pt + of_nat (d * 4096))
     else if 768 \<le> d \<and> d < 768 + n then make_pde (pt + of_nat ((d - 768) * 4096)) else entry m pdir d))"
    if "n \<le> 32" for n
    using that
  proof (induction n)
    case 0
    then show ?case by (auto simp: same_outside_def)
  next
    case (Suc n)
    then have IH: "same_outside (unat pdir) (unat pdir + 4096) m (fold ?g [0..<n] m)"
      "\<And>d. entry (fold ?g [0..<n] m) pdir d = (if d < n then make_pde (pt + of_nat (d * 4096))
     else if 768 \<le> d \<and> d < 768 + n then make_pde (pt + of_nat ((d - 768) * 4096)) else entry m pdir d)" by auto
    have out: "same_outside (unat pdir) (unat pdir + 4096) x (set_entry pdir i v x)" if "i < 1024" for i v x
      using same_outside_set_entry [OF that, of pdir x v] by simp
    have "same_outside (unat pdir) (unat pdir + 4096) m (?g n (fold ?g [0..<n] m))"
      using Suc.prems by (intro same_outside_trans [OF same_outside_trans [OF IH(1) out] out]) simp_all
    moreover have "entry (?g n (fold ?g [0..<n] m)) pdir d = (if d < Suc n then make_pde (pt + of_nat (d * 4096))
     else if 768 \<le> d \<and> d < 768 + Suc n then make_pde (pt + of_nat ((d - 768) * 4096)) else entry m pdir d)" for d
      using Suc.prems by (auto simp: entry_set_entry IH(2) simp del: of_nat_mult)
    ultimately show ?case by simp
  qed
  from this [of 32] show ?thesis unfolding fill_pdes_split by simp
qed

lemma low_bits_entry: "i < 1048576 \<Longrightarrow> make_pde (of_nat (4096 * i)) = of_nat (4096 * i + 7)"
proof -
  assume i: "i < 1048576"
  let ?p = "of_nat (4096 * i) :: u32"
  have u: "unat ?p = 4096 * i" using i by (simp add: unat_of_nat del: of_nat_mult)
  then have al: "?p AND NOT (mask 12) = ?p" by (simp add: word_unat_eq_iff unat_and_not_low)
  have "unat (?p OR 7) = 4096 * i + 7" using u by (subst page_or) simp_all
  moreover have "unat (of_nat (4096 * i + 7) :: u32) = 4096 * i + 7" using i by (simp add: unat_of_nat del: of_nat_mult of_nat_add)
  ultimately have "?p OR 7 = of_nat (4096 * i + 7)" by (simp add: word_unat_eq_iff del: of_nat_mult of_nat_add)
  then show ?thesis unfolding make_pde_def high_mask al .
qed

lemma fill_ptes_entries:
  assumes "unat pt + 4 * Suc j \<le> 2 ^ 32" "j < 32768"
  shows "same_outside (unat pt) (unat pt + 4 * Suc j) m (fill_ptes (pt + of_nat (4 * j)) (of_nat (4096 * j + 7)) m) \<and>
    (\<forall>i\<le>j. entry (fill_ptes (pt + of_nat (4 * j)) (of_nat (4096 * j + 7)) m) pt i = of_nat (4096 * i + 7))"
  using assms
proof (induction j arbitrary: m)
  case 0
  have s: "sint (7 :: u32) = 7" "sint (4096 :: u32) = 4096" by simp_all
  have "fill_ptes pt 7 m = set_entry pt 0 7 m"
    by (subst fill_ptes.simps) (simp add: word_sle_eq s set_entry_def)
  then show ?case using same_outside_set_entry [of 0 1 pt m 7] by (simp add: entry_set_entry)
next
  case (Suc j)
  let ?e = "of_nat (4096 * Suc j + 7) :: u32"
  have ue: "unat ?e = 4096 * Suc j + 7" using Suc.prems(2) by (simp add: unat_of_nat del: of_nat_mult of_nat_add of_nat_Suc)
  then have se: "sint ?e = int (4096 * Suc j + 7)" using Suc.prems(2) by (subst sint_small) simp_all
  have down: "?e - of_nat 4096 = of_nat (4096 * j + 7)" "(pt + of_nat (4 * Suc j)) - 4 = pt + of_nat (4 * j)"
    by (simp_all add: algebra_simps)
  have ua: "unat (pt + of_nat (4 * Suc j)) = unat pt + 4 * Suc j"
    using Suc.prems by (simp add: unat_word_ariths unat_of_nat del: of_nat_mult of_nat_add of_nat_Suc)
  have "of_nat 4096 <=s ?e" unfolding word_sle_eq se by simp
  then have step: "fill_ptes (pt + of_nat (4 * Suc j)) ?e m = fill_ptes (pt + of_nat (4 * j)) (of_nat (4096 * j + 7)) (set_entry pt (Suc j) ?e m)"
    by (subst fill_ptes.simps) (simp only: Let_def if_True down ua set_entry_def)
  let ?m = "set_entry pt (Suc j) ?e m"
  have IH: "same_outside (unat pt) (unat pt + 4 * Suc j) ?m (fill_ptes (pt + of_nat (4 * j)) (of_nat (4096 * j + 7)) ?m)"
    "\<forall>i\<le>j. entry (fill_ptes (pt + of_nat (4 * j)) (of_nat (4096 * j + 7)) ?m) pt i = of_nat (4096 * i + 7)"
    using Suc.IH [of ?m] Suc.prems by auto
  have "entry (fill_ptes (pt + of_nat (4 * j)) (of_nat (4096 * j + 7)) ?m) pt (Suc j) = ?e"
    using entry_same_outside [OF IH(1), of pt "Suc j"] by (simp add: entry_set_entry)
  moreover have "same_outside (unat pt) (unat pt + 4 * Suc (Suc j)) m (fill_ptes (pt + of_nat (4 * j)) (of_nat (4096 * j + 7)) ?m)"
    using IH(1) same_outside_set_entry [of "Suc j" "Suc (Suc j)" pt m ?e] by (auto simp: same_outside_def)
  ultimately show ?case unfolding step using IH(2) by (auto simp: le_Suc_eq)
qed

section \<open>The kernel's address space\<close>

definition kernel_range :: "u32 \<Rightarrow> bool" where
  "kernel_range a \<longleftrightarrow> 0xC0000000 \<le> unat a \<and> unat a < 0xC8000000"

definition aligned :: "u32 \<Rightarrow> nat \<Rightarrow> bool" where
  "aligned p n \<longleftrightarrow> unat p mod 4096 = 0 \<and> unat p + n \<le> 134217728"

definition apart :: "u32 \<Rightarrow> nat \<Rightarrow> u32 \<Rightarrow> nat \<Rightarrow> bool" where
  "apart p n q k \<longleftrightarrow> unat p + n \<le> unat q \<or> unat q + k \<le> unat p"

text \<open>A directory and the flat page tables behind it.\<close>

definition flat_tables :: "bytes \<Rightarrow> u32 \<Rightarrow> bool" where
  "flat_tables m pt \<longleftrightarrow> aligned pt 131072 \<and> (\<forall>i<32768. entry m pt i = make_pde (of_nat (4096 * i)))"

lemma sub_table:
  assumes "flat_tables m pt" "d < 32"
  shows "unat (pt + of_nat (d * 4096)) mod 4096 = 0" "p < 1024 \<Longrightarrow> entry m (pt + of_nat (d * 4096)) p = make_pde (of_nat (4096 * (1024 * d + p)))"
proof -
  have u: "unat (pt + of_nat (d * 4096)) = unat pt + d * 4096"
    using assms by (simp add: flat_tables_def aligned_def unat_word_ariths unat_of_nat del: of_nat_mult)
  then show "unat (pt + of_nat (d * 4096)) mod 4096 = 0" using assms by (simp add: flat_tables_def aligned_def)
  have "entry m (pt + of_nat (d * 4096)) p = entry m pt (1024 * d + p)"
    unfolding entry_def u by (simp add: algebra_simps)
  then show "entry m (pt + of_nat (d * 4096)) p = make_pde (of_nat (4096 * (1024 * d + p)))" if "p < 1024"
    using assms that by (simp add: flat_tables_def del: of_nat_mult)
qed

text \<open>If a directory entry points to the flat table for directory \<open>d\<close>, the page is the one at offset \<open>4 MiB * d\<close>.\<close>

lemma walk_flat:
  assumes dir: "unat pdir mod 4096 = 0" and tabs: "flat_tables m pt" and d: "d < 32"
    and pde: "entry m pdir (dir_of a) = make_pde (pt + of_nat (d * 4096))" and le_d: "d \<le> dir_of a"
  shows "walk m (drop_bit 12 pdir) a = Some (a - of_nat ((dir_of a - d) * 4194304))"
proof -
  let ?f = "of_nat (4096 * (1024 * d + page_of a)) :: u32"
  note sub = sub_table [OF tabs d]
  have e: "entry m (pt + of_nat (d * 4096)) (page_of a) = make_pde ?f" by (rule sub(2)) (rule dir_page_bound)
  have uf: "unat ?f = 4096 * (1024 * d + page_of a)"
    using d dir_page_bound(2) [of a] by (simp add: unat_of_nat del: of_nat_mult of_nat_add)
  then have al: "unat ?f mod 4096 = 0" by simp
  have w: "walk m (drop_bit 12 pdir) a = Some ((a AND 0xfff) OR push_bit 12 (pte_page_frame (make_pde ?f)))"
    using walk_entries [OF dir _ sub(1), where present = True and m = m] pde e entry_fields(1) [OF al] by simp
  have split: "unat a = dir_of a * 4194304 + page_of a * 4096 + unat a mod 4096"
  proof -
    have q: "unat a div 4096 div 1024 = dir_of a" by (simp add: dir_of_def div_mult2_eq [symmetric])
    have "unat a div 4096 = dir_of a * 1024 + page_of a"
      using div_mult_mod_eq [of "unat a div 4096" 1024] unfolding q page_of_def by (rule sym)
    moreover have "unat a = unat a div 4096 * 4096 + unat a mod 4096" by (rule div_mult_mod_eq [symmetric])
    ultimately show ?thesis by linarith
  qed
  have k: "unat (of_nat ((dir_of a - d) * 4194304) :: u32) = (dir_of a - d) * 4194304"
    using dir_page_bound(1) [of a] by (simp add: unat_of_nat del: of_nat_mult)
  have le: "(dir_of a - d) * 4194304 \<le> unat a" using split by (simp add: algebra_simps)
  have "unat (a - of_nat ((dir_of a - d) * 4194304)) = unat a - (dir_of a - d) * 4194304"
    using k le by (simp add: unat_sub word_le_nat_alt del: of_nat_mult)
  also have "\<dots> = unat ?f + unat a mod 4096" using split le_d uf by (simp add: algebra_simps diff_mult_distrib)
  finally have "a - of_nat ((dir_of a - d) * 4194304) = (a AND 0xfff) OR push_bit 12 (pte_page_frame (make_pde ?f))"
    using page_offset [OF al, of a] by (simp add: word_unat_eq_iff del: of_nat_mult)
  with w show ?thesis by simp
qed

lemma walk_absent: "unat pdir mod 4096 = 0 \<Longrightarrow> entry m pdir (dir_of a) = 0 \<Longrightarrow> walk m (drop_bit 12 pdir) a = None"
  using walk_entries [of pdir m a False 0] by simp

definition kernel_directory :: "bytes \<Rightarrow> u32 \<Rightarrow> u32 \<Rightarrow> bool" where
  "kernel_directory m pdir pt \<longleftrightarrow> aligned pdir 4096 \<and> (\<forall>d<1024. entry m pdir d =
     (if d < 32 then make_pde (pt + of_nat (d * 4096)) else if 768 \<le> d \<and> d < 800 then make_pde (pt + of_nat ((d - 768) * 4096)) else 0))"

lemma ranges: "kernel_range a \<longleftrightarrow> 768 \<le> dir_of a \<and> dir_of a < 800" "unat a < 134217728 \<longleftrightarrow> dir_of a < 32"
proof -
  have "0xC0000000 = (768 :: nat) * 4194304" "0xC8000000 = (800 :: nat) * 4194304" "134217728 = (32 :: nat) * 4194304" by simp_all
  then show "kernel_range a \<longleftrightarrow> 768 \<le> dir_of a \<and> dir_of a < 800" "unat a < 134217728 \<longleftrightarrow> dir_of a < 32"
    by (simp_all only: kernel_range_def dir_of_def less_eq_div_iff_mult_less_eq div_less_iff_less_mult zero_less_numeral)
qed

lemma kernel_walk:
  assumes "kernel_directory m pdir pt" "flat_tables m pt"
  shows "walk m (drop_bit 12 pdir) a =
    (if unat a < 134217728 then Some a else if kernel_range a then Some (a - KOFFSET) else None)"
proof -
  have al: "unat pdir mod 4096 = 0" using assms(1) by (simp add: kernel_directory_def aligned_def)
  have e: "entry m pdir (dir_of a) = (if dir_of a < 32 then make_pde (pt + of_nat (dir_of a * 4096))
    else if 768 \<le> dir_of a \<and> dir_of a < 800 then make_pde (pt + of_nat ((dir_of a - 768) * 4096)) else 0)"
    using assms(1) dir_page_bound(1) [of a] by (simp add: kernel_directory_def del: of_nat_mult)
  consider "dir_of a < 32" | "768 \<le> dir_of a" "dir_of a < 800" | "32 \<le> dir_of a" "\<not> (768 \<le> dir_of a \<and> dir_of a < 800)" by linarith
  then show ?thesis
  proof cases
    case 1
    then show ?thesis using walk_flat [OF al assms(2) 1, of a] e by (simp add: ranges del: of_nat_mult)
  next
    case 2
    have off: "(dir_of a - (dir_of a - 768)) * 4194304 = 0xC0000000" using 2 by simp
    have "dir_of a - 768 < 32" using 2 by linarith
    from walk_flat [OF al assms(2) this, of a] e 2 show ?thesis unfolding off by (simp add: ranges del: of_nat_mult)
  next
    case 3
    then show ?thesis using walk_absent [OF al, of m a] e by (auto simp: ranges)
  qed
qed

lemma init_page_tables:
  assumes "aligned (va_to_pa kpdir) 4096" "aligned (va_to_pa kptable) 131072" "apart (va_to_pa kpdir) 4096 (va_to_pa kptable) 131072"
    and r: "init_page kpdir kptable c m = (m', cr3', cr0')"
  shows "kernel_directory m' (va_to_pa kpdir) (va_to_pa kptable)" "flat_tables m' (va_to_pa kptable)"
    "bits 12 20 cr3' = drop_bit 12 (va_to_pa kpdir)" "bit cr0' 31"
proof -
  let ?d = "va_to_pa kpdir" and ?t = "va_to_pa kptable"
  let ?m1 = "clear_bytes (unat ?d) 4096 m" let ?m2 = "fill_pdes ?d ?t ?m1"
  have m': "m' = fill_ptes (?t + of_nat (4 * 32767)) (of_nat (4096 * 32767 + 7)) ?m2"
    using r by (auto simp: init_page_def Let_def add.commute)
  have cr: "cr3' = put_bits 12 20 (drop_bit 12 ?d) 0" "cr0' = put_bits 31 1 1 c" using r by (auto simp: init_page_def Let_def)
  have t: "unat ?t + 4 * Suc 32767 \<le> 2 ^ 32" using assms(2) by (simp add: aligned_def)
  note pte = fill_ptes_entries [OF t, of ?m2, folded m']
  have out: "same_outside (unat ?t) (unat ?t + 131072) ?m2 m'" using pte by simp
  show "flat_tables m' ?t" unfolding flat_tables_def
    using assms(2) pte by (auto simp: low_bits_entry less_Suc_eq_le simp del: of_nat_mult of_nat_add)
  have "entry ?m1 ?d i = 0" if "i < 1024" for i using entry_clear [OF that, of ?d m] by simp
  then have "entry ?m2 ?d i = (if i < 32 then make_pde (?t + of_nat (i * 4096)) else if 768 \<le> i \<and> i < 800 then make_pde (?t + of_nat ((i - 768) * 4096)) else 0)"
    if "i < 1024" for i using fill_pdes_entries [of ?d ?m1 ?t] that by (simp del: of_nat_mult)
  moreover have "entry m' ?d i = entry ?m2 ?d i" if "i < 1024" for i
    by (rule entry_same_outside [OF out]) (use assms(3) that in \<open>auto simp: apart_def\<close>)
  ultimately show "kernel_directory m' ?d ?t" using assms(1) by (simp add: kernel_directory_def del: of_nat_mult)
  show "bits 12 20 cr3' = drop_bit 12 ?d" unfolding cr by (rule bit_word_eqI) (auto simp: bit_simps bit_bits bit_put_bits dest: bit_imp_le_length)
  show "bit cr0' 31" unfolding cr by (simp add: bit_put_bits)
qed

section \<open>The address space of a program\<close>

definition user_directory :: "bytes \<Rightarrow> u32 \<Rightarrow> u32 \<Rightarrow> bool" where
  "user_directory m up pt \<longleftrightarrow> aligned up 4096 \<and> (\<forall>d<1024. entry m up d =
     (if 768 \<le> d \<and> d < 800 then make_pde (pt + of_nat ((d - 768) * 4096)) else 0))"

lemma init_mm_tables:
  assumes "aligned (va_to_pa updir) 4096" "apart (va_to_pa kpdir) 4096 (va_to_pa updir) 4096"
    and k: "kernel_directory m (va_to_pa kpdir) pt" and r: "init_mm updir kpdir m = (m', ucr3)"
  shows "user_directory m' (va_to_pa updir) pt" "same_outside (unat (va_to_pa updir)) (unat (va_to_pa updir) + 4096) m m'"
    "bits 12 20 ucr3 = drop_bit 12 (va_to_pa updir)"
proof -
  let ?u = "va_to_pa updir" and ?k = "va_to_pa kpdir"
  let ?m1 = "clear_bytes (unat ?u) 4096 m"
  have m': "m' = copy_bytes_pa (unat ?u + 3072) (unat ?k + 3072) 128 ?m1" and u: "ucr3 = ?u AND NOT 0xfff"
    using r by (auto simp: init_mm_def Let_def)
  have clear: "same_outside (unat ?u) (unat ?u + 4096) m ?m1" by (rule same_outside_clear)
  have copy: "same_outside (unat ?u) (unat ?u + 4096) ?m1 m'" by (simp add: same_outside_def m' copy_bytes_pa_def)
  show "same_outside (unat ?u) (unat ?u + 4096) m m'" by (rule same_outside_trans [OF clear copy])
  have hi: "entry m' ?u d = entry m ?k d" if "768 \<le> d" "d < 800" for d
  proof -
    have "entry m' ?u d = entry ?m1 ?k d" unfolding entry_def m'
      by (rule load_cong) (use that in \<open>auto simp: copy_bytes_pa_def add.assoc\<close>)
    also have "\<dots> = entry m ?k d"
      by (rule entry_same_outside [OF clear]) (use assms(2) that in \<open>auto simp: apart_def\<close>)
    finally show ?thesis .
  qed
  have lo: "entry m' ?u d = 0" if "d < 1024" "\<not> (768 \<le> d \<and> d < 800)" for d
  proof -
    have "entry m' ?u d = entry ?m1 ?u d" unfolding entry_def m'
      by (rule load_cong) (use that in \<open>auto simp: copy_bytes_pa_def\<close>)
    then show ?thesis using entry_clear [OF that(1), of ?u m] by simp
  qed
  show "user_directory m' ?u pt"
    using assms(1) k hi lo by (auto simp: user_directory_def kernel_directory_def simp del: of_nat_mult)
  have low: "(0xfff :: u32) = mask 12" by (simp add: mask_eq_exp_minus_1)
  have "ucr3 = ?u" using assms(1) unfolding u low by (simp add: word_unat_eq_iff unat_and_not_low aligned_def)
  then show "bits 12 20 ucr3 = drop_bit 12 ?u" by (intro bit_word_eqI) (auto simp: bit_simps bit_bits dest: bit_imp_le_length)
qed

definition video_range :: "u32 \<Rightarrow> bool" where
  "video_range a \<longleftrightarrow> 0xa0000 \<le> unat a \<and> unat a < 0xb0000"

lemma video_tables:
  assumes t: "aligned (va_to_pa table) 4096" and a: "apart (va_to_pa table) 4096 (va_to_pa updir) 4096"
    and u: "user_directory m (va_to_pa updir) pt"
  defines "m' \<equiv> create_video_mapping updir table m"
  shows "entry m' (va_to_pa updir) 0 = make_pde (va_to_pa table)"
    "0 < d \<Longrightarrow> d < 1024 \<Longrightarrow> entry m' (va_to_pa updir) d = entry m (va_to_pa updir) d"
    "p < 1024 \<Longrightarrow> entry m' (va_to_pa table) p = (if 160 \<le> p \<and> p < 176 then make_pde (of_nat (4096 * p)) else 0)"
    "k < unat (va_to_pa table) \<or> unat (va_to_pa table) + 4096 \<le> k \<Longrightarrow>
     k < unat (va_to_pa updir) \<or> unat (va_to_pa updir) + 4096 \<le> k \<Longrightarrow> m' k = m k"
proof -
  let ?t = "va_to_pa table" and ?u = "va_to_pa updir"
  let ?m1 = "clear_bytes (unat ?t) 4096 m" let ?m2 = "set_entry ?u 0 (make_pde ?t) ?m1"
  have z: "unat (drop_bit 22 (0xa0000 :: u32) AND 0x3ff) = 0" "unat (drop_bit 12 (0xa0000 :: u32) AND 0x3ff) = 160" by simp_all
  have m': "m' = fold (\<lambda>i. set_entry ?t (160 + i) (make_pte (0xa0000 + of_nat (4096 * i)))) [0..<16] ?m2"
    unfolding m'_def create_video_mapping_def Let_def z by simp
  have fold: "same_outside (unat ?t) (unat ?t + 4096) ?m2 m'"
    "\<And>i. i < 16 \<Longrightarrow> entry m' ?t (160 + i) = make_pte (0xa0000 + of_nat (4096 * i))"
    "\<And>j. (\<forall>i<16. j \<noteq> 160 + i) \<Longrightarrow> entry m' ?t j = entry ?m2 ?t j"
    using fold_set_entries [of "\<lambda>i. 160 + i" 16 1024 ?t ?m2 "\<lambda>i. make_pte (0xa0000 + of_nat (4096 * i))", folded m']
    by (simp_all add: inj_def del: of_nat_mult)
  have clear: "same_outside (unat ?t) (unat ?t + 4096) m ?m1" by (rule same_outside_clear)
  have set: "same_outside (unat ?u) (unat ?u + 4096) ?m1 ?m2" using same_outside_set_entry [of 0 1024 ?u ?m1] by simp
  have dir: "entry m' ?u d = entry ?m2 ?u d" if "d < 1024" for d
    by (rule entry_same_outside [OF fold(1)]) (use a that in \<open>auto simp: apart_def\<close>)
  show "entry m' ?u 0 = make_pde ?t" by (simp add: dir entry_set_entry)
  show "entry m' ?u d = entry m ?u d" if "0 < d" "d < 1024"
    using dir [OF that(2)] that entry_same_outside [OF clear, of ?u d] a by (auto simp: entry_set_entry apart_def)
  show "entry m' ?t p = (if 160 \<le> p \<and> p < 176 then make_pde (of_nat (4096 * p)) else 0)" if p: "p < 1024"
  proof (cases "160 \<le> p \<and> p < 176")
    case True
    then obtain i where i: "p = 160 + i" "i < 16" by (auto simp: le_iff_add)
    have "make_pte (0xa0000 + of_nat (4096 * i)) = make_pde (of_nat (4096 * p))"
      using i(1) by (simp add: make_pte_def make_pde_def algebra_simps)
    with True fold(2) [OF i(2)] i(1) show ?thesis by simp
  next
    case False
    have "\<forall>i<16. p \<noteq> 160 + i" using False by auto
    from fold(3) [OF this] have "entry m' ?t p = entry ?m2 ?t p" .
    also have "\<dots> = entry ?m1 ?t p"
      by (rule entry_same_outside [OF set]) (use a p in \<open>auto simp: apart_def\<close>)
    also have "\<dots> = 0" using entry_clear [OF p, of ?t m] by simp
    finally show ?thesis using False by auto
  qed
  show "m' k = m k" if "k < unat ?t \<or> unat ?t + 4096 \<le> k" "k < unat ?u \<or> unat ?u + 4096 \<le> k"
    using fold(1) clear set that unfolding same_outside_def by metis
qed

lemma user_walk:
  assumes u: "user_directory m (va_to_pa updir) pt" and f: "flat_tables m pt" and t: "aligned (va_to_pa table) 4096"
    and a: "apart (va_to_pa table) 4096 (va_to_pa updir) 4096" "apart (va_to_pa table) 4096 pt 131072" "apart (va_to_pa updir) 4096 pt 131072"
  shows "walk (create_video_mapping updir table m) (drop_bit 12 (va_to_pa updir)) x =
    (if video_range x then Some x else if kernel_range x then Some (x - KOFFSET) else None)"
proof -
  let ?m = "create_video_mapping updir table m" and ?u = "va_to_pa updir"
  have al: "unat ?u mod 4096 = 0" "unat (va_to_pa table) mod 4096 = 0" using u t by (auto simp: user_directory_def aligned_def)
  note v = video_tables [OF t a(1) u]
  have "entry ?m pt i = entry m pt i" if "i < 32768" for i
    unfolding entry_def by (rule load_cong, rule v(4)) (use a that in \<open>auto simp: apart_def\<close>)
  then have f': "flat_tables ?m pt" using f by (simp add: flat_tables_def)
  consider "dir_of x = 0" | "768 \<le> dir_of x" "dir_of x < 800" | "0 < dir_of x" "\<not> (768 \<le> dir_of x \<and> dir_of x < 800)" by linarith
  then show ?thesis
  proof cases
    case 1
    then have small: "unat x < 4194304" by (simp add: dir_of_def div_eq_0_iff)
    then have page: "page_of x = unat x div 4096" by (simp add: page_of_def less_mult_imp_div_less)
    have vr: "video_range x \<longleftrightarrow> 160 \<le> page_of x \<and> page_of x < 176"
      unfolding video_range_def page by (simp add: less_eq_div_iff_mult_less_eq div_less_iff_less_mult)
    have pte: "entry ?m (va_to_pa table) (page_of x) = (if video_range x then make_pde (of_nat (4096 * page_of x)) else 0)"
      unfolding vr by (rule v(3)) (rule dir_page_bound)
    have w: "walk ?m (drop_bit 12 ?u) x = (if pte_present (entry ?m (va_to_pa table) (page_of x))
      then Some ((x AND 0xfff) OR push_bit 12 (pte_page_frame (entry ?m (va_to_pa table) (page_of x)))) else None)"
      using walk_entries [OF al(1) _ al(2), where present = True and m = ?m and a = x] v(1) 1 by simp
    have uf: "unat (of_nat (4096 * page_of x) :: u32) = 4096 * page_of x"
      using dir_page_bound(2) [of x] by (simp add: unat_of_nat del: of_nat_mult)
    then have af: "unat (of_nat (4096 * page_of x) :: u32) mod 4096 = 0" by simp
    have "unat ((x AND 0xfff) OR push_bit 12 (pte_page_frame (make_pde (of_nat (4096 * page_of x))))) = unat x"
      using page_offset [OF af, of x] uf mult_div_mod_eq [of 4096 "unat x"] unfolding page by simp
    then have eq: "(x AND 0xfff) OR push_bit 12 (pte_page_frame (make_pde (of_nat (4096 * page_of x)))) = x"
      by (simp only: word_unat_eq_iff)
    have "\<not> kernel_range x" using 1 by (simp add: ranges)
    then show ?thesis unfolding w pte using eq entry_fields(1) [OF af] by (simp add: pte_present_def)
  next
    case 2
    have e: "entry ?m ?u (dir_of x) = make_pde (pt + of_nat ((dir_of x - 768) * 4096))"
      using v(2) [of "dir_of x"] u 2 by (simp add: user_directory_def del: of_nat_mult)
    have off: "(dir_of x - (dir_of x - 768)) * 4194304 = 0xC0000000" using 2 by simp
    have "dir_of x - 768 < 32" using 2 by linarith
    from walk_flat [OF al(1) f' this e] have "walk ?m (drop_bit 12 ?u) x = Some (x - KOFFSET)" unfolding off by simp
    moreover have "kernel_range x" using 2 by (simp add: ranges)
    moreover have "\<not> video_range x" using calculation(2) by (simp add: video_range_def kernel_range_def)
    ultimately show ?thesis by simp
  next
    case 3
    have e: "entry ?m ?u (dir_of x) = 0"
      using v(2) [of "dir_of x"] u 3 dir_page_bound(1) [of x] by (auto simp: user_directory_def)
    have "\<not> video_range x" using 3(1) by (auto simp: video_range_def dir_of_def div_eq_0_iff)
    then show ?thesis using walk_absent [OF al(1) e] 3 by (simp add: ranges)
  qed
qed

section \<open>Descriptors and gates\<close>

lemma load_part:
  assumes "i + n \<le> 4"
  shows "load (a + i) n m = drop_bit (8 * i) (load a 4 m) AND len_mask n"
proof (rule u32_eq_bytesI)
  fix j :: nat assume j: "j < 4"
  have "byte_at (i + j) (load a 4 m) = m (a + (i + j))" if "j < n" using that assms by (simp add: byte_at_load)
  with j assms show "byte_at j (load (a + i) n m) = byte_at j (drop_bit (8 * i) (load a 4 m) AND len_mask n)"
    by (simp add: byte_at_load byte_at_high add.assoc)
qed

definition holds_desc :: "bytes \<Rightarrow> nat \<Rightarrow> u32 \<times> u32 \<Rightarrow> bool" where
  "holds_desc m a d \<longleftrightarrow> load a 4 m = fst d \<and> load (a + 4) 4 m = snd d"

lemma holds_store_desc: "holds_desc (store_desc a d m) a d"
  by (simp add: holds_desc_def store_desc_def load_store_other)

lemma holds_store_other: "a + 8 \<le> b \<or> b + 8 \<le> a \<Longrightarrow> holds_desc (store_desc a d m) b e = holds_desc m b e"
  by (auto simp: holds_desc_def store_desc_def load_store_other)

lemma holds_table:
  "holds_desc (store_desc (t + 8 * i) g m) (t + 8 * j) (if i = j then g else e) = (if i = j then True else holds_desc m (t + 8 * j) e)"
proof (cases "i = j")
  case False
  then have "t + 8 * i + 8 \<le> t + 8 * j \<or> t + 8 * j + 8 \<le> t + 8 * i" by linarith
  with False holds_store_other [OF this] show ?thesis by simp
qed (simp add: holds_store_desc)

lemma holds_table_step:
  "(i \<noteq> j \<Longrightarrow> holds_desc m (t + 8 * j) e) \<Longrightarrow> holds_desc (store_desc (t + 8 * i) g m) (t + 8 * j) (if i = j then g else e)"
  by (simp only: holds_table split: if_splits) simp

lemma fold_gates:
  "holds_desc (fold (\<lambda>i. store_desc (t + 8 * i) (g i)) [0..<n] m) (t + 8 * j) e" if "j < n \<Longrightarrow> e = g j" "\<not> j < n \<Longrightarrow> holds_desc m (t + 8 * j) e"
  using that
proof (induction n)
  case (Suc n)
  let ?m = "fold (\<lambda>i. store_desc (t + 8 * i) (g i)) [0..<n] m"
  have "holds_desc (store_desc (t + 8 * n) (g n) ?m) (t + 8 * j) (if n = j then g n else e)"
    by (rule holds_table_step, rule Suc.IH) (use Suc.prems in auto)
  then show ?case using Suc.prems(1) by (auto split: if_splits)
qed simp

text \<open>The entry point that \<open>init_idt\<close> installs for each of the 256 vectors.\<close>

definition entry_point :: "entry_points \<Rightarrow> nat \<Rightarrow> u32" where
  "entry_point E i = (if i = 46 then irq14 E else if i = 32 then irq0 E else if i = 33 then irq1 E
     else if i = 0x80 then vecsys E else if i < 15 then vec E i else irq_empty E)"

lemma init_idt_gates:
  assumes "i < 256"
  shows "\<exists>type dpl. holds_desc (init_idt E idt m) (idt + 8 * i) (set_gate type 8 (entry_point E i) dpl)"
proof -
  let ?m1 = "fold (\<lambda>i. store_desc (idt + 8 * i) (set_trap (1 * 8) (irq_empty E) 0)) [0..<256] m"
  let ?m2 = "fold (\<lambda>i. store_desc (idt + 8 * i) (set_trap (1 * 8) (vec E i) 0)) [0..<15] ?m1"
  let ?g = "if 32 + 14 = i then set_intr (1 * 8) (irq14 E) 0 else if 32 + 0 = i then set_intr (1 * 8) (irq0 E) 0
    else if 32 + 1 = i then set_intr (1 * 8) (irq1 E) 0 else if 0x80 = i then set_trap (1 * 8) (vecsys E) 3
    else if i < 15 then set_trap (1 * 8) (vec E i) 0 else set_trap (1 * 8) (irq_empty E) 0"
  have "holds_desc (init_idt E idt m) (idt + 8 * i) ?g"
    unfolding init_idt_def Let_def by (intro holds_table_step fold_gates) (use assms in auto)
  moreover obtain type dpl where "?g = set_gate type 8 (entry_point E i) dpl"
  proof
    show "?g = set_gate (if i = 46 \<or> i = 32 \<or> i = 33 then 0xE else 0xF) 8 (entry_point E i) (if i = 0x80 then 3 else 0)"
      by (auto simp: set_intr_def set_trap_def entry_point_def)
  qed
  ultimately have "holds_desc (init_idt E idt m) (idt + 8 * i) (set_gate type 8 (entry_point E i) dpl)" by (simp only:)
  then show ?thesis by blast
qed

lemma len_mask_2: "(v :: u32) AND len_mask 2 = take_bit 16 v"
  by (rule bit_word_eqI) (auto simp: bit_simps bit_len_mask)

lemma gate_loads:
  assumes "holds_desc m a (set_gate type 8 offset dpl)"
  shows "load (a + 2) 2 m = 8" "push_bit 16 (load (a + 6) 2 m) OR load a 2 m = offset"
proof -
  have low: "x AND 0xFFFF = take_bit 16 x" for x :: u32
    by (simp add: take_bit_eq_mask mask_eq_exp_minus_1 del: take_bit_eq_mod)
  have L: "bits 16 16 (load a 4 m) = 8" "bits 0 16 (load a 4 m) = take_bit 16 offset"
    and H: "bits 16 16 (load (a + 4) 4 m) = take_bit 16 (drop_bit 16 offset)"
    using assms by (simp_all add: holds_desc_def set_gate_def bit_fields_def low bits_put_bits_same bits_put_bits_other)
  have two: "load (a + 2) 2 m = bits 16 16 (load a 4 m)" "load (a + 6) 2 m = bits 16 16 (load (a + 4) 4 m)" "load a 2 m = bits 0 16 (load a 4 m)"
    using load_part [of 2 2 a m] load_part [of 2 2 "a + 4" m] load_part [of 0 2 a m] by (simp_all add: len_mask_2 bits_def add.commute)
  show "load (a + 2) 2 m = 8" using two L by simp
  show "push_bit 16 (load (a + 6) 2 m) OR load a 2 m = offset"
    unfolding two L H by (rule bit_word_eqI) (auto simp: bit_simps)
qed

lemma code_segment_loads:
  assumes "holds_desc m a (set_segment pl type)"
  shows "load (a + 2) 2 m = 0" "load (a + 4) 1 m = 0" "load (a + 7) 1 m = 0"
proof -
  have one: "(v :: u32) AND len_mask 1 = take_bit 8 v" for v
    by (rule bit_word_eqI) (auto simp: bit_simps bit_len_mask)
  have L: "bits 16 16 (load a 4 m) = 0" "bits 0 8 (load (a + 4) 4 m) = 0" "bits 24 8 (load (a + 4) 4 m) = 0"
    using assms by (simp_all add: holds_desc_def set_segment_def bit_fields_def bits_put_bits_same bits_put_bits_other)
  show "load (a + 2) 2 m = 0" using load_part [of 2 2 a m] L by (simp add: len_mask_2 bits_def)
  show "load (a + 4) 1 m = 0" using load_part [of 0 1 "a + 4" m] L one by (simp add: bits_def)
  show "load (a + 7) 1 m = 0" using load_part [of 3 1 "a + 4" m] L one by (simp add: bits_def add.commute)
qed

section \<open>Properties\<close>

text \<open>
  C5. The page tables of the kernel, read by the emulator's page walk: after \<open>init_page\<close> the 128 MiB of
  physical memory are mapped at their own address and again from 0xC0000000 on, and nothing else; the directory prepared for
  a program by \<open>init_mm\<close> and \<open>create_video_mapping\<close> maps the same kernel half and, of the lower half, exactly the
  frame buffer, each page of it to itself. The directory base in both CR3 values is the one the walk uses, and CR0 has paging on.
\<close>

theorem kernel_address_spaces:
  assumes al: "aligned (va_to_pa kpdir) 4096" "aligned (va_to_pa kptable) 131072" "aligned (va_to_pa updir) 4096" "aligned (va_to_pa table) 4096"
    and ap: "apart (va_to_pa kpdir) 4096 (va_to_pa kptable) 131072" "apart (va_to_pa kpdir) 4096 (va_to_pa updir) 4096"
      "apart (va_to_pa updir) 4096 (va_to_pa kptable) 131072" "apart (va_to_pa table) 4096 (va_to_pa updir) 4096"
      "apart (va_to_pa table) 4096 (va_to_pa kptable) 131072"
    and r: "init_page kpdir kptable c m = (m1, cr3', cr0')" "init_mm updir kpdir m1 = (m2, ucr3)"
  shows "bit cr0' 31 \<and> walk m1 (bits 12 20 cr3') a =
      (if unat a < 134217728 then Some a else if kernel_range a then Some (a - KOFFSET) else None) \<and>
    walk (create_video_mapping updir table m2) (bits 12 20 ucr3) a =
      (if video_range a then Some a else if kernel_range a then Some (a - KOFFSET) else None)"
proof -
  note kernel = init_page_tables [OF al(1,2) ap(1) r(1)]
  note user = init_mm_tables [OF al(3) ap(2) kernel(1) r(2)]
  have "entry m2 (va_to_pa kptable) i = entry m1 (va_to_pa kptable) i" if "i < 32768" for i
    by (rule entry_same_outside [OF user(2)]) (use ap(3) that in \<open>auto simp: apart_def\<close>)
  then have "flat_tables m2 (va_to_pa kptable)" using kernel(2) by (simp add: flat_tables_def)
  from user_walk [OF user(1) this al(4) ap(4,5,3)] kernel_walk [OF kernel(1,2)] kernel(3,4) user(3)
  show ?thesis by simp
qed

theorem kernel_address_spaces_witness:
  "\<exists>m1 cr3' cr0'. init_page 0xC0200000 0xC0300000 1 (\<lambda>_. 0) = (m1, cr3', cr0') \<and> bit cr0' 31 \<and>
     walk m1 (bits 12 20 cr3') 0xC0100000 = Some 0x100000"
proof -
  obtain m1 cr3' cr0' where i: "init_page 0xC0200000 0xC0300000 1 (\<lambda>_. 0) = (m1, cr3', cr0')" by (cases "init_page 0xC0200000 0xC0300000 1 (\<lambda>_. 0)") auto
  obtain m2 ucr3 where u: "init_mm 0xC0400000 0xC0200000 m1 = (m2, ucr3)" by (cases "init_mm 0xC0400000 0xC0200000 m1") auto
  from kernel_address_spaces [OF _ _ _ _ _ _ _ _ _ i u, of "0xC0500000" "0xC0100000"] i show ?thesis
    by (simp add: aligned_def apart_def va_to_pa_def kernel_range_def)
qed

lemma holds_desc_outside:
  "(\<And>k. a \<le> k \<Longrightarrow> k < a + 8 \<Longrightarrow> m' k = m k) \<Longrightarrow> holds_desc m' a d = holds_desc m a d"
proof -
  assume same: "\<And>k. a \<le> k \<Longrightarrow> k < a + 8 \<Longrightarrow> m' k = m k"
  have "load a 4 m' = load a 4 m" "load (a + 4) 4 m' = load (a + 4) 4 m" by (intro load_cong, simp add: same)+
  then show ?thesis by (simp add: holds_desc_def)
qed

lemma store_desc_outside: "k < a \<or> a + 8 \<le> k \<Longrightarrow> store_desc a d m k = m k"
  by (auto simp: store_desc_def)

lemma fold_gates_outside:
  "k < t \<or> t + 8 * n \<le> k \<Longrightarrow> fold (\<lambda>i. store_desc (t + 8 * i) (g i)) [0..<n] m k = m k"
  by (induction n) (auto simp: store_desc_outside)

lemma init_idt_outside: "k < idt \<or> idt + 2048 \<le> k \<Longrightarrow> init_idt E idt m k = m k"
  unfolding init_idt_def Let_def by (elim disjE) (simp_all add: store_desc_outside fold_gates_outside)

lemma init_segment_code: "holds_desc (init_segment gdt m) (gdt + 8) (set_segment 0 (0x8 OR 0x2))"
  unfolding init_segment_def Let_def
  by (subst holds_store_other) (simp_all add: holds_store_desc flip: One_nat_def)

end
