(* ===== verification/Kernel_Vectors.thy ===== *)
theory Kernel_Vectors
  imports Kernel_Memory_Props
begin

unbundle bit_operations_syntax

text \<open>
  Interrupt entry with paging on: linear reads and writes of bytes that lie in one stretch of physical memory, and
  from them the delivery of every vector through the tables of the kernel, at the addresses above 0xC0000000 where the
  kernel runs. Writes must leave the page tables alone, or the TLB would no longer agree with them.
\<close>

section \<open>Bytes outside the page tables\<close>

definition disjoint_bytes :: "nat \<Rightarrow> nat \<Rightarrow> nat \<Rightarrow> nat \<Rightarrow> bool" where
  "disjoint_bytes a n b k \<longleftrightarrow> a + n \<le> b \<or> b + k \<le> a"

text \<open>The directory and table entries that a walk may read, by the directory base.\<close>

definition walked_outside :: "bytes \<Rightarrow> u32 \<Rightarrow> nat \<Rightarrow> nat \<Rightarrow> bool" where
  "walked_outside m base p n \<longleftrightarrow> (\<forall>a. let pde = unat (pde_addr base a) in
     disjoint_bytes pde 4 p n \<and> disjoint_bytes (unat (pte_addr (load pde 4 m) a)) 4 p n)"

definition unwalked :: "machine \<Rightarrow> nat \<Rightarrow> nat \<Rightarrow> bool" where
  "unwalked s p n \<longleftrightarrow> walked_outside (mem_view (mem s)) (page_directory_base (cpu s)) p n"

text \<open>The states that differ in nothing translation depends on, and in memory only inside \<open>n\<close> bytes at \<open>p\<close>.\<close>

definition differs_in :: "nat \<Rightarrow> nat \<Rightarrow> machine \<Rightarrow> machine \<Rightarrow> bool" where
  "differs_in p n s t \<longleftrightarrow> cr0 (cpu t) = cr0 (cpu s) \<and> cr3 (cpu t) = cr3 (cpu s) \<and> mmio t = mmio s \<and>
     (\<forall>k. k < p \<or> p + n \<le> k \<longrightarrow> mem_view (mem t) k = mem_view (mem s) k)"

lemma load_outside:
  assumes "disjoint_bytes a l p n" "\<And>k. k < p \<or> p + n \<le> k \<Longrightarrow> m' k = m k"
  shows "load a l m' = load a l m"
  by (rule load_cong) (use assms in \<open>auto simp: disjoint_bytes_def\<close>)

lemma walked_loads:
  assumes "walked_outside m base p n" "\<And>k. k < p \<or> p + n \<le> k \<Longrightarrow> m' k = m k"
  shows "load (unat (pde_addr base a)) 4 m' = load (unat (pde_addr base a)) 4 m"
    "load (unat (pte_addr (load (unat (pde_addr base a)) 4 m) a)) 4 m' =
      load (unat (pte_addr (load (unat (pde_addr base a)) 4 m) a)) 4 m"
    "walk m' base a = walk m base a"
proof -
  show d: "load (unat (pde_addr base a)) 4 m' = load (unat (pde_addr base a)) 4 m"
    by (rule load_outside [of _ _ p n]) (use assms in \<open>auto simp: walked_outside_def Let_def\<close>)
  show t: "load (unat (pte_addr (load (unat (pde_addr base a)) 4 m) a)) 4 m' =
      load (unat (pte_addr (load (unat (pde_addr base a)) 4 m) a)) 4 m"
    by (rule load_outside [of _ _ p n]) (use assms in \<open>auto simp: walked_outside_def Let_def\<close>)
  show "walk m' base a = walk m base a" unfolding walk_def Let_def d t by (rule refl)
qed

lemma differs_in_parts:
  assumes un: "unwalked s p n" and d: "differs_in p n s t"
  shows "vm_on t = vm_on s" "page_directory_base (cpu t) = page_directory_base (cpu s)" "xlate t = xlate s"
    "tables_ok W t = tables_ok W s" "phys_ok W t = phys_ok W s" "unwalked t p n" "plain W t = plain W s"
    "walk (mem_view (mem t)) (page_directory_base (cpu s)) = walk (mem_view (mem s)) (page_directory_base (cpu s))"
proof -
  have c: "cr0 (cpu t) = cr0 (cpu s)" "cr3 (cpu t) = cr3 (cpu s)" "mmio t = mmio s"
    and v: "\<And>k. k < p \<or> p + n \<le> k \<Longrightarrow> mem_view (mem t) k = mem_view (mem s) k" using d by (auto simp: differs_in_def)
  note w = walked_loads [OF un [unfolded unwalked_def] v]
  show on: "vm_on t = vm_on s" using c by (simp add: vm_on_def paging_def protect_enable_def)
  show b: "page_directory_base (cpu t) = page_directory_base (cpu s)" using c by (simp add: page_directory_base_def)
  show wk: "walk (mem_view (mem t)) (page_directory_base (cpu s)) = walk (mem_view (mem s)) (page_directory_base (cpu s))"
    by (rule ext) (rule w(3))
  show "xlate t = xlate s" by (rule ext) (simp add: xlate_def on b wk)
  show p: "phys_ok W t = phys_ok W s" by (intro ext phys_ok_cong c)
  show "tables_ok W t = tables_ok W s" by (rule ext) (simp add: tables_ok_def on b w(1) p)
  show "plain W t = plain W s" by (intro ext plain_congr c)
  show "unwalked t p n" using un by (simp add: unwalked_def walked_outside_def b w(1))
qed

section \<open>Linear bytes in one stretch of physical memory\<close>

text \<open>The \<open>n\<close> linear bytes at \<open>a\<close> are the physical bytes at \<open>p\<close>, and these are memory.\<close>

definition lies :: "nat set \<Rightarrow> machine \<Rightarrow> u32 \<Rightarrow> nat \<Rightarrow> nat \<Rightarrow> bool" where
  "lies W s a p n \<longleftrightarrow> plain W s p (p + n) \<and>
     (\<forall>i<n. tables_ok W s (a + of_nat i) \<and> xlate s (a + of_nat i) = Some (of_nat (p + i)))"

lemma lies_differs: "unwalked s p n \<Longrightarrow> differs_in p n s t \<Longrightarrow> lies W t a q k = lies W s a q k"
  unfolding lies_def by (simp only: differs_in_parts)

lemma lies_part:
  assumes l: "lies W s a p n" and k: "k + l \<le> n" "0 < l" "l \<le> 4"
  shows "unat (of_nat (p + k) :: u32) = p + k" "of_nat (p + k) \<noteq> (0 :: u32)"
    and "tables_ok W s (a + of_nat k)" "xlate s (a + of_nat k) = Some (of_nat (p + k))" "phys_ok W s (of_nat (p + k)) l"
proof -
  have p: "0 < p" "p + n \<le> 134217728" and pl: "plain W s p (p + n)" using l by (simp_all add: lies_def plain_def)
  show u: "unat (of_nat (p + k) :: u32) = p + k" using p k by (simp add: unat_of_nat del: of_nat_add)
  then show "of_nat (p + k) \<noteq> (0 :: u32)" using p by (metis add_is_0 less_numeral_extra(3) unsigned_0)
  show "tables_ok W s (a + of_nat k)" "xlate s (a + of_nat k) = Some (of_nat (p + k))" using l k by (auto simp: lies_def)
  have in_W: "b div 64 \<in> W" if "p \<le> b" "b < p + n" for b using pl that by (auto simp: plain_def)
  have "(p + k) div 64 \<in> W" "(p + k + l - 1) div 64 \<in> W" by (rule in_W; use k in linarith)+
  moreover have "is_mmio s (of_nat (p + k)) = None" using pl k u by (auto simp: plain_def)
  ultimately show "phys_ok W s (of_nat (p + k)) l" using k p unfolding phys_ok_def cache_ok_def u by simp
qed

lemma lies_mapped:
  assumes l: "lies W s a p n" and k: "k + l \<le> n" "l = 1 \<or> l = 2 \<or> l = 4"
  shows "mapped W s (a + of_nat k) l" "vload s (a + of_nat k) l = load (p + k) l (mem_view (mem s))"
proof -
  let ?a = "a + of_nat k"
  have part: "part_ok W s (?a + of_nat i) j" if "i + j \<le> l" "0 < j" for i j
    using lies_part [OF l, of "k + i" j] that k by (auto simp: part_ok_def add.assoc)
  show "mapped W s ?a l"
  proof (cases "unat ?a mod 4096 + l \<le> 4096")
    case True
    then show ?thesis using part [of 0 l] k by (auto simp: mapped_def)
  next
    case False
    let ?f = "4096 - unat ?a mod 4096"
    have "0 < ?f" "?f < l" using False by auto
    then show ?thesis using part [of 0 ?f] part [of ?f "l - ?f"] False by (auto simp: mapped_def)
  qed
  show "vload s ?a l = load (p + k) l (mem_view (mem s))"
    unfolding vload_def load_def
  proof (rule le32_cong)
    fix i :: nat
    have at: "?a + of_nat i = a + of_nat (k + i)" by (simp add: add.assoc)
    show "(if i < l then mem_view (mem s) (unat (the (xlate s (?a + of_nat i)))) else 0) = (if i < l then mem_view (mem s) (p + k + i) else 0)"
      using lies_part(1,4) [OF l, of "k + i" 1] k at by (auto simp: add.assoc simp del: of_nat_add)
  qed
qed

section \<open>Writes with paging\<close>

text \<open>A write of \<open>l\<close> bytes that a page holds, then one that may cross into the next page.\<close>

definition written :: "nat set \<Rightarrow> nat \<Rightarrow> nat \<Rightarrow> u32 \<Rightarrow> machine \<Rightarrow> machine \<Rightarrow> bool" where
  "written W p l v s t \<longleftrightarrow> (\<exists>m T. t = s\<lparr>mem := m, tlb := T\<rparr>) \<and> vm_inv W t \<and>
     mem_view (mem t) = store p l v (mem_view (mem s))"

lemma mem_tlb_ex [simp]:
  "\<exists>m T. (s :: machine)\<lparr>mem := a, tlb := b\<rparr> = s\<lparr>mem := m, tlb := T\<rparr>"
  "\<exists>m T. (s :: machine)\<lparr>tlb := b, mem := a\<rparr> = s\<lparr>mem := m, tlb := T\<rparr>"
  "\<exists>m T. (s :: machine)\<lparr>mem := a, tlb := b, cpu := c\<rparr> = s\<lparr>cpu := c, mem := m, tlb := T\<rparr>"
  by (rule exI [of _ a], rule exI [of _ b], simp)+

lemma written_differs: "written W p l v s t \<Longrightarrow> q \<le> p \<Longrightarrow> p + l \<le> q + n \<Longrightarrow> differs_in q n s t"
  by (auto simp: written_def differs_in_def)

lemma vm_inv_written:
  assumes inv: "vm_inv W s" and un: "unwalked s q n" and t: "t = s\<lparr>mem := m\<rparr>" "cache_inv W m" and d: "differs_in q n s t"
  shows "vm_inv W t"
proof -
  have "tlb_inv t" if "vm_on t"
    using inv that differs_in_parts(1,2,8) [OF un d] t(1) by (auto simp: vm_inv_def tlb_inv_def)
  then show ?thesis using t by (simp add: vm_inv_def)
qed

lemma page_write:
  assumes inv: "vm_inv W s" and l: "lies W s a p n" and un: "unwalked s p n" and k: "k + l \<le> n" "0 < l" "l \<le> 4"
  shows "\<exists>t u. page_translate (a + of_nat k) s = Ret (of_nat (p + k)) t \<and> hwaddr_write (of_nat (p + k)) l v t = Ret () u \<and>
    written W (p + k) l v s u"
proof -
  note part = lies_part [OF l k]
  from page_translate_run [OF inv part(3,4)] obtain t where
    t: "page_translate (a + of_nat k) s = Ret (of_nat (p + k)) t" "vm_same W s t" by blast
  note same = vm_same_parts [OF t(2)]
  have ok: "phys_ok W t (of_nat (p + k)) l" using part(5) same(10) by simp
  from hwaddr_write_run [OF same(4) ok part(2), of v] obtain m where
    m: "hwaddr_write (of_nat (p + k)) l v t = Ret () (t\<lparr>mem := m\<rparr>)" "cache_inv W m"
      "mem_view m = store (p + k) l v (mem_view (mem s))" unfolding part(1) same(3) by blast
  have un': "unwalked t p n" using un by (simp add: unwalked_def same)
  have d: "differs_in p n t (t\<lparr>mem := m\<rparr>)" using m(3) k same(3) by (auto simp: differs_in_def)
  have "vm_inv W (t\<lparr>mem := m\<rparr>)" by (rule vm_inv_written [OF same(5) un' refl m(2) d])
  with t(2) m(3) have "written W (p + k) l v s (t\<lparr>mem := m\<rparr>)" by (auto simp: written_def vm_same_def)
  with t(1) m(1) show ?thesis by blast
qed

lemma written_trans:
  "written W p l v s t \<Longrightarrow> written W q k w t u \<Longrightarrow>
   store q k w (store p l v (mem_view (mem s))) = store r n x (mem_view (mem s)) \<Longrightarrow> written W r n x s u"
  by (auto simp: written_def)

lemma lnaddr_write_lies:
  assumes inv: "vm_inv W s" and l: "lies W s a p n" and un: "unwalked s p n" and k: "k + l \<le> n" "0 < l" "l \<le> 4"
  shows "\<exists>t. lnaddr_write (a + of_nat k) l v s = Ret () t \<and> written W (p + k) l v s t"
proof -
  let ?a = "a + of_nat k"
  show ?thesis
  proof (cases "unat ?a mod 4096 + l > 4096")
    case False
    then have "\<not> unat ?a mod 4096 + l - 1 > 0xfff" using k by linarith
    with page_write [OF assms, of v] k show ?thesis by (auto simp: lnaddr_write_def bindM_def)
  next
    case True
    define f where "f = 4096 - unat ?a mod 4096"
    note fe = front_eq [OF True k(3), folded f_def]
    let ?lo = "v AND (push_bit (f * 8) 1 - 1)" and ?hi = "drop_bit (8 * f) v"
    from page_write [OF inv l un, of k f ?lo] fe(3,4) k obtain t u where
      t: "page_translate ?a s = Ret (of_nat (p + k)) t" "hwaddr_write (of_nat (p + k)) f ?lo t = Ret () u" "written W (p + k) f ?lo s u"
      by auto
    have d: "differs_in p n s u" by (rule written_differs [OF t(3)]) (use fe(4) k in auto)
    have lu: "lies W u a p n" using l lies_differs [OF un d] by simp
    have uu: "unwalked u p n" by (rule differs_in_parts(6) [OF un d])
    have at: "a + of_nat (k + f) = ?a + of_nat f" by (simp add: add.assoc)
    have iu: "vm_inv W u" using t(3) by (simp add: written_def)
    have "k + f + (l - f) \<le> n" "0 < l - f" "l - f \<le> 4" using fe(4) k by auto
    from page_write [OF iu lu uu this, of ?hi, unfolded at] obtain x y where
      x: "page_translate (?a + of_nat f) u = Ret (of_nat (p + (k + f))) x" "hwaddr_write (of_nat (p + (k + f))) (l - f) ?hi x = Ret () y"
        "written W (p + k + f) (l - f) ?hi u y" unfolding add.assoc by blast
    have "written W (p + k) l v s y"
      by (rule written_trans [OF t(3) x(3)]) (use store_split [of f l "p + k" v] fe(4) in simp)
    moreover have "lnaddr_write ?a l v s = Ret () y"
      using t(1,2) x(1,2) fe(1,5) k by (simp add: lnaddr_write_def Let_def seqM_def bindM_def del: of_nat_add)
    ultimately show ?thesis by blast
  qed
qed

lemma wp_lies_write:
  assumes "vm_inv W s" "lies W s a p n" "unwalked s p n" "k + l \<le> n" "l = 1 \<or> l = 2 \<or> l = 4" "b = a + of_nat k"
    and "\<And>t. written W (p + k) l v s t \<Longrightarrow> Q () t"
  shows "wp (lnaddr_write b l v) Q s"
  using lnaddr_write_lies [OF assms(1-4), of v] assms(5-7) by (auto simp: wp_def)

lemma wp_lies_read:
  assumes "vm_inv W s" "lies W s a p n" "k + l \<le> n" "l = 1 \<or> l = 2 \<or> l = 4" "b = a + of_nat k"
    and "\<And>t. vm_same W s t \<Longrightarrow> Q (load (p + k) l (mem_view (mem s))) t"
  shows "wp (lnaddr_read b l) Q s"
  using lnaddr_read_run [OF assms(1) lies_mapped(1) [OF assms(2-4)] assms(4)] lies_mapped(2) [OF assms(2-4)] assms(5,6)
  by (auto simp: wp_def)

section \<open>Interrupt entry\<close>

text \<open>
  The states on the way into a handler that began in \<open>s\<close>: registers \<open>c\<close>, memory \<open>M\<close>, which differs
  from that of \<open>s\<close> only inside the \<open>n\<close> bytes of stack at \<open>p\<close>, and a TLB that agrees with the tables.
\<close>

definition entering :: "nat set \<Rightarrow> machine \<Rightarrow> nat \<Rightarrow> nat \<Rightarrow> bytes \<Rightarrow> CPU_state \<Rightarrow> machine \<Rightarrow> bool" where
  "entering W s p n M c t \<longleftrightarrow> (\<exists>m T. t = s\<lparr>cpu := c, mem := m, tlb := T\<rparr>) \<and> vm_inv W t \<and> mem_view (mem t) = M \<and>
     cr0 c = cr0 (cpu s) \<and> cr3 c = cr3 (cpu s) \<and> (\<forall>k. k < p \<or> p + n \<le> k \<longrightarrow> M k = mem_view (mem s) k)"

definition with_cache :: "SegDesc \<Rightarrow> CPU_state \<Rightarrow> CPU_state" where
  "with_cache d c = c\<lparr>sreg := (sreg c)(1 := (sreg c 1)\<lparr>sreg_cache := d\<rparr>)\<rparr>"

definition with_selector :: "u16 \<Rightarrow> CPU_state \<Rightarrow> CPU_state" where
  "with_selector v c = c\<lparr>sreg := (sreg c)(1 := (sreg c 1)\<lparr>selector := v\<rparr>)\<rparr>"

lemma with_cache_fields [simp]:
  "gdtr (with_cache d c) = gdtr c" "idtr (with_cache d c) = idtr c" "cr0 (with_cache d c) = cr0 c" "cr3 (with_cache d c) = cr3 c"
  "gpr (with_cache d c) = gpr c" "eflags (with_cache d c) = eflags c" "eip (with_cache d c) = eip c"
  "selector (sreg (with_cache d c) r) = selector (sreg c r)" "sreg_cache (sreg (with_cache d c) 1) = d" "sreg_cache (sreg (with_cache d c) (Suc 0)) = d"
  "with_cache d (with_cache e c) = with_cache d c" "INDEX (sreg (with_cache d c) r) = INDEX (sreg c r)"
  by (simp_all add: with_cache_def INDEX_def)

lemma entering_start: "vm_inv W s \<Longrightarrow> entering W s p n (mem_view (mem s)) (cpu s) s"
  unfolding entering_def by (intro conjI exI [of _ "mem s"] exI [of _ "tlb s"]) simp_all

lemma entering_parts:
  assumes "entering W s p n M c t"
  shows "cpu t = c" "mem_view (mem t) = M" "vm_inv W t" "differs_in p n s t" "mmio t = mmio s"
  using assms by (auto simp: entering_def differs_in_def)

lemma entering_cpu:
  assumes "entering W s p n M c t" "cr0 c' = cr0 c" "cr3 c' = cr3 c"
  shows "entering W s p n M c' (t\<lparr>cpu := c'\<rparr>)"
proof -
  have "vm_inv W (t\<lparr>cpu := c'\<rparr>) = vm_inv W t" using assms
    by (auto simp: entering_def vm_inv_def tlb_inv_def vm_on_def paging_def protect_enable_def page_directory_base_def)
  with assms show ?thesis by (auto simp: entering_def)
qed

lemma entering_read:
  assumes e: "entering W s p n M c t" and un: "unwalked s p n" and l: "lies W s a q j" "disjoint_bytes q j p n"
    and k: "k + l \<le> j" "l = 1 \<or> l = 2 \<or> l = 4" "b = a + of_nat k"
    and cont: "\<And>t'. entering W s p n M c t' \<Longrightarrow> Q (load (q + k) l (mem_view (mem s))) t'"
  shows "wp (lnaddr_read b l) Q t"
proof (rule wp_lies_read [OF entering_parts(3) [OF e] _ k])
  note d = entering_parts(4) [OF e]
  show "lies W t a q j" using l(1) lies_differs [OF un d] by simp
  fix t' assume t': "vm_same W t t'"
  have "load (q + k) l (mem_view (mem t)) = load (q + k) l (mem_view (mem s))"
    by (rule load_outside [of _ _ p n]) (use l(2) k(1) d in \<open>auto simp: disjoint_bytes_def differs_in_def\<close>)
  moreover have "entering W s p n M c t'" using e t' by (auto simp: entering_def vm_same_def)
  ultimately show "Q (load (q + k) l (mem_view (mem t))) t'" using cont by simp
qed

lemma entering_push:
  assumes e: "entering W s p n M c t" and un: "unwalked s p n" and l: "lies W s a p n"
    and k: "k + 4 \<le> n" "gpr c R_ESP = a + of_nat k + 4" and ss: "seg_base 2 c = 0"
    and cont: "\<And>t'. entering W s p n (store (p + k) 4 v M) (set_gpr R_ESP (a + of_nat k) c) t' \<Longrightarrow> Q () t'"
  shows "wp (push4 v) Q t"
proof -
  let ?c = "set_gpr R_ESP (a + of_nat k) c" and ?t = "t\<lparr>cpu := set_gpr R_ESP (a + of_nat k) c\<rparr>"
  have e': "entering W s p n M ?c ?t" by (rule entering_cpu [OF e]) simp_all
  note d = entering_parts(4) [OF e']
  have "wp (lnaddr_write (a + of_nat k) 4 v) Q ?t"
  proof (rule wp_lies_write [OF entering_parts(3) [OF e'] _ _ k(1) _ refl])
    show "lies W ?t a p n" using l lies_differs [OF un d] by simp
    show "unwalked ?t p n" by (rule differs_in_parts(6) [OF un d])
    fix t' assume t': "written W (p + k) 4 v ?t t'"
    have "store (p + k) 4 v M j = mem_view (mem s) j" if "j < p \<or> p + n \<le> j" for j
      using e that k(1) by (auto simp: entering_def)
    then have "entering W s p n (store (p + k) 4 v M) ?c t'"
      using t' e' by (auto simp: entering_def written_def)
    then show "Q () t'" by (rule cont)
  qed simp
  moreover have "swaddr_write x 4 v 2 ?t = lnaddr_write x 4 v ?t" for x
    using ss by (simp add: swaddr_write_def seg_translate_def seg_base_def seqM_def bindM_def run_simps)
  ultimately show ?thesis using k(2) entering_parts(1) [OF e]
    by (simp add: push4_def wp_simps wp_def [of "swaddr_write x y z w" for x y z w]) (simp add: wp_def)
qed

lemma entering_load_desc:
  assumes e: "entering W s p n M c t" and un: "unwalked s p n" and l: "lies W s a q 8" "disjoint_bytes q 8 p n"
    and a: "a = dtr_base (gdtr c) + 8 * INDEX (sreg c 1)" and k: "k' + l \<le> 8" "l = 1 \<or> l = 2 \<or> l = 4" "k = of_nat k'"
    and cont: "\<And>t'. entering W s p n M (with_cache (f (load (q + k') l (mem_view (mem s))) (sreg_cache (sreg c 1))) c) t' \<Longrightarrow> Q () t'"
  shows "wp (load_desc 1 k l f) Q t"
  unfolding load_desc_def wp_bindM wp_cpuM entering_parts(1) [OF e]
proof (rule entering_read [OF e un l k(1,2)])
  show "dtr_base (gdtr c) + 8 * INDEX (sreg c 1) + k = a + of_nat k'" using a k(3) by simp
  fix t' assume t': "entering W s p n M c t'"
  let ?c = "with_cache (f (load (q + k') l (mem_view (mem s))) (sreg_cache (sreg c 1))) c"
  have "Q () (t'\<lparr>cpu := ?c\<rparr>)" by (rule cont, rule entering_cpu [OF t']) simp_all
  then show "wp (on_cpu (\<lambda>c. c\<lparr>sreg := (sreg c)(1 := (sreg c 1)\<lparr>sreg_cache := f (load (q + k') l (mem_view (mem s)))
      (sreg_cache (sreg c 1))\<rparr>)\<rparr>)) Q t'"
    by (simp add: wp_simps entering_parts(1) [OF t'] with_cache_def)
qed

lemma entering_load_segment:
  assumes e: "entering W s p n M c t" and un: "unwalked s p n" and l: "lies W s a q 8" "disjoint_bytes q 8 p n"
    and a: "a = dtr_base (gdtr c) + 8 * INDEX (sreg c 1)"
    and zero: "load (q + 2) 2 (mem_view (mem s)) = 0" "load (q + 4) 1 (mem_view (mem s)) = 0" "load (q + 7) 1 (mem_view (mem s)) = 0"
    and cont: "\<And>t' d. base_zero d \<Longrightarrow> entering W s p n M (with_cache d c) t' \<Longrightarrow> Q () t'"
  shows "wp (load_segment 1) Q t"
  unfolding load_segment_def wp_seqM
proof (rule entering_load_desc [OF e un l a, of 2], goal_cases)
  case (4 t1)
  show ?case
  proof (rule entering_load_desc [OF 4 un l, of 4], goal_cases)
    case (5 t2)
    show ?case
    proof (rule entering_load_desc [OF 5 un l, of 7], goal_cases)
      case (5 t3)
      show ?case
      proof (rule entering_load_desc [OF 5 un l, of 0], goal_cases)
        case (5 t4)
        show ?case
        proof (rule entering_load_desc [OF 5 un l, of 6], goal_cases)
          case (5 t5)
          show ?case by (rule cont [OF _ 5 [unfolded with_cache_fields]]) (use zero in \<open>simp add: base_zero_def\<close>)
        qed (use a in simp_all)
      qed (use a in simp_all)
    qed (use a in simp_all)
  qed (use a in simp_all)
qed simp_all
text \<open>
  Delivery of vector \<open>NO\<close> from any state with paging on whose gate, code descriptor and twelve bytes of stack each lie in
  one stretch of memory: the three words are pushed, and control continues at the offset in the gate.
\<close>

lemma raise_intr_entering:
  assumes inv: "vm_inv W s" and stack: "lies W s a p 12" "unwalked s p 12" "gpr (cpu s) R_ESP = a + 12" and ss: "seg_base 2 (cpu s) = 0"
    and gate: "lies W s (dtr_base (idtr (cpu s)) + 8 * ucast NO) g 8" "disjoint_bytes g 8 p 12"
    and desc: "lies W s (dtr_base (gdtr (cpu s)) + 8 * ucast (bits 3 13 sel)) q 8" "disjoint_bytes q 8 p 12"
    and sel: "sel = ucast (load (g + 2) 2 (mem_view (mem s)))"
    and zero: "load (q + 2) 2 (mem_view (mem s)) = 0" "load (q + 4) 1 (mem_view (mem s)) = 0" "load (q + 7) 1 (mem_view (mem s)) = 0"
  defines "e \<equiv> push_bit 16 (load (g + 6) 2 (mem_view (mem s))) OR load g 2 (mem_view (mem s))"
    and "M \<equiv> store p 4 (eip (cpu s)) (store (p + 4) 4 (ucast (selector (sreg (cpu s) 1))) (store (p + 8) 4 (eflags (cpu s)) (mem_view (mem s))))"
  shows "jumps (raise_intr NO) (\<lambda>t. \<exists>d. base_zero d \<and>
    entering W s p 12 M ((with_cache d (with_selector sel (set_gpr R_ESP a (cpu s))))\<lparr>eip := e\<rparr>) t) s"
proof -
  let ?gate = "dtr_base (idtr (cpu s)) + 8 * ucast NO"
  let ?c = "\<lambda>d. (with_cache d (with_selector sel (set_gpr R_ESP a (cpu s))))\<lparr>eip := e\<rparr>"
  let ?Q = "\<lambda>t. \<exists>d. base_zero d \<and> entering W s p 12 M (?c d) t"
  let ?rest = "bindM (cpuM (seg_base 1)) (\<lambda>base_addr.
     bindM (lnaddr_read ?gate 2) (\<lambda>offset1. bindM (lnaddr_read (?gate + 6) 2) (\<lambda>offset2.
     seqM (set_eip (base_addr + (push_bit 16 (take_bit 16 offset2) OR take_bit 16 offset1))) longjmp)))"
  have rest: "jumps ?rest ?Q t" if t: "base_zero d" "entering W s p 12 M (with_cache d (with_selector sel (set_gpr R_ESP a (cpu s)))) t" for d t
  proof -
    have b: "seg_base 1 (cpu t) = 0" using t(1) by (simp add: entering_parts(1) [OF t(2)] seg_base_zero)
    show ?thesis
    proof (rule jumps_bindM, simp only: wp_cpuM b, rule jumps_bindM, rule entering_read [OF t(2) stack(2) gate, of 0], goal_cases)
      case (4 t1)
      show ?case
      proof (rule jumps_bindM, rule entering_read [OF 4 stack(2) gate, of 6], goal_cases)
        case (4 t2)
        have "?Q (t2\<lparr>cpu := (cpu t2)\<lparr>eip := e\<rparr>\<rparr>)"
          using t(1) entering_cpu [OF 4, of "?c d"] by (auto simp: entering_parts(1) [OF 4])
        then have "jumps longjmp ?Q (t2\<lparr>cpu := (cpu t2)\<lparr>eip := e\<rparr>\<rparr>)" by (rule jumps_longjmp)
        then show ?case by (intro jumps_seqM) (simp add: wp_eip take_bit_load e_def)
      qed simp_all
    qed simp_all
  qed
  have vector: "jumps (bindM (cpuM (\<lambda>c. dtr_base (idtr c) + 8 * ucast NO)) (\<lambda>gate.
     bindM (lnaddr_read (gate + 2) 2) (\<lambda>idt_selector. seqM (set_selector 1 (ucast idt_selector)) (seqM (load_segment 1)
    (bindM (cpuM (seg_base 1)) (\<lambda>base_addr. bindM (lnaddr_read gate 2) (\<lambda>offset1. bindM (lnaddr_read (gate + 6) 2) (\<lambda>offset2.
     seqM (set_eip (base_addr + (push_bit 16 (take_bit 16 offset2) OR take_bit 16 offset1))) longjmp)))))))) ?Q t"
    if t: "entering W s p 12 M (set_gpr R_ESP a (cpu s)) t" for t
  proof -
    have gt: "dtr_base (idtr (cpu t)) + 8 * ucast NO = ?gate" by (simp add: entering_parts(1) [OF t])
    show ?thesis
    proof (rule jumps_bindM, simp only: wp_cpuM gt, rule jumps_bindM, rule entering_read [OF t stack(2) gate, of 2], goal_cases)
      case (4 t1)
      let ?t = "t1\<lparr>cpu := with_selector sel (cpu t1)\<rparr>"
      have e: "entering W s p 12 M (with_selector sel (set_gpr R_ESP a (cpu s))) ?t"
        unfolding entering_parts(1) [OF 4] by (rule entering_cpu [OF 4]) (simp_all add: with_selector_def)
      have "wp (load_segment 1) (\<lambda>_. jumps ?rest ?Q) ?t"
      proof (rule entering_load_segment [OF e stack(2) desc _ zero])
        show "jumps ?rest ?Q t'" if "base_zero d" "entering W s p 12 M (with_cache d (with_selector sel (set_gpr R_ESP a (cpu s)))) t'"
          for t' d using that by (rule rest)
      qed (simp add: INDEX_def with_selector_def)
      then have "jumps (seqM (load_segment 1) ?rest) ?Q ?t" by (rule jumps_seqM)
      moreover have "jumps (seqM (set_selector 1 sel) m) R t1 = jumps m R ?t" for m :: "(machine, unit) M" and R
        by (simp add: jumps_def set_selector_def with_selector_def seqM_def bindM_def)
      ultimately show ?case unfolding sel [symmetric] by (simp only:)
    qed simp_all
  qed
  have at: "a + of_nat 8 + 4 = a + 12" "a + of_nat 4 + 4 = a + of_nat 8" "a + of_nat 0 + 4 = a + of_nat 4" by simp_all
  have sg: "seg_base 2 (set_gpr i x c) = seg_base 2 c" for i x c by (simp add: seg_base_def)
  show ?thesis unfolding raise_intr_def
  proof (rule jumps_seqM, unfold wp_bindM wp_cpuM, rule entering_push [OF entering_start [OF inv] stack(2,1), of 8], goal_cases)
    case (4 t1)
    note c1 = entering_parts(1) [OF 4]
    show ?case
    proof (rule jumps_seqM, unfold wp_bindM wp_cpuM, rule entering_push [OF 4 stack(2,1), of 4], goal_cases)
      case (4 t2)
      note c2 = entering_parts(1) [OF 4]
      show ?case
      proof (rule jumps_seqM, unfold wp_bindM wp_cpuM, rule entering_push [OF 4 stack(2,1), of 0], goal_cases)
        case (4 t3)
        then show ?case by (intro vector) (simp add: M_def set_gpr_def c1 c2)
      qed (use ss at in \<open>simp_all add: sg\<close>)
    qed (use ss at in \<open>simp_all add: sg\<close>)
  qed (use ss stack(3) at in simp_all)
qed
section \<open>The kernel half of an address space\<close>

text \<open>
  A page directory whose entries from 0xC0000000 on point to the flat tables of the kernel. The directory of the kernel
  is one, and so is the directory of every program, which copies these entries.
\<close>

definition kernel_half :: "bytes \<Rightarrow> u32 \<Rightarrow> u32 \<Rightarrow> bool" where
  "kernel_half m pdir pt \<longleftrightarrow> aligned pdir 4096 \<and> flat_tables m pt \<and>
     (\<forall>d. 768 \<le> d \<and> d < 800 \<longrightarrow> entry m pdir d = make_pde (pt + of_nat ((d - 768) * 4096)))"

lemma kernel_half_directories:
  "kernel_directory m pdir pt \<Longrightarrow> flat_tables m pt \<Longrightarrow> kernel_half m pdir pt"
  "user_directory m pdir pt \<Longrightarrow> flat_tables m pt \<Longrightarrow> kernel_half m pdir pt"
  by (auto simp: kernel_half_def kernel_directory_def user_directory_def simp del: of_nat_mult)

lemma plain_part: "plain W s lo hi \<Longrightarrow> lo \<le> a \<Longrightarrow> b \<le> hi \<Longrightarrow> plain W s a b"
  by (auto simp: plain_def)

lemma plain_phys: "plain W s lo hi \<Longrightarrow> lo \<le> unat a \<Longrightarrow> unat a + 4 \<le> hi \<Longrightarrow> phys_ok W s a 4"
  using plain_ok [of W s lo hi a 4] by (simp add: flat_ok_def)

lemma kernel_lies:
  assumes on: "vm_on s" "page_directory_base (cpu s) = drop_bit 12 pdir" and half: "kernel_half (mem_view (mem s)) pdir pt"
    and tabs: "plain W s (unat pdir) (unat pdir + 4096)" "plain W s (unat pt) (unat pt + 131072)" and p: "plain W s p (p + n)"
  shows "lies W s (KOFFSET + of_nat p) p n"
proof -
  let ?m = "mem_view (mem s)"
  have hi: "p + n \<le> 134217728" using p by (simp add: plain_def)
  have al: "unat pdir mod 4096 = 0" and ft: "flat_tables ?m pt" using half by (simp_all add: kernel_half_def aligned_def)
  have "tables_ok W s a \<and> xlate s a = Some (of_nat (p + i))" if i: "i < n" and a: "a = KOFFSET + of_nat p + of_nat i" for a i
  proof -
    have a': "a = KOFFSET + of_nat (p + i)" using a by (simp add: add.assoc)
    have ua: "unat a = 0xC0000000 + (p + i)" unfolding a' using hi i by (subst unat_word_ariths(1)) (simp add: unat_of_nat del: of_nat_add)
    let ?d = "dir_of a - 768" and ?t = "pt + of_nat ((dir_of a - 768) * 4096)"
    have "kernel_range a" using ua hi i by (simp add: kernel_range_def)
    then have d: "768 \<le> dir_of a" "dir_of a < 800" "?d < 32" by (auto simp: ranges)
    have pde: "entry ?m pdir (dir_of a) = make_pde ?t" using half d by (simp add: kernel_half_def del: of_nat_mult)
    note sub = sub_table [OF ft d(3)]
    have off: "(dir_of a - ?d) * 4194304 = 0xC0000000" using d by simp
    have "walk ?m (drop_bit 12 pdir) a = Some (a - KOFFSET)"
      using walk_flat [OF al ft d(3) pde] off by simp
    then have x: "xlate s a = Some (of_nat (p + i))" using on a' by (simp add: xlate_def)
    have ut: "unat ?t = unat pt + ?d * 4096"
      using ft d(3) by (simp add: flat_tables_def aligned_def unat_word_ariths unat_of_nat del: of_nat_mult)
    have e: "load (unat (pde_addr (drop_bit 12 pdir) a)) 4 ?m = make_pde ?t"
      using pde unfolding pde_at [OF al] entry_def .
    have "phys_ok W s (pde_addr (drop_bit 12 pdir) a) 4"
      by (rule plain_phys [OF tabs(1)]) (use pde_at [OF al, of a] dir_page_bound(1) [of a] in auto)
    moreover have "phys_ok W s (pte_addr (make_pde ?t) a) 4"
      by (rule plain_phys [OF tabs(2)]) (use pte_at [OF sub(1), of a] ut d(3) dir_page_bound(2) [of a] in auto)
    ultimately have "tables_ok W s a" using on(2) e by (simp add: tables_ok_def Let_def)
    with x show ?thesis by blast
  qed
  with p show ?thesis by (auto simp: lies_def)
qed

text \<open>With the directory of \<open>init_page\<close> in force, memory outside the two tables is outside every walk.\<close>

lemma unwalked_kernel:
  assumes dir: "page_directory_base (cpu s) = drop_bit 12 pdir" "kernel_directory (mem_view (mem s)) pdir pt" "aligned pt 131072"
    and p: "disjoint_bytes (unat pdir) 4096 p n" "disjoint_bytes (unat pt) 131072 p n" "4096 \<le> p"
  shows "unwalked s p n"
proof -
  let ?m = "mem_view (mem s)"
  have al: "unat pdir mod 4096 = 0" using dir(2) by (simp add: kernel_directory_def aligned_def)
  have "disjoint_bytes (unat (pde_addr (drop_bit 12 pdir) a)) 4 p n \<and>
      disjoint_bytes (unat (pte_addr (load (unat (pde_addr (drop_bit 12 pdir) a)) 4 ?m) a)) 4 p n" for a
  proof
    show "disjoint_bytes (unat (pde_addr (drop_bit 12 pdir) a)) 4 p n"
      using p(1) dir_page_bound(1) [of a] pde_at [OF al, of a] by (auto simp: disjoint_bytes_def)
    have e: "load (unat (pde_addr (drop_bit 12 pdir) a)) 4 ?m = entry ?m pdir (dir_of a)" by (simp add: pde_at [OF al] entry_def)
    have ent: "entry ?m pdir (dir_of a) = (if dir_of a < 32 then make_pde (pt + of_nat (dir_of a * 4096))
      else if 768 \<le> dir_of a \<and> dir_of a < 800 then make_pde (pt + of_nat ((dir_of a - 768) * 4096)) else 0)"
      using dir(2) dir_page_bound(1) [of a] by (simp add: kernel_directory_def del: of_nat_mult)
    consider d where "d < 32" "entry ?m pdir (dir_of a) = make_pde (pt + of_nat (d * 4096))" | "entry ?m pdir (dir_of a) = 0"
    proof (cases "dir_of a < 32")
      case True
      with ent that(1) [of "dir_of a"] show ?thesis by (simp del: of_nat_mult)
    next
      case False
      then show ?thesis using ent that(1) [of "dir_of a - 768"] that(2)
        by (cases "768 \<le> dir_of a \<and> dir_of a < 800") (auto simp del: of_nat_mult)
    qed
    then show "disjoint_bytes (unat (pte_addr (load (unat (pde_addr (drop_bit 12 pdir) a)) 4 ?m) a)) 4 p n"
    proof cases
      case (1 d)
      have ut: "unat (pt + of_nat (d * 4096)) = unat pt + d * 4096"
        using dir(3) 1(1) by (simp add: aligned_def unat_word_ariths unat_of_nat del: of_nat_mult)
      have "unat (pt + of_nat (d * 4096)) mod 4096 = 0" unfolding ut using dir(3) by (simp add: aligned_def)
      from pte_at [OF this, of a] show ?thesis unfolding e 1(2)
        using p(2) 1(1) dir_page_bound(2) [of a] ut by (auto simp: disjoint_bytes_def)
    next
      case 2
      have "unat (pte_addr 0 a) = 4 * page_of a"
        using shifted_index(2) [of a] by (simp add: pte_addr_def pte_page_frame_def bits_def)
      then show ?thesis unfolding e 2 using p(3) dir_page_bound(2) [of a] by (auto simp: disjoint_bytes_def)
    qed
  qed
  then show ?thesis using dir(1) by (simp add: unwalked_def walked_outside_def Let_def)
qed
section \<open>Properties\<close>

text \<open>
  C24. Interrupt and system call entry of the kernel, with paging on and the page tables that
  \<open>init_page\<close> and \<open>init_mm\<close> build in force: when the tables written by \<open>init_segment\<close> and \<open>init_idt\<close> are
  in memory and the table registers hold their addresses above 0xC0000000, every interrupt vector, hardware or
  software, makes the emulated processor push EFLAGS, CS and the old EIP on the stack that ESP points to, wherever paging puts
  it, and continue at exactly the entry point that do_irq.S provides for this vector, with the kernel's code selector and a
  code segment based at 0. All other registers and flags, all other bytes of memory and the address space stay as they
  are, and the TLB stays coherent with the page tables. The twelve bytes of stack are one stretch of physical memory outside
  both tables and outside the page tables in use; all of it is inside the working set of the caches.
\<close>

theorem kernel_vectors:
  assumes vm: "vm_inv W s" "vm_on s" "page_directory_base (cpu s) = drop_bit 12 pdir"
    and half: "kernel_half (mem_view (mem s)) pdir pt" "plain W s (unat pdir) (unat pdir + 4096)" "plain W s (unat pt) (unat pt + 131072)"
    and idt: "plain W s idt (idt + 2048)" "dtr_base (idtr (cpu s)) = KOFFSET + of_nat idt"
      "\<forall>k<2048. mem_view (mem s) (idt + k) = init_idt E idt m (idt + k)"
    and gdt: "plain W s gdt (gdt + 24)" "dtr_base (gdtr (cpu s)) = KOFFSET + of_nat gdt"
      "\<forall>k<24. mem_view (mem s) (gdt + k) = init_segment gdt m' (gdt + k)"
    and stack: "lies W s (gpr (cpu s) R_ESP - 12) p 12" "unwalked s p 12" "seg_base 2 (cpu s) = 0"
      "disjoint_bytes idt 2048 p 12" "disjoint_bytes gdt 24 p 12"
  shows "jumps (raise_intr NO) (\<lambda>t. eip (cpu t) = entry_point E (unat NO) \<and> selector (sreg (cpu t) 1) = 8 \<and> seg_base 1 (cpu t) = 0 \<and>
    gpr (cpu t) = (gpr (cpu s))(R_ESP := gpr (cpu s) R_ESP - 12) \<and> eflags (cpu t) = eflags (cpu s) \<and>
    stack_at 4 (mem_view (mem t)) p [eip (cpu s), ucast (selector (sreg (cpu s) 1)), eflags (cpu s)] \<and>
    (\<forall>k. k < p \<or> p + 12 \<le> k \<longrightarrow> mem_view (mem t) k = mem_view (mem s) k) \<and> vm_inv W t \<and> xlate t = xlate s) s"
proof -
  let ?m = "mem_view (mem s)" and ?g = "idt + 8 * unat NO" and ?q = "gdt + 8"
  let ?gate = "dtr_base (idtr (cpu s)) + 8 * ucast NO" and ?desc = "dtr_base (gdtr (cpu s)) + 8 * ucast (bits 3 13 (8 :: u16))"
  have NO: "unat NO < 256" using unsigned_less [of NO] by simp
  note lies = kernel_lies [OF vm(2,3) half]
  have "8 * ucast NO = (of_nat (8 * unat NO) :: u32)" by (simp add: unsigned_of_nat)
  then have ge: "?gate = KOFFSET + of_nat ?g" unfolding idt(2) by (simp add: add.assoc)
  have de: "?desc = KOFFSET + of_nat ?q" unfolding gdt(2) by (simp add: add.assoc bits_def)
  have g: "lies W s ?gate ?g 8" unfolding ge by (rule lies, rule plain_part [OF idt(1)]) (use NO in simp_all)
  have q: "lies W s ?desc ?q 8" unfolding de by (rule lies, rule plain_part [OF gdt(1)]) simp_all
  have dis: "disjoint_bytes ?g 8 p 12" "disjoint_bytes ?q 8 p 12" using stack(4,5) NO by (auto simp: disjoint_bytes_def)
  obtain type dpl where "holds_desc (init_idt E idt m) ?g (set_gate type 8 (entry_point E (unat NO)) dpl)"
    using init_idt_gates [OF NO] by blast
  moreover have "?m k = init_idt E idt m k" if "?g \<le> k" "k < ?g + 8" for k
    using idt(3) [rule_format, of "k - idt"] that NO by simp
  ultimately have "holds_desc ?m ?g (set_gate type 8 (entry_point E (unat NO)) dpl)"
    using holds_desc_outside [of ?g ?m "init_idt E idt m"] by simp
  note gl = gate_loads [OF this]
  have "?m k = init_segment gdt m' k" if "?q \<le> k" "k < ?q + 8" for k using gdt(3) [rule_format, of "k - gdt"] that by simp
  then have "holds_desc ?m ?q (set_segment 0 (0x8 OR 0x2))"
    using holds_desc_outside [of ?q ?m "init_segment gdt m'"] init_segment_code by simp
  note cl = code_segment_loads [OF this]
  have sel: "8 = (ucast (load (?g + 2) 2 ?m) :: u16)" using gl by simp
  show ?thesis
  proof (rule jumps_mono [OF raise_intr_entering [OF vm(1) stack(1,2) _ stack(3) g dis(1) q dis(2) sel cl]])
    fix t assume "\<exists>d. base_zero d \<and> entering W s p 12 (store p 4 (eip (cpu s)) (store (p + 4) 4 (ucast (selector (sreg (cpu s) 1)))
       (store (p + 8) 4 (eflags (cpu s)) ?m))) ((with_cache d (with_selector 8 (set_gpr R_ESP (gpr (cpu s) R_ESP - 12) (cpu s))))
       \<lparr>eip := push_bit 16 (load (?g + 6) 2 ?m) OR load ?g 2 ?m\<rparr>) t"
    then obtain d where d: "base_zero d" and t: "entering W s p 12 (store p 4 (eip (cpu s)) (store (p + 4) 4 (ucast (selector (sreg (cpu s) 1)))
       (store (p + 8) 4 (eflags (cpu s)) ?m))) ((with_cache d (with_selector 8 (set_gpr R_ESP (gpr (cpu s) R_ESP - 12) (cpu s))))
       \<lparr>eip := push_bit 16 (load (?g + 6) 2 ?m) OR load ?g 2 ?m\<rparr>) t" by blast
    note e = entering_parts [OF t] and x = differs_in_parts(3) [OF stack(2) entering_parts(4) [OF t]]
    have "selector (sreg (cpu t) 1) = 8" "seg_base 1 (cpu t) = 0" "gpr (cpu t) = (gpr (cpu s))(R_ESP := gpr (cpu s) R_ESP - 12)"
      "eflags (cpu t) = eflags (cpu s)" "eip (cpu t) = entry_point E (unat NO)"
      using d gl(2) by (simp_all add: e(1) seg_base_zero with_selector_def)
    moreover have "stack_at 4 (mem_view (mem t)) p [eip (cpu s), ucast (selector (sreg (cpu s) 1)), eflags (cpu s)]"
      by (simp add: e(2) load_store_other add.commute [of 8 p])
    moreover have "\<forall>k. k < p \<or> p + 12 \<le> k \<longrightarrow> mem_view (mem t) k = ?m k" using e(4) by (simp add: differs_in_def)
    ultimately show "eip (cpu t) = entry_point E (unat NO) \<and> selector (sreg (cpu t) 1) = 8 \<and> seg_base 1 (cpu t) = 0 \<and>
      gpr (cpu t) = (gpr (cpu s))(R_ESP := gpr (cpu s) R_ESP - 12) \<and> eflags (cpu t) = eflags (cpu s) \<and>
      stack_at 4 (mem_view (mem t)) p [eip (cpu s), ucast (selector (sreg (cpu s) 1)), eflags (cpu s)] \<and>
      (\<forall>k. k < p \<or> p + 12 \<le> k \<longrightarrow> mem_view (mem t) k = mem_view (mem s) k) \<and> vm_inv W t \<and> xlate t = xlate s"
      using e(3) x by blast
  qed simp
qed

text \<open>A kernel that has booted through \<open>init_page\<close>, \<open>init_segment\<close> and \<open>init_idt\<close>, in this order.\<close>

definition booted_entries :: entry_points where
  "booted_entries = \<lparr>vec = (\<lambda>i. 0xC0100000), vecsys = 0xC0101234, irq0 = 0xC0100000, irq1 = 0xC0100000, irq14 = 0xC0100000,
     irq_empty = 0xC0100000\<rparr>"

definition booted_kernel :: machine where
  "booted_kernel = (let (m, c3, c0) = init_page 0xC0010000 0xC0020000 1 (\<lambda>_. 0) in
     machine_with (reset_cpu\<lparr>gpr := (\<lambda>_. 0xC0009000), cr0 := c0, cr3 := c3, idtr := \<lparr>dtr_limit = 0x7FF, dtr_base = 0xC0001000\<rparr>,
        gdtr := \<lparr>dtr_limit = 23, dtr_base = 0xC0002000\<rparr>\<rparr>)
       (init_idt booted_entries 0x1000 (init_segment 0x2000 m)))"

lemma init_segment_outside: "k < gdt \<or> gdt + 24 \<le> k \<Longrightarrow> init_segment gdt m k = m k"
  by (auto simp: init_segment_def Let_def store_desc_outside clear_bytes_def)

theorem kernel_vectors_witness:
  "jumps (raise_intr 0x80) (\<lambda>t. eip (cpu t) = 0xC0101234 \<and> gpr (cpu t) R_ESP = 0xC0008FF4) booted_kernel"
proof -
  obtain m c3 c0 where r: "init_page 0xC0010000 0xC0020000 1 (\<lambda>_. 0) = (m, c3, c0)"
    by (cases "init_page 0xC0010000 0xC0020000 1 (\<lambda>_. 0)") auto
  let ?s = booted_kernel and ?pd = "0x10000 :: u32" and ?pt = "0x20000 :: u32"
  let ?v = "init_idt booted_entries 0x1000 (init_segment 0x2000 m)"
  have va: "va_to_pa 0xC0010000 = ?pd" "va_to_pa 0xC0020000 = ?pt" by (simp_all add: va_to_pa_def)
  note tab = init_page_tables [OF _ _ _ r, unfolded va]
  have k: "kernel_directory m ?pd ?pt" "flat_tables m ?pt" "bits 12 20 c3 = drop_bit 12 ?pd" "bit c0 31"
    by (rule tab; simp add: aligned_def apart_def)+
  have c0: "c0 = put_bits 31 1 1 1" using r by (auto simp: init_page_def Let_def)
  have same: "?v j = m j" if "0x10000 \<le> j" for j using that by (simp add: init_idt_outside init_segment_outside)
  have ent: "entry ?v a i = entry m a i" if "0x10000 \<le> unat a" for a i
    unfolding entry_def by (rule load_cong) (use that same in simp)
  have view: "mem_view (mem ?s) = ?v" and cpu: "cr3 (cpu ?s) = c3" "cr0 (cpu ?s) = c0" "gpr (cpu ?s) R_ESP = 0xC0009000"
    "dtr_base (idtr (cpu ?s)) = 0xC0001000" "dtr_base (gdtr (cpu ?s)) = 0xC0002000" "sreg (cpu ?s) = sreg reset_cpu"
    by (simp_all add: booted_kernel_def r)
  have kd: "kernel_directory (mem_view (mem ?s)) ?pd ?pt" "flat_tables (mem_view (mem ?s)) ?pt"
    unfolding view using k(1,2) by (simp_all add: kernel_directory_def flat_tables_def ent del: of_nat_mult)
  have on: "vm_on ?s" using k(4) by (simp add: vm_on_def paging_def protect_enable_def cpu) (simp add: c0 bit_put_bits)
  have base: "page_directory_base (cpu ?s) = drop_bit 12 ?pd" using k(3) by (simp add: page_directory_base_def cpu)
  have pl: "plain low_blocks ?s lo hi" if "0 < lo" "hi \<le> 4194304" for lo hi
    using that machine_with_plain by (simp add: booted_kernel_def r)
  have "\<not> tlb_valid (tlb ?s i)" for i by (simp add: booted_kernel_def r machine_with_def cold_machine_def)
  then have inv: "vm_inv low_blocks ?s" using machine_with_inv by (simp add: vm_inv_def tlb_inv_def booted_kernel_def r)
  note half = kernel_half_directories(1) [OF kd]
  have un: "unwalked ?s 0x8FF4 12"
    by (rule unwalked_kernel [OF base kd(1)]) (simp_all add: aligned_def disjoint_bytes_def)
  have st: "lies low_blocks ?s (KOFFSET + of_nat 0x8FF4) 0x8FF4 12" by (rule kernel_lies [OF on base half]; rule pl; simp)
  have gdt: "\<forall>j<24. mem_view (mem ?s) (0x2000 + j) = init_segment 0x2000 m (0x2000 + j)"
    unfolding view by (simp add: init_idt_outside)
  show ?thesis
    by (rule jumps_mono [OF kernel_vectors [OF inv on base half pl pl pl _ _ pl _ gdt, where p = "0x8FF4" and idt = "0x1000"
        and E = booted_entries and m = "init_segment 0x2000 m"]])
      (use st un in \<open>simp_all add: cpu view entry_point_def booted_entries_def disjoint_bytes_def seg_base_def reset_cpu_def\<close>)
qed
end
