(* ===== verification/Sector_Buffer.thy ===== *)
theory Sector_Buffer
  imports Prelude
begin

unbundle bit_operations_syntax

text \<open>
  The sector buffer of the kernel's IDE driver (kernel/src/driver/ide/buffer.c) and the byte-wise
  file interface on top of it (ide_read, ide_write and ide_writeback of
  kernel/src/driver/ide/ide.c). The driver below is given by the two functions the code calls,
  \<open>disk_do_read\<close> and \<open>disk_do_write\<close>; what the buffer relies on is the locale \<open>sector_disk\<close>.
\<close>

section \<open>State and operations\<close>

abbreviation (input) NR_SEC_BUF :: nat where "NR_SEC_BUF \<equiv> 128"

record SectorBuf =
  sector :: u32
  used :: bool
  dirty :: bool
  content :: "u8 list"

text \<open>\<open>counter\<close> is the static variable of \<open>ide_writeback\<close>, \<open>dev\<close> the world behind the driver.\<close>

record 'd buf_state =
  buf :: "nat \<Rightarrow> SectorBuf"
  counter :: u32
  dev :: 'd

type_synonym 'd reader = "u32 \<Rightarrow> ('d, u8 list) M"
type_synonym 'd writer = "u8 list \<Rightarrow> u32 \<Rightarrow> ('d, unit) M"

definition on_dev :: "('d, 'a) M \<Rightarrow> ('d buf_state, 'a) M" where
  "on_dev = zoom dev (\<lambda>d s. s\<lparr>dev := d\<rparr>)"

definition on_buf :: "nat \<Rightarrow> (SectorBuf \<Rightarrow> SectorBuf) \<Rightarrow> ('d buf_state, unit) M" where
  "on_buf i f = modM (\<lambda>s. s\<lparr>buf := (buf s)(i := f (buf s i))\<rparr>)"

definition buf_init :: "('d buf_state, unit) M" where
  "buf_init = forM [0..<NR_SEC_BUF] (\<lambda>i. on_buf i (\<lambda>b. b\<lparr>used := False\<rparr>))"

definition buf_writeback :: "'d writer \<Rightarrow> ('d buf_state, unit) M" where
  "buf_writeback wr = forM [0..<NR_SEC_BUF] (\<lambda>i.
     bindM (getM (\<lambda>s. buf s i)) (\<lambda>b.
     whenM (dirty b)
       (seqM (on_dev (wr (content b) (sector b)))
             (on_buf i (\<lambda>b. b\<lparr>dirty := False\<rparr>)))))"

definition buf_fetch :: "'d reader \<Rightarrow> 'd writer \<Rightarrow> u32 \<Rightarrow> ('d buf_state, nat) M" where
  "buf_fetch rd wr sec =
     (let i = unat sec mod NR_SEC_BUF in
      bindM (getM (\<lambda>s. buf s i)) (\<lambda>ptr.
      if used ptr \<and> sector ptr = sec then ret i
      else seqM (whenM (used ptr \<and> dirty ptr) (on_dev (wr (content ptr) (sector ptr))))
          (bindM (on_dev (rd sec)) (\<lambda>bs.
           seqM (on_buf i (\<lambda>b. b\<lparr>content := bs\<rparr>))
          (seqM (on_buf i (\<lambda>b. b\<lparr>used := True, sector := sec, dirty := False\<rparr>))
                (ret i))))))"

definition read_byte :: "'d reader \<Rightarrow> 'd writer \<Rightarrow> u32 \<Rightarrow> ('d buf_state, u8) M" where
  "read_byte rd wr offset =
     bindM (buf_fetch rd wr (drop_bit 9 offset)) (\<lambda>ptr.
     getM (\<lambda>s. content (buf s ptr) ! unat (offset AND 511)))"

definition write_byte :: "'d reader \<Rightarrow> 'd writer \<Rightarrow> u32 \<Rightarrow> u8 \<Rightarrow> ('d buf_state, unit) M" where
  "write_byte rd wr offset data =
     bindM (buf_fetch rd wr (drop_bit 9 offset)) (\<lambda>ptr.
     seqM (on_buf ptr (\<lambda>b. b\<lparr>content := (content b)[unat (offset AND 511) := data]\<rparr>))
          (on_buf ptr (\<lambda>b. b\<lparr>dirty := True\<rparr>)))"

text \<open>\<open>kernel_ide_read\<close> returns the bytes it stores in the caller's buffer.\<close>

fun kernel_ide_read_from :: "'d reader \<Rightarrow> 'd writer \<Rightarrow> u32 \<Rightarrow> nat \<Rightarrow> ('d buf_state, u8 list) M" where
  "kernel_ide_read_from rd wr offset 0 = ret []"
| "kernel_ide_read_from rd wr offset (Suc n) =
     bindM (read_byte rd wr offset) (\<lambda>b.
     bindM (kernel_ide_read_from rd wr (offset + 1) n) (\<lambda>bs. ret (b # bs)))"

definition kernel_ide_read :: "'d reader \<Rightarrow> 'd writer \<Rightarrow> u32 \<Rightarrow> u32 \<Rightarrow> ('d buf_state, u8 list) M" where
  "kernel_ide_read rd wr offset len = kernel_ide_read_from rd wr offset (unat len)"

text \<open>\<open>bs\<close> is the caller's buffer; the code reads exactly \<open>len\<close> bytes of it.\<close>

definition kernel_ide_write :: "'d reader \<Rightarrow> 'd writer \<Rightarrow> u8 list \<Rightarrow> u32 \<Rightarrow> u32 \<Rightarrow> ('d buf_state, unit) M" where
  "kernel_ide_write rd wr bs offset len =
     forM [0..<unat len] (\<lambda>i.
       if i < length bs then write_byte rd wr (offset + of_nat i) (bs ! i) else fail OutOfBounds)"

definition ide_writeback :: "'d writer \<Rightarrow> ('d buf_state, unit) M" where
  "ide_writeback wr =
     seqM (modM (\<lambda>s. s\<lparr>counter := counter s + 1\<rparr>))
    (bindM (getM counter) (\<lambda>c.
     whenM (c = 1 * 100)
       (seqM (buf_writeback wr) (modM (\<lambda>s. s\<lparr>counter := 0\<rparr>)))))"

section \<open>The disk behind the buffer\<close>

text \<open>
  What the buffer relies on: \<open>sec d t\<close> is what sector \<open>t\<close> of the disk holds, \<open>cap\<close> the number of
  sectors; reading a sector returns its 512 bytes and changes no sector, writing 512 bytes replaces
  exactly the addressed sector, and both keep the device ready.
\<close>

locale sector_disk =
  fixes rd :: "'d reader" and wr :: "'d writer" and ready :: "'d \<Rightarrow> bool" and cap :: nat
    and sec :: "'d \<Rightarrow> nat \<Rightarrow> u8 list"
  assumes cap_limit: "ready d \<Longrightarrow> cap \<le> 2 ^ 23"
    and sec_length: "ready d \<Longrightarrow> t < cap \<Longrightarrow> length (sec d t) = 512"
    and read_sector: "ready d \<Longrightarrow> unat n < cap \<Longrightarrow>
      wp (rd n) (\<lambda>bs e. bs = sec d (unat n) \<and> ready e \<and> (\<forall>t<cap. sec e t = sec d t)) d"
    and write_sector: "ready d \<Longrightarrow> unat n < cap \<Longrightarrow> length bs = 512 \<Longrightarrow>
      wp (wr bs n) (\<lambda>_ e. ready e \<and> (\<forall>t<cap. sec e t = (if t = unat n then bs else sec d t))) d"
begin

text \<open>
  The invariant: a slot in use holds a sector of the disk that belongs in this slot; only slots in use
  are dirty; a clean slot agrees with the disk.
\<close>

definition slot_ok :: "'d buf_state \<Rightarrow> nat \<Rightarrow> bool" where
  "slot_ok s i \<longleftrightarrow> (dirty (buf s i) \<longrightarrow> used (buf s i)) \<and> (used (buf s i) \<longrightarrow>
     unat (sector (buf s i)) < cap \<and> unat (sector (buf s i)) mod 128 = i \<and> length (content (buf s i)) = 512 \<and>
     (\<not> dirty (buf s i) \<longrightarrow> content (buf s i) = sec (dev s) (unat (sector (buf s i)))))"

definition buf_inv :: "'d buf_state \<Rightarrow> bool" where
  "buf_inv s \<longleftrightarrow> ready (dev s) \<and> (\<forall>i<128. slot_ok s i)"

text \<open>The abstract disk: what a reader is promised, buffered sectors before the disk's own.\<close>

definition held :: "'d buf_state \<Rightarrow> nat \<Rightarrow> bool" where
  "held s t \<longleftrightarrow> used (buf s (t mod 128)) \<and> unat (sector (buf s (t mod 128))) = t"

definition current :: "'d buf_state \<Rightarrow> nat \<Rightarrow> u8 list" where
  "current s t = (if held s t then content (buf s (t mod 128)) else sec (dev s) t)"

definition byte_of :: "'d buf_state \<Rightarrow> nat \<Rightarrow> u8" where
  "byte_of s k = current s (k div 512) ! (k mod 512)"

definition synced :: "'d buf_state \<Rightarrow> bool" where
  "synced s \<longleftrightarrow> (\<forall>t<cap. sec (dev s) t = current s t)"

lemma current_length: "buf_inv s \<Longrightarrow> t < cap \<Longrightarrow> length (current s t) = 512"
  using sec_length [of "dev s" t] by (auto simp: current_def held_def buf_inv_def slot_ok_def)

lemma clean_synced: "buf_inv s \<Longrightarrow> \<forall>i<128. \<not> dirty (buf s i) \<Longrightarrow> synced s"
  by (auto simp: synced_def current_def held_def buf_inv_def slot_ok_def)

lemma slot_of: "buf_inv s \<Longrightarrow> t mod 128 = i \<Longrightarrow> slot_ok s i"
  by (auto simp: buf_inv_def)

text \<open>Writing back slot \<open>i\<close>: the disk catches up, the abstract disk does not change.\<close>

lemma written_back:
  assumes inv: "buf_inv s" and i: "i < 128" and d: "dirty (buf s i)"
    and e: "ready e" "\<forall>t<cap. sec e t = (if t = unat (sector (buf s i)) then content (buf s i) else sec (dev s) t)"
  defines "u \<equiv> s\<lparr>dev := e, buf := (buf s)(i := (buf s i)\<lparr>dirty := False\<rparr>)\<rparr>"
  shows "buf_inv u" "t < cap \<Longrightarrow> current u t = current s t"
proof -
  have si: "slot_ok s i" using inv i by (simp add: buf_inv_def)
  have "slot_ok u j" if j: "j < 128" for j
  proof (cases "j = i")
    case True
    with si d e(2) show ?thesis by (simp add: slot_ok_def u_def)
  next
    case False
    have sj: "slot_ok s j" using inv j by (simp add: buf_inv_def)
    have "unat (sector (buf s i)) mod 128 = i" using si d by (simp add: slot_ok_def)
    with False sj e(2) show ?thesis by (auto simp: slot_ok_def u_def)
  qed
  with e(1) show "buf_inv u" by (simp add: buf_inv_def u_def)
  show "current u t = current s t" if "t < cap"
    using e(2) that si d by (auto simp: current_def held_def u_def slot_ok_def)
qed

lemma writeback_step:
  assumes "buf_inv s" "i < 128" "dirty (buf s i)"
  shows "wp (seqM (on_dev (wr (content (buf s i)) (sector (buf s i)))) (on_buf i (\<lambda>b. b\<lparr>dirty := False\<rparr>)))
    (\<lambda>_ u. buf_inv u \<and> (\<forall>t<cap. current u t = current s t) \<and> \<not> dirty (buf u i) \<and>
      (\<forall>j. dirty (buf u j) \<longrightarrow> dirty (buf s j)) \<and> counter u = counter s) s"
proof -
  have si: "slot_ok s i" and r: "ready (dev s)" using assms by (auto simp: buf_inv_def)
  with assms(3) have ok: "unat (sector (buf s i)) < cap" "length (content (buf s i)) = 512" by (auto simp: slot_ok_def)
  show ?thesis unfolding wp_seqM on_dev_def wp_zoom on_buf_def wp_modM
  proof (rule wp_mono [OF write_sector [OF r ok]])
    fix e assume "ready e \<and> (\<forall>t<cap. sec e t = (if t = unat (sector (buf s i)) then content (buf s i) else sec (dev s) t))"
    with written_back [OF assms, of e]
    have "buf_inv (s\<lparr>dev := e, buf := (buf s)(i := (buf s i)\<lparr>dirty := False\<rparr>)\<rparr>)"
      "\<forall>t<cap. current (s\<lparr>dev := e, buf := (buf s)(i := (buf s i)\<lparr>dirty := False\<rparr>)\<rparr>) t = current s t" by blast+
    then show "buf_inv (s\<lparr>dev := e, buf := (buf (s\<lparr>dev := e\<rparr>))(i := (buf (s\<lparr>dev := e\<rparr>) i)\<lparr>dirty := False\<rparr>)\<rparr>) \<and>
      (\<forall>t<cap. current (s\<lparr>dev := e, buf := (buf (s\<lparr>dev := e\<rparr>))(i := (buf (s\<lparr>dev := e\<rparr>) i)\<lparr>dirty := False\<rparr>)\<rparr>) t = current s t) \<and>
      \<not> dirty (buf (s\<lparr>dev := e, buf := (buf (s\<lparr>dev := e\<rparr>))(i := (buf (s\<lparr>dev := e\<rparr>) i)\<lparr>dirty := False\<rparr>)\<rparr>) i) \<and>
      (\<forall>j. dirty (buf (s\<lparr>dev := e, buf := (buf (s\<lparr>dev := e\<rparr>))(i := (buf (s\<lparr>dev := e\<rparr>) i)\<lparr>dirty := False\<rparr>)\<rparr>) j) \<longrightarrow> dirty (buf s j)) \<and>
      counter (s\<lparr>dev := e, buf := (buf (s\<lparr>dev := e\<rparr>))(i := (buf (s\<lparr>dev := e\<rparr>) i)\<lparr>dirty := False\<rparr>)\<rparr>) = counter s"
      by simp
  qed
qed

lemma buf_writeback_spec:
  assumes "buf_inv s"
  shows "wp (buf_writeback wr) (\<lambda>_ t. buf_inv t \<and> synced t \<and> (\<forall>k<cap. current t k = current s k) \<and>
    (\<forall>i<128. \<not> dirty (buf t i)) \<and> counter t = counter s) s"
  unfolding buf_writeback_def
proof (rule wp_for_upt [where I = "\<lambda>n t. buf_inv t \<and> (\<forall>k<cap. current t k = current s k) \<and> (\<forall>i<n. \<not> dirty (buf t i)) \<and> counter t = counter s"])
  fix i t assume i: "i < 128" and I: "buf_inv t \<and> (\<forall>k<cap. current t k = current s k) \<and> (\<forall>j<i. \<not> dirty (buf t j)) \<and> counter t = counter s"
  show "wp (bindM (getM (\<lambda>s. buf s i)) (\<lambda>b. whenM (dirty b) (seqM (on_dev (wr (content b) (sector b))) (on_buf i (\<lambda>b. b\<lparr>dirty := False\<rparr>)))))
    (\<lambda>_ t. buf_inv t \<and> (\<forall>k<cap. current t k = current s k) \<and> (\<forall>j<Suc i. \<not> dirty (buf t j)) \<and> counter t = counter s) t"
  proof (cases "dirty (buf t i)")
    case True
    have "wp (seqM (on_dev (wr (content (buf t i)) (sector (buf t i)))) (on_buf i (\<lambda>b. b\<lparr>dirty := False\<rparr>)))
      (\<lambda>_ t. buf_inv t \<and> (\<forall>k<cap. current t k = current s k) \<and> (\<forall>j<Suc i. \<not> dirty (buf t j)) \<and> counter t = counter s) t"
      by (rule wp_mono [OF writeback_step [OF _ i True]]) (use I in \<open>auto simp: less_Suc_eq\<close>)
    with True show ?thesis by (simp add: wp_bindM wp_getM whenM_def)
  qed (use I in \<open>auto simp: wp_simps less_Suc_eq\<close>)
qed (use assms clean_synced in auto)

text \<open>After a fetch the slot holds the sector and the abstract disk is what it was.\<close>

definition fetched :: "'d buf_state \<Rightarrow> u32 \<Rightarrow> 'd buf_state \<Rightarrow> bool" where
  "fetched s n t \<longleftrightarrow> buf_inv t \<and> held t (unat n) \<and> (\<forall>k<cap. current t k = current s k) \<and> counter t = counter s"

lemma replaced:
  assumes inv: "buf_inv s" and n: "unat n < cap" and miss: "\<not> held s (unat n)"
    and e: "ready e" "\<forall>t<cap. sec e t = (if used (buf s (unat n mod 128)) \<and> dirty (buf s (unat n mod 128)) \<and>
        t = unat (sector (buf s (unat n mod 128))) then content (buf s (unat n mod 128)) else sec (dev s) t)"
    and f: "ready f" "\<forall>t<cap. sec f t = sec e t"
  shows "fetched s n (s\<lparr>dev := f, buf := (buf s)(unat n mod 128 := (buf s (unat n mod 128))\<lparr>content := sec e (unat n),
    used := True, sector := n, dirty := False\<rparr>)\<rparr>)" (is "fetched s n ?u")
proof -
  let ?i = "unat n mod 128"
  have si: "slot_ok s ?i" using inv by (simp add: buf_inv_def)
  have "slot_ok ?u j" if j: "j < 128" for j
  proof (cases "j = ?i")
    case True
    with n e f sec_length [OF e(1) n] show ?thesis by (simp add: slot_ok_def)
  next
    case False
    have sj: "slot_ok s j" using inv j by (simp add: buf_inv_def)
    with si False e f show ?thesis by (auto simp: slot_ok_def)
  qed
  then have inv': "buf_inv ?u" using f by (simp add: buf_inv_def)
  have "current ?u k = current s k" if k: "k < cap" for k
  proof (cases "k mod 128 = ?i")
    case True
    then show ?thesis
    proof (cases "k = unat n")
      case True
      with miss n e show ?thesis by (auto simp: current_def held_def)
    next
      case False
      with True k e f si show ?thesis by (auto simp: current_def held_def slot_ok_def)
    qed
  next
    case False
    with k e f si show ?thesis by (auto simp: current_def held_def slot_ok_def)
  qed
  with inv' show ?thesis by (simp add: fetched_def held_def)
qed

lemma buf_fetch_spec:
  assumes inv: "buf_inv s" and n: "unat n < cap"
  shows "wp (buf_fetch rd wr n) (\<lambda>i t. i = unat n mod 128 \<and> fetched s n t) s"
proof (cases "held s (unat n)")
  case True
  then have "used (buf s (unat n mod 128))" "sector (buf s (unat n mod 128)) = n"
    by (auto simp: held_def word_unat_eq_iff)
  with True inv show ?thesis by (simp add: buf_fetch_def wp_simps Let_def fetched_def)
next
  case False
  let ?b = "buf s (unat n mod 128)"
  have si: "slot_ok s (unat n mod 128)" and r: "ready (dev s)" using inv by (auto simp: buf_inv_def)
  have miss: "\<not> (used ?b \<and> sector ?b = n)" using False by (auto simp: held_def)
  have evict: "wp (whenM (used ?b \<and> dirty ?b) (on_dev (wr (content ?b) (sector ?b))))
    (\<lambda>_ t. \<exists>e. t = s\<lparr>dev := e\<rparr> \<and> ready e \<and> (\<forall>t<cap. sec e t = (if used ?b \<and> dirty ?b \<and>
        t = unat (sector ?b) then content ?b else sec (dev s) t))) s"
  proof (cases "used ?b \<and> dirty ?b")
    case True
    with si have ok: "unat (sector ?b) < cap" "length (content ?b) = 512" by (auto simp: slot_ok_def)
    have "wp (on_dev (wr (content ?b) (sector ?b))) (\<lambda>_ t. \<exists>e. t = s\<lparr>dev := e\<rparr> \<and> ready e \<and> (\<forall>t<cap. sec e t =
       (if t = unat (sector ?b) then content ?b else sec (dev s) t))) s"
      unfolding on_dev_def wp_zoom by (rule wp_mono [OF write_sector [OF r ok]]) blast
    with True show ?thesis by (simp add: whenM_def)
  qed (use r in \<open>auto simp: wp_simps intro!: exI [of _ "dev s"]\<close>)
  have load: "wp (bindM (on_dev (rd n)) (\<lambda>bs. seqM (on_buf (unat n mod 128) (\<lambda>b. b\<lparr>content := bs\<rparr>))
        (seqM (on_buf (unat n mod 128) (\<lambda>b. b\<lparr>used := True, sector := n, dirty := False\<rparr>)) (ret (unat n mod 128)))))
      (\<lambda>i t. i = unat n mod 128 \<and> fetched s n t) (s\<lparr>dev := e\<rparr>)"
    if e: "ready e" "\<forall>t<cap. sec e t = (if used ?b \<and> dirty ?b \<and> t = unat (sector ?b) then content ?b else sec (dev s) t)" for e
    unfolding wp_bindM on_dev_def wp_zoom
  proof (simp, rule wp_mono [OF read_sector [OF e(1) n]])
    fix bs f assume f: "bs = sec e (unat n) \<and> ready f \<and> (\<forall>t<cap. sec f t = sec e t)"
    with replaced [OF inv n False e, of f]
    show "wp (seqM (on_buf (unat n mod 128) (\<lambda>b. b\<lparr>content := bs\<rparr>))
        (seqM (on_buf (unat n mod 128) (\<lambda>b. b\<lparr>used := True, sector := n, dirty := False\<rparr>)) (ret (unat n mod 128))))
      (\<lambda>i t. i = unat n mod 128 \<and> fetched s n t) (s\<lparr>dev := f\<rparr>)"
      by (simp add: on_buf_def wp_simps)
  qed
  have "wp (seqM (whenM (used ?b \<and> dirty ?b) (on_dev (wr (content ?b) (sector ?b))))
      (bindM (on_dev (rd n)) (\<lambda>bs. seqM (on_buf (unat n mod 128) (\<lambda>b. b\<lparr>content := bs\<rparr>))
        (seqM (on_buf (unat n mod 128) (\<lambda>b. b\<lparr>used := True, sector := n, dirty := False\<rparr>)) (ret (unat n mod 128))))))
      (\<lambda>i t. i = unat n mod 128 \<and> fetched s n t) s"
    unfolding wp_seqM by (rule wp_mono [OF evict]) (auto dest: load simp: wp_seqM)
  then show ?thesis using miss unfolding buf_fetch_def Let_def wp_bindM wp_getM by (simp only: if_False)
qed

subsection \<open>The byte interface\<close>

definition same_bytes :: "'d buf_state \<Rightarrow> 'd buf_state \<Rightarrow> bool" where
  "same_bytes s t \<longleftrightarrow> buf_inv t \<and> (\<forall>k<512 * cap. byte_of t k = byte_of s k) \<and> counter t = counter s"

lemma same_bytesI:
  "buf_inv t \<Longrightarrow> (\<forall>k<cap. current t k = current s k) \<Longrightarrow> counter t = counter s \<Longrightarrow> same_bytes s t"
  by (auto simp: same_bytes_def byte_of_def intro!: arg_cong [where f = "\<lambda>x. x ! _"])

lemma same_bytes_trans: "same_bytes s t \<Longrightarrow> same_bytes t u \<Longrightarrow> same_bytes s u"
  by (auto simp: same_bytes_def)

lemma sector_of: "unat (drop_bit 9 n :: u32) = unat n div 512" "unat (n AND 511 :: u32) = unat n mod 512"
proof -
  show "unat (drop_bit 9 n :: u32) = unat n div 512" by (simp only: unat_drop_bit) simp
  have "n AND 511 = take_bit 9 n" by (simp add: take_bit_eq_mask mask_eq_exp_minus_1 del: take_bit_eq_mod)
  then show "unat (n AND 511 :: u32) = unat n mod 512" by (simp only: unat_take_bit) simp
qed

lemma read_byte_spec:
  assumes inv: "buf_inv s" and n: "unat n < 512 * cap"
  shows "wp (read_byte rd wr n) (\<lambda>b t. b = byte_of s (unat n) \<and> same_bytes s t) s"
proof -
  have c: "unat (drop_bit 9 n) < cap" using n by (simp add: sector_of)
  have "content (buf t (unat n div 512 mod 128)) ! (unat n mod 512) = byte_of s (unat n) \<and> same_bytes s t"
    if f: "fetched s (drop_bit 9 n) t" for t
  proof -
    have "content (buf t (unat n div 512 mod 128)) = current t (unat n div 512)"
      using f by (simp add: fetched_def current_def sector_of)
    also have "\<dots> = current s (unat n div 512)" using f c by (simp add: fetched_def sector_of)
    finally show ?thesis using f by (auto simp: fetched_def byte_of_def intro: same_bytesI)
  qed
  then show ?thesis unfolding read_byte_def wp_bindM
    by (intro wp_mono [OF buf_fetch_spec [OF inv c]]) (simp add: wp_simps sector_of)
qed

lemma write_byte_spec:
  assumes inv: "buf_inv s" and n: "unat n < 512 * cap"
  shows "wp (write_byte rd wr n v) (\<lambda>_ t. buf_inv t \<and> counter t = counter s \<and>
    (\<forall>k<512 * cap. byte_of t k = (if k = unat n then v else byte_of s k))) s"
proof -
  let ?t = "unat n div 512" let ?i = "unat n div 512 mod 128"
  have c: "unat (drop_bit 9 n) < cap" using n by (simp add: sector_of)
  have "buf_inv u \<and> counter u = counter s \<and> (\<forall>k<512 * cap. byte_of u k = (if k = unat n then v else byte_of s k))"
    if f: "fetched s (drop_bit 9 n) w" and u: "u = w\<lparr>buf := (buf w)(?i := (buf w ?i)\<lparr>content :=
      (content (buf w ?i))[unat n mod 512 := v], dirty := True\<rparr>)\<rparr>" for u w
  proof -
    have w: "buf_inv w" "held w ?t" "\<forall>k<cap. current w k = current s k" "counter w = counter s"
      using f by (simp_all add: fetched_def sector_of)
    then have wi: "slot_ok w j" if "j < 128" for j using that by (simp add: buf_inv_def)
    have ui: "buf u j = buf w j" if "j \<noteq> ?i" for j using that by (simp add: u)
    have dev_u: "dev u = dev w" by (simp add: u)
    have "slot_ok u j" if "j < 128" for j
    proof (cases "j = ?i")
      case True
      have "slot_ok w ?i" by (rule wi) simp
      with w(2) show ?thesis unfolding True by (simp add: slot_ok_def u held_def)
    next
      case False
      with wi [OF that] ui [OF False] show ?thesis by (simp add: slot_ok_def dev_u)
    qed
    then have inv': "buf_inv u" using w(1) by (simp add: buf_inv_def u)
    have held_u: "held u k = held w k" for k by (simp add: held_def u)
    have img: "current u k = (if k = ?t then (current w k)[unat n mod 512 := v] else current w k)" for k
    proof (cases "k = ?t")
      case True
      with w(2) show ?thesis by (simp add: current_def held_u) (simp add: u)
    next
      case False
      have "k mod 128 \<noteq> ?i" if "held w k"
      proof
        assume "k mod 128 = ?i"
        with that w(2) have "k = ?t" by (simp add: held_def)
        with False show False by simp
      qed
      with False show ?thesis by (simp add: current_def held_u ui dev_u)
    qed
    have "?t < cap" using n by (simp add: less_mult_imp_div_less mult.commute)
    then have len: "length (current w ?t) = 512" by (rule current_length [OF w(1)])
    have "byte_of u k = (if k = unat n then v else byte_of w k)" for k
    proof (cases "k div 512 = ?t \<and> k mod 512 = unat n mod 512")
      case True
      then have "k = unat n" by (metis div_mult_mod_eq)
      moreover have "(current w ?t)[unat n mod 512 := v] ! (unat n mod 512) = v" by (simp add: len)
      ultimately show ?thesis by (simp add: byte_of_def img del: nth_list_update_eq)
    next
      case False
      then have k: "k \<noteq> unat n" by auto
      have "(current w ?t)[unat n mod 512 := v] ! (k mod 512) = current w ?t ! (k mod 512)" if "k div 512 = ?t"
        using False that by (intro nth_list_update_neq) auto
      with k show ?thesis by (simp add: byte_of_def img)
    qed
    moreover have "byte_of w k = byte_of s k" if "k < 512 * cap" for k
      using w(3) that by (simp add: byte_of_def less_mult_imp_div_less mult.commute)
    ultimately show ?thesis using inv' w(4) by (simp add: u)
  qed
  then show ?thesis unfolding write_byte_def wp_bindM
    by (intro wp_mono [OF buf_fetch_spec [OF inv c]]) (simp add: wp_simps on_buf_def sector_of)
qed

lemma kernel_ide_read_from_spec:
  assumes "buf_inv s" "unat n + l \<le> 512 * cap"
  shows "wp (kernel_ide_read_from rd wr n l) (\<lambda>bs t. bs = map (\<lambda>i. byte_of s (unat n + i)) [0..<l] \<and> same_bytes s t) s"
  using assms
proof (induction l arbitrary: s n)
  case 0
  then show ?case by (simp add: wp_simps same_bytes_def)
next
  case (Suc l)
  have n1: "unat (n + 1) = unat n + 1" if "0 < l"
    using Suc.prems(2) cap_limit [of "dev s"] Suc.prems(1) that by (intro unat_word_ariths(1) [THEN trans]) (simp add: buf_inv_def)
  have rest: "wp (kernel_ide_read_from rd wr (n + 1) l) (\<lambda>bs u. bs = map (\<lambda>i. byte_of s (unat n + 1 + i)) [0..<l] \<and> same_bytes s u) t"
    if t: "same_bytes s t" for t
  proof (cases "l = 0")
    case True
    then show ?thesis using t by (simp add: wp_simps)
  next
    case False
    have "wp (kernel_ide_read_from rd wr (n + 1) l) (\<lambda>bs u. bs = map (\<lambda>i. byte_of t (unat (n + 1) + i)) [0..<l] \<and> same_bytes t u) t"
      using Suc.IH [of t "n + 1"] t Suc.prems(2) n1 False by (simp add: same_bytes_def)
    then show ?thesis
      by (rule wp_mono) (use t Suc.prems(2) n1 False in \<open>auto simp: same_bytes_def\<close>)
  qed
  have list: "map (\<lambda>i. byte_of s (unat n + i)) [0..<Suc l] = byte_of s (unat n) # map (\<lambda>i. byte_of s (unat n + 1 + i)) [0..<l]"
    by (simp add: upt_conv_Cons map_Suc_upt [symmetric] comp_def del: upt_Suc)
  show ?case unfolding kernel_ide_read_from.simps wp_bindM list
    by (rule wp_mono [OF read_byte_spec [OF Suc.prems(1)]], use Suc.prems(2) in simp,
        rule wp_mono [OF rest]) (auto simp: wp_simps)
qed

lemma kernel_ide_read_spec:
  assumes "buf_inv s" "unat n + unat l \<le> 512 * cap"
  shows "wp (kernel_ide_read rd wr n l) (\<lambda>bs t. bs = map (\<lambda>i. byte_of s (unat n + i)) [0..<unat l] \<and> same_bytes s t) s"
  unfolding kernel_ide_read_def using assms by (rule kernel_ide_read_from_spec)

lemma kernel_ide_write_spec:
  assumes "buf_inv s" "unat n + unat l \<le> 512 * cap" "unat l \<le> length bs"
  shows "wp (kernel_ide_write rd wr bs n l) (\<lambda>_ t. buf_inv t \<and> counter t = counter s \<and> (\<forall>k<512 * cap.
    byte_of t k = (if unat n \<le> k \<and> k < unat n + unat l then bs ! (k - unat n) else byte_of s k))) s"
  unfolding kernel_ide_write_def
proof (rule wp_for_upt [where I = "\<lambda>i t. buf_inv t \<and> counter t = counter s \<and> (\<forall>k<512 * cap.
    byte_of t k = (if unat n \<le> k \<and> k < unat n + i then bs ! (k - unat n) else byte_of s k))"])
  fix i t assume i: "i < unat l" and I: "buf_inv t \<and> counter t = counter s \<and> (\<forall>k<512 * cap.
    byte_of t k = (if unat n \<le> k \<and> k < unat n + i then bs ! (k - unat n) else byte_of s k))"
  have "unat n + i < 2 ^ 32" using i assms(1,2) cap_limit [of "dev s"] by (simp add: buf_inv_def)
  then have ni: "unat (n + of_nat i) = unat n + i"
    by (simp add: unat_word_ariths unat_of_nat)
  have "unat (n + of_nat i) < 512 * cap" using ni i assms(2) by simp
  from write_byte_spec [OF conjunct1 [OF I] this, of "bs ! i"]
  have "wp (write_byte rd wr (n + of_nat i) (bs ! i)) (\<lambda>_ u. buf_inv u \<and> counter u = counter s \<and> (\<forall>k<512 * cap.
    byte_of u k = (if unat n \<le> k \<and> k < unat n + Suc i then bs ! (k - unat n) else byte_of s k))) t"
    by (rule wp_mono) (use I in \<open>auto simp: ni\<close>)
  then show "wp (if i < length bs then write_byte rd wr (n + of_nat i) (bs ! i) else fail OutOfBounds)
    (\<lambda>_ u. buf_inv u \<and> counter u = counter s \<and> (\<forall>k<512 * cap.
    byte_of u k = (if unat n \<le> k \<and> k < unat n + Suc i then bs ! (k - unat n) else byte_of s k))) t"
    using i assms(3) by simp
qed (use assms(1) in auto)

text \<open>The timer handler: every hundredth tick the disk catches up with what the buffer promises.\<close>

lemma ide_writeback_spec:
  assumes "buf_inv s"
  shows "wp (ide_writeback wr) (\<lambda>_ t. buf_inv t \<and> (\<forall>k<cap. current t k = current s k) \<and> (synced s \<longrightarrow> synced t) \<and>
    (if counter s = 99 then synced t \<and> counter t = 0 else counter t = counter s + 1)) s"
proof -
  let ?s = "s\<lparr>counter := counter s + 1\<rparr>"
  have same: "current ?s = current s" "buf_inv ?s" "dev ?s = dev s"
    using assms by (auto simp: current_def held_def buf_inv_def slot_ok_def)
  have u0: "buf_inv (t\<lparr>counter := c\<rparr>) = buf_inv t" "current (t\<lparr>counter := c\<rparr>) = current t" "synced (t\<lparr>counter := c\<rparr>) = synced t" for t c
    by (auto simp: current_def held_def buf_inv_def slot_ok_def synced_def)
  have c99: "counter s = 99 \<longleftrightarrow> counter s + 1 = 100" using add_right_cancel [of "counter s" 1 99] by simp
  show ?thesis
  proof (cases "counter s = 99")
    case True
    then have "counter ?s = 1 * 100" by simp
    with True show ?thesis
      unfolding ide_writeback_def wp_seqM wp_bindM wp_modM wp_getM whenM_def
      by (simp only: if_True wp_seqM wp_modM simp_thms) (rule wp_mono [OF buf_writeback_spec [OF same(2), unfolded True]], simp add: u0 same [unfolded True])
  next
    case False
    with c99 have "counter s + 1 \<noteq> 1 * 100" by simp
    with False show ?thesis using same by (simp add: ide_writeback_def wp_simps synced_def)
  qed
qed

end

end
