(* ===== verification/Disk_Driver.thy ===== *)
theory Disk_Driver
  imports Device_Props Sector_Buffer
begin

unbundle bit_operations_syntax

text \<open>
  The kernel's disk driver (kernel/src/driver/ide/disk.c, without USE_DMA_READ) running on the
  emulated disk: each port instruction of the kernel (kernel/include/x86/io.h) is the port access that the
  emulator performs for it. The two functions are shown to satisfy \<open>sector_disk\<close>, what the sector buffer
  relies on.
\<close>

section \<open>Port instructions\<close>

definition in_byte :: "u16 \<Rightarrow> (machine, u8) M" where
  "in_byte p = bindM (pio_read p 1) (\<lambda>v. ret (ucast v))"

definition in_long :: "u16 \<Rightarrow> (machine, u32) M" where
  "in_long p = pio_read p 4"

definition out_byte :: "u16 \<Rightarrow> u8 \<Rightarrow> (machine, unit) M" where
  "out_byte p v = pio_write p 1 (ucast v)"

definition out_long :: "u16 \<Rightarrow> u32 \<Rightarrow> (machine, unit) M" where
  "out_long p v = pio_write p 4 v"

section \<open>The driver\<close>

text \<open>\<open>fuel\<close> bounds the polling loop; the properties show that one round is enough.\<close>

definition waitdisk :: "nat \<Rightarrow> (machine, unit) M" where
  "waitdisk fuel = whileM fuel (bindM (in_byte (0x1F0 + 7)) (\<lambda>v. ret (v AND (0x80 OR 0x40) \<noteq> 0x40))) (ret ())"

definition ide_prepare :: "nat \<Rightarrow> u32 \<Rightarrow> (machine, unit) M" where
  "ide_prepare fuel sec =
     seqM (waitdisk fuel)
    (seqM (out_byte (0x1F0 + 1) 0)
    (seqM (out_byte (0x1F0 + 2) 1)
    (seqM (out_byte (0x1F0 + 3) (ucast (sec AND 0xFF)))
    (seqM (out_byte (0x1F0 + 4) (ucast (drop_bit 8 sec AND 0xFF)))
    (seqM (out_byte (0x1F0 + 5) (ucast (drop_bit 16 sec AND 0xFF)))
          (out_byte (0x1F0 + 6) (ucast (0xE0 OR (drop_bit 24 sec AND 0xFF)))))))))"

definition issue_read :: "(machine, unit) M" where
  "issue_read = out_byte (0x1F0 + 7) 0x20"

definition issue_write :: "(machine, unit) M" where
  "issue_write = out_byte (0x1F0 + 7) 0x30"

text \<open>The transfer loops; the caller's buffer is the returned list of bytes, or the argument.\<close>

fun in_longs :: "nat \<Rightarrow> (machine, u8 list) M" where
  "in_longs 0 = ret []"
| "in_longs (Suc n) = bindM (in_long 0x1F0) (\<lambda>v.
     bindM (in_longs n) (\<lambda>bs. ret (map (\<lambda>i. byte_at i v) [0..<4] @ bs)))"

definition disk_do_read :: "nat \<Rightarrow> u32 \<Rightarrow> (machine, u8 list) M" where
  "disk_do_read fuel sec = seqM (ide_prepare fuel sec) (seqM issue_read (in_longs (512 div 4)))"

definition disk_do_write :: "nat \<Rightarrow> u8 list \<Rightarrow> u32 \<Rightarrow> (machine, unit) M" where
  "disk_do_write fuel bs sec =
     seqM (ide_prepare fuel sec)
    (seqM issue_write
       (forM [0..<512 div 4] (\<lambda>i. out_long 0x1F0 (le32 (\<lambda>j. bs ! (4 * i + j))))))"

section \<open>Single port accesses\<close>

definition wired :: "machine \<Rightarrow> bool" where
  "wired s \<longleftrightarrow> pio_maps (pio s) = device_ports \<and> pic_wired 6 s \<and> byte_cnt (ide s) \<le> 512"

definition with_port :: "nat \<Rightarrow> u8 \<Rightarrow> machine \<Rightarrow> machine" where
  "with_port a v s = s\<lparr>pio := (pio s)\<lparr>pio_space := (pio_space (pio s))(a := v)\<rparr>\<rparr>"

lemma port_with_port [simp]: "port b (with_port a v s) = (if b = a then v else port b s)"
  by (simp add: port_def with_port_def)

lemma with_port_other [simp]:
  "ide (with_port a v s) = ide s" "pic (with_port a v s) = pic s" "pio_maps (pio (with_port a v s)) = pio_maps (pio s)"
  by (simp_all add: with_port_def)

lemma wired_with_port [simp]: "wired (with_port a v s) = wired s"
  by (simp add: wired_def pic_wired_def)

lemma store_port_byte: "store a (Suc 0) (ucast (v :: u8)) m = m(a := v)"
proof
  fix k
  have "byte_at 0 (ucast v) = v" by (rule bit_eqI) (auto simp: bit_byte_at bit_simps dest: bit_imp_le_length)
  then show "store a (Suc 0) (ucast v) m k = (m(a := v)) k" by (auto simp: store_def)
qed

lemma ide_port_map:
  assumes "pio_maps (pio s) = device_ports" "0x1F0 \<le> unat a" "unat a + n \<le> 0x1F8" "0 < n"
  shows "pio_map_of s a n = Some Ide_io"
proof -
  have "unat a + n - 1 \<le> 0x1F7" "\<not> unat a + n - 1 \<le> 0x60" using assms(2-) by linarith+
  then show ?thesis using assms(2) by (simp add: device_port_map [OF assms(1)])
qed

lemma wp_out_register:
  assumes "wired s" "0x1F0 < unat a" "unat a < 0x1F7" "Q () (with_port (unat a) v s)"
  shows "wp (out_byte a v) Q s"
  using assms ide_port_map [of "with_port (unat a) v s" a 1]
  by (simp add: out_byte_def pio_write_def pio_callback_def run_pio_callback_def ide_io_handler_def wp_simps store_port_byte
      wired_def flip: with_port_def)

lemma read_port_byte: "le32 (\<lambda>i. port (a + i) s) AND len_mask (Suc 0) = ucast (port a s)"
  using and_byte_mask [of "le32 (\<lambda>i. port (a + i) s)"] by simp

lemma ucast_ucast_u8: "ucast (ucast (v :: u8) :: u32) = v"
  by (rule bit_eqI) (auto simp: bit_simps dest: bit_imp_le_length)

lemma wp_status:
  assumes "wired s" "Q (port 0x1F7 s) s"
  shows "wp (in_byte 0x1F7) Q s"
  using assms ide_port_map [of s "0x1F7" 1] read_port_byte [of "0x1F7" s]
  by (simp add: in_byte_def pio_read_def pio_callback_def run_pio_callback_def ide_io_handler_def wp_simps
      wired_def ucast_ucast_u8)

section \<open>Addressing a sector\<close>

lemma lba_le32: "lba s = le32 (\<lambda>i. if i = 3 then port 0x1F6 s AND 0x1f else port (0x1F3 + i) s)"
  by (simp add: lba_def le32_def ac_simps)

lemma byte_field: "(ucast (drop_bit (8 * i) (x :: u32) AND 0xFF) :: u8) = byte_at i x"
proof (rule bit_eqI)
  fix k
  have m: "y AND 0xFF = take_bit 8 y" for y :: u32 by (simp add: take_bit_eq_mask mask_eq_exp_minus_1 del: take_bit_eq_mod)
  show "bit (ucast (drop_bit (8 * i) x AND 0xFF) :: u8) k = bit (byte_at i x) k"
    unfolding m by (auto simp: bit_byte_at bit_simps)
qed

lemma device_register: "byte_at 3 (x :: u32) < 0x20 \<Longrightarrow> (ucast (0xE0 OR (drop_bit 24 x AND 0xFF)) :: u8) AND 0x1f = byte_at 3 x"
proof -
  assume lt: "byte_at 3 x < 0x20"
  have "(ucast (0xE0 OR (drop_bit 24 x AND 0xFF)) :: u8) = 0xE0 OR byte_at 3 x"
    using byte_field [of 3 x] by (simp add: unsigned_or_eq)
  moreover have "(0xE0 OR byte_at 3 x) AND 0x1f = byte_at 3 x AND mask 5"
    by (simp add: bit.conj_disj_distrib2 mask_eq_exp_minus_1)
  moreover have "byte_at 3 x AND mask 5 = byte_at 3 x"
    using lt by (simp add: word_unat_eq_iff word_less_nat_alt unat_take_bit flip: take_bit_eq_mask)
  ultimately show ?thesis by simp
qed

definition addressed :: "u32 \<Rightarrow> machine \<Rightarrow> machine" where
  "addressed sec s = with_port 0x1F6 (ucast (0xE0 OR (drop_bit 24 sec AND 0xFF)))
     (with_port 0x1F5 (ucast (drop_bit 16 sec AND 0xFF)) (with_port 0x1F4 (ucast (drop_bit 8 sec AND 0xFF))
     (with_port 0x1F3 (ucast (sec AND 0xFF)) (with_port 0x1F2 1 (with_port 0x1F1 0 s)))))"

lemma addressed_other [simp]:
  "wired (addressed sec s) = wired s" "ide (addressed sec s) = ide s" "pic (addressed sec s) = pic s"
  "port 0x1F7 (addressed sec s) = port 0x1F7 s" "pio_maps (pio (addressed sec s)) = pio_maps (pio s)"
  by (simp_all add: addressed_def)

lemma lba_addressed:
  assumes "unat sec < 2 ^ 29"
  shows "lba (with_port 0x1F7 v (addressed sec s)) = sec"
proof -
  have b3: "byte_at 3 sec < 0x20"
    using assms by (simp add: byte_at_def word_less_nat_alt unsigned_ucast_eq unat_drop_bit take_bit_eq_mod less_mult_imp_div_less)
  show ?thesis
  proof (rule u32_eq_bytesI)
    fix i :: nat assume "i < 4"
    then consider "i = 0" | "i = 1" | "i = 2" | "i = 3" by linarith
    then show "byte_at i (lba (with_port 0x1F7 v (addressed sec s))) = byte_at i sec"
      by cases (use byte_field [of 0 sec] byte_field [of 1 sec] byte_field [of 2 sec] device_register [OF b3]
        in \<open>simp_all add: lba_le32 addressed_def\<close>)
  qed
qed

lemma wp_ide_prepare:
  assumes "wired s" "port 0x1F7 s = 0x40" "Q () (addressed sec s)"
  shows "wp (ide_prepare fuel sec) Q s"
proof -
  have wait: "wp (waitdisk fuel) R s" if "R () s" for R
    unfolding waitdisk_def
  proof (rule wp_whileM [where I = "\<lambda>t. t = s" and f = "\<lambda>_. 0"])
    fix t assume "t = s"
    then show "wp (bindM (in_byte (0x1F0 + 7)) (\<lambda>v. ret (v AND (0x80 OR 0x40) \<noteq> 0x40)))
      (\<lambda>x u. if x then wp (ret ()) (\<lambda>_ v. v = s \<and> (0 :: nat) < 0) u else R () u) t"
      using that assms(1,2) by (simp add: wp_bindM) (rule wp_status, simp_all add: wp_simps)
  qed simp_all
  show ?thesis unfolding ide_prepare_def wp_seqM
    by (intro wait) (simp, (rule wp_out_register, simp add: assms(1), simp, simp)+,
        use assms(3) in \<open>simp add: addressed_def\<close>)
qed

section \<open>Commands and transfers\<close>

text \<open>\<open>transfer w p c\<close>: a transfer in direction \<open>w\<close> is at byte \<open>p\<close> of the disk after \<open>c\<close> bytes.\<close>

definition transfer :: "bool \<Rightarrow> nat \<Rightarrow> nat \<Rightarrow> machine \<Rightarrow> bool" where
  "transfer w p c s \<longleftrightarrow> pio_maps (pio s) = device_ports \<and> pic_wired 6 s \<and> ide_write (ide s) = w \<and>
     disk_pos (ide s) = p \<and> unat (byte_cnt (ide s)) = c \<and> (w \<and> c < 512 \<or> port 0x1F7 s = 0x40)"

definition disk_sec :: "machine \<Rightarrow> nat \<Rightarrow> u8 list" where
  "disk_sec s t = take 512 (drop (512 * t) (disk (ide s)))"

definition disk_ready :: "nat \<Rightarrow> machine \<Rightarrow> bool" where
  "disk_ready n s \<longleftrightarrow> n \<le> 2 ^ 23 \<and> 512 * n \<le> length (disk (ide s)) \<and> wired s \<and> port 0x1F7 s = 0x40"

lemma seek_bytes: "unat (sec :: u32) < 2 ^ 23 \<Longrightarrow> unat (push_bit 9 sec) = 512 * unat sec"
  by (simp add: push_bit_eq_mult unat_word_ariths)

lemma wp_disk_interrupt:
  assumes "pic_wired 6 s" "\<And>t. pic_wired 6 t \<Longrightarrow> pio t = pio s \<Longrightarrow> ide t = ide s \<Longrightarrow> mem t = mem s \<Longrightarrow> Q () t"
  shows "wp (i8259_raise_intr 14) Q s"
proof -
  from raise_run [OF assms(1), of 14] obtain q b where r: "i8259_raise_intr 14 s = Ret () (s\<lparr>pic := q, cpu := (cpu s)\<lparr>INTR := b\<rparr>\<rparr>)"
    "pic_inv 6 (s\<lparr>pic := q, cpu := (cpu s)\<lparr>INTR := b\<rparr>\<rparr>)" by auto
  from r(2) have "pic_wired 6 (s\<lparr>pic := q, cpu := (cpu s)\<lparr>INTR := b\<rparr>\<rparr>)" by (simp only: pic_inv_def)
  then have "Q () (s\<lparr>pic := q, cpu := (cpu s)\<lparr>INTR := b\<rparr>\<rparr>)" by (rule assms(2)) simp_all
  with r(1) show ?thesis by (rule wp_RetI)
qed

definition sought :: "u32 \<Rightarrow> bool \<Rightarrow> ide_state \<Rightarrow> ide_state" where
  "sought sec w i = i\<lparr>ide_sector := sec, disk_idx := push_bit 9 sec, disk_pos := unat (push_bit 9 sec), byte_cnt := 0, ide_write := w\<rparr>"

lemma with_ide [simp]:
  "pio (s\<lparr>ide := i\<rparr>) = pio s" "pic_wired k (s\<lparr>ide := i\<rparr>) = pic_wired k s" "pic_wired k (with_port a v s) = pic_wired k s"
  "port a (s\<lparr>ide := i\<rparr>) = port a s"
  by (simp_all add: pic_wired_def port_def)

lemma wp_command:
  assumes z: "wired z" "lba (with_port 0x1F7 v z) = sec" and sec: "unat sec < 2 ^ 23" and v: "v = 0x20 \<or> v = 0x30"
  shows "wp (out_byte 0x1F7 v) (\<lambda>_ t. transfer (v = 0x30) (512 * unat sec) 0 t \<and> disk (ide t) = disk (ide z)) z"
proof -
  have w: "pio_maps (pio z) = device_ports" "pic_wired 6 z" "byte_cnt (ide z) \<le> 512" using z(1) by (simp_all add: wired_def)
  have m: "pio_map_of (with_port 0x1F7 v z) 0x1F7 1 = Some Ide_io" using w by (intro ide_port_map) simp_all
  have run: "wp (out_byte 0x1F7 v) Q z" if "wp (if v = 0x20 then seqM (set_port 0x1F7 0x40) (i8259_raise_intr 14) else ret ()) Q
      ((with_port 0x1F7 v z)\<lparr>ide := sought sec (v = 0x30) (ide z)\<rparr>)" for Q
    using that v m w z(2)
    by (auto simp: out_byte_def pio_write_def pio_callback_def run_pio_callback_def ide_io_handler_def wp_simps store_port_byte
        seek_sector_def sought_def simp flip: with_port_def)
  show ?thesis
  proof (rule run, cases "v = 0x20")
    case True
    have "wp (i8259_raise_intr 14) (\<lambda>_ t. transfer False (512 * unat sec) 0 t \<and> disk (ide t) = disk (ide z))
      (with_port 0x1F7 0x40 ((with_port 0x1F7 0x20 z)\<lparr>ide := sought sec False (ide z)\<rparr>))"
      by (rule wp_disk_interrupt) (use w seek_bytes [OF sec] in
          \<open>simp_all add: transfer_def sought_def port_def with_port_def pic_wired_def\<close>)
    with True show "wp (if v = 0x20 then seqM (set_port 0x1F7 0x40) (i8259_raise_intr 14) else ret ())
      (\<lambda>_ t. transfer (v = 0x30) (512 * unat sec) 0 t \<and> disk (ide t) = disk (ide z))
      ((with_port 0x1F7 v z)\<lparr>ide := sought sec (v = 0x30) (ide z)\<rparr>)"
      by (simp add: wp_simps flip: with_port_def)
  next
    case False
    with v w seek_bytes [OF sec] show "wp (if v = 0x20 then seqM (set_port 0x1F7 0x40) (i8259_raise_intr 14) else ret ())
      (\<lambda>_ t. transfer (v = 0x30) (512 * unat sec) 0 t \<and> disk (ide t) = disk (ide z))
      ((with_port 0x1F7 v z)\<lparr>ide := sought sec (v = 0x30) (ide z)\<rparr>)"
      by (simp add: wp_simps transfer_def sought_def)
  qed
qed

definition bytes4 :: "u32 \<Rightarrow> u8 list" where
  "bytes4 v = map (\<lambda>i. byte_at i v) [0..<4]"

lemma bytes4_le32: "length bs = 4 \<Longrightarrow> bytes4 (le32 (\<lambda>i. bs ! i)) = bs"
  by (rule nth_equalityI) (simp_all add: bytes4_def)

lemma length_bytes4 [simp]: "length (bytes4 v) = 4"
  by (simp add: bytes4_def)

lemma transfer_count: "transfer w p c s \<Longrightarrow> c + 4 \<le> 512 \<Longrightarrow> unat (byte_cnt (ide s) + 4) = c + 4"
  by (simp add: transfer_def unat_word_ariths)

lemma wp_finish:
  "(\<not> b \<Longrightarrow> Q () s) \<Longrightarrow> (b \<Longrightarrow> Q () (with_port 0x1F7 0x40 s)) \<Longrightarrow> wp (whenM b (set_port 0x1F7 0x40)) Q s"
  by (cases b) (simp_all add: wp_simps with_port_def)

lemma wp_in_long:
  assumes t: "transfer False p c s" and c: "c + 4 \<le> 512" and p: "p + 4 \<le> length (disk (ide s))"
  shows "wp (in_long 0x1F0) (\<lambda>v u. bytes4 v = take 4 (drop p (disk (ide s))) \<and> transfer False (p + 4) (c + 4) u \<and>
    disk (ide u) = disk (ide s)) s"
proof -
  let ?bs = "take 4 (drop p (disk (ide s)))"
  have w: "pio_maps (pio s) = device_ports" "byte_cnt (ide s) \<le> 512" "\<not> ide_write (ide s)" "disk_pos (ide s) = p"
    "port 0x1F7 s = 0x40" using t c by (simp_all add: transfer_def word_le_nat_alt)
  have m: "pio_map_of s 0x1F0 4 = Some Ide_io" using w by (intro ide_port_map) simp_all
  have len: "length ?bs = 4" using p by simp
  have four: "[0..<4] = [0, 1, 2, 3 :: nat]" by (simp add: upt_conv_Cons)
  let ?u = "(with_port 0x1F3 (?bs ! 3) (with_port 0x1F2 (?bs ! 2) (with_port 0x1F1 (?bs ! 1) (with_port 0x1F0 (?bs ! 0) s))))
    \<lparr>ide := (ide s)\<lparr>disk_pos := p + 4, byte_cnt := byte_cnt (ide s) + 4\<rparr>\<rparr>"
  have le: "le32 (\<lambda>i. port (0x1F0 + i) u) = le32 (\<lambda>i. ?bs ! i)"
    if "\<And>a. a \<noteq> 0x1F7 \<Longrightarrow> port a u = port a ?u" for u
    using that by (simp add: le32_def)
  have run: "wp (in_long 0x1F0) Q s"
    if "wp (whenM (byte_cnt (ide s) + 4 = 512) (set_port 0x1F7 0x40)) (\<lambda>_ u. Q (le32 (\<lambda>i. port (0x1F0 + i) u)) u) ?u" for Q
    using that w m len
    by (simp add: in_long_def pio_read_def pio_callback_def run_pio_callback_def ide_io_handler_def wp_simps fread_def
        finish_sector_def four with_port_def)
  have tr: "transfer False (p + 4) (c + 4) u" if "ide u = ide ?u" "pio_maps (pio u) = device_ports" "pic u = pic s" "port 0x1F7 u = 0x40" for u
    using t that transfer_count [OF t c] w by (simp add: transfer_def pic_wired_def)
  have res: "bytes4 (le32 (\<lambda>i. ?bs ! i)) = ?bs" by (rule bytes4_le32 [OF len])
  have done_u: "bytes4 (le32 (\<lambda>i. port (0x1F0 + i) u)) = ?bs \<and> transfer False (p + 4) (c + 4) u \<and> disk (ide u) = disk (ide s)"
    if u: "u = ?u \<or> u = with_port 0x1F7 0x40 ?u" for u
  proof -
    have "le32 (\<lambda>i. port (0x1F0 + i) u) = le32 (\<lambda>i. ?bs ! i)" by (rule le) (use u in auto)
    moreover have "transfer False (p + 4) (c + 4) u" by (rule tr) (use u w in auto)
    ultimately show ?thesis using res u by auto
  qed
  show ?thesis
    by (rule run, rule wp_finish) (rule done_u, simp)+
qed

lemma wp_in_longs:
  assumes "transfer False p c s" "c + 4 * n \<le> 512" "p + 4 * n \<le> length (disk (ide s))"
  shows "wp (in_longs n) (\<lambda>bs u. bs = take (4 * n) (drop p (disk (ide s))) \<and> transfer False (p + 4 * n) (c + 4 * n) u \<and>
    disk (ide u) = disk (ide s)) s"
  using assms
proof (induction n arbitrary: p c s)
  case 0
  then show ?case by (simp add: wp_simps)
next
  case (Suc n)
  have split: "take (4 + 4 * n) (drop p d) = take 4 (drop p d) @ take (4 * n) (drop (p + 4) d)" for d :: "u8 list"
    using take_add [of 4 "4 * n" "drop p d"] by (simp add: add.commute)
  have "wp (in_long 0x1F0) (\<lambda>v. wp (bindM (in_longs n) (\<lambda>bs. ret (map (\<lambda>i. byte_at i v) [0..<4] @ bs)))
     (\<lambda>bs u. bs = take (4 * Suc n) (drop p (disk (ide s))) \<and> transfer False (p + 4 * Suc n) (c + 4 * Suc n) u \<and>
    disk (ide u) = disk (ide s))) s"
  proof (rule wp_mono [OF wp_in_long])
    fix v u assume u: "bytes4 v = take 4 (drop p (disk (ide s))) \<and> transfer False (p + 4) (c + 4) u \<and> disk (ide u) = disk (ide s)"
    have "wp (in_longs n) (\<lambda>bs x. bs = take (4 * n) (drop (p + 4) (disk (ide u))) \<and>
      transfer False (p + 4 + 4 * n) (c + 4 + 4 * n) x \<and> disk (ide x) = disk (ide u)) u"
      using u Suc.prems by (intro Suc.IH) simp_all
    then show "wp (bindM (in_longs n) (\<lambda>bs. ret (map (\<lambda>i. byte_at i v) [0..<4] @ bs)))
     (\<lambda>bs u. bs = take (4 * Suc n) (drop p (disk (ide s))) \<and> transfer False (p + 4 * Suc n) (c + 4 * Suc n) u \<and>
      disk (ide u) = disk (ide s)) u"
      unfolding wp_bindM by (rule wp_mono) (use u in \<open>simp add: wp_ret split bytes4_def add.assoc\<close>)
  qed (use Suc.prems in simp_all)
  then show ?case by (simp add: wp_bindM)
qed

lemma wp_out_long:
  assumes t: "transfer True p c s" and c: "c + 4 \<le> 512"
  shows "wp (out_long 0x1F0 v) (\<lambda>_ u. transfer True (p + 4) (c + 4) u \<and>
    disk (ide u) = disk_write p (bytes4 v) (disk (ide s))) s"
proof -
  let ?a = "s\<lparr>pio := (pio s)\<lparr>pio_space := store 0x1F0 4 v (pio_space (pio s))\<rparr>\<rparr>"
  have w: "pio_maps (pio s) = device_ports" "byte_cnt (ide s) \<le> 512" "ide_write (ide s)" "disk_pos (ide s) = p"
    using t c by (simp_all add: transfer_def word_le_nat_alt)
  have m: "pio_map_of ?a 0x1F0 4 = Some Ide_io" using w by (intro ide_port_map) simp_all
  have bytes: "map (\<lambda>i. port (0x1F0 + i) ?a) [0..<4] = bytes4 v"
    by (simp add: bytes4_def port_def)
  let ?u = "?a\<lparr>ide := (ide s)\<lparr>disk := disk_write p (bytes4 v) (disk (ide s)), disk_pos := p + 4, byte_cnt := byte_cnt (ide s) + 4\<rparr>\<rparr>"
  have run: "wp (out_long 0x1F0 v) Q s" if "wp (whenM (byte_cnt (ide s) + 4 = 512) (set_port 0x1F7 0x40)) Q ?u" for Q
    using that w m bytes
    by (simp add: out_long_def pio_write_def pio_callback_def run_pio_callback_def ide_io_handler_def wp_simps fwrite_def
        finish_sector_def)
  have full: "byte_cnt (ide s) + 4 = 512 \<longleftrightarrow> c + 4 = 512"
    using transfer_count [OF t c] by (simp add: word_unat_eq_iff)
  have tr: "transfer True (p + 4) (c + 4) u"
    if "ide u = ide ?u" "pio_maps (pio u) = device_ports" "pic u = pic s" "c + 4 = 512 \<Longrightarrow> port 0x1F7 u = 0x40" for u
  proof -
    have "pic_wired 6 u" using t that(3) by (simp add: transfer_def pic_wired_def)
    moreover have "c + 4 < 512 \<or> port 0x1F7 u = 0x40" using c that(4) by linarith
    ultimately show ?thesis using that(1,2) transfer_count [OF t c] w by (simp add: transfer_def)
  qed
  have done_u: "transfer True (p + 4) (c + 4) u \<and> disk (ide u) = disk_write p (bytes4 v) (disk (ide s))"
    if u: "u = ?u \<and> c + 4 \<noteq> 512 \<or> u = with_port 0x1F7 0x40 ?u" for u
  proof -
    have "transfer True (p + 4) (c + 4) u" by (rule tr) (use u w in auto)
    then show ?thesis using u by auto
  qed
  show ?thesis
    by (rule run, rule wp_finish) (rule done_u, simp add: full)+
qed

section \<open>Whole sectors\<close>

lemma length_disk_write: "p + length bs \<le> length d \<Longrightarrow> length (disk_write p bs d) = length d"
  by (simp add: disk_write_def)

lemma nth_disk_write:
  assumes "p + length bs \<le> length d" "k < length d"
  shows "disk_write p bs d ! k = (if p \<le> k \<and> k < p + length bs then bs ! (k - p) else d ! k)"
proof -
  have eq: "disk_write p bs d = take p d @ bs @ drop (p + length bs) d" using assms(1) by (simp add: disk_write_def)
  consider "k < p" | "p \<le> k" "k < p + length bs" | "p + length bs \<le> k" by linarith
  then show ?thesis
  proof cases
    case 3
    then obtain j where "k = p + length bs + j" by (auto simp: le_iff_add)
    with assms show ?thesis by (simp add: eq nth_append min_def)
  next
    case 2
    then have "k - p < length bs" by linarith
    with 2 assms show ?thesis by (simp add: eq nth_append min_def)
  qed (use assms in \<open>simp add: eq nth_append min_def\<close>)
qed

lemma disk_write_append:
  assumes "p + length a + length b \<le> length d"
  shows "disk_write (p + length a) b (disk_write p a d) = disk_write p (a @ b) d"
  by (rule nth_equalityI)
    (use assms in \<open>simp_all add: length_disk_write nth_disk_write nth_append, auto\<close>)

lemma disk_sec_write:
  assumes "512 * m + 512 \<le> length d" "512 * t + 512 \<le> length d" "length bs = 512"
  shows "take 512 (drop (512 * t) (disk_write (512 * m) bs d)) = (if t = m then bs else take 512 (drop (512 * t) d))"
proof (rule nth_equalityI)
  show "length (take 512 (drop (512 * t) (disk_write (512 * m) bs d))) = length (if t = m then bs else take 512 (drop (512 * t) d))"
    using assms by (simp add: length_disk_write)
  fix i assume "i < length (take 512 (drop (512 * t) (disk_write (512 * m) bs d)))"
  then have i: "i < 512" by simp
  have "512 * m \<le> 512 * t + i \<and> 512 * t + i < 512 * m + 512 \<longleftrightarrow> t = m" using i by auto
  then show "take 512 (drop (512 * t) (disk_write (512 * m) bs d)) ! i = (if t = m then bs else take 512 (drop (512 * t) d)) ! i"
    using assms i by (simp add: length_disk_write nth_disk_write)
qed

lemma transfer_done: "transfer w p 512 s \<Longrightarrow> wired s \<and> port 0x1F7 s = 0x40"
  by (simp add: transfer_def wired_def word_le_nat_alt)

lemma read_spec:
  assumes r: "disk_ready n s" and sec: "unat sec < n"
  shows "wp (disk_do_read fuel sec) (\<lambda>bs t. bs = disk_sec s (unat sec) \<and> disk_ready n t \<and> disk (ide t) = disk (ide s)) s"
proof -
  have w: "wired s" "port 0x1F7 s = 0x40" "unat sec < 2 ^ 23" "512 * unat sec + 512 \<le> length (disk (ide s))"
    using r sec by (auto simp: disk_ready_def)
  have lba: "lba (with_port 0x1F7 0x20 (addressed sec s)) = sec" using w(3) by (intro lba_addressed) simp
  show ?thesis unfolding disk_do_read_def issue_read_def wp_seqM
  proof (rule wp_ide_prepare [OF w(1,2)], simp, rule wp_mono [OF wp_command])
    fix x t assume t: "transfer ((0x20 :: u8) = 0x30) (512 * unat sec) 0 t \<and> disk (ide t) = disk (ide (addressed sec s))"
    show "wp (in_longs 128) (\<lambda>bs t. bs = disk_sec s (unat sec) \<and> disk_ready n t \<and> disk (ide t) = disk (ide s)) t"
      by (rule wp_mono [OF wp_in_longs [of "512 * unat sec" 0]])
        (use t r w(4) in \<open>auto simp: disk_sec_def disk_ready_def dest: transfer_done\<close>)
  qed (use w lba in simp_all)
qed

lemma write_spec:
  assumes r: "disk_ready n s" and sec: "unat sec < n" and bs: "length bs = 512"
  shows "wp (disk_do_write fuel bs sec) (\<lambda>_ t. disk_ready n t \<and> disk (ide t) = disk_write (512 * unat sec) bs (disk (ide s)) \<and>
    ide_write (ide t)) s"
proof -
  let ?p = "512 * unat sec" and ?d = "disk (ide s)"
  have w: "wired s" "port 0x1F7 s = 0x40" "unat sec < 2 ^ 23" "?p + 512 \<le> length ?d"
    using r sec by (auto simp: disk_ready_def)
  have lba: "lba (with_port 0x1F7 0x30 (addressed sec s)) = sec" using w(3) by (intro lba_addressed) simp
  have step: "wp (out_long 0x1F0 (le32 (\<lambda>j. bs ! (4 * i + j)))) (\<lambda>_ u. transfer True (?p + 4 * Suc i) (4 * Suc i) u \<and>
      disk (ide u) = disk_write ?p (take (4 * Suc i) bs) ?d) t"
    if i: "i < 128" and t: "transfer True (?p + 4 * i) (4 * i) t \<and> disk (ide t) = disk_write ?p (take (4 * i) bs) ?d" for i t
  proof -
    have four: "bytes4 (le32 (\<lambda>j. bs ! (4 * i + j))) = take 4 (drop (4 * i) bs)"
      using bytes4_le32 [of "take 4 (drop (4 * i) bs)"] i bs le32_cong [of "\<lambda>j. take 4 (drop (4 * i) bs) ! j" "\<lambda>j. bs ! (4 * i + j)"]
      by simp
    then have four': "bytes4 (le32 (\<lambda>j. bs ! (j + i * 4))) = take 4 (drop (i * 4) bs)" by (simp add: ac_simps)
    have app: "take (4 * Suc i) bs = take (4 * i) bs @ take 4 (drop (4 * i) bs)"
      using take_add [of "4 * i" 4 bs] by (simp add: add.commute)
    have "disk_write (?p + 4 * i) (take 4 (drop (4 * i) bs)) (disk_write ?p (take (4 * i) bs) ?d) = disk_write ?p (take (4 * Suc i) bs) ?d"
      unfolding app using disk_write_append [of ?p "take (4 * i) bs" "take 4 (drop (4 * i) bs)" ?d] i bs w(4) by simp
    with t i show ?thesis by (intro wp_mono [OF wp_out_long]) (auto simp: four' algebra_simps)
  qed
  show ?thesis unfolding disk_do_write_def issue_write_def wp_seqM
  proof (rule wp_ide_prepare [OF w(1,2)], simp, rule wp_mono [OF wp_command])
    fix x t assume t: "transfer ((0x30 :: u8) = 0x30) ?p 0 t \<and> disk (ide t) = disk (ide (addressed sec s))"
    show "wp (forM [0..<128] (\<lambda>i. out_long 0x1F0 (le32 (\<lambda>j. bs ! (4 * i + j)))))
      (\<lambda>_ t. disk_ready n t \<and> disk (ide t) = disk_write ?p bs ?d \<and> ide_write (ide t)) t"
    proof (rule wp_for_upt [where I = "\<lambda>i u. transfer True (?p + 4 * i) (4 * i) u \<and>
        disk (ide u) = disk_write ?p (take (4 * i) bs) ?d"])
      show "transfer True (?p + 4 * 0) (4 * 0) t \<and> disk (ide t) = disk_write ?p (take (4 * 0) bs) ?d"
        using t w(4) by (simp add: disk_write_def)
      fix u assume "transfer True (?p + 4 * 128) (4 * 128) u \<and> disk (ide u) = disk_write ?p (take (4 * 128) bs) ?d"
      then show "disk_ready n u \<and> disk (ide u) = disk_write ?p bs ?d \<and> ide_write (ide u)"
        using r w(4) bs by (auto simp: disk_ready_def length_disk_write transfer_def wired_def word_le_nat_alt)
    qed (rule step)
  qed (use w lba in simp_all)
qed

interpretation ide_disk: sector_disk "disk_do_read fuel" "disk_do_write fuel" "disk_ready n" n disk_sec for fuel n
proof
  show "n \<le> 2 ^ 23" if "disk_ready n d" for d using that by (simp add: disk_ready_def)
  show "length (disk_sec d t) = 512" if "disk_ready n d" "t < n" for d t
  proof -
    have "512 * t + 512 \<le> length (disk (ide d))" using that by (auto simp: disk_ready_def)
    then show ?thesis by (simp add: disk_sec_def)
  qed
  show "wp (disk_do_read fuel m) (\<lambda>bs e. bs = disk_sec d (unat m) \<and> disk_ready n e \<and>
      (\<forall>t<n. disk_sec e t = disk_sec d t)) d" if "disk_ready n d" "unat m < n" for d m
    by (rule wp_mono [OF read_spec [OF that(1)]]) (use that in \<open>auto simp: disk_sec_def\<close>)
  show "wp (disk_do_write fuel bs m) (\<lambda>_ e. disk_ready n e \<and>
      (\<forall>t<n. disk_sec e t = (if t = unat m then bs else disk_sec d t))) d"
    if "disk_ready n d" "unat m < n" "length bs = 512" for d m bs
    by (rule wp_mono [OF write_spec [OF that(1) _ that(3)]])
      (use that in \<open>auto simp: disk_sec_def disk_sec_write disk_ready_def\<close>)
qed

section \<open>Properties\<close>

text \<open>The program: read and write bytes through the buffer, on the emulated disk.\<close>

definition file_read :: "nat \<Rightarrow> u32 \<Rightarrow> u32 \<Rightarrow> (machine buf_state, u8 list) M" where
  "file_read fuel = kernel_ide_read (disk_do_read fuel) (disk_do_write fuel)"

definition file_write :: "nat \<Rightarrow> u8 list \<Rightarrow> u32 \<Rightarrow> u32 \<Rightarrow> (machine buf_state, unit) M" where
  "file_write fuel = kernel_ide_write (disk_do_read fuel) (disk_do_write fuel)"

text \<open>The kernel's buffer after its first initialisation, on a machine with a disk.\<close>

definition fresh_buffer :: "u8 list \<Rightarrow> machine buf_state" where
  "fresh_buffer img = \<lparr>buf = (\<lambda>_. \<lparr>sector = 0, used = False, dirty = False, content = replicate 512 0\<rparr>),
     counter = 0, dev = booted img\<lparr>pio := \<lparr>pio_space = (\<lambda>_. 0)(0x1F7 := 0x40), pio_maps = device_ports\<rparr>\<rparr>\<rparr>"

lemma fresh_buffer_inv:
  assumes "512 * n \<le> length img" "n \<le> 2 ^ 23"
  shows "ide_disk.buf_inv n (fresh_buffer img)"
  using assms by (simp add: ide_disk.buf_inv_def ide_disk.slot_ok_def fresh_buffer_def disk_ready_def wired_def pic_wired_def
      port_def booted_def cold_machine_def)

text \<open>
  C4. The disk of the kernel is a byte array: on the emulated IDE controller, with the sector buffer
  in its invariant, reading back any range inside the disk after writing it returns the written bytes,
  bytes outside the range keep their value, and the polling, transfer and lookup loops end without a failed
  assertion of the emulator.
\<close>

theorem disk_is_byte_array:
  assumes inv: "ide_disk.buf_inv n s" and range: "unat off + unat len \<le> 512 * n" "unat len \<le> length bs"
  shows "wp (seqM (file_write fuel bs off len) (file_read fuel off len))
    (\<lambda>xs t. xs = take (unat len) bs \<and> ide_disk.buf_inv n t \<and>
      (\<forall>k<512 * n. k < unat off \<or> unat off + unat len \<le> k \<longrightarrow> ide_disk.byte_of t k = ide_disk.byte_of s k)) s"
proof -
  note wr = ide_disk.kernel_ide_write_spec [of n s off len bs fuel, OF inv range]
  show ?thesis unfolding wp_seqM file_write_def file_read_def
  proof (rule wp_mono [OF wr])
    fix x t assume t: "ide_disk.buf_inv n t \<and> counter t = counter s \<and> (\<forall>k<512 * n. ide_disk.byte_of t k =
      (if unat off \<le> k \<and> k < unat off + unat len then bs ! (k - unat off) else ide_disk.byte_of s k))"
    have "map (\<lambda>i. ide_disk.byte_of t (unat off + i)) [0..<unat len] = take (unat len) bs"
      by (rule nth_equalityI) (use t range in auto)
    then show "wp (kernel_ide_read (disk_do_read fuel) (disk_do_write fuel) off len)
      (\<lambda>xs t. xs = take (unat len) bs \<and> ide_disk.buf_inv n t \<and>
        (\<forall>k<512 * n. k < unat off \<or> unat off + unat len \<le> k \<longrightarrow> ide_disk.byte_of t k = ide_disk.byte_of s k)) t"
      using t by (intro wp_mono [OF ide_disk.kernel_ide_read_spec [of n t off len fuel]])
        (auto simp: range ide_disk.same_bytes_def)
  qed
qed

theorem disk_is_byte_array_witness:
  "wp (seqM (file_write 0 [1, 2, 3] 511 3) (file_read 0 511 3)) (\<lambda>xs t. xs = [1, 2, 3]) (fresh_buffer (replicate 1024 0))"
  by (rule wp_mono, rule disk_is_byte_array [of 2, OF fresh_buffer_inv]) simp_all

text \<open>
  After a hundred timer ticks the image behind the emulated controller holds every byte that a reader of the
  buffer was promised, whatever the tick counter of \<open>ide_writeback\<close> was.
\<close>

lemma writeback_reaches_disk:
  assumes inv: "ide_disk.buf_inv n s" and c: "unat (counter s) < 100"
  shows "wp (forM [0..<100] (\<lambda>_. ide_writeback (disk_do_write fuel)))
    (\<lambda>_ t. ide_disk.buf_inv n t \<and> (\<forall>k<512 * n. disk (ide (dev t)) ! k = ide_disk.byte_of s k)) s"
proof (rule wp_for_upt [where I = "\<lambda>i t. ide_disk.buf_inv n t \<and> (\<forall>k<n. ide_disk.current t k = ide_disk.current s k) \<and>
    unat (counter t) = (unat (counter s) + i) mod 100 \<and> (100 \<le> unat (counter s) + i \<longrightarrow> ide_disk.synced n t)"])
  fix i t assume i: "i < 100" and t: "ide_disk.buf_inv n t \<and> (\<forall>k<n. ide_disk.current t k = ide_disk.current s k) \<and>
    unat (counter t) = (unat (counter s) + i) mod 100 \<and> (100 \<le> unat (counter s) + i \<longrightarrow> ide_disk.synced n t)"
  have c99: "counter t = 99 \<longleftrightarrow> (unat (counter s) + i) mod 100 = 99" using t by (simp add: word_unat_eq_iff)
  have next_mod: "(m :: nat) mod 100 \<noteq> 99 \<Longrightarrow> Suc m mod 100 = m mod 100 + 1" "m mod 100 = 99 \<Longrightarrow> Suc m mod 100 = 0" for m
    by (simp_all add: mod_Suc)
  have lt: "(unat (counter s) + i) mod 100 < 100" by simp
  have step: "unat (counter u) = Suc (unat (counter s) + i) mod 100 \<and> (100 \<le> Suc (unat (counter s) + i) \<longrightarrow> ide_disk.synced n u)"
    if u: "ide_disk.synced n t \<longrightarrow> ide_disk.synced n u"
      "if counter t = 99 then ide_disk.synced n u \<and> counter u = 0 else counter u = counter t + 1" for u
  proof (cases "counter t = 99")
    case True
    with u c99 next_mod show ?thesis by simp
  next
    case False
    with u c99 have cu: "counter u = counter t + 1" and ne: "(unat (counter s) + i) mod 100 \<noteq> 99" by simp_all
    have "unat (counter u) = unat (counter t) + 1" using cu t lt by (simp add: unat_word_ariths)
    then have "unat (counter u) = Suc (unat (counter s) + i) mod 100" using t next_mod(1) [OF ne] by simp
    moreover have "100 \<le> Suc (unat (counter s) + i) \<Longrightarrow> 100 \<le> unat (counter s) + i"
      using ne by (cases "unat (counter s) + i = 99") auto
    ultimately show ?thesis using t u by blast
  qed
  show "wp (ide_writeback (disk_do_write fuel)) (\<lambda>_ u. ide_disk.buf_inv n u \<and> (\<forall>k<n. ide_disk.current u k = ide_disk.current s k) \<and>
    unat (counter u) = (unat (counter s) + Suc i) mod 100 \<and> (100 \<le> unat (counter s) + Suc i \<longrightarrow> ide_disk.synced n u)) t"
    by (rule wp_mono [OF ide_disk.ide_writeback_spec [of n t fuel]]) (use t step in auto)
next
  fix t assume t: "ide_disk.buf_inv n t \<and> (\<forall>k<n. ide_disk.current t k = ide_disk.current s k) \<and>
    unat (counter t) = (unat (counter s) + 100) mod 100 \<and> (100 \<le> unat (counter s) + 100 \<longrightarrow> ide_disk.synced n t)"
  have "disk (ide (dev t)) ! k = ide_disk.byte_of s k" if "k < 512 * n" for k
  proof -
    have k: "k div 512 < n" using that by (simp add: less_mult_imp_div_less mult.commute)
    then have "disk_sec (dev t) (k div 512) = ide_disk.current s (k div 512)" using t by (simp add: ide_disk.synced_def)
    then have "ide_disk.byte_of s k = disk_sec (dev t) (k div 512) ! (k mod 512)" by (simp add: ide_disk.byte_of_def)
    moreover have "k div 512 * 512 + k mod 512 = k" "512 * (k div 512) + 512 \<le> length (disk (ide (dev t)))"
      using k t by (auto simp: ide_disk.buf_inv_def disk_ready_def)
    ultimately show ?thesis by (simp add: disk_sec_def mult.commute)
  qed
  with t show "ide_disk.buf_inv n t \<and> (\<forall>k<512 * n. disk (ide (dev t)) ! k = ide_disk.byte_of s k)" by blast
qed (use assms in auto)

text \<open>
  The driver is not reentrant: if the timer handler writes a sector back while another read is
  between two words of its transfer, the read's next word fails the emulator's assertion that the controller is not
  in write mode.
\<close>

lemma write_during_read_aborts:
  assumes "disk_ready n s" "transfer False p c s" "unat m < n" "length bs = 512"
  shows "seqM (disk_do_write fuel bs m) (in_long 0x1F0) s = Err AssertFail"
proof -
  from wp_RetD [OF write_spec [OF assms(1,3,4), of fuel]] obtain t where
    t: "disk_do_write fuel bs m s = Ret () t" "disk_ready n t" "ide_write (ide t)" by auto
  have w: "pio_maps (pio t) = device_ports" "byte_cnt (ide t) \<le> 512" using t(2) by (simp_all add: disk_ready_def wired_def)
  have "pio_map_of t 0x1F0 4 = Some Ide_io" using w by (intro ide_port_map) simp_all
  then have "in_long 0x1F0 t = Err AssertFail"
    using t(3) w by (simp add: in_long_def pio_read_def pio_callback_def run_pio_callback_def ide_io_handler_def
        seqM_def bindM_def run_simps)
  with t(1) show ?thesis by simp
qed


end
