(* ===== verification/Kernel_Irq.thy ===== *)
theory Kernel_Irq
  imports Disk_Driver
begin

unbundle bit_operations_syntax

text \<open>
  The kernel above the hardware: the console (kernel/src/lib/serial.c, printk.c), the interrupt
  dispatcher (kernel/src/irq/irq_handle.c, i8259.c), the hooks of the IDE driver
  (kernel/src/driver/ide/ide.c) and the system calls (kernel/src/syscall/do_syscall.c,
  kernel/src/fs/fs.c and \<open>mm_brk\<close> of kernel/src/memory/mm.c). The page allocator \<open>mm_malloc\<close>
  is an object file without source, \<open>vsnprintf\<close> belongs to the C library; both are parameters.
  A function pointer is the address of the function; \<open>assert\<close> and \<open>panic\<close> of the kernel end the
  emulation with the bad trap.
\<close>

section \<open>State\<close>

abbreviation (input) NR_IRQ_HANDLE :: nat where "NR_IRQ_HANDLE \<equiv> 32"
abbreviation (input) NR_HARD_INTR :: nat where "NR_HARD_INTR \<equiv> 16"

record IRQ_t =
  routine :: u32
  next_irq_t :: "nat option"

record TrapFrame =
  tf_edi :: u32
  tf_esi :: u32
  tf_ebp :: u32
  tf_old_esp :: u32
  tf_ebx :: u32
  tf_edx :: u32
  tf_ecx :: u32
  tf_eax :: u32
  tf_irq :: u32
  tf_error_code :: u32
  tf_eip :: u32
  tf_cs :: u32
  tf_eflags :: u32

text \<open>
  \<open>io\<close> holds the sector buffer and behind it the emulated machine; \<open>ram\<close> is the memory as the
  running program addresses it, \<open>phys\<close> the physical memory in which the page tables lie, \<open>cr3_reg\<close> the
  value last written to CR3.
\<close>

record kernel =
  handle_pool :: "nat \<Rightarrow> IRQ_t"
  handles :: "nat \<Rightarrow> nat option"
  handle_count :: nat
  has_ide_intr :: int
  cur_brk :: u32
  max_brk :: u32
  if_flag :: bool
  ram :: "u32 \<Rightarrow> u8"
  phys :: bytes
  cr3_reg :: u32
  io :: "machine buf_state"

definition on_io :: "(machine buf_state, 'a) M \<Rightarrow> (kernel, 'a) M" where
  "on_io = zoom io (\<lambda>b k. k\<lparr>io := b\<rparr>)"

definition kernel_cli :: "(kernel, unit) M" where
  "kernel_cli = modM (\<lambda>k. k\<lparr>if_flag := False\<rparr>)"

definition kernel_sti :: "(kernel, unit) M" where
  "kernel_sti = modM (\<lambda>k. k\<lparr>if_flag := True\<rparr>)"

section \<open>Console\<close>

definition kernel_init_serial :: "(machine, unit) M" where
  "kernel_init_serial =
     seqM (out_byte (0x3F8 + 1) 0x00)
    (seqM (out_byte (0x3F8 + 3) 0x80)
    (seqM (out_byte (0x3F8 + 0) 0x01)
    (seqM (out_byte (0x3F8 + 1) 0x00)
    (seqM (out_byte (0x3F8 + 3) 0x03)
    (seqM (out_byte (0x3F8 + 2) 0xC7)
          (out_byte (0x3F8 + 4) 0x0B))))))"

definition serial_idle :: "(machine, bool) M" where
  "serial_idle = bindM (in_byte (0x3F8 + 5)) (\<lambda>v. ret (v AND 0x20 \<noteq> 0))"

definition serial_printc :: "nat \<Rightarrow> u8 \<Rightarrow> (machine, unit) M" where
  "serial_printc fuel ch =
     seqM (whileM fuel (bindM serial_idle (\<lambda>b. ret (\<not> b))) (ret ()))
          (out_byte 0x3F8 ch)"

text \<open>
  \<open>text\<close> is the complete output of the formatting. \<open>vsnprintf(buf, 256, ...)\<close> stores at most 255
  characters of it and the terminating zero, and returns its full length; the loop can only leave
  these bytes at the end of the array.
\<close>

definition printk :: "nat \<Rightarrow> u8 list \<Rightarrow> (machine, unit) M" where
  "printk fuel text =
     (let buf = take 255 text @ [0]; len = length text in
      forM [0..<len] (\<lambda>i.
        if i < length buf then serial_printc fuel (buf ! i) else fail OutOfBounds))"

section \<open>Interrupt controller and dispatch\<close>

definition init_i8259 :: "(machine, unit) M" where
  "init_i8259 = forM
     [(0x20 + 1, 0xFF), (0xA0 + 1, 0xFF), (0x20, 0x11), (0x20 + 1, 32), (0x20 + 1, push_bit 2 1), (0x20 + 1, 0x3),
      (0xA0, 0x11), (0xA0 + 1, 32 + 8), (0xA0 + 1, 2), (0xA0 + 1, 0x3), (0x20, 0x68), (0x20, 0x0A),
      (0xA0, 0x68), (0xA0, 0x0A)]
     (\<lambda>(p, v). out_byte p v)"

text \<open>There is no check that \<open>irq\<close> is not negative; the store through \<open>handles[irq]\<close> is then undefined.\<close>

definition add_irq_handle :: "int \<Rightarrow> u32 \<Rightarrow> (kernel, unit) M" where
  "add_irq_handle irq func =
     seqM (assertM (irq < int NR_HARD_INTR))
    (bindM (getM handle_count) (\<lambda>n.
     seqM (assertM (n \<le> NR_IRQ_HANDLE))
    (seqM (modM (\<lambda>k. k\<lparr>handle_count := n + 1\<rparr>))
    (if n \<ge> NR_IRQ_HANDLE \<or> irq < 0 then fail OutOfBounds
     else seqM (modM (\<lambda>k. k\<lparr>handle_pool := (handle_pool k)(n :=
                  \<lparr>routine = func, next_irq_t = handles k (nat irq)\<rparr>)\<rparr>))
               (modM (\<lambda>k. k\<lparr>handles := (handles k)(nat irq := Some n)\<rparr>))))))"

definition ide_intr :: "(kernel, unit) M" where
  "ide_intr = modM (\<lambda>k. k\<lparr>has_ide_intr := 1\<rparr>)"

definition clear_ide_intr :: "(kernel, unit) M" where
  "clear_ide_intr = modM (\<lambda>k. k\<lparr>has_ide_intr := 0\<rparr>)"

text \<open>\<open>wait_intr\<close> (a \<open>hlt\<close> during which interrupts are served) is an argument.\<close>

definition wait_ide_intr :: "nat \<Rightarrow> (kernel, unit) M \<Rightarrow> (kernel, unit) M" where
  "wait_ide_intr fuel wait_intr =
     seqM (whileM fuel (getM (\<lambda>k. has_ide_intr k = 0)) wait_intr) clear_ide_intr"

text \<open>The addresses of the two routines the kernel registers, and what the routines of programs do.\<close>

record routines =
  at_ide_writeback :: u32
  at_ide_intr :: u32
  user_routine :: "u32 \<Rightarrow> (kernel, unit) M"
  poll_fuel :: nat

definition call_routine :: "routines \<Rightarrow> u32 \<Rightarrow> (kernel, unit) M" where
  "call_routine R f =
     (if f = at_ide_writeback R then on_io (ide_writeback (disk_do_write (poll_fuel R)))
      else if f = at_ide_intr R then ide_intr
      else user_routine R f)"

definition kernel_init_ide :: "routines \<Rightarrow> (kernel, unit) M" where
  "kernel_init_ide R =
     seqM (on_io buf_init)
    (seqM (add_irq_handle 0 (at_ide_writeback R))
          (add_irq_handle 14 (at_ide_intr R)))"

text \<open>The loop over the list; \<open>fuel\<close> bounds its length.\<close>

fun run_handlers :: "routines \<Rightarrow> nat \<Rightarrow> nat option \<Rightarrow> (kernel, unit) M" where
  "run_handlers R fuel None = ret ()"
| "run_handlers R 0 (Some p) = fail OutOfFuel"
| "run_handlers R (Suc fuel) (Some p) =
     seqM (bindM (getM (\<lambda>k. routine (handle_pool k p))) (call_routine R))
    (bindM (getM (\<lambda>k. next_irq_t (handle_pool k p))) (run_handlers R fuel))"

section \<open>System calls\<close>

abbreviation (input) TCGETS :: u32 where "TCGETS \<equiv> 0x5401"
abbreviation (input) SYS_write :: u32 where "SYS_write \<equiv> 4"
abbreviation (input) SYS_brk :: u32 where "SYS_brk \<equiv> 45"
abbreviation (input) SYS_ioctl :: u32 where "SYS_ioctl \<equiv> 54"

type_synonym allocator = "u32 \<Rightarrow> int \<Rightarrow> (kernel, u32) M"

definition mm_brk :: "allocator \<Rightarrow> u32 \<Rightarrow> (kernel, u32) M" where
  "mm_brk mm_malloc new_brk =
     seqM (whenM (new_brk \<noteq> 0)
       (seqM (bindM (getM max_brk) (\<lambda>m. whenM (new_brk > m)
          (seqM (seqM (mm_malloc m (sint (new_brk - m))) (ret ()))
                (modM (\<lambda>k. k\<lparr>max_brk := new_brk\<rparr>)))))
        (modM (\<lambda>k. k\<lparr>cur_brk := new_brk\<rparr>))))
     (getM cur_brk)"

definition fs_ioctl :: "int \<Rightarrow> u32 \<Rightarrow> (kernel, u32) M" where
  "fs_ioctl fd request = seqM (assertM (request = TCGETS)) (ret (if 0 \<le> fd \<and> fd \<le> 2 then 0 else -1))"

definition sys_brk :: "allocator \<Rightarrow> TrapFrame \<Rightarrow> (kernel, TrapFrame) M" where
  "sys_brk mm_malloc tf = bindM (mm_brk mm_malloc (tf_ebx tf)) (\<lambda>v. ret (tf\<lparr>tf_eax := v\<rparr>))"

definition sys_ioctl :: "TrapFrame \<Rightarrow> (kernel, TrapFrame) M" where
  "sys_ioctl tf = bindM (fs_ioctl (sint (tf_ebx tf)) (tf_ecx tf)) (\<lambda>v. ret (tf\<lparr>tf_eax := v\<rparr>))"

definition sys_write :: "nat \<Rightarrow> TrapFrame \<Rightarrow> (kernel, TrapFrame) M" where
  "sys_write fuel tf =
     (let fd = sint (tf_ebx tf); buf = tf_ecx tf; len = sint (tf_edx tf) in
      if fd = 1 \<or> fd = 2 then
        seqM (forM [0..<nat len] (\<lambda>i. bindM (getM (\<lambda>k. ram k (buf + of_nat i))) (\<lambda>c. on_io (on_dev (serial_printc fuel c)))))
             (ret (tf\<lparr>tf_eax := word_of_int len\<rparr>))
      else ret tf)"

definition do_syscall :: "routines \<Rightarrow> allocator \<Rightarrow> TrapFrame \<Rightarrow> (kernel, TrapFrame) M" where
  "do_syscall R mm_malloc tf =
     (if tf_eax tf = 0 then
        seqM kernel_cli (seqM (add_irq_handle (sint (tf_ebx tf)) (tf_ecx tf)) (seqM kernel_sti (ret tf)))
      else if tf_eax tf = SYS_brk then sys_brk mm_malloc tf
      else if tf_eax tf = SYS_ioctl then sys_ioctl tf
      else if tf_eax tf = SYS_write then sys_write (poll_fuel R) tf
      else fail Panic)"

definition irq_handle :: "routines \<Rightarrow> allocator \<Rightarrow> nat \<Rightarrow> TrapFrame \<Rightarrow> (kernel, TrapFrame) M" where
  "irq_handle R mm_malloc fuel tf =
     (let irq = sint (tf_irq tf) in
      if irq < 0 then fail Panic
      else if irq = 0x80 then do_syscall R mm_malloc tf
      else if irq < 1000 then fail Panic
      else let irq_id = irq - 1000 in
        seqM (assertM (irq_id < int NR_HARD_INTR))
       (seqM (bindM (getM (\<lambda>k. handles k (nat irq_id))) (run_handlers R fuel))
             (ret tf)))"

end
