(* ===== verification/Kernel_Props.thy ===== *)
theory Kernel_Props
  imports Kernel_Irq
begin

unbundle bit_operations_syntax

text \<open>
  Properties of the kernel above the hardware: what reaches the console of the emulator, the order in which
  interrupt handlers run, the write-back driven by timer interrupts, and the system calls.
\<close>

section \<open>Console\<close>

definition console :: "machine \<Rightarrow> bool" where
  "console s \<longleftrightarrow> pio_maps (pio s) = device_ports \<and> port 0x3FD s AND 0x20 \<noteq> 0"

definition printed :: "machine \<Rightarrow> u8 list \<Rightarrow> machine \<Rightarrow> bool" where
  "printed s bs t \<longleftrightarrow> console t \<and> serial_out t = serial_out s @ bs"

lemma serial_port_map:
  assumes "pio_maps (pio s) = device_ports" "0x3F8 \<le> unat a" "unat a \<le> 0x3FF"
  shows "pio_map_of s a (Suc 0) = Some Serial_io"
  using assms(2-) by (simp add: device_port_map [OF assms(1)])

lemma wp_out_serial:
  assumes "pio_maps (pio s) = device_ports" "0x3F8 \<le> unat a" "unat a \<le> 0x3FF"
    and "Q () ((with_port (unat a) v s)\<lparr>serial_out := serial_out s @ (if unat a = 0x3F8 then [v] else [])\<rparr>)"
  shows "wp (out_byte a v) Q s"
proof -
  have m: "pio_map_of (with_port (unat a) v s) a (Suc 0) = Some Serial_io" using assms by (intro serial_port_map) simp_all
  have same: "(with_port (unat a) v s)\<lparr>serial_out := serial_out s\<rparr> = with_port (unat a) v s" by (simp add: with_port_def)
  have out: "serial_out (with_port b w s) = serial_out s" for b w by (simp add: with_port_def)
  show ?thesis
    using assms m same out
    by (cases "unat a = 0x3F8")
      (simp_all add: out_byte_def pio_write_def pio_callback_def run_pio_callback_def serial_io_handler_def wp_simps store_port_byte
        flip: with_port_def)
qed

lemma console_step:
  assumes "console s" "a \<noteq> 0x3FD"
  shows "console ((with_port a v s)\<lparr>serial_out := xs\<rparr>)"
  using assms by (simp add: console_def port_def with_port_def)

lemma wp_serial_idle: "console s \<Longrightarrow> Q True s \<Longrightarrow> wp serial_idle Q s"
proof -
  assume c: "console s" and q: "Q True s"
  have m: "pio_map_of s 0x3FD (Suc 0) = Some Serial_io" using c by (intro serial_port_map) (simp_all add: console_def)
  show "wp serial_idle Q s"
    using c q m read_port_byte [of "0x3FD" s]
    by (simp add: serial_idle_def in_byte_def pio_read_def pio_callback_def run_pio_callback_def serial_io_handler_def wp_simps
        console_def ucast_ucast_u8)
qed

lemma wp_serial_printc:
  assumes "console s"
  shows "wp (serial_printc fuel c) (\<lambda>_ t. printed s [c] t \<and> ide t = ide s \<and> pic t = pic s) s"
  unfolding serial_printc_def wp_seqM
proof (rule wp_whileM [where I = "\<lambda>t. t = s" and f = "\<lambda>_. 0"])
  fix t assume t: "t = s"
  have "wp (out_byte 0x3F8 c) (\<lambda>_ t. printed s [c] t \<and> ide t = ide s \<and> pic t = pic s) s"
    by (rule wp_out_serial) (use assms console_step [OF assms, where a = "0x3F8"] in \<open>simp_all add: printed_def console_def\<close>)
  then have "wp serial_idle (\<lambda>x u. if \<not> x then wp (ret ()) (\<lambda>_ v. v = s \<and> (0 :: nat) < 0) u
      else wp (out_byte 0x3F8 c) (\<lambda>_ t. printed s [c] t \<and> ide t = ide s \<and> pic t = pic s) u) s"
    by (intro wp_serial_idle [OF assms]) simp
  then show "wp (bindM serial_idle (\<lambda>b. ret (\<not> b))) (\<lambda>x u. if x then wp (ret ()) (\<lambda>_ v. v = s \<and> (0 :: nat) < 0) u
      else wp (out_byte 0x3F8 c) (\<lambda>_ t. printed s [c] t \<and> ide t = ide s \<and> pic t = pic s) u) t"
    by (simp add: wp_bindM wp_ret t)
qed simp_all

lemma wp_print_all:
  assumes "console s" "\<And>i. i < n \<Longrightarrow> body i = serial_printc fuel (xs i)"
  shows "wp (forM [0..<n] body) (\<lambda>_ t. printed s (map xs [0..<n]) t) s"
proof (rule wp_for_upt [where I = "\<lambda>i t. printed s (map xs [0..<i]) t"])
  fix i t assume "i < n" and t: "printed s (map xs [0..<i]) t"
  then show "wp (body i) (\<lambda>_. printed s (map xs [0..<Suc i])) t"
    unfolding assms(2) [OF \<open>i < n\<close>]
    by (intro wp_mono [OF wp_serial_printc [of t]]) (auto simp: printed_def)
qed (use assms(1) in \<open>auto simp: printed_def\<close>)

text \<open>
  The kernel's console: a message of up to 255 characters sent through \<open>printk\<close> arrives complete
  and in order at the emulator's serial port, with every polling loop ending at once; a message of more than 256
  characters makes \<open>printk\<close> read behind its buffer, because it trusts the length \<open>vsnprintf\<close> would have
  needed. Initialising the serial port prints a stray byte 1.
\<close>

lemma printk_prints:
  assumes "console s"
  shows "(length text \<le> 255 \<longrightarrow> wp (printk fuel text) (\<lambda>_ t. printed s text t) s) \<and>
    (256 < length text \<longrightarrow> printk fuel text s = Err OutOfBounds) \<and>
    wp kernel_init_serial (\<lambda>_ t. printed s [1] t) s"
proof (intro conjI impI)
  assume short: "length text \<le> 255"
  have "wp (printk fuel text) (\<lambda>_ t. printed s (map ((!) text) [0..<length text]) t) s"
    unfolding printk_def Let_def
    by (rule wp_print_all [where fuel = fuel, OF assms]) (use short in \<open>auto simp: nth_append\<close>)
  then show "wp (printk fuel text) (\<lambda>_ t. printed s text t) s" by (simp add: map_nth)
next
  assume long: "256 < length text"
  let ?body = "\<lambda>i. if i < length (take 255 text @ [0]) then serial_printc fuel ((take 255 text @ [0]) ! i) else fail OutOfBounds"
  have split: "[0..<length text] = [0..<256] @ 256 # [257..<length text]"
    using long upt_add_eq_append [of 0 256 "length text - 256"] upt_conv_Cons [of 256 "length text"] by simp
  have "wp (forM [0..<256] ?body) (\<lambda>_ t. printed s (map ((!) (take 255 text @ [0])) [0..<256]) t) s"
    by (rule wp_print_all [where fuel = fuel, OF assms]) (use long in auto)
  from wp_RetD [OF this] obtain t where t: "forM [0..<256] ?body s = Ret () t" by auto
  have app: "forM (xs @ ys) b s = (case forM xs b s of Ret x u \<Rightarrow> forM ys b u | Jmp u \<Rightarrow> Jmp u | Err e \<Rightarrow> Err e)"
    for xs ys :: "nat list" and b :: "nat \<Rightarrow> (machine, unit) M" and s
    by (induction xs arbitrary: s) (auto simp: seqM_def bindM_def split: outcome.splits)
  show "printk fuel text s = Err OutOfBounds"
    using t long unfolding printk_def Let_def split by (simp add: app seqM_def bindM_def)
next
  have regs: "wp (out_byte a v) Q u"
    if "console u" "0x3F8 < unat a" "unat a < 0x3FD" "\<And>t. console t \<Longrightarrow> serial_out t = serial_out u \<Longrightarrow> Q () t" for a v u Q
    by (rule wp_out_serial) (use that console_step [OF that(1), where a = "unat a"] in \<open>auto simp: console_def\<close>)
  have data: "wp (out_byte 0x3F8 v) Q u"
    if "console u" "\<And>t. console t \<Longrightarrow> serial_out t = serial_out u @ [v] \<Longrightarrow> Q () t" for v u Q
    by (rule wp_out_serial) (use that console_step [OF that(1), where a = "0x3F8"] in \<open>auto simp: console_def\<close>)
  show "wp kernel_init_serial (\<lambda>_ t. printed s [1] t) s"
    unfolding kernel_init_serial_def wp_seqM add_0_right
    by (intro regs data) (use assms in \<open>simp_all add: printed_def\<close>)
qed

lemma fresh_console: "console (with_port 0x3FD 0x20 (dev (fresh_buffer img)))"
  by (simp add: console_def fresh_buffer_def)


section \<open>Handler lists\<close>

text \<open>
  \<open>handler_chain pool n p fs\<close>: following the list from \<open>p\<close> in the pool calls exactly the routines \<open>fs\<close>, using only
  pool entries below \<open>n\<close>, each earlier than the one before.
\<close>

inductive handler_chain :: "(nat \<Rightarrow> IRQ_t) \<Rightarrow> nat \<Rightarrow> nat option \<Rightarrow> u32 list \<Rightarrow> bool" for pool where
  empty: "handler_chain pool n None []"
| link: "p < n \<Longrightarrow> handler_chain pool p (next_irq_t (pool p)) fs \<Longrightarrow> handler_chain pool n (Some p) (routine (pool p) # fs)"

inductive_cases handler_chain_SomeE: "handler_chain pool n (Some p) fs"
inductive_cases handler_chain_NoneE: "handler_chain pool n None fs"

lemma handler_chain_extend: "handler_chain pool n q fs \<Longrightarrow> n \<le> m \<Longrightarrow> (\<And>i. i < n \<Longrightarrow> pool' i = pool i) \<Longrightarrow> handler_chain pool' m q fs"
proof (induction arbitrary: m rule: handler_chain.induct)
  case (link p n fs)
  then have "handler_chain pool' p (next_irq_t (pool' p)) fs" by simp
  then have "handler_chain pool' m (Some p) (routine (pool' p) # fs)" using link by (intro handler_chain.link) simp_all
  then show ?case using link by simp
qed (rule handler_chain.empty)

definition irq_tables :: "kernel \<Rightarrow> (nat \<Rightarrow> u32 list) \<Rightarrow> bool" where
  "irq_tables k L \<longleftrightarrow> handle_count k \<le> 32 \<and> (\<forall>i<16. handler_chain (handle_pool k) (handle_count k) (handles k i) (L i))"

lemma add_irq_handle_spec:
  assumes "irq_tables k L" "irq < 16" "handle_count k < 32"
  shows "wp (add_irq_handle (int irq) f) (\<lambda>_ t. irq_tables t (L(irq := f # L irq)) \<and> handle_count t = handle_count k + 1 \<and>
    io t = io k \<and> if_flag t = if_flag k) k"
proof -
  let ?n = "handle_count k"
  let ?t = "k\<lparr>handle_count := ?n + 1, handle_pool := (handle_pool k)(?n := \<lparr>routine = f, next_irq_t = handles k irq\<rparr>),
    handles := (handles k)(irq := Some ?n)\<rparr>"
  have old: "handler_chain (handle_pool ?t) m (handles k i) (L i)" if "i < 16" "?n \<le> m" for i m
    by (rule handler_chain_extend [of "handle_pool k" ?n]) (use assms(1) that in \<open>simp_all add: irq_tables_def\<close>)
  have "handler_chain (handle_pool ?t) (?n + 1) (handles ?t i) ((L(irq := f # L irq)) i)" if "i < 16" for i
  proof (cases "i = irq")
    case True
    with old [OF that, of ?n] have "handler_chain (handle_pool ?t) ?n (next_irq_t (handle_pool ?t ?n)) (L irq)" by simp
    then have "handler_chain (handle_pool ?t) (?n + 1) (Some ?n) (routine (handle_pool ?t ?n) # L irq)" by (intro handler_chain.link) simp_all
    with True show ?thesis by simp
  next
    case False
    with old [OF that, of "?n + 1"] show ?thesis by simp
  qed
  then have "irq_tables ?t (L(irq := f # L irq))" using assms by (simp add: irq_tables_def)
  then show ?thesis using assms by (simp add: add_irq_handle_def wp_simps)
qed

text \<open>A routine that leaves the pool alone.\<close>

definition keeps_pool :: "(kernel, unit) M \<Rightarrow> bool" where
  "keeps_pool m \<longleftrightarrow> (\<forall>k x t. m k = Ret x t \<longrightarrow> handle_pool t = handle_pool k)"

lemma run_handlers_list:
  assumes "handler_chain pool n q fs" "n \<le> fuel" "handle_pool k = pool" "\<forall>f\<in>set fs. keeps_pool (call_routine R f)"
  shows "run_handlers R fuel q k = forM fs (call_routine R) k"
  using assms
proof (induction arbitrary: fuel k rule: handler_chain.induct)
  case (link p n fs)
  then obtain m where m: "fuel = Suc m" "p \<le> m" by (cases fuel) auto
  show ?case
  proof (cases "call_routine R (routine (pool p)) k")
    case (Ret x t)
    then have "handle_pool t = pool" using link.prems by (auto simp: keeps_pool_def)
    with link.IH [of m t] link.prems m Ret show ?thesis by (simp add: seqM_def bindM_def)
  qed (use link.prems m in \<open>simp_all add: seqM_def bindM_def\<close>)
qed simp

lemma irq_handle_list:
  assumes "irq_tables k L" "irq < 16" "tf_irq tf = 1000 + of_nat irq" "\<forall>f\<in>set (L irq). keeps_pool (call_routine R f)" "32 \<le> fuel"
  shows "irq_handle R mm fuel tf k = seqM (forM (L irq) (call_routine R)) (ret tf) k"
proof -
  have u: "unat (1000 + of_nat irq :: u32) = 1000 + irq" using assms(2) by (simp add: unat_word_ariths unat_of_nat)
  have s: "sint (tf_irq tf) = int (1000 + irq)"
    using assms(2,3) u by (subst sint_small) simp_all
  have "run_handlers R fuel (handles k irq) k = forM (L irq) (call_routine R) k"
    using assms by (intro run_handlers_list [of "handle_pool k" "handle_count k"]) (auto simp: irq_tables_def)
  then have "seqM (run_handlers R fuel (handles k irq)) (ret tf) k = seqM (forM (L irq) (call_routine R)) (ret tf) k"
    by (simp add: seqM_def bindM_def)
  moreover have "nat (int (1000 + irq) - 1000) = irq" by simp
  ultimately show ?thesis using assms(2)
    by (simp add: irq_handle_def s Let_def seqM_def bindM_def run_simps)
qed

section \<open>Properties of the dispatcher\<close>

text \<open>
  C30. Interrupt dispatch: while the pool has room, registering a routine for a hardware interrupt puts it
  in front of the routines registered before and changes no other list; an interrupt calls the registered
  routines of its line, newest first, each once, and the walk ends within the pool. The pool test admits one registration
  too many: the thirty-third writes behind the pool.
\<close>

theorem handlers_newest_first:
  assumes "irq_tables k L" "irq < 16" "\<forall>f\<in>set (L irq). keeps_pool (call_routine R f)" "tf_irq tf = 1000 + of_nat irq"
  shows "irq_handle R mm 32 tf k = seqM (forM (L irq) (call_routine R)) (ret tf) k \<and>
    (if handle_count k < 32 then wp (add_irq_handle (int irq) f) (\<lambda>_ t. irq_tables t (L(irq := f # L irq))) k
     else add_irq_handle (int irq) f k = Err OutOfBounds)"
proof (intro conjI)
  show "irq_handle R mm 32 tf k = seqM (forM (L irq) (call_routine R)) (ret tf) k"
    by (rule irq_handle_list [OF assms(1,2,4,3)]) simp
  show "if handle_count k < 32 then wp (add_irq_handle (int irq) f) (\<lambda>_ t. irq_tables t (L(irq := f # L irq))) k
     else add_irq_handle (int irq) f k = Err OutOfBounds"
  proof (cases "handle_count k < 32")
    case True
    then show ?thesis by (simp add: wp_mono [OF add_irq_handle_spec [OF assms(1,2) True]])
  next
    case False
    then have "handle_count k = 32" using assms(1) by (simp add: irq_tables_def)
    with assms(2) show ?thesis by (simp add: add_irq_handle_def seqM_def bindM_def run_simps)
  qed
qed

definition cold_kernel :: "machine buf_state \<Rightarrow> kernel" where
  "cold_kernel b = \<lparr>handle_pool = (\<lambda>_. \<lparr>routine = 0, next_irq_t = None\<rparr>), handles = (\<lambda>_. None), handle_count = 0,
     has_ide_intr = 0, cur_brk = 0, max_brk = 0, if_flag = False, ram = (\<lambda>_. 0), phys = (\<lambda>_. 0), cr3_reg = 0, io = b\<rparr>"

definition frame_of :: "u32 \<Rightarrow> TrapFrame" where
  "frame_of irq = \<lparr>tf_edi = 0, tf_esi = 0, tf_ebp = 0, tf_old_esp = 0, tf_ebx = 0, tf_edx = 0, tf_ecx = 0, tf_eax = 0,
     tf_irq = irq, tf_error_code = 0, tf_eip = 0, tf_cs = 0, tf_eflags = 0\<rparr>"

lemma cold_tables: "irq_tables (cold_kernel b) (\<lambda>_. [])"
  by (simp add: irq_tables_def cold_kernel_def handler_chain.empty)

theorem handlers_newest_first_witness:
  "wp (add_irq_handle (int 0) 7) (\<lambda>_ t. irq_tables t ((\<lambda>_. [])(0 := [7]))) (cold_kernel (fresh_buffer []))"
  using handlers_newest_first [OF cold_tables [of "fresh_buffer []"], where irq = 0 and f = 7 and mm = "\<lambda>_ _. ret 0" and
    R = "\<lparr>at_ide_writeback = 1, at_ide_intr = 2, user_routine = (\<lambda>_. ret ()), poll_fuel = 0\<rparr>" and tf = "frame_of 1000"]
  by (simp add: frame_of_def cold_kernel_def)

lemma timer_ticks:
  assumes "irq_tables k L" "L 0 = [at_ide_writeback R]" "tf_irq tf = 1000"
    and "wp (forM xs (\<lambda>_. ide_writeback (disk_do_write (poll_fuel R)))) (\<lambda>_ b. Q () (k\<lparr>io := b\<rparr>)) (io k)"
  shows "wp (forM xs (\<lambda>_. seqM (irq_handle R mm 32 tf) (ret ()))) Q k"
  using assms(1,4)
proof (induction xs arbitrary: k)
  case Nil
  then show ?case by (simp add: wp_simps)
next
  case (Cons x xs)
  let ?W = "ide_writeback (disk_do_write (poll_fuel R))"
  have "keeps_pool (call_routine R (at_ide_writeback R))"
    by (auto simp: keeps_pool_def call_routine_def on_io_def zoom_def split: outcome.splits)
  then have run: "irq_handle R mm 32 tf k = seqM (forM (L 0) (call_routine R)) (ret tf) k"
    using assms(2,3) Cons.prems(1) by (intro irq_handle_list) simp_all
  have "wp ?W (\<lambda>_. wp (forM xs (\<lambda>_. ?W)) (\<lambda>_ b. Q () (k\<lparr>io := b\<rparr>))) (io k)"
    using Cons.prems(2) by (simp add: wp_seqM)
  then have "wp ?W (\<lambda>_ b. wp (forM xs (\<lambda>_. seqM (irq_handle R mm 32 tf) (ret ()))) Q (k\<lparr>io := b\<rparr>)) (io k)"
  proof (rule wp_mono)
    fix y b assume "wp (forM xs (\<lambda>_. ?W)) (\<lambda>_ b. Q () (k\<lparr>io := b\<rparr>)) b"
    then show "wp (forM xs (\<lambda>_. seqM (irq_handle R mm 32 tf) (ret ()))) Q (k\<lparr>io := b\<rparr>)"
      using Cons.prems(1) by (intro Cons.IH) (simp_all add: irq_tables_def)
  qed
  then have "wp (seqM (forM (L 0) (call_routine R)) (ret tf))
      (\<lambda>_. wp (forM xs (\<lambda>_. seqM (irq_handle R mm 32 tf) (ret ()))) Q) k"
    by (simp add: assms(2) wp_simps call_routine_def on_io_def)
  moreover have "wp (irq_handle R mm 32 tf) P k = wp (seqM (forM (L 0) (call_routine R)) (ret tf)) P k" for P
    by (simp only: wp_def run)
  ultimately show ?case unfolding forM.simps wp_seqM wp_ret by simp
qed

text \<open>
  C23. Written data reaches the disk: once the kernel has registered \<open>ide_writeback\<close> for the timer interrupt, a
  hundred timer interrupts, at whatever state of its counter, leave every byte that a reader of the sector buffer
  was promised on the image behind the emulated disk.
\<close>

theorem timer_interrupts_flush:
  assumes "irq_tables k L" "L 0 = [at_ide_writeback R]" "tf_irq tf = 1000"
    and "ide_disk.buf_inv n (io k)" "unat (counter (io k)) < 100"
  shows "wp (forM [0..<100] (\<lambda>_. seqM (irq_handle R mm 32 tf) (ret ())))
    (\<lambda>_ t. \<forall>a<512 * n. disk (ide (dev (io t))) ! a = ide_disk.byte_of (io k) a) k"
  by (rule timer_ticks [OF assms(1-3)], rule wp_mono [OF writeback_reaches_disk [OF assms(4,5)]]) simp

lemma init_ide_tables:
  "wp (kernel_init_ide R) (\<lambda>_ t. irq_tables t ((\<lambda>_. [])(0 := [at_ide_writeback R], 14 := [at_ide_intr R])) \<and> io t = b)
     (cold_kernel b)" if "\<forall>i<128. \<not> used (buf b i)" for R b
proof -
  have init: "wp (on_io buf_init) (\<lambda>_ t. t = cold_kernel b) (cold_kernel b)"
    unfolding on_io_def wp_zoom buf_init_def
  proof (rule wp_for_upt [where I = "\<lambda>_ c. c = b"])
    fix i :: nat and c assume i: "i < 128" and c: "c = b"
    have "\<not> used (buf b i)" using that i by blast
    then have "(buf b i)\<lparr>used := False\<rparr> = buf b i" by (cases "buf b i") simp
    then show "wp (on_buf i (\<lambda>b. b\<lparr>used := False\<rparr>)) (\<lambda>_ c. c = b) c" by (simp add: c on_buf_def wp_simps)
  qed (simp_all add: cold_kernel_def)
  show ?thesis unfolding kernel_init_ide_def wp_seqM
  proof (rule wp_mono [OF init], simp, rule wp_mono [OF add_irq_handle_spec [OF cold_tables, of 0, simplified]])
    show "handle_count (cold_kernel b) < 32" by (simp add: cold_kernel_def)
    fix x t assume t: "irq_tables t ((\<lambda>_. [])(0 := [at_ide_writeback R])) \<and> handle_count t = Suc (handle_count (cold_kernel b)) \<and>
      io t = io (cold_kernel b) \<and> if_flag t = if_flag (cold_kernel b)"
    show "wp (add_irq_handle 14 (at_ide_intr R)) (\<lambda>_ t. irq_tables t ((\<lambda>_. [])(0 := [at_ide_writeback R], 14 := [at_ide_intr R])) \<and> io t = b) t"
      by (rule wp_mono [OF add_irq_handle_spec [OF conjunct1 [OF t], of 14, simplified]]) (use t in \<open>auto simp: cold_kernel_def\<close>)
  qed
qed

theorem timer_interrupts_flush_witness:
  "wp (seqM (kernel_init_ide \<lparr>at_ide_writeback = 1, at_ide_intr = 2, user_routine = (\<lambda>_. ret ()), poll_fuel = 0\<rparr>)
     (forM [0..<100] (\<lambda>_. seqM (irq_handle \<lparr>at_ide_writeback = 1, at_ide_intr = 2, user_routine = (\<lambda>_. ret ()), poll_fuel = 0\<rparr>
        (\<lambda>_ _. ret 0) 32 (frame_of 1000)) (ret ()))))
    (\<lambda>_ t. \<forall>a<512 * 1. disk (ide (dev (io t))) ! a = ide_disk.byte_of (fresh_buffer (replicate 512 7)) a)
    (cold_kernel (fresh_buffer (replicate 512 7)))"
  unfolding wp_seqM
proof (rule wp_mono [OF init_ide_tables])
  show "\<forall>i<128. \<not> used (buf (fresh_buffer (replicate 512 7)) i)" by (simp add: fresh_buffer_def)
  fix x and t :: kernel
  let ?R = "\<lparr>at_ide_writeback = 1, at_ide_intr = 2, user_routine = (\<lambda>_. ret ()), poll_fuel = 0\<rparr>"
  assume t: "irq_tables t ((\<lambda>_. [])(0 := [at_ide_writeback ?R], 14 := [at_ide_intr ?R])) \<and> io t = fresh_buffer (replicate 512 7)"
  have "ide_disk.buf_inv 1 (io t)" using t fresh_buffer_inv [of 1 "replicate 512 7"] by simp
  moreover have "unat (counter (io t)) < 100" using t by (simp add: fresh_buffer_def)
  ultimately have "wp (forM [0..<100] (\<lambda>_. seqM (irq_handle ?R (\<lambda>_ _. ret 0) 32 (frame_of 1000)) (ret ())))
    (\<lambda>_ u. \<forall>a<512 * 1. disk (ide (dev (io u))) ! a = ide_disk.byte_of (io t) a) t"
    using t by (intro timer_interrupts_flush [of t "(\<lambda>_. [])(0 := [at_ide_writeback ?R], 14 := [at_ide_intr ?R])"])
      (simp_all add: frame_of_def)
  then show "wp (forM [0..<100] (\<lambda>_. seqM (irq_handle ?R (\<lambda>_ _. ret 0) 32 (frame_of 1000)) (ret ())))
    (\<lambda>_ u. \<forall>a<512 * 1. disk (ide (dev (io u))) ! a = ide_disk.byte_of (fresh_buffer (replicate 512 7)) a) t"
    using t by simp
qed

section \<open>System calls\<close>

text \<open>
  The \<open>write\<close> system call: on the standard output and error the bytes of the caller's buffer appear on the
  console in order, and the result is the length, none for a negative one. On any other descriptor nothing is written and no
  result is stored, so the caller sees the number of the system call, 4, as if four bytes had been written.
\<close>

lemma sys_write_prints:
  assumes "console (dev (io k))" "tf_eax tf = 4"
  shows "if tf_ebx tf = 1 \<or> tf_ebx tf = 2
    then wp (do_syscall R mm tf) (\<lambda>tf' t. tf_eax tf' = tf_edx tf \<and> ram t = ram k \<and> printed (dev (io k))
      (map (\<lambda>i. ram k (tf_ecx tf + of_nat i)) [0..<nat (sint (tf_edx tf))]) (dev (io t))) k
    else wp (do_syscall R mm tf) (\<lambda>tf' t. tf_eax tf' = 4 \<and> t = k) k"
proof (cases "tf_ebx tf = 1 \<or> tf_ebx tf = 2")
  case True
  let ?n = "nat (sint (tf_edx tf))"
  let ?byte = "\<lambda>i. ram k (tf_ecx tf + of_nat i)"
  have fd: "sint (tf_ebx tf) = 1 \<or> sint (tf_ebx tf) = 2" using True sint_small [of 1] sint_small [of 2] by auto
  have loop: "wp (forM [0..<?n] (\<lambda>i. bindM (getM (\<lambda>k. ram k (tf_ecx tf + of_nat i))) (\<lambda>c. on_io (on_dev (serial_printc (poll_fuel R) c)))))
    (\<lambda>_ t. ram t = ram k \<and> printed (dev (io k)) (map ?byte [0..<?n]) (dev (io t))) k"
  proof (rule wp_for_upt [where I = "\<lambda>i t. ram t = ram k \<and> printed (dev (io k)) (map ?byte [0..<i]) (dev (io t))"])
    fix i and t :: kernel assume t: "ram t = ram k \<and> printed (dev (io k)) (map ?byte [0..<i]) (dev (io t))"
    then have "console (dev (io t))" by (simp add: printed_def)
    then have "wp (serial_printc (poll_fuel R) (?byte i)) (\<lambda>_ d. printed (dev (io k)) (map ?byte [0..<Suc i]) d) (dev (io t))"
      by (rule wp_mono [OF wp_serial_printc]) (use t in \<open>simp add: printed_def\<close>)
    with t show "wp (bindM (getM (\<lambda>k. ram k (tf_ecx tf + of_nat i))) (\<lambda>c. on_io (on_dev (serial_printc (poll_fuel R) c))))
        (\<lambda>_ t. ram t = ram k \<and> printed (dev (io k)) (map ?byte [0..<Suc i]) (dev (io t))) t"
      by (simp add: wp_bindM wp_getM on_io_def on_dev_def wp_zoom)
  qed (use assms(1) in \<open>auto simp: printed_def\<close>)
  have "wp (do_syscall R mm tf) (\<lambda>tf' t. tf_eax tf' = tf_edx tf \<and> ram t = ram k \<and> printed (dev (io k)) (map ?byte [0..<?n]) (dev (io t))) k"
    using assms(2) fd wp_mono [OF loop] by (simp add: do_syscall_def sys_write_def Let_def wp_seqM wp_ret)
  with True show ?thesis by simp
next
  case False
  have "sint (tf_ebx tf) \<noteq> 1 \<and> sint (tf_ebx tf) \<noteq> 2"
  proof -
    have "sint (1 :: u32) = 1" "sint (2 :: u32) = 2" using sint_small [of 1] sint_small [of 2] by simp_all
    with False signed_word_eqI [of "tf_ebx tf" 1] signed_word_eqI [of "tf_ebx tf" 2] show ?thesis by auto
  qed
  with False assms(2) show ?thesis by (simp add: do_syscall_def sys_write_def Let_def wp_simps)
qed


text \<open>
  The program break. \<open>mm_malloc\<close>, which is not part of the sources, may do anything to memory and may fail, but neither
  reads nor writes the two break variables and does not leave by \<open>longjmp\<close>.
\<close>

definition set_breaks :: "u32 \<Rightarrow> u32 \<Rightarrow> kernel \<Rightarrow> kernel" where
  "set_breaks c m k = k\<lparr>cur_brk := c, max_brk := m\<rparr>"

definition ignores_breaks :: "allocator \<Rightarrow> bool" where
  "ignores_breaks mm \<longleftrightarrow> (\<forall>a n k c m. mm a n (set_breaks c m k) = (case mm a n k of
     Ret r t \<Rightarrow> Ret r (set_breaks c m t) | Err e \<Rightarrow> Err e | Jmp t \<Rightarrow> Err AssertFail))"

text \<open>A sequence of \<open>brk\<close> system calls with the values that the callers get back.\<close>

fun brk_calls :: "routines \<Rightarrow> allocator \<Rightarrow> TrapFrame list \<Rightarrow> (kernel, u32 list) M" where
  "brk_calls R mm [] = ret []"
| "brk_calls R mm (tf # tfs) = bindM (do_syscall R mm tf) (\<lambda>tf'. bindM (brk_calls R mm tfs) (\<lambda>vs. ret (tf_eax tf' # vs)))"

text \<open>What the heap needs: a block from the largest break so far to each larger one.\<close>

fun heap_blocks :: "u32 \<Rightarrow> u32 list \<Rightarrow> (u32 \<times> int) list" where
  "heap_blocks m [] = []"
| "heap_blocks m (b # bs) = (if m < b then (m, int (unat b) - int (unat m)) # heap_blocks b bs else heap_blocks m bs)"

definition allocate :: "allocator \<Rightarrow> (u32 \<times> int) list \<Rightarrow> (kernel, unit) M" where
  "allocate mm rs = forM rs (\<lambda>(a, n). seqM (mm a n) (ret ()))"

fun breaks :: "u32 \<Rightarrow> u32 list \<Rightarrow> u32 list" where
  "breaks c [] = []"
| "breaks c (b # bs) = (if b = 0 then c # breaks c bs else b # breaks b bs)"

lemma set_breaks_simps [simp]:
  "set_breaks c m (set_breaks c' m' k) = set_breaks c m k" "cur_brk (set_breaks c m k) = c" "max_brk (set_breaks c m k) = m"
  "set_breaks (cur_brk k) (max_brk k) k = k" "(set_breaks c m k)\<lparr>max_brk := m'\<rparr> = set_breaks c m' k"
  "(set_breaks c m k)\<lparr>cur_brk := c'\<rparr> = set_breaks c' m k" "set_breaks c m (k\<lparr>max_brk := m'\<rparr>) = set_breaks c m k"
  by (simp_all add: set_breaks_def)

lemma break_updates: "t\<lparr>max_brk := m, cur_brk := c\<rparr> = set_breaks c m t" "t\<lparr>cur_brk := c\<rparr> = set_breaks c (max_brk t) t"
  by (simp_all add: set_breaks_def)

lemma ignores_breaksD:
  assumes "ignores_breaks mm"
  shows "mm a n (set_breaks c m k) = (case mm a n k of Ret r t \<Rightarrow> Ret r (set_breaks c m t) | Err e \<Rightarrow> Err e | Jmp t \<Rightarrow> Err AssertFail)"
    and "mm a n k \<noteq> Jmp t"
    and "mm a n k = Ret r t \<Longrightarrow> cur_brk t = cur_brk k \<and> max_brk t = max_brk k"
proof -
  show eq: "mm a n (set_breaks c m k) = (case mm a n k of Ret r t \<Rightarrow> Ret r (set_breaks c m t) | Err e \<Rightarrow> Err e | Jmp t \<Rightarrow> Err AssertFail)" for c m
    using assms by (simp add: ignores_breaks_def)
  note self = eq [of "cur_brk k" "max_brk k", simplified]
  show "mm a n k \<noteq> Jmp t" using self by (auto split: outcome.splits)
  show "cur_brk t = cur_brk k \<and> max_brk t = max_brk k" if "mm a n k = Ret r t"
    using self that by (auto, metis set_breaks_simps(2), metis set_breaks_simps(3))
qed

lemma allocate_breaks:
  assumes "ignores_breaks mm"
  shows "allocate mm rs (set_breaks c m k) = (case allocate mm rs k of
      Ret r t \<Rightarrow> Ret r (set_breaks c m t) | Err e \<Rightarrow> Err e | Jmp t \<Rightarrow> Err AssertFail)"
proof (induction rs arbitrary: k)
  case (Cons r rs)
  obtain a n where r: "r = (a, n)" by (cases r)
  show ?case using Cons.IH ignores_breaksD(1) [OF assms, of a n c m k] ignores_breaksD(2) [OF assms, of a n k]
    by (auto simp: allocate_def r seqM_def bindM_def split: outcome.splits)
qed (simp add: allocate_def run_simps)

lemma heap_blocks_cover:
  "concat (map (\<lambda>(a, n). [unat a..<unat a + nat n]) (heap_blocks m bs)) = [unat m..<unat (fold max bs m)] \<and> m \<le> fold max bs m"
proof (induction bs arbitrary: m)
  case (Cons b bs)
  show ?case
  proof (cases "m < b")
    case True
    then have lt: "unat m < unat b" by (simp add: word_less_nat_alt)
    have up: "b \<le> fold max bs b" using Cons.IH by blast
    have mx: "max b m = b" using True by (auto simp: max_def)
    have n: "unat m + nat (int (unat b) - int (unat m)) = unat b" using lt by linarith
    have "concat (map (\<lambda>(a, n). [unat a..<unat a + nat n]) (heap_blocks m (b # bs))) = [unat m..<unat b] @ [unat b..<unat (fold max bs b)]"
      using True Cons.IH [of b] n by (simp only: heap_blocks.simps if_True list.map concat.simps prod.case)
    also have "\<dots> = [unat m..<unat (fold max bs b)]"
      using lt up upt_add_eq_append [of "unat m" "unat b" "unat (fold max bs b) - unat b"] by (simp add: word_le_nat_alt)
    finally show ?thesis using True up by (simp add: mx)
  next
    case False
    then have "max b m = m" by (auto simp: max_def)
    with False Cons.IH [of m] show ?thesis by simp
  qed
qed simp

lemma brk_call:
  assumes "ignores_breaks mm" "tf_eax tf = 45"
    and "max_brk k < tf_ebx tf \<Longrightarrow> int (unat (tf_ebx tf)) - int (unat (max_brk k)) < 2 ^ 31"
  defines "b \<equiv> tf_ebx tf" and "m \<equiv> max_brk k"
  shows "do_syscall R mm tf k = (case (if m < b then seqM (mm m (int (unat b) - int (unat m))) (ret ()) else ret ()) k of
     Ret _ t \<Rightarrow> let c = if b = 0 then cur_brk k else b in Ret (tf\<lparr>tf_eax := c\<rparr>) (set_breaks c (max b m) t)
   | Err e \<Rightarrow> Err e | Jmp t \<Rightarrow> Jmp t)"
proof (cases "m < b")
  case True
  then have gt: "unat m < unat b" by (simp add: word_less_nat_alt)
  then have d: "unat (b - m) = unat b - unat m" by (simp add: unat_sub word_le_nat_alt)
  have "int (unat b) - int (unat m) < 2 ^ 31" using assms(3) True by (simp only: b_def m_def)
  then have "int (unat b - unat m) < int (2 ^ 31)" using gt by (simp add: of_nat_diff)
  then have "unat b - unat m < 2 ^ 31" by (simp only: of_nat_less_iff)
  then have "sint (b - m) = int (unat b - unat m)" using d by (subst sint_small) simp_all
  then have s: "sint (b - m) = int (unat b) - int (unat m)" using gt by (simp add: of_nat_diff)
  have "b \<noteq> 0" "max b m = b" using True by (auto simp: max_def)
  then show ?thesis using True assms(2) unfolding b_def m_def
    by (simp add: do_syscall_def sys_brk_def mm_brk_def seqM_def bindM_def run_simps s [unfolded b_def m_def] break_updates Let_def
        split: outcome.splits)
next
  case False
  then have "max b m = m" by (auto simp: max_def)
  with False assms(2) show ?thesis unfolding b_def m_def
    by (auto simp: do_syscall_def sys_brk_def mm_brk_def seqM_def bindM_def run_simps break_updates Let_def)
qed

text \<open>
  C31. The \<open>brk\<close> system calls and the heap behind them. Any sequence of break requests does to the kernel exactly
  what allocating the blocks between the successive largest breaks does, in this order, and then setting the two break
  variables; it fails exactly if one of the allocations fails, and otherwise every call returns the requested break, or the
  current one for a request of 0. The blocks requested from \<open>mm_malloc\<close> follow one another without gap or overlap from the
  old largest break to the new one, shrinking and growing again included. Each block is below two gigabytes.
\<close>

theorem breaks_request_the_heap:
  assumes "ignores_breaks mm" "\<forall>tf\<in>set tfs. tf_eax tf = 45"
    and "\<forall>(a, n)\<in>set (heap_blocks (max_brk k) (map tf_ebx tfs)). n < 2 ^ 31"
  defines "bs \<equiv> map tf_ebx tfs"
  shows "brk_calls R mm tfs k = (case allocate mm (heap_blocks (max_brk k) bs) k of
      Ret _ t \<Rightarrow> Ret (breaks (cur_brk k) bs) (set_breaks (last (cur_brk k # breaks (cur_brk k) bs)) (fold max bs (max_brk k)) t)
    | Err e \<Rightarrow> Err e | Jmp t \<Rightarrow> Jmp t) \<and>
    concat (map (\<lambda>(a, n). [unat a..<unat a + nat n]) (heap_blocks (max_brk k) bs)) = [unat (max_brk k)..<unat (fold max bs (max_brk k))]"
proof
  show "concat (map (\<lambda>(a, n). [unat a..<unat a + nat n]) (heap_blocks (max_brk k) bs)) = [unat (max_brk k)..<unat (fold max bs (max_brk k))]"
    using heap_blocks_cover by blast
  show "brk_calls R mm tfs k = (case allocate mm (heap_blocks (max_brk k) bs) k of
      Ret _ t \<Rightarrow> Ret (breaks (cur_brk k) bs) (set_breaks (last (cur_brk k # breaks (cur_brk k) bs)) (fold max bs (max_brk k)) t)
    | Err e \<Rightarrow> Err e | Jmp t \<Rightarrow> Jmp t)"
    using assms(2,3) unfolding bs_def
  proof (induction tfs arbitrary: k)
    case Nil
    show ?case by (simp add: allocate_def run_simps)
  next
    case (Cons tf tfs)
    let ?b = "tf_ebx tf" and ?m = "max_brk k" and ?bs = "map tf_ebx tfs"
    let ?c = "if ?b = 0 then cur_brk k else ?b"
    have last: "last (cur_brk k # breaks (cur_brk k) (?b # ?bs)) = last (?c # breaks ?c ?bs)" by simp
    have call: "do_syscall R mm tf k = (case (if ?m < ?b then seqM (mm ?m (int (unat ?b) - int (unat ?m))) (ret ()) else ret ()) k of
       Ret _ t \<Rightarrow> let c = ?c in Ret (tf\<lparr>tf_eax := c\<rparr>) (set_breaks c (max ?b ?m) t) | Err e \<Rightarrow> Err e | Jmp t \<Rightarrow> Jmp t)"
      by (rule brk_call [OF assms(1)]) (use Cons.prems in auto)
    have blocks: "heap_blocks ?m (?b # ?bs) = (if ?m < ?b then (?m, int (unat ?b) - int (unat ?m)) # heap_blocks (max ?b ?m) ?bs
        else heap_blocks (max ?b ?m) ?bs)" by (auto simp: max_def)
    have small: "\<forall>(a, n)\<in>set (heap_blocks (max ?b ?m) ?bs). n < 2 ^ 31" using Cons.prems(2) blocks by (auto split: if_splits)
    have rest: "brk_calls R mm tfs (set_breaks ?c (max ?b ?m) t) = (case allocate mm (heap_blocks (max ?b ?m) ?bs) t of
        Ret _ u \<Rightarrow> Ret (breaks ?c ?bs) (set_breaks (last (?c # breaks ?c ?bs)) (fold max ?bs (max ?b ?m)) u)
      | Err e \<Rightarrow> Err e | Jmp u \<Rightarrow> Err AssertFail)" for t
      using Cons.IH [of "set_breaks ?c (max ?b ?m) t"] Cons.prems(1) small
      by (simp add: allocate_breaks [OF assms(1)] split: outcome.splits del: last.simps)
    have nj: "allocate mm rs t \<noteq> Jmp u" for rs t u
      using allocate_breaks [OF assms(1), of rs "cur_brk t" "max_brk t" t] by (auto split: outcome.splits)
    show ?case
    proof (cases "?m < ?b")
      case True
      let ?n = "int (unat ?b) - int (unat ?m)"
      have more: "allocate mm (heap_blocks ?m (?b # ?bs)) k = bindM (seqM (mm ?m ?n) (ret ())) (\<lambda>_. allocate mm (heap_blocks (max ?b ?m) ?bs)) k"
        unfolding blocks using True by (simp add: allocate_def seqM_def)
      show ?thesis
      proof (cases "seqM (mm ?m ?n) (ret ()) k")
        case (Ret x t)
        then have "allocate mm (heap_blocks ?m (?b # ?bs)) k = allocate mm (heap_blocks (max ?b ?m) ?bs) t"
          unfolding more by simp
        with Ret True show ?thesis unfolding list.map last using rest [of t] nj
          by (simp add: call bindM_def Let_def split: outcome.splits del: last.simps heap_blocks.simps)
      next
        case (Jmp t)
        then show ?thesis using ignores_breaksD(2) [OF assms(1)] by (auto simp: seqM_def bindM_def split: outcome.splits)
      next
        case (Err e)
        then have "allocate mm (heap_blocks ?m (?b # ?bs)) k = Err e" unfolding more by (simp add: bindM_def)
        with Err True show ?thesis unfolding list.map by (simp add: call bindM_def del: heap_blocks.simps)
      qed
    next
      case False
      then show ?thesis unfolding list.map last blocks using rest [of k] nj
        by (simp add: call bindM_def run_simps Let_def split: outcome.splits del: last.simps)
    qed
  qed
qed

text \<open>An allocator that marks the granted addresses and has 1 MiB to give.\<close>

definition marking_malloc :: allocator where
  "marking_malloc a n k = (if 0x100000 < n then Err AssertFail
     else Ret 0 (k\<lparr>ram := (\<lambda>x. if unat a \<le> unat x \<and> unat x < unat a + nat n then 1 else ram k x)\<rparr>))"

theorem breaks_request_the_heap_witness:
  "\<exists>t. brk_calls \<lparr>at_ide_writeback = 1, at_ide_intr = 2, user_routine = (\<lambda>_. ret ()), poll_fuel = 0\<rparr> marking_malloc
      (map (\<lambda>b. (frame_of 0x80)\<lparr>tf_eax := 45, tf_ebx := b\<rparr>) [0x8001000, 0x8000800, 0, 0x8003000])
      ((cold_kernel (fresh_buffer []))\<lparr>max_brk := 0x8000000, cur_brk := 0x8000000\<rparr>) =
    Ret [0x8001000, 0x8000800, 0x8000800, 0x8003000] t \<and> max_brk t = 0x8003000 \<and> cur_brk t = 0x8003000"
proof -
  let ?tfs = "map (\<lambda>b. (frame_of 0x80)\<lparr>tf_eax := 45, tf_ebx := b\<rparr>) [0x8001000, 0x8000800, 0, 0x8003000]"
  let ?k = "(cold_kernel (fresh_buffer []))\<lparr>max_brk := 0x8000000, cur_brk := 0x8000000\<rparr>"
  have bs: "map tf_ebx ?tfs = [0x8001000, 0x8000800, 0, 0x8003000]" by simp
  have mk: "max_brk ?k = 0x8000000" "cur_brk ?k = 0x8000000" by simp_all
  have blocks: "heap_blocks 0x8000000 [0x8001000, 0x8000800, 0, 0x8003000] = [(0x8000000, 0x1000), (0x8001000, 0x2000)]" by simp
  have vals: "breaks 0x8000000 [0x8001000, 0x8000800, 0, 0x8003000] = [0x8001000, 0x8000800, 0x8000800, 0x8003000]"
    "fold max [0x8001000, 0x8000800, 0, 0x8003000] (0x8000000 :: u32) = 0x8003000" by (simp_all add: max_def)
  have ign: "ignores_breaks marking_malloc"
    by (simp add: ignores_breaks_def marking_malloc_def set_breaks_def cong: if_cong)
  have "\<exists>t. allocate marking_malloc [(0x8000000, 0x1000), (0x8001000, 0x2000)] k = Ret () t" for k
    by (simp add: allocate_def marking_malloc_def seqM_def bindM_def)
  then obtain t where t: "allocate marking_malloc [(0x8000000, 0x1000), (0x8001000, 0x2000)] ?k = Ret () t" by blast
  have brk: "\<forall>tf\<in>set ?tfs. tf_eax tf = 45" "\<forall>(a, n)\<in>set [(0x8000000 :: u32, 0x1000), (0x8001000, 0x2000)]. n < (2 ^ 31 :: int)" by simp_all
  have end_brk: "last (0x8000000 # [0x8001000, 0x8000800, 0x8000800, 0x8003000]) = (0x8003000 :: u32)" by simp
  note run = conjunct1 [OF breaks_request_the_heap [OF ign brk(1), of ?k, unfolded bs mk blocks vals, OF brk(2)]]
  show ?thesis
    by (rule exI [of _ "set_breaks 0x8003000 0x8003000 t"], unfold run t outcome.case end_brk) (simp only: set_breaks_simps simp_thms)
qed

end
