(* ===== verification/Kernel_Boot.thy ===== *)
theory Kernel_Boot
  imports Kernel_Props Kernel_Memory
begin

unbundle bit_operations_syntax

text \<open>
  Start-up of the kernel (kernel/src/main.c from \<open>init_cond\<close> on), the program loader
  (kernel/src/elf/elf.c), the video memory tests (kernel/src/memory/vmem.c) and the RAM disk
  (kernel/src/driver/ramdisk.c). \<open>ram\<close> is one address space: that the switch of CR3 keeps the frame buffer
  where the tests touch it is a property of the page tables, proved elsewhere; the mapping that \<open>mm_malloc\<close> makes
  for the program has no source. Configuration as in kernel/include/common.h: paging, interrupts and
  devices on.
\<close>

section \<open>RAM disk and video memory tests\<close>

abbreviation (input) RAMDISK_SIZE :: u32 where "RAMDISK_SIZE \<equiv> 0xa0000"

definition ram_read :: "u32 \<Rightarrow> nat \<Rightarrow> kernel \<Rightarrow> u8 list" where
  "ram_read a n k = map (\<lambda>i. ram k (a + of_nat i)) [0..<n]"

text \<open>\<open>memcpy\<close> of the bytes \<open>bs\<close> to address \<open>a\<close>.\<close>

definition ram_write :: "u32 \<Rightarrow> u8 list \<Rightarrow> (kernel, unit) M" where
  "ram_write a bs = modM (\<lambda>k. k\<lparr>ram := (\<lambda>x. if unat (x - a) < length bs then bs ! unat (x - a) else ram k x)\<rparr>)"

definition ramdisk_read :: "u32 \<Rightarrow> u32 \<Rightarrow> (kernel, u8 list) M" where
  "ramdisk_read offset len = seqM (assertM (offset + len < RAMDISK_SIZE)) (getM (ram_read offset (unat len)))"

definition ramdisk_write :: "u8 list \<Rightarrow> u32 \<Rightarrow> u32 \<Rightarrow> (kernel, unit) M" where
  "ramdisk_write bs offset len = seqM (assertM (offset + len < RAMDISK_SIZE)) (ram_write offset (take (unat len) bs))"

definition ram_long :: "u32 \<Rightarrow> kernel \<Rightarrow> u32" where
  "ram_long a k = le32 (\<lambda>i. ram k (a + of_nat i))"

definition video_mapping_write_test :: "(kernel, unit) M" where
  "video_mapping_write_test = forM [0..<SCR_SIZE div 4] (\<lambda>i.
     ram_write (VMEM_ADDR + of_nat (4 * i)) (map (\<lambda>j. byte_at j (of_nat i)) [0..<4]))"

definition video_mapping_read_test :: "(kernel, unit) M" where
  "video_mapping_read_test = forM [0..<SCR_SIZE div 4] (\<lambda>i.
     bindM (getM (ram_long (VMEM_ADDR + of_nat (4 * i)))) (\<lambda>v. assertM (v = of_nat i)))"

definition video_mapping_clear :: "(kernel, unit) M" where
  "video_mapping_clear = ram_write VMEM_ADDR (replicate SCR_SIZE 0)"

section \<open>Loader\<close>

text \<open>The fields of the headers, read from the 4096 bytes of the stack buffer \<open>buf\<close>.\<close>

definition buf_field :: "u8 list \<Rightarrow> nat \<Rightarrow> nat \<Rightarrow> (kernel, u32) M" where
  "buf_field hdr off n =
     (if off + n \<le> length hdr then ret (le32 (\<lambda>i. if i < n then hdr ! (off + i) else 0)) else fail OutOfBounds)"

abbreviation (input) PT_LOAD :: u32 where "PT_LOAD \<equiv> 1"
abbreviation (input) STACK_SIZE :: u32 where "STACK_SIZE \<equiv> 0x100000"

text \<open>One program header at offset \<open>ph\<close>: the body of the loop.\<close>

definition load_one :: "routines \<Rightarrow> allocator \<Rightarrow> u8 list \<Rightarrow> nat \<Rightarrow> (kernel, unit) M" where
  "load_one R mm_malloc hdr ph =
     bindM (buf_field hdr ph 4) (\<lambda>p_type. whenM (p_type = PT_LOAD)
       (bindM (buf_field hdr (ph + 8) 4) (\<lambda>p_vaddr.
        bindM (buf_field hdr (ph + 20) 4) (\<lambda>p_memsz.
        bindM (mm_malloc p_vaddr (sint p_memsz)) (\<lambda>addr.
        bindM (buf_field hdr (ph + 4) 4) (\<lambda>p_offset.
        bindM (buf_field hdr (ph + 16) 4) (\<lambda>p_filesz.
        seqM (bindM (on_io (file_read (poll_fuel R) (0 + p_offset) p_filesz)) (ram_write addr))
       (seqM (ram_write (addr + p_filesz) (replicate (unat (p_memsz - p_filesz)) 0))
             (let new_brk = p_vaddr + p_memsz - 1 in
              modM (\<lambda>k. if cur_brk k < new_brk then k\<lparr>cur_brk := new_brk, max_brk := new_brk\<rparr> else k))))))))))"

text \<open>The loop advances \<open>ph\<close> by the loop variable.\<close>

fun load_segments :: "routines \<Rightarrow> allocator \<Rightarrow> u8 list \<Rightarrow> nat \<Rightarrow> nat \<Rightarrow> nat \<Rightarrow> (kernel, unit) M" where
  "load_segments R mm_malloc hdr loop_var 0 ph = ret ()"
| "load_segments R mm_malloc hdr loop_var (Suc n) ph =
     (let ph = ph + 32 * loop_var in
      seqM (load_one R mm_malloc hdr ph) (load_segments R mm_malloc hdr (loop_var + 1) n ph))"

definition loader :: "routines \<Rightarrow> allocator \<Rightarrow> u32 \<Rightarrow> u32 \<Rightarrow> u32 \<Rightarrow> (kernel, u32) M" where
  "loader R mm_malloc updir table ucr3 =
     bindM (on_io (file_read (poll_fuel R) 0 4096)) (\<lambda>hdr.
     bindM (buf_field hdr 0 4) (\<lambda>magic.
     seqM (assertM (magic = 0x464c457f))
    (bindM (buf_field hdr 28 4) (\<lambda>e_phoff.
     bindM (buf_field hdr 44 2) (\<lambda>e_phnum.
     seqM (load_segments R mm_malloc hdr 0 (unat e_phnum) (unat e_phoff))
    (bindM (buf_field hdr 24 4) (\<lambda>e_entry.
     seqM (seqM (mm_malloc (KOFFSET - STACK_SIZE) (sint STACK_SIZE)) (ret ()))
    (seqM (modM (\<lambda>k. k\<lparr>phys := create_video_mapping updir table (phys k)\<rparr>))
    (seqM (modM (\<lambda>k. k\<lparr>cr3_reg := ucr3\<rparr>))
          (ret e_entry))))))))))"

section \<open>Start-up\<close>

text \<open>
  \<open>init_cond\<close> up to the call of the loaded program, whose entry is the result. \<open>hello\<close> is the
  formatted message of \<open>Log\<close>; the tables of \<open>init_segment\<close> and \<open>init_idt\<close> are at \<open>gdt\<close> and \<open>idt\<close>.
\<close>

definition init_cond :: "routines \<Rightarrow> allocator \<Rightarrow> entry_points \<Rightarrow> nat \<Rightarrow> nat \<Rightarrow> u32 \<Rightarrow> u32 \<Rightarrow> u32 \<Rightarrow> u8 list \<Rightarrow> (kernel, u32) M" where
  "init_cond R mm_malloc E gdt idt kpdir updir table hello =
     seqM (modM (\<lambda>k. k\<lparr>phys := init_segment gdt (phys k)\<rparr>))
    (seqM (modM (\<lambda>k. k\<lparr>phys := init_idt E idt (phys k)\<rparr>))
    (seqM (on_io (on_dev init_i8259))
    (seqM (on_io (on_dev kernel_init_serial))
    (seqM (kernel_init_ide R)
    (seqM kernel_sti
    (bindM (getM (\<lambda>k. init_mm updir kpdir (phys k))) (\<lambda>(m, ucr3).
     seqM (modM (\<lambda>k. k\<lparr>phys := m\<rparr>))
    (seqM (on_io (on_dev (printk (poll_fuel R) hello)))
    (seqM video_mapping_write_test
    (bindM (loader R mm_malloc updir table ucr3) (\<lambda>eip.
     seqM video_mapping_read_test
    (seqM video_mapping_clear (ret eip)))))))))))))"

section \<open>Properties of the loader\<close>

text \<open>
  Which program headers the loader visits: because the loop adds the loop variable to a pointer that has already moved,
  it loads the headers with the indices 0, 1, 3, 6, 10, ..., and never the one with index 2.
\<close>

lemma loader_visits_triangular_indices:
  "load_segments R mm_malloc hdr 0 n ph = forM (map (\<lambda>j. ph + 32 * (j * (j + 1) div 2)) [0..<n]) (load_one R mm_malloc hdr) \<and>
   2 \<notin> set (map (\<lambda>j. j * (j + 1) div 2) [0..<n])"
proof
  have tri: "j * (j + 1) div 2 + Suc j = Suc j * (Suc j + 1) div 2" for j :: nat
  proof -
    have "Suc j * (Suc j + 1) = j * (j + 1) + Suc j * 2" by (simp add: algebra_simps)
    then show ?thesis by simp
  qed
  have "load_segments R mm_malloc hdr i m (ph + 32 * (i * (i + 1) div 2 - i)) =
    forM (map (\<lambda>j. ph + 32 * (j * (j + 1) div 2)) [i..<i + m]) (load_one R mm_malloc hdr)" for i m
  proof (induction m arbitrary: i)
    case (Suc m)
    have le: "i \<le> i * (i + 1) div 2" by (induction i) (simp_all flip: tri)
    have here: "ph + 32 * (i * (i + 1) div 2 - i) + 32 * i = ph + 32 * (i * (i + 1) div 2)"
      using le by (simp add: diff_mult_distrib2)
    have there: "ph + 32 * (i * (i + 1) div 2) = ph + 32 * (Suc i * (Suc i + 1) div 2 - Suc i)"
      using tri [of i] by simp
    have list: "[i..<i + Suc m] = i # [Suc i..<Suc i + m]" by (simp add: upt_conv_Cons)
    have "load_segments R mm_malloc hdr (Suc i) m (ph + 32 * (i * (i + 1) div 2)) =
      forM (map (\<lambda>j. ph + 32 * (j * (j + 1) div 2)) [Suc i..<Suc i + m]) (load_one R mm_malloc hdr)"
      unfolding there by (rule Suc.IH)
    then show ?case unfolding list load_segments.simps Let_def here by simp
  qed simp
  from this [of 0 n] show "load_segments R mm_malloc hdr 0 n ph =
      forM (map (\<lambda>j. ph + 32 * (j * (j + 1) div 2)) [0..<n]) (load_one R mm_malloc hdr)" by simp
  have "j * (j + 1) div 2 \<noteq> 2" for j :: nat
  proof (cases "j < 2")
    case True
    then have "j = 0 \<or> j = 1" by linarith
    then show ?thesis by auto
  next
    case False
    then have "2 * 3 \<le> j * (j + 1)" by (intro mult_le_mono) simp_all
    then show ?thesis by linarith
  qed
  then show "2 \<notin> set (map (\<lambda>j. j * (j + 1) div 2) [0..<n])" by auto
qed

definition header_word :: "u8 list \<Rightarrow> nat \<Rightarrow> u32" where
  "header_word hdr off = le32 (\<lambda>i. hdr ! (off + i))"

lemma run_buf_field: "off + 4 \<le> length hdr \<Longrightarrow> buf_field hdr off 4 k = Ret (header_word hdr off) k"
  by (simp add: buf_field_def header_word_def le32_def)

lemma wp_buf_field: "off + 4 \<le> length hdr \<Longrightarrow> Q (header_word hdr off) k \<Longrightarrow> wp (buf_field hdr off 4) Q k"
  by (rule wp_RetI [OF run_buf_field])

text \<open>
  C29. Loading one segment: the bytes of the file from the segment's offset on, read through the sector buffer and the emulated
  disk, end up at the address the allocator returned, the rest of the segment's memory is zero, all other memory is as the
  allocator left it, and the program break moves up to the last byte of the segment if it was below.
\<close>

theorem segment_is_loaded:
  assumes hdr: "ph + 32 \<le> length hdr" "header_word hdr ph = 1"
    and sizes: "filesz = header_word hdr (ph + 16)" "memsz = header_word hdr (ph + 20)" "filesz \<le> memsz"
      "unat addr + unat memsz \<le> 2 ^ 32"
    and malloc: "mm_malloc (header_word hdr (ph + 8)) (sint memsz) k = Ret addr k1" "io k1 = io k"
    and disk: "ide_disk.buf_inv n (io k)" "unat (header_word hdr (ph + 4)) + unat filesz \<le> 512 * n"
  shows "wp (load_one R mm_malloc hdr ph) (\<lambda>_ t. ide_disk.buf_inv n (io t) \<and>
    (\<forall>x. ram t x = (if unat addr \<le> unat x \<and> unat x < unat addr + unat filesz
        then ide_disk.byte_of (io k) (unat (header_word hdr (ph + 4)) + (unat x - unat addr))
      else if unat addr + unat filesz \<le> unat x \<and> unat x < unat addr + unat memsz then 0 else ram k1 x)) \<and>
    cur_brk t = max (cur_brk k1) (header_word hdr (ph + 8) + memsz - 1)) k"
proof -
  let ?off = "header_word hdr (ph + 4)" and ?v = "header_word hdr (ph + 8)"
  let ?bs = "map (\<lambda>i. ide_disk.byte_of (io k) (unat ?off + i)) [0..<unat filesz]"
  have fm: "unat filesz \<le> unat memsz" using sizes(3) by (simp add: word_le_nat_alt)
  have zlen: "unat (memsz - filesz) = unat memsz - unat filesz" using fm by (simp add: unat_sub word_le_nat_alt)
  have sub: "unat (x - a) = (if unat a \<le> unat x then unat x - unat a else unat x + 2 ^ 32 - unat a)" for x a :: u32
    by (simp add: unat_sub_if_size word_size)
  have first: "unat (x - addr) < unat filesz \<longleftrightarrow> unat addr \<le> unat x \<and> unat x < unat addr + unat filesz" for x :: u32
    using sizes(4) fm unsigned_less [of addr] unfolding sub by auto
  have second: "unat (x - (addr + filesz)) < unat memsz - unat filesz \<longleftrightarrow>
      unat addr + unat filesz \<le> unat x \<and> unat x < unat addr + unat memsz" for x :: u32
  proof (cases "unat filesz < unat memsz")
    case True
    then have "unat (addr + filesz) = unat addr + unat filesz" using sizes(4) by (simp add: unat_word_ariths)
    then show ?thesis using sizes(4) True unfolding sub by auto
  qed (use fm in auto)
  let ?brk = "\<lambda>t. if cur_brk t < ?v + memsz - 1 then t\<lparr>cur_brk := ?v + memsz - 1, max_brk := ?v + memsz - 1\<rparr> else t"
  let ?post = "\<lambda>t. ide_disk.buf_inv n (io t) \<and>
    (\<forall>x. ram t x = (if unat addr \<le> unat x \<and> unat x < unat addr + unat filesz
        then ide_disk.byte_of (io k) (unat ?off + (unat x - unat addr))
      else if unat addr + unat filesz \<le> unat x \<and> unat x < unat addr + unat memsz then 0 else ram k1 x)) \<and>
    cur_brk t = max (cur_brk k1) (?v + memsz - 1)"
  have post: "wp (seqM (ram_write addr ?bs) (seqM (ram_write (addr + filesz) (replicate (unat (memsz - filesz)) 0)) (modM ?brk)))
      (\<lambda>_. ?post) (k1\<lparr>io := b\<rparr>)" if b: "ide_disk.same_bytes n (io k) b" for b
  proof -
    let ?r1 = "\<lambda>x. if unat (x - addr) < unat filesz then ?bs ! unat (x - addr) else ram k1 x"
    let ?r2 = "\<lambda>x. if unat (x - (addr + filesz)) < unat memsz - unat filesz then 0 else ?r1 x"
    have r: "?r2 x = (if unat addr \<le> unat x \<and> unat x < unat addr + unat filesz
        then ide_disk.byte_of (io k) (unat ?off + (unat x - unat addr))
      else if unat addr + unat filesz \<le> unat x \<and> unat x < unat addr + unat memsz then 0 else ram k1 x)" for x
      unfolding first second using sub [of x addr] by auto
    have brk: "?post (?brk u)" if "ram u = ?r2" "io u = b" "cur_brk u = cur_brk k1" for u
      using b r that by (auto simp: ide_disk.same_bytes_def max_def)
    show ?thesis unfolding ram_write_def wp_seqM wp_modM
      by (rule brk) (simp_all add: zlen fun_eq_iff)
  qed
  have read: "wp (on_io (file_read (poll_fuel R) ?off filesz)) (\<lambda>bs t. bs = ?bs \<and> (\<exists>b. t = k1\<lparr>io := b\<rparr> \<and> ide_disk.same_bytes n (io k) b)) k1"
    unfolding on_io_def wp_zoom malloc(2) file_read_def
    by (rule wp_mono [OF ide_disk.kernel_ide_read_spec [OF disk]]) auto
  have body: "wp (seqM (bindM (on_io (file_read (poll_fuel R) (0 + ?off) filesz)) (ram_write addr))
       (seqM (ram_write (addr + filesz) (replicate (unat (memsz - filesz)) 0)) (modM ?brk))) (\<lambda>_. ?post) k1"
    unfolding wp_seqM wp_bindM add_0_left
  proof (rule wp_mono [OF read])
    fix bs t assume a: "bs = ?bs \<and> (\<exists>b. t = k1\<lparr>io := b\<rparr> \<and> ide_disk.same_bytes n (io k) b)"
    then obtain b where b: "t = k1\<lparr>io := b\<rparr>" "ide_disk.same_bytes n (io k) b" by blast
    have bs: "bs = ?bs" using a by blast
    show "wp (ram_write addr bs) (\<lambda>_. wp (ram_write (addr + filesz) (replicate (unat (memsz - filesz)) 0))
        (\<lambda>_. wp (modM ?brk) (\<lambda>_. ?post))) t"
      unfolding b(1) bs by (rule post [OF b(2), unfolded wp_seqM])
  qed
  have alloc: "wp (mm_malloc ?v (sint memsz)) Q k" if "Q addr k1" for Q using malloc(1) that by (rule wp_RetI)
  show ?thesis unfolding load_one_def wp_bindM
    by (rule wp_buf_field, use hdr in simp, simp only: hdr(2) whenM_def if_True simp_thms wp_bindM,
        rule wp_buf_field, use hdr in simp, rule wp_buf_field, use hdr in simp,
        fold sizes(2), rule alloc, rule wp_buf_field, use hdr in simp, rule wp_buf_field, use hdr in simp,
        fold sizes(1), unfold Let_def, rule body)
qed

theorem segment_is_loaded_witness:
  "wp (load_one \<lparr>at_ide_writeback = 1, at_ide_intr = 2, user_routine = (\<lambda>_. ret ()), poll_fuel = 0\<rparr> (\<lambda>a n k. Ret a k)
      ([1, 0, 0, 0, 0, 0, 0, 0, 0, 16, 0, 0, 0, 0, 0, 0, 2, 0, 0, 0, 4, 0, 0, 0] @ replicate 8 0) 0)
     (\<lambda>_ t. ram t 0x1001 = ide_disk.byte_of (fresh_buffer (replicate 512 7)) 1 \<and> ram t 0x1003 = 0 \<and> cur_brk t = 0x1003)
     (cold_kernel (fresh_buffer (replicate 512 7)))"
proof -
  let ?R = "\<lparr>at_ide_writeback = 1, at_ide_intr = 2, user_routine = (\<lambda>_. ret ()), poll_fuel = 0\<rparr>"
  let ?h = "[1, 0, 0, 0, 0, 0, 0, 0, 0, 16, 0, 0, 0, 0, 0, 0, 2, 0, 0, 0, 4, 0, 0, 0] @ replicate 8 0 :: u8 list"
  have h: "header_word ?h 0 = 1" "header_word ?h 4 = 0" "header_word ?h 8 = 0x1000" "header_word ?h 16 = 2" "header_word ?h 20 = 4"
    by (simp_all add: header_word_def le32_def)
  have io: "io (cold_kernel (fresh_buffer (replicate 512 7))) = fresh_buffer (replicate 512 7)" by (simp add: cold_kernel_def)
  have inv: "ide_disk.buf_inv 1 (io (cold_kernel (fresh_buffer (replicate 512 7))))" unfolding io by (rule fresh_buffer_inv) simp_all
  show ?thesis
    by (rule wp_mono [OF segment_is_loaded [of 0 ?h 2 4 "0x1000", OF _ _ _ _ _ _ _ refl inv]])
      (use h in \<open>simp_all add: io, simp add: cold_kernel_def max_def\<close>)
qed

end
