(* ===== verification/Game_Video.thy ===== *)
theory Game_Video
  imports Prelude
begin

unbundle bit_operations_syntax

text \<open>
  What the games share: game/src/common/device and game/include. Drawing goes to the buffer
  \<open>vbuf\<close> of video.c, and \<open>display_buffer\<close> copies it to the frame buffer at 0xa0000. A write to a
  port is recorded in \<open>port_log\<close>, the latest first; the values that \<open>read_palette\<close> reads are only printed.
\<close>

section \<open>State\<close>

record video =
  vbuf :: "nat \<Rightarrow> u8"
  frame :: "nat \<Rightarrow> u8"
  port_log :: "(u16 \<times> u8) list"

abbreviation (input) SCR_WIDTH :: int where "SCR_WIDTH \<equiv> 320"
abbreviation (input) SCR_HEIGHT :: int where "SCR_HEIGHT \<equiv> 200"
abbreviation (input) SCR_SIZE :: nat where "SCR_SIZE \<equiv> 64000"

section \<open>Timer and palette\<close>

definition game_out_byte :: "u16 \<Rightarrow> u8 \<Rightarrow> (video, unit) M" where
  "game_out_byte p d = modM (\<lambda>s. s\<lparr>port_log := (p, d) # port_log s\<rparr>)"

definition game_init_timer :: "(video, unit) M" where
  "game_init_timer =
     (let counter = (1193182 :: nat) div 100 in
      seqM (assertM (counter < 65536))
     (seqM (game_out_byte (0x40 + 3) 0x34)
     (seqM (game_out_byte (0x40 + 0) (of_nat (counter mod 256)))
           (game_out_byte (0x40 + 0) (of_nat (counter div 256))))))"

text \<open>A palette entry has four bytes; the fourth is not used.\<close>

definition write_palette :: "(nat \<Rightarrow> nat \<Rightarrow> u8) \<Rightarrow> nat \<Rightarrow> (video, unit) M" where
  "write_palette colors n =
     seqM (game_out_byte 0x3c8 0)
       (forM [0..<n] (\<lambda>i.
         seqM (game_out_byte 0x3c9 (drop_bit 2 (colors i 0)))
        (seqM (game_out_byte 0x3c9 (drop_bit 2 (colors i 1)))
              (game_out_byte 0x3c9 (drop_bit 2 (colors i 2))))))"

section \<open>Drawing\<close>

definition prepare_buffer :: "(video, unit) M" where
  "prepare_buffer = modM (\<lambda>s. s\<lparr>vbuf := (\<lambda>i. if i < SCR_SIZE then 0 else vbuf s i)\<rparr>)"

definition display_buffer :: "(video, unit) M" where
  "display_buffer = modM (\<lambda>s. s\<lparr>frame := (\<lambda>i. if i < SCR_SIZE div 4 * 4 then vbuf s i else frame s i)\<rparr>)"

definition game_draw_pixel :: "int \<Rightarrow> int \<Rightarrow> u8 \<Rightarrow> (video, unit) M" where
  "game_draw_pixel x y color =
     seqM (assertM (0 \<le> x \<and> 0 \<le> y \<and> x < SCR_HEIGHT \<and> y < SCR_WIDTH))
       (modM (\<lambda>s. s\<lparr>vbuf := (vbuf s)(nat (push_bit 8 x + push_bit 6 x + y) := color)\<rparr>))"

text \<open>The font: eight rows of eight pixels for each of the first 128 characters.\<close>

definition font8x8_basic :: "u8 list list" where
  "font8x8_basic = [[0, 0, 0, 0, 0, 0, 0, 0],
    [0, 0, 0, 0, 0, 0, 0, 0],
    [0, 0, 0, 0, 0, 0, 0, 0],
    [0, 0, 0, 0, 0, 0, 0, 0],
    [0, 0, 0, 0, 0, 0, 0, 0],
    [0, 0, 0, 0, 0, 0, 0, 0],
    [0, 0, 0, 0, 0, 0, 0, 0],
    [0, 0, 0, 0, 0, 0, 0, 0],
    [0, 0, 0, 0, 0, 0, 0, 0],
    [0, 0, 0, 0, 0, 0, 0, 0],
    [0, 0, 0, 0, 0, 0, 0, 0],
    [0, 0, 0, 0, 0, 0, 0, 0],
    [0, 0, 0, 0, 0, 0, 0, 0],
    [0, 0, 0, 0, 0, 0, 0, 0],
    [0, 0, 0, 0, 0, 0, 0, 0],
    [0, 0, 0, 0, 0, 0, 0, 0],
    [0, 0, 0, 0, 0, 0, 0, 0],
    [0, 0, 0, 0, 0, 0, 0, 0],
    [0, 0, 0, 0, 0, 0, 0, 0],
    [0, 0, 0, 0, 0, 0, 0, 0],
    [0, 0, 0, 0, 0, 0, 0, 0],
    [0, 0, 0, 0, 0, 0, 0, 0],
    [0, 0, 0, 0, 0, 0, 0, 0],
    [0, 0, 0, 0, 0, 0, 0, 0],
    [0, 0, 0, 0, 0, 0, 0, 0],
    [0, 0, 0, 0, 0, 0, 0, 0],
    [0, 0, 0, 0, 0, 0, 0, 0],
    [0, 0, 0, 0, 0, 0, 0, 0],
    [0, 0, 0, 0, 0, 0, 0, 0],
    [0, 0, 0, 0, 0, 0, 0, 0],
    [0, 0, 0, 0, 0, 0, 0, 0],
    [0, 0, 0, 0, 0, 0, 0, 0],
    [0, 0, 0, 0, 0, 0, 0, 0],
    [24, 60, 60, 24, 24, 0, 24, 0],
    [54, 54, 0, 0, 0, 0, 0, 0],
    [54, 54, 127, 54, 127, 54, 54, 0],
    [12, 62, 3, 30, 48, 31, 12, 0],
    [0, 99, 51, 24, 12, 102, 99, 0],
    [28, 54, 28, 110, 59, 51, 110, 0],
    [6, 6, 3, 0, 0, 0, 0, 0],
    [24, 12, 6, 6, 6, 12, 24, 0],
    [6, 12, 24, 24, 24, 12, 6, 0],
    [0, 102, 60, 255, 60, 102, 0, 0],
    [0, 12, 12, 63, 12, 12, 0, 0],
    [0, 0, 0, 0, 0, 12, 12, 6],
    [0, 0, 0, 63, 0, 0, 0, 0],
    [0, 0, 0, 0, 0, 12, 12, 0],
    [96, 48, 24, 12, 6, 3, 1, 0],
    [62, 99, 115, 123, 111, 103, 62, 0],
    [12, 14, 12, 12, 12, 12, 63, 0],
    [30, 51, 48, 28, 6, 51, 63, 0],
    [30, 51, 48, 28, 48, 51, 30, 0],
    [56, 60, 54, 51, 127, 48, 120, 0],
    [63, 3, 31, 48, 48, 51, 30, 0],
    [28, 6, 3, 31, 51, 51, 30, 0],
    [63, 51, 48, 24, 12, 12, 12, 0],
    [30, 51, 51, 30, 51, 51, 30, 0],
    [30, 51, 51, 62, 48, 24, 14, 0],
    [0, 12, 12, 0, 0, 12, 12, 0],
    [0, 12, 12, 0, 0, 12, 12, 6],
    [24, 12, 6, 3, 6, 12, 24, 0],
    [0, 0, 63, 0, 0, 63, 0, 0],
    [6, 12, 24, 48, 24, 12, 6, 0],
    [30, 51, 48, 24, 12, 0, 12, 0],
    [62, 99, 123, 123, 123, 3, 30, 0],
    [12, 30, 51, 51, 63, 51, 51, 0],
    [63, 102, 102, 62, 102, 102, 63, 0],
    [60, 102, 3, 3, 3, 102, 60, 0],
    [31, 54, 102, 102, 102, 54, 31, 0],
    [127, 70, 22, 30, 22, 70, 127, 0],
    [127, 70, 22, 30, 22, 6, 15, 0],
    [60, 102, 3, 3, 115, 102, 124, 0],
    [51, 51, 51, 63, 51, 51, 51, 0],
    [30, 12, 12, 12, 12, 12, 30, 0],
    [120, 48, 48, 48, 51, 51, 30, 0],
    [103, 102, 54, 30, 54, 102, 103, 0],
    [15, 6, 6, 6, 70, 102, 127, 0],
    [99, 119, 127, 127, 107, 99, 99, 0],
    [99, 103, 111, 123, 115, 99, 99, 0],
    [28, 54, 99, 99, 99, 54, 28, 0],
    [63, 102, 102, 62, 6, 6, 15, 0],
    [30, 51, 51, 51, 59, 30, 56, 0],
    [63, 102, 102, 62, 54, 102, 103, 0],
    [30, 51, 7, 14, 56, 51, 30, 0],
    [63, 45, 12, 12, 12, 12, 30, 0],
    [51, 51, 51, 51, 51, 51, 63, 0],
    [51, 51, 51, 51, 51, 30, 12, 0],
    [99, 99, 99, 107, 127, 119, 99, 0],
    [99, 99, 54, 28, 28, 54, 99, 0],
    [51, 51, 51, 30, 12, 12, 30, 0],
    [127, 99, 49, 24, 76, 102, 127, 0],
    [30, 6, 6, 6, 6, 6, 30, 0],
    [3, 6, 12, 24, 48, 96, 64, 0],
    [30, 24, 24, 24, 24, 24, 30, 0],
    [8, 28, 54, 99, 0, 0, 0, 0],
    [0, 0, 0, 0, 0, 0, 0, 255],
    [12, 12, 24, 0, 0, 0, 0, 0],
    [0, 0, 30, 48, 62, 51, 110, 0],
    [7, 6, 6, 62, 102, 102, 59, 0],
    [0, 0, 30, 51, 3, 51, 30, 0],
    [56, 48, 48, 62, 51, 51, 110, 0],
    [0, 0, 30, 51, 63, 3, 30, 0],
    [28, 54, 6, 15, 6, 6, 15, 0],
    [0, 0, 110, 51, 51, 62, 48, 31],
    [7, 6, 54, 110, 102, 102, 103, 0],
    [12, 0, 14, 12, 12, 12, 30, 0],
    [48, 0, 48, 48, 48, 51, 51, 30],
    [7, 6, 102, 54, 30, 54, 103, 0],
    [14, 12, 12, 12, 12, 12, 30, 0],
    [0, 0, 51, 127, 127, 107, 99, 0],
    [0, 0, 31, 51, 51, 51, 51, 0],
    [0, 0, 30, 51, 51, 51, 30, 0],
    [0, 0, 59, 102, 102, 62, 6, 15],
    [0, 0, 110, 51, 51, 62, 48, 120],
    [0, 0, 59, 110, 102, 6, 15, 0],
    [0, 0, 62, 3, 30, 48, 31, 0],
    [8, 12, 62, 12, 12, 44, 24, 0],
    [0, 0, 51, 51, 51, 51, 110, 0],
    [0, 0, 51, 51, 51, 30, 12, 0],
    [0, 0, 99, 107, 127, 127, 54, 0],
    [0, 0, 99, 54, 28, 54, 99, 0],
    [0, 0, 51, 51, 51, 62, 48, 31],
    [0, 0, 63, 25, 12, 38, 63, 0],
    [56, 12, 12, 7, 12, 12, 56, 0],
    [24, 24, 24, 0, 24, 24, 24, 0],
    [7, 12, 12, 56, 12, 12, 7, 0],
    [110, 59, 0, 0, 0, 0, 0, 0],
    [0, 0, 0, 0, 0, 0, 0, 0]]"

definition draw_character :: "char \<Rightarrow> int \<Rightarrow> int \<Rightarrow> u8 \<Rightarrow> (video, unit) M" where
  "draw_character ch x y color =
     seqM (assertM (of_char ch AND (0x80 :: nat) = 0))
       (let p = font8x8_basic ! of_char ch in
        forM [0..<8] (\<lambda>i. forM [0..<8] (\<lambda>j.
          whenM (bit (p ! i) j) (game_draw_pixel (x + int i) (y + int j) color))))"

fun draw_string :: "string \<Rightarrow> int \<Rightarrow> int \<Rightarrow> u8 \<Rightarrow> (video, unit) M" where
  "draw_string [] x y color = ret ()"
| "draw_string (c # cs) x y color =
     seqM (draw_character c x y color)
       (if SCR_WIDTH \<le> y + 8 then draw_string cs (x + 8) 0 color
        else draw_string cs x (y + 8) color)"

section \<open>Drawing stays on the screen\<close>

lemma length_font: "length font8x8_basic = 128"
  by (simp add: font8x8_basic_def)

text \<open>A character cell inside the screen is drawn without a failed assertion, and only changes \<open>vbuf\<close>.\<close>

definition same_but_vbuf :: "video \<Rightarrow> video \<Rightarrow> bool" where
  "same_but_vbuf s t \<longleftrightarrow> (\<exists>b. t = s\<lparr>vbuf := b\<rparr>)"

lemma same_but_vbuf_refl [simp]: "same_but_vbuf s s"
  by (auto simp: same_but_vbuf_def intro: exI [of _ "vbuf s"])

lemma same_but_vbuf_trans: "same_but_vbuf s t \<Longrightarrow> same_but_vbuf t u \<Longrightarrow> same_but_vbuf s u"
  by (auto simp: same_but_vbuf_def)

lemma same_but_vbuf_update [simp]: "same_but_vbuf s (t\<lparr>vbuf := b\<rparr>) \<longleftrightarrow> same_but_vbuf s t"
  by (cases s, cases t) (auto simp: same_but_vbuf_def)

lemma draw_character_ok:
  assumes "0 \<le> x" "x + 7 < SCR_HEIGHT" "0 \<le> y" "y + 7 < SCR_WIDTH" "of_char ch < (128 :: nat)"
  shows "wp (draw_character ch x y color) (\<lambda>_. same_but_vbuf s) s"
proof -
  have "(of_char ch :: nat) = of_char ch AND mask 7"
    using assms(5) by (simp add: take_bit_nat_eq_self flip: take_bit_eq_mask)
  then have "of_char ch AND (0x80 :: nat) = of_char ch AND (mask 7 AND 0x80)"
    by (metis and.assoc)
  also have "(mask 7 AND 0x80 :: nat) = 0" by (simp add: mask_eq_exp_minus_1)
  finally have "of_char ch AND (0x80 :: nat) = 0" by simp
  moreover have "wp (forM [0..<8] (\<lambda>i. forM [0..<8] (\<lambda>j.
      whenM (bit (p ! i) j) (game_draw_pixel (x + int i) (y + int j) color)))) (\<lambda>_. same_but_vbuf s) s" for p :: "u8 list"
  proof (rule wp_for_upt [where I = "\<lambda>_. same_but_vbuf s"])
    fix i :: nat and t assume i: "i < 8" and t: "same_but_vbuf s t"
    show "wp (forM [0..<8] (\<lambda>j. whenM (bit (p ! i) j) (game_draw_pixel (x + int i) (y + int j) color)))
        (\<lambda>_. same_but_vbuf s) t"
    proof (rule wp_for_upt [where I = "\<lambda>_. same_but_vbuf s"])
      fix j :: nat and u assume "j < 8" "same_but_vbuf s u"
      then show "wp (whenM (bit (p ! i) j) (game_draw_pixel (x + int i) (y + int j) color)) (\<lambda>_. same_but_vbuf s) u"
        using assms i by (simp add: wp_simps game_draw_pixel_def)
    qed (use t in simp_all)
  qed simp_all
  ultimately show ?thesis by (simp add: draw_character_def wp_simps)
qed

lemma draw_string_ok:
  assumes "0 \<le> x" "x + 7 < SCR_HEIGHT" "0 \<le> y" "y + 8 * int (length cs) \<le> SCR_WIDTH"
    and "\<forall>c\<in>set cs. of_char c < (128 :: nat)"
  shows "wp (draw_string cs x y color) (\<lambda>_. same_but_vbuf s) s"
  using assms(3-5)
proof (induction cs arbitrary: y s)
  case Nil
  then show ?case by (simp add: wp_simps)
next
  case (Cons c cs)
  have rest: "wp (if SCR_WIDTH \<le> y + 8 then draw_string cs (x + 8) 0 color else draw_string cs x (y + 8) color)
      (\<lambda>_. same_but_vbuf t) t" for t
  proof (cases "cs = []")
    case False
    then have "1 \<le> length cs" by (simp add: Suc_le_eq)
    then have "y + 8 < SCR_WIDTH" using Cons.prems(2) by simp
    then show ?thesis using Cons.prems by (simp add: Cons.IH)
  qed (simp add: wp_simps)
  show ?case unfolding draw_string.simps wp_seqM
  proof (rule wp_mono [OF draw_character_ok])
    fix u t assume "same_but_vbuf s t"
    with rest [of t] show "wp (if SCR_WIDTH \<le> y + 8 then draw_string cs (x + 8) 0 color else draw_string cs x (y + 8) color)
        (\<lambda>_. same_but_vbuf s) t"
      by (rule wp_mono [OF _ same_but_vbuf_trans]) 
  qed (use Cons.prems assms(1,2) in auto)
qed

end
