(* ===== verification/Float.thy ===== *)
theory Float
  imports Prelude Complex_Main "HOL-Library.Signed_Division"
begin

unbundle bit_operations_syntax

text \<open>
  The fixed-point library of lib-common/FLOAT.h and lib-common/FLOAT: a \<open>FLOAT\<close> is a 32-bit
  integer that counts units of 1/65536. Signed arithmetic wraps around, as the compiled code does; a
  division the processor traps on and a shift by a count outside 0 to 31, which C leaves
  undefined, are error values. The part of FLOAT_vfprintf.c that patches instructions of the
  running C library is not modelled; \<open>format_FLOAT\<close>, the function it installs, is, with its
  \<open>sprintf\<close> format written out.
\<close>

section \<open>Checked C arithmetic\<close>

definition tryE :: "error + 'a \<Rightarrow> ('a \<Rightarrow> error + 'b) \<Rightarrow> error + 'b" where
  "tryE m f = (case m of Inl e \<Rightarrow> Inl e | Inr x \<Rightarrow> f x)"

lemma tryE_simps [simp]: "tryE (Inl e) f = Inl e" "tryE (Inr x) f = f x"
  by (simp_all add: tryE_def)

definition liftE :: "error + 'a \<Rightarrow> ('s, 'a) M" where
  "liftE r = (case r of Inl e \<Rightarrow> fail e | Inr x \<Rightarrow> ret x)"

definition c_div :: "u32 \<Rightarrow> u32 \<Rightarrow> error + u32" where
  "c_div a b = (if b = 0 \<or> a = 0x80000000 \<and> b = -1 then Inl DivideError
     else Inr (word_of_int (sint a sdiv sint b)))"

definition c_mod :: "u32 \<Rightarrow> u32 \<Rightarrow> error + u32" where
  "c_mod a b = (if b = 0 \<or> a = 0x80000000 \<and> b = -1 then Inl DivideError
     else Inr (word_of_int (sint a smod sint b)))"

definition c_shl :: "u32 \<Rightarrow> int \<Rightarrow> error + u32" where
  "c_shl k n = (if 0 \<le> n \<and> n < 32 then Inr (push_bit (nat n) k) else Inl Undefined)"

definition c_sar :: "u32 \<Rightarrow> int \<Rightarrow> error + u32" where
  "c_sar k n = (if 0 \<le> n \<and> n < 32 then Inr (signed_drop_bit (nat n) k) else Inl Undefined)"

section \<open>The operations of FLOAT.h and FLOAT.c\<close>

definition F2int :: "u32 \<Rightarrow> u32" where
  "F2int a = signed_drop_bit 16 (a AND 0xffff0000)"

definition int2F :: "u32 \<Rightarrow> u32" where
  "int2F a = push_bit 16 a"

definition F_mul_int :: "u32 \<Rightarrow> u32 \<Rightarrow> u32" where
  "F_mul_int a b = a * b"

definition F_div_int :: "u32 \<Rightarrow> u32 \<Rightarrow> error + u32" where
  "F_div_int a b = c_div a b"

definition F_mul_F :: "u32 \<Rightarrow> u32 \<Rightarrow> u32" where
  "F_mul_F a b = (let c = (scast a :: u64) * scast b in ucast (signed_drop_bit 16 c))"

text \<open>The sixteen rounds of shift and subtract that append the binary places of the quotient.\<close>

primrec div_rounds :: "nat \<Rightarrow> u32 \<Rightarrow> u32 \<times> u32 \<Rightarrow> u32 \<times> u32" where
  "div_rounds 0 b ar = ar"
| "div_rounds (Suc n) b ar =
     (let (a, res) = ar; a = push_bit 1 a; res = push_bit 1 res in
      div_rounds n b (if b \<le>s a then (a - b, res + 1) else (a, res)))"

definition F_div_F :: "u32 \<Rightarrow> u32 \<Rightarrow> error + u32" where
  "F_div_F a b =
     (let (sign, a) = (if a <s 0 then (- 1, - a) else (1, a));
          (sign, b) = (if b <s 0 then (- sign, - b) else (sign, b)) in
      tryE (c_div a b) (\<lambda>res. tryE (c_mod a b) (\<lambda>a.
        let (a, res) = div_rounds 16 b (a, res) in Inr (res * sign))))"

text \<open>The argument of \<open>f2F\<close> is the bit pattern of an IEEE single-precision number.\<close>

definition f2F :: "u32 \<Rightarrow> error + u32" where
  "f2F b =
     (let sign = signed_drop_bit 31 b;
          exp = sint (signed_drop_bit 23 b AND 0xff);
          k = b AND 0x7fffff;
          k = (if exp \<noteq> 0 then k + push_bit 23 1 else k);
          exp = exp - 150 in
      tryE (if exp < - 16 then c_sar k (- 16 - exp) else Inr k) (\<lambda>k.
      tryE (if - 16 < exp then c_shl k (exp + 16) else Inr k) (\<lambda>k.
        Inr (if sign = 0 then k else - k))))"

definition Fabs :: "u32 \<Rightarrow> u32" where
  "Fabs a = (if a <s 0 then - a else a)"

text \<open>
  One round of the Newton loops of \<open>sqrt\<close> and \<open>pow\<close>: the new \<open>t\<close> and whether to go on.
  \<open>0x38d1b717\<close> is the single-precision number nearest to 1e-4. The loops need not end, so
  they are partial functions; \<open>pow\<close> ignores its exponent and computes the cube root.
\<close>

definition sqrt_round :: "u32 \<Rightarrow> u32 \<Rightarrow> error + u32 \<times> bool" where
  "sqrt_round x t =
     tryE (F_div_F x t) (\<lambda>q. tryE (F_div_int (q - t) 2) (\<lambda>dt.
     tryE (f2F 0x38d1b717) (\<lambda>eps. Inr (t + dt, eps <s Fabs dt))))"

definition pow_round :: "u32 \<Rightarrow> u32 \<Rightarrow> error + u32 \<times> bool" where
  "pow_round x t =
     tryE (F_div_F x (F_mul_F t t)) (\<lambda>q. tryE (c_div (q - t) 3) (\<lambda>dt.
     tryE (f2F 0x38d1b717) (\<lambda>eps. Inr (t + dt, eps <s Fabs dt))))"

partial_function (option) newton :: "(u32 \<Rightarrow> error + u32 \<times> bool) \<Rightarrow> u32 \<Rightarrow> (error + u32) option" where
  "newton step t = (case step t of Inl e \<Rightarrow> Some (Inl e)
     | Inr (t, more) \<Rightarrow> if more then newton step t else Some (Inr t))"

declare newton.simps [code]

definition sqrt_F :: "u32 \<Rightarrow> (error + u32) option" where
  "sqrt_F x = newton (sqrt_round x) (int2F 2)"

definition pow_F :: "u32 \<Rightarrow> u32 \<Rightarrow> (error + u32) option" where
  "pow_F x y = newton (pow_round x) (int2F 2)"

section \<open>Formatting\<close>

definition digit :: "nat \<Rightarrow> char" where
  "digit n = char_of (48 + n)"

fun decimal :: "nat \<Rightarrow> string" where
  "decimal n = (if n < 10 then [digit n] else decimal (n div 10) @ [digit (n mod 10)])"

declare decimal.simps [simp del]

text \<open>The conversion \<open>%06llu\<close>.\<close>

definition zero_padded :: "nat \<Rightarrow> nat \<Rightarrow> string" where
  "zero_padded w n = replicate (w - length (decimal n)) (CHR ''0'') @ decimal n"

text \<open>The text that \<open>format_FLOAT\<close> hands to \<open>__stdio_fwrite\<close>.\<close>

definition format_FLOAT :: "u32 \<Rightarrow> string" where
  "format_FLOAT f =
     (let sign = f AND 0x80000000;
          f = (if sign = 1 then NOT f + 1 else f);
          round = (ucast (signed_drop_bit 16 f) :: u16);
          dec = (unat (f AND 0xffff) * 1000000) div 65536 in
      (if sign = 0 then '''' else ''-'') @ decimal (unat round) @ ''.'' @ zero_padded 6 dec)"

end
