(* ===== verification/Typing.thy ===== *)
theory Typing
  imports Game_Video Float
begin

unbundle bit_operations_syntax

text \<open>
  The typing game: game/src/typing with the list of game/include/adt/linklist.h. The
  pool of letters is an array of 1001 nodes, and a pointer is \<open>None\<close> for \<open>NULL\<close> or the index of a node.
  Interrupts come in batches: \<open>arrivals i\<close> is the batch that the processor takes the
  \<open>i\<close>-th time it can take any, at a \<open>hlt\<close> or when interrupts are switched on again. The values
  of \<open>rand\<close> are a parameter too; as the C standard has it, they are between 0 and \<open>RAND_MAX\<close>.
\<close>

section \<open>State\<close>

record fly =
  fly_x :: u32
  fly_y :: int
  fly_text :: int
  fly_v :: u32
  fly_prev :: "nat option"
  fly_next :: "nat option"

datatype event = Timer_event | Keyboard_event u8

record game =
  fly_pool :: "nat \<Rightarrow> fly"
  fly_free_head :: "nat option"
  letters_head :: "nat option"
  hit :: u32
  miss :: u32
  letter_pressed :: "nat \<Rightarrow> bool"
  key_code :: u8
  tick :: u32
  real_fps :: int
  interrupts_on :: bool
  arrivals :: "nat \<Rightarrow> event list"
  arrival_pos :: nat
  game_rand :: "nat \<Rightarrow> nat"
  game_rand_pos :: nat
  video :: video

abbreviation (input) POOL_SIZE :: nat where "POOL_SIZE \<equiv> 1000"

definition on_video :: "(video, 'a) M \<Rightarrow> (game, 'a) M" where
  "on_video = zoom video (\<lambda>v s. s\<lparr>video := v\<rparr>)"

definition rand :: "(game, int) M" where
  "rand = bindM (getM (\<lambda>s. game_rand s (game_rand_pos s))) (\<lambda>r.
     seqM (modM (\<lambda>s. s\<lparr>game_rand_pos := Suc (game_rand_pos s)\<rparr>)) (ret (int (r mod 2 ^ 31))))"

section \<open>The linked list\<close>

text \<open>Reading and writing a node through a pointer.\<close>

definition the_node :: "nat option \<Rightarrow> (game, nat) M" where
  "the_node p = (case p of None \<Rightarrow> fail NullDeref | Some i \<Rightarrow> ret i)"

definition set_fly :: "nat \<Rightarrow> (fly \<Rightarrow> fly) \<Rightarrow> game \<Rightarrow> game" where
  "set_fly i f s = s\<lparr>fly_pool := (fly_pool s)(i := f (fly_pool s i))\<rparr>"

definition link_pool :: "game \<Rightarrow> game" where
  "link_pool s = s\<lparr>fly_pool := (\<lambda>i. if i < POOL_SIZE then (fly_pool s i)\<lparr>fly_next := Some (Suc i)\<rparr> else fly_pool s i)\<rparr>"

definition fly_new :: "(game, nat) M" where
  "fly_new =
     bindM (getM fly_free_head) (\<lambda>h.
     bindM (case h of None \<Rightarrow> seqM (modM link_pool) (ret 0) | Some f \<Rightarrow> ret f) (\<lambda>f.
     bindM (getM (\<lambda>s. fly_next (fly_pool s f))) (\<lambda>n.
     seqM (assertM (n \<noteq> None))
    (seqM (modM (\<lambda>s. s\<lparr>fly_free_head := n\<rparr>))
    (seqM (modM (set_fly f (\<lambda>l. l\<lparr>fly_prev := None, fly_next := None\<rparr>)))
          (ret f))))))"

definition fly_insert :: "nat option \<Rightarrow> nat option \<Rightarrow> nat \<Rightarrow> (game, unit) M" where
  "fly_insert p n obj =
     seqM (assertM (p \<noteq> None \<or> n \<noteq> None))
    (seqM (modM (set_fly obj (\<lambda>l. l\<lparr>fly_prev := p\<rparr>)))
    (seqM (modM (set_fly obj (\<lambda>l. l\<lparr>fly_next := n\<rparr>)))
    (seqM (case p of Some i \<Rightarrow> modM (set_fly i (\<lambda>l. l\<lparr>fly_next := Some obj\<rparr>)) | None \<Rightarrow> ret ())
          (case n of Some i \<Rightarrow> modM (set_fly i (\<lambda>l. l\<lparr>fly_prev := Some obj\<rparr>)) | None \<Rightarrow> ret ()))))"

definition fly_remove :: "nat \<Rightarrow> (game, unit) M" where
  "fly_remove node =
     bindM (getM (\<lambda>s. fly_prev (fly_pool s node))) (\<lambda>p.
     bindM (getM (\<lambda>s. fly_next (fly_pool s node))) (\<lambda>n.
     seqM (case p of Some i \<Rightarrow> modM (set_fly i (\<lambda>l. l\<lparr>fly_next := n\<rparr>)) | None \<Rightarrow> ret ())
          (case n of Some i \<Rightarrow> modM (set_fly i (\<lambda>l. l\<lparr>fly_prev := p\<rparr>)) | None \<Rightarrow> ret ())))"

definition fly_free :: "nat \<Rightarrow> (game, unit) M" where
  "fly_free node =
     seqM (modM (\<lambda>s. set_fly node (\<lambda>l. l\<lparr>fly_next := fly_free_head s\<rparr>) s))
          (modM (\<lambda>s. s\<lparr>fly_free_head := Some node\<rparr>))"

section \<open>Keyboard\<close>

definition letter_code :: "u8 list" where
  "letter_code = [
     30, 48, 46, 32, 18, 33, 34, 35, 23, 36,
     37, 38, 50, 49, 24, 25, 16, 19, 31, 20,
     22, 47, 17, 45, 21, 44]"

definition press_key :: "u8 \<Rightarrow> (game, unit) M" where
  "press_key scan_code = forM [0..<26] (\<lambda>i.
     whenM (letter_code ! i = scan_code) (modM (\<lambda>s. s\<lparr>letter_pressed := (letter_pressed s)(i := True)\<rparr>)))"

definition release_key :: "int \<Rightarrow> (game, unit) M" where
  "release_key index = seqM (assertM (0 \<le> index \<and> index < 26))
     (modM (\<lambda>s. s\<lparr>letter_pressed := (letter_pressed s)(nat index := False)\<rparr>))"

definition query_key :: "int \<Rightarrow> (game, bool) M" where
  "query_key index = seqM (assertM (0 \<le> index \<and> index < 26)) (getM (\<lambda>s. letter_pressed s (nat index)))"

text \<open>\<open>code\<close> is the byte that \<open>in_byte(0x60)\<close> returns.\<close>

definition keyboard_event :: "u8 \<Rightarrow> (game, unit) M" where
  "keyboard_event code = seqM (modM (\<lambda>s. s\<lparr>key_code := code\<rparr>)) (press_key code)"

definition timer_event :: "(game, unit) M" where
  "timer_event = modM (\<lambda>s. s\<lparr>tick := tick s + 1\<rparr>)"

section \<open>Interrupts\<close>

definition handle_event :: "event \<Rightarrow> (game, unit) M" where
  "handle_event e = (case e of Timer_event \<Rightarrow> timer_event | Keyboard_event c \<Rightarrow> keyboard_event c)"

definition take_interrupts :: "(game, unit) M" where
  "take_interrupts =
     bindM (getM (\<lambda>s. arrivals s (arrival_pos s))) (\<lambda>es.
     seqM (modM (\<lambda>s. s\<lparr>arrival_pos := Suc (arrival_pos s)\<rparr>)) (forM es handle_event))"

definition game_cli :: "(game, unit) M" where
  "game_cli = modM (\<lambda>s. s\<lparr>interrupts_on := False\<rparr>)"

definition game_sti :: "(game, unit) M" where
  "game_sti = seqM (modM (\<lambda>s. s\<lparr>interrupts_on := True\<rparr>)) take_interrupts"

text \<open>A \<open>hlt\<close> with interrupts off never ends.\<close>

definition wait_intr :: "(game, unit) M" where
  "wait_intr = bindM (getM interrupts_on) (\<lambda>b. if b then take_interrupts else fail OutOfFuel)"

section \<open>Letters\<close>

definition add_letter :: "(game, unit) M" where
  "add_letter =
     bindM (getM letters_head) (\<lambda>h. case h of
       None \<Rightarrow> bindM fly_new (\<lambda>new. modM (\<lambda>s. s\<lparr>letters_head := Some new\<rparr>))
     | Some _ \<Rightarrow> bindM fly_new (\<lambda>new. seqM (fly_insert None h new)
         (modM (\<lambda>s. s\<lparr>letters_head := Some new\<rparr>))))"

definition init_letter :: "nat \<Rightarrow> (game, unit) M" where
  "init_letter h =
     seqM (modM (set_fly h (\<lambda>l. l\<lparr>fly_x := 0\<rparr>)))
    (bindM rand (\<lambda>r.
     seqM (modM (set_fly h (\<lambda>l. l\<lparr>fly_y := r smod (SCR_WIDTH sdiv 8 - 2) * 8 + 8\<rparr>)))
    (bindM rand (\<lambda>r.
     bindM (liftE (F_div_F (int2F (word_of_int (r smod 1000))) (int2F 2000))) (\<lambda>q.
     bindM (liftE (f2F 0x3f000000)) (\<lambda>half.
     seqM (modM (set_fly h (\<lambda>l. l\<lparr>fly_v := q + half\<rparr>)))
    (bindM rand (\<lambda>r.
     seqM (modM (set_fly h (\<lambda>l. l\<lparr>fly_text := r smod 26\<rparr>)))
    (bindM (getM (\<lambda>s. fly_text (fly_pool s h))) release_key)))))))))"

definition create_new_letter :: "(game, unit) M" where
  "create_new_letter = seqM add_letter (bindM (bindM (getM letters_head) the_node) init_letter)"

text \<open>
  The loops over the list follow the pointers; 1001 rounds are enough for a list of pool nodes without a
  cycle. \<open>0x40fccccd\<close> is the single-precision number nearest to 7.9.
\<close>

definition update_letter :: "nat \<Rightarrow> nat option \<Rightarrow> (game, unit) M" where
  "update_letter it n =
     seqM (modM (set_fly it (\<lambda>l. l\<lparr>fly_x := fly_x l + fly_v l\<rparr>)))
    (bindM (liftE (f2F 0x40fccccd)) (\<lambda>size.
     bindM (getM (\<lambda>s. fly_x (fly_pool s it))) (\<lambda>x.
     whenM (x <s 0 \<or> int2F 200 <s x + size)
       (seqM (modM (\<lambda>s. if x <s 0 then s\<lparr>hit := hit s + 1\<rparr> else s\<lparr>miss := miss s + 1\<rparr>))
       (seqM (fly_remove it)
       (seqM (fly_free it)
             (modM (\<lambda>s. if letters_head s = Some it then s\<lparr>letters_head := n\<rparr> else s))))))))"

primrec update_letters :: "nat \<Rightarrow> nat option \<Rightarrow> (game, unit) M" where
  "update_letters 0 it = (case it of None \<Rightarrow> ret () | Some _ \<Rightarrow> fail OutOfFuel)"
| "update_letters (Suc n) it = (case it of None \<Rightarrow> ret () | Some i \<Rightarrow>
     bindM (getM (\<lambda>s. fly_next (fly_pool s i))) (\<lambda>nx.
     seqM (update_letter i nx) (update_letters n nx)))"

definition update_letter_pos :: "(game, unit) M" where
  "update_letter_pos = bindM (getM letters_head) (update_letters (Suc POOL_SIZE))"

text \<open>The search of \<open>update_keypress\<close>: the variables \<open>min\<close> (here \<open>lowest\<close>) and \<open>target\<close> are arguments.\<close>

primrec find_target :: "nat \<Rightarrow> nat option \<Rightarrow> u32 \<Rightarrow> nat option \<Rightarrow> (game, nat option) M" where
  "find_target 0 it lowest target = (case it of None \<Rightarrow> ret target | Some _ \<Rightarrow> fail OutOfFuel)"
| "find_target (Suc n) it lowest target = (case it of None \<Rightarrow> ret target | Some i \<Rightarrow>
     bindM (getM (\<lambda>s. fly_pool s i)) (\<lambda>l.
     seqM (assertM (0 \<le> fly_text l \<and> fly_text l < 26))
    (bindM (if 0 <s fly_v l \<and> lowest <s fly_x l then query_key (fly_text l) else ret False) (\<lambda>b.
     if b then find_target n (fly_next l) (fly_x l) (Some i)
     else find_target n (fly_next l) lowest target))))"

definition update_keypress :: "(game, bool) M" where
  "update_keypress =
     seqM game_cli
    (bindM (getM letters_head) (\<lambda>h.
     bindM (find_target (Suc POOL_SIZE) h (- int2F 100) None) (\<lambda>target.
     case target of
       Some i \<Rightarrow> bindM (getM (\<lambda>s. fly_text (fly_pool s i))) (\<lambda>c.
         seqM (release_key c)
        (seqM (modM (set_fly i (\<lambda>l. l\<lparr>fly_v := - int2F 3\<rparr>))) (ret True)))
     | None \<Rightarrow> seqM game_sti (ret False))))"

section \<open>Drawing\<close>

text \<open>The conversion \<open>%d\<close>.\<close>

definition show_int :: "int \<Rightarrow> string" where
  "show_int i = (if i < 0 then CHR ''-'' # decimal (nat (- i)) else decimal (nat i))"

primrec draw_letters :: "nat \<Rightarrow> nat option \<Rightarrow> (game, unit) M" where
  "draw_letters 0 it = (case it of None \<Rightarrow> ret () | Some _ \<Rightarrow> fail OutOfFuel)"
| "draw_letters (Suc n) it = (case it of None \<Rightarrow> ret () | Some i \<Rightarrow>
     bindM (getM (\<lambda>s. fly_pool s i)) (\<lambda>l.
     seqM (on_video (draw_string [char_of (nat (fly_text l + 65))] (sint (F2int (fly_x l))) (fly_y l) 15))
       (draw_letters n (fly_next l))))"

definition redraw_screen :: "(game, unit) M" where
  "redraw_screen =
     seqM (on_video prepare_buffer)
    (seqM (bindM (getM letters_head) (draw_letters (Suc POOL_SIZE)))
    (bindM (getM (\<lambda>s. show_int (uint (key_code s)))) (\<lambda>key.
     seqM (on_video (draw_string key (SCR_HEIGHT - 8) 0 48))
    (bindM (getM (\<lambda>s. show_int (sint (hit s)))) (\<lambda>h.
     seqM (on_video (draw_string h 0 (SCR_WIDTH - int (length h) * 8) 10))
    (bindM (getM (\<lambda>s. show_int (sint (miss s)))) (\<lambda>m.
     seqM (on_video (draw_string m (SCR_HEIGHT - 8) (SCR_WIDTH - int (length m) * 8) 12))
    (bindM (getM (\<lambda>s. show_int (real_fps s))) (\<lambda>f.
     seqM (on_video (draw_string f 0 0 14))
    (seqM (on_video (draw_string ''FPS'' 0 (int (length f) * 8) 14))
          (on_video display_buffer)))))))))))"

section \<open>The main loop\<close>

abbreviation (input) HZ :: int where "HZ \<equiv> 100"
abbreviation (input) FPS :: int where "FPS \<equiv> 30"
abbreviation (input) CHARACTER_PER_SECOND :: int where "CHARACTER_PER_SECOND \<equiv> 3"
abbreviation (input) UPDATE_PER_SECOND :: int where "UPDATE_PER_SECOND \<equiv> 100"

definition set_fps :: "int \<Rightarrow> (game, unit) M" where
  "set_fps v = modM (\<lambda>s. s\<lparr>real_fps := v\<rparr>)"

text \<open>One simulated tick; the result is the new \<open>num_draw\<close> and \<open>redraw\<close>.\<close>

definition game_tick :: "int \<Rightarrow> int \<Rightarrow> bool \<Rightarrow> (game, int \<times> bool) M" where
  "game_tick now num_draw redraw =
     seqM (whenM (now smod (HZ sdiv CHARACTER_PER_SECOND) = 0) create_new_letter)
    (seqM (whenM (now smod (HZ sdiv UPDATE_PER_SECOND) = 0) update_letter_pos)
    (let redraw = (redraw \<or> now smod (HZ sdiv FPS) = 0) in
     if now smod (HZ sdiv 2) = 0
     then (let now_fps = num_draw * 2 + 1; now_fps = (if FPS < now_fps then FPS else now_fps) in
           seqM (set_fps now_fps) (ret (0, redraw)))
     else ret (num_draw, redraw)))"

text \<open>The catch-up loop \<open>while (now < target)\<close> in the rounds it takes.\<close>

primrec catch_up :: "nat \<Rightarrow> int \<Rightarrow> int \<Rightarrow> bool \<Rightarrow> (game, int \<times> bool) M" where
  "catch_up 0 now num_draw redraw = ret (num_draw, redraw)"
| "catch_up (Suc n) now num_draw redraw =
     bindM (game_tick now num_draw redraw) (\<lambda>(num_draw, redraw). catch_up n (now + 1) num_draw redraw)"

text \<open>
  One round of \<open>main_loop\<close> with its variables \<open>now\<close> and \<open>num_draw\<close>; \<open>n\<close> bounds how many letters
  are hit in one round.
\<close>

definition main_round :: "nat \<Rightarrow> int \<times> int \<Rightarrow> (game, int \<times> int) M" where
  "main_round n = (\<lambda>(now, num_draw).
     seqM wait_intr
    (seqM game_cli
    (bindM (getM (\<lambda>s. sint (tick s))) (\<lambda>t.
     if now = t then seqM game_sti (ret (now, num_draw))
     else seqM (assertM (now < t))
    (seqM game_sti
    (seqM (whileM n update_keypress (ret ()))
    (bindM (catch_up (nat (t - now)) now num_draw False) (\<lambda>(num_draw, redraw).
     if redraw then seqM redraw_screen (ret (t, num_draw + 1))
     else ret (t, num_draw)))))))))"

primrec main_rounds :: "nat \<Rightarrow> nat \<Rightarrow> int \<times> int \<Rightarrow> (game, int \<times> int) M" where
  "main_rounds n 0 l = ret l"
| "main_rounds n (Suc k) l = bindM (main_round n l) (main_rounds n k)"

text \<open>The static storage of the program before \<open>main_loop\<close>, and \<open>main\<close> up to the loop.\<close>

definition game_start :: "(nat \<Rightarrow> event list) \<Rightarrow> (nat \<Rightarrow> nat) \<Rightarrow> video \<Rightarrow> game" where
  "game_start arr rnd v =
     \<lparr>fly_pool = (\<lambda>_. \<lparr>fly_x = 0, fly_y = 0, fly_text = 0, fly_v = 0, fly_prev = None, fly_next = None\<rparr>),
      fly_free_head = None, letters_head = None, hit = 0, miss = 0, letter_pressed = (\<lambda>_. False),
      key_code = 0, tick = 0, real_fps = 0, interrupts_on = True, arrivals = arr, arrival_pos = 0,
      game_rand = rnd, game_rand_pos = 0, video = v\<rparr>"

definition typing_main :: "nat \<Rightarrow> nat \<Rightarrow> (game, int \<times> int) M" where
  "typing_main n k = seqM (on_video game_init_timer) (main_rounds n k (0, 0))"

end
