(* ===== verification/Float_Props.thy ===== *)
theory Float_Props
  imports Float
begin

unbundle bit_operations_syntax

text \<open>
  The fixed-point library against exact arithmetic: products and quotients, conversion from single
  precision, termination and accuracy of the square root, and what \<open>format_FLOAT\<close> prints.
\<close>

section \<open>Signed words\<close>

lemma sint_of_nat_small: "n < 2 ^ 31 \<Longrightarrow> sint (of_nat n :: u32) = int n"
  by (simp add: sint_small unsigned_of_nat take_bit_nat_eq_self)

lemma sint_of_int_range: "- (2 ^ 31) \<le> i \<Longrightarrow> i < 2 ^ 31 \<Longrightarrow> sint (word_of_int i :: u32) = i"
  by (simp add: signed_of_int signed_take_bit_int_eq_self)

lemma sint_range_u32: "- (2 ^ 31) \<le> sint (x :: u32)" "sint (x :: u32) < 2 ^ 31"
  using sint_range_size [of x] by (simp_all add: word_size)

lemma word_of_int_sint_u32 [simp]: "word_of_int (sint (x :: u32)) = x"
  by simp

text \<open>The absolute value the code computes, away from the most negative number.\<close>

lemma abs_u32:
  assumes "x \<noteq> 0x80000000"
  shows "(if x <s 0 then - x else x :: u32) = of_nat (nat \<bar>sint x\<bar>)" "nat \<bar>sint x\<bar> < 2 ^ 31"
proof -
  show "(if x <s 0 then - x else x :: u32) = of_nat (nat \<bar>sint x\<bar>)"
    by (auto simp: word_sless_alt of_nat_nat)
  have "sint x \<noteq> - (2 ^ 31)"
  proof
    assume "sint x = - (2 ^ 31)"
    then have "word_of_int (sint x) = (word_of_int (- (2 ^ 31)) :: u32)" by (rule arg_cong)
    with assms show False by simp
  qed
  with sint_range_u32 [of x] show "nat \<bar>sint x\<bar> < 2 ^ 31" by (simp add: abs_less_iff nat_less_iff)
qed

section \<open>Division\<close>

text \<open>
  The shift-and-subtract rounds compute \<open>n\<close> more binary places, as long as the divisor is at
  most \<open>2 ^ 30\<close>, so that doubling a remainder stays in range.
\<close>

lemma div_rounds_numeral:
  "div_rounds (numeral n) b ar =
     (let (a, res) = ar; a = push_bit 1 a; res = push_bit 1 res in
      div_rounds (pred_numeral n) b (if b \<le>s a then (a - b, res + 1) else (a, res)))"
  by (simp add: numeral_eq_Suc)

lemma div_rounds_correct:
  assumes "r < B" "B \<le> 2 ^ 30"
  shows "div_rounds n (of_nat B) (of_nat r, of_nat q)
    = (of_nat (r * 2 ^ n mod B), of_nat (q * 2 ^ n + r * 2 ^ n div B))"
  using assms(1)
proof (induction n arbitrary: r q)
  case 0
  then show ?case by simp
next
  case (Suc n)
  have small: "2 * r < 2 ^ 31" using Suc.prems assms(2) by simp
  have shift: "push_bit 1 (of_nat k :: u32) = of_nat (2 * k)" for k
    by (simp add: push_bit_eq_mult)
  have cmp: "(of_nat B :: u32) \<le>s of_nat (2 * r) \<longleftrightarrow> B \<le> 2 * r"
    using small assms(2) by (simp add: word_sle_eq sint_of_nat_small del: of_nat_mult)
  show ?case
  proof (cases "B \<le> 2 * r")
    case True
    then have sub: "(of_nat (2 * r) - of_nat B :: u32) = of_nat (2 * r - B)" by (simp add: of_nat_diff)
    have inc: "(of_nat (2 * q) + 1 :: u32) = of_nat (2 * q + 1)" by simp
    have split: "r * 2 ^ Suc n = (2 * r - B) * 2 ^ n + B * 2 ^ n"
      using True by (simp add: algebra_simps diff_mult_distrib)
    have "B > 0" using Suc.prems by simp
    have step: "div_rounds (Suc n) (of_nat B) (of_nat r, of_nat q)
        = div_rounds n (of_nat B) (of_nat (2 * r - B), of_nat (2 * q + 1))"
      unfolding div_rounds.simps Let_def prod.case shift cmp sub inc using True by simp
    have "2 * r - B < B" using Suc.prems by linarith
    from step Suc.IH [OF this, of "2 * q + 1"] show ?thesis
      using \<open>B > 0\<close> unfolding split by (simp add: algebra_simps del: of_nat_add of_nat_mult)
  next
    case False
    then have "2 * r < B" by simp
    moreover have "div_rounds (Suc n) (of_nat B) (of_nat r, of_nat q)
        = div_rounds n (of_nat B) (of_nat (2 * r), of_nat (2 * q))"
      unfolding div_rounds.simps Let_def prod.case shift cmp using False by simp
    ultimately show ?thesis
      using Suc.IH [of "2 * r" "2 * q"] by (simp add: algebra_simps del: of_nat_add of_nat_mult)
  qed
qed

lemma sint_inject: "sint (x :: u32) = sint y \<Longrightarrow> x = y"
  by (metis word_of_int_sint_u32)

lemma sint_eq_0_iff: "sint (x :: u32) = 0 \<longleftrightarrow> x = 0"
proof
  assume "sint x = 0"
  then have "word_of_int (sint x) = (word_of_int 0 :: u32)" by (rule arg_cong)
  then show "x = 0" by simp
qed simp

lemma F_div_F_eq:
  assumes "b \<noteq> 0" "\<bar>sint b\<bar> \<le> 2 ^ 30" "a \<noteq> 0x80000000"
  shows "F_div_F a b = Inr (word_of_int ((sint a * 65536) sdiv sint b))"
proof -
  define A B where "A = nat \<bar>sint a\<bar>" and "B = nat \<bar>sint b\<bar>"
  have B: "0 < B" "B \<le> 2 ^ 30" using assms(1,2) by (auto simp: B_def sint_eq_0_iff)
  have bmin: "b \<noteq> 0x80000000" using assms(2) by auto
  have A: "A < 2 ^ 31" using abs_u32(2) [OF assms(3)] by (simp add: A_def)
  have sA: "sint (of_nat A :: u32) = int A" and sB: "sint (of_nat B :: u32) = int B"
    using A B by (simp_all add: sint_of_nat_small)
  have nz: "(of_nat B :: u32) \<noteq> 0" "(of_nat B :: u32) \<noteq> - 1"
    using sB B by auto
  have quot: "c_div (of_nat A) (of_nat B) = Inr (of_nat (A div B))"
    and rem: "c_mod (of_nat A) (of_nat B) = Inr (of_nat (A mod B))"
    using nz by (simp_all add: c_div_def c_mod_def sA sB signed_divide_int_def signed_modulo_int_def flip: zdiv_int zmod_int)
  have "A mod B < B" using B by simp
  note steps = div_rounds_correct [OF this B(2), of 16 "A div B"]
  have places: "A div B * 2 ^ 16 + A mod B * 2 ^ 16 div B = A * 65536 div B"
  proof -
    have "A * 65536 = (A mod B) * 65536 + B * (A div B * 65536)"
      by (metis (no_types, lifting) add.commute add_mult_distrib mult.assoc mult_div_mod_eq)
    then show ?thesis using B by simp
  qed
  note rounds = steps [unfolded places]
  have signs: "F_div_F a b = tryE (c_div (of_nat A) (of_nat B)) (\<lambda>res. tryE (c_mod (of_nat A) (of_nat B)) (\<lambda>a'.
      let (a', res) = div_rounds 16 (of_nat B) (a', res)
      in Inr (res * ((if a <s 0 then - 1 else 1) * (if b <s 0 then - 1 else 1)))))"
    using abs_u32(1) [OF assms(3)] abs_u32(1) [OF bmin]
    by (auto simp: F_div_F_def A_def B_def Let_def split: if_splits)
  have sgn: "sgn (sint a * 65536) * sgn (sint b) = (if a <s 0 then - 1 else 1) * (if b <s 0 then - 1 else 1)
    \<or> a = 0"
    using assms(1) by (auto simp: word_sless_alt sgn_if sint_eq_0_iff)
  have "\<bar>sint a * 65536\<bar> div \<bar>sint b\<bar> = int (A * 65536 div B)"
    by (simp add: A_def B_def zdiv_int abs_mult)
  with sgn have "(sint a * 65536) sdiv sint b
      = (if a <s 0 then - 1 else 1) * (if b <s 0 then - 1 else 1) * int (A * 65536 div B)"
    by (auto simp: signed_divide_int_def A_def)
  then have "word_of_int ((sint a * 65536) sdiv sint b)
      = (of_nat (A * 65536 div B) :: u32) * ((if a <s 0 then - 1 else 1) * (if b <s 0 then - 1 else 1))"
    by simp
  then show ?thesis by (simp only: signs quot rem tryE_simps rounds Let_def prod.case)
qed

text \<open>Rounding to an integer is towards minus infinity.\<close>

lemma F2int_floor: "sint (F2int a) = sint a div 65536"
proof -
  have "bit (0xffff0000 :: u32) k \<longleftrightarrow> 16 \<le> k \<and> k < 32" for k
  proof -
    have "(0xffff0000 :: u32) = push_bit 16 (mask 16)" by (simp add: mask_eq_exp_minus_1)
    then show ?thesis by (simp only: bit_push_bit_iff bit_mask_iff possible_bit_def) auto
  qed
  then have "signed_drop_bit 16 (a AND 0xffff0000) = signed_drop_bit 16 a"
    by (intro bit_eqI) (auto simp: bit_signed_drop_bit_iff bit_and_iff)
  then show ?thesis by (simp add: F2int_def sint_signed_drop_bit_eq drop_bit_eq_div)
qed

lemma F2int_int2F: "- (2 ^ 15) \<le> sint a \<Longrightarrow> sint a < 2 ^ 15 \<Longrightarrow> F2int (int2F a) = a"
proof (rule sint_inject)
  assume a: "- (2 ^ 15) \<le> sint a" "sint a < 2 ^ 15"
  have "int2F a = word_of_int (sint a * 65536)" by (simp add: int2F_def push_bit_eq_mult)
  then have "sint (int2F a) = sint a * 65536" using a by (simp only:) (intro sint_of_int_range, auto)
  then show "sint (F2int (int2F a)) = sint a" by (simp add: F2int_floor)
qed

section \<open>Square root\<close>

text \<open>
  The loop is Heron's iteration on the integer \<open>N = x * 65536\<close>, whose root is the wanted \<open>FLOAT\<close>.
  From the first round on the approximation is at least the root \<open>s\<close> rounded down, and then
  every round that does not end the loop makes it smaller.
\<close>

definition heron_step :: "int \<Rightarrow> int \<Rightarrow> int" where
  "heron_step N t = (N div t - t) sdiv 2"

lemma sdiv_2_bounds: "k - 1 \<le> 2 * (k sdiv 2)" "2 * (k sdiv 2) \<le> k + (1 :: int)"
  by (auto simp: signed_divide_int_def sgn_if)

lemma sdiv_nonneg: "0 \<le> a \<Longrightarrow> 0 < b \<Longrightarrow> a sdiv b = a div (b :: int)"
  by (cases "a = 0") (simp_all add: signed_divide_int_def)

lemma heron_bounds:
  fixes N t s :: int
  assumes root: "s * s \<le> N" "N < (s + 1) * (s + 1)" "0 \<le> s" and t: "0 < t"
  shows "s \<le> t + heron_step N t"
    and "s \<le> t \<Longrightarrow> heron_step N t \<le> 1"
    and "s \<le> t \<Longrightarrow> - 6 \<le> heron_step N t \<Longrightarrow> t + heron_step N t \<le> s + 7"
    and "s \<le> t \<Longrightarrow> N div t \<le> s + 2"
    and "t - 1 \<le> 2 * t + 2 * heron_step N t"
proof -
  define q where "q = N div t"
  have "q * t + N mod t = N" "0 \<le> N mod t" "N mod t < t" using t by (simp_all add: q_def)
  then have lower: "q * t \<le> N" and upper: "N < (q + 1) * t" by (simp_all add: distrib_right)
  have "0 \<le> N" using root(1) zero_le_square [of s] by linarith
  then have q0: "0 \<le> q" using t by (simp add: q_def pos_imp_zdiv_nonneg_iff)
  have d: "q - t - 1 \<le> 2 * heron_step N t" "2 * heron_step N t \<le> q - t + 1"
    using sdiv_2_bounds [of "q - t"] by (simp_all add: heron_step_def q_def)
  show "s \<le> t + heron_step N t"
  proof (rule ccontr)
    assume "\<not> s \<le> t + heron_step N t"
    then have "t + q + 1 \<le> 2 * s" using d by linarith
    then have "(t + q + 1) * (t + q + 1) \<le> 2 * s * (2 * s)"
      using t q0 root(3) by (intro mult_mono) auto
    also have "\<dots> \<le> 4 * N" using root(1) by simp
    also have "\<dots> < 4 * ((q + 1) * t)" using upper by simp
    also have "\<dots> \<le> (t + q + 1) * (t + q + 1)"
      using zero_le_square [of "t - (q + 1)"] by (simp add: algebra_simps)
    finally show False by simp
  qed
  show small: "N div t \<le> s + 2" if "s \<le> t"
  proof -
    have "q * t \<le> s * (s + 2)" using lower root(2) by (simp add: algebra_simps)
    also have "\<dots> \<le> (s + 2) * t" using mult_right_mono [OF that, of "s + 2"] root(3) by (simp add: mult.commute)
    finally show ?thesis using t by (simp add: q_def)
  qed
  show "heron_step N t \<le> 1" if "s \<le> t" using small [OF that] that d(2) by (simp add: q_def)
  show "t + heron_step N t \<le> s + 7" if "s \<le> t" "- 6 \<le> heron_step N t"
  proof (cases "t = s")
    case True
    then show ?thesis using small [OF that(1)] d(2) by (simp add: q_def)
  next
    case False
    with that have "s + 1 \<le> t" by simp
    then have "(s + 1) * (s + 1) \<le> (s + 1) * t" using root(3) by (intro mult_left_mono) auto
    with lower root(2) have "q * t < (s + 1) * t" by linarith
    then have "q \<le> s" using t by simp
    with d that(2) show ?thesis by linarith
  qed
  show "t - 1 \<le> 2 * t + 2 * heron_step N t" using d(1) q0 by simp
qed

lemma eps_value: "f2F 0x38d1b717 = Inr 6"
  by (simp add: f2F_def c_sar_def Let_def)

lemma sqrt_round_heron:
  assumes X: "0 \<le> X" "X < 2 ^ 31" and T: "0 < T" "T \<le> 2 ^ 30" and q: "X * 65536 div T < 2 ^ 31 - 1"
  shows "sqrt_round (word_of_int X) (word_of_int T)
    = Inr (word_of_int (T + heron_step (X * 65536) T), 6 < \<bar>heron_step (X * 65536) T\<bar>)"
proof -
  define Q D where "Q = X * 65536 div T" and "D = heron_step (X * 65536) T"
  have Q: "0 \<le> Q" "Q < 2 ^ 31 - 1" using X T q by (simp_all add: Q_def pos_imp_zdiv_nonneg_iff)
  have D: "Q - T - 1 \<le> 2 * D" "2 * D \<le> Q - T + 1"
    using sdiv_2_bounds [of "Q - T"] by (simp_all add: D_def Q_def heron_step_def)
  have sX: "sint (word_of_int X :: u32) = X" and sT: "sint (word_of_int T :: u32) = T"
    using X T by (simp_all add: sint_of_int_range)
  have "(word_of_int T :: u32) \<noteq> 0" "(word_of_int X :: u32) \<noteq> 0x80000000" using sX sT X T by auto
  then have quot: "F_div_F (word_of_int X) (word_of_int T) = Inr (word_of_int Q)"
    using X T by (subst F_div_F_eq) (simp_all add: sX sT Q_def sdiv_nonneg)
  have "sint (word_of_int Q - word_of_int T :: u32) = Q - T"
    using Q T sint_of_int_range [of "Q - T"] by simp
  then have half: "F_div_int (word_of_int Q - word_of_int T) 2 = Inr (word_of_int D)"
    by (simp add: F_div_int_def c_div_def D_def Q_def heron_step_def)
  have sD: "sint (word_of_int D :: u32) = D" using D Q T by (simp add: sint_of_int_range)
  have "Fabs (word_of_int D :: u32) = word_of_int \<bar>D\<bar>"
    by (auto simp: Fabs_def word_sless_alt sD)
  moreover have "sint (word_of_int \<bar>D\<bar> :: u32) = \<bar>D\<bar>" using D Q T by (simp add: sint_of_int_range)
  ultimately have "(6 <s Fabs (word_of_int D :: u32)) = (6 < \<bar>D\<bar>)" by (simp add: word_sless_alt)
  with quot half show ?thesis by (simp add: sqrt_round_def eps_value flip: D_def)
qed

lemma newton_unfold:
  "newton step t = (case step t of Inl e \<Rightarrow> Some (Inl e)
     | Inr (t, more) \<Rightarrow> if more then newton step t else Some (Inr t))"
  by (rule newton.simps)

lemma sqrt_loop_converges:
  fixes N X T s :: int
  assumes X: "0 \<le> X" "X < 2 ^ 31" and root: "s * s \<le> X * 65536" "X * 65536 < (s + 1) * (s + 1)" "0 \<le> s"
    and T: "0 < T" "s \<le> T" "T \<le> 2 ^ 30"
  shows "\<exists>r. newton (sqrt_round (word_of_int X)) (word_of_int T) = Some (Inr (word_of_int r)) \<and> s \<le> r \<and> r \<le> s + 7"
  using T
proof (induction "nat T" arbitrary: T rule: less_induct)
  case less
  note h = heron_bounds [OF root less.prems(1)]
  let ?T = "T + heron_step (X * 65536) T"
  have "X * 65536 div T < 2 ^ 31 - 1" using h(4) less.prems by simp
  note round = sqrt_round_heron [OF X less.prems(1,3) this]
  show ?case
  proof (cases "6 < \<bar>heron_step (X * 65536) T\<bar>")
    case True
    then have "heron_step (X * 65536) T < - 6" using h(2) less.prems by linarith
    moreover from this have "0 < ?T" using h(5) h(1) root(3) by linarith
    ultimately have "\<exists>r. newton (sqrt_round (word_of_int X)) (word_of_int ?T) = Some (Inr (word_of_int r)) \<and> s \<le> r \<and> r \<le> s + 7"
      using h(1) less.prems by (intro less.hyps) auto
    with round True show ?thesis by (subst newton_unfold) simp
  next
    case False
    then have "newton (sqrt_round (word_of_int X)) (word_of_int T) = Some (Inr (word_of_int ?T))"
      using round by (subst newton_unfold) simp
    with h(1,3) less.prems False show ?thesis by (intro exI [of _ ?T]) auto
  qed
qed

lemma sqrt_converges:
  assumes X: "0 \<le> X" "X < 2 ^ 31" and root: "s * s \<le> X * 65536" "X * 65536 < (s + 1) * (s + 1)" "0 \<le> s"
  shows "\<exists>r. sqrt_F (word_of_int X) = Some (Inr (word_of_int r)) \<and> s \<le> r \<and> r \<le> s + 7"
proof -
  let ?d = "heron_step (X * 65536) 131072"
  note h = heron_bounds [OF root, of 131072, simplified]
  have Q: "X * 65536 div 131072 \<le> 2 ^ 30" using X by simp
  have "2 * ?d \<le> X * 65536 div 131072 - 131072 + 1"
    using sdiv_2_bounds(2) [of "X * 65536 div 131072 - 131072"] by (simp add: heron_step_def)
  then have d: "131072 + ?d \<le> 2 ^ 30" using Q by simp
  have "sqrt_round (word_of_int X) (word_of_int 131072)
      = Inr (word_of_int (131072 + ?d), 6 < \<bar>?d\<bar>)"
    using X Q by (intro sqrt_round_heron) auto
  then have start: "sqrt_F (word_of_int X) = (if 6 < \<bar>?d\<bar> then newton (sqrt_round (word_of_int X)) (word_of_int (131072 + ?d))
      else Some (Inr (word_of_int (131072 + ?d))))"
    unfolding sqrt_F_def newton_unfold [of _ "int2F 2"] by (simp add: int2F_def)
  show ?thesis
  proof (cases "6 < \<bar>?d\<bar>")
    case True
    have pos: "0 < 131072 + ?d" using h(5) by linarith
    show ?thesis using sqrt_loop_converges [OF X root pos h(1) d] start True by simp
  next
    case False
    then have "131072 + ?d \<le> s + 7" using h(3) by linarith
    with False h(1) show ?thesis using start by (intro exI [of _ "131072 + ?d"]) auto
  qed
qed

text \<open>
  C33. The square root returns for every argument that is not negative, and the result differs
  from the real square root by at most seven units of the last place.
\<close>

theorem sqrt_accurate:
  assumes "0 \<le> sint x"
  shows "\<exists>r. sqrt_F x = Some (Inr r)
    \<and> \<bar>real_of_int (sint r) / 65536 - sqrt (real_of_int (sint x) / 65536)\<bar> \<le> 7 / 65536"
proof -
  define X where "X = sint x"
  define s where "s = \<lfloor>sqrt (real_of_int (X * 65536))\<rfloor>"
  have X: "0 \<le> X" "X < 2 ^ 31" using assms sint_range_u32 [of x] by (simp_all add: X_def)
  have s0: "0 \<le> s" using X by (simp add: s_def)
  have near: "real_of_int s \<le> sqrt (real_of_int (X * 65536))" "sqrt (real_of_int (X * 65536)) < real_of_int s + 1"
    by (simp_all add: s_def)
  have "real_of_int s * real_of_int s \<le> real_of_int (X * 65536)"
    using mult_mono [OF near(1) near(1)] X s0 by simp
  then have r1: "s * s \<le> X * 65536" by (metis of_int_le_iff of_int_mult)
  have "real_of_int (X * 65536) < (real_of_int s + 1) * (real_of_int s + 1)"
    using mult_strict_mono [OF near(2) near(2)] X s0 by simp
  then have "real_of_int (X * 65536) < real_of_int ((s + 1) * (s + 1))" by simp
  then have r2: "X * 65536 < (s + 1) * (s + 1)" by (simp only: of_int_less_iff)
  from sqrt_converges [OF X r1 r2 s0] obtain r
    where r: "sqrt_F x = Some (Inr (word_of_int r))" "s \<le> r" "r \<le> s + 7" by (auto simp: X_def)
  have "s * s < 2 ^ 47" using r1 X by simp
  then have "s < 2 ^ 30" using mult_mono [of "2 ^ 30" s "2 ^ 30" s] s0 by (cases "s < 2 ^ 30") auto
  then have sr: "sint (word_of_int r :: u32) = r" using r s0 by (simp add: sint_of_int_range)
  have "sqrt (real_of_int X / 65536) = sqrt (real_of_int (X * 65536)) / 65536"
  proof -
    have "sqrt 65536 = sqrt (256 ^ 2)" by simp
    then have "sqrt 65536 = 256" by (simp only: real_sqrt_abs)
    then show ?thesis by (simp add: real_sqrt_divide real_sqrt_mult)
  qed
  then have "\<bar>real_of_int r / 65536 - sqrt (real_of_int X / 65536)\<bar> \<le> 7 / 65536"
    using near r(2,3) by (simp add: field_simps abs_le_iff)
  with r(1) sr show ?thesis by (intro exI [of _ "word_of_int r"]) (simp only: X_def)
qed

theorem sqrt_accurate_witness:
  "\<exists>r. sqrt_F 0x20000 = Some (Inr r) \<and> \<bar>real_of_int (sint r) / 65536 - sqrt 2\<bar> \<le> 7 / 65536"
  using sqrt_accurate [of "0x20000"] by simp

text \<open>
  C34. The division of two fixed-point numbers is the exact quotient, rounded toward zero and
  reduced to 32 bits, for every dividend but the most negative one and every divisor of
  absolute value up to 16384.
\<close>

theorem fixed_quotient:
  assumes "b \<noteq> 0" "\<bar>sint b\<bar> \<le> 2 ^ 30" "a \<noteq> 0x80000000"
  shows "F_div_F a b = Inr (word_of_int ((sint a * 65536) sdiv sint b))"
  using assms by (rule F_div_F_eq)

theorem fixed_quotient_witness: "F_div_F (- 0x10000) 0x30000 = Inr (- 0x5555)"
  using fixed_quotient [of "0x30000" "- 0x10000"] by (simp add: signed_divide_int_def)

text \<open>
  Two inputs on which the library leaves its specification: a divisor above 16384
  overflows the doubled remainder (the quotient of 24576 and 28672, 6/7, comes out as zero), and the
  cube root of zero divides by zero.
\<close>

lemma fixed_point_defects:
  "F_div_F 0x60000000 0x70000000 = Inr 0 \<and> pow_F 0 y = Some (Inl DivideError)"
proof
  show "F_div_F 0x60000000 0x70000000 = Inr 0" by code_simp
  have trap: "F_div_F 0 0 = Inl DivideError" by (simp add: F_div_F_def c_div_def)
  have round: "pow_round 0 t = (if F_mul_F t t = 0 then Inl DivideError
      else Inr (t + word_of_int (sint (- t) sdiv 3), 6 <s Fabs (word_of_int (sint (- t) sdiv 3))))"
    if "\<bar>sint (F_mul_F t t)\<bar> \<le> 2 ^ 30" for t
    using that by (simp add: pow_round_def trap F_div_F_eq c_div_def eps_value)
  show "pow_F 0 y = Some (Inl DivideError)"
    by (simp add: pow_F_def int2F_def newton.simps round F_mul_F_def signed_divide_int_def
        Fabs_def word_sless_alt)
qed

section \<open>Conversion from single precision\<close>

text \<open>Exponent field, significand and absolute value of a normal number.\<close>

definition float_exponent :: "u32 \<Rightarrow> nat" where
  "float_exponent b = unat (bits 23 8 b)"

definition float_abs :: "u32 \<Rightarrow> real" where
  "float_abs b = real (2 ^ 23 + unat (bits 0 23 b)) * 2 ^ float_exponent b / 2 ^ 150"

lemma f2F_fields:
  fixes b :: u32
  shows "sint (signed_drop_bit 23 b AND 0xff) = int (float_exponent b)"
    and "b AND 0x7fffff = of_nat (unat (bits 0 23 b))"
    and "signed_drop_bit 31 b = 0 \<longleftrightarrow> \<not> bit b 31"
proof -
  have m: "(0xff :: u32) = mask 8" "(0x7fffff :: u32) = mask 23" by (simp_all add: mask_eq_exp_minus_1)
  have e: "signed_drop_bit 23 b AND 0xff = bits 23 8 b"
    unfolding m by (rule bit_eqI) (auto simp: bit_bits bit_simps)
  have "unat (bits 23 8 b) < 256" unfolding unat_bits by simp
  then show "sint (signed_drop_bit 23 b AND 0xff) = int (float_exponent b)"
    unfolding e float_exponent_def by (intro sint_small) simp
  have "b AND 0x7fffff = bits 0 23 b"
    unfolding m by (rule bit_eqI) (auto simp: bit_bits bit_simps)
  then show "b AND 0x7fffff = of_nat (unat (bits 0 23 b))" by simp
  have sgn: "signed_drop_bit 31 b = (if bit b 31 then - 1 else 0)"
    by (rule bit_eqI) (auto simp: bit_simps not_less_eq_eq)
  show "signed_drop_bit 31 b = 0 \<longleftrightarrow> \<not> bit b 31"
    unfolding sgn by simp
qed

lemma floor_shift: "\<lfloor>real m * 2 ^ e / 2 ^ 150 * 65536\<rfloor> = (if e < 134 then int (m div 2 ^ (134 - e)) else int (m * 2 ^ (e - 134)))"
proof (cases "e < 134")
  case True
  then have "(2::real) ^ 150 = 2 ^ e * 2 ^ (134 - e) * 65536"
    by (simp flip: power_add)
  then have "real m * 2 ^ e / 2 ^ 150 * 65536 = real m / real (2 ^ (134 - e))" by (simp add: field_simps)
  with True show ?thesis by (simp only: floor_divide_of_nat_eq if_True)
next
  case False
  then have "(2::real) ^ e = 2 ^ (134 + (e - 134))" by simp
  then have "(2::real) ^ e = 2 ^ 134 * 2 ^ (e - 134)" by (simp only: power_add)
  then have "real m * 2 ^ e / 2 ^ 150 * 65536 = real (m * 2 ^ (e - 134))" by simp
  with False show ?thesis by (simp only: floor_of_nat if_False)
qed

text \<open>
  A normal single-precision number of exponent field 103 to 141, so below 2 to the power of 15,
  is converted to the fixed-point number next to it in the direction of zero. Below, zero included, the
  code shifts by more than 31, which C does not define.
\<close>

lemma conversion_truncates:
  "(103 \<le> float_exponent b \<and> float_exponent b \<le> 141 \<longrightarrow>
      (\<exists>r. f2F b = Inr r \<and> sint r = (if bit b 31 then -1 else 1) * \<lfloor>float_abs b * 65536\<rfloor>))
    \<and> (float_exponent b < 103 \<longrightarrow> f2F b = Inl Undefined)"
proof (intro conjI impI)
  define e m where "e = float_exponent b" and "m = 2 ^ 23 + unat (bits 0 23 b)"
  have m: "m < 2 ^ 24" using unat_bits [of 0 23 b] by (simp add: m_def)
  have k: "(b AND 0x7fffff) + 0x800000 = of_nat m"
    unfolding f2F_fields(2) m_def by simp
  have sm: "sint (of_nat m :: u32) = int m" using m by (simp add: sint_of_nat_small)
  assume "103 \<le> float_exponent b \<and> float_exponent b \<le> 141"
  then have e: "103 \<le> e" "e \<le> 141" by (simp_all add: e_def)
  define v where "v = (if e < 134 then m div 2 ^ (134 - e) else m * 2 ^ (e - 134))"
  have v: "v < 2 ^ 31"
  proof (cases "e < 134")
    case True
    then show ?thesis using m by (simp add: v_def le_less_trans [OF div_le_dividend])
  next
    case False
    then have "(2::nat) ^ (e - 134) \<le> 2 ^ 7" using e(2) by (intro power_increasing) auto
    then have "m * 2 ^ (e - 134) \<le> m * 2 ^ 7" by (rule mult_left_mono) simp
    also have "\<dots> < 2 ^ 31" using m by simp
    finally show ?thesis using False by (simp only: v_def if_False)
  qed
  then have sv: "sint (of_nat v :: u32) = int v" by (simp add: sint_of_nat_small)
  have shifted: "signed_drop_bit n (of_nat m :: u32) = of_nat (m div 2 ^ n)" for n
  proof -
    have "m div 2 ^ n < 2 ^ 31" using m by (simp add: le_less_trans [OF div_le_dividend])
    then have "sint (signed_drop_bit n (of_nat m :: u32)) = sint (of_nat (m div 2 ^ n) :: u32)"
      by (simp add: sint_signed_drop_bit_eq sm drop_bit_eq_div sint_of_nat_small zdiv_int)
    then show ?thesis by (rule sint_inject)
  qed
  have "f2F b = Inr (if bit b 31 then - of_nat v else of_nat v)"
    using e by (auto simp: f2F_def Let_def f2F_fields(1,3) k shifted c_sar_def c_shl_def v_def nat_diff_distrib
      push_bit_eq_mult simp flip: e_def)
  moreover have "float_abs b = real m * 2 ^ e / 2 ^ 150" by (simp add: float_abs_def m_def e_def)
  then have "\<lfloor>float_abs b * 65536\<rfloor> = int v" by (simp only: floor_shift v_def if_distrib [of int])
  moreover have "sint (- of_nat v :: u32) = - int v"
    using v sint_of_int_range [of "- int v"] by simp
  ultimately show "\<exists>r. f2F b = Inr r \<and> sint r = (if bit b 31 then -1 else 1) * \<lfloor>float_abs b * 65536\<rfloor>"
    using sv by auto
next
  assume "float_exponent b < 103"
  then show "f2F b = Inl Undefined" 
    using f2F_fields(1)[of b] by (simp add: f2F_def c_sar_def Let_def)
qed


section \<open>Printing\<close>

text \<open>Reading a run of digits, and an integer part and six places as a number.\<close>

definition digits_value :: "string \<Rightarrow> nat" where
  "digits_value = foldl (\<lambda>v c. 10 * v + (of_char c - 48)) 0"

definition read_fixed :: "string \<Rightarrow> string \<Rightarrow> real" where
  "read_fixed i d = real (digits_value i) + real (digits_value d) / 1000000"

lemma foldl_replicate_0:
  "foldl (\<lambda>v c. 10 * v + (of_char c - 48 :: nat)) 0 (replicate k (CHR ''0'')) = 0"
  by (induction k) simp_all

lemma digits_value_decimal: "digits_value (decimal n) = n"
proof (induction n rule: decimal.induct)
  case (1 n)
  then show ?case
    by (subst decimal.simps) (auto simp: digits_value_def digit_def)
qed

lemma digits_value_padded: "digits_value (zero_padded w n) = n"
  using digits_value_decimal [of n] by (simp add: zero_padded_def digits_value_def foldl_replicate_0)

lemma length_decimal: "n < 10 ^ Suc k \<Longrightarrow> length (decimal n) \<le> Suc k"
proof (induction k arbitrary: n)
  case 0
  then show ?case by (subst decimal.simps) simp
next
  case (Suc k)
  then show ?case by (subst decimal.simps) (simp add: less_mult_imp_div_less)
qed

text \<open>
  \<open>format_FLOAT\<close> prints an integer part, a point and six digits. Of a number that is not
  negative these read as its value truncated to six places. The sign test compares with 1 instead of the
  sign bit, so a negative number \<open>x\<close> is printed as a minus and the digits of \<open>65536 + x\<close>.
\<close>

lemma printed_digits:
  "\<exists>i d. format_FLOAT f = (if f <s 0 then ''-'' else '''') @ i @ ''.'' @ d \<and> length d = 6
    \<and> read_fixed i d \<le> (if f <s 0 then 65536 else 0) + real_of_int (sint f) / 65536
    \<and> (if f <s 0 then 65536 else 0) + real_of_int (sint f) / 65536 < read_fixed i d + 1 / 1000000"
proof -
  define I R where "I = unat f div 65536" and "R = unat f mod 65536"
  define D where "D = R * 1000000 div 65536"
  have sign: "f <s 0 \<longleftrightarrow> bit f 31" 
    using bit_last_iff [of f] by (simp add: word_sless_alt)
  have "f AND 0x80000000 = (if bit f 31 then 0x80000000 else 0)"
  proof -
    have "bit (0x80000000 :: u32) n \<longleftrightarrow> n = 31" for n
      using bit_exp_iff [where 'a = "32 word", of 31 n] by auto
    then have "bit (f AND 0x80000000) n = bit (if bit f 31 then 0x80000000 else 0 :: u32) n" for n
      by (simp only: bit_and_iff bit_0_eq if_distrib [of "\<lambda>x. bit x n"]) auto
    then show ?thesis by (intro bit_eqI)
  qed
  moreover have "unat (f AND 0xffff) = R"
  proof -
    have "(0xffff :: u32) = mask 16" by (simp add: mask_eq_exp_minus_1)
    then show ?thesis by (simp only: R_def unat_take_bit flip: take_bit_eq_mask) simp
  qed
  moreover have "unat (ucast (signed_drop_bit 16 f) :: u16) = I"
  proof -
    have "(ucast (signed_drop_bit 16 f) :: u16) = ucast (drop_bit 16 f)"
      by (rule bit_eqI) (auto simp: bit_simps)
    moreover have "unat f < 2 ^ 32" using unsigned_less [of f] by simp
    then have "unat (drop_bit 16 f) < 2 ^ 16" by (simp add: unat_drop_bit)
    ultimately show ?thesis by (simp add: unsigned_ucast_eq I_def unat_drop_bit take_bit_nat_eq_self)
  qed
  ultimately have fmt: "format_FLOAT f = (if f <s 0 then ''-'' else '''') @ decimal I @ ''.'' @ zero_padded 6 D"
    by (simp add: format_FLOAT_def Let_def sign D_def)
  have "D < 10 ^ Suc 5" by (simp add: D_def R_def)
  from length_decimal [OF this] have len: "length (zero_padded 6 D) = 6" by (simp add: zero_padded_def)
  have read: "read_fixed (decimal I) (zero_padded 6 D) = real I + real D / 1000000"
    by (simp add: read_fixed_def digits_value_decimal digits_value_padded)
  have val: "(if f <s 0 then 65536 else 0) + real_of_int (sint f) / 65536 = real I + real R / 65536"
  proof -
    have "int (unat f) = sint f mod 2 ^ 32"
      using uint_word_of_int [where 'a = 32 and k = "sint f"] by simp
    moreover have "sint f mod 2 ^ 32 = (sint f + 2 ^ 32) mod 2 ^ 32" by simp
    ultimately have "int (unat f) = (if f <s 0 then sint f + 2 ^ 32 else sint f)"
      using sint_range_u32 [of f] mod_pos_pos_trivial [of "sint f + 2 ^ 32" "2 ^ 32"]
        mod_pos_pos_trivial [of "sint f" "2 ^ 32"] by (simp add: word_sless_alt)
    moreover have "unat f = I * 65536 + R" unfolding I_def R_def by (rule div_mult_mod_eq [symmetric])
    then have "int (unat f) = int I * 65536 + int R" by (simp only: of_nat_add of_nat_mult of_nat_numeral)
    ultimately have "real_of_int (sint f + (if f <s 0 then 2 ^ 32 else 0)) = real_of_int (int I * 65536 + int R)"
      by (intro arg_cong [of _ _ real_of_int]) (simp split: if_splits)
    then show ?thesis by (cases "f <s 0") (simp_all add: field_simps)
  qed
  have "D * 65536 \<le> R * 1000000" "R * 1000000 < (D + 1) * 65536" by (simp_all add: D_def)
  then have "real (D * 65536) \<le> real (R * 1000000)" "real (R * 1000000) < real ((D + 1) * 65536)"
    by (simp_all only: of_nat_le_iff of_nat_less_iff)
  then have "real D * 65536 \<le> real R * 1000000" "real R * 1000000 < (real D + 1) * 65536" by simp_all
  then show ?thesis using fmt len unfolding val
    by (intro exI [of _ "decimal I"] exI [of _ "zero_padded 6 D"]) (simp add: read field_simps)
qed

end
