(* ===== verification/Typing_Props.thy ===== *)
theory Typing_Props
  imports Typing Float_Props
begin

unbundle bit_operations_syntax

text \<open>
  The typing game: the linked list of linklist.h implements a sequence of letters with a pool of a thousand
  nodes, the operations of effect.c are list functions on that sequence, and the main loop runs forever
  without failing an assertion or running out of nodes.
\<close>

declare upt_rec_numeral [simp del]

section \<open>Doubly linked segments\<close>

text \<open>
  \<open>dseg p a h is b n\<close>: from \<open>h\<close> the nodes \<open>is\<close> follow each other in both directions; \<open>a\<close> is before the first
  node, \<open>b\<close> is the last node (\<open>a\<close> if there is none) and \<open>n\<close> is behind it.
\<close>

fun dseg :: "(nat \<Rightarrow> fly) \<Rightarrow> nat option \<Rightarrow> nat option \<Rightarrow> nat list \<Rightarrow> nat option \<Rightarrow> nat option \<Rightarrow> bool" where
  "dseg p a h [] b n \<longleftrightarrow> h = n \<and> b = a"
| "dseg p a h (i # is) b n \<longleftrightarrow> h = Some i \<and> fly_prev (p i) = a \<and> dseg p (Some i) (fly_next (p i)) is b n"

fun chain :: "(nat \<Rightarrow> fly) \<Rightarrow> nat option \<Rightarrow> nat list \<Rightarrow> bool" where
  "chain p h [] \<longleftrightarrow> h = None"
| "chain p h (i # is) \<longleftrightarrow> h = Some i \<and> chain p (fly_next (p i)) is"

lemma dseg_append: "dseg p a h (is @ js) b n \<longleftrightarrow> (\<exists>c m. dseg p a h is c m \<and> dseg p c m js b n)"
  by (induction "is" arbitrary: a h) auto

lemma dseg_cong:
  assumes "\<And>i. i \<in> set is \<Longrightarrow> fly_prev (p i) = fly_prev (q i) \<and> fly_next (p i) = fly_next (q i)"
  shows "dseg p a h is b n = dseg q a h is b n"
  using assms by (induction "is" arbitrary: a h) auto

lemma chain_cong:
  assumes "\<And>i. i \<in> set is \<Longrightarrow> fly_next (p i) = fly_next (q i)"
  shows "chain p h is = chain q h is"
  using assms by (induction "is" arbitrary: h) auto

lemma dseg_last: "dseg p a h is b n \<Longrightarrow> b = (if is = [] then a else Some (last is))"
  by (induction "is" arbitrary: a h) auto

lemma dseg_first: "dseg p a h is b n \<Longrightarrow> h = (if is = [] then n else Some (hd is))"
  by (induction "is" arbitrary: a h) auto

text \<open>Changing the pointer behind the last node, or before the first one.\<close>

lemma dseg_set_next:
  assumes "dseg p a h (is @ [j]) b n" "j \<notin> set is"
  shows "dseg (p(j := (p j)\<lparr>fly_next := m\<rparr>)) a h (is @ [j]) b m"
proof -
  from assms(1) obtain c k where c: "dseg p a h is c k" "dseg p c k [j] b n" by (auto simp: dseg_append)
  from c(1) have "dseg (p(j := (p j)\<lparr>fly_next := m\<rparr>)) a h is c k"
    by (subst dseg_cong [where q = p]) (use assms(2) in auto)
  with c(2) show ?thesis by (auto simp: dseg_append)
qed

lemma dseg_set_prev:
  assumes "dseg p a h (j # is) b n" "j \<notin> set is"
  shows "dseg (p(j := (p j)\<lparr>fly_prev := a'\<rparr>)) a' h (j # is) b n"
proof -
  have "dseg (p(j := (p j)\<lparr>fly_prev := a'\<rparr>)) c m is b n = dseg p c m is b n" for c m
    by (rule dseg_cong) (use assms(2) in auto)
  with assms show ?thesis by simp
qed

text \<open>Unlinking a node, as \<open>fly_remove\<close> does.\<close>

definition unlink :: "(nat \<Rightarrow> fly) \<Rightarrow> nat \<Rightarrow> nat \<Rightarrow> fly" where
  "unlink p i =
     (let q = (case fly_prev (p i) of Some k \<Rightarrow> p(k := (p k)\<lparr>fly_next := fly_next (p i)\<rparr>) | None \<Rightarrow> p) in
      case fly_next (p i) of Some k \<Rightarrow> q(k := (q k)\<lparr>fly_prev := fly_prev (p i)\<rparr>) | None \<Rightarrow> q)"

lemma dseg_unlink:
  assumes "dseg p None h (as @ i # bs) b None" "distinct (as @ i # bs)"
  shows "\<exists>b. dseg (unlink p i) None (if as = [] then fly_next (p i) else h) (as @ bs) b None"
proof -
  from assms(1) obtain c where as: "dseg p None h as c (Some i)" and prev: "fly_prev (p i) = c"
    and bs: "dseg p (Some i) (fly_next (p i)) bs b None"
    by (auto simp: dseg_append)
  note c = dseg_last [OF as] and n = dseg_first [OF bs]
  define q where "q = (case c of Some k \<Rightarrow> p(k := (p k)\<lparr>fly_next := fly_next (p i)\<rparr>) | None \<Rightarrow> p)"
  have q_as: "dseg q None (if as = [] then fly_next (p i) else h) as c (fly_next (p i))"
  proof (cases as rule: rev_cases)
    case Nil
    then show ?thesis using c by (simp add: q_def)
  next
    case (snoc as' k)
    then show ?thesis using as c assms(2) dseg_set_next [of p None h as' k c "Some i"] by (simp add: q_def)
  qed
  have "dseg q (Some i) (fly_next (p i)) bs b None = dseg p (Some i) (fly_next (p i)) bs b None"
    by (rule dseg_cong) (use assms(2) c last_in_set [of as] in \<open>auto simp: q_def disjoint_iff split: option.splits if_splits\<close>)
  with bs have q_bs: "dseg q (Some i) (fly_next (p i)) bs b None" by simp
  define r where "r = (case fly_next (p i) of Some k \<Rightarrow> q(k := (q k)\<lparr>fly_prev := c\<rparr>) | None \<Rightarrow> q)"
  have "\<exists>b. dseg r c (fly_next (p i)) bs b None"
  proof (cases bs)
    case Nil
    then show ?thesis using n by simp
  next
    case (Cons k bs')
    then show ?thesis using n q_bs assms(2) dseg_set_prev [of q "Some i" "fly_next (p i)" k bs' b None c]
      by (auto simp: r_def)
  qed
  moreover have "dseg r None (if as = [] then fly_next (p i) else h) as c (fly_next (p i))
      = dseg q None (if as = [] then fly_next (p i) else h) as c (fly_next (p i))"
    by (rule dseg_cong) (use assms(2) n hd_in_set [of bs] in \<open>auto simp: r_def disjoint_iff split: option.splits if_splits\<close>)
  moreover have "unlink p i = r" by (simp add: unlink_def r_def q_def prev Let_def split: option.split)
  ultimately obtain b' where "dseg (unlink p i) None (if as = [] then fly_next (p i) else h) as c (fly_next (p i))"
    "dseg (unlink p i) c (fly_next (p i)) bs b' None" using q_as by auto
  then show ?thesis unfolding dseg_append by blast
qed

lemma unlink_fields [simp]:
  "fly_x (unlink p i j) = fly_x (p j)" "fly_y (unlink p i j) = fly_y (p j)"
  "fly_text (unlink p i j) = fly_text (p j)" "fly_v (unlink p i j) = fly_v (p j)"
  by (auto simp: unlink_def Let_def split: option.splits)

section \<open>The sequence of letters\<close>

text \<open>A letter is a node without its links.\<close>

definition letter_of :: "fly \<Rightarrow> fly" where
  "letter_of l = l\<lparr>fly_prev := None, fly_next := None\<rparr>"

text \<open>
  The letters are in the nodes \<open>is\<close>, the nodes \<open>fs\<close> are free and the nodes \<open>xs\<close> are allocated but not in the
  list. Node 1000 ends the free list and is never handed out. Before the first allocation the free list is
  not linked yet.
\<close>

definition free_list :: "game \<Rightarrow> nat list \<Rightarrow> bool" where
  "free_list s fs \<longleftrightarrow> (if fly_free_head s = None then fs = [0..<POOL_SIZE] \<and> fly_next (fly_pool s POOL_SIZE) = None
     else chain (fly_pool s) (fly_free_head s) (fs @ [POOL_SIZE]))"

definition nodes :: "game \<Rightarrow> nat list \<Rightarrow> nat list \<Rightarrow> nat list \<Rightarrow> bool" where
  "nodes s xs is fs \<longleftrightarrow> (\<exists>b. dseg (fly_pool s) None (letters_head s) is b None)
     \<and> distinct (xs @ is @ fs) \<and> set (xs @ is @ fs) = {..<POOL_SIZE} \<and> free_list s fs"

definition letters :: "game \<Rightarrow> fly list \<Rightarrow> bool" where
  "letters s ls \<longleftrightarrow> (\<exists>is fs. nodes s [] is fs \<and> ls = map (\<lambda>i. letter_of (fly_pool s i)) is)"

lemma nodes_length: "nodes s xs is fs \<Longrightarrow> length xs + length is + length fs = POOL_SIZE"
proof -
  assume n: "nodes s xs is fs"
  then have "card (set (xs @ is @ fs)) = length (xs @ is @ fs)" by (intro distinct_card) (simp add: nodes_def)
  with n show ?thesis by (simp add: nodes_def)
qed

lemma letters_start: "letters (game_start arr rnd v) []"
  unfolding letters_def by (intro exI [of _ "[]"] exI [of _ "[0..<POOL_SIZE]"]) (auto simp: nodes_def free_list_def game_start_def)

text \<open>Updates that keep the links keep the nodes.\<close>

lemma nodes_cong:
  assumes "letters_head t = letters_head s" "fly_free_head t = fly_free_head s"
    "\<And>i. fly_prev (fly_pool t i) = fly_prev (fly_pool s i)" "\<And>i. fly_next (fly_pool t i) = fly_next (fly_pool s i)"
  shows "nodes t xs is fs = nodes s xs is fs"
proof -
  have "dseg (fly_pool t) a h js b n = dseg (fly_pool s) a h js b n" for a h js b n
    by (rule dseg_cong) (simp add: assms)
  moreover have "chain (fly_pool t) h js = chain (fly_pool s) h js" for h js
    by (rule chain_cong) (simp add: assms)
  ultimately show ?thesis by (simp add: nodes_def free_list_def assms)
qed

lemma letters_cong:
  assumes "letters_head t = letters_head s" "fly_free_head t = fly_free_head s" "fly_pool t = fly_pool s"
  shows "letters t ls = letters s ls"
  unfolding letters_def nodes_def free_list_def by (simp only: assms)

subsection \<open>Allocation\<close>

lemma chain_linked: "chain (fly_pool (link_pool s)) (Some k) ([k..<POOL_SIZE] @ [POOL_SIZE]) \<longleftrightarrow>
    fly_next (fly_pool s POOL_SIZE) = None" if "k \<le> POOL_SIZE"
  using that
proof (induction "POOL_SIZE - k" arbitrary: k)
  case 0
  then show ?case by (simp add: link_pool_def)
next
  case (Suc d)
  then have "k < POOL_SIZE" by simp
  then have "[k..<POOL_SIZE] = k # [Suc k..<POOL_SIZE]" by (simp add: upt_conv_Cons)
  then show ?case using Suc.hyps(1) [of "Suc k"] Suc.hyps(2) \<open>k < POOL_SIZE\<close> by (simp add: link_pool_def)
qed

text \<open>Taking the first node off a linked free list.\<close>

lemma take_free:
  assumes "nodes (s\<lparr>fly_free_head := Some f\<rparr>) [] is (f # fs)"
  defines "t \<equiv> set_fly f (\<lambda>l. l\<lparr>fly_prev := None, fly_next := None\<rparr>) (s\<lparr>fly_free_head := fly_next (fly_pool s f)\<rparr>)"
  shows "nodes t [f] is fs" "fly_next (fly_pool s f) \<noteq> None"
proof -
  from assms have d: "distinct (f # is @ fs)" "f < POOL_SIZE" by (auto simp: nodes_def)
  from assms obtain g where g: "fly_next (fly_pool s f) = Some g" "chain (fly_pool s) (Some g) (fs @ [POOL_SIZE])"
    by (cases fs) (auto simp: nodes_def free_list_def)
  have "dseg (fly_pool t) a h is b n = dseg (fly_pool s) a h is b n" for a h b n
    by (rule dseg_cong) (use d in \<open>auto simp: t_def set_fly_def\<close>)
  moreover have "chain (fly_pool t) h (fs @ [POOL_SIZE]) = chain (fly_pool s) h (fs @ [POOL_SIZE])" for h
    by (rule chain_cong) (use d in \<open>auto simp: t_def set_fly_def\<close>)
  ultimately show "nodes t [f] is fs" using assms(1) g by (auto simp: nodes_def free_list_def t_def set_fly_def)
  show "fly_next (fly_pool s f) \<noteq> None" using g by simp
qed

text \<open>Allocation takes the first free node; the letters keep their place and their contents.\<close>

lemma fly_new_ok:
  assumes n: "nodes s [] is (f # fs)"
    and Q: "\<And>P h. nodes (s\<lparr>fly_free_head := h, fly_pool := P\<rparr>) [f] is fs \<Longrightarrow>
      (\<And>i. letter_of (P i) = letter_of (fly_pool s i)) \<Longrightarrow> fly_prev (P f) = None \<Longrightarrow> fly_next (P f) = None \<Longrightarrow> Q f (s\<lparr>fly_free_head := h, fly_pool := P\<rparr>)"
  shows "wp fly_new Q s"
proof -
  have step: "wp (bindM (getM (\<lambda>s. fly_next (fly_pool s f))) (\<lambda>n. seqM (assertM (n \<noteq> None))
    (seqM (modM (\<lambda>s. s\<lparr>fly_free_head := n\<rparr>)) (seqM (modM (set_fly f (\<lambda>l. l\<lparr>fly_prev := None, fly_next := None\<rparr>))) (ret f))))) Q (s\<lparr>fly_pool := P\<rparr>)"
    if t: "nodes ((s\<lparr>fly_pool := P\<rparr>)\<lparr>fly_free_head := Some f\<rparr>) [] is (f # fs)" "\<And>i. letter_of (P i) = letter_of (fly_pool s i)" for P
    using take_free [OF t(1)] t(2)
    by (simp add: wp_simps set_fly_def) (rule Q, simp_all add: letter_of_def)
  show ?thesis
  proof (cases "fly_free_head s")
    case None
    then have f: "f # fs = [0..<POOL_SIZE]" "fly_next (fly_pool s POOL_SIZE) = None"
      using n by (auto simp: nodes_def free_list_def)
    have "[0..<POOL_SIZE] = 0 # [Suc 0..<POOL_SIZE]" by (rule upt_conv_Cons) simp
    with f(1) have "f = 0" by simp
    have "is = []"
    proof -
      have "length (f # fs) = POOL_SIZE" unfolding f(1) by simp
      with nodes_length [OF n] show ?thesis by simp
    qed
    with n have empty: "letters_head s = None" by (auto simp: nodes_def)
    define P where "P = fly_pool (link_pool s)"
    have P: "link_pool s = s\<lparr>fly_pool := P\<rparr>" by (simp add: P_def link_pool_def)
    have "chain P (Some 0) ((f # fs) @ [POOL_SIZE])"
      using chain_linked [of 0 s] f by (simp add: P_def)
    then have "nodes (s\<lparr>fly_pool := P, fly_free_head := Some f\<rparr>) [] is (f # fs)"
      using n empty \<open>is = []\<close> \<open>f = 0\<close> by (simp add: nodes_def free_list_def)
    moreover have "letter_of (P i) = letter_of (fly_pool s i)" for i by (simp add: P_def link_pool_def letter_of_def)
    ultimately show ?thesis using step [of P] None by (simp add: fly_new_def wp_simps P \<open>f = 0\<close>)
  next
    case (Some g)
    then have "g = f" using n by (auto simp: nodes_def free_list_def)
    with Some have "s\<lparr>fly_free_head := Some f\<rparr> = s" by (cases s) simp
    then have "nodes (s\<lparr>fly_free_head := Some f\<rparr>) [] is (f # fs)" using n by (simp only:)
    with Some \<open>g = f\<close> show ?thesis using step [of "fly_pool s"] by (simp add: fly_new_def wp_simps)
  qed
qed

text \<open>Putting an allocated node in front of the list.\<close>

definition push_front :: "nat \<Rightarrow> game \<Rightarrow> game" where
  "push_front f s =
     (case letters_head s of None \<Rightarrow> s\<lparr>letters_head := Some f\<rparr>
      | Some h \<Rightarrow> (set_fly h (\<lambda>l. l\<lparr>fly_prev := Some f\<rparr>)
          (set_fly f (\<lambda>l. l\<lparr>fly_prev := None, fly_next := Some h\<rparr>) s))\<lparr>letters_head := Some f\<rparr>)"

lemma push_front_nodes:
  assumes n: "nodes s [f] is fs" and links: "fly_prev (fly_pool s f) = None" "fly_next (fly_pool s f) = None"
  shows "nodes (push_front f s) [] (f # is) fs"
proof (cases "letters_head s")
  case None
  then have "is = []" using n by (auto simp: nodes_def dest: dseg_first split: if_splits)
  with n None links show ?thesis by (auto simp: nodes_def push_front_def free_list_def)
next
  case (Some h)
  from n have d: "distinct (f # is @ fs)" "f < POOL_SIZE" "\<forall>i\<in>set is. i < POOL_SIZE" by (auto simp: nodes_def)
  from n Some obtain js b where js: "is = h # js" "dseg (fly_pool s) None (Some h) (h # js) b None"
    by (cases "is") (auto simp: nodes_def)
  let ?p = "(fly_pool s)(f := (fly_pool s f)\<lparr>fly_prev := None, fly_next := Some h\<rparr>)"
  have "dseg ?p None (Some h) (h # js) b None = dseg (fly_pool s) None (Some h) (h # js) b None"
    by (rule dseg_cong) (use d js in auto)
  with js(2) have "dseg (?p(h := (?p h)\<lparr>fly_prev := Some f\<rparr>)) (Some f) (Some h) (h # js) b None"
    by (intro dseg_set_prev) (use d js in auto)
  moreover have "free_list (push_front f s) fs = free_list s fs"
  proof -
    have "chain (fly_pool (push_front f s)) k (fs @ [POOL_SIZE]) = chain (fly_pool s) k (fs @ [POOL_SIZE])" for k
      by (rule chain_cong) (use d js Some in \<open>auto simp: push_front_def set_fly_def\<close>)
    then show ?thesis using d js Some by (auto simp: free_list_def push_front_def set_fly_def)
  qed
  ultimately show ?thesis using n js d Some by (auto simp: nodes_def push_front_def set_fly_def)
qed

subsection \<open>A new letter\<close>

text \<open>What \<open>quiet\<close> operations leave alone.\<close>

definition quiet :: "game \<Rightarrow> game \<Rightarrow> bool" where
  "quiet s t \<longleftrightarrow> tick t = tick s \<and> interrupts_on t = interrupts_on s \<and> arrivals t = arrivals s
     \<and> arrival_pos t = arrival_pos s \<and> video t = video s \<and> real_fps t = real_fps s"

text \<open>
  The letters of the game: on the screen between the margins, falling at half a pixel to a pixel per update or
  rising at three pixels. The lowest position a letter keeps is 192.1 pixels.
\<close>

definition lowest_x :: int where "lowest_x = 12589466"

definition wf_letter :: "fly \<Rightarrow> bool" where
  "wf_letter l \<longleftrightarrow> 0 \<le> sint (fly_x l) \<and> sint (fly_x l) \<le> lowest_x \<and> 8 \<le> fly_y l \<and> fly_y l \<le> 304
     \<and> 0 \<le> fly_text l \<and> fly_text l < 26
     \<and> (fly_v l = - 196608 \<or> 32768 \<le> sint (fly_v l) \<and> sint (fly_v l) < 65536)"

definition new_letter :: "fly \<Rightarrow> bool" where
  "new_letter l \<longleftrightarrow> wf_letter l \<and> fly_x l = 0 \<and> 0 < sint (fly_v l)"

lemma half_value: "f2F 0x3f000000 = Inr 32768"
  by (simp add: f2F_def Let_def c_sar_def)

lemma size_value: "f2F 0x40fccccd = Inr 517734"
  by (simp add: f2F_def Let_def c_sar_def)

definition letter_speed :: "int \<Rightarrow> u32" where
  "letter_speed r = word_of_int ((r mod 1000) * 65536 div 2000)"

lemma speed_value: "F_div_F (int2F (word_of_int (r mod 1000))) (int2F 2000) = Inr (letter_speed r)"
proof -
  have r: "0 \<le> r mod 1000" "r mod 1000 < 1000" by simp_all
  define k where "k = r mod 1000 * 65536"
  have a: "int2F (word_of_int (r mod 1000)) = word_of_int k"
    by (simp add: int2F_def push_bit_eq_mult k_def)
  have k: "0 \<le> k" "k < 65536000" using r by (simp_all add: k_def)
  then have s: "sint (word_of_int k :: u32) = k" by (intro sint_of_int_range) auto
  have b: "int2F 2000 = 131072000" "sint (131072000 :: u32) = 131072000" by (simp_all add: int2F_def)
  have "(word_of_int k :: u32) \<noteq> 0x80000000" using s k by auto
  then have "F_div_F (word_of_int k) 131072000 = Inr (word_of_int ((k * 65536) sdiv 131072000))"
    by (subst F_div_F_eq) (simp_all add: s b)
  moreover have "(k * 65536) sdiv 131072000 = r mod 1000 * 65536 div 2000"
    using k(1) by (subst sdiv_nonneg) (simp_all add: k_def)
  ultimately show ?thesis unfolding a b letter_speed_def by simp
qed

lemma speed_range:
  assumes "v = letter_speed r + 32768"
  shows "32768 \<le> sint v" "sint v < 65536"
proof -
  define q where "q = (r mod 1000) * 65536 div 2000"
  have q: "0 \<le> q" "q < 32768" by (simp_all add: q_def pos_imp_zdiv_nonneg_iff)
  have "v = word_of_int (q + 32768)" by (simp add: assms q_def letter_speed_def)
  moreover have "sint (word_of_int (q + 32768) :: u32) = q + 32768" using q by (intro sint_of_int_range) auto
  ultimately show "32768 \<le> sint v" "sint v < 65536" using q by simp_all
qed

lemma letters_set_head:
  assumes "nodes s [] (f # is) fs" "\<And>l. fly_prev (F l) = fly_prev l \<and> fly_next (F l) = fly_next l"
  shows "nodes (set_fly f F s) [] (f # is) fs"
    "map (\<lambda>i. letter_of (fly_pool (set_fly f F s) i)) is = map (\<lambda>i. letter_of (fly_pool s i)) is"
proof -
  show "nodes (set_fly f F s) [] (f # is) fs" using assms by (subst nodes_cong [where s = s]) (auto simp: set_fly_def)
  show "map (\<lambda>i. letter_of (fly_pool (set_fly f F s) i)) is = map (\<lambda>i. letter_of (fly_pool s i)) is"
    using assms(1) by (auto simp: nodes_def set_fly_def)
qed

text \<open>The part of \<open>create_new_letter\<close> before the random values.\<close>

lemma add_front_ok:
  assumes n: "nodes s [] is (f # fs)"
    and Q: "\<And>t. nodes t [] (f # is) fs \<Longrightarrow> letters_head t = Some f \<Longrightarrow> quiet s t \<Longrightarrow>
      (\<And>i. letter_of (fly_pool t i) = letter_of (fly_pool s i)) \<Longrightarrow> game_rand t = game_rand s \<Longrightarrow> Q () t"
  shows "wp add_letter Q s"
proof -
  have end_state: "Q () (push_front f t)"
    if t: "t = s\<lparr>fly_free_head := h, fly_pool := P\<rparr>" "nodes t [f] is fs" "\<And>i. letter_of (P i) = letter_of (fly_pool s i)"
      "fly_prev (P f) = None" "fly_next (P f) = None" for t h P
  proof (rule Q)
    show "nodes (push_front f t) [] (f # is) fs" using t by (intro push_front_nodes) auto
    show "letters_head (push_front f t) = Some f" "quiet s (push_front f t)" "game_rand (push_front f t) = game_rand s"
      by (auto simp: push_front_def quiet_def set_fly_def t(1) split: option.split)
    show "letter_of (fly_pool (push_front f t) i) = letter_of (fly_pool s i)" for i
      using t(3) [of i] by (auto simp: push_front_def set_fly_def t(1) letter_of_def split: option.split)
  qed
  show ?thesis
  proof (cases "letters_head s")
    case None
    show ?thesis unfolding add_letter_def wp_bindM wp_getM None option.case
    proof (rule fly_new_ok [OF n])
      fix P h
      assume "nodes (s\<lparr>fly_free_head := h, fly_pool := P\<rparr>) [f] is fs" "\<And>i. letter_of (P i) = letter_of (fly_pool s i)"
        "fly_prev (P f) = None" "fly_next (P f) = None"
      from end_state [OF refl this] None
      show "wp (modM (\<lambda>s. s\<lparr>letters_head := Some f\<rparr>)) Q (s\<lparr>fly_free_head := h, fly_pool := P\<rparr>)"
        by (simp add: wp_simps push_front_def)
    qed
  next
    case (Some g)
    then have "f \<noteq> g" using n by (cases "is") (auto simp: nodes_def)
    show ?thesis unfolding add_letter_def wp_bindM wp_getM Some option.case
    proof (rule fly_new_ok [OF n])
      fix P h
      assume a: "nodes (s\<lparr>fly_free_head := h, fly_pool := P\<rparr>) [f] is fs" "\<And>i. letter_of (P i) = letter_of (fly_pool s i)"
        "fly_prev (P f) = None" "fly_next (P f) = None"
      from end_state [OF refl this] Some \<open>f \<noteq> g\<close>
      show "wp (seqM (fly_insert None (Some g) f) (modM (\<lambda>s. s\<lparr>letters_head := Some f\<rparr>))) Q (s\<lparr>fly_free_head := h, fly_pool := P\<rparr>)"
        by (simp add: wp_simps push_front_def fly_insert_def set_fly_def)
    qed
  qed
qed

lemma wp_liftE_Inr [wp_simps]: "wp (liftE (Inr x)) Q = Q x"
  by (rule ext) (simp add: liftE_def wp_simps)

definition rand_value :: "game \<Rightarrow> nat \<Rightarrow> int" where
  "rand_value s k = int (game_rand s k mod 2 ^ 31)"

lemma rand_value_props [simp]:
  "0 \<le> rand_value s k" "rand_value (s\<lparr>game_rand_pos := p\<rparr>) k = rand_value s k"
  "rand_value (s\<lparr>fly_pool := P\<rparr>) k = rand_value s k"
  by (simp_all add: rand_value_def)

lemma wp_rand [wp_simps]:
  "wp rand Q = (\<lambda>s. Q (rand_value s (game_rand_pos s)) (s\<lparr>game_rand_pos := Suc (game_rand_pos s)\<rparr>))"
  by (rule ext) (simp add: rand_def rand_value_def wp_simps)

lemma smod_nonneg: "0 \<le> a \<Longrightarrow> 0 < b \<Longrightarrow> a smod b = a mod (b :: int)"
  by (cases "a = 0") (simp_all add: signed_modulo_int_def)

lemma init_letter_ok:
  assumes "nodes s [] (f # is) fs"
  shows "wp (init_letter f) (\<lambda>_ t. \<exists>l. nodes t [] (f # is) fs \<and> letter_of (fly_pool t f) = l \<and> new_letter l \<and> quiet s t
    \<and> (\<forall>i\<in>set is. fly_pool t i = fly_pool s i) \<and> \<not> letter_pressed t (nat (fly_text l)) \<and> game_rand t = game_rand s) s"
proof -
  define r1 r2 r3 where "r1 = rand_value s (game_rand_pos s)"
    and "r2 = rand_value s (Suc (game_rand_pos s))"
    and "r3 = rand_value s (Suc (Suc (game_rand_pos s)))"
  define v where "v = letter_speed r2 + 32768"
  define l where "l = \<lparr>fly_x = 0, fly_y = r1 mod 38 * 8 + 8, fly_text = r3 mod 26, fly_v = v, fly_prev = None, fly_next = None\<rparr>"
  have "r1 mod 38 \<le> 37" using pos_mod_bound [of 38 r1] by simp
  then have "new_letter l"
    using speed_range [OF v_def] by (auto simp: new_letter_def wf_letter_def l_def lowest_x_def)
  moreover define t where "t = s\<lparr>game_rand_pos := Suc (Suc (Suc (game_rand_pos s))),
    fly_pool := (fly_pool s)(f := (fly_pool s f)\<lparr>fly_x := 0, fly_y := fly_y l, fly_v := v, fly_text := fly_text l\<rparr>),
    letter_pressed := (letter_pressed s)(nat (fly_text l) := False)\<rparr>"
  have "wp (init_letter f) (\<lambda>_ u. u = t) s"
    by (simp add: init_letter_def wp_simps set_fly_def release_key_def half_value speed_value smod_nonneg
      t_def l_def v_def r1_def r2_def r3_def)
  then have "init_letter f s = Ret () t" by (simp add: wp_Ret_iff)
  moreover have "nodes t [] (f # is) fs" using assms by (subst nodes_cong [where s = s]) (auto simp: t_def set_fly_def)
  moreover have "quiet s t" by (simp add: quiet_def t_def set_fly_def)
  moreover have "\<forall>i\<in>set is. fly_pool t i = fly_pool s i" using assms by (auto simp: t_def set_fly_def nodes_def)
  moreover have "letter_of (fly_pool t f) = l" by (simp add: t_def set_fly_def letter_of_def l_def)
  ultimately show ?thesis unfolding wp_Ret_iff by (auto simp: t_def set_fly_def)
qed

text \<open>
  A new letter is put in front of the others. Three random numbers give its column, speed and character; a key
  press of that character that is still pending is dropped.
\<close>

lemma create_new_letter_ok:
  assumes "letters s ls" "length ls < POOL_SIZE"
  shows "wp create_new_letter (\<lambda>_ t. \<exists>l. letters t (l # ls) \<and> new_letter l \<and> quiet s t
    \<and> \<not> letter_pressed t (nat (fly_text l)) \<and> game_rand t = game_rand s) s"
proof -
  from assms(1) obtain "is" fs0 where n0: "nodes s [] is fs0" and ls: "ls = map (\<lambda>i. letter_of (fly_pool s i)) is"
    by (auto simp: letters_def)
  from nodes_length [OF n0] assms(2) ls obtain f fs where "fs0 = f # fs" by (cases fs0) auto
  with n0 have n: "nodes s [] is (f # fs)" by simp
  show ?thesis unfolding create_new_letter_def wp_seqM
  proof (rule add_front_ok [OF n])
    fix t
    assume t: "nodes t [] (f # is) fs" "letters_head t = Some f" "quiet s t"
      "\<And>i. letter_of (fly_pool t i) = letter_of (fly_pool s i)" "game_rand t = game_rand s"
    from init_letter_ok [OF t(1)]
    show "wp (bindM (bindM (getM letters_head) the_node) init_letter)
      (\<lambda>_ t. \<exists>l. letters t (l # ls) \<and> new_letter l \<and> quiet s t \<and> \<not> letter_pressed t (nat (fly_text l)) \<and> game_rand t = game_rand s) t"
      unfolding wp_bindM wp_getM t(2) the_node_def option.case wp_ret
    proof (rule wp_mono)
      fix x u
      assume u: "\<exists>l. nodes u [] (f # is) fs \<and> letter_of (fly_pool u f) = l \<and> new_letter l \<and> quiet t u
        \<and> (\<forall>i\<in>set is. fly_pool u i = fly_pool t i) \<and> \<not> letter_pressed u (nat (fly_text l)) \<and> game_rand u = game_rand t"
      then have "letters u (letter_of (fly_pool u f) # ls)"
        unfolding letters_def by (intro exI [of _ "f # is"] exI [of _ fs]) (auto simp: ls t(4))
      with u t show "\<exists>l. letters u (l # ls) \<and> new_letter l \<and> quiet s u \<and> \<not> letter_pressed u (nat (fly_text l)) \<and> game_rand u = game_rand s"
        by (auto simp: quiet_def)
    qed
  qed
qed

subsection \<open>Moving the letters\<close>

definition moved :: "fly \<Rightarrow> fly" where
  "moved l = l\<lparr>fly_x := fly_x l + fly_v l\<rparr>"

definition gone :: "fly \<Rightarrow> bool" where
  "gone l \<longleftrightarrow> fly_x l <s 0 \<or> int2F 200 <s fly_x l + 517734"

lemma run_fly_remove: "fly_remove i s = Ret () (s\<lparr>fly_pool := unlink (fly_pool s) i\<rparr>)"
  by (cases "fly_prev (fly_pool s i)"; cases "fly_next (fly_pool s i)")
    (simp_all add: fly_remove_def unlink_def set_fly_def Let_def)

text \<open>Unlinking a letter and freeing its node.\<close>

definition drop_letter :: "nat \<Rightarrow> nat option \<Rightarrow> game \<Rightarrow> game" where
  "drop_letter i n s =
     s\<lparr>fly_pool := (let p = unlink (fly_pool s) i in p(i := (p i)\<lparr>fly_next := fly_free_head s\<rparr>)),
       fly_free_head := Some i, letters_head := (if letters_head s = Some i then n else letters_head s)\<rparr>"

lemma drop_letter_nodes:
  assumes n: "nodes s [] (as @ i # bs) fs"
  shows "nodes (drop_letter i (fly_next (fly_pool s i)) s) [] (as @ bs) (i # fs)"
proof -
  let ?t = "drop_letter i (fly_next (fly_pool s i)) s"
  from n obtain b where seg: "dseg (fly_pool s) None (letters_head s) (as @ i # bs) b None" by (auto simp: nodes_def)
  from n have d: "distinct (as @ i # bs @ fs)" "set (as @ i # bs @ fs) = {..<POOL_SIZE}" by (auto simp: nodes_def)
  have head: "letters_head ?t = (if as = [] then fly_next (fly_pool s i) else letters_head s)"
    using dseg_first [OF seg] d(1) by (auto simp: drop_letter_def)
  have "distinct (as @ i # bs)" using d(1) by auto
  from dseg_unlink [OF seg this] obtain b' where b':
    "dseg (unlink (fly_pool s) i) None (letters_head ?t) (as @ bs) b' None" unfolding head by auto
  moreover have "dseg (fly_pool ?t) a h (as @ bs) c m = dseg (unlink (fly_pool s) i) a h (as @ bs) c m" for a h c m
    by (rule dseg_cong) (use d in \<open>auto simp: drop_letter_def Let_def\<close>)
  ultimately have "\<exists>b. dseg (fly_pool ?t) None (letters_head ?t) (as @ bs) b None" by auto
  moreover have "free_list ?t (i # fs)"
  proof -
    have "i < POOL_SIZE" "i \<notin> set fs" using d by auto
    then have "fly_free_head s \<noteq> None" using n by (auto simp: nodes_def free_list_def)
    then have chain: "chain (fly_pool s) (fly_free_head s) (fs @ [POOL_SIZE])" using n by (auto simp: nodes_def free_list_def)
    have other: "fly_next (fly_pool ?t j) = fly_next (fly_pool s j)" if "j \<in> set (fs @ [POOL_SIZE])" for j
    proof -
      from seg obtain c m where c: "dseg (fly_pool s) None (letters_head s) as c (Some i)" "fly_prev (fly_pool s i) = c"
        "dseg (fly_pool s) (Some i) (fly_next (fly_pool s i)) bs b None" by (auto simp: dseg_append)
      have "last as < POOL_SIZE" if "as \<noteq> []" using d(2) last_in_set [OF that] by auto
      then have "c \<noteq> Some j" using dseg_last [OF c(1)] that d last_in_set [of as] by (auto simp: disjoint_iff split: if_splits)
      moreover have "j \<noteq> i" using that d by auto
      ultimately show ?thesis using c(2) by (auto simp: drop_letter_def unlink_def Let_def split: option.split)
    qed
    have "chain (fly_pool ?t) (fly_free_head s) (fs @ [POOL_SIZE])"
      using chain by (subst chain_cong [where q = "fly_pool s"]) (use other in auto)
    then show ?thesis by (simp add: free_list_def drop_letter_def Let_def)
  qed
  ultimately show ?thesis using d by (auto simp: nodes_def)
qed

lemma drop_letter_contents [simp]: "letter_of (fly_pool (drop_letter i n s) j) = letter_of (fly_pool s j)"
  by (simp add: drop_letter_def Let_def letter_of_def)

lemma run_update_letter:
  "update_letter i n s =
    (let t = set_fly i moved s; l = moved (fly_pool s i) in
     Ret () (if gone l then drop_letter i n (if fly_x l <s 0 then t\<lparr>hit := hit s + 1\<rparr> else t\<lparr>miss := miss s + 1\<rparr>) else t))"
  by (simp add: update_letter_def size_value liftE_def moved_def gone_def set_fly_def drop_letter_def run_fly_remove
    fly_free_def Let_def run_simps)

text \<open>
  The loop over the rest \<open>bs\<close> of the list, after the letters \<open>as\<close>: every letter moves by its speed, and those
  that leave the screen are taken out and counted.
\<close>

definition hits :: "fly list \<Rightarrow> u32" where
  "hits ls = of_nat (length (filter (\<lambda>l. fly_x l <s 0) ls))"

definition misses :: "fly list \<Rightarrow> u32" where
  "misses ls = of_nat (length (filter (\<lambda>l. \<not> fly_x l <s 0 \<and> gone l) ls))"

definition contents :: "game \<Rightarrow> nat list \<Rightarrow> fly list" where
  "contents s is = map (\<lambda>i. letter_of (fly_pool s i)) is"

lemma contents_simps [simp]: "contents s [] = []" "contents s (i # is) = letter_of (fly_pool s i) # contents s is"
  by (simp_all add: contents_def)

lemma moved_letter_of [simp]: "moved (letter_of l) = letter_of (moved l)"
  by (simp add: letter_of_def moved_def)

lemma gone_letter_of [simp]: "gone (letter_of l) = gone l" "fly_x (letter_of l) = fly_x l"
  "fly_v (letter_of l) = fly_v l" "fly_text (letter_of l) = fly_text l" "fly_y (letter_of l) = fly_y l"
  by (simp_all add: gone_def letter_of_def)

lemma first_of_rest:
  assumes "nodes s [] (as @ i # bs) fs"
  shows "fly_next (fly_pool s i) = (case bs of [] \<Rightarrow> None | j # _ \<Rightarrow> Some j)"
  using assms by (cases bs) (auto simp: nodes_def dseg_append)

lemma update_letters_ok:
  assumes "nodes s [] (as @ bs) fs" "length bs \<le> n"
  shows "wp (update_letters n (case bs of [] \<Rightarrow> None | j # _ \<Rightarrow> Some j)) (\<lambda>_ t. \<exists>js fs'. nodes t [] (as @ js) fs'
      \<and> contents t (as @ js) = contents s as @ filter (\<lambda>l. \<not> gone l) (map moved (contents s bs))
      \<and> hit t = hit s + hits (map moved (contents s bs)) \<and> miss t = miss s + misses (map moved (contents s bs))
      \<and> letter_pressed t = letter_pressed s \<and> game_rand t = game_rand s \<and> quiet s t) s"
  using assms
proof (induction n arbitrary: s as bs fs)
  case 0
  then show ?case by (auto simp: wp_simps hits_def misses_def quiet_def contents_def intro!: exI [of _ fs])
next
  case (Suc n)
  show ?case
  proof (cases bs)
    case Nil
    with Suc.prems show ?thesis by (auto simp: wp_simps hits_def misses_def quiet_def contents_def intro!: exI [of _ fs])
  next
    case (Cons i cs)
    note n = Suc.prems(1) [unfolded Cons]
    let ?nx = "case cs of [] \<Rightarrow> None | j # _ \<Rightarrow> Some j"
    let ?l = "moved (fly_pool s i)"
    define u where "u = (let u = set_fly i moved s in if \<not> gone ?l then u
      else if fly_x ?l <s 0 then u\<lparr>hit := hit s + 1\<rparr> else u\<lparr>miss := miss s + 1\<rparr>)"
    have pool: "fly_pool u = (fly_pool s)(i := ?l)" by (simp add: u_def set_fly_def Let_def)
    have nu: "nodes u [] (as @ i # cs) fs"
      using n by (subst nodes_cong [where s = s]) (auto simp: u_def set_fly_def moved_def Let_def)
    define t where "t = (if gone ?l then drop_letter i ?nx u else u)"
    have step: "update_letter i ?nx s = Ret () t"
      by (simp add: run_update_letter t_def u_def Let_def)
    define as' where "as' = (if gone ?l then as else as @ [i])"
    obtain fs' where nt: "nodes t [] (as' @ cs) fs'"
    proof (cases "gone ?l")
      case True
      have "nodes t [] (as @ cs) (i # fs)"
        using drop_letter_nodes [OF nu] True first_of_rest [OF nu] by (simp add: t_def)
      with True that show ?thesis by (simp add: as'_def)
    qed (use that nu in \<open>auto simp: t_def as'_def\<close>)
    have d: "i \<notin> set as" "i \<notin> set cs" using n by (auto simp: nodes_def)
    then have c: "contents t as' = contents s as @ filter (\<lambda>l. \<not> gone l) [moved (letter_of (fly_pool s i))]"
        "contents t cs = contents s cs"
      by (auto simp: t_def as'_def contents_def pool)
    have rest: "hit t + hits (map moved (contents s cs)) = hit s + hits (map moved (contents s bs))"
      "miss t + misses (map moved (contents s cs)) = miss s + misses (map moved (contents s bs))"
      "letter_pressed t = letter_pressed s" "game_rand t = game_rand s" "quiet s t"
      using Cons by (auto simp: t_def u_def drop_letter_def set_fly_def Let_def hits_def misses_def quiet_def contents_def gone_def)
    have "length cs \<le> n" using Suc.prems(2) Cons by simp
    from Suc.IH [OF nt this]
    have "wp (update_letters n ?nx) (\<lambda>_ t'. \<exists>js fs'. nodes t' [] (as @ js) fs'
      \<and> contents t' (as @ js) = contents s as @ filter (\<lambda>l. \<not> gone l) (map moved (contents s bs))
      \<and> hit t' = hit s + hits (map moved (contents s bs)) \<and> miss t' = miss s + misses (map moved (contents s bs))
      \<and> letter_pressed t' = letter_pressed s \<and> game_rand t' = game_rand s \<and> quiet s t') t"
    proof (rule wp_mono)
      fix x t'
      assume "\<exists>js fs'. nodes t' [] (as' @ js) fs'
        \<and> contents t' (as' @ js) = contents t as' @ filter (\<lambda>l. \<not> gone l) (map moved (contents t cs))
        \<and> hit t' = hit t + hits (map moved (contents t cs)) \<and> miss t' = miss t + misses (map moved (contents t cs))
        \<and> letter_pressed t' = letter_pressed t \<and> game_rand t' = game_rand t \<and> quiet t t'"
      then obtain js fs' where js: "nodes t' [] (as' @ js) fs'"
        "contents t' (as' @ js) = contents s as @ filter (\<lambda>l. \<not> gone l) (map moved (contents s bs))"
        "hit t' = hit t + hits (map moved (contents s cs))" "miss t' = miss t + misses (map moved (contents s cs))"
        "letter_pressed t' = letter_pressed s" "game_rand t' = game_rand s" "quiet t t'"
        using c rest(3,4) Cons by auto
      have q: "quiet s t'" using js(7) rest(5) by (simp add: quiet_def)
      obtain ks where "as' @ js = as @ ks" by (cases "gone ?l") (auto simp: as'_def)
      with js q rest show "\<exists>js fs'. nodes t' [] (as @ js) fs'
        \<and> contents t' (as @ js) = contents s as @ filter (\<lambda>l. \<not> gone l) (map moved (contents s bs))
        \<and> hit t' = hit s + hits (map moved (contents s bs)) \<and> miss t' = miss s + misses (map moved (contents s bs))
        \<and> letter_pressed t' = letter_pressed s \<and> game_rand t' = game_rand s \<and> quiet s t'" by metis
    qed
    then show ?thesis using step Cons first_of_rest [OF n] by (simp add: wp_def)
  qed
qed

lemma update_letter_pos_ok:
  assumes "letters s ls"
  shows "wp update_letter_pos (\<lambda>_ t. letters t (filter (\<lambda>l. \<not> gone l) (map moved ls))
    \<and> hit t = hit s + hits (map moved ls) \<and> miss t = miss s + misses (map moved ls)
    \<and> letter_pressed t = letter_pressed s \<and> game_rand t = game_rand s \<and> quiet s t) s"
proof -
  from assms obtain "is" fs where n: "nodes s [] ([] @ is) fs" and ls: "ls = contents s is"
    by (auto simp: letters_def contents_def)
  have head: "letters_head s = (case is of [] \<Rightarrow> None | j # _ \<Rightarrow> Some j)"
    using n by (cases "is") (auto simp: nodes_def)
  have "length is \<le> Suc POOL_SIZE" using nodes_length [OF n] by simp
  from update_letters_ok [OF n this] show ?thesis
    unfolding update_letter_pos_def wp_bindM wp_getM head
    by (rule wp_mono) (auto simp: letters_def contents_def ls)
qed

subsection \<open>Hitting a letter\<close>

text \<open>A letter that a key can hit: it falls and its key is pressed.\<close>

definition hittable :: "(nat \<Rightarrow> bool) \<Rightarrow> fly \<Rightarrow> bool" where
  "hittable pressed l \<longleftrightarrow> 0 <s fly_v l \<and> pressed (nat (fly_text l))"

lemma hittable_letter_of [simp]: "hittable p (letter_of l) = hittable p l"
  by (simp add: hittable_def)

text \<open>
  The search through the nodes \<open>bs\<close> keeps its candidate if no letter can be hit below \<open>lowest\<close>, and otherwise
  finds a letter that no other one is below.
\<close>

definition lowest_target :: "game \<Rightarrow> nat list \<Rightarrow> u32 \<Rightarrow> nat option \<Rightarrow> nat option \<Rightarrow> bool" where
  "lowest_target s bs lowest target r \<longleftrightarrow>
     (let C = {i \<in> set bs. hittable (letter_pressed s) (fly_pool s i)} in
      r = target \<and> (\<forall>i\<in>C. fly_x (fly_pool s i) \<le>s lowest)
      \<or> (\<exists>i\<in>C. r = Some i \<and> lowest <s fly_x (fly_pool s i) \<and> (\<forall>j\<in>C. fly_x (fly_pool s j) \<le>s fly_x (fly_pool s i))))"

lemma find_target_ok:
  assumes "nodes s [] (as @ bs) fs" "length bs \<le> n" "\<forall>i\<in>set bs. 0 \<le> fly_text (fly_pool s i) \<and> fly_text (fly_pool s i) < 26"
  shows "wp (find_target n (case bs of [] \<Rightarrow> None | j # _ \<Rightarrow> Some j) lowest target)
     (\<lambda>r t. t = s \<and> lowest_target s bs lowest target r) s"
  using assms
proof (induction n arbitrary: as bs lowest target)
  case 0
  then show ?case by (simp add: wp_simps lowest_target_def)
next
  case (Suc n)
  show ?case
  proof (cases bs)
    case Nil
    then show ?thesis by (simp add: wp_simps lowest_target_def)
  next
    case (Cons i cs)
    let ?l = "fly_pool s i"
    let ?take = "0 <s fly_v ?l \<and> lowest <s fly_x ?l \<and> letter_pressed s (nat (fly_text ?l))"
    have nxt: "fly_next ?l = (case cs of [] \<Rightarrow> None | j # _ \<Rightarrow> Some j)"
      using first_of_rest [of s as i cs fs] Suc.prems(1) Cons by simp
    have "nodes s [] ((as @ [i]) @ cs) fs" "length cs \<le> n" using Suc.prems Cons by auto
    note IH = Suc.IH [OF this]
    have "wp (find_target n (fly_next ?l) (if ?take then fly_x ?l else lowest) (if ?take then Some i else target)) Q s \<Longrightarrow>
      wp (find_target (Suc n) (case bs of [] \<Rightarrow> None | j # _ \<Rightarrow> Some j) lowest target) Q s" for Q
      using Suc.prems(3) Cons by (auto simp: wp_simps query_key_def split: if_splits)
    moreover have "wp (find_target n (fly_next ?l) (if ?take then fly_x ?l else lowest) (if ?take then Some i else target))
      (\<lambda>r t. t = s \<and> lowest_target s bs lowest target r) s"
      unfolding nxt
      by (rule wp_mono [OF IH]) (use Suc.prems(3) Cons in
        \<open>auto simp: lowest_target_def hittable_def word_sle_eq word_sless_alt Let_def split: if_splits\<close>)
    ultimately show ?thesis by simp
  qed
qed

text \<open>What interrupts leave alone, and the time they advance.\<close>

definition ticks :: "event list \<Rightarrow> nat" where
  "ticks es = length (filter (\<lambda>e. e = Timer_event) es)"

definition after_interrupts :: "game \<Rightarrow> game \<Rightarrow> bool" where
  "after_interrupts s t \<longleftrightarrow> fly_pool t = fly_pool s \<and> fly_free_head t = fly_free_head s \<and> letters_head t = letters_head s
     \<and> game_rand t = game_rand s \<and> video t = video s \<and> arrivals t = arrivals s \<and> interrupts_on t = interrupts_on s
     \<and> hit t = hit s \<and> miss t = miss s \<and> real_fps t = real_fps s"

lemma after_interrupts_letters: "after_interrupts s t \<Longrightarrow> letters t ls = letters s ls"
  by (rule letters_cong) (simp_all add: after_interrupts_def)

lemma handle_events_ok:
  "wp (forM es handle_event) (\<lambda>_ t. after_interrupts s t \<and> tick t = tick s + of_nat (ticks es) \<and> arrival_pos t = arrival_pos s) s"
proof (rule wp_forM [where I = "\<lambda>ds t. after_interrupts s t \<and> tick t = tick s + of_nat (ticks ds) \<and> arrival_pos t = arrival_pos s"])
  fix "done" e rest t
  assume t: "after_interrupts s t \<and> tick t = tick s + of_nat (ticks done) \<and> arrival_pos t = arrival_pos s"
  show "wp (handle_event e) (\<lambda>_ t. after_interrupts s t \<and> tick t = tick s + of_nat (ticks (done @ [e])) \<and> arrival_pos t = arrival_pos s) t"
  proof (cases e)
    case Timer_event
    with t show ?thesis by (simp add: handle_event_def timer_event_def wp_simps ticks_def after_interrupts_def)
  next
    case (Keyboard_event c)
    have "wp (press_key c) (\<lambda>_ u. after_interrupts s u \<and> tick u = tick t \<and> arrival_pos u = arrival_pos t) u"
      if "after_interrupts s u \<and> tick u = tick t \<and> arrival_pos u = arrival_pos t" for u
      unfolding press_key_def
      by (rule wp_for_upt [where I = "\<lambda>_ u. after_interrupts s u \<and> tick u = tick t \<and> arrival_pos u = arrival_pos t"])
        (use that in \<open>auto simp: wp_simps after_interrupts_def\<close>)
    from this [of "t\<lparr>key_code := c\<rparr>"] t Keyboard_event show ?thesis
      by (simp add: handle_event_def keyboard_event_def wp_simps ticks_def) (simp add: after_interrupts_def)
  qed
qed (simp_all add: after_interrupts_def ticks_def)

lemma take_interrupts_ok:
  "wp take_interrupts (\<lambda>_ t. after_interrupts s t \<and> tick t = tick s + of_nat (ticks (arrivals s (arrival_pos s)))
    \<and> arrival_pos t = Suc (arrival_pos s)) s"
  unfolding take_interrupts_def wp_bindM wp_getM wp_seqM wp_modM
  by (rule wp_mono [OF handle_events_ok]) (auto simp: after_interrupts_def)

text \<open>
  What \<open>update_keypress\<close> does. If no letter can be hit it switches interrupts on and takes those that
  wait. Otherwise it turns one letter, which no other hittable letter is below, upward, and clears
  the key; interrupts stay off.
\<close>

definition same_run :: "game \<Rightarrow> game \<Rightarrow> bool" where
  "same_run s t \<longleftrightarrow> arrivals t = arrivals s \<and> video t = video s \<and> game_rand t = game_rand s \<and> real_fps t = real_fps s"

definition hit_letter :: "game \<Rightarrow> fly list \<Rightarrow> nat \<Rightarrow> game \<Rightarrow> bool" where
  "hit_letter s ls k t \<longleftrightarrow> k < length ls \<and> hittable (letter_pressed s) (ls ! k)
     \<and> (\<forall>l\<in>set ls. hittable (letter_pressed s) l \<longrightarrow> fly_x l \<le>s fly_x (ls ! k))
     \<and> letters t (ls[k := (ls ! k)\<lparr>fly_v := - int2F 3\<rparr>])
     \<and> letter_pressed t = (letter_pressed s)(nat (fly_text (ls ! k)) := False)
     \<and> \<not> interrupts_on t \<and> tick t = tick s \<and> arrival_pos t = arrival_pos s"

definition no_letter_hit :: "game \<Rightarrow> fly list \<Rightarrow> game \<Rightarrow> bool" where
  "no_letter_hit s ls t \<longleftrightarrow> (\<forall>l\<in>set ls. \<not> hittable (letter_pressed s) l) \<and> letters t ls \<and> interrupts_on t
     \<and> tick t = tick s + of_nat (ticks (arrivals s (arrival_pos s))) \<and> arrival_pos t = Suc (arrival_pos s)"

lemma update_keypress_ok:
  assumes "letters s ls" "\<forall>l\<in>set ls. wf_letter l"
  shows "wp update_keypress (\<lambda>b t. same_run s t \<and> (if b then \<exists>k. hit_letter s ls k t else no_letter_hit s ls t)) s"
proof -
  from assms(1) obtain "is" fs where n: "nodes s [] ([] @ is) fs" and ls: "ls = contents s is"
    by (auto simp: letters_def contents_def)
  have d: "distinct is" using n by (auto simp: nodes_def)
  let ?s = "s\<lparr>interrupts_on := False\<rparr>"
  have n': "nodes ?s [] ([] @ is) fs" using n by (subst nodes_cong [where s = s]) auto
  have head: "letters_head ?s = (case is of [] \<Rightarrow> None | j # _ \<Rightarrow> Some j)"
    using n by (cases "is") (auto simp: nodes_def)
  have wf: "wf_letter (letter_of (fly_pool s i))" if "i \<in> set is" for i using assms(2) that by (simp add: ls contents_def)
  then have range: "\<forall>i\<in>set is. 0 \<le> fly_text (fly_pool ?s i) \<and> fly_text (fly_pool ?s i) < 26"
    by (auto simp: wf_letter_def)
  have "- int2F 100 <s fly_x (fly_pool s i)" if "i \<in> set is" for i
    using wf [OF that] by (auto simp: wf_letter_def int2F_def word_sless_alt)
  then have above: "\<forall>i\<in>set is. - int2F 100 <s fly_x (fly_pool s i)" by blast
  have len: "length is \<le> Suc POOL_SIZE" using nodes_length [OF n] by simp
  show ?thesis unfolding update_keypress_def game_cli_def wp_seqM wp_modM wp_bindM wp_getM head
  proof (rule wp_mono [OF find_target_ok [OF n' len range]])
    fix r t
    assume "t = ?s \<and> lowest_target ?s is (- int2F 100) None r"
    then have t: "t = ?s" and best: "lowest_target ?s is (- int2F 100) None r" by auto
    show "wp (case r of
         Some i \<Rightarrow> bindM (getM (\<lambda>s. fly_text (fly_pool s i))) (\<lambda>c.
           seqM (release_key c) (seqM (modM (set_fly i (\<lambda>l. l\<lparr>fly_v := - int2F 3\<rparr>))) (ret True)))
       | None \<Rightarrow> seqM game_sti (ret False))
      (\<lambda>b t. same_run s t \<and> (if b then \<exists>k. hit_letter s ls k t else no_letter_hit s ls t)) t"
    proof (cases r)
      case None
      with best have none: "\<forall>l\<in>set ls. \<not> hittable (letter_pressed s) l"
        using above by (fastforce simp: lowest_target_def ls contents_def Let_def word_sle_eq word_sless_alt)
      let ?u = "s\<lparr>interrupts_on := True\<rparr>"
      have "letters ?u ls" using assms(1) by (subst letters_cong [where s = s]) simp_all
      then have after: "after_interrupts ?u v \<Longrightarrow> letters v ls" for v by (simp add: after_interrupts_letters)
      show ?thesis unfolding None option.case game_sti_def wp_seqM wp_modM wp_ret t
        by (rule wp_mono [OF take_interrupts_ok])
          (use none after in \<open>auto simp: no_letter_hit_def same_run_def after_interrupts_def\<close>)
    next
      case (Some i)
      with best have i: "i \<in> set is" "hittable (letter_pressed s) (fly_pool s i)"
        "\<forall>j\<in>set is. hittable (letter_pressed s) (fly_pool s j) \<longrightarrow> fly_x (fly_pool s j) \<le>s fly_x (fly_pool s i)"
        by (auto simp: lowest_target_def Let_def)
      then obtain k where k: "k < length is" "is ! k = i" by (auto simp: in_set_conv_nth)
      let ?u = "set_fly i (\<lambda>l. l\<lparr>fly_v := - int2F 3\<rparr>) (?s\<lparr>letter_pressed := (letter_pressed s)(nat (fly_text (fly_pool s i)) := False)\<rparr>)"
      have "nodes ?u [] is fs" using n by (subst nodes_cong [where s = s]) (auto simp: set_fly_def)
      moreover have "contents ?u is = ls[k := (ls ! k)\<lparr>fly_v := - int2F 3\<rparr>]"
        using d k by (auto simp: list_eq_iff_nth_eq ls contents_def set_fly_def letter_of_def nth_list_update nth_eq_iff_index_eq)
      ultimately have "letters ?u (ls[k := (ls ! k)\<lparr>fly_v := - int2F 3\<rparr>])" by (auto simp: letters_def contents_def)
      moreover have "k < length ls" "ls ! k = letter_of (fly_pool s i)" using k by (simp_all add: ls contents_def)
      ultimately have "hit_letter s ls k ?u"
        using i by (auto simp: hit_letter_def ls contents_def set_fly_def)
      moreover have "same_run s ?u" by (simp add: same_run_def set_fly_def)
      ultimately show ?thesis using range i(1) unfolding Some t
        by (auto simp: wp_simps release_key_def)
    qed
  qed
qed

end
