(* ===== verification/Typing_Run.thy ===== *)
theory Typing_Run
  imports Typing_Props
begin

unbundle bit_operations_syntax

text \<open>
  The main loop of the typing game. A letter lives at most 450 updates, and a new one comes every 33
  ticks, so there are never more than 14; nothing is drawn outside the screen.
\<close>

section \<open>The life of a letter\<close>

text \<open>
  An upper bound for the updates a letter survives: it falls at least half a pixel in each, and once hit
  rises three pixels in each.
\<close>

definition life :: "fly \<Rightarrow> int" where
  "life l = (if 0 <s fly_v l then (lowest_x - sint (fly_x l)) div 32768 + 66 else sint (fly_x l) div 196608 + 1)"

lemma life_pos: "wf_letter l \<Longrightarrow> 1 \<le> life l"
  by (auto simp: life_def wf_letter_def pos_imp_zdiv_nonneg_iff)

lemma life_new: "new_letter l \<Longrightarrow> life l = 450"
  by (simp add: life_def new_letter_def lowest_x_def word_sless_alt)

lemma life_moved:
  assumes l: "wf_letter l" and stays: "\<not> gone (moved l)"
  shows "wf_letter (moved l)" "life (moved l) \<le> life l - 1"
proof -
  define x v where "x = sint (fly_x l)" and "v = sint (fly_v l)"
  have v: "v = - 196608 \<or> 32768 \<le> v \<and> v < 65536" using l by (auto simp: wf_letter_def v_def)
  have x: "0 \<le> x" "x \<le> lowest_x" using l by (auto simp: wf_letter_def x_def)
  have sum: "sint (fly_x (moved l)) = x + v"
  proof -
    have "fly_x (moved l) = word_of_int (x + v)" by (simp add: moved_def x_def v_def)
    then show ?thesis using x v by (simp only:) (intro sint_of_int_range, auto simp: lowest_x_def)
  qed
  have "fly_x (moved l) + 517734 = word_of_int (x + v + 517734)" by (simp add: moved_def x_def v_def)
  then have "sint (fly_x (moved l) + 517734) = x + v + 517734"
    using x v by (simp only:) (intro sint_of_int_range, auto simp: lowest_x_def)
  with stays sum have range: "0 \<le> x + v" "x + v \<le> lowest_x"
    by (auto simp: gone_def word_sless_alt int2F_def lowest_x_def)
  have same: "fly_v (moved l) = fly_v l" "fly_y (moved l) = fly_y l" "fly_text (moved l) = fly_text l"
    by (simp_all add: moved_def)
  show "wf_letter (moved l)" using l range unfolding wf_letter_def sum same by simp
  show "life (moved l) \<le> life l - 1"
  proof (cases "0 <s fly_v l")
    case True
    then have "32768 \<le> v" using v by (auto simp: word_sless_alt v_def)
    then have "(lowest_x - (x + v)) div 32768 \<le> (lowest_x - x + (- 1) * 32768) div 32768"
      by (intro zdiv_mono1) auto
    also have "\<dots> = (lowest_x - x) div 32768 - 1" by (subst div_mult_self1) auto
    finally show ?thesis using True by (simp add: life_def same sum flip: x_def)
  next
    case False
    then have "v = - 196608" using v by (auto simp: word_sless_alt v_def)
    then have "(x + v) div 196608 = x div 196608 - 1" using div_mult_self1 [of 196608 x "- 1"] by simp
    with False show ?thesis by (simp add: life_def same sum flip: x_def)
  qed
qed

lemma life_hit:
  assumes "wf_letter l" "0 <s fly_v l"
  shows "wf_letter (l\<lparr>fly_v := - int2F 3\<rparr>)" "life (l\<lparr>fly_v := - int2F 3\<rparr>) \<le> life l"
proof -
  show "wf_letter (l\<lparr>fly_v := - int2F 3\<rparr>)" using assms(1) by (simp add: wf_letter_def int2F_def)
  have x: "sint (fly_x l) \<le> lowest_x" using assms(1) by (simp add: wf_letter_def)
  then have "sint (fly_x l) div 196608 \<le> lowest_x div 196608" by (rule zdiv_mono1) simp
  moreover have "0 \<le> (lowest_x - sint (fly_x l)) div 32768" using x by (simp add: pos_imp_zdiv_nonneg_iff)
  ultimately show "life (l\<lparr>fly_v := - int2F 3\<rparr>) \<le> life l"
    using assms(2) by (simp add: life_def int2F_def word_sless_alt lowest_x_def)
qed

section \<open>The number of letters\<close>

text \<open>The newest letter lives at most \<open>c\<close> more updates, and each older one 33 less.\<close>

fun spaced :: "int \<Rightarrow> fly list \<Rightarrow> bool" where
  "spaced c [] \<longleftrightarrow> True"
| "spaced c (l # ls) \<longleftrightarrow> wf_letter l \<and> life l \<le> c \<and> spaced (c - 33) ls"

lemma spaced_mono: "spaced c ls \<Longrightarrow> c \<le> d \<Longrightarrow> spaced d ls"
  by (induction ls arbitrary: c d) force+

lemma spaced_wf: "spaced c ls \<Longrightarrow> l \<in> set ls \<Longrightarrow> wf_letter l"
  by (induction ls arbitrary: c) auto

lemma spaced_moved: "spaced c ls \<Longrightarrow> spaced (c - 1) (filter (\<lambda>l. \<not> gone l) (map moved ls))"
proof (induction ls arbitrary: c)
  case (Cons l ls)
  then have rest: "spaced (c - 33 - 1) (filter (\<lambda>l. \<not> gone l) (map moved ls))"
    using Cons.IH [of "c - 33"] Cons.prems by simp
  show ?case
  proof (cases "gone (moved l)")
    case True
    with rest show ?thesis by (auto intro: spaced_mono)
  next
    case False
    with Cons.prems life_moved [of l] rest show ?thesis by (auto simp: algebra_simps)
  qed
qed simp

lemma spaced_length: "spaced c ls \<Longrightarrow> - 32 \<le> c \<Longrightarrow> 33 * int (length ls) \<le> c + 32"
proof (induction ls arbitrary: c)
  case (Cons l ls)
  then have "1 \<le> c" using life_pos [of l] by simp
  with Cons show ?case by fastforce
qed simp

lemma spaced_update:
  "spaced c ls \<Longrightarrow> k < length ls \<Longrightarrow> wf_letter l \<Longrightarrow> life l \<le> life (ls ! k) \<Longrightarrow> spaced c (ls[k := l])"
  by (induction ls arbitrary: c k) (auto split: nat.split)

section \<open>Drawing\<close>

lemma decimal_ascii: "c \<in> set (decimal n) \<Longrightarrow> of_char c < (128 :: nat)"
proof (induction n rule: decimal.induct)
  case (1 n)
  then show ?case by (subst (asm) (2) decimal.simps) (auto simp: digit_def split: if_splits)
qed

lemma show_int_props:
  assumes "- (2 ^ 31) \<le> i" "i < 2 ^ 31"
  shows "length (show_int i) \<le> 11" "\<forall>c\<in>set (show_int i). of_char c < (128 :: nat)"
proof -
  have "length (decimal (nat \<bar>i\<bar>)) \<le> Suc 9" using assms by (intro length_decimal) (simp add: nat_less_iff)
  then show "length (show_int i) \<le> 11" by (auto simp: show_int_def)
  show "\<forall>c\<in>set (show_int i). of_char c < (128 :: nat)"
    by (auto simp: show_int_def dest: decimal_ascii)
qed

lemma length_show_fps:
  assumes "0 \<le> i" "i \<le> 30"
  shows "length (show_int i) \<le> 2"
  using length_decimal [of "nat i" 1] assms by (simp add: show_int_def nat_less_iff)

text \<open>What drawing leaves alone: everything but the screen buffers.\<close>

definition only_video :: "game \<Rightarrow> game \<Rightarrow> bool" where
  "only_video s t \<longleftrightarrow> (\<exists>v. t = s\<lparr>video := v\<rparr>)"

lemma only_video_refl [simp]: "only_video s s"
  by (auto simp: only_video_def intro: exI [of _ "video s"])

lemma only_video_trans: "only_video s t \<Longrightarrow> only_video t u \<Longrightarrow> only_video s u"
  by (auto simp: only_video_def)

lemma only_video_fields:
  assumes "only_video s t"
  shows "fly_pool t = fly_pool s" "letters_head t = letters_head s" "fly_free_head t = fly_free_head s" "hit t = hit s"
    "miss t = miss s" "key_code t = key_code s" "real_fps t = real_fps s" "tick t = tick s" "interrupts_on t = interrupts_on s"
    "arrivals t = arrivals s" "arrival_pos t = arrival_pos s"
  using assms by (auto simp: only_video_def)

lemma on_video_ok:
  assumes "\<And>v. wp m (\<lambda>_ _. True) v" "only_video s t"
  shows "wp (on_video m) (\<lambda>_. only_video s) t"
  using assms by (auto simp: on_video_def wp_zoom only_video_def wp_Ret_iff) metis

lemma draw_ok:
  assumes "0 \<le> x" "x + 7 < SCR_HEIGHT" "0 \<le> y" "y + 8 * int (length cs) \<le> SCR_WIDTH"
    "\<forall>c\<in>set cs. of_char c < (128 :: nat)" "only_video s t"
  shows "wp (on_video (draw_string cs x y color)) (\<lambda>_. only_video s) t"
  by (rule on_video_ok [OF wp_mono [OF draw_string_ok [OF assms(1-5)]] assms(6)]) simp

lemma video_seq:
  "wp m (\<lambda>_. only_video s) t \<Longrightarrow> (\<And>u. only_video s u \<Longrightarrow> wp n Q u) \<Longrightarrow> wp (seqM m n) Q t"
  by (auto simp: wp_seqM intro: wp_mono)

lemma draw_seq:
  assumes "only_video s t" "0 \<le> x" "x + 7 < SCR_HEIGHT" "0 \<le> y" "y + 8 * int (length cs) \<le> SCR_WIDTH"
    "\<forall>c\<in>set cs. of_char c < (128 :: nat)" "\<And>u. only_video s u \<Longrightarrow> wp n Q u"
  shows "wp (seqM (on_video (draw_string cs x y color)) n) Q t"
  by (rule video_seq [OF draw_ok [OF assms(2-6,1)] assms(7)])

lemma video_get: "f t = f s \<Longrightarrow> wp (g (f s)) Q t \<Longrightarrow> wp (bindM (getM f) g) Q t"
  by (simp add: wp_bindM wp_getM)

lemma draw_letters_ok:
  assumes "nodes s [] (as @ bs) fs" "length bs \<le> n" "\<forall>i\<in>set bs. wf_letter (letter_of (fly_pool s i))" "only_video s t"
  shows "wp (draw_letters n (case bs of [] \<Rightarrow> None | j # _ \<Rightarrow> Some j)) (\<lambda>_. only_video s) t"
  using assms
proof (induction n arbitrary: as bs t)
  case 0
  then show ?case by (simp add: wp_simps)
next
  case (Suc n)
  show ?case
  proof (cases bs)
    case Nil
    with Suc.prems show ?thesis by (simp add: wp_simps)
  next
    case (Cons i cs)
    let ?l = "fly_pool s i"
    have l: "wf_letter (letter_of ?l)" using Suc.prems(3) Cons by simp
    have x: "sint (F2int (fly_x ?l)) = sint (fly_x ?l) div 65536"
      by (rule F2int_floor)
    have pool: "fly_pool t = fly_pool s" using Suc.prems(4) by (rule only_video_fields)
    have nodes: "nodes s [] ((as @ [i]) @ cs) fs" "length cs \<le> n" using Suc.prems Cons by auto
    have "wp (on_video (draw_string [char_of (nat (fly_text ?l + 65))] (sint (F2int (fly_x ?l))) (fly_y ?l) 15)) (\<lambda>_. only_video s) t"
    proof (rule draw_ok)
      show "0 \<le> sint (F2int (fly_x ?l))" "sint (F2int (fly_x ?l)) + 7 < SCR_HEIGHT"
        using l unfolding x by (auto simp: wf_letter_def lowest_x_def pos_imp_zdiv_nonneg_iff)
    qed (use l Suc.prems(4) in \<open>auto simp: wf_letter_def\<close>)
    then have "wp (on_video (draw_string [char_of (nat (fly_text ?l + 65))] (sint (F2int (fly_x ?l))) (fly_y ?l) 15))
      (\<lambda>_. wp (draw_letters n (case cs of [] \<Rightarrow> None | j # _ \<Rightarrow> Some j)) (\<lambda>_. only_video s)) t"
      by (rule wp_mono) (rule Suc.IH [OF nodes], use Suc.prems(3) Cons in auto)
    then show ?thesis
      using first_of_rest [of s as i cs fs] Suc.prems(1)
      unfolding Cons list.case draw_letters.simps option.case wp_bindM wp_getM wp_seqM pool by simp
  qed
qed

lemma redraw_screen_ok:
  assumes "letters s ls" "\<forall>l\<in>set ls. wf_letter l" "0 \<le> real_fps s" "real_fps s \<le> 30"
  shows "wp redraw_screen (\<lambda>_. only_video s) s"
proof -
  from assms(1) obtain "is" fs where n: "nodes s [] ([] @ is) fs" and ls: "ls = contents s is"
    by (auto simp: letters_def contents_def)
  have head: "letters_head s = (case is of [] \<Rightarrow> None | j # _ \<Rightarrow> Some j)"
    using n by (cases "is") (auto simp: nodes_def)
  have wf: "\<forall>i\<in>set is. wf_letter (letter_of (fly_pool s i))" using assms(2) by (simp add: ls contents_def)
  have len: "length is \<le> Suc POOL_SIZE" using nodes_length [OF n] by simp
  have int: "length (show_int (sint (x :: u32))) \<le> 11" "\<forall>c\<in>set (show_int (sint x)). of_char c < (128 :: nat)" for x
    using show_int_props [OF sint_range_u32] by auto
  have key: "length (show_int (uint (x :: u8))) \<le> 11" "\<forall>c\<in>set (show_int (uint x)). of_char c < (128 :: nat)" for x
  proof -
    have "- (2 ^ 31) \<le> uint x" by (rule order_trans [OF _ unsigned_greater_eq]) simp
    moreover have "uint x < 2 ^ 31" using uint_bounded [of x] by simp
    ultimately show "length (show_int (uint x)) \<le> 11" "\<forall>c\<in>set (show_int (uint x)). of_char c < (128 :: nat)"
      by (simp_all add: show_int_props)
  qed
  have fps: "length (show_int (real_fps s)) \<le> 2" "\<forall>c\<in>set (show_int (real_fps s)). of_char c < (128 :: nat)"
    using length_show_fps assms(3,4) show_int_props(2) [of "real_fps s"] by auto
  have buffers: "wp prepare_buffer (\<lambda>_ _. True) v" "wp display_buffer (\<lambda>_ _. True) v" for v
    by (simp_all add: prepare_buffer_def display_buffer_def wp_simps)
  have letters: "wp (bindM (getM letters_head) (draw_letters (Suc POOL_SIZE))) (\<lambda>_. only_video s) t" if "only_video s t" for t
    using draw_letters_ok [OF n len wf that] only_video_fields(2) [OF that] by (simp add: wp_bindM wp_getM head)
  show ?thesis unfolding redraw_screen_def
    apply (rule video_seq [OF on_video_ok [OF buffers(1) only_video_refl]])
    apply (rule video_seq [OF letters], assumption)
    apply (rule video_get [where s = s], simp add: only_video_fields)
    apply (rule draw_seq, assumption, simp, simp, simp, use key [of "key_code s"] in simp, simp add: key)
    apply (rule video_get [where s = s], simp add: only_video_fields)
    apply (rule draw_seq, assumption, simp, simp, use int [of "hit s"] in simp, simp, simp add: int)
    apply (rule video_get [where s = s], simp add: only_video_fields)
    apply (rule draw_seq, assumption, simp, simp, use int [of "miss s"] in simp, simp, simp add: int)
    apply (rule video_get [where s = s], simp add: only_video_fields)
    apply (rule draw_seq, assumption, simp, simp, simp, use fps in simp, simp add: fps)
    apply (rule draw_seq, assumption, simp, simp, simp, use fps in simp, simp)
    apply (rule on_video_ok [OF buffers(2)], assumption)
    done
qed

section \<open>The main loop\<close>

text \<open>
  Between two rounds: the letters are spaced, the clock shows the timer interrupts taken so far, and the frame
  counters are in range. \<open>elapsed arr p\<close> counts the timer interrupts of the first \<open>p\<close> batches.
\<close>

definition elapsed :: "(nat \<Rightarrow> event list) \<Rightarrow> nat \<Rightarrow> nat" where
  "elapsed arr p = (\<Sum>i<p. ticks (arr i))"

lemma elapsed_Suc: "elapsed arr (Suc p) = elapsed arr p + ticks (arr p)"
  by (simp add: elapsed_def)

definition clock :: "(nat \<Rightarrow> event list) \<Rightarrow> game \<Rightarrow> bool" where
  "clock arr s \<longleftrightarrow> arrivals s = arr \<and> tick s = of_nat (elapsed arr (arrival_pos s)) \<and> 0 \<le> real_fps s \<and> real_fps s \<le> 30"

text \<open>Updates of the newest letter before tick \<open>now\<close>.\<close>

definition age :: "int \<Rightarrow> int" where
  "age now = (now - 1) mod 33 + 1"

definition game_inv :: "(nat \<Rightarrow> event list) \<Rightarrow> int \<Rightarrow> game \<Rightarrow> bool" where
  "game_inv arr now s \<longleftrightarrow> clock arr s \<and> interrupts_on s \<and> (\<exists>ls. letters s ls \<and> spaced (450 - age now) ls)"

lemma age_bounds: "1 \<le> age now" "age now \<le> 33"
  by (simp_all add: age_def)

lemma age_next: "age (now + 1) = now mod 33 + 1"
  by (simp add: age_def)

lemma age_div: "now mod 33 = 0 \<Longrightarrow> age now = 33" "now mod 33 \<noteq> 0 \<Longrightarrow> age now = now mod 33"
proof -
  have "(now - 1) mod 33 = (now mod 33 - 1) mod 33" by (simp add: mod_diff_left_eq)
  moreover have "0 \<le> now mod 33" "now mod 33 < 33" by simp_all
  ultimately show "now mod 33 = 0 \<Longrightarrow> age now = 33" "now mod 33 \<noteq> 0 \<Longrightarrow> age now = now mod 33"
    by (auto simp: age_def)
qed

lemma spaced_length_game: "spaced (450 - a) ls \<Longrightarrow> 0 \<le> a \<Longrightarrow> a \<le> 33 \<Longrightarrow> length ls \<le> 14"
  using spaced_length [of "450 - a" ls] by simp

text \<open>One simulated tick.\<close>

lemma game_tick_ok:
  assumes now: "0 \<le> now" "0 \<le> num_draw" and s: "game_inv arr now s"
  shows "wp (game_tick now num_draw redraw) (\<lambda>(n, r) t. 0 \<le> n \<and> game_inv arr (now + 1) t \<and> arrival_pos t = arrival_pos s) s"
proof -
  from s obtain ls where ls: "letters s ls" "spaced (450 - age now) ls" by (auto simp: game_inv_def)
  have len: "length ls < POOL_SIZE" using spaced_length_game [OF ls(2)] age_bounds [of now] by simp
  have sdiv: "HZ sdiv CHARACTER_PER_SECOND = 33" "HZ sdiv UPDATE_PER_SECOND = 1" "HZ sdiv FPS = 3" "HZ sdiv 2 = 50"
    by (simp_all add: signed_divide_int_def)
  have smod: "now smod k = now mod k" if "0 < k" for k using now(1) that by (rule smod_nonneg)
  define I where "I = (\<lambda>c t. clock arr t \<and> interrupts_on t \<and> arrival_pos t = arrival_pos s \<and> (\<exists>ls. letters t ls \<and> spaced c ls))"
  have "wp (whenM (now smod 33 = 0) create_new_letter) (\<lambda>_. I (450 - now mod 33)) s"
  proof (cases "now mod 33 = 0")
    case True
    have "spaced 450 (l # ls)" if "new_letter l" for l
      using that ls(2) life_new [OF that] age_div(1) [OF True] by (simp add: new_letter_def)
    then show ?thesis unfolding smod [of 33, simplified] whenM_def if_P [OF True]
      by (intro wp_mono [OF create_new_letter_ok [OF ls(1) len]])
        (use s True in \<open>auto simp: I_def game_inv_def clock_def quiet_def\<close>)
  next
    case False
    then show ?thesis using s age_div(2) [OF False]
      by (auto simp: smod whenM_def wp_simps I_def game_inv_def)
  qed
  moreover have "wp (whenM (now smod 1 = 0) update_letter_pos) (\<lambda>_. I (450 - age (now + 1))) t" if "I (450 - now mod 33) t" for t
  proof -
    from that obtain ks where ks: "letters t ks" "spaced (450 - now mod 33) ks" by (auto simp: I_def)
    from spaced_moved [OF ks(2)] have "spaced (450 - age (now + 1)) (filter (\<lambda>l. \<not> gone l) (map moved ks))"
      unfolding age_next by (simp only: diff_diff_eq)
    then show ?thesis unfolding smod [of 1, simplified] whenM_def
      by (simp, intro wp_mono [OF update_letter_pos_ok [OF ks(1)]])
        (use that in \<open>auto simp: I_def clock_def quiet_def\<close>)
  qed
  moreover have "wp (let redraw = (redraw \<or> now smod (HZ sdiv FPS) = 0) in
     if now smod (HZ sdiv 2) = 0
     then (let now_fps = num_draw * 2 + 1; now_fps = (if FPS < now_fps then FPS else now_fps) in
           seqM (set_fps now_fps) (ret (0, redraw)))
     else ret (num_draw, redraw)) (\<lambda>(n, r) t. 0 \<le> n \<and> game_inv arr (now + 1) t \<and> arrival_pos t = arrival_pos s) t"
    if "I (450 - age (now + 1)) t" for t
  proof -
    have "letters (t\<lparr>real_fps := f\<rparr>) ks = letters t ks" for f ks by (rule letters_cong) simp_all
    then show ?thesis using that now(2)
      by (auto simp: wp_simps set_fps_def Let_def I_def game_inv_def clock_def)
  qed
  ultimately show ?thesis unfolding game_tick_def wp_seqM sdiv(1,2)
    by (blast intro: wp_mono)
qed

lemma catch_up_ok:
  assumes "0 \<le> now" "0 \<le> num_draw" "game_inv arr now s"
  shows "wp (catch_up n now num_draw redraw) (\<lambda>(k, r) t. 0 \<le> k \<and> game_inv arr (now + int n) t \<and> arrival_pos t = arrival_pos s) s"
  using assms
proof (induction n arbitrary: now num_draw redraw s)
  case 0
  then show ?case by (simp add: wp_simps)
next
  case (Suc n)
  have next_now: "now + 1 + int n = now + int (Suc n)" by simp
  show ?case unfolding catch_up.simps wp_bindM
  proof (rule wp_mono [OF game_tick_ok [OF Suc.prems]])
    fix x :: "int \<times> bool" and t :: game
    assume "(case x of (k, r) \<Rightarrow> \<lambda>t. 0 \<le> k \<and> game_inv arr (now + 1) t \<and> arrival_pos t = arrival_pos s) t"
    then obtain k r where x: "x = (k, r)" "0 \<le> k" "game_inv arr (now + 1) t" "arrival_pos t = arrival_pos s" by (cases x) auto
    from Suc.IH [of "now + 1" k t r] x Suc.prems(1)
    show "wp (case x of (k, r) \<Rightarrow> catch_up n (now + 1) k r)
        (\<lambda>(k, r) u. 0 \<le> k \<and> game_inv arr (now + int (Suc n)) u \<and> arrival_pos u = arrival_pos s) t"
      unfolding next_now by simp
  qed
qed

text \<open>Taking interrupts moves the clock and leaves the letters.\<close>

lemma clock_interrupts:
  assumes "clock arr s"
  shows "wp take_interrupts (\<lambda>_ t. clock arr t \<and> interrupts_on t = interrupts_on s \<and> arrival_pos t = Suc (arrival_pos s)
    \<and> (\<forall>ls. letters t ls = letters s ls)) s"
proof (rule wp_mono [OF take_interrupts_ok])
  fix x t
  assume t: "after_interrupts s t \<and> tick t = tick s + of_nat (ticks (arrivals s (arrival_pos s))) \<and> arrival_pos t = Suc (arrival_pos s)"
  then have "\<forall>ls. letters t ls = letters s ls" by (simp add: after_interrupts_letters)
  with t assms show "clock arr t \<and> interrupts_on t = interrupts_on s \<and> arrival_pos t = Suc (arrival_pos s)
    \<and> (\<forall>ls. letters t ls = letters s ls)"
    by (auto simp: clock_def after_interrupts_def elapsed_Suc)
qed

lemma clock_sti:
  assumes "clock arr s"
  shows "wp game_sti (\<lambda>_ t. clock arr t \<and> interrupts_on t \<and> arrival_pos t = Suc (arrival_pos s)
    \<and> (\<forall>ls. letters t ls = letters s ls)) s"
proof -
  have "clock arr (s\<lparr>interrupts_on := True\<rparr>)" using assms by (simp add: clock_def)
  from clock_interrupts [OF this] show ?thesis
    unfolding game_sti_def wp_seqM wp_modM
    by (rule wp_mono) (auto simp: letters_cong [where s = s and t = "s\<lparr>interrupts_on := True\<rparr>"])
qed

text \<open>The letters that fall bound how often \<open>update_keypress\<close> can find one.\<close>

lemma length_filter_update:
  "k < length xs \<Longrightarrow> P (xs ! k) \<Longrightarrow> \<not> P x \<Longrightarrow> Suc (length (filter P (xs[k := x]))) = length (filter P xs)"
  by (induction xs arbitrary: k) (auto split: nat.split)

lemma hit_letter_props:
  assumes "hit_letter s ls k t" "same_run s t" "spaced c ls" "clock arr s"
  defines "ks \<equiv> ls[k := (ls ! k)\<lparr>fly_v := - int2F 3\<rparr>]"
  shows "letters t ks" "spaced c ks" "clock arr t"
    "Suc (length (filter (\<lambda>l. 0 <s fly_v l) ks)) = length (filter (\<lambda>l. 0 <s fly_v l) ls)"
proof -
  have k: "k < length ls" "0 <s fly_v (ls ! k)" "wf_letter (ls ! k)"
    using assms(1,3) by (auto simp: hit_letter_def hittable_def intro: spaced_wf)
  show "letters t ks" using assms(1) by (simp add: hit_letter_def ks_def)
  show "spaced c ks" unfolding ks_def using k assms(3) by (intro spaced_update life_hit) auto
  show "clock arr t" using assms(1,2,4) by (auto simp: hit_letter_def same_run_def clock_def)
  show "Suc (length (filter (\<lambda>l. 0 <s fly_v l) ks)) = length (filter (\<lambda>l. 0 <s fly_v l) ls)"
    unfolding ks_def by (rule length_filter_update) (use k in \<open>auto simp: int2F_def word_sless_alt\<close>)
qed

lemma keypress_loop_ok:
  assumes "letters s ls" "spaced c ls" "length (filter (\<lambda>l. 0 <s fly_v l) ls) \<le> n" "clock arr s"
  shows "wp (whileM n update_keypress (ret ())) (\<lambda>_ t. clock arr t \<and> interrupts_on t \<and> arrival_pos t = Suc (arrival_pos s)
    \<and> (\<exists>ls. letters t ls \<and> spaced c ls)) s"
  using assms
proof (induction n arbitrary: s ls)
  case 0
  note hyps = 0
  from hyps(2) have wf: "\<forall>l\<in>set ls. wf_letter l" by (auto intro: spaced_wf)
  show ?case unfolding whileM.simps wp_bindM
  proof (rule wp_mono [OF update_keypress_ok [OF hyps(1) wf]])
    fix b t
    assume t: "same_run s t \<and> (if b then \<exists>k. hit_letter s ls k t else no_letter_hit s ls t)"
    have "\<not> b"
    proof
      assume b
      with t obtain k where "hit_letter s ls k t" by auto
      from hit_letter_props(4) [OF this _ hyps(2,4)] t hyps(3) show False by auto
    qed
    with t hyps show "wp (if b then fail OutOfFuel else ret ()) (\<lambda>_ t. clock arr t \<and> interrupts_on t \<and> arrival_pos t = Suc (arrival_pos s)
      \<and> (\<exists>ls. letters t ls \<and> spaced c ls)) t"
      by (auto simp: wp_simps no_letter_hit_def same_run_def clock_def elapsed_Suc)
  qed
next
  case (Suc n)
  from Suc.prems(2) have wf: "\<forall>l\<in>set ls. wf_letter l" by (auto intro: spaced_wf)
  show ?case unfolding whileM.simps wp_bindM
  proof (rule wp_mono [OF update_keypress_ok [OF Suc.prems(1) wf]])
    fix b t
    assume t: "same_run s t \<and> (if b then \<exists>k. hit_letter s ls k t else no_letter_hit s ls t)"
    show "wp (if b then seqM (ret ()) (whileM n update_keypress (ret ())) else ret ())
      (\<lambda>_ t. clock arr t \<and> interrupts_on t \<and> arrival_pos t = Suc (arrival_pos s) \<and> (\<exists>ls. letters t ls \<and> spaced c ls)) t"
    proof (cases b)
      case True
      with t obtain k where k: "hit_letter s ls k t" "same_run s t" by auto
      note hit = hit_letter_props [OF k Suc.prems(2,4)]
      have "length (filter (\<lambda>l. 0 <s fly_v l) (ls[k := (ls ! k)\<lparr>fly_v := - int2F 3\<rparr>])) \<le> n" using hit(4) Suc.prems(3) by simp
      from Suc.IH [OF hit(1,2) this hit(3)] k(1) True show ?thesis by (simp add: wp_seqM wp_ret hit_letter_def)
    next
      case False
      with t Suc.prems show ?thesis by (auto simp: wp_simps no_letter_hit_def same_run_def clock_def elapsed_Suc)
    qed
  qed
qed

text \<open>
  One round of the loop. The clock does not run over as long as there are less than \<open>2 ^ 31\<close> timer interrupts,
  which is 248 days at 100 Hz.
\<close>

lemma main_round_ok:
  assumes n: "14 \<le> n" and now: "0 \<le> now" "0 \<le> num_draw" "now \<le> int (elapsed arr (arrival_pos s))"
    and s: "game_inv arr now s" and arr: "\<forall>p. elapsed arr p < 2 ^ 31"
  shows "wp (main_round n (now, num_draw)) (\<lambda>(now', num_draw') t. now \<le> now' \<and> 0 \<le> num_draw'
    \<and> now' \<le> int (elapsed arr (arrival_pos t)) \<and> game_inv arr now' t) s"
proof -
  define J where "J = (\<lambda>t. clock arr t \<and> (\<exists>ls. letters t ls \<and> spaced (450 - age now) ls))"
  let ?Q = "\<lambda>(now', num_draw') t. now \<le> now' \<and> 0 \<le> num_draw' \<and> now' \<le> int (elapsed arr (arrival_pos t)) \<and> game_inv arr now' t"
  have J: "J s" "interrupts_on s" "clock arr s" using s by (auto simp: J_def game_inv_def)
  have mono: "elapsed arr p \<le> elapsed arr (Suc p)" for p by (simp add: elapsed_Suc)
  have sti: "wp game_sti (\<lambda>_ u. J u \<and> interrupts_on u \<and> arrival_pos u = Suc (arrival_pos t)) t" if "J t" for t
    using that by (intro wp_mono [OF clock_sti]) (auto simp: J_def)
  have body: "wp (seqM game_sti (seqM (whileM n update_keypress (ret ()))
      (bindM (catch_up (nat (T - now)) now num_draw False) (\<lambda>(num_draw, redraw).
       if redraw then seqM redraw_screen (ret (T, num_draw + 1)) else ret (T, num_draw))))) ?Q t"
    if t: "J t" "T = int (elapsed arr (arrival_pos t))" "now \<le> T" for t T
  proof -
    have draw: "wp (if redraw then seqM redraw_screen (ret (T, k + 1)) else ret (T, k)) ?Q u"
      if u: "0 \<le> k" "game_inv arr T u" "T \<le> int (elapsed arr (arrival_pos u))" for k :: int and redraw u
    proof (cases redraw)
      case True
      from u(2) obtain ls where ls: "letters u ls" "spaced (450 - age T) ls" "clock arr u" "interrupts_on u" by (auto simp: game_inv_def)
      have wf: "\<forall>l\<in>set ls. wf_letter l" using ls(2) by (auto intro: spaced_wf)
      have "wp redraw_screen (\<lambda>_. only_video u) u"
        using ls(3) by (intro redraw_screen_ok [OF ls(1) wf]) (auto simp: clock_def)
      then show ?thesis unfolding if_P [OF True] wp_seqM wp_ret
      proof (rule wp_mono)
        fix x v
        assume v: "only_video u v"
        then have "letters v ls" using ls(1) by (subst letters_cong [where s = u]) (simp_all add: only_video_fields)
        with v ls u t(3) show "?Q (T, k + 1) v" by (auto simp: game_inv_def clock_def only_video_fields)
      qed
    qed (use u t(3) in \<open>simp add: wp_ret\<close>)
    have catch: "wp (bindM (catch_up (nat (T - now)) now num_draw False) (\<lambda>(num_draw, redraw).
       if redraw then seqM redraw_screen (ret (T, num_draw + 1)) else ret (T, num_draw))) ?Q u"
      if u: "game_inv arr now u" "T \<le> int (elapsed arr (arrival_pos u))" for u
      unfolding wp_bindM
      by (rule wp_mono [OF catch_up_ok [OF now(1,2) u(1)]]) (use draw u(2) t(3) in auto)
    have keys: "wp (whileM n update_keypress (ret ())) (\<lambda>_ u. game_inv arr now u \<and> T \<le> int (elapsed arr (arrival_pos u))) u"
      if u: "J u" "T \<le> int (elapsed arr (arrival_pos u))" for u
    proof -
      from u(1) obtain ls where ls: "letters u ls" "spaced (450 - age now) ls" "clock arr u" by (auto simp: J_def)
      have "length (filter (\<lambda>l. 0 <s fly_v l) ls) \<le> n"
        by (rule order_trans [OF length_filter_le]) (use spaced_length_game [OF ls(2)] age_bounds [of now] n in simp)
      from keypress_loop_ok [OF ls(1,2) this ls(3)] show ?thesis
        by (rule wp_mono) (use u(2) mono [of "arrival_pos u"] in \<open>auto simp: game_inv_def\<close>)
    qed
    show ?thesis unfolding wp_seqM
    proof (rule wp_mono [OF sti [OF t(1)]])
      fix x u
      assume u: "J u \<and> interrupts_on u \<and> arrival_pos u = Suc (arrival_pos t)"
      then have "T \<le> int (elapsed arr (arrival_pos u))" using t(2) mono [of "arrival_pos t"] by simp
      with u have "wp (whileM n update_keypress (ret ())) (\<lambda>_ u. game_inv arr now u \<and> T \<le> int (elapsed arr (arrival_pos u))) u"
        by (intro keys) auto
      then show "wp (whileM n update_keypress (ret ())) (\<lambda>_. wp (bindM (catch_up (nat (T - now)) now num_draw False) (\<lambda>(num_draw, redraw).
        if redraw then seqM redraw_screen (ret (T, num_draw + 1)) else ret (T, num_draw))) ?Q) u"
        by (rule wp_mono) (use catch in auto)
    qed
  qed
  have round: "wp (bindM (getM (\<lambda>s. sint (tick s))) (\<lambda>t.
     if now = t then seqM game_sti (ret (now, num_draw))
     else seqM (assertM (now < t))
    (seqM game_sti
    (seqM (whileM n update_keypress (ret ()))
    (bindM (catch_up (nat (t - now)) now num_draw False) (\<lambda>(num_draw, redraw).
     if redraw then seqM redraw_screen (ret (t, num_draw + 1))
     else ret (t, num_draw))))))) ?Q u" if u: "J u" "now \<le> int (elapsed arr (arrival_pos u))" for u
  proof -
    have T: "sint (tick u) = int (elapsed arr (arrival_pos u))"
      using u(1) arr by (auto simp: J_def clock_def intro: sint_of_nat_small)
    show ?thesis
    proof (cases "now = sint (tick u)")
      case True
      have "wp game_sti (\<lambda>_. wp (ret (now, num_draw)) ?Q) u"
        by (rule wp_mono [OF sti [OF u(1)]])
          (use True T now mono [of "arrival_pos u"] in \<open>auto simp: wp_ret J_def game_inv_def\<close>)
      then show ?thesis using True by (simp add: wp_bindM wp_getM wp_seqM)
    next
      case False
      then have "now < sint (tick u)" using u(2) T by simp
      with False body [OF u(1) T] show ?thesis by (simp add: wp_bindM wp_getM wp_seqM wp_assertM)
    qed
  qed
  have wait: "wp wait_intr Q s" if "wp take_interrupts Q s" for Q
    using that J(2) by (simp add: wait_intr_def wp_bindM wp_getM)
  show ?thesis unfolding main_round_def prod.case wp_seqM [of wait_intr] wp_seqM [of game_cli]
  proof (rule wait, rule wp_mono [OF clock_interrupts [OF J(3)]])
    fix x t
    assume t: "clock arr t \<and> interrupts_on t = interrupts_on s \<and> arrival_pos t = Suc (arrival_pos s) \<and> (\<forall>ls. letters t ls = letters s ls)"
    let ?u = "t\<lparr>interrupts_on := False\<rparr>"
    have "J ?u" using t J(1) by (auto simp: J_def clock_def letters_cong [where s = t and t = ?u])
    moreover have "now \<le> int (elapsed arr (arrival_pos ?u))" using t now(3) mono [of "arrival_pos s"] by simp
    ultimately show "wp game_cli (\<lambda>_. wp (bindM (getM (\<lambda>s. sint (tick s))) (\<lambda>t.
       if now = t then seqM game_sti (ret (now, num_draw))
       else seqM (assertM (now < t))
      (seqM game_sti
      (seqM (whileM n update_keypress (ret ()))
      (bindM (catch_up (nat (t - now)) now num_draw False) (\<lambda>(num_draw, redraw).
       if redraw then seqM redraw_screen (ret (t, num_draw + 1))
       else ret (t, num_draw))))))) ?Q) t"
      unfolding game_cli_def wp_modM by (rule round)
  qed
qed

text \<open>
  C2. Whatever keys are pressed, whatever \<open>rand\<close> returns and however the interrupts fall between the
  steps, the typing game runs on for ever without failing an assertion, following a bad pointer or
  running out of nodes: there are never more than 14 letters. It is assumed that there are less than \<open>2 ^ 31\<close>
  timer interrupts; 14 letters also bound the searches of one round.
\<close>

theorem typing_game_runs_forever:
  assumes "\<forall>p. elapsed arr p < 2 ^ 31" "14 \<le> n"
  shows "\<exists>now num_draw t ls. typing_main n k (game_start arr rnd v) = Ret (now, num_draw) t
    \<and> letters t ls \<and> length ls \<le> 14 \<and> now \<le> sint (tick t)"
proof -
  have rounds: "wp (main_rounds n k (now, num_draw)) (\<lambda>(now, num_draw) t. now \<le> int (elapsed arr (arrival_pos t)) \<and> game_inv arr now t) s"
    if "0 \<le> now" "0 \<le> num_draw" "now \<le> int (elapsed arr (arrival_pos s))" "game_inv arr now s" for now num_draw s
    using that
  proof (induction k arbitrary: now num_draw s)
    case 0
    then show ?case by (simp add: wp_ret)
  next
    case (Suc k)
    show ?case unfolding main_rounds.simps wp_bindM
      by (rule wp_mono [OF main_round_ok [OF assms(2) Suc.prems assms(1)]])
        (use Suc.IH Suc.prems(1) in auto)
  qed
  have timer: "game_init_timer v = Ret () v'" if "v' = v\<lparr>port_log := (0x40, 46) # (0x40, 155) # (0x43, 0x34) # port_log v\<rparr>" for v'
    by (simp add: that game_init_timer_def game_out_byte_def)
  let ?v = "v\<lparr>port_log := (0x40, 46) # (0x40, 155) # (0x43, 0x34) # port_log v\<rparr>"
  have "game_inv arr 0 (game_start arr rnd ?v)"
    unfolding game_inv_def using letters_start [of arr rnd ?v]
    by (auto simp: clock_def game_start_def elapsed_def)
  then have "wp (main_rounds n k (0, 0)) (\<lambda>(now, num_draw) t. now \<le> int (elapsed arr (arrival_pos t)) \<and> game_inv arr now t) (game_start arr rnd ?v)"
    by (intro rounds) auto
  then obtain now num_draw t where t: "main_rounds n k (0, 0) (game_start arr rnd ?v) = Ret (now, num_draw) t"
    "now \<le> int (elapsed arr (arrival_pos t))" "game_inv arr now t" by (auto simp: wp_Ret_iff)
  have "sint (tick t) = int (elapsed arr (arrival_pos t))"
    using t(3) assms(1) by (auto simp: game_inv_def clock_def intro: sint_of_nat_small)
  moreover obtain ls where "letters t ls" "length ls \<le> 14"
    using t(3) spaced_length_game age_bounds [of now] unfolding game_inv_def by (metis order_trans zero_le_one)
  moreover have "typing_main n k (game_start arr rnd v) = Ret (now, num_draw) t"
    using t(1) timer by (simp add: typing_main_def on_video_def game_start_def)
  ultimately show ?thesis using t(2) by auto
qed

text \<open>A player who presses the key A with each of the first hundred timer interrupts.\<close>

definition busy_player :: "nat \<Rightarrow> event list" where
  "busy_player i = (if i < 100 then [Timer_event, Keyboard_event 30] else [])"

lemma elapsed_busy: "elapsed busy_player p = min p 100"
  by (induction p) (auto simp: elapsed_def busy_player_def ticks_def min_def)

theorem typing_game_runs_forever_witness:
  "\<exists>now num_draw t ls. typing_main 14 1000 (game_start busy_player (\<lambda>i. i * 7919) \<lparr>vbuf = \<lambda>_. 0, frame = \<lambda>_. 0, port_log = []\<rparr>)
      = Ret (now, num_draw) t
    \<and> letters t ls \<and> length ls \<le> 14 \<and> now \<le> sint (tick t)"
proof (rule typing_game_runs_forever)
  show "\<forall>p. elapsed busy_player p < 2 ^ 31" by (auto simp: elapsed_busy min_less_iff_disj)
qed simp

text \<open>
  C32. The linked list implements the sequence of letters: a new letter comes to the front, with random
  column, speed and character, as long as one of the thousand nodes is free; an update moves every letter, takes out
  those that leave the screen and counts them as hits at the top and misses at the bottom.
\<close>

theorem letter_list_refines_sequence:
  assumes "letters s ls"
  shows "(length ls < 1000 \<longrightarrow> wp create_new_letter (\<lambda>_ t. \<exists>l. letters t (l # ls) \<and> new_letter l \<and> quiet s t
      \<and> \<not> letter_pressed t (nat (fly_text l))) s)
    \<and> wp update_letter_pos (\<lambda>_ t. letters t (filter (\<lambda>l. \<not> gone l) (map moved ls))
      \<and> hit t = hit s + hits (map moved ls) \<and> miss t = miss s + misses (map moved ls) \<and> quiet s t) s"
  by (intro conjI impI wp_mono [OF create_new_letter_ok [OF assms]] wp_mono [OF update_letter_pos_ok [OF assms]]) auto

theorem letter_list_refines_sequence_witness:
  "wp create_new_letter (\<lambda>_ t. \<exists>l. letters t [l] \<and> new_letter l)
    (game_start busy_player (\<lambda>i. i) \<lparr>vbuf = \<lambda>_. 0, frame = \<lambda>_. 0, port_log = []\<rparr>)"
  by (rule wp_mono [OF mp [OF conjunct1 [OF letter_list_refines_sequence [OF letters_start]]]]) auto

text \<open>
  C35. A pressed key hits the lowest of the falling letters with a pressed key: that letter turns upward, its key is
  released, and \<open>update_keypress\<close> reports it. It reports nothing, with interrupts on again,
  exactly if no falling letter has its key pressed.
\<close>

theorem key_hits_lowest_letter:
  assumes "letters s ls" "\<forall>l\<in>set ls. wf_letter l"
  shows "\<exists>b t. update_keypress s = Ret b t \<and> (if b then \<exists>k. hit_letter s ls k t else no_letter_hit s ls t)"
  using wp_RetD [OF update_keypress_ok [OF assms]] by blast

text \<open>A state with one falling letter, E, and its key pressed.\<close>

definition one_letter :: "game \<Rightarrow> game" where
  "one_letter s = s\<lparr>fly_pool := (\<lambda>i. \<lparr>fly_x = 0x50000, fly_y = 16, fly_text = 4, fly_v = 0x8000, fly_prev = None,
      fly_next = (if 0 < i \<and> i < 1000 then Some (Suc i) else None)\<rparr>),
    fly_free_head := Some 1, letters_head := Some 0, letter_pressed := (\<lambda>k. k = 4)\<rparr>"

lemma one_letter_letters:
  "letters (one_letter s) [\<lparr>fly_x = 0x50000, fly_y = 16, fly_text = 4, fly_v = 0x8000, fly_prev = None, fly_next = None\<rparr>]"
proof -
  have "chain (fly_pool (one_letter s)) (Some k) ([k..<1000] @ [1000])" if "1 \<le> k" "k \<le> 1000" for k
    using that
  proof (induction "1000 - k" arbitrary: k)
    case 0
    then show ?case by (simp add: one_letter_def)
  next
    case (Suc d)
    then have "[k..<1000] = k # [Suc k..<1000]" by (simp add: upt_conv_Cons)
    then show ?case using Suc.hyps(1) [of "Suc k"] Suc.hyps(2) Suc.prems by (simp add: one_letter_def)
  qed
  from this [of 1] show ?thesis unfolding letters_def
    by (intro exI [of _ "[0]"] exI [of _ "[1..<1000]"]) (auto simp: nodes_def free_list_def one_letter_def letter_of_def)
qed

theorem key_hits_lowest_letter_witness:
  "\<exists>t. update_keypress (one_letter (game_start busy_player (\<lambda>i. i) \<lparr>vbuf = \<lambda>_. 0, frame = \<lambda>_. 0, port_log = []\<rparr>)) = Ret True t"
proof -
  let ?s = "one_letter (game_start busy_player (\<lambda>i. i) \<lparr>vbuf = \<lambda>_. 0, frame = \<lambda>_. 0, port_log = []\<rparr>)"
  note hit = key_hits_lowest_letter [OF one_letter_letters [of "game_start busy_player (\<lambda>i. i) \<lparr>vbuf = \<lambda>_. 0, frame = \<lambda>_. 0, port_log = []\<rparr>"]]
  have "letter_pressed ?s 4" by (simp add: one_letter_def)
  then show ?thesis using hit
    by (auto simp: wf_letter_def lowest_x_def no_letter_hit_def hittable_def word_sless_alt split: if_splits)
qed

end
