(* ===== verification/Elf.thy ===== *)
theory Elf
  imports Expr
begin

unbundle bit_operations_syntax

text \<open>
  The symbol and string tables of the debugged program: nemu/src/monitor/debug/elf.c. The file is its list
  of bytes, and \<open>fopen\<close> an argument. A heap block is the list of its bytes; its reads outside the block are
  \<open>OutOfBounds\<close>. The last sections show that the entries of the tables are the symbols the
  expression evaluator and the backtrace command work on.
\<close>

section \<open>Global variables and file access\<close>

record elf_tables =
  exec_file :: "string option"
  strtab :: "u8 list option"
  symtab_bytes :: "u8 list option"
  nr_symtab_entry :: nat

text \<open>\<open>fseek\<close> and \<open>fread(p, n, 1, fp)\<close> with its assertion: reading no bytes counts as a failure.\<close>

definition read_block :: "u8 list \<Rightarrow> u32 \<Rightarrow> u32 \<Rightarrow> (elf_tables, u8 list) M" where
  "read_block f off n =
     (if 0 < n \<and> unat off + unat n \<le> length f then ret (take (unat n) (drop (unat off) f)) else fail AssertFail)"

definition block_field :: "u8 list \<Rightarrow> nat \<Rightarrow> nat \<Rightarrow> u32" where
  "block_field b off n = le32 (\<lambda>i. if i < n then b ! (off + i) else 0)"

text \<open>A field of entry \<open>i\<close> of the section header table.\<close>

definition shdr_field :: "u8 list \<Rightarrow> nat \<Rightarrow> nat \<Rightarrow> (elf_tables, u32) M" where
  "shdr_field sh i off =
     (if 40 * i + off + 4 \<le> length sh then ret (block_field sh (40 * i + off) 4) else fail OutOfBounds)"

abbreviation (input) SH_NAME :: nat where "SH_NAME \<equiv> 0"
abbreviation (input) SH_TYPE :: nat where "SH_TYPE \<equiv> 4"
abbreviation (input) SH_OFFSET :: nat where "SH_OFFSET \<equiv> 16"
abbreviation (input) SH_SIZE :: nat where "SH_SIZE \<equiv> 20"
abbreviation (input) SHT_SYMTAB :: u32 where "SHT_SYMTAB \<equiv> 2"
abbreviation (input) SHT_STRTAB :: u32 where "SHT_STRTAB \<equiv> 3"

text \<open>\<open>strcmp(b + p, s) == 0\<close>.\<close>

fun str_equal :: "u8 list \<Rightarrow> nat \<Rightarrow> string \<Rightarrow> (elf_tables, bool) M" where
  "str_equal b p [] = (if p < length b then ret (b ! p = 0) else fail OutOfBounds)"
| "str_equal b p (c # cs) =
     (if p < length b then (if b ! p = of_char c then str_equal b (p + 1) cs else ret False) else fail OutOfBounds)"

section \<open>Loading\<close>

definition header_ok :: "u8 list \<Rightarrow> bool" where
  "header_ok hdr \<longleftrightarrow> take 4 hdr = [0x7f, of_char CHR ''E'', of_char CHR ''L'', of_char CHR ''F''] \<and>
     hdr ! 4 = 1 \<and> hdr ! 5 = 1 \<and> hdr ! 6 = 1 \<and> (hdr ! 7 = 0 \<or> hdr ! 7 = 3) \<and> hdr ! 8 = 0 \<and>
     block_field hdr 16 2 = 2 \<and> block_field hdr 18 2 = 3 \<and> block_field hdr 20 4 = 1"

text \<open>The body of the loop over the sections.\<close>

definition load_section :: "u8 list \<Rightarrow> u8 list \<Rightarrow> u8 list \<Rightarrow> nat \<Rightarrow> (elf_tables, unit) M" where
  "load_section f sh shstrtab i =
     bindM (shdr_field sh i SH_TYPE) (\<lambda>ty.
     bindM (shdr_field sh i SH_NAME) (\<lambda>name.
     bindM (if ty = SHT_SYMTAB then str_equal shstrtab (unat name) ''.symtab'' else ret False) (\<lambda>is_symtab.
       if is_symtab then
         bindM (shdr_field sh i SH_OFFSET) (\<lambda>off. bindM (shdr_field sh i SH_SIZE) (\<lambda>sz.
         bindM (read_block f off sz) (\<lambda>b.
         modM (\<lambda>t. t\<lparr>symtab_bytes := Some b, nr_symtab_entry := unat sz div 16\<rparr>))))
       else bindM (if ty = SHT_STRTAB then str_equal shstrtab (unat name) ''.strtab'' else ret False) (\<lambda>is_strtab.
         whenM is_strtab (bindM (shdr_field sh i SH_OFFSET) (\<lambda>off. bindM (shdr_field sh i SH_SIZE) (\<lambda>sz.
         bindM (read_block f off sz) (\<lambda>b. modM (\<lambda>t. t\<lparr>strtab := Some b\<rparr>)))))))))"

definition load_elf_tables :: "(string \<Rightarrow> u8 list option) \<Rightarrow> string list \<Rightarrow> (elf_tables, unit) M" where
  "load_elf_tables fopen argv =
     seqM (assertM (length argv = 2))
    (seqM (modM (\<lambda>t. t\<lparr>exec_file := Some (argv ! 1)\<rparr>))
    (case fopen (argv ! 1) of None \<Rightarrow> fail AssertFail | Some f \<Rightarrow>
     bindM (read_block f 0 52) (\<lambda>hdr.
     seqM (assertM (header_ok hdr))
    (let shentsize = unat (block_field hdr 46 2); shnum = unat (block_field hdr 48 2);
         shstrndx = unat (block_field hdr 50 2) in
     bindM (if 2 ^ 31 \<le> shentsize * shnum then fail Undefined
            else read_block f (block_field hdr 32 4) (of_nat (shentsize * shnum))) (\<lambda>sh.
     bindM (shdr_field sh shstrndx SH_OFFSET) (\<lambda>off. bindM (shdr_field sh shstrndx SH_SIZE) (\<lambda>sz.
     bindM (read_block f off sz) (\<lambda>shstrtab.
     seqM (forM [0..<shnum] (load_section f sh shstrtab))
          (bindM (getM (\<lambda>t. strtab t \<noteq> None \<and> symtab_bytes t \<noteq> None)) assertM)))))))))"

section \<open>The symbols in the tables\<close>

text \<open>
  \<open>symtab[i]\<close> with the text at \<open>strtab + symtab[i].st_name\<close>, as expr.c and ui.c read them; \<open>None\<close> when
  a read leaves its block.
\<close>

definition c_text :: "u8 list \<Rightarrow> nat \<Rightarrow> string option" where
  "c_text b p = (if p \<le> length b \<and> 0 \<in> set (drop p b) then Some (map (\<lambda>x. char_of (unat x)) (takeWhile (\<lambda>x. x \<noteq> 0) (drop p b))) else None)"

definition table_symbol :: "u8 list \<Rightarrow> u8 list \<Rightarrow> nat \<Rightarrow> symbol option" where
  "table_symbol syms strs i =
     (if 16 * i + 16 \<le> length syms then
        map_option (\<lambda>nm. \<lparr>st_name = nm, st_value = block_field syms (16 * i + 4) 4,
           st_size = block_field syms (16 * i + 8) 4, st_info = syms ! (16 * i + 12)\<rparr>)
          (c_text strs (unat (block_field syms (16 * i) 4)))
      else None)"

definition debug_symbols :: "elf_tables \<Rightarrow> symbol list option" where
  "debug_symbols t = (case (symtab_bytes t, strtab t) of
     (Some syms, Some strs) \<Rightarrow> those (map (table_symbol syms strs) [0..<nr_symtab_entry t]) | _ \<Rightarrow> None)"

section \<open>A linker's tables are read back\<close>

definition word_bytes :: "u32 \<Rightarrow> u8 list" where
  "word_bytes x = map (\<lambda>i. byte_at i x) [0..<4]"

text \<open>An entry of a symbol table: offset of the name, symbol, and the two fields that are not used.\<close>

fun entry_bytes :: "u32 \<times> symbol \<times> u8 \<times> u8 \<times> u8 \<Rightarrow> u8 list" where
  "entry_bytes (name, y, other, shndx0, shndx1) =
     word_bytes name @ word_bytes (st_value y) @ word_bytes (st_size y) @ [st_info y, other, shndx0, shndx1]"

definition section_is :: "u8 list \<Rightarrow> u8 list \<Rightarrow> u8 list \<Rightarrow> nat \<Rightarrow> u32 \<Rightarrow> string \<Rightarrow> u8 list \<Rightarrow> bool" where
  "section_is f sh names i ty name content \<longleftrightarrow>
     block_field sh (40 * i + SH_TYPE) 4 = ty \<and>
     c_text names (unat (block_field sh (40 * i) 4)) = Some name \<and>
     0 < length content \<and> unat (block_field sh (40 * i + SH_SIZE) 4) = length content \<and>
     unat (block_field sh (40 * i + SH_OFFSET) 4) + length content \<le> length f \<and>
     take (length content) (drop (unat (block_field sh (40 * i + SH_OFFSET) 4)) f) = content"

text \<open>A section that holds neither table.\<close>

definition section_skipped :: "u8 list \<Rightarrow> u8 list \<Rightarrow> nat \<Rightarrow> bool" where
  "section_skipped sh names i \<longleftrightarrow>
     (let ty = block_field sh (40 * i + SH_TYPE) 4; nm = c_text names (unat (block_field sh (40 * i) 4)) in
      ty \<noteq> SHT_SYMTAB \<and> ty \<noteq> SHT_STRTAB \<or>
      nm \<noteq> None \<and> \<not> (ty = SHT_SYMTAB \<and> nm = Some ''.symtab'') \<and> \<not> (ty = SHT_STRTAB \<and> nm = Some ''.strtab''))"

text \<open>A file with a header, \<open>n\<close> section headers \<open>sh\<close>, and \<open>names\<close> as the contents of the section of names.\<close>

definition elf_file :: "u8 list \<Rightarrow> u8 list \<Rightarrow> u8 list \<Rightarrow> nat \<Rightarrow> bool" where
  "elf_file f sh names n \<longleftrightarrow>
     52 \<le> length f \<and> header_ok (take 52 f) \<and> block_field f 46 2 = 40 \<and> unat (block_field f 48 2) = n \<and>
     length sh = 40 * n \<and> unat (block_field f 32 4) + 40 * n \<le> length f \<and>
     take (40 * n) (drop (unat (block_field f 32 4)) f) = sh \<and>
     (let x = unat (block_field f 50 2); so = unat (block_field sh (40 * x + SH_OFFSET) 4);
          z = unat (block_field sh (40 * x + SH_SIZE) 4) in
      x < n \<and> 0 < z \<and> so + z \<le> length f \<and> take z (drop so f) = names)"

lemma block_field_word: "length xs = p \<Longrightarrow> block_field (xs @ word_bytes x @ ys) p 4 = x"
proof -
  assume p: "length xs = p"
  have "block_field (xs @ word_bytes x @ ys) p 4 = le32 (\<lambda>i. byte_at i x)"
    unfolding block_field_def by (rule le32_cong) (use p in \<open>simp add: nth_append word_bytes_def\<close>)
  then show ?thesis by simp
qed

lemma block_field_half: "unat (block_field b p 2) < 2 ^ 16"
proof -
  have "block_field b p 2 AND mask 16 = block_field b p 2"
    unfolding block_field_def by (rule bit_word_eqI) (auto simp: bit_simps bit_le32)
  then have "unat (block_field b p 2) = unat (block_field b p 2) mod 2 ^ 16"
    using unat_and_low [of 16 "block_field b p 2"] by simp
  then show ?thesis by (metis mod_less_divisor zero_less_numeral zero_less_power)
qed

lemma length_word_bytes [simp]: "length (word_bytes x) = 4"
  by (simp add: word_bytes_def)

lemma length_entry [simp]: "length (entry_bytes e) = 16"
  by (cases e rule: entry_bytes.cases) simp

lemma concat_entry:
  "i < length es \<Longrightarrow> take 16 (drop (16 * i) (concat (map entry_bytes es))) = entry_bytes (es ! i)"
proof (induction es arbitrary: i)
  case (Cons e es)
  then show ?case by (cases i) (simp_all add: algebra_simps)
qed simp

lemma length_concat_entries [simp]: "length (concat (map entry_bytes es)) = 16 * length es"
  by (induction es) simp_all

lemma block_field_slice:
  assumes "p + n \<le> m" "q + m \<le> length b" "n \<le> 4"
  shows "block_field (take m (drop q b)) p n = block_field b (q + p) n"
  unfolding block_field_def by (rule le32_cong) (use assms in \<open>auto simp: add.assoc\<close>)

lemma block_field_take:
  assumes "p + n \<le> m" "m \<le> length b" "n \<le> 4"
  shows "block_field (take m b) p n = block_field b p n"
  using block_field_slice [of p n m 0 b] assms by simp

lemma table_symbol_entry:
  assumes i: "i < length es" and e: "es ! i = (name, y, r)" and nm: "c_text strs (unat name) = Some (symbol.st_name y)"
  shows "table_symbol (concat (map entry_bytes es)) strs i = Some y"
proof -
  let ?b = "concat (map entry_bytes es)"
  obtain so s0 s1 where r: "r = (so, s0, s1)" by (cases r)
  have len: "16 * i + 16 \<le> length ?b" using i by simp
  have slice: "take 16 (drop (16 * i) ?b) = entry_bytes (name, y, so, s0, s1)"
    using concat_entry [OF i] e r by simp
  have f: "block_field ?b (16 * i + k) 4 = block_field (entry_bytes (name, y, so, s0, s1)) k 4" if "k \<le> 12" for k
    using block_field_slice [of k 4 16 "16 * i" ?b] len that slice by simp
  have "block_field ?b (16 * i) 4 = name"
    using f [of 0] block_field_word [of "[]" 0 name] by simp
  moreover have "block_field ?b (16 * i + 4) 4 = st_value y"
    using f [of 4] block_field_word [of "word_bytes name" 4 "st_value y"] by simp
  moreover have "block_field ?b (16 * i + 8) 4 = st_size y"
    using f [of 8] block_field_word [of "word_bytes name @ word_bytes (st_value y)" 8 "st_size y"] by simp
  moreover have "?b ! (16 * i + 12) = st_info y"
  proof -
    have "?b ! (16 * i + 12) = take 16 (drop (16 * i) ?b) ! 12" using len by simp
    also have "\<dots> = st_info y" unfolding slice by (simp add: nth_append)
    finally show ?thesis .
  qed
  ultimately show ?thesis using len nm by (simp add: table_symbol_def)
qed

lemma debug_symbols_entries:
  assumes "\<And>name y r. (name, y, r) \<in> set es \<Longrightarrow> c_text strs (unat name) = Some (symbol.st_name y)"
  shows "those (map (table_symbol (concat (map entry_bytes es)) strs) [0..<length es]) = Some (map (\<lambda>(_, y, _). y) es)"
proof -
  have "map (table_symbol (concat (map entry_bytes es)) strs) [0..<length es] = map (Some \<circ> (\<lambda>(_, y, _). y)) es"
  proof (rule nth_equalityI)
    fix i assume "i < length (map (table_symbol (concat (map entry_bytes es)) strs) [0..<length es])"
    then have i: "i < length es" by simp
    obtain name y r where e: "es ! i = (name, y, r)" by (cases "es ! i")
    with i have "(name, y, r) \<in> set es" by (metis nth_mem)
    from table_symbol_entry [OF i e assms [OF this]] i e
    show "map (table_symbol (concat (map entry_bytes es)) strs) [0..<length es] ! i = map (Some \<circ> (\<lambda>(_, y, _). y)) es ! i"
      by simp
  qed simp
  moreover have "those (map Some zs) = Some zs" for zs :: "symbol list" by (induction zs) simp_all
  ultimately show ?thesis by (simp flip: map_map)
qed

subsection \<open>String comparison\<close>

lemma char_byte: "x = (of_char c :: u8) \<longleftrightarrow> char_of (unat x) = c"
proof
  assume "x = of_char c"
  then have "x = of_nat (of_char c :: nat)" by (simp add: of_nat_of_char)
  moreover have "(of_char c :: nat) < 256" by (rule nat_of_char_less_256)
  ultimately have "unat x = (of_char c :: nat)" by (simp add: unat_of_nat)
  then show "char_of (unat x) = c" by simp
next
  assume "char_of (unat x) = c"
  then have "(of_char c :: nat) = unat x mod 256" by (metis of_char_of)
  also have "\<dots> = unat x" using unsigned_less [of x, where ?'a = nat] by simp
  finally have "of_nat (of_char c :: nat) = x" by simp
  then show "x = of_char c" by (simp add: of_nat_of_char)
qed

lemma c_text_step:
  assumes "c_text b p = Some nm"
  shows "p < length b" "nm = (if b ! p = 0 then [] else char_of (unat (b ! p)) # tl nm)"
    "b ! p \<noteq> 0 \<Longrightarrow> c_text b (p + 1) = Some (tl nm)"
proof -
  from assms have p: "0 \<in> set (drop p b)" and nm: "nm = map (\<lambda>x. char_of (unat x)) (takeWhile (\<lambda>x. x \<noteq> 0) (drop p b))"
    by (auto simp: c_text_def split: if_splits)
  then show lt: "p < length b" by (metis drop_all empty_iff empty_set not_le)
  then have d: "drop p b = b ! p # drop (p + 1) b" by (simp add: Cons_nth_drop_Suc)
  from nm d show "nm = (if b ! p = 0 then [] else char_of (unat (b ! p)) # tl nm)" by simp
  assume nz: "b ! p \<noteq> 0"
  with p d have "0 \<in> set (drop (p + 1) b)" by (metis set_ConsD)
  then show "c_text b (p + 1) = Some (tl nm)" using nz d nm lt by (simp add: c_text_def)
qed

lemma str_equal_text:
  "c_text b p = Some nm \<Longrightarrow> CHR 0x00 \<notin> set s \<Longrightarrow> str_equal b p s t = Ret (nm = s) t"
proof (induction s arbitrary: p nm)
  case Nil
  note nm = c_text_step [OF Nil(1)]
  from nm(2) have "(b ! p = 0) = (nm = [])" by (cases "b ! p = 0") auto
  with nm(1) show ?case by auto
next
  case (Cons c cs)
  note nm = c_text_step [OF Cons.prems(1)]
  show ?case
  proof (cases "b ! p = of_char c")
    case True
    with char_byte [of "b ! p" c] have c: "char_of (unat (b ! p)) = c" by simp
    have "b ! p \<noteq> 0"
    proof
      assume "b ! p = 0"
      with c have "c = CHR 0x00" by (simp add: char_of_def)
      with Cons.prems(2) show False by simp
    qed
    then have "str_equal b (p + 1) cs t = Ret (tl nm = cs) t" using Cons.IH [OF nm(3)] Cons.prems(2) by simp
    have "nm = c # tl nm" using nm(2) c \<open>b ! p \<noteq> 0\<close> by (simp only: if_False)
    then have "(tl nm = cs) = (nm = c # cs)" by (metis list.sel(3))
    moreover note \<open>str_equal b (p + 1) cs t = Ret (tl nm = cs) t\<close>
    ultimately show ?thesis using nm(1) True by simp
  next
    case False
    then have "char_of (unat (b ! p)) \<noteq> c" using char_byte [of "b ! p" c] by simp
    then have "nm \<noteq> c # cs" using nm(2) by (auto split: if_splits)
    with False nm(1) show ?thesis by simp
  qed
qed

declare str_equal.simps [simp del]

subsection \<open>The sections\<close>

lemma run_shdr_field: "length sh = 40 * n \<Longrightarrow> i < n \<Longrightarrow> off + 4 \<le> 40 \<Longrightarrow> shdr_field sh i off = ret (block_field sh (40 * i + off) 4)"
  by (simp add: shdr_field_def)

lemma run_read_block:
  "0 < unat n \<Longrightarrow> unat off + unat n \<le> length f \<Longrightarrow> read_block f off n = ret (take (unat n) (drop (unat off) f))"
  using word_gt_0 [of n] by (auto simp: read_block_def unat_gt_0)

lemma section_reads:
  assumes sh: "length sh = 40 * n" and i: "i < n" and sec: "section_is f sh names i ty name content"
  shows "shdr_field sh i SH_TYPE = ret ty" "shdr_field sh i SH_OFFSET = ret (block_field sh (40 * i + SH_OFFSET) 4)"
    "shdr_field sh i SH_SIZE = ret (block_field sh (40 * i + SH_SIZE) 4)"
    "shdr_field sh i SH_NAME = ret (block_field sh (40 * i) 4)"
    "CHR 0x00 \<notin> set s \<Longrightarrow> str_equal names (unat (block_field sh (40 * i) 4)) s = ret (name = s)"
    "read_block f (block_field sh (40 * i + SH_OFFSET) 4) (block_field sh (40 * i + SH_SIZE) 4) = ret content"
    "unat (block_field sh (40 * i + SH_SIZE) 4) = length content"
proof -
  note s = sec [unfolded section_is_def]
  show "shdr_field sh i SH_TYPE = ret ty" "shdr_field sh i SH_OFFSET = ret (block_field sh (40 * i + SH_OFFSET) 4)"
    "shdr_field sh i SH_SIZE = ret (block_field sh (40 * i + SH_SIZE) 4)"
    "shdr_field sh i SH_NAME = ret (block_field sh (40 * i) 4)"
    "unat (block_field sh (40 * i + SH_SIZE) 4) = length content"
    using run_shdr_field [OF sh i, of SH_TYPE] run_shdr_field [OF sh i, of SH_OFFSET] run_shdr_field [OF sh i, of SH_SIZE]
      run_shdr_field [OF sh i, of SH_NAME] s by simp_all
  show "str_equal names (unat (block_field sh (40 * i) 4)) s = ret (name = s)" if "CHR 0x00 \<notin> set s"
    by (rule ext, rule str_equal_text [OF _ that]) (use s in blast)
  have "take (unat (block_field sh (40 * i + SH_SIZE) 4)) (drop (unat (block_field sh (40 * i + SH_OFFSET) 4)) f) = content"
    using s by metis
  then show "read_block f (block_field sh (40 * i + SH_OFFSET) 4) (block_field sh (40 * i + SH_SIZE) 4) = ret content"
    using run_read_block [of "block_field sh (40 * i + SH_SIZE) 4" "block_field sh (40 * i + SH_OFFSET) 4" f] s by metis
qed

lemma load_symtab:
  assumes sh: "length sh = 40 * n" and i: "i < n" and sec: "section_is f sh names i SHT_SYMTAB ''.symtab'' content"
  shows "load_section f sh names i t = Ret () (t\<lparr>symtab_bytes := Some content, nr_symtab_entry := length content div 16\<rparr>)"
  unfolding load_section_def section_reads [OF sh i sec] by (simp add: bindM_def section_reads(5,6,7) [OF sh i sec])

lemma load_strtab:
  assumes sh: "length sh = 40 * n" and i: "i < n" and sec: "section_is f sh names i SHT_STRTAB ''.strtab'' content"
  shows "load_section f sh names i t = Ret () (t\<lparr>strtab := Some content\<rparr>)"
  unfolding load_section_def section_reads [OF sh i sec] by (simp add: bindM_def run_whenM section_reads(5,6,7) [OF sh i sec])

lemma skip_section:
  assumes sh: "length sh = 40 * n" and i: "i < n" and sec: "section_skipped sh names i"
  shows "load_section f sh names i t = Ret () t"
proof -
  let ?ty = "block_field sh (40 * i + SH_TYPE) 4"
  let ?nm = "c_text names (unat (block_field sh (40 * i) 4))"
  have "?ty \<noteq> SHT_SYMTAB \<and> ?ty \<noteq> SHT_STRTAB \<or>
    (\<exists>nm. ?nm = Some nm \<and> \<not> (?ty = SHT_SYMTAB \<and> nm = ''.symtab'') \<and> \<not> (?ty = SHT_STRTAB \<and> nm = ''.strtab''))"
    using sec unfolding section_skipped_def Let_def by auto
  then show ?thesis unfolding load_section_def
    by (elim disjE exE conjE) (simp_all add: run_shdr_field [OF sh i] str_equal_text bindM_def run_whenM)
qed

lemma load_sections:
  assumes sh: "length sh = 40 * n" and i: "i < n" and j: "j < n" and ij: "i \<noteq> j"
    and symtab: "section_is f sh names i SHT_SYMTAB ''.symtab'' syms"
    and strs: "section_is f sh names j SHT_STRTAB ''.strtab'' strs"
    and rest: "\<And>k. k < n \<Longrightarrow> k \<noteq> i \<Longrightarrow> k \<noteq> j \<Longrightarrow> section_skipped sh names k"
  shows "wp (forM [0..<n] (load_section f sh names))
    (\<lambda>_ t. symtab_bytes t = Some syms \<and> nr_symtab_entry t = length syms div 16 \<and> strtab t = Some strs \<and>
      exec_file t = exec_file t0) t0"
proof (rule wp_for_upt [where I = "\<lambda>k t. (i < k \<longrightarrow> symtab_bytes t = Some syms \<and> nr_symtab_entry t = length syms div 16) \<and>
    (j < k \<longrightarrow> strtab t = Some strs) \<and> exec_file t = exec_file t0"])
  fix k :: nat and t :: elf_tables
  assume k: "k < n"
    and I: "(i < k \<longrightarrow> symtab_bytes t = Some syms \<and> nr_symtab_entry t = length syms div 16) \<and> (j < k \<longrightarrow> strtab t = Some strs) \<and>
      exec_file t = exec_file t0"
  consider "k = i" | "k = j" | "k \<noteq> i" "k \<noteq> j" by blast
  then show "wp (load_section f sh names k)
    (\<lambda>_ t. (i < Suc k \<longrightarrow> symtab_bytes t = Some syms \<and> nr_symtab_entry t = length syms div 16) \<and>
      (j < Suc k \<longrightarrow> strtab t = Some strs) \<and> exec_file t = exec_file t0) t"
  proof cases
    case 1
    from load_symtab [OF sh i symtab] I ij show ?thesis unfolding 1 wp_Ret_iff by simp
  next
    case 2
    from load_strtab [OF sh j strs] I ij show ?thesis unfolding 2 wp_Ret_iff by simp
  next
    case 3
    from skip_section [OF sh k rest [OF k 3]] I 3 show ?thesis unfolding wp_Ret_iff by auto
  qed
qed (use i j in auto)

text \<open>
  C36. The debugger finds the symbols the linker wrote: loading a program whose symbol table encodes a list of
  symbols, with their names in its string table, leaves tables that read back as exactly these symbols,
  whatever other sections the file has and whatever was loaded before.
\<close>

theorem symbols_read_back:
  assumes path: "fopen path = Some f" and elf: "elf_file f sh names n"
    and ij: "i < n" "j < n" "i \<noteq> j"
    and symtab: "section_is f sh names i SHT_SYMTAB ''.symtab'' (concat (map entry_bytes es))"
    and strs: "section_is f sh names j SHT_STRTAB ''.strtab'' strs"
    and rest: "\<forall>k<n. k \<noteq> i \<and> k \<noteq> j \<longrightarrow> section_skipped sh names k"
    and texts: "\<forall>(name, y, r) \<in> set es. c_text strs (unat name) = Some (symbol.st_name y)"
  shows "wp (load_elf_tables fopen [prog, path])
    (\<lambda>_ t. exec_file t = Some path \<and> debug_symbols t = Some (map (\<lambda>(_, y, _). y) es)) t0"
proof -
  let ?hdr = "take 52 f" and ?x = "unat (block_field f 50 2)"
  let ?so = "block_field sh (40 * ?x + SH_OFFSET) 4" and ?sz = "block_field sh (40 * ?x + SH_SIZE) 4"
  note e = elf [unfolded elf_file_def Let_def]
  have hdr: "block_field ?hdr p k = block_field f p k" if "p + k \<le> 52" "k \<le> 4" for p k
    using block_field_take [of p k 52 f] that e by simp
  have sh: "length sh = 40 * n" using e by simp
  have n: "unat (block_field f 48 2) = n" "unat (block_field f 46 2) = 40" using e by simp_all
  have "n < 2 ^ 16" using block_field_half [of f 48] n by simp
  then have "40 * n < 2 ^ 31" by simp
  then have small: "unat (of_nat (40 * n) :: u32) = 40 * n" "0 < n" "40 * n < 2 ^ 31"
    using e of_nat_inverse [of "40 * n" "of_nat (40 * n) :: u32"] by auto
  have table: "read_block f (block_field f 32 4) (of_nat (40 * n)) = ret sh"
    using run_read_block [of "of_nat (40 * n)" "block_field f 32 4" f] e small by simp
  have names: "read_block f ?so ?sz = ret names"
    using run_read_block [of ?sz ?so f] e by simp
  have shx: "shdr_field sh ?x SH_OFFSET = ret ?so" "shdr_field sh ?x SH_SIZE = ret ?sz"
    using run_shdr_field [OF sh, of ?x] e by simp_all
  have rd: "read_block f 0 52 = ret ?hdr" using run_read_block [of 52 0 f] e by simp
  let ?t = "t0\<lparr>exec_file := Some path\<rparr>"
  have loaded: "debug_symbols t = Some (map (\<lambda>(_, y, _). y) es)"
    if "symtab_bytes t = Some (concat (map entry_bytes es)) \<and> nr_symtab_entry t = length (concat (map entry_bytes es)) div 16 \<and>
      strtab t = Some strs \<and> exec_file t = exec_file ?t" for t
  proof -
    have "c_text strs (unat name) = Some (symbol.st_name y)" if "(name, y, r) \<in> set es" for name y r
      using bspec [OF texts that] by simp
    from debug_symbols_entries [OF this] that show ?thesis by (simp add: debug_symbols_def)
  qed
  have "wp (seqM (forM [0..<n] (load_section f sh names)) (bindM (getM (\<lambda>t. strtab t \<noteq> None \<and> symtab_bytes t \<noteq> None)) assertM))
    (\<lambda>_ t. exec_file t = Some path \<and> debug_symbols t = Some (map (\<lambda>(_, y, _). y) es)) ?t"
    unfolding wp_simps
    by (rule wp_mono [OF load_sections [OF sh ij symtab strs]]) (use rest loaded in auto)
  then show ?thesis unfolding load_elf_tables_def wp_simps
    using path e n small by (simp add: wp_simps rd hdr table [simplified] shx names Let_def del: split_paired_Ex)
qed

text \<open>A file with one data symbol \<open>x\<close> and the four sections a linker writes at least.\<close>

definition sample_names :: "u8 list" where
  "sample_names = 0 # map of_char ''.symtab'' @ 0 # map of_char ''.strtab'' @ 0 # map of_char ''.shstrtab'' @ [0]"

definition sample_symbols :: "(u32 \<times> symbol \<times> u8 \<times> u8 \<times> u8) list" where
  "sample_symbols = [(1, \<lparr>st_name = ''x'', st_value = 0x804a010, st_size = 4, st_info = 0x11\<rparr>, 0, 7, 0)]"

definition sample_strings :: "u8 list" where
  "sample_strings = [0, of_char CHR ''x'', 0]"

definition sample_header :: "u32 \<Rightarrow> u32 \<Rightarrow> u32 \<Rightarrow> u32 \<Rightarrow> u8 list" where
  "sample_header name ty off sz = word_bytes name @ word_bytes ty @ replicate 8 0 @ word_bytes off @ word_bytes sz @ replicate 16 0"

definition sample_sections :: "u8 list" where
  "sample_sections = replicate 40 0 @ sample_header 1 2 239 16 @ sample_header 9 3 255 3 @ sample_header 17 3 212 27"

definition sample_elf :: "u8 list" where
  "sample_elf = [0x7f, 0x45, 0x4c, 0x46, 1, 1, 1] @ replicate 9 0 @ [2, 0, 3, 0, 1, 0, 0, 0] @ replicate 8 0 @
     word_bytes 52 @ replicate 10 0 @ [40, 0, 4, 0, 3, 0] @ sample_sections @ sample_names @
     concat (map entry_bytes sample_symbols) @ sample_strings"

theorem symbols_read_back_witness:
  "wp (load_elf_tables (\<lambda>p. if p = ''loop'' then Some sample_elf else None) [''nemu'', ''loop''])
    (\<lambda>_ t. exec_file t = Some ''loop'' \<and> debug_symbols t = Some (map (\<lambda>(_, y, _). y) sample_symbols))
    \<lparr>exec_file = None, strtab = None, symtab_bytes = None, nr_symtab_entry = 0\<rparr>"
proof (rule symbols_read_back [where f = sample_elf and n = 4 and i = 1 and j = 2 and sh = sample_sections
      and names = sample_names and strs = sample_strings])
  show "elf_file sample_elf sample_sections sample_names 4" by code_simp
  show "section_is sample_elf sample_sections sample_names 1 SHT_SYMTAB ''.symtab'' (concat (map entry_bytes sample_symbols))" by code_simp
  show "section_is sample_elf sample_sections sample_names 2 SHT_STRTAB ''.strtab'' sample_strings" by code_simp
  have "section_skipped sample_sections sample_names 0" "section_skipped sample_sections sample_names 3" by code_simp+
  then show "\<forall>k<4. k \<noteq> 1 \<and> k \<noteq> 2 \<longrightarrow> section_skipped sample_sections sample_names k"
    by (auto simp: numeral_eq_Suc less_Suc_eq)
  show "\<forall>(name, y, r) \<in> set sample_symbols. c_text sample_strings (unat name) = Some (symbol.st_name y)" by code_simp
qed simp_all

end
