(* ===== verification/Pal_State.thy ===== *)
theory Pal_State
  imports Prelude
begin

unbundle bit_operations_syntax

text \<open>
  The state of the role-playing game and the operations on it: game/src/nemu-pal/global/global.c and the
  random numbers of misc/util.c, in the configuration of include/_common.h (neither \<open>PAL_WIN95\<close> nor
  \<open>PAL_CLASSIC\<close>). \<open>PLAYERROLES\<close> is a structure of rows of six words, one word per player role, and the code
  also addresses it as one array of rows; the model has one function from rows and roles.
\<close>

section \<open>Data\<close>

abbreviation (input) MAX_PLAYER_ROLES :: nat where "MAX_PLAYER_ROLES \<equiv> 6"
abbreviation (input) MAX_PLAYABLE_PLAYER_ROLES :: nat where "MAX_PLAYABLE_PLAYER_ROLES \<equiv> 5"
abbreviation (input) MAX_INVENTORY :: nat where "MAX_INVENTORY \<equiv> 256"
abbreviation (input) NUM_MAGIC_ELEMENTAL :: nat where "NUM_MAGIC_ELEMENTAL \<equiv> 5"
abbreviation (input) MAX_PLAYER_EQUIPMENTS :: nat where "MAX_PLAYER_EQUIPMENTS \<equiv> 6"
abbreviation (input) MAX_PLAYER_MAGICS :: nat where "MAX_PLAYER_MAGICS \<equiv> 32"
abbreviation (input) MAX_OBJECTS :: nat where "MAX_OBJECTS \<equiv> 600"
abbreviation (input) MAX_POISONS :: nat where "MAX_POISONS \<equiv> 16"
abbreviation (input) MAX_LEVELS :: u16 where "MAX_LEVELS \<equiv> 99"

datatype role_row = rgwAvatar | rgwSpriteNumInBattle | rgwSpriteNum | rgwName | rgwAttackAll | rgwUnknown1
  | rgwLevel | rgwMaxHP | rgwMaxMP | rgwHP | rgwMP | rgwEquipment nat | rgwAttackStrength | rgwMagicStrength
  | rgwDefense | rgwDexterity | rgwFleeRate | rgwPoisonResistance | rgwElementalResistance nat | rgwUnknown2
  | rgwUnknown3 | rgwUnknown4 | rgwCoveredBy | rgwMagic nat | rgwWalkFrames | rgwCooperativeMagic | rgwUnknown5
  | rgwUnknown6 | rgwDeathSound | rgwAttackSound | rgwWeaponSound | rgwCriticalSound | rgwMagicSound
  | rgwCoverSound | rgwDyingSound

type_synonym PLAYERROLES = "role_row \<Rightarrow> nat \<Rightarrow> u16"

text \<open>The statuses by number.\<close>

abbreviation (input) kStatusConfused :: nat where "kStatusConfused \<equiv> 0"
abbreviation (input) kStatusSlow :: nat where "kStatusSlow \<equiv> 1"
abbreviation (input) kStatusSleep :: nat where "kStatusSleep \<equiv> 2"
abbreviation (input) kStatusSilence :: nat where "kStatusSilence \<equiv> 3"
abbreviation (input) kStatusPuppet :: nat where "kStatusPuppet \<equiv> 4"
abbreviation (input) kStatusBravery :: nat where "kStatusBravery \<equiv> 5"
abbreviation (input) kStatusProtect :: nat where "kStatusProtect \<equiv> 6"
abbreviation (input) kStatusHaste :: nat where "kStatusHaste \<equiv> 7"
abbreviation (input) kStatusDualAttack :: nat where "kStatusDualAttack \<equiv> 8"
abbreviation (input) kStatusAll :: nat where "kStatusAll \<equiv> 9"

record INVENTORY =
  wItem :: u16
  nAmount :: u16
  nAmountInUse :: u16

record POISONSTATUS =
  wPoisonID :: u16
  wPoisonScript :: u16

record EXPERIENCE =
  wExp :: u16
  wLevel :: u16

text \<open>
  \<open>glSeed\<close> is the seed of the random numbers, \<open>rgObject w k\<close> word \<open>k\<close> of the union \<open>OBJECT\<close>: a poison has its
  level in word 0 and its script for players in word 2. Of a party member only the role is used here.
\<close>

record pal =
  PlayerRoles :: PLAYERROLES
  rgEquipmentEffect :: "nat \<Rightarrow> PLAYERROLES"
  rgPlayerStatus :: "nat \<Rightarrow> nat \<Rightarrow> u16"
  wMaxPartyMemberIndex :: u16
  rgParty :: "nat \<Rightarrow> u16"
  rgPoisonStatus :: "nat \<Rightarrow> nat \<Rightarrow> POISONSTATUS"
  rgInventory :: "nat \<Rightarrow> INVENTORY"
  rgObject :: "nat \<Rightarrow> nat \<Rightarrow> u16"
  rgPrimaryExp :: "nat \<Rightarrow> EXPERIENCE"
  glSeed :: u32

text \<open>Access to one of the six columns of a row.\<close>

definition role_get :: "role_row \<Rightarrow> u16 \<Rightarrow> (pal, u16) M" where
  "role_get row r = (if unat r < MAX_PLAYER_ROLES then getM (\<lambda>g. PlayerRoles g row (unat r)) else fail OutOfBounds)"

definition role_set :: "role_row \<Rightarrow> u16 \<Rightarrow> u16 \<Rightarrow> (pal, unit) M" where
  "role_set row r v =
     (if unat r < MAX_PLAYER_ROLES
      then modM (\<lambda>g. g\<lparr>PlayerRoles := (PlayerRoles g)(row := (PlayerRoles g row)(unat r := v))\<rparr>) else fail OutOfBounds)"

section \<open>Random numbers\<close>

text \<open>\<open>SDL_GetTicks\<close> of hal/timer.c is unfinished and fails its assertion.\<close>

definition SDL_GetTicks :: "(pal, u32) M" where
  "SDL_GetTicks = fail AssertFail"

definition lsrand :: "u32 \<Rightarrow> (pal, unit) M" where
  "lsrand iInitialSeed = modM (\<lambda>g. g\<lparr>glSeed := 1664525 * iInitialSeed + 1013904223\<rparr>)"

definition lrand :: "(pal, int) M" where
  "lrand =
     bindM (getM glSeed) (\<lambda>s.
     seqM (whenM (s = 0) (bindM SDL_GetTicks lsrand))
    (seqM (modM (\<lambda>g. g\<lparr>glSeed := 1664525 * glSeed g + 1013904223\<rparr>))
          (getM (\<lambda>g. sint (glSeed g) div 2 + 1073741824))))"

text \<open>
  The generator itself relies on products and sums that wrap. A range that does not fit an \<open>int\<close> is left
  undefined by C.
\<close>

abbreviation (input) INT_MAX :: int where "INT_MAX \<equiv> 2147483647"

definition RandomLong :: "int \<Rightarrow> int \<Rightarrow> (pal, int) M" where
  "RandomLong frm to =
     (if to \<le> frm then ret frm
      else if to - frm + 1 > INT_MAX then fail Undefined
      else bindM lrand (\<lambda>n. ret (frm + n div (INT_MAX div (to - frm + 1)))))"

definition RandomFloat :: "int \<Rightarrow> int \<Rightarrow> (pal, int) M" where
  "RandomFloat frm to =
     (if to \<le> frm then ret frm
      else if to - frm + 1 > INT_MAX then fail Undefined
      else bindM lrand (\<lambda>n. ret (frm + n mod (to - frm + 1))))"

section \<open>Inventory\<close>

definition upd_slot :: "nat \<Rightarrow> (INVENTORY \<Rightarrow> INVENTORY) \<Rightarrow> (pal, unit) M" where
  "upd_slot i f = modM (\<lambda>g. g\<lparr>rgInventory := (rgInventory g)(i := f (rgInventory g i))\<rparr>)"

definition PAL_AddItemToInventory :: "u16 \<Rightarrow> int \<Rightarrow> (pal, bool) M" where
  "PAL_AddItemToInventory wObjectID iNum =
     (if wObjectID = 0 then ret False
      else let iNum = (if iNum = 0 then 1 else iNum) in
      bindM (getM (\<lambda>g. find_way MAX_INVENTORY (\<lambda>i. wItem (rgInventory g i) = wObjectID \<or> wItem (rgInventory g i) = 0))) (\<lambda>index.
      bindM (getM (\<lambda>g. case index of None \<Rightarrow> False | Some i \<Rightarrow> wItem (rgInventory g i) = wObjectID)) (\<lambda>fFound.
      if iNum > 0 then
        (case index of None \<Rightarrow> ret False
         | Some i \<Rightarrow>
           seqM (if fFound then
                   seqM (upd_slot i (\<lambda>e. e\<lparr>nAmount := nAmount e + word_of_int iNum\<rparr>))
                        (upd_slot i (\<lambda>e. if nAmount e > 99 then e\<lparr>nAmount := 99\<rparr> else e))
                 else seqM (upd_slot i (\<lambda>e. e\<lparr>wItem := wObjectID\<rparr>))
                           (upd_slot i (\<lambda>e. e\<lparr>nAmount := word_of_int (min iNum 99)\<rparr>)))
                (ret True))
      else
        (case index of
           Some i \<Rightarrow>
             if fFound then
               if iNum = - (2 ^ 31) then fail Undefined
               else bindM (getM (\<lambda>g. uint (nAmount (rgInventory g i)) < - iNum)) (\<lambda>out.
                 if out then seqM (upd_slot i (\<lambda>e. e\<lparr>nAmount := 0\<rparr>)) (ret False)
                 else seqM (upd_slot i (\<lambda>e. e\<lparr>nAmount := nAmount e - word_of_int (- iNum)\<rparr>)) (ret True))
             else ret False
         | None \<Rightarrow> ret False))))"

text \<open>The loop stops at the first empty slot.\<close>

definition PAL_GetItemAmount :: "u16 \<Rightarrow> pal \<Rightarrow> nat" where
  "PAL_GetItemAmount w g =
     (case find_way MAX_INVENTORY (\<lambda>i. wItem (rgInventory g i) = 0 \<or> wItem (rgInventory g i) = w) of
        Some i \<Rightarrow> if wItem (rgInventory g i) = 0 then 0 else unat (nAmount (rgInventory g i))
      | None \<Rightarrow> 0)"

text \<open>
  The two compaction loops of this file: slots before the first one with \<open>stop\<close> are kept when \<open>keep\<close> says so
  and move up; \<open>None\<close> is a read outside an array. The result is the number of slots kept.
\<close>

primrec compact :: "('a \<Rightarrow> bool) \<Rightarrow> ('a \<Rightarrow> bool option) \<Rightarrow> nat \<Rightarrow> nat \<Rightarrow> nat \<Rightarrow> (nat \<Rightarrow> 'a) \<Rightarrow> (nat \<times> (nat \<Rightarrow> 'a)) option" where
  "compact stop keep 0 i j f = Some (j, f)"
| "compact stop keep (Suc n) i j f =
     (if stop (f i) then Some (j, f)
      else case keep (f i) of None \<Rightarrow> None
        | Some b \<Rightarrow> if b then compact stop keep n (i + 1) (j + 1) (f(j := f i)) else compact stop keep n (i + 1) j f)"

definition PAL_CompressInventory :: "(pal, unit) M" where
  "PAL_CompressInventory =
     bindM (getM rgInventory) (\<lambda>inv.
     case compact (\<lambda>e. wItem e = 0) (\<lambda>e. Some (nAmount e > 0)) MAX_INVENTORY 0 0 inv of
       None \<Rightarrow> fail OutOfBounds
     | Some (j, inv) \<Rightarrow> modM (\<lambda>g. g\<lparr>rgInventory := (\<lambda>k. if j \<le> k \<and> k < MAX_INVENTORY
           then (inv k)\<lparr>wItem := 0, nAmount := 0, nAmountInUse := 0\<rparr> else inv k)\<rparr>))"

section \<open>Health\<close>

text \<open>
  \<open>v += d\<close> for a word and a \<open>SHORT\<close>, and the clamping that follows it.
\<close>

definition add_clamped :: "role_row \<Rightarrow> role_row \<Rightarrow> u16 \<Rightarrow> u16 \<Rightarrow> (pal, unit) M" where
  "add_clamped row limit r d =
     seqM (bindM (role_get row r) (\<lambda>v. role_set row r (v + d)))
    (bindM (role_get row r) (\<lambda>v.
     if sint v < 0 then role_set row r 0
     else bindM (role_get limit r) (\<lambda>m. whenM (v > m) (role_set row r m))))"

definition PAL_IncreaseHPMP :: "u16 \<Rightarrow> u16 \<Rightarrow> u16 \<Rightarrow> (pal, bool) M" where
  "PAL_IncreaseHPMP r sHP sMP =
     bindM (role_get rgwHP r) (\<lambda>hp.
     if hp > 0 then
       seqM (add_clamped rgwHP rgwMaxHP r sHP) (seqM (add_clamped rgwMP rgwMaxMP r sMP) (ret True))
     else ret False)"

section \<open>Poisons\<close>

text \<open>
  The search for the party member with a role, \<open>for (index = 0; index <= wMaxPartyMemberIndex; index++)\<close>.
\<close>

definition party_index :: "u16 \<Rightarrow> (pal, nat option) M" where
  "party_index r =
     bindM (getM (\<lambda>g. unat (wMaxPartyMemberIndex g) + 1)) (\<lambda>n.
     bindM (getM (\<lambda>g. find_way (min n MAX_PLAYABLE_PLAYER_ROLES) (\<lambda>i. rgParty g i = r))) (\<lambda>index.
     if index = None \<and> MAX_PLAYABLE_PLAYER_ROLES < n then fail OutOfBounds else ret index))"

text \<open>Word \<open>k\<close> of an object.\<close>

definition object_word :: "u16 \<Rightarrow> nat \<Rightarrow> pal \<Rightarrow> u16 option" where
  "object_word w k g = (if unat w < MAX_OBJECTS then Some (rgObject g (unat w) k) else None)"

abbreviation (input) wPoisonLevel :: nat where "wPoisonLevel \<equiv> 0"
abbreviation (input) wPlayerScript :: nat where "wPlayerScript \<equiv> 2"

definition object_get :: "u16 \<Rightarrow> nat \<Rightarrow> (pal, u16) M" where
  "object_get w k = bindM (getM (object_word w k)) (\<lambda>v. case v of None \<Rightarrow> fail OutOfBounds | Some x \<Rightarrow> ret x)"

definition set_poison :: "nat \<Rightarrow> nat \<Rightarrow> POISONSTATUS \<Rightarrow> (pal, unit) M" where
  "set_poison i p v = modM (\<lambda>g. g\<lparr>rgPoisonStatus := (rgPoisonStatus g)(i := (rgPoisonStatus g i)(p := v))\<rparr>)"

definition no_poison :: POISONSTATUS where
  "no_poison = \<lparr>wPoisonID = 0, wPoisonScript = 0\<rparr>"

definition PAL_AddPoisonForPlayer :: "u16 \<Rightarrow> u16 \<Rightarrow> (pal, unit) M" where
  "PAL_AddPoisonForPlayer r wID =
     bindM (party_index r) (\<lambda>index.
     case index of None \<Rightarrow> ret ()
     | Some p \<Rightarrow>
       bindM (getM (\<lambda>g. find_way MAX_POISONS (\<lambda>i. let w = wPoisonID (rgPoisonStatus g i p) in w = 0 \<or> w = wID))) (\<lambda>i.
       case i of None \<Rightarrow> ret ()
       | Some i \<Rightarrow>
         bindM (getM (\<lambda>g. wPoisonID (rgPoisonStatus g i p))) (\<lambda>w.
         whenM (w = 0)
           (bindM (object_get wID wPlayerScript) (\<lambda>scr.
            set_poison i p \<lparr>wPoisonID = wID, wPoisonScript = scr\<rparr>)))))"

definition PAL_CurePoisonByKind :: "u16 \<Rightarrow> u16 \<Rightarrow> (pal, unit) M" where
  "PAL_CurePoisonByKind r wID =
     bindM (party_index r) (\<lambda>index.
     case index of None \<Rightarrow> ret ()
     | Some p \<Rightarrow> forM [0..<MAX_POISONS] (\<lambda>i.
         bindM (getM (\<lambda>g. wPoisonID (rgPoisonStatus g i p))) (\<lambda>w.
         whenM (w = wID) (set_poison i p no_poison))))"

definition PAL_CurePoisonByLevel :: "u16 \<Rightarrow> u16 \<Rightarrow> (pal, unit) M" where
  "PAL_CurePoisonByLevel r wMaxLevel =
     bindM (party_index r) (\<lambda>index.
     case index of None \<Rightarrow> ret ()
     | Some p \<Rightarrow> forM [0..<MAX_POISONS] (\<lambda>i.
         bindM (getM (\<lambda>g. wPoisonID (rgPoisonStatus g i p))) (\<lambda>w.
         bindM (object_get w wPoisonLevel) (\<lambda>l.
         whenM (l \<le> wMaxLevel) (set_poison i p no_poison)))))"

primrec poisoned_loop :: "nat \<Rightarrow> nat \<Rightarrow> nat \<Rightarrow> u16 \<Rightarrow> (pal, bool) M" where
  "poisoned_loop 0 i p wMinLevel = ret False"
| "poisoned_loop (Suc n) i p wMinLevel =
     bindM (getM (\<lambda>g. wPoisonID (rgPoisonStatus g i p))) (\<lambda>w.
     bindM (object_get w wPoisonLevel) (\<lambda>l.
     if l \<ge> 99 then poisoned_loop n (i + 1) p wMinLevel
     else if l \<ge> wMinLevel then ret True else poisoned_loop n (i + 1) p wMinLevel))"

definition PAL_IsPlayerPoisonedByLevel :: "u16 \<Rightarrow> u16 \<Rightarrow> (pal, bool) M" where
  "PAL_IsPlayerPoisonedByLevel r wMinLevel =
     bindM (party_index r) (\<lambda>index.
     case index of None \<Rightarrow> ret False | Some p \<Rightarrow> poisoned_loop MAX_POISONS 0 p wMinLevel)"

definition PAL_IsPlayerPoisonedByKind :: "u16 \<Rightarrow> u16 \<Rightarrow> (pal, bool) M" where
  "PAL_IsPlayerPoisonedByKind r wID =
     bindM (party_index r) (\<lambda>index.
     case index of None \<Rightarrow> ret False
     | Some p \<Rightarrow> getM (\<lambda>g. find_way MAX_POISONS (\<lambda>i. wPoisonID (rgPoisonStatus g i p) = wID) \<noteq> None))"

section \<open>Equipment\<close>

abbreviation (input) kBodyPartHand :: nat where "kBodyPartHand \<equiv> 3"
abbreviation (input) kBodyPartWear :: nat where "kBodyPartWear \<equiv> 5"

definition set_status :: "u16 \<Rightarrow> nat \<Rightarrow> u16 \<Rightarrow> (pal, unit) M" where
  "set_status r k v =
     (if unat r < MAX_PLAYER_ROLES \<and> k < kStatusAll
      then modM (\<lambda>g. g\<lparr>rgPlayerStatus := (rgPlayerStatus g)(unat r := (rgPlayerStatus g (unat r))(k := v))\<rparr>)
      else fail OutOfBounds)"

definition get_status :: "u16 \<Rightarrow> nat \<Rightarrow> (pal, u16) M" where
  "get_status r k =
     (if unat r < MAX_PLAYER_ROLES \<and> k < kStatusAll then getM (\<lambda>g. rgPlayerStatus g (unat r) k) else fail OutOfBounds)"

text \<open>
  The loop that removes the poisons of level 99 stops at the first empty slot, and clears the slots behind the
  ones it kept.
\<close>

definition drop_worn_poisons :: "nat \<Rightarrow> (pal, unit) M" where
  "drop_worn_poisons p =
     bindM (getM (\<lambda>g. compact (\<lambda>e. wPoisonID e = 0) (\<lambda>e. map_option (\<lambda>l. l < 99) (object_word (wPoisonID e) wPoisonLevel g))
         MAX_POISONS 0 0 (\<lambda>i. rgPoisonStatus g i p))) (\<lambda>res.
     case res of None \<Rightarrow> fail OutOfBounds
     | Some (j, col) \<Rightarrow> modM (\<lambda>g. g\<lparr>rgPoisonStatus := (\<lambda>i. if i < MAX_POISONS
         then (rgPoisonStatus g i)(p := (if j \<le> i then no_poison else col i)) else rgPoisonStatus g i)\<rparr>))"

definition PAL_RemoveEquipmentEffect :: "u16 \<Rightarrow> nat \<Rightarrow> (pal, unit) M" where
  "PAL_RemoveEquipmentEffect r part =
     (if MAX_PLAYER_EQUIPMENTS < part \<or> MAX_PLAYER_ROLES \<le> unat r then fail OutOfBounds
      else seqM (modM (\<lambda>g. g\<lparr>rgEquipmentEffect := (rgEquipmentEffect g)(part :=
                (\<lambda>row. (rgEquipmentEffect g part row)(unat r := 0)))\<rparr>))
          (if part = kBodyPartHand then set_status r kStatusDualAttack 0
           else if part = kBodyPartWear then
             bindM (getM (\<lambda>g. sint (wMaxPartyMemberIndex g) < 0)) (\<lambda>nobody.
             if nobody then ret ()
             else bindM (party_index r) (\<lambda>index. case index of None \<Rightarrow> ret () | Some p \<Rightarrow> drop_worn_poisons p))
           else ret ()))"

section \<open>Player attributes\<close>

text \<open>\<open>w += rgEquipmentEffect[i].row[r]\<close> for the first \<open>n\<close> equipment parts.\<close>

definition with_equipment :: "nat \<Rightarrow> role_row \<Rightarrow> u16 \<Rightarrow> (pal, u16) M" where
  "with_equipment n row r =
     bindM (role_get row r) (\<lambda>w. getM (\<lambda>g. foldl (\<lambda>w i. w + rgEquipmentEffect g i row (unat r)) w [0..<n]))"

definition PAL_GetPlayerAttackStrength :: "u16 \<Rightarrow> (pal, u16) M" where
  "PAL_GetPlayerAttackStrength = with_equipment (MAX_PLAYER_EQUIPMENTS + 1) rgwAttackStrength"

definition PAL_GetPlayerMagicStrength :: "u16 \<Rightarrow> (pal, u16) M" where
  "PAL_GetPlayerMagicStrength = with_equipment (MAX_PLAYER_EQUIPMENTS + 1) rgwMagicStrength"

definition PAL_GetPlayerDefense :: "u16 \<Rightarrow> (pal, u16) M" where
  "PAL_GetPlayerDefense = with_equipment (MAX_PLAYER_EQUIPMENTS + 1) rgwDefense"

text \<open>Without \<open>PAL_CLASSIC\<close> the last part does not count for the dexterity.\<close>

definition PAL_GetPlayerDexterity :: "u16 \<Rightarrow> (pal, u16) M" where
  "PAL_GetPlayerDexterity = with_equipment MAX_PLAYER_EQUIPMENTS rgwDexterity"

definition PAL_GetPlayerFleeRate :: "u16 \<Rightarrow> (pal, u16) M" where
  "PAL_GetPlayerFleeRate = with_equipment (MAX_PLAYER_EQUIPMENTS + 1) rgwFleeRate"

definition PAL_GetPlayerPoisonResistance :: "u16 \<Rightarrow> (pal, u16) M" where
  "PAL_GetPlayerPoisonResistance r =
     bindM (with_equipment (MAX_PLAYER_EQUIPMENTS + 1) rgwPoisonResistance r) (\<lambda>w. ret (if w > 100 then 100 else w))"

definition PAL_GetPlayerElementalResistance :: "u16 \<Rightarrow> int \<Rightarrow> (pal, u16) M" where
  "PAL_GetPlayerElementalResistance r iAttrib =
     (if iAttrib < 0 \<or> int NUM_MAGIC_ELEMENTAL \<le> iAttrib then fail OutOfBounds
      else bindM (with_equipment (MAX_PLAYER_EQUIPMENTS + 1) (rgwElementalResistance (nat iAttrib)) r) (\<lambda>w.
        ret (if w > 100 then 100 else w)))"

text \<open>The last equipment with a value that is not zero replaces the value of the role.\<close>

definition replaced_by_equipment :: "role_row \<Rightarrow> u16 \<Rightarrow> (pal, u16) M" where
  "replaced_by_equipment row r =
     bindM (role_get row r) (\<lambda>w.
     getM (\<lambda>g. foldl (\<lambda>w i. let e = rgEquipmentEffect g i row (unat r) in if e \<noteq> 0 then e else w) w
       [0..<MAX_PLAYER_EQUIPMENTS + 1]))"

definition PAL_GetPlayerBattleSprite :: "u16 \<Rightarrow> (pal, u16) M" where
  "PAL_GetPlayerBattleSprite = replaced_by_equipment rgwSpriteNumInBattle"

definition PAL_GetPlayerCooperativeMagic :: "u16 \<Rightarrow> (pal, u16) M" where
  "PAL_GetPlayerCooperativeMagic = replaced_by_equipment rgwCooperativeMagic"

definition PAL_PlayerCanAttackAll :: "u16 \<Rightarrow> (pal, bool) M" where
  "PAL_PlayerCanAttackAll r =
     (if unat r < MAX_PLAYER_ROLES
      then getM (\<lambda>g. find_way (MAX_PLAYER_EQUIPMENTS + 1) (\<lambda>i. rgEquipmentEffect g i rgwAttackAll (unat r) \<noteq> 0) \<noteq> None)
      else fail OutOfBounds)"

section \<open>Magics\<close>

definition find_magic :: "u16 \<Rightarrow> u16 \<Rightarrow> (pal, nat option) M" where
  "find_magic r m =
     (if unat r < MAX_PLAYER_ROLES
      then getM (\<lambda>g. find_way MAX_PLAYER_MAGICS (\<lambda>i. PlayerRoles g (rgwMagic i) (unat r) = m)) else fail OutOfBounds)"

definition PAL_AddMagic :: "u16 \<Rightarrow> u16 \<Rightarrow> (pal, bool) M" where
  "PAL_AddMagic r m =
     bindM (find_magic r m) (\<lambda>known.
     if known \<noteq> None then ret False
     else bindM (find_magic r 0) (\<lambda>free.
       case free of None \<Rightarrow> ret False | Some i \<Rightarrow> seqM (role_set (rgwMagic i) r m) (ret True)))"

definition PAL_RemoveMagic :: "u16 \<Rightarrow> u16 \<Rightarrow> (pal, unit) M" where
  "PAL_RemoveMagic r m =
     bindM (find_magic r m) (\<lambda>known. case known of None \<Rightarrow> ret () | Some i \<Rightarrow> role_set (rgwMagic i) r 0)"

section \<open>Statuses\<close>

definition PAL_RemovePlayerStatus :: "u16 \<Rightarrow> nat \<Rightarrow> (pal, unit) M" where
  "PAL_RemovePlayerStatus r k = bindM (get_status r k) (\<lambda>v. whenM (v \<le> 999) (set_status r k 0))"

definition PAL_SetPlayerStatus :: "u16 \<Rightarrow> nat \<Rightarrow> u16 \<Rightarrow> (pal, unit) M" where
  "PAL_SetPlayerStatus r k wNumRound =
     bindM (if k = kStatusSlow then bindM (get_status r kStatusHaste) (\<lambda>v. ret (v > 0)) else ret False) (\<lambda>hasted.
     if hasted then PAL_RemovePlayerStatus r kStatusHaste
     else bindM (if k = kStatusHaste then bindM (get_status r kStatusSlow) (\<lambda>v. ret (v > 0)) else ret False) (\<lambda>slowed.
     if slowed then PAL_RemovePlayerStatus r kStatusSlow
     else if k \<in> {kStatusConfused, kStatusSleep, kStatusSilence, kStatusSlow} then
       bindM (role_get rgwHP r) (\<lambda>hp. bindM (get_status r k) (\<lambda>v. whenM (hp \<noteq> 0 \<and> v = 0) (set_status r k wNumRound)))
     else if k = kStatusPuppet then
       bindM (role_get rgwHP r) (\<lambda>hp. bindM (get_status r k) (\<lambda>v. whenM (hp = 0 \<and> v < wNumRound) (set_status r k wNumRound)))
     else if k \<in> {kStatusBravery, kStatusProtect, kStatusDualAttack, kStatusHaste} then
       bindM (role_get rgwHP r) (\<lambda>hp. bindM (get_status r k) (\<lambda>v. whenM (hp \<noteq> 0 \<and> v < wNumRound) (set_status r k wNumRound)))
     else fail AssertFail))"

definition PAL_ClearAllPlayerStatus :: "(pal, unit) M" where
  "PAL_ClearAllPlayerStatus =
     forM [0..<MAX_PLAYER_ROLES] (\<lambda>i. forM [0..<kStatusAll] (\<lambda>j.
       bindM (getM (\<lambda>g. rgPlayerStatus g i j)) (\<lambda>v. whenM (v \<le> 999) (set_status (of_nat i) j 0))))"

section \<open>Levels\<close>

text \<open>\<open>row[r] += n + RandomLong(0, k)\<close>; the sum is truncated to a word.\<close>

definition raise_stat :: "u16 \<Rightarrow> role_row \<Rightarrow> int \<Rightarrow> int \<Rightarrow> (pal, unit) M" where
  "raise_stat r row n k =
     bindM (RandomLong 0 k) (\<lambda>x. bindM (role_get row r) (\<lambda>v. role_set row r (v + word_of_int (n + x))))"

definition stat_limit :: "u16 \<Rightarrow> role_row \<Rightarrow> (pal, unit) M" where
  "stat_limit r row = bindM (role_get row r) (\<lambda>v. whenM (v > 999) (role_set row r 999))"

definition PAL_PlayerLevelUp :: "u16 \<Rightarrow> u16 \<Rightarrow> (pal, unit) M" where
  "PAL_PlayerLevelUp r wNumLevel =
     seqM (bindM (role_get rgwLevel r) (\<lambda>l. role_set rgwLevel r (l + wNumLevel)))
    (seqM (bindM (role_get rgwLevel r) (\<lambda>l. whenM (l > MAX_LEVELS) (role_set rgwLevel r MAX_LEVELS)))
    (seqM (forM [0..<unat wNumLevel] (\<lambda>_.
            seqM (raise_stat r rgwMaxHP 10 8)
           (seqM (raise_stat r rgwMaxMP 8 6)
           (seqM (raise_stat r rgwAttackStrength 4 1)
           (seqM (raise_stat r rgwMagicStrength 4 1)
           (seqM (raise_stat r rgwDefense 2 1)
           (seqM (raise_stat r rgwDexterity 2 1)
                 (bindM (role_get rgwFleeRate r) (\<lambda>v. role_set rgwFleeRate r (v + 2))))))))))
    (seqM (forM [rgwMaxHP, rgwMaxMP, rgwAttackStrength, rgwMagicStrength, rgwDefense, rgwDexterity, rgwFleeRate] (stat_limit r))
          (modM (\<lambda>g. g\<lparr>rgPrimaryExp := (rgPrimaryExp g)(unat r :=
             (rgPrimaryExp g (unat r))\<lparr>wExp := 0, wLevel := PlayerRoles g rgwLevel (unat r)\<rparr>)\<rparr>)))))"

end
