(* ===== verification/Pal_Props.thy ===== *)
theory Pal_Props
  imports Pal_State
begin

text \<open>
  What the operations of the role-playing game on its state guarantee: the inventory is a bag of items, with
  its operations stated as a locale that the code's functions interpret; hit points and magic points stay
  within their limits; the poisons of a player.
\<close>

section \<open>The inventory as a bag\<close>

text \<open>
  The abstract inventory is a number for every item, and this is what adding or taking items does to it. The
  result is \<open>False\<close> when less was there than is taken; then nothing is left.
\<close>

definition bag_add :: "u16 \<Rightarrow> int \<Rightarrow> (u16 \<Rightarrow> nat) \<Rightarrow> bool \<times> (u16 \<Rightarrow> nat)" where
  "bag_add w n b =
     (if n > 0 then (True, b(w := min 99 (b w + nat n)))
      else if nat (- n) \<le> b w then (True, b(w := b w - nat (- n))) else (False, b(w := 0)))"

text \<open>A history of operations: \<open>Some (w, n)\<close> adds or takes items, \<open>None\<close> removes empty entries.\<close>

primrec history :: "(u16 \<Rightarrow> int \<Rightarrow> ('s, bool) M) \<Rightarrow> ('s, unit) M \<Rightarrow> (u16 \<times> int) option list \<Rightarrow> ('s, bool list) M" where
  "history add compress [] = ret []"
| "history add compress (op # ops) =
     (case op of Some (w, n) \<Rightarrow> bindM (add w n) (\<lambda>r. bindM (history add compress ops) (\<lambda>rs. ret (r # rs)))
      | None \<Rightarrow> seqM compress (history add compress ops))"

primrec bag_history :: "(u16 \<times> int) option list \<Rightarrow> (u16 \<Rightarrow> nat) \<Rightarrow> bool list \<times> (u16 \<Rightarrow> nat)" where
  "bag_history [] b = ([], b)"
| "bag_history (op # ops) b =
     (case op of None \<Rightarrow> bag_history ops b
      | Some (w, n) \<Rightarrow> let (r, c) = bag_add w n b; (rs, d) = bag_history ops c in (r # rs, d))"

definition op_items :: "(u16 \<times> int) option list \<Rightarrow> u16 set" where
  "op_items ops = {w. \<exists>n. Some (w, n) \<in> set ops}"

definition ops_ok :: "int \<Rightarrow> (u16 \<times> int) option list \<Rightarrow> bool" where
  "ops_ok most ops = list_all (\<lambda>op. case op of None \<Rightarrow> True | Some (w, n) \<Rightarrow> w \<noteq> 0 \<and> n \<noteq> 0 \<and> \<bar>n\<bar> \<le> most) ops"

lemma op_items_simps [simp]:
  "op_items [] = {}"
  "op_items (None # ops) = op_items ops"
  "op_items (Some (w, n) # ops) = insert w (op_items ops)"
  by (auto simp: op_items_def)

lemma finite_op_items [simp, intro]: "finite (op_items ops)"
proof (induction ops)
  case (Cons op ops)
  then show ?case by (cases op) auto
qed simp

text \<open>
  The interface the rest of the game uses: items are added and taken, empty entries removed. \<open>listed\<close> are the
  items with an entry, of which the container has room for \<open>cap\<close>.
\<close>

locale item_bag =
  fixes add :: "u16 \<Rightarrow> int \<Rightarrow> ('s, bool) M"
    and compress :: "('s, unit) M"
    and amount :: "'s \<Rightarrow> u16 \<Rightarrow> nat"
    and listed :: "'s \<Rightarrow> u16 set"
    and ok :: "'s \<Rightarrow> bool"
    and cap :: nat
    and most :: int
  assumes add_law: "ok s \<Longrightarrow> w \<noteq> 0 \<Longrightarrow> n \<noteq> 0 \<Longrightarrow> \<bar>n\<bar> \<le> most \<Longrightarrow> card (insert w (listed s)) \<le> cap \<Longrightarrow>
      wp (add w n) (\<lambda>r t. ok t \<and> listed t \<subseteq> insert w (listed s) \<and> (r, amount t) = bag_add w n (amount s)) s"
    and compress_law: "ok s \<Longrightarrow> wp compress (\<lambda>_ t. ok t \<and> listed t = {w \<in> listed s. amount s w > 0} \<and> amount t = amount s) s"
    and listed_finite: "ok s \<Longrightarrow> finite (listed s)"
begin

text \<open>Every history refines the history of the bag.\<close>

lemma history_is_bag_history:
  assumes "ok s" "ops_ok most ops" "card (listed s \<union> op_items ops) \<le> cap"
  shows "wp (history add compress ops) (\<lambda>rs t. ok t \<and> (rs, amount t) = bag_history ops (amount s)) s"
  using assms
proof (induction ops arbitrary: s)
  case Nil
  then show ?case by (simp add: wp_simps)
next
  case (Cons op ops)
  show ?case
  proof (cases op)
    case None
    have "wp (history add compress ops) (\<lambda>rs u. ok u \<and> (rs, amount u) = bag_history (op # ops) (amount s)) t"
      if t: "ok t \<and> listed t = {w \<in> listed s. amount s w > 0} \<and> amount t = amount s" for t
    proof -
      have "card (listed t \<union> op_items ops) \<le> card (listed s \<union> op_items ops)"
        using t listed_finite [OF Cons.prems(1)] by (intro card_mono) auto
      then show ?thesis using Cons.IH [of t] t Cons.prems None by (simp add: ops_ok_def)
    qed
    with compress_law [OF Cons.prems(1)] None show ?thesis
      by (auto simp: wp_simps elim!: wp_mono)
  next
    case (Some p)
    obtain w n where p: "p = (w, n)" by force
    have room: "card (insert w (listed s)) \<le> cap"
      using Cons.prems(3) listed_finite [OF Cons.prems(1)]
      by (intro le_trans [OF card_mono Cons.prems(3)]) (auto simp: Some p)
    have step: "wp (history add compress ops) (\<lambda>rs u. ok u \<and> (r # rs, amount u) = bag_history (op # ops) (amount s)) t"
      if t: "ok t \<and> listed t \<subseteq> insert w (listed s) \<and> (r, amount t) = bag_add w n (amount s)" for r t
    proof -
      have "card (listed t \<union> op_items ops) \<le> card (listed s \<union> op_items (op # ops))"
        using t listed_finite [OF Cons.prems(1)] by (intro card_mono) (auto simp: Some p)
      then have "wp (history add compress ops) (\<lambda>rs u. ok u \<and> (rs, amount u) = bag_history ops (amount t)) t"
        using Cons.IH [of t] t Cons.prems by (simp add: ops_ok_def)
      then show ?thesis
        by (rule wp_mono) (use t in \<open>auto simp: Some p split: prod.splits\<close>)
    qed
    have "wp (add w n) (\<lambda>r t. ok t \<and> listed t \<subseteq> insert w (listed s) \<and> (r, amount t) = bag_add w n (amount s)) s"
      using add_law [OF Cons.prems(1) _ _ _ room] Cons.prems(2) by (simp add: Some p ops_ok_def)
    then have "wp (add w n) (\<lambda>r. wp (history add compress ops) (\<lambda>rs u. ok u \<and> (r # rs, amount u) = bag_history (op # ops) (amount s))) s"
      by (rule wp_mono) (rule step)
    then show ?thesis by (simp add: Some p wp_simps)
  qed
qed

end

subsection \<open>The compaction loop\<close>

text \<open>The entries in front of the first one with \<open>stop\<close>, those without \<open>P\<close> left out, from index \<open>j\<close> on.\<close>

lemma compact_filter:
  assumes "j \<le> i" "\<And>x. x \<in> set (takeWhile (\<lambda>x. \<not> stop x) (map f [i..<i + n])) \<Longrightarrow> keep x = Some (P x)"
  shows "compact stop keep n i j f =
     (let xs = filter P (takeWhile (\<lambda>x. \<not> stop x) (map f [i..<i + n]))
      in Some (j + length xs, \<lambda>k. if j \<le> k \<and> k < j + length xs then xs ! (k - j) else f k))"
  using assms
proof (induction n arbitrary: i j f)
  case 0
  then show ?case by (auto simp: Let_def fun_eq_iff)
next
  case (Suc n)
  have upt: "[i..<i + Suc n] = i # [Suc i..<Suc i + n]" by (simp add: upt_conv_Cons)
  show ?case
  proof (cases "stop (f i)")
    case True
    then show ?thesis unfolding upt by (auto simp: Let_def fun_eq_iff)
  next
    case False
    have same: "map (f(j := f i)) [Suc i..<Suc i + n] = map f [Suc i..<Suc i + n]"
      using Suc.prems(1) by (intro map_cong) auto
    have P: "keep (f i) = Some (P (f i))"
      using Suc.prems(2) [of "f i"] False unfolding upt by simp
    have rest: "keep x = Some (P x)" if "x \<in> set (takeWhile (\<lambda>x. \<not> stop x) (map f [Suc i..<Suc i + n]))" for x
      using Suc.prems(2) [of x] that False unfolding upt by simp
    show ?thesis
    proof (cases "P (f i)")
      case True
      have "compact stop keep n (Suc i) (Suc j) (f(j := f i)) =
        (let xs = filter P (takeWhile (\<lambda>x. \<not> stop x) (map (f(j := f i)) [Suc i..<Suc i + n]))
         in Some (Suc j + length xs, \<lambda>k. if Suc j \<le> k \<and> k < Suc j + length xs then xs ! (k - Suc j) else (f(j := f i)) k))"
        using Suc.prems(1) rest by (intro Suc.IH) (simp_all only: same Suc_le_mono)
      then show ?thesis using False P True unfolding upt same
        by (auto simp: Let_def fun_eq_iff nth_Cons' not_less less_Suc_eq_le Suc_diff_le split: nat.splits)
    next
      case False2: False
      have "compact stop keep n (Suc i) j f =
        (let xs = filter P (takeWhile (\<lambda>x. \<not> stop x) (map f [Suc i..<Suc i + n]))
         in Some (j + length xs, \<lambda>k. if j \<le> k \<and> k < j + length xs then xs ! (k - j) else f k))"
        using Suc.prems(1) rest by (intro Suc.IH) simp_all
      then show ?thesis using False P False2 unfolding upt by (simp add: Let_def)
    qed
  qed
qed

subsection \<open>The inventory of the game\<close>

text \<open>
  The first \<open>n\<close> slots hold different items, at most 99 of each, the others are empty.
\<close>

definition stocked :: "(nat \<Rightarrow> INVENTORY) \<Rightarrow> nat \<Rightarrow> bool" where
  "stocked I n \<longleftrightarrow> n \<le> MAX_INVENTORY \<and> (\<forall>i<MAX_INVENTORY. wItem (I i) = 0 \<longleftrightarrow> n \<le> i) \<and>
     inj_on (\<lambda>i. wItem (I i)) {..<n} \<and> (\<forall>i<n. unat (nAmount (I i)) \<le> 99)"

definition inventory_ok :: "pal \<Rightarrow> bool" where
  "inventory_ok g \<longleftrightarrow> (\<exists>n\<le>MAX_INVENTORY. stocked (rgInventory g) n)"

definition items :: "pal \<Rightarrow> u16 set" where
  "items g = {w. w \<noteq> 0 \<and> (\<exists>i<MAX_INVENTORY. wItem (rgInventory g i) = w)}"

lemma stocked_nonzero: "stocked I n \<Longrightarrow> i < n \<Longrightarrow> wItem (I i) \<noteq> 0"
  by (auto simp: stocked_def)

lemma stocked_zero: "stocked I n \<Longrightarrow> n \<le> i \<Longrightarrow> i < MAX_INVENTORY \<Longrightarrow> wItem (I i) = 0"
  by (auto simp: stocked_def)

lemma stocked_inj: "stocked I n \<Longrightarrow> i < n \<Longrightarrow> j < n \<Longrightarrow> wItem (I i) = wItem (I j) \<Longrightarrow> i = j"
  by (auto simp: stocked_def inj_on_def)

lemma stocked_le: "stocked I n \<Longrightarrow> n \<le> MAX_INVENTORY"
  by (simp add: stocked_def)

lemma stocked_amount: "stocked I n \<Longrightarrow> i < n \<Longrightarrow> unat (nAmount (I i)) \<le> 99"
  by (simp add: stocked_def)

lemma items_stocked:
  assumes "stocked (rgInventory g) n"
  shows "items g = (\<lambda>i. wItem (rgInventory g i)) ` {..<n}"
proof (rule set_eqI)
  fix w
  have "(w \<noteq> 0 \<and> wItem (rgInventory g i) = w \<and> i < MAX_INVENTORY) = (i < n \<and> wItem (rgInventory g i) = w)" for i
    using stocked_nonzero [OF assms, of i] stocked_zero [OF assms, of i] stocked_le [OF assms] by (cases "i < n") auto
  then show "w \<in> items g \<longleftrightarrow> w \<in> (\<lambda>i. wItem (rgInventory g i)) ` {..<n}" by (auto simp: items_def)
qed

lemma card_items: "stocked (rgInventory g) n \<Longrightarrow> card (items g) = n"
  using card_image [of "\<lambda>i. wItem (rgInventory g i)" "{..<n}"] by (simp add: items_stocked) (simp add: stocked_def)

text \<open>The two searches: an item that is there, and one that is not.\<close>

lemma find_item:
  assumes "stocked I n" "i < n"
  shows "find_way MAX_INVENTORY (\<lambda>k. wItem (I k) = wItem (I i) \<or> wItem (I k) = 0) = Some i"
proof -
  have "\<not> (wItem (I j) = wItem (I i) \<or> wItem (I j) = 0)" if "j < i" for j
    using that assms(2) stocked_inj [OF assms(1), of j i] stocked_nonzero [OF assms(1), of j] by auto
  then show ?thesis using assms(2) stocked_le [OF assms(1)] by (simp add: find_way_Some)
qed

lemma find_no_item:
  assumes "stocked I n" "\<And>i. i < n \<Longrightarrow> wItem (I i) \<noteq> w"
  shows "find_way MAX_INVENTORY (\<lambda>k. wItem (I k) = w \<or> wItem (I k) = 0) = (if n < MAX_INVENTORY then Some n else None)"
  using assms(2) stocked_nonzero [OF assms(1)] stocked_zero [OF assms(1)] stocked_le [OF assms(1)]
  by (auto simp: find_way_Some find_way_None)

lemma amount_of_slot:
  assumes "stocked (rgInventory g) n" "i < n"
  shows "PAL_GetItemAmount (wItem (rgInventory g i)) g = unat (nAmount (rgInventory g i))"
  using find_item [OF assms] stocked_nonzero [OF assms] by (simp add: PAL_GetItemAmount_def disj_commute)

lemma amount_of_none:
  assumes "stocked (rgInventory g) n" "w \<notin> items g"
  shows "PAL_GetItemAmount w g = 0"
proof -
  have "wItem (rgInventory g i) \<noteq> w" if "i < n" for i
    using assms that stocked_nonzero [OF assms(1) that] by (auto simp: items_stocked)
  from find_no_item [OF assms(1) this] stocked_zero [OF assms(1)] stocked_le [OF assms(1)] show ?thesis
    by (auto simp: PAL_GetItemAmount_def disj_commute split: if_splits)
qed

text \<open>Two inventories with the same items in the first slots.\<close>

lemma amount_upd:
  assumes "stocked (rgInventory g) n" "stocked (rgInventory h) n" "i < n"
    and "\<And>k. k < n \<Longrightarrow> wItem (rgInventory h k) = wItem (rgInventory g k)"
    and "\<And>k. k < n \<Longrightarrow> k \<noteq> i \<Longrightarrow> nAmount (rgInventory h k) = nAmount (rgInventory g k)"
  shows "(\<lambda>w. PAL_GetItemAmount w h) =
    (\<lambda>w. PAL_GetItemAmount w g)(wItem (rgInventory g i) := unat (nAmount (rgInventory h i)))"
proof
  fix w
  have same: "items h = items g" using assms(4) by (simp add: items_stocked [OF assms(1)] items_stocked [OF assms(2)])
  show "PAL_GetItemAmount w h = ((\<lambda>w. PAL_GetItemAmount w g)(wItem (rgInventory g i) := unat (nAmount (rgInventory h i)))) w"
  proof (cases "w \<in> items g")
    case True
    then obtain k where k: "k < n" "w = wItem (rgInventory g k)" by (auto simp: items_stocked [OF assms(1)])
    have h: "PAL_GetItemAmount w h = unat (nAmount (rgInventory h k))"
      using amount_of_slot [OF assms(2) k(1)] k assms(4) by simp
    show ?thesis
    proof (cases "k = i")
      case True
      then show ?thesis using h k by simp
    next
      case False
      then have "w \<noteq> wItem (rgInventory g i)" using k stocked_inj [OF assms(1) k(1) assms(3)] by metis
      then show ?thesis using h k False amount_of_slot [OF assms(1) k(1)] assms(5) by simp
    qed
  next
    case False
    then have "w \<noteq> wItem (rgInventory g i)" using assms(3) by (auto simp: items_stocked [OF assms(1)])
    then show ?thesis using amount_of_none [OF assms(1) False] amount_of_none [OF assms(2)] False same by simp
  qed
qed

lemma unat_word_int:
  assumes "0 \<le> k" "k < 65536"
  shows "unat (word_of_int k :: u16) = nat k"
  using assms by (simp add: unat_eq_nat_uint uint_word_of_int)

lemma unat_add_int:
  fixes a :: u16
  assumes "unat a \<le> 99" "0 \<le> k" "k \<le> 65436"
  shows "unat (a + word_of_int k) = unat a + nat k"
  using assms unat_word_int [OF assms(2)] by (simp add: unat_word_ariths)

lemma unat_sub_int:
  fixes a :: u16
  assumes "0 \<le> k" "nat k \<le> unat a"
  shows "unat (a - word_of_int k) = unat a - nat k"
proof -
  have k: "unat (word_of_int k :: u16) = nat k"
    using assms unsigned_less [of a, where ?'a = nat] by (intro unat_word_int) simp_all
  with assms(2) have "word_of_int k \<le> a" by (simp add: word_le_nat_alt)
  then show ?thesis by (simp add: unat_sub k)
qed

text \<open>An item of the inventory: its slot gets the new number.\<close>

lemma add_listed:
  assumes "stocked (rgInventory g) n" "i < n" "k \<noteq> 0" "\<bar>k\<bar> \<le> 65436"
  shows "\<exists>r e. PAL_AddItemToInventory (wItem (rgInventory g i)) k g = Ret r (g\<lparr>rgInventory := (rgInventory g)(i := e)\<rparr>)
     \<and> wItem e = wItem (rgInventory g i) \<and> unat (nAmount e) \<le> 99
     \<and> (r, b(wItem (rgInventory g i) := unat (nAmount e))) = bag_add (wItem (rgInventory g i)) k (b(wItem (rgInventory g i) := unat (nAmount (rgInventory g i))))"
proof -
  let ?e = "rgInventory g i" and ?w = "wItem (rgInventory g i)"
  have found: "find_way MAX_INVENTORY (\<lambda>j. wItem (rgInventory g j) = ?w \<or> wItem (rgInventory g j) = 0) = Some i"
    by (rule find_item [OF assms(1,2)])
  have w: "?w \<noteq> 0" and a: "unat (nAmount ?e) \<le> 99"
    using stocked_nonzero [OF assms(1,2)] stocked_amount [OF assms(1,2)] by auto
  show ?thesis
  proof (cases "k > 0")
    case True
    have sum: "unat (nAmount ?e + word_of_int k) = unat (nAmount ?e) + nat k"
      using a True assms(4) by (intro unat_add_int) auto
    have big: "nAmount ?e + word_of_int k > 99 \<longleftrightarrow> 99 < unat (nAmount ?e) + nat k"
      using sum by (simp add: word_less_nat_alt)
    let ?f = "if nAmount ?e + word_of_int k > 99 then ?e\<lparr>nAmount := 99\<rparr> else ?e\<lparr>nAmount := nAmount ?e + word_of_int k\<rparr>"
    have run: "PAL_AddItemToInventory ?w k g = Ret True (g\<lparr>rgInventory := (rgInventory g)(i := ?f)\<rparr>)"
      using found w True by (simp add: PAL_AddItemToInventory_def Let_def upd_slot_def)
    show ?thesis
      by (rule exI [of _ True], rule exI [of _ ?f])
        (use run w True sum big in \<open>auto simp: bag_add_def min_def\<close>)
  next
    case False
    then have neg: "k < 0" using assms(3) by simp
    show ?thesis
    proof (cases "nat (- k) \<le> unat (nAmount ?e)")
      case True
      have enough: "\<not> uint (nAmount ?e) < - k" using True by (simp add: not_less nat_le_iff)
      have diff: "unat (nAmount ?e - word_of_int (- k)) = unat (nAmount ?e) - nat (- k)"
        using neg True by (intro unat_sub_int) auto
      let ?f = "?e\<lparr>nAmount := nAmount ?e - word_of_int (- k)\<rparr>"
      have run: "PAL_AddItemToInventory ?w k g = Ret True (g\<lparr>rgInventory := (rgInventory g)(i := ?f)\<rparr>)"
        using found w neg enough assms(4) by (simp add: PAL_AddItemToInventory_def Let_def upd_slot_def)
      show ?thesis
        by (rule exI [of _ True], rule exI [of _ ?f]) (use run neg True diff a in \<open>auto simp: bag_add_def\<close>)
    next
      case False
      have short: "uint (nAmount ?e) < - k" using False by (simp add: not_le nat_less_iff zless_nat_eq_int_zless)
      let ?f = "?e\<lparr>nAmount := 0\<rparr>"
      have run: "PAL_AddItemToInventory ?w k g = Ret False (g\<lparr>rgInventory := (rgInventory g)(i := ?f)\<rparr>)"
        using found w neg short assms(4) by (simp add: PAL_AddItemToInventory_def Let_def upd_slot_def)
      show ?thesis
        by (rule exI [of _ False], rule exI [of _ ?f]) (use run neg False in \<open>auto simp: bag_add_def\<close>)
    qed
  qed
qed

text \<open>A new item: it goes to the first empty slot; what is not there cannot be taken.\<close>

lemma add_unlisted:
  assumes "stocked (rgInventory g) n" "w \<notin> items g" "w \<noteq> 0"
  shows "0 < k \<Longrightarrow> n < MAX_INVENTORY \<Longrightarrow> PAL_AddItemToInventory w k g = Ret True
      (g\<lparr>rgInventory := (rgInventory g)(n := (rgInventory g n)\<lparr>wItem := w, nAmount := word_of_int (min k 99)\<rparr>)\<rparr>)"
    and "k < 0 \<Longrightarrow> PAL_AddItemToInventory w k g = Ret False g"
proof -
  have "wItem (rgInventory g i) \<noteq> w" if "i < n" for i
    using assms(2) that by (auto simp: items_stocked [OF assms(1)])
  note find = find_no_item [OF assms(1) this]
  have empty: "n < MAX_INVENTORY \<Longrightarrow> wItem (rgInventory g n) = 0" using stocked_zero [OF assms(1), of n] by simp
  show "PAL_AddItemToInventory w k g = Ret True
      (g\<lparr>rgInventory := (rgInventory g)(n := (rgInventory g n)\<lparr>wItem := w, nAmount := word_of_int (min k 99)\<rparr>)\<rparr>)"
    if "0 < k" "n < MAX_INVENTORY"
    using find that assms(3) empty by (simp add: PAL_AddItemToInventory_def Let_def upd_slot_def)
  show "PAL_AddItemToInventory w k g = Ret False g" if "k < 0"
    using find that assms(3) empty by (simp add: PAL_AddItemToInventory_def Let_def)
qed

lemma stocked_upd:
  assumes "stocked I n" "i < n" "wItem e = wItem (I i)" "unat (nAmount e) \<le> 99"
  shows "stocked (I(i := e)) n"
proof -
  have "wItem ((I(i := e)) k) = wItem (I k)" for k using assms(3) by simp
  then show ?thesis using assms unfolding stocked_def by auto
qed

lemma stocked_new:
  assumes "stocked I n" "n < MAX_INVENTORY" "w \<noteq> 0" "wItem e = w" "\<And>i. i < n \<Longrightarrow> wItem (I i) \<noteq> w" "unat (nAmount e) \<le> 99"
  shows "stocked (I(n := e)) (Suc n)"
  unfolding stocked_def
proof (intro conjI allI impI)
  show "Suc n \<le> MAX_INVENTORY" using assms(2) by simp
  show "(wItem ((I(n := e)) i) = 0) = (Suc n \<le> i)" if "i < MAX_INVENTORY" for i
    using stocked_nonzero [OF assms(1), of i] stocked_zero [OF assms(1), of i] that assms(3,4)
    by (cases i n rule: linorder_cases) auto
  show "inj_on (\<lambda>i. wItem ((I(n := e)) i)) {..<Suc n}"
    using assms(4,5) stocked_inj [OF assms(1)] by (auto simp: inj_on_def less_Suc_eq) metis+
  show "unat (nAmount ((I(n := e)) i)) \<le> 99" if "i < Suc n" for i
    using assms(6) stocked_amount [OF assms(1), of i] that by (cases "i = n") auto
qed

lemma items_new:
  assumes "stocked (rgInventory g) n" "stocked ((rgInventory g)(n := e)) (Suc n)"
  shows "items (g\<lparr>rgInventory := (rgInventory g)(n := e)\<rparr>) = insert (wItem e) (items g)"
  using assms(2) by (subst items_stocked [where n = "Suc n"]) (auto simp: items_stocked [OF assms(1)] lessThan_Suc image_iff)

lemma amount_new:
  assumes "stocked (rgInventory g) n" "stocked ((rgInventory g)(n := e)) (Suc n)"
  shows "(\<lambda>w. PAL_GetItemAmount w (g\<lparr>rgInventory := (rgInventory g)(n := e)\<rparr>)) =
    (\<lambda>w. PAL_GetItemAmount w g)(wItem e := unat (nAmount e))"
proof
  fix w
  let ?h = "g\<lparr>rgInventory := (rgInventory g)(n := e)\<rparr>"
  have h: "stocked (rgInventory ?h) (Suc n)" using assms(2) by simp
  have new: "PAL_GetItemAmount (wItem e) ?h = unat (nAmount e)"
    using amount_of_slot [OF h, of n] by simp
  consider "w = wItem e" | "w \<noteq> wItem e" "w \<in> items g" | "w \<noteq> wItem e" "w \<notin> items g" by blast
  then show "PAL_GetItemAmount w ?h = ((\<lambda>w. PAL_GetItemAmount w g)(wItem e := unat (nAmount e))) w"
  proof cases
    case 1
    then show ?thesis using new by simp
  next
    case 2
    then obtain k where k: "k < n" "w = wItem (rgInventory g k)" by (auto simp: items_stocked [OF assms(1)])
    then show ?thesis using 2 amount_of_slot [OF h, of k] amount_of_slot [OF assms(1) k(1)] by simp
  next
    case 3
    then have "w \<notin> items ?h" by (simp add: items_new [OF assms])
    then show ?thesis using 3 amount_of_none [OF h] amount_of_none [OF assms(1)] by simp
  qed
qed

lemma PAL_AddItem_law:
  assumes "inventory_ok g" "w \<noteq> 0" "k \<noteq> 0" "\<bar>k\<bar> \<le> 65436" "card (insert w (items g)) \<le> MAX_INVENTORY"
  shows "wp (PAL_AddItemToInventory w k) (\<lambda>r h. inventory_ok h \<and> items h \<subseteq> insert w (items g)
    \<and> (r, \<lambda>w. PAL_GetItemAmount w h) = bag_add w k (\<lambda>w. PAL_GetItemAmount w g)) g"
proof -
  obtain n where n: "stocked (rgInventory g) n" "n \<le> MAX_INVENTORY" using assms(1) by (auto simp: inventory_ok_def)
  show ?thesis
  proof (cases "w \<in> items g")
    case True
    then obtain i where i: "i < n" "w = wItem (rgInventory g i)" by (auto simp: items_stocked [OF n(1)])
    from add_listed [OF n(1) i(1) assms(3,4), of "\<lambda>w. PAL_GetItemAmount w g"] obtain r e where
      run: "PAL_AddItemToInventory w k g = Ret r (g\<lparr>rgInventory := (rgInventory g)(i := e)\<rparr>)"
      and e: "wItem e = wItem (rgInventory g i)" "unat (nAmount e) \<le> 99"
      and bag: "(r, (\<lambda>w. PAL_GetItemAmount w g)(w := unat (nAmount e))) = bag_add w k
        ((\<lambda>w. PAL_GetItemAmount w g)(w := unat (nAmount (rgInventory g i))))"
      unfolding i(2) by blast
    let ?h = "g\<lparr>rgInventory := (rgInventory g)(i := e)\<rparr>"
    have same: "(\<lambda>w. PAL_GetItemAmount w g)(w := unat (nAmount (rgInventory g i))) = (\<lambda>w. PAL_GetItemAmount w g)"
      using amount_of_slot [OF n(1) i(1)] i(2) by (simp add: fun_eq_iff)
    have st: "stocked (rgInventory ?h) n" using stocked_upd [OF n(1) i(1) e] by simp
    have amt: "(\<lambda>w. PAL_GetItemAmount w ?h) = (\<lambda>w. PAL_GetItemAmount w g)(w := unat (nAmount e))"
      using amount_upd [OF n(1) st i(1)] e(1) i(2) by simp
    have "items ?h = items g"
      using e(1) unfolding items_stocked [OF n(1)] items_stocked [OF st] by (intro image_cong) auto
    then show ?thesis using run st n(2) amt bag same by (auto simp: wp_def inventory_ok_def)
  next
    case False
    show ?thesis
    proof (cases "k > 0")
      case True
      have fin: "finite (items g)" by (simp add: items_stocked [OF n(1)])
      have less: "n < MAX_INVENTORY" using assms(5) False fin card_items [OF n(1)] by simp
      let ?e = "(rgInventory g n)\<lparr>wItem := w, nAmount := word_of_int (min k 99)\<rparr>"
      have e: "unat (nAmount ?e) = nat (min k 99)" using True by (simp add: unat_word_int)
      have "wItem (rgInventory g i) \<noteq> w" if "i < n" for i using False that by (auto simp: items_stocked [OF n(1)])
      then have st: "stocked ((rgInventory g)(n := ?e)) (Suc n)"
        using n(1) less assms(2) e by (intro stocked_new [where w = w]) auto
      have bag: "(True, (\<lambda>w. PAL_GetItemAmount w g)(w := nat (min k 99))) = bag_add w k (\<lambda>w. PAL_GetItemAmount w g)"
      proof -
        have "nat (min k 99) = min 99 (nat k)" using True by linarith
        then show ?thesis using True amount_of_none [OF n(1) False] by (simp add: bag_add_def)
      qed
      show ?thesis
        using add_unlisted(1) [OF n(1) False assms(2) True less] st less amount_new [OF n(1) st] items_new [OF n(1) st] bag e
        by (auto simp: wp_def inventory_ok_def intro: exI [of _ "Suc n"])
    next
      case nonpos: False
      then have neg: "k < 0" using assms(3) by simp
      then show ?thesis using add_unlisted(2) [OF n(1) False assms(2) neg] assms(1) amount_of_none [OF n(1) False]
        by (auto simp: wp_def bag_add_def fun_eq_iff)
    qed
  qed
qed

text \<open>Compressing: the slots with something in them, in their order.\<close>

definition kept_slots :: "(nat \<Rightarrow> INVENTORY) \<Rightarrow> nat \<Rightarrow> INVENTORY list" where
  "kept_slots I n = filter (\<lambda>e. nAmount e > 0) (map I [0..<n])"

lemma takeWhile_stocked:
  assumes "stocked I n"
  shows "takeWhile (\<lambda>e. wItem e \<noteq> 0) (map I [0..<MAX_INVENTORY]) = map I [0..<n]"
proof (rule takeWhile_eq_take_P_nth [THEN trans])
  show "wItem (map I [0..<MAX_INVENTORY] ! i) \<noteq> 0" if "i < n" "i < length (map I [0..<MAX_INVENTORY])" for i
    using stocked_nonzero [OF assms that(1)] that(2) by simp
  show "\<not> wItem (map I [0..<MAX_INVENTORY] ! n) \<noteq> 0" if "n < length (map I [0..<MAX_INVENTORY])"
    using stocked_zero [OF assms, of n] that by simp
  show "take n (map I [0..<MAX_INVENTORY]) = map I [0..<n]"
    using stocked_le [OF assms] by (simp add: take_map)
qed

lemma compress_run:
  assumes "stocked (rgInventory g) n"
  defines "xs \<equiv> kept_slots (rgInventory g) n"
  shows "\<exists>I. PAL_CompressInventory g = Ret () (g\<lparr>rgInventory := I\<rparr>) \<and> (\<forall>k<length xs. I k = xs ! k)
    \<and> (\<forall>k<MAX_INVENTORY. length xs \<le> k \<longrightarrow> wItem (I k) = 0)"
proof -
  have "compact (\<lambda>e. wItem e = 0) (\<lambda>e. Some (nAmount e > 0)) MAX_INVENTORY 0 0 (rgInventory g)
    = Some (length xs, \<lambda>k. if k < length xs then xs ! k else rgInventory g k)"
    using compact_filter [of 0 0 "\<lambda>e. wItem e = 0" "rgInventory g" MAX_INVENTORY "\<lambda>e. Some (nAmount e > 0)" "\<lambda>e. nAmount e > 0"]
    by (simp add: Let_def takeWhile_stocked [OF assms(1)] xs_def kept_slots_def cong: if_cong del: upt_rec_numeral)
  then show ?thesis
    by (intro exI conjI, unfold PAL_CompressInventory_def) (rule bindM_Ret [THEN trans], simp, simp, auto)
qed

lemma kept_slotsD: "e \<in> set (kept_slots I n) \<Longrightarrow> \<exists>i<n. e = I i \<and> nAmount (I i) > 0"
  by (auto simp: kept_slots_def)

lemma distinct_kept_slots:
  assumes "stocked I n"
  shows "distinct (map wItem (kept_slots I n))"
proof -
  have "distinct (map (\<lambda>i. wItem (I i)) [0..<n])"
    using assms by (auto simp: distinct_map stocked_def lessThan_atLeast0)
  then have "distinct (map wItem (map I [0..<n]))" by (simp add: comp_def)
  then show ?thesis unfolding kept_slots_def by (rule distinct_map_filter)
qed

lemma length_kept_slots: "length (kept_slots I n) \<le> n"
  unfolding kept_slots_def by (rule length_filter_le [THEN le_trans]) simp

lemma PAL_Compress_law:
  assumes "inventory_ok g"
  shows "wp PAL_CompressInventory (\<lambda>_ h. inventory_ok h
    \<and> items h = {w \<in> items g. PAL_GetItemAmount w g > 0}
    \<and> (\<lambda>w. PAL_GetItemAmount w h) = (\<lambda>w. PAL_GetItemAmount w g)) g"
proof -
  obtain n where n: "stocked (rgInventory g) n" "n \<le> MAX_INVENTORY" using assms by (auto simp: inventory_ok_def)
  let ?xs = "kept_slots (rgInventory g) n"
  obtain I where run: "PAL_CompressInventory g = Ret () (g\<lparr>rgInventory := I\<rparr>)"
    and kept: "\<And>k. k < length ?xs \<Longrightarrow> I k = ?xs ! k"
    and rest: "\<And>k. k < MAX_INVENTORY \<Longrightarrow> length ?xs \<le> k \<Longrightarrow> wItem (I k) = 0"
    using compress_run [OF n(1)] by blast
  let ?h = "g\<lparr>rgInventory := I\<rparr>"
  have len: "length ?xs \<le> n" by (rule length_kept_slots)
  have src: "\<exists>i<n. I k = rgInventory g i \<and> nAmount (rgInventory g i) > 0" if "k < length ?xs" for k
    using kept_slotsD [OF nth_mem [OF that]] kept [OF that] by auto
  have "inj_on (\<lambda>i. wItem (I i)) {..<length ?xs}"
    using distinct_kept_slots [OF n(1)] kept by (auto simp: inj_on_def distinct_conv_nth)
  moreover have "unat (nAmount (I k)) \<le> 99" if "k < length ?xs" for k
    using src [OF that] stocked_amount [OF n(1)] by auto
  moreover have "wItem (I k) \<noteq> 0" if "k < length ?xs" for k
    using src [OF that] stocked_nonzero [OF n(1)] by auto
  ultimately have st: "stocked (rgInventory ?h) (length ?xs)"
    using len n(2) rest by (auto simp: stocked_def not_less [symmetric])
  have kept_set: "(\<lambda>k. I k) ` {..<length ?xs} = rgInventory g ` {i. i < n \<and> nAmount (rgInventory g i) > 0}"
  proof -
    have "(\<lambda>k. I k) ` {..<length ?xs} = (\<lambda>k. ?xs ! k) ` {..<length ?xs}" using kept by (intro image_cong) auto
    also have "\<dots> = set ?xs" by (auto simp: set_conv_nth)
    also have "\<dots> = rgInventory g ` {i. i < n \<and> nAmount (rgInventory g i) > 0}" by (auto simp: kept_slots_def)
    finally show ?thesis .
  qed
  have items_h: "items ?h = {w \<in> items g. PAL_GetItemAmount w g > 0}"
  proof -
    have "items ?h = wItem ` ((\<lambda>k. I k) ` {..<length ?xs})" unfolding items_stocked [OF st] by (simp add: image_comp)
    also have "\<dots> = {w \<in> items g. PAL_GetItemAmount w g > 0}"
      unfolding kept_set items_stocked [OF n(1)] image_image using amount_of_slot [OF n(1)] by (auto simp: unat_gt_0 word_greater_zero_iff)
    finally show ?thesis .
  qed
  have amount: "PAL_GetItemAmount w ?h = PAL_GetItemAmount w g" for w
  proof (cases "w \<in> items ?h")
    case True
    then obtain k where k: "k < length ?xs" "w = wItem (I k)" by (auto simp: items_stocked [OF st])
    from src [OF k(1)] obtain i where i: "i < n" "I k = rgInventory g i" by auto
    then show ?thesis using amount_of_slot [OF st, of k] amount_of_slot [OF n(1) i(1)] k by simp
  next
    case False
    then have "w \<notin> items g \<or> PAL_GetItemAmount w g = 0" by (simp add: items_h)
    then show ?thesis using amount_of_none [OF st False] amount_of_none [OF n(1)] by auto
  qed
  have "inventory_ok ?h" unfolding inventory_ok_def using st len n(2) by (intro exI [of _ "length ?xs"]) simp
  then show ?thesis using run items_h amount by (simp add: wp_def)
qed

interpretation bag: item_bag PAL_AddItemToInventory PAL_CompressInventory
  "\<lambda>g w. PAL_GetItemAmount w g" items inventory_ok MAX_INVENTORY 65436
proof unfold_locales
  show "finite (items s)" if "inventory_ok s" for s
    using that by (auto simp: inventory_ok_def items_stocked)
qed (rule PAL_AddItem_law PAL_Compress_law; assumption)+

text \<open>
  C12. The inventory is a bag: whatever items are added and taken, in whatever order and with empty entries
  removed at any time, the answers and the numbers of all items afterwards are those of a plain number for
  every item, at most 99 of each, provided the items that ever occur are not more than the 256 slots and the
  sums stay within 16 bits. The slots stay in order: different items first, then the empty ones.
\<close>

theorem inventory_is_a_bag:
  assumes "inventory_ok g" "ops_ok 65436 ops" "card (items g \<union> op_items ops) \<le> 256"
  shows "wp (history PAL_AddItemToInventory PAL_CompressInventory ops)
    (\<lambda>rs h. inventory_ok h \<and> (rs, \<lambda>w. PAL_GetItemAmount w h) = bag_history ops (\<lambda>w. PAL_GetItemAmount w g)) g"
  using assms by (rule bag.history_is_bag_history)

definition some_pal :: pal where
  "some_pal = \<lparr>PlayerRoles = \<lambda>_ _. 0, rgEquipmentEffect = \<lambda>_ _ _. 0, rgPlayerStatus = \<lambda>_ _. 0,
     wMaxPartyMemberIndex = 0, rgParty = \<lambda>_. 0, rgPoisonStatus = \<lambda>_ _. no_poison,
     rgInventory = \<lambda>_. \<lparr>wItem = 0, nAmount = 0, nAmountInUse = 0\<rparr>, rgObject = \<lambda>_ _. 0,
     rgPrimaryExp = \<lambda>_. \<lparr>wExp = 0, wLevel = 0\<rparr>, glSeed = 1\<rparr>"

theorem inventory_is_a_bag_witness:
  "wp (history PAL_AddItemToInventory PAL_CompressInventory [Some (7, 3), Some (9, 200), Some (7, -3), None, Some (7, -1)])
    (\<lambda>rs h. inventory_ok h \<and> rs = [True, True, True, False] \<and> PAL_GetItemAmount 9 h = 99 \<and> PAL_GetItemAmount 7 h = 0) some_pal"
proof -
  have ok: "inventory_ok some_pal"
    unfolding inventory_ok_def by (rule exI [of _ 0]) (simp add: stocked_def some_pal_def)
  have none: "items some_pal = {}" by (simp add: items_def some_pal_def)
  have "PAL_GetItemAmount w some_pal = 0" for w
    using amount_of_none [of some_pal 0 w] none by (simp add: stocked_def some_pal_def)
  then have zero: "(\<lambda>w. PAL_GetItemAmount w some_pal) = (\<lambda>_. 0)" by (rule ext)
  have "op_items [Some (7, 3), Some (9, 200), Some (7, -3), None, Some (7, -1)] = {7, 9}" by auto
  then have room: "card (items some_pal \<union> op_items [Some (7, 3), Some (9, 200), Some (7, -3), None, Some (7, -1)]) \<le> 256"
    by (simp add: none)
  have "ops_ok 65436 [Some (7, 3), Some (9, 200), Some (7, -3), None, Some (7, -1)]" by (simp add: ops_ok_def)
  from inventory_is_a_bag [OF ok this room] show ?thesis
    by (rule wp_mono) (auto simp: zero bag_add_def fun_eq_iff)
qed

end
