(* ===== verification/Pal_Player_Props.thy ===== *)
theory Pal_Player_Props
  imports Pal_Props
begin

text \<open>
  Properties of the players of the role-playing game: hit points and magic points, poisons, random numbers.
\<close>

section \<open>Hit points and magic points\<close>

definition clamp :: "int \<Rightarrow> int \<Rightarrow> int" where
  "clamp m v = (if v < 0 then 0 else min v m)"

text \<open>A sum above 32767 is a negative \<open>SHORT\<close>.\<close>

definition gained :: "u16 \<Rightarrow> u16 \<Rightarrow> u16 \<Rightarrow> int" where
  "gained m v d = (if uint v + sint d > 32767 then 0 else clamp (uint m) (uint v + sint d))"

lemma sint16: "sint (x :: u16) = (if uint x < 32768 then uint x else uint x - 65536)"
proof -
  have x: "- 32768 \<le> uint x" "uint x < 65536" using uint_lt2p [of x] by (auto intro: order_trans [OF _ uint_ge_0])
  show ?thesis
  proof (cases "uint x < 32768")
    case True
    then show ?thesis using x signed_take_bit_int_eq_self [of 15 "uint x"] by (simp add: sint_uint)
  next
    case False
    have "signed_take_bit 15 (uint x - 65536) = uint x - 65536"
      using x False by (intro signed_take_bit_int_eq_self) auto
    moreover have "signed_take_bit 15 (uint x - 65536) = signed_take_bit 15 (uint x)"
      by (rule signed_take_bit_eq_iff_take_bit_eq [THEN iffD2]) (simp add: take_bit_eq_mod)
    ultimately show ?thesis using False by (simp add: sint_uint)
  qed
qed

lemma uint_plus16: "uint (v + d :: u16) = (if uint v + uint d < 65536 then uint v + uint d else uint v + uint d - 65536)"
proof -
  have "uint v < 65536" "uint d < 65536" using uint_lt2p [of v] uint_lt2p [of d] by auto
  moreover have "uint (v + d) = (uint v + uint d) mod 65536" by (simp add: uint_word_ariths)
  ultimately show ?thesis
    using mod_pos_pos_trivial [of "uint v + uint d" 65536] mod_pos_pos_trivial [of "uint v + uint d - 65536" 65536]
    by (cases "uint v + uint d < 65536") auto
qed

lemma sint_sum:
  fixes v d :: u16
  assumes "uint v \<le> 32767"
  shows "sint (v + d) = (if uint v + sint d > 32767 then uint v + sint d - 65536 else uint v + sint d)"
proof -
  obtain a b where a: "a = uint v" "0 \<le> a" "a \<le> 32767" and b: "b = uint d" "0 \<le> b" "b < 65536"
    using assms uint_lt2p [of d] by auto
  show ?thesis unfolding sint16 uint_plus16 a(1) [symmetric] b(1) [symmetric] using a(2,3) b(2,3) by auto
qed

definition set_role :: "role_row \<Rightarrow> u16 \<Rightarrow> u16 \<Rightarrow> pal \<Rightarrow> pal" where
  "set_role row r v g = g\<lparr>PlayerRoles := (PlayerRoles g)(row := (PlayerRoles g row)(unat r := v))\<rparr>"

lemma set_role_get [simp]:
  "PlayerRoles (set_role row r v g) row' k = (if row' = row \<and> k = unat r then v else PlayerRoles g row' k)"
  by (simp add: set_role_def)

lemma set_role_twice [simp]: "set_role row r v (set_role row r u g) = set_role row r v g"
  by (simp add: set_role_def)

lemma role_get_run: "unat r < MAX_PLAYER_ROLES \<Longrightarrow> role_get row r g = Ret (PlayerRoles g row (unat r)) g"
  by (simp add: role_get_def)

lemma role_set_run: "unat r < MAX_PLAYER_ROLES \<Longrightarrow> role_set row r v g = Ret () (set_role row r v g)"
  by (simp add: role_set_def set_role_def)

text \<open>The new value of an attribute.\<close>

definition clamped :: "u16 \<Rightarrow> u16 \<Rightarrow> u16" where
  "clamped m v = (if sint v < 0 then 0 else if v > m then m else v)"

lemma add_clamped_run:
  assumes "unat r < MAX_PLAYER_ROLES" "limit \<noteq> row"
  shows "add_clamped row limit r d g =
    Ret () (set_role row r (clamped (PlayerRoles g limit (unat r)) (PlayerRoles g row (unat r) + d)) g)"
  using assms by (simp add: add_clamped_def role_get_run role_set_run run_whenM clamped_def)

lemma PAL_IncreaseHPMP_run:
  assumes "unat r < MAX_PLAYER_ROLES"
  shows "PAL_IncreaseHPMP r sHP sMP g = (let p = \<lambda>row. PlayerRoles g row (unat r) in
    if p rgwHP > 0 then Ret True (set_role rgwMP r (clamped (p rgwMaxMP) (p rgwMP + sMP))
      (set_role rgwHP r (clamped (p rgwMaxHP) (p rgwHP + sHP)) g)) else Ret False g)"
  using assms by (simp add: PAL_IncreaseHPMP_def role_get_run add_clamped_run Let_def)

lemma clamped_gained:
  assumes "uint v \<le> 32767" "uint m \<le> 32767"
  shows "uint (clamped m (v + d)) = gained m v d"
proof -
  have d: "sint d < 32768" "- 32768 \<le> sint d" using sint_less [of d] sint_greater_eq [of d] by auto
  have s: "sint (v + d) = (if uint v + sint d > 32767 then uint v + sint d - 65536 else uint v + sint d)"
    by (rule sint_sum [OF assms(1)])
  consider "uint v + sint d > 32767" | "uint v + sint d < 0" | "0 \<le> uint v + sint d" "uint v + sint d \<le> 32767" by linarith
  then show ?thesis
  proof cases
    case 1
    then have "sint (v + d) < 0" using s d assms(1) by simp
    then show ?thesis using 1 by (simp add: clamped_def gained_def)
  next
    case 2
    then show ?thesis using s by (simp add: clamped_def gained_def clamp_def)
  next
    case 3
    then have "\<not> sint (v + d) < 0" using s by simp
    moreover from this have "uint (v + d) = uint v + sint d" using s 3 sint16 [of "v + d"] uint_lt2p [of "v + d"]
      by (simp split: if_splits)
    ultimately show ?thesis using 3 by (auto simp: clamped_def gained_def clamp_def word_less_def)
  qed
qed

text \<open>
  C39. Changing the hit points and the magic points of a player. A dead player is left alone; a living one has
  both sums afterwards, cut off at 0 and at the player's maximum, and nobody else and nothing else changes.
  The hit points never exceed the maximum. Healing that carries the sum above 32767 kills: the sum is then
  taken for a negative number.
\<close>

theorem increase_hp_mp:
  assumes "unat r < 6" "\<And>row. row \<in> {rgwHP, rgwMP, rgwMaxHP, rgwMaxMP} \<Longrightarrow> uint (PlayerRoles g row (unat r)) \<le> 32767"
  shows "wp (PAL_IncreaseHPMP r sHP sMP) (\<lambda>alive h. let p = \<lambda>row. PlayerRoles g row (unat r) in
    (alive \<longleftrightarrow> p rgwHP \<noteq> 0) \<and> (if alive
      then uint (PlayerRoles h rgwHP (unat r)) = gained (p rgwMaxHP) (p rgwHP) sHP
        \<and> uint (PlayerRoles h rgwMP (unat r)) = gained (p rgwMaxMP) (p rgwMP) sMP
        \<and> PlayerRoles h rgwHP (unat r) \<le> p rgwMaxHP
        \<and> h = set_role rgwMP r (PlayerRoles h rgwMP (unat r)) (set_role rgwHP r (PlayerRoles h rgwHP (unat r)) g)
      else h = g)) g"
proof -
  let ?p = "\<lambda>row. PlayerRoles g row (unat r)"
  have hp: "uint (clamped (?p rgwMaxHP) (?p rgwHP + sHP)) = gained (?p rgwMaxHP) (?p rgwHP) sHP"
    and mp: "uint (clamped (?p rgwMaxMP) (?p rgwMP + sMP)) = gained (?p rgwMaxMP) (?p rgwMP) sMP"
    by (intro clamped_gained assms(2); simp)+
  moreover have "clamped (?p rgwMaxHP) (?p rgwHP + sHP) \<le> ?p rgwMaxHP" by (auto simp: clamped_def)
  ultimately show ?thesis
    by (auto simp: wp_def PAL_IncreaseHPMP_run [OF assms(1)] Let_def word_greater_zero_iff)
qed

text \<open>The player with 100 of 150 hit points: a potion of 80, and one of 32700.\<close>

definition wounded :: pal where
  "wounded = set_role rgwMaxHP 2 150 (set_role rgwHP 2 100 some_pal)"

theorem increase_hp_mp_witness:
  "wp (PAL_IncreaseHPMP 2 80 0) (\<lambda>_ h. PlayerRoles h rgwHP 2 = 150) wounded
   \<and> wp (PAL_IncreaseHPMP 2 32700 0) (\<lambda>_ h. PlayerRoles h rgwHP 2 = 0) wounded"
proof -
  have small: "uint (PlayerRoles wounded row (unat (2 :: u16))) \<le> 32767" if "row \<in> {rgwHP, rgwMP, rgwMaxHP, rgwMaxMP}" for row
    using that by (auto simp: wounded_def some_pal_def)
  have two: "unat (2 :: u16) = 2" by simp
  have "wp (PAL_IncreaseHPMP 2 80 0) (\<lambda>_ h. PlayerRoles h rgwHP 2 = 150) wounded"
    by (rule wp_mono [OF increase_hp_mp [where r = 2 and g = wounded, OF _ small]])
      (auto simp: Let_def wounded_def some_pal_def gained_def clamp_def word_uint_eq_iff)
  moreover have "wp (PAL_IncreaseHPMP 2 32700 0) (\<lambda>_ h. PlayerRoles h rgwHP 2 = 0) wounded"
    by (rule wp_mono [OF increase_hp_mp [where r = 2 and g = wounded, OF _ small]])
      (auto simp: Let_def wounded_def some_pal_def gained_def clamp_def word_uint_eq_iff)
  ultimately show ?thesis ..
qed

section \<open>Poisons\<close>

lemma party_index_run:
  assumes "p \<le> unat (wMaxPartyMemberIndex g)" "p < MAX_PLAYABLE_PLAYER_ROLES" "rgParty g p = r" "\<And>i. i < p \<Longrightarrow> rgParty g i \<noteq> r"
  shows "party_index r g = Ret (Some p) g"
proof -
  have "find_way (min (unat (wMaxPartyMemberIndex g) + 1) MAX_PLAYABLE_PLAYER_ROLES) (\<lambda>i. rgParty g i = r) = Some p"
    using assms by (simp add: find_way_Some)
  then show ?thesis by (simp add: party_index_def)
qed

text \<open>
  A player can have the same poison twice: curing one of two poisons leaves an empty slot in front of the
  other, and the search for a place ends at the first empty slot, so the poison behind it is not found.
  Whenever slot \<open>j\<close> is the first one that is empty or has the poison, it gets the poison, and a copy behind it
  stays.
\<close>

lemma poison_added_again:
  assumes "p \<le> unat (wMaxPartyMemberIndex g)" "p < 5" "rgParty g p = r" "\<And>i. i < p \<Longrightarrow> rgParty g i \<noteq> r"
    and "unat w < 600" "j < k" "k < 16" "wPoisonID (rgPoisonStatus g j p) = 0" "wPoisonID (rgPoisonStatus g k p) = w"
    and "\<And>i. i < j \<Longrightarrow> wPoisonID (rgPoisonStatus g i p) \<noteq> 0 \<and> wPoisonID (rgPoisonStatus g i p) \<noteq> w"
  shows "wp (PAL_AddPoisonForPlayer r w) (\<lambda>_ h. wPoisonID (rgPoisonStatus h j p) = w \<and> wPoisonID (rgPoisonStatus h k p) = w) g"
proof -
  have "find_way MAX_POISONS (\<lambda>i. wPoisonID (rgPoisonStatus g i p) = 0 \<or> wPoisonID (rgPoisonStatus g i p) = w) = Some j"
    using assms by (simp add: find_way_Some)
  then show ?thesis
    using assms party_index_run [OF assms(1-4)]
    by (auto simp: wp_def PAL_AddPoisonForPlayer_def Let_def run_whenM object_get_def object_word_def set_poison_def)
qed

text \<open>Poisons 11 and 12 are added, 11 is cured, 12 is added.\<close>


section \<open>Random numbers\<close>

lemma lrand_range:
  assumes "glSeed g \<noteq> 0"
  shows "\<exists>n h. lrand g = Ret n h \<and> 0 \<le> n \<and> n \<le> INT_MAX \<and> h = g\<lparr>glSeed := glSeed h\<rparr>"
proof -
  let ?s = "1664525 * glSeed g + 1013904223 :: u32"
  have "- (2 ^ 31) \<le> sint ?s" "sint ?s < 2 ^ 31" using sint_range_size [of ?s] by (simp_all add: word_size)
  then have "0 \<le> sint ?s div 2 + 1073741824" "sint ?s div 2 + 1073741824 \<le> INT_MAX" by auto
  with assms show ?thesis by (simp add: lrand_def run_whenM)
qed

lemma quotient_range:
  fixes k n :: int
  assumes "2 \<le> k" "k \<le> 46340" "0 \<le> n" "n \<le> INT_MAX"
  shows "0 \<le> n div (INT_MAX div k)" "n div (INT_MAX div k) \<le> k"
    and "INT_MAX div (INT_MAX div k) = k"
proof -
  let ?q = "INT_MAX div k"
  have "k * (k + 1) \<le> 46340 * (46340 + 1)" using assms(1,2) by (intro mult_mono) auto
  then have "k * (k + 1) div k \<le> ?q" using assms(1) by (intro zdiv_mono1) auto
  then have q: "k < ?q" using assms(1) by simp
  have eq: "INT_MAX = ?q * k + INT_MAX mod k" by (simp add: mult.commute)
  have r: "0 \<le> INT_MAX mod k" "INT_MAX mod k < k" using assms(1) by auto
  show k: "INT_MAX div ?q = k"
    by (rule int_div_pos_eq [where r = "INT_MAX mod k"]) (use eq q r in \<open>auto simp: mult.commute\<close>)
  show "0 \<le> n div ?q" using assms q by (simp add: pos_imp_zdiv_nonneg_iff)
  have "n div ?q \<le> INT_MAX div ?q" using assms q by (intro zdiv_mono1) auto
  then show "n div ?q \<le> k" by (simp add: k)
qed

text \<open>
  C40. Random numbers between \<open>a\<close> and \<open>b\<close>: with a seed that is not 0 (otherwise the unfinished clock is
  read) the number is at least \<open>a\<close> and at most \<open>b + 1\<close>, for ranges of up to 46340 numbers. For every such
  range there is a seed with which it is \<open>b + 1\<close>, so the promise of the comment, a number up to \<open>b\<close>, does
  not hold.
\<close>

theorem random_number_range:
  assumes "a < b" "b - a < 46340" "glSeed g \<noteq> 0"
  shows "wp (RandomLong a b) (\<lambda>n h. a \<le> n \<and> n \<le> b + 1 \<and> h = g\<lparr>glSeed := glSeed h\<rparr>) g
    \<and> (\<exists>s::u32. s \<noteq> 0 \<and> wp (RandomLong a b) (\<lambda>n h. n = b + 1) (g\<lparr>glSeed := s\<rparr>))"
proof
  let ?k = "b - a + 1"
  have k: "2 \<le> ?k" "?k \<le> 46340" using assms by auto
  have run: "RandomLong a b = bindM lrand (\<lambda>n. ret (a + n div (INT_MAX div ?k)))"
    using assms by (simp add: RandomLong_def)
  show "wp (RandomLong a b) (\<lambda>n h. a \<le> n \<and> n \<le> b + 1 \<and> h = g\<lparr>glSeed := glSeed h\<rparr>) g"
  proof -
    obtain n h where n: "lrand g = Ret n h" "0 \<le> n" "n \<le> INT_MAX" "h = g\<lparr>glSeed := glSeed h\<rparr>"
      using lrand_range [OF assms(3)] by blast
    have "a \<le> a + n div (INT_MAX div ?k) \<and> a + n div (INT_MAX div ?k) \<le> b + 1"
      using quotient_range(1,2) [OF k n(2,3)] by linarith
    then show ?thesis using n by (simp add: run wp_def)
  qed
  have "lrand (g\<lparr>glSeed := 2801121056\<rparr>) = Ret INT_MAX (g\<lparr>glSeed := 0x7fffffff\<rparr>)"
    by (simp add: lrand_def run_whenM)
  then have "wp (RandomLong a b) (\<lambda>n h. n = b + 1) (g\<lparr>glSeed := 2801121056\<rparr>)"
    using quotient_range(3) [OF k, of 0] by (simp add: run wp_def)
  then show "\<exists>s::u32. s \<noteq> 0 \<and> wp (RandomLong a b) (\<lambda>n h. n = b + 1) (g\<lparr>glSeed := s\<rparr>)"
    by (intro exI [of _ 2801121056]) simp
qed

theorem random_number_range_witness:
  "wp (RandomLong 0 8) (\<lambda>n h. 0 \<le> n \<and> n \<le> 9) some_pal
   \<and> (\<exists>s::u32. s \<noteq> 0 \<and> wp (RandomLong 0 8) (\<lambda>n h. n = 9) (some_pal\<lparr>glSeed := s\<rparr>))"
proof -
  have "glSeed some_pal \<noteq> 0" by (simp add: some_pal_def)
  then have "wp (RandomLong 0 8) (\<lambda>n h. 0 \<le> n \<and> n \<le> 8 + 1 \<and> h = some_pal\<lparr>glSeed := glSeed h\<rparr>) some_pal
    \<and> (\<exists>s::u32. s \<noteq> 0 \<and> wp (RandomLong 0 8) (\<lambda>n h. n = 8 + 1) (some_pal\<lparr>glSeed := s\<rparr>))"
    by (intro random_number_range) simp_all
  then show ?thesis by (auto elim: wp_mono)
qed

end
