(* ===== verification/Pal_Files.thy ===== *)
theory Pal_Files
  imports Prelude
begin

unbundle bit_operations_syntax

text \<open>
  Archives, bitmaps and compressed data of the role-playing game: game/src/nemu-pal/global/palcommon.c and
  misc/yj1.c (without \<open>PAL_WIN95\<close>). A file or a buffer is the list of its bytes, \<open>None\<close> the null
  pointer; an access outside is \<open>OutOfBounds\<close>. The machine is little-endian, so \<open>SWAP16\<close> and \<open>SWAP32\<close> do
  nothing. Memory for temporary buffers is always there.
\<close>

section \<open>MKF archives\<close>

text \<open>
  \<open>fread(&v, 4, 1, fp)\<close> at a position: bytes behind the end of the file keep their value.
\<close>

definition read_uint :: "u8 list \<Rightarrow> nat \<Rightarrow> u32 \<Rightarrow> u32" where
  "read_uint f pos v = le32 (\<lambda>i. if pos + i < length f then f ! (pos + i) else byte_at i v)"

definition PAL_MKFGetChunkCount :: "u8 list option \<Rightarrow> ('s, u32) M" where
  "PAL_MKFGetChunkCount fp = (case fp of None \<Rightarrow> ret 0
     | Some f \<Rightarrow> if length f < 4 then fail Uninitialised
        else let n = sint (read_uint f 0 0) in
          if n - 4 < - (2 ^ 31) then fail Undefined
          else ret (word_of_int (if n < 4 then - ((4 - n) div 4) else (n - 4) div 4)))"

definition PAL_MKFGetChunkSize :: "u32 \<Rightarrow> u8 list option \<Rightarrow> ('s, int) M" where
  "PAL_MKFGetChunkSize uiChunkNum fp =
     bindM (PAL_MKFGetChunkCount fp) (\<lambda>uiChunkCount.
     if uiChunkNum \<ge> uiChunkCount then ret (-1)
     else case fp of None \<Rightarrow> fail NullDeref
       | Some f \<Rightarrow> ret (sint (read_uint f (unat (4 * uiChunkNum) + 4) 0 - read_uint f (unat (4 * uiChunkNum)) 0)))"

text \<open>The result and the new contents of the buffer.\<close>

definition fread_into :: "u8 list \<Rightarrow> u8 list \<Rightarrow> nat \<Rightarrow> nat \<Rightarrow> u8 list" where
  "fread_into buf f pos n = (let d = take n (drop pos f) in d @ drop (length d) buf)"

definition PAL_MKFReadChunk :: "u8 list option \<Rightarrow> u32 \<Rightarrow> u32 \<Rightarrow> u8 list option \<Rightarrow> ('s, int \<times> u8 list option) M" where
  "PAL_MKFReadChunk lpBuffer uiBufferSize uiChunkNum fp =
     (case (lpBuffer, fp) of
       (Some buf, Some f) \<Rightarrow>
         if uiBufferSize = 0 then ret (-1, lpBuffer)
         else bindM (PAL_MKFGetChunkCount fp) (\<lambda>uiChunkCount.
           if uiChunkNum \<ge> uiChunkCount then ret (-1, lpBuffer)
           else let uiOffset = read_uint f (unat (4 * uiChunkNum)) 0;
                    uiNextOffset = read_uint f (unat (4 * uiChunkNum) + 4) 0;
                    uiChunkLen = uiNextOffset - uiOffset in
             if uiChunkLen > uiBufferSize then ret (-2, lpBuffer)
             else if uiChunkLen \<noteq> 0 then
               (if length buf < length (take (unat uiChunkLen) (drop (unat uiOffset) f)) then fail OutOfBounds
                else ret (sint uiChunkLen, Some (fread_into buf f (unat uiOffset) (unat uiChunkLen))))
             else ret (-1, lpBuffer))
     | _ \<Rightarrow> ret (-1, lpBuffer))"

text \<open>\<open>buf\<close> is not initialised; the second word is only used when the first one was read.\<close>

definition PAL_MKFGetDecompressedSize :: "u32 \<Rightarrow> u8 list option \<Rightarrow> ('s, int) M" where
  "PAL_MKFGetDecompressedSize uiChunkNum fp = (case fp of None \<Rightarrow> ret (-1)
     | Some f \<Rightarrow>
       bindM (PAL_MKFGetChunkCount fp) (\<lambda>uiChunkCount.
       if uiChunkNum \<ge> uiChunkCount then ret (-1)
       else let uiOffset = unat (read_uint f (unat (4 * uiChunkNum)) 0) in
         if length f < uiOffset + 8 then fail Uninitialised
         else if read_uint f uiOffset 0 \<noteq> 0x315f4a59 then ret (-1)
         else ret (sint (read_uint f (uiOffset + 4) 0))))"

section \<open>Surfaces and bitmaps\<close>

record surface =
  surf_w :: int
  surf_h :: int
  pitch :: nat
  pixels :: "u8 list"

type_synonym PAL_POS = u32

definition PAL_X :: "PAL_POS \<Rightarrow> int" where "PAL_X pos = sint (ucast (pos AND 0xffff) :: u16)"
definition PAL_Y :: "PAL_POS \<Rightarrow> int" where "PAL_Y pos = sint (ucast (drop_bit 16 pos AND 0xffff) :: u16)"

definition PAL_XY :: "int \<Rightarrow> int \<Rightarrow> PAL_POS" where
  "PAL_XY x y = (push_bit 16 (ucast (word_of_int y :: u16)) AND 0xffff0000) OR (ucast (word_of_int x :: u16) AND 0xffff)"

definition byte_in :: "u8 list \<Rightarrow> nat \<Rightarrow> ('s, u8) M" where
  "byte_in b p = (if p < length b then ret (b ! p) else fail OutOfBounds)"

definition word_in :: "u8 list \<Rightarrow> nat \<Rightarrow> ('s, nat) M" where
  "word_in b p = bindM (byte_in b p) (\<lambda>lo. bindM (byte_in b (p + 1)) (\<lambda>hi. ret (unat lo + 256 * unat hi)))"

text \<open>\<open>pixels[y * pitch + x] = c\<close> for coordinates that are not negative.\<close>

definition put_pixel :: "int \<Rightarrow> int \<Rightarrow> u8 \<Rightarrow> (surface, unit) M" where
  "put_pixel x y c =
     bindM (getM (\<lambda>s. nat y * pitch s + nat x)) (\<lambda>k. bindM (getM (\<lambda>s. k < length (pixels s))) (\<lambda>ok.
     if ok then modM (\<lambda>s. s\<lparr>pixels := (pixels s)[k := c]\<rparr>) else fail OutOfBounds))"

text \<open>The four bytes of a file header in front of some bitmaps.\<close>

definition rle_start :: "u8 list \<Rightarrow> nat" where
  "rle_start b = (if take 4 b = [2, 0, 0, 0] then 4 else 0)"

text \<open>
  The inner loop over \<open>T\<close> literal pixels from number \<open>i\<close> on; \<open>p\<close> is the index of the first of them and \<open>f\<close>
  what happens to their color. The result is \<open>True\<close> after \<open>goto end\<close>.
\<close>

primrec rle_literal :: "nat \<Rightarrow> (u8 \<Rightarrow> u8) \<Rightarrow> u8 list \<Rightarrow> nat \<Rightarrow> int \<Rightarrow> int \<Rightarrow> nat \<Rightarrow> nat \<Rightarrow> nat \<Rightarrow> nat \<Rightarrow> (surface, bool) M" where
  "rle_literal 0 f b W dx dy p T i j = (if j < T then fail OutOfFuel else ret False)"
| "rle_literal (Suc n) f b W dx dy p T i j =
     (if \<not> j < T then ret False
      else let y = int ((i + j) div W) + dy; x = int ((i + j) mod W) + dx in
        bindM (getM surf_w) (\<lambda>w. bindM (getM surf_h) (\<lambda>h.
        if x < 0 then rle_literal n f b W dx dy p T i (j + nat (- x - 1) + 1)
        else if x \<ge> w then rle_literal n f b W dx dy p T i (j + nat (x - w) + 1)
        else if y < 0 then rle_literal n f b W dx dy p T i (j + nat (- y) * W - 1 + 1)
        else if y \<ge> h then ret True
        else bindM (byte_in b (p + j)) (\<lambda>c.
          seqM (put_pixel x y (f c)) (rle_literal n f b W dx dy p T i (j + 1))))))"

primrec rle_runs :: "nat \<Rightarrow> (u8 \<Rightarrow> u8) \<Rightarrow> u8 list \<Rightarrow> nat \<Rightarrow> nat \<Rightarrow> int \<Rightarrow> int \<Rightarrow> nat \<Rightarrow> nat \<Rightarrow> (surface, unit) M" where
  "rle_runs 0 f b W len dx dy p i = (if i < len then fail OutOfFuel else ret ())"
| "rle_runs (Suc n) f b W len dx dy p i =
     (if \<not> i < len then ret ()
      else bindM (byte_in b p) (\<lambda>T.
        if bit T 7 \<and> unat T \<le> 0x80 + W then rle_runs n f b W len dx dy (p + 1) (i + unat T - 0x80)
        else bindM (rle_literal 256 f b W dx dy (p + 1) (unat T) i 0) (\<lambda>ended.
          if ended then ret () else rle_runs n f b W len dx dy (p + 1 + unat T) (i + unat T))))"

text \<open>What the three blitting functions have in common.\<close>

definition rle_blit :: "(u8 \<Rightarrow> u8) \<Rightarrow> u8 list option \<Rightarrow> PAL_POS \<Rightarrow> (surface option, int) M" where
  "rle_blit f lpBitmapRLE pos =
     bindM (getM (\<lambda>d. d = None)) (\<lambda>null.
     case lpBitmapRLE of None \<Rightarrow> ret (-1)
     | Some b \<Rightarrow> if null then ret (-1)
       else let p = rle_start b in
         bindM (word_in b p) (\<lambda>uiWidth. bindM (word_in b (p + 2)) (\<lambda>uiHeight.
         seqM (zoom the (\<lambda>d _. Some d)
                (rle_runs (length b + 1) f b uiWidth (uiWidth * uiHeight) (PAL_X pos) (PAL_Y pos) (p + 4) 0))
              (ret 0))))"

definition shifted :: "int \<Rightarrow> u8 \<Rightarrow> u8" where
  "shifted iColorShift c =
     (let b = c AND 0x0f; k = uint b + iColorShift in if k > 15 then 15 else if k < 0 then 0 else word_of_int k)"

definition PAL_RLEBlitToSurface :: "u8 list option \<Rightarrow> PAL_POS \<Rightarrow> (surface option, int) M" where
  "PAL_RLEBlitToSurface = rle_blit (\<lambda>c. c)"

definition PAL_RLEBlitWithColorShift :: "u8 list option \<Rightarrow> PAL_POS \<Rightarrow> int \<Rightarrow> (surface option, int) M" where
  "PAL_RLEBlitWithColorShift b pos iColorShift = rle_blit (\<lambda>c. shifted iColorShift c OR (c AND 0xf0)) b pos"

definition PAL_RLEBlitMonoColor :: "u8 list option \<Rightarrow> PAL_POS \<Rightarrow> u8 \<Rightarrow> int \<Rightarrow> (surface option, int) M" where
  "PAL_RLEBlitMonoColor b pos bColor iColorShift = rle_blit (\<lambda>c. shifted iColorShift c OR (bColor AND 0xf0)) b pos"

definition PAL_FBPBlitToSurface :: "u8 list option \<Rightarrow> (surface option, int) M" where
  "PAL_FBPBlitToSurface lpBitmapFBP =
     bindM (getM (\<lambda>d. case d of None \<Rightarrow> True | Some s \<Rightarrow> surf_w s \<noteq> 320 \<or> surf_h s \<noteq> 200)) (\<lambda>bad.
     case lpBitmapFBP of None \<Rightarrow> ret (-1)
     | Some b \<Rightarrow> if bad then ret (-1)
       else seqM (zoom the (\<lambda>d _. Some d)
              (forM [0..<200] (\<lambda>y. forM [0..<320] (\<lambda>x.
                 bindM (byte_in b (320 * y + x)) (put_pixel (int x) (int y))))))
            (ret 0))"

definition PAL_RLEGetWidth :: "u8 list option \<Rightarrow> ('s, nat) M" where
  "PAL_RLEGetWidth lpBitmapRLE = (case lpBitmapRLE of None \<Rightarrow> ret 0 | Some b \<Rightarrow> word_in b (rle_start b))"

definition PAL_RLEGetHeight :: "u8 list option \<Rightarrow> ('s, nat) M" where
  "PAL_RLEGetHeight lpBitmapRLE = (case lpBitmapRLE of None \<Rightarrow> ret 0 | Some b \<Rightarrow> word_in b (rle_start b + 2))"

section \<open>Sprites\<close>

definition PAL_SpriteGetNumFrames :: "u8 list option \<Rightarrow> ('s, u16) M" where
  "PAL_SpriteGetNumFrames lpSprite = (case lpSprite of None \<Rightarrow> ret 0
     | Some b \<Rightarrow> bindM (word_in b 0) (\<lambda>n. ret (of_nat n - 1)))"

text \<open>The result is the offset of the frame; the last entry of the table is accepted on purpose.\<close>

definition PAL_SpriteGetFrame :: "u8 list option \<Rightarrow> int \<Rightarrow> ('s, nat option) M" where
  "PAL_SpriteGetFrame lpSprite iFrameNum = (case lpSprite of None \<Rightarrow> ret None
     | Some b \<Rightarrow> bindM (word_in b 0) (\<lambda>imagecount.
         if iFrameNum < 0 \<or> iFrameNum \<ge> int imagecount then ret None
         else bindM (word_in b (2 * nat iFrameNum)) (\<lambda>v. ret (Some (unat (of_nat (2 * v) :: u16))))))"

section \<open>Decompression\<close>

text \<open>
  The destination buffer, the index of the next byte in it, and the position in the bits of the current block.
\<close>

record yj =
  dest :: "u8 list"
  dpos :: nat
  bitptr :: nat

definition word16 :: "u8 list \<Rightarrow> nat \<Rightarrow> (yj, u32) M" where
  "word16 b p = bindM (word_in b p) (\<lambda>v. ret (of_nat v))"

text \<open>
  \<open>get_bits(src + base, &bitptr, count)\<close>. Shifts by more than the width of an \<open>int\<close> are undefined; they
  occur when the code lengths in the data are too large.
\<close>

definition get_bits :: "u8 list \<Rightarrow> nat \<Rightarrow> nat \<Rightarrow> (yj, u32) M" where
  "get_bits src base count =
     bindM (getM bitptr) (\<lambda>bp.
     let temp = base + 2 * (bp div 16); bptr = bp mod 16 in
     seqM (modM (\<lambda>s. s\<lparr>bitptr := bp + count\<rparr>))
    (if count > 16 - bptr then
       (let count = count + bptr - 16 in
        if count > 16 then fail Undefined
        else bindM (word16 src temp) (\<lambda>w0. bindM (word16 src (temp + 2)) (\<lambda>w1.
          ret (push_bit count (w0 AND drop_bit bptr 0xffff) OR drop_bit (16 - count) w1))))
     else bindM (word16 src temp) (\<lambda>w0. ret (drop_bit (16 - count) (take_bit 16 (push_bit bptr w0))))))"

text \<open>\<open>header\<close> is the index of the block header of 24 bytes in the source.\<close>

definition get_loop :: "u8 list \<Rightarrow> nat \<Rightarrow> nat \<Rightarrow> (yj, nat) M" where
  "get_loop src base header =
     bindM (get_bits src base 1) (\<lambda>b.
     if b \<noteq> 0 then bindM (byte_in src (header + 22)) (\<lambda>v. ret (unat v))
     else bindM (get_bits src base 2) (\<lambda>temp.
       if temp \<noteq> 0 then
         bindM (byte_in src (header + 19 + (unat temp - 1))) (\<lambda>len.
         bindM (get_bits src base (unat len)) (\<lambda>v. ret (unat (take_bit 16 v))))
       else bindM (byte_in src (header + 23)) (\<lambda>v. ret (unat v))))"

definition get_count :: "u8 list \<Rightarrow> nat \<Rightarrow> nat \<Rightarrow> (yj, nat) M" where
  "get_count src base header =
     bindM (get_bits src base 2) (\<lambda>temp.
     if temp \<noteq> 0 then
       bindM (get_bits src base 1) (\<lambda>b.
       if b \<noteq> 0 then
         bindM (byte_in src (header + 16 + (unat temp - 1))) (\<lambda>len.
         bindM (get_bits src base (unat len)) (\<lambda>v. ret (unat (take_bit 16 v))))
       else word_in src (header + 4 + 2 * unat temp))
     else word_in src (header + 4))"

text \<open>A node of the Huffman tree: leaf and value. The children of an inner node follow from its value.\<close>

type_synonym tree = "(bool \<times> u8) list"

primrec read_nodes :: "nat \<Rightarrow> nat \<Rightarrow> u8 list \<Rightarrow> nat \<Rightarrow> nat \<Rightarrow> (yj, tree) M" where
  "read_nodes 0 i src flags base = ret []"
| "read_nodes (Suc n) i src flags base =
     bindM (get_bits src flags 1) (\<lambda>b.
     bindM (byte_in src (base + 15 + i)) (\<lambda>v.
     bindM (read_nodes n (i + 1) src flags base) (\<lambda>ns. ret ((b = 0, v) # ns))))"

definition left_child :: "nat \<Rightarrow> tree \<Rightarrow> nat" where
  "left_child k t = (if k = 0 then 1 else 2 * unat (snd (t ! k)) + 1)"

text \<open>
  Following the bits from node \<open>k\<close> to a leaf. Every step reads a bit, so the bits of the source bound their
  number.
\<close>

primrec descend :: "nat \<Rightarrow> u8 list \<Rightarrow> nat \<Rightarrow> tree \<Rightarrow> nat \<Rightarrow> (yj, u8) M" where
  "descend 0 src base t k = fail OutOfFuel"
| "descend (Suc n) src base t k =
     (if length t \<le> k then fail OutOfBounds
      else if fst (t ! k) then ret (snd (t ! k))
      else bindM (get_bits src base 1) (\<lambda>b. descend n src base t (left_child k t + (if b \<noteq> 0 then 1 else 0))))"

definition emit :: "u8 \<Rightarrow> (yj, unit) M" where
  "emit c =
     bindM (getM (\<lambda>s. dpos s < length (dest s))) (\<lambda>ok.
     if ok then modM (\<lambda>s. s\<lparr>dest := (dest s)[dpos s := c], dpos := dpos s + 1\<rparr>) else fail OutOfBounds)"

primrec literals :: "nat \<Rightarrow> nat \<Rightarrow> u8 list \<Rightarrow> nat \<Rightarrow> tree \<Rightarrow> (yj, unit) M" where
  "literals fuel 0 src base t = ret ()"
| "literals fuel (Suc n) src base t =
     bindM (descend fuel src base t 0) (\<lambda>c. seqM (emit c) (literals fuel n src base t))"

text \<open>\<open>while (count--) { *dest = *(dest - pos); dest++; }\<close>\<close>

primrec copy_back :: "nat \<Rightarrow> nat \<Rightarrow> (yj, unit) M" where
  "copy_back 0 pos = ret ()"
| "copy_back (Suc n) pos =
     bindM (getM (\<lambda>s. pos \<le> dpos s \<and> dpos s < length (dest s))) (\<lambda>ok.
     if ok then bindM (getM (\<lambda>s. dest s ! (dpos s - pos))) (\<lambda>c. seqM (emit c) (copy_back n pos))
     else fail OutOfBounds)"

primrec repeats :: "nat \<Rightarrow> u8 list \<Rightarrow> nat \<Rightarrow> nat \<Rightarrow> (yj, unit) M" where
  "repeats 0 src base header = ret ()"
| "repeats (Suc n) src base header =
     bindM (get_count src base header) (\<lambda>count.
     bindM (get_bits src base 2) (\<lambda>k.
     bindM (byte_in src (header + 12 + unat k)) (\<lambda>len.
     bindM (get_bits src base (unat len)) (\<lambda>pos.
     seqM (copy_back count (unat pos)) (repeats n src base header)))))"

text \<open>The endless loop over a block.\<close>

primrec block_loop :: "nat \<Rightarrow> nat \<Rightarrow> u8 list \<Rightarrow> nat \<Rightarrow> nat \<Rightarrow> tree \<Rightarrow> (yj, unit) M" where
  "block_loop 0 fuel src base header t = fail OutOfFuel"
| "block_loop (Suc n) fuel src base header t =
     bindM (get_loop src base header) (\<lambda>loop.
     if loop = 0 then ret ()
     else seqM (literals fuel loop src base t)
         (bindM (get_loop src base header) (\<lambda>loop.
          if loop = 0 then ret ()
          else seqM (repeats loop src base header) (block_loop n fuel src base header t))))"

primrec copy_stored :: "nat \<Rightarrow> u8 list \<Rightarrow> nat \<Rightarrow> (yj, unit) M" where
  "copy_stored 0 src p = ret ()"
| "copy_stored (Suc n) src p = bindM (byte_in src p) (\<lambda>c. seqM (emit c) (copy_stored n src (p + 1)))"

text \<open>The blocks from index \<open>p\<close> on.\<close>

primrec blocks :: "nat \<Rightarrow> nat \<Rightarrow> u8 list \<Rightarrow> nat \<Rightarrow> tree \<Rightarrow> (yj, unit) M" where
  "blocks fuel 0 src p t = ret ()"
| "blocks fuel (Suc n) src p t =
     bindM (word_in src (p + 2)) (\<lambda>CompressedLength.
     if CompressedLength = 0 then
       bindM (word_in src p) (\<lambda>hul. seqM (copy_stored hul src (p + 4)) (blocks fuel n src (p + 4 + hul) t))
     else
       seqM (modM (\<lambda>s. s\<lparr>bitptr := 0\<rparr>))
      (seqM (block_loop fuel fuel src (p + 24) p t) (blocks fuel n src (p + CompressedLength) t)))"

definition tree_size :: "nat \<Rightarrow> nat" where
  "tree_size tree_len = 16 + tree_len + 2 * (if tree_len mod 16 \<noteq> 0 then tree_len div 16 + 1 else tree_len div 16)"

abbreviation (input) yj_fuel :: "u8 list \<Rightarrow> nat" where "yj_fuel src \<equiv> 8 * length src + 2"

definition dword_in :: "u8 list \<Rightarrow> nat \<Rightarrow> ('s, u32) M" where
  "dword_in b p = (if p + 4 \<le> length b then ret (read_uint b p 0) else fail OutOfBounds)"

definition Decompress :: "u8 list option \<Rightarrow> int \<Rightarrow> (yj, int) M" where
  "Decompress Source DestSize = (case Source of None \<Rightarrow> ret (-1)
     | Some src \<Rightarrow>
       bindM (dword_in src 0) (\<lambda>Signature.
       if Signature \<noteq> 0x315f4a59 then ret (-1)
       else bindM (dword_in src 4) (\<lambda>UncompressedLength.
         if UncompressedLength > word_of_int DestSize then ret (-1)
         else bindM (byte_in src 15) (\<lambda>HuffmanTreeLength.
           let tree_len = 2 * unat HuffmanTreeLength in
           seqM (modM (\<lambda>s. s\<lparr>bitptr := 0\<rparr>))
          (bindM (read_nodes tree_len 1 src (16 + tree_len) 0) (\<lambda>nodes.
           bindM (word_in src 12) (\<lambda>BlockCount.
           seqM (modM (\<lambda>s. s\<lparr>dpos := 0\<rparr>))
          (seqM (blocks (yj_fuel src) BlockCount src (tree_size tree_len) ((False, 0) # nodes))
                (ret (sint UncompressedLength))))))))))"

text \<open>
  \<open>junk\<close> is what the allocated buffer holds before the chunk is read into it.
\<close>

definition PAL_MKFDecompressChunk :: "(nat \<Rightarrow> u8) \<Rightarrow> int \<Rightarrow> u32 \<Rightarrow> u8 list option \<Rightarrow> (yj, int) M" where
  "PAL_MKFDecompressChunk junk uiBufferSize uiChunkNum fp =
     bindM (PAL_MKFGetChunkSize uiChunkNum fp) (\<lambda>len.
     if len \<le> 0 then ret len
     else bindM (PAL_MKFReadChunk (Some (map junk [0..<nat len])) (word_of_int len) uiChunkNum fp) (\<lambda>(_, buf).
       Decompress buf uiBufferSize))"

text \<open>A decompression into a buffer of its own.\<close>

definition on_buffer :: "u8 list \<Rightarrow> (yj, 'a) M \<Rightarrow> ('s, 'a \<times> u8 list) M" where
  "on_buffer b m s = (case m \<lparr>dest = b, dpos = 0, bitptr = 0\<rparr> of Ret x t \<Rightarrow> Ret (x, dest t) s | Jmp _ \<Rightarrow> Jmp s | Err e \<Rightarrow> Err e)"

end
