(* ===== verification/Pal_Files_Props.thy ===== *)
theory Pal_Files_Props
  imports Pal_Files
begin

text \<open>
  Properties of the decoders of the role-playing game: the bounds on their rounds are large enough, what a stored
  block gives, and which pixels a bitmap sets.
\<close>

section \<open>The bounds on the rounds\<close>

text \<open>\<open>ends m Q s\<close>: \<open>m\<close> does not run out of fuel, and \<open>Q\<close> holds if it returns.\<close>

definition ends :: "('s, 'a) M \<Rightarrow> ('a \<Rightarrow> 's \<Rightarrow> bool) \<Rightarrow> 's \<Rightarrow> bool" where
  "ends m Q s = (case m s of Ret x t \<Rightarrow> Q x t | Jmp t \<Rightarrow> True | Err e \<Rightarrow> e \<noteq> OutOfFuel)"

named_theorems ends_simps \<open>running out of fuel, on the combinators\<close>

lemma ends_ret [ends_simps]: "ends (ret x) Q = Q x"
  by (rule ext) (simp add: ends_def)

lemma ends_bindM [ends_simps]: "ends (bindM m f) Q = ends m (\<lambda>x. ends (f x) Q)"
  by (rule ext) (simp add: ends_def bindM_def split: outcome.splits)

lemma ends_seqM [ends_simps]: "ends (seqM m n) Q = ends m (\<lambda>_. ends n Q)"
  by (simp add: seqM_def ends_bindM)

lemma ends_getM [ends_simps]: "ends (getM f) Q = (\<lambda>s. Q (f s) s)"
  by (rule ext) (simp add: ends_def)

lemma ends_modM [ends_simps]: "ends (modM f) Q = (\<lambda>s. Q () (f s))"
  by (rule ext) (simp add: ends_def)

lemma ends_fail [ends_simps]: "ends (fail e) Q = (\<lambda>s. e \<noteq> OutOfFuel)"
  by (rule ext) (simp add: ends_def)

lemma ends_zoom [ends_simps]: "ends (zoom g p m) Q = (\<lambda>s. ends m (\<lambda>x t. Q x (p t s)) (g s))"
  by (rule ext) (simp add: ends_def zoom_def split: outcome.splits)

lemma ends_if [ends_simps]: "ends (if b then m else n) Q = (if b then ends m Q else ends n Q)"
  by simp

lemma ends_let [ends_simps]: "ends (let x = e in m x) Q = (let x = e in ends (m x) Q)"
  by simp

lemma ends_mono: "ends m Q s \<Longrightarrow> (\<And>x t. Q x t \<Longrightarrow> R x t) \<Longrightarrow> ends m R s"
  by (auto simp: ends_def split: outcome.splits)

lemma endsD: "ends m Q s \<Longrightarrow> m s \<noteq> Err OutOfFuel"
  by (auto simp: ends_def)

lemma ends_byte_in [ends_simps]: "ends (byte_in b p) Q = (\<lambda>s. p < length b \<longrightarrow> Q (b ! p) s)"
  by (rule ext) (simp add: byte_in_def ends_simps)

lemma ends_word_in [ends_simps]:
  "ends (word_in b p) Q = (\<lambda>s. p + 1 < length b \<longrightarrow> Q (unat (b ! p) + 256 * unat (b ! (p + 1))) s)"
  by (rule ext) (auto simp: word_in_def ends_simps)

lemma ends_word16 [ends_simps]:
  "ends (word16 b p) Q = (\<lambda>s. p + 1 < length b \<longrightarrow> Q (of_nat (unat (b ! p) + 256 * unat (b ! (p + 1)))) s)"
  by (rule ext) (simp add: word16_def ends_simps)

lemma ends_dword_in [ends_simps]: "ends (dword_in b p) Q = (\<lambda>s. p + 4 \<le> length b \<longrightarrow> Q (read_uint b p 0) s)"
  by (rule ext) (simp add: dword_in_def ends_simps)

subsection \<open>Decompression\<close>

text \<open>A read of bits needs its position inside the source and moves it on.\<close>

lemma ends_get_bits:
  assumes "\<And>v. bitptr s < 8 * length src \<Longrightarrow> Q v (s\<lparr>bitptr := bitptr s + c\<rparr>)"
  shows "ends (get_bits src base c) Q s"
proof -
  have "bitptr s < 8 * length src" if "Suc (base + 2 * (bitptr s div 16)) < length src"
    using that by linarith
  with assms show ?thesis by (simp add: get_bits_def ends_simps Let_def)
qed

lemma ends_get_loop:
  assumes "\<And>v t. bitptr s < bitptr t \<Longrightarrow> bitptr s < 8 * length src \<Longrightarrow> Q v t"
  shows "ends (get_loop src base header) Q s"
  unfolding get_loop_def using assms
  by (auto simp: ends_simps intro!: ends_get_bits)

lemma ends_get_count:
  assumes "\<And>v t. bitptr s \<le> bitptr t \<Longrightarrow> Q v t"
  shows "ends (get_count src base header) Q s"
  unfolding get_count_def using assms
  by (auto simp: ends_simps intro!: ends_get_bits)

lemma ends_read_nodes: "(\<And>v t. Q v t) \<Longrightarrow> ends (read_nodes n i src flags base) Q s"
  by (induction n arbitrary: i s Q) (auto simp: ends_simps intro!: ends_get_bits)

lemma ends_descend:
  assumes "8 * length src < bitptr s + n" "0 < n" "\<And>v t. bitptr s \<le> bitptr t \<Longrightarrow> Q v t"
  shows "ends (descend n src base t k) Q s"
  using assms
proof (induction n arbitrary: k s)
  case (Suc n)
  have "ends (get_bits src base 1) (\<lambda>b. ends (descend n src base t (k' b)) Q) s" for k'
  proof (rule ends_get_bits)
    fix v :: u32
    assume "bitptr s < 8 * length src"
    with Suc.prems show "ends (descend n src base t (k' v)) Q (s\<lparr>bitptr := bitptr s + 1\<rparr>)"
      by (intro Suc.IH) auto
  qed
  with Suc.prems(3) show ?case by (auto simp: ends_simps)
qed simp

lemma ends_emit: "(\<And>t. bitptr t = bitptr s \<Longrightarrow> Q () t) \<Longrightarrow> ends (emit c) Q s"
  by (simp add: emit_def ends_simps)

lemma ends_literals:
  assumes "8 * length src < fuel" "\<And>t. bitptr s \<le> bitptr t \<Longrightarrow> Q () t"
  shows "ends (literals fuel n src base t) Q s"
  using assms(2)
proof (induction n arbitrary: s)
  case (Suc n)
  then show ?case using assms(1) by (auto simp: ends_simps intro!: ends_descend ends_emit)
qed (simp add: ends_simps)

lemma ends_copy_back:
  assumes "\<And>t. bitptr t = bitptr s \<Longrightarrow> Q () t"
  shows "ends (copy_back n pos) Q s"
  using assms
proof (induction n arbitrary: s)
  case (Suc n)
  then show ?case unfolding copy_back.simps ends_simps by (auto intro!: ends_emit)
qed (simp add: ends_simps)

lemma ends_repeats:
  assumes "\<And>t. bitptr s \<le> bitptr t \<Longrightarrow> Q () t"
  shows "ends (repeats n src base header) Q s"
  using assms
proof (induction n arbitrary: s)
  case (Suc n)
  then show ?case by (auto simp: ends_simps intro!: ends_get_count ends_get_bits ends_copy_back)
qed (simp add: ends_simps)

text \<open>Every round of a block reads at least one bit.\<close>

lemma ends_block_loop:
  assumes "8 * length src < fuel" "8 * length src < bitptr s + n" "0 < n" "\<And>t. Q () t"
  shows "ends (block_loop n fuel src base header t) Q s"
  using assms(2,3)
proof (induction n arbitrary: s)
  case (Suc n)
  then show ?case using assms(1,4)
    by (auto simp: ends_simps intro!: ends_get_loop ends_literals ends_repeats)
qed simp

lemma ends_copy_stored: "(\<And>t. Q () t) \<Longrightarrow> ends (copy_stored n src p) Q s"
  by (induction n arbitrary: p s) (auto simp: ends_simps intro!: ends_emit)

lemma ends_blocks:
  assumes "8 * length src < fuel" "\<And>t. Q () t"
  shows "ends (blocks fuel n src p t) Q s"
proof (induction n arbitrary: p s)
  case (Suc n)
  then show ?case using assms(1) by (auto simp: ends_simps intro!: ends_copy_stored ends_block_loop)
qed (simp add: ends_simps assms(2))

lemma ends_Decompress: "ends (Decompress Source DestSize) (\<lambda>_ _. True) s"
  by (cases Source) (auto simp: Decompress_def ends_simps Let_def intro!: ends_read_nodes ends_blocks)

lemma ends_PAL_MKFGetChunkCount: "(\<And>v. Q v s) \<Longrightarrow> ends (PAL_MKFGetChunkCount fp) Q s"
  by (auto simp: PAL_MKFGetChunkCount_def ends_simps Let_def split: option.splits)

lemma ends_PAL_MKFGetChunkSize: "(\<And>v. Q v s) \<Longrightarrow> ends (PAL_MKFGetChunkSize n fp) Q s"
  by (auto simp: PAL_MKFGetChunkSize_def ends_simps intro!: ends_PAL_MKFGetChunkCount split: option.splits)

lemma ends_PAL_MKFReadChunk: "(\<And>v. Q v s) \<Longrightarrow> ends (PAL_MKFReadChunk buf bs n fp) Q s"
  by (auto simp: PAL_MKFReadChunk_def ends_simps Let_def intro!: ends_PAL_MKFGetChunkCount split: option.splits)

lemma ends_PAL_MKFDecompressChunk: "ends (PAL_MKFDecompressChunk junk bs n fp) (\<lambda>_ _. True) s"
  unfolding PAL_MKFDecompressChunk_def
  by (auto simp: ends_simps split_def intro!: ends_PAL_MKFGetChunkSize ends_PAL_MKFReadChunk ends_Decompress)

subsection \<open>Bitmaps\<close>

lemma ends_put_pixel: "(\<And>t. Q () t) \<Longrightarrow> ends (put_pixel x y c) Q s"
  by (simp add: put_pixel_def ends_simps)

text \<open>Every step of the inner loop moves on by at least one pixel.\<close>

lemma ends_rle_literal:
  assumes "T \<le> n + j" "0 < W" "\<And>v t. Q v t"
  shows "ends (rle_literal n f b W dx dy p T i j) Q s"
  using assms(1)
proof (induction n arbitrary: j s)
  case (Suc n j s)
  have up: "T \<le> Suc (n + (j + m * W - Suc 0))" if "0 < m" for m
  proof -
    have "1 * 1 \<le> m * W" using that assms(2) by (intro mult_le_mono) auto
    then show ?thesis using Suc.prems by linarith
  qed
  show ?case using Suc.prems unfolding rle_literal.simps ends_simps Let_def
    by (auto simp: assms(3) intro!: Suc.IH ends_put_pixel up)
qed (simp add: ends_simps assms(3))

lemma ends_rle_runs:
  assumes "length b < p + n" "0 < n" "0 < W \<or> len = 0" "\<And>t. Q () t"
  shows "ends (rle_runs n f b W len dx dy p i) Q s"
  using assms(1,2)
proof (induction n arbitrary: p i s)
  case (Suc n p i s)
  show ?case
  proof (cases "i < len")
    case True
    then have W: "0 < W" using assms(3) by auto
    have T: "unat (b ! p) \<le> 256" using unsigned_less [of "b ! p", where ?'a = nat] by simp
    have next_run: "ends (rle_runs n f b W len dx dy p' i') Q t" if "p < length b" "p < p'" for p' i' t
      using that Suc.prems by (intro Suc.IH) auto
    have "ends (rle_literal 256 f b W dx dy (p + 1) (unat (b ! p)) i 0)
        (\<lambda>ended. ends (if ended then ret () else rle_runs n f b W len dx dy (p + 1 + unat (b ! p)) (i + unat (b ! p))) Q) s"
      if "p < length b"
      using T W that next_run by (intro ends_rle_literal) (auto simp: ends_simps assms(4))
    then have "ends (byte_in b p) (\<lambda>T. ends (if bit T 7 \<and> unat T \<le> 0x80 + W then rle_runs n f b W len dx dy (p + 1) (i + unat T - 0x80)
        else bindM (rle_literal 256 f b W dx dy (p + 1) (unat T) i 0) (\<lambda>ended.
          if ended then ret () else rle_runs n f b W len dx dy (p + 1 + unat T) (i + unat T))) Q) s"
      using next_run by (auto simp: ends_byte_in ends_bindM)
    with True show ?thesis by (simp add: ends_bindM)
  qed (simp add: ends_simps assms(4))
qed simp

lemma ends_rle_blit: "ends (rle_blit f b pos) (\<lambda>_ _. True) s"
  by (cases b) (auto simp: rle_blit_def ends_simps Let_def simp del: rle_runs.simps intro!: ends_rle_runs)

text \<open>
  The bounds on the rounds of the decoders are large enough: none of them stops with \<open>OutOfFuel\<close>, whatever the
  data, because every round reads a bit or a byte of the source or moves on in the run of pixels, and a read behind the end
  of the source stops the model with \<open>OutOfBounds\<close>. The code has no such check: on damaged data it reads on behind the
  buffer. That it ends on what an encoder wrote is part of the round trips in \<open>Pal_YJ1\<close>, \<open>Pal_Bitmaps\<close> and \<open>Pal_Movie_Props\<close>.
\<close>

lemma decoders_end:
  "Decompress Source DestSize s \<noteq> Err OutOfFuel
   \<and> PAL_MKFDecompressChunk junk bs n fp s \<noteq> Err OutOfFuel
   \<and> PAL_RLEBlitToSurface bitmap pos d \<noteq> Err OutOfFuel
   \<and> PAL_RLEBlitWithColorShift bitmap pos iColorShift d \<noteq> Err OutOfFuel
   \<and> PAL_RLEBlitMonoColor bitmap pos bColor iColorShift d \<noteq> Err OutOfFuel"
  unfolding PAL_RLEBlitToSurface_def PAL_RLEBlitWithColorShift_def PAL_RLEBlitMonoColor_def
  by (intro conjI endsD [OF ends_Decompress] endsD [OF ends_PAL_MKFDecompressChunk] endsD [OF ends_rle_blit])

section \<open>Bytes and words in a file\<close>

definition w2 :: "nat \<Rightarrow> u8 list" where
  "w2 v = [of_nat (v mod 256), of_nat (v div 256)]"

text \<open>The bytes \<open>bs\<close> are in the source from index \<open>p\<close> on.\<close>

definition bytes_at :: "u8 list \<Rightarrow> nat \<Rightarrow> u8 list \<Rightarrow> bool" where
  "bytes_at src p bs \<longleftrightarrow> p + length bs \<le> length src \<and> (\<forall>i<length bs. src ! (p + i) = bs ! i)"

lemma bytes_at_append: "bytes_at src p (xs @ ys) \<longleftrightarrow> bytes_at src p xs \<and> bytes_at src (p + length xs) ys"
proof -
  have "(\<forall>i<length xs + length ys. src ! (p + i) = (xs @ ys) ! i)
    \<longleftrightarrow> (\<forall>i<length xs. src ! (p + i) = xs ! i) \<and> (\<forall>i<length ys. src ! (p + length xs + i) = ys ! i)"
  proof safe
    fix i assume h: "\<forall>i<length xs + length ys. src ! (p + i) = (xs @ ys) ! i"
    show "i < length xs \<Longrightarrow> src ! (p + i) = xs ! i" using h by (auto simp: nth_append)
    show "i < length ys \<Longrightarrow> src ! (p + length xs + i) = ys ! i"
      using h [rule_format, of "length xs + i"] by (simp add: add.assoc)
  next
    fix i assume h: "\<forall>i<length xs. src ! (p + i) = xs ! i" "\<forall>i<length ys. src ! (p + length xs + i) = ys ! i"
      and i: "i < length xs + length ys"
    show "src ! (p + i) = (xs @ ys) ! i"
    proof (cases "i < length xs")
      case False
      then show ?thesis using h(2) [rule_format, of "i - length xs"] i by (simp add: nth_append)
    qed (use h(1) in \<open>simp add: nth_append\<close>)
  qed
  then show ?thesis by (auto simp: bytes_at_def)
qed

lemma byte_in_at: "bytes_at src p bs \<Longrightarrow> i < length bs \<Longrightarrow> byte_in src (p + i) s = Ret (bs ! i) s"
  by (simp add: bytes_at_def byte_in_def)

lemma byte_unat: "v < 256 \<Longrightarrow> unat (of_nat v :: u8) = v"
  by (simp add: unat_of_nat)

lemma word_in_w2: "bytes_at src p (w2 v) \<Longrightarrow> v < 65536 \<Longrightarrow> word_in src p s = Ret v s"
  using byte_in_at [of src p "w2 v" 0 s] byte_in_at [of src p "w2 v" 1 s]
  by (simp add: word_in_def w2_def unat_of_nat)

end
