(* ===== verification/Pal_YJ1.thy ===== *)
theory Pal_YJ1
  imports Pal_Files_Props
begin

unbundle bit_operations_syntax

text \<open>
  The decompression of game/src/nemu-pal/misc/yj1.c undoes a compression. The repository has no compressor; the
  one here produces the format the code reads, with stored blocks and blocks of literals and repetitions, for
  any table of Huffman codes. The state of the decoder is written as \<open>st d out bp\<close>: \<open>out\<close> has been produced
  into a buffer that held \<open>d\<close>, and \<open>bp\<close> bits of the block have been read.
\<close>

section \<open>The stream of bits\<close>

text \<open>Bit \<open>k\<close> of the words of 16 bits from index \<open>base\<close> on, the most significant bit of a word first.\<close>

definition stream_bit :: "u8 list \<Rightarrow> nat \<Rightarrow> nat \<Rightarrow> bool" where
  "stream_bit src base k = (let m = 15 - k mod 16 in bit (src ! (base + 2 * (k div 16) + m div 8)) (m mod 8))"

text \<open>The bits \<open>bs\<close> are in the source at position \<open>bp\<close>.\<close>

definition bits_at :: "u8 list \<Rightarrow> nat \<Rightarrow> nat \<Rightarrow> bool list \<Rightarrow> bool" where
  "bits_at src base bp bs \<longleftrightarrow> base + 2 * ((bp + length bs + 15) div 16) \<le> length src
     \<and> (\<forall>i<length bs. stream_bit src base (bp + i) = bs ! i)"

lemma bits_at_length: "bits_at src base bp bs \<Longrightarrow> bp + length bs \<le> 8 * length src"
  unfolding bits_at_def by linarith

lemma bits_at_append: "bits_at src base bp (xs @ ys) \<Longrightarrow> bits_at src base bp xs \<and> bits_at src base (bp + length xs) ys"
proof -
  assume h: "bits_at src base bp (xs @ ys)"
  have "(bp + length xs + 15) div 16 \<le> (bp + length (xs @ ys) + 15) div 16" by (intro div_le_mono) simp
  moreover have "stream_bit src base (bp + i) = xs ! i" if "i < length xs" for i
    using h that unfolding bits_at_def by (metis length_append nth_append trans_less_add1)
  moreover have "stream_bit src base (bp + length xs + i) = ys ! i" if "i < length ys" for i
    using h that unfolding bits_at_def
    by (metis add.assoc length_append nat_add_left_cancel_less nth_append_length_plus)
  ultimately show ?thesis using h by (auto simp: bits_at_def add.assoc)
qed

lemma bits_at_append3: "bits_at src base bp (xs @ ys @ zs) \<Longrightarrow> bits_at src base bp xs
    \<and> bits_at src base (bp + length xs) ys \<and> bits_at src base (bp + length xs + length ys) zs"
  using bits_at_append [of src base bp xs "ys @ zs"] bits_at_append [of src base "bp + length xs" ys zs] by blast

text \<open>A number in \<open>c\<close> bits, the most significant first.\<close>

definition nbits :: "nat \<Rightarrow> nat \<Rightarrow> bool list" where
  "nbits c v = map (\<lambda>i. bit v (c - 1 - i)) [0..<c]"

lemma length_nbits [simp]: "length (nbits c v) = c"
  by (simp add: nbits_def)

lemma word16_run: "p + 1 < length b \<Longrightarrow> word16 b p s = Ret (of_nat (unat (b ! p) + 256 * unat (b ! (p + 1)))) s"
  by (simp add: word16_def word_in_def byte_in_def)

lemma bit_word_of_bytes:
  fixes lo hi :: u8
  shows "bit (of_nat (unat lo + 256 * unat hi) :: u32) m = (if m < 8 then bit lo m else bit hi (m - 8))"
proof -
  have "unat lo + 256 * unat hi = push_bit 8 (unat hi) + unat lo" by (simp add: push_bit_eq_mult)
  also have "\<dots> = push_bit 8 (unat hi) OR unat lo"
    by (rule disjunctive_add) (auto simp: bit_simps dest: bit_imp_le_length)
  finally show ?thesis
    by (auto simp: bit_simps dest: bit_imp_le_length)
qed

lemma bit_stream_word:
  defines "w \<equiv> \<lambda>src base j. of_nat (unat (src ! (base + 2 * j)) + 256 * unat (src ! (base + 2 * j + 1))) :: u32"
  shows "bit (w src base j) m \<longleftrightarrow> m < 16 \<and> stream_bit src base (16 * j + (15 - m))"
proof (cases "m < 16")
  case True
  have "(16 * j + (15 - m)) div 16 = j" using True by simp
  moreover have "(16 * j + (15 - m)) mod 16 = 15 - m" unfolding mod_mult_self4 by simp
  ultimately
  have "stream_bit src base (16 * j + (15 - m)) = bit (src ! (base + 2 * j + m div 8)) (m mod 8)"
    using True by (simp add: stream_bit_def Let_def)
  moreover have "m div 8 = (if m < 8 then 0 else 1)" "m mod 8 = (if m < 8 then m else m - 8)"
    using True by (auto simp: mod_if div_if)
  ultimately show ?thesis using True unfolding w_def bit_word_of_bytes by simp
next
  case False
  then have "\<not> bit (src ! (base + 2 * j + 1)) (m - 8)" by (auto dest!: bit_imp_le_length)
  with False show ?thesis unfolding w_def bit_word_of_bytes by simp
qed

lemma bit_small: "v < 2 ^ c \<Longrightarrow> c \<le> n \<Longrightarrow> \<not> bit (v :: nat) n"
  by (metis bit_take_bit_iff linorder_not_le take_bit_nat_eq_self)

lemma get_bits_run:
  assumes at: "bits_at src base (bitptr s) (nbits c v)" and v: "v < 2 ^ c" "0 < c" "c \<le> 16"
  shows "get_bits src base c s = Ret (of_nat v) (s\<lparr>bitptr := bitptr s + c\<rparr>)"
proof -
  define j b where "j = bitptr s div 16" and "b = bitptr s mod 16"
  define w where "w i = (of_nat (unat (src ! (base + 2 * i)) + 256 * unat (src ! (base + 2 * i + 1))) :: u32)" for i
  have bp: "bitptr s = 16 * j + b" and b: "b < 16" by (simp_all add: j_def b_def)
  have want: "bit v n \<longleftrightarrow> n < c \<and> stream_bit src base (16 * j + b + (c - 1 - n))" for n
  proof (cases "n < c")
    case True
    then have "c - 1 - n < length (nbits c v)" by simp
    with at have "stream_bit src base (bitptr s + (c - 1 - n)) = nbits c v ! (c - 1 - n)"
      unfolding bits_at_def by blast
    also have "\<dots> = bit v n" using True by (simp add: nbits_def)
    finally show ?thesis using True by (simp add: bp)
  qed (use v bit_small in auto)
  have read: "word16 src (base + 2 * i) s' = Ret (w i) s'" if "16 * i < bitptr s + c" for i s'
  proof -
    have "i < (bitptr s + c + 15) div 16" using that by linarith
    then have "base + 2 * i + 1 < length src" using at by (simp add: bits_at_def)
    then show ?thesis by (simp add: word16_run w_def)
  qed
  have w: "bit (w i) m \<longleftrightarrow> m < 16 \<and> stream_bit src base (16 * i + (15 - m))" for i m
    unfolding w_def by (rule bit_stream_word)
  have low: "word16 src (base + 2 * (bitptr s div 16)) s' = Ret (w j) s'" for s'
    unfolding j_def [symmetric] using bp v by (intro read) simp
  show ?thesis
  proof (cases "c > 16 - b")
    case True
    have hi: "word16 src (base + 2 * (bitptr s div 16) + 2) s' = Ret (w (j + 1)) s'" for s'
      unfolding j_def [symmetric] using read [of "j + 1"] bp True by simp
    define k where "k = c + b - 16"
    have k: "0 < k" "k < 16" "c = k + (16 - b)" using True b v by (auto simp: k_def)
    have "push_bit k (w j AND drop_bit b 0xffff) OR drop_bit (16 - k) (w (j + 1)) = of_nat v"
    proof (rule bit_word_eqI)
      fix n assume n: "n < LENGTH(32)"
      have mask: "bit (0xffff :: u32) m \<longleftrightarrow> m < 16" for m
        using bit_mask_iff [of 16 m, where ?'a = u32] by (auto simp: mask_eq_exp_minus_1 dest: bit_imp_le_length)
      have left: "bit (push_bit k (w j AND drop_bit b 0xffff)) n \<longleftrightarrow> k \<le> n \<and> b + (n - k) < 16 \<and> stream_bit src base (16 * j + (15 - (n - k)))"
        using n unfolding bit_push_bit_iff bit_and_iff bit_drop_bit_eq comp_def mask w by auto
      have right: "bit (drop_bit (16 - k) (w (j + 1))) n \<longleftrightarrow> n < k \<and> stream_bit src base (16 * (j + 1) + (15 - (n + 16 - k)))"
        using k by (auto simp: bit_drop_bit_eq w add.commute)
      have val: "bit (of_nat v :: u32) n \<longleftrightarrow> bit v n" using n by (simp add: bit_simps)
      consider "n < k" | "k \<le> n" "n < c" | "c \<le> n" using k by linarith
      then show "bit (push_bit k (w j AND drop_bit b 0xffff) OR drop_bit (16 - k) (w (j + 1))) n = bit (of_nat v :: u32) n"
      proof cases
        case 1
        then have eq: "16 * (j + 1) + (15 - (n + 16 - k)) = 16 * j + b + (c - 1 - n)" using k b by simp
        show ?thesis unfolding bit_or_iff left right val want eq using 1 k by auto
      next
        case 2
        then have eq: "16 * j + (15 - (n - k)) = 16 * j + b + (c - 1 - n)" and "b + (n - k) < 16" using k b by simp_all
        then show ?thesis unfolding bit_or_iff left right val want eq using 2 by auto
      next
        case 3
        then have "\<not> b + (n - k) < 16" "\<not> n < k" "\<not> n < c" using k b by simp_all
        then show ?thesis unfolding bit_or_iff left right val want by blast
      qed
    qed
    then show ?thesis
      using True k(2) low hi by (simp add: get_bits_def Let_def b_def [symmetric] k_def [symmetric])
  next
    case False
    have "drop_bit (16 - c) (take_bit 16 (push_bit b (w j))) = of_nat v"
    proof (rule bit_word_eqI)
      fix n assume n: "n < LENGTH(32)"
      have left: "bit (drop_bit (16 - c) (take_bit 16 (push_bit b (w j)))) n \<longleftrightarrow> n < c \<and> stream_bit src base (16 * j + (15 - (n + 16 - c - b)))"
        using n False v b by (auto simp: bit_drop_bit_eq bit_take_bit_iff bit_push_bit_iff w add.commute)
      have val: "bit (of_nat v :: u32) n \<longleftrightarrow> bit v n" using n by (simp add: bit_simps)
      have eq: "16 * j + (15 - (n + 16 - c - b)) = 16 * j + b + (c - 1 - n)" if "n < c" using that False b by simp
      show "bit (drop_bit (16 - c) (take_bit 16 (push_bit b (w j)))) n = bit (of_nat v :: u32) n"
        unfolding left val want by (cases "n < c") (simp_all only: eq simp_thms)
    qed
    then show ?thesis using False low by (simp add: get_bits_def Let_def b_def [symmetric])
  qed
qed

section \<open>The state of the decoder\<close>

definition st :: "u8 list \<Rightarrow> u8 list \<Rightarrow> nat \<Rightarrow> yj" where
  "st d out bp = \<lparr>dest = out @ drop (length out) d, dpos = length out, bitptr = bp\<rparr>"

lemma bitptr_st [simp]: "bitptr (st d out bp) = bp"
  by (simp add: st_def)

lemma st_bitptr [simp]: "st d out bp\<lparr>bitptr := bp'\<rparr> = st d out bp'"
  by (simp add: st_def)

lemma get_bits_st:
  "bits_at src base bp (nbits c v) \<Longrightarrow> v < 2 ^ c \<Longrightarrow> 0 < c \<Longrightarrow> c \<le> 16 \<Longrightarrow>
   get_bits src base c (st d out bp) = Ret (of_nat v) (st d out (bp + c))"
  using get_bits_run [where s = "st d out bp"] by simp

lemma get_bit_st:
  assumes "bits_at src base bp [b]"
  shows "get_bits src base 1 (st d out bp) = Ret (of_bool b) (st d out (bp + 1))"
proof -
  have "nbits 1 (of_bool b) = [b]" by (simp add: nbits_def bit_0)
  then show ?thesis using get_bits_st [of src base bp 1 "of_bool b" d out] assms by simp
qed

lemma emit_st: "length out < length d \<Longrightarrow> emit c (st d out bp) = Ret () (st d (out @ [c]) bp)"
  by (simp add: emit_def st_def Cons_nth_drop_Suc [symmetric])

section \<open>Huffman codes\<close>

text \<open>The leaf that a path of bits leads to.\<close>

primrec walk :: "tree \<Rightarrow> nat \<Rightarrow> bool list \<Rightarrow> u8 option" where
  "walk t k [] = (if k < length t \<and> fst (t ! k) then Some (snd (t ! k)) else None)"
| "walk t k (b # bs) =
     (if k < length t \<and> \<not> fst (t ! k) then walk t (left_child k t + (if b then 1 else 0)) bs else None)"

lemma descend_st:
  assumes "walk t k bs = Some c" "bits_at src base bp bs" "length bs < n"
  shows "descend n src base t k (st d out bp) = Ret c (st d out (bp + length bs))"
  using assms
proof (induction bs arbitrary: k bp n)
  case Nil
  then obtain m where "n = Suc m" by (cases n) auto
  with Nil show ?case by (simp split: if_splits)
next
  case (Cons b bs)
  then obtain m where m: "n = Suc m" by (cases n) auto
  have at: "bits_at src base bp [b]" "bits_at src base (bp + 1) bs"
    using bits_at_append [of src base bp "[b]" bs] Cons.prems(2) by simp_all
  have "descend m src base t (left_child k t + (if b then 1 else 0)) (st d out (bp + 1)) = Ret c (st d out (bp + 1 + length bs))"
    using Cons.prems m at(2) by (intro Cons.IH) (auto split: if_splits)
  then show ?case using Cons.prems m get_bit_st [OF at(1)] by (auto split: if_splits)
qed

definition codes :: "(u8 \<Rightarrow> bool list) \<Rightarrow> u8 list \<Rightarrow> bool list" where
  "codes code ls = concat (map code ls)"

lemma literals_st:
  assumes "\<And>c. c \<in> set ls \<Longrightarrow> walk t 0 (code c) = Some c" "bits_at src base bp (codes code ls)"
    and "8 * length src < fuel" "length out + length ls \<le> length d"
  shows "literals fuel (length ls) src base t (st d out bp) = Ret () (st d (out @ ls) (bp + length (codes code ls)))"
  using assms
proof (induction ls arbitrary: out bp)
  case (Cons c ls)
  have split: "codes code (c # ls) = code c @ codes code ls" by (simp add: codes_def)
  have at: "bits_at src base bp (code c)" "bits_at src base (bp + length (code c)) (codes code ls)"
    using bits_at_append Cons.prems(2) unfolding split by blast+
  have "length (code c) < fuel" using at(1) Cons.prems(3) unfolding bits_at_def by linarith
  then have "descend fuel src base t 0 (st d out bp) = Ret c (st d out (bp + length (code c)))"
    using Cons.prems(1) [of c] at(1) by (intro descend_st) auto
  moreover have "emit c (st d out (bp + length (code c))) = Ret () (st d (out @ [c]) (bp + length (code c)))"
    using Cons.prems(4) by (intro emit_st) simp
  ultimately show ?case
    using Cons.IH [of "bp + length (code c)" "out @ [c]"] Cons.prems at(2) by (simp add: split add.assoc)
qed (simp add: codes_def)

section \<open>Repetitions\<close>

text \<open>Copies \<open>n\<close> times the byte \<open>pos\<close> places back.\<close>

primrec lz_copy :: "nat \<Rightarrow> nat \<Rightarrow> u8 list \<Rightarrow> u8 list" where
  "lz_copy 0 pos out = out"
| "lz_copy (Suc n) pos out = lz_copy n pos (out @ [out ! (length out - pos)])"

lemma length_lz_copy [simp]: "length (lz_copy n pos out) = length out + n"
  by (induction n arbitrary: out) auto

lemma copy_back_st:
  assumes "0 < pos" "pos \<le> length out" "length out + n \<le> length d"
  shows "copy_back n pos (st d out bp) = Ret () (st d (lz_copy n pos out) bp)"
  using assms
proof (induction n arbitrary: out)
  case (Suc n)
  have "length out - pos < length out" using Suc.prems by linarith
  then have "dest (st d out bp) ! (dpos (st d out bp) - pos) = out ! (length out - pos)"
    by (simp add: st_def nth_append)
  moreover have "pos \<le> dpos (st d out bp) \<and> dpos (st d out bp) < length (dest (st d out bp))"
    using Suc.prems by (simp add: st_def)
  ultimately show ?case using Suc.prems emit_st [of out d _ bp] Suc.IH by simp
qed simp

section \<open>The header of a block and its numbers\<close>

record yj_header =
  rep_table :: "nat list"
  off_len :: "nat list"
  rep_len :: "nat list"
  loop_len :: "nat list"
  loop_table :: "nat list"

definition header_bytes :: "yj_header \<Rightarrow> nat \<Rightarrow> nat \<Rightarrow> u8 list" where
  "header_bytes h ul cl = w2 ul @ w2 cl @ concat (map w2 (rep_table h)) @ map of_nat (off_len h) @ map of_nat (rep_len h)
     @ map of_nat (loop_len h) @ map of_nat (loop_table h)"

definition header_ok :: "yj_header \<Rightarrow> bool" where
  "header_ok h \<longleftrightarrow> length (rep_table h) = 4 \<and> length (off_len h) = 4 \<and> length (rep_len h) = 3 \<and> length (loop_len h) = 3
     \<and> length (loop_table h) = 2 \<and> (\<forall>v\<in>set (rep_table h). v < 65536) \<and> (\<forall>v\<in>set (loop_table h). v < 256)
     \<and> (\<forall>c\<in>set (off_len h @ rep_len h @ loop_len h). 0 < c \<and> c \<le> 16)"

lemma length4: "length xs = 4 \<Longrightarrow> \<exists>a b c d. xs = [a, b, c, d]"
  by (simp add: eval_nat_numeral length_Suc_conv) blast

text \<open>Where the parts of a header are.\<close>

lemma header_parts:
  assumes "header_ok h" "bytes_at src p (header_bytes h ul cl)"
  shows "k < 4 \<Longrightarrow> word_in src (p + 4 + 2 * k) s = Ret (rep_table h ! k) s"
    and "k < 4 \<Longrightarrow> byte_in src (p + 12 + k) s = Ret (of_nat (off_len h ! k)) s"
    and "k < 3 \<Longrightarrow> byte_in src (p + 16 + k) s = Ret (of_nat (rep_len h ! k)) s"
    and "k < 3 \<Longrightarrow> byte_in src (p + 19 + k) s = Ret (of_nat (loop_len h ! k)) s"
    and "k < 2 \<Longrightarrow> byte_in src (p + 22 + k) s = Ret (of_nat (loop_table h ! k)) s"
    and "bytes_at src p (w2 ul)" and "bytes_at src (p + 2) (w2 cl)"
proof -
  have len: "length (w2 v) = 2" for v by (simp add: w2_def)
  obtain a b c d where tab: "rep_table h = [a, b, c, d]"
    using assms(1) length4 [of "rep_table h"] by (auto simp: header_ok_def)
  have lens: "length (off_len h) = 4" "length (rep_len h) = 3" "length (loop_len h) = 3" "length (loop_table h) = 2"
    using assms(1) by (simp_all add: header_ok_def)
  have at: "bytes_at src p (w2 ul) \<and> bytes_at src (p + 2) (w2 cl)
    \<and> bytes_at src (p + 4) (w2 a) \<and> bytes_at src (p + 6) (w2 b) \<and> bytes_at src (p + 8) (w2 c) \<and> bytes_at src (p + 10) (w2 d)
    \<and> bytes_at src (p + 12) (map of_nat (off_len h)) \<and> bytes_at src (p + 16) (map of_nat (rep_len h))
    \<and> bytes_at src (p + 19) (map of_nat (loop_len h)) \<and> bytes_at src (p + 22) (map of_nat (loop_table h))"
    using assms(2) unfolding header_bytes_def tab
    by (simp add: bytes_at_append len lens add.assoc del: add_2_eq_Suc add_2_eq_Suc')
  show "bytes_at src p (w2 ul)" "bytes_at src (p + 2) (w2 cl)" using at by simp_all
  show "word_in src (p + 4 + 2 * k) s = Ret (rep_table h ! k) s" if k: "k < 4" for k s
  proof -
    have parts: "bytes_at src (p + 4) (w2 a)" "bytes_at src (p + 6) (w2 b)" "bytes_at src (p + 8) (w2 c)" "bytes_at src (p + 10) (w2 d)"
      using at by (simp_all add: bytes_at_append len)
    have less: "a < 65536" "b < 65536" "c < 65536" "d < 65536" using assms(1) tab by (simp_all add: header_ok_def)
    consider "k = 0" | "k = 1" | "k = 2" | "k = 3" using k by linarith
    then show ?thesis
      using word_in_w2 [OF parts(1) less(1), of s] word_in_w2 [OF parts(2) less(2), of s]
        word_in_w2 [OF parts(3) less(3), of s] word_in_w2 [OF parts(4) less(4), of s]
      by cases (simp_all add: tab add.commute)
  qed
  show "byte_in src (p + 12 + k) s = Ret (of_nat (off_len h ! k)) s" if "k < 4" for k s
    using byte_in_at [of src "p + 12" "map of_nat (off_len h)" k s] at that lens by (simp add: bytes_at_append len)
  show "byte_in src (p + 16 + k) s = Ret (of_nat (rep_len h ! k)) s" if "k < 3" for k s
    using byte_in_at [of src "p + 16" "map of_nat (rep_len h)" k s] at that lens by (simp add: bytes_at_append len)
  show "byte_in src (p + 19 + k) s = Ret (of_nat (loop_len h ! k)) s" if "k < 3" for k s
    using byte_in_at [of src "p + 19" "map of_nat (loop_len h)" k s] at that lens by (simp add: bytes_at_append len)
  show "byte_in src (p + 22 + k) s = Ret (of_nat (loop_table h ! k)) s" if "k < 2" for k s
    using byte_in_at [of src "p + 22" "map of_nat (loop_table h)" k s] at that lens by (simp add: bytes_at_append len)
qed

text \<open>
  The length of a group, the number of bytes of a repetition and its distance, in the first form of the format
  that has room for them.
\<close>

definition loop_bits :: "yj_header \<Rightarrow> nat \<Rightarrow> bool list" where
  "loop_bits h v =
     (if v = loop_table h ! 0 then [True]
      else if v = loop_table h ! 1 then False # nbits 2 0
      else case find_way 3 (\<lambda>k. v < 2 ^ (loop_len h ! k)) of None \<Rightarrow> []
        | Some k \<Rightarrow> False # nbits 2 (k + 1) @ nbits (loop_len h ! k) v)"

definition loop_ok :: "yj_header \<Rightarrow> nat \<Rightarrow> bool" where
  "loop_ok h v \<longleftrightarrow> v \<in> set (loop_table h) \<or> (\<exists>c\<in>set (loop_len h). v < 2 ^ c)"

definition count_bits :: "yj_header \<Rightarrow> nat \<Rightarrow> bool list" where
  "count_bits h v =
     (case find_way 4 (\<lambda>k. v = rep_table h ! k) of
        Some k \<Rightarrow> nbits 2 k @ (if k = 0 then [] else [False])
      | None \<Rightarrow> (case find_way 3 (\<lambda>k. v < 2 ^ (rep_len h ! k)) of None \<Rightarrow> []
        | Some k \<Rightarrow> nbits 2 (k + 1) @ True # nbits (rep_len h ! k) v))"

definition count_ok :: "yj_header \<Rightarrow> nat \<Rightarrow> bool" where
  "count_ok h v \<longleftrightarrow> v \<in> set (rep_table h) \<or> (\<exists>c\<in>set (rep_len h). v < 2 ^ c)"

definition pos_bits :: "yj_header \<Rightarrow> nat \<Rightarrow> bool list" where
  "pos_bits h v =
     (case find_way 4 (\<lambda>k. v < 2 ^ (off_len h ! k)) of None \<Rightarrow> []
      | Some k \<Rightarrow> nbits 2 k @ nbits (off_len h ! k) v)"

definition pos_ok :: "yj_header \<Rightarrow> nat \<Rightarrow> bool" where
  "pos_ok h v \<longleftrightarrow> (\<exists>c\<in>set (off_len h). v < 2 ^ c)"

lemma find_way_nth:
  assumes "\<exists>x\<in>set xs. P x" "length xs = n"
  shows "\<exists>k<n. find_way n (\<lambda>k. P (xs ! k)) = Some k \<and> P (xs ! k)"
proof (cases "find_way n (\<lambda>k. P (xs ! k))")
  case None
  with assms show ?thesis by (auto simp: find_way_None in_set_conv_nth)
qed (use find_way_SomeD in blast)

lemma length_ok:
  assumes "header_ok h" "c \<in> set (off_len h) \<or> c \<in> set (rep_len h) \<or> c \<in> set (loop_len h)"
  shows "0 < c" "c \<le> 16" "unat (of_nat c :: u8) = c"
proof -
  show "0 < c" "c \<le> 16" using assms by (auto simp: header_ok_def)
  then show "unat (of_nat c :: u8) = c" by (simp add: unat_of_nat)
qed

lemma unat_take_16: "v < 65536 \<Longrightarrow> unat (take_bit 16 (of_nat v :: u32)) = v"
  by (simp add: take_bit_eq_mod unat_of_nat unat_mod)

lemma unat_k: "k < 4 \<Longrightarrow> unat (of_nat k :: u32) = k"
  by (simp add: unat_of_nat)

lemma zero_k: "k < 4 \<Longrightarrow> (of_nat k :: u32) = 0 \<longleftrightarrow> k = 0"
  using unat_k [of k] by (auto simp: unat_eq_zero [symmetric] simp del: unat_of_nat)

lemma small_pow: "v < 2 ^ c \<Longrightarrow> c \<le> 16 \<Longrightarrow> v < (65536 :: nat)"
  using power_increasing [of c 16 "2 :: nat"] by simp

lemma get_loop_st:
  assumes "header_ok h" "bytes_at src p (header_bytes h ul cl)" "loop_ok h v" "bits_at src base bp (loop_bits h v)"
  shows "get_loop src base p (st d out bp) = Ret v (st d out (bp + length (loop_bits h v)))"
proof -
  note parts = header_parts(1-5) [OF assms(1,2), where s = x for x :: yj]
  have tab: "length (loop_table h) = 2" "length (loop_len h) = 3" using assms(1) by (simp_all add: header_ok_def)
  have small: "loop_table h ! k < 256" if "k < 2" for k using assms(1) that tab by (simp add: header_ok_def)
  consider "v = loop_table h ! 0" | "v \<noteq> loop_table h ! 0" "v = loop_table h ! 1"
    | "v \<noteq> loop_table h ! 0" "v \<noteq> loop_table h ! 1" by blast
  then show ?thesis
  proof cases
    case 1
    then have "loop_bits h v = [True]" by (simp add: loop_bits_def)
    then show ?thesis using 1 assms(4) get_bit_st [of src base bp True d out] parts(5) [of 0] small [of 0]
      by (simp add: get_loop_def byte_unat)
  next
    case 2
    then have bits: "loop_bits h v = [False] @ nbits 2 0" by (simp add: loop_bits_def)
    have at: "bits_at src base bp [False]" "bits_at src base (bp + 1) (nbits 2 0)"
      using bits_at_append [OF assms(4) [unfolded bits]] by simp_all
    have "byte_in src (p + 23) x = Ret (of_nat v) x" for x :: yj using parts(5) [of 1] 2 by (simp add: add.commute)
    then show ?thesis using 2 bits get_bit_st [OF at(1)] get_bits_st [OF at(2)] small [of 1]
      by (simp add: get_loop_def byte_unat numeral_3_eq_3)
  next
    case 3
    then have "\<exists>c\<in>set (loop_len h). v < 2 ^ c" using assms(3) tab(1)
      by (auto simp: loop_ok_def in_set_conv_nth less_2_cases_iff)
    from find_way_nth [OF this tab(2)] obtain k where k: "k < 3" "find_way 3 (\<lambda>k. v < 2 ^ (loop_len h ! k)) = Some k"
      "v < 2 ^ (loop_len h ! k)" by blast
    have len: "0 < loop_len h ! k" "loop_len h ! k \<le> 16" "unat (of_nat (loop_len h ! k) :: u8) = loop_len h ! k"
      using length_ok [OF assms(1), of "loop_len h ! k"] k(1) tab(2) by auto
    have bits: "loop_bits h v = [False] @ nbits 2 (k + 1) @ nbits (loop_len h ! k) v"
      using 3 k by (simp add: loop_bits_def)
    have at: "bits_at src base bp [False]" "bits_at src base (bp + 1) (nbits 2 (k + 1))"
      "bits_at src base (bp + 1 + 2) (nbits (loop_len h ! k) v)"
      using bits_at_append3 [OF assms(4) [unfolded bits]] by simp_all
    have k1: "(of_nat (k + 1) :: u32) \<noteq> 0" "unat (of_nat (k + 1) :: u32) - 1 = k" using k(1) unat_k [of "k + 1"] zero_k [of "k + 1"] by simp_all
    show ?thesis
      using bits get_bit_st [OF at(1), of d out] get_bits_st [OF at(2), of d out] get_bits_st [OF at(3) k(3) len(1,2), of d out]
        parts(4) [OF k(1)] len k1 k(1) unat_take_16 [OF small_pow [OF k(3) len(2)]]
      by (simp add: get_loop_def)
  qed
qed

lemma get_count_st:
  assumes "header_ok h" "bytes_at src p (header_bytes h ul cl)" "count_ok h v" "bits_at src base bp (count_bits h v)"
  shows "get_count src base p (st d out bp) = Ret v (st d out (bp + length (count_bits h v)))"
proof -
  note parts = header_parts(1-5) [OF assms(1,2), where s = x for x :: yj]
  have tab: "length (rep_table h) = 4" "length (rep_len h) = 3" using assms(1) by (simp_all add: header_ok_def)
  show ?thesis
  proof (cases "find_way 4 (\<lambda>k. v = rep_table h ! k)")
    case (Some k)
    then have k: "k < 4" "v = rep_table h ! k" using find_way_SomeD [OF Some] by auto
    have k2: "k < 2 ^ 2" using k(1) by simp
    show ?thesis
    proof (cases "k = 0")
      case True
      then have bits: "count_bits h v = nbits 2 0" using Some by (simp add: count_bits_def)
      have "word_in src (p + 4) x = Ret v x" for x :: yj using parts(1) [of 0] True k(2) by simp
      then show ?thesis using bits get_bits_st [of src base bp 2 0 d out] assms(4) by (simp add: get_count_def)
    next
      case False
      then have bits: "count_bits h v = nbits 2 k @ [False]" using Some by (simp add: count_bits_def)
      have at: "bits_at src base bp (nbits 2 k)" "bits_at src base (bp + 2) [False]"
        using bits_at_append [OF assms(4) [unfolded bits]] by simp_all
      show ?thesis
        using False bits get_bits_st [OF at(1) k2, of d out] get_bit_st [OF at(2), of d out] parts(1) [OF k(1)]
          unat_k [OF k(1)] zero_k [OF k(1)] k(2)
        by (simp add: get_count_def numeral_3_eq_3)
    qed
  next
    case None
    then have "v \<notin> set (rep_table h)" using tab(1) by (auto simp: find_way_None in_set_conv_nth)
    then have "\<exists>c\<in>set (rep_len h). v < 2 ^ c" using assms(3) by (auto simp: count_ok_def)
    from find_way_nth [OF this tab(2)] obtain k where k: "k < 3" "find_way 3 (\<lambda>k. v < 2 ^ (rep_len h ! k)) = Some k"
      "v < 2 ^ (rep_len h ! k)" by blast
    have len: "0 < rep_len h ! k" "rep_len h ! k \<le> 16" "unat (of_nat (rep_len h ! k) :: u8) = rep_len h ! k"
      using length_ok [OF assms(1), of "rep_len h ! k"] k(1) tab(2) by auto
    have bits: "count_bits h v = nbits 2 (k + 1) @ [True] @ nbits (rep_len h ! k) v"
      using None k by (simp add: count_bits_def)
    have at: "bits_at src base bp (nbits 2 (k + 1))" "bits_at src base (bp + 2) [True]"
      "bits_at src base (bp + 2 + 1) (nbits (rep_len h ! k) v)"
      using bits_at_append3 [OF assms(4) [unfolded bits]] by simp_all
    have k1: "(of_nat (k + 1) :: u32) \<noteq> 0" "unat (of_nat (k + 1) :: u32) - 1 = k"
      using k(1) unat_k [of "k + 1"] zero_k [of "k + 1"] by simp_all
    show ?thesis
      using bits get_bits_st [OF at(1), of d out] get_bit_st [OF at(2), of d out] get_bits_st [OF at(3) k(3) len(1,2), of d out]
        parts(3) [OF k(1)] len k1 k(1) unat_take_16 [OF small_pow [OF k(3) len(2)]]
      by (simp add: get_count_def)
  qed
qed

text \<open>The number and the distance of a repetition.\<close>

definition rep_bits :: "yj_header \<Rightarrow> nat \<times> nat \<Rightarrow> bool list" where
  "rep_bits h = (\<lambda>(n, pos). count_bits h n @ pos_bits h pos)"

lemma repeat_st:
  assumes "header_ok h" "bytes_at src p (header_bytes h ul cl)" "count_ok h n" "pos_ok h pos"
    and "bits_at src base bp (rep_bits h (n, pos))" "0 < pos" "pos \<le> length out" "length out + n \<le> length d"
  shows "repeats (Suc m) src base p (st d out bp) =
    repeats m src base p (st d (lz_copy n pos out) (bp + length (rep_bits h (n, pos))))"
proof -
  note parts = header_parts(1-5) [OF assms(1,2), where s = x for x :: yj]
  have tab: "length (off_len h) = 4" using assms(1) by (simp add: header_ok_def)
  from assms(4) have "\<exists>c\<in>set (off_len h). pos < 2 ^ c" by (simp add: pos_ok_def)
  from find_way_nth [OF this tab] obtain k where k: "k < 4" "find_way 4 (\<lambda>k. pos < 2 ^ (off_len h ! k)) = Some k"
    "pos < 2 ^ (off_len h ! k)" by blast
  have len: "0 < off_len h ! k" "off_len h ! k \<le> 16" "unat (of_nat (off_len h ! k) :: u8) = off_len h ! k"
    using length_ok [OF assms(1), of "off_len h ! k"] k(1) tab by auto
  have pb: "pos_bits h pos = nbits 2 k @ nbits (off_len h ! k) pos" using k by (simp add: pos_bits_def)
  have bits: "rep_bits h (n, pos) = count_bits h n @ nbits 2 k @ nbits (off_len h ! k) pos" by (simp add: rep_bits_def pb)
  let ?c = "length (count_bits h n)"
  have at: "bits_at src base bp (count_bits h n)" "bits_at src base (bp + ?c) (nbits 2 k)"
    "bits_at src base (bp + ?c + 2) (nbits (off_len h ! k) pos)"
    using bits_at_append3 [OF assms(5) [unfolded bits]] by simp_all
  have k2: "k < 2 ^ 2" using k(1) by simp
  have pos: "unat (of_nat pos :: u32) = pos"
    using small_pow [OF k(3) len(2)] by (simp add: unat_of_nat)
  show ?thesis
    using get_count_st [OF assms(1-3) at(1), of d out] get_bits_st [OF at(2) k2, of d out] get_bits_st [OF at(3) k(3) len(1,2), of d out]
      parts(2) [OF k(1)] unat_k [OF k(1)] len copy_back_st [OF assms(6-8)] pos
    by (simp add: bits add.assoc del: unat_of_nat)
qed

definition lz_copies :: "(nat \<times> nat) list \<Rightarrow> u8 list \<Rightarrow> u8 list" where
  "lz_copies rs out = fold (\<lambda>(n, pos). lz_copy n pos) rs out"

fun reps_ok :: "yj_header \<Rightarrow> nat \<Rightarrow> (nat \<times> nat) list \<Rightarrow> bool" where
  "reps_ok h len [] = True"
| "reps_ok h len ((n, pos) # rs) = (count_ok h n \<and> pos_ok h pos \<and> 0 < pos \<and> pos \<le> len \<and> reps_ok h (len + n) rs)"

lemma length_lz_copies: "length (lz_copies rs out) = length out + sum_list (map fst rs)"
  by (induction rs arbitrary: out) (auto simp: lz_copies_def split: prod.splits)

lemma repeats_st:
  assumes "header_ok h" "bytes_at src p (header_bytes h ul cl)" "reps_ok h (length out) rs"
    and "bits_at src base bp (concat (map (rep_bits h) rs))" "length out + sum_list (map fst rs) \<le> length d"
  shows "repeats (length rs) src base p (st d out bp) =
    Ret () (st d (lz_copies rs out) (bp + length (concat (map (rep_bits h) rs))))"
  using assms(3-5)
proof (induction rs arbitrary: out bp)
  case (Cons r rs)
  obtain n pos where r: "r = (n, pos)" by force
  have at: "bits_at src base bp (rep_bits h r)" "bits_at src base (bp + length (rep_bits h r)) (concat (map (rep_bits h) rs))"
    using bits_at_append [of src base bp "rep_bits h r" "concat (map (rep_bits h) rs)"] Cons.prems(2) by simp_all
  have "repeats (Suc (length rs)) src base p (st d out bp) =
    repeats (length rs) src base p (st d (lz_copy n pos out) (bp + length (rep_bits h r)))"
    using Cons.prems at(1) unfolding r by (intro repeat_st [OF assms(1,2)]) auto
  also have "\<dots> = Ret () (st d (lz_copies rs (lz_copy n pos out)) (bp + length (rep_bits h r) + length (concat (map (rep_bits h) rs))))"
    using Cons.prems at(2) r by (intro Cons.IH) auto
  finally show ?case by (simp add: r lz_copies_def add.assoc)
qed (simp add: lz_copies_def)

section \<open>Blocks\<close>

text \<open>A group: literals, then repetitions. \<open>fin\<close> are literals behind the last group.\<close>

type_synonym group = "u8 list \<times> (nat \<times> nat) list"

definition group_bits :: "yj_header \<Rightarrow> (u8 \<Rightarrow> bool list) \<Rightarrow> group \<Rightarrow> bool list" where
  "group_bits h code = (\<lambda>(ls, rs). loop_bits h (length ls) @ codes code ls @ loop_bits h (length rs) @ concat (map (rep_bits h) rs))"

definition stream_bits :: "yj_header \<Rightarrow> (u8 \<Rightarrow> bool list) \<Rightarrow> group list \<Rightarrow> u8 list \<Rightarrow> bool list" where
  "stream_bits h code gs fin = concat (map (group_bits h code) gs)
     @ (if fin = [] then loop_bits h 0 else loop_bits h (length fin) @ codes code fin @ loop_bits h 0)"

definition group_out :: "group \<Rightarrow> u8 list \<Rightarrow> u8 list" where
  "group_out = (\<lambda>(ls, rs) out. lz_copies rs (out @ ls))"

definition literals_ok :: "yj_header \<Rightarrow> tree \<Rightarrow> (u8 \<Rightarrow> bool list) \<Rightarrow> u8 list \<Rightarrow> bool" where
  "literals_ok h t code ls \<longleftrightarrow> loop_ok h (length ls) \<and> (\<forall>c\<in>set ls. walk t 0 (code c) = Some c)"

fun groups_ok :: "yj_header \<Rightarrow> tree \<Rightarrow> (u8 \<Rightarrow> bool list) \<Rightarrow> nat \<Rightarrow> group list \<Rightarrow> bool" where
  "groups_ok h t code len [] = True"
| "groups_ok h t code len ((ls, rs) # gs) =
     (ls \<noteq> [] \<and> rs \<noteq> [] \<and> literals_ok h t code ls \<and> loop_ok h (length rs) \<and> reps_ok h (len + length ls) rs
      \<and> groups_ok h t code (len + length ls + sum_list (map fst rs)) gs)"

lemma loop_ok_0: "header_ok h \<Longrightarrow> loop_ok h 0"
  by (cases "loop_len h") (auto simp: loop_ok_def header_ok_def)

lemma length_group_out: "length (group_out (ls, rs) out) = length out + length ls + sum_list (map fst rs)"
  by (simp add: group_out_def length_lz_copies)

lemma length_groups_out: "length out \<le> length (fold group_out gs out)"
proof (induction gs arbitrary: out)
  case (Cons g gs)
  obtain ls rs where "g = (ls, rs)" by force
  then have "length out \<le> length (group_out g out)" by (simp add: length_group_out)
  with Cons.IH [of "group_out g out"] show ?case by simp
qed simp

lemma bits_at_append4: "bits_at src base bp (ws @ xs @ ys @ zs) \<Longrightarrow> bits_at src base bp ws
    \<and> bits_at src base (bp + length ws) xs \<and> bits_at src base (bp + length ws + length xs) ys
    \<and> bits_at src base (bp + length ws + length xs + length ys) zs"
  using bits_at_append [of src base bp ws "xs @ ys @ zs"] bits_at_append3 [of src base "bp + length ws" xs ys zs] by blast

text \<open>One round of the endless loop for a group.\<close>

lemma group_st:
  assumes "header_ok h" "bytes_at src p (header_bytes h ul cl)" "8 * length src < fuel"
    and "ls \<noteq> []" "rs \<noteq> []" "literals_ok h t code ls" "loop_ok h (length rs)" "reps_ok h (length out + length ls) rs"
    and "bits_at src base bp (group_bits h code (ls, rs))" "length (group_out (ls, rs) out) \<le> length d"
  shows "block_loop (Suc n) fuel src base p t (st d out bp) =
    block_loop n fuel src base p t (st d (group_out (ls, rs) out) (bp + length (group_bits h code (ls, rs))))"
proof -
  have bits: "group_bits h code (ls, rs) = loop_bits h (length ls) @ codes code ls @ loop_bits h (length rs) @ concat (map (rep_bits h) rs)"
    by (simp add: group_bits_def)
  note at = bits_at_append4 [OF assms(9) [unfolded bits]]
  let ?b1 = "bp + length (loop_bits h (length ls))"
  let ?b2 = "?b1 + length (codes code ls)"
  let ?b3 = "?b2 + length (loop_bits h (length rs))"
  have len: "length out + length ls + sum_list (map fst rs) \<le> length d" using assms(10) by (simp add: length_group_out)
  have 1: "get_loop src base p (st d out bp) = Ret (length ls) (st d out ?b1)"
    using assms(6) at by (intro get_loop_st [OF assms(1,2)]) (auto simp: literals_ok_def)
  have 2: "literals fuel (length ls) src base t (st d out ?b1) = Ret () (st d (out @ ls) ?b2)"
    using assms(3,6) at len by (intro literals_st) (auto simp: literals_ok_def)
  have 3: "get_loop src base p (st d (out @ ls) ?b2) = Ret (length rs) (st d (out @ ls) ?b3)"
    using assms(7) at by (intro get_loop_st [OF assms(1,2)]) auto
  have 4: "repeats (length rs) src base p (st d (out @ ls) ?b3) =
      Ret () (st d (lz_copies rs (out @ ls)) (?b3 + length (concat (map (rep_bits h) rs))))"
    using assms(8) at len by (intro repeats_st [OF assms(1,2)]) auto
  show ?thesis
    using assms(4,5) 1 2 3 4 by (simp add: bits group_out_def add.assoc)
qed

lemma block_loop_st:
  assumes "header_ok h" "bytes_at src p (header_bytes h ul cl)" "8 * length src < fuel"
    and "groups_ok h t code (length out) gs" "fin \<noteq> [] \<Longrightarrow> literals_ok h t code fin" "length gs < n"
    and "bits_at src base bp (stream_bits h code gs fin)" "length (fold group_out gs out @ fin) \<le> length d"
  shows "block_loop n fuel src base p t (st d out bp) =
    Ret () (st d (fold group_out gs out @ fin) (bp + length (stream_bits h code gs fin)))"
  using assms(4-)
proof (induction gs arbitrary: out bp n)
  case Nil
  then obtain m where m: "n = Suc m" by (cases n) auto
  show ?case
  proof (cases "fin = []")
    case True
    then have bits: "stream_bits h code [] fin = loop_bits h 0" by (simp add: stream_bits_def)
    show ?thesis using m True bits get_loop_st [OF assms(1,2) loop_ok_0 [OF assms(1)], of base bp d out] Nil.prems(4) by simp
  next
    case False
    then have bits: "stream_bits h code [] fin = loop_bits h (length fin) @ codes code fin @ loop_bits h 0"
      by (simp add: stream_bits_def)
    note at = bits_at_append3 [OF Nil.prems(4) [unfolded bits]]
    let ?b1 = "bp + length (loop_bits h (length fin))"
    let ?b2 = "?b1 + length (codes code fin)"
    have 1: "get_loop src base p (st d out bp) = Ret (length fin) (st d out ?b1)"
      using Nil.prems(2) False at by (intro get_loop_st [OF assms(1,2)]) (auto simp: literals_ok_def)
    have 2: "literals fuel (length fin) src base t (st d out ?b1) = Ret () (st d (out @ fin) ?b2)"
      using assms(3) Nil.prems(2,5) False at by (intro literals_st) (auto simp: literals_ok_def)
    have 3: "get_loop src base p (st d (out @ fin) ?b2) = Ret 0 (st d (out @ fin) (?b2 + length (loop_bits h 0)))"
      using at by (intro get_loop_st [OF assms(1,2)] loop_ok_0 assms(1)) auto
    show ?thesis using m False 1 2 3 bits by (simp add: add.assoc)
  qed
next
  case (Cons g gs)
  obtain ls rs where g: "g = (ls, rs)" by force
  obtain m where m: "n = Suc m" using Cons.prems(3) by (cases n) auto
  have bits: "stream_bits h code (g # gs) fin = group_bits h code g @ stream_bits h code gs fin" by (simp add: stream_bits_def)
  note at = bits_at_append [OF Cons.prems(4) [unfolded bits]]
  have len: "length (group_out g out) \<le> length d"
    using Cons.prems(5) length_groups_out [of "group_out g out" gs] by simp
  have "block_loop n fuel src base p t (st d out bp) =
      block_loop m fuel src base p t (st d (group_out g out) (bp + length (group_bits h code g)))"
    unfolding m g using Cons.prems at len g by (intro group_st [OF assms(1-3)]) auto
  also have "\<dots> = Ret () (st d (fold group_out gs (group_out g out) @ fin) (bp + length (group_bits h code g) + length (stream_bits h code gs fin)))"
  proof (rule Cons.IH)
    show "groups_ok h t code (length (group_out g out)) gs"
      using Cons.prems(1) unfolding g length_group_out by simp
  qed (use Cons.prems m at in auto)
  finally show ?case by (simp add: bits add.assoc)
qed

section \<open>Writing the bits\<close>

definition pack_byte :: "bool list \<Rightarrow> nat \<Rightarrow> u8" where
  "pack_byte bs q = horner_sum of_bool 2 (map (\<lambda>i. let k = 16 * (q div 2) + (15 - (8 * (q mod 2) + i)) in k < length bs \<and> bs ! k) [0..<8])"

definition pack :: "bool list \<Rightarrow> u8 list" where
  "pack bs = map (pack_byte bs) [0..<2 * ((length bs + 15) div 16)]"

lemma length_pack [simp]: "length (pack bs) = 2 * ((length bs + 15) div 16)"
  by (simp add: pack_def)

lemma bit_pack_byte: "i < 8 \<Longrightarrow> bit (pack_byte bs q) i \<longleftrightarrow> 16 * (q div 2) + (15 - (8 * (q mod 2) + i)) < length bs \<and> bs ! (16 * (q div 2) + (15 - (8 * (q mod 2) + i)))"
  by (simp add: pack_byte_def bit_horner_sum_bit_word_iff Let_def del: upt_rec_numeral)

lemma bits_at_pack:
  assumes "bytes_at src base (pack bs)"
  shows "bits_at src base 0 bs"
proof -
  have "stream_bit src base k = bs ! k" if k: "k < length bs" for k
  proof -
    define m where "m = 15 - k mod 16"
    have m: "m < 16" "k mod 16 = 15 - m" by (simp_all add: m_def)
    define q where "q = 2 * (k div 16) + m div 8"
    have parts: "q div 2 = k div 16" "q mod 2 = m div 8" using m(1) by (auto simp: q_def)
    have "q < length (pack bs)"
    proof -
      have "k div 16 < (length bs + 15) div 16" using k by linarith
      moreover have "m div 8 < 2" using m(1) by auto
      ultimately show ?thesis unfolding q_def length_pack by linarith
    qed
    then have "src ! (base + q) = pack bs ! q" "pack bs ! q = pack_byte bs q"
      using assms by (simp_all add: bytes_at_def pack_def)
    then have "stream_bit src base k = bit (pack_byte bs q) (m mod 8)"
      by (simp add: stream_bit_def Let_def m_def [symmetric] q_def add.assoc)
    also have "\<dots> = (let j = 16 * (k div 16) + (15 - (8 * (m div 8) + m mod 8)) in j < length bs \<and> bs ! j)"
      by (simp add: bit_pack_byte parts Let_def)
    also have "8 * (m div 8) + m mod 8 = m" by simp
    also have "16 * (k div 16) + (15 - m) = k" using m(2) mult_div_mod_eq [of 16 k] by simp
    finally show ?thesis using k by (simp add: Let_def)
  qed
  then show ?thesis using assms by (simp add: bits_at_def bytes_at_def)
qed

section \<open>Files\<close>

datatype yj_block = Stored "u8 list" | Packed yj_header "group list" "u8 list"

fun block_size :: "yj_block \<Rightarrow> nat" where
  "block_size (Stored bs) = length bs"
| "block_size (Packed h gs fin) = sum_list (map (\<lambda>(ls, rs). length ls + sum_list (map fst rs)) gs) + length fin"

fun block_out :: "yj_block \<Rightarrow> u8 list \<Rightarrow> u8 list" where
  "block_out (Stored bs) out = out @ bs"
| "block_out (Packed h gs fin) out = fold group_out gs out @ fin"

fun block_bytes :: "(u8 \<Rightarrow> bool list) \<Rightarrow> yj_block \<Rightarrow> u8 list" where
  "block_bytes code (Stored bs) = w2 (length bs) @ w2 0 @ bs"
| "block_bytes code (Packed h gs fin) =
     (let s = pack (stream_bits h code gs fin) in header_bytes h (block_size (Packed h gs fin)) (24 + length s) @ s)"

fun block_ok :: "tree \<Rightarrow> (u8 \<Rightarrow> bool list) \<Rightarrow> nat \<Rightarrow> yj_block \<Rightarrow> bool" where
  "block_ok t code len (Stored bs) = (length bs < 65536)"
| "block_ok t code len (Packed h gs fin) =
     (header_ok h \<and> groups_ok h t code len gs \<and> (fin \<noteq> [] \<longrightarrow> literals_ok h t code fin)
      \<and> 24 + length (pack (stream_bits h code gs fin)) < 65536)"

fun blocks_ok :: "tree \<Rightarrow> (u8 \<Rightarrow> bool list) \<Rightarrow> nat \<Rightarrow> yj_block list \<Rightarrow> bool" where
  "blocks_ok t code len [] = True"
| "blocks_ok t code len (b # bs) = (block_ok t code len b \<and> blocks_ok t code (len + block_size b) bs)"

text \<open>The flags of the tree, one bit for every node, set for an inner node.\<close>

definition tree_bits :: "tree \<Rightarrow> bool list" where
  "tree_bits nodes = map (\<lambda>(leaf, v). \<not> leaf) nodes"

definition yj1_file :: "tree \<Rightarrow> (u8 \<Rightarrow> bool list) \<Rightarrow> yj_block list \<Rightarrow> nat \<Rightarrow> u8 list" where
  "yj1_file nodes code bs len =
     [0x59, 0x4a, 0x5f, 0x31] @ map (\<lambda>i. byte_at i (of_nat len)) [0, 1, 2, 3] @ [0, 0, 0, 0] @ w2 (length bs)
     @ [0, of_nat (length nodes div 2)] @ map snd nodes @ pack (tree_bits nodes) @ concat (map (block_bytes code) bs)"

lemma length_header_bytes: "header_ok h \<Longrightarrow> length (header_bytes h ul cl) = 24"
proof -
  assume h: "header_ok h"
  then obtain a b c d where "rep_table h = [a, b, c, d]" using length4 [of "rep_table h"] by (auto simp: header_ok_def)
  with h show ?thesis by (simp add: header_bytes_def header_ok_def w2_def)
qed

lemma length_block_out: "block_ok t code (length out) b \<Longrightarrow> length (block_out b out) = length out + block_size b"
proof (cases b)
  case (Packed h gs fin)
  have "length (fold group_out gs out) = length out + sum_list (map (\<lambda>(ls, rs). length ls + sum_list (map fst rs)) gs)" for out
    by (induction gs arbitrary: out) (auto simp: length_group_out)
  with Packed show ?thesis by simp
qed simp

lemma length_blocks_out: "length out \<le> length (fold block_out bs out)"
proof (induction bs arbitrary: out)
  case (Cons b bs)
  have "length out \<le> length (block_out b out)"
    by (cases b) (use length_groups_out [of out] in \<open>auto intro: trans_le_add1\<close>)
  with Cons.IH [of "block_out b out"] show ?case by simp
qed simp

lemma copy_stored_st:
  assumes "bytes_at src p bs" "length out + length bs \<le> length d"
  shows "copy_stored (length bs) src p (st d out bp) = Ret () (st d (out @ bs) bp)"
  using assms
proof (induction bs arbitrary: p out)
  case (Cons c bs)
  have at: "bytes_at src p [c]" "bytes_at src (p + 1) bs" using Cons.prems(1) bytes_at_append [of src p "[c]" bs] by simp_all
  have "byte_in src p s = Ret c s" for s :: yj using byte_in_at [OF at(1), of 0 s] by simp
  then show ?case using Cons.IH [OF at(2), of "out @ [c]"] Cons.prems(2) emit_st [of out d c bp] by simp
qed simp

lemma loop_bits_nonempty: "header_ok h \<Longrightarrow> loop_ok h v \<Longrightarrow> loop_bits h v \<noteq> []"
proof -
  assume h: "header_ok h" "loop_ok h v"
  then have len: "length (loop_len h) = 3" "length (loop_table h) = 2" by (simp_all add: header_ok_def)
  show ?thesis
  proof (cases "v \<in> set (loop_table h)")
    case True
    then show ?thesis using len(2) by (auto simp: loop_bits_def in_set_conv_nth less_2_cases_iff)
  next
    case False
    then have "\<exists>c\<in>set (loop_len h). v < 2 ^ c" using h(2) by (simp add: loop_ok_def)
    from find_way_nth [OF this len(1)] show ?thesis by (auto simp: loop_bits_def)
  qed
qed

lemma length_groups: "header_ok h \<Longrightarrow> groups_ok h t code len gs \<Longrightarrow> length gs \<le> length (concat (map (group_bits h code) gs))"
proof (induction gs arbitrary: len)
  case (Cons g gs)
  obtain ls rs where g: "g = (ls, rs)" by force
  have "loop_bits h (length ls) \<noteq> []" using Cons.prems unfolding g by (intro loop_bits_nonempty) (auto simp: literals_ok_def)
  then have "0 < length (group_bits h code g)" by (simp add: g group_bits_def)
  moreover have "length gs \<le> length (concat (map (group_bits h code) gs))"
    using Cons.prems unfolding g by (intro Cons.IH) auto
  ultimately show ?case by (simp add: Suc_le_eq del: length_greater_0_conv)
qed simp

lemma blocks_st:
  assumes "8 * length src < fuel" "blocks_ok t code (length out) bs" "bytes_at src p (concat (map (block_bytes code) bs))"
    and "length (fold block_out bs out) \<le> length d"
  shows "\<exists>bp'. blocks fuel (length bs) src p t (st d out bp) = Ret () (st d (fold block_out bs out) bp')"
  using assms(2-)
proof (induction bs arbitrary: p out bp)
  case (Cons b bs)
  have at: "bytes_at src p (block_bytes code b)" "bytes_at src (p + length (block_bytes code b)) (concat (map (block_bytes code) bs))"
    using Cons.prems(2) by (simp_all add: bytes_at_append)
  have ok: "block_ok t code (length out) b" "blocks_ok t code (length (block_out b out)) bs"
    using Cons.prems(1) length_block_out [of t code out b] by simp_all
  have len: "length (block_out b out) \<le> length d" using Cons.prems(3) length_blocks_out [of "block_out b out" bs] by simp
  have w2len: "length (w2 v) = 2" for v by (simp add: w2_def)
  have step: "\<exists>bp1. blocks fuel (Suc (length bs)) src p t (st d out bp) =
      blocks fuel (length bs) src (p + length (block_bytes code b)) t (st d (block_out b out) bp1)"
  proof (cases b)
    case (Stored xs)
    have parts: "bytes_at src p (w2 (length xs))" "bytes_at src (p + 2) (w2 0)" "bytes_at src (p + 4) xs"
      using at(1) Stored by (simp_all add: bytes_at_append w2len add.assoc del: add_2_eq_Suc add_2_eq_Suc')
    have "copy_stored (length xs) src (p + 4) (st d out bp) = Ret () (st d (out @ xs) bp)"
      using parts(3) len Stored by (intro copy_stored_st) auto
    then have "blocks fuel (Suc (length bs)) src p t (st d out bp) =
      blocks fuel (length bs) src (p + 4 + length xs) t (st d (out @ xs) bp)"
      using ok(1) Stored word_in_w2 [OF parts(1), where s = "st d out bp"] word_in_w2 [OF parts(2), where s = "st d out bp"]
      by simp
    moreover have "p + length (block_bytes code b) = p + 4 + length xs" "block_out b out = out @ xs"
      using Stored by (simp_all add: w2len)
    ultimately show ?thesis by metis
  next
    case (Packed h gs fin)
    let ?s = "stream_bits h code gs fin"
    let ?cl = "24 + length (pack ?s)"
    have h: "header_ok h" and gs: "groups_ok h t code (length out) gs" and fin: "fin \<noteq> [] \<Longrightarrow> literals_ok h t code fin"
      and cl: "?cl < 65536" using ok(1) Packed by auto
    have parts: "bytes_at src p (header_bytes h (block_size b) ?cl)" "bytes_at src (p + 24) (pack ?s)"
      using at(1) Packed length_header_bytes [OF h] by (auto simp: bytes_at_append Let_def)
    have "bits_at src (p + 24) 0 ?s" by (rule bits_at_pack [OF parts(2)])
    moreover from bits_at_length [OF this] have "length gs < fuel"
      using length_groups [OF h gs] assms(1) unfolding stream_bits_def length_append by linarith
    ultimately have "block_loop fuel fuel src (p + 24) p t (st d out 0) =
        Ret () (st d (fold group_out gs out @ fin) (0 + length ?s))"
      using len Packed by (intro block_loop_st [OF h parts(1) assms(1) gs fin]) auto
    then have "blocks fuel (Suc (length bs)) src p t (st d out bp) =
      blocks fuel (length bs) src (p + ?cl) t (st d (block_out b out) (length ?s))"
      using word_in_w2 [OF header_parts(7) [OF h parts(1)] cl, where s = "st d out bp"] Packed by simp
    then show ?thesis using Packed length_header_bytes [OF h] by (auto simp: Let_def)
  qed
  then obtain bp1 where s1: "blocks fuel (Suc (length bs)) src p t (st d out bp) =
      blocks fuel (length bs) src (p + length (block_bytes code b)) t (st d (block_out b out) bp1)" ..
  from Cons.IH [OF ok(2) at(2), of bp1] Cons.prems(3) s1 show ?case by auto
qed auto

text \<open>The tree.\<close>

lemma read_nodes_st:
  assumes "bits_at src flags (bitptr s) (tree_bits ns)" "bytes_at src (15 + i) (map snd ns)"
  shows "read_nodes (length ns) i src flags 0 s = Ret ns (s\<lparr>bitptr := bitptr s + length ns\<rparr>)"
  using assms
proof (induction ns arbitrary: i s)
  case (Cons n ns)
  have bits: "tree_bits (n # ns) = [\<not> fst n] @ tree_bits ns" by (simp add: tree_bits_def split: prod.splits)
  note at = bits_at_append [OF Cons.prems(1) [unfolded bits]]
  have v: "nbits 1 (of_bool (\<not> fst n)) = [\<not> fst n]" by (simp add: nbits_def bit_0)
  have bit: "get_bits src flags 1 s = Ret (of_nat (of_bool (\<not> fst n))) (s\<lparr>bitptr := bitptr s + 1\<rparr>)"
  proof (rule get_bits_run)
    show "bits_at src flags (bitptr s) (nbits 1 (of_bool (\<not> fst n)))" unfolding v using at by blast
  qed simp_all
  have b: "bytes_at src (15 + i) [snd n]" "bytes_at src (15 + (i + 1)) (map snd ns)"
    using Cons.prems(2) bytes_at_append [of src "15 + i" "[snd n]" "map snd ns"] by simp_all
  have "byte_in src (15 + i) s' = Ret (snd n) s'" for s' :: yj using byte_in_at [OF b(1), of 0 s'] by simp
  then show ?case using bit Cons.IH [OF _ b(2), of "s\<lparr>bitptr := bitptr s + 1\<rparr>"] at by (cases n) simp
qed (simp add: tree_bits_def)

lemma tree_size_pack: "tree_size (length ns) = 16 + length ns + length (pack (tree_bits ns))"
proof -
  have "(n + 15) div 16 = (if n mod 16 \<noteq> 0 then n div 16 + 1 else n div 16)" for n :: nat
  proof -
    define q r where "q = n div 16" and "r = n mod 16"
    have n: "n = 16 * q + r" "r < 16" by (simp_all add: q_def r_def)
    have "(n + 15) div 16 = q + (if r = 0 then 0 else 1)" unfolding n(1) by (rule div_nat_eqI) (use n(2) in auto)
    then show ?thesis by (simp add: q_def r_def)
  qed
  then show ?thesis by (simp add: tree_size_def tree_bits_def)
qed

text \<open>Where the parts of a file are.\<close>

lemma file_parts:
  assumes "bytes_at src 0 (yj1_file nodes code bs len)" "length bs < 65536" "even (length nodes)" "length nodes \<le> 510"
  shows "dword_in src 0 s = Ret 0x315f4a59 s" "dword_in src 4 s = Ret (of_nat len) s"
    and "byte_in src 15 s = Ret (of_nat (length nodes div 2)) s" "word_in src 12 s = Ret (length bs) s"
    and "bytes_at src 16 (map snd nodes)" "bytes_at src (16 + length nodes) (pack (tree_bits nodes))"
    and "bytes_at src (tree_size (length nodes)) (concat (map (block_bytes code) bs))"
proof -
  have w2len: "length (w2 v) = 2" for v by (simp add: w2_def)
  have l4: "length [a, b, c, d] = 4" and l2: "length [a, b] = 2" for a b c d :: 'x by simp_all
  have at: "bytes_at src 0 [0x59, 0x4a, 0x5f, 0x31]" "bytes_at src 4 (map (\<lambda>i. byte_at i (of_nat len)) [0, 1, 2, 3])"
    "bytes_at src 12 (w2 (length bs))" "bytes_at src 14 [0, of_nat (length nodes div 2)]"
    "bytes_at src 16 (map snd nodes)" "bytes_at src (16 + length nodes) (pack (tree_bits nodes))"
    "bytes_at src (tree_size (length nodes)) (concat (map (block_bytes code) bs))"
    using assms(1) unfolding yj1_file_def tree_size_pack bytes_at_append length_map l4 l2 w2len
    by (simp_all add: add.assoc)
  then show "bytes_at src 16 (map snd nodes)" "bytes_at src (16 + length nodes) (pack (tree_bits nodes))"
    "bytes_at src (tree_size (length nodes)) (concat (map (block_bytes code) bs))" by blast+
  have long: "8 \<le> length src" using at(2) by (simp add: bytes_at_def)
  have byte: "src ! (4 + i) = byte_at i (of_nat len)" if "i < 4" for i
  proof -
    have "i = 0 \<or> i = 1 \<or> i = 2 \<or> i = 3" using that by linarith
    then show ?thesis using at(2) [unfolded bytes_at_def] that by auto
  qed
  have "read_uint src 4 0 = le32 (\<lambda>i. byte_at i (of_nat len))"
    unfolding read_uint_def by (rule le32_cong) (use long in \<open>simp add: byte\<close>)
  with long show "dword_in src 4 s = Ret (of_nat len) s" by (simp add: dword_in_def)
  have sig: "src ! i = byte_at i 0x315f4a59" if "i < 4" for i
  proof -
    have "i = 0 \<or> i = 1 \<or> i = 2 \<or> i = 3" using that by linarith
    then show ?thesis using at(1) [unfolded bytes_at_def] by (auto simp: byte_at_def)
  qed
  have "read_uint src 0 0 = le32 (\<lambda>i. byte_at i 0x315f4a59)"
    unfolding read_uint_def by (rule le32_cong) (use long in \<open>simp add: sig\<close>)
  with long show "dword_in src 0 s = Ret 0x315f4a59 s" by (simp add: dword_in_def)
  show "byte_in src 15 s = Ret (of_nat (length nodes div 2)) s" using byte_in_at [OF at(4), of 1 s] by simp
  show "word_in src 12 s = Ret (length bs) s" by (rule word_in_w2 [OF at(3) assms(2)])
qed

text \<open>
  C11. Decompression undoes compression. Take any table of Huffman codes in which every byte that is written
  has a code, and any sequence of stored blocks and of blocks of literals and repetitions whose numbers the
  header of the block can express, and write them in the format. If the destination has room for the data and
  the caller says so, \<open>Decompress\<close> returns their length, the destination starts with the data (literals as
  they are, repetitions copied from what was written before, also across blocks and overlapping themselves),
  and the rest of the destination is untouched. What follows the file does not matter.
\<close>

theorem decompress_compressed:
  assumes "even (length nodes)" "length nodes \<le> 510" "length bs < 65536"
    and "blocks_ok ((False, 0) # nodes) code 0 bs" "data = fold block_out bs []"
    and "int (length data) \<le> DestSize" "DestSize < 2 ^ 31" "length data \<le> length (dest s)"
  shows "wp (Decompress (Some (yj1_file nodes code bs (length data) @ behind)) DestSize)
    (\<lambda>r t. r = int (length data) \<and> dest t = data @ drop (length data) (dest s)) s"
proof -
  let ?src = "yj1_file nodes code bs (length data) @ behind"
  have "bytes_at ?src 0 (yj1_file nodes code bs (length data))" by (simp add: bytes_at_def nth_append)
  note parts = file_parts(1-4) [OF this assms(3,1,2), where s = x for x :: yj] file_parts(5-7) [OF this assms(3,1,2)]
  have len: "unat (of_nat (length nodes div 2) :: u8) = length nodes div 2" "2 * (length nodes div 2) = length nodes"
    using assms(1,2) by (simp_all add: unat_of_nat)
  have data: "length data < 2 ^ 31" using assms(6,7) by simp
  have small: "\<not> word_of_int DestSize < (of_nat (length data) :: u32)"
  proof -
    have "0 \<le> DestSize" using assms(6) by linarith
    then have "uint (word_of_int DestSize :: u32) = DestSize"
      using assms(7) unfolding uint_word_of_int by (intro mod_pos_pos_trivial) simp_all
    moreover have "unat (of_nat (length data) :: u32) = length data" using data by (simp add: unat_of_nat)
    then have "uint (of_nat (length data) :: u32) = int (length data)" by (simp only: uint_nat)
    ultimately have "uint (word_of_int DestSize :: u32) = DestSize" "uint (of_nat (length data) :: u32) = int (length data)" .
    then show ?thesis using assms(6) by (simp add: word_less_def)
  qed
  have "signed_take_bit 31 (int (length data)) = int (length data)"
    using data by (intro signed_take_bit_int_eq_self) auto
  then have sint: "sint (of_nat (length data) :: u32) = int (length data)"
    using data by (simp add: sint_uint uint_nat unat_of_nat)
  have flags: "bits_at ?src (16 + length nodes) 0 (tree_bits nodes)" by (rule bits_at_pack [OF parts(6)])
  have tree: "read_nodes (length nodes) 1 ?src (16 + length nodes) 0 (s\<lparr>bitptr := 0\<rparr>) =
      Ret nodes (s\<lparr>bitptr := length nodes\<rparr>)"
    using read_nodes_st [of ?src "16 + length nodes" "s\<lparr>bitptr := 0\<rparr>" nodes 1] flags parts(5) by simp
  have start: "s\<lparr>bitptr := length nodes, dpos := 0\<rparr> = st (dest s) [] (length nodes)" by (simp add: st_def)
  obtain bp' where run: "blocks (yj_fuel ?src) (length bs) ?src (tree_size (length nodes)) ((False, 0) # nodes) (st (dest s) [] (length nodes))
      = Ret () (st (dest s) data bp')"
    using blocks_st [of ?src "yj_fuel ?src" "(False, 0) # nodes" code "[]" bs "tree_size (length nodes)" "dest s" "length nodes"]
      assms(4,5,8) parts(7) by auto
  have "Decompress (Some ?src) DestSize s = Ret (int (length data)) (st (dest s) data bp')"
    using parts(1-4) len small sint tree run start by (simp add: Decompress_def Let_def)
  then show ?thesis by (simp add: wp_def st_def)
qed

text \<open>
  Two letters with codes of one bit; a group \<open>ab\<close> with a repetition of four bytes from two places back, a
  final \<open>a\<close>, and a stored block.
\<close>

definition small_header :: yj_header where
  "small_header = \<lparr>rep_table = [4, 0, 0, 0], off_len = [4, 8, 12, 16], rep_len = [4, 8, 16], loop_len = [4, 8, 12], loop_table = [1, 2]\<rparr>"

definition small_blocks :: "yj_block list" where
  "small_blocks = [Packed small_header [([97, 98], [(4, 2)])] [97], Stored [1, 2, 3]]"

theorem decompress_compressed_witness:
  "wp (Decompress (Some (yj1_file [(True, 97), (True, 98)] (\<lambda>c. [c = 98]) small_blocks 10 @ [7])) 10)
    (\<lambda>r t. r = 10 \<and> dest t = [97, 98, 97, 98, 97, 98, 97, 1, 2, 3, 0, 0])
    \<lparr>dest = replicate 12 0, dpos = 0, bitptr = 0\<rparr>"
proof -
  have data: "fold block_out small_blocks [] = [97, 98, 97, 98, 97, 98, 97, 1, 2, 3]"
    by (simp add: small_blocks_def group_out_def lz_copies_def eval_nat_numeral)
  have upto: "[0..<4] = [0, 1, 2, 3]" "[0..<3] = [0, 1, 2]" by (simp_all add: upt_rec)
  have ok: "blocks_ok ((False, 0) # [(True, 97), (True, 98)]) (\<lambda>c. [c = 98]) 0 small_blocks"
    by (simp add: small_blocks_def small_header_def header_ok_def literals_ok_def loop_ok_def count_ok_def pos_ok_def left_child_def
      stream_bits_def group_bits_def loop_bits_def codes_def rep_bits_def count_bits_def pos_bits_def find_way_def upto)
  have "wp (Decompress (Some (yj1_file [(True, 97), (True, 98)] (\<lambda>c. [c = 98]) small_blocks (length [97 :: u8, 98, 97, 98, 97, 98, 97, 1, 2, 3]) @ [7])) 10)
    (\<lambda>r t. r = int (length [97 :: u8, 98, 97, 98, 97, 98, 97, 1, 2, 3]) \<and> dest t = [97, 98, 97, 98, 97, 98, 97, 1, 2, 3]
       @ drop (length [97 :: u8, 98, 97, 98, 97, 98, 97, 1, 2, 3]) (dest \<lparr>dest = replicate 12 0, dpos = 0, bitptr = 0\<rparr>))
    \<lparr>dest = replicate 12 0, dpos = 0, bitptr = 0\<rparr>"
    by (rule decompress_compressed) (use ok data in \<open>simp_all add: small_blocks_def\<close>)
  then show ?thesis by (simp add: eval_nat_numeral)
qed

end
