(* ===== verification/Pal_Bitmaps.thy ===== *)
theory Pal_Bitmaps
  imports Pal_Files_Props
begin

unbundle bit_operations_syntax

text \<open>
  Drawing the run-length encoded bitmaps of the role-playing game (game/src/nemu-pal/global/palcommon.c): the
  pixels that a bitmap sets on a surface, for bitmaps whose runs stay within a row. \<open>paint\<close> is the order in
  which the code sets them, \<open>drawn\<close> says which color every pixel has afterwards.
\<close>

section \<open>Encoded bitmaps\<close>

text \<open>A run of transparent pixels or of pixels with a color.\<close>

datatype run = Clear nat | Opaque "u8 list"

fun run_bytes :: "run \<Rightarrow> u8 list" where
  "run_bytes (Clear n) = [of_nat (128 + n)]"
| "run_bytes (Opaque cs) = of_nat (length cs) # cs"

fun run_cells :: "run \<Rightarrow> u8 option list" where
  "run_cells (Clear n) = replicate n None"
| "run_cells (Opaque cs) = map Some cs"

text \<open>The runs are short enough for their byte, and visible ones do not cross the end of a row.\<close>

fun runs_ok :: "nat \<Rightarrow> nat \<Rightarrow> run list \<Rightarrow> bool" where
  "runs_ok W i [] = True"
| "runs_ok W i (Clear n # rs) = (n \<le> 127 \<and> n \<le> W \<and> runs_ok W (i + n) rs)"
| "runs_ok W i (Opaque cs # rs) = (length cs \<le> 127 \<and> i mod W + length cs \<le> W \<and> runs_ok W (i + length cs) rs)"

definition cells :: "run list \<Rightarrow> u8 option list" where
  "cells rs = concat (map run_cells rs)"

definition bitmap_bytes :: "nat \<Rightarrow> nat \<Rightarrow> run list \<Rightarrow> u8 list" where
  "bitmap_bytes W H rs = w2 W @ w2 H @ concat (map run_bytes rs)"

definition surface_ok :: "surface \<Rightarrow> bool" where
  "surface_ok s \<longleftrightarrow> 0 \<le> surf_w s \<and> surf_w s \<le> int (pitch s) \<and> 0 \<le> surf_h s \<and> nat (surf_h s) * pitch s \<le> length (pixels s)"

section \<open>Painting\<close>

definition cell_x :: "nat \<Rightarrow> int \<Rightarrow> nat \<Rightarrow> int" where "cell_x W dx i = int (i mod W) + dx"
definition cell_y :: "nat \<Rightarrow> int \<Rightarrow> nat \<Rightarrow> int" where "cell_y W dy i = int (i div W) + dy"

definition visible :: "nat \<Rightarrow> int \<Rightarrow> int \<Rightarrow> surface \<Rightarrow> nat \<Rightarrow> bool" where
  "visible W dx dy s i \<longleftrightarrow> 0 \<le> cell_x W dx i \<and> cell_x W dx i < surf_w s \<and> 0 \<le> cell_y W dy i \<and> cell_y W dy i < surf_h s"

definition plot :: "nat \<Rightarrow> int \<Rightarrow> int \<Rightarrow> nat \<Rightarrow> u8 \<Rightarrow> surface \<Rightarrow> surface" where
  "plot W dx dy i c s =
     (if visible W dx dy s i
      then s\<lparr>pixels := (pixels s)[nat (cell_y W dy i) * pitch s + nat (cell_x W dx i) := c]\<rparr> else s)"

fun paint :: "(u8 \<Rightarrow> u8) \<Rightarrow> nat \<Rightarrow> int \<Rightarrow> int \<Rightarrow> nat \<Rightarrow> u8 option list \<Rightarrow> surface \<Rightarrow> surface" where
  "paint f W dx dy i [] s = s"
| "paint f W dx dy i (None # cs) s = paint f W dx dy (i + 1) cs s"
| "paint f W dx dy i (Some c # cs) s = paint f W dx dy (i + 1) cs (plot W dx dy i (f c) s)"

lemma plot_shape [simp]:
  "surf_w (plot W dx dy i c s) = surf_w s" "surf_h (plot W dx dy i c s) = surf_h s" "pitch (plot W dx dy i c s) = pitch s"
  "length (pixels (plot W dx dy i c s)) = length (pixels s)"
  by (simp_all add: plot_def)

lemma surface_ok_plot [simp]: "surface_ok (plot W dx dy i c s) = surface_ok s"
  by (simp add: surface_ok_def)

lemma visible_plot [simp]: "visible W dx dy (plot W dx' dy' i c s) = visible W dx dy s"
  by (simp add: visible_def fun_eq_iff)

lemma paint_shape [simp]:
  "surf_w (paint f W dx dy i cs s) = surf_w s" "surf_h (paint f W dx dy i cs s) = surf_h s" "pitch (paint f W dx dy i cs s) = pitch s"
  "length (pixels (paint f W dx dy i cs s)) = length (pixels s)"
  by (induction f W dx dy i cs s rule: paint.induct) simp_all

lemma surface_ok_paint [simp]: "surface_ok (paint f W dx dy i cs s) = surface_ok s"
  by (simp add: surface_ok_def)

lemma paint_append: "paint f W dx dy i (xs @ ys) s = paint f W dx dy (i + length xs) ys (paint f W dx dy i xs s)"
  by (induction f W dx dy i xs s rule: paint.induct) simp_all

lemma paint_clear: "paint f W dx dy i (replicate n None) s = s"
  by (induction n arbitrary: i) simp_all

text \<open>Cells outside of the surface can be left out.\<close>

lemma paint_skip:
  assumes "\<And>k. k < m \<Longrightarrow> k < length cs \<Longrightarrow> \<not> visible W dx dy s (i + k)"
  shows "paint f W dx dy i cs s = paint f W dx dy (i + m) (drop m cs) s"
  using assms
proof (induction m arbitrary: i cs)
  case (Suc m)
  show ?case
  proof (cases cs)
    case (Cons c cs')
    have "\<not> visible W dx dy s i" using Suc.prems [of 0] Cons by simp
    then have "paint f W dx dy i cs s = paint f W dx dy (i + 1) cs' s" using Cons by (cases c) (simp_all add: plot_def)
    also have "\<dots> = paint f W dx dy (i + 1 + m) (drop m cs') s"
      by (rule Suc.IH) (use Suc.prems [of "Suc k" for k] Cons in auto)
    finally show ?thesis using Cons by simp
  qed simp
qed simp

lemma paint_hidden: "(\<And>k. k < length cs \<Longrightarrow> \<not> visible W dx dy s (i + k)) \<Longrightarrow> paint f W dx dy i cs s = s"
  using paint_skip [of "length cs" cs W dx dy s i f] by simp

section \<open>The inner loop\<close>

lemma put_pixel_run:
  assumes "surface_ok s" "visible W dx dy s i"
  shows "put_pixel (cell_x W dx i) (cell_y W dy i) c s = Ret () (plot W dx dy i c s)"
proof -
  let ?x = "cell_x W dx i" and ?y = "cell_y W dy i"
  have x: "nat ?x < pitch s" and y: "nat ?y + 1 \<le> nat (surf_h s)" using assms by (auto simp: surface_ok_def visible_def)
  have "nat ?y * pitch s + nat ?x < (nat ?y + 1) * pitch s" using x by simp
  also have "\<dots> \<le> nat (surf_h s) * pitch s" using y by (rule mult_le_mono1)
  finally have "nat ?y * pitch s + nat ?x < length (pixels s)" using assms(1) by (simp add: surface_ok_def)
  with assms(2) show ?thesis by (simp add: put_pixel_def plot_def)
qed

lemma rle_literal_paints:
  assumes "surface_ok s" "0 < W" "bytes_at b p cs" "i mod W + length cs \<le> W" "length cs \<le> n + j"
  shows "\<exists>ended. rle_literal n f b W dx dy p (length cs) i j s = Ret ended (paint f W dx dy (i + j) (map Some (drop j cs)) s)
    \<and> (ended \<longrightarrow> surf_h s \<le> cell_y W dy i)"
  using assms(1,5)
proof (induction n arbitrary: j s)
  case (Suc n j s)
  show ?case
  proof (cases "j < length cs")
    case True
    have pos: "(i + k) div W = i div W" "(i + k) mod W = i mod W + k" if "k < length cs" for k
    proof -
      have "i mod W + k < W" using that assms(4) by simp
      moreover have "i + k = W * (i div W) + (i mod W + k)" by simp
      ultimately show "(i + k) div W = i div W" "(i + k) mod W = i mod W + k"
        by (metis div_mult_self4 div_less add.right_neutral assms(2) less_numeral_extra(3), metis mod_mult_self4 mod_less)
    qed
    define X Y where "X = cell_x W dx (i + j)" and "Y = cell_y W dy i"
    have x: "cell_x W dx (i + k) = X + int k - int j" and y: "cell_y W dy (i + k) = Y" if "k < length cs" for k
      using pos [OF that] pos [OF True] by (simp_all add: cell_x_def cell_y_def X_def Y_def)
    have skip: "\<exists>ended. rle_literal n f b W dx dy p (length cs) i (j + m) s = Ret ended (paint f W dx dy (i + j) (map Some (drop j cs)) s)
        \<and> (ended \<longrightarrow> surf_h s \<le> cell_y W dy i)"
      if "0 < m" "\<And>k. k < m \<Longrightarrow> j + k < length cs \<Longrightarrow> \<not> visible W dx dy s (i + (j + k))" for m
    proof -
      have "paint f W dx dy (i + j) (map Some (drop j cs)) s = paint f W dx dy (i + j + m) (drop m (map Some (drop j cs))) s"
        by (rule paint_skip) (use that(2) in \<open>simp add: add.assoc\<close>)
      also have "\<dots> = paint f W dx dy (i + (j + m)) (map Some (drop (j + m) cs)) s" by (simp add: drop_map ac_simps)
      finally show ?thesis using Suc.IH [of s "j + m"] Suc.prems that(1) by simp
    qed
    have T: "length cs \<le> j + nat (- y') * W" if "y' < 0" for y'
    proof -
      have "1 * W \<le> nat (- y') * W" using that by (intro mult_le_mono1) simp
      then show ?thesis using assms(4) by linarith
    qed
    have unf: "rle_literal (Suc n) f b W dx dy p (length cs) i j s =
        (if X < 0 then rle_literal n f b W dx dy p (length cs) i (j + nat (- X - 1) + 1) s
         else if X \<ge> surf_w s then rle_literal n f b W dx dy p (length cs) i (j + nat (X - surf_w s) + 1) s
         else if Y < 0 then rle_literal n f b W dx dy p (length cs) i (j + nat (- Y) * W - 1 + 1) s
         else if Y \<ge> surf_h s then Ret True s
         else bindM (byte_in b (p + j)) (\<lambda>c. seqM (put_pixel X Y (f c)) (rle_literal n f b W dx dy p (length cs) i (j + 1))) s)"
      using True by (simp add: Let_def cell_x_def cell_y_def X_def y [OF True, unfolded cell_y_def])
    consider "X < 0" | "\<not> X < 0" "surf_w s \<le> X" | "\<not> X < 0" "\<not> surf_w s \<le> X" "Y < 0"
      | "\<not> X < 0" "\<not> surf_w s \<le> X" "\<not> Y < 0" "surf_h s \<le> Y"
      | "\<not> X < 0" "\<not> surf_w s \<le> X" "\<not> Y < 0" "\<not> surf_h s \<le> Y" by blast
    then show ?thesis
    proof cases
      case 1
      have "j + nat (- X - 1) + 1 = j + nat (- X)" using 1 by simp
      moreover have "\<exists>ended. rle_literal n f b W dx dy p (length cs) i (j + nat (- X)) s
          = Ret ended (paint f W dx dy (i + j) (map Some (drop j cs)) s) \<and> (ended \<longrightarrow> surf_h s \<le> cell_y W dy i)"
        using 1 x by (intro skip) (auto simp: visible_def)
      ultimately show ?thesis unfolding unf using 1 by (simp only: if_True)
    next
      case 2
      have "\<exists>ended. rle_literal n f b W dx dy p (length cs) i (j + (nat (X - surf_w s) + 1)) s
          = Ret ended (paint f W dx dy (i + j) (map Some (drop j cs)) s) \<and> (ended \<longrightarrow> surf_h s \<le> cell_y W dy i)"
        using 2 x by (intro skip) (auto simp: visible_def)
      then show ?thesis unfolding unf using 2 by (simp only: if_True if_False add.assoc)
    next
      case 3
      let ?m = "nat (- Y) * W"
      have m: "0 < ?m" "length cs \<le> j + ?m" using 3 assms(2) T [of Y] by simp_all
      then have "j + ?m - 1 + 1 = j + ?m" by simp
      moreover have "\<exists>ended. rle_literal n f b W dx dy p (length cs) i (j + ?m) s
          = Ret ended (paint f W dx dy (i + j) (map Some (drop j cs)) s) \<and> (ended \<longrightarrow> surf_h s \<le> cell_y W dy i)"
        using 3 y m(1) by (intro skip) (auto simp: visible_def)
      ultimately show ?thesis unfolding unf using 3 by (simp only: if_True if_False)
    next
      case 4
      have "paint f W dx dy (i + j) (map Some (drop j cs)) s = s"
        by (rule paint_hidden) (use 4 y in \<open>simp add: visible_def add.assoc\<close>)
      moreover have "surf_h s \<le> cell_y W dy i" using 4 by (simp add: Y_def)
      ultimately show ?thesis unfolding unf using 4 by (intro exI [of _ True]) simp
    next
      case 5
      have vis: "visible W dx dy s (i + j)" using 5 x [OF True] y [OF True] by (simp add: visible_def)
      have byte: "byte_in b (p + j) s = Ret (cs ! j) s" using byte_in_at [OF assms(3) True] .
      have split: "map Some (drop j cs) = Some (cs ! j) # map Some (drop (j + 1) cs)"
        using True by (simp add: Cons_nth_drop_Suc [symmetric])
      show ?thesis
        unfolding unf split using 5 byte put_pixel_run [OF Suc.prems(1) vis, of "f (cs ! j)"] x [OF True] y [OF True]
          Suc.IH [of "plot W dx dy (i + j) (f (cs ! j)) s" "j + 1"] Suc.prems by simp
    qed
  qed (auto intro!: exI [of _ False])
qed (auto intro!: exI [of _ False])

section \<open>The loop over the runs\<close>

lemma cells_simps [simp]: "cells [] = []" "cells (r # rs) = run_cells r @ cells rs"
  by (simp_all add: cells_def)

lemma length_run_bytes: "0 < length (run_bytes r)"
  by (cases r) simp_all

lemma small_byte: "n < 256 \<Longrightarrow> unat (of_nat n :: u8) = n"
  by (simp add: unat_of_nat)

lemma bit7: "bit b 7 \<longleftrightarrow> 128 \<le> unat (b :: u8)"
proof -
  have "unat b < 256" using unsigned_less [of b, where ?'a = nat] by simp
  moreover have "bit b 7 = odd (unat b div 128)" 
    using bit_iff_odd [of "unat b" 7] by (simp add: bit_unsigned_iff)
  moreover have "unat b div 128 = (if 128 \<le> unat b then 1 else 0)" if "unat b < 256"
    using that by (auto intro: div_nat_eqI)
  ultimately show ?thesis by simp
qed

lemma length_run_cells [simp]: "length (run_cells (Clear n)) = n" "length (run_cells (Opaque cs)) = length cs"
  by simp_all

lemma runs_ok_step: "runs_ok W i (r # rs) \<Longrightarrow> runs_ok W (i + length (run_cells r)) rs"
  by (cases r) simp_all

text \<open>Below the last row of the surface nothing is visible.\<close>

lemma paint_below:
  assumes "surf_h s \<le> cell_y W dy i"
  shows "paint f W dx dy i cs s = s"
proof (rule paint_hidden)
  fix k
  have "i div W \<le> (i + k) div W" by (rule div_le_mono) simp
  with assms show "\<not> visible W dx dy s (i + k)" by (simp add: visible_def cell_y_def)
qed

lemma rle_runs_paints:
  assumes "surface_ok s" "0 < W" "runs_ok W i rs" "i + length (cells rs) = len" "bytes_at b p (concat (map run_bytes rs))"
    and "length (concat (map run_bytes rs)) < n"
  shows "rle_runs n f b W len dx dy p i s = Ret () (paint f W dx dy i (cells rs) s)"
  using assms(1,3-)
proof (induction rs arbitrary: n p i s)
  case Nil
  then obtain m where "n = Suc m" by (cases n) auto
  with Nil show ?case by simp
next
  case (Cons r rs)
  obtain m where m: "n = Suc m" using Cons.prems(5) by (cases n) auto
  have at: "bytes_at b p (run_bytes r)" "bytes_at b (p + length (run_bytes r)) (concat (map run_bytes rs))"
    using Cons.prems(4) by (simp_all add: bytes_at_append)
  have fuel: "length (concat (map run_bytes rs)) < m" 
    using Cons.prems(5) m length_run_bytes [of r] unfolding list.map concat.simps length_append by linarith
  show ?case
  proof (cases "i < len")
    case False
    then have "cells (r # rs) = []" using Cons.prems(3) by (metis add_cancel_right_right length_0_conv less_add_same_cancel1 neq0_conv)
    then show ?thesis using False m by simp
  next
    case i: True
    have next_runs: "rle_runs m f b W len dx dy (p + length (run_bytes r)) (i + length (run_cells r)) t =
        Ret () (paint f W dx dy (i + length (run_cells r)) (cells rs) t)" if "surface_ok t" for t
      using that Cons.prems at(2) fuel by (intro Cons.IH runs_ok_step) simp_all
    show ?thesis
    proof (cases r)
      case (Clear k)
      have k: "k \<le> 127" "k \<le> W" using Cons.prems(2) Clear by simp_all
      have T: "unat (of_nat (128 + k) :: u8) = 128 + k" using k by (intro small_byte) simp
      have byte: "byte_in b p s = Ret (of_nat (128 + k)) s"
        using byte_in_at [OF at(1), of 0] Clear by simp
      have "bit (of_nat (128 + k) :: u8) 7 \<and> unat (of_nat (128 + k) :: u8) \<le> 0x80 + W" using T k by (simp add: bit7)
      then have "rle_runs n f b W len dx dy p i s = rle_runs m f b W len dx dy (p + 1) (i + (128 + k) - 0x80) s"
        using i byte T unfolding m by simp
      then show ?thesis using next_runs [OF Cons.prems(1)] Clear by (simp add: paint_append paint_clear)
    next
      case (Opaque cs)
      have k: "length cs \<le> 127" "i mod W + length cs \<le> W" using Cons.prems(2) Opaque by simp_all
      have T: "unat (of_nat (length cs) :: u8) = length cs" using k by (intro small_byte) simp
      have byte: "byte_in b p s = Ret (of_nat (length cs)) s"
        using byte_in_at [OF at(1), of 0] Opaque by simp
      have cs: "bytes_at b (p + 1) cs" using at(1) bytes_at_append [of b p "[of_nat (length cs)]" cs] Opaque by simp
      have nobit: "\<not> bit (of_nat (length cs) :: u8) 7" using T k by (simp add: bit7)
      obtain ended where lit: "rle_literal 256 f b W dx dy (p + 1) (length cs) i 0 s = Ret ended (paint f W dx dy i (map Some cs) s)"
        and ended: "ended \<longrightarrow> surf_h s \<le> cell_y W dy i"
        using rle_literal_paints [OF Cons.prems(1) assms(2) cs k(2), of 256 0 f dx dy] k by auto
      have run: "rle_runs n f b W len dx dy p i s = (if ended then Ret () (paint f W dx dy i (map Some cs) s)
          else rle_runs m f b W len dx dy (p + 1 + length cs) (i + length cs) (paint f W dx dy i (map Some cs) s))"
        using i byte T nobit lit unfolding m by simp
      show ?thesis
      proof (cases ended)
        case True
        have "i div W \<le> (i + length cs) div W" by (rule div_le_mono) simp
        then have "surf_h s \<le> cell_y W dy (i + length cs)" using True ended by (simp add: cell_y_def)
        then show ?thesis using True run Opaque by (simp add: paint_append paint_below)
      next
        case False
        then show ?thesis using run next_runs [of "paint f W dx dy i (map Some cs) s"] Cons.prems(1) Opaque
          by (simp add: paint_append)
      qed
    qed
  qed
qed

section \<open>The picture\<close>

text \<open>The cell of the bitmap at index \<open>k\<close> of the pixels, if there is one on the visible part of the surface.\<close>

definition cell_at :: "nat \<Rightarrow> int \<Rightarrow> int \<Rightarrow> surface \<Rightarrow> nat \<Rightarrow> nat option" where
  "cell_at W dx dy s k =
     (let x = int (k mod pitch s); y = int (k div pitch s) in
      if x < surf_w s \<and> y < surf_h s \<and> dx \<le> x \<and> x < dx + int W \<and> dy \<le> y then Some (nat (y - dy) * W + nat (x - dx)) else None)"

text \<open>The surface with the bitmap on it.\<close>

definition drawn :: "(u8 \<Rightarrow> u8) \<Rightarrow> nat \<Rightarrow> nat \<Rightarrow> u8 option list \<Rightarrow> int \<Rightarrow> int \<Rightarrow> surface \<Rightarrow> surface" where
  "drawn f W H cs dx dy s = s\<lparr>pixels := map (\<lambda>k.
     let x = int (k mod pitch s); y = int (k div pitch s) in
     if x < surf_w s \<and> y < surf_h s \<and> dx \<le> x \<and> x < dx + int W \<and> dy \<le> y \<and> y < dy + int H
     then (case cs ! (nat (y - dy) * W + nat (x - dx)) of None \<Rightarrow> pixels s ! k | Some c \<Rightarrow> f c)
     else pixels s ! k) [0..<length (pixels s)]\<rparr>"

lemma cell_at_plot [simp]: "cell_at W dx dy (plot W dx' dy' i c s) = cell_at W dx dy s"
  by (simp add: cell_at_def fun_eq_iff)

text \<open>A visible cell has one place, and only that one.\<close>

lemma cell_at_iff:
  assumes "surface_ok s" "0 < W"
  shows "cell_at W dx dy s k = Some i \<longleftrightarrow> visible W dx dy s i \<and> k = nat (cell_y W dy i) * pitch s + nat (cell_x W dx i)"
proof
  assume h: "cell_at W dx dy s k = Some i"
  let ?x = "int (k mod pitch s)" and ?y = "int (k div pitch s)"
  from h have b: "?x < surf_w s" "?y < surf_h s" "dx \<le> ?x" "?x < dx + int W" "dy \<le> ?y"
    and i: "i = nat (?y - dy) * W + nat (?x - dx)"
    by (auto simp: cell_at_def Let_def split: if_splits)
  have "nat (?x - dx) < W" using b by linarith
  then have "i mod W = nat (?x - dx)" "i div W = nat (?y - dy)" using i assms(2) by simp_all
  then have xy: "cell_x W dx i = ?x" "cell_y W dy i = ?y" using b by (simp_all add: cell_x_def cell_y_def)
  then show "visible W dx dy s i \<and> k = nat (cell_y W dy i) * pitch s + nat (cell_x W dx i)"
    using b by (simp add: visible_def)
next
  assume h: "visible W dx dy s i \<and> k = nat (cell_y W dy i) * pitch s + nat (cell_x W dx i)"
  then have v: "0 \<le> cell_x W dx i" "cell_x W dx i < surf_w s" "0 \<le> cell_y W dy i" "cell_y W dy i < surf_h s"
    by (simp_all add: visible_def)
  have "cell_x W dx i < int (pitch s)" using v(2) assms(1) unfolding surface_ok_def by linarith
  then have "nat (cell_x W dx i) < pitch s" using v(1) by (simp add: nat_less_iff)
  then have k: "k mod pitch s = nat (cell_x W dx i)" "k div pitch s = nat (cell_y W dy i)" using h by simp_all
  have "nat (cell_y W dy i - dy) * W + nat (cell_x W dx i - dx) = i"
    by (simp add: cell_x_def cell_y_def)
  moreover have "dx \<le> cell_x W dx i" "cell_x W dx i < dx + int W" "dy \<le> cell_y W dy i"
    using assms(2) by (simp_all add: cell_x_def cell_y_def)
  ultimately show "cell_at W dx dy s k = Some i" using v by (simp add: cell_at_def k)
qed

lemma plot_nth:
  assumes "surface_ok s" "0 < W" "k < length (pixels s)"
  shows "pixels (plot W dx dy i c s) ! k = (if cell_at W dx dy s k = Some i then c else pixels s ! k)"
  using assms(3) unfolding plot_def cell_at_iff [OF assms(1,2)] by (auto simp: nth_list_update)

lemma paint_nth:
  assumes "surface_ok s" "0 < W" "k < length (pixels s)"
  shows "pixels (paint f W dx dy i cs s) ! k = (case cell_at W dx dy s k of None \<Rightarrow> pixels s ! k
    | Some j \<Rightarrow> if i \<le> j \<and> j < i + length cs then (case cs ! (j - i) of None \<Rightarrow> pixels s ! k | Some c \<Rightarrow> f c) else pixels s ! k)"
  using assms
proof (induction f W dx dy i cs s rule: paint.induct)
  case (1 f W dx dy i s)
  then show ?case by (auto split: option.splits)
next
  case (2 f W dx dy i cs s)
  then show ?case by (auto simp: nth_Cons' Suc_le_eq split: option.splits)
next
  case (3 f W dx dy i c cs s)
  then show ?case by (auto simp: nth_Cons' Suc_le_eq plot_nth split: option.splits)
qed

lemma paint_is_drawn:
  assumes "surface_ok s" "0 < W" "length cs = W * H"
  shows "paint f W dx dy 0 cs s = drawn f W H cs dx dy s"
proof -
  have "pixels (paint f W dx dy 0 cs s) ! k = pixels (drawn f W H cs dx dy s) ! k" if k: "k < length (pixels s)" for k
  proof -
    let ?x = "int (k mod pitch s)" and ?y = "int (k div pitch s)"
    have "nat (?y - dy) * W + nat (?x - dx) < W * H \<longleftrightarrow> ?y < dy + int H" if "dx \<le> ?x" "?x < dx + int W" "dy \<le> ?y"
    proof -
      have "nat (?x - dx) < W" using that by linarith
      then have "(nat (?y - dy) * W + nat (?x - dx)) div W = nat (?y - dy)" by simp
      then have "nat (?y - dy) * W + nat (?x - dx) < W * H \<longleftrightarrow> nat (?y - dy) < H"
        using div_less_iff_less_mult [OF assms(2), of "nat (?y - dy) * W + nat (?x - dx)" H] by (simp add: mult.commute)
      then show ?thesis using that by linarith
    qed
    then show ?thesis using k unfolding paint_nth [OF assms(1,2) k]
      by (auto simp: drawn_def cell_at_def Let_def assms(3) split: option.splits)
  qed
  then have "pixels (paint f W dx dy 0 cs s) = pixels (drawn f W H cs dx dy s)"
    by (intro nth_equalityI) (simp_all add: drawn_def)
  then show ?thesis by (intro surface.equality) (simp_all add: drawn_def)
qed

text \<open>A bitmap with a height does not look like the file header in front of some bitmaps.\<close>

lemma rle_start_bitmap:
  assumes "0 < H" "H < 65536"
  shows "rle_start (bitmap_bytes W H rs @ behind) = 0"
proof -
  have "(of_nat (H mod 256) :: u8) \<noteq> 0 \<or> (of_nat (H div 256) :: u8) \<noteq> 0"
  proof (rule ccontr)
    assume "\<not> ?thesis"
    then have "unat (of_nat (H mod 256) :: u8) = 0" "unat (of_nat (H div 256) :: u8) = 0" by simp_all
    then have "H mod 256 = 0" "H div 256 = 0" using assms(2) by (simp_all add: small_byte)
    then show False using assms(1) by (metis div_mult_mod_eq add_0 mult_0 less_irrefl)
  qed
  then show ?thesis by (auto simp: rle_start_def bitmap_bytes_def w2_def)
qed

lemma rle_blit_draws:
  assumes "0 < W" "W < 65536" "0 < H" "H < 65536" "runs_ok W 0 rs" "length (cells rs) = W * H" "surface_ok s"
  shows "rle_blit f (Some (bitmap_bytes W H rs @ behind)) pos (Some s) =
    Ret 0 (Some (drawn f W H (cells rs) (PAL_X pos) (PAL_Y pos) s))"
proof -
  let ?b = "bitmap_bytes W H rs @ behind"
  have len: "length (w2 v) = 2" for v by (simp add: w2_def)
  have "bytes_at ?b 0 (bitmap_bytes W H rs)" by (simp add: bytes_at_def nth_append)
  then have at: "bytes_at ?b 0 (w2 W)" "bytes_at ?b 2 (w2 H)" "bytes_at ?b 4 (concat (map run_bytes rs))"
    by (simp_all add: bitmap_bytes_def bytes_at_append len del: add_2_eq_Suc add_2_eq_Suc')
  have "rle_runs (length ?b + 1) f ?b W (W * H) (PAL_X pos) (PAL_Y pos) 4 0 s =
      Ret () (paint f W (PAL_X pos) (PAL_Y pos) 0 (cells rs) s)"
    using assms at(3) by (intro rle_runs_paints) (simp_all add: bitmap_bytes_def)
  then have "zoom the (\<lambda>d _. Some d) (rle_runs (length ?b + 1) f ?b W (W * H) (PAL_X pos) (PAL_Y pos) 4 0) (Some s) =
      Ret () (Some (drawn f W H (cells rs) (PAL_X pos) (PAL_Y pos) s))"
    using paint_is_drawn [OF assms(7,1,6)] by (simp del: rle_runs.simps)
  then show ?thesis
    using word_in_w2 [OF at(1) assms(2), where s = "Some s"] word_in_w2 [OF at(2) assms(4), where s = "Some s"]
      rle_start_bitmap [OF assms(3,4)]
    by (simp add: rle_blit_def Let_def bindM_def seqM_def numeral_2_eq_2 del: rle_runs.simps)
qed

text \<open>
  C13. Drawing a bitmap. A picture encoded in runs, of which the visible ones stay within a row, is drawn at
  any position, also partly or wholly outside of the surface: every pixel of the visible part of the surface
  that is under a colored cell gets its color (shifted, or in the given hue, for the other two functions), and
  every other byte of the surface keeps its value. Nothing outside of the surface is written.
\<close>

theorem bitmap_is_drawn:
  assumes "0 < W" "W < 65536" "0 < H" "H < 65536" "runs_ok W 0 rs" "length (cells rs) = W * H" "surface_ok s"
  shows "PAL_RLEBlitToSurface (Some (bitmap_bytes W H rs @ behind)) pos (Some s) =
      Ret 0 (Some (drawn (\<lambda>c. c) W H (cells rs) (PAL_X pos) (PAL_Y pos) s))
    \<and> PAL_RLEBlitWithColorShift (Some (bitmap_bytes W H rs @ behind)) pos iColorShift (Some s) =
      Ret 0 (Some (drawn (\<lambda>c. shifted iColorShift c OR (c AND 0xf0)) W H (cells rs) (PAL_X pos) (PAL_Y pos) s))
    \<and> PAL_RLEBlitMonoColor (Some (bitmap_bytes W H rs @ behind)) pos bColor iColorShift (Some s) =
      Ret 0 (Some (drawn (\<lambda>c. shifted iColorShift c OR (bColor AND 0xf0)) W H (cells rs) (PAL_X pos) (PAL_Y pos) s))"
  unfolding PAL_RLEBlitToSurface_def PAL_RLEBlitWithColorShift_def PAL_RLEBlitMonoColor_def
  by (intro conjI rle_blit_draws assms)

text \<open>A picture of three by two cells on a surface of four by three, one column and one row to the upper left.\<close>

definition small_surface :: surface where
  "small_surface = \<lparr>surf_w = 4, surf_h = 3, pitch = 5, pixels = replicate 15 9\<rparr>"

definition small_picture :: "run list" where
  "small_picture = [Opaque [1, 2], Clear 1, Clear 1, Opaque [3, 4]]"

theorem bitmap_is_drawn_witness:
  "PAL_RLEBlitToSurface (Some (bitmap_bytes 3 2 small_picture @ [])) (PAL_XY (-1) (-1)) (Some small_surface) =
     Ret 0 (Some (small_surface\<lparr>pixels := [3, 4] @ replicate 13 9\<rparr>))"
proof -
  have xy: "PAL_X (PAL_XY (-1) (-1)) = -1" "PAL_Y (PAL_XY (-1) (-1)) = -1" by code_simp+
  have "drawn (\<lambda>c. c) 3 2 (cells small_picture) (-1) (-1) small_surface = small_surface\<lparr>pixels := [3, 4] @ replicate 13 9\<rparr>"
    by code_simp
  moreover have "PAL_RLEBlitToSurface (Some (bitmap_bytes 3 2 small_picture @ [])) (PAL_XY (-1) (-1)) (Some small_surface) =
      Ret 0 (Some (drawn (\<lambda>c. c) 3 2 (cells small_picture) (PAL_X (PAL_XY (-1) (-1))) (PAL_Y (PAL_XY (-1) (-1))) small_surface))"
    by (intro bitmap_is_drawn [THEN conjunct1]) (simp_all add: small_picture_def small_surface_def surface_ok_def)
  ultimately show ?thesis by (simp only: xy)
qed

text \<open>
  A visible run across the end of a row is clipped wrongly: behind the second hidden column on the right the
  code leaves out pixels of the next row. Here the cell with color 4 would be visible in column 3 of row 1.
\<close>

lemma clipping_skips_next_row:
  "PAL_RLEBlitToSurface (Some (bitmap_bytes 3 2 [Opaque [1, 2, 3, 4, 5, 6]])) (PAL_XY 3 0) (Some small_surface) =
     Ret 0 (Some (small_surface\<lparr>pixels := [9, 9, 9, 1, 9] @ replicate 10 9\<rparr>))"
  by code_simp

end
