(* ===== verification/Pal_Scene.thy ===== *)
theory Pal_Scene
  imports Pal_State Pal_Files "HOL-Library.Signed_Division"
begin

unbundle bit_operations_syntax

text \<open>
  The map and the figures on it: game/src/nemu-pal/scene/map.c and scene.c, the look-up functions of
  global/res.c, and the walking of figures in game/script.c. Divisions of C that can be of a negative number
  round toward zero (\<open>sdiv\<close>).
\<close>

section \<open>The map\<close>

text \<open>\<open>Tiles y x h\<close>; the bitmaps of the tiles are the frames of a sprite.\<close>

record PALMAP =
  Tiles :: "nat \<Rightarrow> nat \<Rightarrow> nat \<Rightarrow> u32"
  pTileSprite :: "u8 list"
  iMapNum :: int

text \<open>The part of a sprite from a frame on.\<close>

definition sprite_frame :: "u8 list option \<Rightarrow> int \<Rightarrow> ('s, u8 list option) M" where
  "sprite_frame spr n =
     bindM (PAL_SpriteGetFrame spr n) (\<lambda>r. ret (case (r, spr) of (Some k, Some b) \<Rightarrow> Some (drop k b) | _ \<Rightarrow> None))"

definition PAL_MapGetTileBitmap :: "u8 \<Rightarrow> u8 \<Rightarrow> u8 \<Rightarrow> u8 \<Rightarrow> PALMAP option \<Rightarrow> ('s, u8 list option) M" where
  "PAL_MapGetTileBitmap x y h ucLayer lpMap = (case lpMap of None \<Rightarrow> ret None
     | Some m \<Rightarrow>
       if x \<ge> 64 \<or> y \<ge> 128 \<or> h > 1 then ret None
       else let d = Tiles m (unat y) (unat x) (unat h); e = drop_bit 16 d in
         if ucLayer = 0 then sprite_frame (Some (pTileSprite m)) (uint ((d AND 0xff) OR (drop_bit 4 d AND 0x100)))
         else sprite_frame (Some (pTileSprite m)) (uint ((e AND 0xff) OR (drop_bit 4 e AND 0x100)) - 1))"

definition PAL_MapTileIsBlocked :: "u8 \<Rightarrow> u8 \<Rightarrow> u8 \<Rightarrow> PALMAP option \<Rightarrow> bool" where
  "PAL_MapTileIsBlocked x y h lpMap = (case lpMap of None \<Rightarrow> True
     | Some m \<Rightarrow> if x \<ge> 64 \<or> y \<ge> 128 \<or> h > 1 then True
         else drop_bit 13 (Tiles m (unat y) (unat x) (unat h) AND 0x2000) \<noteq> 0)"

definition PAL_MapGetTileHeight :: "u8 \<Rightarrow> u8 \<Rightarrow> u8 \<Rightarrow> u8 \<Rightarrow> PALMAP option \<Rightarrow> u8" where
  "PAL_MapGetTileHeight x y h ucLayer lpMap = (case lpMap of None \<Rightarrow> 0
     | Some m \<Rightarrow> if y \<ge> 128 \<or> x \<ge> 64 \<or> h > 1 then 0
         else let d = Tiles m (unat y) (unat x) (unat h); d = (if ucLayer \<noteq> 0 then drop_bit 16 d else d) in
           ucast (drop_bit 8 d AND 0xf))"

record SDL_Rect =
  rect_x :: int
  rect_y :: int
  rect_w :: int
  rect_h :: int

abbreviation (input) byte_of :: "int \<Rightarrow> u8" where "byte_of \<equiv> word_of_int"

text \<open>One tile of the loop; a missing tile of the bottom layer is replaced by the one in the corner.\<close>

definition blit_tile :: "PALMAP option \<Rightarrow> u8 \<Rightarrow> int \<Rightarrow> int \<Rightarrow> int \<Rightarrow> int \<Rightarrow> int \<Rightarrow> (surface option, unit) M" where
  "blit_tile lpMap ucLayer x y h xPos yPos =
     bindM (PAL_MapGetTileBitmap (byte_of x) (byte_of y) (byte_of h) ucLayer lpMap) (\<lambda>bm.
     case bm of Some b \<Rightarrow> seqM (PAL_RLEBlitToSurface (Some b) (PAL_XY xPos yPos)) (ret ())
     | None \<Rightarrow> if ucLayer \<noteq> 0 then ret ()
         else bindM (PAL_MapGetTileBitmap 0 0 0 ucLayer lpMap) (\<lambda>bm.
           seqM (PAL_RLEBlitToSurface bm (PAL_XY xPos yPos)) (ret ())))"

definition PAL_MapBlitToSurface :: "PALMAP option \<Rightarrow> SDL_Rect \<Rightarrow> u8 \<Rightarrow> (surface option, unit) M" where
  "PAL_MapBlitToSurface lpMap r ucLayer =
     (let sy = rect_y r sdiv 16 - 1; dy = (rect_y r + rect_h r) sdiv 16 + 2;
          sx = rect_x r sdiv 32 - 1; dx = (rect_x r + rect_w r) sdiv 32 + 2 in
      forM [sy..dy - 1] (\<lambda>y. forM [0, 1] (\<lambda>h. forM [sx..dx - 1] (\<lambda>x.
        blit_tile lpMap ucLayer x y h
          (sx * 32 + h * 16 - 16 - rect_x r + (x - sx) * 32)
          (sy * 16 - 8 - rect_y r + ((y - sy) * 2 + h) * 8)))))"

text \<open>
  Loading: \<open>junk\<close> is what fresh memory holds; no memory is there for a negative size. The 65536 bytes of the
  tiles are little-endian words.
\<close>

definition tiles_of :: "u8 list \<Rightarrow> nat \<Rightarrow> nat \<Rightarrow> nat \<Rightarrow> u32" where
  "tiles_of b y x h = read_uint b (4 * ((y * 64 + x) * 2 + h)) 0"

definition PAL_LoadMap :: "(nat \<Rightarrow> u8) \<Rightarrow> int \<Rightarrow> u8 list option \<Rightarrow> u8 list option \<Rightarrow> ('s, PALMAP option) M" where
  "PAL_LoadMap junk num fpMapMKF fpGopMKF =
     bindM (PAL_MKFGetChunkCount fpMapMKF) (\<lambda>n.
     if num \<ge> sint n then ret None
     else bindM (PAL_MKFGetChunkCount fpGopMKF) (\<lambda>k.
     if num \<ge> sint k \<or> num \<le> 0 then ret None
     else bindM (PAL_MKFGetChunkSize (word_of_int num) fpMapMKF) (\<lambda>len.
       if len < 0 then ret None
       else bindM (PAL_MKFReadChunk (Some (map junk [0..<nat len])) (word_of_int len) (word_of_int num) fpMapMKF) (\<lambda>(r, buf).
       if r < 0 then ret None
       else bindM (on_buffer (map junk [0..<65536]) (Decompress buf 65536)) (\<lambda>(r, tiles).
       if r < 0 then ret None
       else bindM (PAL_MKFGetChunkSize (word_of_int num) fpGopMKF) (\<lambda>len.
       if len \<le> 0 then ret None
       else bindM (PAL_MKFReadChunk (Some (map junk [0..<nat len])) (word_of_int len) (word_of_int num) fpGopMKF) (\<lambda>(r, spr).
       if r < 0 then ret None
       else ret (Some \<lparr>Tiles = tiles_of tiles, pTileSprite = the spr, iMapNum = num\<rparr>))))))))"

section \<open>The figures\<close>

abbreviation (input) kDirSouth :: u16 where "kDirSouth \<equiv> 0"
abbreviation (input) kDirWest :: u16 where "kDirWest \<equiv> 1"
abbreviation (input) kDirNorth :: u16 where "kDirNorth \<equiv> 2"
abbreviation (input) kDirEast :: u16 where "kDirEast \<equiv> 3"
abbreviation (input) kDirUnknown :: u16 where "kDirUnknown \<equiv> 4"
abbreviation (input) kObjStateBlocker :: int where "kObjStateBlocker \<equiv> 2"
abbreviation (input) MAX_SCENES :: nat where "MAX_SCENES \<equiv> 300"
abbreviation (input) MAX_SPRITE_TO_DRAW :: nat where "MAX_SPRITE_TO_DRAW \<equiv> 2048"

record EVENTOBJECT =
  sVanishTime :: u16
  ob_x :: u16
  ob_y :: u16
  sLayer :: u16
  sState :: u16
  nSpriteFrames :: u16
  wDirection :: u16
  wCurrentFrameNum :: u16
  nSpriteFramesAuto :: u16

record PARTY =
  pt_x :: u16
  pt_y :: u16
  wFrame :: u16

record TRAIL =
  tr_x :: u16
  tr_y :: u16
  tr_dir :: u16

record SPRITE_TO_DRAW =
  lpSpriteFrame :: "u8 list"
  sprite_pos :: PAL_POS
  iLayer :: int

text \<open>
  The roles of the party are in \<open>party_roles\<close>, the state of Pal_State. \<open>rgScene\<close> is the member
  \<open>wEventObjectIndex\<close> of the scenes, \<open>dir\<close> the direction of the arrow keys, \<open>sprites_to_draw\<close> the used part
  of the array; the sprites of players and event objects and the map are those of the loaded resources.
\<close>

record scene =
  party_roles :: pal
  viewport :: PAL_POS
  partyoffset :: PAL_POS
  wLayer :: u16
  rgPartyPos :: "nat \<Rightarrow> PARTY"
  rgTrail :: "nat \<Rightarrow> TRAIL"
  wPartyDirection :: u16
  wNumScene :: u16
  nFollower :: u16
  wScreenWave :: u16
  sWaveProgression :: u16
  wGlobalChaseRange :: u16
  rgScene :: "nat \<Rightarrow> u16"
  lprgEventObject :: "EVENTOBJECT list"
  lpMap :: "PALMAP option"
  rglpPlayerSprite :: "nat \<Rightarrow> u8 list option"
  lppEventObjectSprites :: "u8 list option list"
  key_dir :: u16
  s_iThisStepFrame :: int
  wave_index :: nat
  sprites_to_draw :: "SPRITE_TO_DRAW list"
  gpScreen :: "surface option"

text \<open>A member of the party, a place of the trail, an event object, a scene.\<close>

definition upd_party :: "nat \<Rightarrow> (PARTY \<Rightarrow> PARTY) \<Rightarrow> (scene, unit) M" where
  "upd_party i f = (if i < MAX_PLAYABLE_PLAYER_ROLES
     then modM (\<lambda>g. g\<lparr>rgPartyPos := (rgPartyPos g)(i := f (rgPartyPos g i))\<rparr>) else fail OutOfBounds)"

definition get_party :: "nat \<Rightarrow> (scene, PARTY) M" where
  "get_party i = (if i < MAX_PLAYABLE_PLAYER_ROLES then getM (\<lambda>g. rgPartyPos g i) else fail OutOfBounds)"

definition event_object :: "nat \<Rightarrow> (scene, EVENTOBJECT) M" where
  "event_object i = bindM (getM (\<lambda>g. i < length (lprgEventObject g))) (\<lambda>ok.
     if ok then getM (\<lambda>g. lprgEventObject g ! i) else fail OutOfBounds)"

definition upd_object :: "nat \<Rightarrow> (EVENTOBJECT \<Rightarrow> EVENTOBJECT) \<Rightarrow> (scene, unit) M" where
  "upd_object i f = bindM (event_object i) (\<lambda>p. modM (\<lambda>g. g\<lparr>lprgEventObject := (lprgEventObject g)[i := f p]\<rparr>))"

text \<open>\<open>rgScene[wNumScene - 1].wEventObjectIndex\<close> and \<open>rgScene[wNumScene].wEventObjectIndex\<close>.\<close>

definition scene_objects :: "(scene, nat \<times> nat) M" where
  "scene_objects = bindM (getM wNumScene) (\<lambda>n.
     if 0 < unat n \<and> unat n < MAX_SCENES then getM (\<lambda>g. (unat (rgScene g (unat n - 1)), unat (rgScene g (unat n))))
     else fail OutOfBounds)"

text \<open>The position of the party.\<close>

definition party_x :: "scene \<Rightarrow> int" where "party_x g = PAL_X (viewport g) + PAL_X (partyoffset g)"
definition party_y :: "scene \<Rightarrow> int" where "party_y g = PAL_Y (viewport g) + PAL_Y (partyoffset g)"

section \<open>Obstacles\<close>

text \<open>The tile at a position: column, line and half line.\<close>

definition tile_at :: "int \<Rightarrow> int \<Rightarrow> int \<times> int \<times> int" where
  "tile_at px py =
     (let x = px sdiv 32; y = py sdiv 16; xr = px smod 32; yr = py smod 16 in
      if xr + yr * 2 \<ge> 16 then
        (if xr + yr * 2 \<ge> 48 then (x + 1, y + 1, 0)
         else if 32 - xr + yr * 2 < 16 then (x + 1, y, 0)
         else if 32 - xr + yr * 2 < 48 then (x, y, 1)
         else (x, y + 1, 0))
      else (x, y, 0))"

text \<open>The event objects from number \<open>i\<close> on.\<close>

primrec objects_block :: "nat \<Rightarrow> nat \<Rightarrow> int \<Rightarrow> int \<Rightarrow> u16 \<Rightarrow> (scene, bool) M" where
  "objects_block 0 i px py wSelfObject = ret False"
| "objects_block (Suc n) i px py wSelfObject =
     bindM (event_object i) (\<lambda>p.
     if int i = uint wSelfObject - 1 then objects_block n (i + 1) px py wSelfObject
     else if sint (sState p) \<ge> kObjStateBlocker \<and> \<bar>uint (ob_x p) - px\<bar> + \<bar>uint (ob_y p) - py\<bar> * 2 < 16 then ret True
     else objects_block n (i + 1) px py wSelfObject)"

definition PAL_CheckObstacle :: "PAL_POS \<Rightarrow> bool \<Rightarrow> u16 \<Rightarrow> (scene, bool) M" where
  "PAL_CheckObstacle pos fCheckEventObjects wSelfObject =
     (let px = PAL_X pos; py = PAL_Y pos in
      if px < 0 \<or> px \<ge> 2048 \<or> py < 0 \<or> py \<ge> 2048 then ret True
      else let (x, y, h) = tile_at px py in
        bindM (getM (\<lambda>g. PAL_MapTileIsBlocked (byte_of x) (byte_of y) (byte_of h) (lpMap g))) (\<lambda>blocked.
        if blocked then ret True
        else if fCheckEventObjects then
          bindM scene_objects (\<lambda>(a, b). objects_block (b - a) a px py wSelfObject)
        else ret False))"

section \<open>Walking\<close>

text \<open>\<open>rgwWalkFrames[rgParty[i].wPlayerRole]\<close>.\<close>

definition walk_frames :: "nat \<Rightarrow> (scene, u16) M" where
  "walk_frames i = (if i < MAX_PLAYABLE_PLAYER_ROLES
     then bindM (getM (\<lambda>g. rgParty (party_roles g) i)) (\<lambda>r. zoom party_roles (\<lambda>p g. g\<lparr>party_roles := p\<rparr>) (role_get rgwWalkFrames r))
     else fail OutOfBounds)"

definition short :: "int \<Rightarrow> u16" where "short = word_of_int"

text \<open>A position of the trail as seen on the screen.\<close>

definition trail_screen :: "nat \<Rightarrow> scene \<Rightarrow> u16 \<times> u16" where
  "trail_screen k g = (short (uint (tr_x (rgTrail g k)) - PAL_X (viewport g)), short (uint (tr_y (rgTrail g k)) - PAL_Y (viewport g)))"

definition place_party :: "nat \<Rightarrow> u16 \<times> u16 \<Rightarrow> (scene, unit) M" where
  "place_party i p = upd_party i (\<lambda>e. e\<lparr>pt_x := fst p, pt_y := snd p\<rparr>)"

text \<open>The members behind the leader.\<close>

definition follow_trail :: "nat \<Rightarrow> int \<Rightarrow> (scene, unit) M" where
  "follow_trail i iStepFrameLeader =
     bindM (getM (trail_screen 1)) (\<lambda>t.
     bindM (getM (\<lambda>g. tr_dir (rgTrail g 1))) (\<lambda>d.
     seqM (place_party i t)
    (seqM (upd_party i (\<lambda>e. if i = 2
        then e\<lparr>pt_x := pt_x e + short (if d = kDirEast \<or> d = kDirWest then -16 else 16), pt_y := pt_y e + 8\<rparr>
        else e\<lparr>pt_x := pt_x e + short (if d = kDirWest \<or> d = kDirSouth then 16 else -16),
               pt_y := pt_y e + short (if d = kDirWest \<or> d = kDirNorth then 8 else -8)\<rparr>))
    (bindM (get_party i) (\<lambda>e.
     bindM (getM viewport) (\<lambda>v.
     bindM (PAL_CheckObstacle (PAL_XY (sint (pt_x e) + PAL_X v) (sint (pt_y e) + PAL_Y v)) True 0) (\<lambda>obstacle.
     seqM (whenM obstacle (place_party i t))
    (bindM (walk_frames i) (\<lambda>n.
     bindM (getM (\<lambda>g. uint (tr_dir (rgTrail g 2)))) (\<lambda>d2.
     bindM (getM s_iThisStepFrame) (\<lambda>f.
       upd_party i (\<lambda>e. e\<lparr>wFrame := short (if n = 4 then d2 * 4 + f else d2 * 3 + iStepFrameLeader)\<rparr>))))))))))))"

abbreviation (input) members :: "scene \<Rightarrow> nat list" where
  "members g \<equiv> [1..<nat (sint (wMaxPartyMemberIndex (party_roles g))) + 1]"

text \<open>The follower, a member behind the party; \<open>k\<close> is its number.\<close>

definition walk_follower :: "nat \<Rightarrow> int \<Rightarrow> (scene, unit) M" where
  "walk_follower k iStepFrameFollower =
     bindM (getM nFollower) (\<lambda>n.
     whenM (n > 0)
      (bindM (getM (trail_screen 3)) (\<lambda>t.
       bindM (getM (\<lambda>g. uint (tr_dir (rgTrail g 3)))) (\<lambda>d3.
       seqM (place_party k t) (upd_party k (\<lambda>e. e\<lparr>wFrame := short (d3 * 3 + iStepFrameFollower)\<rparr>))))))"

definition walk_leader :: "int \<Rightarrow> int \<Rightarrow> (scene, unit) M" where
  "walk_leader f iStepFrameLeader =
     seqM (bindM (getM partyoffset) (\<lambda>v. place_party 0 (short (PAL_X v), short (PAL_Y v))))
    (bindM (walk_frames 0) (\<lambda>n.
     bindM (getM (\<lambda>g. uint (wPartyDirection g))) (\<lambda>d.
       upd_party 0 (\<lambda>e. e\<lparr>wFrame := short (if n = 4 then d * 4 + f else d * 3 + iStepFrameLeader)\<rparr>))))"

definition standing :: "nat \<Rightarrow> (scene \<Rightarrow> u16) \<Rightarrow> (scene, unit) M" where
  "standing i dir =
     bindM (walk_frames i) (\<lambda>n.
     bindM (getM (\<lambda>g. uint (dir g))) (\<lambda>d.
       upd_party i (\<lambda>e. e\<lparr>wFrame := short (d * (if n = 0 then 3 else uint n))\<rparr>)))"

abbreviation (input) party_last :: "scene \<Rightarrow> nat" where
  "party_last g \<equiv> unat (wMaxPartyMemberIndex (party_roles g)) + 1"

definition PAL_UpdatePartyGestures :: "bool \<Rightarrow> (scene, unit) M" where
  "PAL_UpdatePartyGestures fWalking =
     (if fWalking then
       seqM (modM (\<lambda>g. g\<lparr>s_iThisStepFrame := (s_iThisStepFrame g + 1) smod 4\<rparr>))
      (bindM (getM s_iThisStepFrame) (\<lambda>f.
       let odd_step = (f AND 1 \<noteq> 0);
           iStepFrameLeader = (if odd_step then (f + 1) sdiv 2 else 0);
           iStepFrameFollower = (if odd_step then 3 - iStepFrameLeader else 0) in
       seqM (walk_leader f iStepFrameLeader)
      (seqM (bindM (getM members) (\<lambda>ms. forM ms (\<lambda>i. follow_trail i iStepFrameLeader)))
            (bindM (getM party_last) (\<lambda>l. walk_follower l iStepFrameFollower)))))
     else
       seqM (standing 0 wPartyDirection)
      (seqM (bindM (getM members) (\<lambda>ms. forM ms (\<lambda>i. standing i (\<lambda>g. tr_dir (rgTrail g 2)))))
      (seqM (bindM (getM nFollower) (\<lambda>n. whenM (n > 0)
              (bindM (getM party_last) (\<lambda>l. bindM (getM (\<lambda>g. uint (tr_dir (rgTrail g 3)))) (\<lambda>d3.
                upd_party l (\<lambda>e. e\<lparr>wFrame := short (d3 * 3)\<rparr>))))))
            (modM (\<lambda>g. g\<lparr>s_iThisStepFrame := (s_iThisStepFrame g AND 2) XOR 2\<rparr>)))))"

text \<open>The offsets of one step in a direction.\<close>

definition step_x :: "u16 \<Rightarrow> int" where "step_x d = (if d = kDirWest \<or> d = kDirSouth then -16 else 16)"
definition step_y :: "u16 \<Rightarrow> int" where "step_y d = (if d = kDirWest \<or> d = kDirNorth then -8 else 8)"

definition store_trail :: "u16 \<Rightarrow> int \<Rightarrow> int \<Rightarrow> (scene, unit) M" where
  "store_trail d x y =
     modM (\<lambda>g. g\<lparr>rgTrail := (\<lambda>i. if i = 0 then \<lparr>tr_x = short x, tr_y = short y, tr_dir = d\<rparr>
       else if i \<le> 4 then rgTrail g (i - 1) else rgTrail g i)\<rparr>)"

definition PAL_UpdateParty :: "(scene, unit) M" where
  "PAL_UpdateParty =
     bindM (getM key_dir) (\<lambda>d.
     bindM (if d \<noteq> kDirUnknown then
       bindM (getM party_x) (\<lambda>xSource. bindM (getM party_y) (\<lambda>ySource.
       seqM (modM (\<lambda>g. g\<lparr>wPartyDirection := d\<rparr>))
      (bindM (PAL_CheckObstacle (PAL_XY (xSource + step_x d) (ySource + step_y d)) True 0) (\<lambda>obstacle.
       if obstacle then ret False
       else seqM (store_trail d xSource ySource)
           (seqM (modM (\<lambda>g. g\<lparr>viewport := PAL_XY (PAL_X (viewport g) + step_x d) (PAL_Y (viewport g) + step_y d)\<rparr>))
                 (ret True))))))
      else ret False) PAL_UpdatePartyGestures)"

section \<open>Drawing the figures\<close>

text \<open>res.c: the resource manager is there, the sprites are those it has loaded.\<close>

abbreviation (input) MAX_PLAYERS_IN_PARTY :: u8 where "MAX_PLAYERS_IN_PARTY \<equiv> 3"

definition PAL_GetPlayerSprite :: "u8 \<Rightarrow> scene \<Rightarrow> u8 list option" where
  "PAL_GetPlayerSprite bPlayerIndex g =
     (if bPlayerIndex > MAX_PLAYERS_IN_PARTY then None else rglpPlayerSprite g (unat bPlayerIndex))"

definition PAL_GetEventObjectSprite :: "u16 \<Rightarrow> (scene, u8 list option) M" where
  "PAL_GetEventObjectSprite wEventObjectID =
     bindM scene_objects (\<lambda>(a, _).
     let k = unat (wEventObjectID - of_nat a - 1) in
     getM (\<lambda>g. if length (lppEventObjectSprites g) \<le> k then None else lppEventObjectSprites g ! k))"

definition PAL_AddSpriteToDraw :: "u8 list \<Rightarrow> int \<Rightarrow> int \<Rightarrow> int \<Rightarrow> (scene, unit) M" where
  "PAL_AddSpriteToDraw b x y layer =
     bindM (getM (\<lambda>g. length (sprites_to_draw g) < MAX_SPRITE_TO_DRAW)) (\<lambda>ok.
     if ok then modM (\<lambda>g. g\<lparr>sprites_to_draw := sprites_to_draw g @
         [\<lparr>lpSpriteFrame = b, sprite_pos = PAL_XY x y, iLayer = layer\<rparr>]\<rparr>)
     else fail AssertFail)"

text \<open>
  The tiles that are scanned around a position of the loop: column, line and half line. Case 1 follows case 0
  and keeps its line.
\<close>

definition scan_pos :: "int \<Rightarrow> int \<Rightarrow> int \<Rightarrow> nat \<Rightarrow> int \<times> int \<times> int" where
  "scan_pos sh x y i =
     (if i = 0 then (x, y, sh)
      else if i = 1 then (x - 1, y, sh)
      else if i = 2 then (if sh \<noteq> 0 then x else x - 1, if sh \<noteq> 0 then y + 1 else y, 1 - sh)
      else if i = 3 then (x + 1, y, sh)
      else (if sh \<noteq> 0 then x + 1 else x, if sh \<noteq> 0 then y + 1 else y, 1 - sh))"

definition cover_tile :: "PAL_POS \<Rightarrow> int \<Rightarrow> int \<Rightarrow> int \<Rightarrow> int \<Rightarrow> int \<Rightarrow> (scene, unit) M" where
  "cover_tile v sy dx dy dh l =
     bindM (getM lpMap) (\<lambda>m.
     bindM (PAL_MapGetTileBitmap (byte_of dx) (byte_of dy) (byte_of dh) (byte_of l) m) (\<lambda>lpTile.
     let iTileHeight = sint (PAL_MapGetTileHeight (byte_of dx) (byte_of dy) (byte_of dh) (byte_of l) m) in
     case lpTile of None \<Rightarrow> ret ()
     | Some b \<Rightarrow>
       whenM (iTileHeight > 0 \<and> (dy + iTileHeight) * 16 + dh * 8 \<ge> sy)
         (PAL_AddSpriteToDraw b (dx * 32 + dh * 16 - 16 - PAL_X v)
            (dy * 16 + dh * 8 + 7 + l + iTileHeight * 8 - PAL_Y v) (iTileHeight * 8 + l))))"

definition PAL_CalcCoverTiles :: "SPRITE_TO_DRAW \<Rightarrow> (scene, unit) M" where
  "PAL_CalcCoverTiles s =
     bindM (getM viewport) (\<lambda>v.
     bindM (PAL_RLEGetWidth (Some (lpSpriteFrame s))) (\<lambda>w.
     bindM (PAL_RLEGetHeight (Some (lpSpriteFrame s))) (\<lambda>h.
     let sx = PAL_X v + PAL_X (sprite_pos s); sy = PAL_Y v + PAL_Y (sprite_pos s);
         sh = (if sx smod 32 \<noteq> 0 then 1 else 0);
         x0 = (sx - int w div 2) sdiv 32 in
     forM [(sy - int h - 15) sdiv 16..sy sdiv 16] (\<lambda>y.
     forM [x0..(sx + int w div 2) sdiv 32] (\<lambda>x.
     forM (if x = x0 then [0..<5] else [3..<5]) (\<lambda>i.
       case scan_pos sh x y i of (dx, dy, dh) \<Rightarrow> forM [0, 1] (cover_tile v sy dx dy dh)))))))"

text \<open>A figure with the tiles that cover it.\<close>

definition add_figure :: "u8 list \<Rightarrow> int \<Rightarrow> int \<Rightarrow> int \<Rightarrow> (scene, unit) M" where
  "add_figure b x y layer =
     seqM (PAL_AddSpriteToDraw b x y layer) (bindM (getM (\<lambda>g. last (sprites_to_draw g))) PAL_CalcCoverTiles)"

definition add_player :: "int \<Rightarrow> (scene, unit) M" where
  "add_player i =
     bindM (get_party (nat i)) (\<lambda>p.
     bindM (getM (PAL_GetPlayerSprite (byte_of i))) (\<lambda>spr.
     bindM (sprite_frame spr (uint (wFrame p))) (\<lambda>bm.
     case bm of None \<Rightarrow> ret ()
     | Some b \<Rightarrow>
       bindM (PAL_RLEGetWidth (Some b)) (\<lambda>w.
       bindM (getM (\<lambda>g. uint (wLayer g))) (\<lambda>layer.
         add_figure b (sint (pt_x p) - int w div 2) (sint (pt_y p) + layer + 10) (layer + 6))))))"

text \<open>The number of the frame of an event object.\<close>

definition object_frame :: "EVENTOBJECT \<Rightarrow> int" where
  "object_frame p =
     (let i = uint (wCurrentFrameNum p);
          i = (if nSpriteFrames p = 3 then (if i = 2 then 0 else if i = 3 then 2 else i) else i) in
      uint (wDirection p) * uint (nSpriteFrames p) + i)"

definition add_object :: "nat \<Rightarrow> (scene, unit) M" where
  "add_object i =
     bindM (event_object i) (\<lambda>p.
     if sState p = 0 \<or> 0 < sint (sVanishTime p) \<or> sint (sState p) < 0 then ret ()
     else bindM (PAL_GetEventObjectSprite (of_nat i + 1)) (\<lambda>spr.
       if spr = None then ret ()
       else bindM (sprite_frame spr (object_frame p)) (\<lambda>bm.
         case bm of None \<Rightarrow> ret ()
         | Some b \<Rightarrow>
           bindM (PAL_RLEGetWidth (Some b)) (\<lambda>w.
           bindM (getM viewport) (\<lambda>v.
           let x = sint (ob_x p) - PAL_X v - int w div 2 in
           if x \<ge> 320 \<or> x < - int w then ret ()
           else bindM (PAL_RLEGetHeight (Some b)) (\<lambda>h.
             let y = sint (ob_y p) - PAL_Y v + (sint (sLayer p) * 8 + 9);
                 vy = y - int h - sint (sLayer p) * 8 + 2 in
             if vy \<ge> 200 \<or> vy < - int h then ret ()
             else add_figure b x y (sint (sLayer p) * 8 + 2)))))))"

text \<open>
  The bubble sort: \<open>n\<close> comparisons from element \<open>y\<close> on with the flag \<open>fSwap\<close>, and the rounds from \<open>x\<close> on.
\<close>

definition sprite_y :: "SPRITE_TO_DRAW \<Rightarrow> int" where "sprite_y s = PAL_Y (sprite_pos s)"

primrec bubble :: "nat \<Rightarrow> nat \<Rightarrow> SPRITE_TO_DRAW list \<times> bool \<Rightarrow> SPRITE_TO_DRAW list \<times> bool" where
  "bubble 0 y s = s"
| "bubble (Suc n) y s =
     (let (l, fSwap) = s in
      bubble n (y + 1) (if sprite_y (l ! y) > sprite_y (l ! (y + 1)) then (l[y := l ! (y + 1), y + 1 := l ! y], True)
                        else (l, fSwap)))"

primrec sort_rounds :: "nat \<Rightarrow> nat \<Rightarrow> SPRITE_TO_DRAW list \<Rightarrow> SPRITE_TO_DRAW list" where
  "sort_rounds 0 x l = l"
| "sort_rounds (Suc k) x l =
     (let (l, fSwap) = bubble (length l - 1 - x) 0 (l, False) in if fSwap then sort_rounds k (x + 1) l else l)"

definition sort_sprites :: "SPRITE_TO_DRAW list \<Rightarrow> SPRITE_TO_DRAW list" where
  "sort_sprites l = sort_rounds (length l - 1) 0 l"

definition on_screen :: "(surface option, 'a) M \<Rightarrow> (scene, 'a) M" where
  "on_screen = zoom gpScreen (\<lambda>d g. g\<lparr>gpScreen := d\<rparr>)"

definition draw_sprite :: "SPRITE_TO_DRAW \<Rightarrow> (scene, unit) M" where
  "draw_sprite p =
     bindM (PAL_RLEGetHeight (Some (lpSpriteFrame p))) (\<lambda>h.
     seqM (on_screen (PAL_RLEBlitToSurface (Some (lpSpriteFrame p))
            (PAL_XY (PAL_X (sprite_pos p)) (PAL_Y (sprite_pos p) - int h - iLayer p))))
          (ret ()))"

definition PAL_SceneDrawSprites :: "(scene, unit) M" where
  "PAL_SceneDrawSprites =
     seqM (modM (\<lambda>g. g\<lparr>sprites_to_draw := []\<rparr>))
    (seqM (bindM (getM (\<lambda>g. sint (wMaxPartyMemberIndex (party_roles g)) + uint (nFollower g))) (\<lambda>n. forM [0..n] add_player))
    (seqM (bindM scene_objects (\<lambda>(a, b). forM [a..<b] add_object))
    (seqM (modM (\<lambda>g. g\<lparr>sprites_to_draw := sort_sprites (sprites_to_draw g)\<rparr>))
          (bindM (getM sprites_to_draw) (\<lambda>l. forM l draw_sprite)))))"

section \<open>Waves\<close>

text \<open>The sums \<open>a\<close> of the loop that computes the offsets; the second half of the offsets mirrors the first.\<close>

primrec wave_sums :: "nat \<Rightarrow> int \<Rightarrow> int \<Rightarrow> int list" where
  "wave_sums 0 a b = []"
| "wave_sums (Suc n) a b = (a + (b - 8)) # wave_sums n (a + (b - 8)) (b - 8)"

definition wave :: "u16 \<Rightarrow> int list" where
  "wave w = (let half = map (\<lambda>a. (a * uint w) sdiv 256) (wave_sums 16 0 68) in half @ map (\<lambda>x. 320 - x) half)"

text \<open>The three copies of a line: its first \<open>b\<close> bytes go behind the others.\<close>

definition wave_line :: "nat \<Rightarrow> int \<Rightarrow> (surface, unit) M" where
  "wave_line p b =
     whenM (b > 0)
      (bindM (getM (\<lambda>d. b \<le> 320 \<and> p + 320 \<le> length (pixels d))) (\<lambda>ok.
       if ok then modM (\<lambda>d. let line = take 320 (drop p (pixels d)) in
           d\<lparr>pixels := take p (pixels d) @ drop (nat b) line @ take (nat b) line @ drop (p + 320) (pixels d)\<rparr>)
       else fail OutOfBounds))"

definition wave_screen :: "nat \<Rightarrow> u16 \<Rightarrow> (surface option, unit) M" where
  "wave_screen index w =
     bindM (getM (\<lambda>d. d = None)) (\<lambda>null.
     if null then fail NullDeref
     else zoom the (\<lambda>d _. Some d)
       (forM [0..<200] (\<lambda>i. bindM (getM pitch) (\<lambda>q. wave_line (i * q) (wave w ! ((index + i) mod 32))))))"

definition PAL_ApplyWave :: "(scene, unit) M" where
  "PAL_ApplyWave =
     seqM (modM (\<lambda>g. g\<lparr>wScreenWave := wScreenWave g + sWaveProgression g\<rparr>))
    (bindM (getM wScreenWave) (\<lambda>w.
     if w = 0 \<or> w \<ge> 256 then modM (\<lambda>g. g\<lparr>wScreenWave := 0, sWaveProgression := 0\<rparr>)
     else bindM (getM wave_index) (\<lambda>index.
       seqM (on_screen (wave_screen index w)) (modM (\<lambda>g. g\<lparr>wave_index := (index + 1) mod 32\<rparr>)))))"

text \<open>\<open>PAL_MakeScene\<close> without the fading at its end.\<close>

definition make_scene :: "(scene, unit) M" where
  "make_scene =
     bindM (getM (\<lambda>g. \<lparr>rect_x = PAL_X (viewport g), rect_y = PAL_Y (viewport g), rect_w = 320, rect_h = 200\<rparr>)) (\<lambda>r.
     bindM (getM lpMap) (\<lambda>m.
     seqM (on_screen (PAL_MapBlitToSurface m r 0))
    (seqM (on_screen (PAL_MapBlitToSurface m r 1))
    (seqM PAL_ApplyWave PAL_SceneDrawSprites))))"

section \<open>Figures that walk\<close>

definition PAL_NPCWalkOneStep :: "u16 \<Rightarrow> int \<Rightarrow> (scene, unit) M" where
  "PAL_NPCWalkOneStep wEventObjectID iSpeed =
     bindM (getM (\<lambda>g. length (lprgEventObject g))) (\<lambda>n.
     if wEventObjectID = 0 \<or> unat wEventObjectID > n then ret ()
     else upd_object (unat wEventObjectID - 1) (\<lambda>p.
       let d = wDirection p;
           p = p\<lparr>ob_x := ob_x p + short ((if d = kDirWest \<or> d = kDirSouth then -2 else 2) * iSpeed),
                 ob_y := ob_y p + short ((if d = kDirWest \<or> d = kDirNorth then -1 else 1) * iSpeed)\<rparr> in
       if nSpriteFrames p > 0 then
         p\<lparr>wCurrentFrameNum := (wCurrentFrameNum p + 1) mod (if nSpriteFrames p = 3 then 4 else nSpriteFrames p)\<rparr>
       else if nSpriteFramesAuto p > 0 then p\<lparr>wCurrentFrameNum := (wCurrentFrameNum p + 1) mod nSpriteFramesAuto p\<rparr>
       else p))"

text \<open>\<open>lprgEventObject[wEventObjectID - 1]\<close>, an \<open>int\<close> as index.\<close>

definition object_at :: "u16 \<Rightarrow> (scene, EVENTOBJECT) M" where
  "object_at w = (if w = 0 then fail OutOfBounds else event_object (unat w - 1))"

definition upd_object_at :: "u16 \<Rightarrow> (EVENTOBJECT \<Rightarrow> EVENTOBJECT) \<Rightarrow> (scene, unit) M" where
  "upd_object_at w f = (if w = 0 then fail OutOfBounds else upd_object (unat w - 1) f)"

definition PAL_NPCWalkTo :: "u16 \<Rightarrow> int \<Rightarrow> int \<Rightarrow> int \<Rightarrow> int \<Rightarrow> (scene, bool) M" where
  "PAL_NPCWalkTo wEventObjectID x y h iSpeed =
     (let tx = x * 32 + h * 16; ty = y * 16 + h * 8 in
      bindM (object_at wEventObjectID) (\<lambda>p.
      let xOffset = tx - uint (ob_x p); yOffset = ty - uint (ob_y p) in
      seqM (upd_object_at wEventObjectID (\<lambda>p. p\<lparr>wDirection :=
             (if yOffset < 0 then (if xOffset < 0 then kDirWest else kDirNorth)
              else (if xOffset < 0 then kDirSouth else kDirEast))\<rparr>))
     (seqM (if \<bar>xOffset\<bar> < iSpeed * 2 \<or> \<bar>yOffset\<bar> < iSpeed * 2
            then upd_object_at wEventObjectID (\<lambda>p. p\<lparr>ob_x := short tx, ob_y := short ty\<rparr>)
            else PAL_NPCWalkOneStep wEventObjectID iSpeed)
     (bindM (object_at wEventObjectID) (\<lambda>p.
      if uint (ob_x p) = tx \<and> uint (ob_y p) = ty
      then seqM (upd_object_at wEventObjectID (\<lambda>p. p\<lparr>wCurrentFrameNum := 0\<rparr>)) (ret True)
      else ret False)))))"

text \<open>
  \<open>PAL_MonsterChasePlayer\<close>: the position of the tile of a monster, and the four corners around it that are
  tried one after the other.
\<close>

definition tile_position :: "EVENTOBJECT \<Rightarrow> u16 \<times> u16" where
  "tile_position p = (case tile_at (uint (ob_x p)) (uint (ob_y p)) of (a, b, l) \<Rightarrow> (short (a * 32 + l * 16), short (b * 16 + l * 8)))"

definition place_object :: "u16 \<Rightarrow> u16 \<times> u16 \<Rightarrow> (scene, unit) M" where
  "place_object w t = upd_object_at w (\<lambda>p. p\<lparr>ob_x := fst t, ob_y := snd t\<rparr>)"

definition shake :: "u16 \<Rightarrow> u16 \<times> u16 \<Rightarrow> (scene, unit) M" where
  "shake w t =
     forM [(-4, 2), (-4, -2), (4, -2), (4, 2)] (\<lambda>(dx, dy).
       seqM (upd_object_at w (\<lambda>p. p\<lparr>ob_x := ob_x p + short dx, ob_y := ob_y p + short dy\<rparr>))
      (bindM (object_at w) (\<lambda>p.
       bindM (PAL_CheckObstacle (PAL_XY (uint (ob_x p)) (uint (ob_y p))) False 0) (\<lambda>obstacle.
       whenM obstacle (place_object w t)))))"

definition coin :: "int \<Rightarrow> (scene, int) M" where
  "coin x = (if x = 0 then
       bindM (zoom party_roles (\<lambda>p g. g\<lparr>party_roles := p\<rparr>) (RandomLong 0 1)) (\<lambda>r. ret (if r \<noteq> 0 then -1 else 1))
     else ret x)"

definition PAL_MonsterChasePlayer :: "u16 \<Rightarrow> u16 \<Rightarrow> u16 \<Rightarrow> bool \<Rightarrow> (scene, unit) M" where
  "PAL_MonsterChasePlayer w wSpeed wRange fFloating =
     bindM (getM (\<lambda>g. uint (wGlobalChaseRange g))) (\<lambda>range.
     bindM (if range \<noteq> 0 then
         bindM (object_at w) (\<lambda>p.
         bindM (bindM (getM party_x) (\<lambda>px. coin (px - uint (ob_x p)))) (\<lambda>x.
         bindM (bindM (getM party_y) (\<lambda>py. coin (py - uint (ob_y p)))) (\<lambda>y.
         if uint wRange * 32 * range > INT_MAX then fail Undefined
         else if \<bar>x\<bar> + \<bar>y\<bar> * 2 < uint wRange * 32 * range then
           seqM (upd_object_at w (\<lambda>p. p\<lparr>wDirection :=
             (if x < 0 then (if y < 0 then kDirWest else kDirSouth) else (if y < 0 then kDirNorth else kDirEast))\<rparr>))
          (let nx = uint (ob_x p) + sgn x * 16; ny = uint (ob_y p) + sgn y * 8 in
           if fFloating then ret (uint wSpeed)
           else bindM (PAL_CheckObstacle (PAL_XY nx ny) True w) (\<lambda>obstacle.
             seqM (whenM obstacle (place_object w (tile_position p)))
            (seqM (shake w (tile_position p)) (ret (if obstacle then 0 else uint wSpeed)))))
         else ret 0)))
       else (ret 0)) (PAL_NPCWalkOneStep w))"

end
