(* ===== verification/Pal_Scene_Props.thy ===== *)
theory Pal_Scene_Props
  imports Pal_Scene "HOL-Library.Multiset"
begin

unbundle bit_operations_syntax

text \<open>
  What the figures on the map do: they are drawn in the order of their lower edges, whoever walks with the arrow
  keys stays on free ground, and a figure that is sent to a place gets there.
\<close>

section \<open>The order of the figures\<close>

text \<open>One round of the bubble sort on the list itself.\<close>

fun sift :: "nat \<Rightarrow> SPRITE_TO_DRAW list \<Rightarrow> SPRITE_TO_DRAW list" where
  "sift (Suc n) (a # b # xs) = (if sprite_y a > sprite_y b then b # sift n (a # xs) else a # sift n (b # xs))"
| "sift n xs = xs"

lemma bubble_sift:
  "n < length xs \<Longrightarrow> bubble n (length pre) (pre @ xs, f) = (pre @ sift n xs, f \<or> sift n xs \<noteq> xs)"
proof (induction n xs arbitrary: pre f rule: sift.induct)
  case (1 n a b xs)
  have swap: "(pre @ b # b # xs)[Suc (length pre) := a] = pre @ b # a # xs"
    by (simp add: list_update_append)
  show ?case
  proof (cases "sprite_y a > sprite_y b")
    case True
    then have "bubble (Suc n) (length pre) (pre @ a # b # xs, f) = bubble n (length (pre @ [b])) ((pre @ [b]) @ a # xs, True)"
      by (simp add: nth_append swap)
    also have "\<dots> = (pre @ b # sift n (a # xs), True)"
      using 1(1) [OF True, of "pre @ [b]" True] 1(3) by simp
    finally show ?thesis using True by auto
  next
    case False
    then have "bubble (Suc n) (length pre) (pre @ a # b # xs, f) = bubble n (length (pre @ [a])) ((pre @ [a]) @ b # xs, f)"
      by (simp add: nth_append)
    also have "\<dots> = (pre @ a # sift n (b # xs), f \<or> sift n (b # xs) \<noteq> b # xs)"
      using 1(2) [OF False, of "pre @ [a]" f] 1(3) by simp
    finally show ?thesis using False by simp
  qed
qed auto

lemma mset_sift [simp]: "mset (sift n xs) = mset xs"
  by (induction n xs rule: sift.induct) auto

lemma set_sift [simp]: "set (sift n xs) = set xs"
  by (metis mset_sift set_mset_mset)

lemma length_sift [simp]: "length (sift n xs) = length xs"
  by (metis mset_sift size_mset)

lemma sift_stable: "filter (\<lambda>s. k = sprite_y s) (sift n xs) = filter (\<lambda>s. k = sprite_y s) xs"
  by (induction n xs rule: sift.induct) auto

lemma sift_append: "n < length xs \<Longrightarrow> sift n (xs @ q) = sift n xs @ q"
  by (induction n xs rule: sift.induct) auto

text \<open>A round takes the lowest figure to the end, and when it changes nothing the figures are in order.\<close>

lemma sift_last: "length xs = Suc n \<Longrightarrow> \<exists>ys m. sift n xs = ys @ [m] \<and> (\<forall>z \<in> set ys. sprite_y z \<le> sprite_y m)"
proof (induction n xs rule: sift.induct)
  case (1 n a b xs)
  have n: "length xs = n" using 1(3) by simp
  show ?case
  proof (cases "sprite_y a > sprite_y b")
    case True
    obtain ys m where s: "sift n (a # xs) = ys @ [m]" "\<forall>z \<in> set ys. sprite_y z \<le> sprite_y m"
      using 1(1) [OF True] n by auto
    have "a \<in> set (ys @ [m])" unfolding s(1) [symmetric] by simp
    then have "sprite_y b \<le> sprite_y m" using True s(2) by auto
    then show ?thesis using s True n by (intro exI [of _ "b # ys"] exI [of _ m]) simp
  next
    case False
    obtain ys m where s: "sift n (b # xs) = ys @ [m]" "\<forall>z \<in> set ys. sprite_y z \<le> sprite_y m"
      using 1(2) [OF False] n by auto
    have "b \<in> set (ys @ [m])" unfolding s(1) [symmetric] by simp
    then have "sprite_y a \<le> sprite_y m" using False s(2) by auto
    then show ?thesis using s False n by (intro exI [of _ "a # ys"] exI [of _ m]) simp
  qed
qed (auto simp: length_Suc_conv)

lemma sift_same: "sift (length xs - 1) xs = xs \<Longrightarrow> sorted (map sprite_y xs)"
proof (induction xs)
  case (Cons a xs)
  then show ?case
  proof (cases xs)
    case (Cons b ys)
    with Cons.prems have ab: "sprite_y a \<le> sprite_y b" and "sift (length xs - 1) xs = xs"
      by (auto split: if_splits)
    then have "sorted (map sprite_y xs)" using Cons.IH by simp
    then show ?thesis using ab Cons by fastforce
  qed simp
qed simp

lemma sort_rounds_sort:
  assumes "k = length p - 1" and "sorted (map sprite_y q)" and "\<forall>a \<in> set p. \<forall>b \<in> set q. sprite_y a \<le> sprite_y b"
  shows "sort_rounds k (length q) (p @ q) = sort_key sprite_y (p @ q)"
  using assms
proof (induction k arbitrary: p q)
  case 0
  then have "length p \<le> 1" by simp
  then have "sorted (map sprite_y (p @ q))" using 0 by (cases p) (auto simp: sorted_append)
  then show ?case by (simp add: sort_key_id_if_sorted)
next
  case (Suc k)
  then have p: "p \<noteq> []" by auto
  have b: "bubble (length (p @ q) - 1 - length q) 0 (p @ q, False) = (sift (length p - 1) p @ q, sift (length p - 1) p \<noteq> p)"
    using bubble_sift [of "length p - 1" "p @ q" "[]" False] sift_append [of "length p - 1" p q] p
    by (cases p) simp_all
  show ?case
  proof (cases "sift (length p - 1) p = p")
    case True
    then have "sorted (map sprite_y (p @ q))" using Suc.prems sift_same by (auto simp: sorted_append)
    then show ?thesis using True b by (simp add: sort_key_id_if_sorted)
  next
    case False
    obtain ys m where s: "sift (length p - 1) p = ys @ [m]" "\<forall>z \<in> set ys. sprite_y z \<le> sprite_y m"
      using sift_last [of p "length p - 1"] p by auto
    have mem: "set (ys @ [m]) = set p" and len: "length (ys @ [m]) = length p" unfolding s(1) [symmetric] by simp_all
    have sorted: "sorted (map sprite_y (m # q))" using Suc.prems mem by auto
    have below: "\<forall>a \<in> set ys. \<forall>b \<in> set (m # q). sprite_y a \<le> sprite_y b" using Suc.prems mem s(2) by auto
    have "sort_rounds (Suc k) (length q) (p @ q) = sort_rounds k (length (m # q)) (ys @ m # q)"
      using b False s(1) by simp
    also have "\<dots> = sort_key sprite_y (ys @ m # q)"
      by (rule Suc.IH [OF _ sorted below]) (use Suc.prems(1) len in simp)
    also have "\<dots> = sort_key sprite_y (p @ q)"
    proof (rule properties_for_sort_key)
      have "mset (ys @ [m]) = mset p" unfolding s(1) [symmetric] by simp
      then show "mset (sort_key sprite_y (p @ q)) = mset (ys @ m # q)" by simp
      have f: "filter (\<lambda>x. j = sprite_y x) (ys @ [m]) = filter (\<lambda>x. j = sprite_y x) p" for j
        unfolding s(1) [symmetric] by (rule sift_stable)
      then show "filter (\<lambda>x. sprite_y j = sprite_y x) (sort_key sprite_y (p @ q)) = filter (\<lambda>x. sprite_y j = sprite_y x) (ys @ m # q)" for j
        using f [of "sprite_y j"] sort_key_stable [of sprite_y "sprite_y j" "p @ q"]
        by (simp add: eq_commute [of "sprite_y j"] split: if_splits)
      show "sorted (map sprite_y (sort_key sprite_y (p @ q)))" by simp
    qed
    finally show ?thesis .
  qed
qed

text \<open>
  C16. The bubble sort of the figures and of the tiles that cover them, with its early end, is the stable sort by
  the vertical position: what is drawn later is further down, and of two at the same height the one that was
  added later.
\<close>

theorem sprites_in_order: "sort_sprites l = sort_key sprite_y l"
  using sort_rounds_sort [of "length l - 1" l "[]"] by (simp add: sort_sprites_def)

section \<open>Positions\<close>

lemma low_half: "(0xffff :: u32) = mask 16"
  by (simp add: mask_eq_exp_minus_1)

lemma high_half: "(0xffff0000 :: u32) = push_bit 16 (mask 16)"
  by (simp add: mask_eq_exp_minus_1)

lemma PAL_X_word: "PAL_X (PAL_XY x y) = sint (word_of_int x :: u16)"
proof -
  have "ucast (PAL_XY x y AND 0xffff) = (word_of_int x :: u16)"
    unfolding PAL_XY_def low_half high_half by (rule bit_word_eqI) (auto simp: bit_simps)
  then show ?thesis by (simp add: PAL_X_def)
qed

lemma PAL_Y_word: "PAL_Y (PAL_XY x y) = sint (word_of_int y :: u16)"
proof -
  have "ucast (drop_bit 16 (PAL_XY x y) AND 0xffff) = (word_of_int y :: u16)"
    unfolding PAL_XY_def low_half high_half by (rule bit_word_eqI) (auto simp: bit_simps)
  then show ?thesis by (simp add: PAL_Y_def)
qed

lemma sint_short: "-32768 \<le> x \<Longrightarrow> x < 32768 \<Longrightarrow> sint (word_of_int x :: u16) = x"
  by (simp add: signed_of_int signed_take_bit_int_eq_self)

lemma PAL_X_XY [simp]: "-32768 \<le> x \<Longrightarrow> x < 32768 \<Longrightarrow> PAL_X (PAL_XY x y) = x"
  by (simp add: PAL_X_word sint_short)

lemma PAL_Y_XY [simp]: "-32768 \<le> y \<Longrightarrow> y < 32768 \<Longrightarrow> PAL_Y (PAL_XY x y) = y"
  by (simp add: PAL_Y_word sint_short)

lemma PAL_X_bounds: "-32768 \<le> PAL_X p" "PAL_X p < 32768"
  using sint_range_size [of "ucast (p AND 0xffff) :: u16"] by (simp_all add: PAL_X_def word_size)

lemma PAL_Y_bounds: "-32768 \<le> PAL_Y p" "PAL_Y p < 32768"
  using sint_range_size [of "ucast (drop_bit 16 p AND 0xffff) :: u16"] by (simp_all add: PAL_Y_def word_size)

text \<open>
  The tiles are diamonds around \<open>(32x + 16h, 16y + 8h)\<close>; the tile that the code picks contains the point.
\<close>

definition in_diamond :: "int \<Rightarrow> int \<Rightarrow> int \<Rightarrow> int \<Rightarrow> int \<Rightarrow> bool" where
  "in_diamond px py x y h \<longleftrightarrow> \<bar>px - (x * 32 + h * 16)\<bar> + 2 * \<bar>py - (y * 16 + h * 8)\<bar> \<le> 16"

lemma tile_at_diamond:
  assumes "0 \<le> px" and "0 \<le> py" and "tile_at px py = (x, y, h)"
  shows "in_diamond px py x y h" "h = 0 \<or> h = 1" "0 \<le> x" "x \<le> px div 32 + 1" "0 \<le> y" "y \<le> py div 16 + 1"
proof -
  define a b xr yr where d: "a = px div 32" "b = py div 16" "xr = px mod 32" "yr = py mod 16"
  have p: "px = 32 * a + xr" "py = 16 * b + yr" and r: "0 \<le> xr" "xr < 32" "0 \<le> yr" "yr < 16" "0 \<le> a" "0 \<le> b"
    using assms(1,2) by (simp_all add: d)
  have s: "px sdiv 32 = a" "py sdiv 16 = b" "px smod 32 = xr" "py smod 16 = yr"
    using assms(1,2) by (simp_all add: d signed_divide_int_def signed_modulo_int_def sgn_if)
  from assms(3) consider "xr + yr * 2 < 16" "x = a" "y = b" "h = 0"
    | "xr + yr * 2 \<ge> 48" "x = a + 1" "y = b + 1" "h = 0"
    | "xr + yr * 2 \<ge> 16" "xr + yr * 2 < 48" "32 - xr + yr * 2 < 16" "x = a + 1" "y = b" "h = 0"
    | "xr + yr * 2 \<ge> 16" "xr + yr * 2 < 48" "32 - xr + yr * 2 \<ge> 16" "32 - xr + yr * 2 < 48" "x = a" "y = b" "h = 1"
    | "xr + yr * 2 \<ge> 16" "xr + yr * 2 < 48" "32 - xr + yr * 2 \<ge> 48" "x = a" "y = b + 1" "h = 0"
    by (auto simp: tile_at_def s Let_def split: if_splits)
  note cs = this
  show "in_diamond px py x y h" using cs r by cases (auto simp: in_diamond_def p abs_if)
  have all: "(h = 0 \<or> h = 1) \<and> 0 \<le> x \<and> x \<le> a + 1 \<and> 0 \<le> y \<and> y \<le> b + 1"
    using cs r by cases auto
  show "h = 0 \<or> h = 1" "0 \<le> x" "x \<le> px div 32 + 1" "0 \<le> y" "y \<le> py div 16 + 1"
    using all by (simp_all add: d)
qed

section \<open>Obstacles\<close>

definition tile_blocked :: "scene \<Rightarrow> int \<Rightarrow> int \<Rightarrow> int \<Rightarrow> bool" where
  "tile_blocked g x y h \<longleftrightarrow>
     (case lpMap g of None \<Rightarrow> True | Some m \<Rightarrow> x \<ge> 64 \<or> y \<ge> 128 \<or> bit (Tiles m (nat y) (nat x) (nat h)) 13)"

text \<open>An event object that stands in the way.\<close>

definition in_way :: "EVENTOBJECT \<Rightarrow> int \<Rightarrow> int \<Rightarrow> bool" where
  "in_way p px py \<longleftrightarrow> sint (sState p) \<ge> kObjStateBlocker \<and> \<bar>uint (ob_x p) - px\<bar> + \<bar>uint (ob_y p) - py\<bar> * 2 < 16"

definition first_object :: "scene \<Rightarrow> nat" where "first_object g = unat (rgScene g (unat (wNumScene g) - 1))"
definition end_object :: "scene \<Rightarrow> nat" where "end_object g = unat (rgScene g (unat (wNumScene g)))"

text \<open>The number of the scene is valid, and so are the numbers of its event objects.\<close>

definition scene_ok :: "scene \<Rightarrow> bool" where
  "scene_ok g \<longleftrightarrow> 0 < unat (wNumScene g) \<and> unat (wNumScene g) < MAX_SCENES \<and> end_object g \<le> length (lprgEventObject g)"

definition someone_in_way :: "scene \<Rightarrow> u16 \<Rightarrow> int \<Rightarrow> int \<Rightarrow> bool" where
  "someone_in_way g w px py \<longleftrightarrow>
     (\<exists>i \<in> {first_object g..<end_object g}. int i \<noteq> uint w - 1 \<and> in_way (lprgEventObject g ! i) px py)"

definition on_map :: "int \<Rightarrow> int \<Rightarrow> bool" where
  "on_map px py \<longleftrightarrow> 0 \<le> px \<and> px < 2048 \<and> 0 \<le> py \<and> py < 2048"

lemma scene_objects_run: "scene_ok g \<Longrightarrow> scene_objects g = Ret (first_object g, end_object g) g"
  by (simp add: scene_objects_def scene_ok_def first_object_def end_object_def run_simps)

lemma event_object_run: "i < length (lprgEventObject g) \<Longrightarrow> event_object i g = Ret (lprgEventObject g ! i) g"
  by (simp add: event_object_def run_simps)

lemma objects_block_run:
  "i + n \<le> length (lprgEventObject g) \<Longrightarrow>
   objects_block n i px py w g =
     Ret (\<exists>k \<in> {i..<i + n}. int k \<noteq> uint w - 1 \<and> in_way (lprgEventObject g ! k) px py) g"
proof (induction n arbitrary: i)
  case (Suc n)
  have split: "{i..<i + Suc n} = insert i {Suc i..<Suc i + n}" by auto
  have ih: "objects_block n (Suc i) px py w g =
      Ret (\<exists>k \<in> {Suc i..<Suc i + n}. int k \<noteq> uint w - 1 \<and> in_way (lprgEventObject g ! k) px py) g"
    using Suc by simp
  have ev: "event_object i g = Ret (lprgEventObject g ! i) g" using Suc.prems by (simp add: event_object_run)
  show ?case
    unfolding split objects_block.simps bindM_Ret [of "event_object i" g, OF ev]
    using ih by (auto simp: in_way_def)
qed simp

lemma tile_blocked_run:
  assumes "0 \<le> x" "x \<le> 64" "0 \<le> y" "y \<le> 128" "h = 0 \<or> h = 1"
  shows "PAL_MapTileIsBlocked (byte_of x) (byte_of y) (byte_of h) (lpMap g) = tile_blocked g x y h"
proof -
  have x: "unat (byte_of x) = nat x" "(64 \<le> byte_of x) = (64 \<le> x)" and y: "unat (byte_of y) = nat y" "(128 \<le> byte_of y) = (128 \<le> y)"
    using assms by (simp_all add: unat_eq_nat_uint uint_word_of_int word_le_def)
  have h: "unat (byte_of h) = nat h" "\<not> 1 < byte_of h" using assms(5) by auto
  have flag: "(drop_bit 13 d AND 1 = 0) = (\<not> bit d 13)" for d :: u32
    by (simp add: bit_iff_odd_drop_bit and_one_eq even_iff_mod_2_eq_zero)
  show ?thesis
    by (cases "lpMap g") (simp_all add: PAL_MapTileIsBlocked_def tile_blocked_def x y h flag)
qed

lemma CheckObstacle_run:
  assumes "scene_ok g" and "-32768 \<le> px" "px < 32768" "-32768 \<le> py" "py < 32768"
  shows "PAL_CheckObstacle (PAL_XY px py) chk w g =
    Ret (\<not> on_map px py \<or> (case tile_at px py of (x, y, h) \<Rightarrow> tile_blocked g x y h) \<or> chk \<and> someone_in_way g w px py) g"
proof (cases "on_map px py")
  case True
  obtain x y h where t: "tile_at px py = (x, y, h)" by (metis prod_cases3)
  have b: "PAL_MapTileIsBlocked (byte_of x) (byte_of y) (byte_of h) (lpMap g) = tile_blocked g x y h"
    by (rule tile_blocked_run) (use tile_at_diamond [OF _ _ t] True in \<open>auto simp: on_map_def\<close>)
  have o: "objects_block (end_object g - first_object g) (first_object g) px py w g = Ret (someone_in_way g w px py) g"
  proof (cases "first_object g \<le> end_object g")
    case True
    then show ?thesis using assms(1) objects_block_run [of "first_object g" "end_object g - first_object g" g px py w]
      by (simp add: scene_ok_def someone_in_way_def)
  qed (simp add: someone_in_way_def)
  show ?thesis
    using True assms t b o by (simp add: PAL_CheckObstacle_def on_map_def run_simps scene_objects_run)
qed (use assms in \<open>auto simp: PAL_CheckObstacle_def on_map_def run_simps\<close>)

lemma CheckObstacle_pos:
  assumes "scene_ok g"
  shows "PAL_CheckObstacle pos chk w g =
    Ret (\<not> on_map (PAL_X pos) (PAL_Y pos) \<or> (case tile_at (PAL_X pos) (PAL_Y pos) of (x, y, h) \<Rightarrow> tile_blocked g x y h)
         \<or> chk \<and> someone_in_way g w (PAL_X pos) (PAL_Y pos)) g"
proof -
  have "PAL_CheckObstacle pos chk w = PAL_CheckObstacle (PAL_XY (PAL_X pos) (PAL_Y pos)) chk w"
    using PAL_X_bounds [of pos] PAL_Y_bounds [of pos] by (simp add: PAL_CheckObstacle_def)
  then show ?thesis using CheckObstacle_run [OF assms PAL_X_bounds PAL_Y_bounds, of pos pos chk w] by simp
qed

text \<open>Where the leader of the party can stand.\<close>

definition free_ground :: "scene \<Rightarrow> u16 \<Rightarrow> int \<Rightarrow> int \<Rightarrow> bool" where
  "free_ground g w px py \<longleftrightarrow>
     on_map px py \<and> (\<exists>x y h. in_diamond px py x y h \<and> 0 \<le> x \<and> 0 \<le> y \<and> h \<in> {0, 1} \<and> \<not> tile_blocked g x y h) \<and> \<not> someone_in_way g w px py"

lemma CheckObstacle_free:
  assumes "scene_ok g" and "-32768 \<le> px" "px < 32768" "-32768 \<le> py" "py < 32768"
  obtains b where "PAL_CheckObstacle (PAL_XY px py) True w g = Ret b g" and "\<not> b \<Longrightarrow> free_ground g w px py"
proof -
  obtain x y h where t: "tile_at px py = (x, y, h)" by (metis prod_cases3)
  show thesis
    by (rule that [OF CheckObstacle_run [OF assms]])
       (use tile_at_diamond [OF _ _ t] in \<open>auto simp: free_ground_def on_map_def t\<close>)
qed

section \<open>The party walks\<close>

text \<open>What the movement of the figures on the screen leaves alone.\<close>

definition same_scene :: "scene \<Rightarrow> scene \<Rightarrow> bool" where
  "same_scene g t \<longleftrightarrow> t = g\<lparr>rgPartyPos := rgPartyPos t, s_iThisStepFrame := s_iThisStepFrame t\<rparr>"

lemma same_scene_refl [simp]: "same_scene g g"
  by (simp add: same_scene_def)

lemma same_scene_updates:
  "same_scene g t \<Longrightarrow> same_scene g (t\<lparr>rgPartyPos := p\<rparr>)" "same_scene g t \<Longrightarrow> same_scene g (t\<lparr>s_iThisStepFrame := f\<rparr>)"
  by (cases g, cases t, simp add: same_scene_def)+

lemma same_sceneD:
  assumes "same_scene g t"
  shows "party_roles t = party_roles g" "viewport t = viewport g" "partyoffset t = partyoffset g" "lpMap t = lpMap g"
    "lprgEventObject t = lprgEventObject g" "wNumScene t = wNumScene g" "rgScene t = rgScene g" "nFollower t = nFollower g"
    "rgTrail t = rgTrail g"
  using assms by (cases g, cases t, simp add: same_scene_def)+

text \<open>
  The members of the party, and the follower behind them, have their places; their roles exist, and the party is
  on the screen.
\<close>

definition party_ok :: "scene \<Rightarrow> bool" where
  "party_ok g \<longleftrightarrow> scene_ok g
     \<and> unat (wMaxPartyMemberIndex (party_roles g)) + (if nFollower g > 0 then 1 else 0) < MAX_PLAYABLE_PLAYER_ROLES
     \<and> (\<forall>i \<le> unat (wMaxPartyMemberIndex (party_roles g)). unat (rgParty (party_roles g) i) < MAX_PLAYER_ROLES)
     \<and> 0 \<le> PAL_X (partyoffset g) \<and> PAL_X (partyoffset g) < 320 \<and> 0 \<le> PAL_Y (partyoffset g) \<and> PAL_Y (partyoffset g) < 200"

lemma same_scene_ok: "same_scene g t \<Longrightarrow> scene_ok t = scene_ok g"
  by (simp add: scene_ok_def end_object_def same_sceneD)

lemma same_party_ok: "same_scene g t \<Longrightarrow> party_ok t = party_ok g"
  by (simp add: party_ok_def same_scene_ok same_sceneD)

lemma same_free_ground: "same_scene g t \<Longrightarrow> free_ground t w x y = free_ground g w x y"
  by (simp add: free_ground_def tile_blocked_def someone_in_way_def first_object_def end_object_def same_sceneD)

abbreviation (input) member_no :: "scene \<Rightarrow> nat \<Rightarrow> bool" where
  "member_no g i \<equiv> i \<le> unat (wMaxPartyMemberIndex (party_roles g))"

lemma party_okD:
  assumes "party_ok g" and "member_no g i"
  shows "i < MAX_PLAYABLE_PLAYER_ROLES" "unat (rgParty (party_roles g) i) < MAX_PLAYER_ROLES"
  using assms by (auto simp: party_ok_def split: if_splits)

text \<open>An operation that only moves the figures, whatever they did before.\<close>

definition moves_figures :: "scene \<Rightarrow> (scene, 'a) M \<Rightarrow> bool" where
  "moves_figures g m \<longleftrightarrow> (\<forall>t. same_scene g t \<longrightarrow> wp m (\<lambda>_. same_scene g) t)"

lemma moves_seqM: "moves_figures g m \<Longrightarrow> moves_figures g n \<Longrightarrow> moves_figures g (seqM m n)"
  unfolding moves_figures_def wp_seqM by (blast intro: wp_mono)

lemma moves_bindM: "moves_figures g m \<Longrightarrow> (\<And>x. moves_figures g (f x)) \<Longrightarrow> moves_figures g (bindM m f)"
  unfolding moves_figures_def wp_bindM by (blast intro: wp_mono)

lemma moves_getM: "(\<And>t. same_scene g t \<Longrightarrow> moves_figures g (f (h t))) \<Longrightarrow> moves_figures g (bindM (getM h) f)"
  by (simp add: moves_figures_def wp_simps)

lemma moves_whenM: "(b \<Longrightarrow> moves_figures g m) \<Longrightarrow> moves_figures g (whenM b m)"
  by (simp add: moves_figures_def wp_simps)

lemma moves_forM: "(\<And>i. i \<in> set is \<Longrightarrow> moves_figures g (body i)) \<Longrightarrow> moves_figures g (forM is body)"
proof (induction "is")
  case (Cons i "is")
  then show ?case by (simp add: moves_seqM)
qed (simp add: moves_figures_def wp_simps)

lemma moves_upd_party: "i < MAX_PLAYABLE_PLAYER_ROLES \<Longrightarrow> moves_figures g (upd_party i f)"
  by (simp add: moves_figures_def upd_party_def wp_simps same_scene_updates)

lemma moves_place_party: "i < MAX_PLAYABLE_PLAYER_ROLES \<Longrightarrow> moves_figures g (place_party i p)"
  by (simp add: place_party_def moves_upd_party)

lemma moves_get_party: "i < MAX_PLAYABLE_PLAYER_ROLES \<Longrightarrow> moves_figures g (get_party i)"
  by (simp add: moves_figures_def get_party_def wp_simps)

lemma moves_step_frame: "moves_figures g (modM (\<lambda>g. g\<lparr>s_iThisStepFrame := f g\<rparr>))"
  by (simp add: moves_figures_def wp_simps same_scene_updates)

lemma same_roles: "same_scene g t \<Longrightarrow> t\<lparr>party_roles := party_roles g\<rparr> = t"
  by (simp flip: same_sceneD(1))

lemma moves_walk_frames: "party_ok g \<Longrightarrow> member_no g i \<Longrightarrow> moves_figures g (walk_frames i)"
  using party_okD [of g i]
  by (simp add: moves_figures_def walk_frames_def wp_simps role_get_def same_sceneD same_roles)

lemma moves_CheckObstacle: "party_ok g \<Longrightarrow> moves_figures g (PAL_CheckObstacle pos chk w)"
  by (simp add: moves_figures_def wp_def CheckObstacle_pos same_scene_ok party_ok_def)

lemmas moves_rules = moves_seqM moves_getM moves_bindM moves_whenM moves_forM moves_upd_party moves_place_party
  moves_get_party moves_step_frame moves_walk_frames moves_CheckObstacle

text \<open>The steps of the animation.\<close>

lemma moves_follow_trail:
  assumes "party_ok g" and "member_no g i"
  shows "moves_figures g (follow_trail i k)"
  unfolding follow_trail_def by (intro moves_rules) (use assms party_okD [OF assms] in auto)

lemma moves_standing: "party_ok g \<Longrightarrow> member_no g i \<Longrightarrow> moves_figures g (standing i dir)"
  unfolding standing_def by (intro moves_rules) (use party_okD [of g i] in auto)

lemma moves_walk_leader: "party_ok g \<Longrightarrow> moves_figures g (walk_leader f k)"
  unfolding walk_leader_def by (intro moves_rules) auto

lemma follower_no:
  assumes "party_ok g" and "same_scene g t" and "same_scene g u" and "nFollower u > 0"
  shows "party_last t < MAX_PLAYABLE_PLAYER_ROLES"
  using assms by (simp add: party_ok_def same_sceneD)

lemma moves_walk_follower:
  assumes "party_ok g" and "same_scene g t"
  shows "moves_figures g (walk_follower (party_last t) k)"
  unfolding walk_follower_def by (intro moves_rules) (use follower_no [OF assms] in auto)

lemma members_no:
  assumes "party_ok g" and "same_scene g t" and "i \<in> set (members t)"
  shows "member_no g i"
proof -
  define w where "w = wMaxPartyMemberIndex (party_roles g)"
  have u: "uint w = int (unat w)" by simp
  have "unat w < 5" using assms(1) by (auto simp: w_def party_ok_def split: if_splits)
  then have "uint w < 32768" using u by linarith
  moreover have "-32768 \<le> uint w" by (rule order_trans [of _ 0]) simp_all
  ultimately have "sint w = uint w" by (simp add: sint_uint signed_take_bit_int_eq_self)
  moreover have "i \<le> nat (sint w)"
    using assms(3) unfolding same_sceneD(1) [OF assms(2)] w_def by auto
  ultimately show ?thesis unfolding w_def [symmetric] by simp
qed

lemma moves_UpdatePartyGestures:
  assumes "party_ok g"
  shows "moves_figures g (PAL_UpdatePartyGestures walking)"
proof (cases walking)
  case True
  then show ?thesis
    unfolding PAL_UpdatePartyGestures_def Let_def
    by (auto intro!: moves_rules moves_walk_leader moves_follow_trail moves_walk_follower [simplified] assms
        intro: members_no [OF assms])
next
  case False
  then show ?thesis
    unfolding PAL_UpdatePartyGestures_def
    by (auto intro!: moves_rules moves_standing assms intro: members_no [OF assms] follower_no [OF assms, simplified])
qed

text \<open>A step of the leader to free ground; the ground does not depend on where the party is.\<close>

definition free_step :: "scene \<Rightarrow> int \<times> int \<Rightarrow> int \<times> int \<Rightarrow> bool" where
  "free_step g p q \<longleftrightarrow> (\<exists>d \<in> {kDirSouth, kDirWest, kDirNorth, kDirEast}. q = (fst p + step_x d, snd p + step_y d))
     \<and> free_ground g 0 (fst q) (snd q)"

definition same_ground :: "scene \<Rightarrow> scene \<Rightarrow> bool" where
  "same_ground g t \<longleftrightarrow> lpMap t = lpMap g \<and> lprgEventObject t = lprgEventObject g \<and> wNumScene t = wNumScene g \<and> rgScene t = rgScene g"

lemma same_ground_refl [simp]: "same_ground g g"
  by (simp add: same_ground_def)

lemma same_ground_trans: "same_ground g t \<Longrightarrow> same_ground t u \<Longrightarrow> same_ground g u"
  by (simp add: same_ground_def)

lemma same_ground_free: "same_ground g t \<Longrightarrow> free_ground t w x y = free_ground g w x y"
  by (simp add: free_ground_def tile_blocked_def someone_in_way_def first_object_def end_object_def same_ground_def)

lemma same_ground_step: "same_ground g t \<Longrightarrow> free_step t = free_step g"
  by (intro ext) (simp add: free_step_def same_ground_free)

lemma gestures_run:
  assumes "party_ok g"
  obtains t where "PAL_UpdatePartyGestures b g = Ret () t" "same_scene g t"
  using moves_UpdatePartyGestures [OF assms, of b] wp_RetD [of "PAL_UpdatePartyGestures b" "\<lambda>_. same_scene g" g]
  by (auto simp: moves_figures_def)

text \<open>One round for a key.\<close>

definition party_round :: "scene \<Rightarrow> u16 \<Rightarrow> scene \<Rightarrow> bool" where
  "party_round g d t \<longleftrightarrow> party_ok t \<and> same_ground g t \<and>
     ((party_x t, party_y t) = (party_x g, party_y g) \<and> rgTrail t = rgTrail g \<or>
      d \<noteq> kDirUnknown \<and> (party_x t, party_y t) = (party_x g + step_x d, party_y g + step_y d) \<and> free_ground t 0 (party_x t) (party_y t) \<and>
      (\<forall>i \<le> 4. rgTrail t i = (if i = 0 then \<lparr>tr_x = short (party_x g), tr_y = short (party_y g), tr_dir = d\<rparr> else rgTrail g (i - 1))))"

lemma bindM_ret: "bindM (ret x) f s = f x s"
  by (simp add: bindM_def)

lemma step_bounds: "\<bar>step_x d\<bar> = 16" "\<bar>step_y d\<bar> = 8"
  by (auto simp: step_x_def step_y_def)

lemma UpdateParty_round:
  assumes ok: "party_ok g" and map: "on_map (party_x g) (party_y g)"
  obtains t where "PAL_UpdateParty g = Ret () t" "party_round g (key_dir g) t"
proof (cases "key_dir g = kDirUnknown")
  case True
  obtain t where "PAL_UpdatePartyGestures False g = Ret () t" "same_scene g t" using gestures_run [OF ok] .
  then show thesis using True ok
    by (intro that [of t]) (auto simp: PAL_UpdateParty_def run_simps bindM_ret party_round_def party_x_def party_y_def same_sceneD same_party_ok same_ground_def)
next
  case False
  define d where "d = key_dir g"
  define x y where "x = party_x g + step_x d" and "y = party_y g + step_y d"
  define h where "h = g\<lparr>wPartyDirection := d\<rparr>"
  have h: "party_ok h" "scene_ok h" "same_ground g h" "rgTrail h = rgTrail g" "party_x h = party_x g" "party_y h = party_y g"
    using ok by (simp_all add: h_def party_ok_def scene_ok_def end_object_def same_ground_def party_x_def party_y_def)
  have xy: "-32768 \<le> x" "x < 32768" "-32768 \<le> y" "y < 32768"
    using map step_bounds [of d] by (auto simp: x_def y_def on_map_def abs_if split: if_splits)
  obtain b where b: "PAL_CheckObstacle (PAL_XY x y) True 0 h = Ret b h" "\<not> b \<Longrightarrow> free_ground h 0 x y"
    using CheckObstacle_free [OF h(2) xy] by blast
  show thesis
  proof (cases b)
    case True
    obtain t where t: "PAL_UpdatePartyGestures False h = Ret () t" "same_scene h t" using gestures_run [OF h(1)] .
    show thesis
    proof (rule that)
      show "PAL_UpdateParty g = Ret () t"
        using False b(1) t(1) True by (simp add: PAL_UpdateParty_def run_simps bindM_ret h_def d_def x_def y_def)
      show "party_round g (key_dir g) t"
        using t(2) h by (auto simp: party_round_def party_x_def party_y_def same_sceneD same_party_ok same_ground_def)
    qed
  next
    case False
    have free: "free_ground h 0 x y" using b(2) False by simp
    define k where "k = h\<lparr>rgTrail := (\<lambda>i. if i = 0 then \<lparr>tr_x = short (party_x g), tr_y = short (party_y g), tr_dir = d\<rparr>
        else if i \<le> 4 then rgTrail h (i - 1) else rgTrail h i),
      viewport := PAL_XY (PAL_X (viewport h) + step_x d) (PAL_Y (viewport h) + step_y d)\<rparr>"
    have kx: "party_x k = x" "party_y k = y"
    proof -
      have o: "0 \<le> PAL_X (partyoffset g)" "PAL_X (partyoffset g) < 320" "0 \<le> PAL_Y (partyoffset g)" "PAL_Y (partyoffset g) < 200"
        using ok by (simp_all add: party_ok_def)
      have v: "PAL_X (viewport g) + step_x d = x - PAL_X (partyoffset g)" "PAL_Y (viewport g) + step_y d = y - PAL_Y (partyoffset g)"
        by (simp_all add: x_def y_def party_x_def party_y_def)
      have "0 \<le> x" "x < 2048" "0 \<le> y" "y < 2048" using free by (simp_all add: free_ground_def on_map_def)
      then show "party_x k = x" "party_y k = y"
        using o by (simp_all add: k_def h_def party_x_def party_y_def v)
    qed
    have ground: "same_ground h k" by (simp add: k_def same_ground_def)
    have "party_ok k" using h(1) by (simp add: k_def party_ok_def scene_ok_def end_object_def)
    then obtain t where t: "PAL_UpdatePartyGestures True k = Ret () t" "same_scene k t" using gestures_run by blast
    have "same_ground k t" using t(2) by (simp add: same_ground_def same_sceneD)
    then have ground_t: "same_ground h t" using ground same_ground_trans by blast
    have pos: "party_x t = x" "party_y t = y" using kx t(2) by (simp_all add: party_x_def party_y_def same_sceneD)
    show thesis
    proof (rule that)
      show "PAL_UpdateParty g = Ret () t"
        using \<open>key_dir g \<noteq> 4\<close> b(1) False t(1)
        unfolding PAL_UpdateParty_def store_trail_def k_def x_def y_def h_def d_def
        by (simp add: run_simps bindM_ret)
      have "party_ok t" using \<open>party_ok k\<close> t(2) same_party_ok by blast
      moreover have "same_ground g t" using h(3) ground_t same_ground_trans by blast
      moreover have "free_ground t 0 (party_x t) (party_y t)"
        using free same_ground_free [OF ground_t, of 0 x y] unfolding pos by simp
      moreover have "\<forall>i \<le> 4. rgTrail t i =
          (if i = 0 then \<lparr>tr_x = short (party_x g), tr_y = short (party_y g), tr_dir = d\<rparr> else rgTrail g (i - 1))"
        by (simp add: same_sceneD [OF t(2)] k_def h(4))
      moreover have "(party_x t, party_y t) = (party_x g + step_x d, party_y g + step_y d)"
        unfolding pos x_def y_def by (rule refl)
      ultimately show "party_round g (key_dir g) t"
        using \<open>key_dir g \<noteq> 4\<close> unfolding party_round_def d_def by blast
    qed
  qed
qed

definition walk_keys :: "u16 list \<Rightarrow> (scene, unit) M" where
  "walk_keys ds = forM ds (\<lambda>d. seqM (modM (\<lambda>g. g\<lparr>key_dir := d\<rparr>)) PAL_UpdateParty)"

lemma step_as_direction: "\<exists>e \<in> {kDirSouth, kDirWest, kDirNorth, kDirEast}. step_x d = step_x e \<and> step_y d = step_y e"
proof (cases "d = 0 \<or> d = 1 \<or> d = 2")
  case True
  then show ?thesis by (intro bexI [of _ d]) auto
next
  case False
  then show ?thesis by (intro bexI [of _ 3]) (simp_all add: step_x_def step_y_def)
qed

lemma party_round_step:
  assumes "party_round g d t" and "free_ground g 0 (party_x g) (party_y g)"
  shows "(free_step g)\<^sup>*\<^sup>* (party_x g, party_y g) (party_x t, party_y t)" "free_ground t 0 (party_x t) (party_y t)"
proof -
  have ground: "same_ground g t" using assms(1) by (simp add: party_round_def)
  have "(free_step g)\<^sup>*\<^sup>* (party_x g, party_y g) (party_x t, party_y t) \<and> free_ground t 0 (party_x t) (party_y t)"
  proof (cases "(party_x t, party_y t) = (party_x g, party_y g)")
    case True
    then show ?thesis using assms(2) by (simp add: same_ground_free [OF ground])
  next
    case False
    then have p: "(party_x t, party_y t) = (party_x g + step_x d, party_y g + step_y d)" and f: "free_ground t 0 (party_x t) (party_y t)"
      using assms(1) unfolding party_round_def by blast+
    then have "free_step g (party_x g, party_y g) (party_x t, party_y t)"
      using step_as_direction [of d] unfolding free_step_def same_ground_free [OF ground] by auto
    then show ?thesis using f by blast
  qed
  then show "(free_step g)\<^sup>*\<^sup>* (party_x g, party_y g) (party_x t, party_y t)" "free_ground t 0 (party_x t) (party_y t)"
    by blast+
qed

text \<open>
  C14. Whatever arrow keys are pressed, one per round, \<open>PAL_UpdateParty\<close> returns, the leader of a party that
  starts on free ground is on free ground, and has come there by diagonal steps of 16 by 8 pixels over free
  ground; the map and the event objects are as before. Free ground is on the map, in a diamond-shaped tile
  without the block flag, and not closer than 16 to an event object that blocks the way.
\<close>

theorem party_stays_on_free_ground:
  assumes "party_ok g" and "free_ground g 0 (party_x g) (party_y g)"
  shows "\<exists>t. walk_keys ds g = Ret () t \<and> party_ok t \<and> same_ground g t \<and> free_ground t 0 (party_x t) (party_y t)
    \<and> (free_step g)\<^sup>*\<^sup>* (party_x g, party_y g) (party_x t, party_y t)"
  using assms
proof (induction ds arbitrary: g)
  case (Cons d ds)
  define h where "h = g\<lparr>key_dir := d\<rparr>"
  have h: "party_ok h" "same_ground g h" "party_x h = party_x g" "party_y h = party_y g"
    using Cons.prems by (simp_all add: h_def party_ok_def scene_ok_def end_object_def same_ground_def party_x_def party_y_def)
  then have fh: "free_ground h 0 (party_x h) (party_y h)" using Cons.prems(2) by (simp add: same_ground_free)
  then obtain u where u: "PAL_UpdateParty h = Ret () u" "party_round h d u"
    using UpdateParty_round [OF h(1)] by (auto simp: free_ground_def h_def)
  have ok: "party_ok u" "same_ground h u" using u(2) by (simp_all add: party_round_def)
  note step = party_round_step [OF u(2) fh]
  obtain t where t: "walk_keys ds u = Ret () t" "party_ok t" "same_ground u t" "free_ground t 0 (party_x t) (party_y t)"
    "(free_step u)\<^sup>*\<^sup>* (party_x u, party_y u) (party_x t, party_y t)"
    using Cons.IH [OF ok(1) step(2)] by auto
  have gu: "same_ground g u" using h(2) ok(2) same_ground_trans by blast
  have "walk_keys (d # ds) g = Ret () t" using t(1) u(1) by (simp add: walk_keys_def h_def)
  moreover have "(free_step g)\<^sup>*\<^sup>* (party_x g, party_y g) (party_x t, party_y t)"
    using step(1) t(5) h(2-4) gu by (simp add: same_ground_step)
  ultimately show ?case using t gu same_ground_trans by blast
qed (simp add: walk_keys_def)

text \<open>A field without any blocked tile, with one person in it.\<close>

definition open_field :: scene where
  "open_field = \<lparr>party_roles = \<lparr>PlayerRoles = \<lambda>_ _. 0, rgEquipmentEffect = \<lambda>_ _ _. 0, rgPlayerStatus = \<lambda>_ _. 0,
       wMaxPartyMemberIndex = 0, rgParty = \<lambda>_. 0, rgPoisonStatus = \<lambda>_ _. no_poison,
       rgInventory = \<lambda>_. \<lparr>wItem = 0, nAmount = 0, nAmountInUse = 0\<rparr>, rgObject = \<lambda>_ _. 0,
       rgPrimaryExp = \<lambda>_. \<lparr>wExp = 0, wLevel = 0\<rparr>, glSeed = 1\<rparr>,
     viewport = PAL_XY 0 0, partyoffset = PAL_XY 160 112, wLayer = 0,
     rgPartyPos = \<lambda>_. \<lparr>pt_x = 0, pt_y = 0, wFrame = 0\<rparr>, rgTrail = \<lambda>_. \<lparr>tr_x = 0, tr_y = 0, tr_dir = 0\<rparr>,
     wPartyDirection = 0, wNumScene = 1, nFollower = 0, wScreenWave = 0, sWaveProgression = 0, wGlobalChaseRange = 0,
     rgScene = \<lambda>i. if i = 0 then 0 else 1,
     lprgEventObject = [\<lparr>sVanishTime = 0, ob_x = 500, ob_y = 300, sLayer = 0, sState = 2, nSpriteFrames = 0, wDirection = 0,
       wCurrentFrameNum = 0, nSpriteFramesAuto = 0\<rparr>],
     lpMap = Some \<lparr>Tiles = \<lambda>_ _ _. 0, pTileSprite = [], iMapNum = 1\<rparr>, rglpPlayerSprite = \<lambda>_. None,
     lppEventObjectSprites = [], key_dir = 4, s_iThisStepFrame = 0, wave_index = 0, sprites_to_draw = [], gpScreen = None\<rparr>"

lemma open_field_ok: "party_ok open_field" "scene_ok open_field" "free_ground open_field 0 (party_x open_field) (party_y open_field)"
proof -
  have xy: "party_x open_field = 160" "party_y open_field = 112"
    by (simp_all add: party_x_def party_y_def open_field_def)
  have d: "in_diamond 160 112 5 7 0" by (simp add: in_diamond_def)
  show "party_ok open_field" "scene_ok open_field"
    by (simp_all add: party_ok_def scene_ok_def end_object_def open_field_def)
  have "\<not> tile_blocked open_field 5 7 0" by (simp add: tile_blocked_def open_field_def)
  moreover have "\<not> someone_in_way open_field 0 160 112"
    by (simp add: someone_in_way_def in_way_def first_object_def end_object_def open_field_def)
  ultimately show "free_ground open_field 0 (party_x open_field) (party_y open_field)"
    unfolding xy free_ground_def using d by (intro conjI exI [of _ 5] exI [of _ 7] exI [of _ 0]) (simp_all add: on_map_def)
qed

theorem party_stays_on_free_ground_witness:
  "\<exists>t. walk_keys [3, 3, 0, 4, 1] open_field = Ret () t \<and> party_ok t \<and> same_ground open_field t \<and> free_ground t 0 (party_x t) (party_y t)
    \<and> (free_step open_field)\<^sup>*\<^sup>* (party_x open_field, party_y open_field) (party_x t, party_y t)"
  by (rule party_stays_on_free_ground) (rule open_field_ok)+

section \<open>What stands in the way\<close>

text \<open>
  C15. For every position \<open>PAL_CheckObstacle\<close> returns and changes nothing. If it finds no obstacle, the position is on
  the map, in a diamond-shaped tile without the block flag and, when event objects count, at least 16 away (the
  vertical distance counting twice) from every blocking event object of the scene other than the one excepted.
  If it finds one, the position is outside the map, or in a blocked tile, or too near to such an event object.
\<close>

theorem obstacle_on_map:
  assumes "scene_ok g"
  shows "\<exists>b. PAL_CheckObstacle pos chk w g = Ret b g
    \<and> (\<not> b \<longrightarrow> on_map (PAL_X pos) (PAL_Y pos) \<and> (\<exists>x y h. in_diamond (PAL_X pos) (PAL_Y pos) x y h \<and> \<not> tile_blocked g x y h)
        \<and> \<not> (chk \<and> someone_in_way g w (PAL_X pos) (PAL_Y pos)))
    \<and> (b \<longrightarrow> \<not> on_map (PAL_X pos) (PAL_Y pos) \<or> (\<exists>x y h. in_diamond (PAL_X pos) (PAL_Y pos) x y h \<and> tile_blocked g x y h)
        \<or> chk \<and> someone_in_way g w (PAL_X pos) (PAL_Y pos))"
proof -
  obtain x y h where t: "tile_at (PAL_X pos) (PAL_Y pos) = (x, y, h)" by (metis prod_cases3)
  have d: "on_map (PAL_X pos) (PAL_Y pos) \<Longrightarrow> in_diamond (PAL_X pos) (PAL_Y pos) x y h"
    using tile_at_diamond(1) [OF _ _ t] by (simp add: on_map_def)
  show ?thesis
    by (rule exI, rule conjI, rule CheckObstacle_pos [OF assms]) (use d t in auto)
qed

theorem obstacle_on_map_witness:
  "\<exists>b. PAL_CheckObstacle (PAL_XY 495 300) True 0 open_field = Ret b open_field
    \<and> (\<not> b \<longrightarrow> on_map (PAL_X (PAL_XY 495 300)) (PAL_Y (PAL_XY 495 300))
        \<and> (\<exists>x y h. in_diamond (PAL_X (PAL_XY 495 300)) (PAL_Y (PAL_XY 495 300)) x y h \<and> \<not> tile_blocked open_field x y h)
        \<and> \<not> (True \<and> someone_in_way open_field 0 (PAL_X (PAL_XY 495 300)) (PAL_Y (PAL_XY 495 300))))
    \<and> (b \<longrightarrow> \<not> on_map (PAL_X (PAL_XY 495 300)) (PAL_Y (PAL_XY 495 300))
        \<or> (\<exists>x y h. in_diamond (PAL_X (PAL_XY 495 300)) (PAL_Y (PAL_XY 495 300)) x y h \<and> tile_blocked open_field x y h)
        \<or> True \<and> someone_in_way open_field 0 (PAL_X (PAL_XY 495 300)) (PAL_Y (PAL_XY 495 300)))"
  by (rule obstacle_on_map) (rule open_field_ok)

section \<open>A figure is sent to a place\<close>

text \<open>The script calls \<open>PAL_NPCWalkTo\<close> once per round until it says that the figure is there.\<close>

primrec walk_calls :: "nat \<Rightarrow> u16 \<Rightarrow> int \<Rightarrow> int \<Rightarrow> int \<Rightarrow> int \<Rightarrow> (scene, bool) M" where
  "walk_calls 0 w x y h iSpeed = ret False"
| "walk_calls (Suc n) w x y h iSpeed =
     bindM (PAL_NPCWalkTo w x y h iSpeed) (\<lambda>there. if there then ret True else walk_calls n w x y h iSpeed)"

lemma uint_add_short:
  assumes "0 \<le> uint v + k" and "uint v + k < 65536"
  shows "uint (v + short k) = uint v + k"
proof -
  have "uint (v + short k) = (uint v + k) mod 65536"
    by (simp add: short_def uint_word_arith_bintrs uint_word_of_int take_bit_eq_mod mod_add_right_eq)
  then show ?thesis using assms by simp
qed

lemma uint_short: "0 \<le> k \<Longrightarrow> k < 65536 \<Longrightarrow> uint (short k) = k"
  by (simp add: short_def uint_word_of_int)

text \<open>The place of an event object in its array.\<close>

definition slot :: "u16 \<Rightarrow> nat" where "slot w = unat w - 1"

definition object_ok :: "u16 \<Rightarrow> scene \<Rightarrow> bool" where
  "object_ok w g \<longleftrightarrow> w \<noteq> 0 \<and> slot w < length (lprgEventObject g)"

definition put_object :: "u16 \<Rightarrow> EVENTOBJECT \<Rightarrow> scene \<Rightarrow> scene" where
  "put_object w p g = g\<lparr>lprgEventObject := (lprgEventObject g)[slot w := p]\<rparr>"

lemma put_object_simps [simp]:
  "object_ok w (put_object w p g) = object_ok w g"
  "object_ok w g \<Longrightarrow> lprgEventObject (put_object w p g) ! slot w = p"
  "put_object w q (put_object w p g) = put_object w q g"
  by (simp_all add: object_ok_def put_object_def)

lemma upd_object_at_run:
  assumes "object_ok w g"
  shows "upd_object_at w f g = Ret () (put_object w (f (lprgEventObject g ! slot w)) g)"
    "object_at w g = Ret (lprgEventObject g ! slot w) g"
  using assms
  by (simp_all add: object_ok_def put_object_def upd_object_at_def upd_object_def object_at_def event_object_run run_simps slot_def)

text \<open>The event object after one step.\<close>

definition stepped :: "int \<Rightarrow> EVENTOBJECT \<Rightarrow> EVENTOBJECT" where
  "stepped iSpeed p =
     (let d = wDirection p;
          p = p\<lparr>ob_x := ob_x p + short ((if d = kDirWest \<or> d = kDirSouth then -2 else 2) * iSpeed),
                ob_y := ob_y p + short ((if d = kDirWest \<or> d = kDirNorth then -1 else 1) * iSpeed)\<rparr> in
      if nSpriteFrames p > 0 then
        p\<lparr>wCurrentFrameNum := (wCurrentFrameNum p + 1) mod (if nSpriteFrames p = 3 then 4 else nSpriteFrames p)\<rparr>
      else if nSpriteFramesAuto p > 0 then p\<lparr>wCurrentFrameNum := (wCurrentFrameNum p + 1) mod nSpriteFramesAuto p\<rparr>
      else p)"

lemma stepped_position:
  "ob_x (stepped v p) = ob_x p + short ((if wDirection p = kDirWest \<or> wDirection p = kDirSouth then -2 else 2) * v)"
  "ob_y (stepped v p) = ob_y p + short ((if wDirection p = kDirWest \<or> wDirection p = kDirNorth then -1 else 1) * v)"
  by (simp_all add: stepped_def Let_def)

lemma NPCWalkOneStep_run:
  assumes "object_ok w g"
  shows "PAL_NPCWalkOneStep w v g = Ret () (put_object w (stepped v (lprgEventObject g ! slot w)) g)"
proof -
  have "\<not> length (lprgEventObject g) < unat w" "w \<noteq> 0" using assms by (auto simp: object_ok_def slot_def)
  then have "PAL_NPCWalkOneStep w v g = upd_object_at w (stepped v) g"
    by (simp add: PAL_NPCWalkOneStep_def run_simps upd_object_at_def stepped_def [abs_def])
  then show ?thesis using upd_object_at_run [OF assms] by simp
qed

definition heading :: "int \<Rightarrow> int \<Rightarrow> u16" where
  "heading xo yo = (if yo < 0 then (if xo < 0 then kDirWest else kDirNorth) else (if xo < 0 then kDirSouth else kDirEast))"

text \<open>One call: the figure is set down at the place when it is near, and otherwise comes nearer.\<close>

lemma NPCWalkTo_near:
  assumes ok: "object_ok w g"
    and range: "tx = x * 32 + h * 16" "0 \<le> tx" "tx < 65536" "ty = y * 16 + h * 8" "0 \<le> ty" "ty < 65536"
    and p: "p = lprgEventObject g ! slot w"
    and near: "\<bar>tx - uint (ob_x p)\<bar> < v * 2 \<or> \<bar>ty - uint (ob_y p)\<bar> < v * 2"
  shows "\<exists>q. PAL_NPCWalkTo w x y h v g = Ret True (put_object w q g)
    \<and> uint (ob_x q) = tx \<and> uint (ob_y q) = ty \<and> wCurrentFrameNum q = 0"
proof -
  define q where "q = p\<lparr>wDirection := heading (tx - uint (ob_x p)) (ty - uint (ob_y p)),
    ob_x := short tx, ob_y := short ty, wCurrentFrameNum := 0\<rparr>"
  have "PAL_NPCWalkTo w x y h v g = Ret True (put_object w q g)"
    using near unfolding PAL_NPCWalkTo_def Let_def heading_def [symmetric] range(1,4) [symmetric]
    by (simp add: upd_object_at_run ok p [symmetric] uint_short range(2,3,5,6) q_def)
  then show ?thesis using uint_short range(2,3,5,6) by (auto simp: q_def)
qed

lemma NPCWalkTo_far:
  assumes ok: "object_ok w g"
    and range: "tx = x * 32 + h * 16" "0 \<le> tx" "tx < 65536" "ty = y * 16 + h * 8" "0 \<le> ty" "ty < 65536"
    and p: "p = lprgEventObject g ! slot w" and v: "0 < v"
    and far: "v * 2 \<le> \<bar>tx - uint (ob_x p)\<bar>" "v * 2 \<le> \<bar>ty - uint (ob_y p)\<bar>"
  shows "\<exists>q. PAL_NPCWalkTo w x y h v g = Ret False (put_object w q g)
    \<and> \<bar>tx - uint (ob_x q)\<bar> = \<bar>tx - uint (ob_x p)\<bar> - v * 2"
proof -
  define d where "d = heading (tx - uint (ob_x p)) (ty - uint (ob_y p))"
  define q where "q = stepped v (p\<lparr>wDirection := d\<rparr>)"
  define ox oy where "ox = uint (ob_x p)" and "oy = uint (ob_y p)"
  have up: "0 \<le> ox" "ox < 65536" "0 \<le> oy" "oy < 65536"
    using uint_lt2p [of "ob_x p"] uint_lt2p [of "ob_y p"] by (simp_all add: ox_def oy_def)
  have "ob_x q = ob_x p + short (if tx < ox then - (v * 2) else v * 2)"
    by (simp add: q_def stepped_position d_def heading_def ox_def mult.commute)
  moreover have "uint (ob_x p + short (if tx < ox then - (v * 2) else v * 2)) = ox + (if tx < ox then - (v * 2) else v * 2)"
    unfolding ox_def by (rule uint_add_short) (use far(1) v range(2,3) up in \<open>auto simp: ox_def\<close>)
  ultimately have qx: "uint (ob_x q) = ox + (if tx < ox then - (v * 2) else v * 2)" by simp
  have "ob_y q = ob_y p + short (if ty < oy then - v else v)"
    by (simp add: q_def stepped_position d_def heading_def oy_def)
  moreover have "uint (ob_y p + short (if ty < oy then - v else v)) = oy + (if ty < oy then - v else v)"
    unfolding oy_def by (rule uint_add_short) (use far(2) v range(5,6) up in \<open>auto simp: oy_def\<close>)
  ultimately have qy: "uint (ob_y q) = oy + (if ty < oy then - v else v)" by simp
  have away: "uint (ob_y q) \<noteq> ty" using qy far(2) v by (auto simp: oy_def)
  have "PAL_NPCWalkTo w x y h v g = Ret False (put_object w q g)"
    using far away unfolding PAL_NPCWalkTo_def Let_def heading_def [symmetric] range(1,4) [symmetric]
    by (simp add: upd_object_at_run NPCWalkOneStep_run ok p [symmetric] q_def d_def)
  moreover have "\<bar>tx - uint (ob_x q)\<bar> = \<bar>tx - uint (ob_x p)\<bar> - v * 2"
    using qx far(1) v by (auto simp: ox_def)
  ultimately show ?thesis by blast
qed

lemma walk_calls_arrive:
  assumes range: "tx = x * 32 + h * 16" "0 \<le> tx" "tx < 65536" "ty = y * 16 + h * 8" "0 \<le> ty" "ty < 65536"
    and speed: "0 < iSpeed"
  shows "object_ok w g \<Longrightarrow> n = nat (\<bar>tx - uint (ob_x (lprgEventObject g ! slot w))\<bar> div (iSpeed * 2)) \<Longrightarrow>
    \<exists>q. walk_calls (n + 1) w x y h iSpeed g = Ret True (put_object w q g)
      \<and> uint (ob_x q) = tx \<and> uint (ob_y q) = ty \<and> wCurrentFrameNum q = 0"
proof (induction n arbitrary: g)
  case (0 g)
  let ?d = "\<bar>tx - uint (ob_x (lprgEventObject g ! slot w))\<bar>"
  have "\<not> 0 < ?d div (iSpeed * 2)" using 0(2) by simp
  then have "?d < iSpeed * 2" using speed pos_imp_zdiv_pos_iff [of "iSpeed * 2" ?d] by simp
  then show ?case
    using NPCWalkTo_near [OF 0(1) range refl] by fastforce
next
  case (Suc n g)
  let ?p = "lprgEventObject g ! slot w"
  show ?case
  proof (cases "\<bar>tx - uint (ob_x ?p)\<bar> < iSpeed * 2 \<or> \<bar>ty - uint (ob_y ?p)\<bar> < iSpeed * 2")
    case True
    then show ?thesis
      using NPCWalkTo_near [OF Suc(2) range refl] by fastforce
  next
    case False
    then obtain q where q: "PAL_NPCWalkTo w x y h iSpeed g = Ret False (put_object w q g)"
        "\<bar>tx - uint (ob_x q)\<bar> = \<bar>tx - uint (ob_x ?p)\<bar> - iSpeed * 2"
      using NPCWalkTo_far [OF Suc(2) range refl speed] by force
    have "\<bar>tx - uint (ob_x ?p)\<bar> div (iSpeed * 2) = int n + 1" using Suc(3) by linarith
    then have "n = nat (\<bar>tx - uint (ob_x q)\<bar> div (iSpeed * 2))"
      using speed div_add_self2 [of "iSpeed * 2" "\<bar>tx - uint (ob_x q)\<bar>"] by (simp add: q(2))
    then have "\<exists>r. walk_calls (n + 1) w x y h iSpeed (put_object w q g) = Ret True (put_object w r (put_object w q g))
        \<and> uint (ob_x r) = tx \<and> uint (ob_y r) = ty \<and> wCurrentFrameNum r = 0"
      using Suc.IH [of "put_object w q g"] Suc(2) by simp
    moreover have "walk_calls (Suc n + 1) w x y h iSpeed g = walk_calls (n + 1) w x y h iSpeed (put_object w q g)"
      unfolding add_Suc walk_calls.simps(2) [of "n + 1"]
        bindM_Ret [of "PAL_NPCWalkTo w x y h iSpeed" g, OF q(1)] by simp
    ultimately show ?thesis by simp
  qed
qed

text \<open>
  C17. A figure that the script sends to a place on the map with a positive speed arrives: when
  \<open>PAL_NPCWalkTo\<close> is called once per round, the last of at most \<open>|dx| div (2 * iSpeed) + 1\<close> calls says that
  it is there, and the figure stands at exactly that place in its first frame; no other event object has
  changed.
\<close>

theorem npc_arrives:
  assumes "object_ok w g" and "0 < iSpeed"
    and "0 \<le> x * 32 + h * 16" and "x * 32 + h * 16 < 65536" and "0 \<le> y * 16 + h * 8" and "y * 16 + h * 8 < 65536"
  shows "\<exists>q. walk_calls (nat (\<bar>x * 32 + h * 16 - uint (ob_x (lprgEventObject g ! slot w))\<bar> div (iSpeed * 2)) + 1) w x y h iSpeed g
      = Ret True (put_object w q g)
    \<and> uint (ob_x q) = x * 32 + h * 16 \<and> uint (ob_y q) = y * 16 + h * 8 \<and> wCurrentFrameNum q = 0"
  using walk_calls_arrive [OF refl assms(3,4) refl assms(5,6,2,1) refl] .

theorem npc_arrives_witness:
  "\<exists>q. walk_calls (nat (\<bar>20 * 32 + 1 * 16 - uint (ob_x (lprgEventObject open_field ! slot 1))\<bar> div (3 * 2)) + 1) 1 20 10 1 3 open_field
      = Ret True (put_object 1 q open_field)
    \<and> uint (ob_x q) = 20 * 32 + 1 * 16 \<and> uint (ob_y q) = 10 * 16 + 1 * 8 \<and> wCurrentFrameNum q = 0"
  by (rule npc_arrives) (simp_all add: object_ok_def slot_def open_field_def)

end
