(* ===== verification/Pal_Movie.thy ===== *)
theory Pal_Movie
  imports Pal_Files
begin

text \<open>
  The movies of the role-playing game: game/src/nemu-pal/misc/rngplay.c. A movie is a chunk of an archive and
  itself an archive of frames; a frame is compressed, and says how the picture before it changes, two pixels at
  a time.
\<close>

section \<open>Reading a frame\<close>

text \<open>The second result is the buffer.\<close>

definition PAL_RNGReadFrame :: "u8 list option \<Rightarrow> u32 \<Rightarrow> u32 \<Rightarrow> u32 \<Rightarrow> u8 list option \<Rightarrow> ('s, int \<times> u8 list option) M" where
  "PAL_RNGReadFrame lpBuffer uiBufferSize uiRngNum uiFrameNum fp =
     (case (lpBuffer, fp) of
       (Some buf, Some f) \<Rightarrow>
         if uiBufferSize = 0 then ret (-1, lpBuffer)
         else bindM (PAL_MKFGetChunkCount fp) (\<lambda>uiChunkCount.
           if uiRngNum \<ge> uiChunkCount then ret (-1, lpBuffer)
           else let uiOffset = read_uint f (unat (4 * uiRngNum)) 0;
                    uiNextOffset = read_uint f (unat (4 * uiRngNum) + 4) 0 in
             if uiNextOffset - uiOffset = 0 then ret (-1, lpBuffer)
             else let uiChunkCount = (read_uint f (unat uiOffset) uiChunkCount - 4) div 4 in
               if uiFrameNum \<ge> uiChunkCount then ret (-1, lpBuffer)
               else let pos = unat (uiOffset + 4 * uiFrameNum);
                        uiSubOffset = read_uint f pos 0;
                        iChunkLen = read_uint f (pos + 4) uiNextOffset - uiSubOffset in
                 if iChunkLen > uiBufferSize then ret (-2, lpBuffer)
                 else if iChunkLen \<noteq> 0 then
                   (if length buf < length (take (unat iChunkLen) (drop (unat (uiOffset + uiSubOffset)) f)) then fail OutOfBounds
                    else ret (sint iChunkLen, Some (fread_into buf f (unat (uiOffset + uiSubOffset)) (unat iChunkLen))))
                 else ret (-1, lpBuffer))
     | _ \<Rightarrow> ret (-1, lpBuffer))"

section \<open>Drawing a frame\<close>

text \<open>
  \<open>dst_ptr += d\<close> for an \<open>int\<close>. Case 0x04 adds an unsigned number, so there the sum would wrap to a negative
  index; that is taken as undefined here too.
\<close>

definition advance :: "nat \<Rightarrow> nat \<Rightarrow> ('s, nat) M" where
  "advance dst d = (if dst + d > 2147483647 then fail Undefined else ret (dst + d))"

text \<open>Two pixels from \<open>rng[ptr]\<close> and \<open>rng[ptr + 1]\<close>.\<close>

definition put_pair :: "u8 list \<Rightarrow> nat \<Rightarrow> nat \<Rightarrow> (surface, unit) M" where
  "put_pair rng ptr dst =
     (let x = dst mod 320; y = dst div 320; (x', y') = (if x + 1 \<ge> 320 then (0, y + 1) else (x + 1, y)) in
      seqM (bindM (byte_in rng ptr) (put_pixel (int x) (int y)))
           (bindM (byte_in rng (ptr + 1)) (put_pixel (int x') (int y'))))"

text \<open>\<open>n\<close> pairs of their own, and one pair \<open>n\<close> times.\<close>

primrec rng_copy :: "nat \<Rightarrow> u8 list \<Rightarrow> nat \<Rightarrow> nat \<Rightarrow> (surface, nat \<times> nat) M" where
  "rng_copy 0 rng ptr dst = ret (ptr, dst)"
| "rng_copy (Suc n) rng ptr dst =
     seqM (put_pair rng ptr dst) (bindM (advance dst 2) (rng_copy n rng (ptr + 2)))"

primrec rng_fill :: "nat \<Rightarrow> u8 list \<Rightarrow> nat \<Rightarrow> nat \<Rightarrow> (surface, nat) M" where
  "rng_fill 0 rng ptr dst = ret dst"
| "rng_fill (Suc n) rng ptr dst = seqM (put_pair rng ptr dst) (bindM (advance dst 2) (rng_fill n rng ptr))"

text \<open>
  The endless loop; every round moves \<open>ptr\<close> on. The cases 0x0a to 0x06 fall through to the next one. Other
  values of \<open>data\<close> do nothing.
\<close>

primrec rng_loop :: "nat \<Rightarrow> u8 list \<Rightarrow> nat \<Rightarrow> nat \<Rightarrow> (surface, unit) M" where
  "rng_loop 0 rng ptr dst = fail OutOfFuel"
| "rng_loop (Suc n) rng ptr dst =
     bindM (byte_in rng ptr) (\<lambda>data.
     if data = 0x00 \<or> data = 0x13 then ret ()
     else if data = 0x02 then bindM (advance dst 2) (rng_loop n rng (ptr + 1))
     else if data = 0x03 then
       bindM (byte_in rng (ptr + 1)) (\<lambda>d. bindM (advance dst ((unat d + 1) * 2)) (rng_loop n rng (ptr + 2)))
     else if data = 0x04 then
       bindM (word_in rng (ptr + 1)) (\<lambda>w. bindM (advance dst ((w + 1) * 2)) (rng_loop n rng (ptr + 3)))
     else if 0x06 \<le> data \<and> data \<le> 0x0a then
       bindM (rng_copy (unat data - 5) rng (ptr + 1) dst) (\<lambda>(p, d). rng_loop n rng p d)
     else if data = 0x0b then
       bindM (byte_in rng (ptr + 1)) (\<lambda>d. bindM (rng_copy (unat d + 1) rng (ptr + 2) dst) (\<lambda>(p, d). rng_loop n rng p d))
     else if data = 0x0c then
       bindM (word_in rng (ptr + 1)) (\<lambda>w. bindM (rng_copy (w + 1) rng (ptr + 3) dst) (\<lambda>(p, d). rng_loop n rng p d))
     else if 0x0d \<le> data \<and> data \<le> 0x10 then
       bindM (rng_fill (unat data - 11) rng (ptr + 1) dst) (rng_loop n rng (ptr + 3))
     else if data = 0x11 then
       bindM (byte_in rng (ptr + 1)) (\<lambda>d. bindM (rng_fill (unat d + 1) rng (ptr + 2) dst) (rng_loop n rng (ptr + 4)))
     else if data = 0x12 then
       bindM (word_in rng (ptr + 1)) (\<lambda>w. bindM (rng_fill (w + 1) rng (ptr + 3) dst) (rng_loop n rng (ptr + 5)))
     else rng_loop n rng (ptr + 1) dst)"

definition PAL_RNGBlitToSurface :: "int \<Rightarrow> int \<Rightarrow> u8 list option \<Rightarrow> (surface option, int) M" where
  "PAL_RNGBlitToSurface iNumRNG iNumFrame fp =
     bindM (getM (\<lambda>d. d = None)) (\<lambda>null.
     if null \<or> iNumRNG < 0 \<or> iNumFrame < 0 then ret (-1)
     else bindM (PAL_RNGReadFrame (Some (replicate 65000 0)) 65000 (word_of_int iNumRNG) (word_of_int iNumFrame) fp) (\<lambda>(r, buf).
       if r < 0 then ret (-1)
       else bindM (on_buffer (replicate 65000 0) (Decompress buf 65000)) (\<lambda>(_, rng).
         seqM (zoom the (\<lambda>d _. Some d) (rng_loop (length rng + 1) rng 0 0)) (ret 0))))"

end
