(* ===== verification/Pal_Movie_Props.thy ===== *)
theory Pal_Movie_Props
  imports Pal_Movie Pal_YJ1
begin

text \<open>
  Movies: what the operations of a frame draw, and that a frame of an archive reaches the screen, through the
  look-up in the archive, the decompression and the drawing.
\<close>

section \<open>The loop ends\<close>

lemma ends_put_pair:
  assumes "\<And>s. ptr + 1 < length rng \<Longrightarrow> Q () s"
  shows "ends (put_pair rng ptr dst) Q s"
  using assms by (auto simp: put_pair_def ends_simps put_pixel_def Let_def split: prod.split)

lemma ends_rng_copy:
  "(\<And>p d s. ptr \<le> p \<Longrightarrow> p \<le> max ptr (length rng) \<Longrightarrow> Q (p, d) s) \<Longrightarrow> ends (rng_copy n rng ptr dst) Q s"
proof (induction n arbitrary: ptr dst s)
  case (Suc n)
  have "ends (rng_copy n rng (ptr + 2) d) Q t" if "ptr + 1 < length rng" for d t
    by (rule Suc.IH) (use Suc.prems that in auto)
  then show ?case by (auto simp: ends_seqM ends_bindM advance_def ends_simps intro!: ends_put_pair)
qed (simp add: ends_simps)

lemma ends_rng_fill: "(\<And>d s. 0 < n \<Longrightarrow> ptr + 2 \<le> length rng \<Longrightarrow> Q d s) \<Longrightarrow> (\<And>d s. n = 0 \<Longrightarrow> Q d s) \<Longrightarrow> ends (rng_fill n rng ptr dst) Q s"
proof (induction n arbitrary: dst s)
  case (Suc n)
  have "ends (rng_fill n rng ptr d) Q t" if "ptr + 1 < length rng" for d t
    by (rule Suc.IH) (use Suc.prems that in auto)
  then show ?case by (auto simp: ends_seqM ends_bindM advance_def ends_simps intro!: ends_put_pair)
qed (simp add: ends_simps)

lemma ends_rng_loop: "length rng < n + ptr \<Longrightarrow> ptr \<le> length rng \<Longrightarrow> ends (rng_loop n rng ptr dst) (\<lambda>_ _. True) s"
proof (induction n arbitrary: ptr dst s)
  case (Suc n)
  have later: "ends (rng_loop n rng p d) (\<lambda>_ _. True) t" if "ptr < p" "p \<le> length rng" for p d t
    by (rule Suc.IH) (use Suc.prems that in simp_all)
  have more: "\<not> unat x \<le> 11" if "0x0d \<le> x" for x :: u8 using that by (simp add: word_le_nat_alt)
  show ?case
    by (auto simp: ends_simps advance_def more intro!: later ends_rng_copy ends_rng_fill simp del: rng_copy.simps rng_fill.simps)
qed (auto simp: ends_simps)

lemma movies_end: "PAL_RNGBlitToSurface iNumRNG iNumFrame fp d \<noteq> Err OutOfFuel"
proof -
  have dec: "ends (on_buffer b (Decompress Source n)) (\<lambda>_ _. True) t" for b Source n and t :: "surface option"
    using ends_Decompress [of Source n "\<lparr>dest = b, dpos = 0, bitptr = 0\<rparr>"]
    by (auto simp: ends_def on_buffer_def split: outcome.splits)
  have read: "ends (PAL_RNGReadFrame b n i j fp) (\<lambda>_ _. True) t" for b n i j and t :: "surface option"
    by (auto simp: PAL_RNGReadFrame_def PAL_MKFGetChunkCount_def ends_simps Let_def split: option.split)
  have "ends (PAL_RNGBlitToSurface iNumRNG iNumFrame fp) (\<lambda>_ _. True) d"
    unfolding PAL_RNGBlitToSurface_def ends_bindM ends_getM
    by (auto simp: ends_simps simp del: rng_loop.simps intro!: ends_mono [OF read] ends_mono [OF dec] ends_rng_loop)
  then show ?thesis by (rule endsD)
qed

section \<open>Operations of a frame\<close>

text \<open>The forms in which pairs of pixels are left alone, given one by one, or repeated.\<close>

datatype rng_op = Skip2 | SkipB nat | SkipW nat
  | CopyS "(u8 \<times> u8) list" | CopyB "(u8 \<times> u8) list" | CopyW "(u8 \<times> u8) list"
  | FillS nat u8 u8 | FillB nat u8 u8 | FillW nat u8 u8

fun op_pairs :: "rng_op \<Rightarrow> (u8 \<times> u8) option list" where
  "op_pairs Skip2 = [None]"
| "op_pairs (SkipB n) = replicate n None"
| "op_pairs (SkipW n) = replicate n None"
| "op_pairs (CopyS ps) = map Some ps"
| "op_pairs (CopyB ps) = map Some ps"
| "op_pairs (CopyW ps) = map Some ps"
| "op_pairs (FillS n a b) = replicate n (Some (a, b))"
| "op_pairs (FillB n a b) = replicate n (Some (a, b))"
| "op_pairs (FillW n a b) = replicate n (Some (a, b))"

definition pair_bytes :: "(u8 \<times> u8) list \<Rightarrow> u8 list" where
  "pair_bytes ps = concat (map (\<lambda>(a, b). [a, b]) ps)"

definition count_code :: "nat \<Rightarrow> u8" where
  "count_code n = of_nat (n - 1)"

fun op_bytes :: "rng_op \<Rightarrow> u8 list" where
  "op_bytes Skip2 = [2]"
| "op_bytes (SkipB n) = [3, count_code n]"
| "op_bytes (SkipW n) = 4 # w2 (n - 1)"
| "op_bytes (CopyS ps) = of_nat (length ps + 5) # pair_bytes ps"
| "op_bytes (CopyB ps) = [0x0b, count_code (length ps)] @ pair_bytes ps"
| "op_bytes (CopyW ps) = 0x0c # w2 (length ps - 1) @ pair_bytes ps"
| "op_bytes (FillS n a b) = [of_nat (n + 11), a, b]"
| "op_bytes (FillB n a b) = [0x11, count_code n, a, b]"
| "op_bytes (FillW n a b) = 0x12 # w2 (n - 1) @ [a, b]"

text \<open>The numbers that the forms can express.\<close>

fun op_ok :: "rng_op \<Rightarrow> bool" where
  "op_ok Skip2 = True"
| "op_ok (SkipB n) = (0 < n \<and> n \<le> 256)"
| "op_ok (SkipW n) = (0 < n \<and> n \<le> 65536)"
| "op_ok (CopyS ps) = (0 < length ps \<and> length ps \<le> 5)"
| "op_ok (CopyB ps) = (0 < length ps \<and> length ps \<le> 256)"
| "op_ok (CopyW ps) = (0 < length ps \<and> length ps \<le> 65536)"
| "op_ok (FillS n a b) = (2 \<le> n \<and> n \<le> 5)"
| "op_ok (FillB n a b) = (0 < n \<and> n \<le> 256)"
| "op_ok (FillW n a b) = (0 < n \<and> n \<le> 65536)"

definition frame_pairs :: "rng_op list \<Rightarrow> (u8 \<times> u8) option list" where
  "frame_pairs ops = concat (map op_pairs ops)"

definition frame_bytes :: "rng_op list \<Rightarrow> u8 list" where
  "frame_bytes ops = concat (map op_bytes ops) @ [0]"

section \<open>Drawing pairs\<close>

text \<open>The code in the order of the pairs, and what a pixel is afterwards.\<close>

fun draw_pairs :: "nat \<Rightarrow> (u8 \<times> u8) option list \<Rightarrow> u8 list \<Rightarrow> u8 list" where
  "draw_pairs d [] px = px"
| "draw_pairs d (None # ps) px = draw_pairs (d + 2) ps px"
| "draw_pairs d (Some (a, b) # ps) px = draw_pairs (d + 2) ps (px[d := a, d + 1 := b])"

definition changed :: "(u8 \<times> u8) option list \<Rightarrow> u8 list \<Rightarrow> u8 list" where
  "changed ps px = map (\<lambda>k. case if k div 2 < length ps then ps ! (k div 2) else None of
     None \<Rightarrow> px ! k | Some (a, b) \<Rightarrow> if even k then a else b) [0..<length px]"

lemma length_draw_pairs [simp]: "length (draw_pairs d ps px) = length px"
  by (induction d ps px rule: draw_pairs.induct) auto

lemma draw_pairs_nth:
  "d + 2 * length ps \<le> length px \<Longrightarrow> k < length px \<Longrightarrow>
   draw_pairs d ps px ! k =
     (if d \<le> k \<and> k < d + 2 * length ps then
        (case ps ! ((k - d) div 2) of None \<Rightarrow> px ! k | Some (a, b) \<Rightarrow> if even (k - d) then a else b)
      else px ! k)"
proof (induction d ps px rule: draw_pairs.induct)
  case (2 d ps px)
  consider "k < d" | "k = d \<or> k = d + 1" | "d + 2 \<le> k" by linarith
  then show ?case
  proof cases
    case 3
    then obtain j where k: "k = d + 2 + j" using le_Suc_ex by blast
    show ?thesis using 2 unfolding k by (auto split: option.splits)
  qed (use 2 in auto)
next
  case (3 d a b ps px)
  consider "k < d" | "k = d" | "k = d + 1" | "d + 2 \<le> k" by linarith
  then show ?case
  proof cases
    case 4
    then obtain j where k: "k = d + 2 + j" using le_Suc_ex by blast
    show ?thesis using 3 unfolding k by (auto split: option.splits)
  qed (use 3 in auto)
qed auto

lemma draw_pairs_changed: "2 * length ps \<le> length px \<Longrightarrow> draw_pairs 0 ps px = changed ps px"
proof (rule nth_equalityI)
  fix k assume "2 * length ps \<le> length px" "k < length (draw_pairs 0 ps px)"
  moreover have "(k < 2 * length ps) = (k div 2 < length ps)" by linarith
  ultimately show "draw_pairs 0 ps px ! k = changed ps px ! k" by (auto simp: draw_pairs_nth changed_def split: option.splits)
qed (simp add: changed_def)

lemma draw_pairs_append: "draw_pairs d (ps @ qs) px = draw_pairs (d + 2 * length ps) qs (draw_pairs d ps px)"
proof (induction ps arbitrary: d px)
  case (Cons p ps)
  then show ?case by (cases p) (auto simp: add.assoc)
qed simp

lemma draw_pairs_None [simp]: "draw_pairs d (replicate n None) px = px"
  by (induction n arbitrary: d) auto

text \<open>On a surface whose lines are 320 pixels apart.\<close>

definition draws :: "nat \<Rightarrow> (u8 \<times> u8) option list \<Rightarrow> surface \<Rightarrow> surface" where
  "draws d ps s = s\<lparr>pixels := draw_pairs d ps (pixels s)\<rparr>"

lemma draws_simps [simp]:
  "pitch (draws d ps s) = pitch s" "length (pixels (draws d ps s)) = length (pixels s)"
  "draws d [] s = s" "draws d (replicate n None) s = s" "draws (d + 2 * length ps) qs (draws d ps s) = draws d (ps @ qs) s"
  by (simp_all add: draws_def draw_pairs_append)

lemma put_pair_run:
  assumes "even d" "d + 2 \<le> length (pixels s)" "pitch s = 320" "ptr + 1 < length rng"
  shows "put_pair rng ptr d s = Ret () (draws d [Some (rng ! ptr, rng ! (ptr + 1))] s)"
proof -
  have "even (d mod 320)" using assms(1) by (metis dvd_mod even_numeral)
  then have x: "d mod 320 + 1 < 320" by (metis Suc_eq_plus1 Suc_lessI even_Suc even_numeral mod_less_divisor zero_less_numeral)
  have y: "d div 320 * 320 + d mod 320 = d" by simp
  have z: "d div 320 * 320 + (d mod 320 + 1) = d + 1" using y by linarith
  show ?thesis
    using assms x
    by (simp add: put_pair_def put_pixel_def byte_in_def run_simps draws_def y z nat_add_distrib Let_def bindM_def seqM_def)
qed

text \<open>A screen that has room for what follows.\<close>

definition room :: "nat \<Rightarrow> nat \<Rightarrow> surface \<Rightarrow> bool" where
  "room d n s \<longleftrightarrow> even d \<and> pitch s = 320 \<and> d + 2 * n \<le> length (pixels s) \<and> length (pixels s) \<le> 2147483647"

lemma room_draws [simp]: "room d n (draws e ps s) = room d n s"
  by (simp add: room_def)

lemma room_split: "room d (m + n) s \<Longrightarrow> room d m s \<and> room (d + 2 * m) n s"
  by (simp add: room_def)

lemma pair_run:
  assumes "room d (Suc n) s" "bytes_at rng ptr [a, b]"
  shows "put_pair rng ptr d s = Ret () (draws d [Some (a, b)] s)" "advance d 2 t = Ret (d + 2) t"
proof -
  have "rng ! ptr = a" "rng ! (ptr + 1) = b" "ptr + 1 < length rng"
    using assms(2) by (auto simp: bytes_at_def dest: spec [of _ 0] spec [of _ 1])
  then show "put_pair rng ptr d s = Ret () (draws d [Some (a, b)] s)"
    using assms(1) put_pair_run [of d s ptr rng] by (simp add: room_def)
  show "advance d 2 t = Ret (d + 2) t" using assms(1) by (simp add: advance_def room_def)
qed

lemma pair_bytes_simps [simp]: "pair_bytes [] = []" "pair_bytes ((a, b) # ps) = [a, b] @ pair_bytes ps"
  by (simp_all add: pair_bytes_def)

lemma length_pair_bytes [simp]: "length (pair_bytes ps) = 2 * length ps"
  by (induction ps) (auto simp: pair_bytes_def)

lemma rng_copy_run:
  "room d (length ps) s \<Longrightarrow> bytes_at rng ptr (pair_bytes ps) \<Longrightarrow>
   rng_copy (length ps) rng ptr d s = Ret (ptr + 2 * length ps, d + 2 * length ps) (draws d (map Some ps) s)"
proof (induction ps arbitrary: ptr d s)
  case (Cons p ps)
  obtain a b where p: "p = (a, b)" by (cases p)
  have here: "bytes_at rng ptr [a, b]" and rest: "bytes_at rng (ptr + 2) (pair_bytes ps)"
    using Cons.prems(2) unfolding p pair_bytes_simps bytes_at_append by simp_all
  have r: "room d (Suc (length ps)) s" using Cons.prems(1) by simp
  have room: "room (d + 2) (length ps) s" using Cons.prems(1) by (simp add: room_def)
  have ih: "rng_copy (length ps) rng (ptr + 2) (d + 2) (draws d [Some (a, b)] s) =
      Ret (ptr + 2 + 2 * length ps, d + 2 + 2 * length ps) (draws (d + 2) (map Some ps) (draws d [Some (a, b)] s))"
    using room rest by (intro Cons.IH) simp_all
  show ?case
    using pair_run(1) [OF r here] ih draws_simps(5) [of d "[Some (a, b)]" "map Some ps" s]
    by (simp add: p bindM_Ret [of "advance d 2", OF pair_run(2) [OF r here]])
qed simp

lemma rng_fill_run:
  "room d n s \<Longrightarrow> bytes_at rng ptr [a, b] \<Longrightarrow>
   rng_fill n rng ptr d s = Ret (d + 2 * n) (draws d (replicate n (Some (a, b))) s)"
proof (induction n arbitrary: d s)
  case (Suc n)
  have room: "room (d + 2) n s" using Suc.prems(1) by (simp add: room_def)
  have ih: "rng_fill n rng ptr (d + 2) (draws d [Some (a, b)] s) =
      Ret (d + 2 + 2 * n) (draws (d + 2) (replicate n (Some (a, b))) (draws d [Some (a, b)] s))"
    using room Suc.prems(2) by (intro Suc.IH) simp_all
  show ?case
    using pair_run(1) [OF Suc.prems] ih draws_simps(5) [of d "[Some (a, b)]" "replicate n (Some (a, b))" s]
    by (simp add: bindM_Ret [of "advance d 2", OF pair_run(2) [OF Suc.prems]])
qed simp

lemma advance_run: "room d n s \<Longrightarrow> advance d (n * 2) t = Ret (d + 2 * n) t"
  by (simp add: advance_def room_def)

lemma first_byte: "bytes_at rng ptr (c # bs) \<Longrightarrow> byte_in rng ptr s = Ret c s"
  using byte_in_at [of rng ptr "c # bs" 0 s] by simp

lemma rest_bytes: "bytes_at rng ptr (c # bs) \<Longrightarrow> bytes_at rng (ptr + 1) bs"
  using bytes_at_append [of rng ptr "[c]" bs] by simp

lemma rng_loop_byte:
  "bytes_at rng ptr (c # bs) \<Longrightarrow> rng_loop (Suc n) rng ptr d s =
    (if c = 0x00 \<or> c = 0x13 then Ret () s
     else if c = 0x02 then bindM (advance d 2) (rng_loop n rng (ptr + 1)) s
     else if c = 0x03 then
       bindM (byte_in rng (ptr + 1)) (\<lambda>v. bindM (advance d ((unat v + 1) * 2)) (rng_loop n rng (ptr + 2))) s
     else if c = 0x04 then
       bindM (word_in rng (ptr + 1)) (\<lambda>w. bindM (advance d ((w + 1) * 2)) (rng_loop n rng (ptr + 3))) s
     else if 0x06 \<le> c \<and> c \<le> 0x0a then
       bindM (rng_copy (unat c - 5) rng (ptr + 1) d) (\<lambda>(p, d). rng_loop n rng p d) s
     else if c = 0x0b then
       bindM (byte_in rng (ptr + 1)) (\<lambda>v. bindM (rng_copy (unat v + 1) rng (ptr + 2) d) (\<lambda>(p, d). rng_loop n rng p d)) s
     else if c = 0x0c then
       bindM (word_in rng (ptr + 1)) (\<lambda>w. bindM (rng_copy (w + 1) rng (ptr + 3) d) (\<lambda>(p, d). rng_loop n rng p d)) s
     else if 0x0d \<le> c \<and> c \<le> 0x10 then
       bindM (rng_fill (unat c - 11) rng (ptr + 1) d) (rng_loop n rng (ptr + 3)) s
     else if c = 0x11 then
       bindM (byte_in rng (ptr + 1)) (\<lambda>v. bindM (rng_fill (unat v + 1) rng (ptr + 2) d) (rng_loop n rng (ptr + 4))) s
     else if c = 0x12 then
       bindM (word_in rng (ptr + 1)) (\<lambda>w. bindM (rng_fill (w + 1) rng (ptr + 3) d) (rng_loop n rng (ptr + 5))) s
     else rng_loop n rng (ptr + 1) d s)"
  unfolding rng_loop.simps(2) bindM_Ret [of "byte_in rng ptr" s, OF first_byte] by simp

text \<open>The byte or word with a number of pairs less one.\<close>

lemma count_byte: "0 < n \<Longrightarrow> n \<le> 256 \<Longrightarrow> unat (count_code n) + 1 = n"
  using byte_unat [of "n - 1"] unfolding count_code_def by linarith

lemma count_word:
  assumes "bytes_at rng ptr (w2 (n - 1) @ bs)" "0 < n" "n \<le> 65536"
  shows "word_in rng ptr s = Ret (n - 1) s" "bytes_at rng (ptr + 2) bs"
proof -
  have at: "bytes_at rng ptr (w2 (n - 1))" "bytes_at rng (ptr + length (w2 (n - 1))) bs"
    using assms(1) unfolding bytes_at_append by blast+
  show "word_in rng ptr s = Ret (n - 1) s" by (rule word_in_w2 [OF at(1)]) (use assms(2,3) in linarith)
  show "bytes_at rng (ptr + 2) bs" using at(2) by (simp add: w2_def)
qed

lemma ptr_steps: "p + 3 = Suc (Suc (Suc p))" "p + 4 = Suc (Suc (Suc (Suc p)))" "p + 5 = Suc (Suc (Suc (Suc (Suc p))))"
  by simp_all

lemma copy_code:
  assumes "1 \<le> n" "n \<le> 5" "c = (of_nat (n + 5) :: u8)"
  shows "c \<noteq> 0 \<and> c \<noteq> 0x13 \<and> c \<noteq> 2 \<and> c \<noteq> 3 \<and> c \<noteq> 4 \<and> 6 \<le> c \<and> c \<le> 10 \<and> unat c - 5 = n"
proof -
  have "n = 1 \<or> n = 2 \<or> n = 3 \<or> n = 4 \<or> n = 5" using assms(1,2) by arith
  then show ?thesis using assms(3) by auto
qed

lemma fill_code:
  assumes "2 \<le> n" "n \<le> 5" "c = (of_nat (n + 11) :: u8)"
  shows "c \<noteq> 0 \<and> c \<noteq> 0x13 \<and> c \<noteq> 2 \<and> c \<noteq> 3 \<and> c \<noteq> 4 \<and> \<not> c \<le> 10 \<and> c \<noteq> 11 \<and> c \<noteq> 12 \<and> 13 \<le> c \<and> c \<le> 16 \<and> unat c - 11 = n"
proof -
  have "n = 2 \<or> n = 3 \<or> n = 4 \<or> n = 5" using assms(1,2) by arith
  then show ?thesis using assms(3) by auto
qed

lemma op_run:
  assumes "op_ok op" "bytes_at rng ptr (op_bytes op)" "room d (length (op_pairs op)) s"
  shows "rng_loop (Suc n) rng ptr d s =
    rng_loop n rng (ptr + length (op_bytes op)) (d + 2 * length (op_pairs op)) (draws d (op_pairs op) s)"
proof (cases op)
  case Skip2
  then show ?thesis using assms advance_run [of d 1 s s] draws_simps(4) [of d 1 s] by (simp add: rng_loop_byte ptr_steps del: rng_loop.simps rng_copy.simps rng_fill.simps)
next
  case (SkipB k)
  then have k: "unat (count_code k) + 1 = k" using assms(1) by (intro count_byte) simp_all
  have "byte_in rng (ptr + 1) s = Ret (count_code k) s" using assms(2) SkipB by (intro first_byte [OF rest_bytes]) simp
  moreover have "advance d ((unat (count_code k) + 1) * 2) s = Ret (d + 2 * k) s"
    unfolding k using advance_run assms(3) SkipB by simp
  ultimately show ?thesis using assms SkipB by (simp add: rng_loop_byte ptr_steps del: rng_loop.simps rng_copy.simps rng_fill.simps)
next
  case (SkipW k)
  then have "word_in rng (ptr + 1) s = Ret (k - 1) s"
    using assms count_word(1) [of rng "ptr + 1" k "[]" s] rest_bytes [of rng ptr 4] by simp
  moreover have "advance d ((k - 1 + 1) * 2) s = Ret (d + 2 * k) s"
    using advance_run assms(1,3) SkipW by simp
  ultimately show ?thesis using assms SkipW by (simp add: rng_loop_byte w2_def ptr_steps del: rng_loop.simps rng_copy.simps rng_fill.simps)
next
  case (CopyS ps)
  define c :: u8 where "c = of_nat (length ps + 5)"
  have l: "1 \<le> length ps" "length ps \<le> 5" using assms(1) CopyS by (simp_all add: Suc_le_eq)
  have at: "bytes_at rng ptr (c # pair_bytes ps)" using assms(2) CopyS by (simp add: c_def)
  have "rng_copy (length ps) rng (ptr + 1) d s = Ret (ptr + 1 + 2 * length ps, d + 2 * length ps) (draws d (map Some ps) s)"
    using assms(3) CopyS rest_bytes [OF at] by (intro rng_copy_run) simp_all
  then show ?thesis
    unfolding rng_loop_byte [OF at] using copy_code [OF l c_def] CopyS by (simp del: rng_loop.simps rng_copy.simps rng_fill.simps)
next
  case (CopyB ps)
  then have k: "unat (count_code (length ps)) + 1 = length ps" using assms(1) by (intro count_byte) simp_all
  have "bytes_at rng (ptr + 1) (count_code (length ps) # pair_bytes ps)"
    using assms(2) CopyB rest_bytes [of rng ptr 11] by simp
  note first_byte [OF this, of s] rest_bytes [OF this]
  moreover from this(2) have "rng_copy (length ps) rng (ptr + 2) d s = Ret (ptr + 2 + 2 * length ps, d + 2 * length ps) (draws d (map Some ps) s)"
    using assms CopyB by (intro rng_copy_run) simp_all
  ultimately show ?thesis using assms(2) CopyB k by (simp add: rng_loop_byte ptr_steps del: rng_loop.simps rng_copy.simps rng_fill.simps)
next
  case (CopyW ps)
  then have "bytes_at rng (ptr + 1) (w2 (length ps - 1) @ pair_bytes ps)"
    using assms(2) rest_bytes [of rng ptr 12] by simp
  note count_word(1) [OF this, of s] count_word(2) [OF this]
  moreover have "bytes_at rng (ptr + 3) (pair_bytes ps)" using calculation(2) assms(1) CopyW by (simp add: ptr_steps)
  then have "rng_copy (length ps) rng (ptr + 3) d s = Ret (ptr + 3 + 2 * length ps, d + 2 * length ps) (draws d (map Some ps) s)"
    using assms CopyW by (intro rng_copy_run) simp_all
  ultimately show ?thesis using assms(1,2) CopyW by (simp add: rng_loop_byte w2_def ptr_steps del: rng_loop.simps rng_copy.simps rng_fill.simps)
next
  case (FillS k a b)
  define c :: u8 where "c = of_nat (k + 11)"
  have l: "2 \<le> k" "k \<le> 5" using assms(1) FillS by simp_all
  have at: "bytes_at rng ptr (c # [a, b])" using assms(2) FillS by (simp add: c_def)
  have "rng_fill k rng (ptr + 1) d s = Ret (d + 2 * k) (draws d (replicate k (Some (a, b))) s)"
    using assms(3) FillS rest_bytes [OF at] by (intro rng_fill_run) simp_all
  then show ?thesis
    unfolding rng_loop_byte [OF at] using fill_code [OF l c_def] FillS by (simp del: rng_loop.simps rng_copy.simps rng_fill.simps add: ptr_steps)
next
  case (FillB k a b)
  then have k: "unat (count_code k) + 1 = k" using assms(1) by (intro count_byte) simp_all
  have "bytes_at rng (ptr + 1) (count_code k # [a, b])"
    using assms(2) FillB rest_bytes [of rng ptr "0x11"] by simp
  note first_byte [OF this, of s] rest_bytes [OF this]
  moreover from this(2) have "rng_fill k rng (ptr + 2) d s = Ret (d + 2 * k) (draws d (replicate k (Some (a, b))) s)"
    using assms FillB by (intro rng_fill_run) simp_all
  ultimately show ?thesis using assms(2) FillB k by (simp add: rng_loop_byte ptr_steps del: rng_loop.simps rng_copy.simps rng_fill.simps)
next
  case (FillW k a b)
  then have "bytes_at rng (ptr + 1) (w2 (k - 1) @ [a, b])"
    using assms(2) rest_bytes [of rng ptr "0x12"] by simp
  note count_word(1) [OF this, of s] count_word(2) [OF this]
  moreover have "bytes_at rng (ptr + 3) [a, b]" using calculation(2) assms(1) FillW by (simp add: ptr_steps)
  then have "rng_fill k rng (ptr + 3) d s = Ret (d + 2 * k) (draws d (replicate k (Some (a, b))) s)"
    using assms FillW by (intro rng_fill_run) simp_all
  ultimately show ?thesis using assms(1,2) FillW by (simp add: rng_loop_byte w2_def ptr_steps del: rng_loop.simps rng_copy.simps rng_fill.simps)
qed

lemma frame_run:
  "(\<forall>op \<in> set ops. op_ok op) \<Longrightarrow> bytes_at rng ptr (frame_bytes ops) \<Longrightarrow> room d (length (frame_pairs ops)) s \<Longrightarrow>
   length ops < n \<Longrightarrow> rng_loop n rng ptr d s = Ret () (draws d (frame_pairs ops) s)"
proof (induction ops arbitrary: n ptr d s)
  case Nil
  then obtain k where "n = Suc k" by (cases n) auto
  then show ?case using Nil by (simp add: frame_bytes_def frame_pairs_def rng_loop_byte del: rng_loop.simps)
next
  case (Cons op ops)
  then obtain k where n: "n = Suc k" "length ops < k" by (cases n) auto
  have at: "bytes_at rng ptr (op_bytes op)" "bytes_at rng (ptr + length (op_bytes op)) (frame_bytes ops)"
    using Cons.prems(2) by (simp_all add: frame_bytes_def bytes_at_append)
  have r: "room d (length (op_pairs op)) s" "room (d + 2 * length (op_pairs op)) (length (frame_pairs ops)) s"
    using Cons.prems(3) by (simp_all add: frame_pairs_def room_def)
  have "rng_loop n rng ptr d s =
      rng_loop k rng (ptr + length (op_bytes op)) (d + 2 * length (op_pairs op)) (draws d (op_pairs op) s)"
    unfolding n(1) using Cons.prems(1) at(1) r(1) by (intro op_run) simp_all
  also have "\<dots> = Ret () (draws (d + 2 * length (op_pairs op)) (frame_pairs ops) (draws d (op_pairs op) s))"
    using Cons.prems(1) at(2) r(2) n(2) by (intro Cons.IH) simp_all
  finally show ?case by (simp add: frame_pairs_def)
qed

section \<open>Archives\<close>

text \<open>The offsets of the chunks and of the end, and the chunks.\<close>

definition w4 :: "nat \<Rightarrow> u8 list" where
  "w4 v = map (\<lambda>i. byte_at i (of_nat v :: u32)) [0..<4]"

definition chunk_start :: "u8 list list \<Rightarrow> nat \<Rightarrow> nat" where
  "chunk_start cs i = 4 * (length cs + 1) + length (concat (take i cs))"

definition mkf :: "u8 list list \<Rightarrow> u8 list" where
  "mkf cs = concat (map (\<lambda>i. w4 (chunk_start cs i)) [0..<length cs + 1]) @ concat cs"

lemma length_w4 [simp]: "length (w4 v) = 4"
  by (simp add: w4_def)

lemma read_uint_w4: "bytes_at f p (w4 v) \<Longrightarrow> read_uint f p d = of_nat v"
proof -
  assume at: "bytes_at f p (w4 v)"
  have "read_uint f p d = le32 (\<lambda>i. byte_at i (of_nat v))"
    unfolding read_uint_def by (rule le32_cong) (use at in \<open>auto simp: bytes_at_def w4_def\<close>)
  then show ?thesis by simp
qed

lemma bytes_at_mid: "bytes_at (xs @ ys @ zs) (length xs) ys"
  by (simp add: bytes_at_def nth_append)

lemma bytes_at_trans: "bytes_at f p g \<Longrightarrow> bytes_at g q bs \<Longrightarrow> bytes_at f (p + q) bs"
  unfolding bytes_at_def by (auto simp: add.assoc)

lemma bytes_at_take: "bytes_at f p bs \<Longrightarrow> take (length bs) (drop p f) = bs"
  by (rule nth_equalityI) (auto simp: bytes_at_def)

lemma chunk_start_Suc: "i < length cs \<Longrightarrow> chunk_start cs (Suc i) = chunk_start cs i + length (cs ! i)"
  by (simp add: chunk_start_def take_Suc_conv_app_nth)

lemma length_table: "length (concat (map (\<lambda>i. w4 (g i)) is)) = 4 * length is"
  by (induction "is") auto

lemma length_mkf: "length (mkf cs) = chunk_start cs (length cs)"
  by (simp add: mkf_def length_table chunk_start_def del: upt_Suc)

lemma mkf_table: "i \<le> length cs \<Longrightarrow> bytes_at (mkf cs) (4 * i) (w4 (chunk_start cs i))"
proof -
  assume "i \<le> length cs"
  then have "[0..<length cs + 1] = [0..<i] @ i # [Suc i..<length cs + 1]"
    using upt_add_eq_append [of 0 i "length cs + 1 - i"] upt_conv_Cons [of i "length cs + 1"] by simp
  then have "mkf cs = concat (map (\<lambda>i. w4 (chunk_start cs i)) [0..<i]) @ w4 (chunk_start cs i) @
      (concat (map (\<lambda>i. w4 (chunk_start cs i)) [Suc i..<length cs + 1]) @ concat cs)"
    unfolding mkf_def by simp
  then show ?thesis using bytes_at_mid length_table [of "chunk_start cs" "[0..<i]"] by (metis length_upt diff_zero)
qed

lemma mkf_chunk: "i < length cs \<Longrightarrow> bytes_at (mkf cs) (chunk_start cs i) (cs ! i)"
proof -
  assume "i < length cs"
  then have "concat cs = concat (take i cs) @ cs ! i @ concat (drop (Suc i) cs)"
    by (metis append_take_drop_id concat.simps(2) concat_append Cons_nth_drop_Suc)
  then have "mkf cs = (concat (map (\<lambda>i. w4 (chunk_start cs i)) [0..<length cs + 1]) @ concat (take i cs)) @ cs ! i @ concat (drop (Suc i) cs)"
    unfolding mkf_def by simp
  moreover have "length (concat (map (\<lambda>i. w4 (chunk_start cs i)) [0..<length cs + 1]) @ concat (take i cs)) = chunk_start cs i"
    unfolding length_append length_table by (simp add: chunk_start_def)
  ultimately show ?thesis using bytes_at_mid by metis
qed

lemma bytes_at_self: "bytes_at (f @ rest) 0 f"
  by (simp add: bytes_at_def nth_append)

lemma bytes_at_end: "bytes_at f p bs \<Longrightarrow> p + length bs \<le> length f"
  by (simp add: bytes_at_def)

text \<open>Offsets below \<open>2 ^ 31\<close> as words.\<close>

lemma unat_small: "v < 2 ^ 31 \<Longrightarrow> unat (of_nat v :: u32) = v"
  by (simp add: unat_of_nat)

lemma sint_word_of_size: "v < 2 ^ 31 \<Longrightarrow> sint (of_nat v :: u32) = int v"
proof -
  assume v: "v < 2 ^ 31"
  define w :: u32 where "w = of_nat v"
  have "uint w = int v" unfolding w_def using unat_small [OF v] by (metis uint_nat)
  moreover have "sint w = signed_take_bit 31 (uint w)" by (simp add: sint_uint)
  moreover have "signed_take_bit 31 (int v) = int v" using v by (intro signed_take_bit_int_eq_self) auto
  ultimately show ?thesis by (simp only: w_def)
qed

lemma small_le: "a < 2 ^ 31 \<Longrightarrow> b < 2 ^ 31 \<Longrightarrow> ((of_nat a :: u32) \<le> of_nat b) = (a \<le> b)"
  by (simp add: word_le_nat_alt unat_small)

lemma chunk_count_run:
  assumes "bytes_at f 0 (mkf cs)" "length f < 2 ^ 31"
  shows "PAL_MKFGetChunkCount (Some f) s = Ret (of_nat (length cs)) s"
proof -
  have at: "bytes_at f 0 (w4 (chunk_start cs 0))" using bytes_at_trans [OF assms(1) mkf_table [of 0 cs]] by simp
  have c: "chunk_start cs 0 = 4 * (length cs + 1)" by (simp add: chunk_start_def)
  have "chunk_start cs 0 \<le> length (mkf cs)" by (simp add: length_mkf chunk_start_def)
  then have "chunk_start cs 0 < 2 ^ 31" using bytes_at_end [OF assms(1)] assms(2) by linarith
  then have "sint (read_uint f 0 0) = int (4 * (length cs + 1))" unfolding read_uint_w4 [OF at] c by (rule sint_word_of_size)
  moreover have "4 \<le> length f" using bytes_at_end [OF at] by simp
  ultimately show ?thesis by (simp add: PAL_MKFGetChunkCount_def)
qed

section \<open>A frame of an archive\<close>

definition movie_file :: "u8 list list list \<Rightarrow> u8 list" where
  "movie_file movies = mkf (map mkf movies)"

lemma read_frame_run:
  assumes f: "length (movie_file movies) < 2 ^ 31" and m: "m < length movies" and k: "k < length (movies ! m)"
    and frame: "movies ! m ! k = b" "b \<noteq> []" "length b \<le> length buf" "length buf < 2 ^ 31"
  shows "PAL_RNGReadFrame (Some buf) (of_nat (length buf)) (of_nat m) (of_nat k) (Some (movie_file movies)) s =
    Ret (int (length b), Some (b @ drop (length b) buf)) s"
proof -
  define cs where "cs = map mkf movies"
  define fs where "fs = movies ! m"
  define o1 where "o1 = chunk_start cs m"
  define o2 where "o2 = chunk_start fs k"
  let ?f = "movie_file movies"
  have mk: "?f = mkf cs" by (simp add: movie_file_def cs_def)
  have self: "bytes_at ?f 0 (mkf cs)" using bytes_at_self [of "mkf cs" "[]"] mk by simp
  have inner: "bytes_at ?f o1 (mkf fs)"
    using mkf_chunk [of m cs] m by (simp add: mk o1_def cs_def fs_def)
  have table: "bytes_at ?f (4 * m) (w4 o1)" "bytes_at ?f (4 * m + 4) (w4 (o1 + length (mkf fs)))"
    using mkf_table [of m cs] mkf_table [of "Suc m" cs] m chunk_start_Suc [of m cs]
    by (simp_all add: mk o1_def cs_def fs_def add.commute)
  have sub: "bytes_at ?f (o1 + 4 * k) (w4 o2)" "bytes_at ?f (o1 + 4 * k + 4) (w4 (o2 + length b))" "bytes_at ?f o1 (w4 (4 * (length fs + 1)))"
    using bytes_at_trans [OF inner mkf_table [of k fs]] bytes_at_trans [OF inner mkf_table [of "Suc k" fs]]
      bytes_at_trans [OF inner mkf_table [of 0 fs]] k chunk_start_Suc [of k fs] frame(1)
    by (simp_all add: o2_def fs_def chunk_start_def [of _ 0] add.assoc add.commute [of 4])
  have data: "bytes_at ?f (o1 + o2) b"
    using bytes_at_trans [OF inner mkf_chunk [of k fs]] k frame(1) by (simp add: o2_def fs_def)
  have small: "4 * m + 4 < 2 ^ 31" "o1 + length (mkf fs) < 2 ^ 31" "o1 + 4 * k + 4 < 2 ^ 31" "o1 + o2 + length b < 2 ^ 31"
    "4 * (length fs + 1) < 2 ^ 31" "m < 2 ^ 31" "length cs < 2 ^ 31" "length b < 2 ^ 31" "length fs < 2 ^ 31" "k < 2 ^ 31"
    "length (mkf fs) < 2 ^ 31"
  proof -
    show "4 * m + 4 < 2 ^ 31" using bytes_at_end [OF table(2)] f by simp
    show "o1 + length (mkf fs) < 2 ^ 31" using bytes_at_end [OF inner] f by simp
    show "o1 + 4 * k + 4 < 2 ^ 31" using bytes_at_end [OF sub(2)] f by simp
    show "o1 + o2 + length b < 2 ^ 31" using bytes_at_end [OF data] f by simp
    have "4 * (length fs + 1) \<le> length (mkf fs)" by (simp add: length_mkf chunk_start_def)
    then show "4 * (length fs + 1) < 2 ^ 31" using bytes_at_end [OF inner] f by linarith
    then show "length fs < 2 ^ 31" by simp
    then show "k < 2 ^ 31" using k by (simp add: fs_def)
    have "4 * (length cs + 1) \<le> length (mkf cs)" by (simp add: length_mkf chunk_start_def)
    then show "length cs < 2 ^ 31" using f unfolding mk by simp
    then show "m < 2 ^ 31" using m by (simp add: cs_def)
    show "length b < 2 ^ 31" using frame(3,4) by linarith
    show "length (mkf fs) < 2 ^ 31" using bytes_at_end [OF inner] f by linarith
  qed
  have count: "PAL_MKFGetChunkCount (Some ?f) s = Ret (of_nat (length cs)) s"
    by (rule chunk_count_run [OF self f])
  have in_range: "\<not> (of_nat (length cs) :: u32) \<le> of_nat m" "\<not> (of_nat (length fs) :: u32) \<le> of_nat k"
    using small_le [of "length cs" m] small_le [of "length fs" k] small m k by (simp_all add: cs_def fs_def)
  have p1: "unat (4 * of_nat m :: u32) = 4 * m" using unat_small [of "4 * m"] small(1) by simp
  have p2: "unat (of_nat o1 :: u32) = o1" using unat_small [of o1] small(2) by simp
  have p3: "unat (of_nat o1 + 4 * of_nat k :: u32) = o1 + 4 * k" using unat_small [of "o1 + 4 * k"] small(3) by simp
  have p4: "unat (of_nat o1 + of_nat o2 :: u32) = o1 + o2" using unat_small [of "o1 + o2"] small(4) by simp
  have p5: "unat (of_nat (length b) :: u32) = length b" "unat (of_nat (length buf) :: u32) = length buf"
    using unat_small small(8) frame(4) by blast+
  have n1: "(of_nat (length (mkf fs)) :: u32) \<noteq> 0"
    using unat_small [OF small(11)] by (auto simp: length_mkf chunk_start_def)
  have n2: "(of_nat (length b) :: u32) \<noteq> 0" "(of_nat (length buf) :: u32) \<noteq> 0"
    using p5 frame(2,3) by auto
  have n3: "\<not> (of_nat (length buf) :: u32) < of_nat (length b)" using p5 frame(3) by (simp add: word_less_nat_alt)
  have c: "(of_nat (4 * length fs) :: u32) div 4 = of_nat (length fs)"
  proof -
    have "unat (of_nat (4 * length fs) :: u32) = 4 * length fs" using small(5) by (intro unat_small) simp
    then have "unat ((of_nat (4 * length fs) :: u32) div 4) = length fs" by (simp only: unat_div) simp
    then show ?thesis using unat_small [OF small(9)] by (simp only: word_unat_eq_iff)
  qed
  have n4: "\<not> length buf < length b" using frame(3) by simp
  show ?thesis
    unfolding PAL_RNGReadFrame_def
    using count in_range n1 n2 n3 n4
    by (simp add: p1 p2 p3 p4 p5 read_uint_w4 [OF table(1)] read_uint_w4 [OF table(2)] read_uint_w4 [OF sub(1)] read_uint_w4 [OF sub(2)]
      read_uint_w4 [OF sub(3)] c bytes_at_take [OF data] frame(3) sint_word_of_size [OF small(8)] fread_into_def Let_def
      del: of_nat_Suc of_nat_mult)
qed

text \<open>What a compressor can write for the data; see Pal_YJ1 for the format.\<close>

definition compressed :: "u8 list \<Rightarrow> u8 list \<Rightarrow> bool" where
  "compressed data b \<longleftrightarrow> (\<exists>nodes code bs. even (length nodes) \<and> length nodes \<le> 510 \<and> length bs < 65536
     \<and> blocks_ok ((False, 0) # nodes) code 0 bs \<and> data = fold block_out bs [] \<and> b = yj1_file nodes code bs (length data))"

lemma compressed_run:
  assumes "compressed data b" "length data \<le> 65000"
  shows "\<exists>r. on_buffer (replicate 65000 0) (Decompress (Some (b @ rest)) 65000) s =
    Ret (r, data @ replicate (65000 - length data) 0) s"
proof -
  obtain nodes code bs where c: "even (length nodes)" "length nodes \<le> 510" "length bs < 65536"
    "blocks_ok ((False, 0) # nodes) code 0 bs" "data = fold block_out bs []" "b = yj1_file nodes code bs (length data)"
    using assms(1) unfolding compressed_def by blast
  have "wp (Decompress (Some (yj1_file nodes code bs (length data) @ rest)) 65000)
    (\<lambda>r t. r = int (length data) \<and> dest t = data @ drop (length data) (dest \<lparr>dest = replicate 65000 0, dpos = 0, bitptr = 0\<rparr>))
    \<lparr>dest = replicate 65000 0, dpos = 0, bitptr = 0\<rparr>"
    by (rule decompress_compressed [OF c(1-5)]) (use assms(2) in simp_all)
  then obtain r t where "Decompress (Some (b @ rest)) 65000 \<lparr>dest = replicate 65000 0, dpos = 0, bitptr = 0\<rparr> = Ret r t"
    "dest t = data @ replicate (65000 - length data) 0"
    unfolding wp_Ret_iff c(6) [symmetric] by auto
  then show ?thesis by (simp add: on_buffer_def)
qed

lemma bindM_getM: "bindM (getM h) f s = f (h s) s"
  by (simp add: bindM_def)

lemma length_ops: "length ops < length (frame_bytes ops)"
proof (induction ops)
  case (Cons op ops)
  have "1 \<le> length (op_bytes op)" by (cases op) simp_all
  moreover have "length (frame_bytes (op # ops)) = length (op_bytes op) + length (frame_bytes ops)" by (simp add: frame_bytes_def)
  ultimately show ?case using Cons by simp
qed (simp add: frame_bytes_def)

text \<open>
  C18. A frame of a movie reaches the screen. Take an archive of movies, each an archive of frames, and a frame
  whose data, in any of the forms for pairs of pixels that are left alone, given or repeated, is compressed in
  any way the format allows. Then \<open>PAL_RNGBlitToSurface\<close> finds the frame, decompresses it and sets exactly the
  pixels it gives, on a screen with lines of 320 pixels; all others keep their color.
\<close>

theorem movie_frame_is_drawn:
  assumes "length (movie_file movies) < 2 ^ 31" "m < length movies" "k < length (movies ! m)"
    and "compressed (frame_bytes ops) (movies ! m ! k)" "length (movies ! m ! k) \<le> 65000" "length (frame_bytes ops) \<le> 65000"
    and "\<forall>op \<in> set ops. op_ok op" "pitch s = 320" "2 * length (frame_pairs ops) \<le> length (pixels s)" "length (pixels s) < 2 ^ 31"
  shows "PAL_RNGBlitToSurface (int m) (int k) (Some (movie_file movies)) (Some s) =
    Ret 0 (Some (s\<lparr>pixels := changed (frame_pairs ops) (pixels s)\<rparr>))"
proof -
  define b where "b = movies ! m ! k"
  define buf :: "u8 list" where "buf = replicate 65000 0"
  define rng where "rng = frame_bytes ops @ replicate (65000 - length (frame_bytes ops)) 0"
  have "b \<noteq> []" using assms(4) by (auto simp: b_def compressed_def yj1_file_def)
  then have read: "PAL_RNGReadFrame (Some buf) (of_nat (length buf)) (of_nat m) (of_nat k) (Some (movie_file movies)) (Some s) =
      Ret (int (length b), Some (b @ drop (length b) buf)) (Some s)"
    using assms(5) by (intro read_frame_run [OF assms(1-3)]) (simp_all add: b_def buf_def)
  obtain r where dec: "on_buffer buf (Decompress (Some (b @ drop (length b) buf)) 65000) (Some s) = Ret (r, rng) (Some s)"
    using compressed_run [OF assms(4,6), of "drop (length b) buf" "Some s"] unfolding b_def buf_def rng_def by blast
  have "rng_loop (length rng + 1) rng 0 0 s = Ret () (draws 0 (frame_pairs ops) s)"
  proof (rule frame_run [OF assms(7)])
    show "bytes_at rng 0 (frame_bytes ops)" unfolding rng_def by (rule bytes_at_self)
    show "room 0 (length (frame_pairs ops)) s" using assms(8-10) by (simp add: room_def)
    show "length ops < length rng + 1" using length_ops [of ops] by (simp add: rng_def)
  qed
  then have draw: "zoom the (\<lambda>d _. Some d) (rng_loop (length rng + 1) rng 0 0) (Some s) =
      Ret () (Some (s\<lparr>pixels := changed (frame_pairs ops) (pixels s)\<rparr>))"
    using assms(9) by (simp add: zoom_def draws_def draw_pairs_changed)
  have len: "of_nat (length buf) = (65000 :: u32)" by (simp add: buf_def)
  show ?thesis
    unfolding PAL_RNGBlitToSurface_def buf_def [symmetric]
    using read [unfolded len] dec draw by (simp add: bindM_getM del: rng_loop.simps)
qed

text \<open>A movie of one frame with a stored block.\<close>

definition small_ops :: "rng_op list" where
  "small_ops = [CopyS [(1, 2), (3, 4)], Skip2, FillB 3 7 8]"

definition small_frame :: "u8 list" where
  "small_frame = yj1_file [] (\<lambda>_. []) [Stored (frame_bytes small_ops)] (length (frame_bytes small_ops))"

theorem movie_frame_is_drawn_witness:
  "PAL_RNGBlitToSurface (int 0) (int 0) (Some (movie_file [[small_frame]])) (Some \<lparr>surf_w = 320, surf_h = 200, pitch = 320, pixels = replicate 64000 0\<rparr>) =
    Ret 0 (Some (\<lparr>surf_w = 320, surf_h = 200, pitch = 320, pixels = replicate 64000 0\<rparr>\<lparr>pixels := changed (frame_pairs small_ops)
      (pixels \<lparr>surf_w = 320, surf_h = 200, pitch = 320, pixels = replicate 64000 0\<rparr>)\<rparr>))"
proof (rule movie_frame_is_drawn)
  have l: "length (frame_bytes small_ops) = 11" by (simp add: frame_bytes_def small_ops_def)
  have n: "length small_frame \<le> 65000"
    by (simp add: small_frame_def yj1_file_def l w2_def tree_bits_def)
  show "length (movie_file [[small_frame]]) < 2 ^ 31" "length ([[small_frame]] ! 0 ! 0) \<le> 65000"
    using n by (simp_all add: movie_file_def length_mkf chunk_start_def)
  show "compressed (frame_bytes small_ops) ([[small_frame]] ! 0 ! 0)"
    unfolding compressed_def using l
    by (intro exI [of _ "[]"] exI [of _ "\<lambda>_. []"] exI [of _ "[Stored (frame_bytes small_ops)]"]) (simp add: small_frame_def)
qed (simp_all add: frame_bytes_def frame_pairs_def small_ops_def)

end
