(* ===== verification/Pal_Battle.thy ===== *)
theory Pal_Battle
  imports Pal_State Float
begin

unbundle bit_operations_syntax

text \<open>
  The rules of the battle in the role-playing game, without \<open>PAL_CLASSIC\<close>: game/src/nemu-pal/battle/fight.c
  and the choice of actions in ui/uibattle.c. Damage, dexterity, the gestures of the fighters, who is ready,
  committing an action, its validation when it is due, whose turn it is, the enemies that were defeated. The
  animations and the frame loop around these functions wait for the unfinished \<open>SDL_GetTicks\<close>.
\<close>

section \<open>State\<close>

datatype FIGHTERSTATE = kFighterWait | kFighterCom | kFighterAct

datatype BATTLEACTIONTYPE = kBattleActionPass | kBattleActionDefend | kBattleActionAttack | kBattleActionMagic
  | kBattleActionCoopMagic | kBattleActionFlee | kBattleActionThrowItem | kBattleActionUseItem | kBattleActionAttackMate

datatype BATTLEUISTATE = kBattleUIWait | kBattleUISelectMove | kBattleUISelectTargetEnemy | kBattleUISelectTargetPlayer
  | kBattleUISelectTargetEnemyAll | kBattleUISelectTargetPlayerAll

datatype BATTLEMENUSTATE = kBattleMenuMain | kBattleMenuMagicSelect | kBattleMenuUseItemSelect | kBattleMenuThrowItemSelect
  | kBattleMenuMisc | kBattleMenuMiscItemSubMenu

datatype BATTLEUIACTION = kBattleUIActionAttack | kBattleUIActionMagic | kBattleUIActionCoopMagic | kBattleUIActionMisc

abbreviation (input) MAX_PLAYERS_IN_PARTY :: nat where "MAX_PLAYERS_IN_PARTY \<equiv> 3"
abbreviation (input) MAX_ENEMIES_IN_TEAM :: nat where "MAX_ENEMIES_IN_TEAM \<equiv> 5"

text \<open>
  Structures with the members used here. A \<open>SHORT\<close> is a word of 16 bits read as signed, a \<open>FLOAT\<close> one of 32
  bits; the time meters count from 0 to 100 in that format.
\<close>

record BATTLEACTION =
  ActionType :: BATTLEACTIONTYPE
  wActionID :: u16
  sTarget :: u16
  flRemainingTime :: u32

record BATTLEPLAYER =
  pl_iColorShift :: int
  flTimeMeter :: u32
  flTimeSpeedModifier :: u32
  pl_pos :: u32
  pl_posOriginal :: u32
  pl_wCurrentFrame :: u16
  pl_state :: FIGHTERSTATE
  action :: BATTLEACTION
  fDefending :: bool
  pl_wPrevHP :: u16
  pl_wPrevMP :: u16
  sTurnOrder :: u16

record ENEMY =
  wIdleFrames :: u16
  wIdleAnimSpeed :: u16
  wHealth :: u16
  en_wExp :: u16
  wCash :: u16
  en_wLevel :: u16
  wStealItem :: u16
  nStealItem :: u16
  en_wDefense :: u16
  en_wDexterity :: u16
  wPoisonResistance :: u16
  wElemResistance :: "nat \<Rightarrow> u16"

record BATTLEENEMY =
  en_wObjectID :: u16
  en_e :: ENEMY
  en_rgwStatus :: "nat \<Rightarrow> u16"
  en_pos :: u32
  en_posOriginal :: u32
  en_wCurrentFrame :: u16
  en_wPrevHP :: u16
  en_iColorShift :: int

record MAGIC =
  wType :: u16
  wCostMP :: u16
  wBaseDamage :: u16
  wElemental :: u16

text \<open>
  \<open>g_Battle\<close> with its \<open>UI\<close>, and the members of \<open>gpGlobals\<close> that Pal_State leaves out; the word \<open>wActionType\<close>
  holds the number of an action. \<open>lprgBattleField\<close> has the members \<open>rgsMagicEffect\<close>.
\<close>

record battle =
  glob :: pal
  rgPlayer :: "nat \<Rightarrow> BATTLEPLAYER"
  rgEnemy :: "nat \<Rightarrow> BATTLEENEMY"
  wMaxEnemyIndex :: u16
  iExpGained :: int
  iCashGained :: int
  fEnemyCleared :: bool
  flTimeChargingUnit :: u32
  ui_state :: BATTLEUISTATE
  MenuState :: BATTLEMENUSTATE
  wCurPlayerIndex :: u16
  wSelectedAction :: u16
  wSelectedIndex :: u16
  wPrevEnemyTarget :: u16
  wActionType :: BATTLEACTIONTYPE
  wObjectID :: u16
  fAutoBattle :: bool
  wNumBattleField :: u16
  dwCash :: u32
  lprgEnemy :: "ENEMY list"
  lprgMagic :: "MAGIC list"
  lprgBattleField :: "(nat \<Rightarrow> u16) list"

section \<open>Access\<close>

definition on_pal :: "(pal, 'a) M \<Rightarrow> (battle, 'a) M" where
  "on_pal = zoom glob (\<lambda>g b. b\<lparr>glob := g\<rparr>)"

definition party_role :: "nat \<Rightarrow> (battle, u16) M" where
  "party_role i = (if i < MAX_PLAYABLE_PLAYER_ROLES then getM (\<lambda>b. rgParty (glob b) i) else fail OutOfBounds)"

definition player_get :: "(BATTLEPLAYER \<Rightarrow> 'a) \<Rightarrow> nat \<Rightarrow> (battle, 'a) M" where
  "player_get f i = (if i < MAX_PLAYERS_IN_PARTY then getM (\<lambda>b. f (rgPlayer b i)) else fail OutOfBounds)"

definition player_mod :: "nat \<Rightarrow> (BATTLEPLAYER \<Rightarrow> BATTLEPLAYER) \<Rightarrow> (battle, unit) M" where
  "player_mod i f =
     (if i < MAX_PLAYERS_IN_PARTY then modM (\<lambda>b. b\<lparr>rgPlayer := (rgPlayer b)(i := f (rgPlayer b i))\<rparr>) else fail OutOfBounds)"

definition enemy_get :: "(BATTLEENEMY \<Rightarrow> 'a) \<Rightarrow> nat \<Rightarrow> (battle, 'a) M" where
  "enemy_get f i = (if i < MAX_ENEMIES_IN_TEAM then getM (\<lambda>b. f (rgEnemy b i)) else fail OutOfBounds)"

definition enemy_mod :: "nat \<Rightarrow> (BATTLEENEMY \<Rightarrow> BATTLEENEMY) \<Rightarrow> (battle, unit) M" where
  "enemy_mod i f =
     (if i < MAX_ENEMIES_IN_TEAM then modM (\<lambda>b. b\<lparr>rgEnemy := (rgEnemy b)(i := f (rgEnemy b i))\<rparr>) else fail OutOfBounds)"

text \<open>\<open>lprgMagic[rgObject[w].magic.wMagicNumber]\<close>; flags are word 5 of an object.\<close>

abbreviation (input) wMagicNumber :: nat where "wMagicNumber \<equiv> 0"
abbreviation (input) wEnemyID :: nat where "wEnemyID \<equiv> 0"
abbreviation (input) wFlags :: nat where "wFlags \<equiv> 5"

definition magic_data :: "u16 \<Rightarrow> (battle, MAGIC) M" where
  "magic_data num = bindM (getM lprgMagic) (\<lambda>l. if unat num < length l then ret (l ! unat num) else fail OutOfBounds)"

definition magic_of :: "u16 \<Rightarrow> (battle, MAGIC) M" where
  "magic_of w = bindM (on_pal (object_get w wMagicNumber)) magic_data"

definition has_flag :: "u16 \<Rightarrow> nat \<Rightarrow> (battle, bool) M" where
  "has_flag w k = bindM (on_pal (object_get w wFlags)) (\<lambda>v. ret (bit v k))"

abbreviation (input) kMagicFlagUsableToEnemy :: nat where "kMagicFlagUsableToEnemy \<equiv> 3"
abbreviation (input) kMagicFlagApplyToAll :: nat where "kMagicFlagApplyToAll \<equiv> 4"
abbreviation (input) kItemFlagApplyToAll :: nat where "kItemFlagApplyToAll \<equiv> 4"
abbreviation (input) kMagicTypeApplyToPlayer :: u16 where "kMagicTypeApplyToPlayer \<equiv> 4"
abbreviation (input) kMagicTypeApplyToParty :: u16 where "kMagicTypeApplyToParty \<equiv> 5"
abbreviation (input) kMagicTypeTrance :: u16 where "kMagicTypeTrance \<equiv> 8"
abbreviation (input) kMagicTypeSummon :: u16 where "kMagicTypeSummon \<equiv> 9"

text \<open>The loops over the party and over the enemies, \<open>for (i = 0; i <= wMax...; i++)\<close>.\<close>

definition for_party :: "(nat \<Rightarrow> (battle, unit) M) \<Rightarrow> (battle, unit) M" where
  "for_party body = bindM (getM (\<lambda>b. unat (wMaxPartyMemberIndex (glob b)) + 1)) (\<lambda>n. forM [0..<n] body)"

definition for_enemies :: "(nat \<Rightarrow> (battle, unit) M) \<Rightarrow> (battle, unit) M" where
  "for_enemies body = bindM (getM (\<lambda>b. unat (wMaxEnemyIndex b) + 1)) (\<lambda>n. forM [0..<n] body)"

text \<open>A search that ends at the first index with the test, and whether there is one.\<close>

primrec first_with :: "(nat \<Rightarrow> (battle, bool) M) \<Rightarrow> nat \<Rightarrow> nat \<Rightarrow> (battle, nat option) M" where
  "first_with test i 0 = ret None"
| "first_with test i (Suc n) = bindM (test i) (\<lambda>b. if b then ret (Some i) else first_with test (i + 1) n)"

definition first_in_party :: "(nat \<Rightarrow> (battle, bool) M) \<Rightarrow> (battle, nat option) M" where
  "first_in_party test = bindM (getM (\<lambda>b. unat (wMaxPartyMemberIndex (glob b)) + 1)) (first_with test 0)"

section \<open>Targets and damage\<close>

definition PAL_IsPlayerDying :: "u16 \<Rightarrow> (battle, bool) M" where
  "PAL_IsPlayerDying r = bindM (on_pal (role_get rgwHP r)) (\<lambda>hp. bindM (on_pal (role_get rgwMaxHP r)) (\<lambda>m. ret (hp < m div 5)))"

definition attackable :: "BATTLEENEMY \<Rightarrow> bool" where
  "attackable en \<longleftrightarrow> en_wObjectID en \<noteq> 0 \<and> wHealth (en_e en) > 0"

definition PAL_BattleSelectAutoTarget :: "(battle, int) M" where
  "PAL_BattleSelectAutoTarget =
     bindM (getM (\<lambda>b. unat (wPrevEnemyTarget b))) (\<lambda>i.
     bindM (getM (\<lambda>b. unat (wMaxEnemyIndex b))) (\<lambda>n.
     bindM (if i \<le> n then enemy_get attackable i else ret False) (\<lambda>ok.
     if ok then ret (int i)
     else bindM (first_with (enemy_get attackable) 0 (n + 1)) (\<lambda>j. case j of Some j \<Rightarrow> ret (int j) | None \<Rightarrow> ret (- 1)))))"

text \<open>
  The bit patterns are those of the constants \<open>1.6\<close>, \<open>0.6\<close> and \<open>0.5\<close> in single precision. Storing an \<open>int\<close>
  to a \<open>SHORT\<close> drops the high half.
\<close>

definition PAL_CalcBaseDamage :: "u16 \<Rightarrow> u16 \<Rightarrow> error + u16" where
  "PAL_CalcBaseDamage wAttackStrength wDefense =
     (let a = ucast wAttackStrength; d = ucast wDefense in
      if wAttackStrength > wDefense then
        tryE (f2F 0x3fcccccd) (\<lambda>f. tryE (f2F 0x3f000000) (\<lambda>h.
        Inr (ucast (F2int (int2F (push_bit 1 a) - F_mul_int f d + h)))))
      else tryE (f2F 0x3f19999a) (\<lambda>f.
        if F2int (F_mul_int f d) <s a then
          tryE (f2F 0x3f000000) (\<lambda>h. Inr (ucast (F2int (int2F a - F_mul_int f d + h))))
        else Inr 0))"

text \<open>\<open>s *= k\<close> and \<open>s /= k\<close> for a \<open>SHORT\<close> and an \<open>int\<close>.\<close>

definition short_mul :: "u16 \<Rightarrow> int \<Rightarrow> u16" where
  "short_mul s k = word_of_int (sint s * k)"

definition short_div :: "u16 \<Rightarrow> int \<Rightarrow> u16" where
  "short_div s k = word_of_int (sint s sdiv k)"

text \<open>The second test for no element is never reached with 0.\<close>

definition PAL_CalcMagicDamage :: "u16 \<Rightarrow> u16 \<Rightarrow> (nat \<Rightarrow> u16) \<Rightarrow> u16 \<Rightarrow> u16 \<Rightarrow> (battle, u16) M" where
  "PAL_CalcMagicDamage wMagicStrength wDefense rgwElem wPoisonRes wMagicID =
     bindM (on_pal (object_get wMagicID wMagicNumber)) (\<lambda>num.
     bindM (on_pal (RandomFloat (sint (int2F 10)) (sint (int2F 11)))) (\<lambda>f.
     let str = ucast (F2int (F_mul_int (word_of_int f) (ucast wMagicStrength))) div 10 in
     bindM (liftE (PAL_CalcBaseDamage str wDefense)) (\<lambda>s.
     bindM (magic_data num) (\<lambda>m.
     let s = short_div s 4 + wBaseDamage m; wElem = wElemental m in
     if wElem \<noteq> 0 then
       let s = (if wElem > of_nat NUM_MAGIC_ELEMENTAL then short_mul s (10 - uint wPoisonRes)
                else if wElem = 0 then short_mul s 5
                else short_mul s (10 - uint (rgwElem (unat (wElem - 1)))));
           s = short_div s 5 in
       if wElem \<le> of_nat NUM_MAGIC_ELEMENTAL then
         bindM (getM (\<lambda>b. unat (wNumBattleField b))) (\<lambda>k. bindM (getM lprgBattleField) (\<lambda>l.
         if k < length l then ret (short_div (short_mul s (10 + sint ((l ! k) (unat (wElem - 1))))) 10) else fail OutOfBounds))
       else ret s
     else ret s))))"

definition PAL_CalcPhysicalAttackDamage :: "u16 \<Rightarrow> u16 \<Rightarrow> u16 \<Rightarrow> error + u16" where
  "PAL_CalcPhysicalAttackDamage wAttackStrength wDefense wAttackResistance =
     tryE (PAL_CalcBaseDamage wAttackStrength wDefense) (\<lambda>s.
     Inr (if wAttackResistance \<noteq> 0 then short_div s (uint wAttackResistance) else s))"

section \<open>Dexterity and time\<close>

definition PAL_GetEnemyDexterity :: "nat \<Rightarrow> (battle, u16) M" where
  "PAL_GetEnemyDexterity i =
     bindM (enemy_get id i) (\<lambda>en.
     seqM (assertM (en_wObjectID en \<noteq> 0))
    (let s = word_of_int ((uint (en_wLevel (en_e en)) + 6) * 3) + en_wDexterity (en_e en);
         s = (if sint s < 20 then 20 else s) in
     ret (if en_rgwStatus en kStatusHaste \<noteq> 0 then short_div (short_mul s 6) 5
          else if en_rgwStatus en kStatusSlow \<noteq> 0 then short_div (short_mul s 2) 3 else s)))"

definition PAL_GetPlayerActualDexterity :: "u16 \<Rightarrow> (battle, u16) M" where
  "PAL_GetPlayerActualDexterity r =
     bindM (on_pal (PAL_GetPlayerDexterity r)) (\<lambda>d.
     bindM (on_pal (get_status r kStatusHaste)) (\<lambda>haste.
     bindM (if haste \<noteq> 0 then ret (d * 6 div 5)
            else bindM (on_pal (get_status r kStatusSlow)) (\<lambda>slow. ret (if slow \<noteq> 0 then d * 2 div 3 else d))) (\<lambda>d.
     bindM (PAL_IsPlayerDying r) (\<lambda>dying. ret (if dying then d * 4 div 5 else d)))))"

definition PAL_GetTimeChargingSpeed :: "u16 \<Rightarrow> (battle, u32) M" where
  "PAL_GetTimeChargingSpeed wDexterity =
     bindM (getM (\<lambda>b. ui_state b = kBattleUISelectMove \<and> MenuState b \<noteq> kBattleMenuMain)) (\<lambda>submenu.
     if submenu then ret 0
     else seqM (on_pal SDL_GetTicks)
       (getM (\<lambda>b. F_mul_int (flTimeChargingUnit b) (ucast (if fAutoBattle b then wDexterity else wDexterity div 4)))))"

section \<open>Fighters\<close>

definition PAL_BattleBackupStat :: "(battle, unit) M" where
  "PAL_BattleBackupStat =
     seqM (for_enemies (\<lambda>i.
       bindM (enemy_get en_wObjectID i) (\<lambda>w.
       whenM (w \<noteq> 0) (enemy_mod i (\<lambda>en. en\<lparr>en_wPrevHP := wHealth (en_e en)\<rparr>)))))
    (for_party (\<lambda>i.
       bindM (party_role i) (\<lambda>r.
       seqM (bindM (on_pal (role_get rgwHP r)) (\<lambda>v. player_mod i (\<lambda>p. p\<lparr>pl_wPrevHP := v\<rparr>)))
            (bindM (on_pal (role_get rgwMP r)) (\<lambda>v. player_mod i (\<lambda>p. p\<lparr>pl_wPrevMP := v\<rparr>))))))"

definition player_frame :: "nat \<Rightarrow> u16 \<Rightarrow> (battle, u16) M" where
  "player_frame i r =
     bindM (on_pal (role_get rgwHP r)) (\<lambda>hp.
     if hp = 0 then bindM (on_pal (get_status r kStatusPuppet)) (\<lambda>v. ret (if v = 0 then 2 else 0))
     else bindM (on_pal (get_status r kStatusSleep)) (\<lambda>v.
       bindM (if v \<noteq> 0 then ret True else PAL_IsPlayerDying r) (\<lambda>weak.
       if weak then ret 1
       else bindM (player_get id i) (\<lambda>p. bindM (getM fEnemyCleared) (\<lambda>cleared.
         ret (if pl_state p = kFighterAct \<and> ActionType (action p) = kBattleActionMagic \<and> \<not> cleared then 5
              else if fDefending p \<and> \<not> cleared then 3 else 0))))))"

definition player_gesture :: "nat \<Rightarrow> (battle, unit) M" where
  "player_gesture i =
     bindM (party_role i) (\<lambda>r.
     seqM (player_mod i (\<lambda>p. p\<lparr>pl_pos := pl_posOriginal p, pl_iColorShift := 0\<rparr>))
    (bindM (player_frame i r) (\<lambda>f. player_mod i (\<lambda>p. p\<lparr>pl_wCurrentFrame := f\<rparr>))))"

text \<open>The loop body of the enemies; it is also the one of the delay between two frames.\<close>

definition idle_frame :: "nat \<Rightarrow> (battle, unit) M" where
  "idle_frame i =
     seqM (enemy_mod i (\<lambda>en. en\<lparr>en_e := (en_e en)\<lparr>wIdleAnimSpeed := wIdleAnimSpeed (en_e en) - 1\<rparr>\<rparr>))
    (seqM (bindM (enemy_get id i) (\<lambda>en.
       whenM (wIdleAnimSpeed (en_e en) = 0)
         (seqM (enemy_mod i (\<lambda>en. en\<lparr>en_wCurrentFrame := en_wCurrentFrame en + 1\<rparr>))
         (bindM (on_pal (object_get (en_wObjectID en) wEnemyID)) (\<lambda>k. bindM (getM lprgEnemy) (\<lambda>l.
           if unat k < length l
           then enemy_mod i (\<lambda>en. en\<lparr>en_e := (en_e en)\<lparr>wIdleAnimSpeed := wIdleAnimSpeed (l ! unat k)\<rparr>\<rparr>)
           else fail OutOfBounds))))))
    (enemy_mod i (\<lambda>en. if en_wCurrentFrame en \<ge> wIdleFrames (en_e en) then en\<lparr>en_wCurrentFrame := 0\<rparr> else en)))"

definition enemy_gesture :: "nat \<Rightarrow> (battle, unit) M" where
  "enemy_gesture i =
     bindM (enemy_get en_wObjectID i) (\<lambda>w.
     whenM (w \<noteq> 0)
       (seqM (enemy_mod i (\<lambda>en. en\<lparr>en_pos := en_posOriginal en, en_iColorShift := 0\<rparr>))
       (bindM (enemy_get (\<lambda>en. en_rgwStatus en kStatusSleep > 0) i) (\<lambda>asleep.
        if asleep then enemy_mod i (\<lambda>en. en\<lparr>en_wCurrentFrame := 0\<rparr>) else idle_frame i))))"

definition PAL_BattleUpdateFighters :: "(battle, unit) M" where
  "PAL_BattleUpdateFighters = seqM (for_party player_gesture) (for_enemies enemy_gesture)"

text \<open>The enemies' half of PAL_BattlePostActionCheck; sounds are left out.\<close>

definition killed_enemy :: "nat \<Rightarrow> bool \<times> bool \<Rightarrow> (battle, bool \<times> bool) M" where
  "killed_enemy i = (\<lambda>(fFade, fEnemyRemaining).
     bindM (enemy_get id i) (\<lambda>en.
     if en_wObjectID en = 0 then ret (fFade, fEnemyRemaining)
     else if sint (wHealth (en_e en)) \<le> 0 then
       seqM (modM (\<lambda>b. b\<lparr>iExpGained := iExpGained b + uint (en_wExp (en_e en)), iCashGained := iCashGained b + uint (wCash (en_e en))\<rparr>))
      (seqM (enemy_mod i (\<lambda>en. en\<lparr>en_wObjectID := 0\<rparr>)) (ret (True, fEnemyRemaining)))
     else ret (fFade, True)))"

primrec killed_enemies :: "nat \<Rightarrow> nat \<Rightarrow> bool \<times> bool \<Rightarrow> (battle, bool \<times> bool) M" where
  "killed_enemies i 0 acc = ret acc"
| "killed_enemies i (Suc n) acc = bindM (killed_enemy i acc) (killed_enemies (i + 1) n)"

definition post_action_enemies :: "(battle, bool) M" where
  "post_action_enemies =
     bindM (getM (\<lambda>b. unat (wMaxEnemyIndex b) + 1)) (\<lambda>n.
     bindM (killed_enemies 0 n (False, False)) (\<lambda>(fFade, fEnemyRemaining).
     seqM (whenM (\<not> fEnemyRemaining) (modM (\<lambda>b. b\<lparr>fEnemyCleared := True, ui_state := kBattleUIWait\<rparr>)))
          (ret fFade)))"

section \<open>Actions\<close>

primrec ready_loop :: "nat \<Rightarrow> nat \<Rightarrow> u32 \<times> nat \<Rightarrow> (battle, u32 \<times> nat) M" where
  "ready_loop i 0 acc = ret acc"
| "ready_loop i (Suc n) acc =
     bindM (player_get id i) (\<lambda>p.
     if pl_state p = kFighterCom \<or> pl_state p = kFighterAct \<and> ActionType (action p) = kBattleActionCoopMagic then ret (0, snd acc)
     else if pl_state p = kFighterWait \<and> fst acc <s flTimeMeter p then ready_loop (i + 1) n (flTimeMeter p, i)
     else ready_loop (i + 1) n acc)"

definition PAL_BattlePlayerCheckReady :: "(battle, unit) M" where
  "PAL_BattlePlayerCheckReady =
     bindM (getM (\<lambda>b. unat (wMaxPartyMemberIndex (glob b)) + 1)) (\<lambda>n.
     bindM (ready_loop 0 n (0, 0)) (\<lambda>(flMax, iMax).
     whenM (sint (F2int flMax) \<ge> 100)
       (player_mod iMax (\<lambda>p. p\<lparr>pl_state := kFighterCom, fDefending := False\<rparr>))))"

text \<open>The menu of a player opens; only a sound depends on the statuses, which are read with it.\<close>

definition PAL_BattleUIPlayerReady :: "nat \<Rightarrow> (battle, unit) M" where
  "PAL_BattleUIPlayerReady i =
     bindM (party_role i) (\<lambda>r.
     seqM (modM (\<lambda>b. b\<lparr>wCurPlayerIndex := of_nat i, ui_state := kBattleUISelectMove, wSelectedAction := 0, MenuState := kBattleMenuMain\<rparr>))
    (bindM (on_pal (get_status r kStatusPuppet)) (\<lambda>_. ret ())))"

text \<open>The largest turn order of the party, at least \<open>-1\<close>.\<close>

primrec max_turn :: "nat \<Rightarrow> nat \<Rightarrow> u16 \<Rightarrow> (battle, u16) M" where
  "max_turn i 0 sMax = ret sMax"
| "max_turn i (Suc n) sMax =
     bindM (player_get sTurnOrder i) (\<lambda>t. max_turn (i + 1) n (if sMax <s t then t else sMax))"

definition set_action :: "nat \<Rightarrow> (BATTLEACTION \<Rightarrow> BATTLEACTION) \<Rightarrow> (battle, unit) M" where
  "set_action i f = player_mod i (\<lambda>p. p\<lparr>action := f (action p)\<rparr>)"

definition chosen_action :: "bool \<Rightarrow> nat \<Rightarrow> (battle, unit) M" where
  "chosen_action fRepeat i =
     (if \<not> fRepeat then
        bindM (getM id) (\<lambda>b. set_action i (\<lambda>a. a\<lparr>ActionType := wActionType b, sTarget := wSelectedIndex b, wActionID := wObjectID b\<rparr>))
      else set_action i (\<lambda>a. if ActionType a = kBattleActionPass then a\<lparr>ActionType := kBattleActionAttack, sTarget := - 1\<rparr> else a))"

text \<open>A magic without the magic points for it becomes a defence or an attack.\<close>

definition affordable_action :: "nat \<Rightarrow> (battle, unit) M" where
  "affordable_action i =
     bindM (player_get action i) (\<lambda>a.
     whenM (ActionType a = kBattleActionMagic)
       (bindM (magic_of (wActionID a)) (\<lambda>m.
        bindM (party_role i) (\<lambda>r. bindM (on_pal (role_get rgwMP r)) (\<lambda>mp.
        whenM (mp < wCostMP m)
          (if wType m \<in> {kMagicTypeApplyToPlayer, kMagicTypeApplyToParty, kMagicTypeTrance}
           then set_action i (\<lambda>a. a\<lparr>ActionType := kBattleActionDefend\<rparr>)
           else set_action i (\<lambda>a. a\<lparr>ActionType := kBattleActionAttack, sTarget := (if sTarget a = - 1 then 0 else sTarget a)\<rparr>)))))))"

definition waiting_time :: "nat \<Rightarrow> (battle, unit) M" where
  "waiting_time i =
     bindM (player_get action i) (\<lambda>a.
     if ActionType a = kBattleActionMagic then
       bindM (magic_of (wActionID a)) (\<lambda>m.
       let wCost = (if wCostMP m = 1 then (if wType m = kMagicTypeSummon then 175 else 1)
                    else if wType m \<in> {kMagicTypeApplyToPlayer, kMagicTypeApplyToParty, kMagicTypeTrance} then wCostMP m div 3
                    else wCostMP m) in
       set_action i (\<lambda>a. a\<lparr>flRemainingTime := int2F (ucast wCost + 5)\<rparr>))
     else set_action i (\<lambda>a. a\<lparr>flRemainingTime := 0\<rparr>))"

text \<open>The place behind the last one in the order of turns.\<close>

definition last_turn :: "nat \<Rightarrow> (battle, unit) M" where
  "last_turn i =
     bindM (getM (\<lambda>b. unat (wMaxPartyMemberIndex (glob b)) + 1)) (\<lambda>n.
     bindM (max_turn 0 n (- 1)) (\<lambda>sMax. player_mod i (\<lambda>p. p\<lparr>sTurnOrder := sMax + 1\<rparr>)))"

definition PAL_BattleCommitAction :: "bool \<Rightarrow> (battle, unit) M" where
  "PAL_BattleCommitAction fRepeat =
     bindM (getM (\<lambda>b. unat (wCurPlayerIndex b))) (\<lambda>i.
     seqM (chosen_action fRepeat i)
    (seqM (affordable_action i)
    (seqM (waiting_time i)
    (seqM (player_mod i (\<lambda>p. p\<lparr>pl_state := kFighterAct\<rparr>))
    (seqM (modM (\<lambda>b. b\<lparr>ui_state := kBattleUIWait\<rparr>))
    (bindM (player_get (\<lambda>p. flRemainingTime (action p)) i) (\<lambda>t.
     if t \<le>s 0 then last_turn i
     else player_mod i (\<lambda>p. p\<lparr>sTurnOrder := - 1\<rparr>))))))))"

text \<open>A player whose magic has become ready gets a turn, in the part of PAL_BattleStartFrame that runs for players who have decided.\<close>

definition due_turn :: "nat \<Rightarrow> (battle, unit) M" where
  "due_turn i =
     bindM (player_get id i) (\<lambda>p.
     whenM (flRemainingTime (action p) \<le>s 0 \<and> sTurnOrder p = - 1) (last_turn i))"

text \<open>The player whose turn it is, as PAL_BattleStartFrame selects it, and the reset after the action.\<close>

definition cannot_act :: "u16 \<Rightarrow> (battle, bool) M" where
  "cannot_act r =
     bindM (on_pal (role_get rgwHP r)) (\<lambda>hp.
     if hp = 0 then bindM (on_pal (get_status r kStatusPuppet)) (\<lambda>v. ret (v = 0)) else ret False)"

primrec turn_loop :: "nat \<Rightarrow> nat \<Rightarrow> u16 \<times> nat option \<Rightarrow> (battle, u16 \<times> nat option) M" where
  "turn_loop i 0 acc = ret acc"
| "turn_loop i (Suc n) acc =
     bindM (party_role i) (\<lambda>r. bindM (cannot_act r) (\<lambda>dead.
     if dead then turn_loop (i + 1) n acc
     else bindM (player_get id i) (\<lambda>p.
       turn_loop (i + 1) n
         (if pl_state p = kFighterAct \<and> sTurnOrder p \<noteq> - 1 \<and> sTurnOrder p <s fst acc then (sTurnOrder p, Some i) else acc))))"

definition select_turn :: "(battle, nat option) M" where
  "select_turn =
     bindM (getM (\<lambda>b. unat (wMaxPartyMemberIndex (glob b)) + 1)) (\<lambda>n.
     bindM (turn_loop 0 n (9999, None)) (\<lambda>acc. ret (snd acc)))"

definition after_turn :: "nat \<Rightarrow> (battle, unit) M" where
  "after_turn i = player_mod i (\<lambda>p. p\<lparr>flTimeMeter := 0, flTimeSpeedModifier := int2F 1, sTurnOrder := - 1\<rparr>)"

section \<open>Validation\<close>

text \<open>The target that replaces \<open>-1\<close>, everyone, when the object is for one only.\<close>

definition set_target :: "nat \<Rightarrow> int \<Rightarrow> (battle, unit) M" where
  "set_target i t = set_action i (\<lambda>a. a\<lparr>sTarget := word_of_int t\<rparr>)"

definition auto_target :: "nat \<Rightarrow> (battle, unit) M" where
  "auto_target i = bindM PAL_BattleSelectAutoTarget (set_target i)"

definition default_target :: "nat \<Rightarrow> u16 \<Rightarrow> bool \<Rightarrow> (battle, unit) M \<Rightarrow> (battle, unit) M" where
  "default_target i target all one =
     (if all then set_target i (- 1) else whenM (target = - 1) one)"

definition magic_usable :: "u16 \<Rightarrow> u16 \<Rightarrow> (battle, bool) M" where
  "magic_usable r w =
     bindM (on_pal (find_magic r w)) (\<lambda>known.
     bindM (on_pal (object_get w wMagicNumber)) (\<lambda>num.
     bindM (on_pal (get_status r kStatusSilence)) (\<lambda>silence.
     bindM (on_pal (role_get rgwMP r)) (\<lambda>mp.
     bindM (magic_data num) (\<lambda>m. ret (known \<noteq> None \<and> silence = 0 \<and> \<not> mp < wCostMP m))))))"

text \<open>The member of the party that keeps player \<open>i\<close> from a cooperative magic; 100 is not a fixed-point number here.\<close>

definition not_in_coop :: "nat \<Rightarrow> nat \<Rightarrow> (battle, bool) M" where
  "not_in_coop i j =
     bindM (party_role j) (\<lambda>w.
     bindM (PAL_IsPlayerDying w) (\<lambda>dying.
     if dying then ret True
     else bindM (on_pal (get_status w kStatusSilence)) (\<lambda>silence.
       bindM (on_pal (get_status w kStatusSleep)) (\<lambda>sleep.
       bindM (on_pal (get_status w kStatusConfused)) (\<lambda>confused.
       if silence > 0 \<or> sleep > 0 \<or> confused > 0 then ret True
       else player_get (\<lambda>p. flTimeMeter p <s 100 \<or> pl_state p = kFighterAct \<and> j \<noteq> i) j)))))"

definition set_type :: "nat \<Rightarrow> BATTLEACTIONTYPE \<Rightarrow> (battle, unit) M" where
  "set_type i t = set_action i (\<lambda>a. a\<lparr>ActionType := t\<rparr>)"

definition validate_magic :: "nat \<Rightarrow> u16 \<Rightarrow> BATTLEACTION \<Rightarrow> (battle, bool) M" where
  "validate_magic i r a =
     bindM (magic_usable r (wActionID a)) (\<lambda>fValid.
     bindM (has_flag (wActionID a) kMagicFlagUsableToEnemy) (\<lambda>toEnemy.
     bindM (has_flag (wActionID a) kMagicFlagApplyToAll) (\<lambda>all.
     seqM (if toEnemy
           then if \<not> fValid then set_type i kBattleActionAttack else default_target i (sTarget a) all (auto_target i)
           else if \<not> fValid then set_type i kBattleActionDefend else default_target i (sTarget a) all (set_target i (int i)))
          (ret toEnemy))))"

definition validate_coop :: "nat \<Rightarrow> BATTLEACTION \<Rightarrow> (battle, bool) M" where
  "validate_coop i a =
     bindM (first_in_party (not_in_coop i)) (\<lambda>hinders.
     seqM (if hinders \<noteq> None then set_type i kBattleActionAttack
           else bindM (has_flag (wActionID a) kMagicFlagApplyToAll) (\<lambda>all. default_target i (sTarget a) all (auto_target i)))
          (ret True))"

definition item_amount :: "u16 \<Rightarrow> (battle, nat) M" where
  "item_amount w = getM (\<lambda>b. PAL_GetItemAmount w (glob b))"

definition validate_item :: "nat \<Rightarrow> BATTLEACTION \<Rightarrow> BATTLEACTIONTYPE \<Rightarrow> (battle, unit) M \<Rightarrow> (battle, unit) M" where
  "validate_item i a fallback one =
     bindM (item_amount (wActionID a)) (\<lambda>n.
     if n = 0 then set_type i fallback
     else bindM (has_flag (wActionID a) kItemFlagApplyToAll) (\<lambda>all. default_target i (sTarget a) all one))"

definition other_alive :: "nat \<Rightarrow> nat \<Rightarrow> (battle, bool) M" where
  "other_alive i j = (if j \<noteq> i then bindM (party_role j) (\<lambda>r. bindM (on_pal (role_get rgwHP r)) (\<lambda>hp. ret (hp \<noteq> 0))) else ret False)"

definition validate_mate :: "nat \<Rightarrow> u16 \<Rightarrow> (battle, bool) M" where
  "validate_mate i r =
     bindM (on_pal (get_status r kStatusConfused)) (\<lambda>confused.
     bindM (if confused = 0 then ret None else first_in_party (other_alive i)) (\<lambda>mate.
     if mate = None then seqM (set_type i kBattleActionAttack) (ret True) else ret False))"

text \<open>The switch; its value is \<open>fToEnemy\<close>.\<close>

definition validate_type :: "nat \<Rightarrow> u16 \<Rightarrow> BATTLEACTION \<Rightarrow> (battle, bool) M" where
  "validate_type i r a = (case ActionType a of
     kBattleActionAttack \<Rightarrow> ret True
   | kBattleActionPass \<Rightarrow> ret False
   | kBattleActionDefend \<Rightarrow> ret False
   | kBattleActionMagic \<Rightarrow> validate_magic i r a
   | kBattleActionCoopMagic \<Rightarrow> validate_coop i a
   | kBattleActionFlee \<Rightarrow> ret False
   | kBattleActionThrowItem \<Rightarrow> seqM (validate_item i a kBattleActionAttack (auto_target i)) (ret True)
   | kBattleActionUseItem \<Rightarrow> seqM (validate_item i a kBattleActionDefend (set_target i (int i))) (ret False)
   | kBattleActionAttackMate \<Rightarrow> validate_mate i r)"

text \<open>Whether an attack is on all enemies or on one, by the target the action had before.\<close>

definition attack_target :: "nat \<Rightarrow> u16 \<Rightarrow> u16 \<Rightarrow> (battle, unit) M" where
  "attack_target i r target =
     bindM (player_get (\<lambda>p. ActionType (action p)) i) (\<lambda>t.
     whenM (t = kBattleActionAttack)
       (bindM (on_pal (PAL_PlayerCanAttackAll r)) (\<lambda>all.
        if target = - 1 then whenM (\<not> all) (auto_target i) else whenM all (set_target i (- 1)))))"

definition enemy_present :: "nat \<Rightarrow> (battle, unit) M" where
  "enemy_present i =
     bindM (player_get (\<lambda>p. sTarget (action p)) i) (\<lambda>t.
     whenM (0 \<le>s t)
       (bindM (enemy_get en_wObjectID (unat t)) (\<lambda>w.
        whenM (w = 0)
          (seqM (auto_target i)
          (bindM (player_get (\<lambda>p. sTarget (action p)) i) (\<lambda>t. assertM (0 \<le>s t)))))))"

definition PAL_BattlePlayerValidateAction :: "nat \<Rightarrow> (battle, unit) M" where
  "PAL_BattlePlayerValidateAction i =
     bindM (party_role i) (\<lambda>r.
     bindM (player_get action i) (\<lambda>a.
     bindM (validate_type i r a) (\<lambda>fToEnemy.
     seqM (attack_target i r (sTarget a))
          (whenM fToEnemy (enemy_present i)))))"

section \<open>Enemies and items\<close>

text \<open>
  The loop goes on until a living player is found; \<open>fuel\<close> bounds its rounds. With \<open>RandomLong\<close> the index can be
  one more than \<open>wMaxPartyMemberIndex\<close>.
\<close>

primrec PAL_BattleEnemySelectTargetIndex :: "nat \<Rightarrow> (battle, int) M" where
  "PAL_BattleEnemySelectTargetIndex 0 = fail OutOfFuel"
| "PAL_BattleEnemySelectTargetIndex (Suc fuel) =
     bindM (getM (\<lambda>b. uint (wMaxPartyMemberIndex (glob b)))) (\<lambda>n.
     bindM (on_pal (RandomLong 0 n)) (\<lambda>i.
     bindM (party_role (nat i)) (\<lambda>r. bindM (on_pal (role_get rgwHP r)) (\<lambda>hp.
     if hp = 0 then PAL_BattleEnemySelectTargetIndex fuel else ret i))))"

text \<open>What PAL_BattleStealFromEnemy takes after its animation.\<close>

definition steal :: "nat \<Rightarrow> u16 \<Rightarrow> (battle, unit) M" where
  "steal i wStealRate =
     bindM (enemy_get (\<lambda>en. nStealItem (en_e en)) i) (\<lambda>n.
     whenM (n > 0)
       (bindM (on_pal (RandomLong 0 10)) (\<lambda>k.
        whenM (k \<le> uint wStealRate \<or> wStealRate = 0)
          (bindM (enemy_get (\<lambda>en. wStealItem (en_e en)) i) (\<lambda>item.
           if item = 0 then
             bindM (on_pal (RandomLong 2 3)) (\<lambda>d.
             let c = word_of_int (uint n div d) in
             seqM (enemy_mod i (\<lambda>en. en\<lparr>en_e := (en_e en)\<lparr>nStealItem := nStealItem (en_e en) - c\<rparr>\<rparr>))
                  (modM (\<lambda>b. b\<lparr>dwCash := dwCash b + ucast c\<rparr>)))
           else
             seqM (enemy_mod i (\<lambda>en. en\<lparr>en_e := (en_e en)\<lparr>nStealItem := nStealItem (en_e en) - 1\<rparr>\<rparr>))
                  (seqM (on_pal (PAL_AddItemToInventory item 1)) (ret ())))))))"

text \<open>The damage PAL_BattleSimulateMagic deals after its animation.\<close>

definition simulated_hit :: "u16 \<Rightarrow> u16 \<Rightarrow> nat \<Rightarrow> (battle, unit) M" where
  "simulated_hit wMagicObjectID wDamage i =
     bindM (enemy_get en_e i) (\<lambda>en.
     let def = sint (en_wDefense en) + (uint (en_wLevel en) + 6) * 4; def = (if def < 0 then 0 else def) in
     bindM (PAL_CalcMagicDamage wDamage (word_of_int def) (wElemResistance en) (wPoisonResistance en) wMagicObjectID) (\<lambda>s.
     let s = (if s <s 0 then 0 else s) in
     enemy_mod i (\<lambda>en. en\<lparr>en_e := (en_e en)\<lparr>wHealth := wHealth (en_e en) - s\<rparr>\<rparr>)))"

definition simulated_damage :: "int \<Rightarrow> u16 \<Rightarrow> u16 \<Rightarrow> (battle, unit) M" where
  "simulated_damage target wMagicObjectID wDamage =
     bindM (magic_of wMagicObjectID) (\<lambda>m.
     whenM (wBaseDamage m > 0 \<or> wDamage > 0)
       (if target = - 1 then
          for_enemies (\<lambda>i. bindM (enemy_get en_wObjectID i) (\<lambda>w. whenM (w \<noteq> 0) (simulated_hit wMagicObjectID wDamage i)))
        else if target < 0 then fail OutOfBounds
        else simulated_hit wMagicObjectID wDamage (nat target)))"

section \<open>Choosing actions\<close>

definition coop_possible :: "nat \<Rightarrow> (battle, bool) M" where
  "coop_possible j =
     bindM (party_role j) (\<lambda>w.
     bindM (PAL_IsPlayerDying w) (\<lambda>dying.
     bindM (on_pal (get_status w kStatusSleep)) (\<lambda>sleep.
     bindM (on_pal (get_status w kStatusConfused)) (\<lambda>confused.
     bindM (on_pal (get_status w kStatusSilence)) (\<lambda>silence.
     if dying \<or> sleep \<noteq> 0 \<or> confused \<noteq> 0 \<or> silence \<noteq> 0 then ret False
     else player_get (\<lambda>p. \<not> (flTimeMeter p <s 100 \<or> pl_state p = kFighterAct)) j)))))"

definition PAL_BattleUIIsActionValid :: "BATTLEUIACTION \<Rightarrow> (battle, bool) M" where
  "PAL_BattleUIIsActionValid t =
     bindM (getM (\<lambda>b. unat (wCurPlayerIndex b))) (\<lambda>i.
     bindM (party_role i) (\<lambda>r.
     case t of
       kBattleUIActionAttack \<Rightarrow> ret True
     | kBattleUIActionMisc \<Rightarrow> ret True
     | kBattleUIActionMagic \<Rightarrow> bindM (on_pal (get_status r kStatusSilence)) (\<lambda>v. ret (v = 0))
     | kBattleUIActionCoopMagic \<Rightarrow>
         bindM (getM (\<lambda>b. wMaxPartyMemberIndex (glob b) = 0)) (\<lambda>alone.
         if alone then ret False
         else bindM (first_in_party (\<lambda>j. bindM (coop_possible j) (\<lambda>ok. ret (\<not> ok)))) (\<lambda>x. ret (x = None)))))"

primrec auto_magic_loop :: "nat \<Rightarrow> nat \<Rightarrow> u16 \<Rightarrow> u16 \<Rightarrow> int \<times> u16 \<Rightarrow> (battle, int \<times> u16) M" where
  "auto_magic_loop i 0 r wRandomRange acc = ret acc"
| "auto_magic_loop i (Suc n) r wRandomRange acc =
     bindM (on_pal (role_get (rgwMagic i) r)) (\<lambda>w.
     if w = 0 then auto_magic_loop (i + 1) n r wRandomRange acc
     else bindM (magic_of w) (\<lambda>m. bindM (on_pal (role_get rgwMP r)) (\<lambda>mp.
       if wCostMP m = 1 \<or> wCostMP m > mp \<or> sint (wBaseDamage m) \<le> 0 then auto_magic_loop (i + 1) n r wRandomRange acc
       else bindM (on_pal (RandomLong 0 (uint wRandomRange))) (\<lambda>k.
         let iPower = sint (wBaseDamage m) + k in
         auto_magic_loop (i + 1) n r wRandomRange (if iPower > fst acc then (iPower, w) else acc)))))"

definition PAL_BattleUIPickAutoMagic :: "u16 \<Rightarrow> u16 \<Rightarrow> (battle, u16) M" where
  "PAL_BattleUIPickAutoMagic r wRandomRange =
     bindM (on_pal (get_status r kStatusSilence)) (\<lambda>silence.
     if silence \<noteq> 0 then ret 0
     else bindM (auto_magic_loop 0 MAX_PLAYER_MAGICS r wRandomRange (0, 0)) (\<lambda>acc. ret (snd acc)))"

end
