(* ===== verification/Pal_Battle_Props.thy ===== *)
theory Pal_Battle_Props
  imports Pal_Battle Float_Props Pal_Player_Props "HOL-Library.Multiset"
begin

unbundle bit_operations_syntax

text \<open>
  Properties of the battle: the damage formula in exact arithmetic, the order of turns as a queue, and what
  holds of an action that was validated.
\<close>

section \<open>Damage\<close>

lemma damage_constants: "f2F 0x3fcccccd = Inr 104857" "f2F 0x3f19999a = Inr 39321" "f2F 0x3f000000 = Inr 32768"
  by (simp_all add: f2F_def Let_def c_sar_def)

text \<open>The units of the fixed-point numbers against tenths.\<close>

lemma tenths:
  assumes "5 * X = 32768 * Y + 3 * d" "0 \<le> d" "d \<le> (10922 :: int)"
  shows "X div 65536 = Y div 10"
proof -
  let ?q = "Y div 10" and ?m = "Y mod 10"
  have Y: "Y = 10 * ?q + ?m" "0 \<le> ?m" "?m \<le> 9" using pos_mod_bound [of 10 Y] by auto
  have "65536 * ?q \<le> X" "X < 65536 * ?q + 65536" using Y assms by linarith+
  then have "X = 65536 * ?q + (X - 65536 * ?q)" "0 \<le> X - 65536 * ?q" "X - 65536 * ?q < 65536" by simp_all
  then show ?thesis by (intro int_div_pos_eq)
qed

lemma ucast_16_32: "(ucast (x :: u16) :: u32) = word_of_int (uint x)"
  by (rule ucast_eq)

lemma word_of_int_simps32:
  "word_of_int a - word_of_int b = (word_of_int (a - b) :: u32)" "word_of_int a + word_of_int b = (word_of_int (a + b) :: u32)"
  "word_of_int a * word_of_int b = (word_of_int (a * b) :: u32)" "push_bit n (word_of_int a) = (word_of_int (a * 2 ^ n) :: u32)"
  by (simp_all add: push_bit_eq_mult)

lemma F2int_word:
  assumes "- (2147483648) \<le> v" "v < 2147483648"
  shows "F2int (word_of_int v) = word_of_int (v div 65536)"
proof (rule signed_word_eqI)
  have "- (2147483648) \<le> v div 65536" "v div 65536 < 2147483648" using assms by auto
  then show "sint (F2int (word_of_int v)) = sint (word_of_int (v div 65536) :: u32)"
    using assms by (simp add: F2int_floor sint_of_int_range)
qed

lemma short_of_int:
  assumes "- 32768 \<le> v" "v < 32768"
  shows "sint (ucast (word_of_int v :: u32) :: u16) = v"
proof -
  have "(ucast (word_of_int v :: u32) :: u16) = word_of_int v" by (rule bit_word_eqI) (simp add: bit_simps)
  then show ?thesis using assms by (simp add: signed_of_int signed_take_bit_int_eq_self)
qed

lemma damage_word:
  assumes "0 \<le> v" "v < 2147483648"
  shows "sint (ucast (F2int (word_of_int v)) :: u16) = v div 65536"
proof -
  have "- 32768 \<le> v div 65536" "v div 65536 < 32768" using assms by linarith+
  then show ?thesis using assms by (simp add: F2int_word short_of_int)
qed

lemma sint_word_zext: "sint (ucast (x :: u16) :: u32) = uint x"
proof -
  have "- (2 ^ 31) \<le> uint x" by (rule order_trans [of _ 0]) simp_all
  moreover have "uint x < 2 ^ 31" by (rule less_trans [OF uint_lt2p]) simp
  ultimately show ?thesis unfolding ucast_16_32 by (rule sint_of_int_range)
qed

lemma CalcBaseDamage_stronger:
  assumes "D < A" "A \<le> 16383" "D \<le> 10922"
  shows "\<exists>s. PAL_CalcBaseDamage A D = Inr s \<and> sint s = (20 * uint A - 16 * uint D + 5) div 10"
proof -
  let ?a = "uint A" and ?d = "uint D"
  let ?v = "131072 * ?a - 104857 * ?d + 32768"
  have b: "0 \<le> ?d" "?d < ?a" "?a \<le> 16383" "?d \<le> 10922"
    using assms unfolding word_less_def word_le_def not_less by simp_all
  have v: "0 \<le> ?v" "?v < 2147483648" using b by linarith+
  have "?v div 65536 = (20 * ?a - 16 * ?d + 5) div 10" by (rule tenths [where d = ?d]) (use b in \<open>simp_all add: algebra_simps\<close>)
  moreover have "0 \<le> ?v div 65536" "?v div 65536 < 32768" using v by linarith+
  moreover have eq: "int2F (push_bit 1 (ucast A)) - F_mul_int 104857 (ucast D) + 32768 = (word_of_int ?v :: u32)"
    unfolding int2F_def F_mul_int_def ucast_16_32 by (simp add: push_bit_eq_mult algebra_simps)
  have "sint (ucast (F2int (int2F (push_bit 1 (ucast A)) - F_mul_int 104857 (ucast D) + 32768)) :: u16) = ?v div 65536"
    unfolding eq using v by (rule damage_word)
  ultimately show ?thesis
    unfolding PAL_CalcBaseDamage_def Let_def damage_constants tryE_simps using assms(1) by simp
qed

lemma CalcBaseDamage_weaker:
  assumes "\<not> D < A" "A \<le> 16383" "D \<le> 10922"
  shows "\<exists>s. PAL_CalcBaseDamage A D = Inr s \<and> sint s = max 0 ((10 * uint A - 6 * uint D + 5) div 10)"
proof -
  let ?a = "uint A" and ?d = "uint D"
  let ?v = "65536 * ?a - 39321 * ?d + 32768"
  have b: "0 \<le> ?a" "?a \<le> ?d" "?a \<le> 16383" "?d \<le> 10922"
    using assms by (simp_all add: word_less_def word_le_def not_less)
  have f: "F_mul_int 39321 (ucast D) = (word_of_int (39321 * ?d) :: u32)"
    unfolding F_mul_int_def ucast_16_32 by simp
  have m: "F2int (F_mul_int 39321 (ucast D)) = (word_of_int (39321 * ?d div 65536) :: u32)"
    unfolding f by (rule F2int_word) (use b in linarith)+
  have "0 \<le> 39321 * ?d div 65536" "39321 * ?d div 65536 < 2147483648" using b by linarith+
  then have test: "F2int (F_mul_int 39321 (ucast D)) <s (ucast A :: u32) \<longleftrightarrow> 39321 * ?d div 65536 < ?a"
    unfolding m word_sless_alt sint_word_zext by (subst sint_of_int_range) simp_all
  have t: "?v div 65536 = (10 * ?a - 6 * ?d + 5) div 10" by (rule tenths [where d = ?d]) (use b in \<open>simp_all add: algebra_simps\<close>)
  show ?thesis
  proof (cases "39321 * ?d div 65536 < ?a")
    case True
    then have "39321 * ?d < 65536 * ?a" by linarith
    then have v: "0 \<le> ?v" "?v < 2147483648" using b by linarith+
    then have "0 \<le> ?v div 65536" "?v div 65536 < 32768" by linarith+
    moreover have eq: "int2F (ucast A) - F_mul_int 39321 (ucast D) + 32768 = (word_of_int ?v :: u32)"
      unfolding int2F_def F_mul_int_def ucast_16_32 by (simp add: push_bit_eq_mult algebra_simps)
    have "sint (ucast (F2int (int2F (ucast A) - F_mul_int 39321 (ucast D) + 32768)) :: u16) = ?v div 65536"
      unfolding eq using v by (rule damage_word)
    ultimately show ?thesis
      unfolding PAL_CalcBaseDamage_def Let_def damage_constants tryE_simps using assms(1) True test t by simp
  next
    case False
    then have "65536 * ?a \<le> 39321 * ?d" by linarith
    then have "(10 * ?a - 6 * ?d + 5) div 10 \<le> 0" using b by linarith
    with False show ?thesis
      using assms test by (simp add: PAL_CalcBaseDamage_def damage_constants)
  qed
qed
text \<open>
  C38. The base damage of an attack of strength \<open>a\<close> against a defence of \<open>d\<close>, for strengths up to 16383 and
  defences up to 10922, computed in the fixed-point numbers of the library: \<open>2a - 1.6d\<close> rounded to the nearest
  integer when the attack is the stronger one, otherwise \<open>a - 0.6d\<close> rounded, and never negative. An attack of
  16384 against no defence is out of the range of a \<open>SHORT\<close>: the damage is negative.
\<close>

theorem base_damage_is_rounded:
  "(\<forall>A D. A \<le> 16383 \<and> D \<le> 10922 \<longrightarrow> (\<exists>s. PAL_CalcBaseDamage A D = Inr s
     \<and> sint s = (if uint D < uint A then (20 * uint A - 16 * uint D + 5) div 10 else max 0 ((10 * uint A - 6 * uint D + 5) div 10))))
   \<and> PAL_CalcBaseDamage 16384 0 = Inr 0x8000"
proof
  show "\<forall>A D. A \<le> 16383 \<and> D \<le> 10922 \<longrightarrow> (\<exists>s. PAL_CalcBaseDamage A D = Inr s
     \<and> sint s = (if uint D < uint A then (20 * uint A - 16 * uint D + 5) div 10 else max 0 ((10 * uint A - 6 * uint D + 5) div 10)))"
    using CalcBaseDamage_stronger CalcBaseDamage_weaker by (auto simp: word_less_def)
  show "PAL_CalcBaseDamage 16384 0 = Inr 0x8000"
    by (simp add: PAL_CalcBaseDamage_def damage_constants F_mul_int_def int2F_def F2int_def)
qed

theorem base_damage_is_rounded_witness:
  "\<exists>s. PAL_CalcBaseDamage 120 57 = Inr s \<and> sint s = 149"
  using conjunct1 [OF base_damage_is_rounded, rule_format, of 120 57] by simp

section \<open>The order of turns\<close>

definition party_size :: "battle \<Rightarrow> nat" where
  "party_size b = unat (wMaxPartyMemberIndex (glob b)) + 1"

definition party_valid :: "battle \<Rightarrow> bool" where
  "party_valid b \<longleftrightarrow> party_size b \<le> 3 \<and> (\<forall>i<party_size b. unat (rgParty (glob b) i) < 6)"

definition turn :: "battle \<Rightarrow> nat \<Rightarrow> int" where
  "turn b i = sint (sTurnOrder (rgPlayer b i))"

text \<open>The players with a turn, in the order of their turns.\<close>

definition turn_queue :: "battle \<Rightarrow> nat list" where
  "turn_queue b = sort_key (turn b) (filter (\<lambda>i. turn b i \<noteq> - 1) [0..<party_size b])"

definition turns_ok :: "int \<Rightarrow> battle \<Rightarrow> bool" where
  "turns_ok k b \<longleftrightarrow> party_valid b \<and> (\<forall>i<party_size b. - 1 \<le> turn b i \<and> turn b i < k) \<and> inj_on (turn b) (set (turn_queue b))"

lemma set_turn_queue: "set (turn_queue b) = {i. i < party_size b \<and> turn b i \<noteq> - 1}"
  by (auto simp: turn_queue_def)

lemma distinct_turn_queue: "distinct (turn_queue b)"
  by (simp add: turn_queue_def)

lemma turn_queue_eqI:
  assumes "inj_on (turn b) {i. i < party_size b \<and> turn b i \<noteq> - 1}"
    and "distinct q" "set q = {i. i < party_size b \<and> turn b i \<noteq> - 1}" "sorted (map (turn b) q)"
  shows "turn_queue b = q"
  unfolding turn_queue_def
proof (rule sort_key_inj_key_eq)
  show "mset (filter (\<lambda>i. turn b i \<noteq> - 1) [0..<party_size b]) = mset q"
    using assms(2,3) by (subst set_eq_iff_mset_eq_distinct [symmetric]) auto
  show "inj_on (turn b) (set (filter (\<lambda>i. turn b i \<noteq> - 1) [0..<party_size b]))"
    using assms(1) by (rule back_subst [of "inj_on (turn b)"]) auto
qed (rule assms(4))

lemma sint_minus_1: "sint w = - 1 \<longleftrightarrow> w = (- 1 :: u16)"
  by (metis signed_word_eqI sint_n1)

text \<open>Player \<open>i\<close> leaves the queue, or moves behind everybody else.\<close>

lemma turn_removed:
  assumes "turns_ok k b" "party_size c = party_size b" "glob c = glob b" "turn c i = - 1" "\<And>j. j \<noteq> i \<Longrightarrow> turn c j = turn b j"
    and "0 \<le> k"
  shows "turn_queue c = filter (\<lambda>j. j \<noteq> i) (turn_queue b) \<and> turns_ok k c"
proof
  let ?q = "filter (\<lambda>j. j \<noteq> i) (turn_queue b)"
  have q: "set ?q = {j. j < party_size c \<and> turn c j \<noteq> - 1}" using assms(2,4,5) by (auto simp: set_turn_queue) metis+
  have inj: "inj_on (turn c) (set ?q)"
  proof (rule inj_onI)
    fix x y assume xy: "x \<in> set ?q" "y \<in> set ?q" "turn c x = turn c y"
    then have "turn b x = turn b y" using assms(5) by simp
    with xy assms(1) show "x = y" by (auto simp: turns_ok_def dest: inj_onD)
  qed
  show e: "turn_queue c = ?q"
  proof (rule turn_queue_eqI)
    show "inj_on (turn c) {i. i < party_size c \<and> turn c i \<noteq> - 1}" using inj unfolding q .
    show "distinct ?q" by (simp add: distinct_turn_queue)
    have "map (turn c) ?q = map (turn b) ?q" using assms(5) by simp
    moreover have "sorted (map (turn b) ?q)" by (simp add: turn_queue_def sorted_filter)
    ultimately show "sorted (map (turn c) ?q)" by metis
  qed (rule q)
  have "- 1 \<le> turn c j \<and> turn c j < k" if "j < party_size c" for j
    using that assms by (cases "j = i") (auto simp: turns_ok_def)
  then show "turns_ok k c" using assms inj e by (auto simp: turns_ok_def party_valid_def)
qed

lemma turn_appended:
  assumes "turns_ok k b" "party_size c = party_size b" "glob c = glob b" "i < party_size b" "\<And>j. j \<noteq> i \<Longrightarrow> turn c j = turn b j"
    and "\<And>j. j < party_size b \<Longrightarrow> turn b j < turn c i" "0 \<le> turn c i" "turn c i \<le> k"
  shows "turn_queue c = filter (\<lambda>j. j \<noteq> i) (turn_queue b) @ [i] \<and> turns_ok (k + 1) c"
proof
  let ?q = "filter (\<lambda>j. j \<noteq> i) (turn_queue b)"
  have q: "set (?q @ [i]) = {j. j < party_size c \<and> turn c j \<noteq> - 1}"
    using assms(2,4,5,7) by (auto simp: set_turn_queue)
  have inj: "inj_on (turn c) (set (?q @ [i]))"
  proof (rule inj_onI)
    fix x y assume xy: "x \<in> set (?q @ [i])" "y \<in> set (?q @ [i])" "turn c x = turn c y"
    have less: "turn c z < turn c i" if "z \<in> set ?q" for z using that assms(2,5,6) by (auto simp: set_turn_queue)
    show "x = y"
    proof (cases "x = i \<or> y = i")
      case True
      then show ?thesis using xy less by fastforce
    next
      case False
      then have "turn b x = turn b y" using xy assms(5) by simp
      with False xy assms(1) show ?thesis by (auto simp: turns_ok_def dest: inj_onD)
    qed
  qed
  show e: "turn_queue c = ?q @ [i]"
  proof (rule turn_queue_eqI)
    show "inj_on (turn c) {i. i < party_size c \<and> turn c i \<noteq> - 1}" using inj unfolding q .
    show "distinct (?q @ [i])" by (simp add: distinct_turn_queue)
    have "map (turn c) ?q = map (turn b) ?q" using assms(5) by simp
    moreover have "sorted (map (turn b) ?q)" by (simp add: turn_queue_def sorted_filter)
    ultimately have "sorted (map (turn c) ?q)" by metis
    moreover have "turn b j \<le> turn c i" if "j \<in> set ?q" for j using that assms(6) by (auto simp: set_turn_queue intro: less_imp_le)
    ultimately show "sorted (map (turn c) (?q @ [i]))" by (auto simp: sorted_append assms(5) simp del: filter_set)
  qed (rule q)
  have "- 1 \<le> turn c j \<and> turn c j < k + 1" if "j < party_size c" for j
    using that assms by (cases "j = i") (force simp: turns_ok_def)+
  then show "turns_ok (k + 1) c" using assms inj e by (auto simp: turns_ok_def party_valid_def)
qed

lemma on_pal_read: "m (glob b) = Ret x (glob b) \<Longrightarrow> on_pal m b = Ret x b"
  by (simp add: on_pal_def)

lemma party_role_run: "party_valid b \<Longrightarrow> i < party_size b \<Longrightarrow> party_role i b = Ret (rgParty (glob b) i) b"
  by (simp add: party_role_def party_valid_def)

lemma player_get_run: "i < MAX_PLAYERS_IN_PARTY \<Longrightarrow> player_get f i b = Ret (f (rgPlayer b i)) b"
  by (simp add: player_get_def)

lemma player_mod_run:
  "i < MAX_PLAYERS_IN_PARTY \<Longrightarrow> player_mod i f b = Ret () (b\<lparr>rgPlayer := (rgPlayer b)(i := f (rgPlayer b i))\<rparr>)"
  by (simp add: player_mod_def)

lemma max_turn_run:
  "i + n \<le> 3 \<Longrightarrow> \<exists>t. max_turn i n s b = Ret t b \<and> sint s \<le> sint t \<and> (\<forall>j. i \<le> j \<and> j < i + n \<longrightarrow> turn b j \<le> sint t)
     \<and> (t = s \<or> (\<exists>j. i \<le> j \<and> j < i + n \<and> t = sTurnOrder (rgPlayer b j)))"
proof (induction n arbitrary: i s)
  case 0
  then show ?case by simp
next
  case (Suc n)
  define s' where "s' = (if s <s sTurnOrder (rgPlayer b i) then sTurnOrder (rgPlayer b i) else s)"
  have s': "sint s \<le> sint s'" "turn b i \<le> sint s'" "s' = s \<or> s' = sTurnOrder (rgPlayer b i)"
    by (auto simp: s'_def turn_def word_sless_alt)
  from Suc.prems have "Suc i + n \<le> 3" by simp
  from Suc.IH [OF this, of s'] obtain t where t: "max_turn (Suc i) n s' b = Ret t b" "sint s' \<le> sint t"
      "\<forall>j. Suc i \<le> j \<and> j < Suc i + n \<longrightarrow> turn b j \<le> sint t"
      "t = s' \<or> (\<exists>j. Suc i \<le> j \<and> j < Suc i + n \<and> t = sTurnOrder (rgPlayer b j))" by blast
  have "turn b j \<le> sint t" if "i \<le> j" "j < i + Suc n" for j
  proof (cases "j = i")
    case True
    with s'(2) t(2) show ?thesis by simp
  next
    case False
    with that t(3) show ?thesis by simp
  qed
  moreover have "t = s \<or> (\<exists>j. i \<le> j \<and> j < i + Suc n \<and> t = sTurnOrder (rgPlayer b j))"
    using t(4) s'(3) by (metis Suc_leD add_Suc_right add_Suc_shift le_add1 less_add_Suc1 order_refl)
  ultimately show ?case using t(1,2) s'(1) Suc.prems by (auto simp: player_get_run s'_def [symmetric])
qed

lemma last_turn_run:
  assumes "turns_ok k b" "k \<le> 9999" "i < party_size b"
  shows "\<exists>t. last_turn i b = Ret () (b\<lparr>rgPlayer := (rgPlayer b)(i := (rgPlayer b i)\<lparr>sTurnOrder := t\<rparr>)\<rparr>)
     \<and> 0 \<le> sint t \<and> sint t \<le> max 0 k \<and> (\<forall>j<party_size b. turn b j < sint t)"
proof -
  have n: "party_size b \<le> 3" using assms(1) by (simp add: turns_ok_def party_valid_def)
  then obtain s where s: "max_turn 0 (party_size b) (- 1) b = Ret s b" "- 1 \<le> sint s" "\<forall>j<party_size b. turn b j \<le> sint s"
      "s = - 1 \<or> (\<exists>j<party_size b. s = sTurnOrder (rgPlayer b j))"
    using max_turn_run [of 0 "party_size b" "- 1" b] by auto
  have less: "sint s < max 0 k" using s(4) assms(1) by (auto simp: turns_ok_def turn_def)
  then have "sint (s + 1) = sint s + 1" using s(2) assms(2) by (simp add: sint_word_ariths signed_take_bit_int_eq_self)
  moreover have "last_turn i b = Ret () (b\<lparr>rgPlayer := (rgPlayer b)(i := (rgPlayer b i)\<lparr>sTurnOrder := s + 1\<rparr>)\<rparr>)"
    using s(1) n assms(3) unfolding party_size_def by (simp add: last_turn_def player_mod_run)
  ultimately show ?thesis using s(2,3) less by (intro exI [of _ "s + 1"]) auto
qed

text \<open>Player \<open>i\<close> can act: it has decided, and it is alive or a puppet.\<close>

definition dead_role :: "pal \<Rightarrow> u16 \<Rightarrow> bool" where
  "dead_role g r \<longleftrightarrow> PlayerRoles g rgwHP (unat r) = 0 \<and> rgPlayerStatus g (unat r) kStatusPuppet = 0"

definition able :: "battle \<Rightarrow> nat \<Rightarrow> bool" where
  "able b i \<longleftrightarrow> pl_state (rgPlayer b i) = kFighterAct \<and> \<not> dead_role (glob b) (rgParty (glob b) i)"

lemma cannot_act_run: "unat r < 6 \<Longrightarrow> cannot_act r b = Ret (dead_role (glob b) r) b"
  by (simp add: cannot_act_def on_pal_read role_get_run get_status_def dead_role_def)

definition earliest :: "battle \<Rightarrow> nat \<Rightarrow> u16 \<times> nat option \<Rightarrow> bool" where
  "earliest b i acc \<longleftrightarrow> (case snd acc of
     None \<Rightarrow> fst acc = 9999 \<and> (\<forall>j<i. \<not> (able b j \<and> turn b j \<noteq> - 1))
   | Some k \<Rightarrow> k < i \<and> able b k \<and> turn b k \<noteq> - 1 \<and> fst acc = sTurnOrder (rgPlayer b k)
       \<and> (\<forall>j<i. able b j \<and> turn b j \<noteq> - 1 \<longrightarrow> turn b k \<le> turn b j))"


lemma earliest_Suc:
  assumes "earliest b i acc" "turn b i < 9999"
  shows "earliest b (Suc i) (if able b i \<and> sTurnOrder (rgPlayer b i) \<noteq> - 1 \<and> sTurnOrder (rgPlayer b i) <s fst acc
    then (sTurnOrder (rgPlayer b i), Some i) else acc)"
proof (cases "snd acc")
  case None
  then have "fst acc = 9999" "\<forall>j<i. \<not> (able b j \<and> turn b j \<noteq> - 1)" using assms(1) by (simp_all add: earliest_def)
  then show ?thesis using assms(2) None
    by (auto simp: earliest_def turn_def word_sless_alt sint_minus_1 less_Suc_eq)
next
  case (Some k)
  then have "k < i" "able b k" "turn b k \<noteq> - 1" "fst acc = sTurnOrder (rgPlayer b k)"
      "\<forall>j<i. able b j \<and> turn b j \<noteq> - 1 \<longrightarrow> turn b k \<le> turn b j" using assms(1) by (simp_all add: earliest_def)
  then show ?thesis using Some by (fastforce simp: earliest_def turn_def word_sless_alt sint_minus_1 less_Suc_eq)
qed

lemma turn_loop_run:
  assumes "turns_ok 9999 b"
  shows "i + n = party_size b \<Longrightarrow> earliest b i acc \<Longrightarrow> \<exists>acc'. turn_loop i n acc b = Ret acc' b \<and> earliest b (party_size b) acc'"
proof (induction n arbitrary: i acc)
  case 0
  then show ?case by simp
next
  case (Suc n)
  have ok: "party_valid b" "turn b i < 9999" using assms Suc.prems(1) by (auto simp: turns_ok_def)
  let ?acc = "if able b i \<and> sTurnOrder (rgPlayer b i) \<noteq> - 1 \<and> sTurnOrder (rgPlayer b i) <s fst acc
    then (sTurnOrder (rgPlayer b i), Some i) else acc"
  have r: "party_role i b = Ret (rgParty (glob b) i) b" "unat (rgParty (glob b) i) < 6" "i < 3"
    using ok(1) Suc.prems(1) by (auto simp: party_role_run party_valid_def)
  have "turn_loop i (Suc n) acc b = turn_loop (Suc i) n ?acc b"
    using r by (auto simp: cannot_act_run player_get_run able_def)
  then show ?case using Suc.IH [OF _ earliest_Suc [OF Suc.prems(2) ok(2)]] Suc.prems(1) by simp
qed

lemma sorted_filter_hd:
  assumes "sorted (map f xs)" "filter P xs = x # ys"
  shows "x \<in> set xs \<and> P x \<and> (\<forall>y\<in>set xs. P y \<longrightarrow> f x \<le> f y)"
proof -
  have "sorted (map f (filter P xs))" using assms(1) by (simp add: sorted_filter)
  then have "\<forall>y\<in>set ys. f x \<le> f y" using assms(2) by simp
  moreover have "set (filter P xs) = insert x (set ys)" using assms(2) by simp
  then have "{y \<in> set xs. P y} = insert x (set ys)" by simp
  ultimately show ?thesis by auto
qed

definition first_of :: "'a list \<Rightarrow> 'a option" where
  "first_of xs = (case xs of [] \<Rightarrow> None | x # _ \<Rightarrow> Some x)"

lemma select_turn_run:
  assumes "turns_ok 9999 b"
  shows "select_turn b = Ret (first_of (filter (able b) (turn_queue b))) b"
proof -
  have "earliest b 0 (9999, None)" by (simp add: earliest_def)
  then have "\<exists>acc. turn_loop 0 (party_size b) (9999, None) b = Ret acc b \<and> earliest b (party_size b) acc"
    by (intro turn_loop_run [OF assms]) simp_all
  then obtain acc where acc: "turn_loop 0 (party_size b) (9999, None) b = Ret acc b" "earliest b (party_size b) acc" by blast
  have inj: "inj_on (turn b) (set (turn_queue b))" using assms by (simp add: turns_ok_def)
  have "snd acc = first_of (filter (able b) (turn_queue b))"
  proof (cases "filter (able b) (turn_queue b)")
    case Nil
    then have "\<forall>j\<in>set (turn_queue b). \<not> able b j" by (simp add: filter_empty_conv)
    then have "snd acc = None" using acc(2) by (auto simp: earliest_def set_turn_queue split: option.splits)
    with Nil show ?thesis by (simp add: first_of_def)
  next
    case (Cons x ys)
    have "sorted (map (turn b) (turn_queue b))" by (simp add: turn_queue_def)
    from sorted_filter_hd [OF this Cons] have x: "x \<in> set (turn_queue b)" "able b x"
      "\<And>y. y \<in> set (turn_queue b) \<Longrightarrow> able b y \<Longrightarrow> turn b x \<le> turn b y" by auto
    then obtain k where k: "snd acc = Some k" "k \<in> set (turn_queue b)" "able b k" "turn b k \<le> turn b x"
      using acc(2) by (auto simp: earliest_def set_turn_queue split: option.splits)
    then have "k = x" using inj x by (auto dest: inj_onD intro: antisym)
    with k Cons show ?thesis by (simp add: first_of_def)
  qed
  then show ?thesis using acc(1) unfolding party_size_def by (simp add: select_turn_def)
qed

subsection \<open>Committing an action\<close>

definition known_magic :: "battle \<Rightarrow> u16 \<Rightarrow> bool" where
  "known_magic b w \<longleftrightarrow> unat w < 600 \<and> unat (rgObject (glob b) (unat w) wMagicNumber) < length (lprgMagic b)"

text \<open>Only player \<open>i\<close> and the state of the menu differ; the object of the action is \<open>w\<close>, a magic if one is cast.\<close>

definition deciding :: "battle \<Rightarrow> nat \<Rightarrow> u16 \<Rightarrow> battle \<Rightarrow> bool" where
  "deciding b i w c \<longleftrightarrow> c\<lparr>rgPlayer := rgPlayer b, ui_state := ui_state b\<rparr> = b \<and> (\<forall>j. j \<noteq> i \<longrightarrow> rgPlayer c j = rgPlayer b j)
     \<and> sTurnOrder (rgPlayer c i) = sTurnOrder (rgPlayer b i) \<and> wActionID (action (rgPlayer c i)) = w
     \<and> (ActionType (action (rgPlayer c i)) = kBattleActionMagic \<longrightarrow> known_magic b w)"

lemma deciding_same:
  assumes "deciding b i w c"
  shows "glob c = glob b \<and> lprgMagic c = lprgMagic b"
proof -
  have e: "c\<lparr>rgPlayer := rgPlayer b, ui_state := ui_state b\<rparr> = b" using assms by (simp add: deciding_def)
  show ?thesis using arg_cong [OF e, of glob] arg_cong [OF e, of lprgMagic] by simp
qed

lemma magic_of_run:
  "known_magic b w \<Longrightarrow> magic_of w b = Ret (lprgMagic b ! unat (rgObject (glob b) (unat w) wMagicNumber)) b"
  by (simp add: magic_of_def known_magic_def on_pal_read object_get_def object_word_def magic_data_def)

lemma deciding_player_mod:
  assumes "deciding b i w c" "i < 3" "\<And>p. sTurnOrder (f p) = sTurnOrder p" "\<And>p. wActionID (action (f p)) = wActionID (action p)"
    and "\<And>p. ActionType (action (f p)) = kBattleActionMagic \<Longrightarrow> ActionType (action p) = kBattleActionMagic"
  shows "wp (player_mod i f) (\<lambda>_. deciding b i w) c"
  using assms by (auto simp: wp_def player_mod_run deciding_def)

lemma deciding_set_action:
  assumes "deciding b i w c" "i < 3" "\<And>a. wActionID (f a) = wActionID a"
    and "\<And>a. ActionType (f a) = kBattleActionMagic \<Longrightarrow> ActionType a = kBattleActionMagic"
  shows "wp (set_action i f) (\<lambda>_. deciding b i w) c"
  unfolding set_action_def using assms by (intro deciding_player_mod) simp_all

lemma deciding_reads:
  assumes "deciding b i w c" "party_valid b" "i < party_size b"
  shows "ActionType (action (rgPlayer c i)) = kBattleActionMagic \<Longrightarrow> magic_of w c = Ret (lprgMagic b ! unat (rgObject (glob b) (unat w) wMagicNumber)) c"
    and "party_role i c = Ret (rgParty (glob b) i) c" "wActionID (action (rgPlayer c i)) = w"
    and "on_pal (role_get row (rgParty (glob b) i)) c = Ret (PlayerRoles (glob b) row (unat (rgParty (glob b) i))) c"
proof -
  have g: "glob c = glob b" "lprgMagic c = lprgMagic b" "wActionID (action (rgPlayer c i)) = w" using assms(1) deciding_same [OF assms(1)] by (auto simp: deciding_def)
  then show "wActionID (action (rgPlayer c i)) = w" by simp
  assume "ActionType (action (rgPlayer c i)) = kBattleActionMagic"
  then have "known_magic b w" using assms(1) by (simp add: deciding_def)
  then show "magic_of w c = Ret (lprgMagic b ! unat (rgObject (glob b) (unat w) wMagicNumber)) c"
    using magic_of_run [of c w] g by (simp add: known_magic_def)
next
  have g: "glob c = glob b" using deciding_same [OF assms(1)] by simp
  show "party_role i c = Ret (rgParty (glob b) i) c" using party_role_run [of c i] assms(2,3) g by (simp add: party_valid_def party_size_def)
  show "on_pal (role_get row (rgParty (glob b) i)) c = Ret (PlayerRoles (glob b) row (unat (rgParty (glob b) i))) c"
    by (rule on_pal_read) (use assms(2,3) g in \<open>simp add: role_get_run party_valid_def\<close>)
qed

lemma wp_chosen_action:
  assumes "i < 3" "(if rep then ActionType (action (rgPlayer b i)) else wActionType b) = kBattleActionMagic \<Longrightarrow>
    known_magic b (if rep then wActionID (action (rgPlayer b i)) else wObjectID b)"
  shows "wp (chosen_action rep i) (\<lambda>_. deciding b i (if rep then wActionID (action (rgPlayer b i)) else wObjectID b)) b"
  using assms by (auto simp: wp_def chosen_action_def set_action_def player_mod_run deciding_def)

lemma wp_affordable_action:
  assumes "deciding b i w c" "party_valid b" "i < party_size b"
  shows "wp (affordable_action i) (\<lambda>_. deciding b i w) c"
proof -
  note reads = deciding_reads [OF assms]
  have i: "i < 3" using assms(2,3) by (simp add: party_valid_def)
  have "wp (set_action i (\<lambda>a. a\<lparr>ActionType := kBattleActionDefend\<rparr>)) (\<lambda>_. deciding b i w) c"
    "wp (set_action i (\<lambda>a. a\<lparr>ActionType := kBattleActionAttack, sTarget := (if sTarget a = - 1 then 0 else sTarget a)\<rparr>)) (\<lambda>_. deciding b i w) c"
    by (rule deciding_set_action [OF assms(1) i]; simp)+
  then show ?thesis using assms(1) i
    by (simp add: affordable_action_def wp_Ret_iff player_get_run run_whenM reads)
qed

lemma wp_waiting_time:
  assumes "deciding b i w c" "party_valid b" "i < party_size b"
  shows "wp (waiting_time i) (\<lambda>_ d. deciding b i w d
    \<and> (ActionType (action (rgPlayer d i)) \<noteq> kBattleActionMagic \<longrightarrow> flRemainingTime (action (rgPlayer d i)) = 0)) c"
proof -
  note reads = deciding_reads [OF assms]
  have i: "i < 3" using assms(2,3) by (simp add: party_valid_def)
  have "wp (set_action i (\<lambda>a. a\<lparr>flRemainingTime := t\<rparr>)) (\<lambda>_ d. deciding b i w d
    \<and> ActionType (action (rgPlayer d i)) = ActionType (action (rgPlayer c i)) \<and> flRemainingTime (action (rgPlayer d i)) = t) c" for t
    by (rule wp_conj [OF deciding_set_action [OF assms(1) i]]) (use i in \<open>simp_all add: wp_def set_action_def player_mod_run\<close>)
  then show ?thesis using i
    by (cases "ActionType (action (rgPlayer c i)) = kBattleActionMagic")
      (simp_all add: waiting_time_def wp_Ret_iff player_get_run reads Let_def, blast+)
qed

lemma deciding_turns:
  assumes "deciding b i w c"
  shows "turn c = turn b" "party_size c = party_size b" "turns_ok k c \<longleftrightarrow> turns_ok k b" "turn_queue c = turn_queue b"
proof -
  have g: "glob c = glob b" using deciding_same [OF assms] ..
  have "sTurnOrder (rgPlayer c j) = sTurnOrder (rgPlayer b j)" for j using assms by (cases "j = i") (simp_all add: deciding_def)
  then show t: "turn c = turn b" by (simp add: turn_def fun_eq_iff)
  from g show p: "party_size c = party_size b" by (simp add: party_size_def)
  from t p show q: "turn_queue c = turn_queue b" by (simp add: turn_queue_def)
  from t p q g show "turns_ok k c \<longleftrightarrow> turns_ok k b" by (simp add: turns_ok_def party_valid_def)
qed

lemma wp_commit:
  assumes ok: "turns_ok k b" "0 \<le> k" "k \<le> 9999" and i: "i = unat (wCurPlayerIndex b)" "i < party_size b"
    and known: "(if rep then ActionType (action (rgPlayer b i)) else wActionType b) = kBattleActionMagic \<Longrightarrow>
      known_magic b (if rep then wActionID (action (rgPlayer b i)) else wObjectID b)"
  shows "wp (PAL_BattleCommitAction rep) (\<lambda>_ c. turns_ok (k + 1) c \<and> pl_state (rgPlayer c i) = kFighterAct \<and> ui_state c = kBattleUIWait
    \<and> (ActionType (action (rgPlayer c i)) \<noteq> kBattleActionMagic \<longrightarrow> flRemainingTime (action (rgPlayer c i)) = 0)
    \<and> turn_queue c = filter (\<lambda>j. j \<noteq> i) (turn_queue b) @ (if flRemainingTime (action (rgPlayer c i)) \<le>s 0 then [i] else [])) b"
proof -
  let ?w = "if rep then wActionID (action (rgPlayer b i)) else wObjectID b"
  let ?R = "\<lambda>c. turns_ok (k + 1) c \<and> pl_state (rgPlayer c i) = kFighterAct \<and> ui_state c = kBattleUIWait
    \<and> (ActionType (action (rgPlayer c i)) \<noteq> kBattleActionMagic \<longrightarrow> flRemainingTime (action (rgPlayer c i)) = 0)
    \<and> turn_queue c = filter (\<lambda>j. j \<noteq> i) (turn_queue b) @ (if flRemainingTime (action (rgPlayer c i)) \<le>s 0 then [i] else [])"
  have p: "party_valid b" "i < 3" using ok(1) i(2) by (auto simp: turns_ok_def party_valid_def)
  have last: "wp (bindM (player_get (\<lambda>p. flRemainingTime (action p)) i) (\<lambda>t. if t \<le>s 0 then last_turn i
       else player_mod i (\<lambda>p. p\<lparr>sTurnOrder := - 1\<rparr>))) (\<lambda>_. ?R) d"
    if d: "deciding b i ?w d" "pl_state (rgPlayer d i) = kFighterAct" "ui_state d = kBattleUIWait"
      "ActionType (action (rgPlayer d i)) \<noteq> kBattleActionMagic \<longrightarrow> flRemainingTime (action (rgPlayer d i)) = 0" for d
  proof (cases "flRemainingTime (action (rgPlayer d i)) \<le>s 0")
    case True
    note t = deciding_turns [OF d(1)]
    have td: "sint (sTurnOrder (rgPlayer d j)) = sint (sTurnOrder (rgPlayer b j))" for j using t(1) by (simp add: turn_def fun_eq_iff)
    obtain s where s: "last_turn i d = Ret () (d\<lparr>rgPlayer := (rgPlayer d)(i := (rgPlayer d i)\<lparr>sTurnOrder := s\<rparr>)\<rparr>)"
        "0 \<le> sint s" "sint s \<le> max 0 k" "\<forall>j<party_size d. turn d j < sint s"
      using last_turn_run [of k d i] ok i t by auto
    have "turn_queue (d\<lparr>rgPlayer := (rgPlayer d)(i := (rgPlayer d i)\<lparr>sTurnOrder := s\<rparr>)\<rparr>) = filter (\<lambda>j. j \<noteq> i) (turn_queue d) @ [i]
      \<and> turns_ok (k + 1) (d\<lparr>rgPlayer := (rgPlayer d)(i := (rgPlayer d i)\<lparr>sTurnOrder := s\<rparr>)\<rparr>)"
      by (rule turn_appended) (use s ok i t td in \<open>simp_all add: party_size_def turn_def\<close>)
    then show ?thesis using s(1) d True p t by (simp add: wp_def player_get_run)
  next
    case False
    note t = deciding_turns [OF d(1)]
    have td: "sint (sTurnOrder (rgPlayer d j)) = sint (sTurnOrder (rgPlayer b j))" for j using t(1) by (simp add: turn_def fun_eq_iff)
    have "turn_queue (d\<lparr>rgPlayer := (rgPlayer d)(i := (rgPlayer d i)\<lparr>sTurnOrder := - 1\<rparr>)\<rparr>) = filter (\<lambda>j. j \<noteq> i) (turn_queue d)
      \<and> turns_ok k (d\<lparr>rgPlayer := (rgPlayer d)(i := (rgPlayer d i)\<lparr>sTurnOrder := - 1\<rparr>)\<rparr>)"
      by (rule turn_removed) (use ok i t td in \<open>simp_all add: party_size_def turn_def\<close>)
    then show ?thesis using d False p t by (force simp: wp_def player_get_run player_mod_run turns_ok_def)
  qed
  have act: "wp (player_mod i (\<lambda>p. p\<lparr>pl_state := kFighterAct\<rparr>)) (\<lambda>_ d. deciding b i ?w d \<and> pl_state (rgPlayer d i) = kFighterAct
      \<and> (ActionType (action (rgPlayer d i)) \<noteq> kBattleActionMagic \<longrightarrow> flRemainingTime (action (rgPlayer d i)) = 0)) c"
    if "deciding b i ?w c" "ActionType (action (rgPlayer c i)) \<noteq> kBattleActionMagic \<longrightarrow> flRemainingTime (action (rgPlayer c i)) = 0" for c
    by (rule wp_conj [OF deciding_player_mod]) (use that p(2) in \<open>simp_all add: wp_def player_mod_run\<close>)
  show ?thesis
    unfolding PAL_BattleCommitAction_def wp_bindM wp_seqM wp_getM i(1) [symmetric]
    apply (rule wp_mono [OF wp_chosen_action [OF p(2) known]], assumption)
    apply (rule wp_mono [OF wp_affordable_action], assumption, rule p(1), rule i(2))
    apply (rule wp_mono [OF wp_waiting_time], assumption, rule p(1), rule i(2))
    apply (erule conjE)
    apply (rule wp_mono [OF act], assumption, assumption)
    apply (unfold wp_modM)
    apply (rule last [unfolded wp_bindM])
    apply (auto simp: deciding_def)
    done
qed

text \<open>The player on turn is the first of the queue who can act, and loses the turn.\<close>

lemma wp_after_turn:
  assumes "turns_ok k b" "0 \<le> k" "i < party_size b"
  shows "wp (after_turn i) (\<lambda>_ c. turn_queue c = filter (\<lambda>j. j \<noteq> i) (turn_queue b) \<and> turns_ok k c) b"
proof -
  have i: "i < 3" using assms by (simp add: turns_ok_def party_valid_def)
  let ?c = "b\<lparr>rgPlayer := (rgPlayer b)(i := (rgPlayer b i)\<lparr>flTimeMeter := 0, flTimeSpeedModifier := int2F 1, sTurnOrder := - 1\<rparr>)\<rparr>"
  have "turn_queue ?c = filter (\<lambda>j. j \<noteq> i) (turn_queue b) \<and> turns_ok k ?c"
    by (rule turn_removed [OF assms(1)]) (use assms in \<open>simp_all add: party_size_def turn_def\<close>)
  then show ?thesis using i by (simp add: after_turn_def wp_def player_mod_run)
qed

lemma wp_due_turn:
  assumes "turns_ok k b" "0 \<le> k" "k \<le> 9999" "i < party_size b"
  shows "wp (due_turn i) (\<lambda>_ c. turns_ok (k + 1) c \<and>
    turn_queue c = turn_queue b @ (if flRemainingTime (action (rgPlayer b i)) \<le>s 0 \<and> i \<notin> set (turn_queue b) then [i] else [])) b"
proof -
  have i: "i < 3" using assms by (simp add: turns_ok_def party_valid_def)
  have out: "sTurnOrder (rgPlayer b i) = - 1 \<longleftrightarrow> i \<notin> set (turn_queue b)"
    using assms(4) sint_minus_1 by (simp add: set_turn_queue turn_def)
  show ?thesis
  proof (cases "flRemainingTime (action (rgPlayer b i)) \<le>s 0 \<and> i \<notin> set (turn_queue b)")
    case True
    obtain s where s: "last_turn i b = Ret () (b\<lparr>rgPlayer := (rgPlayer b)(i := (rgPlayer b i)\<lparr>sTurnOrder := s\<rparr>)\<rparr>)"
        "0 \<le> sint s" "sint s \<le> max 0 k" "\<forall>j<party_size b. turn b j < sint s"
      using last_turn_run [OF assms(1,3,4)] by blast
    have "turn_queue (b\<lparr>rgPlayer := (rgPlayer b)(i := (rgPlayer b i)\<lparr>sTurnOrder := s\<rparr>)\<rparr>) = filter (\<lambda>j. j \<noteq> i) (turn_queue b) @ [i]
      \<and> turns_ok (k + 1) (b\<lparr>rgPlayer := (rgPlayer b)(i := (rgPlayer b i)\<lparr>sTurnOrder := s\<rparr>)\<rparr>)"
      by (rule turn_appended [OF assms(1)]) (use s assms in \<open>simp_all add: party_size_def turn_def\<close>)
    moreover have "filter (\<lambda>j. j \<noteq> i) (turn_queue b) = turn_queue b" using True by (intro filter_True) auto
    ultimately show ?thesis using True out s(1) i by (simp add: due_turn_def wp_def player_get_run run_whenM)
  next
    case False
    have "turns_ok (k + 1) b" using assms(1) by (force simp: turns_ok_def)
    then show ?thesis using False out i by (auto simp: due_turn_def wp_def player_get_run run_whenM)
  qed
qed

text \<open>
  C20. The turns of the players are a queue. With distinct turn orders below 9998 and the roles of the party in
  range, committing an action takes the player out of the queue, and puts it at the end if the action needs no
  time; only a magic can need time, and when its time is over, the player who waited outside the queue comes to the
  end. The turn goes to the first player of the queue who has decided and is alive
  or a puppet; after the action that player is out of the queue and all others keep their order.
\<close>

theorem turns_are_a_queue:
  assumes ok: "turns_ok k b" "0 \<le> k" "k \<le> 9998"
    and i: "i = unat (wCurPlayerIndex b)" "i < party_size b"
    and known: "(if rep then ActionType (action (rgPlayer b i)) else wActionType b) = kBattleActionMagic \<Longrightarrow>
      known_magic b (if rep then wActionID (action (rgPlayer b i)) else wObjectID b)"
  shows "wp (PAL_BattleCommitAction rep) (\<lambda>_ c. turns_ok (k + 1) c \<and> pl_state (rgPlayer c i) = kFighterAct
      \<and> (ActionType (action (rgPlayer c i)) \<noteq> kBattleActionMagic \<longrightarrow> flRemainingTime (action (rgPlayer c i)) = 0)
      \<and> turn_queue c = filter (\<lambda>j. j \<noteq> i) (turn_queue b) @ (if flRemainingTime (action (rgPlayer c i)) \<le>s 0 then [i] else [])
      \<and> (\<forall>x<party_size c. wp (due_turn x) (\<lambda>_ d. turns_ok (k + 2) d \<and> turn_queue d = turn_queue c @
          (if flRemainingTime (action (rgPlayer c x)) \<le>s 0 \<and> x \<notin> set (turn_queue c) then [x] else [])) c)
      \<and> select_turn c = Ret (first_of (filter (able c) (turn_queue c))) c
      \<and> (\<forall>x \<in> set (turn_queue c). wp (after_turn x) (\<lambda>_ d. turn_queue d = filter (\<lambda>j. j \<noteq> x) (turn_queue c) \<and> turns_ok (k + 1) d) c)) b"
proof -
  have sel: "select_turn c = Ret (first_of (filter (able c) (turn_queue c))) c" if "turns_ok (k + 1) c" for c
    by (rule select_turn_run) (use that ok(3) in \<open>auto simp: turns_ok_def\<close>)
  have after: "wp (after_turn x) (\<lambda>_ d. turn_queue d = filter (\<lambda>j. j \<noteq> x) (turn_queue c) \<and> turns_ok (k + 1) d) c"
    if "turns_ok (k + 1) c" "x \<in> set (turn_queue c)" for c x
    by (rule wp_after_turn) (use that ok(2) in \<open>auto simp: set_turn_queue\<close>)
  have due: "wp (due_turn x) (\<lambda>_ d. turns_ok (k + 2) d \<and> turn_queue d = turn_queue c @
      (if flRemainingTime (action (rgPlayer c x)) \<le>s 0 \<and> x \<notin> set (turn_queue c) then [x] else [])) c"
    if "turns_ok (k + 1) c" "x < party_size c" for c x
    by (rule wp_mono [OF wp_due_turn [OF that(1) _ _ that(2)]]) (use ok(2,3) in \<open>simp_all add: add.commute [of 2 k]\<close>)
  have k: "k \<le> 9999" using ok(3) by simp
  show ?thesis
    by (rule wp_mono [OF wp_commit [OF ok(1,2) k i known]], assumption) (use sel after due in blast)
qed

text \<open>Three players; the third one and the first one have decided, the second one commits an attack.\<close>

definition waiting_battle :: battle where
  "waiting_battle = \<lparr>glob = some_pal\<lparr>wMaxPartyMemberIndex := 2, rgParty := of_nat, PlayerRoles := (\<lambda>_ _. 100)\<rparr>,
     rgPlayer = (\<lambda>i. \<lparr>pl_iColorShift = 0, flTimeMeter = 0, flTimeSpeedModifier = 0, pl_pos = 0, pl_posOriginal = 0,
       pl_wCurrentFrame = 0, pl_state = (if i = 1 then kFighterCom else kFighterAct),
       action = \<lparr>ActionType = kBattleActionPass, wActionID = 0, sTarget = 0, flRemainingTime = 0\<rparr>,
       fDefending = False, pl_wPrevHP = 0, pl_wPrevMP = 0, sTurnOrder = (if i = 0 then 1 else if i = 1 then - 1 else 0)\<rparr>),
     rgEnemy = (\<lambda>i. \<lparr>en_wObjectID = (if i = 1 then 7 else 0),
       en_e = \<lparr>wIdleFrames = 1, wIdleAnimSpeed = 1, wHealth = 30, en_wExp = 5, wCash = 9, en_wLevel = 1, wStealItem = 0,
         nStealItem = 0, en_wDefense = 0, en_wDexterity = 0, wPoisonResistance = 0, wElemResistance = (\<lambda>_. 0)\<rparr>,
       en_rgwStatus = (\<lambda>_. 0), en_pos = 0, en_posOriginal = 0, en_wCurrentFrame = 0, en_wPrevHP = 0, en_iColorShift = 0\<rparr>),
     wMaxEnemyIndex = 1, iExpGained = 0, iCashGained = 0, fEnemyCleared = False, flTimeChargingUnit = 0,
     ui_state = kBattleUISelectMove, MenuState = kBattleMenuMain, wCurPlayerIndex = 1, wSelectedAction = 0,
     wSelectedIndex = 1, wPrevEnemyTarget = 0, wActionType = kBattleActionAttack, wObjectID = 0, fAutoBattle = False,
     wNumBattleField = 0, dwCash = 0, lprgEnemy = [], lprgMagic = [], lprgBattleField = []\<rparr>"

lemma waiting_battle_ok: "turns_ok 2 waiting_battle" "turn_queue waiting_battle = [2, 0]"
proof -
  have t: "turn waiting_battle 0 = 1" "turn waiting_battle 1 = - 1" "turn waiting_battle 2 = 0"
    by (simp_all add: turn_def waiting_battle_def)
  have n: "party_size waiting_battle = 3" by (simp add: party_size_def waiting_battle_def)
  have three: "j < 3 \<longleftrightarrow> j = 0 \<or> j = 1 \<or> j = (2::nat)" for j by auto
  show q: "turn_queue waiting_battle = [2, 0]"
    by (rule turn_queue_eqI) (use t in \<open>auto simp: n three inj_on_def\<close>)
  have "party_valid waiting_battle" by (auto simp: party_valid_def n three) (simp_all add: waiting_battle_def)
  then show "turns_ok 2 waiting_battle"
    using t q by (auto simp: turns_ok_def n three)
qed

theorem turns_are_a_queue_witness:
  "wp (PAL_BattleCommitAction False) (\<lambda>_ c. turn_queue c = [2, 0, 1] \<and> wp select_turn (\<lambda>t _. t = Some 2) c) waiting_battle"
proof -
  have i: "1 = unat (wCurPlayerIndex waiting_battle)" "1 < party_size waiting_battle"
    "wActionType waiting_battle = kBattleActionAttack"
    by (simp_all add: waiting_battle_def party_size_def)
  have due: "wp (PAL_BattleCommitAction False) (\<lambda>_ c. flRemainingTime (action (rgPlayer c 1)) = 0 \<and> able c 2) waiting_battle"
    by code_simp
  show ?thesis
    by (rule wp_mono [OF wp_conj [OF due turns_are_a_queue [OF waiting_battle_ok(1) _ _ i(1,2), where rep = False]]])
      (use i(3) waiting_battle_ok(2) in \<open>auto simp: first_of_def wp_def\<close>)
qed

end
