(* ===== verification/Pal_Action_Props.thy ===== *)
theory Pal_Action_Props
  imports Pal_Battle_Props
begin

unbundle bit_operations_syntax

text \<open>
  Properties of PAL_BattlePlayerValidateAction: the action a player has when its turn comes is replaced by one
  that is possible.
\<close>

section \<open>States that differ in one action\<close>

definition acting :: "battle \<Rightarrow> nat \<Rightarrow> BATTLEACTION \<Rightarrow> battle" where
  "acting b i a = b\<lparr>rgPlayer := (rgPlayer b)(i := (rgPlayer b i)\<lparr>action := a\<rparr>)\<rparr>"

lemma acting_same: "acting b i (action (rgPlayer b i)) = b"
  by (simp add: acting_def)

lemma acting_reads [simp]:
  "glob (acting b i a) = glob b" "rgEnemy (acting b i a) = rgEnemy b" "wMaxEnemyIndex (acting b i a) = wMaxEnemyIndex b"
  "wPrevEnemyTarget (acting b i a) = wPrevEnemyTarget b" "lprgMagic (acting b i a) = lprgMagic b"
  "action (rgPlayer (acting b i a) i) = a" "flTimeMeter (rgPlayer (acting b i a) j) = flTimeMeter (rgPlayer b j)"
  "pl_state (rgPlayer (acting b i a) j) = pl_state (rgPlayer b j)"
  "party_size (acting b i a) = party_size b" "party_valid (acting b i a) = party_valid b"
  by (simp_all add: acting_def party_size_def party_valid_def)

lemma set_action_acting: "i < 3 \<Longrightarrow> set_action i f (acting b i a) = Ret () (acting b i (f a))"
  by (simp add: set_action_def player_mod_run acting_def)

lemma first_with_run:
  assumes "\<And>j. i \<le> j \<Longrightarrow> j < i + n \<Longrightarrow> test j c = Ret (p j) c"
  shows "first_with test i n c = Ret (List.find p [i..<i + n]) c"
  using assms
proof (induction n arbitrary: i)
  case 0
  then show ?case by simp
next
  case (Suc n)
  have "first_with test (Suc i) n c = Ret (List.find p [Suc i..<Suc i + n]) c" by (rule Suc.IH) (use Suc.prems in auto)
  moreover have "test i c = Ret (p i) c" using Suc.prems by simp
  moreover have "[i..<i + Suc n] = i # [Suc i..<Suc i + n]" by (simp add: upt_conv_Cons)
  ultimately show ?case by simp
qed

lemma first_in_party_run:
  assumes "\<And>j. j < party_size c \<Longrightarrow> test j c = Ret (p j) c"
  shows "first_in_party test c = Ret (find_way (party_size c) p) c"
  using first_with_run [of 0 "party_size c" test c p] assms
  unfolding party_size_def by (simp add: first_in_party_def find_way_def)

section \<open>Targets\<close>

definition present :: "battle \<Rightarrow> int \<Rightarrow> bool" where
  "present b t \<longleftrightarrow> 0 \<le> t \<and> t < 5 \<and> en_wObjectID (rgEnemy b (nat t)) \<noteq> 0"

definition enemies_ok :: "battle \<Rightarrow> bool" where
  "enemies_ok b \<longleftrightarrow> unat (wMaxEnemyIndex b) < 5 \<and> (\<exists>j \<le> unat (wMaxEnemyIndex b). attackable (rgEnemy b j))"

lemma enemy_get_run: "i < 5 \<Longrightarrow> enemy_get f i b = Ret (f (rgEnemy b i)) b"
  by (simp add: enemy_get_def)

definition auto_of :: "battle \<Rightarrow> int" where
  "auto_of b = (if unat (wPrevEnemyTarget b) \<le> unat (wMaxEnemyIndex b) \<and> attackable (rgEnemy b (unat (wPrevEnemyTarget b)))
     then int (unat (wPrevEnemyTarget b))
     else case find_way (unat (wMaxEnemyIndex b) + 1) (\<lambda>j. attackable (rgEnemy b j)) of Some j \<Rightarrow> int j | None \<Rightarrow> - 1)"

lemma select_auto_target:
  assumes "unat (wMaxEnemyIndex b) < 5"
  shows "PAL_BattleSelectAutoTarget b = Ret (auto_of b) b"
proof -
  let ?n = "unat (wMaxEnemyIndex b)" and ?p = "unat (wPrevEnemyTarget b)"
  have run: "first_with (enemy_get attackable) 0 (?n + 1) b = Ret (find_way (?n + 1) (\<lambda>j. attackable (rgEnemy b j))) b"
    using first_with_run [of 0 "?n + 1" "enemy_get attackable" b "\<lambda>j. attackable (rgEnemy b j)"] assms
    by (simp add: enemy_get_run find_way_def)
  have "(if ?p \<le> ?n then enemy_get attackable ?p else ret False) b = Ret (?p \<le> ?n \<and> attackable (rgEnemy b ?p)) b"
    using assms by (simp add: enemy_get_run)
  then show ?thesis using run
    by (simp add: PAL_BattleSelectAutoTarget_def auto_of_def split: option.split)
qed

lemma auto_present:
  assumes "enemies_ok b"
  shows "present b (auto_of b)"
proof (cases "unat (wPrevEnemyTarget b) \<le> unat (wMaxEnemyIndex b) \<and> attackable (rgEnemy b (unat (wPrevEnemyTarget b)))")
  case True
  with assms have "auto_of b = int (unat (wPrevEnemyTarget b))" "unat (wPrevEnemyTarget b) < 5"
    by (simp_all add: auto_of_def enemies_ok_def)
  with True show ?thesis unfolding present_def attackable_def by (simp del: of_nat_unat)
next
  case False
  let ?n = "unat (wMaxEnemyIndex b)"
  obtain t where t: "find_way (?n + 1) (\<lambda>j. attackable (rgEnemy b j)) = Some t"
    using assms find_way_None [of "?n + 1" "\<lambda>j. attackable (rgEnemy b j)"] unfolding enemies_ok_def
    by (metis add.commute less_Suc_eq_le not_Some_eq plus_1_eq_Suc)
  then have "t < ?n + 1" "attackable (rgEnemy b t)" by (auto dest: find_way_SomeD)
  moreover have "auto_of b = int t" unfolding auto_of_def if_not_P [OF False] using t by simp
  ultimately show ?thesis using assms by (simp add: present_def attackable_def enemies_ok_def)
qed

lemma auto_target_acting:
  assumes "enemies_ok b" "i < 3"
  shows "auto_target i (acting b i a) = Ret () (acting b i (a\<lparr>sTarget := word_of_int (auto_of b)\<rparr>))"
proof -
  have "auto_of (acting b i a) = auto_of b" by (simp add: auto_of_def)
  then have "PAL_BattleSelectAutoTarget (acting b i a) = Ret (auto_of b) (acting b i a)"
    using select_auto_target [of "acting b i a"] assms(1) by (simp add: enemies_ok_def)
  then show ?thesis using assms(2) by (simp add: auto_target_def set_target_def set_action_acting)
qed

section \<open>What makes an action possible\<close>

abbreviation (input) role_of :: "battle \<Rightarrow> nat \<Rightarrow> nat" where "role_of b i \<equiv> unat (rgParty (glob b) i)"

definition can_cast :: "battle \<Rightarrow> nat \<Rightarrow> u16 \<Rightarrow> bool" where
  "can_cast b i w \<longleftrightarrow> (\<exists>k<32. PlayerRoles (glob b) (rgwMagic k) (role_of b i) = w) \<and> rgPlayerStatus (glob b) (role_of b i) kStatusSilence = 0
     \<and> wCostMP (lprgMagic b ! unat (rgObject (glob b) (unat w) wMagicNumber)) \<le> PlayerRoles (glob b) rgwMP (role_of b i)"

definition fit :: "battle \<Rightarrow> nat \<Rightarrow> nat \<Rightarrow> bool" where
  "fit b i j \<longleftrightarrow> PlayerRoles (glob b) rgwMaxHP (role_of b j) div 5 \<le> PlayerRoles (glob b) rgwHP (role_of b j)
     \<and> rgPlayerStatus (glob b) (role_of b j) kStatusSilence = 0 \<and> rgPlayerStatus (glob b) (role_of b j) kStatusSleep = 0
     \<and> rgPlayerStatus (glob b) (role_of b j) kStatusConfused = 0 \<and> 100 \<le>s flTimeMeter (rgPlayer b j)
     \<and> (pl_state (rgPlayer b j) = kFighterAct \<longrightarrow> j = i)"

definition hits_all :: "battle \<Rightarrow> nat \<Rightarrow> bool" where
  "hits_all b i \<longleftrightarrow> (\<exists>k<7. rgEquipmentEffect (glob b) k rgwAttackAll (role_of b i) \<noteq> 0)"

definition for_all :: "battle \<Rightarrow> u16 \<Rightarrow> bool" where
  "for_all b w \<longleftrightarrow> bit (rgObject (glob b) (unat w) wFlags) kMagicFlagApplyToAll"

definition offensive :: "battle \<Rightarrow> u16 \<Rightarrow> bool" where
  "offensive b w \<longleftrightarrow> bit (rgObject (glob b) (unat w) wFlags) kMagicFlagUsableToEnemy"

definition mate_alive :: "battle \<Rightarrow> nat \<Rightarrow> nat \<Rightarrow> bool" where
  "mate_alive b i j \<longleftrightarrow> j \<noteq> i \<and> PlayerRoles (glob b) rgwHP (role_of b j) \<noteq> 0"

definition possible :: "battle \<Rightarrow> nat \<Rightarrow> BATTLEACTIONTYPE \<Rightarrow> u16 \<Rightarrow> bool" where
  "possible b i t w = (case t of
     kBattleActionMagic \<Rightarrow> can_cast b i w
   | kBattleActionCoopMagic \<Rightarrow> \<forall>j<party_size b. fit b i j
   | kBattleActionThrowItem \<Rightarrow> PAL_GetItemAmount w (glob b) \<noteq> 0
   | kBattleActionUseItem \<Rightarrow> PAL_GetItemAmount w (glob b) \<noteq> 0
   | kBattleActionAttackMate \<Rightarrow> rgPlayerStatus (glob b) (role_of b i) kStatusConfused \<noteq> 0 \<and> (\<exists>j<party_size b. mate_alive b i j)
   | _ \<Rightarrow> True)"

text \<open>What an impossible action becomes, and whether an action is aimed at enemies.\<close>

definition fallback :: "battle \<Rightarrow> BATTLEACTIONTYPE \<Rightarrow> u16 \<Rightarrow> BATTLEACTIONTYPE" where
  "fallback b t w = (if t = kBattleActionUseItem \<or> t = kBattleActionMagic \<and> \<not> offensive b w then kBattleActionDefend else kBattleActionAttack)"

definition at_enemies :: "battle \<Rightarrow> BATTLEACTIONTYPE \<Rightarrow> u16 \<Rightarrow> bool" where
  "at_enemies b t w \<longleftrightarrow> t \<in> {kBattleActionAttack, kBattleActionCoopMagic, kBattleActionThrowItem} \<or> t = kBattleActionMagic \<and> offensive b w"

text \<open>The states in which the validation runs without an access outside an array.\<close>

definition action_ok :: "battle \<Rightarrow> nat \<Rightarrow> BATTLEACTION \<Rightarrow> bool" where
  "action_ok b i a \<longleftrightarrow> party_valid b \<and> i < party_size b \<and> enemies_ok b \<and> - 1 \<le> sint (sTarget a) \<and> sint (sTarget a) < 5
     \<and> unat (wActionID a) < 600 \<and> (ActionType a = kBattleActionMagic \<longrightarrow> known_magic b (wActionID a))"

section \<open>The parts of the validation\<close>

lemma action_ok_reads:
  assumes "action_ok b i a"
  shows "i < 3" "party_role i (acting b i x) = Ret (rgParty (glob b) i) (acting b i x)" "role_of b i < 6"
    and "has_flag (wActionID a) n (acting b i x) = Ret (bit (rgObject (glob b) (unat (wActionID a)) wFlags) n) (acting b i x)"
    and "player_get f i (acting b i x) = Ret (f (rgPlayer (acting b i x) i)) (acting b i x)"
proof -
  have ok: "party_valid b" "i < party_size b" "unat (wActionID a) < 600" using assms by (simp_all add: action_ok_def)
  then show i: "i < 3" "role_of b i < 6" by (simp_all add: party_valid_def)
  show "party_role i (acting b i x) = Ret (rgParty (glob b) i) (acting b i x)" using party_role_run [of "acting b i x" i] ok by simp
  show "has_flag (wActionID a) n (acting b i x) = Ret (bit (rgObject (glob b) (unat (wActionID a)) wFlags) n) (acting b i x)"
    using ok(3) by (simp add: has_flag_def on_pal_read object_get_def object_word_def)
  show "player_get f i (acting b i x) = Ret (f (rgPlayer (acting b i x) i)) (acting b i x)" using i by (simp add: player_get_run)
qed

lemma magic_usable_run:
  assumes "action_ok b i a" "ActionType a = kBattleActionMagic"
  shows "magic_usable (rgParty (glob b) i) (wActionID a) (acting b i x) = Ret (can_cast b i (wActionID a)) (acting b i x)"
proof -
  have known: "unat (wActionID a) < 600" "unat (rgObject (glob b) (unat (wActionID a)) wMagicNumber) < length (lprgMagic b)"
    using assms by (simp_all add: action_ok_def known_magic_def)
  then show ?thesis using action_ok_reads(3) [OF assms(1)]
    by (auto simp: magic_usable_def find_magic_def on_pal_read object_get_def object_word_def get_status_def role_get_run
        magic_data_def can_cast_def find_way_None not_less simp del: not_None_eq)
qed

lemma not_in_coop_run:
  assumes "party_valid b" "j < party_size b"
  shows "not_in_coop i j (acting b i x) = Ret (\<not> fit b i j) (acting b i x)"
proof -
  have r: "role_of b j < 6" "j < 3" using assms by (auto simp: party_valid_def)
  have "party_role j (acting b i x) = Ret (rgParty (glob b) j) (acting b i x)" using party_role_run [of "acting b i x" j] assms by simp
  then show ?thesis using r
    by (simp add: not_in_coop_def PAL_IsPlayerDying_def on_pal_read role_get_run get_status_def player_get_run fit_def
        word_greater_zero_iff not_less word_sle_eq word_sless_alt) auto
qed

lemma other_alive_run:
  assumes "party_valid b" "j < party_size b"
  shows "other_alive i j (acting b i x) = Ret (mate_alive b i j) (acting b i x)"
proof -
  have r: "role_of b j < 6" using assms by (auto simp: party_valid_def)
  have "party_role j (acting b i x) = Ret (rgParty (glob b) j) (acting b i x)" using party_role_run [of "acting b i x" j] assms by simp
  then show ?thesis using r by (simp add: other_alive_def on_pal_read role_get_run mate_alive_def)
qed

text \<open>
  After the switch: the type is the old one or its fallback, it is possible, and the target is the old one or
  within range.
\<close>

definition switched :: "battle \<Rightarrow> nat \<Rightarrow> BATTLEACTION \<Rightarrow> bool \<Rightarrow> BATTLEACTION \<Rightarrow> bool" where
  "switched b i a toEnemy x \<longleftrightarrow>
     ActionType x = (if possible b i (ActionType a) (wActionID a) then ActionType a else fallback b (ActionType a) (wActionID a))
     \<and> wActionID x = wActionID a \<and> (at_enemies b (ActionType x) (wActionID x) \<longrightarrow> toEnemy)
     \<and> (ActionType x = kBattleActionAttack \<longrightarrow> sTarget x = sTarget a)
     \<and> (sTarget x = sTarget a \<or> sTarget x = - 1 \<or> present b (sint (sTarget x)) \<or> \<not> toEnemy)"

lemma sint_target: "present b t \<Longrightarrow> sint (word_of_int t :: u16) = t"
  by (simp add: present_def signed_of_int signed_take_bit_int_eq_self)

lemma default_target_acting:
  assumes "\<And>x. one (acting b i x) = Ret () (acting b i (x\<lparr>sTarget := t\<rparr>))" "i < 3" "sTarget x = target"
  shows "default_target i target all one (acting b i x) =
    Ret () (acting b i (if all then x\<lparr>sTarget := - 1\<rparr> else if target = - 1 then x\<lparr>sTarget := t\<rparr> else x))"
  using assms by (simp add: default_target_def set_target_def set_action_acting run_whenM)

lemma wp_validate_type:
  assumes ok: "action_ok b i a"
  shows "wp (validate_type i (rgParty (glob b) i) a) (\<lambda>toEnemy c. \<exists>x. c = acting b i x \<and> switched b i a toEnemy x) (acting b i a)"
proof -
  note reads = action_ok_reads [OF ok]
  have e: "enemies_ok b" and p: "party_valid b" using ok by (simp_all add: action_ok_def)
  note auto = auto_target_acting [OF e reads(1)]
  have pr: "present b (sint (word_of_int (auto_of b) :: u16))" using auto_present [OF e] by (simp add: sint_target)
  have self: "set_target i (int i) (acting b i x) = Ret () (acting b i (x\<lparr>sTarget := word_of_int (int i)\<rparr>))" for x
    using reads(1) by (simp add: set_target_def set_action_acting)
  note def_auto = default_target_acting [where one = "auto_target i", OF auto reads(1)]
  note def_self = default_target_acting [where one = "set_target i (int i)", OF self reads(1)]
  note types = set_type_def set_action_acting [OF reads(1)]
  show ?thesis
  proof (cases "ActionType a")
    case kBattleActionMagic
    then show ?thesis using pr
      by (auto simp: wp_def validate_type_def validate_magic_def magic_usable_run [OF ok] reads types def_auto def_self
          switched_def possible_def fallback_def at_enemies_def offensive_def)
  next
    case kBattleActionCoopMagic
    have "first_in_party (not_in_coop i) (acting b i a) = Ret (find_way (party_size b) (\<lambda>j. \<not> fit b i j)) (acting b i a)"
      using first_in_party_run [of "acting b i a" "not_in_coop i" "\<lambda>j. \<not> fit b i j"] not_in_coop_run [OF p] by simp
    moreover have "find_way (party_size b) (\<lambda>j. \<not> fit b i j) = None \<longleftrightarrow> (\<forall>j<party_size b. fit b i j)" by (simp add: find_way_None)
    ultimately show ?thesis using pr kBattleActionCoopMagic
      by (cases "find_way (party_size b) (\<lambda>j. \<not> fit b i j)")
        (auto simp: wp_def validate_type_def validate_coop_def reads types def_auto switched_def possible_def fallback_def at_enemies_def)
  next
    case kBattleActionAttackMate
    have "first_in_party (other_alive i) (acting b i a) = Ret (find_way (party_size b) (mate_alive b i)) (acting b i a)"
      using first_in_party_run [of "acting b i a" "other_alive i" "mate_alive b i"] other_alive_run [OF p] by simp
    moreover have "find_way (party_size b) (mate_alive b i) = None \<longleftrightarrow> \<not> (\<exists>j<party_size b. mate_alive b i j)" by (auto simp: find_way_None)
    ultimately show ?thesis using kBattleActionAttackMate reads(3)
      by (cases "find_way (party_size b) (mate_alive b i)")
        (auto simp: wp_def validate_type_def validate_mate_def on_pal_read get_status_def types switched_def possible_def fallback_def at_enemies_def)
  next
    case kBattleActionThrowItem
    then show ?thesis using pr
      by (auto simp: wp_def validate_type_def validate_item_def item_amount_def reads types def_auto switched_def possible_def fallback_def at_enemies_def)
  next
    case kBattleActionUseItem
    then show ?thesis
      by (auto simp: wp_def validate_type_def validate_item_def item_amount_def reads types def_self switched_def possible_def fallback_def at_enemies_def)
  qed (auto simp: wp_def validate_type_def switched_def possible_def at_enemies_def)
qed

lemma attack_target_acting:
  assumes "action_ok b i a"
  shows "attack_target i (rgParty (glob b) i) t (acting b i x) = Ret () (acting b i
    (if ActionType x \<noteq> kBattleActionAttack then x
     else if hits_all b i then (if t = - 1 then x else x\<lparr>sTarget := - 1\<rparr>)
     else if t = - 1 then x\<lparr>sTarget := word_of_int (auto_of b)\<rparr> else x))"
proof -
  note reads = action_ok_reads [OF assms]
  have "on_pal (PAL_PlayerCanAttackAll (rgParty (glob b) i)) (acting b i x) = Ret (hits_all b i) (acting b i x)"
    by (rule on_pal_read) (use reads(3) in \<open>auto simp: PAL_PlayerCanAttackAll_def hits_all_def find_way_None simp del: not_None_eq\<close>)
  then show ?thesis using assms reads(1)
    by (simp add: attack_target_def reads run_whenM auto_target_acting action_ok_def set_target_def set_action_acting)
qed

lemma unat_sint:
  assumes "0 \<le> sint (w :: u16)"
  shows "unat w = nat (sint w)"
proof -
  have "uint w < 65536" using uint_lt2p [of w] by simp
  then have "sint w = uint w" using assms unfolding sint16 [of w] by (simp split: if_splits)
  then show ?thesis by (simp only: nat_uint_eq)
qed

lemma enemy_present_acting:
  assumes "action_ok b i a" "sint (sTarget x) < 5"
  shows "\<exists>t. enemy_present i (acting b i x) = Ret () (acting b i (x\<lparr>sTarget := t\<rparr>))
    \<and> (if sint (sTarget x) < 0 then t = sTarget x else present b (sint t))"
proof (cases "sint (sTarget x) < 0")
  case True
  note reads = action_ok_reads [OF assms(1)]
  from True have "enemy_present i (acting b i x) = Ret () (acting b i (x\<lparr>sTarget := sTarget x\<rparr>))"
    by (simp add: enemy_present_def run_whenM word_sle_eq reads)
  with True show ?thesis by (intro exI [of _ "sTarget x"]) simp
next
  case False
  let ?n = "nat (sint (sTarget x))"
  have e: "enemies_ok b" using assms(1) by (simp add: action_ok_def)
  note reads = action_ok_reads [OF assms(1)]
  have n: "unat (sTarget x) = ?n" "?n < 5" using False assms(2) unat_sint by auto
  have pr: "sint (word_of_int (auto_of b) :: u16) = auto_of b" "present b (auto_of b)" using auto_present [OF e] by (simp_all add: sint_target)
  have get: "enemy_get en_wObjectID ?n (acting b i x) = Ret (en_wObjectID (rgEnemy b ?n)) (acting b i x)" using n(2) by (simp add: enemy_get_run)
  show ?thesis
  proof (cases "en_wObjectID (rgEnemy b ?n) = 0")
    case True
    then have "enemy_present i (acting b i x) = Ret () (acting b i (x\<lparr>sTarget := word_of_int (auto_of b)\<rparr>))"
      using False pr by (simp add: enemy_present_def reads run_whenM word_sle_eq n(1) get auto_target_acting [OF e reads(1)] present_def)
    then show ?thesis using False pr by (intro exI [of _ "word_of_int (auto_of b)"]) simp
  next
    case nonzero: False
    then have "enemy_present i (acting b i x) = Ret () (acting b i (x\<lparr>sTarget := sTarget x\<rparr>))"
      using False by (simp add: enemy_present_def reads run_whenM word_sle_eq n(1) get)
    then show ?thesis using False nonzero n(2) by (intro exI [of _ "sTarget x"]) (simp add: present_def)
  qed
qed

section \<open>The validated action\<close>

text \<open>
  C19. When its turn comes, the action of a player is kept if it is possible and replaced otherwise: a magic the
  player knows, is not kept from by silence and has the magic points for; a cooperative magic for which nobody
  in the party is weak, silenced, asleep, confused, busy or without time; an item that is there; an attack on
  another living member by a confused player. A magic meant for the party or the use of an item becomes a
  defence, anything else an attack. Afterwards an action against one enemy is aimed at an enemy that is there,
  an attack is on all enemies exactly if the player's equipment allows it, and nothing else has changed. One
  enemy at least must be left, and the target is everyone or one of the five places.
\<close>

theorem validated_action:
  assumes "action_ok b i a" "a = action (rgPlayer b i)"
  shows "wp (PAL_BattlePlayerValidateAction i) (\<lambda>_ c. let x = action (rgPlayer c i); t = ActionType x; w = wActionID a in
      c = acting b i x \<and> wActionID x = w
      \<and> t = (if possible b i (ActionType a) w then ActionType a else fallback b (ActionType a) w)
      \<and> (at_enemies b t w \<longrightarrow> sTarget x = - 1 \<or> present b (sint (sTarget x)))
      \<and> (t = kBattleActionAttack \<longrightarrow> (sTarget x = - 1 \<longleftrightarrow> hits_all b i))) b"
proof -
  note reads = action_ok_reads [OF assms(1)]
  have b: "acting b i a = b" using assms(2) acting_same by simp
  have range: "- 1 \<le> sint (sTarget a)" "sint (sTarget a) < 5" and e: "enemies_ok b" using assms(1) by (simp_all add: action_ok_def)
  obtain toE x where x: "validate_type i (rgParty (glob b) i) a b = Ret toE (acting b i x)" "switched b i a toE x"
    using wp_validate_type [OF assms(1)] unfolding b wp_Ret_iff by blast
  define y where "y = (if ActionType x \<noteq> kBattleActionAttack then x
     else if hits_all b i then (if sTarget a = - 1 then x else x\<lparr>sTarget := - 1\<rparr>)
     else if sTarget a = - 1 then x\<lparr>sTarget := word_of_int (auto_of b)\<rparr> else x)"
  have y: "attack_target i (rgParty (glob b) i) (sTarget a) (acting b i x) = Ret () (acting b i y)"
    unfolding y_def by (rule attack_target_acting [OF assms(1)])
  have same: "ActionType y = ActionType x" "wActionID y = wActionID x" by (simp_all add: y_def)
  have auto: "present b (sint (word_of_int (auto_of b) :: u16))" using auto_present [OF e] by (simp add: sint_target)
  have attack: "ActionType x = kBattleActionAttack \<Longrightarrow> sTarget y = - 1 \<longleftrightarrow> hits_all b i"
    using x(2) auto by (auto simp: y_def switched_def present_def)
  have m1: "sint (sTarget z) = - 1 \<longleftrightarrow> sTarget z = - 1" for z by (rule sint_minus_1)
  have target: "toE \<Longrightarrow> sint (sTarget y) < 5 \<and> (sint (sTarget y) < 0 \<longrightarrow> sTarget y = - 1)"
    using x(2) range auto m1 [of a] by (auto simp: y_def switched_def present_def)
  have start: "PAL_BattlePlayerValidateAction i b = whenM toE (enemy_present i) (acting b i y)"
    using reads(2) [of a] reads(5) [of action a] x(1) y assms(2) unfolding b by (simp add: PAL_BattlePlayerValidateAction_def)
  show ?thesis
  proof (cases toE)
    case False
    then have "\<not> at_enemies b (ActionType y) (wActionID a)" using x(2) same by (auto simp: switched_def)
    then show ?thesis using start False x(2) same by (auto simp: wp_def run_whenM switched_def Let_def at_enemies_def)
  next
    case True
    obtain t where t: "enemy_present i (acting b i y) = Ret () (acting b i (y\<lparr>sTarget := t\<rparr>))"
        "if sint (sTarget y) < 0 then t = sTarget y else present b (sint t)"
      using enemy_present_acting [OF assms(1)] target [OF True] by blast
    then have "t = - 1 \<or> present b (sint t)" "t = - 1 \<longleftrightarrow> sTarget y = - 1"
      using target [OF True] by (auto simp: present_def split: if_splits)
    then show ?thesis using start True t(1) x(2) same attack
      by (auto simp: wp_def run_whenM switched_def Let_def)
  qed
qed

text \<open>
  The second player of three throws an item that is not there at the enemy in place 0, who is gone; the only one
  left is in place 1.
\<close>

definition throwing_battle :: battle where
  "throwing_battle = acting waiting_battle 1 \<lparr>ActionType = kBattleActionThrowItem, wActionID = 9, sTarget = 0, flRemainingTime = 0\<rparr>"

theorem validated_action_witness:
  "wp (PAL_BattlePlayerValidateAction 1) (\<lambda>_ c. ActionType (action (rgPlayer c 1)) = kBattleActionAttack
     \<and> sint (sTarget (action (rgPlayer c 1))) = 1) throwing_battle"
proof -
  let ?a = "action (rgPlayer throwing_battle 1)"
  have a: "ActionType ?a = kBattleActionThrowItem" "wActionID ?a = 9" "sTarget ?a = 0" by (simp_all add: throwing_battle_def)
  have ok: "action_ok throwing_battle 1 ?a"
    using waiting_battle_ok(1) a by (auto simp: action_ok_def turns_ok_def throwing_battle_def enemies_ok_def)
      (auto simp: waiting_battle_def party_size_def attackable_def intro: exI [of _ 1])
  have none: "PAL_GetItemAmount 9 (glob throwing_battle) = 0"
    by (auto simp: PAL_GetItemAmount_def throwing_battle_def waiting_battle_def some_pal_def split: option.split)
  have one: "\<not> hits_all throwing_battle 1" by (simp add: hits_all_def throwing_battle_def waiting_battle_def some_pal_def)
  have there: "present throwing_battle t \<longleftrightarrow> t = 1" for t by (auto simp: present_def throwing_battle_def waiting_battle_def)
  show ?thesis
    by (rule wp_mono [OF validated_action [OF ok refl]])
      (use none one there a in \<open>auto simp: Let_def possible_def fallback_def at_enemies_def\<close>)
qed

end
