(* ===== verification/Pal_Input.thy ===== *)
theory Pal_Input
  imports Prelude
begin

unbundle bit_operations_syntax

text \<open>
  The arrow keys and command keys of the role-playing game: game/src/nemu-pal/device/input.c, and the tables of
  keys in hal/keyboard.c. \<open>process_keys\<close>, which would call the two handlers, is unfinished; the properties hold
  for every order in which they are called.
\<close>

section \<open>Keys\<close>

datatype keycode = K_UP | K_DOWN | K_LEFT | K_RIGHT | K_ESCAPE | K_RETURN | K_SPACE | K_PAGEUP | K_PAGEDOWN | K_r | K_a | K_d
  | K_e | K_w | K_q | K_s | K_f | K_p | K_other

definition keycode_array :: "keycode list" where
  "keycode_array = [K_UP, K_DOWN, K_LEFT, K_RIGHT, K_ESCAPE, K_RETURN, K_SPACE, K_PAGEUP, K_PAGEDOWN, K_r,
     K_a, K_d, K_e, K_w, K_q, K_s, K_f, K_p]"

datatype PALDIRECTION = kDirSouth | kDirWest | kDirNorth | kDirEast | kDirUnknown

record PALINPUTSTATE =
  in_dir :: PALDIRECTION
  prevdir :: PALDIRECTION
  dwKeyPress :: u32

section \<open>The handlers\<close>

text \<open>The bit of \<open>dwKeyPress\<close> a key sets; \<open>K_p\<close> takes a screenshot, which \<open>SDL_SaveBMP\<close> does not do.\<close>

definition key_mask :: "keycode \<Rightarrow> u32" where
  "key_mask k = (case k of
     K_UP \<Rightarrow> push_bit 4 1 | K_DOWN \<Rightarrow> push_bit 2 1 | K_LEFT \<Rightarrow> push_bit 3 1 | K_RIGHT \<Rightarrow> push_bit 5 1
   | K_ESCAPE \<Rightarrow> push_bit 0 1 | K_RETURN \<Rightarrow> push_bit 1 1 | K_SPACE \<Rightarrow> push_bit 1 1
   | K_PAGEUP \<Rightarrow> push_bit 6 1 | K_PAGEDOWN \<Rightarrow> push_bit 7 1 | K_r \<Rightarrow> push_bit 8 1 | K_a \<Rightarrow> push_bit 9 1
   | K_d \<Rightarrow> push_bit 10 1 | K_e \<Rightarrow> push_bit 11 1 | K_w \<Rightarrow> push_bit 12 1 | K_q \<Rightarrow> push_bit 13 1
   | K_s \<Rightarrow> push_bit 14 1 | K_f \<Rightarrow> push_bit 15 1 | K_p \<Rightarrow> 0 | K_other \<Rightarrow> 0)"

definition key_direction :: "keycode \<Rightarrow> PALDIRECTION option" where
  "key_direction k = (case k of K_UP \<Rightarrow> Some kDirNorth | K_DOWN \<Rightarrow> Some kDirSouth | K_LEFT \<Rightarrow> Some kDirWest | K_RIGHT \<Rightarrow> Some kDirEast | _ \<Rightarrow> None)"

definition PAL_KeyPressHandler :: "bool \<Rightarrow> keycode \<Rightarrow> PALINPUTSTATE \<Rightarrow> PALINPUTSTATE" where
  "PAL_KeyPressHandler fInBattle k s =
     (let s = (case key_direction k of None \<Rightarrow> s
        | Some d \<Rightarrow> s\<lparr>prevdir := (if fInBattle then kDirUnknown else in_dir s), in_dir := d\<rparr>) in
      s\<lparr>dwKeyPress := dwKeyPress s OR key_mask k\<rparr>)"

definition PAL_KeyReleaseHandler :: "keycode \<Rightarrow> PALINPUTSTATE \<Rightarrow> PALINPUTSTATE" where
  "PAL_KeyReleaseHandler k s = (case key_direction k of None \<Rightarrow> s
     | Some d \<Rightarrow> (if in_dir s = d then s\<lparr>in_dir := prevdir s\<rparr> else s)\<lparr>prevdir := kDirUnknown\<rparr>)"

definition PAL_ClearKeyState :: "PALINPUTSTATE \<Rightarrow> PALINPUTSTATE" where
  "PAL_ClearKeyState s = s\<lparr>dwKeyPress := 0\<rparr>"

definition PAL_InitInput :: PALINPUTSTATE where
  "PAL_InitInput = \<lparr>in_dir = kDirUnknown, prevdir = kDirUnknown, dwKeyPress = 0\<rparr>"

section \<open>The direction of the most recent key\<close>

text \<open>Events on the keyboard, and the keys held down with the most recent one first.\<close>

datatype key_event = Press keycode | Release keycode | Clear

primrec handle :: "key_event \<Rightarrow> PALINPUTSTATE \<Rightarrow> PALINPUTSTATE" where
  "handle (Press k) s = PAL_KeyPressHandler False k s"
| "handle (Release k) s = PAL_KeyReleaseHandler k s"
| "handle Clear s = PAL_ClearKeyState s"

primrec keys_down :: "key_event \<Rightarrow> keycode list \<Rightarrow> keycode list" where
  "keys_down (Press k) ks = k # ks"
| "keys_down (Release k) ks = removeAll k ks"
| "keys_down Clear ks = ks"

text \<open>The arrow keys among them, as directions.\<close>

definition arrows :: "keycode list \<Rightarrow> PALDIRECTION list" where
  "arrows ks = List.map_filter key_direction ks"

text \<open>A keyboard presses keys that are up and releases keys that are down; at most two arrow keys are down.\<close>

primrec plausible :: "key_event list \<Rightarrow> keycode list \<Rightarrow> bool" where
  "plausible [] ks = True"
| "plausible (e # es) ks =
     ((case e of Press k \<Rightarrow> k \<notin> set ks | Release k \<Rightarrow> k \<in> set ks | Clear \<Rightarrow> True)
      \<and> length (arrows (keys_down e ks)) \<le> 2 \<and> plausible es (keys_down e ks))"

definition nth_direction :: "PALDIRECTION list \<Rightarrow> nat \<Rightarrow> PALDIRECTION" where
  "nth_direction ds n = (if n < length ds then ds ! n else kDirUnknown)"

text \<open>The keys pressed since the last time the record was cleared.\<close>

primrec pressed :: "key_event \<Rightarrow> keycode list \<Rightarrow> keycode list" where
  "pressed (Press k) ks = k # ks"
| "pressed (Release k) ks = ks"
| "pressed Clear ks = []"

definition follows :: "PALINPUTSTATE \<Rightarrow> keycode list \<Rightarrow> keycode list \<Rightarrow> bool" where
  "follows s ks ps \<longleftrightarrow> in_dir s = nth_direction (arrows ks) 0 \<and> prevdir s = nth_direction (arrows ks) 1
     \<and> dwKeyPress s = foldr (\<lambda>k m. m OR key_mask k) ps 0 \<and> distinct ks \<and> length (arrows ks) \<le> 2"

lemma arrows_Cons: "arrows (k # ks) = (case key_direction k of None \<Rightarrow> arrows ks | Some d \<Rightarrow> d # arrows ks)"
  by (simp add: arrows_def List.map_filter_def split: option.split)

lemma key_direction_inj: "key_direction k = Some d \<Longrightarrow> key_direction l = Some d \<Longrightarrow> k = l"
  by (cases k; cases l) (auto simp: key_direction_def)

lemma arrows_removeAll:
  "arrows (removeAll k ks) = (case key_direction k of None \<Rightarrow> arrows ks | Some d \<Rightarrow> removeAll d (arrows ks))"
proof (induction ks)
  case Nil
  then show ?case by (simp add: arrows_def List.map_filter_def split: option.split)
next
  case (Cons l ks)
  then show ?case
    by (cases "key_direction k"; cases "key_direction l") (auto simp: arrows_Cons dest: key_direction_inj)
qed

lemma in_arrows: "d \<in> set (arrows ks) \<longleftrightarrow> (\<exists>k \<in> set ks. key_direction k = Some d)"
  by (force simp: arrows_def List.map_filter_def)

lemma distinct_arrows: "distinct ks \<Longrightarrow> distinct (arrows ks)"
proof (induction ks)
  case Nil
  then show ?case by (simp add: arrows_def List.map_filter_def)
next
  case (Cons k ks)
  then show ?case by (cases "key_direction k") (auto simp: arrows_Cons in_arrows dest: key_direction_inj)
qed

lemma two_list: "length xs \<le> 2 \<Longrightarrow> xs = [] \<or> (\<exists>x. xs = [x]) \<or> (\<exists>x y. xs = [x, y])"
  by (cases xs; cases "tl xs") auto

lemma known_direction: "key_direction k = Some d \<Longrightarrow> d \<noteq> kDirUnknown"
  by (cases k) (auto simp: key_direction_def)

lemma handle_follows:
  assumes "follows s ks ps" "plausible (e # es) ks"
  shows "follows (handle e s) (keys_down e ks) (pressed e ps)"
proof (cases e)
  case (Press k)
  then show ?thesis using assms
    by (cases "key_direction k")
      (auto simp: follows_def PAL_KeyPressHandler_def arrows_Cons nth_direction_def split: if_splits)
next
  case Clear
  then show ?thesis using assms by (simp add: follows_def PAL_ClearKeyState_def)
next
  case (Release k)
  show ?thesis
  proof (cases "key_direction k")
    case None
    then show ?thesis using assms Release
      by (simp add: follows_def PAL_KeyReleaseHandler_def arrows_removeAll distinct_removeAll)
  next
    case (Some d)
    have d: "d \<in> set (arrows ks)" using assms(2) Release Some by (auto simp: in_arrows)
    have "distinct (arrows ks)" using assms(1) by (simp add: follows_def distinct_arrows)
    moreover have "kDirUnknown \<notin> set (arrows ks)" using known_direction by (auto simp: in_arrows)
    ultimately show ?thesis using two_list [of "arrows ks"] assms d Release Some
      by (auto simp: follows_def PAL_KeyReleaseHandler_def arrows_removeAll distinct_removeAll nth_direction_def)
  qed
qed

text \<open>
  C37. The handlers of the keyboard against the list of keys that are held: after any sequence of key presses,
  releases and clearings outside of battles, in which a key is pressed only while it is up (no auto-repeat) and at most
  two arrow keys are down at a time, the direction is the
  one of the arrow key pressed last among those that are still down, none if none is down, and the previous
  direction that of the other one; and the record of commands has the keys pressed since it was last cleared.
\<close>

theorem direction_is_most_recent:
  assumes "plausible es []"
  shows "let s = fold handle es PAL_InitInput; ks = fold keys_down es [] in
    in_dir s = nth_direction (arrows ks) 0 \<and> prevdir s = nth_direction (arrows ks) 1
    \<and> dwKeyPress s = foldr (\<lambda>k m. m OR key_mask k) (fold pressed es []) 0"
proof -
  have "follows (fold handle es s) (fold keys_down es ks) (fold pressed es ps)" if "follows s ks ps" "plausible es ks" for s ks ps
    using that
  proof (induction es arbitrary: s ks ps)
    case (Cons e es)
    from handle_follows [OF Cons.prems] Cons.prems(2) show ?case by (auto intro: Cons.IH)
  qed simp
  from this [of PAL_InitInput "[]" "[]"] have "follows (fold handle es PAL_InitInput) (fold keys_down es []) (fold pressed es [])"
    using assms by (simp add: follows_def PAL_InitInput_def arrows_def List.map_filter_def nth_direction_def)
  then show ?thesis by (simp add: follows_def Let_def)
qed

text \<open>Up, left and the search key are pressed, left is released.\<close>

theorem direction_is_most_recent_witness:
  "let s = fold handle [Press K_UP, Press K_LEFT, Press K_SPACE, Release K_LEFT] PAL_InitInput in
    in_dir s = kDirNorth \<and> prevdir s = kDirUnknown \<and> dwKeyPress s = 0x1a"
proof -
  have "plausible [Press K_UP, Press K_LEFT, Press K_SPACE, Release K_LEFT] []" by code_simp
  from direction_is_most_recent [OF this] show ?thesis
    by (simp add: Let_def nth_direction_def arrows_def List.map_filter_def key_direction_def key_mask_def)
qed

end
