(* ===== verification/Spec2Isabelle.thy ===== *)
theory Spec2Isabelle
  imports Cache_Correct Arith_Props Watch_Props Branch_Props Monitor_Props Kernel_Vectors Kernel_Boot Typing_Run Elf Pal_Player_Props Pal_YJ1 Pal_Bitmaps Pal_Scene_Props Pal_Movie_Props
    Pal_Action_Props Pal_Input
begin

text \<open>
  A model of NEMU2020: the x86 emulator (nemu), the kernel that runs on it (kernel), the fixed-point library
  of its programs (lib-common/FLOAT), the typing game (game/src/typing) and the core of the role-playing game
  (game/src/nemu-pal).

  How the parts interact. The main loop \<open>cpu_exec\<close> of the emulator decodes and executes one instruction per
  round, delivers a pending interrupt, and lets the devices catch up with the host. Instructions reach
  memory through segmentation, paging with a TLB, two cache levels and DRAM row buffers, or through the
  memory-mapped frame buffer; port instructions reach the device callbacks. The kernel drives the emulated
  disk, serial port and interrupt controller through those ports, builds the page and descriptor tables that
  the emulator walks, and loads the user program. The typing game runs on top with its own interrupt routines.
  The role-playing game reads archives of compressed data, keeps the state of its players, and moves and draws
  figures on a map.

  Operations are functions of type \<open>(state, result) M\<close>: they return a value and a state (\<open>Ret\<close>), leave by
  \<open>longjmp\<close> (\<open>Jmp\<close>), or stop with an error value (\<open>Err\<close>): a failed assertion, a panic, an access
  outside an array, a null or dangling pointer, a division trap, another undefined operation. \<open>wp m Q s\<close> says
  that \<open>m\<close> started in \<open>s\<close> returns and its result satisfies \<open>Q\<close>, so each such statement includes that no
  error occurs.

  The theories:
  \<^item> Prelude: machine integers, outcomes and state combinators with their rules, little-endian bytes.
  \<^item> Byte_Store, Dram, Cache, Block_Cache, Cache_Correct (nemu/src/memory/dram.c, cache.c): the locale
    \<open>byte_store\<close> states what each memory level offers to the next one; DRAM and both caches are
    interpretations, so reads and writes through all of them behave like a flat byte memory, as long as no
    dirty block is replaced, where the code loses data.
  \<^item> Machine, Regs (nemu/include/cpu, nemu/src/cpu/reg.c): the state of the machine; register views, flags.
  \<^item> Memory, Mmio, Paging (nemu/src/memory/memory.c, TLB.c, nemu/src/device/io/mmio.c): address
    translation is the two-level page walk; linear and segmented accesses read and write the translated bytes, at
    any segment base.
  \<^item> Pic, Devices, Device_Props (nemu/src/device): interrupt controller as a set of requests, port I/O,
    serial port, timer, keyboard, IDE, VGA, SDL events as an argument. The screen after any sequence of writes and
    updates, with the lines that an unaligned write leaves behind.
  \<^item> Decode, Operands, Arith, Logic, DataMov, ConTran, Strings, System, Exec (nemu/src/cpu): ModR/M and
    operand decoding, every instruction template, the dispatch tables and the prefixes. The widths of the
    templates are the values of \<open>width\<close>.
  \<^item> Arith_Props, Flat_Mode, Branch_Props, Stack_Props, String_Props: results and flags against integer
    arithmetic, comparisons and jumps (with the word comparison whose sign-extended byte is wider than its
    destination), stack instructions, interrupt entry and return, \<open>rep movs\<close>.
  \<^item> Expr, Watch, Watch_Props, Monitor, Monitor_Props (nemu/src/monitor): expressions, watchpoints as
    two lists, debugger commands, main loop, start-up, waking up from \<open>hlt\<close>.
  \<^item> Elf (nemu/src/monitor/debug/elf.c): the symbol and string tables of the debugged program; what a linker
    wrote is read back.
  \<^item> Sector_Buffer, Disk_Driver (kernel/src/driver/ide): the locale \<open>sector_disk\<close> is what the sector buffer needs of
    the driver; the driver running on the emulated controller is an interpretation of it, so the whole
    stack behaves like one byte array.
  \<^item> Kernel_Irq, Kernel_Props (kernel/src/irq, syscall, fs, lib): console, interrupt routines, system calls, and
    what the break calls ask of the allocator.
  \<^item> Kernel_Memory, Kernel_Memory_Props (kernel/src/memory, irq/idt.c): page tables under the page walk of
    the emulator, contents of segment descriptors and gates.
  \<^item> Kernel_Vectors: reads and writes with paging on that leave the page tables alone, and the delivery of every
    vector through the descriptors and gates of the kernel, with its page tables in force.
  \<^item> Kernel_Boot (kernel/src/main.c, elf, driver/ramdisk.c): start-up and the program loader.
  \<^item> Float, Float_Props (lib-common/FLOAT): fixed-point arithmetic against exact arithmetic, termination and
    accuracy of the square root, conversion and printing.
  \<^item> Game_Video, Typing, Typing_Props, Typing_Run (game): drawing, the typing game, its linked list as a
    sequence, and its main loop, which runs on for ever whatever the interrupts, keys and random numbers.
  \<^item> Pal_State, Pal_Props, Pal_Player_Props (game/src/nemu-pal/global/global.c, misc/util.c): the state of the
    players. The locale \<open>item_bag\<close> says what an inventory is, and is interpreted on the functions that add, count and
    compress; health, poisons, random numbers.
  \<^item> Pal_Files, Pal_Files_Props, Pal_YJ1, Pal_Bitmaps (game/src/nemu-pal/global/palcommon.c, misc/yj1.c): archives,
    decompression and bitmaps. What a compressor or a bitmap encoder writes is read back and drawn. On other data the
    decoders of the code may read on behind the end of the source, where the model stops with an error.
  \<^item> Pal_Movie, Pal_Movie_Props (game/src/nemu-pal/misc/rngplay.c): the frames of movies, from the archive to
    the screen.
  \<^item> Pal_Scene, Pal_Scene_Props (game/src/nemu-pal/scene, global/res.c, game/script.c): the map, obstacles, the
    party that walks, figures that are sent to a place or chase the party, and the order in which they are drawn.
  \<^item> Pal_Battle, Pal_Battle_Props, Pal_Action_Props (game/src/nemu-pal/battle/fight.c, ui/uibattle.c): the rules of
    battles: damage against exact arithmetic, the turns of the players as a queue, and what the validation of
    an action makes of each kind of action.
  \<^item> Pal_Input (game/src/nemu-pal/device/input.c): the handlers of the keyboard against the list of held keys.

  Bounds. \<open>exec n\<close> cuts the nesting of prefixes and the rounds of a repeat prefix off at \<open>n\<close>; the theorem on
  \<open>rep movs\<close> shows that a bound above the count register is enough. \<open>whileM n\<close> cuts a loop off after \<open>n\<close>
  rounds and stops with \<open>OutOfFuel\<close>; its rule \<open>wp_whileM\<close> asks for a measure, so the theorems that use it show that the
  bound suffices. The polling loops of the disk driver end in the first round on the emulated controller.
  The loops over the letters of the game follow at most 1001 nodes, the size of the pool; 14 rounds are
  enough for the search for hit letters. The Newton loops are partial functions, and the square root is
  shown to return. The decoders of the role-playing game are cut off after \<open>8 * n + 2\<close> steps for \<open>n\<close> bytes of
  compressed data (every step reads a bit), 256 rounds for a run of pixels, and \<open>n + 1\<close> runs of a bitmap or operations
  of a movie frame of \<open>n\<close> bytes; \<open>decoders_end\<close> and \<open>movies_end\<close> show that these bounds are never what stops the
  model. They do not show that the code ends on damaged data: there the model stops at the first read behind the
  source, which the code does not check.

  Not modelled, and why. The disassembly text and the register display only print. The SDL window, file
  and terminal input and output of the host are library calls; their effects are arguments (events, disk
  image) or records (serial output, screen). The assembly of kernel/src/start.S and do_irq.S, and the first half of
  the kernel's \<open>init\<close>, which jumps to virtual addresses, have no C semantics. kernel/src/memory/mm_malloc.o is an object
  file without source; the kernel model takes it as an argument. The DMA preparation of the kernel
  is an unfinished stub. modify_vfprintf and modify_ppfs_setargs patch instructions of the compiled C library.
  lib-common/uclibc is a vendored C library, testcase a set of test programs.

  Of game/src/nemu-pal these parts are left out: the interpreter of the script instructions (game/script.c) and
  what runs scripts (game/play.c, PAL_UpdateEquipments); the frame loop of battles and the performing of actions
  (battle), which mix their rules with waiting and drawing; menus and dialogues (ui); saving and loading, and loading of resources, which are sequences of calls
  on files; palettes, sound and credits (device without input.c, misc/ending.c, unuse), which only put out; everything that waits with
  \<open>SDL_GetTicks\<close>, since hal/timer.c, like most of hal, is an unfinished stub that fails its assertion: the walks of
  the party in scripts, the fading of scenes and the loop that plays a movie. The fonts in include are data.
\<close>

end
